(* ===== verification/OvPrelude.thy ===== *)
theory OvPrelude
  imports Main "HOL-Library.Word" "HOL-Library.Signed_Division" "HOL-Library.Multiset"
begin

text \<open>
  Shared vocabulary of the development: the machine integer types of libov/ov_ov.h, the
  result codes, object pointers, and the generic lemmas on words, lists and record-valued
  stores that the component theories use.
\<close>

unbundle bit_operations_syntax

section \<open>Machine integers\<close>

text \<open>
  \<open>OV_UINT\<close> is \<open>uint32_t\<close> and \<open>OV_INT\<close> is \<open>int32_t\<close>. Both are 32-bit patterns here: an
  unsigned reading is \<open>uint\<close>/\<open>unat\<close> and the order \<open><\<close> of words, a signed reading is
  \<open>sint\<close>. A C assignment between the two types keeps the pattern.
\<close>

type_synonym OV_UINT = "32 word"
type_synonym OV_INT = "32 word"
type_synonym OV_BYTE = "8 word"

text \<open>The rights of access (ov_ov.h).\<close>

definition OV_AC_READ :: OV_UINT where "OV_AC_READ = 1"
definition OV_AC_WRITE :: OV_UINT where "OV_AC_WRITE = 2"
definition OV_AC_READWRITE :: OV_UINT where "OV_AC_READWRITE = 3"
definition OV_AC_DELETEABLE :: OV_UINT where "OV_AC_DELETEABLE = 0x10000000"
definition OV_AC_RENAMEABLE :: OV_UINT where "OV_AC_RENAMEABLE = 0x08000000"
definition OV_AC_LINKABLE :: OV_UINT where "OV_AC_LINKABLE = 0x04000000"
definition OV_AC_UNLINKABLE :: OV_UINT where "OV_AC_UNLINKABLE = 0x02000000"
definition OV_AC_INSTANTIABLE :: OV_UINT where "OV_AC_INSTANTIABLE = 0x20000000"

lemmas access_bits = OV_AC_READ_def OV_AC_WRITE_def OV_AC_READWRITE_def OV_AC_DELETEABLE_def
  OV_AC_RENAMEABLE_def OV_AC_LINKABLE_def OV_AC_UNLINKABLE_def OV_AC_INSTANTIABLE_def

definition OV_VL_MAXINT :: OV_INT where
  "OV_VL_MAXINT = 2147483647"

definition OV_VL_MAXUINT :: OV_UINT where
  "OV_VL_MAXUINT = 4294967295"

section \<open>Result codes\<close>

datatype OV_RESULT =
    OV_ERR_OK
  | OV_ERR_GENERIC
  | OV_ERR_NOTIMPLEMENTED
  | OV_ERR_BADPARAM
  | OV_ERR_BADOBJTYPE
  | OV_ERR_BADPATH
  | OV_ERR_NOACCESS
  | OV_ERR_BADTYPE
  | OV_ERR_BADVALUE
  | OV_ERR_ALREADYEXISTS
  | OV_ERR_BADNAME
  | OV_ERR_BADFACTORY
  | OV_ERR_CANTMOVE
  | OV_ERR_BADINITPARAM
  | OV_ERR_BADPLACEMENT
  | OV_ERR_DBOUTOFMEMORY
  | OV_ERR_HEAPOUTOFMEMORY

definition Ov_Fail :: "OV_RESULT \<Rightarrow> bool" where
  "Ov_Fail r \<longleftrightarrow> r \<noteq> OV_ERR_OK"

section \<open>Pointers\<close>

text \<open>
  A pointer into the database is a number; a C pointer that may be \<open>NULL\<close> is an option.
\<close>

type_synonym objptr = nat
type_synonym classptr = nat

section \<open>Generic lemmas\<close>

named_theorems word_read \<open>reading 32-bit words as integers\<close>

lemma uint_32_range [simp]: "0 \<le> uint (w :: 32 word)" "uint (w :: 32 word) < 4294967296"
  using uint_lt2p [of w] by auto

lemma uint_32_add [word_read]:
  "uint ((a :: 32 word) + b) = (uint a + uint b) mod 4294967296"
  by (simp add: uint_word_ariths)

lemma uint_32_sub [word_read]:
  "uint ((a :: 32 word) - b) = (uint a - uint b) mod 4294967296"
  by (simp add: uint_word_ariths)

lemma sint_32_uint:
  "sint (w :: 32 word) = (if uint w < 2147483648 then uint w else uint w - 4294967296)"
proof -
  let ?u = "uint w"
  have s: "sint w = (?u + 2147483648) mod 4294967296 - 2147483648"
    by (simp add: sint_uint signed_take_bit_eq_take_bit_shift take_bit_eq_mod)
  have b: "0 \<le> ?u" "?u < 4294967296" by simp_all
  show ?thesis
  proof (cases "?u < 2147483648")
    case True
    with b have "(?u + 2147483648) mod 4294967296 = ?u + 2147483648"
      by (intro mod_pos_pos_trivial) auto
    with s True show ?thesis by simp
  next
    case False
    have "(?u + 2147483648) mod 4294967296 = (?u + 2147483648 - 4294967296) mod 4294967296"
      by (rule minus_mod_self2 [symmetric])
    also have "?u + 2147483648 - 4294967296 = ?u - 2147483648" by simp
    also have "(?u - 2147483648) mod 4294967296 = ?u - 2147483648"
    proof (rule mod_pos_pos_trivial)
      show "0 \<le> ?u - 2147483648" using False by linarith
      show "?u - 2147483648 < 4294967296" using b(2) by linarith
    qed
    finally show ?thesis using s False by simp
  qed
qed

lemma sint_32_range: "- 2147483648 \<le> sint (w :: 32 word)" "sint (w :: 32 word) < 2147483648"
  using sint_ge [of w] sint_lt [of w] by simp_all

lemma sint_of_int_32 [word_read]:
  assumes "- 2147483648 \<le> k" "k < 2147483648"
  shows "sint (word_of_int k :: 32 word) = k"
proof -
  have "sint (word_of_int k :: 32 word) = signed_take_bit 31 k"
    by (simp add: sint_sbintrunc')
  also have "\<dots> = k"
    by (rule signed_take_bit_int_eq_self) (use assms in simp_all)
  finally show ?thesis .
qed

lemma uint_of_int_32 [word_read]:
  assumes "0 \<le> k" "k < 4294967296"
  shows "uint (word_of_int k :: 32 word) = k"
  using assms by (simp add: uint_word_of_int)

text \<open>Sums and differences of a word read signed or unsigned, as one integer.\<close>

lemma word_add_of_int_us: "(a :: 32 word) + b = word_of_int (uint a + sint b)"
  by simp

lemma word_sub_of_int_uu: "(a :: 32 word) - b = word_of_int (uint a - uint b)"
  by simp

lemma sint_eq_uint_32: "uint (w :: 32 word) < 2147483648 \<Longrightarrow> sint w = uint w"
  by (simp add: sint_32_uint)

end
