(* ===== verification/OvOrder.thy ===== *)
theory OvOrder
  imports OvPrelude
begin

text \<open>
  Three-way comparison functions (\<open>ov_time_compare\<close>, \<open>ov_string_compare\<close>, ...) as an interface,
  and insertion into a queue that such a function keeps sorted. The component theories
  interpret the interface on the functions of the code.
\<close>

section \<open>Insertion behind everything that is not greater\<close>

fun insert_after :: "('k \<Rightarrow> 'k \<Rightarrow> int) \<Rightarrow> ('e \<Rightarrow> 'k) \<Rightarrow> 'e \<Rightarrow> 'e list \<Rightarrow> 'e list" where
  "insert_after cmp key e [] = [e]"
| "insert_after cmp key e (c # cs) =
    (if cmp (key c) (key e) > 0 then e # c # cs else c # insert_after cmp key e cs)"

definition sorted_by :: "('k \<Rightarrow> 'k \<Rightarrow> int) \<Rightarrow> ('e \<Rightarrow> 'k) \<Rightarrow> 'e list \<Rightarrow> bool" where
  "sorted_by cmp key xs \<longleftrightarrow> sorted_wrt (\<lambda>x y. cmp (key x) (key y) \<le> 0) xs"

lemma sorted_by_simps [simp]:
  "sorted_by cmp key []"
  "sorted_by cmp key (x # xs) \<longleftrightarrow> (\<forall>y \<in> set xs. cmp (key x) (key y) \<le> 0) \<and> sorted_by cmp key xs"
  by (simp_all add: sorted_by_def)

lemma sorted_by_sublist: "sorted_by cmp key (xs @ y # ys) \<Longrightarrow> sorted_by cmp key (xs @ ys)"
  by (auto simp: sorted_by_def sorted_wrt_append)

lemma mset_insert_after [simp]: "mset (insert_after cmp key e xs) = add_mset e (mset xs)"
  by (induction xs) auto

lemma set_insert_after [simp]: "set (insert_after cmp key e xs) = insert e (set xs)"
  by (induction xs) auto

lemma insert_after_split:
  "insert_after cmp key e xs =
    takeWhile (\<lambda>c. cmp (key c) (key e) \<le> 0) xs @ e # dropWhile (\<lambda>c. cmp (key c) (key e) \<le> 0) xs"
  by (induction xs) auto

section \<open>The interface\<close>

locale comparator =
  fixes cmp :: "'k \<Rightarrow> 'k \<Rightarrow> int"
  assumes cmp_swap: "0 < cmp a b \<longleftrightarrow> cmp b a < 0"
    and cmp_trans: "cmp a b \<le> 0 \<Longrightarrow> cmp b c \<le> 0 \<Longrightarrow> cmp a c \<le> 0"
begin

lemma cmp_refl: "cmp a a = 0"
  using cmp_swap [of a a] by linarith

lemma cmp_total: "cmp a b \<le> 0 \<or> cmp b a \<le> 0"
  using cmp_swap [of a b] by linarith

lemma cmp_zero_sym: "cmp a b = 0 \<longleftrightarrow> cmp b a = 0"
  using cmp_swap [of a b] cmp_swap [of b a] by linarith

lemma cmp_zero_trans: "cmp a b = 0 \<Longrightarrow> cmp b c = 0 \<Longrightarrow> cmp a c = 0"
  using cmp_trans [of a b c] cmp_trans [of c b a] cmp_zero_sym [of a b] cmp_zero_sym [of b c]
    cmp_swap [of a c] cmp_swap [of c a] by linarith

lemma cmp_less_trans: "cmp a b < 0 \<Longrightarrow> cmp b c \<le> 0 \<Longrightarrow> cmp a c < 0"
proof (rule ccontr)
  assume ab: "cmp a b < 0" and bc: "cmp b c \<le> 0" and "\<not> cmp a c < 0"
  then have "cmp c a \<le> 0" using cmp_swap [of c a] by linarith
  with bc have "cmp b a \<le> 0" by (rule cmp_trans)
  with ab show False using cmp_swap [of b a] by linarith
qed

lemma sorted_insert_after:
  assumes "sorted_by cmp key xs"
  shows "sorted_by cmp key (insert_after cmp key e xs)"
  using assms
proof (induction xs)
  case Nil
  then show ?case by simp
next
  case (Cons c cs)
  show ?case
  proof (cases "cmp (key c) (key e) > 0")
    case True
    then have ec: "cmp (key e) (key c) \<le> 0" using cmp_swap [of "key c" "key e"] by linarith
    with Cons.prems show ?thesis by (auto simp: True intro: cmp_trans)
  next
    case False
    with Cons show ?thesis by auto
  qed
qed

text \<open>In a sorted queue the new element comes behind every element that is not greater and before
  every greater one: equal elements keep their order of arrival.\<close>

lemma insert_after_position:
  assumes "sorted_by cmp key xs"
  shows "insert_after cmp key e xs =
    filter (\<lambda>c. cmp (key c) (key e) \<le> 0) xs @ e # filter (\<lambda>c. cmp (key c) (key e) > 0) xs"
  using assms
proof (induction xs)
  case Nil
  then show ?case by simp
next
  case (Cons c cs)
  show ?case
  proof (cases "cmp (key c) (key e) > 0")
    case True
    have "cmp (key d) (key e) > 0" if "d \<in> set cs" for d
    proof -
      have "cmp (key e) (key c) < 0" using True cmp_swap by blast
      moreover have "cmp (key c) (key d) \<le> 0" using Cons.prems that by simp
      ultimately show ?thesis using cmp_less_trans cmp_swap by blast
    qed
    then have "filter (\<lambda>c. cmp (key c) (key e) > 0) cs = cs"
      and "filter (\<lambda>c. cmp (key c) (key e) \<le> 0) cs = []"
      by (auto simp: filter_id_conv filter_empty_conv not_le)
    with True show ?thesis by simp
  next
    case False
    with Cons show ?thesis by simp
  qed
qed

end

end
