(* ===== verification/OvTime.thy ===== *)
theory OvTime
  imports OvOrder
begin

text \<open>
  core/ov/source/libov/ov_time.c: times and time spans. \<open>OV_TIME\<close> has unsigned seconds and
  microseconds, \<open>OV_TIME_SPAN\<close> signed ones. The system clock (\<open>gettimeofday\<close>) is an argument.
\<close>

section \<open>Data\<close>

record OV_TIME =
  secs :: OV_UINT
  usecs :: OV_UINT

record OV_TIME_SPAN =
  span_secs :: OV_INT
  span_usecs :: OV_INT

definition OV_TIMECMP_EQUAL :: int where "OV_TIMECMP_EQUAL = 0"
definition OV_TIMECMP_AFTER :: int where "OV_TIMECMP_AFTER = 1"
definition OV_TIMECMP_BEFORE :: int where "OV_TIMECMP_BEFORE = - 1"

section \<open>Operations\<close>

definition ov_time_add :: "OV_TIME \<Rightarrow> OV_TIME_SPAN \<Rightarrow> OV_TIME" where
  "ov_time_add padd1 padd2 =
    (let s = secs padd1 + span_secs padd2;
         u = usecs padd1 + span_usecs padd2
     in if sint u > 999999 then \<lparr>secs = s + 1, usecs = u - 1000000\<rparr>
        else if sint u < 0 then \<lparr>secs = s - 1, usecs = u + 1000000\<rparr>
        else \<lparr>secs = s, usecs = u\<rparr>)"

definition ov_time_diff :: "OV_TIME \<Rightarrow> OV_TIME \<Rightarrow> OV_TIME_SPAN" where
  "ov_time_diff psub1 psub2 =
    (let s = secs psub1 - secs psub2;
         u = usecs psub1 - usecs psub2
     in if sint s > 0 \<and> sint u < 0
        then \<lparr>span_secs = s - 1, span_usecs = u + 1000000\<rparr>
        else if sint s < 0 \<and> sint u > 0
        then \<lparr>span_secs = s + 1, span_usecs = u - 1000000\<rparr>
        else \<lparr>span_secs = s, span_usecs = u\<rparr>)"

definition ov_time_compare :: "OV_TIME \<Rightarrow> OV_TIME \<Rightarrow> int" where
  "ov_time_compare ptime1 ptime2 =
    (if secs ptime1 > secs ptime2 then OV_TIMECMP_AFTER
     else if secs ptime1 < secs ptime2 then OV_TIMECMP_BEFORE
     else if usecs ptime1 > usecs ptime2 then OV_TIMECMP_AFTER
     else if usecs ptime1 < usecs ptime2 then OV_TIMECMP_BEFORE
     else OV_TIMECMP_EQUAL)"

text \<open>
  The current time on a Unix system: the 64-bit fields of \<open>struct timeval\<close> are cut to 32 bits
  and, where a database is mapped, its time offset is added.
\<close>

definition ov_time_gettime :: "OV_TIME_SPAN option \<Rightarrow> 64 word \<Rightarrow> 64 word \<Rightarrow> OV_TIME" where
  "ov_time_gettime pdb_timeoffset tv_sec tv_usec =
    (let t = \<lparr>secs = ucast tv_sec, usecs = ucast tv_usec\<rparr>
     in case pdb_timeoffset of None \<Rightarrow> t | Some off \<Rightarrow> ov_time_add t off)"

section \<open>Reading times as numbers of microseconds\<close>

definition time_us :: "OV_TIME \<Rightarrow> int" where
  "time_us t = uint (secs t) * 1000000 + uint (usecs t)"

definition span_us :: "OV_TIME_SPAN \<Rightarrow> int" where
  "span_us s = sint (span_secs s) * 1000000 + sint (span_usecs s)"

definition time_normal :: "OV_TIME \<Rightarrow> bool" where
  "time_normal t \<longleftrightarrow> uint (usecs t) < 1000000"

definition span_normal :: "OV_TIME_SPAN \<Rightarrow> bool" where
  "span_normal s \<longleftrightarrow> \<bar>sint (span_usecs s)\<bar> < 1000000"

section \<open>The order on times\<close>

instantiation OV_TIME_ext :: (linorder) linorder
begin

definition less_eq_OV_TIME_ext :: "'a OV_TIME_scheme \<Rightarrow> 'a OV_TIME_scheme \<Rightarrow> bool" where
  "less_eq_OV_TIME_ext a b \<longleftrightarrow>
    secs a < secs b \<or> (secs a = secs b \<and> (usecs a < usecs b \<or>
      (usecs a = usecs b \<and> OV_TIME.more a \<le> OV_TIME.more b)))"

definition less_OV_TIME_ext :: "'a OV_TIME_scheme \<Rightarrow> 'a OV_TIME_scheme \<Rightarrow> bool" where
  "less_OV_TIME_ext a b \<longleftrightarrow>
    secs a < secs b \<or> (secs a = secs b \<and> (usecs a < usecs b \<or>
      (usecs a = usecs b \<and> OV_TIME.more a < OV_TIME.more b)))"

instance
  by standard (auto simp: less_eq_OV_TIME_ext_def less_OV_TIME_ext_def)

end

lemma ov_time_compare_order:
  "ov_time_compare a b = (if b < a then 1 else if a < b then - 1 else 0)"
  by (auto simp: ov_time_compare_def less_OV_TIME_ext_def OV_TIMECMP_AFTER_def
      OV_TIMECMP_BEFORE_def OV_TIMECMP_EQUAL_def)

lemma ov_time_compare_iff [simp]:
  "0 < ov_time_compare a b \<longleftrightarrow> b < a"
  "ov_time_compare a b = OV_TIMECMP_AFTER \<longleftrightarrow> b < a"
  "ov_time_compare a b = OV_TIMECMP_BEFORE \<longleftrightarrow> a < b"
  "ov_time_compare a b \<le> 0 \<longleftrightarrow> a \<le> b"
  by (auto simp: ov_time_compare_order OV_TIMECMP_AFTER_def OV_TIMECMP_BEFORE_def)

interpretation time_cmp: comparator ov_time_compare
  by unfold_locales (auto simp: ov_time_compare_order split: if_splits)

section \<open>Sums and differences\<close>

lemma usecs_sum:
  assumes "uint (u :: 32 word) < 1000000" "\<bar>sint (v :: 32 word)\<bar> < 1000000"
  shows "sint (u + v) = uint u + sint v"
  unfolding word_add_of_int_us
  by (rule sint_of_int_32) (use assms uint_32_range(1) [of u] in linarith)+

lemma usecs_diff:
  assumes "uint (u :: 32 word) < 1000000" "uint (v :: 32 word) < 1000000"
  shows "sint (u - v) = uint u - uint v"
  unfolding word_sub_of_int_uu
  by (rule sint_of_int_32) (use assms uint_32_range(1) [of u] uint_32_range(1) [of v] in linarith)+

text \<open>The seconds of a sum, adjusted by a carry \<open>c\<close>, when the result is in range.\<close>

lemma secs_sum:
  assumes "0 \<le> uint (s :: 32 word) + sint (v :: 32 word) + c"
    and "uint s + sint v + c < 4294967296"
  shows "uint (s + v + word_of_int c) = uint s + sint v + c"
proof -
  have "s + v + word_of_int c = word_of_int (uint s + sint v + c)" by simp
  then show ?thesis using assms by (simp only: uint_of_int_32)
qed

lemma usecs_carry:
  assumes "sint (u :: 32 word) + c < 2147483648" "0 \<le> sint u + c"
  shows "uint (u + word_of_int c) = sint u + c"
proof -
  have "u + word_of_int c = word_of_int (sint u + c)" by simp
  then show ?thesis using assms by (simp only: uint_of_int_32)
qed

lemma carry_bounds:
  fixes z u :: int
  assumes "0 \<le> z * 1000000 + u" "z * 1000000 + u < 4294967296000000"
  shows "u < 2000000 \<Longrightarrow> 0 \<le> z + 1" "999999 < u \<Longrightarrow> z + 1 < 4294967296"
    and "u < 1000000 \<Longrightarrow> 0 \<le> z" "0 \<le> u \<Longrightarrow> z < 4294967296"
    and "u < 0 \<Longrightarrow> 0 \<le> z - 1" "- 1000000 < u \<Longrightarrow> z - 1 < 4294967296"
  using assms by linarith+

lemma ov_time_add_value:
  assumes t: "time_normal t" and s: "span_normal s"
    and lo: "0 \<le> time_us t + span_us s"
    and hi: "time_us t + span_us s < 4294967296000000"
  shows "time_us (ov_time_add t s) = time_us t + span_us s \<and> time_normal (ov_time_add t s)"
proof -
  let ?u = "usecs t + span_usecs s" and ?s = "secs t + span_secs s"
  let ?S = "uint (secs t) + sint (span_secs s)" and ?U = "sint ?u"
  have U: "?U = uint (usecs t) + sint (span_usecs s)"
    using t s by (intro usecs_sum) (simp_all add: time_normal_def span_normal_def)
  have b: "- 1000000 < ?U" "?U < 2000000"
    using t s uint_32_range(1) [of "usecs t"]
    unfolding U time_normal_def span_normal_def by linarith+
  have tot: "time_us t + span_us s = ?S * 1000000 + ?U"
    by (simp add: time_us_def span_us_def U algebra_simps)
  note cb = carry_bounds [OF lo [unfolded tot] hi [unfolded tot]]
  consider (carry) "?U > 999999" | (borrow) "?U < 0" | (plain) "0 \<le> ?U" "?U \<le> 999999" by linarith
  then show ?thesis
  proof cases
    case carry
    have "uint (?s + word_of_int 1) = ?S + 1"
      using cb(1,2) carry b by (intro secs_sum) simp_all
    moreover have "uint (?u + word_of_int (- 1000000)) = ?U - 1000000"
      using carry b by (subst usecs_carry) linarith+
    ultimately show ?thesis
      using carry b unfolding tot by (simp add: ov_time_add_def Let_def time_us_def time_normal_def)
  next
    case borrow
    have "uint (?s + word_of_int (- 1)) = ?S - 1"
      using cb(5,6) borrow b by (subst secs_sum) simp_all
    moreover have "uint (?u + word_of_int 1000000) = ?U + 1000000"
      using borrow b by (subst usecs_carry) linarith+
    ultimately show ?thesis
      using borrow b unfolding tot by (simp add: ov_time_add_def Let_def time_us_def time_normal_def)
  next
    case plain
    have "uint (?s + word_of_int 0) = ?S"
      using cb(3,4) plain b by (subst secs_sum) simp_all
    moreover have "uint (?u + word_of_int 0) = ?U"
      using plain b by (subst usecs_carry) linarith+
    ultimately show ?thesis
      using plain b unfolding tot by (simp add: ov_time_add_def Let_def time_us_def time_normal_def)
  qed
qed

text \<open>The difference of two times less than \<open>2^31\<close> seconds apart.\<close>

definition span_signs_agree :: "OV_TIME_SPAN \<Rightarrow> bool" where
  "span_signs_agree s \<longleftrightarrow>
    (sint (span_secs s) > 0 \<longrightarrow> sint (span_usecs s) \<ge> 0) \<and>
    (sint (span_secs s) < 0 \<longrightarrow> sint (span_usecs s) \<le> 0)"

lemma sint_step:
  assumes "- 2147483648 \<le> sint (w :: 32 word) + c" "sint w + c < 2147483648"
  shows "sint (w + word_of_int c) = sint w + c"
proof -
  have "w + word_of_int c = word_of_int (sint w + c)" by simp
  then show ?thesis using assms by (simp only: sint_of_int_32)
qed

lemma ov_time_diff_value:
  assumes t1: "time_normal t1" and t2: "time_normal t2"
    and d: "\<bar>uint (secs t1) - uint (secs t2)\<bar> < 2147483648"
  shows "span_us (ov_time_diff t1 t2) = time_us t1 - time_us t2 \<and>
    span_normal (ov_time_diff t1 t2) \<and> span_signs_agree (ov_time_diff t1 t2)"
proof -
  let ?s = "secs t1 - secs t2" and ?u = "usecs t1 - usecs t2"
  have U: "sint ?u = uint (usecs t1) - uint (usecs t2)"
    using t1 t2 by (intro usecs_diff) (simp_all add: time_normal_def)
  have S: "sint ?s = uint (secs t1) - uint (secs t2)"
    unfolding word_sub_of_int_uu by (rule sint_of_int_32) (use d in linarith)+
  have b: "- 1000000 < sint ?u" "sint ?u < 1000000"
    using t1 t2 uint_32_range(1) [of "usecs t1"] uint_32_range(1) [of "usecs t2"]
    unfolding U time_normal_def by linarith+
  have sb: "- 2147483648 < sint ?s" "sint ?s < 2147483648" using d unfolding S by linarith+
  have tot: "time_us t1 - time_us t2 = sint ?s * 1000000 + sint ?u"
    by (simp add: time_us_def S U algebra_simps)
  note defs = ov_time_diff_def Let_def span_us_def span_normal_def span_signs_agree_def
  consider (down) "sint ?s > 0" "sint ?u < 0" | (up) "sint ?s < 0" "sint ?u > 0"
    | (plain) "\<not> (sint ?s > 0 \<and> sint ?u < 0)" "\<not> (sint ?s < 0 \<and> sint ?u > 0)" by blast
  then show ?thesis
  proof cases
    case down
    have "sint (?s + word_of_int (- 1)) = sint ?s + (- 1)"
      and "sint (?u + word_of_int 1000000) = sint ?u + 1000000"
      using down b sb by (intro sint_step; linarith)+
    then show ?thesis using down b unfolding tot by (simp add: defs)
  next
    case up
    have "sint (?s + word_of_int 1) = sint ?s + 1"
      and "sint (?u + word_of_int (- 1000000)) = sint ?u + (- 1000000)"
      using up b sb by (intro sint_step; linarith)+
    then show ?thesis using up b unfolding tot by (simp add: defs)
  next
    case plain
    then show ?thesis using b unfolding tot by (auto simp: defs)
  qed
qed

lemma usecs_sum_cases:
  assumes "time_normal t"
  shows "sint (usecs t) = uint (usecs t)"
    and "sint (usecs t + 1000000) = uint (usecs t) + 1000000"
    and "sint (usecs t - 1000000) = uint (usecs t) - 1000000"
proof -
  have b: "0 \<le> uint (usecs t)" "uint (usecs t) < 1000000"
    using assms by (simp_all add: time_normal_def)
  show s: "sint (usecs t) = uint (usecs t)"
    by (rule sint_eq_uint_32) (use b in linarith)
  show "sint (usecs t + 1000000) = uint (usecs t) + 1000000"
    using sint_step [of "usecs t" 1000000] b s by simp
  show "sint (usecs t - 1000000) = uint (usecs t) - 1000000"
    using sint_step [of "usecs t" "- 1000000"] b s by simp
qed

lemma ov_time_add_diff_cancel:
  assumes "time_normal t1"
  shows "ov_time_add t2 (ov_time_diff t1 t2) = t1"
proof -
  have b: "0 \<le> uint (usecs t1)" "uint (usecs t1) < 1000000"
    using assms by (simp_all add: time_normal_def)
  have "usecs t2 + (usecs t1 - usecs t2 + 1000000) = usecs t1 + 1000000"
    and "usecs t2 + (usecs t1 - usecs t2 - 1000000) = usecs t1 - 1000000"
    and "secs t2 + (secs t1 - secs t2 - 1) + 1 = secs t1"
    and "secs t2 + (secs t1 - secs t2 + 1) - 1 = secs t1"
    by (simp_all add: algebra_simps)
  moreover have "\<not> uint (usecs t1) + 1000000 < 0" "0 < 1 + uint (usecs t1)"
    using b(1) by linarith+
  ultimately show ?thesis
    using b(2) by (simp add: ov_time_add_def ov_time_diff_def Let_def usecs_sum_cases [OF assms])
qed

section \<open>100ns ticks since 1601\<close>

text \<open>
  \<open>OV_INT64\<close> values are integers here; \<open>time_1601_no_overflow\<close> below shows that no
  intermediate result of the conversion from \<open>OV_TIME\<close> leaves the 64-bit range.
\<close>

definition OV_VL_MAXINT64 :: int where "OV_VL_MAXINT64 = 9223372036854775807"
definition EPOCHDIFFERENCE_SECONDS :: int where "EPOCHDIFFERENCE_SECONDS = 11644473600"
definition TOSECONDS :: int where "TOSECONDS = 10000000"
definition TOMICROSECONDS :: int where "TOMICROSECONDS = 10"

lemmas tick_consts = OV_VL_MAXINT64_def EPOCHDIFFERENCE_SECONDS_def TOSECONDS_def
  TOMICROSECONDS_def OV_VL_MAXUINT_def OV_VL_MAXINT_def

definition ov_1601nsTimeToOvTime :: "int \<Rightarrow> OV_TIME" where
  "ov_1601nsTimeToOvTime time =
    (let temp = time sdiv TOSECONDS - EPOCHDIFFERENCE_SECONDS
     in if temp < 0 \<or> time < 0 then \<lparr>secs = 0, usecs = 0\<rparr>
        else if temp > uint OV_VL_MAXUINT \<or> time = OV_VL_MAXINT64
        then \<lparr>secs = OV_VL_MAXUINT, usecs = OV_VL_MAXUINT\<rparr>
        else let s = word_of_int temp :: OV_UINT
             in \<lparr>secs = s, usecs = word_of_int
                  ((time - (uint s + EPOCHDIFFERENCE_SECONDS) * TOSECONDS) sdiv TOMICROSECONDS)\<rparr>)"

definition ov_ovTimeTo1601nsTime :: "OV_TIME \<Rightarrow> int" where
  "ov_ovTimeTo1601nsTime time =
    (if secs time = 0 \<and> usecs time = 0 then 0
     else if secs time = OV_VL_MAXUINT \<and> usecs time \<ge> 999999 then OV_VL_MAXINT64
     else (uint (secs time) + EPOCHDIFFERENCE_SECONDS) * TOSECONDS
            + uint (usecs time) * TOMICROSECONDS)"

definition ov_1601nsTimeToOvTimeSpan :: "int \<Rightarrow> OV_TIME_SPAN" where
  "ov_1601nsTimeToOvTimeSpan time =
    (let temp = time sdiv TOSECONDS
     in if temp < - sint OV_VL_MAXINT
        then \<lparr>span_secs = - OV_VL_MAXINT, span_usecs = - OV_VL_MAXINT\<rparr>
        else if temp > sint OV_VL_MAXINT
        then \<lparr>span_secs = OV_VL_MAXINT, span_usecs = OV_VL_MAXINT\<rparr>
        else let s = word_of_int temp :: OV_INT
             in \<lparr>span_secs = s, span_usecs = word_of_int
                  ((time - sint s * TOSECONDS) sdiv TOMICROSECONDS)\<rparr>)"

definition ov_ovTimeSpanTo1601nsTime :: "OV_TIME_SPAN \<Rightarrow> int" where
  "ov_ovTimeSpanTo1601nsTime time =
    (if span_secs time = - OV_VL_MAXINT \<and> span_usecs time = - OV_VL_MAXINT then 0
     else if span_secs time = OV_VL_MAXINT \<and> sint (span_usecs time) \<ge> 999999 then OV_VL_MAXINT64
     else sint (span_secs time) * TOSECONDS + sint (span_usecs time) * TOMICROSECONDS)"

lemma sdiv_nonneg: "0 \<le> (a :: int) \<Longrightarrow> 0 < b \<Longrightarrow> a sdiv b = a div b"
  by (cases "a = 0") (simp_all add: signed_divide_int_def)

lemma ticks_of_time:
  fixes s u :: int
  assumes "0 \<le> s" "s < 4294967296" "0 \<le> u" "u < 1000000"
  shows "(s * 10000000 + 116444736000000000 + u * 10) div 10000000 = s + 11644473600"
    and "s * 10000000 + 116444736000000000 + u * 10 < 9223372036854775807"
    and "0 \<le> s * 10000000 + 116444736000000000 + u * 10"
proof -
  have "s * 10000000 + 116444736000000000 + u * 10 = u * 10 + (s + 11644473600) * 10000000"
    by simp
  then show "(s * 10000000 + 116444736000000000 + u * 10) div 10000000 = s + 11644473600"
    using assms by (simp add: div_pos_pos_trivial del: distrib_right_numeral)
qed (use assms in linarith)+

lemma time_1601_no_overflow:
  "0 \<le> ov_ovTimeTo1601nsTime t \<and> ov_ovTimeTo1601nsTime t \<le> OV_VL_MAXINT64"
proof -
  have "uint (secs t) * 10000000 + uint (usecs t) * 10 \<le> 9106927300854775807"
    using uint_32_range [of "secs t"] uint_32_range [of "usecs t"] by linarith
  then show ?thesis
    by (auto simp: ov_ovTimeTo1601nsTime_def tick_consts)
qed

lemma time_1601_roundtrip_lemma:
  assumes n: "time_normal t" and m: "\<not> (secs t = OV_VL_MAXUINT \<and> usecs t = 999999)"
  shows "ov_1601nsTimeToOvTime (ov_ovTimeTo1601nsTime t) = t"
proof (cases "secs t = 0 \<and> usecs t = 0")
  case True
  then show ?thesis
    by (simp add: ov_ovTimeTo1601nsTime_def ov_1601nsTimeToOvTime_def tick_consts)
next
  case False
  let ?S = "uint (secs t)" and ?U = "uint (usecs t)"
  have b: "0 \<le> ?S" "?S < 4294967296" "0 \<le> ?U" "?U < 1000000"
    using n by (simp_all add: time_normal_def)
  have nm: "\<not> (secs t = OV_VL_MAXUINT \<and> usecs t \<ge> 999999)"
  proof
    assume a: "secs t = OV_VL_MAXUINT \<and> usecs t \<ge> 999999"
    then have "?U \<ge> 999999" by (simp add: word_le_def)
    with b(4) have "?U = 999999" by linarith
    then have "usecs t = 999999" by (simp add: word_uint_eq_iff)
    with a m show False by simp
  qed
  let ?x = "?S * 10000000 + 116444736000000000 + ?U * 10"
  have x: "ov_ovTimeTo1601nsTime t = ?x"
    using False nm by (auto simp: ov_ovTimeTo1601nsTime_def tick_consts)
  note tk = ticks_of_time [OF b]
  have "(?x - (?S + 11644473600) * 10000000) sdiv 10 = ?U"
    using b(3) by (simp add: sdiv_nonneg)
  moreover have "?x sdiv 10000000 - 11644473600 = ?S"
    using tk(1,3) by (simp add: sdiv_nonneg)
  moreover have "\<not> ?S < 0" "\<not> ?S > 4294967295" "\<not> ?x < 0" "?x \<noteq> 9223372036854775807"
    using b tk by linarith+
  ultimately show ?thesis
    unfolding x ov_1601nsTimeToOvTime_def tick_consts by (simp add: Let_def)
qed

lemma time_1601_truncates_lemma:
  assumes lo: "116444736000000010 \<le> x" and hi: "x < 159394408959999990"
  shows "ov_ovTimeTo1601nsTime (ov_1601nsTimeToOvTime x) = x - x mod 10"
proof -
  define q where "q = x div 10000000"
  define u where "u = (x - q * 10000000) div 10"
  have xq: "x - q * 10000000 = x mod 10000000"
    unfolding q_def by (simp add: minus_div_mult_eq_mod)
  have r: "0 \<le> x - q * 10000000" "x - q * 10000000 < 10000000"
    unfolding xq by simp_all
  have u: "0 \<le> u" "u < 1000000" using r unfolding u_def by linarith+
  have q: "11644473600 \<le> q" "q \<le> 11644473600 + 4294967295" using lo hi r by linarith+
  have um: "u * 10 = x - q * 10000000 - (x - q * 10000000) mod 10"
    unfolding u_def by (simp add: minus_mod_eq_div_mult)
  have "(x - q * 10000000) mod 10 = x mod 10"
    unfolding xq by (simp add: mod_mod_cancel)
  with um have res: "q * 10000000 + u * 10 = x - x mod 10" by linarith
  have t: "ov_1601nsTimeToOvTime x =
      \<lparr>secs = word_of_int (q - 11644473600), usecs = word_of_int u\<rparr>"
  proof -
    have "x sdiv 10000000 = q" using lo unfolding q_def by (intro sdiv_nonneg) linarith+
    moreover have "uint (word_of_int (q - 11644473600) :: 32 word) = q - 11644473600"
      by (rule uint_of_int_32) (use q in linarith)+
    moreover have "(x - q * 10000000) sdiv 10 = u" using r(1) unfolding u_def by (simp add: sdiv_nonneg)
    moreover have "\<not> q - 11644473600 < 0" "\<not> x < 0" "\<not> q - 11644473600 > 4294967295"
      "x \<noteq> 9223372036854775807" using q lo hi by linarith+
    ultimately show ?thesis
      unfolding ov_1601nsTimeToOvTime_def tick_consts by (simp add: Let_def)
  qed
  have us: "uint (word_of_int (q - 11644473600) :: 32 word) = q - 11644473600"
    "uint (word_of_int u :: 32 word) = u"
    by (rule uint_of_int_32; use q u in linarith)+
  have md: "0 \<le> (x - q * 10000000) mod 10" "(x - q * 10000000) mod 10 < 10" by simp_all
  have nz: "\<not> (q - 11644473600 = 0 \<and> u = 0)"
  proof
    assume "q - 11644473600 = 0 \<and> u = 0"
    then have "q = 11644473600" "u = 0" by auto
    with lo um md(2) show False by linarith
  qed
  have nm: "\<not> (q - 11644473600 = 4294967295 \<and> u \<ge> 999999)"
  proof
    assume "q - 11644473600 = 4294967295 \<and> u \<ge> 999999"
    then have "q = 15939440895" "u \<ge> 999999" by auto
    with hi um md(1) show False by linarith
  qed
  show ?thesis
    using nz nm res us
    unfolding t ov_ovTimeTo1601nsTime_def tick_consts
    by (auto simp: word_uint_eq_iff word_le_def)
qed

lemma sdiv_minus_left: "(- a :: int) sdiv b = - (a sdiv b)"
  by (simp add: signed_divide_int_def)

lemma span_1601_parts:
  fixes x :: int
  defines "s \<equiv> x sdiv 10000000"
  defines "u \<equiv> (x - s * 10000000) sdiv 10"
  shows "s * 10000000 + u * 10 = x - sgn x * (\<bar>x\<bar> mod 10)" and "\<bar>u\<bar> < 1000000"
proof -
  define a where "a = \<bar>x\<bar>"
  define q where "q = a div 10000000"
  have a: "0 \<le> a" "x = sgn x * a" by (simp_all add: a_def sgn_mult_abs)
  have r: "0 \<le> a - q * 10000000" "a - q * 10000000 < 10000000"
    unfolding q_def by (simp_all add: minus_div_mult_eq_mod)
  have sq: "s = sgn x * q"
    by (simp add: s_def q_def a_def signed_divide_int_def)
  have "x - s * 10000000 = sgn x * (a - q * 10000000)"
    using a(2) unfolding sq by (simp add: right_diff_distrib)
  then have uq: "u = sgn x * ((a - q * 10000000) div 10)"
    using r(1) sdiv_minus_left [of "a - q * 10000000" 10] unfolding u_def
    by (cases "x = 0"; cases "0 < x") (simp_all add: sdiv_nonneg)
  have "q * 10000000 + ((a - q * 10000000) div 10) * 10 = a - a mod 10"
  proof -
    have "(a - q * 10000000) mod 10 = a mod 10"
      unfolding q_def by (simp add: minus_div_mult_eq_mod mod_mod_cancel)
    then show ?thesis by (simp flip: minus_mod_eq_div_mult)
  qed
  then have "sgn x * (q * 10000000 + ((a - q * 10000000) div 10) * 10) = sgn x * (a - a mod 10)"
    by simp
  then show "s * 10000000 + u * 10 = x - sgn x * (\<bar>x\<bar> mod 10)"
    using a(2) unfolding sq uq a_def by (simp add: algebra_simps)
  have "(a - q * 10000000) div 10 < 1000000" "0 \<le> (a - q * 10000000) div 10" using r by linarith+
  then show "\<bar>u\<bar> < 1000000"
    unfolding uq by (simp add: abs_mult abs_sgn_eq)
qed

lemma span_1601_truncates_lemma:
  assumes "\<bar>x sdiv 10000000\<bar> < 2147483647"
  shows "ov_ovTimeSpanTo1601nsTime (ov_1601nsTimeToOvTimeSpan x) = x - sgn x * (\<bar>x\<bar> mod 10)"
proof -
  define s where "s = x sdiv 10000000"
  define u where "u = (x - s * 10000000) sdiv 10"
  note parts = span_1601_parts [of x, folded s_def, folded u_def]
  have s: "\<bar>s\<bar> < 2147483647" using assms by (simp add: s_def)
  have ws: "sint (word_of_int s :: 32 word) = s" "sint (word_of_int u :: 32 word) = u"
    by (rule sint_of_int_32; use s parts(2) in linarith)+
  have mi: "sint OV_VL_MAXINT = 2147483647" "sint (- OV_VL_MAXINT) = - 2147483647"
    by (simp_all add: OV_VL_MAXINT_def)
  have t: "ov_1601nsTimeToOvTimeSpan x = \<lparr>span_secs = word_of_int s, span_usecs = word_of_int u\<rparr>"
    using s ws unfolding ov_1601nsTimeToOvTimeSpan_def TOSECONDS_def TOMICROSECONDS_def mi
    by (auto simp: Let_def abs_less_iff simp flip: s_def u_def)
  have "word_of_int s \<noteq> OV_VL_MAXINT" "word_of_int s \<noteq> - OV_VL_MAXINT"
    using ws(1) mi s by (metis abs_less_iff less_irrefl, metis abs_less_iff less_irrefl minus_minus)
  then show ?thesis
    using parts(1) ws unfolding t ov_ovTimeSpanTo1601nsTime_def TOSECONDS_def TOMICROSECONDS_def
    by simp
qed

section \<open>Properties\<close>

text \<open>C34: \<open>ov_time_add\<close> adds exactly: for a time and a span whose microseconds are normal, and a
  sum that \<open>OV_TIME\<close> can hold, the result is the sum and is normal again (one carry or one
  borrow is always enough).\<close>
theorem ov_time_add_exact:
  assumes "time_normal t" and "span_normal s"
    and "0 \<le> time_us t + span_us s" and "time_us t + span_us s < 4294967296000000"
  shows "time_us (ov_time_add t s) = time_us t + span_us s \<and> time_normal (ov_time_add t s)"
  using assms by (rule ov_time_add_value)

theorem ov_time_add_exact_witness:
  "time_us (ov_time_add \<lparr>secs = 5, usecs = 999999\<rparr> \<lparr>span_secs = 0, span_usecs = 2\<rparr>) = 6000001"
  using ov_time_add_exact [of "\<lparr>secs = 5, usecs = 999999\<rparr>" "\<lparr>span_secs = 0, span_usecs = 2\<rparr>"]
  by (simp add: time_normal_def span_normal_def time_us_def span_us_def)

text \<open>\<open>ov_time_diff\<close> of two normal times less than \<open>2^31\<close> seconds apart is their difference, its
  microseconds are below a second in absolute value and never have the sign opposite to the
  seconds (the source: "may only temporarily have a different sign").\<close>
lemma ov_time_diff_exact:
  assumes "time_normal t1" and "time_normal t2"
    and "\<bar>uint (secs t1) - uint (secs t2)\<bar> < 2147483648"
  shows "span_us (ov_time_diff t1 t2) = time_us t1 - time_us t2 \<and>
    span_normal (ov_time_diff t1 t2) \<and> span_signs_agree (ov_time_diff t1 t2)"
  using assms by (rule ov_time_diff_value)

text \<open>adding to a time the difference to a normal time gives that time back, for all seconds:
  wrap-around of the 32-bit seconds cancels.\<close>
lemma ov_time_diff_add_roundtrip:
  assumes "time_normal t1"
  shows "ov_time_add t2 (ov_time_diff t1 t2) = t1"
  using assms by (rule ov_time_add_diff_cancel)

text \<open>a normal time survives the conversion to 100ns ticks since 1601 and back, except the one
  instant that the code maps to the saturated value \<open>OV_VL_MAXINT64\<close>.\<close>
lemma time_1601_roundtrip:
  assumes "time_normal t" and "\<not> (secs t = OV_VL_MAXUINT \<and> usecs t = 999999)"
  shows "ov_1601nsTimeToOvTime (ov_ovTimeTo1601nsTime t) = t"
  using assms by (rule time_1601_roundtrip_lemma)

text \<open>in the other direction, a tick count inside the range of \<open>OV_TIME\<close> comes back cut to whole
  microseconds.\<close>
lemma time_1601_truncates:
  assumes "116444736000000010 \<le> x" and "x < 159394408959999990"
  shows "ov_ovTimeTo1601nsTime (ov_1601nsTimeToOvTime x) = x - x mod 10"
  using assms by (rule time_1601_truncates_lemma)

text \<open>a tick span (positive or negative) that fits is kept up to whole microseconds, cut towards
  zero.\<close>
lemma span_1601_truncates:
  assumes "\<bar>x sdiv 10000000\<bar> < 2147483647"
  shows "ov_ovTimeSpanTo1601nsTime (ov_1601nsTimeToOvTimeSpan x) = x - sgn x * (\<bar>x\<bar> mod 10)"
  using assms by (rule span_1601_truncates_lemma)

text \<open>saturation is not symmetric. A span too long for \<open>OV_TIME_SPAN\<close> saturates to the largest
  64-bit value, but one too negative comes back as 0, not as the smallest value.\<close>
lemma span_1601_saturation:
  assumes "2147483648 \<le> \<bar>x sdiv 10000000\<bar>"
  shows "ov_ovTimeSpanTo1601nsTime (ov_1601nsTimeToOvTimeSpan x) = (if 0 < x then OV_VL_MAXINT64 else 0)"
proof -
  have mi: "sint OV_VL_MAXINT = 2147483647" "- OV_VL_MAXINT \<noteq> OV_VL_MAXINT"
    by (simp_all add: OV_VL_MAXINT_def)
  have "0 < x \<Longrightarrow> 0 \<le> x sdiv 10000000" "\<not> 0 < x \<Longrightarrow> x sdiv 10000000 \<le> 0"
    by (simp add: sdiv_nonneg pos_imp_zdiv_nonneg_iff)
       (use sdiv_nonneg [of "- x" 10000000] in \<open>simp add: sdiv_minus_left pos_imp_zdiv_nonneg_iff\<close>)
  then show ?thesis
    using assms mi
    by (auto simp: ov_1601nsTimeToOvTimeSpan_def ov_ovTimeSpanTo1601nsTime_def TOSECONDS_def Let_def)
qed

end
