(* ===== verification/OvString.thy ===== *)
theory OvString
  imports OvOrder
begin

text \<open>
  core/ov/source/libov/ov_string.c: strings of the database. An \<open>OV_STRING\<close> is a \<open>char*\<close> that may
  be \<open>NULL\<close>: an option of a HOL string (the characters before the terminator). Memory of the
  database and of the heap is granted or refused by arguments.
\<close>

section \<open>The C library functions the file uses\<close>

type_synonym OV_STRING = "string option"

definition OV_STRCMP_EQUAL :: int where "OV_STRCMP_EQUAL = 0"
definition OV_STRCMP_MORE :: int where "OV_STRCMP_MORE = 1"
definition OV_STRCMP_LESS :: int where "OV_STRCMP_LESS = - 1"

lemmas strcmp_consts = OV_STRCMP_EQUAL_def OV_STRCMP_MORE_def OV_STRCMP_LESS_def

text \<open>\<open>strcmp\<close> compares bytes as \<open>unsigned char\<close>; only the sign of its result is documented.\<close>

fun strcmp :: "string \<Rightarrow> string \<Rightarrow> int" where
  "strcmp [] [] = 0"
| "strcmp [] (_ # _) = - 1"
| "strcmp (_ # _) [] = 1"
| "strcmp (a # as) (b # bs) =
    (if (of_char a :: nat) < of_char b then - 1
     else if (of_char b :: nat) < of_char a then 1 else strcmp as bs)"

text \<open>\<open>toupper\<close> and \<open>tolower\<close> in the C locale, and a \<open>char\<close> read as a signed number.\<close>

definition c_toupper :: "char \<Rightarrow> char" where
  "c_toupper c = (let n = of_char c :: nat in if 97 \<le> n \<and> n \<le> 122 then char_of (n - 32) else c)"

definition c_tolower :: "char \<Rightarrow> char" where
  "c_tolower c = (let n = of_char c :: nat in if 65 \<le> n \<and> n \<le> 90 then char_of (n + 32) else c)"

definition char_int :: "char \<Rightarrow> int" where
  "char_int c = (let n = int (of_char c) in if n < 128 then n else n - 256)"

text \<open>\<open>strstr\<close> as the index of the first occurrence.\<close>

fun is_prefix :: "string \<Rightarrow> string \<Rightarrow> bool" where
  "is_prefix [] _ = True"
| "is_prefix (_ # _) [] = False"
| "is_prefix (a # as) (b # bs) = (a = b \<and> is_prefix as bs)"

fun strstr :: "string \<Rightarrow> string \<Rightarrow> nat option" where
  "strstr [] sep = (if sep = [] then Some 0 else None)"
| "strstr (c # cs) sep = (if is_prefix sep (c # cs) then Some 0 else map_option Suc (strstr cs sep))"

section \<open>Operations\<close>

definition ov_string_compare :: "OV_STRING \<Rightarrow> OV_STRING \<Rightarrow> int" where
  "ov_string_compare string1 string2 =
    (case string1 of
       Some s1 \<Rightarrow> (case string2 of
           Some s2 \<Rightarrow> strcmp s1 s2
         | None \<Rightarrow> if s1 = [] then OV_STRCMP_EQUAL else OV_STRCMP_MORE)
     | None \<Rightarrow> (case string2 of
           Some s2 \<Rightarrow> if s2 = [] then OV_STRCMP_EQUAL else OV_STRCMP_LESS
         | None \<Rightarrow> OV_STRCMP_EQUAL))"

fun comparei_loop :: "string \<Rightarrow> string \<Rightarrow> int" where
  "comparei_loop (a # as) (b # bs) =
    (if char_int (c_toupper a) > char_int (c_toupper b) then OV_STRCMP_MORE
     else if char_int (c_toupper a) < char_int (c_toupper b) then OV_STRCMP_LESS
     else comparei_loop as bs)"
| "comparei_loop (_ # _) [] = OV_STRCMP_MORE"
| "comparei_loop [] (_ # _) = OV_STRCMP_LESS"
| "comparei_loop [] [] = OV_STRCMP_EQUAL"

definition ov_string_comparei :: "OV_STRING \<Rightarrow> OV_STRING \<Rightarrow> int" where
  "ov_string_comparei s1 s2 =
    (case s1 of
       Some a \<Rightarrow> (case s2 of
           Some b \<Rightarrow> comparei_loop a b
         | None \<Rightarrow> if a = [] then OV_STRCMP_EQUAL else OV_STRCMP_MORE)
     | None \<Rightarrow> (case s2 of
           Some b \<Rightarrow> if b \<noteq> [] then OV_STRCMP_LESS else OV_STRCMP_EQUAL
         | None \<Rightarrow> OV_STRCMP_EQUAL))"

definition ov_string_getlength :: "OV_STRING \<Rightarrow> OV_UINT" where
  "ov_string_getlength string = (case string of Some s \<Rightarrow> of_nat (length s) | None \<Rightarrow> 0)"

text \<open>
  \<open>ov_string_setvalue\<close>: \<open>maxlen\<close> is \<open>ov_vendortree_MaxStringLength()\<close>, \<open>mem\<close> whether
  \<open>ov_database_realloc\<close> succeeds, \<open>same\<close> whether the slot already holds the very pointer
  \<open>value\<close>. The slot \<open>pstring\<close> is \<open>None\<close> for a \<open>NULL\<close> argument.
\<close>

definition ov_string_setvalue ::
    "OV_UINT \<Rightarrow> bool \<Rightarrow> bool \<Rightarrow> OV_STRING option \<Rightarrow> OV_STRING \<Rightarrow> OV_RESULT \<times> OV_STRING option" where
  "ov_string_setvalue maxlen mem same pstring value =
    (case pstring of
       None \<Rightarrow> (OV_ERR_BADPARAM, None)
     | Some cur \<Rightarrow>
         (case value of
            None \<Rightarrow> (OV_ERR_OK, Some None)
          | Some v \<Rightarrow>
              if v = [] then (OV_ERR_OK, Some None)
              else if same then (OV_ERR_OK, Some cur)
              else if maxlen \<noteq> 0 \<and> of_nat (length v) > maxlen then (OV_ERR_BADVALUE, Some cur)
              else if \<not> mem then (OV_ERR_DBOUTOFMEMORY, Some cur)
              else (OV_ERR_OK, Some (Some v))))"

definition ov_string_append ::
    "OV_UINT \<Rightarrow> bool \<Rightarrow> OV_STRING option \<Rightarrow> OV_STRING \<Rightarrow> OV_RESULT \<times> OV_STRING option" where
  "ov_string_append maxlen mem pstring appstring =
    (case (pstring, appstring) of
       (Some cur, Some app) \<Rightarrow>
         (let old = (case cur of Some s \<Rightarrow> s | None \<Rightarrow> []);
              newlength = of_nat (length old) + of_nat (length app) :: OV_UINT
          in if maxlen \<noteq> 0 \<and> newlength > maxlen then (OV_ERR_BADVALUE, Some cur)
             else if newlength = 0 then ov_string_setvalue maxlen mem False (Some cur) None
             else if \<not> mem then (OV_ERR_DBOUTOFMEMORY, Some cur)
             else (OV_ERR_OK, Some (Some (old @ app))))
     | _ \<Rightarrow> (OV_ERR_BADPARAM, pstring))"

text \<open>
  \<open>ov_string_setvecvalue\<close>: the slots and the values as lists of length \<open>veclen\<close>, \<open>mem\<close> tells
  for each slot whether its allocation succeeds. The loop stops at the first failure and then
  clears every slot.
\<close>

fun setvec_loop :: "OV_UINT \<Rightarrow> bool list \<Rightarrow> OV_STRING list \<Rightarrow> OV_STRING list \<Rightarrow>
    OV_RESULT \<times> OV_STRING list" where
  "setvec_loop maxlen (m # ms) (s # ss) (v # vs) =
    (case ov_string_setvalue maxlen m False (Some s) v of
       (r, s') \<Rightarrow>
         if Ov_Fail r then (r, the s' # ss)
         else (case setvec_loop maxlen ms ss vs of (r', ss') \<Rightarrow> (r', the s' # ss')))"
| "setvec_loop _ _ ss _ = (OV_ERR_OK, ss)"

definition clear_vec :: "OV_STRING list \<Rightarrow> OV_STRING list" where
  "clear_vec ss = map (\<lambda>s. the (snd (ov_string_setvalue 0 True False (Some s) None))) ss"

definition ov_string_setvecvalue ::
    "OV_UINT \<Rightarrow> OV_UINT \<Rightarrow> bool list \<Rightarrow> OV_STRING list option \<Rightarrow> OV_STRING list option \<Rightarrow> OV_UINT \<Rightarrow>
     OV_RESULT \<times> OV_STRING list option" where
  "ov_string_setvecvalue maxlen maxvec mem pstringvec pvalue veclen =
    (case pstringvec of
       None \<Rightarrow> (OV_ERR_BADPARAM, None)
     | Some ss \<Rightarrow>
         if maxvec \<noteq> 0 \<and> veclen > maxvec then (OV_ERR_BADVALUE, Some ss)
         else (case pvalue of
             None \<Rightarrow> (OV_ERR_OK, Some (clear_vec ss))
           | Some vs \<Rightarrow>
               (case setvec_loop maxlen mem ss vs of
                  (r, ss') \<Rightarrow> if Ov_Fail r then (r, Some (clear_vec ss')) else (r, Some ss'))))"

definition ov_string_tolower :: "bool \<Rightarrow> OV_STRING \<Rightarrow> OV_STRING" where
  "ov_string_tolower mem string =
    (case string of None \<Rightarrow> None | Some s \<Rightarrow> if mem then Some (map c_tolower s) else None)"

definition ov_string_toupper :: "bool \<Rightarrow> OV_STRING \<Rightarrow> OV_STRING" where
  "ov_string_toupper mem string =
    (case string of None \<Rightarrow> None | Some s \<Rightarrow> if mem then Some (map c_toupper s) else None)"

text \<open>
  \<open>ov_string_split\<close>: the first loop counts the pieces, the second one cuts the copy. Both run
  \<open>strstr\<close> from behind the last separator. \<open>mem\<close> is the success of \<open>Ov_HeapMalloc\<close>; the result is
  the length written to \<open>*len\<close> and the returned vector.
\<close>

lemma is_prefix_take: "is_prefix p s \<longleftrightarrow> length p \<le> length s \<and> take (length p) s = p"
  by (induction p s rule: is_prefix.induct) auto

lemma is_prefix_append [simp]: "is_prefix p (p @ v)"
  by (simp add: is_prefix_take)

lemma strstr_prefix: "is_prefix sep s \<Longrightarrow> strstr s sep = Some 0"
  by (cases s) (auto simp: is_prefix_take)

lemma strstr_Some_bound: "strstr s sep = Some i \<Longrightarrow> i + length sep \<le> length s"
  by (induction s arbitrary: i) (auto simp: is_prefix_take split: if_splits)

function split_count :: "string \<Rightarrow> string \<Rightarrow> nat" where
  "split_count sep s =
    (if sep = [] then 1
     else case strstr s sep of None \<Rightarrow> 1
        | Some i \<Rightarrow> Suc (split_count sep (drop (i + length sep) s)))"
  by pat_completeness auto
termination
  by (relation "measure (\<lambda>(sep, s). length s)") (auto dest!: strstr_Some_bound simp flip: length_greater_0_conv)

function split_cut :: "string \<Rightarrow> string \<Rightarrow> string list" where
  "split_cut sep s =
    (if sep = [] then [s]
     else case strstr s sep of None \<Rightarrow> [s]
        | Some i \<Rightarrow> take i s # split_cut sep (drop (i + length sep) s))"
  by pat_completeness auto
termination
  by (relation "measure (\<lambda>(sep, s). length s)") (auto dest!: strstr_Some_bound simp flip: length_greater_0_conv)

declare split_count.simps [simp del] split_cut.simps [simp del]

definition ov_string_split :: "bool \<Rightarrow> OV_STRING \<Rightarrow> OV_STRING \<Rightarrow> nat \<times> string list option" where
  "ov_string_split mem str sep =
    (case str of
       None \<Rightarrow> (0, None)
     | Some s \<Rightarrow>
         if s = [] then (0, None)
         else let sepstr = (case sep of None \<Rightarrow> [] | Some p \<Rightarrow> p)
              in if sepstr = []
                 then (if mem then (length s, Some (map (\<lambda>c. [c]) s)) else (0, None))
                 else (if mem then (split_count sepstr s, Some (split_cut sepstr s)) else (0, None)))"

section \<open>Comparison\<close>

text \<open>\<open>NULL\<close> and the empty string are the same value.\<close>

definition string_value :: "OV_STRING \<Rightarrow> string" where
  "string_value s = (case s of None \<Rightarrow> [] | Some v \<Rightarrow> v)"

lemma strcmp_Nil: "strcmp [] s = (if s = [] then 0 else - 1)" "strcmp s [] = (if s = [] then 0 else 1)"
  by (cases s; simp)+

lemma ov_string_compare_value: "ov_string_compare a b = strcmp (string_value a) (string_value b)"
  by (auto simp: ov_string_compare_def string_value_def strcmp_consts strcmp_Nil split: option.splits)

lemma comparei_loop_Nil:
  "comparei_loop [] s = (if s = [] then 0 else - 1)" "comparei_loop s [] = (if s = [] then 0 else 1)"
  by (cases s; simp add: strcmp_consts)+

lemma ov_string_comparei_value:
  "ov_string_comparei a b = comparei_loop (string_value a) (string_value b)"
  by (cases a; cases b)
    (simp_all add: ov_string_comparei_def string_value_def comparei_loop_Nil strcmp_consts)

lemma strcmp_swap: "0 < strcmp a b \<longleftrightarrow> strcmp b a < 0"
  by (induction a b rule: strcmp.induct) auto

lemma strcmp_trans: "strcmp a b \<le> 0 \<Longrightarrow> strcmp b c \<le> 0 \<Longrightarrow> strcmp a c \<le> 0"
proof (induction a c arbitrary: b rule: strcmp.induct)
  case (3 v vs)
  then show ?case by (cases b) auto
next
  case (4 x xs y ys)
  then show ?case by (cases b) (auto split: if_splits)
qed auto

lemma strcmp_zero [simp]: "strcmp a b = 0 \<longleftrightarrow> a = b"
  by (induction a b rule: strcmp.induct) (auto simp: not_less dest: antisym)

interpretation strcmp_cmp: comparator strcmp
  by unfold_locales (rule strcmp_swap, rule strcmp_trans)

interpretation string_cmp: comparator ov_string_compare
  by unfold_locales (auto simp: ov_string_compare_value strcmp_swap intro: strcmp_trans)

lemma comparei_loop_swap: "0 < comparei_loop a b \<longleftrightarrow> comparei_loop b a < 0"
  by (induction a b rule: comparei_loop.induct) (auto simp: strcmp_consts)

lemma comparei_loop_trans:
  "comparei_loop a b \<le> 0 \<Longrightarrow> comparei_loop b c \<le> 0 \<Longrightarrow> comparei_loop a c \<le> 0"
proof (induction a c arbitrary: b rule: comparei_loop.induct)
  case (1 x xs y ys)
  then show ?case by (cases b) (auto simp: strcmp_consts split: if_splits)
next
  case (2 v vs)
  then show ?case by (cases b) (auto simp: strcmp_consts)
qed (auto simp: strcmp_consts)

interpretation stringi_cmp: comparator ov_string_comparei
  by unfold_locales
    (auto simp: ov_string_comparei_value comparei_loop_swap intro: comparei_loop_trans)

lemma comparei_zero: "comparei_loop a b = 0 \<longleftrightarrow> map (char_int \<circ> c_toupper) a = map (char_int \<circ> c_toupper) b"
  by (induction a b rule: comparei_loop.induct) (auto simp: strcmp_consts)

section \<open>Splitting\<close>

lemma strstr_Some: "strstr s sep = Some i \<Longrightarrow> s = take i s @ sep @ drop (i + length sep) s"
proof (induction s arbitrary: i)
  case Nil
  then show ?case by (auto split: if_splits)
next
  case (Cons c cs)
  show ?case
  proof (cases "is_prefix sep (c # cs)")
    case True
    then have "take (length sep) (c # cs) = sep" by (simp add: is_prefix_take)
    then have "c # cs = sep @ drop (length sep) (c # cs)" by (metis append_take_drop_id)
    with True Cons.prems show ?thesis by auto
  next
    case False
    with Cons show ?thesis by auto
  qed
qed

definition occurs :: "string \<Rightarrow> string \<Rightarrow> bool" where
  "occurs sep s \<longleftrightarrow> (\<exists>u v. s = u @ sep @ v)"

lemma strstr_occurs: "occurs sep s \<longleftrightarrow> (\<exists>i. strstr s sep = Some i)"
proof
  assume "\<exists>i. strstr s sep = Some i"
  then show "occurs sep s" unfolding occurs_def using strstr_Some by blast
next
  assume "occurs sep s"
  then obtain u v where "s = u @ sep @ v" unfolding occurs_def by blast
  then show "\<exists>i. strstr s sep = Some i"
  proof (induction u arbitrary: s)
    case Nil
    then show ?case by (simp add: strstr_prefix)
  next
    case (Cons c u)
    then show ?case by (auto split: if_splits)
  qed
qed

text \<open>The first occurrence: nothing that ends before the separator's last character contains it.\<close>

lemma strstr_first:
  assumes "strstr s sep = Some i" "sep \<noteq> []"
  shows "\<not> occurs sep (take i s)"
  using assms
proof (induction s arbitrary: i)
  case Nil
  then show ?case by (auto split: if_splits)
next
  case (Cons c cs)
  show ?case
  proof (cases "is_prefix sep (c # cs)")
    case True
    with Cons.prems show ?thesis by (auto simp: occurs_def)
  next
    case False
    with Cons.prems obtain j where j: "strstr cs sep = Some j" "i = Suc j" by auto
    show ?thesis
    proof
      assume "occurs sep (take i (c # cs))"
      then obtain u v where uv: "take (Suc j) (c # cs) = u @ sep @ v" unfolding occurs_def j by blast
      show False
      proof (cases u)
        case Nil
        with uv have "take (Suc j) (c # cs) = sep @ v" by simp
        then have "c # cs = sep @ (v @ drop (Suc j) (c # cs))"
          by (metis append.assoc append_take_drop_id)
        then have "is_prefix sep (c # cs)"
          by (metis append_eq_conv_conj is_prefix_take length_append le_add1)
        with False show False ..
      next
        case (Cons d u')
        with uv have "take j cs = u' @ sep @ v" by simp
        then have "occurs sep (take j cs)" unfolding occurs_def by blast
        with Cons.IH [OF j(1)] Cons.prems show False by simp
      qed
    qed
  qed
qed

fun join :: "string \<Rightarrow> string list \<Rightarrow> string" where
  "join sep [] = []"
| "join sep [s] = s"
| "join sep (s # ss) = s @ sep @ join sep ss"

lemma split_cut_nonempty: "split_cut sep s \<noteq> []"
  by (subst split_cut.simps) (auto split: option.splits)

lemma join_split_cut: "join sep (split_cut sep s) = s"
proof (induction sep s rule: split_cut.induct)
  case (1 sep s)
  show ?case
  proof (cases "sep = [] \<or> strstr s sep = None")
    case True
    then show ?thesis by (subst split_cut.simps) auto
  next
    case False
    then obtain i where i: "strstr s sep = Some i" by auto
    let ?r = "split_cut sep (drop (i + length sep) s)"
    have "split_cut sep s = take i s # ?r"
      using False i by (subst split_cut.simps) simp
    moreover have "join sep (take i s # ?r) = take i s @ sep @ join sep ?r"
      using split_cut_nonempty [of sep "drop (i + length sep) s"] by (cases ?r) auto
    moreover have "join sep ?r = drop (i + length sep) s" using 1 False i by simp
    ultimately show ?thesis using strstr_Some [OF i] by simp
  qed
qed

lemma split_cut_pieces: "sep \<noteq> [] \<Longrightarrow> t \<in> set (split_cut sep s) \<Longrightarrow> \<not> occurs sep t"
proof (induction sep s rule: split_cut.induct)
  case (1 sep s)
  show ?case
  proof (cases "strstr s sep")
    case None
    with 1 have "t = s" by (subst (asm) split_cut.simps) simp
    with None show ?thesis by (simp add: strstr_occurs)
  next
    case (Some i)
    with 1 have "t = take i s \<or> t \<in> set (split_cut sep (drop (i + length sep) s))"
      by (subst (asm) (2) split_cut.simps) simp
    with 1 Some strstr_first [OF Some] show ?thesis by auto
  qed
qed

lemma split_count_cut: "split_count sep s = length (split_cut sep s)"
proof (induction sep s rule: split_cut.induct)
  case (1 sep s)
  then show ?case
    by (subst split_count.simps, subst split_cut.simps) (auto split: option.splits)
qed

lemma join_chars: "join [] (map (\<lambda>c. [c]) s) = s"
proof (induction s)
  case (Cons c s)
  then show ?case by (cases s) auto
qed simp

section \<open>Storing strings in the database\<close>

text \<open>What a string slot of the database may hold: never the empty string (it is stored as
  \<open>NULL\<close>), and nothing longer than the configured limit.\<close>

definition db_string_ok :: "OV_UINT \<Rightarrow> OV_STRING \<Rightarrow> bool" where
  "db_string_ok maxlen s \<longleftrightarrow>
    (case s of None \<Rightarrow> True
       | Some v \<Rightarrow> v \<noteq> [] \<and> (maxlen \<noteq> 0 \<longrightarrow> (of_nat (length v) :: OV_UINT) \<le> maxlen))"

lemma string_value_simps [simp]: "string_value None = []" "string_value (Some v) = v"
  by (simp_all add: string_value_def)

lemma setvalue_ok:
  assumes "ov_string_setvalue maxlen mem same (Some cur) value = (r, s)"
    and "same \<longrightarrow> value = cur" and "db_string_ok maxlen cur"
  obtains c where "s = Some c" and "db_string_ok maxlen c"
    and "r = OV_ERR_OK \<Longrightarrow> string_value c = string_value value"
    and "r \<noteq> OV_ERR_OK \<Longrightarrow> c = cur"
  using assms
  by (cases "value")
    (auto simp: ov_string_setvalue_def db_string_ok_def not_less split: if_splits)

lemma clear_vec_None [simp]: "clear_vec ss = replicate (length ss) None"
  by (induction ss) (auto simp: clear_vec_def ov_string_setvalue_def)

lemma setvalue_cases:
  "ov_string_setvalue maxlen mem False (Some cur) value =
    (if string_value value = [] then (OV_ERR_OK, Some None)
     else if maxlen \<noteq> 0 \<and> of_nat (length (string_value value)) > maxlen then (OV_ERR_BADVALUE, Some cur)
     else if \<not> mem then (OV_ERR_DBOUTOFMEMORY, Some cur)
     else (OV_ERR_OK, Some value))"
  by (cases "value") (auto simp: ov_string_setvalue_def)

lemma setvec_loop_ok:
  assumes "setvec_loop maxlen mem ss vs = (r, ss')"
    and "length mem = length ss" "length vs = length ss"
  shows "length ss' = length ss \<and> (r = OV_ERR_OK \<longrightarrow> map string_value ss' = map string_value vs \<and>
    list_all (db_string_ok maxlen) ss')"
  using assms
proof (induction maxlen mem ss vs arbitrary: r ss' rule: setvec_loop.induct)
  case (1 maxlen m ms s ss v vs)
  then show ?case
    by (cases v)
      (auto simp: setvalue_cases Ov_Fail_def db_string_ok_def not_less split: prod.splits if_splits)
qed auto

section \<open>Properties\<close>

text \<open>\<open>ov_string_compare\<close> is a total order on the values of strings, with \<open>NULL\<close> equal to the
  empty string.\<close>
lemma ov_string_compare_total_order:
  assumes "ov_string_compare a b \<le> 0" and "ov_string_compare b c \<le> 0"
  shows "ov_string_compare a c \<le> 0 \<and> 0 \<le> ov_string_compare c a \<and>
    (ov_string_compare a b = 0 \<longleftrightarrow> string_value a = string_value b)"
  using assms string_cmp.cmp_trans [OF assms] string_cmp.cmp_swap [of a c]
    string_cmp.cmp_swap [of c a]
  by (auto simp: ov_string_compare_value)

text \<open>\<open>ov_string_comparei\<close> says equal exactly for strings that agree after \<open>toupper\<close>, and its
  sign turns when its arguments are swapped.\<close>
lemma ov_string_comparei_ignores_case:
  "(ov_string_comparei a b = 0 \<longleftrightarrow>
      map c_toupper (string_value a) = map c_toupper (string_value b)) \<and>
   (0 < ov_string_comparei a b \<longleftrightarrow> ov_string_comparei b a < 0)"
proof -
  have "char_int c = char_int d \<longleftrightarrow> c = d" for c d
  proof
    assume "char_int c = char_int d"
    moreover have "(of_char c :: nat) < 256" "(of_char d :: nat) < 256" by simp_all
    ultimately have "(of_char c :: nat) = of_char d"
      by (auto simp: char_int_def Let_def simp del: nat_of_char_less_256 split: if_splits)
    then show "c = d" by simp
  qed simp
  then have "map (char_int \<circ> c_toupper) u = map (char_int \<circ> c_toupper) v \<longleftrightarrow>
      map c_toupper u = map c_toupper v" for u v
    by (metis (no_types, lifting) injI inj_map_eq_map map_map)
  then show ?thesis
    by (simp add: ov_string_comparei_value comparei_zero comparei_loop_swap)
qed

text \<open>\<open>ov_string_split\<close> loses nothing: joining the pieces with the separator gives the string
  back; the announced length is the number of pieces (so the writes to the vector stay inside
  it); and no piece contains a nonempty separator.\<close>
lemma ov_string_split_join:
  assumes "ov_string_split mem (Some s) sep = (len, Some pieces)"
  shows "join (string_value sep) pieces = s \<and> len = length pieces \<and>
    (string_value sep = [] \<or> (\<forall>t \<in> set pieces. \<not> occurs (string_value sep) t))"
  using assms
  by (cases sep)
    (auto simp: ov_string_split_def Let_def join_chars join_split_cut split_count_cut
      dest: split_cut_pieces split: if_splits)

text \<open>\<open>ov_string_setvalue\<close> keeps a slot well-formed on every path. On success the slot has the
  new value; on every error (limit exceeded, database full) it is left as it was.\<close>
lemma ov_string_setvalue_correct:
  assumes "ov_string_setvalue maxlen mem same (Some cur) value = (r, s)"
    and "same \<longrightarrow> value = cur" and "db_string_ok maxlen cur"
  shows "\<exists>c. s = Some c \<and> db_string_ok maxlen c \<and>
    (if r = OV_ERR_OK then string_value c = string_value value else c = cur)"
  using assms by (rule setvalue_ok) auto

text \<open>\<open>ov_string_setvecvalue\<close> is all or nothing: after success every slot has its value, after
  a failure inside the loop every slot is \<open>NULL\<close>; the number of slots never changes.\<close>
lemma ov_string_setvecvalue_atomic:
  assumes "ov_string_setvecvalue maxlen maxvec mem (Some ss) (Some vs) veclen = (r, Some ss')"
    and "length mem = length ss" and "length vs = length ss"
    and "\<not> (maxvec \<noteq> 0 \<and> veclen > maxvec)"
  shows "length ss' = length ss \<and>
    (if r = OV_ERR_OK then map string_value ss' = map string_value vs \<and> list_all (db_string_ok maxlen) ss'
     else ss' = replicate (length ss) None)"
proof -
  obtain q ss1 where l: "setvec_loop maxlen mem ss vs = (q, ss1)" by fastforce
  from setvec_loop_ok [OF this assms(2,3)] assms(1,4) l show ?thesis
    by (auto simp: ov_string_setvecvalue_def Ov_Fail_def split: if_splits)
qed

end
