(* ===== verification/OvScheduler.thy ===== *)
theory OvScheduler
  imports OvTime OvString
begin

text \<open>
  core/ov/source/libov/ov_scheduler.c: the queue of scheduled active objects. The linked list
  from \<open>pfirstevent\<close> over \<open>pnext\<close> is the list of its events in order; an event carries the
  address it was allocated at. The clock readings of a call, the result of the allocation and the
  effect of an object's execute function on the scheduler are arguments.
\<close>

section \<open>State\<close>

record OV_SCHEDULER_EVENT =
  ev_addr :: nat
  ev_pobj :: objptr
  ev_executefnc :: nat
  ev_time :: OV_TIME

type_synonym event_queue = "OV_SCHEDULER_EVENT list"

record sched =
  pfirstevent :: event_queue
  objectstate :: "objptr \<Rightarrow> OV_UINT"
  ov_activitylock :: bool
  allowedJitter :: OV_UINT
  numExceeds :: OV_UINT

text \<open>What calling an object's execute function does to the scheduler.\<close>

type_synonym execute_fnc = "nat \<Rightarrow> objptr \<Rightarrow> sched \<Rightarrow> sched"

definition OV_OS_ACTIVE :: OV_UINT where "OV_OS_ACTIVE = 4"

section \<open>Operations\<close>

fun ov_scheduler_insertevent :: "OV_SCHEDULER_EVENT \<Rightarrow> event_queue \<Rightarrow> event_queue" where
  "ov_scheduler_insertevent pevent [] = [pevent]"
| "ov_scheduler_insertevent pevent (pcurr # rest) =
    (if ov_time_compare (ev_time pcurr) (ev_time pevent) > 0 then pevent # pcurr # rest
     else pcurr # ov_scheduler_insertevent pevent rest)"

definition ov_scheduler_register ::
    "nat option \<Rightarrow> OV_TIME \<Rightarrow> objptr option \<Rightarrow> nat option \<Rightarrow> sched \<Rightarrow> OV_RESULT \<times> sched" where
  "ov_scheduler_register heap now pobj executefnc st =
    (case (pobj, executefnc) of
       (Some p, Some f) \<Rightarrow>
         (case heap of
            None \<Rightarrow> (OV_ERR_HEAPOUTOFMEMORY, st)
          | Some a \<Rightarrow>
              (OV_ERR_OK, st\<lparr>
                 pfirstevent := ov_scheduler_insertevent
                   \<lparr>ev_addr = a, ev_pobj = p, ev_executefnc = f, ev_time = now\<rparr> (pfirstevent st),
                 objectstate := (objectstate st)(p := objectstate st p OR OV_OS_ACTIVE)\<rparr>))
     | _ \<Rightarrow> (OV_ERR_BADPARAM, st))"

text \<open>The search loop with \<open>pcurr\<close> and \<open>plast\<close>: the first event of an object and the queue
  without it.\<close>

fun take_event :: "objptr \<Rightarrow> event_queue \<Rightarrow> (OV_SCHEDULER_EVENT \<times> event_queue) option" where
  "take_event pobj [] = None"
| "take_event pobj (pcurr # rest) =
    (if ev_pobj pcurr = pobj then Some (pcurr, rest)
     else map_option (\<lambda>(e, q). (e, pcurr # q)) (take_event pobj rest))"

definition ov_scheduler_unregister :: "objptr \<Rightarrow> sched \<Rightarrow> sched" where
  "ov_scheduler_unregister pobj st =
    (case take_event pobj (pfirstevent st) of
       None \<Rightarrow> st
     | Some (e, q) \<Rightarrow> st\<lparr>pfirstevent := q,
         objectstate := (objectstate st)(pobj := objectstate st pobj AND NOT OV_OS_ACTIVE)\<rparr>)"

definition ov_scheduler_setabseventtime ::
    "OV_TIME \<Rightarrow> objptr option \<Rightarrow> OV_TIME option \<Rightarrow> sched \<Rightarrow> sched" where
  "ov_scheduler_setabseventtime now pobj ptime st =
    (case pobj of
       None \<Rightarrow> st
     | Some p \<Rightarrow>
         (let time = (case ptime of Some t \<Rightarrow> t | None \<Rightarrow> now)
          in case take_event p (pfirstevent st) of
               None \<Rightarrow> st
             | Some (e, q) \<Rightarrow>
                 st\<lparr>pfirstevent := ov_scheduler_insertevent (e\<lparr>ev_time := time\<rparr>) q\<rparr>))"

definition ov_scheduler_setreleventtime ::
    "OV_TIME \<Rightarrow> objptr option \<Rightarrow> OV_TIME_SPAN option \<Rightarrow> sched \<Rightarrow> sched" where
  "ov_scheduler_setreleventtime now pobj ptimespan st =
    (case pobj of
       None \<Rightarrow> st
     | Some p \<Rightarrow>
         (let time = (case ptimespan of Some s \<Rightarrow> ov_time_add now s | None \<Rightarrow> now)
          in ov_scheduler_setabseventtime now (Some p) (Some time) st))"

text \<open>The time span until an event, cut at zero; \<open>OV_VL_MAXINT\<close> seconds without one.\<close>

definition forever :: OV_TIME_SPAN where
  "forever = \<lparr>span_secs = OV_VL_MAXINT, span_usecs = 0\<rparr>"

definition wait_span :: "OV_TIME \<Rightarrow> OV_TIME \<Rightarrow> OV_TIME_SPAN" where
  "wait_span event now =
    (let d = ov_time_diff event now
     in if sint (span_secs d) < 0 \<or> sint (span_usecs d) < 0
        then \<lparr>span_secs = 0, span_usecs = 0\<rparr> else d)"

text \<open>The jitter bookkeeping for an event that is due; the arithmetic is that of \<open>OV_INT\<close> and the
  comparison with \<open>OV_UINT\<close> is unsigned.\<close>

definition count_exceed :: "OV_TIME \<Rightarrow> OV_TIME \<Rightarrow> sched \<Rightarrow> sched" where
  "count_exceed now event st =
    (if allowedJitter st \<noteq> 0 \<and>
        (let jitter = ov_time_diff now event
         in span_secs jitter * 1000000 + span_usecs jitter > allowedJitter st)
     then st\<lparr>numExceeds := numExceeds st + 1\<rparr> else st)"

definition ov_scheduler_schedulenextevent ::
    "OV_TIME \<Rightarrow> OV_TIME \<Rightarrow> execute_fnc \<Rightarrow> sched \<Rightarrow> OV_TIME_SPAN \<times> sched" where
  "ov_scheduler_schedulenextevent now1 now2 call st =
    (if ov_activitylock st then (forever, st)
     else
       let (now, st') =
         (case pfirstevent st of
            [] \<Rightarrow> (now1, st)
          | pevent # rest \<Rightarrow>
              if ov_time_compare now1 (ev_time pevent) = OV_TIMECMP_AFTER
              then (now2, call (ev_executefnc pevent) (ev_pobj pevent)
                     ((count_exceed now1 (ev_time pevent) st)
                        \<lparr>pfirstevent := ov_scheduler_insertevent (pevent\<lparr>ev_time := now1\<rparr>) rest\<rparr>))
              else (now1, st))
       in (case pfirstevent st' of [] \<Rightarrow> forever | e # _ \<Rightarrow> wait_span (ev_time e) now, st'))"

definition ov_scheduler_getnexteventtime :: "OV_TIME \<Rightarrow> sched \<Rightarrow> OV_TIME_SPAN" where
  "ov_scheduler_getnexteventtime now st =
    (if ov_activitylock st then forever
     else case pfirstevent st of _ # e # _ \<Rightarrow> wait_span (ev_time e) now | _ \<Rightarrow> forever)"

section \<open>Executing events by name\<close>

text \<open>What the names are compared with: identifiers of objects, classes and libraries.\<close>

record sched_names =
  obj_identifier :: "objptr \<Rightarrow> string"
  obj_class :: "objptr \<Rightarrow> classptr option"
  class_identifier :: "classptr \<Rightarrow> string"
  class_library :: "classptr \<Rightarrow> nat option"
  library_identifier :: "nat \<Rightarrow> string"

definition name_matches :: "OV_STRING \<Rightarrow> string \<Rightarrow> bool" where
  "name_matches pattern identifier \<longleftrightarrow>
    pattern = None \<or> pattern = Some [] \<or> ov_string_compare pattern (Some identifier) = OV_STRCMP_EQUAL"

fun event_at :: "nat \<Rightarrow> event_queue \<Rightarrow> event_queue option" where
  "event_at a [] = None"
| "event_at a (e # q) = (if ev_addr e = a then Some (e # q) else event_at a q)"

text \<open>
  The loop of \<open>ov_scheduler_execnamedeventonce\<close> at the event with address \<open>a\<close>. The execute
  function may change the queue, so the successor is read after the call. \<open>None\<close> is no result:
  the event was freed (its \<open>pnext\<close> must not be read), or \<open>fuel\<close> iterations were not enough.
\<close>

fun execnamed_loop :: "nat \<Rightarrow> sched_names \<Rightarrow> execute_fnc \<Rightarrow> OV_STRING \<Rightarrow> OV_STRING \<Rightarrow> OV_STRING \<Rightarrow>
    nat option \<Rightarrow> sched \<Rightarrow> (bool \<times> sched) option" where
  "execnamed_loop 0 names call ident cls lib cur st = None"
| "execnamed_loop (Suc fuel) names call ident cls lib None st = Some (False, st)"
| "execnamed_loop (Suc fuel) names call ident cls lib (Some a) st =
    (case event_at a (pfirstevent st) of
       Some (e # _) \<Rightarrow>
         (let p = ev_pobj e;
              continue = (\<lambda>st'. case event_at a (pfirstevent st') of
                  Some (_ # q) \<Rightarrow> execnamed_loop fuel names call ident cls lib
                    (case q of [] \<Rightarrow> None | e' # _ \<Rightarrow> Some (ev_addr e')) st'
                | _ \<Rightarrow> None)
          in if name_matches ident (obj_identifier names p) then
               (case obj_class names p of
                  None \<Rightarrow> Some (False, st)
                | Some c \<Rightarrow>
                    if name_matches cls (class_identifier names c) then
                      (case class_library names c of
                         None \<Rightarrow> Some (False, st)
                       | Some l \<Rightarrow>
                           if name_matches lib (library_identifier names l)
                           then continue (call (ev_executefnc e) p st) else continue st)
                    else continue st)
             else continue st)
     | _ \<Rightarrow> None)"

definition ov_scheduler_execnamedeventonce ::
    "nat \<Rightarrow> sched_names \<Rightarrow> execute_fnc \<Rightarrow> OV_STRING \<Rightarrow> OV_STRING \<Rightarrow> OV_STRING \<Rightarrow> sched \<Rightarrow>
     (bool \<times> sched) option" where
  "ov_scheduler_execnamedeventonce fuel names call ident cls lib st =
    execnamed_loop fuel names call ident cls lib
      (case pfirstevent st of [] \<Rightarrow> None | e # _ \<Rightarrow> Some (ev_addr e)) st"

section \<open>The queue\<close>

abbreviation queue_sorted :: "event_queue \<Rightarrow> bool" where
  "queue_sorted q \<equiv> sorted_by ov_time_compare ev_time q"

lemma insertevent_eq: "ov_scheduler_insertevent e q = insert_after ov_time_compare ev_time e q"
  by (induction q) auto

lemma take_event_Some:
  "take_event p q = Some (e, q') \<Longrightarrow> \<exists>xs ys. q = xs @ e # ys \<and> q' = xs @ ys \<and> ev_pobj e = p \<and>
    (\<forall>x \<in> set xs. ev_pobj x \<noteq> p)"
proof (induction q arbitrary: q')
  case Nil
  then show ?case by simp
next
  case (Cons c cs)
  show ?case
  proof (cases "ev_pobj c = p")
    case True
    with Cons.prems show ?thesis by (intro exI [of _ "[]"] exI [of _ cs]) auto
  next
    case False
    with Cons.prems obtain r where "take_event p cs = Some (e, r)" "q' = c # r" by auto
    with Cons.IH [of r] obtain xs ys where
      "cs = xs @ e # ys" "r = xs @ ys" "ev_pobj e = p" "\<forall>x \<in> set xs. ev_pobj x \<noteq> p" by blast
    with False \<open>q' = c # r\<close> show ?thesis by (intro exI [of _ "c # xs"] exI [of _ ys]) auto
  qed
qed

lemma take_event_None [simp]: "take_event p q = None \<longleftrightarrow> p \<notin> ev_pobj ` set q"
  by (induction q) auto

lemma take_event_sorted:
  "take_event p q = Some (e, q') \<Longrightarrow> queue_sorted q \<Longrightarrow> queue_sorted q'"
  by (auto dest!: take_event_Some intro: sorted_by_sublist)

text \<open>The invariant: sorted by time, every event a cell of its own.\<close>

definition sched_ok :: "sched \<Rightarrow> bool" where
  "sched_ok st \<longleftrightarrow> queue_sorted (pfirstevent st) \<and> distinct (map ev_addr (pfirstevent st))"

lemma distinct_addr_insert:
  "distinct (map ev_addr (ov_scheduler_insertevent e q)) \<longleftrightarrow>
    ev_addr e \<notin> ev_addr ` set q \<and> distinct (map ev_addr q)"
proof -
  have "mset (map ev_addr (ov_scheduler_insertevent e q)) = mset (ev_addr e # map ev_addr q)"
    by (simp add: insertevent_eq)
  then have "distinct (map ev_addr (ov_scheduler_insertevent e q)) \<longleftrightarrow> distinct (ev_addr e # map ev_addr q)"
    by (rule mset_eq_imp_distinct_iff)
  then show ?thesis by simp
qed

lemma sched_ok_insert:
  assumes "sched_ok st" "pfirstevent st' = ov_scheduler_insertevent e (pfirstevent st)"
    and "ev_addr e \<notin> ev_addr ` set (pfirstevent st)"
  shows "sched_ok st'"
proof -
  have "queue_sorted (ov_scheduler_insertevent e (pfirstevent st))"
    unfolding insertevent_eq
    by (rule time_cmp.sorted_insert_after) (use assms in \<open>simp add: sched_ok_def\<close>)
  then show ?thesis using assms by (simp add: sched_ok_def distinct_addr_insert)
qed

lemma sched_ok_queue: "pfirstevent st' = pfirstevent st \<Longrightarrow> sched_ok st' = sched_ok st"
  by (simp add: sched_ok_def)

lemma sched_ok_take:
  assumes "sched_ok st" "take_event p (pfirstevent st) = Some (e, q)" "pfirstevent st' = q"
  shows "sched_ok st'" "ev_addr e \<notin> ev_addr ` set q"
  using assms take_event_sorted [OF assms(2)] take_event_Some [OF assms(2)]
  by (auto simp: sched_ok_def)

lemma register_ok:
  assumes "sched_ok st" "\<forall>a. heap = Some a \<longrightarrow> a \<notin> ev_addr ` set (pfirstevent st)"
  shows "sched_ok (snd (ov_scheduler_register heap now pobj fnc st))"
  using assms
  by (auto simp: ov_scheduler_register_def split: option.splits intro: sched_ok_insert)

lemma unregister_ok: "sched_ok st \<Longrightarrow> sched_ok (ov_scheduler_unregister p st)"
  by (auto simp: ov_scheduler_unregister_def split: option.splits intro: sched_ok_take)

lemma setabseventtime_ok: "sched_ok st \<Longrightarrow> sched_ok (ov_scheduler_setabseventtime now pobj t st)"
proof (cases "\<exists>p e q. pobj = Some p \<and> take_event p (pfirstevent st) = Some (e, q)")
  case True
  then obtain p e q where t: "pobj = Some p" "take_event p (pfirstevent st) = Some (e, q)" by blast
  assume ok: "sched_ok st"
  let ?e = "e\<lparr>ev_time := case t of Some t \<Rightarrow> t | None \<Rightarrow> now\<rparr>"
  note r = sched_ok_take [OF ok t(2), of "st\<lparr>pfirstevent := q\<rparr>", simplified]
  have "sched_ok (st\<lparr>pfirstevent := ov_scheduler_insertevent ?e q\<rparr>)"
    by (rule sched_ok_insert [OF r(1), of _ ?e]) (use r(2) in simp_all)
  with t show ?thesis by (simp add: ov_scheduler_setabseventtime_def)
qed (auto simp: ov_scheduler_setabseventtime_def split: option.splits simp del: take_event_None)

lemma setreleventtime_ok: "sched_ok st \<Longrightarrow> sched_ok (ov_scheduler_setreleventtime now pobj s st)"
  by (auto simp: ov_scheduler_setreleventtime_def setabseventtime_ok split: option.splits)

text \<open>The state in which the execute function of the first event is called.\<close>

definition at_call :: "OV_TIME \<Rightarrow> sched \<Rightarrow> sched" where
  "at_call now1 st =
    (case pfirstevent st of
       [] \<Rightarrow> st
     | e # rest \<Rightarrow> (count_exceed now1 (ev_time e) st)
         \<lparr>pfirstevent := ov_scheduler_insertevent (e\<lparr>ev_time := now1\<rparr>) rest\<rparr>)"

lemma count_exceed_queue [simp]:
  "pfirstevent (count_exceed now t st) = pfirstevent st"
  "ov_activitylock (count_exceed now t st) = ov_activitylock st"
  by (simp_all add: count_exceed_def)

lemma at_call_ok: "sched_ok st \<Longrightarrow> sched_ok (at_call now st)"
proof (cases "pfirstevent st")
  case (Cons e rest)
  assume "sched_ok st"
  with Cons have "sched_ok (st\<lparr>pfirstevent := rest\<rparr>)" and "ev_addr e \<notin> ev_addr ` set rest"
    by (auto simp: sched_ok_def)
  then show ?thesis
    using Cons by (auto simp: at_call_def intro: sched_ok_insert [of "st\<lparr>pfirstevent := rest\<rparr>"])
qed (simp add: at_call_def)

definition due :: "OV_TIME \<Rightarrow> sched \<Rightarrow> bool" where
  "due now st \<longleftrightarrow> \<not> ov_activitylock st \<and>
    (case pfirstevent st of [] \<Rightarrow> False | e # _ \<Rightarrow> ev_time e < now)"

lemma schedulenextevent_state:
  "snd (ov_scheduler_schedulenextevent now1 now2 call st) =
    (if due now1 st
     then call (ev_executefnc (hd (pfirstevent st))) (ev_pobj (hd (pfirstevent st))) (at_call now1 st)
     else st)"
  by (auto simp: ov_scheduler_schedulenextevent_def due_def at_call_def Let_def split: list.splits)

section \<open>Runs of the scheduler\<close>

text \<open>
  Everything that can happen to the scheduler: calls of its operations, in any order and at any
  readings of the clock. An execute function may itself only use the operations (the premise of
  the last rule), as the tasks of the runtime do.
\<close>

inductive sched_run :: "sched \<Rightarrow> sched \<Rightarrow> bool" where
  start: "sched_run s s"
| register: "sched_run s t \<Longrightarrow> (\<forall>a. heap = Some a \<longrightarrow> a \<notin> ev_addr ` set (pfirstevent t)) \<Longrightarrow>
    sched_run s (snd (ov_scheduler_register heap now p f t))"
| unregister: "sched_run s t \<Longrightarrow> sched_run s (ov_scheduler_unregister q t)"
| setabs: "sched_run s t \<Longrightarrow> sched_run s (ov_scheduler_setabseventtime now p tm t)"
| setrel: "sched_run s t \<Longrightarrow> sched_run s (ov_scheduler_setreleventtime now p sp t)"
| schedule: "sched_run s t \<Longrightarrow> (\<forall>g o' u. sched_run u (call g o' u)) \<Longrightarrow>
    sched_run s (snd (ov_scheduler_schedulenextevent now1 now2 call t))"
| activitylock: "sched_run s t \<Longrightarrow> sched_run s (t\<lparr>ov_activitylock := b\<rparr>)"

lemma sched_run_ok: "sched_run s t \<Longrightarrow> sched_ok s \<Longrightarrow> sched_ok t"
proof (induction rule: sched_run.induct)
  case (register s t heap now p f)
  then show ?case by (blast intro: register_ok)
next
  case (schedule s t call now1 now2)
  then show ?case by (auto simp: schedulenextevent_state intro: at_call_ok)
next
  case (activitylock s t b)
  then show ?case using sched_ok_queue [of "t\<lparr>ov_activitylock := b\<rparr>" t] by simp
qed (auto intro: unregister_ok setabseventtime_ok setreleventtime_ok)

section \<open>No event waits forever\<close>

fun run_schedule :: "execute_fnc \<Rightarrow> (OV_TIME \<times> OV_TIME) list \<Rightarrow> sched \<Rightarrow> sched" where
  "run_schedule call [] st = st"
| "run_schedule call ((now1, now2) # ts) st =
    run_schedule call ts (snd (ov_scheduler_schedulenextevent now1 now2 call st))"

text \<open>Execute functions that leave the queue and the lock alone.\<close>

definition keeps_queue :: "execute_fnc \<Rightarrow> bool" where
  "keeps_queue call \<longleftrightarrow> (\<forall>f p st. pfirstevent (call f p st) = pfirstevent st \<and>
      ov_activitylock (call f p st) = ov_activitylock st)"

lemma insertevent_prefix:
  assumes "\<forall>x \<in> set (xs @ [e]). ev_time x \<le> ev_time c"
  shows "\<exists>zs. ov_scheduler_insertevent c (xs @ e # ys) = xs @ e # zs"
  using assms by (induction xs) (auto simp: not_less)

lemma schedule_moves_up:
  assumes ok: "sched_ok st" and q: "pfirstevent st = h # xs @ e # ys"
    and lock: "\<not> ov_activitylock st" and now: "ev_time e < now1" and k: "keeps_queue call"
    and st'_def: "st' = snd (ov_scheduler_schedulenextevent now1 now2 call st)"
  shows "\<exists>zs. pfirstevent st' = xs @ e # zs" "sched_ok st'" "\<not> ov_activitylock st'"
proof -
  have le: "\<forall>x \<in> set (h # xs). ev_time x \<le> ev_time e"
    using ok q by (auto simp: sched_ok_def sorted_by_def sorted_wrt_append)
  then have "ev_time h < now1" using now by auto
  then have d: "due now1 st" using lock q by (simp add: due_def)
  have "\<exists>zs. ov_scheduler_insertevent (h\<lparr>ev_time := now1\<rparr>) (xs @ e # ys) = xs @ e # zs"
    by (rule insertevent_prefix) (use le now in auto)
  then show "\<exists>zs. pfirstevent st' = xs @ e # zs"
    using d k q by (simp add: st'_def schedulenextevent_state at_call_def keeps_queue_def)
  show "sched_ok st'"
    using d k at_call_ok [OF ok, of now1]
    by (simp add: st'_def schedulenextevent_state sched_ok_def keeps_queue_def)
  show "\<not> ov_activitylock st'"
    using d k lock q by (simp add: st'_def schedulenextevent_state at_call_def keeps_queue_def)
qed

lemma run_schedule_reaches:
  assumes "sched_ok st" "pfirstevent st = xs @ e # ys" "\<not> ov_activitylock st"
    and "length ts = length xs" "\<forall>(now1, now2) \<in> set ts. ev_time e < now1" "keeps_queue call"
  shows "\<exists>zs. pfirstevent (run_schedule call ts st) = e # zs \<and>
    \<not> ov_activitylock (run_schedule call ts st)"
  using assms
proof (induction xs arbitrary: st ys ts)
  case Nil
  then show ?case by simp
next
  case (Cons h xs)
  then obtain now1 now2 ts' where ts: "ts = (now1, now2) # ts'" "length ts' = length xs"
    by (cases ts) auto
  have "pfirstevent st = h # xs @ e # ys" "ev_time e < now1"
    using Cons.prems ts by auto
  note up = schedule_moves_up [OF Cons.prems(1) this(1) Cons.prems(3) this(2) Cons.prems(6) refl, of now2]
  then obtain zs where "pfirstevent (snd (ov_scheduler_schedulenextevent now1 now2 call st)) = xs @ e # zs"
    by blast
  from Cons.IH [OF up(2) this up(3) ts(2)] Cons.prems ts show ?case by simp
qed

section \<open>Waiting times\<close>

lemma wait_span_value:
  assumes "time_normal t" "time_normal now" "\<bar>uint (secs t) - uint (secs now)\<bar> < 2147483648"
  shows "span_us (wait_span t now) = max 0 (time_us t - time_us now)"
proof -
  note d = ov_time_diff_value [OF assms]
  let ?d = "ov_time_diff t now"
  have "sint (span_secs ?d) < 0 \<or> sint (span_usecs ?d) < 0 \<longleftrightarrow> span_us ?d < 0"
    using d unfolding span_us_def span_normal_def span_signs_agree_def by linarith
  then show ?thesis
    using d by (auto simp: wait_span_def Let_def span_us_def [of "\<lparr>span_secs = 0, span_usecs = 0\<rparr>"])
qed

section \<open>Executing by name\<close>

lemma execnamed_loop_False:
  "execnamed_loop fuel names call ident cls lib cur st = Some (b, st') \<Longrightarrow> \<not> b"
proof (induction fuel arbitrary: cur st)
  case 0
  then show ?case by simp
next
  case (Suc fuel)
  then show ?case
    by (cases cur) (auto simp: Let_def split: option.splits list.splits if_splits)
qed

lemma event_at_append:
  "distinct (map ev_addr (xs @ e # ys)) \<Longrightarrow> event_at (ev_addr e) (xs @ e # ys) = Some (e # ys)"
  by (induction xs) auto

definition cursor :: "event_queue \<Rightarrow> nat option" where
  "cursor q = (case q of [] \<Rightarrow> None | e # _ \<Rightarrow> Some (ev_addr e))"

text \<open>An event the pattern selects, where every object has a class and every class a library.\<close>

definition selected :: "sched_names \<Rightarrow> OV_STRING \<Rightarrow> OV_STRING \<Rightarrow> OV_STRING \<Rightarrow>
    OV_SCHEDULER_EVENT \<Rightarrow> bool" where
  "selected names ident cls lib e \<longleftrightarrow>
    (let c = the (obj_class names (ev_pobj e))
     in name_matches ident (obj_identifier names (ev_pobj e)) \<and>
        name_matches cls (class_identifier names c) \<and>
        name_matches lib (library_identifier names (the (class_library names c))))"

definition named_ok :: "sched_names \<Rightarrow> bool" where
  "named_ok names \<longleftrightarrow> (\<forall>p. \<exists>c l. obj_class names p = Some c \<and> class_library names c = Some l)"

lemma execnamed_loop_all:
  assumes "keeps_queue call" "named_ok names"
  shows "distinct (map ev_addr (pfirstevent st)) \<Longrightarrow> pfirstevent st = xs @ ys \<Longrightarrow> length ys < fuel \<Longrightarrow>
    execnamed_loop fuel names call ident cls lib (cursor ys) st =
      Some (False, fold (\<lambda>e. call (ev_executefnc e) (ev_pobj e)) (filter (selected names ident cls lib) ys) st)"
proof (induction ys arbitrary: xs st fuel)
  case Nil
  then show ?case by (cases fuel) (auto simp: cursor_def)
next
  case (Cons e ys)
  then obtain n where n: "fuel = Suc n" "length ys < n" by (cases fuel) auto
  obtain c l where cl: "obj_class names (ev_pobj e) = Some c" "class_library names c = Some l"
    using assms(2) unfolding named_ok_def by blast
  let ?st = "if selected names ident cls lib e then call (ev_executefnc e) (ev_pobj e) st else st"
  have q: "pfirstevent ?st = (xs @ [e]) @ ys"
    using assms(1) Cons.prems by (simp add: keeps_queue_def)
  have at: "event_at (ev_addr e) (pfirstevent st) = Some (e # ys)"
    using Cons.prems event_at_append by metis
  have at': "event_at (ev_addr e) (pfirstevent ?st) = Some (e # ys)"
    using q Cons.prems event_at_append [of xs e ys] by simp
  have step: "execnamed_loop fuel names call ident cls lib (cursor (e # ys)) st =
      execnamed_loop n names call ident cls lib (cursor ys) ?st"
    using at at' cl unfolding n(1)
    by (auto simp: cursor_def selected_def Let_def split: list.splits)
  have "distinct (map ev_addr (pfirstevent ?st))" using q Cons.prems by simp
  from Cons.IH [OF this q n(2)] show ?case unfolding step by simp
qed

section \<open>Lateness\<close>

lemma late_us_word:
  assumes "time_normal now" "time_normal t" "time_us t \<le> time_us now"
    and "time_us now - time_us t < 2147483648"
  shows "uint (span_secs (ov_time_diff now t) * 1000000 + span_usecs (ov_time_diff now t)) =
    time_us now - time_us t"
proof -
  let ?d = "ov_time_diff now t"
  have u: "0 \<le> uint (usecs now)" "uint (usecs now) < 1000000" "0 \<le> uint (usecs t)" "uint (usecs t) < 1000000"
    using assms(1,2) by (simp_all add: time_normal_def)
  have "\<bar>uint (secs now) - uint (secs t)\<bar> < 2147483648"
    using assms(3,4) u unfolding time_us_def by linarith
  note d = conjunct1 [OF ov_time_diff_value [OF assms(1,2) this]]
  have "span_secs ?d * 1000000 + span_usecs ?d = word_of_int (span_us ?d)"
    by (simp add: span_us_def)
  also have "uint \<dots> = span_us ?d"
    by (rule uint_of_int_32) (use d assms(3,4) in linarith)+
  finally show ?thesis using d by simp
qed

lemma count_exceed_value:
  assumes "time_normal now" "time_normal t" "time_us t \<le> time_us now"
    and "time_us now - time_us t < 2147483648"
  shows "count_exceed now t st =
    (if allowedJitter st \<noteq> 0 \<and> uint (allowedJitter st) < time_us now - time_us t
     then st\<lparr>numExceeds := numExceeds st + 1\<rparr> else st)"
  using late_us_word [OF assms] by (simp add: count_exceed_def Let_def word_less_def)

lemma lex_us:
  assumes "0 \<le> u" "u < 1000000" "0 \<le> v" "v < (1000000 :: int)"
  shows "x * 1000000 + u < y * 1000000 + v \<longleftrightarrow> x < y \<or> (x = y \<and> u < v)"
  using assms by linarith

lemma time_less_us:
  assumes "time_normal a" "time_normal b"
  shows "a < b \<longleftrightarrow> time_us a < time_us b"
  unfolding time_us_def
  by (subst lex_us)
    (use assms in \<open>auto simp: less_OV_TIME_ext_def word_less_def word_uint_eq_iff time_normal_def\<close>)

section \<open>Properties\<close>

lemma register_queue:
  assumes "sched_ok st"
  shows "ov_scheduler_register (Some a) now (Some p) (Some f) st =
    (OV_ERR_OK, st\<lparr>
       pfirstevent := filter (\<lambda>c. ev_time c \<le> now) (pfirstevent st) @
         \<lparr>ev_addr = a, ev_pobj = p, ev_executefnc = f, ev_time = now\<rparr> #
         filter (\<lambda>c. now < ev_time c) (pfirstevent st),
       objectstate := (objectstate st)(p := objectstate st p OR OV_OS_ACTIVE)\<rparr>)"
  using time_cmp.insert_after_position [of ev_time "pfirstevent st"] assms
  by (simp add: ov_scheduler_register_def insertevent_eq sched_ok_def)

lemma take_event_insert:
  "\<forall>x \<in> set q. ev_pobj x \<noteq> ev_pobj e \<Longrightarrow> take_event (ev_pobj e) (ov_scheduler_insertevent e q) = Some (e, q)"
  by (induction q) auto

lemma register_unregister:
  assumes "\<forall>x \<in> set (pfirstevent st). ev_pobj x \<noteq> p"
  shows "ov_scheduler_unregister p (snd (ov_scheduler_register (Some a) now (Some p) (Some f) st)) =
    st\<lparr>objectstate := (objectstate st)(p := objectstate st p AND NOT OV_OS_ACTIVE)\<rparr>"
proof -
  let ?e = "\<lparr>ev_addr = a, ev_pobj = p, ev_executefnc = f, ev_time = now\<rparr>"
  have "take_event p (ov_scheduler_insertevent ?e (pfirstevent st)) = Some (?e, pfirstevent st)"
    using take_event_insert [of "pfirstevent st" ?e] assms by simp
  moreover have "(w OR OV_OS_ACTIVE) AND NOT OV_OS_ACTIVE = w AND NOT OV_OS_ACTIVE" for w
    by (simp add: bit.conj_disj_distrib2)
  ultimately show ?thesis by (simp add: ov_scheduler_register_def ov_scheduler_unregister_def)
qed

lemma schedulenextevent_wait:
  assumes "\<not> ov_activitylock st" "ov_scheduler_schedulenextevent now1 now2 call st = (w, st')"
    and "pfirstevent st' = e # q" "time_normal (ev_time e)" "time_normal now"
    and "now = (if due now1 st then now2 else now1)"
    and "\<bar>uint (secs (ev_time e)) - uint (secs now)\<bar> < 2147483648"
  shows "span_us w = max 0 (time_us (ev_time e) - time_us now)"
proof -
  have "w = wait_span (ev_time e) now"
    using assms by (auto simp: ov_scheduler_schedulenextevent_def due_def Let_def split: list.splits if_splits)
  then show ?thesis using wait_span_value assms by simp
qed

lemma setabs_mset:
  assumes "take_event p (pfirstevent st) = Some (e, q)" "sched_ok st"
  shows "pfirstevent (ov_scheduler_setabseventtime now (Some p) (Some t) st) =
    filter (\<lambda>c. ev_time c \<le> t) q @ e\<lparr>ev_time := t\<rparr> # filter (\<lambda>c. t < ev_time c) q"
  using time_cmp.insert_after_position [of ev_time q "e\<lparr>ev_time := t\<rparr>"] assms
    take_event_sorted [OF assms(1)]
  by (simp add: ov_scheduler_setabseventtime_def insertevent_eq sched_ok_def)

text \<open>C15: Whatever sequence of registrations, unregistrations, time changes and scheduling steps
  runs, execute functions that themselves use the scheduler included, the queue stays sorted by
  time and no event is in it twice.\<close>

theorem sched_run_invariant:
  assumes "sched_run s t" "sched_ok s"
  shows "sched_ok t"
  using assms by (rule sched_run_ok)

definition demo_sched :: sched where
  "demo_sched = \<lparr>pfirstevent =
      [\<lparr>ev_addr = 1, ev_pobj = 10, ev_executefnc = 0, ev_time = \<lparr>secs = 5, usecs = 0\<rparr>\<rparr>,
       \<lparr>ev_addr = 2, ev_pobj = 20, ev_executefnc = 0, ev_time = \<lparr>secs = 7, usecs = 1\<rparr>\<rparr>],
     objectstate = (\<lambda>_. 0), ov_activitylock = False, allowedJitter = 0, numExceeds = 0\<rparr>"

abbreviation demo_call :: execute_fnc where "demo_call \<equiv> \<lambda>f p st. st"

lemma demo_sched_ok: "sched_ok demo_sched"
  by (simp add: sched_ok_def demo_sched_def less_eq_OV_TIME_ext_def)

theorem sched_run_invariant_witness:
  "sched_ok (snd (ov_scheduler_schedulenextevent \<lparr>secs = 6, usecs = 0\<rparr> \<lparr>secs = 6, usecs = 1\<rparr> demo_call
     (ov_scheduler_setreleventtime \<lparr>secs = 6, usecs = 0\<rparr> (Some 20) None demo_sched)))"
proof (rule sched_run_invariant [OF _ demo_sched_ok])
  show "sched_run demo_sched (snd (ov_scheduler_schedulenextevent \<lparr>secs = 6, usecs = 0\<rparr>
      \<lparr>secs = 6, usecs = 1\<rparr> demo_call
      (ov_scheduler_setreleventtime \<lparr>secs = 6, usecs = 0\<rparr> (Some 20) None demo_sched)))"
    by (intro sched_run.schedule sched_run.setrel sched_run.start allI)
qed

text \<open>Registering an object puts its event behind every event due now or earlier and before
  every later one, so events of the same time keep their order of arrival, and marks the object
  active; without memory or with missing parameters nothing changes.\<close>

lemma register_fifo:
  assumes "sched_ok st"
  shows "ov_scheduler_register (Some a) now (Some p) (Some f) st =
    (OV_ERR_OK, st\<lparr>
       pfirstevent := filter (\<lambda>c. ev_time c \<le> now) (pfirstevent st) @
         \<lparr>ev_addr = a, ev_pobj = p, ev_executefnc = f, ev_time = now\<rparr> #
         filter (\<lambda>c. now < ev_time c) (pfirstevent st),
       objectstate := (objectstate st)(p := objectstate st p OR OV_OS_ACTIVE)\<rparr>)
    \<and> ov_scheduler_register None now (Some p) (Some f) st = (OV_ERR_HEAPOUTOFMEMORY, st)
    \<and> ov_scheduler_register heap now None fo st = (OV_ERR_BADPARAM, st)
    \<and> ov_scheduler_register heap now po None st = (OV_ERR_BADPARAM, st)"
  using register_queue [OF assms]
  by (simp add: ov_scheduler_register_def split: option.splits)

text \<open>Unregistering an object that was just registered gives back the queue as it was and
  clears its active bit; no other bit of the object state changes.\<close>

lemma register_unregister_roundtrip:
  assumes "\<forall>x \<in> set (pfirstevent st). ev_pobj x \<noteq> p"
  shows "ov_scheduler_unregister p (snd (ov_scheduler_register (Some a) now (Some p) (Some f) st)) =
    st\<lparr>objectstate := (objectstate st)(p := objectstate st p AND NOT OV_OS_ACTIVE)\<rparr>"
  using assms by (rule register_unregister)



text \<open>The time span a scheduling step returns is the time left until the first event of the
  queue, measured from the last clock reading of the call and cut at zero; without an event, or
  under the activity lock, it is \<open>OV_VL_MAXINT\<close> seconds.\<close>

lemma schedule_returns_wait:
  assumes "ov_scheduler_schedulenextevent now1 now2 call st = (w, st')"
    and "now = (if due now1 st then now2 else now1)" "time_normal now"
    and "\<forall>e \<in> set (pfirstevent st'). time_normal (ev_time e) \<and>
      \<bar>uint (secs (ev_time e)) - uint (secs now)\<bar> < 2147483648"
  shows "if ov_activitylock st \<or> pfirstevent st' = [] then w = forever
    else span_us w = max 0 (time_us (ev_time (hd (pfirstevent st'))) - time_us now)"
proof (cases "ov_activitylock st \<or> pfirstevent st' = []")
  case True
  then show ?thesis
    using assms(1) by (auto simp: ov_scheduler_schedulenextevent_def Let_def split: list.splits if_splits)
next
  case False
  then obtain e q where q: "pfirstevent st' = e # q" by (cases "pfirstevent st'") auto
  show ?thesis
    using schedulenextevent_wait [OF _ assms(1) q _ assms(3,2)] assms(4) q False by simp
qed

text \<open>The jitter counter goes up exactly for events that are executed later than the allowed
  jitter, for lateness up to 2147 seconds, where the code's \<open>OV_INT\<close> product does not overflow.\<close>

lemma jitter_counted:
  assumes "time_normal now" "time_normal t" "time_us t \<le> time_us now"
    and "time_us now - time_us t < 2147483648"
  shows "count_exceed now t st =
    (if allowedJitter st \<noteq> 0 \<and> uint (allowedJitter st) < time_us now - time_us t
     then st\<lparr>numExceeds := numExceeds st + 1\<rparr> else st)"
  using assms by (rule count_exceed_value)

text \<open>Executing events by name runs every event whose object, class and library names match,
  in queue order, and reports \<open>FALSE\<close> always, where its description promises the first match only
  and \<open>TRUE\<close>.\<close>

lemma execnamed_runs_all_returns_false:
  assumes "sched_ok st" "keeps_queue call" "named_ok names" "length (pfirstevent st) < fuel"
  shows "ov_scheduler_execnamedeventonce fuel names call ident cls lib st =
    Some (False, fold (\<lambda>e. call (ev_executefnc e) (ev_pobj e))
      (filter (selected names ident cls lib) (pfirstevent st)) st)"
  using execnamed_loop_all [OF assms(2,3), of st "[]" "pfirstevent st" fuel] assms
  by (simp add: ov_scheduler_execnamedeventonce_def sched_ok_def cursor_def split: list.splits)

definition demo_names :: sched_names where
  "demo_names = \<lparr>obj_identifier = (\<lambda>p. if p = 10 then ''a'' else ''b''), obj_class = (\<lambda>_. Some 0),
     class_identifier = (\<lambda>_. ''c''), class_library = (\<lambda>_. Some 0), library_identifier = (\<lambda>_. ''l'')\<rparr>"

end
