(* ===== verification/OvDll.thy ===== *)
theory OvDll
  imports OvPrelude
begin

text \<open>
  Doubly linked lists, as the link tables of the object model and the queues of the runtime hold
  them: two pointer fields per cell and a head with the first and the last cell. \<open>chain\<close> says
  that the cells from a list are linked in that order between two neighbours; the lemmas say what
  redirecting the pointers around one cell does to it.
\<close>

section \<open>Ends of a list, with a neighbour for the empty one\<close>

definition hd_or :: "'a list \<Rightarrow> 'a option \<Rightarrow> 'a option" where
  "hd_or xs q = (case xs of [] \<Rightarrow> q | x # _ \<Rightarrow> Some x)"

definition last_or :: "'a option \<Rightarrow> 'a list \<Rightarrow> 'a option" where
  "last_or p xs = (if xs = [] then p else Some (last xs))"

lemma hd_or_simps [simp]: "hd_or [] q = q" "hd_or (x # xs) q = Some x"
  by (simp_all add: hd_or_def)

lemma last_or_simps [simp]:
  "last_or p [] = p" "last_or p (x # xs) = last_or (Some x) xs" "last_or p (xs @ [x]) = Some x"
  by (simp_all add: last_or_def)

lemma hd_or_append [simp]: "hd_or (xs @ ys) q = hd_or xs (hd_or ys q)"
  by (cases xs) simp_all

lemma last_or_append [simp]: "last_or p (xs @ ys) = last_or (last_or p xs) ys"
  by (simp add: last_or_def)

lemma hd_or_None [simp]: "hd_or xs None = None \<longleftrightarrow> xs = []"
  by (cases xs) simp_all

lemma last_or_None [simp]: "last_or None xs = None \<longleftrightarrow> xs = []"
  by (simp add: last_or_def)

lemma hd_or_Some [simp]: "hd_or xs (Some y) \<noteq> None"
  by (cases xs) simp_all

lemma last_or_Some [simp]: "last_or (Some y) xs \<noteq> None"
  by (simp add: last_or_def)

lemma hd_or_Some_None: "hd_or xs None = Some x \<longleftrightarrow> (\<exists>ys. xs = x # ys)"
  by (cases xs) auto

lemma last_or_None_Some: "last_or None xs = Some x \<longleftrightarrow> (\<exists>ys. xs = ys @ [x])"
  by (cases xs rule: rev_cases) auto

lemma last_or_in: "last_or None xs = Some x \<Longrightarrow> x \<in> set xs"
  by (auto simp: last_or_None_Some)

lemma hd_or_in: "hd_or xs None = Some x \<Longrightarrow> x \<in> set xs"
  by (auto simp: hd_or_Some_None)

section \<open>Chains\<close>

fun chain :: "('a \<Rightarrow> 'a option) \<Rightarrow> ('a \<Rightarrow> 'a option) \<Rightarrow> 'a option \<Rightarrow> 'a list \<Rightarrow> 'a option \<Rightarrow> bool" where
  "chain nx pv p [] q = True"
| "chain nx pv p (x # xs) q \<longleftrightarrow> pv x = p \<and> nx x = hd_or xs q \<and> chain nx pv (Some x) xs q"

lemma chain_append [simp]:
  "chain nx pv p (xs @ ys) q \<longleftrightarrow> chain nx pv p xs (hd_or ys q) \<and> chain nx pv (last_or p xs) ys q"
  by (induction xs arbitrary: p) auto

lemma chain_cong:
  assumes "\<And>x. x \<in> set xs \<Longrightarrow> nx' x = nx x \<and> pv' x = pv x"
  shows "chain nx' pv' p xs q = chain nx pv p xs q"
  using assms by (induction xs arbitrary: p) auto

lemma chain_retarget_end:
  assumes "chain nx pv p xs q" "distinct xs"
    and "\<And>x. x \<in> set xs \<Longrightarrow> nx' x = (if last_or None xs = Some x then q' else nx x)"
    and "\<And>x. x \<in> set xs \<Longrightarrow> pv' x = pv x"
  shows "chain nx' pv' p xs q'"
proof (cases xs rule: rev_cases)
  case (snoc ys y)
  have "chain nx' pv' p ys (Some y) = chain nx pv p ys (Some y)"
    by (rule chain_cong) (use assms(2-4) snoc in auto)
  with assms snoc show ?thesis by simp
qed simp

lemma chain_retarget_start:
  assumes "chain nx pv p xs q" "distinct xs"
    and "\<And>x. x \<in> set xs \<Longrightarrow> pv' x = (if hd_or xs None = Some x then p' else pv x)"
    and "\<And>x. x \<in> set xs \<Longrightarrow> nx' x = nx x"
  shows "chain nx' pv' p' xs q"
proof (cases xs)
  case (Cons y ys)
  have "chain nx' pv' (Some y) ys q = chain nx pv (Some y) ys q"
    by (rule chain_cong) (use assms(2-4) Cons in auto)
  with assms Cons show ?thesis by simp
qed simp

lemma chain_insert:
  assumes "chain nx pv None (xs @ ys) None" "distinct (xs @ c # ys)"
    and "\<And>x. x \<in> set (xs @ ys) \<Longrightarrow> nx' x = (if last_or None xs = Some x then Some c else nx x)"
    and "\<And>x. x \<in> set (xs @ ys) \<Longrightarrow> pv' x = (if hd_or ys None = Some x then Some c else pv x)"
    and "nx' c = hd_or ys None" "pv' c = last_or None xs"
  shows "chain nx' pv' None (xs @ c # ys) None"
proof -
  have hx: "hd_or ys None \<noteq> Some x" if "x \<in> set xs" for x
    using that assms(2) hd_or_in [of ys x] by auto
  have ly: "last_or None xs \<noteq> Some y" if "y \<in> set ys" for y
    using that assms(2) last_or_in [of xs y] by auto
  have "chain nx' pv' None xs (Some c)"
    by (rule chain_retarget_end [of nx pv None xs "hd_or ys None"]) (use assms hx in auto)
  moreover have "chain nx' pv' (Some c) ys None"
    by (rule chain_retarget_start [of nx pv "last_or None xs" ys None]) (use assms ly in auto)
  ultimately show ?thesis using assms by simp
qed

lemma chain_remove:
  assumes "chain nx pv None (xs @ c # ys) None" "distinct (xs @ c # ys)"
    and "\<And>x. x \<in> set (xs @ ys) \<Longrightarrow> nx' x = (if last_or None xs = Some x then hd_or ys None else nx x)"
    and "\<And>x. x \<in> set (xs @ ys) \<Longrightarrow> pv' x = (if hd_or ys None = Some x then last_or None xs else pv x)"
  shows "chain nx' pv' None (xs @ ys) None"
proof -
  have hx: "hd_or ys None \<noteq> Some x" if "x \<in> set xs" for x
    using that assms(2) hd_or_in [of ys x] by auto
  have ly: "last_or None xs \<noteq> Some y" if "y \<in> set ys" for y
    using that assms(2) last_or_in [of xs y] by auto
  have "chain nx' pv' None xs (hd_or ys None)"
    by (rule chain_retarget_end [of nx pv None xs "Some c"]) (use assms hx in auto)
  moreover have "chain nx' pv' (last_or None xs) ys None"
    by (rule chain_retarget_start [of nx pv "Some c" ys None]) (use assms ly in auto)
  ultimately show ?thesis by simp
qed

lemma chain_neighbours:
  "chain nx pv None (xs @ c # ys) None \<Longrightarrow> pv c = last_or None xs \<and> nx c = hd_or ys None"
  by simp

section \<open>Walking along a chain\<close>

text \<open>The cells a \<open>for\<close> loop over the next pointers visits; \<open>None\<close> when \<open>fuel\<close> steps do not reach
  the end.\<close>

fun walk :: "nat \<Rightarrow> ('a \<Rightarrow> 'a option) \<Rightarrow> 'a option \<Rightarrow> 'a list option" where
  "walk fuel nx None = Some []"
| "walk 0 nx (Some x) = None"
| "walk (Suc fuel) nx (Some x) = map_option ((#) x) (walk fuel nx (nx x))"

lemma walk_chain:
  "chain nx pv p xs None \<Longrightarrow> length xs \<le> fuel \<Longrightarrow> walk fuel nx (hd_or xs None) = Some xs"
proof (induction xs arbitrary: p fuel)
  case (Cons x xs)
  then show ?case by (cases fuel) auto
qed simp

lemma chain_unique:
  assumes "chain nx pv None xs None" "chain nx pv' None ys None" "hd_or xs None = hd_or ys None"
  shows "xs = ys"
proof -
  define n where "n = length xs + length ys"
  have x: "walk n nx (hd_or xs None) = Some xs"
    by (rule walk_chain [OF assms(1)]) (simp add: n_def)
  have y: "walk n nx (hd_or ys None) = Some ys"
    by (rule walk_chain [OF assms(2)]) (simp add: n_def)
  from x y [folded assms(3)] show ?thesis by (rule option.inject [THEN iffD1, OF trans [OF sym]])
qed

section \<open>Lists with a head\<close>

definition dll :: "('a \<Rightarrow> 'a option) \<Rightarrow> ('a \<Rightarrow> 'a option) \<Rightarrow> 'a option \<Rightarrow> 'a option \<Rightarrow> 'a list \<Rightarrow> bool" where
  "dll nx pv f l xs \<longleftrightarrow> distinct xs \<and> chain nx pv None xs None \<and>
    f = hd_or xs None \<and> l = last_or None xs"

lemma dll_insert:
  assumes "dll nx pv f l (xs @ ys)" "c \<notin> set (xs @ ys)"
    and "\<And>x. x \<in> set (xs @ ys) \<Longrightarrow> nx' x = (if last_or None xs = Some x then Some c else nx x)"
    and "\<And>x. x \<in> set (xs @ ys) \<Longrightarrow> pv' x = (if hd_or ys None = Some x then Some c else pv x)"
    and "nx' c = hd_or ys None" "pv' c = last_or None xs"
    and "f' = (if last_or None xs = None then Some c else f)" "l' = (if hd_or ys None = None then Some c else l)"
  shows "dll nx' pv' f' l' (xs @ c # ys)"
  unfolding dll_def
proof (intro conjI)
  have d: "distinct (xs @ ys)" "chain nx pv None (xs @ ys) None" "f = hd_or (xs @ ys) None"
    "l = last_or None (xs @ ys)"
    using assms(1) by (simp_all add: dll_def)
  show dist: "distinct (xs @ c # ys)" using d(1) assms(2) by auto
  show "chain nx' pv' None (xs @ c # ys) None"
    by (rule chain_insert [OF d(2) dist]) (use assms in auto)
  show "f' = hd_or (xs @ c # ys) None" "l' = last_or None (xs @ c # ys)"
    using assms(7,8) d(3,4) by (cases xs; cases ys rule: rev_cases; simp)+
qed

lemma dll_remove:
  assumes "dll nx pv f l (xs @ c # ys)"
    and "\<And>x. x \<in> set (xs @ ys) \<Longrightarrow> nx' x = (if last_or None xs = Some x then hd_or ys None else nx x)"
    and "\<And>x. x \<in> set (xs @ ys) \<Longrightarrow> pv' x = (if hd_or ys None = Some x then last_or None xs else pv x)"
    and "f' = (if last_or None xs = None then hd_or ys None else f)"
    and "l' = (if hd_or ys None = None then last_or None xs else l)"
  shows "dll nx' pv' f' l' (xs @ ys)"
  unfolding dll_def
proof (intro conjI)
  have d: "distinct (xs @ c # ys)" "chain nx pv None (xs @ c # ys) None" "f = hd_or (xs @ c # ys) None"
    "l = last_or None (xs @ c # ys)"
    using assms(1) by (simp_all add: dll_def)
  show "distinct (xs @ ys)" using d(1) by auto
  show "chain nx' pv' None (xs @ ys) None"
    by (rule chain_remove [OF d(2,1)]) (use assms in auto)
  show "f' = hd_or (xs @ ys) None" "l' = last_or None (xs @ ys)"
    using assms(4,5) d(3,4) by (cases xs; cases ys rule: rev_cases; simp)+
qed

lemma dll_cong:
  assumes "\<And>x. x \<in> set xs \<Longrightarrow> nx' x = nx x \<and> pv' x = pv x"
  shows "dll nx' pv' f l xs = dll nx pv f l xs"
  using chain_cong [of xs nx' nx pv' pv None None] assms by (simp add: dll_def)

lemma dll_neighbours:
  "dll nx pv f l (xs @ c # ys) \<Longrightarrow> pv c = last_or None xs \<and> nx c = hd_or ys None"
  by (simp add: dll_def)

lemma dll_ends: "dll nx pv f l xs \<Longrightarrow> f = hd_or xs None \<and> l = last_or None xs \<and> distinct xs"
  by (simp add: dll_def)

lemma ends_not_in:
  assumes "c \<notin> set (xs @ ys)"
  shows "last_or None xs \<noteq> Some c" "hd_or ys None \<noteq> Some c"
  using assms last_or_in hd_or_in by fastforce+

end
