(* ===== verification/OvChildren.thy ===== *)
theory OvChildren
  imports OvPrelude
begin

text \<open>
  The interface of an association in which a child has at most one parent: the ordered list of
  children of every parent, \<open>Ov_Link\<close> (placement at the end) and \<open>Ov_Unlink\<close>. Clients (object
  moves, task lists) reason with these laws; the association component interprets them.
\<close>

locale ordered_children =
  fixes rep :: "'s \<Rightarrow> ('p \<Rightarrow> 'c list) \<Rightarrow> bool"
    and admits :: "('p \<Rightarrow> 'c list) \<Rightarrow> 'p \<Rightarrow> 'c \<Rightarrow> bool"
    and link :: "'p \<Rightarrow> 'c \<Rightarrow> 's \<Rightarrow> OV_RESULT \<times> 's"
    and unlink :: "'p \<Rightarrow> 'c \<Rightarrow> 's \<Rightarrow> 's"
  assumes one_parent: "rep s ch \<Longrightarrow> c \<in> set (ch p) \<Longrightarrow> c \<in> set (ch q) \<Longrightarrow> p = q"
    and no_repeats: "rep s ch \<Longrightarrow> distinct (ch p)"
    and link_ok: "rep s ch \<Longrightarrow> \<forall>q. c \<notin> set (ch q) \<Longrightarrow> admits ch p c \<Longrightarrow>
      \<exists>s'. link p c s = (OV_ERR_OK, s') \<and> rep s' (ch(p := ch p @ [c]))"
    and link_fails: "rep s ch \<Longrightarrow> \<not> ((\<forall>q. c \<notin> set (ch q)) \<and> admits ch p c) \<Longrightarrow>
      \<exists>r. r \<noteq> OV_ERR_OK \<and> link p c s = (r, s)"
    and unlink_ok: "rep s ch \<Longrightarrow> rep (unlink p c s) (ch(p := removeAll c (ch p)))"
begin

lemma link_rep:
  assumes "rep s ch"
  shows "\<exists>ch'. rep (snd (link p c s)) ch'"
proof (cases "(\<forall>q. c \<notin> set (ch q)) \<and> admits ch p c")
  case True
  then show ?thesis using link_ok [OF assms, of c p] by auto
next
  case False
  then show ?thesis using link_fails [OF assms, of c p] assms by auto
qed

lemma link_twice:
  assumes "rep s ch" "link p c s = (OV_ERR_OK, s')"
  shows "\<exists>r. r \<noteq> OV_ERR_OK \<and> link q c s' = (r, s')"
proof -
  have "(\<forall>q. c \<notin> set (ch q)) \<and> admits ch p c"
    using link_fails [OF assms(1), of c p] assms(2) by auto
  then have "rep s' (ch(p := ch p @ [c]))" using link_ok [OF assms(1), of c p] assms(2) by auto
  moreover have "c \<in> set ((ch(p := ch p @ [c])) p)" by simp
  ultimately show ?thesis using link_fails by blast
qed

lemma unlink_frees:
  assumes "rep s ch" "c \<in> set (ch p)"
  shows "\<forall>q. c \<notin> set ((ch(p := removeAll c (ch p))) q)"
  using one_parent [OF assms(1,2)] by auto

lemma relink:
  assumes "rep s ch" "c \<in> set (ch p)" "admits (ch(p := removeAll c (ch p))) q c"
  shows "\<exists>s'. link q c (unlink p c s) = (OV_ERR_OK, s') \<and>
    rep s' (ch(p := removeAll c (ch p), q := (ch(p := removeAll c (ch p))) q @ [c]))"
  using link_ok [OF unlink_ok [OF assms(1)] unlink_frees [OF assms(1,2)] assms(3)] by simp

lemma unlink_all:
  "rep s ch \<Longrightarrow> rep (fold (unlink p) cs s) (ch(p := filter (\<lambda>c. c \<notin> set cs) (ch p)))"
proof (induction cs arbitrary: s ch)
  case (Cons c cs)
  have "filter (\<lambda>d. d \<notin> set cs) (removeAll c (ch p)) = filter (\<lambda>d. d \<notin> set (c # cs)) (ch p)"
    by (induction "ch p") (auto simp: removeAll_filter_not_eq intro: filter_cong)
  moreover have "rep (fold (unlink p) cs (unlink p c s))
      (ch(p := filter (\<lambda>d. d \<notin> set cs) (removeAll c (ch p))))"
    using Cons.IH [OF unlink_ok [OF Cons.prems, of p c]] by (simp only: fun_upd_upd fun_upd_same)
  ultimately show ?case by (simp only: fold_simps)
qed simp

lemma clear: "rep s ch \<Longrightarrow> rep (fold (unlink p) (ch p) s) (ch(p := []))"
  using unlink_all [of s ch p "ch p"] by (simp add: filter_empty_conv [THEN iffD2])

end

end
