(* ===== verification/OvAssociation.thy ===== *)
theory OvAssociation
  imports OvDll OvString OvChildren
begin

text \<open>
  core/ov/source/libov/ov_association.c: links between objects. An association has one store: the
  entries its head and anchor occupy in the link tables of the objects (1:1, 1:n and n:m), and,
  for n:m, its link objects in the database. Pointers are addresses, \<open>None\<close> the null pointer.
  The object model around the association (classes of objects, base classes, identifiers, which
  objects have a link table) is the record \<open>objects\<close>.
\<close>

section \<open>Data\<close>

datatype OV_ASSOC_TYPE =
    OV_AT_ONE_TO_MANY | OV_AT_MANY_TO_MANY | OV_AT_ONE_TO_ONE | OV_AT_OTHER OV_UINT

datatype OV_PLACEMENT_HINT =
    OV_PMH_DEFAULT | OV_PMH_BEGIN | OV_PMH_END | OV_PMH_BEFORE | OV_PMH_AFTER | OV_PMH_OTHER OV_UINT

definition OV_AP_LOCAL :: OV_UINT where "OV_AP_LOCAL = 1"

record OV_ASSOC =
  v_assoctype :: OV_ASSOC_TYPE
  v_assocprops :: OV_UINT
  parentclass :: "classptr option"
  childclass :: "classptr option"

record objects =
  pclass_of :: "objptr \<Rightarrow> classptr option"
  baseclass :: "classptr \<Rightarrow> classptr option"
  class_count :: nat
  v_identifier :: "objptr \<Rightarrow> string"
  has_linktable :: "objptr \<Rightarrow> bool"

record OV_HEAD =
  pfirst :: "objptr option"
  plast :: "objptr option"

record OV_ANCHOR =
  pnext :: "objptr option"
  pprevious :: "objptr option"
  pparent :: "objptr option"

type_synonym linkptr = nat

record OV_NMHEAD =
  nm_pfirst :: "linkptr option"
  nm_plast :: "linkptr option"

record OV_NMLINK =
  parent_pnext :: "linkptr option"
  parent_pprevious :: "linkptr option"
  parent_pparent :: "objptr option"
  child_pnext :: "linkptr option"
  child_pprevious :: "linkptr option"
  child_pchild :: "objptr option"

record store =
  child_slot :: "objptr \<Rightarrow> objptr option"
  parent_slot :: "objptr \<Rightarrow> objptr option"
  head :: "objptr \<Rightarrow> OV_HEAD"
  anchor :: "objptr \<Rightarrow> OV_ANCHOR"
  parent_nmhead :: "objptr \<Rightarrow> OV_NMHEAD"
  child_nmhead :: "objptr \<Rightarrow> OV_NMHEAD"
  nmlink :: "linkptr \<Rightarrow> OV_NMLINK"
  allocated :: "linkptr \<Rightarrow> bool"

section \<open>Classes\<close>

text \<open>The loop of \<open>ov_class_cancastto\<close> over the base classes; \<open>None\<close> when \<open>fuel\<close> classes are not
  enough, as in a cyclic hierarchy.\<close>

fun cancastto_loop :: "nat \<Rightarrow> (classptr \<Rightarrow> classptr option) \<Rightarrow> classptr option \<Rightarrow> classptr \<Rightarrow> bool option" where
  "cancastto_loop fuel base None pclassto = Some False"
| "cancastto_loop 0 base (Some pclass) pclassto = None"
| "cancastto_loop (Suc fuel) base (Some pclass) pclassto =
    (if pclassto = pclass then Some True else cancastto_loop fuel base (base pclass) pclassto)"

definition ov_class_cancastto ::
    "nat \<Rightarrow> (classptr \<Rightarrow> classptr option) \<Rightarrow> classptr option \<Rightarrow> classptr option \<Rightarrow> bool option" where
  "ov_class_cancastto fuel base pclassfrom pclassto =
    (case (pclassfrom, pclassto) of
       (Some from, Some to) \<Rightarrow> cancastto_loop fuel base (Some from) to
     | _ \<Rightarrow> Some False)"

definition cancastto :: "objects \<Rightarrow> classptr option \<Rightarrow> classptr option \<Rightarrow> bool" where
  "cancastto ob from to \<longleftrightarrow> ov_class_cancastto (class_count ob) (baseclass ob) from to = Some True"

definition object_class :: "objects \<Rightarrow> objptr option \<Rightarrow> classptr option" where
  "object_class ob pobj = (case pobj of None \<Rightarrow> None | Some p \<Rightarrow> pclass_of ob p)"

definition Ov_Association_IsParentClass :: "objects \<Rightarrow> OV_ASSOC \<Rightarrow> objptr option \<Rightarrow> bool" where
  "Ov_Association_IsParentClass ob a pp = cancastto ob (object_class ob pp) (parentclass a)"

definition Ov_Association_IsChildClass :: "objects \<Rightarrow> OV_ASSOC \<Rightarrow> objptr option \<Rightarrow> bool" where
  "Ov_Association_IsChildClass ob a pchild = cancastto ob (object_class ob pchild) (childclass a)"

section \<open>Reading the link tables\<close>

definition table_entry :: "objects \<Rightarrow> (objptr \<Rightarrow> 'a option) \<Rightarrow> objptr option \<Rightarrow> 'a option" where
  "table_entry ob f pobj =
    (case pobj of None \<Rightarrow> None | Some p \<Rightarrow> if has_linktable ob p then f p else None)"

definition Ov_Association_GetChild :: "objects \<Rightarrow> OV_ASSOC \<Rightarrow> store \<Rightarrow> objptr option \<Rightarrow> objptr option" where
  "Ov_Association_GetChild ob a st pp =
    (if Ov_Association_IsParentClass ob a pp \<and> v_assoctype a = OV_AT_ONE_TO_ONE
     then table_entry ob (child_slot st) pp else None)"

definition Ov_Association_GetFirstChild :: "objects \<Rightarrow> OV_ASSOC \<Rightarrow> store \<Rightarrow> objptr option \<Rightarrow> objptr option" where
  "Ov_Association_GetFirstChild ob a st pp =
    (if Ov_Association_IsParentClass ob a pp \<and> v_assoctype a = OV_AT_ONE_TO_MANY
     then table_entry ob (\<lambda>p. pfirst (head st p)) pp else None)"

definition Ov_Association_GetLastChild :: "objects \<Rightarrow> OV_ASSOC \<Rightarrow> store \<Rightarrow> objptr option \<Rightarrow> objptr option" where
  "Ov_Association_GetLastChild ob a st pp =
    (if Ov_Association_IsParentClass ob a pp \<and> v_assoctype a = OV_AT_ONE_TO_MANY
     then table_entry ob (\<lambda>p. plast (head st p)) pp else None)"

definition Ov_Association_GetNextChild :: "objects \<Rightarrow> OV_ASSOC \<Rightarrow> store \<Rightarrow> objptr option \<Rightarrow> objptr option" where
  "Ov_Association_GetNextChild ob a st pchild =
    (if Ov_Association_IsChildClass ob a pchild \<and> v_assoctype a = OV_AT_ONE_TO_MANY
     then table_entry ob (\<lambda>c. pnext (anchor st c)) pchild else None)"

definition Ov_Association_GetPreviousChild :: "objects \<Rightarrow> OV_ASSOC \<Rightarrow> store \<Rightarrow> objptr option \<Rightarrow> objptr option" where
  "Ov_Association_GetPreviousChild ob a st pchild =
    (if Ov_Association_IsChildClass ob a pchild \<and> v_assoctype a = OV_AT_ONE_TO_MANY
     then table_entry ob (\<lambda>c. pprevious (anchor st c)) pchild else None)"

definition Ov_Association_GetParent :: "objects \<Rightarrow> OV_ASSOC \<Rightarrow> store \<Rightarrow> objptr option \<Rightarrow> objptr option" where
  "Ov_Association_GetParent ob a st pchild =
    (if Ov_Association_IsChildClass ob a pchild \<and> v_assoctype a \<noteq> OV_AT_MANY_TO_MANY
     then if v_assoctype a = OV_AT_ONE_TO_ONE then table_entry ob (parent_slot st) pchild
          else table_entry ob (\<lambda>c. pparent (anchor st c)) pchild
     else None)"

text \<open>The n:m macros assign their iterator \<open>pit\<close>; here they return its new value, and
  \<open>link_child\<close>, \<open>link_parent\<close> are the values of the macros. All iterators start as null.\<close>

definition Ov_Association_GetFirstChildNM :: "objects \<Rightarrow> OV_ASSOC \<Rightarrow> store \<Rightarrow> objptr option \<Rightarrow> linkptr option" where
  "Ov_Association_GetFirstChildNM ob a st pp =
    (if Ov_Association_IsParentClass ob a pp \<and> v_assoctype a = OV_AT_MANY_TO_MANY
     then table_entry ob (\<lambda>p. nm_pfirst (parent_nmhead st p)) pp else None)"

definition Ov_Association_GetLastChildNM :: "objects \<Rightarrow> OV_ASSOC \<Rightarrow> store \<Rightarrow> objptr option \<Rightarrow> linkptr option" where
  "Ov_Association_GetLastChildNM ob a st pp =
    (if Ov_Association_IsParentClass ob a pp \<and> v_assoctype a = OV_AT_MANY_TO_MANY
     then table_entry ob (\<lambda>p. nm_plast (parent_nmhead st p)) pp else None)"

definition Ov_Association_GetFirstParentNM :: "objects \<Rightarrow> OV_ASSOC \<Rightarrow> store \<Rightarrow> objptr option \<Rightarrow> linkptr option" where
  "Ov_Association_GetFirstParentNM ob a st pchild =
    (if Ov_Association_IsChildClass ob a pchild \<and> v_assoctype a = OV_AT_MANY_TO_MANY
     then table_entry ob (\<lambda>c. nm_pfirst (child_nmhead st c)) pchild else None)"

definition Ov_Association_GetLastParentNM :: "objects \<Rightarrow> OV_ASSOC \<Rightarrow> store \<Rightarrow> objptr option \<Rightarrow> linkptr option" where
  "Ov_Association_GetLastParentNM ob a st pchild =
    (if Ov_Association_IsChildClass ob a pchild \<and> v_assoctype a = OV_AT_MANY_TO_MANY
     then table_entry ob (\<lambda>c. nm_plast (child_nmhead st c)) pchild else None)"

definition Ov_Association_GetNextChildNM :: "store \<Rightarrow> linkptr option \<Rightarrow> linkptr option" where
  "Ov_Association_GetNextChildNM st pit = (case pit of None \<Rightarrow> None | Some l \<Rightarrow> parent_pnext (nmlink st l))"

definition Ov_Association_GetPreviousChildNM :: "store \<Rightarrow> linkptr option \<Rightarrow> linkptr option" where
  "Ov_Association_GetPreviousChildNM st pit = (case pit of None \<Rightarrow> None | Some l \<Rightarrow> parent_pprevious (nmlink st l))"

definition Ov_Association_GetNextParentNM :: "store \<Rightarrow> linkptr option \<Rightarrow> linkptr option" where
  "Ov_Association_GetNextParentNM st pit = (case pit of None \<Rightarrow> None | Some l \<Rightarrow> child_pnext (nmlink st l))"

definition Ov_Association_GetPreviousParentNM :: "store \<Rightarrow> linkptr option \<Rightarrow> linkptr option" where
  "Ov_Association_GetPreviousParentNM st pit = (case pit of None \<Rightarrow> None | Some l \<Rightarrow> child_pprevious (nmlink st l))"

definition link_child :: "store \<Rightarrow> linkptr option \<Rightarrow> objptr option" where
  "link_child st pit = (case pit of None \<Rightarrow> None | Some l \<Rightarrow> child_pchild (nmlink st l))"

definition link_parent :: "store \<Rightarrow> linkptr option \<Rightarrow> objptr option" where
  "link_parent st pit = (case pit of None \<Rightarrow> None | Some l \<Rightarrow> parent_pparent (nmlink st l))"

section \<open>Searching and counting\<close>

fun searchchild_loop :: "nat \<Rightarrow> objects \<Rightarrow> OV_ASSOC \<Rightarrow> store \<Rightarrow> string \<Rightarrow> objptr option \<Rightarrow> objptr option option" where
  "searchchild_loop fuel ob a st identifier None = Some None"
| "searchchild_loop 0 ob a st identifier (Some c) = None"
| "searchchild_loop (Suc fuel) ob a st identifier (Some c) =
    (if strcmp identifier (v_identifier ob c) = 0 then Some (Some c)
     else searchchild_loop fuel ob a st identifier (Ov_Association_GetNextChild ob a st (Some c)))"

definition ov_association_searchchild ::
    "nat \<Rightarrow> objects \<Rightarrow> OV_ASSOC option \<Rightarrow> store \<Rightarrow> objptr option \<Rightarrow> OV_STRING \<Rightarrow> objptr option option" where
  "ov_association_searchchild fuel ob passoc st pp identifier =
    (case (passoc, identifier) of
       (Some a, Some ident) \<Rightarrow>
         if v_assocprops a AND OV_AP_LOCAL \<noteq> 0 \<and> v_assoctype a = OV_AT_ONE_TO_MANY
         then searchchild_loop fuel ob a st ident (Ov_Association_GetFirstChild ob a st pp)
         else if v_assocprops a AND OV_AP_LOCAL \<noteq> 0 \<and> v_assoctype a = OV_AT_ONE_TO_ONE
         then (case Ov_Association_GetChild ob a st pp of
                 Some c \<Rightarrow> if strcmp ident (v_identifier ob c) = 0 then Some (Some c) else Some None
               | None \<Rightarrow> Some None)
         else Some None
     | _ \<Rightarrow> Some None)"

text \<open>The counting loops; \<open>next\<close> is the step of the iterator and \<open>obj\<close> the loop condition.\<close>

fun count_loop :: "nat \<Rightarrow> ('a option \<Rightarrow> 'a option) \<Rightarrow> ('a option \<Rightarrow> objptr option) \<Rightarrow> 'a option \<Rightarrow>
    OV_UINT \<Rightarrow> OV_UINT option" where
  "count_loop fuel nxt obj pit num =
    (if obj pit = None then Some num
     else case fuel of 0 \<Rightarrow> None | Suc fuel \<Rightarrow> count_loop fuel nxt obj (nxt pit) (num + 1))"

definition ov_association_getparentcount ::
    "nat \<Rightarrow> objects \<Rightarrow> OV_ASSOC \<Rightarrow> store \<Rightarrow> objptr \<Rightarrow> OV_UINT option" where
  "ov_association_getparentcount fuel ob a st pchild =
    (case v_assoctype a of
       OV_AT_ONE_TO_ONE \<Rightarrow> Some (if Ov_Association_GetParent ob a st (Some pchild) \<noteq> None then 1 else 0)
     | OV_AT_ONE_TO_MANY \<Rightarrow> Some (if Ov_Association_GetParent ob a st (Some pchild) \<noteq> None then 1 else 0)
     | OV_AT_MANY_TO_MANY \<Rightarrow> count_loop fuel (Ov_Association_GetNextParentNM st) (link_parent st)
         (Ov_Association_GetFirstParentNM ob a st (Some pchild)) 0
     | _ \<Rightarrow> Some 0)"

definition ov_association_getchildcount ::
    "nat \<Rightarrow> objects \<Rightarrow> OV_ASSOC \<Rightarrow> store \<Rightarrow> objptr \<Rightarrow> OV_UINT option" where
  "ov_association_getchildcount fuel ob a st pp =
    (case v_assoctype a of
       OV_AT_ONE_TO_ONE \<Rightarrow> Some (if Ov_Association_GetChild ob a st (Some pp) \<noteq> None then 1 else 0)
     | OV_AT_ONE_TO_MANY \<Rightarrow> count_loop fuel (Ov_Association_GetNextChild ob a st) id
         (Ov_Association_GetFirstChild ob a st (Some pp)) 0
     | OV_AT_MANY_TO_MANY \<Rightarrow> count_loop fuel (Ov_Association_GetNextChildNM st) (link_child st)
         (Ov_Association_GetFirstChildNM ob a st (Some pp)) 0
     | _ \<Rightarrow> Some 0)"

text \<open>The \<open>ForEach\<close> loops of the n:m case that stop at a given object: the iterator where they stop,
  null when they run to the end.\<close>

fun find_loop :: "nat \<Rightarrow> ('a option \<Rightarrow> 'a option) \<Rightarrow> ('a option \<Rightarrow> objptr option) \<Rightarrow> 'a option \<Rightarrow>
    objptr option \<Rightarrow> 'a option option" where
  "find_loop fuel nxt obj pit target =
    (if obj pit = None then Some pit
     else if obj pit = target then Some pit
     else case fuel of 0 \<Rightarrow> None | Suc fuel \<Rightarrow> find_loop fuel nxt obj (nxt pit) target)"

declare count_loop.simps [simp del] find_loop.simps [simp del]

section \<open>Linking\<close>

text \<open>Lines 488 to 526: the association types' conditions. The outer \<open>None\<close> is a loop that does not
  end within \<open>fuel\<close> steps.\<close>

definition link_conditions_1_n ::
    "nat \<Rightarrow> objects \<Rightarrow> OV_ASSOC \<Rightarrow> store \<Rightarrow> objptr \<Rightarrow> objptr \<Rightarrow> OV_RESULT option" where
  "link_conditions_1_n fuel ob a st pp pchild =
    (if Ov_Association_GetParent ob a st (Some pchild) \<noteq> None then Some OV_ERR_ALREADYEXISTS
     else if v_assocprops a AND OV_AP_LOCAL \<noteq> 0
     then map_option (\<lambda>found. if found \<noteq> None then OV_ERR_ALREADYEXISTS else OV_ERR_OK)
       (ov_association_searchchild fuel ob (Some a) st (Some pp) (Some (v_identifier ob pchild)))
     else Some OV_ERR_OK)"

definition link_conditions ::
    "nat \<Rightarrow> objects \<Rightarrow> OV_ASSOC \<Rightarrow> store \<Rightarrow> objptr \<Rightarrow> objptr \<Rightarrow> OV_RESULT option" where
  "link_conditions fuel ob a st pp pchild =
    (case v_assoctype a of
       OV_AT_ONE_TO_ONE \<Rightarrow>
         if Ov_Association_GetParent ob a st (Some pchild) \<noteq> None then Some OV_ERR_ALREADYEXISTS
         else if Ov_Association_GetChild ob a st (Some pp) \<noteq> None then Some OV_ERR_ALREADYEXISTS
         else link_conditions_1_n fuel ob a st pp pchild
     | OV_AT_ONE_TO_MANY \<Rightarrow> link_conditions_1_n fuel ob a st pp pchild
     | OV_AT_MANY_TO_MANY \<Rightarrow>
         map_option (\<lambda>pit. if link_child st pit \<noteq> None then OV_ERR_ALREADYEXISTS else OV_ERR_OK)
           (find_loop fuel (Ov_Association_GetNextChildNM st) (link_child st)
              (Ov_Association_GetFirstChildNM ob a st (Some pp)) (Some pchild))
     | _ \<Rightarrow> Some OV_ERR_BADPARAM)"

text \<open>Lines 530 to 672: placements. The value is the resolved hint with the relative object (1:n) or
  the relative iterator (n:m).\<close>

definition parent_placement_1_n :: "OV_PLACEMENT_HINT \<Rightarrow> OV_RESULT" where
  "parent_placement_1_n parenthint =
    (if \<not> (parenthint = OV_PMH_DEFAULT \<or> parenthint = OV_PMH_BEGIN \<or> parenthint = OV_PMH_END)
     then OV_ERR_BADPLACEMENT else OV_ERR_OK)"

definition parent_placement_n_m ::
    "nat \<Rightarrow> objects \<Rightarrow> OV_ASSOC \<Rightarrow> store \<Rightarrow> objptr \<Rightarrow> OV_PLACEMENT_HINT \<Rightarrow> objptr option \<Rightarrow>
     (OV_RESULT + OV_PLACEMENT_HINT \<times> linkptr option) option" where
  "parent_placement_n_m fuel ob a st pchild parenthint prelparent =
    (case parenthint of
       OV_PMH_DEFAULT \<Rightarrow> Some (Inr (OV_PMH_AFTER, Ov_Association_GetLastParentNM ob a st (Some pchild)))
     | OV_PMH_END \<Rightarrow> Some (Inr (OV_PMH_AFTER, Ov_Association_GetLastParentNM ob a st (Some pchild)))
     | OV_PMH_BEGIN \<Rightarrow> Some (Inr (OV_PMH_BEFORE, Ov_Association_GetFirstParentNM ob a st (Some pchild)))
     | OV_PMH_OTHER _ \<Rightarrow> Some (Inl OV_ERR_BADPLACEMENT)
     | _ \<Rightarrow> map_option
         (\<lambda>pit. if pit = None then Inl OV_ERR_BADPLACEMENT else Inr (parenthint, pit))
         (find_loop fuel (Ov_Association_GetNextParentNM st) (link_parent st)
            (Ov_Association_GetFirstParentNM ob a st (Some pchild)) prelparent))"

definition child_placement_1_n ::
    "objects \<Rightarrow> OV_ASSOC \<Rightarrow> store \<Rightarrow> objptr \<Rightarrow> OV_PLACEMENT_HINT \<Rightarrow> objptr option \<Rightarrow>
     OV_RESULT + OV_PLACEMENT_HINT \<times> objptr option" where
  "child_placement_1_n ob a st pp childhint prelchild =
    (case childhint of
       OV_PMH_DEFAULT \<Rightarrow> Inr (OV_PMH_AFTER, Ov_Association_GetLastChild ob a st (Some pp))
     | OV_PMH_END \<Rightarrow> Inr (OV_PMH_AFTER, Ov_Association_GetLastChild ob a st (Some pp))
     | OV_PMH_BEGIN \<Rightarrow> Inr (OV_PMH_BEFORE, Ov_Association_GetFirstChild ob a st (Some pp))
     | OV_PMH_OTHER _ \<Rightarrow> Inl OV_ERR_BADPLACEMENT
     | _ \<Rightarrow> if Ov_Association_GetParent ob a st prelchild \<noteq> Some pp then Inl OV_ERR_BADPARAM
            else Inr (childhint, prelchild))"

definition child_placement_n_m ::
    "nat \<Rightarrow> objects \<Rightarrow> OV_ASSOC \<Rightarrow> store \<Rightarrow> objptr \<Rightarrow> OV_PLACEMENT_HINT \<Rightarrow> objptr option \<Rightarrow>
     (OV_RESULT + OV_PLACEMENT_HINT \<times> linkptr option) option" where
  "child_placement_n_m fuel ob a st pp childhint prelchild =
    (case childhint of
       OV_PMH_DEFAULT \<Rightarrow> Some (Inr (OV_PMH_AFTER, Ov_Association_GetLastChildNM ob a st (Some pp)))
     | OV_PMH_END \<Rightarrow> Some (Inr (OV_PMH_AFTER, Ov_Association_GetLastChildNM ob a st (Some pp)))
     | OV_PMH_BEGIN \<Rightarrow> Some (Inr (OV_PMH_BEFORE, Ov_Association_GetFirstChildNM ob a st (Some pp)))
     | OV_PMH_OTHER _ \<Rightarrow> Some (Inl OV_ERR_BADPLACEMENT)
     | _ \<Rightarrow> map_option
         (\<lambda>pit. if pit = None then Inl OV_ERR_BADPLACEMENT else Inr (childhint, pit))
         (find_loop fuel (Ov_Association_GetNextChildNM st) (link_child st)
            (Ov_Association_GetFirstChildNM ob a st (Some pp)) prelchild))"

text \<open>Lines 676 to 739: predecessor and successor at the resolved placement.\<close>

definition parent_neighbours_n_m :: "store \<Rightarrow> OV_PLACEMENT_HINT \<Rightarrow> linkptr option \<Rightarrow>
    OV_RESULT + linkptr option \<times> linkptr option" where
  "parent_neighbours_n_m st parenthint2 pparentit =
    (case parenthint2 of
       OV_PMH_BEFORE \<Rightarrow> Inr (Ov_Association_GetPreviousParentNM st pparentit, pparentit)
     | OV_PMH_AFTER \<Rightarrow> Inr (pparentit, Ov_Association_GetNextParentNM st pparentit)
     | _ \<Rightarrow> Inl OV_ERR_BADPLACEMENT)"

definition child_neighbours_1_n :: "objects \<Rightarrow> OV_ASSOC \<Rightarrow> store \<Rightarrow> OV_PLACEMENT_HINT \<Rightarrow> objptr option \<Rightarrow>
    OV_RESULT + objptr option \<times> objptr option" where
  "child_neighbours_1_n ob a st childhint2 prelchild2 =
    (case childhint2 of
       OV_PMH_BEFORE \<Rightarrow> Inr (Ov_Association_GetPreviousChild ob a st prelchild2, prelchild2)
     | OV_PMH_AFTER \<Rightarrow> Inr (prelchild2, Ov_Association_GetNextChild ob a st prelchild2)
     | _ \<Rightarrow> Inl OV_ERR_BADPLACEMENT)"

definition child_neighbours_n_m :: "store \<Rightarrow> OV_PLACEMENT_HINT \<Rightarrow> linkptr option \<Rightarrow>
    OV_RESULT + linkptr option \<times> linkptr option" where
  "child_neighbours_n_m st childhint2 pchildit =
    (case childhint2 of
       OV_PMH_BEFORE \<Rightarrow> Inr (Ov_Association_GetPreviousChildNM st pchildit, pchildit)
     | OV_PMH_AFTER \<Rightarrow> Inr (pchildit, Ov_Association_GetNextChildNM st pchildit)
     | _ \<Rightarrow> Inl OV_ERR_BADPLACEMENT)"

text \<open>Field assignments through the pointers of the link tables.\<close>

abbreviation set_head where "set_head p h st \<equiv> st\<lparr>head := (head st)(p := h)\<rparr>"
abbreviation set_anchor where "set_anchor c n st \<equiv> st\<lparr>anchor := (anchor st)(c := n)\<rparr>"
abbreviation set_parent_nmhead where
  "set_parent_nmhead p h st \<equiv> st\<lparr>parent_nmhead := (parent_nmhead st)(p := h)\<rparr>"
abbreviation set_child_nmhead where
  "set_child_nmhead c h st \<equiv> st\<lparr>child_nmhead := (child_nmhead st)(c := h)\<rparr>"
abbreviation set_nmlink where "set_nmlink l k st \<equiv> st\<lparr>nmlink := (nmlink st)(l := k)\<rparr>"

text \<open>Lines 743 to 829: the linkage.\<close>

definition linkage_1_1 :: "store \<Rightarrow> objptr \<Rightarrow> objptr \<Rightarrow> store" where
  "linkage_1_1 st pp pchild =
    st\<lparr>child_slot := (child_slot st)(pp := Some pchild),
       parent_slot := (parent_slot st)(pchild := Some pp)\<rparr>"

definition linkage_1_n :: "store \<Rightarrow> objptr \<Rightarrow> objptr \<Rightarrow> objptr option \<Rightarrow> objptr option \<Rightarrow> store" where
  "linkage_1_n st pp pchild ppreviouschild pnextchild =
    (let st = (case ppreviouschild of
           Some x \<Rightarrow> set_anchor x ((anchor st x)\<lparr>pnext := Some pchild\<rparr>) st
         | None \<Rightarrow> set_head pp ((head st pp)\<lparr>pfirst := Some pchild\<rparr>) st);
         st = (case pnextchild of
           Some x \<Rightarrow> set_anchor x ((anchor st x)\<lparr>pprevious := Some pchild\<rparr>) st
         | None \<Rightarrow> set_head pp ((head st pp)\<lparr>plast := Some pchild\<rparr>) st)
     in set_anchor pchild ((anchor st pchild)
          \<lparr>pprevious := ppreviouschild, pnext := pnextchild, pparent := Some pp\<rparr>) st)"

text \<open>The four "set the neighbour's pointer, or the head's if there is no neighbour" statements of the
  n:m case; linking and unlinking share them.\<close>

definition set_next_child :: "linkptr option \<Rightarrow> objptr \<Rightarrow> linkptr option \<Rightarrow> store \<Rightarrow> store" where
  "set_next_child ppreviouschildit pp v st =
    (case ppreviouschildit of
       Some x \<Rightarrow> set_nmlink x ((nmlink st x)\<lparr>parent_pnext := v\<rparr>) st
     | None \<Rightarrow> set_parent_nmhead pp ((parent_nmhead st pp)\<lparr>nm_pfirst := v\<rparr>) st)"

definition set_previous_child :: "linkptr option \<Rightarrow> objptr \<Rightarrow> linkptr option \<Rightarrow> store \<Rightarrow> store" where
  "set_previous_child pnextchildit pp v st =
    (case pnextchildit of
       Some x \<Rightarrow> set_nmlink x ((nmlink st x)\<lparr>parent_pprevious := v\<rparr>) st
     | None \<Rightarrow> set_parent_nmhead pp ((parent_nmhead st pp)\<lparr>nm_plast := v\<rparr>) st)"

definition set_next_parent :: "linkptr option \<Rightarrow> objptr \<Rightarrow> linkptr option \<Rightarrow> store \<Rightarrow> store" where
  "set_next_parent ppreviousparentit pchild v st =
    (case ppreviousparentit of
       Some x \<Rightarrow> set_nmlink x ((nmlink st x)\<lparr>child_pnext := v\<rparr>) st
     | None \<Rightarrow> set_child_nmhead pchild ((child_nmhead st pchild)\<lparr>nm_pfirst := v\<rparr>) st)"

definition set_previous_parent :: "linkptr option \<Rightarrow> objptr \<Rightarrow> linkptr option \<Rightarrow> store \<Rightarrow> store" where
  "set_previous_parent pnextparentit pchild v st =
    (case pnextparentit of
       Some x \<Rightarrow> set_nmlink x ((nmlink st x)\<lparr>child_pprevious := v\<rparr>) st
     | None \<Rightarrow> set_child_nmhead pchild ((child_nmhead st pchild)\<lparr>nm_plast := v\<rparr>) st)"

definition linkage_n_m :: "store \<Rightarrow> objptr \<Rightarrow> objptr \<Rightarrow> linkptr \<Rightarrow> linkptr option \<Rightarrow> linkptr option \<Rightarrow>
    linkptr option \<Rightarrow> linkptr option \<Rightarrow> store" where
  "linkage_n_m st pp pchild pit ppreviouschildit pnextchildit ppreviousparentit pnextparentit =
    (let st = st\<lparr>allocated := (allocated st)(pit := True)\<rparr>;
         st = set_next_child ppreviouschildit pp (Some pit) st;
         st = set_previous_child pnextchildit pp (Some pit) st;
         st = set_next_parent ppreviousparentit pchild (Some pit) st;
         st = set_previous_parent pnextparentit pchild (Some pit) st
     in set_nmlink pit \<lparr>parent_pnext = pnextchildit, parent_pprevious = ppreviouschildit,
          parent_pparent = Some pp, child_pnext = pnextparentit,
          child_pprevious = ppreviousparentit, child_pchild = Some pchild\<rparr> st)"

text \<open>The switches of one association type after another give one function per type; \<open>alloc\<close> is
  the address \<open>Ov_DbAlloc\<close> returns.\<close>

definition link_1_1 :: "store \<Rightarrow> objptr \<Rightarrow> objptr \<Rightarrow> OV_PLACEMENT_HINT \<Rightarrow> OV_RESULT \<times> store" where
  "link_1_1 st pp pchild parenthint =
    (case parent_placement_1_n parenthint of
       OV_ERR_OK \<Rightarrow> (OV_ERR_OK, linkage_1_1 st pp pchild)
     | r \<Rightarrow> (r, st))"

definition link_1_n :: "objects \<Rightarrow> OV_ASSOC \<Rightarrow> store \<Rightarrow> objptr \<Rightarrow> objptr \<Rightarrow> OV_PLACEMENT_HINT \<Rightarrow>
    OV_PLACEMENT_HINT \<Rightarrow> objptr option \<Rightarrow> OV_RESULT \<times> store" where
  "link_1_n ob a st pp pchild parenthint childhint prelchild =
    (case parent_placement_1_n parenthint of
       OV_ERR_OK \<Rightarrow>
         (case child_placement_1_n ob a st pp childhint prelchild of
            Inl r \<Rightarrow> (r, st)
          | Inr (childhint2, prelchild2) \<Rightarrow>
              (case child_neighbours_1_n ob a st childhint2 prelchild2 of
                 Inl r \<Rightarrow> (r, st)
               | Inr (prev, next) \<Rightarrow> (OV_ERR_OK, linkage_1_n st pp pchild prev next)))
     | r \<Rightarrow> (r, st))"

definition link_n_m :: "nat \<Rightarrow> objects \<Rightarrow> OV_ASSOC \<Rightarrow> linkptr option \<Rightarrow> store \<Rightarrow> objptr \<Rightarrow> objptr \<Rightarrow>
    OV_PLACEMENT_HINT \<Rightarrow> objptr option \<Rightarrow> OV_PLACEMENT_HINT \<Rightarrow> objptr option \<Rightarrow>
    (OV_RESULT \<times> store) option" where
  "link_n_m fuel ob a alloc st pp pchild parenthint prelparent childhint prelchild =
    (case parent_placement_n_m fuel ob a st pchild parenthint prelparent of
       None \<Rightarrow> None
     | Some (Inl r) \<Rightarrow> Some (r, st)
     | Some (Inr (parenthint2, pparentit)) \<Rightarrow>
         (case child_placement_n_m fuel ob a st pp childhint prelchild of
            None \<Rightarrow> None
          | Some (Inl r) \<Rightarrow> Some (r, st)
          | Some (Inr (childhint2, pchildit)) \<Rightarrow>
              (case (parent_neighbours_n_m st parenthint2 pparentit,
                     child_neighbours_n_m st childhint2 pchildit) of
                 (Inr (prevparent, nextparent), Inr (prevchild, nextchild)) \<Rightarrow>
                   (case alloc of
                      None \<Rightarrow> Some (OV_ERR_DBOUTOFMEMORY, st)
                    | Some pit \<Rightarrow> Some (OV_ERR_OK,
                        linkage_n_m st pp pchild pit prevchild nextchild prevparent nextparent))
               | (Inl r, _) \<Rightarrow> Some (r, st)
               | (_, Inl r) \<Rightarrow> Some (r, st))))"

definition ov_association_link :: "nat \<Rightarrow> objects \<Rightarrow> linkptr option \<Rightarrow> OV_ASSOC option \<Rightarrow> objptr option \<Rightarrow>
    objptr option \<Rightarrow> OV_PLACEMENT_HINT \<Rightarrow> objptr option \<Rightarrow> OV_PLACEMENT_HINT \<Rightarrow> objptr option \<Rightarrow>
    store \<Rightarrow> (OV_RESULT \<times> store) option" where
  "ov_association_link fuel ob alloc passoc pp pchild parenthint prelparent childhint prelchild st =
    (case (passoc, pp, pchild) of
       (Some a, Some p, Some c) \<Rightarrow>
         if \<not> Ov_Association_IsParentClass ob a (Some p) then Some (OV_ERR_BADPARAM, st)
         else if \<not> Ov_Association_IsChildClass ob a (Some c) then Some (OV_ERR_BADPARAM, st)
         else (case link_conditions fuel ob a st p c of
            None \<Rightarrow> None
          | Some OV_ERR_OK \<Rightarrow>
              (case v_assoctype a of
                 OV_AT_ONE_TO_ONE \<Rightarrow> Some (link_1_1 st p c parenthint)
               | OV_AT_ONE_TO_MANY \<Rightarrow> Some (link_1_n ob a st p c parenthint childhint prelchild)
               | OV_AT_MANY_TO_MANY \<Rightarrow>
                   link_n_m fuel ob a alloc st p c parenthint prelparent childhint prelchild
               | OV_AT_OTHER _ \<Rightarrow> Some (OV_ERR_BADPARAM, st))
          | Some r \<Rightarrow> Some (r, st))
     | _ \<Rightarrow> Some (OV_ERR_BADPARAM, st))"

section \<open>Unlinking\<close>

definition unlinkage_1_1 :: "store \<Rightarrow> objptr \<Rightarrow> objptr \<Rightarrow> store" where
  "unlinkage_1_1 st pp pchild =
    st\<lparr>child_slot := (child_slot st)(pp := None), parent_slot := (parent_slot st)(pchild := None)\<rparr>"

definition unlinkage_1_n :: "store \<Rightarrow> objptr \<Rightarrow> objptr \<Rightarrow> objptr option \<Rightarrow> objptr option \<Rightarrow> store" where
  "unlinkage_1_n st pp pchild ppreviouschild pnextchild =
    (let st =
       (if ppreviouschild = None \<and> pnextchild = None
        then set_head pp ((head st pp)\<lparr>pfirst := None, plast := None\<rparr>) st
        else
          let st = (case ppreviouschild of
                Some x \<Rightarrow> set_anchor x ((anchor st x)\<lparr>pnext := pnextchild\<rparr>) st
              | None \<Rightarrow> set_head pp ((head st pp)\<lparr>pfirst := pnextchild\<rparr>) st)
          in (case pnextchild of
                Some x \<Rightarrow> set_anchor x ((anchor st x)\<lparr>pprevious := ppreviouschild\<rparr>) st
              | None \<Rightarrow> set_head pp ((head st pp)\<lparr>plast := ppreviouschild\<rparr>) st))
     in set_anchor pchild ((anchor st pchild)\<lparr>pprevious := None, pnext := None, pparent := None\<rparr>) st)"

definition unlinkage_n_m :: "store \<Rightarrow> objptr \<Rightarrow> objptr \<Rightarrow> linkptr \<Rightarrow> linkptr option \<Rightarrow> linkptr option \<Rightarrow>
    linkptr option \<Rightarrow> linkptr option \<Rightarrow> store" where
  "unlinkage_n_m st pp pchild pit ppreviouschildit pnextchildit ppreviousparentit pnextparentit =
    (let st =
       (if ppreviouschildit = None \<and> pnextchildit = None
        then set_parent_nmhead pp ((parent_nmhead st pp)\<lparr>nm_pfirst := None, nm_plast := None\<rparr>) st
        else set_previous_child pnextchildit pp ppreviouschildit
               (set_next_child ppreviouschildit pp pnextchildit st));
         st =
       (if ppreviousparentit = None \<and> pnextparentit = None
        then set_child_nmhead pchild ((child_nmhead st pchild)\<lparr>nm_pfirst := None, nm_plast := None\<rparr>) st
        else set_previous_parent pnextparentit pchild ppreviousparentit
               (set_next_parent ppreviousparentit pchild pnextparentit st))
     in st\<lparr>allocated := (allocated st)(pit := False)\<rparr>)"

definition ov_association_unlink :: "nat \<Rightarrow> objects \<Rightarrow> OV_ASSOC option \<Rightarrow> objptr option \<Rightarrow> objptr option \<Rightarrow>
    store \<Rightarrow> store option" where
  "ov_association_unlink fuel ob passoc pp pchild st =
    (case (passoc, pp, pchild) of
       (Some a, Some p, Some c) \<Rightarrow>
         if \<not> Ov_Association_IsParentClass ob a (Some p) then Some st
         else if \<not> Ov_Association_IsChildClass ob a (Some c) then Some st
         else (case v_assoctype a of
             OV_AT_ONE_TO_ONE \<Rightarrow>
               if Ov_Association_GetParent ob a st (Some c) \<noteq> Some p then Some st
               else Some (unlinkage_1_1 st p c)
           | OV_AT_ONE_TO_MANY \<Rightarrow>
               if Ov_Association_GetParent ob a st (Some c) \<noteq> Some p then Some st
               else Some (unlinkage_1_n st p c
                 (Ov_Association_GetPreviousChild ob a st (Some c))
                 (Ov_Association_GetNextChild ob a st (Some c)))
           | OV_AT_MANY_TO_MANY \<Rightarrow>
               (case find_loop fuel (Ov_Association_GetNextChildNM st) (link_child st)
                   (Ov_Association_GetFirstChildNM ob a st (Some p)) (Some c) of
                  None \<Rightarrow> None
                | Some None \<Rightarrow> Some st
                | Some (Some pit) \<Rightarrow> Some (unlinkage_n_m st p c pit
                    (Ov_Association_GetPreviousChildNM st (Some pit))
                    (Ov_Association_GetNextChildNM st (Some pit))
                    (Ov_Association_GetPreviousParentNM st (Some pit))
                    (Ov_Association_GetNextParentNM st (Some pit))))
           | _ \<Rightarrow> Some st)
     | _ \<Rightarrow> Some st)"

section \<open>Tests\<close>

definition ov_association_isusedparentlink :: "objects \<Rightarrow> OV_ASSOC \<Rightarrow> store \<Rightarrow> objptr \<Rightarrow> bool" where
  "ov_association_isusedparentlink ob a st pp =
    (if \<not> Ov_Association_IsParentClass ob a (Some pp) then False
     else case v_assoctype a of
         OV_AT_ONE_TO_ONE \<Rightarrow> child_slot st pp \<noteq> None
       | OV_AT_ONE_TO_MANY \<Rightarrow> pfirst (head st pp) \<noteq> None \<or> plast (head st pp) \<noteq> None
       | OV_AT_MANY_TO_MANY \<Rightarrow> nm_pfirst (parent_nmhead st pp) \<noteq> None \<or> nm_plast (parent_nmhead st pp) \<noteq> None
       | _ \<Rightarrow> False)"

definition ov_association_isusedchildlink :: "objects \<Rightarrow> OV_ASSOC \<Rightarrow> store \<Rightarrow> objptr \<Rightarrow> bool" where
  "ov_association_isusedchildlink ob a st pchild =
    (if \<not> Ov_Association_IsChildClass ob a (Some pchild) then False
     else case v_assoctype a of
         OV_AT_ONE_TO_ONE \<Rightarrow> parent_slot st pchild \<noteq> None
       | OV_AT_ONE_TO_MANY \<Rightarrow> pnext (anchor st pchild) \<noteq> None \<or> pprevious (anchor st pchild) \<noteq> None
           \<or> pparent (anchor st pchild) \<noteq> None
       | OV_AT_MANY_TO_MANY \<Rightarrow> nm_pfirst (child_nmhead st pchild) \<noteq> None \<or> nm_plast (child_nmhead st pchild) \<noteq> None
       | _ \<Rightarrow> False)"

text \<open>\<open>ov_association_testpath\<close>: the loop of the 1:1 case and, for the others, the loop over children
  with the recursive call in its body.\<close>

fun testpath_1_1 :: "nat \<Rightarrow> objects \<Rightarrow> OV_ASSOC \<Rightarrow> store \<Rightarrow> objptr option \<Rightarrow> objptr \<Rightarrow> bool option" where
  "testpath_1_1 fuel ob a st None pchild = Some False"
| "testpath_1_1 0 ob a st (Some pthis) pchild = None"
| "testpath_1_1 (Suc fuel) ob a st (Some pthis) pchild =
    (if pthis = pchild then Some True
     else testpath_1_1 fuel ob a st (Ov_Association_GetChild ob a st (Some pthis)) pchild)"

fun testpath_1_n :: "nat \<Rightarrow> objects \<Rightarrow> OV_ASSOC \<Rightarrow> store \<Rightarrow> objptr option \<Rightarrow> objptr \<Rightarrow> bool option" where
  "testpath_1_n fuel ob a st None pchild = Some False"
| "testpath_1_n 0 ob a st (Some c) pchild = None"
| "testpath_1_n (Suc fuel) ob a st (Some c) pchild =
    (if c = pchild then Some True
     else case testpath_1_n fuel ob a st (Ov_Association_GetFirstChild ob a st (Some c)) pchild of
         Some False \<Rightarrow> testpath_1_n fuel ob a st (Ov_Association_GetNextChild ob a st (Some c)) pchild
       | r \<Rightarrow> r)"

fun testpath_n_m :: "nat \<Rightarrow> objects \<Rightarrow> OV_ASSOC \<Rightarrow> store \<Rightarrow> linkptr option \<Rightarrow> objptr \<Rightarrow> bool option" where
  "testpath_n_m 0 ob a st pit pchild = (if link_child st pit = None then Some False else None)"
| "testpath_n_m (Suc fuel) ob a st pit pchild =
    (case link_child st pit of
       None \<Rightarrow> Some False
     | Some c \<Rightarrow>
         if c = pchild then Some True
         else case testpath_n_m fuel ob a st (Ov_Association_GetFirstChildNM ob a st (Some c)) pchild of
             Some False \<Rightarrow> testpath_n_m fuel ob a st (Ov_Association_GetNextChildNM st pit) pchild
           | r \<Rightarrow> r)"

definition ov_association_testpath ::
    "nat \<Rightarrow> objects \<Rightarrow> OV_ASSOC option \<Rightarrow> store \<Rightarrow> objptr option \<Rightarrow> objptr option \<Rightarrow> bool option" where
  "ov_association_testpath fuel ob passoc st pp pchild =
    (case (passoc, pp, pchild) of
       (Some a, Some p, Some c) \<Rightarrow>
         (case v_assoctype a of
            OV_AT_ONE_TO_ONE \<Rightarrow> testpath_1_1 fuel ob a st (Some p) c
          | OV_AT_ONE_TO_MANY \<Rightarrow> testpath_1_n fuel ob a st (Ov_Association_GetFirstChild ob a st (Some p)) c
          | OV_AT_MANY_TO_MANY \<Rightarrow> testpath_n_m fuel ob a st (Ov_Association_GetFirstChildNM ob a st (Some p)) c
          | _ \<Rightarrow> Some False)
     | _ \<Rightarrow> Some False)"

text \<open>Linking without checks, for the associations of the meta model.\<close>

definition ov_association_dolink :: "store \<Rightarrow> objptr \<Rightarrow> objptr \<Rightarrow> store" where
  "ov_association_dolink st pp pchild =
    (let ppreviouschild = plast (head st pp);
         st = (case ppreviouschild of
           Some x \<Rightarrow> set_anchor x ((anchor st x)\<lparr>pnext := Some pchild\<rparr>) st
         | None \<Rightarrow> set_head pp ((head st pp)\<lparr>pfirst := Some pchild\<rparr>) st);
         st = set_head pp ((head st pp)\<lparr>plast := Some pchild\<rparr>) st
     in set_anchor pchild ((anchor st pchild)
          \<lparr>pprevious := ppreviouschild, pnext := None, pparent := Some pp\<rparr>) st)"

section \<open>Class hierarchies\<close>

text \<open>A list of a class and all its base classes.\<close>

fun lineage :: "(classptr \<Rightarrow> classptr option) \<Rightarrow> classptr list \<Rightarrow> bool" where
  "lineage base [] = False"
| "lineage base [c] = (base c = None)"
| "lineage base (c # d # cs) = (base c = Some d \<and> lineage base (d # cs))"

lemma cancastto_lineage:
  "lineage base (c # cs) \<Longrightarrow> length (c # cs) \<le> fuel \<Longrightarrow>
    ov_class_cancastto fuel base (Some c) (Some d) = Some (d \<in> set (c # cs))"
proof (induction cs arbitrary: c fuel)
  case Nil
  then obtain n where "fuel = Suc n" by (cases fuel) auto
  with Nil show ?case by (auto simp: ov_class_cancastto_def)
next
  case (Cons e cs)
  then obtain n where "fuel = Suc n" by (cases fuel) auto
  with Cons.prems Cons.IH [of e n] show ?case by (auto simp: ov_class_cancastto_def)
qed

section \<open>1:n associations: what the store represents\<close>

text \<open>\<open>children_1_n\<close> relates the store to the list of children of every parent.\<close>

abbreviation local_names :: "OV_ASSOC \<Rightarrow> bool" where
  "local_names a \<equiv> v_assocprops a AND OV_AP_LOCAL \<noteq> 0"

definition tables_ok :: "objects \<Rightarrow> OV_ASSOC \<Rightarrow> bool" where
  "tables_ok ob a \<longleftrightarrow>
    (\<forall>p. Ov_Association_IsParentClass ob a (Some p) \<longrightarrow> has_linktable ob p) \<and>
    (\<forall>c. Ov_Association_IsChildClass ob a (Some c) \<longrightarrow> has_linktable ob c)"

definition linked_1_n :: "store \<Rightarrow> objptr \<Rightarrow> objptr list \<Rightarrow> bool" where
  "linked_1_n st p cs \<longleftrightarrow> distinct cs \<and>
    chain (\<lambda>c. pnext (anchor st c)) (\<lambda>c. pprevious (anchor st c)) None cs None \<and>
    head st p = \<lparr>pfirst = hd_or cs None, plast = last_or None cs\<rparr>"

definition children_1_n :: "objects \<Rightarrow> OV_ASSOC \<Rightarrow> store \<Rightarrow> (objptr \<Rightarrow> objptr list) \<Rightarrow> bool" where
  "children_1_n ob a st ch \<longleftrightarrow>
    (\<forall>p. linked_1_n st p (ch p)) \<and>
    (\<forall>p c. c \<in> set (ch p) \<longleftrightarrow> pparent (anchor st c) = Some p) \<and>
    (\<forall>c. pparent (anchor st c) = None \<longrightarrow> anchor st c = \<lparr>pnext = None, pprevious = None, pparent = None\<rparr>) \<and>
    (\<forall>p c. c \<in> set (ch p) \<longrightarrow>
       Ov_Association_IsParentClass ob a (Some p) \<and> Ov_Association_IsChildClass ob a (Some c)) \<and>
    (local_names a \<longrightarrow> (\<forall>p. distinct (map (v_identifier ob) (ch p))))"

lemma children_1_nD:
  assumes "children_1_n ob a st ch"
  shows "linked_1_n st p (ch p)"
    and "c \<in> set (ch p) \<longleftrightarrow> pparent (anchor st c) = Some p"
    and "pparent (anchor st c) = None \<Longrightarrow> anchor st c = \<lparr>pnext = None, pprevious = None, pparent = None\<rparr>"
    and "c \<in> set (ch p) \<Longrightarrow>
      Ov_Association_IsParentClass ob a (Some p) \<and> Ov_Association_IsChildClass ob a (Some c)"
    and "local_names a \<Longrightarrow> distinct (map (v_identifier ob) (ch p))"
  using assms unfolding children_1_n_def by blast+

lemma linkage_1_n_anchor:
  assumes "prev \<noteq> Some c" "next \<noteq> Some c"
  shows "anchor (linkage_1_n st p c prev next) x =
    (if x = c then \<lparr>pnext = next, pprevious = prev, pparent = Some p\<rparr>
     else (anchor st x)\<lparr>pnext := if prev = Some x then Some c else pnext (anchor st x),
       pprevious := if next = Some x then Some c else pprevious (anchor st x)\<rparr>)"
  using assms by (auto simp: linkage_1_n_def Let_def split: option.splits)

lemma linkage_1_n_head:
  "head (linkage_1_n st p c prev next) q =
    (if q = p then \<lparr>pfirst = if prev = None then Some c else pfirst (head st p),
       plast = if next = None then Some c else plast (head st p)\<rparr> else head st q)"
  by (cases "head st p") (auto simp: linkage_1_n_def Let_def split: option.splits)

lemma linkage_1_n_children:
  assumes r: "children_1_n ob a st ch" and xy: "ch p = xs @ ys" and c: "pparent (anchor st c) = None"
    and cls: "Ov_Association_IsParentClass ob a (Some p)" "Ov_Association_IsChildClass ob a (Some c)"
    and nm: "local_names a \<longrightarrow> v_identifier ob c \<notin> v_identifier ob ` set (ch p)"
  shows "children_1_n ob a (linkage_1_n st p c (last_or None xs) (hd_or ys None)) (ch(p := xs @ c # ys))"
proof -
  let ?st = "linkage_1_n st p c (last_or None xs) (hd_or ys None)"
  have mem: "x \<in> set (ch q) \<longleftrightarrow> pparent (anchor st x) = Some q" for x q
    using r by (simp add: children_1_n_def)
  have notin: "c \<notin> set (ch q)" for q using c mem by simp
  have ends: "last_or None xs \<noteq> Some c" "hd_or ys None \<noteq> Some c"
    using notin [of p] xy last_or_in hd_or_in by fastforce+
  note an = linkage_1_n_anchor [OF ends, of st p] and hd = linkage_1_n_head
  have par: "pparent (anchor ?st x) = (if x = c then Some p else pparent (anchor st x))" for x
    by (simp add: an)
  have other: "last_or None xs \<noteq> Some x" "hd_or ys None \<noteq> Some x" if "x \<notin> set (ch p)" for x
    using that xy last_or_in [of xs x] hd_or_in [of ys x] by auto
  have dp: "distinct (xs @ ys)" "chain (\<lambda>c. pnext (anchor st c)) (\<lambda>c. pprevious (anchor st c)) None (xs @ ys) None"
    "head st p = \<lparr>pfirst = hd_or (xs @ ys) None, plast = last_or None (xs @ ys)\<rparr>"
    using r xy unfolding children_1_n_def linked_1_n_def by metis+
  have "linked_1_n ?st p (xs @ c # ys)"
    unfolding linked_1_n_def
  proof (intro conjI)
    show "distinct (xs @ c # ys)" using dp(1) notin [of p] xy by auto
    then show "chain (\<lambda>c. pnext (anchor ?st c)) (\<lambda>c. pprevious (anchor ?st c)) None (xs @ c # ys) None"
      by (intro chain_insert [OF dp(2)]) (auto simp: an)
    show "head ?st p = \<lparr>pfirst = hd_or (xs @ c # ys) None, plast = last_or None (xs @ c # ys)\<rparr>"
      by (cases xs; cases ys rule: rev_cases) (simp_all add: hd dp(3))
  qed
  moreover have "linked_1_n ?st q (ch q)" if "q \<noteq> p" for q
  proof -
    have "x \<notin> set (ch p)" if "x \<in> set (ch q)" for x using that \<open>q \<noteq> p\<close> mem by simp
    moreover have "x \<noteq> c" if "x \<in> set (ch q)" for x using that notin by blast
    ultimately have "chain (\<lambda>c. pnext (anchor ?st c)) (\<lambda>c. pprevious (anchor ?st c)) None (ch q) None =
        chain (\<lambda>c. pnext (anchor st c)) (\<lambda>c. pprevious (anchor st c)) None (ch q) None"
      by (intro chain_cong) (simp add: an other)
    with r that show ?thesis by (simp add: children_1_n_def linked_1_n_def hd)
  qed
  moreover have "anchor ?st x = \<lparr>pnext = None, pprevious = None, pparent = None\<rparr>"
    if "pparent (anchor ?st x) = None" for x
  proof -
    have "x \<noteq> c" "x \<notin> set (ch p)" "pparent (anchor st x) = None"
      using that mem by (auto simp: par split: if_splits)
    then show ?thesis by (simp add: an other children_1_nD(3) [OF r])
  qed
  moreover have "x \<in> set ((ch(p := xs @ c # ys)) q) \<longleftrightarrow> pparent (anchor ?st x) = Some q" for x q
    using mem [of x q] c xy by (auto simp: par)
  moreover have "distinct (map (v_identifier ob) ((ch(p := xs @ c # ys)) q))" if "local_names a" for q
  proof -
    have "distinct (map (v_identifier ob) (ch q))" "distinct (map (v_identifier ob) (xs @ ys))"
      using r that xy unfolding children_1_n_def by metis+
    moreover have "v_identifier ob c \<notin> v_identifier ob ` set (xs @ ys)" using nm that xy by simp
    ultimately show ?thesis by (auto simp: image_Un)
  qed
  moreover have "Ov_Association_IsParentClass ob a (Some q) \<and> Ov_Association_IsChildClass ob a (Some x)"
    if "x \<in> set ((ch(p := xs @ c # ys)) q)" for x q
  proof -
    have "x \<in> set (ch q) \<or> x = c \<and> q = p" using that xy by (auto split: if_splits)
    with children_1_nD(4) [OF r] cls show ?thesis by blast
  qed
  ultimately show ?thesis
    unfolding children_1_n_def by simp
qed

lemma unlinkage_1_n_anchor:
  assumes "prev \<noteq> Some c" "next \<noteq> Some c"
  shows "anchor (unlinkage_1_n st p c prev next) x =
    (if x = c then \<lparr>pnext = None, pprevious = None, pparent = None\<rparr>
     else (anchor st x)\<lparr>pnext := if prev = Some x then next else pnext (anchor st x),
       pprevious := if next = Some x then prev else pprevious (anchor st x)\<rparr>)"
  using assms by (auto simp: unlinkage_1_n_def Let_def split: option.splits)

lemma unlinkage_1_n_head:
  "head (unlinkage_1_n st p c prev next) q =
    (if q = p then \<lparr>pfirst = if prev = None then next else pfirst (head st p),
       plast = if next = None then prev else plast (head st p)\<rparr> else head st q)"
  by (cases "head st p") (auto simp: unlinkage_1_n_def Let_def split: option.splits)

lemma unlinkage_1_n_children:
  assumes r: "children_1_n ob a st ch" and xy: "ch p = xs @ c # ys"
  shows "children_1_n ob a (unlinkage_1_n st p c (last_or None xs) (hd_or ys None)) (ch(p := xs @ ys))"
proof -
  let ?st = "unlinkage_1_n st p c (last_or None xs) (hd_or ys None)"
  note mem = children_1_nD(2) [OF r]
  have dp: "distinct (xs @ c # ys)"
    "chain (\<lambda>c. pnext (anchor st c)) (\<lambda>c. pprevious (anchor st c)) None (xs @ c # ys) None"
    "head st p = \<lparr>pfirst = hd_or (xs @ c # ys) None, plast = last_or None (xs @ c # ys)\<rparr>"
    using children_1_nD(1) [OF r, of p] unfolding linked_1_n_def xy by blast+
  have ends: "last_or None xs \<noteq> Some c" "hd_or ys None \<noteq> Some c"
    using dp(1) last_or_in hd_or_in by fastforce+
  note an = unlinkage_1_n_anchor [OF ends, of st p] and hd = unlinkage_1_n_head
  have par: "pparent (anchor ?st x) = (if x = c then None else pparent (anchor st x))" for x
    by (simp add: an)
  have other: "last_or None xs \<noteq> Some x" "hd_or ys None \<noteq> Some x" if "x \<notin> set (ch p)" for x
    using that xy last_or_in [of xs x] hd_or_in [of ys x] by auto
  have cp: "c \<in> set (ch p)" using xy by simp
  have "linked_1_n ?st p (xs @ ys)"
    unfolding linked_1_n_def
  proof (intro conjI)
    show "distinct (xs @ ys)" using dp(1) by auto
    show "chain (\<lambda>c. pnext (anchor ?st c)) (\<lambda>c. pprevious (anchor ?st c)) None (xs @ ys) None"
      by (rule chain_remove [OF dp(2,1)]) (use dp(1) in \<open>auto simp: an\<close>)
    show "head ?st p = \<lparr>pfirst = hd_or (xs @ ys) None, plast = last_or None (xs @ ys)\<rparr>"
      by (cases xs; cases ys rule: rev_cases) (simp_all add: hd dp(3))
  qed
  moreover have "linked_1_n ?st q (ch q)" if "q \<noteq> p" for q
  proof -
    have "x \<notin> set (ch p)" if "x \<in> set (ch q)" for x using that \<open>q \<noteq> p\<close> mem by simp
    then have "chain (\<lambda>c. pnext (anchor ?st c)) (\<lambda>c. pprevious (anchor ?st c)) None (ch q) None =
        chain (\<lambda>c. pnext (anchor st c)) (\<lambda>c. pprevious (anchor st c)) None (ch q) None"
      by (intro chain_cong) (use cp in \<open>auto simp: an other\<close>)
    with r that show ?thesis by (simp add: children_1_n_def linked_1_n_def hd)
  qed
  moreover have "anchor ?st x = \<lparr>pnext = None, pprevious = None, pparent = None\<rparr>"
    if "pparent (anchor ?st x) = None" for x
  proof (cases "x = c")
    case False
    then have "x \<notin> set (ch p)" "pparent (anchor st x) = None"
      using that mem by (auto simp: par split: if_splits)
    with False show ?thesis by (simp add: an other children_1_nD(3) [OF r])
  qed (simp add: an)
  moreover have "x \<in> set ((ch(p := xs @ ys)) q) \<longleftrightarrow> pparent (anchor ?st x) = Some q" for x q
    using mem [of x q] mem [of c p] dp(1) xy by (auto simp: par)
  moreover have "distinct (map (v_identifier ob) ((ch(p := xs @ ys)) q))" if "local_names a" for q
    using children_1_nD(5) [OF r that, of q] children_1_nD(5) [OF r that, of p] xy by auto
  moreover have "Ov_Association_IsParentClass ob a (Some q) \<and> Ov_Association_IsChildClass ob a (Some x)"
    if "x \<in> set ((ch(p := xs @ ys)) q)" for x q
  proof -
    have "x \<in> set (ch q)" using that xy by (auto split: if_splits)
    with children_1_nD(4) [OF r] show ?thesis by blast
  qed
  ultimately show ?thesis unfolding children_1_n_def by simp
qed

section \<open>1:n associations: the contract of link and unlink\<close>

fun place :: "OV_PLACEMENT_HINT \<Rightarrow> 'a option \<Rightarrow> 'a \<Rightarrow> 'a list \<Rightarrow> 'a list" where
  "place OV_PMH_BEGIN rel c cs = c # cs"
| "place OV_PMH_BEFORE rel c cs =
    takeWhile (\<lambda>x. rel \<noteq> Some x) cs @ c # dropWhile (\<lambda>x. rel \<noteq> Some x) cs"
| "place OV_PMH_AFTER rel c cs =
    (case dropWhile (\<lambda>x. rel \<noteq> Some x) cs of
       [] \<Rightarrow> cs @ [c]
     | r # rs \<Rightarrow> takeWhile (\<lambda>x. rel \<noteq> Some x) cs @ r # c # rs)"
| "place _ rel c cs = cs @ [c]"

definition link_result_1_n :: "objects \<Rightarrow> OV_ASSOC \<Rightarrow> (objptr \<Rightarrow> objptr list) \<Rightarrow> objptr \<Rightarrow> objptr \<Rightarrow>
    OV_PLACEMENT_HINT \<Rightarrow> OV_PLACEMENT_HINT \<Rightarrow> objptr option \<Rightarrow> OV_RESULT" where
  "link_result_1_n ob a ch p c parenthint childhint prelchild =
    (if \<not> Ov_Association_IsParentClass ob a (Some p) \<or> \<not> Ov_Association_IsChildClass ob a (Some c)
     then OV_ERR_BADPARAM
     else if (\<exists>q. c \<in> set (ch q)) \<or>
       (local_names a \<and> v_identifier ob c \<in> v_identifier ob ` set (ch p)) then OV_ERR_ALREADYEXISTS
     else if parenthint \<notin> {OV_PMH_DEFAULT, OV_PMH_BEGIN, OV_PMH_END} then OV_ERR_BADPLACEMENT
     else if childhint \<in> {OV_PMH_DEFAULT, OV_PMH_BEGIN, OV_PMH_END} then OV_ERR_OK
     else if childhint \<in> {OV_PMH_BEFORE, OV_PMH_AFTER}
     then (if prelchild \<in> Some ` set (ch p) then OV_ERR_OK else OV_ERR_BADPARAM)
     else OV_ERR_BADPLACEMENT)"

lemma GetParent_1_n:
  assumes "tables_ok ob a" "v_assoctype a = OV_AT_ONE_TO_MANY" "Ov_Association_IsChildClass ob a (Some c)"
  shows "Ov_Association_GetParent ob a st (Some c) = pparent (anchor st c)"
  using assms by (simp add: Ov_Association_GetParent_def table_entry_def tables_ok_def)

lemma GetParent_1_n_iff:
  assumes "children_1_n ob a st ch" "tables_ok ob a" "v_assoctype a = OV_AT_ONE_TO_MANY"
  shows "Ov_Association_GetParent ob a st rel = Some p \<longleftrightarrow> rel \<in> Some ` set (ch p)"
proof (cases rel)
  case (Some x)
  then show ?thesis
  proof (cases "Ov_Association_IsChildClass ob a (Some x)")
    case True
    with Some show ?thesis
      using GetParent_1_n [OF assms(2,3) True] children_1_nD(2) [OF assms(1)] by auto
  next
    case False
    then have "x \<notin> set (ch p)" using children_1_nD(4) [OF assms(1)] by blast
    with Some False show ?thesis by (auto simp: Ov_Association_GetParent_def)
  qed
qed (auto simp: Ov_Association_GetParent_def table_entry_def)

lemma child_macros_1_n:
  assumes r: "children_1_n ob a st ch" and t: "tables_ok ob a" "v_assoctype a = OV_AT_ONE_TO_MANY"
    and p: "Ov_Association_IsParentClass ob a (Some p)"
  shows "Ov_Association_GetFirstChild ob a st (Some p) = hd_or (ch p) None"
    and "Ov_Association_GetLastChild ob a st (Some p) = last_or None (ch p)"
    and "ch p = xs @ x # ys \<Longrightarrow> Ov_Association_GetNextChild ob a st (Some x) = hd_or ys None"
    and "ch p = xs @ x # ys \<Longrightarrow> Ov_Association_GetPreviousChild ob a st (Some x) = last_or None xs"
proof -
  note l = children_1_nD(1) [OF r, of p, unfolded linked_1_n_def]
  show "Ov_Association_GetFirstChild ob a st (Some p) = hd_or (ch p) None"
    and "Ov_Association_GetLastChild ob a st (Some p) = last_or None (ch p)"
    using l t p by (simp_all add: Ov_Association_GetFirstChild_def Ov_Association_GetLastChild_def
        table_entry_def tables_ok_def)
  assume x: "ch p = xs @ x # ys"
  then have "Ov_Association_IsChildClass ob a (Some x)" using children_1_nD(4) [OF r, of x p] by simp
  then show "Ov_Association_GetNextChild ob a st (Some x) = hd_or ys None"
    and "Ov_Association_GetPreviousChild ob a st (Some x) = last_or None xs"
    using l t x by (simp_all add: Ov_Association_GetNextChild_def Ov_Association_GetPreviousChild_def
        table_entry_def tables_ok_def)
qed

lemma searchchild_loop_1_n:
  assumes r: "children_1_n ob a st ch" and t: "tables_ok ob a" "v_assoctype a = OV_AT_ONE_TO_MANY"
    and p: "Ov_Association_IsParentClass ob a (Some p)"
  shows "ch p = xs @ ys \<Longrightarrow> length ys \<le> fuel \<Longrightarrow>
    searchchild_loop fuel ob a st ident (hd_or ys None) = Some (find (\<lambda>c. v_identifier ob c = ident) ys)"
proof (induction ys arbitrary: xs fuel)
  case (Cons y ys)
  then obtain n where "fuel = Suc n" "length ys \<le> n" by (cases fuel) auto
  then show ?case
    using Cons.IH [of "xs @ [y]" n] Cons.prems child_macros_1_n(3) [OF r t p, of xs y ys] by auto
qed simp

lemma searchchild_1_n:
  assumes "children_1_n ob a st ch" "tables_ok ob a" "v_assoctype a = OV_AT_ONE_TO_MANY"
    and "Ov_Association_IsParentClass ob a (Some p)" "local_names a" "length (ch p) \<le> fuel"
  shows "ov_association_searchchild fuel ob (Some a) st (Some p) (Some ident) =
    Some (find (\<lambda>c. v_identifier ob c = ident) (ch p))"
  using searchchild_loop_1_n [OF assms(1-4), of "[]" "ch p" fuel ident] child_macros_1_n(1) [OF assms(1-4)] assms
  by (simp add: ov_association_searchchild_def)

lemma place_split:
  assumes "rel \<in> Some ` set cs"
  obtains xs r ys where "cs = xs @ r # ys" "rel = Some r"
    "place OV_PMH_BEFORE rel c cs = xs @ c # r # ys" "place OV_PMH_AFTER rel c cs = xs @ r # c # ys"
proof -
  from assms obtain r where r: "rel = Some r" "r \<in> set cs" by blast
  then obtain xs ys where "cs = xs @ r # ys" "r \<notin> set xs" by (meson split_list_first)
  moreover from this have "takeWhile (\<lambda>x. rel \<noteq> Some x) cs = xs" "dropWhile (\<lambda>x. rel \<noteq> Some x) cs = r # ys"
    using r by (auto simp: takeWhile_append dropWhile_append)
  ultimately show ?thesis using that r by simp
qed

lemma child_position_1_n:
  assumes r: "children_1_n ob a st ch" and t: "tables_ok ob a" "v_assoctype a = OV_AT_ONE_TO_MANY"
    and p: "Ov_Association_IsParentClass ob a (Some p)"
    and h: "childhint \<in> {OV_PMH_DEFAULT, OV_PMH_BEGIN, OV_PMH_END} \<or>
      childhint \<in> {OV_PMH_BEFORE, OV_PMH_AFTER} \<and> rel \<in> Some ` set (ch p)"
  obtains xs ys h2 r2 where "ch p = xs @ ys" "place childhint rel c (ch p) = xs @ c # ys"
    "child_placement_1_n ob a st p childhint rel = Inr (h2, r2)"
    "child_neighbours_1_n ob a st h2 r2 = Inr (last_or None xs, hd_or ys None)"
proof -
  note m = child_macros_1_n [OF r t p]
  have none: "Ov_Association_GetNextChild ob a st None = None" "Ov_Association_GetPreviousChild ob a st None = None"
    by (simp_all add: Ov_Association_GetNextChild_def Ov_Association_GetPreviousChild_def table_entry_def)
  have at_end: "Ov_Association_GetNextChild ob a st (last_or None (ch p)) = None"
    using none m(3) [of "butlast (ch p)" "last (ch p)" "[]"] by (cases "ch p" rule: rev_cases) simp_all
  have at_begin: "Ov_Association_GetPreviousChild ob a st (hd_or (ch p) None) = None"
    using none m(4) [of "[]" "hd (ch p)" "tl (ch p)"] by (cases "ch p") simp_all
  consider (ending) "childhint \<in> {OV_PMH_DEFAULT, OV_PMH_END}" | (front) "childhint = OV_PMH_BEGIN"
    | (bef) "childhint = OV_PMH_BEFORE" "rel \<in> Some ` set (ch p)"
    | (aft) "childhint = OV_PMH_AFTER" "rel \<in> Some ` set (ch p)"
    using h by blast
  then show ?thesis
  proof cases
    case ending
    show ?thesis
      by (rule that [of "ch p" "[]" OV_PMH_AFTER "last_or None (ch p)"])
        (use ending m at_end in \<open>auto simp: child_placement_1_n_def child_neighbours_1_n_def\<close>)
  next
    case front
    show ?thesis
      by (rule that [of "[]" "ch p" OV_PMH_BEFORE "hd_or (ch p) None"])
        (use front m at_begin in \<open>auto simp: child_placement_1_n_def child_neighbours_1_n_def\<close>)
  next
    case bef
    obtain xs x ys where s: "ch p = xs @ x # ys" "rel = Some x"
      "place OV_PMH_BEFORE rel c (ch p) = xs @ c # x # ys"
      by (rule place_split [OF bef(2), where c = c]) blast
    show ?thesis
      by (rule that [of xs "x # ys" OV_PMH_BEFORE rel])
        (use bef s GetParent_1_n_iff [OF r t] m(4) in
          \<open>auto simp: child_placement_1_n_def child_neighbours_1_n_def\<close>)
  next
    case aft
    obtain xs x ys where s: "ch p = xs @ x # ys" "rel = Some x"
      "place OV_PMH_AFTER rel c (ch p) = xs @ x # c # ys"
      by (rule place_split [OF aft(2), where c = c]) blast
    show ?thesis
      by (rule that [of "xs @ [x]" ys OV_PMH_AFTER rel])
        (use aft s GetParent_1_n_iff [OF r t] m(3) in
          \<open>auto simp: child_placement_1_n_def child_neighbours_1_n_def\<close>)
  qed
qed

lemma link_conditions_1_n_value:
  assumes r: "children_1_n ob a st ch" and t: "tables_ok ob a" "v_assoctype a = OV_AT_ONE_TO_MANY"
    and p: "Ov_Association_IsParentClass ob a (Some p)" and c: "Ov_Association_IsChildClass ob a (Some c)"
    and f: "length (ch p) \<le> fuel"
  shows "link_conditions fuel ob a st p c = Some
    (if (\<exists>q. c \<in> set (ch q)) \<or> (local_names a \<and> v_identifier ob c \<in> v_identifier ob ` set (ch p))
     then OV_ERR_ALREADYEXISTS else OV_ERR_OK)"
proof -
  have "(\<exists>q. c \<in> set (ch q)) \<longleftrightarrow> pparent (anchor st c) \<noteq> None"
    using children_1_nD(2) [OF r] by auto
  moreover have "find (\<lambda>x. v_identifier ob x = v_identifier ob c) (ch p) \<noteq> None \<longleftrightarrow>
      v_identifier ob c \<in> v_identifier ob ` set (ch p)"
    by (simp add: find_None_iff image_iff) metis
  ultimately show ?thesis
    using GetParent_1_n [OF t c] searchchild_1_n [OF r t p _ f] t
    by (simp add: link_conditions_def link_conditions_1_n_def)
qed

lemma link_1_n_refines:
  assumes r: "children_1_n ob a st ch" and t: "tables_ok ob a" "v_assoctype a = OV_AT_ONE_TO_MANY"
    and f: "length (ch p) \<le> fuel"
  obtains st' where
    "ov_association_link fuel ob alloc (Some a) (Some p) (Some c) parenthint prelparent childhint prelchild st =
      Some (link_result_1_n ob a ch p c parenthint childhint prelchild, st')"
    "link_result_1_n ob a ch p c parenthint childhint prelchild = OV_ERR_OK \<Longrightarrow>
      children_1_n ob a st' (ch(p := place childhint prelchild c (ch p)))"
    "link_result_1_n ob a ch p c parenthint childhint prelchild \<noteq> OV_ERR_OK \<Longrightarrow> st' = st"
proof -
  let ?link = "ov_association_link fuel ob alloc (Some a) (Some p) (Some c) parenthint prelparent
    childhint prelchild st" and ?r = "link_result_1_n ob a ch p c parenthint childhint prelchild"
  show ?thesis
  proof (cases "Ov_Association_IsParentClass ob a (Some p) \<and> Ov_Association_IsChildClass ob a (Some c)")
    case False
    then have "?link = Some (?r, st)" "?r \<noteq> OV_ERR_OK"
      by (auto simp: ov_association_link_def link_result_1_n_def)
    then show ?thesis using that by simp
  next
    case True
    then have p: "Ov_Association_IsParentClass ob a (Some p)" and c: "Ov_Association_IsChildClass ob a (Some c)"
      by blast+
    note cond = link_conditions_1_n_value [OF r t p c f]
    show ?thesis
    proof (cases "?r = OV_ERR_OK")
      case True
      then have ok: "link_conditions fuel ob a st p c = Some OV_ERR_OK"
        "parent_placement_1_n parenthint = OV_ERR_OK"
        "childhint \<in> {OV_PMH_DEFAULT, OV_PMH_BEGIN, OV_PMH_END} \<or>
          childhint \<in> {OV_PMH_BEFORE, OV_PMH_AFTER} \<and> prelchild \<in> Some ` set (ch p)"
        and new: "\<forall>q. c \<notin> set (ch q)"
          "local_names a \<longrightarrow> v_identifier ob c \<notin> v_identifier ob ` set (ch p)"
        unfolding link_result_1_n_def cond parent_placement_1_n_def by (auto split: if_splits)
      obtain xs ys h2 r2 where pos: "ch p = xs @ ys" "place childhint prelchild c (ch p) = xs @ c # ys"
        "child_placement_1_n ob a st p childhint prelchild = Inr (h2, r2)"
        "child_neighbours_1_n ob a st h2 r2 = Inr (last_or None xs, hd_or ys None)"
        by (rule child_position_1_n [OF r t p ok(3), where c = c])
      have "pparent (anchor st c) = None"
        using new(1) children_1_nD(2) [OF r] by (metis option.exhaust)
      then have "children_1_n ob a (linkage_1_n st p c (last_or None xs) (hd_or ys None)) (ch(p := xs @ c # ys))"
        using linkage_1_n_children [OF r pos(1) _ p c new(2)] by blast
      moreover have "?link = Some (?r, linkage_1_n st p c (last_or None xs) (hd_or ys None))"
        using ok pos p c t True by (simp add: ov_association_link_def link_1_n_def)
      ultimately show ?thesis using that True pos(2) by simp
    next
      case False
      have "?link = Some (?r, st)"
        using False p c t cond GetParent_1_n_iff [OF r t, of prelchild p]
        by (cases childhint)
          (auto simp: ov_association_link_def link_1_n_def link_result_1_n_def parent_placement_1_n_def
            child_placement_1_n_def child_neighbours_1_n_def)
      then show ?thesis using that False by simp
    qed
  qed
qed

lemma unlink_1_n_refines:
  assumes r: "children_1_n ob a st ch" and t: "tables_ok ob a" "v_assoctype a = OV_AT_ONE_TO_MANY"
  obtains st' where "ov_association_unlink fuel ob (Some a) (Some p) (Some c) st = Some st'"
    "children_1_n ob a st' (ch(p := removeAll c (ch p)))" "c \<notin> set (ch p) \<Longrightarrow> st' = st"
proof (cases "c \<in> set (ch p)")
  case True
  then obtain xs ys where xy: "ch p = xs @ c # ys" by (meson split_list)
  have p: "Ov_Association_IsParentClass ob a (Some p)" and c: "Ov_Association_IsChildClass ob a (Some c)"
    using True children_1_nD(4) [OF r] by blast+
  have "distinct (ch p)" using children_1_nD(1) [OF r, of p] by (simp add: linked_1_n_def)
  with xy have "removeAll c (ch p) = xs @ ys" by simp
  moreover have "ov_association_unlink fuel ob (Some a) (Some p) (Some c) st =
      Some (unlinkage_1_n st p c (last_or None xs) (hd_or ys None))"
    using True p c t GetParent_1_n_iff [OF r t, of "Some c" p] child_macros_1_n(3,4) [OF r t p xy]
    by (simp add: ov_association_unlink_def)
  ultimately show ?thesis
    using that unlinkage_1_n_children [OF r xy] True by simp
next
  case False
  then have "ov_association_unlink fuel ob (Some a) (Some p) (Some c) st = Some st"
    using t GetParent_1_n_iff [OF r t, of "Some c" p] by (auto simp: ov_association_unlink_def)
  then show ?thesis using that r False by simp
qed

lemma place_position: "\<exists>xs ys. cs = xs @ ys \<and> place h rel c cs = xs @ c # ys"
proof (cases h)
  case OV_PMH_BEFORE
  let ?P = "\<lambda>x. rel \<noteq> Some x"
  from OV_PMH_BEFORE show ?thesis
    by (intro exI [of _ "takeWhile ?P cs"] exI [of _ "dropWhile ?P cs"]) simp
next
  case OV_PMH_AFTER
  let ?P = "\<lambda>x. rel \<noteq> Some x"
  show ?thesis
  proof (cases "dropWhile ?P cs")
    case Nil
    then have "place h rel c cs = cs @ c # []" unfolding OV_PMH_AFTER place.simps Nil by simp
    then show ?thesis by (metis append_Nil2)
  next
    case (Cons r rs)
    with OV_PMH_AFTER takeWhile_dropWhile_id [of ?P cs] show ?thesis
      by (intro exI [of _ "takeWhile ?P cs @ [r]"] exI [of _ rs]) simp
  qed
qed (auto intro: exI [of _ "[]"] exI [of _ cs])

lemma place_removeAll: "c \<notin> set cs \<Longrightarrow> removeAll c (place h rel c cs) = cs"
  using place_position [of cs h rel c] by auto

lemma place_set: "set (place h rel c cs) = insert c (set cs)"
  using place_position [of cs h rel c] by auto

lemma store_determined:
  assumes "children_1_n ob a st ch" "children_1_n ob a st' ch"
  shows "head st' = head st" "anchor st' = anchor st"
proof -
  show "head st' = head st"
    using children_1_nD(1) [OF assms(1)] children_1_nD(1) [OF assms(2)]
    by (auto simp: linked_1_n_def)
  show "anchor st' = anchor st"
  proof
    fix c
    show "anchor st' c = anchor st c"
    proof (cases "pparent (anchor st c)")
      case None
      then have "pparent (anchor st' c) = None"
        using children_1_nD(2) [OF assms(1)] children_1_nD(2) [OF assms(2)] by (metis option.exhaust)
      with None show ?thesis
        using children_1_nD(3) [OF assms(1)] children_1_nD(3) [OF assms(2)] by simp
    next
      case (Some p)
      then have c: "c \<in> set (ch p)" using children_1_nD(2) [OF assms(1)] by blast
      then obtain xs ys where xy: "ch p = xs @ c # ys" by (meson split_list)
      have "pparent (anchor st' c) = Some p" using c children_1_nD(2) [OF assms(2)] by blast
      with Some show ?thesis
        using children_1_nD(1) [OF assms(1), of p] children_1_nD(1) [OF assms(2), of p]
        by (cases "anchor st c"; cases "anchor st' c") (simp add: linked_1_n_def xy)
    qed
  qed
qed

lemma linkage_1_n_frame:
  "linkage_1_n st p c prev next = st\<lparr>head := head (linkage_1_n st p c prev next),
    anchor := anchor (linkage_1_n st p c prev next)\<rparr>"
  "unlinkage_1_n st p c prev next = st\<lparr>head := head (unlinkage_1_n st p c prev next),
    anchor := anchor (unlinkage_1_n st p c prev next)\<rparr>"
  by (auto simp: linkage_1_n_def unlinkage_1_n_def Let_def split: option.splits)

lemma link_1_n_frame:
  assumes "ov_association_link fuel ob alloc (Some a) (Some p) (Some c) ph rp ch rc st = Some (r, st')"
    and "v_assoctype a = OV_AT_ONE_TO_MANY"
  shows "st' = st\<lparr>head := head st', anchor := anchor st'\<rparr>"
  using assms linkage_1_n_frame(1) [of st p c]
  by (auto simp: ov_association_link_def link_1_n_def split: if_splits option.splits sum.splits OV_RESULT.splits)

lemma unlink_1_n_frame:
  assumes "ov_association_unlink fuel ob (Some a) (Some p) (Some c) st = Some st'"
    and "v_assoctype a = OV_AT_ONE_TO_MANY"
  shows "st' = st\<lparr>head := head st', anchor := anchor st'\<rparr>"
  using assms linkage_1_n_frame(2) [of st p c]
  by (auto simp: ov_association_unlink_def split: if_splits)

lemma link_unlink_1_n:
  assumes r: "children_1_n ob a st ch" and t: "tables_ok ob a" "v_assoctype a = OV_AT_ONE_TO_MANY"
    and f: "length (ch p) \<le> fuel"
    and link: "ov_association_link fuel ob alloc (Some a) (Some p) (Some c) ph rp hint rc st = Some (OV_ERR_OK, st')"
  shows "ov_association_unlink fuel ob (Some a) (Some p) (Some c) st' = Some st"
proof -
  obtain s where s:
    "ov_association_link fuel ob alloc (Some a) (Some p) (Some c) ph rp hint rc st =
      Some (link_result_1_n ob a ch p c ph hint rc, s)"
    "link_result_1_n ob a ch p c ph hint rc = OV_ERR_OK \<Longrightarrow>
      children_1_n ob a s (ch(p := place hint rc c (ch p)))"
    by (rule link_1_n_refines [OF r t f, of alloc c ph rp hint rc]) blast
  have res: "link_result_1_n ob a ch p c ph hint rc = OV_ERR_OK"
    and r': "children_1_n ob a st' (ch(p := place hint rc c (ch p)))"
    using s link by simp_all
  have "c \<notin> set (ch p)" using res by (auto simp: link_result_1_n_def split: if_splits)
  then have ret: "(ch(p := place hint rc c (ch p)))
      (p := removeAll c ((ch(p := place hint rc c (ch p))) p)) = ch"
    by (simp add: place_removeAll)
  obtain st'' where u: "ov_association_unlink fuel ob (Some a) (Some p) (Some c) st' = Some st''"
    "children_1_n ob a st'' ch"
    by (rule unlink_1_n_refines [OF r' t, of fuel p c, unfolded ret])
  have "st'' = st\<lparr>head := head st'', anchor := anchor st''\<rparr>"
    using link_1_n_frame [OF link t(2)] unlink_1_n_frame [OF u(1) t(2)] by (cases st; cases st'; cases st'') simp
  with store_determined [OF r u(2)] have "st'' = st" by simp
  with u(1) show ?thesis by simp
qed

lemma dolink_eq: "ov_association_dolink st p c =
    linkage_1_n st p c (plast (head st p)) None"
  by (auto simp: ov_association_dolink_def linkage_1_n_def Let_def split: option.splits)

section \<open>Counting and testing in a 1:n association\<close>

lemma count_loop_1_n:
  assumes r: "children_1_n ob a st ch" and t: "tables_ok ob a" "v_assoctype a = OV_AT_ONE_TO_MANY"
    and p: "Ov_Association_IsParentClass ob a (Some p)"
  shows "ch p = xs @ ys \<Longrightarrow> length ys \<le> fuel \<Longrightarrow>
    count_loop fuel (Ov_Association_GetNextChild ob a st) id (hd_or ys None) n = Some (n + of_nat (length ys))"
proof (induction ys arbitrary: xs fuel n)
  case Nil
  then show ?case by (simp add: count_loop.simps)
next
  case (Cons y ys)
  then obtain m where "fuel = Suc m" "length ys \<le> m" by (cases fuel) auto
  then show ?case
    using Cons.IH [of "xs @ [y]" m "n + 1"] Cons.prems child_macros_1_n(3) [OF r t p, of xs y ys]
    by (simp add: count_loop.simps [of "Suc m"] algebra_simps)
qed

lemma getchildcount_1_n:
  assumes "children_1_n ob a st ch" "tables_ok ob a" "v_assoctype a = OV_AT_ONE_TO_MANY"
    and "Ov_Association_IsParentClass ob a (Some p)" "length (ch p) \<le> fuel"
  shows "ov_association_getchildcount fuel ob a st p = Some (of_nat (length (ch p)))"
  using count_loop_1_n [OF assms(1-4), of "[]" "ch p" fuel 0] child_macros_1_n(1) [OF assms(1-4)] assms
  by (simp add: ov_association_getchildcount_def)

lemma isusedparentlink_1_n:
  assumes "children_1_n ob a st ch" "v_assoctype a = OV_AT_ONE_TO_MANY"
  shows "ov_association_isusedparentlink ob a st p \<longleftrightarrow> ch p \<noteq> []"
proof (cases "Ov_Association_IsParentClass ob a (Some p)")
  case False
  then have "ch p = []" using children_1_nD(4) [OF assms(1), of _ p] by (cases "ch p") auto
  with False show ?thesis by (simp add: ov_association_isusedparentlink_def)
qed (use children_1_nD(1) [OF assms(1), of p] assms(2) in
  \<open>simp add: ov_association_isusedparentlink_def linked_1_n_def\<close>)

lemma isusedchildlink_1_n:
  assumes "children_1_n ob a st ch" "v_assoctype a = OV_AT_ONE_TO_MANY"
  shows "ov_association_isusedchildlink ob a st c \<longleftrightarrow> (\<exists>p. c \<in> set (ch p))"
proof (cases "pparent (anchor st c)")
  case None
  have "anchor st c = \<lparr>pnext = None, pprevious = None, pparent = None\<rparr>"
    by (rule children_1_nD(3) [OF assms(1) None])
  with children_1_nD(2) [OF assms(1)] assms(2) show ?thesis
    by (simp add: ov_association_isusedchildlink_def)
next
  case (Some p)
  then have "c \<in> set (ch p)" using children_1_nD(2) [OF assms(1)] by blast
  with children_1_nD(4) [OF assms(1)] Some assms(2) show ?thesis
    by (auto simp: ov_association_isusedchildlink_def)
qed

section \<open>The interface of a 1:n association\<close>

text \<open>\<open>fuel\<close> bounds the addresses of the objects of the database, so a list of different objects is
  never longer.\<close>

definition rep_1_n :: "nat \<Rightarrow> objects \<Rightarrow> OV_ASSOC \<Rightarrow> store \<Rightarrow> (objptr \<Rightarrow> objptr list) \<Rightarrow> bool" where
  "rep_1_n fuel ob a st ch \<longleftrightarrow> children_1_n ob a st ch \<and> tables_ok ob a \<and>
    v_assoctype a = OV_AT_ONE_TO_MANY \<and> (\<forall>c. pclass_of ob c \<noteq> None \<longrightarrow> c < fuel)"

definition admits_1_n :: "objects \<Rightarrow> OV_ASSOC \<Rightarrow> (objptr \<Rightarrow> objptr list) \<Rightarrow> objptr \<Rightarrow> objptr \<Rightarrow> bool" where
  "admits_1_n ob a ch p c \<longleftrightarrow>
    Ov_Association_IsParentClass ob a (Some p) \<and> Ov_Association_IsChildClass ob a (Some c) \<and>
    (local_names a \<longrightarrow> v_identifier ob c \<notin> v_identifier ob ` set (ch p))"

text \<open>The macros \<open>Ov_Link\<close> and \<open>Ov_Unlink\<close>.\<close>

definition Ov_Link :: "nat \<Rightarrow> objects \<Rightarrow> OV_ASSOC \<Rightarrow> objptr \<Rightarrow> objptr \<Rightarrow> store \<Rightarrow> OV_RESULT \<times> store" where
  "Ov_Link fuel ob a p c st =
    the (ov_association_link fuel ob None (Some a) (Some p) (Some c) OV_PMH_DEFAULT None
        OV_PMH_DEFAULT None st)"

definition Ov_Unlink :: "nat \<Rightarrow> objects \<Rightarrow> OV_ASSOC \<Rightarrow> objptr \<Rightarrow> objptr \<Rightarrow> store \<Rightarrow> store" where
  "Ov_Unlink fuel ob a p c st = the (ov_association_unlink fuel ob (Some a) (Some p) (Some c) st)"

lemma child_is_object: "Ov_Association_IsChildClass ob a (Some c) \<Longrightarrow> pclass_of ob c \<noteq> None"
  by (auto simp: Ov_Association_IsChildClass_def cancastto_def ov_class_cancastto_def object_class_def
      split: option.splits)

lemma distinct_below_length:
  assumes "distinct xs" "\<forall>x \<in> set xs. x < (n :: nat)"
  shows "length xs \<le> n"
proof -
  have "card (set xs) \<le> card {..<n}" using assms(2) by (intro card_mono) auto
  with assms(1) show ?thesis by (simp add: distinct_card)
qed

lemma rep_1_n_length:
  assumes "rep_1_n fuel ob a st ch"
  shows "length (ch p) \<le> fuel"
proof (rule distinct_below_length)
  show "distinct (ch p)"
    using assms children_1_nD(1) by (auto simp: rep_1_n_def linked_1_n_def)
  show "\<forall>c \<in> set (ch p). c < fuel"
    using assms children_1_nD(4) child_is_object unfolding rep_1_n_def by blast
qed

lemma Ov_Link_value:
  assumes r: "rep_1_n fuel ob a st ch"
  obtains st' where "Ov_Link fuel ob a p c st =
      (link_result_1_n ob a ch p c OV_PMH_DEFAULT OV_PMH_DEFAULT None, st')"
    "link_result_1_n ob a ch p c OV_PMH_DEFAULT OV_PMH_DEFAULT None = OV_ERR_OK \<Longrightarrow>
      rep_1_n fuel ob a st' (ch(p := ch p @ [c]))"
    "link_result_1_n ob a ch p c OV_PMH_DEFAULT OV_PMH_DEFAULT None \<noteq> OV_ERR_OK \<Longrightarrow> st' = st"
proof -
  have c: "children_1_n ob a st ch" "tables_ok ob a" "v_assoctype a = OV_AT_ONE_TO_MANY"
    using r by (simp_all add: rep_1_n_def)
  obtain s where s: "ov_association_link fuel ob None (Some a) (Some p) (Some c) OV_PMH_DEFAULT None
      OV_PMH_DEFAULT None st = Some (link_result_1_n ob a ch p c OV_PMH_DEFAULT OV_PMH_DEFAULT None, s)"
    "link_result_1_n ob a ch p c OV_PMH_DEFAULT OV_PMH_DEFAULT None = OV_ERR_OK \<Longrightarrow>
      children_1_n ob a s (ch(p := place OV_PMH_DEFAULT None c (ch p)))"
    "link_result_1_n ob a ch p c OV_PMH_DEFAULT OV_PMH_DEFAULT None \<noteq> OV_ERR_OK \<Longrightarrow> s = st"
    by (rule link_1_n_refines [OF c rep_1_n_length [OF r]]) blast
  show ?thesis
    by (rule that [of s]) (use s r in \<open>auto simp: Ov_Link_def rep_1_n_def\<close>)
qed

lemma link_result_default_OK:
  "link_result_1_n ob a ch p c OV_PMH_DEFAULT OV_PMH_DEFAULT None = OV_ERR_OK \<longleftrightarrow>
    (\<forall>q. c \<notin> set (ch q)) \<and> admits_1_n ob a ch p c"
  by (auto simp: link_result_1_n_def admits_1_n_def)

lemma Ov_Unlink_rep:
  assumes r: "rep_1_n fuel ob a st ch"
  shows "rep_1_n fuel ob a (Ov_Unlink fuel ob a p c st) (ch(p := removeAll c (ch p)))"
proof -
  have c: "children_1_n ob a st ch" "tables_ok ob a" "v_assoctype a = OV_AT_ONE_TO_MANY"
    using r by (simp_all add: rep_1_n_def)
  obtain s where "ov_association_unlink fuel ob (Some a) (Some p) (Some c) st = Some s"
    "children_1_n ob a s (ch(p := removeAll c (ch p)))"
    by (rule unlink_1_n_refines [OF c]) blast
  with r show ?thesis by (simp add: Ov_Unlink_def rep_1_n_def)
qed

interpretation assoc_1_n: ordered_children "rep_1_n fuel ob a" "admits_1_n ob a"
  "Ov_Link fuel ob a" "Ov_Unlink fuel ob a" for fuel ob a
proof unfold_locales
  fix s ch p q c
  assume r: "rep_1_n fuel ob a s ch"
  show "c \<in> set (ch p) \<Longrightarrow> c \<in> set (ch q) \<Longrightarrow> p = q"
    using r children_1_nD(2) unfolding rep_1_n_def by (metis option.inject)
  show "distinct (ch p)"
    using r children_1_nD(1) by (auto simp: rep_1_n_def linked_1_n_def)
  show "rep_1_n fuel ob a (Ov_Unlink fuel ob a p c s) (ch(p := removeAll c (ch p)))"
    by (rule Ov_Unlink_rep [OF r])
  show "\<exists>s'. Ov_Link fuel ob a p c s = (OV_ERR_OK, s') \<and> rep_1_n fuel ob a s' (ch(p := ch p @ [c]))"
    if "\<forall>q. c \<notin> set (ch q)" "admits_1_n ob a ch p c"
    by (rule Ov_Link_value [OF r, of p c]) (use that in \<open>auto simp: link_result_default_OK\<close>)
  show "\<exists>r. r \<noteq> OV_ERR_OK \<and> Ov_Link fuel ob a p c s = (r, s)"
    if "\<not> ((\<forall>q. c \<notin> set (ch q)) \<and> admits_1_n ob a ch p c)"
    by (rule Ov_Link_value [OF r, of p c]) (use that in \<open>auto simp: link_result_default_OK\<close>)
qed

section \<open>Properties of 1:n associations\<close>

text \<open>The cast test of the classes answers exactly whether the target is the class itself or one
  of its base classes, and it ends whenever the hierarchy is not deeper than the classes counted.\<close>

lemma cancastto_is_base_class:
  assumes "lineage base (c # cs)" "length (c # cs) \<le> fuel"
  shows "ov_class_cancastto fuel base (Some c) (Some d) = Some (d \<in> set (c # cs))"
  using assms by (rule cancastto_lineage)

definition demo_objects :: objects where
  "demo_objects = \<lparr>pclass_of = (\<lambda>p. if p < 10 then Some 1 else None), baseclass = (\<lambda>_. None),
     class_count = 2, v_identifier = (\<lambda>p. replicate p CHR ''x''), has_linktable = (\<lambda>_. True)\<rparr>"

definition demo_assoc :: OV_ASSOC where
  "demo_assoc = \<lparr>v_assoctype = OV_AT_ONE_TO_MANY, v_assocprops = OV_AP_LOCAL,
     parentclass = Some 1, childclass = Some 1\<rparr>"

definition empty_store :: store where
  "empty_store = \<lparr>child_slot = (\<lambda>_. None), parent_slot = (\<lambda>_. None),
     head = (\<lambda>_. \<lparr>pfirst = None, plast = None\<rparr>),
     anchor = (\<lambda>_. \<lparr>pnext = None, pprevious = None, pparent = None\<rparr>),
     parent_nmhead = (\<lambda>_. \<lparr>nm_pfirst = None, nm_plast = None\<rparr>),
     child_nmhead = (\<lambda>_. \<lparr>nm_pfirst = None, nm_plast = None\<rparr>),
     nmlink = (\<lambda>_. \<lparr>parent_pnext = None, parent_pprevious = None, parent_pparent = None,
       child_pnext = None, child_pprevious = None, child_pchild = None\<rparr>),
     allocated = (\<lambda>_. False)\<rparr>"

lemma empty_children: "children_1_n ob a empty_store (\<lambda>_. [])"
  by (simp add: children_1_n_def linked_1_n_def empty_store_def)

lemma demo_classes [simp]:
  "Ov_Association_IsParentClass demo_objects demo_assoc (Some p) \<longleftrightarrow> p < 10"
  "Ov_Association_IsChildClass demo_objects demo_assoc (Some p) \<longleftrightarrow> p < 10"
  by (simp_all add: Ov_Association_IsParentClass_def Ov_Association_IsChildClass_def cancastto_def
      ov_class_cancastto_def object_class_def demo_objects_def demo_assoc_def numeral_2_eq_2)

lemma demo_tables: "tables_ok demo_objects demo_assoc" "v_assoctype demo_assoc = OV_AT_ONE_TO_MANY"
  by (simp_all add: tables_ok_def demo_objects_def demo_assoc_def)

text \<open>Parent 1 with the children 2 and 3.\<close>

definition demo_children :: "objptr \<Rightarrow> objptr list" where
  "demo_children p = (if p = 1 then [2, 3] else [])"

definition demo_store :: store where
  "demo_store = linkage_1_n (linkage_1_n empty_store 1 2 None None) 1 3 (Some 2) None"

lemma demo_store_children: "children_1_n demo_objects demo_assoc demo_store demo_children"
proof -
  have id: "inj (v_identifier demo_objects)" by (rule injI) (simp add: demo_objects_def)
  have "children_1_n demo_objects demo_assoc (linkage_1_n empty_store 1 2 None None) ((\<lambda>_. [])(1 := [2]))"
    using linkage_1_n_children [OF empty_children, where p = 1 and xs = "[]" and ys = "[]" and c = 2
        and ob = demo_objects and a = demo_assoc]
    by (simp add: empty_store_def)
  from linkage_1_n_children [OF this, where p = 1 and xs = "[2]" and ys = "[]" and c = 3]
  have "children_1_n demo_objects demo_assoc demo_store ((\<lambda>_. [])(1 := [2], 1 := [2, 3]))"
    using id by (simp add: demo_store_def linkage_1_n_anchor empty_store_def inj_eq)
  moreover have "(\<lambda>_. [])(1 := [2], 1 := [2, 3]) = demo_children"
    by (auto simp: demo_children_def)
  ultimately show ?thesis by simp
qed

lemma demo_link_first:
  "ov_association_link 9 demo_objects None (Some demo_assoc) (Some 1) (Some 2) OV_PMH_DEFAULT None
    OV_PMH_DEFAULT None empty_store = Some (OV_ERR_OK, linkage_1_n empty_store 1 2 None None)"
  by (simp add: ov_association_link_def link_conditions_def link_conditions_1_n_def demo_tables
      Ov_Association_GetParent_def ov_association_searchchild_def Ov_Association_GetFirstChild_def
      Ov_Association_GetLastChild_def Ov_Association_GetNextChild_def table_entry_def link_1_n_def
      parent_placement_1_n_def child_placement_1_n_def child_neighbours_1_n_def empty_store_def)

text \<open>C8: Linking in a 1:n association refines insertion into the parent's ordered list of children.
  The call always returns; its result code is the one the conditions of the association, the
  name scope and the placement hints demand; on success the store represents the same lists with
  the child at the hinted place and every pointer consistent; on failure nothing changes.\<close>

theorem link_refines_insertion:
  assumes "children_1_n ob a st ch" "tables_ok ob a" "v_assoctype a = OV_AT_ONE_TO_MANY"
    and "length (ch p) \<le> fuel"
  shows "\<exists>st'. ov_association_link fuel ob alloc (Some a) (Some p) (Some c) ph rp hint rc st =
      Some (link_result_1_n ob a ch p c ph hint rc, st') \<and>
    (if link_result_1_n ob a ch p c ph hint rc = OV_ERR_OK
     then children_1_n ob a st' (ch(p := place hint rc c (ch p))) else st' = st)"
  by (rule link_1_n_refines [OF assms, of alloc c ph rp hint rc]) auto

theorem link_refines_insertion_witness:
  "\<exists>st'. ov_association_link 9 demo_objects None (Some demo_assoc) (Some 1) (Some 4)
      OV_PMH_DEFAULT None OV_PMH_BEFORE (Some 3) demo_store = Some (OV_ERR_OK, st') \<and>
    children_1_n demo_objects demo_assoc st' (demo_children(1 := [2, 4, 3]))"
proof -
  have "link_result_1_n demo_objects demo_assoc demo_children 1 4 OV_PMH_DEFAULT OV_PMH_BEFORE (Some 3)
      = OV_ERR_OK"
    by (auto simp: link_result_1_n_def demo_children_def demo_objects_def demo_classes
        [unfolded demo_objects_def])
  moreover have "place OV_PMH_BEFORE (Some 3) 4 (demo_children 1) = [2, 4, 3]"
    by (simp add: demo_children_def)
  moreover have "length (demo_children 1) \<le> 9" by (simp add: demo_children_def)
  ultimately show ?thesis
    using link_refines_insertion [OF demo_store_children demo_tables, of 1 9 None 4 OV_PMH_DEFAULT None
        OV_PMH_BEFORE "Some 3"] by simp
qed

text \<open>C9: Unlinking takes the child out of the parent's list, keeps the order of the others, resets
  the child's anchor and repairs the neighbours; a pair that is not linked is left as it is.\<close>

theorem unlink_refines_removal:
  assumes "children_1_n ob a st ch" "tables_ok ob a" "v_assoctype a = OV_AT_ONE_TO_MANY"
  shows "\<exists>st'. ov_association_unlink fuel ob (Some a) (Some p) (Some c) st = Some st' \<and>
    children_1_n ob a st' (ch(p := removeAll c (ch p))) \<and> (c \<in> set (ch p) \<or> st' = st)"
  by (rule unlink_1_n_refines [OF assms, of fuel p c]) auto

theorem unlink_refines_removal_witness:
  "\<exists>st'. ov_association_unlink 0 demo_objects (Some demo_assoc) (Some 1) (Some 2) demo_store = Some st' \<and>
    children_1_n demo_objects demo_assoc st' (demo_children(1 := [3]))"
  using unlink_refines_removal [OF demo_store_children demo_tables, of 0 1 2]
  by (auto simp: demo_children_def)

text \<open>Unlinking undoes a successful link completely, wherever the child was placed: the store is
  the one before.\<close>

lemma link_unlink_roundtrip:
  assumes "children_1_n ob a st ch" "tables_ok ob a" "v_assoctype a = OV_AT_ONE_TO_MANY"
    and "length (ch p) \<le> fuel"
    and "ov_association_link fuel ob alloc (Some a) (Some p) (Some c) ph rp hint rc st = Some (OV_ERR_OK, st')"
  shows "ov_association_unlink fuel ob (Some a) (Some p) (Some c) st' = Some st"
  using assms by (rule link_unlink_1_n)

text \<open>Reading a 1:n association: the search by name finds the child with that name, if there is
  one (in a local name scope it is unique), the count is the number of children modulo
  \<open>2^32\<close>, and the two usage tests say whether a parent has children and a child a parent.\<close>

lemma children_read:
  assumes "children_1_n ob a st ch" "tables_ok ob a" "v_assoctype a = OV_AT_ONE_TO_MANY"
    and "Ov_Association_IsParentClass ob a (Some p)" "length (ch p) \<le> fuel" "local_names a"
  shows "ov_association_searchchild fuel ob (Some a) st (Some p) (Some ident) =
      Some (find (\<lambda>c. v_identifier ob c = ident) (ch p)) \<and>
    distinct (map (v_identifier ob) (ch p)) \<and>
    ov_association_getchildcount fuel ob a st p = Some (of_nat (length (ch p))) \<and>
    (ov_association_isusedparentlink ob a st p \<longleftrightarrow> ch p \<noteq> []) \<and>
    (ov_association_isusedchildlink ob a st c \<longleftrightarrow> (\<exists>q. c \<in> set (ch q)))"
  using searchchild_1_n [OF assms(1-4,6,5)] children_1_nD(5) [OF assms(1,6)] getchildcount_1_n [OF assms(1-5)]
    isusedparentlink_1_n [OF assms(1,3)] isusedchildlink_1_n [OF assms(1,3)] by simp

text \<open>The unchecked linking of the meta model does exactly what the checked one does with the
  default placement, whenever the checked one accepts the pair.\<close>

lemma dolink_is_link:
  assumes "children_1_n ob a st ch" "tables_ok ob a" "v_assoctype a = OV_AT_ONE_TO_MANY"
    and "Ov_Association_IsParentClass ob a (Some p)"
    and "ov_association_link fuel ob alloc (Some a) (Some p) (Some c) OV_PMH_DEFAULT None OV_PMH_DEFAULT None st
      = Some (OV_ERR_OK, st')"
  shows "st' = ov_association_dolink st p c"
proof -
  note m = child_macros_1_n [OF assms(1-4)]
  have none: "Ov_Association_GetNextChild ob a st None = None"
    by (simp add: Ov_Association_GetNextChild_def table_entry_def)
  have "plast (head st p) = last_or None (ch p)"
    using children_1_nD(1) [OF assms(1), of p] by (simp add: linked_1_n_def)
  moreover have "Ov_Association_GetNextChild ob a st (last_or None (ch p)) = None"
    using none m(3) [of "butlast (ch p)" "last (ch p)" "[]"] by (cases "ch p" rule: rev_cases) simp_all
  ultimately show ?thesis
    using assms(3-5) m(2)
    by (auto simp: ov_association_link_def link_1_n_def dolink_eq parent_placement_1_n_def
        child_placement_1_n_def child_neighbours_1_n_def split: if_splits option.splits OV_RESULT.splits)
qed

text \<open>Moving a child: unlinking it from its parent and linking it to another one (or to the same)
  puts it at the end of the new parent's list, whatever the history of the store was, and changes
  no other list.\<close>

lemma move_child:
  assumes "rep_1_n fuel ob a st ch" "c \<in> set (ch p)" "admits_1_n ob a (ch(p := removeAll c (ch p))) q c"
  shows "\<exists>st'. Ov_Link fuel ob a q c (Ov_Unlink fuel ob a p c st) = (OV_ERR_OK, st') \<and>
    rep_1_n fuel ob a st' (ch(p := removeAll c (ch p), q := (ch(p := removeAll c (ch p))) q @ [c]))"
  using assms by (rule assoc_1_n.relink)

end
