(* ===== verification/OvAssociationNM.thy ===== *)
theory OvAssociationNM
  imports OvAssociation
begin

text \<open>
  The n:m associations of ov_association.c: every link object is in two doubly linked lists, the
  list of its parent and the list of its child. \<open>links_n_m\<close> relates the store to the two families
  of lists; the lemmas show what link and unlink do to both.
\<close>

section \<open>What the store represents\<close>

abbreviation parent_list :: "store \<Rightarrow> objptr \<Rightarrow> linkptr list \<Rightarrow> bool" where
  "parent_list st p ls \<equiv> dll (\<lambda>l. parent_pnext (nmlink st l)) (\<lambda>l. parent_pprevious (nmlink st l))
    (nm_pfirst (parent_nmhead st p)) (nm_plast (parent_nmhead st p)) ls"

abbreviation child_list :: "store \<Rightarrow> objptr \<Rightarrow> linkptr list \<Rightarrow> bool" where
  "child_list st c ls \<equiv> dll (\<lambda>l. child_pnext (nmlink st l)) (\<lambda>l. child_pprevious (nmlink st l))
    (nm_pfirst (child_nmhead st c)) (nm_plast (child_nmhead st c)) ls"

definition links_n_m :: "objects \<Rightarrow> OV_ASSOC \<Rightarrow> store \<Rightarrow> (objptr \<Rightarrow> linkptr list) \<Rightarrow> (objptr \<Rightarrow> linkptr list) \<Rightarrow> bool" where
  "links_n_m ob a st lp lc \<longleftrightarrow>
    (\<forall>p. parent_list st p (lp p)) \<and> (\<forall>c. child_list st c (lc c)) \<and>
    (\<forall>l p. l \<in> set (lp p) \<longleftrightarrow> allocated st l \<and> parent_pparent (nmlink st l) = Some p) \<and>
    (\<forall>l c. l \<in> set (lc c) \<longleftrightarrow> allocated st l \<and> child_pchild (nmlink st l) = Some c) \<and>
    (\<forall>l. allocated st l \<longrightarrow> (\<exists>p c. parent_pparent (nmlink st l) = Some p \<and> child_pchild (nmlink st l) = Some c \<and>
       Ov_Association_IsParentClass ob a (Some p) \<and> Ov_Association_IsChildClass ob a (Some c))) \<and>
    (\<forall>p. distinct (map (\<lambda>l. child_pchild (nmlink st l)) (lp p)))"

lemma links_n_mD:
  assumes "links_n_m ob a st lp lc"
  shows "parent_list st p (lp p)" "child_list st c (lc c)"
    and "l \<in> set (lp p) \<longleftrightarrow> allocated st l \<and> parent_pparent (nmlink st l) = Some p"
    and "l \<in> set (lc c) \<longleftrightarrow> allocated st l \<and> child_pchild (nmlink st l) = Some c"
    and "allocated st l \<Longrightarrow> \<exists>p c. parent_pparent (nmlink st l) = Some p \<and> child_pchild (nmlink st l) = Some c \<and>
       Ov_Association_IsParentClass ob a (Some p) \<and> Ov_Association_IsChildClass ob a (Some c)"
    and "distinct (map (\<lambda>l. child_pchild (nmlink st l)) (lp p))"
  using assms unfolding links_n_m_def by blast+

section \<open>The linkage\<close>

lemma set_nmlinks [simp]:
  "nmlink (set_next_child o1 p v st) x =
    (if o1 = Some x then (nmlink st x)\<lparr>parent_pnext := v\<rparr> else nmlink st x)"
  "nmlink (set_previous_child o1 p v st) x =
    (if o1 = Some x then (nmlink st x)\<lparr>parent_pprevious := v\<rparr> else nmlink st x)"
  "nmlink (set_next_parent o1 p v st) x =
    (if o1 = Some x then (nmlink st x)\<lparr>child_pnext := v\<rparr> else nmlink st x)"
  "nmlink (set_previous_parent o1 p v st) x =
    (if o1 = Some x then (nmlink st x)\<lparr>child_pprevious := v\<rparr> else nmlink st x)"
  by (cases o1; simp add: set_next_child_def set_previous_child_def set_next_parent_def set_previous_parent_def)+

lemma set_parent_heads [simp]:
  "parent_nmhead (set_next_child o1 p v st) q =
    (if q = p \<and> o1 = None then (parent_nmhead st q)\<lparr>nm_pfirst := v\<rparr> else parent_nmhead st q)"
  "parent_nmhead (set_previous_child o1 p v st) q =
    (if q = p \<and> o1 = None then (parent_nmhead st q)\<lparr>nm_plast := v\<rparr> else parent_nmhead st q)"
  "parent_nmhead (set_next_parent o1 p v st) = parent_nmhead st"
  "parent_nmhead (set_previous_parent o1 p v st) = parent_nmhead st"
  by (cases o1; simp add: set_next_child_def set_previous_child_def set_next_parent_def set_previous_parent_def)+

lemma set_child_heads [simp]:
  "child_nmhead (set_next_child o1 p v st) = child_nmhead st"
  "child_nmhead (set_previous_child o1 p v st) = child_nmhead st"
  "child_nmhead (set_next_parent o1 p v st) q =
    (if q = p \<and> o1 = None then (child_nmhead st q)\<lparr>nm_pfirst := v\<rparr> else child_nmhead st q)"
  "child_nmhead (set_previous_parent o1 p v st) q =
    (if q = p \<and> o1 = None then (child_nmhead st q)\<lparr>nm_plast := v\<rparr> else child_nmhead st q)"
  by (cases o1; simp add: set_next_child_def set_previous_child_def set_next_parent_def set_previous_parent_def)+

lemma set_allocated [simp]:
  "allocated (set_next_child o1 p v st) = allocated st"
  "allocated (set_previous_child o1 p v st) = allocated st"
  "allocated (set_next_parent o1 p v st) = allocated st"
  "allocated (set_previous_parent o1 p v st) = allocated st"
  by (cases o1; simp add: set_next_child_def set_previous_child_def set_next_parent_def set_previous_parent_def)+

lemma linkage_n_m_nmlink:
  "nmlink (linkage_n_m st p c l prevc nextc prevp nextp) x =
    (if x = l then \<lparr>parent_pnext = nextc, parent_pprevious = prevc, parent_pparent = Some p,
       child_pnext = nextp, child_pprevious = prevp, child_pchild = Some c\<rparr>
     else (nmlink st x)\<lparr>parent_pnext := if prevc = Some x then Some l else parent_pnext (nmlink st x),
       parent_pprevious := if nextc = Some x then Some l else parent_pprevious (nmlink st x),
       child_pnext := if prevp = Some x then Some l else child_pnext (nmlink st x),
       child_pprevious := if nextp = Some x then Some l else child_pprevious (nmlink st x)\<rparr>)"
  by (simp add: linkage_n_m_def Let_def)

lemma linkage_n_m_heads:
  "nm_pfirst (parent_nmhead (linkage_n_m st p c l prevc nextc prevp nextp) q) =
    (if q = p \<and> prevc = None then Some l else nm_pfirst (parent_nmhead st q))"
  "nm_plast (parent_nmhead (linkage_n_m st p c l prevc nextc prevp nextp) q) =
    (if q = p \<and> nextc = None then Some l else nm_plast (parent_nmhead st q))"
  "nm_pfirst (child_nmhead (linkage_n_m st p c l prevc nextc prevp nextp) d) =
    (if d = c \<and> prevp = None then Some l else nm_pfirst (child_nmhead st d))"
  "nm_plast (child_nmhead (linkage_n_m st p c l prevc nextc prevp nextp) d) =
    (if d = c \<and> nextp = None then Some l else nm_plast (child_nmhead st d))"
  "allocated (linkage_n_m st p c l prevc nextc prevp nextp) = (allocated st)(l := True)"
  by (simp_all add: linkage_n_m_def Let_def)

lemma linkage_n_m_links:
  assumes r: "links_n_m ob a st lp lc" and p: "lp p = xs @ ys" and c: "lc c = us @ vs"
    and new: "\<not> allocated st l"
    and cls: "Ov_Association_IsParentClass ob a (Some p)" "Ov_Association_IsChildClass ob a (Some c)"
    and once: "Some c \<notin> (\<lambda>l. child_pchild (nmlink st l)) ` set (lp p)"
  shows "links_n_m ob a (linkage_n_m st p c l (last_or None xs) (hd_or ys None) (last_or None us) (hd_or vs None))
    (lp(p := xs @ l # ys)) (lc(c := us @ l # vs))"
proof -
  let ?st = "linkage_n_m st p c l (last_or None xs) (hd_or ys None) (last_or None us) (hd_or vs None)"
  have np: "l \<notin> set (lp q)" and nc: "l \<notin> set (lc d)" for q d
    using new links_n_mD(3,4) [OF r] by blast+
  have lx: "l \<notin> set (xs @ ys)" "l \<notin> set (us @ vs)" using np [of p] nc [of c] p c by simp_all
  note nm = linkage_n_m_nmlink and hd = linkage_n_m_heads
  have par: "parent_pparent (nmlink ?st x) = (if x = l then Some p else parent_pparent (nmlink st x))"
    and chi: "child_pchild (nmlink ?st x) = (if x = l then Some c else child_pchild (nmlink st x))" for x
    by (simp_all add: nm)
  have pdll: "parent_list st p (xs @ ys)" and cdll: "child_list st c (us @ vs)"
    using links_n_mD(1) [OF r, of p] links_n_mD(2) [OF r, of c] p c by simp_all
  have "parent_list ?st p (xs @ l # ys)"
    by (rule dll_insert [OF pdll lx(1)]) (use lx in \<open>auto simp: nm hd\<close>)
  moreover have "parent_list ?st q (lp q)" if "q \<noteq> p" for q
  proof -
    have disj: "x \<notin> set (xs @ ys)" if "x \<in> set (lp q)" for x
      using that \<open>q \<noteq> p\<close> links_n_mD(3) [OF r] p by (metis option.inject)
    have "parent_list ?st q (lp q) = dll (\<lambda>l. parent_pnext (nmlink st l)) (\<lambda>l. parent_pprevious (nmlink st l))
        (nm_pfirst (parent_nmhead ?st q)) (nm_plast (parent_nmhead ?st q)) (lp q)"
      by (rule dll_cong) (use ends_not_in [OF disj] np in \<open>simp add: nm; blast\<close>)
    with that links_n_mD(1) [OF r, of q] show ?thesis by (simp add: hd)
  qed
  moreover have "child_list ?st c (us @ l # vs)"
    by (rule dll_insert [OF cdll lx(2)]) (use lx in \<open>auto simp: nm hd\<close>)
  moreover have "child_list ?st d (lc d)" if "d \<noteq> c" for d
  proof -
    have disj: "x \<notin> set (us @ vs)" if "x \<in> set (lc d)" for x
      using that \<open>d \<noteq> c\<close> links_n_mD(4) [OF r] c by (metis option.inject)
    have "child_list ?st d (lc d) = dll (\<lambda>l. child_pnext (nmlink st l)) (\<lambda>l. child_pprevious (nmlink st l))
        (nm_pfirst (child_nmhead ?st d)) (nm_plast (child_nmhead ?st d)) (lc d)"
      by (rule dll_cong) (use ends_not_in [OF disj] nc in \<open>simp add: nm; blast\<close>)
    with that links_n_mD(2) [OF r, of d] show ?thesis by (simp add: hd)
  qed
  moreover have "x \<in> set ((lp(p := xs @ l # ys)) q) \<longleftrightarrow> allocated ?st x \<and> parent_pparent (nmlink ?st x) = Some q" for x q
  proof -
    have "x \<in> set ((lp(p := xs @ l # ys)) q) \<longleftrightarrow> x = l \<and> q = p \<or> x \<in> set (lp q)" using p by auto
    with links_n_mD(3) [OF r, of x q] new show ?thesis by (auto simp: hd par)
  qed
  moreover have "x \<in> set ((lc(c := us @ l # vs)) d) \<longleftrightarrow> allocated ?st x \<and> child_pchild (nmlink ?st x) = Some d" for x d
  proof -
    have "x \<in> set ((lc(c := us @ l # vs)) d) \<longleftrightarrow> x = l \<and> d = c \<or> x \<in> set (lc d)" using c by auto
    with links_n_mD(4) [OF r, of x d] new show ?thesis by (auto simp: hd chi)
  qed
  moreover have "\<exists>q d. parent_pparent (nmlink ?st x) = Some q \<and> child_pchild (nmlink ?st x) = Some d \<and>
      Ov_Association_IsParentClass ob a (Some q) \<and> Ov_Association_IsChildClass ob a (Some d)"
    if "allocated ?st x" for x
    using that links_n_mD(5) [OF r, of x] cls by (simp add: hd par chi split: if_splits)
  moreover have "distinct (map (\<lambda>l. child_pchild (nmlink ?st l)) ((lp(p := xs @ l # ys)) q))" for q
  proof -
    have keep: "map (\<lambda>l. child_pchild (nmlink ?st l)) ls = map (\<lambda>l. child_pchild (nmlink st l)) ls"
      if "l \<notin> set ls" for ls using that by (auto simp: chi)
    show ?thesis
    proof (cases "q = p")
      case True
      have eq: "map (\<lambda>l. child_pchild (nmlink ?st l)) (xs @ l # ys) =
          map (\<lambda>l. child_pchild (nmlink st l)) xs @ Some c # map (\<lambda>l. child_pchild (nmlink st l)) ys"
        using keep [of xs] keep [of ys] lx chi [of l] by simp
      have "distinct (map (\<lambda>l. child_pchild (nmlink ?st l)) (xs @ l # ys))"
        unfolding eq using links_n_mD(6) [OF r, of p] p once by auto
      with True show ?thesis by (simp only: fun_upd_same)
    next
      case False
      have "distinct (map (\<lambda>l. child_pchild (nmlink ?st l)) (lp q))"
        unfolding keep [OF np] by (rule links_n_mD(6) [OF r])
      then show ?thesis unfolding fun_upd_other [OF False] .
    qed
  qed
  ultimately show ?thesis unfolding links_n_m_def by simp
qed

lemma unlinkage_n_m_nmlink:
  "nmlink (unlinkage_n_m st p c l prevc nextc prevp nextp) x =
    (nmlink st x)\<lparr>parent_pnext := if prevc = Some x then nextc else parent_pnext (nmlink st x),
       parent_pprevious := if nextc = Some x then prevc else parent_pprevious (nmlink st x),
       child_pnext := if prevp = Some x then nextp else child_pnext (nmlink st x),
       child_pprevious := if nextp = Some x then prevp else child_pprevious (nmlink st x)\<rparr>"
  by (simp add: unlinkage_n_m_def Let_def)

lemma unlinkage_n_m_heads:
  "nm_pfirst (parent_nmhead (unlinkage_n_m st p c l prevc nextc prevp nextp) q) =
    (if q = p \<and> prevc = None then nextc else nm_pfirst (parent_nmhead st q))"
  "nm_plast (parent_nmhead (unlinkage_n_m st p c l prevc nextc prevp nextp) q) =
    (if q = p \<and> nextc = None then prevc else nm_plast (parent_nmhead st q))"
  "nm_pfirst (child_nmhead (unlinkage_n_m st p c l prevc nextc prevp nextp) d) =
    (if d = c \<and> prevp = None then nextp else nm_pfirst (child_nmhead st d))"
  "nm_plast (child_nmhead (unlinkage_n_m st p c l prevc nextc prevp nextp) d) =
    (if d = c \<and> nextp = None then prevp else nm_plast (child_nmhead st d))"
  "allocated (unlinkage_n_m st p c l prevc nextc prevp nextp) = (allocated st)(l := False)"
  by (simp_all add: unlinkage_n_m_def Let_def)

lemma unlinkage_n_m_links:
  assumes r: "links_n_m ob a st lp lc" and p: "lp p = xs @ l # ys" and c: "lc c = us @ l # vs"
  shows "links_n_m ob a (unlinkage_n_m st p c l (last_or None xs) (hd_or ys None) (last_or None us) (hd_or vs None))
    (lp(p := xs @ ys)) (lc(c := us @ vs))"
proof -
  let ?st = "unlinkage_n_m st p c l (last_or None xs) (hd_or ys None) (last_or None us) (hd_or vs None)"
  note nm = unlinkage_n_m_nmlink and hd = unlinkage_n_m_heads
  have par: "parent_pparent (nmlink ?st x) = parent_pparent (nmlink st x)"
    and chi: "child_pchild (nmlink ?st x) = child_pchild (nmlink st x)" for x
    by (simp_all add: nm)
  have pdll: "parent_list st p (xs @ l # ys)" and cdll: "child_list st c (us @ l # vs)"
    using links_n_mD(1) [OF r, of p] links_n_mD(2) [OF r, of c] p c by simp_all
  note dist = dll_ends [OF pdll] dll_ends [OF cdll]
  have "l \<in> set (lp p)" "l \<in> set (lc c)" using p c by simp_all
  then have l: "allocated st l" "parent_pparent (nmlink st l) = Some p" "child_pchild (nmlink st l) = Some c"
    using links_n_mD(3,4) [OF r] by blast+
  have lp: "l \<in> set (lp q) \<longleftrightarrow> q = p" and lc: "l \<in> set (lc d) \<longleftrightarrow> d = c" for q d
    unfolding links_n_mD(3,4) [OF r] using l by auto
  have "parent_list ?st p (xs @ ys)"
    by (rule dll_remove [OF pdll]) (use dist in \<open>auto simp: nm hd\<close>)
  moreover have "parent_list ?st q (lp q)" if "q \<noteq> p" for q
  proof -
    have disj: "x \<notin> set (xs @ ys)" if "x \<in> set (lp q)" for x
    proof -
      have "parent_pparent (nmlink st x) = Some q" using that links_n_mD(3) [OF r, of x q] by blast
      then have "x \<notin> set (lp p)" using \<open>q \<noteq> p\<close> links_n_mD(3) [OF r, of x p] by simp
      then show ?thesis by (simp add: p)
    qed
    have "parent_list ?st q (lp q) = dll (\<lambda>l. parent_pnext (nmlink st l)) (\<lambda>l. parent_pprevious (nmlink st l))
        (nm_pfirst (parent_nmhead ?st q)) (nm_plast (parent_nmhead ?st q)) (lp q)"
      by (rule dll_cong) (use ends_not_in [OF disj] in \<open>simp add: nm\<close>)
    with that links_n_mD(1) [OF r, of q] show ?thesis by (simp add: hd)
  qed
  moreover have "child_list ?st c (us @ vs)"
    by (rule dll_remove [OF cdll]) (use dist in \<open>auto simp: nm hd\<close>)
  moreover have "child_list ?st d (lc d)" if "d \<noteq> c" for d
  proof -
    have disj: "x \<notin> set (us @ vs)" if "x \<in> set (lc d)" for x
    proof -
      have "child_pchild (nmlink st x) = Some d" using that links_n_mD(4) [OF r, of x d] by blast
      then have "x \<notin> set (lc c)" using \<open>d \<noteq> c\<close> links_n_mD(4) [OF r, of x c] by simp
      then show ?thesis by (simp add: c)
    qed
    have "child_list ?st d (lc d) = dll (\<lambda>l. child_pnext (nmlink st l)) (\<lambda>l. child_pprevious (nmlink st l))
        (nm_pfirst (child_nmhead ?st d)) (nm_plast (child_nmhead ?st d)) (lc d)"
      by (rule dll_cong) (use ends_not_in [OF disj] in \<open>simp add: nm\<close>)
    with that links_n_mD(2) [OF r, of d] show ?thesis by (simp add: hd)
  qed
  moreover have "x \<in> set ((lp(p := xs @ ys)) q) \<longleftrightarrow> allocated ?st x \<and> parent_pparent (nmlink ?st x) = Some q" for x q
  proof -
    have "x \<in> set ((lp(p := xs @ ys)) q) \<longleftrightarrow> x \<noteq> l \<and> x \<in> set (lp q)" using p lp dist by auto
    with links_n_mD(3) [OF r, of x q] show ?thesis by (auto simp: hd par)
  qed
  moreover have "x \<in> set ((lc(c := us @ vs)) d) \<longleftrightarrow> allocated ?st x \<and> child_pchild (nmlink ?st x) = Some d" for x d
  proof -
    have "x \<in> set ((lc(c := us @ vs)) d) \<longleftrightarrow> x \<noteq> l \<and> x \<in> set (lc d)" using c lc dist by auto
    with links_n_mD(4) [OF r, of x d] show ?thesis by (auto simp: hd chi)
  qed
  moreover have "\<exists>q d. parent_pparent (nmlink ?st x) = Some q \<and> child_pchild (nmlink ?st x) = Some d \<and>
      Ov_Association_IsParentClass ob a (Some q) \<and> Ov_Association_IsChildClass ob a (Some d)"
    if "allocated ?st x" for x
    using that links_n_mD(5) [OF r, of x] by (simp add: hd par chi split: if_splits)
  moreover have "distinct (map (\<lambda>l. child_pchild (nmlink ?st l)) ((lp(p := xs @ ys)) q))" for q
    using links_n_mD(6) [OF r, of q] links_n_mD(6) [OF r, of p] p unfolding chi by auto
  ultimately show ?thesis unfolding links_n_m_def by simp
qed

section \<open>Placements\<close>

definition placeable :: "OV_PLACEMENT_HINT \<Rightarrow> 'a option \<Rightarrow> 'a list \<Rightarrow> bool" where
  "placeable hint rel links \<longleftrightarrow> hint \<in> {OV_PMH_DEFAULT, OV_PMH_BEGIN, OV_PMH_END} \<or>
    hint \<in> {OV_PMH_BEFORE, OV_PMH_AFTER} \<and> rel \<in> Some ` set links"

text \<open>The placement logic of both sides: the resolved hint and iterator, and the neighbours there.\<close>

definition resolve :: "OV_PLACEMENT_HINT \<Rightarrow> 'a option \<Rightarrow> 'a option \<Rightarrow> 'a option \<Rightarrow> OV_PLACEMENT_HINT \<times> 'a option" where
  "resolve hint f l rel =
    (if hint = OV_PMH_BEGIN then (OV_PMH_BEFORE, f)
     else if hint \<in> {OV_PMH_DEFAULT, OV_PMH_END} then (OV_PMH_AFTER, l) else (hint, rel))"

definition around :: "('a \<Rightarrow> 'a option) \<Rightarrow> ('a \<Rightarrow> 'a option) \<Rightarrow> OV_PLACEMENT_HINT \<times> 'a option \<Rightarrow>
    'a option \<times> 'a option" where
  "around nx pv r = (if fst r = OV_PMH_BEFORE then (Option.bind (snd r) pv, snd r)
     else (snd r, Option.bind (snd r) nx))"

lemma dll_position:
  assumes d: "dll nx pv f l ls"
    and h: "placeable hint rel ls"
  obtains xs ys where "ls = xs @ ys" "place hint rel c ls = xs @ c # ys"
    "around nx pv (resolve hint f l rel) = (last_or None xs, hd_or ys None)"
proof -
  consider (ending) "hint \<in> {OV_PMH_DEFAULT, OV_PMH_END}" | (front) "hint = OV_PMH_BEGIN"
    | (bef) "hint = OV_PMH_BEFORE" "rel \<in> Some ` set ls"
    | (aft) "hint = OV_PMH_AFTER" "rel \<in> Some ` set ls"
    using h unfolding placeable_def by blast
  then show ?thesis
  proof cases
    case ending
    have "Option.bind l nx = None"
      using d by (cases ls rule: rev_cases) (auto simp: dll_def)
    then show ?thesis
      by (intro that [of ls "[]"])
        (use ending dll_ends [OF d] in \<open>auto simp: around_def resolve_def\<close>)
  next
    case front
    have "Option.bind f pv = None"
      using d by (cases ls) (auto simp: dll_def)
    then show ?thesis
      by (intro that [of "[]" ls])
        (use front dll_ends [OF d] in \<open>auto simp: around_def resolve_def\<close>)
  next
    case bef
    obtain xs x ys where s: "ls = xs @ x # ys" "rel = Some x" "place OV_PMH_BEFORE rel c ls = xs @ c # x # ys"
      by (rule place_split [OF bef(2), where c = c]) blast
    show ?thesis
      by (rule that [of xs "x # ys"])
        (use bef s d dll_neighbours [of nx pv f l xs x ys] in \<open>auto simp: around_def resolve_def\<close>)
  next
    case aft
    obtain xs x ys where s: "ls = xs @ x # ys" "rel = Some x" "place OV_PMH_AFTER rel c ls = xs @ x # c # ys"
      by (rule place_split [OF aft(2), where c = c]) blast
    show ?thesis
      by (rule that [of "xs @ [x]" ys])
        (use aft s d dll_neighbours [of nx pv f l xs x ys] in \<open>auto simp: around_def resolve_def\<close>)
  qed
qed

lemma find_loop_dll:
  assumes d: "dll nx pv f l (xs @ ys)" and n: "\<And>x. nxt (Some x) = nx x"
    and o: "\<And>x. x \<in> set (xs @ ys) \<Longrightarrow> obj (Some x) \<noteq> None" "obj None = None"
  shows "length ys \<le> fuel \<Longrightarrow>
    find_loop fuel nxt obj (hd_or ys None) target = Some (find (\<lambda>x. obj (Some x) = target) ys)"
  using d o(1)
proof (induction ys arbitrary: xs fuel)
  case Nil
  then show ?case using o(2) by (simp add: find_loop.simps)
next
  case (Cons y ys)
  then obtain m where m: "fuel = Suc m" "length ys \<le> m" by (cases fuel) auto
  have "find_loop m nxt obj (hd_or ys None) target = Some (find (\<lambda>x. obj (Some x) = target) ys)"
    by (rule Cons.IH [of m "xs @ [y]"]) (use Cons.prems m in auto)
  moreover have "nx y = hd_or ys None" using dll_neighbours [OF Cons.prems(2)] by blast
  moreover have "obj (Some y) \<noteq> None" using Cons.prems by simp
  ultimately show ?case by (auto simp: find_loop.simps [of "Suc m"] m(1) n)
qed

lemma find_Some_iff_image:
  "find P xs \<noteq> None \<longleftrightarrow> (\<exists>x \<in> set xs. P x)"
  "find P xs = Some x \<Longrightarrow> x \<in> set xs \<and> P x"
proof -
  show "find P xs \<noteq> None \<longleftrightarrow> (\<exists>x \<in> set xs. P x)" by (simp only: find_None_iff) blast
  show "find P xs = Some x \<Longrightarrow> x \<in> set xs \<and> P x" by (auto simp: find_Some_iff)
qed

lemma find_in: "(\<exists>x \<in> set xs. P x) \<longleftrightarrow> find P xs \<in> Some ` set xs"
  using find_Some_iff_image [of P xs] by (cases "find P xs") auto

section \<open>Reading an n:m association\<close>

lemma macros_n_m:
  assumes r: "links_n_m ob a st lp lc" and t: "tables_ok ob a" "v_assoctype a = OV_AT_MANY_TO_MANY"
  shows "Ov_Association_IsParentClass ob a (Some p) \<Longrightarrow>
      Ov_Association_GetFirstChildNM ob a st (Some p) = hd_or (lp p) None \<and>
      Ov_Association_GetLastChildNM ob a st (Some p) = last_or None (lp p)"
    and "Ov_Association_IsChildClass ob a (Some c) \<Longrightarrow>
      Ov_Association_GetFirstParentNM ob a st (Some c) = hd_or (lc c) None \<and>
      Ov_Association_GetLastParentNM ob a st (Some c) = last_or None (lc c)"
  using dll_ends [OF links_n_mD(1) [OF r, of p]] dll_ends [OF links_n_mD(2) [OF r, of c]] t
  by (simp_all add: Ov_Association_GetFirstChildNM_def Ov_Association_GetLastChildNM_def
      Ov_Association_GetFirstParentNM_def Ov_Association_GetLastParentNM_def table_entry_def tables_ok_def)

lemma find_child_n_m:
  assumes r: "links_n_m ob a st lp lc" and t: "tables_ok ob a" "v_assoctype a = OV_AT_MANY_TO_MANY"
    and p: "Ov_Association_IsParentClass ob a (Some p)" and f: "length (lp p) \<le> fuel"
  shows "find_loop fuel (Ov_Association_GetNextChildNM st) (link_child st)
      (Ov_Association_GetFirstChildNM ob a st (Some p)) target =
    Some (find (\<lambda>l. child_pchild (nmlink st l) = target) (lp p))"
proof -
  have "find_loop fuel (Ov_Association_GetNextChildNM st) (link_child st) (hd_or (lp p) None) target =
      Some (find (\<lambda>l. link_child st (Some l) = target) (lp p))"
  proof (rule find_loop_dll [of _ _ _ _ "[]"])
    show "parent_list st p ([] @ lp p)" using links_n_mD(1) [OF r] by simp
    show "link_child st (Some x) \<noteq> None" if "x \<in> set ([] @ lp p)" for x
      using that links_n_mD(3) [OF r, of x p] links_n_mD(5) [OF r, of x] by (auto simp: link_child_def)
  qed (use f in \<open>simp_all add: Ov_Association_GetNextChildNM_def link_child_def\<close>)
  with macros_n_m(1) [OF r t p] show ?thesis by (simp add: link_child_def)
qed

lemma find_parent_n_m:
  assumes r: "links_n_m ob a st lp lc" and t: "tables_ok ob a" "v_assoctype a = OV_AT_MANY_TO_MANY"
    and c: "Ov_Association_IsChildClass ob a (Some c)" and f: "length (lc c) \<le> fuel"
  shows "find_loop fuel (Ov_Association_GetNextParentNM st) (link_parent st)
      (Ov_Association_GetFirstParentNM ob a st (Some c)) target =
    Some (find (\<lambda>l. parent_pparent (nmlink st l) = target) (lc c))"
proof -
  have "find_loop fuel (Ov_Association_GetNextParentNM st) (link_parent st) (hd_or (lc c) None) target =
      Some (find (\<lambda>l. link_parent st (Some l) = target) (lc c))"
  proof (rule find_loop_dll [of _ _ _ _ "[]"])
    show "child_list st c ([] @ lc c)" using links_n_mD(2) [OF r] by simp
    show "link_parent st (Some x) \<noteq> None" if "x \<in> set ([] @ lc c)" for x
      using that links_n_mD(4) [OF r, of x c] links_n_mD(5) [OF r, of x] by (auto simp: link_parent_def)
  qed (use f in \<open>simp_all add: Ov_Association_GetNextParentNM_def link_parent_def\<close>)
  with macros_n_m(2) [OF r t c] show ?thesis by (simp add: link_parent_def)
qed

section \<open>The contract of link and unlink\<close>

definition link_result_n_m :: "objects \<Rightarrow> OV_ASSOC \<Rightarrow> store \<Rightarrow> (objptr \<Rightarrow> linkptr list) \<Rightarrow> (objptr \<Rightarrow> linkptr list) \<Rightarrow>
    linkptr option \<Rightarrow> objptr \<Rightarrow> objptr \<Rightarrow> OV_PLACEMENT_HINT \<Rightarrow> objptr option \<Rightarrow> OV_PLACEMENT_HINT \<Rightarrow>
    objptr option \<Rightarrow> OV_RESULT" where
  "link_result_n_m ob a st lp lc alloc p c parenthint prelparent childhint prelchild =
    (if \<not> Ov_Association_IsParentClass ob a (Some p) \<or> \<not> Ov_Association_IsChildClass ob a (Some c)
     then OV_ERR_BADPARAM
     else if \<exists>l \<in> set (lp p). child_pchild (nmlink st l) = Some c then OV_ERR_ALREADYEXISTS
     else if \<not> placeable parenthint (find (\<lambda>l. parent_pparent (nmlink st l) = prelparent) (lc c)) (lc c)
     then OV_ERR_BADPLACEMENT
     else if \<not> placeable childhint (find (\<lambda>l. child_pchild (nmlink st l) = prelchild) (lp p)) (lp p)
     then OV_ERR_BADPLACEMENT
     else if alloc = None then OV_ERR_DBOUTOFMEMORY else OV_ERR_OK)"

lemma find_in_image: "find P xs \<in> Some ` set xs \<longleftrightarrow> find P xs \<noteq> None"
  using find_Some_iff_image [of P xs] by (cases "find P xs") auto

lemma parent_side_n_m:
  assumes r: "links_n_m ob a st lp lc" and t: "tables_ok ob a" "v_assoctype a = OV_AT_MANY_TO_MANY"
    and c: "Ov_Association_IsChildClass ob a (Some c)" and f: "length (lc c) \<le> fuel"
    and rel: "rel = find (\<lambda>l. parent_pparent (nmlink st l) = prelparent) (lc c)"
  shows "parent_placement_n_m fuel ob a st c hint prelparent = Some
    (if placeable hint rel (lc c)
     then Inr (resolve hint (hd_or (lc c) None) (last_or None (lc c)) rel) else Inl OV_ERR_BADPLACEMENT)"
proof -
  have "rel \<in> Some ` set (lc c) \<longleftrightarrow> rel \<noteq> None" unfolding rel by (rule find_in_image)
  then show ?thesis
    using macros_n_m(2) [OF r t c] find_parent_n_m [OF r t c f, of prelparent]
    by (cases hint) (auto simp: parent_placement_n_m_def resolve_def rel placeable_def)
qed

lemma child_side_n_m:
  assumes r: "links_n_m ob a st lp lc" and t: "tables_ok ob a" "v_assoctype a = OV_AT_MANY_TO_MANY"
    and p: "Ov_Association_IsParentClass ob a (Some p)" and f: "length (lp p) \<le> fuel"
    and rel: "rel = find (\<lambda>l. child_pchild (nmlink st l) = prelchild) (lp p)"
  shows "child_placement_n_m fuel ob a st p hint prelchild = Some
    (if placeable hint rel (lp p)
     then Inr (resolve hint (hd_or (lp p) None) (last_or None (lp p)) rel) else Inl OV_ERR_BADPLACEMENT)"
proof -
  have "rel \<in> Some ` set (lp p) \<longleftrightarrow> rel \<noteq> None" unfolding rel by (rule find_in_image)
  then show ?thesis
    using macros_n_m(1) [OF r t p] find_child_n_m [OF r t p f, of prelchild]
    by (cases hint) (auto simp: child_placement_n_m_def resolve_def rel placeable_def)
qed

lemma neighbours_n_m:
  assumes "placeable hint rel ls"
    and "resolve hint f l rel = (h2, it)"
  shows "parent_neighbours_n_m st h2 it = Inr (around (\<lambda>l. child_pnext (nmlink st l))
      (\<lambda>l. child_pprevious (nmlink st l)) (resolve hint f l rel))"
    and "child_neighbours_n_m st h2 it = Inr (around (\<lambda>l. parent_pnext (nmlink st l))
      (\<lambda>l. parent_pprevious (nmlink st l)) (resolve hint f l rel))"
  using assms by (cases hint; cases it;
      auto simp: placeable_def parent_neighbours_n_m_def child_neighbours_n_m_def around_def resolve_def
        Ov_Association_GetPreviousParentNM_def Ov_Association_GetNextParentNM_def
        Ov_Association_GetPreviousChildNM_def Ov_Association_GetNextChildNM_def)+

lemma link_n_m_refines:
  assumes r: "links_n_m ob a st lp lc" and t: "tables_ok ob a" "v_assoctype a = OV_AT_MANY_TO_MANY"
    and f: "length (lp p) \<le> fuel" "length (lc c) \<le> fuel"
    and al: "\<And>l. alloc = Some l \<Longrightarrow> \<not> allocated st l"
  shows "\<exists>st'. ov_association_link fuel ob alloc (Some a) (Some p) (Some c) ph rp hint rc st =
      Some (link_result_n_m ob a st lp lc alloc p c ph rp hint rc, st') \<and>
    (if link_result_n_m ob a st lp lc alloc p c ph rp hint rc = OV_ERR_OK
     then links_n_m ob a st'
       (lp(p := place hint (find (\<lambda>l. child_pchild (nmlink st l) = rc) (lp p)) (the alloc) (lp p)))
       (lc(c := place ph (find (\<lambda>l. parent_pparent (nmlink st l) = rp) (lc c)) (the alloc) (lc c)))
     else st' = st)"
proof -
  let ?rc = "find (\<lambda>l. child_pchild (nmlink st l) = rc) (lp p)"
  let ?rp = "find (\<lambda>l. parent_pparent (nmlink st l) = rp) (lc c)"
  note res = link_result_n_m_def
  show ?thesis
  proof (cases "Ov_Association_IsParentClass ob a (Some p) \<and> Ov_Association_IsChildClass ob a (Some c)")
    case False
    then show ?thesis by (auto simp: ov_association_link_def res)
  next
    case True
    then have p: "Ov_Association_IsParentClass ob a (Some p)" and c: "Ov_Association_IsChildClass ob a (Some c)"
      by blast+
    let ?find = "find (\<lambda>l. child_pchild (nmlink st l) = Some c) (lp p)"
    have "link_child st ?find \<noteq> None \<longleftrightarrow> (\<exists>l \<in> set (lp p). child_pchild (nmlink st l) = Some c)"
      using find_Some_iff_image [of "\<lambda>l. child_pchild (nmlink st l) = Some c" "lp p"]
      by (cases ?find) (auto simp: link_child_def)
    then have cond: "link_conditions fuel ob a st p c = Some
        (if \<exists>l \<in> set (lp p). child_pchild (nmlink st l) = Some c then OV_ERR_ALREADYEXISTS else OV_ERR_OK)"
      using find_child_n_m [OF r t p f(1), of "Some c"] t(2) by (simp add: link_conditions_def)
    note ps = parent_side_n_m [OF r t c f(2) refl, of ph rp] and cs = child_side_n_m [OF r t p f(1) refl, of hint rc]
    show ?thesis
    proof (cases "(\<exists>l \<in> set (lp p). child_pchild (nmlink st l) = Some c) \<or> \<not> placeable ph ?rp (lc c) \<or> \<not> placeable hint ?rc (lp p)")
      case True
      then consider "\<exists>l \<in> set (lp p). child_pchild (nmlink st l) = Some c"
        | "\<not> (\<exists>l \<in> set (lp p). child_pchild (nmlink st l) = Some c)" "\<not> placeable ph ?rp (lc c)"
        | "\<not> (\<exists>l \<in> set (lp p). child_pchild (nmlink st l) = Some c)" "placeable ph ?rp (lc c)" "\<not> placeable hint ?rc (lp p)"
        by blast
      then show ?thesis
        by cases (use p c cond ps cs t(2) in \<open>simp_all add: ov_association_link_def link_n_m_def res split: prod.splits\<close>)
    next
      case False
      then have new: "\<not> (\<exists>l \<in> set (lp p). child_pchild (nmlink st l) = Some c)"
        and ok: "placeable ph ?rp (lc c)" "placeable hint ?rc (lp p)" by blast+
      obtain us vs where uv: "lc c = us @ vs" "place ph ?rp (the alloc) (lc c) = us @ the alloc # vs"
        "around (\<lambda>l. child_pnext (nmlink st l)) (\<lambda>l. child_pprevious (nmlink st l))
          (resolve ph (hd_or (lc c) None) (last_or None (lc c)) ?rp) = (last_or None us, hd_or vs None)"
        using dll_position [OF links_n_mD(2) [OF r, of c] ok(1), of "the alloc"]
          dll_ends [OF links_n_mD(2) [OF r, of c]] by metis
      obtain xs ys where xy: "lp p = xs @ ys" "place hint ?rc (the alloc) (lp p) = xs @ the alloc # ys"
        "around (\<lambda>l. parent_pnext (nmlink st l)) (\<lambda>l. parent_pprevious (nmlink st l))
          (resolve hint (hd_or (lp p) None) (last_or None (lp p)) ?rc) = (last_or None xs, hd_or ys None)"
        using dll_position [OF links_n_mD(1) [OF r, of p] ok(2), of "the alloc"]
          dll_ends [OF links_n_mD(1) [OF r, of p]] by metis
      obtain h2 i2 h3 i3 where h: "resolve ph (hd_or (lc c) None) (last_or None (lc c)) ?rp = (h2, i2)"
        "resolve hint (hd_or (lp p) None) (last_or None (lp p)) ?rc = (h3, i3)" by fastforce
      have "parent_neighbours_n_m st h2 i2 = Inr (last_or None us, hd_or vs None)"
        and "child_neighbours_n_m st h3 i3 = Inr (last_or None xs, hd_or ys None)"
        using neighbours_n_m(1) [OF ok(1) h(1), of st] neighbours_n_m(2) [OF ok(2) h(2), of st] uv(3) xy(3)
        by simp_all
      then have link: "link_n_m fuel ob a alloc st p c ph rp hint rc =
          (case alloc of None \<Rightarrow> Some (OV_ERR_DBOUTOFMEMORY, st)
           | Some l \<Rightarrow> Some (OV_ERR_OK, linkage_n_m st p c l (last_or None xs) (hd_or ys None)
               (last_or None us) (hd_or vs None)))"
        unfolding link_n_m_def ps cs using ok h by (simp split: option.splits)
      show ?thesis
      proof (cases alloc)
        case None
        with link p c cond new ok t(2) show ?thesis by (simp add: ov_association_link_def res)
      next
        case (Some l)
        have "links_n_m ob a (linkage_n_m st p c l (last_or None xs) (hd_or ys None) (last_or None us) (hd_or vs None))
            (lp(p := xs @ l # ys)) (lc(c := us @ l # vs))"
          by (rule linkage_n_m_links [OF r xy(1) uv(1) al [OF Some] p c]) (use new in auto)
        with Some link p c cond new ok t(2) xy(2) uv(2) show ?thesis
          by (simp add: ov_association_link_def res)
      qed
    qed
  qed
qed

lemma link_of_pair:
  assumes r: "links_n_m ob a st lp lc" and l: "find (\<lambda>l. child_pchild (nmlink st l) = Some c) (lp p) = Some l"
  obtains xs ys us vs where "lp p = xs @ l # ys" "lc c = us @ l # vs"
    "removeAll l (lp p) = xs @ ys" "removeAll l (lc c) = us @ vs"
proof -
  have l': "l \<in> set (lp p)" "child_pchild (nmlink st l) = Some c"
    using find_Some_iff_image(2) [OF l] by blast+
  then have "l \<in> set (lc c)" using links_n_mD(3,4) [OF r] by blast
  with l' obtain xs ys us vs where "lp p = xs @ l # ys" "lc c = us @ l # vs" by (meson split_list)
  moreover have "distinct (lp p)" "distinct (lc c)"
    using dll_ends [OF links_n_mD(1) [OF r]] dll_ends [OF links_n_mD(2) [OF r]] by blast+
  ultimately show ?thesis using that [of xs ys us vs] by simp
qed

lemma unlink_n_m_refines:
  assumes r: "links_n_m ob a st lp lc" and t: "tables_ok ob a" "v_assoctype a = OV_AT_MANY_TO_MANY"
    and f: "length (lp p) \<le> fuel"
    and cls: "Ov_Association_IsParentClass ob a (Some p)" "Ov_Association_IsChildClass ob a (Some c)"
  shows "\<exists>st'. ov_association_unlink fuel ob (Some a) (Some p) (Some c) st = Some st' \<and>
    (case find (\<lambda>l. child_pchild (nmlink st l) = Some c) (lp p) of
       None \<Rightarrow> st' = st
     | Some l \<Rightarrow> links_n_m ob a st' (lp(p := removeAll l (lp p))) (lc(c := removeAll l (lc c))) \<and>
         \<not> allocated st' l)"
proof (cases "find (\<lambda>l. child_pchild (nmlink st l) = Some c) (lp p)")
  case None
  then show ?thesis
    using find_child_n_m [OF r t cls(1) f, of "Some c"] cls t(2) by (simp add: ov_association_unlink_def)
next
  case (Some l)
  obtain xs ys us vs where s: "lp p = xs @ l # ys" "lc c = us @ l # vs"
    "removeAll l (lp p) = xs @ ys" "removeAll l (lc c) = us @ vs"
    by (rule link_of_pair [OF r Some])
  have "ov_association_unlink fuel ob (Some a) (Some p) (Some c) st =
      Some (unlinkage_n_m st p c l (last_or None xs) (hd_or ys None) (last_or None us) (hd_or vs None))"
    using find_child_n_m [OF r t cls(1) f, of "Some c"] Some cls t(2)
      dll_neighbours [OF links_n_mD(1) [OF r, of p, unfolded s(1)]]
      dll_neighbours [OF links_n_mD(2) [OF r, of c, unfolded s(2)]]
    by (simp add: ov_association_unlink_def Ov_Association_GetPreviousParentNM_def Ov_Association_GetNextParentNM_def
        Ov_Association_GetPreviousChildNM_def Ov_Association_GetNextChildNM_def)
  with Some unlinkage_n_m_links [OF r s(1,2)] s(3,4) show ?thesis
    by (simp add: unlinkage_n_m_heads)
qed

section \<open>Properties of n:m associations\<close>

lemma empty_links: "links_n_m ob a empty_store (\<lambda>_. []) (\<lambda>_. [])"
  by (simp add: links_n_m_def dll_def empty_store_def)

definition demo_nm :: OV_ASSOC where
  "demo_nm = demo_assoc\<lparr>v_assoctype := OV_AT_MANY_TO_MANY\<rparr>"

lemma demo_nm_classes [simp]:
  "Ov_Association_IsParentClass demo_objects demo_nm (Some p) \<longleftrightarrow> p < 10"
  "Ov_Association_IsChildClass demo_objects demo_nm (Some p) \<longleftrightarrow> p < 10"
  using demo_classes by (simp_all add: Ov_Association_IsParentClass_def Ov_Association_IsChildClass_def demo_nm_def)

lemma demo_nm_tables: "tables_ok demo_objects demo_nm" "v_assoctype demo_nm = OV_AT_MANY_TO_MANY"
  by (simp_all add: tables_ok_def demo_objects_def demo_nm_def)

definition demo_nm_store :: store where
  "demo_nm_store = linkage_n_m empty_store 1 2 5 None None None None"

lemma demo_nm_links: "links_n_m demo_objects demo_nm demo_nm_store ((\<lambda>_. [])(1 := [5])) ((\<lambda>_. [])(2 := [5]))"
  using linkage_n_m_links [OF empty_links, where p = 1 and c = 2 and l = 5 and xs = "[]" and ys = "[]"
      and us = "[]" and vs = "[]" and ob = demo_objects and a = demo_nm]
  by (simp add: demo_nm_store_def) (simp add: empty_store_def)

text \<open>C32: Linking in an n:m association refines insertion of one new link object into two ordered
  lists, the parent's and the child's, each at its own hinted place. A pair is linked at most
  once, bad placements and exhausted memory are refused, and a refused call changes nothing.\<close>

theorem link_nm_refines_two_insertions:
  assumes "links_n_m ob a st lp lc" "tables_ok ob a" "v_assoctype a = OV_AT_MANY_TO_MANY"
    and "length (lp p) \<le> fuel" "length (lc c) \<le> fuel"
    and "\<And>l. alloc = Some l \<Longrightarrow> \<not> allocated st l"
  shows "\<exists>st'. ov_association_link fuel ob alloc (Some a) (Some p) (Some c) ph rp hint rc st =
      Some (link_result_n_m ob a st lp lc alloc p c ph rp hint rc, st') \<and>
    (if link_result_n_m ob a st lp lc alloc p c ph rp hint rc = OV_ERR_OK
     then links_n_m ob a st'
       (lp(p := place hint (find (\<lambda>l. child_pchild (nmlink st l) = rc) (lp p)) (the alloc) (lp p)))
       (lc(c := place ph (find (\<lambda>l. parent_pparent (nmlink st l) = rp) (lc c)) (the alloc) (lc c)))
     else st' = st)"
  using assms by (rule link_n_m_refines)

theorem link_nm_refines_two_insertions_witness:
  "\<exists>st'. ov_association_link 3 demo_objects (Some 6) (Some demo_nm) (Some 1) (Some 3)
      OV_PMH_DEFAULT None OV_PMH_BEFORE (Some 2) demo_nm_store = Some (OV_ERR_OK, st') \<and>
    links_n_m demo_objects demo_nm st' ((\<lambda>_. [])(1 := [6, 5])) ((\<lambda>_. [])(2 := [5], 3 := [6]))"
proof -
  have "child_pchild (nmlink demo_nm_store 5) = Some 2" and al: "\<not> allocated demo_nm_store 6"
    by (simp_all add: demo_nm_store_def linkage_n_m_nmlink linkage_n_m_heads)
      (simp add: empty_store_def)
  then have "link_result_n_m demo_objects demo_nm demo_nm_store ((\<lambda>_. [])(1 := [5])) ((\<lambda>_. [])(2 := [5])) (Some 6)
      1 3 OV_PMH_DEFAULT None OV_PMH_BEFORE (Some 2) = OV_ERR_OK"
    and "find (\<lambda>l. child_pchild (nmlink demo_nm_store l) = Some 2) [5] = Some 5"
    by (simp_all add: link_result_n_m_def placeable_def)
  then show ?thesis
    using link_nm_refines_two_insertions [OF demo_nm_links demo_nm_tables, of 1 3 3 "Some 6"
        OV_PMH_DEFAULT None OV_PMH_BEFORE "Some 2"] al by simp
qed

text \<open>Unlinking a pair of an n:m association removes its link object from both lists, keeps the
  order of all others, and frees it; a pair that is not linked is left as it is.\<close>

lemma unlink_nm_refines_two_removals:
  assumes "links_n_m ob a st lp lc" "tables_ok ob a" "v_assoctype a = OV_AT_MANY_TO_MANY"
    and "length (lp p) \<le> fuel"
    and "Ov_Association_IsParentClass ob a (Some p)" "Ov_Association_IsChildClass ob a (Some c)"
  shows "\<exists>st'. ov_association_unlink fuel ob (Some a) (Some p) (Some c) st = Some st' \<and>
    (case find (\<lambda>l. child_pchild (nmlink st l) = Some c) (lp p) of
       None \<Rightarrow> st' = st
     | Some l \<Rightarrow> links_n_m ob a st' (lp(p := removeAll l (lp p))) (lc(c := removeAll l (lc c))) \<and>
         \<not> allocated st' l)"
  using assms by (rule unlink_n_m_refines)

end
