(* ===== verification/OvVector.thy ===== *)
theory OvVector
  imports OvString
begin

text \<open>
  core/ov/source/libov/ov_vector.c: vector values of variables. The memory of a vector is a list of
  bytes or, for the variable type \<open>OV_VT_STRING\<close>, a list of string slots. Whether the database
  grants memory, and what the new memory contains, are arguments; the limit of the vector length
  (\<open>maxvec\<close>) and of strings (\<open>maxlen\<close>) come from the vendor tree. \<open>None\<close> as a result is an access
  outside the memory.
\<close>

section \<open>State\<close>

datatype vector_memory = Bytes "OV_BYTE list" | Strings "OV_STRING list"

record OV_GENERIC_VEC =
  veclen :: OV_UINT
  vec_value :: "vector_memory option"

definition write_bytes :: "nat \<Rightarrow> OV_BYTE list \<Rightarrow> OV_BYTE list \<Rightarrow> OV_BYTE list option" where
  "write_bytes n v m = (if n \<le> length v \<and> n \<le> length m then Some (take n v @ drop n m) else None)"

definition zero_bytes :: "nat \<Rightarrow> nat \<Rightarrow> OV_BYTE list \<Rightarrow> OV_BYTE list option" where
  "zero_bytes a b m = (if b \<le> length m then Some (take a m @ replicate (b - a) 0 @ drop b m) else None)"

text \<open>\<open>ov_database_realloc\<close>: what fits is kept, the rest has any value.\<close>

definition grown :: "nat \<Rightarrow> (nat \<Rightarrow> 'a) \<Rightarrow> 'a list \<Rightarrow> 'a list" where
  "grown n junk old = take n old @ map junk [length old..<n]"

section \<open>Static vectors\<close>

definition ov_vector_setstaticvalue :: "OV_UINT \<Rightarrow> OV_UINT \<Rightarrow> bool list \<Rightarrow> vector_memory option \<Rightarrow> vector_memory option \<Rightarrow>
    OV_UINT \<Rightarrow> OV_UINT \<Rightarrow> (OV_RESULT \<times> vector_memory option) option" where
  "ov_vector_setstaticvalue maxlen maxvec mem pvector pvalue n vecsize =
    (case (pvector, pvalue) of
       (Some (Strings ss), Some (Strings vs)) \<Rightarrow>
         (case ov_string_setvecvalue maxlen maxvec mem (Some ss) (Some vs) n of
            (r, ss') \<Rightarrow> Some (r, map_option Strings ss'))
     | (Some (Bytes b), Some (Bytes v)) \<Rightarrow>
         map_option (\<lambda>b'. (OV_ERR_OK, Some (Bytes b'))) (write_bytes (unat vecsize) v b)
     | (Some _, Some _) \<Rightarrow> None
     | _ \<Rightarrow> Some (OV_ERR_BADPARAM, pvector))"

section \<open>Dynamic vectors\<close>

text \<open>Without a length: the memory is freed, if there is any.\<close>

definition free_vector :: "OV_GENERIC_VEC \<Rightarrow> OV_GENERIC_VEC" where
  "free_vector v = (if vec_value v \<noteq> None then v\<lparr>veclen := 0, vec_value := None\<rparr> else v)"

definition string_slots :: "OV_GENERIC_VEC \<Rightarrow> OV_STRING list option" where
  "string_slots v = (case vec_value v of Some (Strings ss) \<Rightarrow> Some ss | _ \<Rightarrow> None)"

definition free_strings :: "OV_UINT \<Rightarrow> OV_GENERIC_VEC \<Rightarrow> OV_GENERIC_VEC" where
  "free_strings maxvec v =
    (if veclen v \<noteq> 0
     then v\<lparr>vec_value := map_option Strings (snd (ov_string_setvecvalue 0 maxvec [] (string_slots v) None (veclen v)))\<rparr>
     else v)"

text \<open>The value is copied into memory of the right size. The size of a vector of strings is that of its
  slots.\<close>

definition set_strings :: "OV_UINT \<Rightarrow> OV_UINT \<Rightarrow> bool list \<Rightarrow> OV_GENERIC_VEC \<Rightarrow> OV_STRING list option \<Rightarrow> OV_UINT \<Rightarrow>
    OV_RESULT \<times> OV_GENERIC_VEC" where
  "set_strings maxlen maxvec mems v vs n =
    (case ov_string_setvecvalue maxlen maxvec mems (Some (replicate (unat n) None)) vs n of
       (r, ss) \<Rightarrow>
         let v = v\<lparr>vec_value := map_option Strings ss\<rparr>
         in if Ov_Fail r then (r, free_vector v) else (OV_ERR_OK, v))"

definition set_bytes :: "OV_GENERIC_VEC \<Rightarrow> OV_BYTE list option \<Rightarrow> OV_UINT \<Rightarrow> OV_GENERIC_VEC option" where
  "set_bytes v value vecsize =
    (case (vec_value v, value) of
       (Some (Bytes b), Some w) \<Rightarrow> map_option (\<lambda>b'. v\<lparr>vec_value := Some (Bytes b')\<rparr>) (write_bytes (unat vecsize) w b)
     | _ \<Rightarrow> None)"

definition byte_memory :: "OV_GENERIC_VEC \<Rightarrow> OV_BYTE list" where
  "byte_memory v = (case vec_value v of Some (Bytes b) \<Rightarrow> b | _ \<Rightarrow> [])"

definition ov_vector_setdynamicvalue_bytes :: "OV_UINT \<Rightarrow> bool \<Rightarrow> (nat \<Rightarrow> OV_BYTE) \<Rightarrow> OV_GENERIC_VEC option \<Rightarrow>
    OV_BYTE list option \<Rightarrow> OV_UINT \<Rightarrow> OV_UINT \<Rightarrow> (OV_RESULT \<times> OV_GENERIC_VEC option) option" where
  "ov_vector_setdynamicvalue_bytes maxvec mem junk pvector value n vecsize =
    (case pvector of
       None \<Rightarrow> Some (OV_ERR_BADPARAM, None)
     | Some v \<Rightarrow>
         if maxvec \<noteq> 0 \<and> n > maxvec then Some (OV_ERR_BADVALUE, Some v)
         else if n = 0 then Some (OV_ERR_OK, Some (free_vector v))
         else if veclen v \<noteq> n \<and> \<not> mem then Some (OV_ERR_DBOUTOFMEMORY, Some v)
         else
           let v = (if veclen v \<noteq> n
                    then v\<lparr>veclen := n, vec_value := Some (Bytes (grown (unat vecsize) junk (byte_memory v)))\<rparr> else v)
           in map_option (\<lambda>v. (OV_ERR_OK, Some v)) (set_bytes v value vecsize))"

definition ov_vector_setdynamicvalue_strings :: "OV_UINT \<Rightarrow> OV_UINT \<Rightarrow> bool \<Rightarrow> bool list \<Rightarrow> OV_GENERIC_VEC option \<Rightarrow>
    OV_STRING list option \<Rightarrow> OV_UINT \<Rightarrow> OV_RESULT \<times> OV_GENERIC_VEC option" where
  "ov_vector_setdynamicvalue_strings maxlen maxvec mem mems pvector value n =
    (case pvector of
       None \<Rightarrow> (OV_ERR_BADPARAM, None)
     | Some v \<Rightarrow>
         if maxvec \<noteq> 0 \<and> n > maxvec then (OV_ERR_BADVALUE, Some v)
         else
           let v = free_strings maxvec v
           in if n = 0 then (OV_ERR_OK, Some (free_vector v))
              else if veclen v \<noteq> n \<and> \<not> mem then (OV_ERR_DBOUTOFMEMORY, Some v)
              else case set_strings maxlen maxvec mems (v\<lparr>veclen := n\<rparr>) value n of (r, v) \<Rightarrow> (r, Some v))"

text \<open>The new length: what is cut off is freed, what is new is zero.\<close>

definition ov_vector_setdynamicveclen_bytes :: "OV_UINT \<Rightarrow> bool \<Rightarrow> (nat \<Rightarrow> OV_BYTE) \<Rightarrow> OV_GENERIC_VEC option \<Rightarrow>
    OV_UINT \<Rightarrow> OV_UINT \<Rightarrow> (OV_RESULT \<times> OV_GENERIC_VEC option) option" where
  "ov_vector_setdynamicveclen_bytes maxvec mem junk pvector n vecsize =
    (case pvector of
       None \<Rightarrow> Some (OV_ERR_BADPARAM, None)
     | Some v \<Rightarrow>
         if maxvec \<noteq> 0 \<and> n > maxvec then Some (OV_ERR_BADVALUE, Some v)
         else if n = 0 then Some (OV_ERR_OK, Some (free_vector v))
         else if veclen v = n then Some (OV_ERR_OK, Some v)
         else if \<not> mem then Some (OV_ERR_DBOUTOFMEMORY, Some v)
         else
           let oldsize = vecsize div n * veclen v;
               b = grown (unat vecsize) junk (byte_memory v)
           in map_option (\<lambda>b. (OV_ERR_OK, Some (v\<lparr>veclen := n, vec_value := Some (Bytes b)\<rparr>)))
                (if vecsize > oldsize then zero_bytes (unat oldsize) (unat vecsize) b else Some b))"

definition ov_vector_setdynamicveclen_strings :: "OV_UINT \<Rightarrow> bool \<Rightarrow> OV_GENERIC_VEC option \<Rightarrow> OV_UINT \<Rightarrow>
    OV_RESULT \<times> OV_GENERIC_VEC option" where
  "ov_vector_setdynamicveclen_strings maxvec mem pvector n =
    (case pvector of
       None \<Rightarrow> (OV_ERR_BADPARAM, None)
     | Some v \<Rightarrow>
         if maxvec \<noteq> 0 \<and> n > maxvec then (OV_ERR_BADVALUE, Some v)
         else
           let ss = (case string_slots v of None \<Rightarrow> [] | Some ss \<Rightarrow> ss);
               ss = take (unat n) ss @ replicate (length ss - unat n) None;
               v = (if n < veclen v then v\<lparr>vec_value := Some (Strings ss)\<rparr> else v)
           in if n = 0 then (OV_ERR_OK, Some (free_vector v))
              else if veclen v = n then (OV_ERR_OK, Some v)
              else if \<not> mem then (OV_ERR_DBOUTOFMEMORY, Some v)
              else (OV_ERR_OK, Some (v\<lparr>veclen := n,
                     vec_value := Some (Strings (take (unat n) ss @ replicate (unat n - length ss) None))\<rparr>)))"

section \<open>Comparison\<close>

definition OV_VECCMP_EQUAL :: int where "OV_VECCMP_EQUAL = 0"
definition OV_VECCMP_MORE :: int where "OV_VECCMP_MORE = 1"
definition OV_VECCMP_LESS :: int where "OV_VECCMP_LESS = - 1"

text \<open>\<open>memcmp\<close>, of whose result only the sign is documented.\<close>

fun memcmp :: "nat \<Rightarrow> OV_BYTE list \<Rightarrow> OV_BYTE list \<Rightarrow> int option" where
  "memcmp 0 _ _ = Some 0"
| "memcmp (Suc n) (a # as) (b # bs) = (if a < b then Some (- 1) else if b < a then Some 1 else memcmp n as bs)"
| "memcmp (Suc n) _ _ = None"

fun compare_strings :: "nat \<Rightarrow> OV_STRING list \<Rightarrow> OV_STRING list \<Rightarrow> int option" where
  "compare_strings 0 _ _ = Some OV_VECCMP_EQUAL"
| "compare_strings (Suc n) (a # as) (b # bs) =
    (if ov_string_compare a b \<noteq> 0 then Some (ov_string_compare a b) else compare_strings n as bs)"
| "compare_strings (Suc n) _ _ = None"

definition ov_vector_compare :: "vector_memory option \<Rightarrow> vector_memory option \<Rightarrow> OV_UINT \<Rightarrow> OV_UINT \<Rightarrow> int option" where
  "ov_vector_compare pvalue1 pvalue2 n vecsize =
    (case (pvalue1, pvalue2) of
       (Some (Strings a), Some (Strings b)) \<Rightarrow> compare_strings (unat n) a b
     | (Some (Bytes a), Some (Bytes b)) \<Rightarrow> memcmp (unat vecsize) a b
     | (Some _, Some _) \<Rightarrow> None
     | (Some _, None) \<Rightarrow> Some OV_VECCMP_MORE
     | (None, Some _) \<Rightarrow> Some OV_VECCMP_LESS
     | (None, None) \<Rightarrow> Some OV_VECCMP_EQUAL)"

section \<open>The invariant\<close>

text \<open>A vector has memory just when it has a length, of the size of its elements (\<open>es\<close> bytes each).\<close>

definition bytes_ok :: "nat \<Rightarrow> OV_GENERIC_VEC \<Rightarrow> bool" where
  "bytes_ok es v \<longleftrightarrow>
    (if veclen v = 0 then vec_value v = None
     else \<exists>b. vec_value v = Some (Bytes b) \<and> length b = unat (veclen v) * es)"

definition strings_ok :: "OV_UINT \<Rightarrow> OV_GENERIC_VEC \<Rightarrow> bool" where
  "strings_ok maxlen v \<longleftrightarrow>
    (if veclen v = 0 then vec_value v = None
     else \<exists>ss. vec_value v = Some (Strings ss) \<and> length ss = unat (veclen v) \<and> list_all (db_string_ok maxlen) ss)"

definition strings_of :: "OV_GENERIC_VEC \<Rightarrow> OV_STRING list" where
  "strings_of v = (case string_slots v of None \<Rightarrow> [] | Some ss \<Rightarrow> ss)"

lemma length_grown [simp]: "length (grown n junk old) = n"
  by (simp add: grown_def)

lemma take_grown: "n \<le> length old \<Longrightarrow> k \<le> n \<Longrightarrow> take k (grown n junk old) = take k old"
  by (simp add: grown_def min_absorb1)

lemma unat_nonzero: "(n :: OV_UINT) \<noteq> 0 \<Longrightarrow> 0 < unat n"
  by (simp add: unat_gt_0)

lemma bytes_ok_memory: "bytes_ok es v \<Longrightarrow> length (byte_memory v) = unat (veclen v) * es"
  by (auto simp: bytes_ok_def byte_memory_def split: if_splits)

lemma bytes_ok_cases:
  assumes "bytes_ok es v"
  obtains (none) "veclen v = 0" "vec_value v = None"
    | (some) b where "veclen v \<noteq> 0" "vec_value v = Some (Bytes b)" "length b = unat (veclen v) * es" "byte_memory v = b"
  using assms by (auto simp: bytes_ok_def byte_memory_def split: if_splits)

lemma setdynamicvalue_bytes_result:
  assumes "bytes_ok es v" "length w = unat n * es" "unat vecsize = unat n * es"
  shows "\<exists>r v'. ov_vector_setdynamicvalue_bytes maxvec mem junk (Some v) (Some w) n vecsize = Some (r, Some v') \<and> bytes_ok es v' \<and>
    (if maxvec \<noteq> 0 \<and> n > maxvec then r = OV_ERR_BADVALUE \<and> v' = v
     else if n \<noteq> 0 \<and> veclen v \<noteq> n \<and> \<not> mem then r = OV_ERR_DBOUTOFMEMORY \<and> v' = v
     else r = OV_ERR_OK \<and> veclen v' = n \<and> byte_memory v' = w)"
proof (cases "maxvec \<noteq> 0 \<and> n > maxvec \<or> n \<noteq> 0 \<and> veclen v \<noteq> n \<and> \<not> mem")
  case True
  then show ?thesis using assms(1) by (auto simp: ov_vector_setdynamicvalue_bytes_def)
next
  case False
  show ?thesis
  proof (cases "n = 0")
    case True
    then show ?thesis
      using False assms by (cases rule: bytes_ok_cases [OF assms(1)])
        (auto simp: ov_vector_setdynamicvalue_bytes_def free_vector_def bytes_ok_def byte_memory_def)
  next
    case n: False
    obtain b where b: "vec_value (if veclen v \<noteq> n
        then v\<lparr>veclen := n, vec_value := Some (Bytes (grown (unat vecsize) junk (byte_memory v)))\<rparr> else v) = Some (Bytes b)"
      "length b = unat n * es"
      using assms n by (cases "veclen v = n") (auto simp: bytes_ok_def)
    then show ?thesis
      using False n assms
      by (auto simp: ov_vector_setdynamicvalue_bytes_def set_bytes_def write_bytes_def bytes_ok_def byte_memory_def Let_def)
  qed
qed

lemma zero_bytes_grown:
  assumes "length b \<le> k"
  shows "zero_bytes (length b) k (grown k junk b) = Some (b @ replicate (k - length b) 0)"
  using assms by (simp add: zero_bytes_def grown_def)

lemma setdynamicveclen_bytes_result:
  assumes "bytes_ok es v" "unat vecsize = unat n * es" "unat (veclen v) * es < 2 ^ 32"
  shows "\<exists>r v'. ov_vector_setdynamicveclen_bytes maxvec mem junk (Some v) n vecsize = Some (r, Some v') \<and> bytes_ok es v' \<and>
    (if maxvec \<noteq> 0 \<and> n > maxvec then r = OV_ERR_BADVALUE \<and> v' = v
     else if n \<noteq> 0 \<and> veclen v \<noteq> n \<and> \<not> mem then r = OV_ERR_DBOUTOFMEMORY \<and> v' = v
     else r = OV_ERR_OK \<and> veclen v' = n \<and>
       byte_memory v' = take (unat n * es) (byte_memory v) @ replicate ((unat n - unat (veclen v)) * es) 0)"
proof (cases "maxvec \<noteq> 0 \<and> n > maxvec \<or> n \<noteq> 0 \<and> veclen v \<noteq> n \<and> \<not> mem")
  case True
  then show ?thesis using assms(1) by (auto simp: ov_vector_setdynamicveclen_bytes_def)
next
  case False
  note m = bytes_ok_memory [OF assms(1)]
  consider "n = 0" | "n \<noteq> 0" "veclen v = n" | "n \<noteq> 0" "veclen v \<noteq> n" by blast
  then show ?thesis
  proof cases
    case 1
    then show ?thesis
      using False by (cases rule: bytes_ok_cases [OF assms(1)])
        (auto simp: ov_vector_setdynamicveclen_bytes_def free_vector_def bytes_ok_def byte_memory_def)
  next
    case 2
    then show ?thesis using False assms(1) m by (simp add: ov_vector_setdynamicveclen_bytes_def)
  next
    case 3
    let ?old = "vecsize div n * veclen v" and ?b = "grown (unat vecsize) junk (byte_memory v)"
    have "unat (vecsize div n) = es"
      using assms(2) unat_nonzero [OF 3(1)] by (simp add: unat_div)
    then have old: "unat ?old = length (byte_memory v)"
      using assms(3) m by (simp add: unat_word_ariths mult.commute)
    have "(if vecsize > ?old then zero_bytes (unat ?old) (unat vecsize) ?b else Some ?b) =
        Some (take (unat n * es) (byte_memory v) @ replicate ((unat n - unat (veclen v)) * es) 0)"
    proof (cases "vecsize > ?old")
      case True
      then have "length (byte_memory v) \<le> unat vecsize" using old by (simp add: word_less_nat_alt)
      then show ?thesis
        using True old m assms(2) zero_bytes_grown [of "byte_memory v" "unat vecsize" junk]
        by (simp add: diff_mult_distrib)
    next
      case False
      then have le: "unat vecsize \<le> length (byte_memory v)" using old by (simp add: word_less_nat_alt not_less)
      then have "(unat n - unat (veclen v)) * es = 0" using m assms(2) by (simp add: diff_mult_distrib)
      then show ?thesis using False le assms(2) by (simp add: grown_def)
    qed
    then have "ov_vector_setdynamicveclen_bytes maxvec mem junk (Some v) n vecsize = Some (OV_ERR_OK, Some (v\<lparr>veclen := n,
        vec_value := Some (Bytes (take (unat n * es) (byte_memory v) @ replicate ((unat n - unat (veclen v)) * es) 0))\<rparr>))"
      using False 3 by (simp add: ov_vector_setdynamicveclen_bytes_def Let_def)
    moreover have "length (take (unat n * es) (byte_memory v) @ replicate ((unat n - unat (veclen v)) * es) 0) = unat n * es"
    proof (cases "unat n \<le> unat (veclen v)")
      case True
      then show ?thesis using m by simp
    next
      case False
      then have "unat (veclen v) * es \<le> unat n * es" by simp
      then show ?thesis using m by (simp add: diff_mult_distrib)
    qed
    ultimately show ?thesis
      using False 3 by (simp add: bytes_ok_def byte_memory_def)
  qed
qed

lemma string_slots_simps [simp]:
  "vec_value v = None \<Longrightarrow> string_slots v = None"
  "vec_value v = Some (Strings ss) \<Longrightarrow> string_slots v = Some ss"
  by (simp_all add: string_slots_def)

lemma free_strings_value:
  assumes "strings_ok maxlen v"
  shows "strings_ok maxlen (free_strings maxvec v) \<and> veclen (free_strings maxvec v) = veclen v"
  using assms
  by (auto simp: strings_ok_def free_strings_def ov_string_setvecvalue_def list_all_iff db_string_ok_def split: if_splits)

lemma free_vector_ok: "strings_ok maxlen (free_vector v) \<longleftrightarrow> vec_value v \<noteq> None \<or> strings_ok maxlen v"
  by (auto simp: strings_ok_def free_vector_def)

lemma setdynamicvalue_strings_result:
  assumes "strings_ok maxlen v" "length mems = unat n" "length vs = unat n"
    "ov_vector_setdynamicvalue_strings maxlen maxvec mem mems (Some v) (Some vs) n = (r, Some v')"
  shows "strings_ok maxlen v' \<and>
    (if maxvec \<noteq> 0 \<and> n > maxvec then r = OV_ERR_BADVALUE \<and> v' = v
     else if n \<noteq> 0 \<and> veclen v \<noteq> n \<and> \<not> mem then r = OV_ERR_DBOUTOFMEMORY \<and> veclen v' = veclen v
     else if r = OV_ERR_OK then veclen v' = n \<and> map string_value (strings_of v') = map string_value vs
     else veclen v' = 0)"
proof (cases "maxvec \<noteq> 0 \<and> n > maxvec")
  case True
  then show ?thesis using assms by (simp add: ov_vector_setdynamicvalue_strings_def)
next
  case lim: False
  let ?v = "free_strings maxvec v"
  note fs = free_strings_value [OF assms(1), of maxvec]
  consider (none) "n = 0" | (mem) "n \<noteq> 0" "veclen v \<noteq> n" "\<not> mem" | (set) "n \<noteq> 0" "veclen v = n \<or> mem" by blast
  then show ?thesis
  proof cases
    case none
    then have v': "r = OV_ERR_OK" "v' = free_vector ?v"
      using assms(4) lim by (simp_all add: ov_vector_setdynamicvalue_strings_def Let_def)
    have "veclen v' = 0 \<and> vec_value v' = None"
      using fs v'(2) by (auto simp: free_vector_def strings_ok_def split: if_splits)
    then show ?thesis using none v'(1) assms(3) by (simp add: strings_ok_def strings_of_def)
  next
    case mem
    then show ?thesis
      using assms(4) lim fs by (simp add: ov_vector_setdynamicvalue_strings_def Let_def)
  next
    case set
    have v': "set_strings maxlen maxvec mems (?v\<lparr>veclen := n\<rparr>) (Some vs) n = (r, v')"
      using assms(4) lim set fs
      by (auto simp: ov_vector_setdynamicvalue_strings_def Let_def split: prod.splits)
    obtain q ss where l: "setvec_loop maxlen mems (replicate (unat n) None) vs = (q, ss)" by fastforce
    note lo = setvec_loop_ok [OF l]
    have u: "unat n \<noteq> 0" using set(1) unat_nonzero by blast
    show ?thesis
    proof (cases "Ov_Fail q")
      case True
      then have "r = q" "veclen v' = 0" "vec_value v' = None"
        using v' l lim by (auto simp: set_strings_def ov_string_setvecvalue_def free_vector_def Let_def)
      then show ?thesis using True set lim by (auto simp: strings_ok_def Ov_Fail_def)
    next
      case False
      then have "r = OV_ERR_OK" "veclen v' = n" "vec_value v' = Some (Strings ss)"
        using v' l lim by (auto simp: set_strings_def ov_string_setvecvalue_def Let_def Ov_Fail_def)
      then show ?thesis
        using False set lim lo assms(2,3) by (auto simp: strings_ok_def strings_of_def Ov_Fail_def)
    qed
  qed
qed

lemma setdynamicveclen_strings_result:
  assumes "strings_ok maxlen v"
    "ov_vector_setdynamicveclen_strings maxvec mem (Some v) n = (r, Some v')"
  shows "strings_ok maxlen v' \<and>
    (if maxvec \<noteq> 0 \<and> n > maxvec then r = OV_ERR_BADVALUE \<and> v' = v
     else if n \<noteq> 0 \<and> veclen v \<noteq> n \<and> \<not> mem then r = OV_ERR_DBOUTOFMEMORY \<and> veclen v' = veclen v \<and>
       take (unat n) (strings_of v') = take (unat n) (strings_of v)
     else r = OV_ERR_OK \<and> veclen v' = n \<and>
       strings_of v' = take (unat n) (strings_of v) @ replicate (unat n - unat (veclen v)) None)"
proof (cases "maxvec \<noteq> 0 \<and> n > maxvec")
  case True
  then show ?thesis using assms by (simp add: ov_vector_setdynamicveclen_strings_def)
next
  case lim: False
  have le: "n < veclen v \<longleftrightarrow> unat n < unat (veclen v)" by (simp add: word_less_nat_alt)
  show ?thesis
  proof (cases "veclen v = 0")
    case True
    then have v: "vec_value v = None" using assms(1) by (simp add: strings_ok_def)
    then show ?thesis
      using assms(2) True lim
      by (auto simp: ov_vector_setdynamicveclen_strings_def strings_ok_def strings_of_def free_vector_def db_string_ok_def
          Let_def list_all_iff split: if_splits)
  next
    case False
    then obtain ss where ss: "vec_value v = Some (Strings ss)" "length ss = unat (veclen v)"
      "list_all (db_string_ok maxlen) ss"
      using assms(1) by (auto simp: strings_ok_def)
    have t: "list_all (db_string_ok maxlen) (take k ss @ replicate j None)" for k j
      using ss(3) by (auto simp: list_all_iff db_string_ok_def dest: in_set_takeD)
    consider (none) "n = 0" | (same) "veclen v = n" | (grow) "n \<noteq> 0" "\<not> n < veclen v" "veclen v \<noteq> n" | (cut) "n \<noteq> 0" "n < veclen v"
      by blast
    then show ?thesis
    proof cases
      case none
      then show ?thesis
        using assms(2) False lim ss
        by (auto simp: ov_vector_setdynamicveclen_strings_def strings_ok_def strings_of_def free_vector_def Let_def
            split: if_splits)
    next
      case same
      then show ?thesis
        using assms False lim ss
        by (auto simp: ov_vector_setdynamicveclen_strings_def strings_of_def Let_def split: if_splits)
    next
      case grow
      then show ?thesis
        using assms False lim ss t le
        by (auto simp: ov_vector_setdynamicveclen_strings_def strings_ok_def strings_of_def Let_def split: if_splits)
    next
      case cut
      then show ?thesis
        using assms False lim ss t le
        by (auto simp: ov_vector_setdynamicveclen_strings_def strings_ok_def strings_of_def Let_def split: if_splits)
    qed
  qed
qed

lemma memcmp_zero: "n \<le> length a \<Longrightarrow> n \<le> length b \<Longrightarrow> memcmp n a b = Some 0 \<longleftrightarrow> take n a = take n b"
  by (induction n a b rule: memcmp.induct) auto

lemma compare_strings_zero:
  "n \<le> length a \<Longrightarrow> n \<le> length b \<Longrightarrow>
    compare_strings n a b = Some OV_VECCMP_EQUAL \<longleftrightarrow> map string_value (take n a) = map string_value (take n b)"
  by (induction n a b rule: compare_strings.induct)
    (auto simp: OV_VECCMP_EQUAL_def ov_string_compare_value)

text \<open>The comparison says equal exactly for vectors of equal elements.\<close>

lemma ov_vector_compare_zero:
  "unat n \<le> length a \<Longrightarrow> unat n \<le> length b \<Longrightarrow>
    ov_vector_compare (Some (Strings a)) (Some (Strings b)) n vecsize = Some 0 \<longleftrightarrow>
      map string_value (take (unat n) a) = map string_value (take (unat n) b)"
  "unat vecsize \<le> length c \<Longrightarrow> unat vecsize \<le> length d \<Longrightarrow>
    ov_vector_compare (Some (Bytes c)) (Some (Bytes d)) n vecsize = Some 0 \<longleftrightarrow>
      take (unat vecsize) c = take (unat vecsize) d"
  using compare_strings_zero [of "unat n" a b] memcmp_zero [of "unat vecsize" c d]
  by (simp_all add: ov_vector_compare_def OV_VECCMP_EQUAL_def)

section \<open>Properties\<close>



text \<open>Setting the value of a dynamic vector of strings keeps it well-formed on every path, with every
  string within the limit. On success it has the new values; when a string cannot be set it is
  empty; when there is no memory for the slots it keeps its length, and when the length is over
  the limit it is as before.\<close>

lemma dynamic_vector_strings:
  assumes "strings_ok maxlen v" "length mems = unat n" "length vs = unat n"
    "ov_vector_setdynamicvalue_strings maxlen maxvec mem mems (Some v) (Some vs) n = (r, Some v')"
  shows "strings_ok maxlen v' \<and>
    (if maxvec \<noteq> 0 \<and> n > maxvec then r = OV_ERR_BADVALUE \<and> v' = v
     else if n \<noteq> 0 \<and> veclen v \<noteq> n \<and> \<not> mem then r = OV_ERR_DBOUTOFMEMORY \<and> veclen v' = veclen v
     else if r = OV_ERR_OK then veclen v' = n \<and> map string_value (strings_of v') = map string_value vs
     else veclen v' = 0)"
  by (rule setdynamicvalue_strings_result [OF assms])

end
