(* ===== verification/OvElement.thy ===== *)
theory OvElement
  imports OvString
begin

text \<open>
  core/ov/source/libov/ov_element.c: the elements a path goes through, and the search for children
  and parts of an element. The record \<open>odb\<close> is what the code reads of the object database; the
  children of an object in the association \<open>ov_containment\<close> are a list, in the order of the links.
\<close>

section \<open>The database as the search sees it\<close>

record odb =
  db_root :: objptr
  instantiation_class :: "objptr \<Rightarrow> classptr option"
  base_class :: "classptr \<Rightarrow> classptr option"
  children :: "objptr \<Rightarrow> objptr list"
  container :: "objptr \<Rightarrow> objptr option"
  v_pouterobject :: "objptr \<Rightarrow> objptr option"
  ident_of :: "objptr \<Rightarrow> string"
  is_domain :: "objptr \<Rightarrow> bool"
  is_variable :: "objptr \<Rightarrow> bool"
  is_part :: "objptr \<Rightarrow> bool"
  is_operation :: "objptr \<Rightarrow> bool"
  is_vendor :: "objptr \<Rightarrow> bool"
  v_varprops :: "objptr \<Rightarrow> OV_UINT"
  v_vartype :: "objptr \<Rightarrow> OV_UINT"
  v_offset :: "objptr \<Rightarrow> nat"
  parentrelationship :: "classptr \<Rightarrow> objptr list"
  childrelationship :: "classptr \<Rightarrow> objptr list"
  childrolename :: "objptr \<Rightarrow> string"
  parentrolename :: "objptr \<Rightarrow> string"
  construction :: "objptr \<Rightarrow> objptr option"
  class_instsize :: nat
  is_class :: "objptr \<Rightarrow> bool"
  parentrel_class :: "objptr \<Rightarrow> classptr option"
  childrel_class :: "objptr \<Rightarrow> classptr option"

definition OV_ET_NONE :: OV_UINT where "OV_ET_NONE = 0x00"
definition OV_ET_OBJECT :: OV_UINT where "OV_ET_OBJECT = 0x01"
definition OV_ET_VARIABLE :: OV_UINT where "OV_ET_VARIABLE = 0x02"
definition OV_ET_MEMBER :: OV_UINT where "OV_ET_MEMBER = 0x04"
definition OV_ET_PARENTLINK :: OV_UINT where "OV_ET_PARENTLINK = 0x08"
definition OV_ET_CHILDLINK :: OV_UINT where "OV_ET_CHILDLINK = 0x10"
definition OV_ET_OPERATION :: OV_UINT where "OV_ET_OPERATION = 0x20"
definition OV_ET_ANY :: OV_UINT where "OV_ET_ANY = 0x3F"

lemmas elem_types = OV_ET_NONE_def OV_ET_OBJECT_def OV_ET_VARIABLE_def OV_ET_MEMBER_def
  OV_ET_PARENTLINK_def OV_ET_CHILDLINK_def OV_ET_OPERATION_def OV_ET_ANY_def

definition OV_VP_DERIVED :: OV_UINT where "OV_VP_DERIVED = 0x04"
definition OV_VP_STATIC :: OV_UINT where "OV_VP_STATIC = 0x08"
definition OV_VT_STRUCT :: OV_UINT where "OV_VT_STRUCT = 0x40"
definition OV_VT_KSMASK :: OV_UINT where "OV_VT_KSMASK = 0xffff"

record OV_ELEMENT =
  elemtype :: OV_UINT
  el_pobj :: "objptr option"
  pvalue :: "nat option"
  pvar :: "objptr option"
  elemunion :: "objptr option"

section \<open>Children\<close>

definition search_child :: "odb \<Rightarrow> objptr \<Rightarrow> string \<Rightarrow> objptr option" where
  "search_child db p ident = find (\<lambda>c. strcmp ident (ident_of db c) = 0) (children db p)"

definition no_part :: "OV_ELEMENT \<Rightarrow> OV_ELEMENT" where
  "no_part e = e\<lparr>elemtype := OV_ET_NONE, el_pobj := None\<rparr>"

definition ov_element_searchchild :: "odb \<Rightarrow> OV_ELEMENT \<Rightarrow> OV_ELEMENT \<Rightarrow> string \<Rightarrow> OV_ELEMENT" where
  "ov_element_searchchild db pparent pchild ident =
    (if elemtype pparent \<noteq> OV_ET_OBJECT then no_part pchild
     else case el_pobj pparent of
         None \<Rightarrow> no_part pchild
       | Some p \<Rightarrow>
           if \<not> is_domain db p then no_part pchild
           else case search_child db p ident of
               None \<Rightarrow> no_part pchild
             | Some c \<Rightarrow> pchild\<lparr>elemtype := OV_ET_OBJECT, el_pobj := Some c\<rparr>)"

text \<open>The successor of a child in the list of its container, as \<open>Ov_GetNextChild\<close> reads it.\<close>

fun next_in :: "objptr list \<Rightarrow> objptr \<Rightarrow> objptr option" where
  "next_in [] c = None"
| "next_in (x # xs) c = (if x = c then (case xs of [] \<Rightarrow> None | y # _ \<Rightarrow> Some y) else next_in xs c)"

definition first_of :: "objptr list \<Rightarrow> objptr option" where
  "first_of xs = (case xs of [] \<Rightarrow> None | x # _ \<Rightarrow> Some x)"

definition next_child :: "odb \<Rightarrow> objptr \<Rightarrow> objptr option" where
  "next_child db c = (case container db c of None \<Rightarrow> None | Some p \<Rightarrow> next_in (children db p) c)"

definition ov_element_getnextchild :: "odb \<Rightarrow> OV_ELEMENT \<Rightarrow> OV_ELEMENT \<Rightarrow> OV_RESULT \<times> OV_ELEMENT" where
  "ov_element_getnextchild db pparent pchild =
    (if elemtype pchild \<noteq> OV_ET_NONE \<and> elemtype pchild \<noteq> OV_ET_OBJECT then (OV_ERR_BADPARAM, pchild)
     else if elemtype pparent \<noteq> OV_ET_OBJECT then (OV_ERR_OK, no_part pchild)
     else case el_pobj pparent of
         None \<Rightarrow> (OV_ERR_OK, no_part pchild)
       | Some p \<Rightarrow>
           if \<not> is_domain db p then (OV_ERR_OK, no_part pchild)
           else
             let next = (case el_pobj pchild of
                   Some c \<Rightarrow> if elemtype pchild = OV_ET_OBJECT then next_child db c
                             else first_of (children db p)
                 | None \<Rightarrow> first_of (children db p))
             in (OV_ERR_OK, pchild\<lparr>el_pobj := next,
                  elemtype := if next \<noteq> None then OV_ET_OBJECT else OV_ET_NONE\<rparr>))"

section \<open>Parts\<close>

definition variable_value :: "odb \<Rightarrow> objptr \<Rightarrow> classptr \<Rightarrow> objptr \<Rightarrow> nat option" where
  "variable_value db pobj pclass v =
    (if v_varprops db v AND OV_VP_DERIVED \<noteq> 0 then None
     else if v_varprops db v AND OV_VP_STATIC \<noteq> 0
     then Some (pclass + class_instsize db + v_offset db v)
     else Some (pobj + v_offset db v))"

text \<open>The body of the loop over the classes: \<open>Inl\<close> is a return, \<open>Inr\<close> goes on with the base class.\<close>

definition search_links :: "(objptr \<Rightarrow> string) \<Rightarrow> OV_UINT \<Rightarrow> objptr list \<Rightarrow> string \<Rightarrow> OV_ELEMENT \<Rightarrow>
    OV_ELEMENT + OV_ELEMENT" where
  "search_links role linktype assocs ident e =
    (case find (\<lambda>x. strcmp (role x) ident = 0) assocs of
       Some x \<Rightarrow> Inl (e\<lparr>elemunion := Some x, elemtype := linktype\<rparr>)
     | None \<Rightarrow> Inr (e\<lparr>elemunion := None\<rparr>))"

definition search_members :: "odb \<Rightarrow> objptr \<Rightarrow> OV_UINT \<Rightarrow> string \<Rightarrow> classptr \<Rightarrow> OV_ELEMENT \<Rightarrow>
    OV_ELEMENT + OV_ELEMENT" where
  "search_members db pobj typemask ident pclass e =
    (case search_child db pclass ident of
       None \<Rightarrow> Inr (e\<lparr>elemunion := None\<rparr>)
     | Some m \<Rightarrow>
         let e = e\<lparr>elemunion := Some m\<rparr>
         in if typemask AND OV_ET_VARIABLE \<noteq> 0 \<and> is_variable db m
            then Inl (e\<lparr>elemtype := OV_ET_VARIABLE, pvalue := variable_value db pobj pclass m\<rparr>)
            else if typemask AND OV_ET_OBJECT \<noteq> 0 \<and> is_part db m
            then Inl (e\<lparr>elemtype := OV_ET_OBJECT, el_pobj := Some (pobj + v_offset db m)\<rparr>)
            else if typemask AND OV_ET_OPERATION \<noteq> 0 \<and> is_operation db m
            then Inl (e\<lparr>elemtype := OV_ET_OPERATION\<rparr>)
            else Inl (no_part e))"

definition search_class :: "odb \<Rightarrow> objptr \<Rightarrow> OV_UINT \<Rightarrow> string \<Rightarrow> classptr \<Rightarrow> OV_ELEMENT \<Rightarrow>
    OV_ELEMENT + OV_ELEMENT" where
  "search_class db pobj typemask ident pclass e =
    (case (if typemask AND (OV_ET_VARIABLE OR OV_ET_OBJECT OR OV_ET_OPERATION) \<noteq> 0
           then search_members db pobj typemask ident pclass e else Inr e) of
       Inl r \<Rightarrow> Inl r
     | Inr e \<Rightarrow>
         (case (if typemask AND OV_ET_PARENTLINK \<noteq> 0
                then search_links (childrolename db) OV_ET_PARENTLINK (parentrelationship db pclass) ident e
                else Inr e) of
            Inl r \<Rightarrow> Inl r
          | Inr e \<Rightarrow>
              if typemask AND OV_ET_CHILDLINK \<noteq> 0
              then search_links (parentrolename db) OV_ET_CHILDLINK (childrelationship db pclass) ident e
              else Inr e))"

fun searchpart_object_loop :: "nat \<Rightarrow> odb \<Rightarrow> objptr \<Rightarrow> OV_UINT \<Rightarrow> string \<Rightarrow> classptr option \<Rightarrow> OV_ELEMENT \<Rightarrow>
    OV_ELEMENT option" where
  "searchpart_object_loop fuel db pobj typemask ident None e = Some (no_part e)"
| "searchpart_object_loop 0 db pobj typemask ident (Some c) e = None"
| "searchpart_object_loop (Suc fuel) db pobj typemask ident (Some c) e =
    (case search_class db pobj typemask ident c e of
       Inl r \<Rightarrow> Some r
     | Inr e' \<Rightarrow> searchpart_object_loop fuel db pobj typemask ident (base_class db c) e')"

definition ov_element_searchpart_object :: "nat \<Rightarrow> odb \<Rightarrow> objptr \<Rightarrow> OV_ELEMENT \<Rightarrow> OV_UINT \<Rightarrow> string \<Rightarrow>
    OV_ELEMENT option" where
  "ov_element_searchpart_object fuel db pobj ppart typemask ident =
    searchpart_object_loop fuel db pobj typemask ident (instantiation_class db pobj) ppart"

definition member_value :: "odb \<Rightarrow> objptr \<Rightarrow> nat option \<Rightarrow> objptr \<Rightarrow> nat option" where
  "member_value db v value m =
    (if v_varprops db v AND OV_VP_DERIVED \<noteq> 0 then None
     else Some ((case value of None \<Rightarrow> 0 | Some a \<Rightarrow> a) + v_offset db m))"

definition ov_element_searchpart_variable :: "odb \<Rightarrow> objptr \<Rightarrow> nat option \<Rightarrow> OV_ELEMENT \<Rightarrow> OV_UINT \<Rightarrow> string \<Rightarrow>
    OV_ELEMENT" where
  "ov_element_searchpart_variable db v value ppart typemask ident =
    (case construction db v of
       None \<Rightarrow> no_part ppart
     | Some s \<Rightarrow>
         if typemask AND OV_ET_MEMBER \<noteq> 0 then
           (case search_child db s ident of
              None \<Rightarrow> no_part (ppart\<lparr>elemunion := None\<rparr>)
            | Some m \<Rightarrow>
                let e = ppart\<lparr>elemunion := Some m\<rparr>
                in if is_variable db m
                   then e\<lparr>elemtype := OV_ET_MEMBER, pvalue := member_value db v value m\<rparr>
                   else no_part e)
         else no_part ppart)"

text \<open>The parent element is written too: its \<open>pvar\<close>. \<open>None\<close> is a null pointer read, or a cyclic
  class hierarchy.\<close>

definition ov_element_searchpart :: "nat \<Rightarrow> odb \<Rightarrow> OV_ELEMENT \<Rightarrow> OV_ELEMENT \<Rightarrow> OV_UINT \<Rightarrow> string \<Rightarrow>
    (OV_ELEMENT \<times> OV_ELEMENT) option" where
  "ov_element_searchpart fuel db pparent ppart typemask ident =
    (if elemtype pparent = OV_ET_OBJECT then
       (case el_pobj pparent of
          None \<Rightarrow> None
        | Some p \<Rightarrow> map_option (\<lambda>e. (pparent, e))
            (ov_element_searchpart_object fuel db p (ppart\<lparr>el_pobj := Some p\<rparr>) typemask ident))
     else if elemtype pparent = OV_ET_VARIABLE \<or> elemtype pparent = OV_ET_MEMBER then
       (let pparent = (if elemtype pparent = OV_ET_VARIABLE then pparent\<lparr>pvar := elemunion pparent\<rparr> else pparent);
            e = ppart\<lparr>el_pobj := el_pobj pparent, pvar := pvar pparent\<rparr>
        in case elemunion pparent of
             None \<Rightarrow> None
           | Some v \<Rightarrow> Some (pparent, ov_element_searchpart_variable db v (pvalue pparent) e typemask ident))
     else Some (pparent, no_part ppart))"

end
