(* ===== verification/OvParts.thy ===== *)
theory OvParts
  imports OvElement
begin

text \<open>
  core/ov/source/libov/ov_element.c: the enumeration of the parts of an element
  (\<open>ov_element_getnextpart\<close>), its agreement with the search for a part by name, and the identifiers of
  elements. The parts of an object are those of its class and the classes it is derived from: the
  variables, embedded objects and operations, then the links as a parent, then the links as a child.
\<close>

section \<open>The next part of an object\<close>

definition part_kind :: "odb \<Rightarrow> objptr \<Rightarrow> OV_UINT option" where
  "part_kind db m =
    (if is_variable db m then Some OV_ET_VARIABLE
     else if is_part db m then Some OV_ET_OBJECT
     else if is_operation db m then Some OV_ET_OPERATION
     else None)"

text \<open>The labels CONTINUE1 to CONTINUE3: \<open>Inl\<close> is a return, \<open>Inr\<close> leaves the switch with the class
  at hand. A null pointer has neither children, nor a successor, nor a parent.\<close>

type_synonym switch_result = "(OV_RESULT \<times> OV_ELEMENT) + (classptr option \<times> OV_ELEMENT)"

definition first_in :: "(classptr \<Rightarrow> objptr list) \<Rightarrow> classptr option \<Rightarrow> objptr option" where
  "first_in f pclass = (case pclass of None \<Rightarrow> None | Some c \<Rightarrow> first_of (f c))"

fun at_member :: "nat \<Rightarrow> odb \<Rightarrow> classptr option \<Rightarrow> objptr option \<Rightarrow> OV_ELEMENT \<Rightarrow> switch_result option"
  and at_parentlink :: "nat \<Rightarrow> odb \<Rightarrow> classptr option \<Rightarrow> objptr option \<Rightarrow> OV_ELEMENT \<Rightarrow> switch_result option"
  and at_childlink :: "nat \<Rightarrow> odb \<Rightarrow> classptr option \<Rightarrow> objptr option \<Rightarrow> OV_ELEMENT \<Rightarrow> switch_result option" where
  "at_member fuel db pclass (Some x) e =
    (case part_kind db x of
       None \<Rightarrow> Some (Inl (OV_ERR_GENERIC, e\<lparr>elemunion := Some x\<rparr>))
     | Some t \<Rightarrow> Some (Inr (pclass, e\<lparr>elemunion := Some x, elemtype := t\<rparr>)))"
| "at_member fuel db pclass None e =
    at_parentlink fuel db pclass (first_in (parentrelationship db) pclass) (e\<lparr>elemunion := None\<rparr>)"
| "at_parentlink fuel db pclass (Some x) e =
    Some (Inr (pclass, e\<lparr>elemunion := Some x, elemtype := OV_ET_PARENTLINK\<rparr>))"
| "at_parentlink fuel db pclass None e =
    at_childlink fuel db pclass (first_in (childrelationship db) pclass) (e\<lparr>elemunion := None\<rparr>)"
| "at_childlink fuel db pclass (Some x) e =
    Some (Inr (pclass, e\<lparr>elemunion := Some x, elemtype := OV_ET_CHILDLINK\<rparr>))"
| "at_childlink 0 db pclass None e = None"
| "at_childlink (Suc fuel) db pclass None e =
    (case (case pclass of None \<Rightarrow> None | Some c \<Rightarrow> base_class db c) of
       None \<Rightarrow> Some (Inl (OV_ERR_OK, e\<lparr>elemtype := OV_ET_NONE, elemunion := None\<rparr>))
     | Some base \<Rightarrow> at_member fuel db (Some base) (first_of (children db base)) e)"

text \<open>The switch, with no branch for the other types.\<close>

definition next_part :: "nat \<Rightarrow> odb \<Rightarrow> objptr option \<Rightarrow> OV_ELEMENT \<Rightarrow> switch_result option" where
  "next_part fuel db pobj e =
    (if elemtype e = OV_ET_NONE then
       (let pclass = (case pobj of None \<Rightarrow> None | Some p \<Rightarrow> instantiation_class db p)
        in at_member fuel db pclass (first_in (children db) pclass) e)
     else if elemtype e = OV_ET_VARIABLE \<or> elemtype e = OV_ET_OBJECT \<or> elemtype e = OV_ET_OPERATION then
       (case elemunion e of
          None \<Rightarrow> Some (Inl (OV_ERR_GENERIC, e))
        | Some x \<Rightarrow>
            (case container db x of
               None \<Rightarrow> Some (Inl (OV_ERR_GENERIC, e))
             | Some pclass \<Rightarrow>
                 if \<not> is_class db pclass then Some (Inl (OV_ERR_GENERIC, e))
                 else at_member fuel db (Some pclass) (next_child db x) e))
     else if elemtype e = OV_ET_PARENTLINK then
       (case elemunion e of
          None \<Rightarrow> at_parentlink fuel db None None e
        | Some x \<Rightarrow>
            (let pclass = parentrel_class db x
             in at_parentlink fuel db pclass
               (case pclass of None \<Rightarrow> None | Some c \<Rightarrow> next_in (parentrelationship db c) x) e))
     else if elemtype e = OV_ET_CHILDLINK then
       (case elemunion e of
          None \<Rightarrow> at_childlink fuel db None None e
        | Some x \<Rightarrow>
            (let pclass = childrel_class db x
             in at_childlink fuel db pclass
               (case pclass of None \<Rightarrow> None | Some c \<Rightarrow> next_in (childrelationship db c) x) e))
     else Some (Inr (None, e)))"

text \<open>The value of a variable, the address of an embedded object; a null pointer counts as 0 in sums.\<close>

definition address :: "nat option \<Rightarrow> nat" where
  "address p = (case p of None \<Rightarrow> 0 | Some a \<Rightarrow> a)"

definition set_part :: "odb \<Rightarrow> objptr option \<Rightarrow> classptr option \<Rightarrow> OV_ELEMENT \<Rightarrow> OV_ELEMENT" where
  "set_part db pobj pclass e =
    (let x = address (elemunion e)
     in if elemtype e = OV_ET_VARIABLE
        then e\<lparr>pvalue := variable_value db (address pobj) (address pclass) x\<rparr>
        else if elemtype e = OV_ET_OBJECT then e\<lparr>el_pobj := Some (address pobj + v_offset db x)\<rparr>
        else e)"

fun ov_element_getnextpart_object :: "nat \<Rightarrow> odb \<Rightarrow> objptr option \<Rightarrow> OV_ELEMENT \<Rightarrow> OV_UINT \<Rightarrow> (OV_RESULT \<times> OV_ELEMENT) option" where
  "ov_element_getnextpart_object 0 db pobj e typemask = None"
| "ov_element_getnextpart_object (Suc fuel) db pobj e typemask =
    (case next_part fuel db pobj e of
       None \<Rightarrow> None
     | Some (Inl r) \<Rightarrow> Some r
     | Some (Inr (pclass, e)) \<Rightarrow>
         if elemtype e AND typemask \<noteq> 0 then Some (OV_ERR_OK, set_part db pobj pclass e)
         else ov_element_getnextpart_object fuel db pobj e typemask)"

section \<open>The next member of a structure\<close>

definition no_more_parts :: "OV_ELEMENT \<Rightarrow> OV_ELEMENT" where
  "no_more_parts e = e\<lparr>elemtype := OV_ET_NONE, elemunion := None\<rparr>"

definition ov_element_getnextpart_variable :: "odb \<Rightarrow> objptr option \<Rightarrow> nat option \<Rightarrow> OV_ELEMENT \<Rightarrow> OV_UINT \<Rightarrow>
    OV_ELEMENT option" where
  "ov_element_getnextpart_variable db pv value e typemask =
    (if typemask AND OV_ET_MEMBER = 0 then Some (no_more_parts e)
     else
       let next =
         (if elemtype e = OV_ET_NONE then
            (case pv of
               None \<Rightarrow> None
             | Some v \<Rightarrow> (case construction db v of None \<Rightarrow> None | Some s \<Rightarrow> first_of (children db s)))
          else if elemtype e = OV_ET_MEMBER then
            (case elemunion e of None \<Rightarrow> None | Some m \<Rightarrow> next_child db m)
          else None)
       in case next of
            None \<Rightarrow> Some (no_more_parts e)
          | Some m \<Rightarrow>
              (case pv of
                 None \<Rightarrow> None
               | Some v \<Rightarrow> Some (e\<lparr>elemunion := Some m, elemtype := OV_ET_MEMBER, pvalue := member_value db v value m\<rparr>)))"

section \<open>The next part of an element\<close>

text \<open>The parent element is written too: its \<open>pvar\<close>.\<close>

definition ov_element_getnextpart :: "nat \<Rightarrow> odb \<Rightarrow> OV_ELEMENT \<Rightarrow> OV_ELEMENT \<Rightarrow> OV_UINT \<Rightarrow>
    (OV_RESULT \<times> OV_ELEMENT \<times> OV_ELEMENT) option" where
  "ov_element_getnextpart fuel db pparent ppart typemask =
    (if elemtype pparent = OV_ET_OBJECT then
       map_option (\<lambda>(r, e). (r, pparent, e))
         (ov_element_getnextpart_object fuel db (el_pobj pparent) (ppart\<lparr>el_pobj := el_pobj pparent\<rparr>) typemask)
     else if elemtype pparent = OV_ET_VARIABLE \<or> elemtype pparent = OV_ET_MEMBER then
       (let pparent = (if elemtype pparent = OV_ET_VARIABLE then pparent\<lparr>pvar := elemunion pparent\<rparr> else pparent);
            e = ppart\<lparr>el_pobj := el_pobj pparent, pvar := pvar pparent\<rparr>
        in map_option (\<lambda>e. (OV_ERR_OK, pparent, e))
             (ov_element_getnextpart_variable db (elemunion pparent) (pvalue pparent) e typemask))
     else Some (OV_ERR_OK, pparent, no_part ppart))"

text \<open>How the clients of the function go through the parts: until the type is \<open>OV_ET_NONE\<close>.\<close>

fun enum_parts :: "nat \<Rightarrow> nat \<Rightarrow> odb \<Rightarrow> OV_ELEMENT \<Rightarrow> OV_UINT \<Rightarrow> OV_ELEMENT \<Rightarrow> OV_ELEMENT list option" where
  "enum_parts 0 fuel db pparent typemask e = None"
| "enum_parts (Suc n) fuel db pparent typemask e =
    (case ov_element_getnextpart fuel db pparent e typemask of
       None \<Rightarrow> None
     | Some (r, pparent, e) \<Rightarrow>
         if Ov_Fail r then None
         else if elemtype e = OV_ET_NONE then Some []
         else map_option ((#) e) (enum_parts n fuel db pparent typemask e))"

section \<open>Identifiers\<close>

definition ov_element_getidentifier :: "odb \<Rightarrow> OV_ELEMENT option \<Rightarrow> string option" where
  "ov_element_getidentifier db pelem =
    (case pelem of
       None \<Rightarrow> Some []
     | Some e \<Rightarrow>
         if elemtype e = OV_ET_OBJECT then map_option (ident_of db) (el_pobj e)
         else if elemtype e = OV_ET_VARIABLE \<or> elemtype e = OV_ET_MEMBER then map_option (ident_of db) (elemunion e)
         else if elemtype e = OV_ET_PARENTLINK then map_option (childrolename db) (elemunion e)
         else if elemtype e = OV_ET_CHILDLINK then map_option (parentrolename db) (elemunion e)
         else if elemtype e = OV_ET_OPERATION then map_option (ident_of db) (elemunion e)
         else Some [])"

section \<open>The parts in their order\<close>

text \<open>A part is its class, its type and its element.\<close>

type_synonym part = "classptr \<times> OV_UINT \<times> objptr"

definition member_part :: "odb \<Rightarrow> classptr \<Rightarrow> objptr \<Rightarrow> part" where
  "member_part db c m = (c, (case part_kind db m of None \<Rightarrow> OV_ET_NONE | Some t \<Rightarrow> t), m)"

definition class_parts :: "odb \<Rightarrow> classptr \<Rightarrow> part list" where
  "class_parts db c = map (member_part db c) (children db c) @
     map (\<lambda>x. (c, OV_ET_PARENTLINK, x)) (parentrelationship db c) @
     map (\<lambda>x. (c, OV_ET_CHILDLINK, x)) (childrelationship db c)"

definition all_parts :: "odb \<Rightarrow> classptr list \<Rightarrow> part list" where
  "all_parts db cs = concat (map (class_parts db) cs)"

text \<open>The classes an object takes its parts from, and what holds of them in a loaded database.\<close>

fun class_chain :: "odb \<Rightarrow> classptr option \<Rightarrow> classptr list \<Rightarrow> bool" where
  "class_chain db c [] \<longleftrightarrow> c = None"
| "class_chain db c (k # ks) \<longleftrightarrow> c = Some k \<and> class_chain db (base_class db k) ks"

definition class_ok :: "odb \<Rightarrow> classptr \<Rightarrow> bool" where
  "class_ok db c \<longleftrightarrow> is_class db c \<and>
     distinct (children db c) \<and> distinct (parentrelationship db c) \<and> distinct (childrelationship db c) \<and>
     (\<forall>m \<in> set (children db c). container db m = Some c \<and> part_kind db m \<noteq> None) \<and>
     (\<forall>x \<in> set (parentrelationship db c). parentrel_class db x = Some c) \<and>
     (\<forall>x \<in> set (childrelationship db c). childrel_class db x = Some c)"

definition classes_ok :: "odb \<Rightarrow> classptr list \<Rightarrow> bool" where
  "classes_ok db cs \<longleftrightarrow> distinct cs \<and> (\<forall>c \<in> set cs. class_ok db c)"

text \<open>What the switch answers when \<open>ps\<close> are the parts to come.\<close>

fun answers :: "odb \<Rightarrow> part list \<Rightarrow> OV_ELEMENT \<Rightarrow> switch_result option \<Rightarrow> bool" where
  "answers db [] e r \<longleftrightarrow> r = Some (Inl (OV_ERR_OK, no_more_parts e))"
| "answers db ((c, t, x) # ps) e r \<longleftrightarrow> r = Some (Inr (Some c, e\<lparr>elemunion := Some x, elemtype := t\<rparr>))"

lemma answers_elemunion [simp]: "answers db ps (e\<lparr>elemunion := u\<rparr>) r \<longleftrightarrow> answers db ps e r"
  by (cases ps) (auto simp: no_more_parts_def)

lemma first_of_simps [simp]: "first_of [] = None" "first_of (x # xs) = Some x"
  by (simp_all add: first_of_def)

lemma first_in_simps [simp]: "first_in f (Some c) = first_of (f c)" "first_in f None = None"
  by (simp_all add: first_in_def)

lemma next_in_split: "distinct (xs @ x # ys) \<Longrightarrow> next_in (xs @ x # ys) x = first_of ys"
  by (induction xs) (auto simp: first_of_def split: list.splits)

lemma at_childlink_answers:
  assumes "\<And>fuel e. length bs < fuel \<Longrightarrow> bs \<noteq> [] \<Longrightarrow>
    answers db (all_parts db bs) e (at_member fuel db (Some (hd bs)) (first_of (children db (hd bs))) e)"
    "class_chain db (base_class db c) bs" "Suc (length bs) < fuel"
  shows "answers db (map (\<lambda>x. (c, OV_ET_CHILDLINK, x)) xs @ all_parts db bs) e
    (at_childlink fuel db (Some c) (first_of xs) e)"
proof (cases xs)
  case Nil
  obtain f where f: "fuel = Suc f" using assms(3) by (cases fuel) auto
  show ?thesis
  proof (cases bs)
    case Nil
    then show ?thesis using assms(2) \<open>xs = []\<close> f by (simp add: all_parts_def no_more_parts_def)
  next
    case (Cons b bs')
    then show ?thesis using assms(1) [of f e] assms(2,3) \<open>xs = []\<close> f by simp
  qed
qed (simp add: first_of_def)

lemma at_parentlink_answers:
  assumes "answers db (map (\<lambda>x. (c, OV_ET_CHILDLINK, x)) (childrelationship db c) @ ps) e
    (at_childlink fuel db (Some c) (first_of (childrelationship db c)) (e\<lparr>elemunion := None\<rparr>))"
  shows "answers db (map (\<lambda>x. (c, OV_ET_PARENTLINK, x)) xs @
      map (\<lambda>x. (c, OV_ET_CHILDLINK, x)) (childrelationship db c) @ ps) e
    (at_parentlink fuel db (Some c) (first_of xs) e)"
  using assms by (cases xs) simp_all

abbreviation parent_parts :: "odb \<Rightarrow> classptr \<Rightarrow> part list" where
  "parent_parts db c \<equiv> map (\<lambda>x. (c, OV_ET_PARENTLINK, x)) (parentrelationship db c)"

abbreviation child_parts :: "odb \<Rightarrow> classptr \<Rightarrow> part list" where
  "child_parts db c \<equiv> map (\<lambda>x. (c, OV_ET_CHILDLINK, x)) (childrelationship db c)"

lemma all_parts_Cons [simp]:
  "all_parts db (c # bs) = map (member_part db c) (children db c) @ parent_parts db c @ child_parts db c @ all_parts db bs"
  by (simp add: all_parts_def class_parts_def)

lemma all_parts_append: "all_parts db (as @ bs) = all_parts db as @ all_parts db bs"
  by (simp add: all_parts_def)

lemma all_parts_Nil [simp]: "all_parts db [] = []"
  by (simp add: all_parts_def)

text \<open>The switch continues with the first of the parts to come, over the classes that have none.\<close>

lemma member_answers_if:
  assumes "\<And>xs e. answers db (map (\<lambda>x. (c, OV_ET_CHILDLINK, x)) xs @ ps) e
      (at_childlink fuel db (Some c) (first_of xs) e)"
    "\<forall>m \<in> set ms. part_kind db m \<noteq> None"
  shows "answers db (map (member_part db c) ms @ parent_parts db c @ child_parts db c @ ps) e
      (at_member fuel db (Some c) (first_of ms) e)"
proof -
  have "answers db (child_parts db c @ ps) e
      (at_childlink fuel db (Some c) (first_of (childrelationship db c)) (e\<lparr>elemunion := None\<rparr>))" for e
    using assms(1) [of "childrelationship db c" "e\<lparr>elemunion := None\<rparr>"] by simp
  then have "answers db (parent_parts db c @ child_parts db c @ ps) e'
      (at_parentlink fuel db (Some c) (first_of (parentrelationship db c)) e')" for e'
    by (rule at_parentlink_answers)
  from this [of "e\<lparr>elemunion := None\<rparr>"] show ?thesis
    using assms(2) by (cases ms) (auto simp: member_part_def)
qed

lemma childlinks_answer:
  "class_chain db (base_class db c) bs \<Longrightarrow> \<forall>b \<in> set bs. class_ok db b \<Longrightarrow> Suc (length bs) < fuel \<Longrightarrow>
    answers db (map (\<lambda>x. (c, OV_ET_CHILDLINK, x)) xs @ all_parts db bs) e
      (at_childlink fuel db (Some c) (first_of xs) e)"
proof (induction bs arbitrary: c xs fuel e)
  case Nil
  then show ?case by (intro at_childlink_answers) simp_all
next
  case (Cons b bs)
  have m: "\<forall>m \<in> set (children db b). part_kind db m \<noteq> None" using Cons.prems(2) by (simp add: class_ok_def)
  show ?case
  proof (rule at_childlink_answers)
    show "answers db (all_parts db (b # bs)) e'
        (at_member f db (Some (hd (b # bs))) (first_of (children db (hd (b # bs)))) e')"
      if "length (b # bs) < f" for f e'
    proof -
      have "answers db (map (member_part db b) (children db b) @ parent_parts db b @ child_parts db b @ all_parts db bs) e'
          (at_member f db (Some b) (first_of (children db b)) e')"
        by (rule member_answers_if [OF Cons.IH m]) (use Cons.prems(1,2) that in simp_all)
      then show ?thesis by simp
    qed
  qed (use Cons.prems in simp_all)
qed

lemmas at_member_answers = member_answers_if [OF childlinks_answer]

lemma part_kind_types:
  "part_kind db m = Some t \<Longrightarrow> t = OV_ET_VARIABLE \<or> t = OV_ET_OBJECT \<or> t = OV_ET_OPERATION"
  by (auto simp: part_kind_def split: if_splits)

lemma member_part_type:
  "class_ok db c \<Longrightarrow> m \<in> set (children db c) \<Longrightarrow> member_part db c m = (c', t, x) \<Longrightarrow>
    c' = c \<and> x = m \<and> part_kind db m = Some t \<and> (t = OV_ET_VARIABLE \<or> t = OV_ET_OBJECT \<or> t = OV_ET_OPERATION)"
  using part_kind_types [of db m t] by (auto simp: member_part_def class_ok_def split: option.splits)

lemma distinct_class_parts:
  assumes "class_ok db c"
  shows "distinct (class_parts db c)"
proof -
  have "(c, t, x) \<notin> member_part db c ` set (children db c)" if "t = OV_ET_PARENTLINK \<or> t = OV_ET_CHILDLINK" for t x
  proof
    assume "(c, t, x) \<in> member_part db c ` set (children db c)"
    then obtain m where "m \<in> set (children db c)" "member_part db c m = (c, t, x)" by fastforce
    then show False using member_part_type [OF assms] that by (fastforce simp: elem_types)
  qed
  moreover have "inj_on (member_part db c) A" for A by (simp add: inj_on_def member_part_def)
  ultimately show ?thesis
    using assms by (fastforce simp: class_parts_def class_ok_def distinct_map inj_on_def elem_types)
qed

lemma class_of_part: "(c', t, x) \<in> set (class_parts db c) \<Longrightarrow> c' = c"
  by (auto simp: class_parts_def member_part_def)

lemma distinct_all_parts: "classes_ok db cs \<Longrightarrow> distinct (all_parts db cs)"
proof (induction cs)
  case (Cons c cs)
  have "set (class_parts db c) \<inter> set (all_parts db cs) = {}"
  proof (rule ccontr)
    assume "\<not> ?thesis"
    then obtain d k t x where "(k, t, x) \<in> set (class_parts db c)" "d \<in> set cs" "(k, t, x) \<in> set (class_parts db d)"
      by (auto simp: all_parts_def)
    then have "c = d" using class_of_part by metis
    then show False using Cons.prems \<open>d \<in> set cs\<close> by (simp add: classes_ok_def)
  qed
  then show ?case
    using Cons distinct_class_parts [of db c] by (simp add: classes_ok_def all_parts_def)
qed simp

lemma distinct_split: "distinct (xs @ a # ys) \<Longrightarrow> xs @ a # ys = xs' @ a # ys' \<Longrightarrow> ys = ys'"
  by (metis append_Cons_eq_iff distinct.simps(2) distinct_append not_distinct_conv_prefix)

lemma chain_suffix: "class_chain db c (as @ k # bs) \<Longrightarrow> class_chain db (base_class db k) bs"
  by (induction as arbitrary: c) auto

text \<open>From a part the switch goes to the part behind it.\<close>

lemma next_part_answers:
  assumes "classes_ok db cs" "class_chain db k cs" "all_parts db cs = pre @ (c, t, x) # post" "Suc (length cs) < fuel"
    "elemtype e = t" "elemunion e = Some x"
  shows "answers db post e (next_part fuel db p e)"
proof -
  have dis: "distinct (pre @ (c, t, x) # post)" using distinct_all_parts [OF assms(1)] assms(3) by simp
  have "(c, t, x) \<in> set (all_parts db cs)" using assms(3) by simp
  then have c: "c \<in> set cs" "(c, t, x) \<in> set (class_parts db c)"
    using class_of_part by (fastforce simp: all_parts_def)+
  obtain as bs where cs: "cs = as @ c # bs" using c(1) by (meson split_list)
  have ok: "class_ok db c" "\<forall>b \<in> set bs. class_ok db b" using assms(1) cs by (auto simp: classes_ok_def)
  have ch: "class_chain db (base_class db c) bs" using assms(2) cs chain_suffix by blast
  have fu: "Suc (length bs) < fuel" using assms(4) cs by simp
  have post: "post = ys" if "all_parts db cs = xs @ (c, t, x) # ys" for xs ys
    by (rule distinct_split [OF dis, of xs ys]) (use assms(3) that in simp)
  consider (mem) "x \<in> set (children db c)" "member_part db c x = (c, t, x)"
    | (par) "t = OV_ET_PARENTLINK" "x \<in> set (parentrelationship db c)"
    | (chi) "t = OV_ET_CHILDLINK" "x \<in> set (childrelationship db c)"
    using c(2) by (auto simp: class_parts_def member_part_def)
  then show ?thesis
  proof cases
    case mem
    obtain xs ys where s: "children db c = xs @ x # ys" using mem(1) by (meson split_list)
    have t: "t = OV_ET_VARIABLE \<or> t = OV_ET_OBJECT \<or> t = OV_ET_OPERATION"
      using member_part_type [OF ok(1) mem] by simp
    have o: "container db x = Some c" "is_class db c" "distinct (xs @ x # ys)"
      "\<forall>m \<in> set ys. part_kind db m \<noteq> None"
      using ok(1) mem(1) s by (auto simp: class_ok_def)
    have n: "next_part fuel db p e = at_member fuel db (Some c) (first_of ys) e"
      using t assms(5,6) o next_in_split [OF o(3)] s by (auto simp: next_part_def next_child_def elem_types)
    have "post = map (member_part db c) ys @ parent_parts db c @ child_parts db c @ all_parts db bs"
      using s mem(2) by (intro post [of "all_parts db as @ map (member_part db c) xs"]) (simp add: cs all_parts_append)
    then show ?thesis using at_member_answers [OF ch ok(2) fu o(4)] n by simp
  next
    case par
    obtain xs ys where s: "parentrelationship db c = xs @ x # ys" using par(2) by (meson split_list)
    have o: "parentrel_class db x = Some c" "distinct (xs @ x # ys)"
      using ok(1) par(2) s by (auto simp: class_ok_def)
    have n: "next_part fuel db p e = at_parentlink fuel db (Some c) (first_of ys) e"
      using par assms(5,6) o next_in_split [OF o(2)] s by (auto simp: next_part_def elem_types)
    have "post = map (\<lambda>x. (c, OV_ET_PARENTLINK, x)) ys @ child_parts db c @ all_parts db bs"
      using s par(1) by (intro post [of "all_parts db as @ map (member_part db c) (children db c) @
          map (\<lambda>x. (c, OV_ET_PARENTLINK, x)) xs"]) (simp add: cs all_parts_append)
    moreover have "answers db (child_parts db c @ all_parts db bs) e
        (at_childlink fuel db (Some c) (first_of (childrelationship db c)) (e\<lparr>elemunion := None\<rparr>))"
      using childlinks_answer [OF ch ok(2) fu] by (metis answers_elemunion)
    ultimately show ?thesis using n by (simp add: at_parentlink_answers)
  next
    case chi
    obtain xs ys where s: "childrelationship db c = xs @ x # ys" using chi(2) by (meson split_list)
    have o: "childrel_class db x = Some c" "distinct (xs @ x # ys)"
      using ok(1) chi(2) s by (auto simp: class_ok_def)
    have n: "next_part fuel db p e = at_childlink fuel db (Some c) (first_of ys) e"
      using chi assms(5,6) o next_in_split [OF o(2)] s by (auto simp: next_part_def elem_types)
    have "post = map (\<lambda>x. (c, OV_ET_CHILDLINK, x)) ys @ all_parts db bs"
      using s chi(1) by (intro post [of "all_parts db as @ map (member_part db c) (children db c) @
          parent_parts db c @ map (\<lambda>x. (c, OV_ET_CHILDLINK, x)) xs"]) (simp add: cs all_parts_append)
    then show ?thesis using childlinks_answer [OF ch ok(2) fu] n by simp
  qed
qed

section \<open>The enumeration\<close>

abbreviation wanted :: "OV_UINT \<Rightarrow> part \<Rightarrow> bool" where
  "wanted typemask \<equiv> \<lambda>(c, t, x). t AND typemask \<noteq> 0"

text \<open>The element shows the last part of \<open>pre\<close>, or none yet.\<close>

definition stands_at :: "part list \<Rightarrow> OV_ELEMENT \<Rightarrow> bool" where
  "stands_at pre e \<longleftrightarrow>
    (if pre = [] then elemtype e = OV_ET_NONE
     else elemtype e = fst (snd (last pre)) \<and> elemunion e = Some (snd (snd (last pre))))"

lemma stands_at_el_pobj [simp]: "stands_at pre (e\<lparr>el_pobj := q\<rparr>) \<longleftrightarrow> stands_at pre e"
  by (simp add: stands_at_def)

lemma next_part_from:
  assumes "classes_ok db cs" "class_chain db (instantiation_class db p) cs" "all_parts db cs = pre @ post"
    "stands_at pre e" "Suc (length cs) < fuel"
  shows "answers db post e (next_part fuel db (Some p) e)"
proof (cases pre rule: rev_cases)
  case (snoc pre' a)
  obtain c t x where a: "a = (c, t, x)" by (cases a)
  show ?thesis
    by (rule next_part_answers [OF assms(1,2) _ assms(5), of pre' c t x])
      (use assms(3,4) snoc a in \<open>simp_all add: stands_at_def\<close>)
next
  case Nil
  then have n: "next_part fuel db (Some p) e =
      at_member fuel db (instantiation_class db p) (first_in (children db) (instantiation_class db p)) e"
    using assms(4) by (simp add: stands_at_def next_part_def Let_def)
  show ?thesis
  proof (cases cs)
    case Nil
    obtain f where "fuel = Suc f" using assms(5) by (cases fuel) auto
    then show ?thesis
      using n assms(2,3) Nil \<open>pre = []\<close> by (simp add: no_more_parts_def)
  next
    case (Cons c bs)
    have "\<forall>m \<in> set (children db c). part_kind db m \<noteq> None" "\<forall>b \<in> set bs. class_ok db b"
      using assms(1) Cons by (auto simp: classes_ok_def class_ok_def)
    then have "answers db (all_parts db cs) e (at_member fuel db (Some c) (first_of (children db c)) e)"
      using at_member_answers [of db c bs fuel "children db c" e] assms(2,5) Cons by simp
    then show ?thesis using n assms(2,3) Cons \<open>pre = []\<close> by simp
  qed
qed

text \<open>The loop skips the parts of other types.\<close>

lemma getnextpart_object_answers:
  "classes_ok db cs \<Longrightarrow> class_chain db (instantiation_class db p) cs \<Longrightarrow> all_parts db cs = pre @ post \<Longrightarrow>
    stands_at pre e \<Longrightarrow> Suc (Suc (length cs)) + length post < fuel \<Longrightarrow>
    (\<forall>a \<in> set post. \<not> wanted typemask a) \<and>
      ov_element_getnextpart_object fuel db (Some p) e typemask = Some (OV_ERR_OK, no_more_parts e) \<or>
    (\<exists>skip c t x rest. post = skip @ (c, t, x) # rest \<and> (\<forall>a \<in> set skip. \<not> wanted typemask a) \<and>
      wanted typemask (c, t, x) \<and>
      ov_element_getnextpart_object fuel db (Some p) e typemask =
        Some (OV_ERR_OK, set_part db (Some p) (Some c) (e\<lparr>elemunion := Some x, elemtype := t\<rparr>)))"
proof (induction post arbitrary: pre e fuel)
  case Nil
  obtain f where f: "fuel = Suc f" "Suc (length cs) < f" using Nil.prems(5) by (cases fuel) auto
  have "next_part f db (Some p) e = Some (Inl (OV_ERR_OK, no_more_parts e))"
    using next_part_from [OF Nil.prems(1-4) f(2)] by simp
  then show ?case using f by simp
next
  case (Cons a post)
  obtain c t x where a: "a = (c, t, x)" by (cases a)
  obtain f where f: "fuel = Suc f" "Suc (length cs) < f" "Suc (Suc (length cs)) + length post < f"
    using Cons.prems(5) by (cases fuel) auto
  let ?e = "e\<lparr>elemunion := Some x, elemtype := t\<rparr>"
  have n: "next_part f db (Some p) e = Some (Inr (Some c, ?e))"
    using next_part_from [OF Cons.prems(1-4) f(2)] a by simp
  show ?case
  proof (cases "t AND typemask \<noteq> 0")
    case True
    then show ?thesis using n f a by (intro disjI2 exI [of _ "[]"]) simp
  next
    case False
    then have s: "ov_element_getnextpart_object fuel db (Some p) e typemask =
        ov_element_getnextpart_object f db (Some p) ?e typemask"
      using n f by simp
    have "stands_at (pre @ [a]) ?e" using a by (simp add: stands_at_def)
    from Cons.IH [OF Cons.prems(1,2) _ this f(3)] Cons.prems(3)
    consider "\<forall>a \<in> set post. \<not> wanted typemask a"
        "ov_element_getnextpart_object f db (Some p) ?e typemask = Some (OV_ERR_OK, no_more_parts ?e)"
      | skip c' t' x' rest where "post = skip @ (c', t', x') # rest" "\<forall>a \<in> set skip. \<not> wanted typemask a"
        "wanted typemask (c', t', x')" "ov_element_getnextpart_object f db (Some p) ?e typemask =
          Some (OV_ERR_OK, set_part db (Some p) (Some c') (?e\<lparr>elemunion := Some x', elemtype := t'\<rparr>))"
      by auto
    then show ?thesis
    proof cases
      case 1
      then show ?thesis using s False a by (simp add: no_more_parts_def)
    next
      case 2
      show ?thesis
        by (rule disjI2, rule exI [of _ "a # skip"], rule exI [of _ c'], rule exI [of _ t'], rule exI [of _ x'],
            rule exI [of _ rest]) (use 2 s False a in simp)
    qed
  qed
qed

definition shows_part :: "odb \<Rightarrow> objptr \<Rightarrow> part \<Rightarrow> OV_ELEMENT \<Rightarrow> bool" where
  "shows_part db p = (\<lambda>(c, t, x) e. elemtype e = t \<and> elemunion e = Some x \<and>
     el_pobj e = Some (if t = OV_ET_OBJECT then p + v_offset db x else p) \<and>
     (t = OV_ET_VARIABLE \<longrightarrow> pvalue e = variable_value db p c x))"

lemma set_part_shows:
  assumes "el_pobj e = Some p"
  shows "shows_part db p (c, t, x) (set_part db (Some p) (Some c) (e\<lparr>elemunion := Some x, elemtype := t\<rparr>))"
  using assms by (simp add: shows_part_def set_part_def address_def Let_def elem_types)

lemma part_type_not_none:
  assumes "classes_ok db cs" "(c, t, x) \<in> set (all_parts db cs)"
  shows "t \<noteq> OV_ET_NONE"
proof -
  obtain d where d: "d \<in> set cs" "(c, t, x) \<in> set (class_parts db d)" using assms(2) by (auto simp: all_parts_def)
  then have "class_ok db d" using assms(1) by (simp add: classes_ok_def)
  then show ?thesis using d(2) member_part_type [of db d _ c t x] by (fastforce simp: class_parts_def elem_types)
qed

lemma filter_skip:
  "\<forall>a \<in> set skip. \<not> P a \<Longrightarrow> P b \<Longrightarrow> filter P (skip @ b # rest) = b # filter P rest"
  by simp

lemma enum_parts_from:
  "classes_ok db cs \<Longrightarrow> class_chain db (instantiation_class db p) cs \<Longrightarrow> all_parts db cs = pre @ post \<Longrightarrow>
    stands_at pre e \<Longrightarrow> Suc (Suc (length cs)) + length post < fuel \<Longrightarrow> length post < n \<Longrightarrow>
    elemtype pparent = OV_ET_OBJECT \<Longrightarrow> el_pobj pparent = Some p \<Longrightarrow>
    \<exists>es. enum_parts n fuel db pparent typemask e = Some es \<and>
      list_all2 (shows_part db p) (filter (wanted typemask) post) es"
proof (induction n arbitrary: pre post e)
  case (Suc n)
  let ?e = "e\<lparr>el_pobj := Some p\<rparr>"
  have st: "stands_at pre ?e" using Suc.prems(4) by simp
  have g: "ov_element_getnextpart fuel db pparent e typemask =
      map_option (\<lambda>(r, e). (r, pparent, e)) (ov_element_getnextpart_object fuel db (Some p) ?e typemask)"
    using Suc.prems(7,8) by (simp add: ov_element_getnextpart_def)
  from getnextpart_object_answers [OF Suc.prems(1-3) st Suc.prems(5), of typemask]
  consider (fin) "\<forall>a \<in> set post. \<not> wanted typemask a"
      "ov_element_getnextpart_object fuel db (Some p) ?e typemask = Some (OV_ERR_OK, no_more_parts ?e)"
    | (part) skip c t x rest where "post = skip @ (c, t, x) # rest" "\<forall>a \<in> set skip. \<not> wanted typemask a"
      "wanted typemask (c, t, x)" "ov_element_getnextpart_object fuel db (Some p) ?e typemask =
        Some (OV_ERR_OK, set_part db (Some p) (Some c) (?e\<lparr>elemunion := Some x, elemtype := t\<rparr>))"
    by auto
  then show ?case
  proof cases
    case fin
    then have "filter (wanted typemask) post = []" by (simp add: filter_empty_conv)
    then show ?thesis using fin(2) g by (simp add: Ov_Fail_def no_more_parts_def)
  next
    case part
    let ?f = "set_part db (Some p) (Some c) (?e\<lparr>elemunion := Some x, elemtype := t\<rparr>)"
    have sh: "shows_part db p (c, t, x) ?f" by (rule set_part_shows) simp
    have "t \<noteq> OV_ET_NONE"
      using part_type_not_none [OF Suc.prems(1), of c t x] Suc.prems(3) part(1) by simp
    then have e: "enum_parts (Suc n) fuel db pparent typemask e =
        map_option ((#) ?f) (enum_parts n fuel db pparent typemask ?f)"
      using part(4) g sh by (simp add: Ov_Fail_def shows_part_def)
    have "stands_at (pre @ skip @ [(c, t, x)]) ?f" using sh by (simp add: stands_at_def shows_part_def)
    from Suc.IH [OF Suc.prems(1,2) _ this, of rest] obtain es where
      "enum_parts n fuel db pparent typemask ?f = Some es" "list_all2 (shows_part db p) (filter (wanted typemask) rest) es"
      using Suc.prems part(1) by auto
    then show ?thesis
      using e sh part(3) filter_skip [OF part(2,3), of rest] part(1) by simp
  qed
qed simp

section \<open>The search and the enumeration agree\<close>

text \<open>The name a part is searched by.\<close>

definition part_name :: "odb \<Rightarrow> part \<Rightarrow> string" where
  "part_name db = (\<lambda>(c, t, x). if t = OV_ET_PARENTLINK then childrolename db x
     else if t = OV_ET_CHILDLINK then parentrolename db x else ident_of db x)"

definition one_kind :: "odb \<Rightarrow> objptr \<Rightarrow> bool" where
  "one_kind db m \<longleftrightarrow> \<not> (is_variable db m \<and> is_part db m) \<and> \<not> (is_variable db m \<and> is_operation db m) \<and>
     \<not> (is_part db m \<and> is_operation db m)"

lemma find_SomeD: "find P xs = Some x \<Longrightarrow> x \<in> set xs \<and> P x"
  by (auto simp: find_Some_iff)

lemma search_links_result:
  "case search_links role t xs ident e of
     Inl r \<Rightarrow> \<exists>x \<in> set xs. role x = ident \<and> r = e\<lparr>elemunion := Some x, elemtype := t\<rparr>
   | Inr e' \<Rightarrow> (\<forall>x \<in> set xs. role x \<noteq> ident) \<and> el_pobj e' = el_pobj e"
  unfolding search_links_def strcmp_zero
  by (auto split: option.split dest: find_SomeD simp: find_None_iff)

text \<open>What the body of the loop over the classes finds in a class: the part of that name, or that there
  is none of the types asked for.\<close>

definition found :: "odb \<Rightarrow> objptr \<Rightarrow> string \<Rightarrow> OV_UINT \<Rightarrow> part list \<Rightarrow> OV_ELEMENT \<Rightarrow> bool" where
  "found db p ident typemask ps r \<longleftrightarrow>
     (\<exists>a \<in> set ps. part_name db a = ident \<and> wanted typemask a \<and> shows_part db p a r) \<or>
     (elemtype r = OV_ET_NONE \<and> (\<exists>a \<in> set ps. part_name db a = ident \<and> \<not> wanted typemask a))"

definition missed :: "odb \<Rightarrow> string \<Rightarrow> OV_UINT \<Rightarrow> part list \<Rightarrow> bool" where
  "missed db ident typemask ps \<longleftrightarrow> (\<forall>a \<in> set ps. part_name db a = ident \<longrightarrow> \<not> wanted typemask a)"

lemma found_append: "found db p ident typemask ps r \<Longrightarrow> found db p ident typemask (qs @ ps) r"
  by (auto simp: found_def)

lemma found_append1: "found db p ident typemask ps r \<Longrightarrow> found db p ident typemask (ps @ qs) r"
  by (auto simp: found_def)

lemma missed_append [simp]:
  "missed db ident typemask (ps @ qs) \<longleftrightarrow> missed db ident typemask ps \<and> missed db ident typemask qs"
  by (auto simp: missed_def)

lemma and_or_zero: "(t :: OV_UINT) AND (a OR b OR c) \<noteq> 0 \<longleftrightarrow> t AND a \<noteq> 0 \<or> t AND b \<noteq> 0 \<or> t AND c \<noteq> 0"
  by (simp add: bit.conj_disj_distrib or_eq_0_iff)

lemma search_members_result:
  assumes "class_ok db c" "\<forall>m \<in> set (children db c). one_kind db m" "el_pobj e = Some p"
  shows "case search_members db p typemask ident c e of
     Inl r \<Rightarrow> found db p ident typemask (map (member_part db c) (children db c)) r
   | Inr e' \<Rightarrow> missed db ident typemask (map (member_part db c) (children db c)) \<and> el_pobj e' = Some p"
proof (cases "search_child db c ident")
  case None
  then have "\<forall>m \<in> set (children db c). ident_of db m \<noteq> ident"
    by (auto simp: search_child_def find_None_iff)
  then have "missed db ident typemask (map (member_part db c) (children db c))"
    using member_part_type [OF assms(1)] by (fastforce simp: missed_def part_name_def elem_types)
  then show ?thesis using None assms(3) by (simp add: search_members_def)
next
  case (Some m)
  then have m: "m \<in> set (children db c)" "ident_of db m = ident"
    by (auto simp: search_child_def dest: find_SomeD)
  obtain t where t: "member_part db c m = (c, t, m)" "part_kind db m = Some t"
    using member_part_type [OF assms(1) m(1)] by (cases "member_part db c m") auto
  have n: "part_name db (c, t, m) = ident"
    using part_kind_types [OF t(2)] m(2) by (auto simp: part_name_def elem_types)
  have i: "(c, t, m) \<in> set (map (member_part db c) (children db c))" using m(1) t(1) by force
  show ?thesis
  proof (cases "t AND typemask \<noteq> 0")
    case True
    obtain r where "search_members db p typemask ident c e = Inl r" "shows_part db p (c, t, m) r"
      using True Some t(2) assms(2,3) m(1)
      by (auto simp: search_members_def Let_def part_kind_def one_kind_def shows_part_def elem_types and.commute
          split: if_splits)
    then show ?thesis using True i n by (auto simp: found_def)
  next
    case False
    obtain r where "search_members db p typemask ident c e = Inl r" "elemtype r = OV_ET_NONE"
      using False Some t(2) assms(2) m(1)
      by (auto simp: search_members_def Let_def part_kind_def one_kind_def no_part_def and.commute split: if_splits)
    then show ?thesis using False i n by (auto simp: found_def)
  qed
qed

lemma no_member_types:
  "class_ok db c \<Longrightarrow> typemask AND (OV_ET_VARIABLE OR OV_ET_OBJECT OR OV_ET_OPERATION) = 0 \<Longrightarrow>
    missed db ident typemask (map (member_part db c) (children db c))"
  using member_part_type [of db c] and_or_zero [of typemask OV_ET_VARIABLE OV_ET_OBJECT OV_ET_OPERATION]
  by (fastforce simp: missed_def and.commute)

text \<open>Members, links as a parent and links as a child go through the same alternative.\<close>

definition searched :: "odb \<Rightarrow> objptr \<Rightarrow> string \<Rightarrow> OV_UINT \<Rightarrow> part list \<Rightarrow> OV_ELEMENT + OV_ELEMENT \<Rightarrow> bool" where
  "searched db p ident typemask ps s =
    (case s of Inl r \<Rightarrow> found db p ident typemask ps r
     | Inr e \<Rightarrow> missed db ident typemask ps \<and> el_pobj e = Some p)"

lemma searched_links:
  assumes "el_pobj e = Some p" "t = OV_ET_PARENTLINK \<or> t = OV_ET_CHILDLINK"
    "\<And>x. x \<in> set xs \<Longrightarrow> part_name db (c, t, x) = role x"
  shows "searched db p ident typemask (map (\<lambda>x. (c, t, x)) xs)
    (if typemask AND t \<noteq> 0 then search_links role t xs ident e else Inr e)"
proof (cases "typemask AND t \<noteq> 0")
  case False
  then show ?thesis using assms(1) by (auto simp: searched_def missed_def and.commute)
next
  case True
  then have w: "t AND typemask \<noteq> 0" by (simp add: and.commute)
  show ?thesis
  proof (cases "search_links role t xs ident e")
    case (Inl r)
    then obtain x where "x \<in> set xs" "role x = ident" "r = e\<lparr>elemunion := Some x, elemtype := t\<rparr>"
      using search_links_result [where role = role and t = t and xs = xs and ident = ident and e = e] by auto
    moreover from this have "shows_part db p (c, t, x) r"
      using assms(1,2) by (auto simp: shows_part_def elem_types)
    ultimately show ?thesis
      using True w Inl assms(3) by (auto simp: searched_def found_def intro!: bexI [of _ x])
  next
    case (Inr e')
    then show ?thesis
      using True assms(1,3) search_links_result [where role = role and t = t and xs = xs and ident = ident and e = e] by (auto simp: searched_def missed_def)
  qed
qed

lemma searched_members:
  assumes "class_ok db c" "\<forall>m \<in> set (children db c). one_kind db m" "el_pobj e = Some p"
  shows "searched db p ident typemask (map (member_part db c) (children db c))
    (if typemask AND (OV_ET_VARIABLE OR OV_ET_OBJECT OR OV_ET_OPERATION) \<noteq> 0
     then search_members db p typemask ident c e else Inr e)"
  using search_members_result [OF assms, where typemask = typemask and ident = ident]
    no_member_types [OF assms(1), where typemask = typemask and ident = ident] assms(3)
  by (auto simp: searched_def)

lemma searched_then:
  assumes "searched db p ident typemask ps s" "\<And>e. el_pobj e = Some p \<Longrightarrow> searched db p ident typemask qs (f e)"
  shows "searched db p ident typemask (ps @ qs) (case s of Inl r \<Rightarrow> Inl r | Inr e \<Rightarrow> f e)"
proof (cases s)
  case (Inl r)
  then show ?thesis using assms(1) by (simp add: searched_def found_append1)
next
  case (Inr e)
  then show ?thesis
    using assms(1) assms(2) [of e] by (auto simp: searched_def found_append split: sum.splits)
qed

lemma search_class_searched:
  assumes "class_ok db c" "\<forall>m \<in> set (children db c). one_kind db m" "el_pobj e = Some p"
  shows "searched db p ident typemask (class_parts db c) (search_class db p typemask ident c e)"
  unfolding search_class_def class_parts_def
  by (intro searched_then searched_members searched_links assms)
    (auto simp: part_name_def elem_types)

lemma searchpart_loop_searched:
  "class_chain db k cs \<Longrightarrow> \<forall>c \<in> set cs. class_ok db c \<and> (\<forall>m \<in> set (children db c). one_kind db m) \<Longrightarrow>
    el_pobj e = Some p \<Longrightarrow> length cs \<le> fuel \<Longrightarrow>
    \<exists>r. searchpart_object_loop fuel db p typemask ident k e = Some r \<and>
      (found db p ident typemask (all_parts db cs) r \<or>
       missed db ident typemask (all_parts db cs) \<and> elemtype r = OV_ET_NONE)"
proof (induction cs arbitrary: k e fuel)
  case Nil
  then show ?case by (simp add: missed_def no_part_def)
next
  case (Cons c cs)
  obtain f where f: "fuel = Suc f" "length cs \<le> f" using Cons.prems(4) by (cases fuel) auto
  have k: "k = Some c" "class_chain db (base_class db c) cs" using Cons.prems(1) by simp_all
  have parts: "all_parts db (c # cs) = class_parts db c @ all_parts db cs" by (simp add: class_parts_def)
  have s: "searched db p ident typemask (class_parts db c) (search_class db p typemask ident c e)"
    using Cons.prems(2,3) by (intro search_class_searched) simp_all
  show ?case
  proof (cases "search_class db p typemask ident c e")
    case (Inl r)
    then show ?thesis
      unfolding parts using s k f by (auto simp: searched_def intro: found_append1)
  next
    case (Inr e')
    then have "missed db ident typemask (class_parts db c)" "el_pobj e' = Some p"
      using s by (simp_all add: searched_def)
    then show ?thesis
      unfolding parts using Cons.IH [OF k(2) _ _ f(2), of e'] Cons.prems(2) Inr k(1) f(1)
      by (auto intro: found_append)
  qed
qed

section \<open>Properties\<close>

text \<open>Asked again and again for the next part of an object, starting from none, the function gives
  every part of the types asked for, of the object's class and its base classes, just once, in
  their order, with the address of each, and then answers that there is none.\<close>

lemma parts_enumerated_once:
  assumes "classes_ok db cs" "class_chain db (instantiation_class db p) cs"
    "elemtype pparent = OV_ET_OBJECT" "el_pobj pparent = Some p" "elemtype e = OV_ET_NONE"
    "Suc (Suc (length cs)) + length (all_parts db cs) < fuel" "length (all_parts db cs) < n"
  shows "\<exists>es. enum_parts n fuel db pparent typemask e = Some es \<and> distinct (all_parts db cs) \<and>
    list_all2 (shows_part db p) (filter (\<lambda>(c, t, x). t AND typemask \<noteq> 0) (all_parts db cs)) es"
  using enum_parts_from [OF assms(1,2), of "[]" "all_parts db cs" e fuel n pparent typemask] assms distinct_all_parts
  by (auto simp: stands_at_def)

text \<open>A class 1 with a variable 11 and an operation 12, derived from a class 2 with an embedded object
  21 and a link as a parent, 31; the object 100.\<close>

definition demo_classes :: odb where
  "demo_classes = \<lparr>db_root = 0, instantiation_class = (\<lambda>p. if p = 100 then Some 1 else None),
     base_class = (\<lambda>c. if c = 1 then Some 2 else None),
     children = (\<lambda>p. if p = 1 then [11, 12] else if p = 2 then [21] else []),
     container = (\<lambda>p. if p = 11 \<or> p = 12 then Some 1 else if p = 21 then Some 2 else None),
     v_pouterobject = (\<lambda>_. None),
     ident_of = (\<lambda>p. if p = 11 then ''v'' else if p = 12 then ''op'' else if p = 21 then ''part'' else []),
     is_domain = (\<lambda>_. False), is_variable = (\<lambda>p. p = 11), is_part = (\<lambda>p. p = 21), is_operation = (\<lambda>p. p = 12),
     is_vendor = (\<lambda>_. False), v_varprops = (\<lambda>_. 0), v_vartype = (\<lambda>_. 0), v_offset = (\<lambda>p. if p = 21 then 8 else 4),
     parentrelationship = (\<lambda>c. if c = 2 then [31] else []), childrelationship = (\<lambda>_. []),
     childrolename = (\<lambda>_. ''next''), parentrolename = (\<lambda>_. []), construction = (\<lambda>_. None), class_instsize = 0,
     is_class = (\<lambda>c. c = 1 \<or> c = 2), parentrel_class = (\<lambda>x. if x = 31 then Some 2 else None),
     childrel_class = (\<lambda>_. None)\<rparr>"

definition demo_object :: OV_ELEMENT where
  "demo_object = \<lparr>elemtype = OV_ET_OBJECT, el_pobj = Some 100, pvalue = None, pvar = None, elemunion = None\<rparr>"

lemma demo_classes_ok:
  "classes_ok demo_classes [1, 2]" "class_chain demo_classes (instantiation_class demo_classes 100) [1, 2]"
  "all_parts demo_classes [1, 2] =
    [(1, OV_ET_VARIABLE, 11), (1, OV_ET_OPERATION, 12), (2, OV_ET_OBJECT, 21), (2, OV_ET_PARENTLINK, 31)]"
  "\<forall>c \<in> {1, 2}. \<forall>m \<in> set (children demo_classes c). one_kind demo_classes m"
  by (simp_all add: demo_classes_def classes_ok_def class_ok_def part_kind_def member_part_def one_kind_def)

lemma demo_parts_length: "length (all_parts demo_classes [Suc 0, 2]) = 4"
  by (simp add: demo_classes_def)

text \<open>The search for a part by its name finds a part just if it is among the parts that the
  enumeration gives, when no two parts of the object have the same name: it shows the part of that
  name if the part has a type asked for, and no part otherwise.\<close>

lemma search_finds_enumerated:
  assumes "classes_ok db cs" "class_chain db (instantiation_class db p) cs"
    "\<forall>c \<in> set cs. \<forall>m \<in> set (children db c). one_kind db m" "distinct (map (part_name db) (all_parts db cs))"
    "elemtype pparent = OV_ET_OBJECT" "el_pobj pparent = Some p" "length cs \<le> fuel"
  shows "\<exists>r. ov_element_searchpart fuel db pparent e typemask ident = Some (pparent, r) \<and>
    (if \<exists>(c, t, x) \<in> set (all_parts db cs). part_name db (c, t, x) = ident \<and> t AND typemask \<noteq> 0
     then \<exists>(c, t, x) \<in> set (all_parts db cs). part_name db (c, t, x) = ident \<and> t AND typemask \<noteq> 0 \<and>
       shows_part db p (c, t, x) r
     else elemtype r = OV_ET_NONE)"
proof -
  let ?ps = "all_parts db cs"
  obtain r where r: "searchpart_object_loop fuel db p typemask ident (instantiation_class db p) (e\<lparr>el_pobj := Some p\<rparr>) = Some r"
    "found db p ident typemask ?ps r \<or> missed db ident typemask ?ps \<and> elemtype r = OV_ET_NONE"
    using searchpart_loop_searched [OF assms(2), of "e\<lparr>el_pobj := Some p\<rparr>" p fuel typemask ident] assms(1,3,7)
    by (auto simp: classes_ok_def)
  have one: "a = b" if "a \<in> set ?ps" "b \<in> set ?ps" "part_name db a = part_name db b" for a b
    using that assms(4) by (simp add: distinct_map inj_on_def)
  have "ov_element_searchpart fuel db pparent e typemask ident = Some (pparent, r)"
    using r(1) assms(5,6) by (simp add: ov_element_searchpart_def ov_element_searchpart_object_def)
  moreover from r(2) consider
      (hit) a where "a \<in> set ?ps" "part_name db a = ident" "wanted typemask a" "shows_part db p a r"
    | (other) a where "a \<in> set ?ps" "part_name db a = ident" "\<not> wanted typemask a" "elemtype r = OV_ET_NONE"
    | (miss) "missed db ident typemask ?ps" "elemtype r = OV_ET_NONE"
    unfolding found_def by blast
  then have "if \<exists>a \<in> set ?ps. part_name db a = ident \<and> wanted typemask a
    then \<exists>a \<in> set ?ps. part_name db a = ident \<and> wanted typemask a \<and> shows_part db p a r
    else elemtype r = OV_ET_NONE"
  proof cases
    case hit
    then show ?thesis by auto
  next
    case other
    then have "\<not> (\<exists>a \<in> set ?ps. part_name db a = ident \<and> wanted typemask a)" using one by blast
    then show ?thesis using other(4) unfolding if_bool_eq_conj by blast
  next
    case miss
    then have "\<not> (\<exists>a \<in> set ?ps. part_name db a = ident \<and> wanted typemask a)" unfolding missed_def by blast
    then show ?thesis using miss(2) unfolding if_bool_eq_conj by blast
  qed
  ultimately show ?thesis by (auto simp: case_prod_beta' split: if_splits)
qed

end
