(* ===== verification/OvPercent.thy ===== *)
theory OvPercent
  imports OvString
begin

text \<open>
  core/ov/source/libov/ov_path.c, the percent encoding of identifiers in path names. C strings are
  the characters before the terminator; a read behind the terminator is the result \<open>None\<close>.
\<close>

section \<open>Operations\<close>

definition ov_path_isvalidchar :: "char \<Rightarrow> bool" where
  "ov_path_isvalidchar pcurr \<longleftrightarrow>
    \<not> (\<not> (char_int pcurr \<ge> 97 \<and> char_int pcurr \<le> 122)
      \<and> \<not> (char_int pcurr \<ge> 65 \<and> char_int pcurr \<le> 90)
      \<and> \<not> (char_int pcurr \<ge> 48 \<and> char_int pcurr \<le> 57)
      \<and> pcurr \<noteq> CHR ''_'')"

fun percentsize_loop :: "OV_UINT \<Rightarrow> string \<Rightarrow> OV_UINT" where
  "percentsize_loop n [] = n"
| "percentsize_loop n (d # ds) =
    percentsize_loop (if \<not> ov_path_isvalidchar d then n + 2 else n) ds"

definition ov_path_percentsize :: "string \<Rightarrow> OV_UINT" where
  "ov_path_percentsize org = percentsize_loop (of_nat (length org)) org"

text \<open>\<open>(unsigned char)upper + (upper < 10 ? '0' : '7')\<close>.\<close>

definition hex_digit :: "nat \<Rightarrow> char" where
  "hex_digit n = char_of ((n + (if n < 10 then 48 else 55)) mod 256)"

fun ov_path_topercent :: "string \<Rightarrow> string" where
  "ov_path_topercent [] = []"
| "ov_path_topercent (d # ds) =
    (if \<not> ov_path_isvalidchar d
     then CHR ''%'' # hex_digit (of_char d div 16) # hex_digit (of_char d mod 16) # ov_path_topercent ds
     else d # ov_path_topercent ds)"

text \<open>The value of one digit as the chain of comparisons with \<open>'9'\<close>, \<open>'F'\<close> and \<open>'f'\<close> computes it, in
  unsigned arithmetic.\<close>

definition hex_value :: "char \<Rightarrow> OV_UINT" where
  "hex_value c =
    (if char_int c \<le> 57 then word_of_int (char_int c - 48)
     else if char_int c \<le> 70 then word_of_int (char_int c - 55)
     else if char_int c \<le> 102 then word_of_int (char_int c - 87)
     else 0)"

fun ov_path_frompercent :: "string \<Rightarrow> string option" where
  "ov_path_frompercent [] = Some []"
| "ov_path_frompercent (d # ds) =
    (if d = CHR ''%'' then
       (case ds of
          d1 # d2 # rest \<Rightarrow>
            map_option ((#) (char_of (unat (push_bit 4 (hex_value d1) + hex_value d2) mod 256)))
              (ov_path_frompercent rest)
        | _ \<Rightarrow> None)
     else map_option ((#) d) (ov_path_frompercent ds))"

text \<open>The size of the buffer \<open>ov_path_frompercent\<close> allocates, without the terminator.\<close>

fun frompercent_size :: "OV_UINT \<Rightarrow> string \<Rightarrow> OV_UINT" where
  "frompercent_size n [] = n"
| "frompercent_size n (d # ds) = frompercent_size (if d = CHR ''%'' then n - 2 else n) ds"

section \<open>The encoding\<close>

lemma percentsize_value:
  "ov_path_percentsize s = of_nat (length (ov_path_topercent s))"
proof -
  have "percentsize_loop n s = n + (of_nat (length (ov_path_topercent s)) - of_nat (length s))" for n
    by (induction s arbitrary: n) (simp_all add: algebra_simps)
  from this [of "of_nat (length s)"] show ?thesis
    by (simp add: ov_path_percentsize_def)
qed

lemma hex_roundtrip_16: "n < 16 \<Longrightarrow> unat (hex_value (hex_digit n)) = n"
proof -
  assume "n < 16"
  then have "n \<in> set [0..<16]" by simp
  then show ?thesis
    by (simp add: upt_rec) (elim disjE; simp add: hex_value_def hex_digit_def char_int_def Let_def)
qed

lemma hex_value_digit: "n < 16 \<Longrightarrow> hex_value (hex_digit n) = of_nat n"
  by (simp add: word_unat_eq_iff hex_roundtrip_16 unat_of_nat)

lemma of_char_less: "(of_char d :: nat) < 256"
  using mod_less_divisor [of 256 "of_char d :: nat"] by (simp only: of_char_mod_256)

lemma hex_halves: "(of_char d div 16 :: nat) < 16" "(of_char d mod 16 :: nat) < 16"
  using of_char_less [of d] by linarith simp

lemma percent_char:
  "char_of (unat (push_bit 4 (hex_value (hex_digit (of_char d div 16))) + hex_value (hex_digit (of_char d mod 16)))) = d"
proof -
  let ?n = "of_char d :: nat"
  have n: "?n < 256" by (rule of_char_less)
  have "push_bit 4 (hex_value (hex_digit (?n div 16))) + hex_value (hex_digit (?n mod 16)) =
      of_nat (?n div 16) * 16 + (of_nat (?n mod 16) :: OV_UINT)"
    by (simp add: hex_value_digit hex_halves push_bit_eq_mult)
  also have "\<dots> = of_nat (?n div 16 * 16 + ?n mod 16)" by (simp only: of_nat_add of_nat_mult of_nat_numeral)
  finally have "push_bit 4 (hex_value (hex_digit (?n div 16))) + hex_value (hex_digit (?n mod 16)) = of_nat ?n"
    by (simp only: div_mult_mod_eq)
  moreover have "?n mod 4294967296 = ?n" using n by (intro mod_less) linarith
  ultimately have "unat (push_bit 4 (hex_value (hex_digit (?n div 16))) + hex_value (hex_digit (?n mod 16))) = ?n"
    by (simp add: unat_of_nat)
  then show ?thesis by simp
qed

lemma percent_invalid [simp]: "\<not> ov_path_isvalidchar CHR ''%''"
  by (simp add: ov_path_isvalidchar_def char_int_def Let_def)

lemma frompercent_topercent: "ov_path_frompercent (ov_path_topercent s) = Some s"
  by (induction s) (auto simp: percent_char simp del: char_of_take_bit_eq simp: percent_char [of "CHR ''%''", simplified])

lemma hex_digit_valid: "n < 16 \<Longrightarrow> ov_path_isvalidchar (hex_digit n)"
proof -
  assume "n < 16"
  then have "n \<in> set [0..<16]" by simp
  then show ?thesis
    by (simp add: upt_rec) (elim disjE; simp add: ov_path_isvalidchar_def hex_digit_def char_int_def Let_def)
qed

lemma topercent_chars:
  "\<forall>c \<in> set (ov_path_topercent s). ov_path_isvalidchar c \<or> c = CHR ''%''"
proof (induction s)
  case (Cons d ds)
  have "ov_path_isvalidchar (hex_digit (of_char d div 16))" "ov_path_isvalidchar (hex_digit (of_char d mod 16))"
    by (intro hex_digit_valid hex_halves)+
  with Cons show ?case by auto
qed simp

lemma frompercent_size_topercent:
  "frompercent_size (n + of_nat (length (ov_path_topercent s))) (ov_path_topercent s) = n + of_nat (length s)"
proof (induction s arbitrary: n)
  case (Cons d ds)
  have v: "hex_digit k \<noteq> CHR ''%''" if "k < 16" for k
    using hex_digit_valid [OF that] by auto
  show ?case
    using Cons.IH [of "n + 1"] v [OF hex_halves(1)] v [OF hex_halves(2)] by (auto simp: algebra_simps)
qed simp

section \<open>Properties\<close>

text \<open>C33: Decoding undoes encoding for every identifier; the encoded text has exactly the size that
  was computed for it and contains only letters, digits, underscores and percent signs (so no
  path delimiter); and the decoder's buffer has exactly the size of the identifier.\<close>

theorem percent_roundtrip:
  "ov_path_frompercent (ov_path_topercent s) = Some s \<and>
   ov_path_percentsize s = of_nat (length (ov_path_topercent s)) \<and>
   frompercent_size (of_nat (length (ov_path_topercent s))) (ov_path_topercent s) = of_nat (length s) \<and>
   set (ov_path_topercent s) \<subseteq> {c. ov_path_isvalidchar c \<or> c = CHR ''%''}"
  using frompercent_topercent percentsize_value topercent_chars [of s]
    frompercent_size_topercent [of 0 s] by auto

lemma frompercent_plain: "CHR ''%'' \<notin> set s \<Longrightarrow> ov_path_frompercent (s @ t) = map_option ((@) s) (ov_path_frompercent t)"
  by (induction s) (cases "ov_path_frompercent t"; auto)+

text \<open>An identifier whose last or last but one character is a percent sign makes the decoder leave
  the string: it reads behind the terminator. Nothing in the function checks for it.\<close>

lemma frompercent_truncated_reads_beyond:
  assumes "CHR ''%'' \<notin> set s"
  shows "ov_path_frompercent (s @ ''%'') = None \<and> ov_path_frompercent (s @ [CHR ''%'', c]) = None"
  using frompercent_plain [OF assms] by simp

end
