(* ===== verification/OvPath.thy ===== *)
theory OvPath
  imports OvElement OvPercent
begin

text \<open>
  core/ov/source/libov/ov_path.c: path names. \<open>ov_path_resolve\<close> turns a path name into the list of
  elements it goes through, \<open>ov_path_getcanonicalpath\<close> makes the path name of an object. Results
  are options: \<open>None\<close> is undefined behaviour (a null pointer, an uninitialised value or a byte
  behind a string is read) or a loop that does not end within \<open>fuel\<close> steps. Exhaustion of the
  memory stack is modelled where the code checks for it.
\<close>

section \<open>Objects by numeric id\<close>

text \<open>What the id list of the database answers: no node, an error of the index search, or the object
  pointer of the relation.\<close>

type_synonym id_list = "OV_UINT \<Rightarrow> OV_UINT \<Rightarrow> (OV_RESULT + objptr option) option"

definition ov_path_getObjectById :: "id_list \<Rightarrow> OV_UINT \<Rightarrow> OV_UINT \<Rightarrow> OV_RESULT + objptr" where
  "ov_path_getObjectById ids idHigh idLow =
    (case ids idHigh idLow of
       None \<Rightarrow> Inl OV_ERR_BADPATH
     | Some (Inl r) \<Rightarrow> Inl r
     | Some (Inr None) \<Rightarrow> Inl OV_ERR_BADPATH
     | Some (Inr (Some p)) \<Rightarrow> Inr p)"

definition ov_path_getObjectById64 :: "id_list \<Rightarrow> 64 word \<Rightarrow> OV_RESULT + objptr" where
  "ov_path_getObjectById64 ids i =
    ov_path_getObjectById ids (ucast (drop_bit 32 i AND 0xFFFF)) (ucast (i AND 0xFFFF))"

section \<open>Going up\<close>

definition upper :: "odb \<Rightarrow> objptr \<Rightarrow> objptr option" where
  "upper db p = (case v_pouterobject db p of None \<Rightarrow> container db p | Some q \<Rightarrow> Some q)"

text \<open>The objects from \<open>p\<close> up to, and without, the root.\<close>

fun ancestors :: "nat \<Rightarrow> odb \<Rightarrow> objptr option \<Rightarrow> objptr list option" where
  "ancestors fuel db None = None"
| "ancestors 0 db (Some p) = (if p = db_root db then Some [] else None)"
| "ancestors (Suc fuel) db (Some p) =
    (if p = db_root db then Some [] else map_option ((#) p) (ancestors fuel db (upper db p)))"

section \<open>The canonical path\<close>

fun canonical_size :: "odb \<Rightarrow> objptr list \<Rightarrow> OV_UINT" where
  "canonical_size db [] = 0"
| "canonical_size db (p # ps) = ov_path_percentsize (ident_of db p) + 2 + canonical_size db ps"

definition delimiter :: "odb \<Rightarrow> OV_UINT \<Rightarrow> objptr \<Rightarrow> string" where
  "delimiter db version p =
    (if v_pouterobject db p \<noteq> None then (if version = 1 then ''/.'' else ''.'') else ''/'')"

text \<open>The loop that writes from the end of the buffer to the front; \<open>pathname\<close> is what is written.\<close>

fun canonical_loop :: "odb \<Rightarrow> OV_UINT \<Rightarrow> objptr list \<Rightarrow> string \<Rightarrow> string" where
  "canonical_loop db version [] pathname = pathname"
| "canonical_loop db version (p # ps) pathname =
    canonical_loop db version ps (delimiter db version p @ ov_path_topercent (ident_of db p) @ pathname)"

definition ov_path_getcanonicalpath ::
    "nat \<Rightarrow> odb \<Rightarrow> bool \<Rightarrow> objptr option \<Rightarrow> OV_UINT \<Rightarrow> OV_STRING option" where
  "ov_path_getcanonicalpath fuel db granted pobj version =
    (case pobj of
       None \<Rightarrow> Some None
     | Some p \<Rightarrow>
         if p = db_root db then Some (Some ''/'')
         else case ancestors fuel db (Some p) of
             None \<Rightarrow> None
           | Some ps \<Rightarrow> if \<not> granted then Some None else Some (Some (canonical_loop db version ps [])))"

section \<open>Resolving: the beginning of the path\<close>

definition is_delim :: "char \<Rightarrow> bool" where
  "is_delim c \<longleftrightarrow> c = CHR ''/'' \<or> c = CHR ''.''"

definition is_digit :: "char \<Rightarrow> bool" where
  "is_digit c \<longleftrightarrow> char_int c \<ge> 48 \<and> char_int c \<le> 57"

text \<open>\<open>strtoull\<close> on a text that begins with a digit: value (the maximum on overflow) and rest.\<close>

definition strtoull :: "string \<Rightarrow> 64 word \<times> string" where
  "strtoull s =
    (let n = foldl (\<lambda>n c. n * 10 + (of_char c - 48)) (0 :: nat) (takeWhile is_digit s)
     in (of_nat (min n (2 ^ 64 - 1)), dropWhile is_digit s))"

text \<open>Where the parsing starts: the object found by id, the number of elements so far (\<open>size\<close>,
  \<open>relsize\<close>), the delimiter (\<open>None\<close> while it has no value) and the rest of the path.\<close>

record start =
  by_id :: "objptr option"
  st_size :: nat
  st_relsize :: nat
  st_del :: "char option"
  st_rest :: string

definition skip_delim :: "char option \<Rightarrow> string \<Rightarrow> char option \<times> string" where
  "skip_delim del pc = (case pc of c # cs \<Rightarrow> if is_delim c then (Some c, cs) else (del, pc) | [] \<Rightarrow> (del, pc))"

definition start_by_id :: "nat \<Rightarrow> odb \<Rightarrow> id_list \<Rightarrow> string \<Rightarrow> (OV_RESULT + start) option" where
  "start_by_id fuel db ids digits =
    (let (i, pc) = strtoull digits
     in if i = 0 then
          (let (del, pc) = skip_delim None pc
           in Some (Inr \<lparr>by_id = None, st_size = 1, st_relsize = 0, st_del = del, st_rest = pc\<rparr>))
        else
          (case ov_path_getObjectById ids (ucast (drop_bit 32 i)) (ucast (i AND 0xFFFFFFFF)) of
             Inl r \<Rightarrow> Some (Inl r)
           | Inr p \<Rightarrow>
               (case ancestors fuel db (upper db p) of
                  None \<Rightarrow> None
                | Some up \<Rightarrow>
                    (let (del, pc) = skip_delim (Some CHR ''/'') pc
                     in Some (Inr \<lparr>by_id = Some p, st_size = length up + 2, st_relsize = 0,
                          st_del = del, st_rest = pc\<rparr>)))))"

definition is_struct :: "odb \<Rightarrow> OV_ELEMENT \<Rightarrow> bool" where
  "is_struct db e \<longleftrightarrow> (elemtype e = OV_ET_VARIABLE \<or> elemtype e = OV_ET_MEMBER) \<and>
    (case elemunion e of None \<Rightarrow> False | Some v \<Rightarrow> v_vartype db v AND OV_VT_KSMASK = OV_VT_STRUCT)"

text \<open>The two loops that shorten the relative path: to the current domain, and one level up. The
  argument \<open>n\<close> is \<open>size\<close>; \<open>None\<close> is the error \<open>OV_ERR_BADPATH\<close>.\<close>

fun to_domain :: "odb \<Rightarrow> OV_ELEMENT list \<Rightarrow> nat \<Rightarrow> nat option" where
  "to_domain db els 0 = None"
| "to_domain db els (Suc n) =
    (if elemtype (els ! n) = OV_ET_OBJECT \<and> \<not> (case el_pobj (els ! n) of None \<Rightarrow> False | Some p \<Rightarrow> is_vendor db p)
     then Some (Suc n)
     else if is_struct db (els ! n) then Some (Suc n)
     else to_domain db els n)"

fun level_up :: "odb \<Rightarrow> OV_ELEMENT list \<Rightarrow> nat \<Rightarrow> nat option" where
  "level_up db els 0 = None"
| "level_up db els (Suc 0) = None"
| "level_up db els (Suc (Suc n)) =
    (if elemtype (els ! n) = OV_ET_OBJECT \<or> is_struct db (els ! n) then Some (Suc n)
     else level_up db els (Suc n))"

fun dotdot_loop :: "odb \<Rightarrow> OV_ELEMENT list \<Rightarrow> nat \<Rightarrow> string \<Rightarrow> (nat \<times> string) option" where
  "dotdot_loop db els n [] = Some (n, [])"
| "dotdot_loop db els n (c # pc) =
    (if is_prefix ''../'' (c # pc) then
       (case level_up db els n of None \<Rightarrow> None | Some n' \<Rightarrow> dotdot_loop db els n' (drop 2 pc))
     else Some (n, c # pc))"

definition start_relative :: "odb \<Rightarrow> OV_ELEMENT list option \<Rightarrow> string \<Rightarrow> OV_RESULT + start" where
  "start_relative db prelpath pathcopy =
    (case prelpath of
       None \<Rightarrow> Inl OV_ERR_BADPATH
     | Some els \<Rightarrow>
         (let pc = (if is_prefix ''./'' pathcopy then drop 2 pathcopy else pathcopy)
          in case to_domain db els (length els) of
               None \<Rightarrow> Inl OV_ERR_BADPATH
             | Some n \<Rightarrow>
                 (case dotdot_loop db els n pc of
                    None \<Rightarrow> Inl OV_ERR_BADPATH
                  | Some (n, pc) \<Rightarrow>
                      (if is_prefix ''.'' pc
                       then Inr \<lparr>by_id = None, st_size = n, st_relsize = n,
                              st_del = Some CHR ''.'', st_rest = tl pc\<rparr>
                       else Inr \<lparr>by_id = None, st_size = n, st_relsize = n,
                              st_del = Some CHR ''/'', st_rest = pc\<rparr>))))"

definition path_start :: "nat \<Rightarrow> odb \<Rightarrow> id_list \<Rightarrow> OV_ELEMENT list option \<Rightarrow> string \<Rightarrow> (OV_RESULT + start) option" where
  "path_start fuel db ids prelpath pathcopy =
    (if is_prefix ''/.'' pathcopy \<and> (case drop 2 pathcopy of [] \<Rightarrow> False | c # _ \<Rightarrow> is_digit c)
     then start_by_id fuel db ids (drop 2 pathcopy)
     else if is_prefix ''/'' pathcopy
     then Some (Inr \<lparr>by_id = None, st_size = 1, st_relsize = 0, st_del = Some CHR ''/'',
            st_rest = tl pathcopy\<rparr>)
     else Some (start_relative db prelpath pathcopy))"

section \<open>Resolving: counting and the initial elements\<close>

function count_delims :: "OV_UINT \<Rightarrow> string \<Rightarrow> nat \<Rightarrow> OV_RESULT + nat" where
  "count_delims version [] n = Inr n"
| "count_delims version (c # cs) n =
    (if is_delim c then
       (case (if version = 1 \<and> is_prefix ''.'' cs then tl cs else cs) of
          [] \<Rightarrow> Inr (n + 1)
        | d # ds \<Rightarrow> if is_delim d then Inl OV_ERR_BADPATH else count_delims version ds (n + 1))
     else count_delims version cs n)"
  by pat_completeness auto

termination count_delims
proof (relation "measure (\<lambda>(version, cs, n). length cs)", goal_cases)
  case (2 version c cs n d ds)
  then have "length (d # ds) \<le> length cs" by (metis diff_le_self le_refl length_tl)
  then show ?case by simp
qed simp_all

definition count_elements :: "OV_UINT \<Rightarrow> string \<Rightarrow> nat \<Rightarrow> OV_RESULT + nat" where
  "count_elements version pc n = count_delims version pc (if pc \<noteq> [] then n + 1 else n)"

text \<open>The memory of the elements: \<open>None\<close> is an element that was not written.\<close>

definition object_element :: "objptr \<Rightarrow> OV_ELEMENT" where
  "object_element p = \<lparr>elemtype = OV_ET_OBJECT, el_pobj = Some p, pvalue = None, pvar = None, elemunion = None\<rparr>"

text \<open>By id: the object at the end and its ancestors before it; the loop stops at index 1, so the
  first element is not written.\<close>

fun fill_ancestors :: "nat \<Rightarrow> odb \<Rightarrow> objptr option \<Rightarrow> OV_ELEMENT option list \<Rightarrow> OV_ELEMENT option list" where
  "fill_ancestors 0 db pparent els = els"
| "fill_ancestors (Suc i) db None els = els"
| "fill_ancestors (Suc i) db (Some q) els =
    fill_ancestors i db (upper db q) (els[Suc i := Some (object_element q)])"

definition initial_elements :: "odb \<Rightarrow> start \<Rightarrow> OV_ELEMENT list option \<Rightarrow> OV_ELEMENT option list" where
  "initial_elements db s prelpath =
    (case by_id s of
       Some p \<Rightarrow>
         fill_ancestors (st_size s - 2) db (upper db p)
           ((replicate (st_size s) None)[st_size s - 1 := Some (object_element p)])
     | None \<Rightarrow>
         if st_relsize s \<noteq> 0
         then map Some (take (st_relsize s) (case prelpath of Some els \<Rightarrow> els | None \<Rightarrow> []))
         else [Some (object_element (db_root db))])"

section \<open>Resolving: the elements of the path\<close>

text \<open>The scan for the end of an identifier: its text, the character found there, the next delimiter
  (\<open>None\<close> at the end of the path) and the text behind the delimiter.\<close>

definition cut_identifier :: "OV_UINT \<Rightarrow> string \<Rightarrow> string \<times> char \<times> char option \<times> string" where
  "cut_identifier version pc =
    (let ident = takeWhile (\<lambda>c. \<not> is_delim c) pc
     in case dropWhile (\<lambda>c. \<not> is_delim c) pc of
          [] \<Rightarrow> (ident, hd (pc @ [CHR 0x00]), None, [])
        | d # r \<Rightarrow>
            if d = CHR ''/'' then
              (if version = 1 \<and> is_prefix ''.'' r then (ident, d, Some CHR ''.'', tl r)
               else (ident, d, Some CHR ''/'', r))
            else (ident, d, Some CHR ''.'', r))"

definition blank_element :: OV_ELEMENT where
  "blank_element = \<lparr>elemtype = OV_ET_NONE, el_pobj = None, pvalue = None, pvar = None, elemunion = None\<rparr>"

definition c_string :: "string \<Rightarrow> string" where
  "c_string s = takeWhile (\<lambda>c. c \<noteq> CHR 0x00) s"

text \<open>One search step below the last element: the last element as it is afterwards and the new one.\<close>

definition search_step :: "nat \<Rightarrow> odb \<Rightarrow> char \<Rightarrow> OV_ELEMENT \<Rightarrow> string \<Rightarrow>
    (OV_RESULT + OV_ELEMENT \<times> OV_ELEMENT) option" where
  "search_step fuel db del e ident =
    (case ov_path_frompercent ident of
       None \<Rightarrow> None
     | Some name \<Rightarrow>
         if del = CHR ''/'' then Some (Inr (e, ov_element_searchchild db e blank_element (c_string name)))
         else if del = CHR ''.'' then
           map_option Inr (ov_element_searchpart fuel db e blank_element OV_ET_ANY (c_string name))
         else Some (Inl OV_ERR_GENERIC))"

text \<open>The loop over the identifiers. \<open>pathcopy\<close> is the whole path name, \<open>pc\<close> its rest; the
  elements found so far end with the one searched below.\<close>

function parse_loop :: "nat \<Rightarrow> odb \<Rightarrow> OV_UINT \<Rightarrow> string \<Rightarrow> nat \<Rightarrow> char option \<Rightarrow> string \<Rightarrow> OV_ELEMENT option list \<Rightarrow>
    (OV_RESULT + bool \<times> OV_ELEMENT option list) option" where
  "parse_loop fuel db version pathcopy pathlen del pc els =
    (let (ident, cundo, nextdel, rest) = cut_identifier version pc
     in case (del, if els = [] then None else last els) of
          (Some d, Some e) \<Rightarrow>
            (case search_step fuel db d e ident of
               None \<Rightarrow> None
             | Some (Inl r) \<Rightarrow> Some (Inl r)
             | Some (Inr (e', new)) \<Rightarrow>
                 if elemtype new = OV_ET_NONE then
                   (if length pc + 1 = length pathcopy \<and> cundo = CHR ''.'' \<and> pathlen > 1 then
                      (case search_step fuel db CHR ''.'' e' (tl pc) of
                         None \<Rightarrow> None
                       | Some (Inl r) \<Rightarrow> Some (Inl OV_ERR_BADPATH)
                       | Some (Inr (e'', part)) \<Rightarrow>
                           if elemtype part = OV_ET_NONE then Some (Inl OV_ERR_BADPATH)
                           else Some (Inr (True, butlast els @ [Some e'', Some part])))
                    else Some (Inl OV_ERR_BADPATH))
                 else
                   let els' = butlast els @ [Some e', Some new]
                   in if nextdel = None then Some (Inr (False, els'))
                      else parse_loop fuel db version pathcopy pathlen nextdel rest els')
        | _ \<Rightarrow> None)"
  by pat_completeness auto

lemma cut_identifier_shorter:
  assumes "cut_identifier version pc = (ident, c, Some d, rest)"
  shows "length rest < length pc"
proof -
  have "length (dropWhile (\<lambda>c. \<not> is_delim c) pc) \<le> length pc" by (rule length_dropWhile_le)
  with assms show ?thesis
    by (auto simp: cut_identifier_def Let_def split: list.splits if_splits)
qed

termination parse_loop
  by (relation "measure (\<lambda>(fuel, db, version, pathcopy, pathlen, del, pc, els). length pc)")
    (auto dest!: cut_identifier_shorter [OF sym])

declare parse_loop.simps [simp del]

text \<open>The elements on success; \<open>granted\<close> says whether the memory stack has room for them.\<close>

definition ov_path_resolve :: "nat \<Rightarrow> odb \<Rightarrow> id_list \<Rightarrow> bool \<Rightarrow> OV_ELEMENT list option \<Rightarrow> OV_STRING \<Rightarrow> OV_UINT \<Rightarrow>
    (OV_RESULT + OV_ELEMENT option list) option" where
  "ov_path_resolve fuel db ids granted prelpath pathname version =
    (case pathname of
       None \<Rightarrow> Some (Inl OV_ERR_BADPARAM)
     | Some [] \<Rightarrow> Some (Inl OV_ERR_BADPATH)
     | Some pathcopy \<Rightarrow>
         (case path_start fuel db ids prelpath pathcopy of
            None \<Rightarrow> None
          | Some (Inl r) \<Rightarrow> Some (Inl r)
          | Some (Inr s) \<Rightarrow>
              (case count_elements version (st_rest s) (st_size s) of
                 Inl r \<Rightarrow> Some (Inl r)
               | Inr n \<Rightarrow>
                   if \<not> granted then Some (Inl OV_ERR_HEAPOUTOFMEMORY)
                   else
                     (let els = initial_elements db s prelpath
                     in case (if st_rest s = [] then Some (Inr (False, els))
                              else parse_loop fuel db version pathcopy (length (st_rest s)) (st_del s) (st_rest s) els) of
                          None \<Rightarrow> None
                        | Some (Inl r) \<Rightarrow> Some (Inl r)
                        | Some (Inr (early, els)) \<Rightarrow>
                            if early then Some (Inr els)
                            else if length els \<noteq> n then Some (Inl OV_ERR_BADPATH)
                            else Some (Inr els)))))"

definition ov_path_getobjectpointer :: "nat \<Rightarrow> odb \<Rightarrow> id_list \<Rightarrow> bool \<Rightarrow> OV_STRING \<Rightarrow> OV_UINT \<Rightarrow> objptr option option" where
  "ov_path_getobjectpointer fuel db ids granted pathname version =
    (case ov_path_resolve fuel db ids granted None pathname version of
       None \<Rightarrow> None
     | Some (Inl r) \<Rightarrow> Some None
     | Some (Inr els) \<Rightarrow>
         (case (if els = [] then None else last els) of
            None \<Rightarrow> None
          | Some e \<Rightarrow> if elemtype e = OV_ET_OBJECT then Some (el_pobj e) else Some None))"

section \<open>Canonical paths resolve to their object\<close>

text \<open>\<open>q\<close> is found below \<open>p\<close>: as a child with its name, or as a part with its name.\<close>

definition named_step :: "nat \<Rightarrow> odb \<Rightarrow> objptr \<Rightarrow> objptr \<Rightarrow> bool" where
  "named_step fuel db p q \<longleftrightarrow>
    ident_of db q \<noteq> [] \<and> CHR 0x00 \<notin> set (ident_of db q) \<and> q \<noteq> db_root db \<and> upper db q = Some p \<and>
    (if v_pouterobject db q = None
     then is_domain db p \<and> search_child db p (ident_of db q) = Some q
     else (case ov_element_searchpart_object fuel db p (blank_element\<lparr>el_pobj := Some p\<rparr>) OV_ET_ANY (ident_of db q) of
         Some e \<Rightarrow> elemtype e = OV_ET_OBJECT \<and> el_pobj e = Some q
       | None \<Rightarrow> False))"

fun named_chain :: "nat \<Rightarrow> odb \<Rightarrow> objptr \<Rightarrow> objptr list \<Rightarrow> bool" where
  "named_chain fuel db p [] = True"
| "named_chain fuel db p (q # qs) \<longleftrightarrow> named_step fuel db p q \<and> named_chain fuel db q qs"

abbreviation enc :: "odb \<Rightarrow> objptr \<Rightarrow> string" where
  "enc db q \<equiv> ov_path_topercent (ident_of db q)"

definition tail_text :: "odb \<Rightarrow> OV_UINT \<Rightarrow> objptr list \<Rightarrow> string" where
  "tail_text db v qs = concat (map (\<lambda>q. delimiter db v q @ enc db q) qs)"

lemma tail_text_simps [simp]:
  "tail_text db v [] = []"
  "tail_text db v (q # qs) = delimiter db v q @ enc db q @ tail_text db v qs"
  "tail_text db v (xs @ ys) = tail_text db v xs @ tail_text db v ys"
  by (simp_all add: tail_text_def)

lemma canonical_loop_text: "canonical_loop db v ps acc = tail_text db v (rev ps) @ acc"
  by (induction ps arbitrary: acc) simp_all

lemma valid_not_delim: "ov_path_isvalidchar c \<or> c = CHR ''%'' \<Longrightarrow> \<not> is_delim c"
  by (auto simp: is_delim_def ov_path_isvalidchar_def char_int_def Let_def)

lemma enc_no_delim: "c \<in> set (ov_path_topercent s) \<Longrightarrow> \<not> is_delim c"
  using topercent_chars [of s] valid_not_delim by blast

lemma enc_not_Nil: "s \<noteq> [] \<Longrightarrow> ov_path_topercent s \<noteq> []"
  by (cases s) simp_all

lemma c_string_id: "CHR 0x00 \<notin> set s \<Longrightarrow> c_string s = s"
  by (auto simp: c_string_def takeWhile_eq_all_conv)

lemma ancestors_chain:
  "named_chain fuel db (db_root db) qs \<Longrightarrow> length qs \<le> n \<Longrightarrow> qs \<noteq> [] \<Longrightarrow>
    ancestors n db (Some (last qs)) = Some (rev qs)"
proof (induction qs arbitrary: n rule: rev_induct)
  case (snoc q qs)
  have app: "named_chain fuel db p (xs @ [y]) \<longleftrightarrow> named_chain fuel db p xs \<and>
      named_step fuel db (last (p # xs)) y" for p xs y
    by (induction xs arbitrary: p) auto
  from snoc.prems have c: "named_chain fuel db (db_root db) qs" and
    s: "named_step fuel db (last (db_root db # qs)) q" by (simp_all add: app)
  obtain m where m: "n = Suc m" "length qs \<le> m" using snoc.prems(2) by (cases n) auto
  have q: "q \<noteq> db_root db" "upper db q = Some (last (db_root db # qs))"
    using s by (simp_all add: named_step_def)
  have "ancestors m db (Some (last (db_root db # qs))) = Some (rev qs)"
    by (cases "qs = []"; cases m) (use snoc.IH [OF c m(2)] in auto)
  with m q show ?case by simp
qed simp

lemma span_enc:
  assumes "rest = [] \<or> is_delim (hd rest)"
  shows "takeWhile (\<lambda>c. \<not> is_delim c) (enc db q @ rest) = enc db q"
    and "dropWhile (\<lambda>c. \<not> is_delim c) (enc db q @ rest) = rest"
  using assms enc_no_delim [of _ "ident_of db q"]
  by (cases rest; auto simp: takeWhile_append dropWhile_append takeWhile_eq_all_conv)+

lemma delimiter_delim: "is_delim (hd (delimiter db v q @ r))"
  by (simp add: delimiter_def is_delim_def)

lemma delimiter_not_Nil [simp]: "delimiter db v q \<noteq> []"
  by (simp add: delimiter_def)

lemma tail_text_start: "tail_text db v qs = [] \<or> is_delim (hd (tail_text db v qs))"
  by (cases qs) (simp_all add: delimiter_def is_delim_def)

definition step_delim :: "odb \<Rightarrow> objptr \<Rightarrow> char" where
  "step_delim db q = (if v_pouterobject db q = None then CHR ''/'' else CHR ''.'')"

lemma enc_not_dot:
  assumes "ident_of db q \<noteq> []"
  shows "\<not> is_prefix ''.'' (enc db q @ r)"
proof -
  obtain c cs where c: "enc db q = c # cs" using enc_not_Nil [OF assms] by (cases "enc db q") auto
  then have "\<not> is_delim c" using enc_no_delim [of c "ident_of db q"] by simp
  with c show ?thesis by (auto simp: is_delim_def)
qed

lemma cut_enc_last: "\<exists>c. cut_identifier v (enc db q) = (enc db q, c, None, [])"
  unfolding cut_identifier_def span_enc [of "[]" db q, unfolded append_Nil2, OF disjI1 [OF refl]]
  by (simp add: Let_def)

lemma cut_enc_next:
  assumes "ident_of db q2 \<noteq> []"
  shows "\<exists>c. cut_identifier v (enc db q @ delimiter db v q2 @ enc db q2 @ r) =
    (enc db q, c, Some (step_delim db q2), enc db q2 @ r)"
proof -
  have "delimiter db v q2 @ enc db q2 @ r = [] \<or> is_delim (hd (delimiter db v q2 @ enc db q2 @ r))"
    using delimiter_delim by blast
  note s = span_enc [OF this, of db q]
  show ?thesis
    using enc_not_dot [OF assms, of r]
    by (auto simp: cut_identifier_def Let_def s step_delim_def) (auto simp: delimiter_def)
qed

lemma count_loop_skip:
  "\<forall>c \<in> set s. \<not> is_delim c \<Longrightarrow> count_delims v (s @ t) n = count_delims v t n"
  by (induction s) (simp_all add: count_delims.simps)

lemma count_loop_text:
  "\<forall>q \<in> set qs. ident_of db q \<noteq> [] \<Longrightarrow> count_delims v (tail_text db v qs) n = Inr (n + length qs)"
proof (induction qs arbitrary: n)
  case (Cons q qs)
  obtain c cs where c: "enc db q = c # cs"
    using Cons.prems enc_not_Nil [of "ident_of db q"] by (cases "enc db q") auto
  have nd: "\<not> is_delim x" if "x \<in> set (c # cs)" for x
    using that enc_no_delim [of x "ident_of db q"] c by simp
  have "count_delims v (delimiter db v q @ c # cs @ tail_text db v qs) n =
      count_delims v (cs @ tail_text db v qs) (n + 1)"
  proof (cases "v_pouterobject db q")
    case None
    with nd [of c] show ?thesis by (auto simp: delimiter_def count_delims.simps is_delim_def)
  next
    case (Some o')
    with nd [of c] show ?thesis
      by (cases "v = 1") (auto simp: delimiter_def count_delims.simps is_delim_def)
  qed
  also have "\<dots> = count_delims v (tail_text db v qs) (n + 1)"
    by (rule count_loop_skip) (use nd in auto)
  finally show ?case using Cons by (simp add: c)
qed (simp add: count_delims.simps)

definition found :: "OV_ELEMENT \<Rightarrow> objptr \<Rightarrow> bool" where
  "found e p \<longleftrightarrow> elemtype e = OV_ET_OBJECT \<and> el_pobj e = Some p"

lemma search_step_named:
  assumes s: "named_step fuel db p q" and e: "found e p"
  shows "\<exists>new. search_step fuel db (step_delim db q) e (enc db q) = Some (Inr (e, new)) \<and> found new q"
proof -
  have name: "ov_path_frompercent (enc db q) = Some (ident_of db q)" "c_string (ident_of db q) = ident_of db q"
    using s frompercent_topercent c_string_id by (simp_all add: named_step_def)
  show ?thesis
  proof (cases "v_pouterobject db q")
    case None
    with s e name show ?thesis
      by (auto simp: search_step_def step_delim_def named_step_def ov_element_searchchild_def found_def)
  next
    case (Some o')
    with s obtain n where n: "ov_element_searchpart_object fuel db p (blank_element\<lparr>el_pobj := Some p\<rparr>)
        OV_ET_ANY (ident_of db q) = Some n" "elemtype n = OV_ET_OBJECT" "el_pobj n = Some q"
      by (auto simp: named_step_def split: option.splits)
    with Some e name show ?thesis
      by (auto simp: search_step_def step_delim_def ov_element_searchpart_def found_def)
  qed
qed

lemma parse_loop_named:
  "named_chain fuel db p (q # qs) \<Longrightarrow> found e p \<Longrightarrow>
    \<exists>els'. parse_loop fuel db v pathcopy pathlen (Some (step_delim db q)) (enc db q @ tail_text db v qs)
        (els @ [Some e]) = Some (Inr (False, els')) \<and>
      length els' = length els + 2 + length qs \<and> (\<exists>n. last els' = Some n \<and> found n (last (q # qs)))"
proof (induction qs arbitrary: p q e els)
  case Nil
  then obtain new where new: "search_step fuel db (step_delim db q) e (enc db q) = Some (Inr (e, new))"
    "found new q" using search_step_named by fastforce
  obtain c where "cut_identifier v (enc db q) = (enc db q, c, None, [])" using cut_enc_last by blast
  with new show ?case
    by (subst parse_loop.simps) (simp add: found_def elem_types)
next
  case (Cons q2 qs)
  then obtain new where new: "search_step fuel db (step_delim db q) e (enc db q) = Some (Inr (e, new))"
    "found new q" using search_step_named by fastforce
  have "ident_of db q2 \<noteq> []" using Cons.prems by (simp add: named_step_def)
  from cut_enc_next [OF this, of v q "tail_text db v qs"] obtain c where
    c: "cut_identifier v (enc db q @ delimiter db v q2 @ enc db q2 @ tail_text db v qs) =
      (enc db q, c, Some (step_delim db q2), enc db q2 @ tail_text db v qs)" by blast
  have "named_chain fuel db q (q2 # qs)" using Cons.prems by simp
  from Cons.IH [OF this new(2), where els = "els @ [Some e]"] obtain els' where
    els': "parse_loop fuel db v pathcopy pathlen (Some (step_delim db q2)) (enc db q2 @ tail_text db v qs)
        (els @ [Some e, Some new]) = Some (Inr (False, els'))"
      "length els' = length els + 3 + length qs" "\<exists>n. last els' = Some n \<and> found n (last (q2 # qs))" by auto
  have "parse_loop fuel db v pathcopy pathlen (Some (step_delim db q)) (enc db q @ tail_text db v (q2 # qs))
      (els @ [Some e]) = Some (Inr (False, els'))"
    using new els'(1) c by (subst parse_loop.simps) (simp add: found_def elem_types)
  with els'(2,3) show ?case by simp
qed

lemma named_chain_idents: "named_chain fuel db p qs \<Longrightarrow> \<forall>q \<in> set qs. ident_of db q \<noteq> []"
  by (induction qs arbitrary: p) (auto simp: named_step_def)

lemma canonical_path_value:
  assumes "named_chain fuel db (db_root db) qs" "qs \<noteq> []" "length qs \<le> fuel"
  shows "ov_path_getcanonicalpath fuel db True (Some (last qs)) v = Some (Some (tail_text db v qs))"
proof -
  have "last qs \<noteq> db_root db"
    using assms(1,2)
  proof (induction qs arbitrary: fuel rule: rev_induct)
    case (snoc q qs)
    have "named_chain fuel db p (xs @ [y]) \<Longrightarrow> y \<noteq> db_root db" for p xs y
      by (induction xs arbitrary: p) (auto simp: named_step_def)
    with snoc.prems show ?case by simp
  qed simp
  with ancestors_chain [OF assms(1,3,2)] show ?thesis
    by (simp add: ov_path_getcanonicalpath_def canonical_loop_text)
qed

lemma resolve_canonical:
  assumes n: "named_chain fuel db (db_root db) (q # qs)" and q: "v_pouterobject db q = None"
  shows "ov_path_getobjectpointer fuel db ids True (Some (tail_text db v (q # qs))) v = Some (Some (last (q # qs)))"
proof -
  let ?rest = "enc db q @ tail_text db v qs"
  have id: "ident_of db q \<noteq> []" using n by (simp add: named_step_def)
  obtain c cs where c: "enc db q = c # cs" "c \<noteq> CHR ''.''"
    using enc_not_Nil [OF id] enc_no_delim [of _ "ident_of db q"] by (cases "enc db q") (auto simp: is_delim_def)
  have tt: "tail_text db v (q # qs) = CHR ''/'' # ?rest" using q by (simp add: delimiter_def)
  have start: "path_start fuel db ids None (CHR ''/'' # ?rest) = Some (Inr \<lparr>by_id = None, st_size = 1,
      st_relsize = 0, st_del = Some CHR ''/'', st_rest = ?rest\<rparr>)"
    using c by (simp add: path_start_def)
  have count: "count_elements v ?rest 1 = Inr (length qs + 2)"
    using count_loop_skip [of "enc db q" v "tail_text db v qs"] enc_no_delim [of _ "ident_of db q"]
      count_loop_text [of qs db v] named_chain_idents [OF n] c(1)
    by (simp add: count_elements_def)
  have "found (object_element (db_root db)) (db_root db)" by (simp add: found_def object_element_def)
  from parse_loop_named [OF n this, of v "CHR ''/'' # ?rest" "length ?rest" "[]"] obtain els' where
    els': "parse_loop fuel db v (CHR ''/'' # ?rest) (length ?rest) (Some CHR ''/'') ?rest
        [Some (object_element (db_root db))] = Some (Inr (False, els'))"
      "length els' = length qs + 2" "\<exists>n. last els' = Some n \<and> found n (last (q # qs))"
    using q by (auto simp: step_delim_def)
  have "ov_path_resolve fuel db ids True None (Some (tail_text db v (q # qs))) v = Some (Inr els')"
    using els'(1,2) count enc_not_Nil [OF id] unfolding tt
    by (simp add: ov_path_resolve_def start initial_elements_def Let_def)
  moreover have "els' \<noteq> []" using els'(2) by auto
  ultimately show ?thesis
    using els'(3) by (auto simp: ov_path_getobjectpointer_def found_def)
qed

section \<open>Paths by id\<close>

lemma fill_ancestors_first: "length (fill_ancestors i db q els) = length els \<and> fill_ancestors i db q els ! 0 = els ! 0"
  by (induction i db q els rule: fill_ancestors.induct) auto

lemma unat_low_16: "unat (w AND 0xFFFF :: 64 word) = unat w mod 65536"
proof -
  have "w AND 0xFFFF = take_bit 16 w" by (simp add: take_bit_eq_mask mask_eq_exp_minus_1)
  also have "unat \<dots> = take_bit 16 (unat w)" by (rule unsigned_take_bit_eq)
  finally show ?thesis by (simp add: take_bit_eq_mod)
qed

lemma ById64_masks:
  "ov_path_getObjectById64 ids i = ov_path_getObjectById ids
    (of_nat (unat i div 2 ^ 32 mod 65536)) (of_nat (unat i mod 65536))"
proof -
  have "(of_nat (unat v) :: OV_UINT) = ucast v" for v :: "64 word" by simp
  then have "ucast (w AND 0xFFFF) = (of_nat (unat w mod 65536) :: OV_UINT)" for w :: "64 word"
    by (metis unat_low_16)
  moreover have "unat (drop_bit 32 i) = unat i div 2 ^ 32"
    unfolding unat_drop_bit_eq by (rule drop_bit_eq_div)
  ultimately show ?thesis by (simp add: ov_path_getObjectById64_def)
qed

section \<open>Properties\<close>

text \<open>C25: The canonical path of an object, made from the names of its containers and outer objects in
  either path version and percent-encoded, resolves to that object, for every object reachable
  from the root by children and parts with non-empty names.\<close>

theorem canonical_path_resolves:
  assumes "named_chain fuel db (db_root db) (q # qs)" "v_pouterobject db q = None" "length (q # qs) \<le> fuel"
  shows "\<exists>path. ov_path_getcanonicalpath fuel db True (Some (last (q # qs))) v = Some (Some path) \<and>
    ov_path_getobjectpointer fuel db ids True (Some path) v = Some (Some (last (q # qs)))"
proof -
  have "ov_path_getcanonicalpath fuel db True (Some (last (q # qs))) v = Some (Some (tail_text db v (q # qs)))"
    by (rule canonical_path_value [OF assms(1) _ assms(3)]) simp
  with resolve_canonical [OF assms(1,2)] show ?thesis by blast
qed

definition demo_db :: odb where
  "demo_db = \<lparr>db_root = 0, instantiation_class = (\<lambda>_. None), base_class = (\<lambda>_. None),
     children = (\<lambda>p. if p < 3 then [p + 1] else []), container = (\<lambda>p. Some (p - 1)),
     v_pouterobject = (\<lambda>_. None), ident_of = (\<lambda>p. replicate p CHR ''.''),
     is_domain = (\<lambda>_. True), is_variable = (\<lambda>_. False), is_part = (\<lambda>_. False),
     is_operation = (\<lambda>_. False), is_vendor = (\<lambda>_. False), v_varprops = (\<lambda>_. 0), v_vartype = (\<lambda>_. 0),
     v_offset = (\<lambda>_. 0), parentrelationship = (\<lambda>_. []), childrelationship = (\<lambda>_. []),
     childrolename = (\<lambda>_. []), parentrolename = (\<lambda>_. []), construction = (\<lambda>_. None), class_instsize = 0,
     is_class = (\<lambda>_. False), parentrel_class = (\<lambda>_. None), childrel_class = (\<lambda>_. None)\<rparr>"

lemma demo_chain: "named_chain 4 demo_db (db_root demo_db) [1, 2]"
  by (simp add: demo_db_def named_step_def upper_def search_child_def)

theorem canonical_path_resolves_witness:
  "ov_path_getobjectpointer 4 demo_db (\<lambda>_ _. None) True (Some ''/%2E/%2E%2E'') 2 = Some (Some 2)"
proof -
  obtain path where p: "ov_path_getcanonicalpath 4 demo_db True (Some 2) 2 = Some (Some path)"
    "ov_path_getobjectpointer 4 demo_db (\<lambda>_ _. None) True (Some path) 2 = Some (Some 2)"
    using canonical_path_resolves [OF demo_chain] by (auto simp: demo_db_def)
  have "ov_path_getcanonicalpath 4 demo_db True (Some 2) 2 = Some (Some (tail_text demo_db 2 [1, 2]))"
    using canonical_path_value [OF demo_chain, of 2] by simp
  also have "tail_text demo_db 2 [1, 2] = ''/%2E/%2E%2E''"
    by code_simp
  finally show ?thesis using p by simp
qed

text \<open>Looking up an object by its 64-bit id uses only 16 bits of each half of the id: ids that
  differ above are confused.\<close>

lemma getObjectById64_truncates:
  "ov_path_getObjectById64 ids i = ov_path_getObjectById ids
     (of_nat (unat i div 2 ^ 32 mod 65536)) (of_nat (unat i mod 65536)) \<and>
   ov_path_getObjectById64 ids 0x10000 = ov_path_getObjectById ids 0 0"
  using ById64_masks [where ids = ids and i = i] ById64_masks [where ids = ids and i = "0x10000"] by simp

text \<open>Resolving a path that starts with a numeric id leaves the first element of the result, the
  root's, unwritten.\<close>

lemma resolve_by_id_skips_root:
  assumes "path_start fuel db ids prelpath pathcopy = Some (Inr s)" "by_id s = Some p"
  shows "initial_elements db s prelpath ! 0 = None \<and> length (initial_elements db s prelpath) = st_size s"
proof -
  have "st_size s \<ge> 2"
    using assms by (auto simp: path_start_def start_by_id_def start_relative_def Let_def
        split: if_splits option.splits sum.splits prod.splits)
  then show ?thesis
    using assms(2) fill_ancestors_first by (simp add: initial_elements_def)
qed

end
