(* ===== verification/OvMemstack.thy ===== *)
theory OvMemstack
  imports OvPrelude
begin

text \<open>
  core/ov/source/libov/ov_memstack.c: the reference-counted stack of short-living memory. Pages are
  their addresses and lengths, the current page first and the static one last; addresses and
  sizes are natural numbers (a \<open>size_t\<close> has 64 bits). What \<open>Ov_HeapMalloc\<close> returns is an argument.
\<close>

section \<open>State and operations\<close>

definition OV_MEMSTACK_SIZE :: nat where "OV_MEMSTACK_SIZE = 4096"

text \<open>\<open>offsetof(OV_MEMSTACK, memory)\<close>: behind the union of a pointer and a \<open>double\<close>.\<close>

definition memory_offset :: nat where "memory_offset = 8"

definition Ov_AlignTo8 :: "nat \<Rightarrow> nat" where
  "Ov_AlignTo8 x = (x + 7) div 8 * 8"

record memstack =
  pages :: "(nat \<times> nat) list"
  pmem :: nat
  refcount :: int

definition reset_stack :: "nat \<Rightarrow> memstack \<Rightarrow> memstack" where
  "reset_stack static st = st\<lparr>pages := [(static, OV_MEMSTACK_SIZE)], pmem := static + memory_offset\<rparr>"

definition ov_memstack_lock :: "nat \<Rightarrow> memstack \<Rightarrow> int \<times> memstack" where
  "ov_memstack_lock static st =
    (let st = (if refcount st = 0 then reset_stack static st else st);
         st = st\<lparr>refcount := refcount st + 1\<rparr>
     in (refcount st, st))"

definition page_request :: "nat \<Rightarrow> nat" where
  "page_request n = (if n + memory_offset > OV_MEMSTACK_SIZE then n + memory_offset else OV_MEMSTACK_SIZE)"

definition ov_memstack_alloc :: "nat option \<Rightarrow> nat \<Rightarrow> memstack \<Rightarrow> nat option \<times> memstack" where
  "ov_memstack_alloc heap n st =
    (if refcount st = 0 then (None, st)
     else
       let ptr = pmem st;
           st = st\<lparr>pmem := pmem st + Ov_AlignTo8 n\<rparr>
       in if pmem st \<le> fst (hd (pages st)) + OV_MEMSTACK_SIZE then (Some ptr, st)
          else case heap of
              None \<Rightarrow> (None, st)
            | Some a \<Rightarrow>
                (Some (a + memory_offset),
                 st\<lparr>pages := (a, page_request n) # pages st,
                    pmem := a + memory_offset + Ov_AlignTo8 n\<rparr>))"

text \<open>The result carries the pages given back to the heap.\<close>

definition ov_memstack_unlock :: "nat \<Rightarrow> memstack \<Rightarrow> int \<times> (nat \<times> nat) list \<times> memstack" where
  "ov_memstack_unlock static st =
    (let st = st\<lparr>refcount := refcount st - 1\<rparr>
     in if refcount st = 0 then (0, butlast (pages st), reset_stack static st)
        else (refcount st, [], st))"

section \<open>Blocks\<close>

type_synonym block = "nat \<times> nat"

definition inside :: "block \<Rightarrow> nat \<times> nat \<Rightarrow> bool" where
  "inside b p \<longleftrightarrow> fst p + memory_offset \<le> fst b \<and> fst b + snd b \<le> fst p + snd p"

definition disjoint :: "block \<Rightarrow> block \<Rightarrow> bool" where
  "disjoint b c \<longleftrightarrow> fst b + snd b \<le> fst c \<or> fst c + snd c \<le> fst b"

text \<open>
  The invariant over the blocks handed out since the stack was opened: the pages do not overlap,
  every block lies in a page behind its header, blocks do not overlap, and those of the current
  page lie below \<open>pmem\<close>.
\<close>

definition stack_ok :: "nat \<Rightarrow> memstack \<Rightarrow> block list \<Rightarrow> bool" where
  "stack_ok static st bs \<longleftrightarrow>
    pages st \<noteq> [] \<and> snd (last (pages st)) = OV_MEMSTACK_SIZE \<and> fst (last (pages st)) = static \<and>
    sorted_wrt disjoint (pages st) \<and>
    (\<forall>p \<in> set (pages st). 8 dvd fst p \<and> OV_MEMSTACK_SIZE \<le> snd p) \<and>
    8 dvd pmem st \<and> fst (hd (pages st)) + memory_offset \<le> pmem st \<and>
    (snd (hd (pages st)) = OV_MEMSTACK_SIZE \<or> fst (hd (pages st)) + OV_MEMSTACK_SIZE < pmem st) \<and>
    sorted_wrt disjoint bs \<and>
    (\<forall>b \<in> set bs. 8 dvd fst b \<and> (\<exists>p \<in> set (pages st). inside b p)) \<and>
    (\<forall>b \<in> set bs. inside b (hd (pages st)) \<longrightarrow> fst b + snd b \<le> pmem st)"

lemma align8: "n \<le> Ov_AlignTo8 n" "8 dvd Ov_AlignTo8 n" "Ov_AlignTo8 n < n + 8"
  unfolding Ov_AlignTo8_def by auto

lemma align8_dvd: "8 dvd m \<Longrightarrow> n \<le> m \<Longrightarrow> Ov_AlignTo8 n \<le> m"
  unfolding Ov_AlignTo8_def by (elim dvdE) auto

lemma inside_disjoint: "inside b p \<Longrightarrow> inside c q \<Longrightarrow> disjoint p q \<Longrightarrow> disjoint b c"
  by (auto simp: inside_def disjoint_def)

lemma inside_one_page: "inside b p \<Longrightarrow> inside b q \<Longrightarrow> \<not> disjoint p q"
  by (auto simp: inside_def disjoint_def memory_offset_def)

lemma stack_ok_fits:
  assumes ok: "stack_ok static st bs"
    and fit: "pmem st + Ov_AlignTo8 n \<le> fst (hd (pages st)) + OV_MEMSTACK_SIZE"
  shows "stack_ok static (st\<lparr>pmem := pmem st + Ov_AlignTo8 n\<rparr>) ((pmem st, n) # bs)"
proof -
  let ?h = "hd (pages st)"
  have h: "?h \<in> set (pages st)" "snd ?h = OV_MEMSTACK_SIZE" "8 dvd pmem st" "fst ?h + memory_offset \<le> pmem st"
    using ok fit by (auto simp: stack_ok_def)
  have new: "inside (pmem st, n) ?h" using h fit align8(1) [of n] by (simp add: inside_def)
  have "disjoint (pmem st, n) b" if b: "b \<in> set bs" for b
  proof -
    obtain p where p: "p \<in> set (pages st)" "inside b p" using ok b by (auto simp: stack_ok_def)
    show ?thesis
    proof (cases "p = ?h")
      case True
      then have "fst b + snd b \<le> pmem st" using ok b p by (simp add: stack_ok_def)
      then show ?thesis by (simp add: disjoint_def)
    next
      case False
      have "pages st = ?h # tl (pages st)" using ok by (simp add: stack_ok_def)
      with False p ok have "disjoint ?h p" unfolding stack_ok_def by (metis set_ConsD sorted_wrt.simps(2))
      with new p show ?thesis by (blast intro: inside_disjoint)
    qed
  qed
  with ok new h align8(1,2) [of n] fit show ?thesis
    by (auto simp: stack_ok_def dvd_add intro: le_trans)
qed

lemma stack_ok_grow: "stack_ok static st bs \<Longrightarrow> stack_ok static (st\<lparr>pmem := pmem st + Ov_AlignTo8 n\<rparr>) bs"
  using align8(2) [of n] by (auto simp: stack_ok_def dvd_add)

lemma stack_ok_page:
  assumes ok: "stack_ok static st bs" and a: "8 dvd a" "\<forall>p \<in> set (pages st). disjoint (a, page_request n) p"
  shows "stack_ok static (st\<lparr>pages := (a, page_request n) # pages st, pmem := a + memory_offset + Ov_AlignTo8 n\<rparr>)
    ((a + memory_offset, n) # bs)"
proof -
  let ?p = "(a, page_request n)"
  have new: "inside (a + memory_offset, n) ?p"
    by (auto simp: inside_def page_request_def memory_offset_def OV_MEMSTACK_SIZE_def)
  have old: "\<exists>p \<in> set (pages st). inside b p" if "b \<in> set bs" for b
    using ok that by (auto simp: stack_ok_def)
  have "disjoint (a + memory_offset, n) b" if "b \<in> set bs" for b
    using old [OF that] new a(2) inside_disjoint by blast
  moreover have "\<not> inside b ?p" if "b \<in> set bs" for b
    using old [OF that] a(2) inside_one_page by blast
  moreover have "snd ?p = OV_MEMSTACK_SIZE \<or> a + OV_MEMSTACK_SIZE < a + memory_offset + Ov_AlignTo8 n"
    using align8(1) [of n] by (auto simp: page_request_def)
  moreover have "8 dvd a + memory_offset + Ov_AlignTo8 n"
    using a(1) align8(2) [of n] by (auto simp: memory_offset_def)
  moreover have "8 dvd a + memory_offset" using a(1) by (simp add: memory_offset_def)
  moreover have "OV_MEMSTACK_SIZE \<le> page_request n" by (simp add: page_request_def)
  ultimately show ?thesis
    using ok new a align8(1) [of n] by (auto simp: stack_ok_def)
qed

lemma alloc_ok:
  assumes ok: "stack_ok static st bs"
    and heap: "\<And>a. heap = Some a \<Longrightarrow> 8 dvd a \<and> (\<forall>p \<in> set (pages st). disjoint (a, page_request n) p)"
    and al: "ov_memstack_alloc heap n st = (r, st')"
  shows "stack_ok static st' (case r of None \<Rightarrow> bs | Some b \<Rightarrow> (b, n) # bs)"
proof (cases "refcount st = 0")
  case True
  with al ok show ?thesis by (auto simp: ov_memstack_alloc_def)
next
  case rc: False
  show ?thesis
  proof (cases "pmem st + Ov_AlignTo8 n \<le> fst (hd (pages st)) + OV_MEMSTACK_SIZE")
    case True
    with al rc stack_ok_fits [OF ok True] show ?thesis by (auto simp: ov_memstack_alloc_def Let_def)
  next
    case False
    show ?thesis
    proof (cases heap)
      case None
      with al rc False stack_ok_grow [OF ok] show ?thesis by (auto simp: ov_memstack_alloc_def Let_def)
    next
      case (Some a)
      with al rc False stack_ok_page [OF ok conjunct1 [OF heap [OF Some]] conjunct2 [OF heap [OF Some]]]
      show ?thesis by (auto simp: ov_memstack_alloc_def Let_def)
    qed
  qed
qed

section \<open>Runs between opening and freeing\<close>

text \<open>\<open>stack_run static st bs\<close>: since the lock that opened the stack the blocks \<open>bs\<close> were handed
  out. The heap gives pages that are aligned and do not overlap the pages in use.\<close>

inductive stack_run :: "nat \<Rightarrow> memstack \<Rightarrow> block list \<Rightarrow> bool" for static where
  opened: "refcount st = 0 \<Longrightarrow> 8 dvd static \<Longrightarrow> stack_run static (snd (ov_memstack_lock static st)) []"
| locked: "stack_run static st bs \<Longrightarrow> stack_run static (snd (ov_memstack_lock static st)) bs"
| alloc: "stack_run static st bs \<Longrightarrow>
    (\<forall>a. heap = Some a \<longrightarrow> 8 dvd a \<and> (\<forall>p \<in> set (pages st). disjoint (a, page_request n) p)) \<Longrightarrow>
    ov_memstack_alloc heap n st = (r, st') \<Longrightarrow>
    stack_run static st' (case r of None \<Rightarrow> bs | Some b \<Rightarrow> (b, n) # bs)"
| unlocked: "stack_run static st bs \<Longrightarrow> refcount st > 1 \<Longrightarrow>
    stack_run static (snd (snd (ov_memstack_unlock static st))) bs"

lemma stack_ok_pages_pmem:
  "pages st' = pages st \<Longrightarrow> pmem st' = pmem st \<Longrightarrow> stack_ok static st' bs = stack_ok static st bs"
  by (simp add: stack_ok_def)

lemma alloc_refcount: "refcount (snd (ov_memstack_alloc heap n st)) = refcount st"
  by (auto simp: ov_memstack_alloc_def Let_def split: option.splits)

lemma stack_run_ok: "stack_run static st bs \<Longrightarrow> stack_ok static st bs \<and> 0 < refcount st"
proof (induction rule: stack_run.induct)
  case (opened st)
  then show ?case
    by (auto simp: ov_memstack_lock_def Let_def reset_stack_def stack_ok_def memory_offset_def)
next
  case (locked st bs)
  then show ?case
    using stack_ok_pages_pmem [of "st\<lparr>refcount := refcount st + 1\<rparr>" st]
    by (auto simp: ov_memstack_lock_def Let_def)
next
  case (alloc st bs heap n r st')
  then have "stack_ok static st' (case r of None \<Rightarrow> bs | Some b \<Rightarrow> (b, n) # bs)"
    by (intro alloc_ok [of static st bs heap n r st']) auto
  with alloc alloc_refcount [of heap n st] show ?case by simp
next
  case (unlocked st bs)
  then show ?case
    using stack_ok_pages_pmem [of "st\<lparr>refcount := refcount st - 1\<rparr>" st]
    by (auto simp: ov_memstack_unlock_def Let_def)
qed

section \<open>Properties\<close>

text \<open>C26: Blocks of the memory stack are safe: whatever the sequence of nested locks, unlocks and
  allocations since the stack was opened, all blocks handed out are 8-byte aligned, lie inside
  one page of the stack behind its header, and do not overlap each other.\<close>

theorem stack_blocks_safe:
  assumes "stack_run static st bs"
  shows "sorted_wrt disjoint bs \<and> (\<forall>b \<in> set bs. 8 dvd fst b \<and> (\<exists>p \<in> set (pages st). inside b p))"
  using stack_run_ok [OF assms] by (simp add: stack_ok_def)

definition demo_stack :: memstack where
  "demo_stack = \<lparr>pages = [], pmem = 0, refcount = 0\<rparr>"

lemma demo_run: "stack_run 8192 \<lparr>pages = [(16384, 5008), (8192, 4096)], pmem = 21392, refcount = 1\<rparr>
    [(16392, 5000), (8200, 10)]"
proof -
  let ?s0 = "\<lparr>pages = [(8192, 4096)], pmem = 8200, refcount = 1\<rparr>"
  let ?s1 = "\<lparr>pages = [(8192, 4096)], pmem = 8216, refcount = 1\<rparr>"
  have "stack_run 8192 ?s0 []"
    using stack_run.opened [of demo_stack 8192]
    by (simp add: demo_stack_def ov_memstack_lock_def Let_def reset_stack_def memory_offset_def OV_MEMSTACK_SIZE_def)
  from stack_run.alloc [OF this, of None 10 "Some 8200" ?s1]
  have "stack_run 8192 ?s1 [(8200, 10)]"
    by (simp add: ov_memstack_alloc_def Let_def Ov_AlignTo8_def OV_MEMSTACK_SIZE_def)
  from stack_run.alloc [OF this, of "Some 16384" 5000 "Some 16392"
      "\<lparr>pages = [(16384, 5008), (8192, 4096)], pmem = 21392, refcount = 1\<rparr>"]
  show ?thesis
    by (simp add: ov_memstack_alloc_def Let_def Ov_AlignTo8_def OV_MEMSTACK_SIZE_def memory_offset_def
        page_request_def disjoint_def)
qed

theorem stack_blocks_safe_witness: "disjoint (16392, 5000) (8200, 10)"
  using stack_blocks_safe [OF demo_run] by simp

text \<open>The lock is reentrant and the last unlock frees everything: with the counter at one the
  unlock gives back exactly the pages that were taken from the heap and resets the stack, with a
  higher one it frees nothing, and after an unlock too many the next lock does not open the stack,
  so allocation is refused.\<close>

lemma unlock_frees_all:
  assumes "stack_run static st bs"
  shows "(refcount st = 1 \<longrightarrow> ov_memstack_unlock static st =
      (0, butlast (pages st), \<lparr>pages = [(static, OV_MEMSTACK_SIZE)], pmem = static + memory_offset, refcount = 0\<rparr>)
      \<and> pages st = butlast (pages st) @ [(static, OV_MEMSTACK_SIZE)])
    \<and> (refcount st > 1 \<longrightarrow> ov_memstack_unlock static st = (refcount st - 1, [], st\<lparr>refcount := refcount st - 1\<rparr>))
    \<and> (refcount st = 1 \<longrightarrow> fst (ov_memstack_alloc heap n (snd (ov_memstack_lock static
        (snd (snd (ov_memstack_unlock static (snd (snd (ov_memstack_unlock static st))))))))) = None)"
proof -
  have ok: "stack_ok static st bs" using stack_run_ok [OF assms] by blast
  then have "pages st = butlast (pages st) @ [last (pages st)]" "last (pages st) = (static, OV_MEMSTACK_SIZE)"
    by (simp_all add: stack_ok_def prod_eq_iff)
  then show ?thesis
    by (auto simp: ov_memstack_unlock_def Let_def reset_stack_def ov_memstack_lock_def ov_memstack_alloc_def)
qed

end
