(* ===== verification/OvIdList.thy ===== *)
theory OvIdList
  imports OvPath
begin

text \<open>
  core/ov/source/libov/ov_database.c: the numeric ids of objects and the id list, which relates ids to
  object pointers. The list is a chain of nodes of at most 512 relations, ordered by id, with an
  array of pointers to the nodes. Nodes are a list in the order of the chain, which is also the order
  of the array, so that the number of a node is its position plus one; \<open>capacity\<close> is the number of
  entries the array has room for. \<open>None\<close> as the result of an operation is undefined behaviour: a
  division by zero, a null pointer, or a write behind the array.
\<close>

section \<open>State\<close>

definition OV_IDLIST_RELATIONSPERCHUNK :: nat where "OV_IDLIST_RELATIONSPERCHUNK = 512"
definition OV_IDLIST_NODELISTCHUNKSIZE :: nat where "OV_IDLIST_NODELISTCHUNKSIZE = 32"

lemmas chunk_sizes = OV_IDLIST_RELATIONSPERCHUNK_def OV_IDLIST_NODELISTCHUNKSIZE_def

record OV_ID_POINTER_RELATION =
  idHigh :: OV_UINT
  idLow :: OV_UINT
  rel_pobj :: "objptr option"

record OV_IDLIST_NODE =
  minId :: "64 word"
  maxId :: "64 word"
  relations :: "OV_ID_POINTER_RELATION list"

record OV_IDLIST_HEADNODE =
  head_maxId :: "64 word"
  nodes :: "OV_IDLIST_NODE list"
  capacity :: nat
  relationCount :: "64 word"

section \<open>Ids\<close>

text \<open>The counters and whether there is a next id.\<close>

definition ov_database_getId :: "OV_UINT \<times> OV_UINT \<Rightarrow> bool \<times> (OV_UINT \<times> OV_UINT) \<times> (OV_UINT \<times> OV_UINT)" where
  "ov_database_getId = (\<lambda>(idCounter1, idCounter0).
    if idCounter0 < OV_VL_MAXUINT then (True, (idCounter1, idCounter0), (idCounter1, idCounter0 + 1))
    else if idCounter1 < OV_VL_MAXUINT then (True, (idCounter1, idCounter0), (idCounter1 + 1, 0))
    else (False, (idCounter1, idCounter0), (idCounter1, 0)))"

definition ov_database_convertId :: "OV_UINT \<Rightarrow> OV_UINT \<Rightarrow> 64 word" where
  "ov_database_convertId idH idL = push_bit 32 (ucast idH) + ucast idL"

definition ov_database_compareIds :: "OV_UINT \<Rightarrow> OV_UINT \<Rightarrow> OV_UINT \<Rightarrow> OV_UINT \<Rightarrow> int" where
  "ov_database_compareIds id1H id1L id2H id2L =
    (if id1H > id2H then 1
     else if id1H < id2H then - 1
     else if id1L > id2L then 1
     else if id1L < id2L then - 1
     else 0)"

section \<open>Lookup\<close>

text \<open>The walk along the nodes; the result \<open>None\<close> when \<open>fuel\<close> nodes are not enough.\<close>

fun walk_nodes :: "nat \<Rightarrow> OV_IDLIST_NODE list \<Rightarrow> 64 word \<Rightarrow> nat option \<Rightarrow> nat option option" where
  "walk_nodes fuel ns id64 None = Some None"
| "walk_nodes 0 ns id64 (Some k) = None"
| "walk_nodes (Suc fuel) ns id64 (Some k) =
    (if maxId (ns ! k) < id64 then walk_nodes fuel ns id64 (if k + 1 < length ns then Some (k + 1) else None)
     else if minId (ns ! k) > id64 then walk_nodes fuel ns id64 (if k = 0 then None else Some (k - 1))
     else Some (Some k))"

definition ov_database_idListGetNode :: "nat \<Rightarrow> OV_IDLIST_HEADNODE \<Rightarrow> OV_UINT \<Rightarrow> OV_UINT \<Rightarrow> nat option option" where
  "ov_database_idListGetNode fuel l idH idL =
    (let id64 = ov_database_convertId idH idL
     in if id64 > head_maxId l then Some None
        else if head_maxId l = 0 then None
        else walk_nodes fuel (nodes l) id64
          (Some (unat (id64 div head_maxId l) * (length (nodes l) - 1))))"

text \<open>The bisection: \<open>Inl\<close> the index of a hit, \<open>Inr\<close> the lower bound when the interval is small.\<close>

function bisect_relations :: "OV_UINT \<Rightarrow> OV_UINT \<Rightarrow> OV_ID_POINTER_RELATION list \<Rightarrow> nat \<Rightarrow> nat \<Rightarrow> nat + nat" where
  "bisect_relations idH idL rels currMin currMax =
    (let index = (currMax - currMin) div 2 + currMin;
         cmpRes = ov_database_compareIds idH idL (idHigh (rels ! index)) (idLow (rels ! index))
     in if cmpRes = 0 then Inl index
        else
          let currMin' = (if cmpRes > 0 then index else currMin);
              currMax' = (if cmpRes < 0 then index else currMax)
          in if currMax' - currMin' > 1 then bisect_relations idH idL rels currMin' currMax' else Inr currMin')"
  by pat_completeness auto

lemma halves_shrink:
  "Suc 0 < b - ((b - a) div 2 + a) \<Longrightarrow> b - ((b - a) div 2 + a) < b - (a :: nat)"
  "Suc 0 < (b - a) div 2 \<Longrightarrow> (b - a) div 2 < b - (a :: nat)"
  by linarith+

termination bisect_relations
  by (relation "measure (\<lambda>(idH, idL, rels, currMin, currMax). currMax - currMin)")
    (auto intro: halves_shrink split: if_splits)

declare bisect_relations.simps [simp del]

text \<open>\<open>None\<close> if the relation behind the last one filled is read.\<close>

definition ov_database_idListGetRelationIndex ::
    "OV_UINT \<Rightarrow> OV_UINT \<Rightarrow> OV_IDLIST_NODE \<Rightarrow> (OV_RESULT + nat) option" where
  "ov_database_idListGetRelationIndex idH idL node =
    (let id64 = ov_database_convertId idH idL;
         is_at = (\<lambda>index. ov_database_compareIds idH idL (idHigh (relations node ! index)) (idLow (relations node ! index)) = 0)
     in if relations node = [] \<or> id64 > maxId node \<or> id64 < minId node then Some (Inl OV_ERR_BADVALUE)
        else case bisect_relations idH idL (relations node) 0 (length (relations node) - 1) of
            Inl index \<Rightarrow> Some (Inr index)
          | Inr currMin \<Rightarrow>
              if is_at currMin then Some (Inr currMin)
              else if currMin + 1 \<ge> length (relations node) then None
              else if is_at (currMin + 1) then Some (Inr (currMin + 1))
              else Some (Inl OV_ERR_GENERIC))"

text \<open>What \<open>ov_path_getObjectById\<close> sees of the list (no answer counts as no node).\<close>

definition id_lookup :: "nat \<Rightarrow> OV_IDLIST_HEADNODE \<Rightarrow> id_list" where
  "id_lookup fuel l idH idL =
    (case ov_database_idListGetNode fuel l idH idL of
       Some (Some k) \<Rightarrow>
         (case ov_database_idListGetRelationIndex idH idL (nodes l ! k) of
            Some (Inr index) \<Rightarrow> Some (Inr (rel_pobj (relations (nodes l ! k) ! index)))
          | Some (Inl r) \<Rightarrow> Some (Inl r)
          | None \<Rightarrow> None)
     | _ \<Rightarrow> None)"

section \<open>Insertion\<close>

definition relation_id :: "OV_ID_POINTER_RELATION \<Rightarrow> 64 word" where
  "relation_id r = ov_database_convertId (idHigh r) (idLow r)"

text \<open>A new last node and its entry in the array, which gets a new chunk at every multiple of the
  chunk size. \<open>mem_node\<close>, \<open>mem_array\<close>: the allocations succeed. (A chain of \<open>2^64\<close> nodes, for which the
  code has a test, is not reached.)\<close>

definition append_node :: "bool \<Rightarrow> bool \<Rightarrow> 64 word \<Rightarrow> OV_IDLIST_HEADNODE \<Rightarrow> (OV_RESULT \<times> OV_IDLIST_HEADNODE) option" where
  "append_node mem_node mem_array newId l =
    (if \<not> mem_node then Some (OV_ERR_DBOUTOFMEMORY, l)
     else
       let l = l\<lparr>nodes := nodes l @ [\<lparr>minId = newId, maxId = 0, relations = []\<rparr>]\<rparr>
       in if length (nodes l) mod OV_IDLIST_NODELISTCHUNKSIZE = 0 then
            (if mem_array
             then Some (OV_ERR_OK, l\<lparr>capacity := length (nodes l) + OV_IDLIST_NODELISTCHUNKSIZE\<rparr>)
             else Some (OV_ERR_DBOUTOFMEMORY, l\<lparr>capacity := 0\<rparr>))
          else if length (nodes l) \<le> capacity l then Some (OV_ERR_OK, l)
          else None)"

definition append_relation :: "OV_ID_POINTER_RELATION \<Rightarrow> OV_IDLIST_HEADNODE \<Rightarrow> OV_IDLIST_HEADNODE" where
  "append_relation r l =
    (let node = last (nodes l)
     in l\<lparr>nodes := butlast (nodes l) @ [node\<lparr>relations := relations node @ [r], maxId := relation_id r\<rparr>],
          head_maxId := relation_id r, relationCount := relationCount l + 1\<rparr>)"

definition ov_database_idListInsert :: "bool \<Rightarrow> bool \<Rightarrow> OV_UINT \<Rightarrow> OV_UINT \<Rightarrow> objptr option \<Rightarrow> OV_IDLIST_HEADNODE \<Rightarrow>
    (OV_RESULT \<times> OV_IDLIST_HEADNODE) option" where
  "ov_database_idListInsert mem_node mem_array idH idL pInstance l =
    (if pInstance = None then Some (OV_ERR_BADPARAM, l)
     else if ov_database_convertId idH idL > head_maxId l \<or> (idH = 0 \<and> idL = 0 \<and> head_maxId l = 0) then
       (case (if length (relations (last (nodes l))) \<ge> OV_IDLIST_RELATIONSPERCHUNK
              then append_node mem_node mem_array (ov_database_convertId idH idL) l
              else Some (OV_ERR_OK, l)) of
          None \<Rightarrow> None
        | Some (result, l) \<Rightarrow>
            if Ov_Fail result then Some (result, l)
            else Some (OV_ERR_OK, append_relation \<lparr>idHigh = idH, idLow = idL, rel_pobj = pInstance\<rparr> l))
     else Some (OV_ERR_BADVALUE, l))"

section \<open>Release\<close>

definition set_bounds :: "OV_IDLIST_NODE \<Rightarrow> OV_IDLIST_NODE" where
  "set_bounds node = node\<lparr>minId := relation_id (hd (relations node)), maxId := relation_id (last (relations node))\<rparr>"

definition drop_relation :: "nat \<Rightarrow> OV_IDLIST_NODE \<Rightarrow> OV_IDLIST_NODE" where
  "drop_relation index node =
    (let node = node\<lparr>relations := take index (relations node) @ drop (Suc index) (relations node)\<rparr>
     in if relations node \<noteq> [] then set_bounds node else node)"

definition half_full :: "OV_IDLIST_NODE \<Rightarrow> bool" where
  "half_full node \<longleftrightarrow> \<not> length (relations node) div (OV_IDLIST_RELATIONSPERCHUNK div 2) < 1"

definition put_together :: "OV_IDLIST_NODE \<Rightarrow> OV_IDLIST_NODE \<Rightarrow> OV_IDLIST_NODE" where
  "put_together node nextNode =
    set_bounds (node\<lparr>relations := relations node @
      take (OV_IDLIST_RELATIONSPERCHUNK - length (relations node)) (relations nextNode)\<rparr>)"

text \<open>The nodes after the merging, and the node to delete, if one is empty now.\<close>

definition merge_nodes :: "nat \<Rightarrow> OV_IDLIST_NODE list \<Rightarrow> OV_IDLIST_NODE list \<times> nat option" where
  "merge_nodes k ns =
    (if k + 1 < length ns \<and> \<not> half_full (ns ! k) \<and> \<not> half_full (ns ! (k + 1)) then
       (ns[k := put_together (ns ! k) (ns ! (k + 1))], Some (k + 1))
     else if k > 0 \<and> \<not> half_full (ns ! k) \<and> \<not> half_full (ns ! (k - 1)) then
       (ns[k - 1 := put_together (ns ! (k - 1)) (ns ! k)], Some k)
     else (ns, if relations (ns ! k) = [] then Some k else None))"

text \<open>Deleting the first node reads its null \<open>pPrevious\<close>. At a multiple of the chunk size the array is
  cut to the number of nodes.\<close>

definition delete_node :: "bool \<Rightarrow> nat \<Rightarrow> OV_IDLIST_HEADNODE \<Rightarrow> (OV_RESULT \<times> OV_IDLIST_HEADNODE) option" where
  "delete_node mem_array j l =
    (if j = 0 then None
     else
       let l = l\<lparr>nodes := take j (nodes l) @ drop (Suc j) (nodes l)\<rparr>
       in if length (nodes l) mod OV_IDLIST_NODELISTCHUNKSIZE = 0 then
            (if mem_array then Some (OV_ERR_OK, l\<lparr>capacity := length (nodes l)\<rparr>)
             else Some (OV_ERR_DBOUTOFMEMORY, l\<lparr>capacity := 0\<rparr>))
          else Some (OV_ERR_OK, l))"

definition finish_release :: "OV_IDLIST_HEADNODE \<Rightarrow> OV_IDLIST_HEADNODE" where
  "finish_release l = l\<lparr>relationCount := relationCount l - 1, head_maxId := maxId (last (nodes l))\<rparr>"

definition release_relation :: "bool \<Rightarrow> nat \<Rightarrow> nat \<Rightarrow> OV_IDLIST_HEADNODE \<Rightarrow> (OV_RESULT \<times> OV_IDLIST_HEADNODE) option" where
  "release_relation mem_array k index l =
    (let (ns, del) = merge_nodes k ((nodes l)[k := drop_relation index (nodes l ! k)]);
         l = l\<lparr>nodes := ns\<rparr>
     in case (case del of None \<Rightarrow> Some (OV_ERR_OK, l) | Some j \<Rightarrow> delete_node mem_array j l) of
          None \<Rightarrow> None
        | Some (result, l) \<Rightarrow>
            if Ov_Fail result then Some (result, l) else Some (OV_ERR_OK, finish_release l))"

definition ov_database_idListRelease :: "nat \<Rightarrow> bool \<Rightarrow> OV_UINT \<Rightarrow> OV_UINT \<Rightarrow> OV_IDLIST_HEADNODE \<Rightarrow>
    (OV_RESULT \<times> OV_IDLIST_HEADNODE) option" where
  "ov_database_idListRelease fuel mem_array idH idL l =
    (case ov_database_idListGetNode fuel l idH idL of
       None \<Rightarrow> None
     | Some None \<Rightarrow> Some (OV_ERR_GENERIC, l)
     | Some (Some k) \<Rightarrow>
         (case ov_database_idListGetRelationIndex idH idL (nodes l ! k) of
            None \<Rightarrow> None
          | Some (Inl r) \<Rightarrow> Some (r, l)
          | Some (Inr index) \<Rightarrow> release_relation mem_array k index l))"

section \<open>Ids are numbers\<close>

lemma convertId_value: "uint (ov_database_convertId h l) = uint h * 4294967296 + uint l"
proof -
  have b: "uint h < 4294967296" "uint l < 4294967296" "0 \<le> uint h" "0 \<le> uint l"
    by simp_all
  have m: "uint h * 4294967296 + uint l < 18446744073709551616" "uint h * 4294967296 < 18446744073709551616"
    "uint h < 18446744073709551616" "uint l < 18446744073709551616"
    using b by linarith+
  have h: "uint (push_bit 32 (ucast h :: 64 word)) = uint h * 4294967296"
    using b m by (simp add: push_bit_eq_mult uint_word_arith_bintrs unsigned_ucast_eq take_bit_eq_mod mod_pos_pos_trivial)
  show ?thesis
    using b m h by (simp add: ov_database_convertId_def uint_word_arith_bintrs unsigned_ucast_eq take_bit_eq_mod mod_pos_pos_trivial)
qed

lemma convertId_less:
  "ov_database_convertId h l < ov_database_convertId h' l' \<longleftrightarrow> h < h' \<or> (h = h' \<and> l < l')"
proof -
  have b: "uint l < 4294967296" "uint l' < 4294967296" "0 \<le> uint l" "0 \<le> uint l'"
    by simp_all
  have "uint h * 4294967296 + uint l < uint h' * 4294967296 + uint l' \<longleftrightarrow>
      uint h < uint h' \<or> (uint h = uint h' \<and> uint l < uint l')"
    using b by linarith
  then show ?thesis
    by (simp add: word_less_def convertId_value word_uint_eq_iff)
qed

lemma convertId_inject [simp]: "ov_database_convertId h l = ov_database_convertId h' l' \<longleftrightarrow> h = h' \<and> l = l'"
  by (metis convertId_less linorder_neq_iff)

lemma compareIds_order:
  "ov_database_compareIds h l h' l' =
    (if ov_database_convertId h l > ov_database_convertId h' l' then 1
     else if ov_database_convertId h l < ov_database_convertId h' l' then - 1 else 0)"
  by (auto simp: ov_database_compareIds_def convertId_less)

interpretation id_cmp: comparator "\<lambda>a b. ov_database_compareIds (fst a) (snd a) (fst b) (snd b)"
proof
  fix a b c :: "OV_UINT \<times> OV_UINT"
  show "0 < ov_database_compareIds (fst a) (snd a) (fst b) (snd b) \<longleftrightarrow>
      ov_database_compareIds (fst b) (snd b) (fst a) (snd a) < 0"
    by (auto simp: compareIds_order)
  show "ov_database_compareIds (fst a) (snd a) (fst b) (snd b) \<le> 0 \<Longrightarrow>
      ov_database_compareIds (fst b) (snd b) (fst c) (snd c) \<le> 0 \<Longrightarrow>
      ov_database_compareIds (fst a) (snd a) (fst c) (snd c) \<le> 0"
    by (auto simp: compareIds_order simp del: convertId_inject split: if_splits)
qed

lemma compareIds_zero:
  "ov_database_compareIds h l (idHigh r) (idLow r) = 0 \<longleftrightarrow> ov_database_convertId h l = relation_id r"
  "0 < ov_database_compareIds h l (idHigh r) (idLow r) \<longleftrightarrow> relation_id r < ov_database_convertId h l"
  "ov_database_compareIds h l (idHigh r) (idLow r) < 0 \<longleftrightarrow> ov_database_convertId h l < relation_id r"
  by (auto simp: compareIds_order relation_id_def simp del: convertId_inject)

section \<open>The bisection\<close>

abbreviation rid :: "OV_ID_POINTER_RELATION list \<Rightarrow> nat \<Rightarrow> 64 word" where
  "rid rels i \<equiv> relation_id (rels ! i)"

definition rels_sorted :: "OV_ID_POINTER_RELATION list \<Rightarrow> bool" where
  "rels_sorted rels \<longleftrightarrow> sorted_wrt (<) (map relation_id rels)"

lemma rels_sortedD: "rels_sorted rels \<Longrightarrow> i < j \<Longrightarrow> j < length rels \<Longrightarrow> rid rels i < rid rels j"
  unfolding rels_sorted_def using sorted_wrt_nth_less [of "(<)" "map relation_id rels" i j] by simp

lemma rels_sorted_inj: "rels_sorted rels \<Longrightarrow> i < length rels \<Longrightarrow> j < length rels \<Longrightarrow> rid rels i = rid rels j \<Longrightarrow> i = j"
  using rels_sortedD [of rels i j] rels_sortedD [of rels j i] by (cases i j rule: linorder_cases) auto

text \<open>What the bisection finds in an interval at whose ends the id lies: a hit, or a lower bound below
  which and above whose successor the id is not.\<close>

lemma bisect_correct:
  assumes "rels_sorted rels"
  shows "lo \<le> hi \<Longrightarrow> hi < length rels \<Longrightarrow> rid rels lo \<le> x \<Longrightarrow> x \<le> rid rels hi \<Longrightarrow>
    x = ov_database_convertId h l \<Longrightarrow>
    (case bisect_relations h l rels lo hi of
       Inl i \<Rightarrow> i < length rels \<and> rid rels i = x
     | Inr m \<Rightarrow> m < length rels \<and> rid rels m \<le> x \<and> (m + 1 < length rels \<longrightarrow> x \<le> rid rels (m + 1)) \<and>
         (m + 1 \<ge> length rels \<longrightarrow> rid rels m = x))"
proof (induction "hi - lo" arbitrary: lo hi rule: less_induct)
  case less
  let ?i = "(hi - lo) div 2 + lo"
  have i: "lo \<le> ?i" "?i \<le> hi" "?i < length rels"
    using less.prems by linarith+
  consider (eq) "x = rid rels ?i" | (gt) "rid rels ?i < x" | (lt) "x < rid rels ?i" by fastforce
  then show ?case
  proof cases
    case eq
    then have "bisect_relations h l rels lo hi = Inl ?i"
      using less.prems(5) by (subst bisect_relations.simps) (simp add: compareIds_zero)
    then show ?thesis using eq i by simp
  next
    case gt
    then have s: "bisect_relations h l rels lo hi = (if hi - ?i > 1 then bisect_relations h l rels ?i hi else Inr ?i)"
      using less.prems(5) by (subst bisect_relations.simps) (auto simp: compareIds_zero Let_def)
    show ?thesis
    proof (cases "hi - ?i > 1")
      case True
      then show ?thesis
        using s gt i less.prems less.hyps [of hi ?i] by (simp add: halves_shrink)
    next
      case False
      have ne: "?i \<noteq> hi" using gt less.prems(4) by (metis linorder_not_less)
      then have "hi = ?i + 1" using False i by linarith
      then show ?thesis using s False gt less.prems by (simp add: less_imp_le)
    qed
  next
    case lt
    then have s: "bisect_relations h l rels lo hi = (if ?i - lo > 1 then bisect_relations h l rels lo ?i else Inr lo)"
      using less.prems(5) by (subst bisect_relations.simps) (auto simp: compareIds_zero Let_def)
    show ?thesis
    proof (cases "?i - lo > 1")
      case True
      then show ?thesis
        using s lt i less.prems less.hyps [of ?i lo] by (simp add: halves_shrink)
    next
      case False
      have "?i \<noteq> lo" using lt less.prems(3) by (metis linorder_not_less)
      then have "?i = lo + 1" using False i by linarith
      then show ?thesis using s False lt i less.prems by (auto simp: less_imp_le)
    qed
  qed
qed

section \<open>The invariant of the list\<close>

definition all_relations :: "OV_IDLIST_HEADNODE \<Rightarrow> OV_ID_POINTER_RELATION list" where
  "all_relations l = concat (map relations (nodes l))"

definition node_ok :: "OV_IDLIST_NODE \<Rightarrow> bool" where
  "node_ok n \<longleftrightarrow> relations n \<noteq> [] \<and> length (relations n) \<le> OV_IDLIST_RELATIONSPERCHUNK \<and>
     minId n = relation_id (hd (relations n)) \<and> maxId n = relation_id (last (relations n))"

definition chain_ok :: "OV_IDLIST_NODE list \<Rightarrow> bool" where
  "chain_ok ns \<longleftrightarrow> ns \<noteq> [] \<and> (\<forall>n \<in> set ns. node_ok n) \<and> rels_sorted (concat (map relations ns))"

definition idlist_ok :: "OV_IDLIST_HEADNODE \<Rightarrow> bool" where
  "idlist_ok l \<longleftrightarrow> chain_ok (nodes l) \<and> head_maxId l = maxId (last (nodes l))"

lemma rels_sorted_append [simp]:
  "rels_sorted (xs @ ys) \<longleftrightarrow> rels_sorted xs \<and> rels_sorted ys \<and>
    (\<forall>x \<in> set xs. \<forall>y \<in> set ys. relation_id x < relation_id y)"
  by (auto simp: rels_sorted_def sorted_wrt_append)

lemma rels_sorted_Cons [simp]:
  "rels_sorted (x # ys) \<longleftrightarrow> (\<forall>y \<in> set ys. relation_id x < relation_id y) \<and> rels_sorted ys"
  by (auto simp: rels_sorted_def)

lemma rels_sorted_Nil [simp]: "rels_sorted []"
  by (simp add: rels_sorted_def)

lemma rels_sorted_bounds:
  "rels_sorted rels \<Longrightarrow> r \<in> set rels \<Longrightarrow> relation_id (hd rels) \<le> relation_id r \<and> relation_id r \<le> relation_id (last rels)"
proof (induction rels)
  case (Cons a rels)
  show ?case
  proof (cases "rels = []")
    case False
    then have "hd rels \<in> set rels" "last rels \<in> set rels" by simp_all
    with Cons False show ?thesis by (auto intro: less_imp_le)
  qed (use Cons in simp)
qed simp

lemma node_ok_bounds:
  assumes "node_ok n" "rels_sorted (relations n)" "r \<in> set (relations n)"
  shows "minId n \<le> relation_id r" "relation_id r \<le> maxId n"
  using rels_sorted_bounds [of "relations n" r] assms by (simp_all add: node_ok_def)

lemma node_ok_ends:
  assumes "node_ok n"
  shows "\<exists>r \<in> set (relations n). relation_id r = minId n" "\<exists>r \<in> set (relations n). relation_id r = maxId n"
  using assms hd_in_set [of "relations n"] last_in_set [of "relations n"] by (force simp: node_ok_def)+

lemma chain_nth:
  assumes "chain_ok ns" "k < length ns"
  shows "node_ok (ns ! k)" "rels_sorted (relations (ns ! k))" "minId (ns ! k) \<le> maxId (ns ! k)"
proof -
  show n: "node_ok (ns ! k)" using assms by (simp add: chain_ok_def)
  have "ns = take k ns @ ns ! k # drop (Suc k) ns"
    using assms(2) by (rule id_take_nth_drop)
  then have "rels_sorted (concat (map relations (take k ns @ ns ! k # drop (Suc k) ns)))"
    using assms(1) unfolding chain_ok_def by metis
  then show s: "rels_sorted (relations (ns ! k))" by simp
  show "minId (ns ! k) \<le> maxId (ns ! k)"
    using node_ok_ends [OF n] node_ok_bounds [OF n s] by metis
qed

lemma chain_nth_less:
  assumes "chain_ok ns" "i < j" "j < length ns"
  shows "maxId (ns ! i) < minId (ns ! j)"
proof -
  have i: "ns ! i \<in> set (take j ns)"
    using assms(2,3) by (simp add: in_set_conv_nth) (metis nth_take)
  have "ns = take j ns @ ns ! j # drop (Suc j) ns"
    using assms(3) by (rule id_take_nth_drop)
  then have s: "rels_sorted (concat (map relations (take j ns @ ns ! j # drop (Suc j) ns)))"
    using assms(1) unfolding chain_ok_def by metis
  obtain r where r: "r \<in> set (relations (ns ! i))" "relation_id r = maxId (ns ! i)"
    using node_ok_ends(2) chain_nth(1) [OF assms(1)] assms(2,3) by (meson less_trans)
  obtain q where q: "q \<in> set (relations (ns ! j))" "relation_id q = minId (ns ! j)"
    using node_ok_ends(1) chain_nth(1) [OF assms(1,3)] by blast
  have "\<forall>n \<in> set (take j ns). \<forall>x \<in> set (relations n). \<forall>y \<in> set (relations (ns ! j)). relation_id x < relation_id y"
    using s by auto
  then have "relation_id r < relation_id q" using r(1) q(1) i by blast
  then show ?thesis by (simp add: r(2) q(2))
qed

section \<open>Lookup\<close>

lemma start_in_range:
  assumes "x \<le> m" "0 < n"
  shows "unat (x div m :: 64 word) * (n - 1) < n"
proof -
  have "unat x div unat m \<le> 1"
  proof (cases "unat m = 0")
    case False
    then show ?thesis using assms(1)
      by (metis div_le_mono div_self word_le_nat_alt)
  qed simp
  then have "unat (x div m) \<le> 1" by (simp add: unat_div)
  then consider "unat (x div m) = 0" | "unat (x div m) = 1" by linarith
  then show ?thesis using assms(2) by cases auto
qed

text \<open>The walk finds the node the id belongs to, in as many steps as it is away.\<close>

lemma walk_finds:
  assumes "chain_ok ns" "j < length ns" "minId (ns ! j) \<le> x" "x \<le> maxId (ns ! j)"
  shows "k < length ns \<Longrightarrow> nat \<bar>int k - int j\<bar> < fuel \<Longrightarrow> walk_nodes fuel ns x (Some k) = Some (Some j)"
proof (induction fuel arbitrary: k)
  case (Suc fuel)
  consider "k < j" | "j < k" | "k = j" by linarith
  then show ?case
  proof cases
    case 1
    then have "maxId (ns ! k) < x"
      using chain_nth_less [OF assms(1) 1 assms(2)] assms(3) by simp
    then show ?thesis using Suc 1 assms(2) by simp
  next
    case 2
    then have "x < minId (ns ! k)"
      using chain_nth_less [OF assms(1) 2 Suc.prems(1)] assms(4) by simp
    moreover have "minId (ns ! k) \<le> maxId (ns ! k)"
      using chain_nth(3) [OF assms(1) Suc.prems(1)] .
    ultimately show ?thesis using Suc 2 by auto
  next
    case 3
    then have "\<not> maxId (ns ! k) < x" "\<not> x < minId (ns ! k)" using assms(3,4) by auto
    then show ?thesis using 3 by simp
  qed
qed simp

lemma walk_alternates:
  assumes "chain_ok ns" "Suc i < length ns" "maxId (ns ! i) < x" "x < minId (ns ! Suc i)"
  shows "k < length ns \<Longrightarrow> walk_nodes fuel ns x (Some k) = None"
proof (induction fuel arbitrary: k)
  case (Suc fuel)
  show ?case
  proof (cases "k \<le> i")
    case True
    have "maxId (ns ! k) < x"
    proof (cases "k = i")
      case False
      then have "maxId (ns ! k) < minId (ns ! i)"
        using True assms(2) by (intro chain_nth_less [OF assms(1)]) simp_all
      also have "\<dots> \<le> maxId (ns ! i)" using assms(2) by (intro chain_nth(3) [OF assms(1)]) simp
      finally show ?thesis using assms(3) by simp
    qed (use assms in simp)
    then show ?thesis using Suc True assms(2) by simp
  next
    case False
    have m: "minId (ns ! k) \<le> maxId (ns ! k)" using chain_nth(3) [OF assms(1) Suc.prems] .
    have "x < minId (ns ! k)"
    proof (cases "k = Suc i")
      case False
      have "minId (ns ! Suc i) \<le> maxId (ns ! Suc i)" by (intro chain_nth(3) [OF assms(1)] assms(2))
      also have "\<dots> < minId (ns ! k)"
        using \<open>\<not> k \<le> i\<close> False Suc.prems by (intro chain_nth_less [OF assms(1)]) simp_all
      finally show ?thesis using assms(4) by simp
    qed (use assms in simp)
    then show ?thesis using Suc m False by auto
  qed
qed simp

lemma idlist_nth_max:
  assumes "idlist_ok l" "k < length (nodes l)"
  shows "maxId (nodes l ! k) \<le> head_maxId l"
proof (cases "k = length (nodes l) - 1")
  case True
  then show ?thesis using assms by (simp add: idlist_ok_def chain_ok_def last_conv_nth)
next
  case False
  let ?z = "length (nodes l) - 1"
  have c: "chain_ok (nodes l)" and z: "k < ?z" "?z < length (nodes l)"
    using assms False by (auto simp: idlist_ok_def)
  have "maxId (nodes l ! k) < minId (nodes l ! ?z)" by (rule chain_nth_less [OF c z])
  also have "\<dots> \<le> maxId (nodes l ! ?z)" by (rule chain_nth(3) [OF c z(2)])
  finally show ?thesis using assms(1) by (simp add: idlist_ok_def chain_ok_def last_conv_nth)
qed

lemma getNode_finds:
  assumes "idlist_ok l" "head_maxId l \<noteq> 0" "k < length (nodes l)"
    "minId (nodes l ! k) \<le> ov_database_convertId h lo" "ov_database_convertId h lo \<le> maxId (nodes l ! k)"
    "length (nodes l) \<le> fuel"
  shows "ov_database_idListGetNode fuel l h lo = Some (Some k)"
proof -
  let ?x = "ov_database_convertId h lo"
  let ?s = "unat (?x div head_maxId l) * (length (nodes l) - 1)"
  have x: "?x \<le> head_maxId l" using assms(5) idlist_nth_max [OF assms(1,3)] by simp
  have s: "?s < length (nodes l)" by (rule start_in_range [OF x]) (use assms(3) in auto)
  have "walk_nodes fuel (nodes l) ?x (Some ?s) = Some (Some k)"
  proof (rule walk_finds)
    show "chain_ok (nodes l)" using assms(1) by (simp add: idlist_ok_def)
    show "nat \<bar>int ?s - int k\<bar> < fuel" using s assms(3,6) by linarith
  qed (use assms s in simp_all)
  then show ?thesis using x assms(2) by (simp add: ov_database_idListGetNode_def Let_def not_less [symmetric])
qed

text \<open>An answer of the walk is a node the id lies in.\<close>

lemma walk_sound:
  "walk_nodes fuel ns x s = Some (Some k) \<Longrightarrow> (\<forall>i. s = Some i \<longrightarrow> i < length ns) \<Longrightarrow>
    k < length ns \<and> minId (ns ! k) \<le> x \<and> x \<le> maxId (ns ! k)"
proof (induction fuel ns x s rule: walk_nodes.induct)
  case (3 fuel ns x k')
  have k': "k' < length ns" using 3(4) by simp
  consider "maxId (ns ! k') < x" | "\<not> maxId (ns ! k') < x" "x < minId (ns ! k')"
    | "\<not> maxId (ns ! k') < x" "\<not> x < minId (ns ! k')"
    by blast
  then show ?case
  proof cases
    case 1
    with 3(3) have "walk_nodes fuel ns x (if k' + 1 < length ns then Some (k' + 1) else None) = Some (Some k)"
      by simp
    then show ?thesis by (rule 3(1) [OF 1]) simp
  next
    case 2
    with 3(3) have "walk_nodes fuel ns x (if k' = 0 then None else Some (k' - 1)) = Some (Some k)"
      by simp
    then show ?thesis by (rule 3(2) [OF 2]) (use k' in auto)
  next
    case c: 3
    with 3(3) have "k' = k" by simp
    then show ?thesis using c k' by (simp add: not_less)
  qed
qed simp_all

lemma getNode_sound:
  assumes "ov_database_idListGetNode fuel l h lo = Some (Some k)" "nodes l \<noteq> []"
  shows "k < length (nodes l)" "minId (nodes l ! k) \<le> ov_database_convertId h lo"
    "ov_database_convertId h lo \<le> maxId (nodes l ! k)"
proof -
  let ?x = "ov_database_convertId h lo"
  let ?s = "unat (?x div head_maxId l) * (length (nodes l) - 1)"
  have w: "walk_nodes fuel (nodes l) ?x (Some ?s) = Some (Some k)" and x: "?x \<le> head_maxId l"
    using assms(1) by (auto simp: ov_database_idListGetNode_def Let_def split: if_splits)
  have "?s < length (nodes l)" using x assms(2) by (intro start_in_range) simp_all
  with walk_sound [OF w]
  show "k < length (nodes l)" "minId (nodes l ! k) \<le> ?x" "?x \<le> maxId (nodes l ! k)" by simp_all
qed

lemma index_result:
  assumes "node_ok n" "rels_sorted (relations n)"
    "minId n \<le> ov_database_convertId h lo" "ov_database_convertId h lo \<le> maxId n"
  shows "(\<exists>i < length (relations n). relation_id (relations n ! i) = ov_database_convertId h lo \<and>
      ov_database_idListGetRelationIndex h lo n = Some (Inr i)) \<or>
    (ov_database_convertId h lo \<notin> relation_id ` set (relations n) \<and>
      ov_database_idListGetRelationIndex h lo n = Some (Inl OV_ERR_GENERIC))"
proof -
  let ?x = "ov_database_convertId h lo" and ?rs = "relations n"
  have ne: "?rs \<noteq> []" using assms(1) by (simp add: node_ok_def)
  then have e: "rid ?rs 0 \<le> ?x" "?x \<le> rid ?rs (length ?rs - 1)"
    using assms(1,3,4) by (simp_all add: node_ok_def hd_conv_nth last_conv_nth)
  have nb: "\<not> maxId n < ?x" "\<not> ?x < minId n" using assms(3,4) by auto
  note b = bisect_correct [OF assms(2), of 0 "length ?rs - 1" ?x h lo]
  show ?thesis
  proof (cases "bisect_relations h lo ?rs 0 (length ?rs - 1)")
    case (Inl i)
    then have "i < length ?rs" "rid ?rs i = ?x" using b e ne by simp_all
    moreover have "ov_database_idListGetRelationIndex h lo n = Some (Inr i)"
      using ne nb Inl by (simp add: ov_database_idListGetRelationIndex_def)
    ultimately show ?thesis by blast
  next
    case (Inr m)
    then have m: "m < length ?rs" "rid ?rs m \<le> ?x" "m + 1 < length ?rs \<longrightarrow> ?x \<le> rid ?rs (m + 1)"
      "m + 1 \<ge> length ?rs \<longrightarrow> rid ?rs m = ?x"
      using b e ne by simp_all
    have g: "ov_database_idListGetRelationIndex h lo n =
      (if ?x = rid ?rs m then Some (Inr m) else if m + 1 \<ge> length ?rs then None
       else if ?x = rid ?rs (m + 1) then Some (Inr (m + 1)) else Some (Inl OV_ERR_GENERIC))"
      using ne nb Inr by (simp add: ov_database_idListGetRelationIndex_def compareIds_zero)
    show ?thesis
    proof (cases "?x = rid ?rs m \<or> ?x = rid ?rs (m + 1)")
      case True
      then show ?thesis using m g by (cases "?x = rid ?rs m") (auto simp: not_le)
    next
      case False
      then have l: "rid ?rs m < ?x" "m + 1 < length ?rs" "?x < rid ?rs (m + 1)"
        using m by (auto simp: less_le)
      have "rid ?rs i \<noteq> ?x" if "i < length ?rs" for i
      proof (cases "i \<le> m")
        case True
        then have "rid ?rs i \<le> rid ?rs m"
          using rels_sortedD [OF assms(2), of i m] m(1) by (cases "i = m") auto
        then show ?thesis using l(1) by auto
      next
        case False
        then have "rid ?rs (m + 1) \<le> rid ?rs i"
          using rels_sortedD [OF assms(2), of "m + 1" i] that by (cases "i = m + 1") auto
        then show ?thesis using l(3) by auto
      qed
      then have "?x \<notin> relation_id ` set ?rs" by (fastforce simp: in_set_conv_nth)
      then show ?thesis using g False l by auto
    qed
  qed
qed

lemma lookup_in_node:
  assumes "idlist_ok l" "r \<in> set (all_relations l)"
  shows "\<exists>k < length (nodes l). r \<in> set (relations (nodes l ! k)) \<and>
    minId (nodes l ! k) \<le> relation_id r \<and> relation_id r \<le> maxId (nodes l ! k)"
proof -
  obtain k where k: "k < length (nodes l)" "r \<in> set (relations (nodes l ! k))"
    using assms(2) by (auto simp: all_relations_def in_set_conv_nth [of _ "nodes l"])
  have c: "chain_ok (nodes l)" using assms(1) by (simp add: idlist_ok_def)
  show ?thesis
    using k node_ok_bounds [OF chain_nth(1) [OF c k(1)] chain_nth(2) [OF c k(1)] k(2)] by auto
qed

lemma index_present:
  assumes "idlist_ok l" "k < length (nodes l)" "r \<in> set (relations (nodes l ! k))"
  shows "\<exists>i < length (relations (nodes l ! k)). relations (nodes l ! k) ! i = r \<and>
    ov_database_idListGetRelationIndex (idHigh r) (idLow r) (nodes l ! k) = Some (Inr i)"
proof -
  let ?n = "nodes l ! k"
  have c: "chain_ok (nodes l)" using assms(1) by (simp add: idlist_ok_def)
  note n = chain_nth(1,2) [OF c assms(2)]
  have x: "ov_database_convertId (idHigh r) (idLow r) = relation_id r" by (simp add: relation_id_def)
  obtain j where j: "j < length (relations ?n)" "relations ?n ! j = r"
    using assms(3) by (auto simp: in_set_conv_nth)
  obtain i where i: "i < length (relations ?n)" "relation_id (relations ?n ! i) = relation_id r"
    "ov_database_idListGetRelationIndex (idHigh r) (idLow r) ?n = Some (Inr i)"
    using index_result [OF n, of "idHigh r" "idLow r"] node_ok_bounds [OF n assms(3)] assms(3) x by auto
  have "i = j" using rels_sorted_inj [OF n(2) i(1) j(1)] i(2) j(2) by simp
  with i j show ?thesis by blast
qed

section \<open>Insertion keeps the invariant\<close>

text \<open>The array of nodes has an entry left, or gets a new chunk with the next node.\<close>

definition array_room :: "OV_IDLIST_HEADNODE \<Rightarrow> bool" where
  "array_room l \<longleftrightarrow> length (nodes l) < capacity l \<or> Suc (length (nodes l)) mod OV_IDLIST_NODELISTCHUNKSIZE = 0"

lemma chain_ok_append:
  "chain_ok (A @ n # B) \<longleftrightarrow> (\<forall>m \<in> set A \<union> set B. node_ok m) \<and> node_ok n \<and>
    rels_sorted (concat (map relations A) @ relations n @ concat (map relations B))"
  by (auto simp: chain_ok_def)

lemma all_relations_less:
  assumes "idlist_ok l" "r \<in> set (all_relations l)"
  shows "relation_id r \<le> head_maxId l"
  using lookup_in_node [OF assms] idlist_nth_max [OF assms(1)] by (meson order_trans)

lemma insert_new_node:
  assumes "idlist_ok l" "head_maxId l < relation_id r" "m = \<lparr>minId = relation_id r, maxId = relation_id r, relations = [r]\<rparr>"
  shows "chain_ok (nodes l @ [m])"
  using assms all_relations_less [OF assms(1)]
  by (auto simp: idlist_ok_def chain_ok_def node_ok_def chunk_sizes all_relations_def)
    (meson le_less_trans)

lemma insert_last_node:
  assumes "idlist_ok l" "head_maxId l < relation_id r" "length (relations (last (nodes l))) < OV_IDLIST_RELATIONSPERCHUNK"
  shows "chain_ok (butlast (nodes l) @ [(last (nodes l))\<lparr>relations := relations (last (nodes l)) @ [r], maxId := relation_id r\<rparr>])"
proof -
  have "nodes l \<noteq> []" using assms(1) by (simp add: idlist_ok_def chain_ok_def)
  then obtain A n where n: "nodes l = A @ [n]" by (metis append_butlast_last_id)
  have "\<forall>q \<in> set (concat (map relations A) @ relations n). relation_id q < relation_id r"
    using all_relations_less [OF assms(1)] assms(2) n by (auto simp: all_relations_def intro: le_less_trans)
  then show ?thesis
    using assms(1,3) n by (auto simp: idlist_ok_def chain_ok_append node_ok_def)
qed

lemma insert_correct:
  assumes "idlist_ok l" "array_room l" "head_maxId l < ov_database_convertId h lo"
  shows "\<exists>l'. ov_database_idListInsert True True h lo (Some p) l = Some (OV_ERR_OK, l') \<and> idlist_ok l' \<and>
    all_relations l' = all_relations l @ [\<lparr>idHigh = h, idLow = lo, rel_pobj = Some p\<rparr>] \<and>
    head_maxId l' = ov_database_convertId h lo \<and> relationCount l' = relationCount l + 1"
proof -
  let ?r = "\<lparr>idHigh = h, idLow = lo, rel_pobj = Some p\<rparr>" and ?x = "ov_database_convertId h lo"
  have x: "relation_id ?r = ?x" by (simp add: relation_id_def)
  have ne: "nodes l \<noteq> []" using assms(1) by (simp add: idlist_ok_def chain_ok_def)
  show ?thesis
  proof (cases "length (relations (last (nodes l))) \<ge> OV_IDLIST_RELATIONSPERCHUNK")
    case True
    let ?e = "\<lparr>minId = ?x, maxId = 0, relations = []\<rparr>"
    obtain c where c: "append_node True True ?x l = Some (OV_ERR_OK, l\<lparr>nodes := nodes l @ [?e], capacity := c\<rparr>)"
    proof (cases "Suc (length (nodes l)) mod OV_IDLIST_NODELISTCHUNKSIZE = 0")
      case True
      then show ?thesis
        using that [of "Suc (length (nodes l)) + OV_IDLIST_NODELISTCHUNKSIZE"] by (simp add: append_node_def)
    next
      case False
      then show ?thesis
        using that [of "capacity l"] assms(2) by (simp add: append_node_def array_room_def Suc_le_eq)
    qed
    then show ?thesis
      using True assms(3) insert_new_node [OF assms(1), of ?r] x
      by (simp add: ov_database_idListInsert_def Ov_Fail_def append_relation_def Let_def idlist_ok_def all_relations_def)
  next
    case False
    have "concat (map relations (butlast (nodes l))) @ relations (last (nodes l)) = all_relations l"
      using ne by (cases "nodes l" rule: rev_cases) (simp_all add: all_relations_def)
    then show ?thesis
      using False assms(3) insert_last_node [OF assms(1), of ?r] x
      by (simp add: ov_database_idListInsert_def Ov_Fail_def append_relation_def Let_def idlist_ok_def all_relations_def
          flip: append_assoc)
  qed
qed

section \<open>Release keeps the invariant\<close>

lemma set_bounds_ok:
  "relations n \<noteq> [] \<Longrightarrow> length (relations n) \<le> OV_IDLIST_RELATIONSPERCHUNK \<Longrightarrow> node_ok (set_bounds n)"
  by (simp add: node_ok_def set_bounds_def)

lemma set_bounds_relations [simp]: "relations (set_bounds n) = relations n"
  by (simp add: set_bounds_def)

lemma not_half_full: "\<not> half_full n \<longleftrightarrow> length (relations n) < 256"
  by (simp add: half_full_def chunk_sizes) linarith

lemma put_together_ok:
  assumes "\<not> half_full n" "\<not> half_full m" "relations n @ relations m \<noteq> []"
  shows "relations (put_together n m) = relations n @ relations m" "node_ok (put_together n m)"
proof -
  show r: "relations (put_together n m) = relations n @ relations m"
    using assms(1,2) by (simp add: put_together_def not_half_full chunk_sizes)
  have "length (relations n) < 256" "length (relations m) < 256"
    using assms(1,2) by (simp_all add: not_half_full)
  then show "node_ok (put_together n m)"
    using assms(3) r unfolding put_together_def
    by (intro set_bounds_ok) (auto simp: chunk_sizes)
qed

lemma merge_next:
  "\<not> half_full n \<Longrightarrow> \<not> half_full m \<Longrightarrow>
    merge_nodes (length A) (A @ n # m # B) = (A @ put_together n m # m # B, Some (Suc (length A)))"
  by (simp add: merge_nodes_def nth_append)

lemma merge_previous:
  "\<not> half_full n \<Longrightarrow> \<not> half_full m \<Longrightarrow> B = [] \<or> half_full (hd B) \<Longrightarrow>
    merge_nodes (Suc (length A)) (A @ m # n # B) = (A @ put_together m n # n # B, Some (Suc (length A)))"
  by (cases B) (simp_all add: merge_nodes_def nth_append list_update_append)

lemma merge_none:
  "half_full n \<or> (B = [] \<or> half_full (hd B)) \<and> (A = [] \<or> half_full (last A)) \<Longrightarrow>
    merge_nodes (length A) (A @ n # B) = (A @ n # B, if relations n = [] then Some (length A) else None)"
  by (cases B; cases A rule: rev_cases) (auto simp: merge_nodes_def nth_append)

lemma delete_at:
  "0 < j \<Longrightarrow> nodes l = A @ m # B \<Longrightarrow> length A = j \<Longrightarrow>
    \<exists>c. delete_node True j l = Some (OV_ERR_OK, l\<lparr>nodes := A @ B, capacity := c\<rparr>)"
  by (auto simp: delete_node_def Let_def) (metis OV_IDLIST_HEADNODE.surjective OV_IDLIST_HEADNODE.update_convs(2,3))

text \<open>What merging and deleting leave of the nodes: the relations in their order, in nodes that are
  well-formed.\<close>

lemma release_nodes:
  assumes "\<forall>m \<in> set A \<union> set B. node_ok m" "relations n \<noteq> [] \<Longrightarrow> node_ok n" "A \<noteq> [] \<or> relations n \<noteq> []"
    "nodes l = A @ n # B"
  shows "\<exists>ns c. (let (ns', del) = merge_nodes (length A) (A @ n # B); l' = l\<lparr>nodes := ns'\<rparr>
      in case del of None \<Rightarrow> Some (OV_ERR_OK, l') | Some j \<Rightarrow> delete_node True j l') =
        Some (OV_ERR_OK, l\<lparr>nodes := ns, capacity := c\<rparr>) \<and>
    ns \<noteq> [] \<and> (\<forall>m \<in> set ns. node_ok m) \<and>
    concat (map relations ns) = concat (map relations A) @ relations n @ concat (map relations B)"
proof -
  have mne: "relations m \<noteq> []" if "m \<in> set A \<union> set B" for m
    using assms(1) that by (auto simp: node_ok_def)
  consider (nxt) m B' where "B = m # B'" "\<not> half_full n" "\<not> half_full m"
    | (prv) m A' where "A = A' @ [m]" "\<not> half_full n" "\<not> half_full m" "B = [] \<or> half_full (hd B)"
    | (keep) "half_full n \<or> (B = [] \<or> half_full (hd B)) \<and> (A = [] \<or> half_full (last A))"
    by (cases B; cases A rule: rev_cases) auto
  then show ?thesis
  proof cases
    case nxt
    let ?l = "l\<lparr>nodes := A @ put_together n m # m # B'\<rparr>"
    obtain c where "delete_node True (Suc (length A)) ?l = Some (OV_ERR_OK, ?l\<lparr>nodes := (A @ [put_together n m]) @ B', capacity := c\<rparr>)"
      using delete_at [of "Suc (length A)" ?l "A @ [put_together n m]" m B'] by auto
    then show ?thesis
      using nxt assms(1) mne [of m] put_together_ok [of n m]
      by (intro exI [of _ "A @ put_together n m # B'"] exI [of _ c]) (auto simp: merge_next)
  next
    case prv
    let ?l = "l\<lparr>nodes := A' @ put_together m n # n # B\<rparr>"
    obtain c where "delete_node True (Suc (length A')) ?l = Some (OV_ERR_OK, ?l\<lparr>nodes := (A' @ [put_together m n]) @ B, capacity := c\<rparr>)"
      using delete_at [of "Suc (length A')" ?l "A' @ [put_together m n]" n B] by auto
    then show ?thesis
      using prv assms(1) mne [of m] put_together_ok [of m n]
      by (intro exI [of _ "A' @ put_together m n # B"] exI [of _ c]) (auto simp: merge_previous)
  next
    case keep
    show ?thesis
    proof (cases "relations n = []")
      case True
      then obtain c where "delete_node True (length A) (l\<lparr>nodes := A @ n # B\<rparr>) = Some (OV_ERR_OK, l\<lparr>nodes := A @ B, capacity := c\<rparr>)"
        using delete_at [of "length A" "l\<lparr>nodes := A @ n # B\<rparr>" A n B] assms(3) by auto
      then show ?thesis
        using True assms(1,3) merge_none [OF keep] by (intro exI [of _ "A @ B"] exI [of _ c]) auto
    next
      case False
      have "l\<lparr>nodes := A @ n # B\<rparr> = l\<lparr>nodes := A @ n # B, capacity := capacity l\<rparr>" by simp
      with False show ?thesis
        using assms(1,2) merge_none [OF keep]
        by (intro exI [of _ "A @ n # B"] exI [of _ "capacity l"]) auto
    qed
  qed
qed

lemma sorted_remove:
  assumes "rels_sorted (X @ r # Y)"
  shows "filter (\<lambda>q. relation_id q \<noteq> relation_id r) (X @ r # Y) = X @ Y"
proof -
  have "filter (\<lambda>q. relation_id q \<noteq> relation_id r) X = X" "filter (\<lambda>q. relation_id q \<noteq> relation_id r) Y = Y"
    using assms by (auto intro!: filter_True)
  then show ?thesis by simp
qed

lemma release_correct:
  assumes "idlist_ok l" "head_maxId l \<noteq> 0" "r \<in> set (all_relations l)" "length (nodes l) \<le> fuel"
    "2 \<le> length (relations (hd (nodes l)))"
  shows "\<exists>l'. ov_database_idListRelease fuel True (idHigh r) (idLow r) l = Some (OV_ERR_OK, l') \<and> idlist_ok l' \<and>
    all_relations l' = filter (\<lambda>q. relation_id q \<noteq> relation_id r) (all_relations l) \<and>
    relationCount l' = relationCount l - 1"
proof -
  obtain k where k: "k < length (nodes l)" "r \<in> set (relations (nodes l ! k))"
    "minId (nodes l ! k) \<le> relation_id r" "relation_id r \<le> maxId (nodes l ! k)"
    using lookup_in_node [OF assms(1,3)] by blast
  obtain i where i: "i < length (relations (nodes l ! k))" "relations (nodes l ! k) ! i = r"
    "ov_database_idListGetRelationIndex (idHigh r) (idLow r) (nodes l ! k) = Some (Inr i)"
    using index_present [OF assms(1) k(1,2)] by blast
  have g: "ov_database_idListGetNode fuel l (idHigh r) (idLow r) = Some (Some k)"
    using getNode_finds [OF assms(1,2) k(1)] k(3,4) assms(4) by (simp add: relation_id_def)
  define A where "A = take k (nodes l)"
  define B where "B = drop (Suc k) (nodes l)"
  define n where "n = nodes l ! k"
  define R1 where "R1 = take i (relations n)"
  define R2 where "R2 = drop (Suc i) (relations n)"
  define n' where "n' = drop_relation i n"
  have l: "nodes l = A @ n # B" "length A = k"
    using k(1) by (simp_all add: A_def B_def n_def id_take_nth_drop)
  have rn: "relations n = R1 @ r # R2"
    using i(1,2) unfolding R1_def R2_def n_def by (metis id_take_nth_drop)
  have rn': "relations n' = R1 @ R2"
    by (simp add: n'_def drop_relation_def R1_def R2_def Let_def)
  have c: "chain_ok (A @ n # B)" using assms(1) l by (simp add: idlist_ok_def)
  have nok: "node_ok n'" if "relations n' \<noteq> []"
  proof -
    have "n' = set_bounds (n\<lparr>relations := R1 @ R2\<rparr>)"
      using that rn' by (simp add: n'_def drop_relation_def Let_def R1_def R2_def)
    moreover have "length (R1 @ R2) \<le> OV_IDLIST_RELATIONSPERCHUNK"
      using c rn by (simp add: chain_ok_append node_ok_def)
    ultimately show ?thesis using that rn' by (auto intro!: set_bounds_ok)
  qed
  have ne: "A \<noteq> [] \<or> relations n' \<noteq> []"
    using assms(5) l rn rn' by (cases A) auto
  have upd: "(nodes l)[k := n'] = A @ n' # B"
    using l by (simp add: list_update_append)
  obtain ns c' where ns: "(let (ns', del) = merge_nodes k (A @ n' # B); l' = l\<lparr>nodes := A @ n' # B\<rparr>\<lparr>nodes := ns'\<rparr>
      in case del of None \<Rightarrow> Some (OV_ERR_OK, l') | Some j \<Rightarrow> delete_node True j l') =
        Some (OV_ERR_OK, l\<lparr>nodes := A @ n' # B\<rparr>\<lparr>nodes := ns, capacity := c'\<rparr>)"
    "ns \<noteq> []" "\<forall>m \<in> set ns. node_ok m"
    "concat (map relations ns) = concat (map relations A) @ relations n' @ concat (map relations B)"
    using release_nodes [of A B n' "l\<lparr>nodes := A @ n' # B\<rparr>"] c nok ne l(2) by (auto simp: chain_ok_append)
  have "ov_database_idListRelease fuel True (idHigh r) (idLow r) l =
      Some (OV_ERR_OK, finish_release (l\<lparr>nodes := ns, capacity := c'\<rparr>))"
    using g i(3) ns(1) upd n_def n'_def
    by (auto simp: ov_database_idListRelease_def release_relation_def Ov_Fail_def Let_def split: prod.splits)
  moreover have "rels_sorted (concat (map relations A) @ R1 @ r # R2 @ concat (map relations B))"
    using c rn by (simp add: chain_ok_append)
  ultimately show ?thesis
    using ns(2-4) l rn rn' sorted_remove [of "concat (map relations A) @ R1" r "R2 @ concat (map relations B)"]
    by (auto simp: idlist_ok_def chain_ok_def finish_release_def all_relations_def)
qed

section \<open>The list as a map\<close>

definition id_map :: "OV_IDLIST_HEADNODE \<Rightarrow> 64 word \<rightharpoonup> objptr option" where
  "id_map l = map_of (map (\<lambda>r. (relation_id r, rel_pobj r)) (all_relations l))"

lemma map_of_snoc: "x \<notin> fst ` set xs \<Longrightarrow> map_of (xs @ [(x, y)]) = (map_of xs)(x \<mapsto> y)"
  by (induction xs) auto

lemma map_of_without:
  "map_of (map (\<lambda>r. (f r, g r)) (filter (\<lambda>r. f r \<noteq> x) xs)) = (map_of (map (\<lambda>r. (f r, g r)) xs))(x := None)"
  by (induction xs) auto

lemma id_map_iff:
  assumes "idlist_ok l"
  shows "id_map l x = Some p \<longleftrightarrow> (\<exists>r \<in> set (all_relations l). relation_id r = x \<and> rel_pobj r = p)"
proof -
  have "rels_sorted (all_relations l)" using assms by (simp add: idlist_ok_def chain_ok_def all_relations_def)
  then have "distinct (map relation_id (all_relations l))"
    by (auto simp: rels_sorted_def strict_sorted_iff)
  then show ?thesis by (auto simp: id_map_def map_of_eq_Some_iff comp_def)
qed

lemma id_map_insert:
  assumes "idlist_ok l" "head_maxId l < relation_id r" "all_relations l' = all_relations l @ [r]"
  shows "id_map l' = (id_map l)(relation_id r \<mapsto> rel_pobj r)"
  using all_relations_less [OF assms(1)] assms(2,3) unfolding id_map_def
  by (subst map_of_snoc [symmetric]) (auto simp: leD)

lemma lookup_complete:
  assumes "idlist_ok l" "head_maxId l \<noteq> 0" "length (nodes l) \<le> fuel" "r \<in> set (all_relations l)"
  shows "id_lookup fuel l (idHigh r) (idLow r) = Some (Inr (rel_pobj r))"
proof -
  obtain k where k: "k < length (nodes l)" "r \<in> set (relations (nodes l ! k))"
    "minId (nodes l ! k) \<le> relation_id r" "relation_id r \<le> maxId (nodes l ! k)"
    using lookup_in_node [OF assms(1,4)] by blast
  obtain i where "relations (nodes l ! k) ! i = r"
    "ov_database_idListGetRelationIndex (idHigh r) (idLow r) (nodes l ! k) = Some (Inr i)"
    using index_present [OF assms(1) k(1,2)] by blast
  then show ?thesis
    using getNode_finds [OF assms(1,2) k(1)] k(3,4) assms(3) by (simp add: id_lookup_def relation_id_def)
qed

lemma lookup_sound:
  assumes "idlist_ok l" "id_lookup fuel l h lo = Some (Inr p)"
  shows "\<exists>r \<in> set (all_relations l). relation_id r = ov_database_convertId h lo \<and> rel_pobj r = p"
proof -
  have c: "chain_ok (nodes l)" and ne: "nodes l \<noteq> []" using assms(1) by (simp_all add: idlist_ok_def chain_ok_def)
  obtain k i where k: "ov_database_idListGetNode fuel l h lo = Some (Some k)"
    and i: "ov_database_idListGetRelationIndex h lo (nodes l ! k) = Some (Inr i)"
    and p: "p = rel_pobj (relations (nodes l ! k) ! i)"
    using assms(2) by (auto simp: id_lookup_def split: option.splits sum.splits)
  note b = getNode_sound [OF k ne]
  have "i < length (relations (nodes l ! k))" "relation_id (relations (nodes l ! k) ! i) = ov_database_convertId h lo"
    using index_result [OF chain_nth(1,2) [OF c b(1)] b(2,3)] i by auto
  then show ?thesis using p b(1) by (auto simp: all_relations_def intro!: bexI [of _ "nodes l ! k"])
qed

lemma lookup_iff_map:
  assumes "idlist_ok l" "head_maxId l \<noteq> 0" "length (nodes l) \<le> fuel"
  shows "id_lookup fuel l h lo = Some (Inr p) \<longleftrightarrow> id_map l (ov_database_convertId h lo) = Some p"
proof
  assume "id_map l (ov_database_convertId h lo) = Some p"
  then obtain r where r: "r \<in> set (all_relations l)" "relation_id r = ov_database_convertId h lo" "rel_pobj r = p"
    using id_map_iff [OF assms(1)] by blast
  then show "id_lookup fuel l h lo = Some (Inr p)"
    using lookup_complete [OF assms r(1)] by (simp add: relation_id_def)
qed (use lookup_sound [OF assms(1)] id_map_iff [OF assms(1)] in blast)

section \<open>Properties\<close>

definition demo_rel :: "OV_UINT \<Rightarrow> OV_ID_POINTER_RELATION" where
  "demo_rel k = \<lparr>idHigh = 0, idLow = k, rel_pobj = Some (unat k)\<rparr>"

definition demo_ids :: OV_IDLIST_HEADNODE where
  "demo_ids = \<lparr>head_maxId = 6,
    nodes = [\<lparr>minId = 1, maxId = 2, relations = [demo_rel 1, demo_rel 2]\<rparr>,
             \<lparr>minId = 5, maxId = 6, relations = [demo_rel 5, demo_rel 6]\<rparr>],
    capacity = 32, relationCount = 4\<rparr>"

lemma demo_rel_id: "relation_id (demo_rel k) = ucast k"
  by (simp add: relation_id_def ov_database_convertId_def demo_rel_def)

lemma demo_ids_ok: "idlist_ok demo_ids" "array_room demo_ids" "head_maxId demo_ids = 6" "length (nodes demo_ids) = 2"
  "2 \<le> length (relations (hd (nodes demo_ids)))" "set (all_relations demo_ids) = {demo_rel 1, demo_rel 2, demo_rel 5, demo_rel 6}"
  by (auto simp: demo_ids_def idlist_ok_def chain_ok_def node_ok_def array_room_def chunk_sizes demo_rel_id all_relations_def)



text \<open>Releasing an id that is in the list succeeds, keeps the list well-formed through the
  merging of half-empty nodes and the deletion of empty ones, and removes just this id from the
  map (the first node must keep a relation: the code follows the null pointer before it).\<close>

lemma idlist_release_refines_removal:
  assumes "idlist_ok l" "head_maxId l \<noteq> 0" "id_map l (ov_database_convertId h lo) \<noteq> None" "length (nodes l) \<le> fuel"
    "2 \<le> length (relations (hd (nodes l)))"
  shows "\<exists>l'. ov_database_idListRelease fuel True h lo l = Some (OV_ERR_OK, l') \<and> idlist_ok l' \<and>
    id_map l' = (id_map l)(ov_database_convertId h lo := None) \<and> relationCount l' = relationCount l - 1"
proof -
  obtain r where r: "r \<in> set (all_relations l)" "relation_id r = ov_database_convertId h lo"
    using assms(3) id_map_iff [OF assms(1)] by blast
  then have "idHigh r = h" "idLow r = lo" by (simp_all add: relation_id_def)
  then show ?thesis
    using release_correct [OF assms(1,2) r(1) assms(4,5)] r(2) by (auto simp: id_map_def map_of_without)
qed



text \<open>A lookup of an id between the largest id of a node and the smallest of the next one never
  ends: the walk goes back and forth between the two nodes. Such ids are those of deleted objects
  at the border of a node.\<close>

lemma idlist_gap_never_ends:
  assumes "idlist_ok l" "Suc k < length (nodes l)" "maxId (nodes l ! k) < ov_database_convertId h lo"
    "ov_database_convertId h lo < minId (nodes l ! Suc k)"
  shows "ov_database_idListGetNode fuel l h lo = None"
proof -
  let ?x = "ov_database_convertId h lo"
  have c: "chain_ok (nodes l)" using assms(1) by (simp add: idlist_ok_def)
  have "?x < maxId (nodes l ! Suc k)"
    using assms(4) chain_nth(3) [OF c assms(2)] by (rule less_le_trans)
  then have x: "?x < head_maxId l"
    using idlist_nth_max [OF assms(1,2)] by (rule less_le_trans)
  have "unat (?x div head_maxId l) * (length (nodes l) - 1) < length (nodes l)"
    using x assms(2) by (intro start_in_range) auto
  then show ?thesis
    using walk_alternates [OF c assms(2-4)] x by (auto simp: ov_database_idListGetNode_def Let_def)
qed

text \<open>When a release leaves a number of nodes that is a multiple of the size of a chunk, the array is
  cut to that number, and the next insertion that needs a node writes behind it.\<close>

lemma idlist_cut_array_overflows:
  assumes "ov_database_idListRelease fuel True h lo l = Some (OV_ERR_OK, l')" "length (nodes l') < length (nodes l)"
    "length (nodes l') mod OV_IDLIST_NODELISTCHUNKSIZE = 0"
    "OV_IDLIST_RELATIONSPERCHUNK \<le> length (relations (last (nodes l')))" "head_maxId l' < ov_database_convertId h' lo'"
  shows "ov_database_idListInsert True True h' lo' (Some p) l' = None"
proof -
  obtain k index where r: "release_relation True k index l = Some (OV_ERR_OK, l')"
    using assms(1,2) by (auto simp: ov_database_idListRelease_def split: option.splits sum.splits)
  let ?m = "merge_nodes k ((nodes l)[k := drop_relation index (nodes l ! k)])"
  have len: "length (fst ?m) = length (nodes l)" by (simp add: merge_nodes_def)
  have "capacity l' = length (nodes l')"
  proof (cases "snd ?m")
    case None
    then have "nodes l' = fst ?m"
      using r by (auto simp: release_relation_def Let_def finish_release_def Ov_Fail_def split: prod.splits)
    then show ?thesis using len assms(2) by simp
  next
    case (Some j)
    then obtain l1 where d: "delete_node True j (l\<lparr>nodes := fst ?m\<rparr>) = Some (OV_ERR_OK, l1)" "l' = finish_release l1"
      using r by (auto simp: release_relation_def Let_def Ov_Fail_def split: prod.splits option.splits if_splits)
    then show ?thesis
      using assms(3) by (auto simp: delete_node_def finish_release_def Let_def split: if_splits)
  qed
  moreover have "Suc (length (nodes l')) mod OV_IDLIST_NODELISTCHUNKSIZE \<noteq> 0"
    using assms(3) by (simp add: chunk_sizes mod_Suc)
  ultimately show ?thesis
    using assms(4,5) by (simp add: ov_database_idListInsert_def append_node_def Let_def)
qed

definition full_node :: OV_IDLIST_NODE where
  "full_node = \<lparr>minId = 0, maxId = 5, relations = replicate 512 (demo_rel 5)\<rparr>"

definition demo_33 :: OV_IDLIST_HEADNODE where
  "demo_33 = \<lparr>head_maxId = 6, nodes = replicate 32 full_node @ [\<lparr>minId = 6, maxId = 6, relations = [demo_rel 6]\<rparr>],
    capacity = 64, relationCount = 6\<rparr>"

lemma demo_33_release:
  "ov_database_idListRelease 1 True 0 6 demo_33 = Some (OV_ERR_OK,
    \<lparr>head_maxId = 5, nodes = replicate 32 full_node, capacity = 32, relationCount = 5\<rparr>)"
proof -
  have g: "ov_database_idListGetNode 1 demo_33 0 6 = Some (Some 32)"
    by (simp add: ov_database_idListGetNode_def demo_33_def ov_database_convertId_def nth_append)
  have b: "bisect_relations 0 6 [demo_rel 6] 0 0 = Inl 0"
    by (subst bisect_relations.simps) (simp add: ov_database_compareIds_def demo_rel_def)
  have i: "ov_database_idListGetRelationIndex 0 6 (nodes demo_33 ! 32) = Some (Inr 0)"
    using b by (simp add: ov_database_idListGetRelationIndex_def demo_33_def ov_database_convertId_def nth_append)
  have "merge_nodes 32 (replicate 32 full_node @ [\<lparr>minId = 6, maxId = 6, relations = []\<rparr>]) =
      (replicate 32 full_node @ [\<lparr>minId = 6, maxId = 6, relations = []\<rparr>], Some 32)"
    by (simp add: merge_nodes_def nth_append half_full_def chunk_sizes full_node_def)
  then have "release_relation True 32 0 demo_33 =
      Some (OV_ERR_OK, \<lparr>head_maxId = 5, nodes = replicate 32 full_node, capacity = 32, relationCount = 5\<rparr>)"
    by (simp add: release_relation_def demo_33_def drop_relation_def Let_def nth_append list_update_append
        delete_node_def chunk_sizes Ov_Fail_def finish_release_def full_node_def)
  then show ?thesis using g i by (simp add: ov_database_idListRelease_def)
qed

end
