(* ===== verification/FbTask.thy ===== *)
theory FbTask
  imports OvScheduler OvElement
begin

text \<open>
  syslibs/functionblock/fb/source/fb_task.c: cyclic tasks. A task runs when its \<open>proctime\<close> is
  reached, executes its children in the order of the association \<open>fb_tasklist\<close>, and gets its next
  \<open>proctime\<close>; the root of the task tree, the urtask, is driven by the scheduler. The task lists are
  lists of children, as the contract of 1:n associations allows. Double arithmetic
  (\<open>fb_set_proctime\<close>), connections, and methods of derived classes are parameters.
\<close>

section \<open>State\<close>

abbreviation FB_AM_OFF :: OV_INT where "FB_AM_OFF \<equiv> 0"
abbreviation FB_AM_ON :: OV_INT where "FB_AM_ON \<equiv> 1"
abbreviation FB_AM_UNLINK :: OV_INT where "FB_AM_UNLINK \<equiv> 2"
abbreviation FB_AM_ONCE :: OV_INT where "FB_AM_ONCE \<equiv> 3"
abbreviation FB_AM_CATCHUP :: OV_INT where "FB_AM_CATCHUP \<equiv> 10"

record task =
  v_actimode :: OV_INT
  v_cyctime :: OV_TIME_SPAN
  v_proctime :: OV_TIME
  v_calctime :: OV_TIME_SPAN
  v_ErrState :: OV_INT

record fbs =
  task :: "objptr \<Rightarrow> task"
  tasks_below :: "objptr \<Rightarrow> objptr list"
  task_parent :: "objptr \<Rightarrow> objptr option"
  scheduler :: sched
  urtask :: "objptr option"
  tasknumber :: "OV_UINT option"

abbreviation set_task :: "objptr \<Rightarrow> task \<Rightarrow> fbs \<Rightarrow> fbs" where
  "set_task p t st \<equiv> st\<lparr>task := (task st)(p := t)\<rparr>"

definition unlink_task :: "objptr \<Rightarrow> objptr \<Rightarrow> fbs \<Rightarrow> fbs" where
  "unlink_task p c st = (if task_parent st c = Some p
     then st\<lparr>tasks_below := (tasks_below st)(p := removeAll c (tasks_below st p)),
             task_parent := (task_parent st)(c := None)\<rparr>
     else st)"

text \<open>What is given from outside: the double arithmetic, the clock around an execution, the triggers
  of the connections, and the method tables.\<close>

datatype vtable = NoTable | TaskTable | OtherTable

record fb_env =
  set_proctime :: "OV_TIME \<Rightarrow> task \<Rightarrow> OV_TIME"
  clock :: "objptr \<Rightarrow> OV_TIME \<times> OV_TIME"
  trigger_inp :: "objptr \<Rightarrow> fbs \<Rightarrow> fbs"
  trigger_out :: "objptr \<Rightarrow> fbs \<Rightarrow> fbs"
  table :: "objptr \<Rightarrow> vtable"
  other_execute :: "objptr \<Rightarrow> OV_TIME \<Rightarrow> fbs \<Rightarrow> fbs"

section \<open>Setting the process time\<close>

text \<open>The \<open>do ... while\<close> loops that add the cycle time; \<open>None\<close> when \<open>fuel\<close> rounds are not enough.\<close>

fun advance :: "nat \<Rightarrow> (OV_TIME \<Rightarrow> bool) \<Rightarrow> OV_TIME_SPAN \<Rightarrow> OV_TIME \<Rightarrow> OV_TIME option" where
  "advance 0 again cyc t = None"
| "advance (Suc fuel) again cyc t =
    (let t = ov_time_add t cyc in if again t then advance fuel again cyc t else Some t)"

definition nonzero :: "OV_TIME_SPAN \<Rightarrow> bool" where
  "nonzero s \<longleftrightarrow> span_secs s \<noteq> 0 \<or> span_usecs s \<noteq> 0"

definition fb_task_setNextProcTime :: "nat \<Rightarrow> objptr \<Rightarrow> OV_TIME \<Rightarrow> fbs \<Rightarrow> fbs option" where
  "fb_task_setNextProcTime fuel p ltc st =
    (let t = task st p
     in if v_actimode t = FB_AM_ON then
          (if nonzero (v_cyctime t) then
             map_option (\<lambda>time. set_task p (t\<lparr>v_proctime := time\<rparr>) st)
               (advance fuel (\<lambda>time. ov_time_compare time ltc = OV_TIMECMP_BEFORE) (v_cyctime t) (v_proctime t))
           else Some st)
        else if v_actimode t = FB_AM_UNLINK then
          Some (case task_parent st p of None \<Rightarrow> st | Some q \<Rightarrow> unlink_task q p st)
        else if v_actimode t = FB_AM_CATCHUP then
          Some (set_task p (t\<lparr>v_proctime := ov_time_add (v_proctime t) (v_cyctime t)\<rparr>) st)
        else Some (set_task p (t\<lparr>v_actimode := FB_AM_OFF\<rparr>) st))"

section \<open>Accessors\<close>

definition fb_task_actimode_set :: "fb_env \<Rightarrow> OV_TIME \<Rightarrow> OV_INT \<Rightarrow> task \<Rightarrow> OV_RESULT \<times> task" where
  "fb_task_actimode_set env now actimode t =
    (if v_actimode t = actimode then (OV_ERR_OK, t)
     else if actimode = FB_AM_ON then
       (OV_ERR_OK, t\<lparr>v_proctime := set_proctime env now t, v_ErrState := 0, v_actimode := actimode\<rparr>)
     else if actimode = FB_AM_UNLINK \<or> actimode = FB_AM_ONCE \<or> actimode = FB_AM_CATCHUP then
       (OV_ERR_OK, t\<lparr>v_ErrState := 0, v_actimode := actimode\<rparr>)
     else if actimode = FB_AM_OFF then (OV_ERR_OK, t\<lparr>v_actimode := actimode\<rparr>)
     else (OV_ERR_BADVALUE, t))"

definition fb_task_cyctime_set :: "OV_TIME_SPAN \<Rightarrow> task \<Rightarrow> OV_RESULT \<times> task" where
  "fb_task_cyctime_set ocyc t =
    (if sint (span_secs ocyc) \<ge> 0 \<and> sint (span_usecs ocyc) \<ge> 0 then (OV_ERR_OK, t\<lparr>v_cyctime := ocyc\<rparr>)
     else (OV_ERR_BADVALUE, t))"

text \<open>The urtask is the task the database names; \<open>by_path\<close> is the comparison of the canonical path,
  made while the database does not name one yet.\<close>

definition fb_task_is_urtask :: "bool \<Rightarrow> objptr \<Rightarrow> fbs \<Rightarrow> bool" where
  "fb_task_is_urtask by_path p st = (case urtask st of Some u \<Rightarrow> u = p | None \<Rightarrow> by_path)"

text \<open>The method the urtask is registered with.\<close>

definition fb_task_run_fnc :: nat where "fb_task_run_fnc = 1"

definition reregister :: "nat option \<Rightarrow> OV_TIME \<Rightarrow> objptr \<Rightarrow> OV_TIME \<Rightarrow> sched \<Rightarrow> sched" where
  "reregister heap now p time sc =
    ov_scheduler_setabseventtime now (Some p) (Some time)
      (snd (ov_scheduler_register heap now (Some p) (Some fb_task_run_fnc) sc))"

definition fb_task_proctime_set :: "fb_env \<Rightarrow> nat option \<Rightarrow> bool \<Rightarrow> OV_TIME \<Rightarrow> OV_TIME \<Rightarrow> objptr \<Rightarrow> fbs \<Rightarrow>
    OV_RESULT \<times> fbs" where
  "fb_task_proctime_set env heap by_path now tim p st =
    (if secs tim = 0 \<and> usecs tim = 0 then (OV_ERR_BADVALUE, st)
     else
       let st = set_task p ((task st p)\<lparr>v_proctime := tim\<rparr>) st
       in if fb_task_is_urtask by_path p st then
            (let sc = ov_scheduler_unregister p (scheduler st);
                 time = set_proctime env now (task st p);
                 st = set_task p ((task st p)\<lparr>v_proctime := time\<rparr>) st
             in (OV_ERR_OK, st\<lparr>scheduler := reregister heap now p time sc\<rparr>))
          else (OV_ERR_OK, st))"

section \<open>Life cycle\<close>

definition fb_task_constructor :: "OV_RESULT \<Rightarrow> OV_TIME \<Rightarrow> objptr \<Rightarrow> fbs \<Rightarrow> OV_RESULT \<times> fbs" where
  "fb_task_constructor base now p st =
    (if Ov_Fail base then (base, st)
     else (OV_ERR_OK, (set_task p ((task st p)\<lparr>v_proctime := now\<rparr>) st)
        \<lparr>tasknumber := map_option (\<lambda>n. n + 1) (tasknumber st)\<rparr>))"

definition fb_task_destructor :: "fbs \<Rightarrow> fbs" where
  "fb_task_destructor st = st\<lparr>tasknumber := map_option (\<lambda>n. if n > 0 then n - 1 else 0) (tasknumber st)\<rparr>"

definition fb_task_startup :: "fb_env \<Rightarrow> nat option \<Rightarrow> bool \<Rightarrow> OV_TIME \<Rightarrow> objptr \<Rightarrow> fbs \<Rightarrow> fbs" where
  "fb_task_startup env heap by_path now p st =
    (let st = (if v_actimode (task st p) = FB_AM_ON
               then set_task p ((task st p)\<lparr>v_proctime := set_proctime env now (task st p)\<rparr>) st else st)
     in if fb_task_is_urtask by_path p st
        then st\<lparr>scheduler := reregister heap now p (v_proctime (task st p)) (scheduler st)\<rparr> else st)"

definition fb_task_shutdown :: "bool \<Rightarrow> objptr \<Rightarrow> fbs \<Rightarrow> fbs" where
  "fb_task_shutdown by_path p st =
    (if fb_task_is_urtask by_path p st then st\<lparr>scheduler := ov_scheduler_unregister p (scheduler st)\<rparr> else st)"

section \<open>Execution\<close>

definition next_task :: "fbs \<Rightarrow> objptr \<Rightarrow> objptr option" where
  "next_task st c = (case task_parent st c of None \<Rightarrow> None | Some p \<Rightarrow> next_in (tasks_below st p) c)"

text \<open>\<open>fb_task_execute\<close> and the loop of \<open>fb_task_execChildObjects\<close>, which reads the successor of a
  child before it executes the child. \<open>fuel\<close> bounds depth and length of the recursion.\<close>

fun fb_task_execute :: "nat \<Rightarrow> fb_env \<Rightarrow> OV_TIME \<Rightarrow> objptr \<Rightarrow> fbs \<Rightarrow> fbs option"
  and exec_children :: "nat \<Rightarrow> fb_env \<Rightarrow> OV_TIME \<Rightarrow> objptr option \<Rightarrow> fbs \<Rightarrow> fbs option" where
  "fb_task_execute 0 env ltc p st = None"
| "fb_task_execute (Suc fuel) env ltc p st =
    (if ov_time_compare (v_proctime (task st p)) ltc = OV_TIMECMP_AFTER \<or> v_actimode (task st p) = FB_AM_OFF
     then Some st
     else
       let st = trigger_inp env p st
       in case exec_children fuel env ltc (first_of (tasks_below st p)) st of
            None \<Rightarrow> None
          | Some st \<Rightarrow>
              (case fb_task_setNextProcTime fuel p ltc (trigger_out env p st) of
                 None \<Rightarrow> None
               | Some st \<Rightarrow> Some (set_task p ((task st p)
                   \<lparr>v_calctime := ov_time_diff (snd (clock env p)) (fst (clock env p))\<rparr>) st)))"
| "exec_children fuel env ltc None st = Some st"
| "exec_children 0 env ltc (Some c) st = None"
| "exec_children (Suc fuel) env ltc (Some c) st =
    (let next = next_task st c
     in case table env c of
          NoTable \<Rightarrow> exec_children fuel env ltc next
            (set_task c ((task st c)\<lparr>v_actimode := FB_AM_OFF, v_ErrState := 1\<rparr>) st)
        | TaskTable \<Rightarrow>
            (case fb_task_execute fuel env ltc c st of
               None \<Rightarrow> None | Some st \<Rightarrow> exec_children fuel env ltc next st)
        | OtherTable \<Rightarrow> exec_children fuel env ltc next (other_execute env c ltc st))"

definition fb_task_execChildObjects :: "nat \<Rightarrow> fb_env \<Rightarrow> OV_TIME \<Rightarrow> objptr \<Rightarrow> fbs \<Rightarrow> fbs option" where
  "fb_task_execChildObjects fuel env ltc p st = exec_children fuel env ltc (first_of (tasks_below st p)) st"

text \<open>The execute function of the urtask.\<close>

definition second_later :: "OV_TIME \<Rightarrow> task \<Rightarrow> task" where
  "second_later time t = t\<lparr>v_proctime := (v_proctime t)\<lparr>secs := secs time + 1\<rparr>\<rparr>"

definition fb_task_run :: "nat \<Rightarrow> fb_env \<Rightarrow> OV_TIME \<Rightarrow> objptr \<Rightarrow> fbs \<Rightarrow> fbs option" where
  "fb_task_run fuel env time p st =
    map_option (\<lambda>st. st\<lparr>scheduler :=
        ov_scheduler_setabseventtime time (Some p) (Some (v_proctime (task st p))) (scheduler st)\<rparr>)
      (if v_actimode (task st p) \<noteq> 0 then
         map_option (\<lambda>st. if \<not> nonzero (v_cyctime (task st p))
             then set_task p (second_later time (task st p)) st else st)
           (fb_task_execute fuel env time p st)
       else if nonzero (v_cyctime (task st p)) then
         map_option (\<lambda>t. set_task p ((task st p)\<lparr>v_proctime := t\<rparr>) st)
           (advance fuel (\<lambda>t. ov_time_compare t time \<le> 0) (v_cyctime (task st p)) (v_proctime (task st p)))
       else Some (set_task p (second_later time (task st p)) st))"

section \<open>Lemmas\<close>

lemma time_us_less: "time_normal a \<Longrightarrow> time_normal b \<Longrightarrow> a < b \<longleftrightarrow> time_us a < time_us b"
proof -
  assume "time_normal a" "time_normal b"
  then have u: "uint (usecs a) < 1000000" "uint (usecs b) < 1000000" "0 \<le> uint (usecs a)" "0 \<le> uint (usecs b)"
    by (auto simp: time_normal_def)
  have ord: "a < b \<longleftrightarrow> uint (secs a) < uint (secs b) \<or>
      (uint (secs a) = uint (secs b) \<and> uint (usecs a) < uint (usecs b))"
    by (auto simp: less_OV_TIME_ext_def word_less_def word_uint_eq_iff)
  consider "uint (secs a) + 1 \<le> uint (secs b)" | "uint (secs a) = uint (secs b)"
    | "uint (secs b) + 1 \<le> uint (secs a)"
    by linarith
  then show ?thesis
    using u unfolding ord time_us_def by cases (linarith | auto)+
qed

lemma time_us_le: "time_normal a \<Longrightarrow> time_normal b \<Longrightarrow> a \<le> b \<longleftrightarrow> time_us a \<le> time_us b"
  by (simp add: time_us_less linorder_not_less [symmetric])

lemma time_us_nonneg: "0 \<le> time_us t"
  by (simp add: time_us_def)

lemma span_us_nonzero: "0 < span_us s \<Longrightarrow> nonzero s"
  by (auto simp: nonzero_def span_us_def)

text \<open>The loop of additions: it stops after the first multiple of the span that the test accepts.\<close>

lemma advance_stops:
  assumes s: "span_normal s" "0 < span_us s" and lim: "L + span_us s < 4294967296000000"
    and again: "\<And>x. time_normal x \<Longrightarrow> again x \<longleftrightarrow> time_us x < L"
  shows "time_normal t \<Longrightarrow> time_us t + span_us s < 4294967296000000 \<Longrightarrow>
    L \<le> time_us t + int fuel * span_us s \<Longrightarrow> 0 < fuel \<Longrightarrow>
    \<exists>k t'. advance fuel again s t = Some t' \<and> 0 < k \<and> time_normal t' \<and>
      time_us t' = time_us t + int k * span_us s \<and> L \<le> time_us t' \<and>
      (1 < k \<longrightarrow> time_us t' < L + span_us s)"
proof (induction fuel arbitrary: t)
  case (Suc fuel)
  let ?t = "ov_time_add t s"
  have v: "time_us ?t = time_us t + span_us s" "time_normal ?t"
    using ov_time_add_value [of t s] Suc.prems s time_us_nonneg [of t] by auto
  show ?case
  proof (cases "time_us ?t < L")
    case True
    have "L \<le> time_us ?t + int fuel * span_us s"
      using Suc.prems(3) v by (simp add: algebra_simps)
    moreover from this True have "0 < fuel"
      by (cases fuel) auto
    ultimately obtain k t' where "advance fuel again s ?t = Some t'" "0 < k" "time_normal t'"
      "time_us t' = time_us ?t + int k * span_us s" "L \<le> time_us t'" "1 < k \<longrightarrow> time_us t' < L + span_us s"
      using Suc.IH [OF v(2)] True lim by auto
    moreover from this have "time_us t' < L + span_us s"
      using True by (cases "k = 1") auto
    ultimately show ?thesis
      using True again [OF v(2)] v by (intro exI [of _ "Suc k"] exI [of _ t']) (simp add: algebra_simps)
  next
    case False
    with again [OF v(2)] v show ?thesis
      by (intro exI [of _ 1] exI [of _ ?t]) simp
  qed
qed simp

lemma advance_mono: "advance n again s t = Some r \<Longrightarrow> n \<le> m \<Longrightarrow> advance m again s t = Some r"
proof (induction n arbitrary: t m)
  case (Suc n)
  then obtain m' where "m = Suc m'" "n \<le> m'" by (cases m) auto
  with Suc show ?case by (auto simp: Let_def split: if_splits)
qed simp

lemma setNextProcTime_mono:
  "fb_task_setNextProcTime n p ltc st = Some r \<Longrightarrow> n \<le> m \<Longrightarrow> fb_task_setNextProcTime m p ltc st = Some r"
  by (auto simp: fb_task_setNextProcTime_def Let_def dest: advance_mono split: if_splits)

lemma execute_mono:
  "fb_task_execute n env ltc p st = Some r \<Longrightarrow> n \<le> m \<Longrightarrow> fb_task_execute m env ltc p st = Some r"
  "exec_children n env ltc c st = Some r \<Longrightarrow> n \<le> m \<Longrightarrow> exec_children m env ltc c st = Some r"
proof (induction n env ltc p st and n env ltc c st arbitrary: m r and m r
    rule: fb_task_execute_exec_children.induct)
  case (2 fuel env ltc p st)
  from "2.prems"(2) obtain m' where [simp]: "m = Suc m'" and le: "fuel \<le> m'" by (cases m) auto
  show ?case
  proof (cases "ov_time_compare (v_proctime (task st p)) ltc = OV_TIMECMP_AFTER \<or> v_actimode (task st p) = FB_AM_OFF")
    case True
    with "2.prems"(1) show ?thesis by simp
  next
    case False
    with "2.prems"(1) obtain st1 st2 where
      1: "exec_children fuel env ltc (first_of (tasks_below (trigger_inp env p st) p)) (trigger_inp env p st) = Some st1"
      and 2: "fb_task_setNextProcTime fuel p ltc (trigger_out env p st1) = Some st2"
      and r: "r = set_task p ((task st2 p)\<lparr>v_calctime := ov_time_diff (snd (clock env p)) (fst (clock env p))\<rparr>) st2"
      by (auto simp: Let_def split: option.splits simp del: ov_time_compare_iff)
    show ?thesis
      using False "2.IH" [OF False refl 1 le] setNextProcTime_mono [OF 2 le] r
      by (simp add: Let_def del: ov_time_compare_iff)
  qed
next
  case (5 fuel env ltc c st)
  from "5.prems"(2) obtain m' where [simp]: "m = Suc m'" and le: "fuel \<le> m'" by (cases m) auto
  show ?case
  proof (cases "table env c")
    case NoTable
    with "5.prems"(1) "5.IH"(1) [OF refl NoTable _ le] show ?thesis by (simp add: Let_def)
  next
    case TaskTable
    with "5.prems"(1) obtain st1 where 1: "fb_task_execute fuel env ltc c st = Some st1"
      and 2: "exec_children fuel env ltc (next_task st c) st1 = Some r"
      by (auto simp: Let_def split: option.splits)
    show ?thesis
      using TaskTable "5.IH"(2) [OF refl TaskTable 1 le] "5.IH"(3) [OF refl TaskTable 1 2 le]
      by (simp add: Let_def)
  next
    case OtherTable
    with "5.prems"(1) "5.IH"(4) [OF refl OtherTable _ le] show ?thesis by (simp add: Let_def)
  qed
qed auto

section \<open>The children of a task\<close>

text \<open>
  What the list of tasks and the back pointers promise, and an execution of the children one after
  another: every child is executed once, in the order of the list, and leaves its siblings where
  they are (it may take itself out of the list).
\<close>

definition tree_ok :: "fbs \<Rightarrow> bool" where
  "tree_ok st \<longleftrightarrow> (\<forall>p. distinct (tasks_below st p) \<and>
    (\<forall>c. c \<in> set (tasks_below st p) \<longleftrightarrow> task_parent st c = Some p))"

definition exec_child :: "nat \<Rightarrow> fb_env \<Rightarrow> OV_TIME \<Rightarrow> objptr \<Rightarrow> fbs \<Rightarrow> fbs option" where
  "exec_child n env ltc c st =
    (case table env c of
       NoTable \<Rightarrow> Some (set_task c ((task st c)\<lparr>v_actimode := FB_AM_OFF, v_ErrState := 1\<rparr>) st)
     | TaskTable \<Rightarrow> fb_task_execute n env ltc c st
     | OtherTable \<Rightarrow> Some (other_execute env c ltc st))"

definition siblings_kept :: "objptr \<Rightarrow> objptr \<Rightarrow> objptr list \<Rightarrow> fbs \<Rightarrow> fbs \<Rightarrow> bool" where
  "siblings_kept p c cs s s' \<longleftrightarrow>
    (tasks_below s' p = tasks_below s p \<or> tasks_below s' p = removeAll c (tasks_below s p)) \<and>
    (\<forall>d \<in> set cs. task_parent s' d = task_parent s d)"

inductive children_run :: "nat \<Rightarrow> fb_env \<Rightarrow> OV_TIME \<Rightarrow> objptr \<Rightarrow> objptr list \<Rightarrow> fbs \<Rightarrow> fbs \<Rightarrow> bool"
  for n env ltc p where
  none: "children_run n env ltc p [] s s"
| child: "exec_child n env ltc c s = Some s' \<Longrightarrow> siblings_kept p c cs s s' \<Longrightarrow>
    children_run n env ltc p cs s' r \<Longrightarrow> children_run n env ltc p (c # cs) s r"

inductive_simps children_run_simps:
  "children_run n env ltc p [] s r" "children_run n env ltc p (c # cs) s r"

lemma next_in_append: "c \<notin> set xs \<Longrightarrow> next_in (xs @ c # ys) c = first_of ys"
  by (induction xs) (auto simp: first_of_def split: list.splits)

lemma exec_children_step:
  assumes "exec_child n env ltc c s = Some s'" "n \<le> m"
    and "exec_children m env ltc (next_task s c) s' = Some r"
  shows "exec_children (Suc m) env ltc (Some c) s = Some r"
  using assms execute_mono(1) [of n env ltc c s s' m]
  by (auto simp: exec_child_def Let_def split: vtable.splits)

lemma exec_children_sequence:
  "children_run n env ltc p cs s r \<Longrightarrow> tasks_below s p = pre @ cs \<Longrightarrow> distinct (pre @ cs) \<Longrightarrow>
    \<forall>d \<in> set cs. task_parent s d = Some p \<Longrightarrow>
    exec_children (n + length cs) env ltc (first_of cs) s = Some r"
proof (induction arbitrary: pre rule: children_run.induct)
  case (none s)
  then show ?case by (simp add: first_of_def)
next
  case (child c s s' cs r)
  have next1: "next_task s c = first_of cs"
    using child.prems by (simp add: next_task_def next_in_append)
  obtain pre' where p': "tasks_below s' p = pre' @ cs" "distinct (pre' @ cs)"
  proof (cases "tasks_below s' p = tasks_below s p")
    case True
    then show ?thesis using that [of "pre @ [c]"] child.prems by simp
  next
    case False
    then have "tasks_below s' p = removeAll c (pre @ c # cs)"
      using child by (simp add: siblings_kept_def)
    moreover have "removeAll c (pre @ c # cs) = pre @ cs"
      using child.prems(2) by (simp add: removeAll_id)
    ultimately show ?thesis using that [of pre] child.prems(2) by simp
  qed
  have "exec_children (n + length cs) env ltc (next_task s c) s' = Some r"
    unfolding next1 using p' child.prems(3) child.hyps(2)
    by (intro child.IH) (auto simp: siblings_kept_def)
  from exec_children_step [OF child.hyps(1) _ this] show ?case
    by (simp add: first_of_def)
qed

lemma execChildObjects_sequence:
  assumes "tree_ok st" "children_run n env ltc p (tasks_below st p) st r"
  shows "fb_task_execChildObjects (n + length (tasks_below st p)) env ltc p st = Some r"
  unfolding fb_task_execChildObjects_def
  by (rule exec_children_sequence [OF assms(2), of "[]"]) (use assms(1) in \<open>auto simp: tree_ok_def\<close>)

section \<open>The invariant of the task system\<close>

text \<open>The action modes the accessor knows.\<close>

definition mode_ok :: "OV_INT \<Rightarrow> bool" where
  "mode_ok m \<longleftrightarrow> m \<in> {FB_AM_OFF, FB_AM_ON, FB_AM_UNLINK, FB_AM_ONCE, FB_AM_CATCHUP}"

definition fbs_ok :: "fbs \<Rightarrow> bool" where
  "fbs_ok st \<longleftrightarrow> sched_ok (scheduler st) \<and> tree_ok st \<and> (\<forall>p. mode_ok (v_actimode (task st p)))"

text \<open>What is called from outside keeps the invariant.\<close>

definition env_ok :: "fb_env \<Rightarrow> bool" where
  "env_ok env \<longleftrightarrow> (\<forall>p ltc st. fbs_ok st \<longrightarrow>
    fbs_ok (trigger_inp env p st) \<and> fbs_ok (trigger_out env p st) \<and> fbs_ok (other_execute env p ltc st))"

lemma fbs_ok_set_task: "fbs_ok st \<Longrightarrow> mode_ok (v_actimode t) \<Longrightarrow> fbs_ok (set_task p t st)"
  by (simp add: fbs_ok_def tree_ok_def)

lemma fbs_ok_mode: "fbs_ok st \<Longrightarrow> mode_ok (v_actimode (task st p))"
  by (simp add: fbs_ok_def)

lemma fbs_ok_scheduler: "fbs_ok st \<Longrightarrow> sched_ok sc \<Longrightarrow> fbs_ok (st\<lparr>scheduler := sc\<rparr>)"
  by (simp add: fbs_ok_def tree_ok_def)

lemma fbs_ok_tasknumber [simp]: "fbs_ok (st\<lparr>tasknumber := n\<rparr>) = fbs_ok st"
  by (simp add: fbs_ok_def tree_ok_def)

lemma fbs_ok_unlink: "fbs_ok st \<Longrightarrow> fbs_ok (unlink_task q p st)"
  by (auto simp: fbs_ok_def tree_ok_def unlink_task_def distinct_removeAll)

lemmas fbs_ok_intros = fbs_ok_set_task fbs_ok_mode fbs_ok_scheduler fbs_ok_unlink

lemma mode_off_on [simp]: "mode_ok 0" "mode_ok 1"
  by (simp_all add: mode_ok_def)

lemma actimode_set_mode: "mode_ok (v_actimode t) \<Longrightarrow> mode_ok (v_actimode (snd (fb_task_actimode_set env now m t)))"
  by (auto simp: fb_task_actimode_set_def mode_ok_def)

lemma setNextProcTime_ok:
  "fb_task_setNextProcTime n p ltc st = Some r \<Longrightarrow> fbs_ok st \<Longrightarrow> fbs_ok r"
  by (auto simp: fb_task_setNextProcTime_def Let_def intro!: fbs_ok_intros
      split: if_splits option.splits) (simp_all add: mode_ok_def)

lemma execute_ok:
  assumes "env_ok env"
  shows "fb_task_execute n env ltc p st = Some r \<Longrightarrow> fbs_ok st \<Longrightarrow> fbs_ok r"
    "exec_children n env ltc c st = Some r \<Longrightarrow> fbs_ok st \<Longrightarrow> fbs_ok r"
  using assms
proof (induction n env ltc p st and n env ltc c st arbitrary: r and r
    rule: fb_task_execute_exec_children.induct)
  case (2 fuel env ltc p st)
  show ?case
  proof (cases "ov_time_compare (v_proctime (task st p)) ltc = OV_TIMECMP_AFTER \<or> v_actimode (task st p) = FB_AM_OFF")
    case True
    with "2.prems" show ?thesis by simp
  next
    case False
    with "2.prems"(1) obtain st1 st2 where
      1: "exec_children fuel env ltc (first_of (tasks_below (trigger_inp env p st) p)) (trigger_inp env p st) = Some st1"
      and 2: "fb_task_setNextProcTime fuel p ltc (trigger_out env p st1) = Some st2"
      and r: "r = set_task p ((task st2 p)\<lparr>v_calctime := ov_time_diff (snd (clock env p)) (fst (clock env p))\<rparr>) st2"
      by (auto simp: Let_def split: option.splits simp del: ov_time_compare_iff)
    have "fbs_ok (trigger_inp env p st)" using "2.prems" by (simp add: env_ok_def)
    then have "fbs_ok st1" using "2.IH" [OF False refl 1] "2.prems"(3) by blast
    then have "fbs_ok (trigger_out env p st1)" using "2.prems" by (simp add: env_ok_def)
    then have "fbs_ok st2" using setNextProcTime_ok [OF 2] by blast
    then show ?thesis unfolding r by (simp add: fbs_ok_intros)
  qed
next
  case (5 fuel env ltc c st)
  show ?case
  proof (cases "table env c")
    case NoTable
    with "5.prems" "5.IH"(1) [OF refl NoTable] show ?thesis by (simp add: Let_def fbs_ok_intros)
  next
    case TaskTable
    with "5.prems"(1) obtain st1 where 1: "fb_task_execute fuel env ltc c st = Some st1"
      and 2: "exec_children fuel env ltc (next_task st c) st1 = Some r"
      by (auto simp: Let_def split: option.splits)
    show ?thesis
      using "5.IH"(2) [OF refl TaskTable 1 "5.prems"(2,3)] "5.IH"(3) [OF refl TaskTable 1 2] "5.prems"(3) by blast
  next
    case OtherTable
    with "5.prems" have "fbs_ok (other_execute env c ltc st)" by (simp add: env_ok_def)
    with "5.prems" "5.IH"(4) [OF refl OtherTable] OtherTable show ?thesis by (simp add: Let_def)
  qed
qed auto

lemma reregister_ok:
  assumes "sched_ok sc" "\<forall>a. heap = Some a \<longrightarrow> a \<notin> ev_addr ` set (pfirstevent sc)"
  shows "sched_ok (reregister heap now p time sc)"
  unfolding reregister_def by (intro setabseventtime_ok register_ok assms)

lemma run_ok:
  assumes "env_ok env" "fbs_ok st" "fb_task_run n env time p st = Some r"
  shows "fbs_ok r"
  using assms
  by (auto simp: fb_task_run_def second_later_def dest!: execute_ok(1) [OF assms(1)] split: if_splits
      intro!: fbs_ok_scheduler setabseventtime_ok fbs_ok_set_task)
    (simp_all add: fbs_ok_def)

text \<open>Everything that can happen to the tasks. \<open>fresh\<close>: the heap returns cells that are not in use.\<close>

definition fresh :: "nat option \<Rightarrow> sched \<Rightarrow> bool" where
  "fresh heap sc \<longleftrightarrow> (\<forall>a. heap = Some a \<longrightarrow> a \<notin> ev_addr ` set (pfirstevent sc))"

inductive fb_run :: "fb_env \<Rightarrow> fbs \<Rightarrow> fbs \<Rightarrow> bool" for env where
  start: "fb_run env s s"
| actimode: "fb_run env s t \<Longrightarrow> fb_run env s (set_task p (snd (fb_task_actimode_set env now m (task t p))) t)"
| cyctime: "fb_run env s t \<Longrightarrow> fb_run env s (set_task p (snd (fb_task_cyctime_set sp (task t p))) t)"
| proctime: "fb_run env s t \<Longrightarrow> fresh heap (ov_scheduler_unregister p (scheduler t)) \<Longrightarrow>
    fb_run env s (snd (fb_task_proctime_set env heap by_path now tim p t))"
| construct: "fb_run env s t \<Longrightarrow> fb_run env s (snd (fb_task_constructor base now p t))"
| destruct: "fb_run env s t \<Longrightarrow> fb_run env s (fb_task_destructor t)"
| startup: "fb_run env s t \<Longrightarrow> fresh heap (scheduler t) \<Longrightarrow> fb_run env s (fb_task_startup env heap by_path now p t)"
| shutdown: "fb_run env s t \<Longrightarrow> fb_run env s (fb_task_shutdown by_path p t)"
| run: "fb_run env s t \<Longrightarrow> fb_task_run n env now p t = Some u \<Longrightarrow> fb_run env s u"

lemma fb_run_ok: "fb_run env s t \<Longrightarrow> env_ok env \<Longrightarrow> fbs_ok s \<Longrightarrow> fbs_ok t"
proof (induction rule: fb_run.induct)
  case (proctime s t heap p by_path now tim)
  then have ok: "fbs_ok t" by simp
  from proctime(2) have fr: "\<forall>a. heap = Some a \<longrightarrow> a \<notin> ev_addr ` set (pfirstevent (ov_scheduler_unregister p (scheduler t)))"
    by (simp add: fresh_def)
  have "sched_ok (ov_scheduler_unregister p (scheduler t))"
    using ok by (intro unregister_ok) (simp add: fbs_ok_def)
  from reregister_ok [OF this fr] ok show ?case
    by (auto simp: fb_task_proctime_set_def Let_def intro!: fbs_ok_scheduler fbs_ok_set_task fbs_ok_mode)
next
  case (startup s t heap by_path now p)
  then have ok: "fbs_ok t" by simp
  from startup(2) have fr: "\<forall>a. heap = Some a \<longrightarrow> a \<notin> ev_addr ` set (pfirstevent (scheduler t))"
    by (simp add: fresh_def)
  from ok have "sched_ok (scheduler t)" by (simp add: fbs_ok_def)
  from reregister_ok [OF this fr] ok show ?case
    by (auto simp: fb_task_startup_def Let_def intro!: fbs_ok_scheduler fbs_ok_set_task)
qed (auto simp: fb_task_cyctime_set_def fb_task_constructor_def fb_task_destructor_def fb_task_shutdown_def
    intro!: fbs_ok_set_task fbs_ok_scheduler unregister_ok actimode_set_mode intro: run_ok fbs_ok_mode
    simp: fbs_ok_mode, simp add: fbs_ok_def)

section \<open>Properties\<close>

text \<open>C30: After its execution a task that is on is due at the first multiple of its cycle time,
  counted from its old process time, that is not before the execution time: the loop of
  \<open>fb_task_setNextProcTime\<close> ends, at least one cycle is added, and more than one only when
  cycles were missed. Nothing but the process time changes.\<close>
theorem next_cycle:
  assumes "v_actimode (task st p) = FB_AM_ON"
    and "span_normal (v_cyctime (task st p))" and "0 < span_us (v_cyctime (task st p))"
    and "time_normal (v_proctime (task st p))" and "time_normal ltc"
    and "time_us ltc + span_us (v_cyctime (task st p)) < 4294967296000000"
    and "time_us (v_proctime (task st p)) + span_us (v_cyctime (task st p)) < 4294967296000000"
    and "time_us ltc \<le> time_us (v_proctime (task st p)) + int fuel * span_us (v_cyctime (task st p))"
    and "0 < fuel"
  shows "\<exists>k t. fb_task_setNextProcTime fuel p ltc st = Some (set_task p ((task st p)\<lparr>v_proctime := t\<rparr>) st) \<and>
    0 < k \<and> time_us t = time_us (v_proctime (task st p)) + int k * span_us (v_cyctime (task st p)) \<and>
    time_us ltc \<le> time_us t \<and> (1 < k \<longrightarrow> time_us t < time_us ltc + span_us (v_cyctime (task st p)))"
proof -
  obtain k t where "advance fuel (\<lambda>time. ov_time_compare time ltc = OV_TIMECMP_BEFORE)
      (v_cyctime (task st p)) (v_proctime (task st p)) = Some t" "0 < k"
    "time_us t = time_us (v_proctime (task st p)) + int k * span_us (v_cyctime (task st p))"
    "time_us ltc \<le> time_us t" "1 < k \<longrightarrow> time_us t < time_us ltc + span_us (v_cyctime (task st p))"
    using advance_stops [OF assms(2,3,6) _ assms(4,7,8,9), of "\<lambda>time. ov_time_compare time ltc = OV_TIMECMP_BEFORE"]
      assms(5) by (auto simp: time_us_less)
  then show ?thesis
    using assms(1) span_us_nonzero [OF assms(3)]
    by (intro exI [of _ k] exI [of _ t]) (simp add: fb_task_setNextProcTime_def)
qed

definition demo_task :: task where
  "demo_task = \<lparr>v_actimode = 1, v_cyctime = \<lparr>span_secs = 0, span_usecs = 400000\<rparr>,
     v_proctime = \<lparr>secs = 5, usecs = 0\<rparr>, v_calctime = \<lparr>span_secs = 0, span_usecs = 0\<rparr>, v_ErrState = 0\<rparr>"

definition demo_fbs :: fbs where
  "demo_fbs = \<lparr>task = (\<lambda>p. if p = 2 then demo_task\<lparr>v_actimode := 2\<rparr> else demo_task),
     tasks_below = (\<lambda>p. if p = 1 then [2, 3] else []),
     task_parent = (\<lambda>c. if c = 2 \<or> c = 3 then Some 1 else None),
     scheduler = \<lparr>pfirstevent = [\<lparr>ev_addr = 64, ev_pobj = 1, ev_executefnc = 1, ev_time = \<lparr>secs = 5, usecs = 0\<rparr>\<rparr>],
       objectstate = (\<lambda>p. 4), ov_activitylock = False, allowedJitter = 0, numExceeds = 0\<rparr>,
     urtask = Some 1, tasknumber = Some 2\<rparr>"

definition demo_env :: fb_env where
  "demo_env = \<lparr>set_proctime = (\<lambda>now t. v_proctime t), clock = (\<lambda>p. (\<lparr>secs = 6, usecs = 0\<rparr>, \<lparr>secs = 6, usecs = 5\<rparr>)),
     trigger_inp = (\<lambda>p st. st), trigger_out = (\<lambda>p st. st),
     table = (\<lambda>c. if c = 2 then TaskTable else if c = 3 then OtherTable else NoTable),
     other_execute = (\<lambda>c ltc st. set_task c ((task st c)\<lparr>v_ErrState := 7\<rparr>) st)\<rparr>"

theorem next_cycle_witness:
  "\<exists>k t. fb_task_setNextProcTime 3 1 \<lparr>secs = 6, usecs = 0\<rparr> demo_fbs =
      Some (set_task 1 ((task demo_fbs 1)\<lparr>v_proctime := t\<rparr>) demo_fbs) \<and>
    0 < k \<and> time_us t = 5000000 + int k * 400000 \<and> 6000000 \<le> time_us t \<and> (1 < k \<longrightarrow> time_us t < 6400000)"
  using next_cycle [of demo_fbs 1 "\<lparr>secs = 6, usecs = 0\<rparr>" 3]
  by (simp add: demo_fbs_def demo_task_def span_normal_def span_us_def time_normal_def time_us_def)

text \<open>The children of a task are executed one after another in the order of the list, each
  exactly once, as long as an execution leaves the siblings in place; in particular a child that
  takes itself out of the list (action mode \<open>FB_AM_UNLINK\<close>) does not make the loop lose its
  successors. The loop then needs one unit of fuel per child.\<close>
lemma children_in_order_once:
  assumes "tree_ok st" and "children_run n env ltc p (tasks_below st p) st r"
  shows "fb_task_execChildObjects (n + length (tasks_below st p)) env ltc p st = Some r"
  using assms by (rule execChildObjects_sequence)

text \<open>C27: Whatever operations run on the tasks, in any order (accessors, construction, startup,
  shutdown, runs of the urtask): the event queue stays sorted with distinct cells, the task lists and
  back pointers agree, and every action mode is one the accessor allows, provided the executions
  outside keep this and the heap returns free cells.\<close>
theorem fb_run_invariant:
  assumes "fb_run env s t" and "env_ok env" and "fbs_ok s"
  shows "fbs_ok t"
  using assms by (rule fb_run_ok)

theorem fb_run_invariant_witness: "fbs_ok (fb_task_shutdown True 1 demo_fbs)"
proof (rule fb_run_invariant [of demo_env demo_fbs])
  show "fb_run demo_env demo_fbs (fb_task_shutdown True 1 demo_fbs)"
    by (intro fb_run.intros)
  show "env_ok demo_env"
    by (auto simp: env_ok_def demo_env_def intro!: fbs_ok_set_task fbs_ok_mode)
  show "fbs_ok demo_fbs"
    by (auto simp: fbs_ok_def sched_ok_def sorted_by_def tree_ok_def mode_ok_def demo_fbs_def demo_task_def)
qed

text \<open>A run of the urtask while it is off moves its process time past the clock by whole
  cycles, and asks the scheduler for the next event at that time: the urtask is polled in the
  future, no execution is made.\<close>
lemma run_off_is_rescheduled:
  assumes "v_actimode (task st p) = FB_AM_OFF"
    and "span_normal (v_cyctime (task st p))" and "0 < span_us (v_cyctime (task st p))"
    and "time_normal (v_proctime (task st p))" and "time_normal time"
    and "time_us time + 1 + span_us (v_cyctime (task st p)) < 4294967296000000"
    and "time_us (v_proctime (task st p)) + span_us (v_cyctime (task st p)) < 4294967296000000"
    and "time_us time < time_us (v_proctime (task st p)) + int fuel * span_us (v_cyctime (task st p))"
    and "0 < fuel"
  shows "\<exists>k t. fb_task_run fuel env time p st = Some ((set_task p ((task st p)\<lparr>v_proctime := t\<rparr>) st)
      \<lparr>scheduler := ov_scheduler_setabseventtime time (Some p) (Some t) (scheduler st)\<rparr>) \<and>
    0 < k \<and> time_us t = time_us (v_proctime (task st p)) + int k * span_us (v_cyctime (task st p)) \<and> time < t"
proof -
  obtain k t where t: "advance fuel (\<lambda>t. ov_time_compare t time \<le> 0)
      (v_cyctime (task st p)) (v_proctime (task st p)) = Some t" "0 < k" "time_normal t"
    "time_us t = time_us (v_proctime (task st p)) + int k * span_us (v_cyctime (task st p))"
    "time_us time + 1 \<le> time_us t"
    using advance_stops [OF assms(2,3,6) _ assms(4,7) _ assms(9), of "\<lambda>t. ov_time_compare t time \<le> 0"]
      assms(5,8) by (auto simp: time_us_le)
  then have "time < t" using assms(5) by (simp add: time_us_less)
  with t show ?thesis
    using assms(1) span_us_nonzero [OF assms(3)]
    by (intro exI [of _ k] exI [of _ t]) (simp add: fb_task_run_def)
qed

end
