(* ===== verification/FbConnection.thy ===== *)
theory FbConnection
  imports FbTask
begin

text \<open>
  syslibs/functionblock/fb/source/fb_connection.c, fb_connectionlinks.c and the triggering of
  fb_object.c: connections between the ports of function blocks. A connection is linked to a
  source and a target, names a port of each, and keeps the elements of the ports it has found
  until something changes. The methods of the linked objects (access, reading and writing of
  variables) are parameters; \<open>'w\<close> is the store their variables are in, \<open>'v\<close> a value.
\<close>

section \<open>State\<close>

record connection =
  v_on :: bool
  v_sourceport :: OV_STRING
  v_targetport :: OV_STRING
  v_sourcetrig :: bool
  v_sourceelem :: OV_ELEMENT
  v_targetelem :: OV_ELEMENT

record 'w fb_objects =
  tasks :: fbs
  conn :: "objptr \<Rightarrow> connection"
  source_of :: "objptr \<Rightarrow> objptr option"
  target_of :: "objptr \<Rightarrow> objptr option"
  outputs :: "objptr \<Rightarrow> objptr list"
  inputs :: "objptr \<Rightarrow> objptr list"
  v_iexreq :: "objptr \<Rightarrow> bool"
  v_eexreq :: "objptr \<Rightarrow> bool"
  v_methcount :: "objptr \<Rightarrow> OV_UINT"
  v_maxcalctime :: "objptr \<Rightarrow> OV_TIME_SPAN"
  port_flags :: "objptr \<Rightarrow> OV_UINT"
  v_connnumber :: "OV_UINT option"
  store :: 'w

record ('w, 'v) block_env =
  elements :: odb
  class_depth :: nat
  var_flags :: "objptr \<Rightarrow> OV_UINT"
  has_table :: "objptr \<Rightarrow> bool"
  is_block :: "objptr \<Rightarrow> bool"
  chart_ports :: "objptr \<Rightarrow> objptr list"
  m_getaccess :: "objptr \<Rightarrow> OV_ELEMENT \<Rightarrow> OV_UINT"
  m_getvar :: "objptr \<Rightarrow> OV_ELEMENT \<Rightarrow> 'w fb_objects \<Rightarrow> OV_RESULT \<times> 'v \<times> 'w fb_objects"
  m_setvar :: "objptr \<Rightarrow> OV_ELEMENT \<Rightarrow> 'v \<Rightarrow> 'w fb_objects \<Rightarrow> OV_RESULT \<times> 'w fb_objects"

definition IsFlagSet :: "OV_UINT \<Rightarrow> char \<Rightarrow> bool" where
  "IsFlagSet flags name \<longleftrightarrow> flags AND push_bit (of_char name - 97) 1 \<noteq> 0"

text \<open>The scalar types, their vectors, and both with state and time stamp (of the bytes only the plain
  ones).\<close>

definition fb_vartype_implemented :: "OV_UINT \<Rightarrow> bool" where
  "fb_vartype_implemented typ \<longleftrightarrow>
     typ \<in> {0xff, 0x01, 0x02, 0x10, 0x11, 0x20, 0x21, 0x30, 0x31, 0x32,
       0x81, 0x82, 0x90, 0x91, 0xA0, 0xA1, 0xB0, 0xB1, 0xB2,
       0x30002, 0x30010, 0x30011, 0x30020, 0x30021, 0x30030, 0x30031, 0x30032,
       0x30082, 0x30090, 0x30091, 0x300A0, 0x300A1, 0x300B0, 0x300B1, 0x300B2}"

abbreviation set_conn :: "objptr \<Rightarrow> connection \<Rightarrow> 'w fb_objects \<Rightarrow> 'w fb_objects" where
  "set_conn c k st \<equiv> st\<lparr>conn := (conn st)(c := k)\<rparr>"

definition no_elements :: "connection \<Rightarrow> connection" where
  "no_elements k = k\<lparr>v_sourceelem := (v_sourceelem k)\<lparr>elemtype := OV_ET_NONE\<rparr>,
     v_targetelem := (v_targetelem k)\<lparr>elemtype := OV_ET_NONE\<rparr>\<rparr>"

text \<open>The error state of a function block, and its switching off.\<close>

definition error_state :: "('w, 'v) block_env \<Rightarrow> objptr \<Rightarrow> 'w fb_objects \<Rightarrow> 'w fb_objects" where
  "error_state env p st =
    (if is_block env p
     then st\<lparr>tasks := set_task p ((task (tasks st) p)\<lparr>v_ErrState := 1\<rparr>) (tasks st)\<rparr> else st)"

definition switch_off :: "('w, 'v) block_env \<Rightarrow> objptr \<Rightarrow> 'w fb_objects \<Rightarrow> 'w fb_objects" where
  "switch_off env p st =
    (if is_block env p
     then st\<lparr>tasks := set_task p ((task (tasks st) p)\<lparr>v_actimode := FB_AM_OFF, v_ErrState := 1\<rparr>) (tasks st)\<rparr> else st)"

section \<open>Finding the ports\<close>

definition object_element :: "objptr \<Rightarrow> OV_ELEMENT" where
  "object_element p = \<lparr>elemtype = OV_ET_OBJECT, el_pobj = Some p, pvalue = None, pvar = None, elemunion = None\<rparr>"

definition find_port :: "('w, 'v) block_env \<Rightarrow> objptr \<Rightarrow> OV_STRING \<Rightarrow> OV_ELEMENT \<Rightarrow> OV_ELEMENT option" where
  "find_port env p port e =
    map_option snd (ov_element_searchpart (class_depth env) (elements env) (object_element p) e OV_ET_VARIABLE (string_value port))"

definition element_var :: "OV_ELEMENT \<Rightarrow> objptr" where
  "element_var e = (case elemunion e of None \<Rightarrow> 0 | Some v \<Rightarrow> v)"

definition check_source :: "('w, 'v) block_env \<Rightarrow> objptr \<Rightarrow> 'w fb_objects \<Rightarrow> (bool \<times> 'w fb_objects) option" where
  "check_source env c st =
    (let k = conn st c
     in if ov_string_compare (v_sourceport k) (Some []) = 0 then Some (False, st)
        else case source_of st c of
            None \<Rightarrow> Some (False, st)
          | Some p \<Rightarrow>
              (case find_port env p (v_sourceport k) (v_sourceelem k) of
                 None \<Rightarrow> None
               | Some e \<Rightarrow>
                   let st = set_conn c (k\<lparr>v_sourceelem := e\<rparr>) st
                   in if elemtype e \<noteq> OV_ET_VARIABLE then Some (False, st)
                      else if \<not> has_table env p then Some (False, switch_off env p st)
                      else if m_getaccess env p e AND OV_AC_READ = 0 then Some (False, st)
                      else Some (fb_vartype_implemented (v_vartype (elements env) (element_var e)), st)))"

definition check_target :: "('w, 'v) block_env \<Rightarrow> objptr \<Rightarrow> 'w fb_objects \<Rightarrow> (bool \<times> 'w fb_objects) option" where
  "check_target env c st =
    (let k = conn st c
     in if ov_string_compare (v_targetport k) (Some []) = 0 then Some (False, st)
        else case target_of st c of
            None \<Rightarrow> Some (False, st)
          | Some p \<Rightarrow>
              (case find_port env p (v_targetport k) (v_targetelem k) of
                 None \<Rightarrow> None
               | Some e \<Rightarrow>
                   let st = set_conn c (k\<lparr>v_targetelem := e\<rparr>) st
                   in if elemtype e \<noteq> OV_ET_VARIABLE then Some (False, st)
                      else if \<not> has_table env p then Some (False, switch_off env p st)
                      else if m_getaccess env p e AND OV_AC_WRITE = 0 then Some (False, st)
                      else if IsFlagSet (var_flags env (element_var e)) CHR ''p'' then Some (False, st)
                      else Some (fb_vartype_implemented (v_vartype (elements env) (element_var e)), st)))"

definition fb_connection_checkelements :: "('w, 'v) block_env \<Rightarrow> objptr \<Rightarrow> 'w fb_objects \<Rightarrow> (bool \<times> 'w fb_objects) option" where
  "fb_connection_checkelements env c st =
    (case check_source env c st of
       None \<Rightarrow> None
     | Some (False, st) \<Rightarrow> Some (False, st)
     | Some (True, st) \<Rightarrow> check_target env c st)"

definition fb_connection_getelements :: "('w, 'v) block_env \<Rightarrow> objptr \<Rightarrow> 'w fb_objects \<Rightarrow> (bool \<times> 'w fb_objects) option" where
  "fb_connection_getelements env c st =
    (if \<not> has_table env c then Some (False, set_conn c (no_elements ((conn st c)\<lparr>v_on := False\<rparr>)) st)
     else map_option (\<lambda>(res, st). (res, if res then st else set_conn c (no_elements (conn st c)) st))
       (fb_connection_checkelements env c st))"

section \<open>Accessors and life cycle\<close>

definition fb_connection_on_set :: "bool \<Rightarrow> connection \<Rightarrow> OV_RESULT \<times> connection" where
  "fb_connection_on_set on k = (OV_ERR_OK, k\<lparr>v_on := on\<rparr>)"

definition fb_connection_sourceport_set :: "OV_UINT \<Rightarrow> bool \<Rightarrow> OV_STRING \<Rightarrow> connection \<Rightarrow> OV_RESULT \<times> connection" where
  "fb_connection_sourceport_set maxlen mem value k =
    (if ov_string_compare (v_sourceport k) value \<noteq> 0 then
       (case ov_string_setvalue maxlen mem False (Some (v_sourceport k)) value of
          (r, s) \<Rightarrow> (r, (no_elements k)\<lparr>v_sourceport := (case s of None \<Rightarrow> None | Some x \<Rightarrow> x)\<rparr>))
     else (OV_ERR_OK, k))"

definition fb_connection_targetport_set :: "OV_UINT \<Rightarrow> bool \<Rightarrow> OV_STRING \<Rightarrow> connection \<Rightarrow> OV_RESULT \<times> connection" where
  "fb_connection_targetport_set maxlen mem value k =
    (if ov_string_compare (v_targetport k) value \<noteq> 0 then
       (case ov_string_setvalue maxlen mem False (Some (v_targetport k)) value of
          (r, s) \<Rightarrow> (r, (no_elements k)\<lparr>v_targetport := (case s of None \<Rightarrow> None | Some x \<Rightarrow> x)\<rparr>))
     else (OV_ERR_OK, k))"

definition fb_connection_constructor :: "OV_RESULT \<Rightarrow> objptr \<Rightarrow> 'w fb_objects \<Rightarrow> OV_RESULT \<times> 'w fb_objects" where
  "fb_connection_constructor base c st =
    (if Ov_Fail base then (base, st)
     else (OV_ERR_OK, (set_conn c (no_elements (conn st c)) st)
        \<lparr>v_connnumber := map_option (\<lambda>n. n + 1) (v_connnumber st)\<rparr>))"

definition fb_connection_checkinit :: "connection \<Rightarrow> connection" where
  "fb_connection_checkinit k = no_elements k"

definition fb_connection_startup :: "connection \<Rightarrow> connection" where
  "fb_connection_startup k = no_elements k"

definition fb_connection_destructor :: "'w fb_objects \<Rightarrow> 'w fb_objects" where
  "fb_connection_destructor st =
    st\<lparr>v_connnumber := map_option (\<lambda>n. if n > 0 then n - 1 else 0) (v_connnumber st)\<rparr>"

text \<open>\<open>own\<close>: the variable is declared by the class itself; \<open>base\<close>: the access the base class grants.\<close>

definition fb_connection_getaccess :: "bool \<Rightarrow> OV_UINT \<Rightarrow> connection \<Rightarrow> odb \<Rightarrow> OV_ELEMENT \<Rightarrow> OV_UINT" where
  "fb_connection_getaccess own base k db e =
    (if elemtype e = OV_ET_VARIABLE \<and> own then
       (if fb_vartype_implemented (v_vartype db (element_var e)) then OV_AC_READWRITE else 0)
     else if elemtype e = OV_ET_OBJECT then
       (if v_on k then OV_AC_READWRITE OR OV_AC_RENAMEABLE OR OV_AC_LINKABLE OR OV_AC_UNLINKABLE
        else OV_AC_READWRITE OR OV_AC_RENAMEABLE OR OV_AC_DELETEABLE OR OV_AC_LINKABLE OR OV_AC_UNLINKABLE)
     else base)"

section \<open>Links\<close>

text \<open>The associations as lists of children, with \<open>ov_association_link\<close> at the end.\<close>

definition fb_inputconnections_link :: "objptr option \<Rightarrow> objptr option \<Rightarrow> 'w fb_objects \<Rightarrow> OV_RESULT \<times> 'w fb_objects" where
  "fb_inputconnections_link pparent pchild st =
    (case (pparent, pchild) of
       (Some p, Some c) \<Rightarrow>
         (let st = set_conn c (no_elements (conn st c)) st
          in if target_of st c \<noteq> None then (OV_ERR_ALREADYEXISTS, st)
             else (OV_ERR_OK, st\<lparr>target_of := (target_of st)(c := Some p),
                                 inputs := (inputs st)(p := inputs st p @ [c])\<rparr>))
     | _ \<Rightarrow> (OV_ERR_BADINITPARAM, st))"

definition fb_outputconnections_link :: "objptr option \<Rightarrow> objptr option \<Rightarrow> 'w fb_objects \<Rightarrow> OV_RESULT \<times> 'w fb_objects" where
  "fb_outputconnections_link pparent pchild st =
    (case (pparent, pchild) of
       (Some p, Some c) \<Rightarrow>
         (let st = set_conn c (no_elements (conn st c)) st
          in if source_of st c \<noteq> None then (OV_ERR_ALREADYEXISTS, st)
             else (OV_ERR_OK, st\<lparr>source_of := (source_of st)(c := Some p),
                                 outputs := (outputs st)(p := outputs st p @ [c])\<rparr>))
     | _ \<Rightarrow> (OV_ERR_BADINITPARAM, st))"

definition fb_inputconnections_unlink :: "objptr option \<Rightarrow> objptr option \<Rightarrow> 'w fb_objects \<Rightarrow> 'w fb_objects" where
  "fb_inputconnections_unlink pparent pchild st =
    (case (pparent, pchild) of
       (Some p, Some c) \<Rightarrow>
         (let st = set_conn c (no_elements ((conn st c)\<lparr>v_on := False\<rparr>)) st
          in if target_of st c = Some p
             then st\<lparr>target_of := (target_of st)(c := None), inputs := (inputs st)(p := removeAll c (inputs st p))\<rparr>
             else st)
     | _ \<Rightarrow> st)"

definition fb_outputconnections_unlink :: "objptr option \<Rightarrow> objptr option \<Rightarrow> 'w fb_objects \<Rightarrow> 'w fb_objects" where
  "fb_outputconnections_unlink pparent pchild st =
    (case (pparent, pchild) of
       (Some p, Some c) \<Rightarrow>
         (let st = set_conn c (no_elements ((conn st c)\<lparr>v_on := False\<rparr>)) st
          in if source_of st c = Some p
             then st\<lparr>source_of := (source_of st)(c := None), outputs := (outputs st)(p := removeAll c (outputs st p))\<rparr>
             else st)
     | _ \<Rightarrow> st)"

text \<open>\<open>child_ok\<close>, \<open>parent_ok\<close>: the objects are of the classes of the association.\<close>

definition connections_getaccess :: "bool \<Rightarrow> bool \<Rightarrow> (objptr \<Rightarrow> objptr option) \<Rightarrow> (objptr \<Rightarrow> objptr list) \<Rightarrow>
    objptr option \<Rightarrow> objptr option \<Rightarrow> OV_UINT" where
  "connections_getaccess child_ok parent_ok parent_of linked pparent pchild =
    (if pchild \<noteq> None \<and> \<not> child_ok then OV_AC_READ
     else if pparent \<noteq> None \<and> \<not> parent_ok then OV_AC_READ
     else if (case pchild of None \<Rightarrow> False | Some c \<Rightarrow> parent_of c \<noteq> None) then OV_AC_READ OR OV_AC_UNLINKABLE
     else case pparent of
         Some p \<Rightarrow> (if linked p \<noteq> [] then OV_AC_READ OR OV_AC_LINKABLE OR OV_AC_UNLINKABLE
                    else OV_AC_READ OR OV_AC_LINKABLE)
       | None \<Rightarrow> OV_AC_READ OR OV_AC_LINKABLE)"

definition fb_inputconnections_getaccess where
  "fb_inputconnections_getaccess child_ok parent_ok st = connections_getaccess child_ok parent_ok (target_of st) (inputs st)"

definition fb_outputconnections_getaccess where
  "fb_outputconnections_getaccess child_ok parent_ok st = connections_getaccess child_ok parent_ok (source_of st) (outputs st)"

section \<open>Triggering\<close>

definition transfer :: "('w, 'v) block_env \<Rightarrow> objptr \<Rightarrow> objptr \<Rightarrow> objptr \<Rightarrow> 'w fb_objects \<Rightarrow> 'w fb_objects" where
  "transfer env c source target st =
    (case m_getvar env source (v_sourceelem (conn st c)) st of
       (r, v, st) \<Rightarrow> if Ov_Fail r then st else snd (m_setvar env target (v_targetelem (conn st c)) v st))"

definition fb_connection_trigger :: "('w, 'v) block_env \<Rightarrow> objptr \<Rightarrow> 'w fb_objects \<Rightarrow> 'w fb_objects option" where
  "fb_connection_trigger env c st =
    (if \<not> v_on (conn st c) then Some st
     else case (source_of st c, target_of st c) of
         (Some s, Some t) \<Rightarrow>
           (case (if elemtype (v_sourceelem (conn st c)) = OV_ET_NONE \<or> elemtype (v_targetelem (conn st c)) = OV_ET_NONE
                  then fb_connection_getelements env c st else Some (True, st)) of
              None \<Rightarrow> None
            | Some (False, st) \<Rightarrow>
                Some (error_state env t (error_state env s (set_conn c ((conn st c)\<lparr>v_on := False\<rparr>) st)))
            | Some (True, st) \<Rightarrow>
                if \<not> has_table env s then Some (switch_off env s st)
                else if \<not> has_table env t then Some (switch_off env t st)
                else Some (transfer env c s t st))
       | _ \<Rightarrow> Some st)"

text \<open>The loops over the connections of an object: those of mode \<open>send\<close> from its outputs, or those of
  mode \<open>get\<close> from its inputs. The successor is read when a connection is done.\<close>

definition trigger_connection :: "('w, 'v) block_env \<Rightarrow> objptr \<Rightarrow> 'w fb_objects \<Rightarrow> 'w fb_objects option" where
  "trigger_connection env c st =
    (if has_table env c then fb_connection_trigger env c st
     else Some (set_conn c ((conn st c)\<lparr>v_on := False\<rparr>) st))"

definition next_connection :: "bool \<Rightarrow> 'w fb_objects \<Rightarrow> objptr \<Rightarrow> objptr option" where
  "next_connection send st c =
    (if send then (case source_of st c of None \<Rightarrow> None | Some p \<Rightarrow> next_in (outputs st p) c)
     else (case target_of st c of None \<Rightarrow> None | Some p \<Rightarrow> next_in (inputs st p) c))"

fun trigger_loop :: "nat \<Rightarrow> ('w, 'v) block_env \<Rightarrow> bool \<Rightarrow> objptr option \<Rightarrow> 'w fb_objects \<Rightarrow> 'w fb_objects option" where
  "trigger_loop fuel env send None st = Some st"
| "trigger_loop 0 env send (Some c) st = None"
| "trigger_loop (Suc fuel) env send (Some c) st =
    (case (if v_sourcetrig (conn st c) = send then trigger_connection env c st else Some st) of
       None \<Rightarrow> None
     | Some st \<Rightarrow> trigger_loop fuel env send (next_connection send st c) st)"

fun fb_object_triggerInpGetConnections :: "nat \<Rightarrow> ('w, 'v) block_env \<Rightarrow> objptr \<Rightarrow> 'w fb_objects \<Rightarrow> 'w fb_objects option"
  and fb_object_triggerOutSendConnections :: "nat \<Rightarrow> ('w, 'v) block_env \<Rightarrow> objptr \<Rightarrow> 'w fb_objects \<Rightarrow> 'w fb_objects option"
  and trigger_ports :: "nat \<Rightarrow> ('w, 'v) block_env \<Rightarrow> char \<Rightarrow> objptr list \<Rightarrow> 'w fb_objects \<Rightarrow> 'w fb_objects option" where
  "fb_object_triggerInpGetConnections fuel env p st =
    (case trigger_loop fuel env False (first_of (inputs st p)) st of
       None \<Rightarrow> None
     | Some st \<Rightarrow> trigger_ports fuel env CHR ''i'' (chart_ports env p) st)"
| "fb_object_triggerOutSendConnections fuel env p st =
    (case trigger_loop fuel env True (first_of (outputs st p)) st of
       None \<Rightarrow> None
     | Some st \<Rightarrow> trigger_ports fuel env CHR ''o'' (chart_ports env p) st)"
| "trigger_ports fuel env flag [] st = Some st"
| "trigger_ports 0 env flag (q # qs) st = None"
| "trigger_ports (Suc fuel) env flag (q # qs) st =
    (if IsFlagSet (port_flags st q) flag then
       (case fb_object_triggerInpGetConnections fuel env q st of
          None \<Rightarrow> None
        | Some st \<Rightarrow>
            (case fb_object_triggerOutSendConnections fuel env q st of
               None \<Rightarrow> None
             | Some st \<Rightarrow> trigger_ports fuel env flag qs st))
     else trigger_ports fuel env flag qs st)"

section \<open>Creation and lookup\<close>

text \<open>What the creation of a connection does with the new object: \<open>lookup\<close> resolves a path, \<open>mems\<close>
  are the allocations of the two port names.\<close>

definition set_ports :: "OV_UINT \<Rightarrow> bool \<times> bool \<Rightarrow> OV_STRING \<Rightarrow> OV_STRING \<Rightarrow> connection \<Rightarrow> connection" where
  "set_ports maxlen mems sp tp k =
    (let new = (\<lambda>mem old value. case snd (ov_string_setvalue maxlen mem False (Some old) value) of None \<Rightarrow> None | Some x \<Rightarrow> x)
     in k\<lparr>v_sourceport := new (fst mems) (v_sourceport k) sp, v_targetport := new (snd mems) (v_targetport k) tp\<rparr>)"

definition fb_concreate_init_fnc :: "('w, 'v) block_env \<Rightarrow> (OV_STRING \<Rightarrow> objptr option) \<Rightarrow> OV_UINT \<Rightarrow> bool \<times> bool \<Rightarrow>
    OV_STRING \<times> OV_STRING \<times> OV_STRING \<times> OV_STRING \<Rightarrow> objptr \<Rightarrow> 'w fb_objects \<Rightarrow> (OV_RESULT \<times> 'w fb_objects) option" where
  "fb_concreate_init_fnc env lookup maxlen mems = (\<lambda>(sourceFB, sourcePort, targetFB, targetPort) c st.
    (case (lookup sourceFB, lookup targetFB) of
       (Some s, Some t) \<Rightarrow>
         (case fb_outputconnections_link (Some s) (Some c) st of (result, st) \<Rightarrow>
            if result \<noteq> OV_ERR_OK then Some (result, st)
            else case fb_inputconnections_link (Some t) (Some c) st of (result, st) \<Rightarrow>
              if result \<noteq> OV_ERR_OK then Some (result, fb_outputconnections_unlink (Some s) (Some c) st)
              else
                let st = set_conn c (set_ports maxlen mems sourcePort targetPort (conn st c)) st
                in case fb_connection_getelements env c st of
                     None \<Rightarrow> None
                   | Some (True, st) \<Rightarrow> Some (OV_ERR_OK, st)
                   | Some (False, st) \<Rightarrow>
                       let st = set_conn c (set_ports 0 (True, True) None None (conn st c)) st
                       in Some (OV_ERR_BADINITPARAM,
                            fb_outputconnections_unlink (Some s) (Some c) (fb_inputconnections_unlink (Some t) (Some c) st)))
     | _ \<Rightarrow> Some (OV_ERR_BADPATH, st)))"

text \<open>The name made for a connection without one: the digits to the base 26 of the time.\<close>

function letters :: "nat \<Rightarrow> string" where
  "letters n = (if n = 0 then [] else char_of (n mod 26 + 97) # letters (n div 26))"
  by pat_completeness auto
termination by (relation "measure id") auto

declare letters.simps [simp del]

definition connection_ident :: "OV_TIME \<Rightarrow> string" where
  "connection_ident t0 = ''v_a_'' @ letters (unat (secs t0)) @ letters (unat (usecs t0))"

definition connection_matches :: "bool \<Rightarrow> OV_STRING \<Rightarrow> OV_STRING \<Rightarrow> bool \<Rightarrow> bool" where
  "connection_matches skipInactiveCons port name on \<longleftrightarrow> ov_string_compare port name = OV_STRCMP_EQUAL \<and> (on \<or> \<not> skipInactiveCons)"

text \<open>\<open>mem\<close>: the copy of the name succeeds.\<close>

definition fb_connection_getFirstConnectedObject :: "OV_UINT \<Rightarrow> bool \<Rightarrow> (objptr \<Rightarrow> bool) \<Rightarrow> objptr option \<Rightarrow> bool \<Rightarrow> bool \<Rightarrow>
    OV_STRING \<Rightarrow> 'w fb_objects \<Rightarrow> objptr option" where
  "fb_connection_getFirstConnectedObject maxlen mem is_port this getTarget skipInactiveCons variableName st =
    (case this of
       None \<Rightarrow> None
     | Some p \<Rightarrow>
         if \<not> is_port p \<and> variableName = None then None
         else
           let name = (case snd (ov_string_setvalue maxlen mem False (Some None)
                   (if is_port p then Some ''value'' else variableName)) of None \<Rightarrow> None | Some x \<Rightarrow> x)
           in if getTarget then
                (case find (\<lambda>c. connection_matches skipInactiveCons (v_sourceport (conn st c)) name (v_on (conn st c))) (outputs st p) of
                   None \<Rightarrow> None | Some c \<Rightarrow> target_of st c)
              else
                (case find (\<lambda>c. connection_matches skipInactiveCons (v_targetport (conn st c)) name (v_on (conn st c))) (inputs st p) of
                   None \<Rightarrow> None | Some c \<Rightarrow> source_of st c))"

section \<open>The invariant\<close>

text \<open>An element that a connection keeps is the variable its port names in the object it is linked to.\<close>

definition port_element :: "('w, 'v) block_env \<Rightarrow> objptr \<Rightarrow> OV_STRING \<Rightarrow> OV_ELEMENT \<Rightarrow> bool" where
  "port_element env p port e \<longleftrightarrow> elemtype e = OV_ET_VARIABLE \<and> (\<exists>e0. find_port env p port e0 = Some e)"

definition elements_current :: "('w, 'v) block_env \<Rightarrow> 'w fb_objects \<Rightarrow> objptr \<Rightarrow> bool" where
  "elements_current env st c \<longleftrightarrow>
     (\<exists>s t. source_of st c = Some s \<and> target_of st c = Some t \<and>
        port_element env s (v_sourceport (conn st c)) (v_sourceelem (conn st c)) \<and>
        port_element env t (v_targetport (conn st c)) (v_targetelem (conn st c)))"

definition no_element :: "connection \<Rightarrow> bool" where
  "no_element k \<longleftrightarrow> elemtype (v_sourceelem k) = OV_ET_NONE \<or> elemtype (v_targetelem k) = OV_ET_NONE"

definition links_ok :: "(objptr \<Rightarrow> objptr option) \<Rightarrow> (objptr \<Rightarrow> objptr list) \<Rightarrow> bool" where
  "links_ok parent_of linked \<longleftrightarrow> (\<forall>c p. parent_of c = Some p \<longleftrightarrow> c \<in> set (linked p)) \<and> (\<forall>p. distinct (linked p))"

definition conn_inv :: "('w, 'v) block_env \<Rightarrow> 'w fb_objects \<Rightarrow> bool" where
  "conn_inv env st \<longleftrightarrow> links_ok (source_of st) (outputs st) \<and> links_ok (target_of st) (inputs st) \<and>
     (\<forall>c. no_element (conn st c) \<or> elements_current env st c)"

text \<open>What the search for the elements of a connection leaves as it was.\<close>

definition frame :: "objptr \<Rightarrow> 'w fb_objects \<Rightarrow> 'w fb_objects \<Rightarrow> bool" where
  "frame c st st' \<longleftrightarrow> source_of st' = source_of st \<and> target_of st' = target_of st \<and>
     outputs st' = outputs st \<and> inputs st' = inputs st \<and> store st' = store st \<and>
     (\<forall>d. d \<noteq> c \<longrightarrow> conn st' d = conn st d) \<and>
     v_sourceport (conn st' c) = v_sourceport (conn st c) \<and> v_targetport (conn st' c) = v_targetport (conn st c) \<and>
     v_sourcetrig (conn st' c) = v_sourcetrig (conn st c)"

lemma frame_refl [simp]: "frame c st st"
  by (simp add: frame_def)

lemma frame_trans: "frame c st st' \<Longrightarrow> frame c st' st'' \<Longrightarrow> frame c st st''"
  by (simp add: frame_def)

lemma frame_switch_off [simp]: "frame c st (switch_off env p st')  \<longleftrightarrow> frame c st st'"
  by (simp add: switch_off_def frame_def)

lemma frame_error_state [simp]: "frame c st (error_state env p st')  \<longleftrightarrow> frame c st st'"
  by (simp add: error_state_def frame_def)

lemma conn_switch_off [simp]: "conn (switch_off env p st) = conn st" "conn (error_state env p st) = conn st"
  by (simp_all add: switch_off_def error_state_def)

lemma no_elements_simps [simp]:
  "v_sourceport (no_elements k) = v_sourceport k" "v_targetport (no_elements k) = v_targetport k"
  "v_sourcetrig (no_elements k) = v_sourcetrig k" "v_on (no_elements k) = v_on k" "no_element (no_elements k)"
  by (simp_all add: no_elements_def no_element_def)

lemma check_source_result:
  assumes "check_source env c st = Some (b, st')"
  shows "frame c st st' \<and> v_targetelem (conn st' c) = v_targetelem (conn st c) \<and> v_on (conn st' c) = v_on (conn st c) \<and>
    (b \<longrightarrow> (\<exists>s. source_of st c = Some s \<and> has_table env s \<and> port_element env s (v_sourceport (conn st c)) (v_sourceelem (conn st' c))))"
  using assms
  by (auto simp: check_source_def Let_def frame_def port_element_def switch_off_def split: if_splits option.splits)

lemma check_target_result:
  assumes "check_target env c st = Some (b, st')"
  shows "frame c st st' \<and> v_sourceelem (conn st' c) = v_sourceelem (conn st c) \<and> v_on (conn st' c) = v_on (conn st c) \<and>
    (b \<longrightarrow> (\<exists>t. target_of st c = Some t \<and> has_table env t \<and> port_element env t (v_targetport (conn st c)) (v_targetelem (conn st' c))))"
  using assms
  by (auto simp: check_target_def Let_def frame_def port_element_def switch_off_def split: if_splits option.splits)

text \<open>The search either finds both elements or leaves none.\<close>

lemma getelements_result:
  assumes "fb_connection_getelements env c st = Some (b, st')"
  shows "frame c st st' \<and> (if b then elements_current env st' c else no_element (conn st' c))"
proof (cases "has_table env c")
  case False
  then show ?thesis using assms by (auto simp: fb_connection_getelements_def frame_def)
next
  case True
  then obtain st1 where 1: "fb_connection_checkelements env c st = Some (b, st1)"
    "st' = (if b then st1 else set_conn c (no_elements (conn st1 c)) st1)"
    using assms by (auto simp: fb_connection_getelements_def)
  then obtain b2 st2 where 2: "check_source env c st = Some (b2, st2)"
    by (auto simp: fb_connection_checkelements_def split: option.splits)
  note r2 = check_source_result [OF 2]
  show ?thesis
  proof (cases b2)
    case False
    then have "b = False" "st1 = st2" using 1(1) 2 by (auto simp: fb_connection_checkelements_def)
    then show ?thesis using 1(2) r2 by (auto simp: frame_def)
  next
    case True
    then have t: "check_target env c st2 = Some (b, st1)" using 1(1) 2 by (simp add: fb_connection_checkelements_def)
    note r1 = check_target_result [OF t]
    have f: "frame c st st1" using r1 r2 frame_trans by blast
    show ?thesis
    proof (cases b)
      case True
      then show ?thesis
        using 1(2) f r1 r2 \<open>b2\<close> by (auto simp: elements_current_def frame_def)
    next
      case False
      then show ?thesis using 1(2) f by (auto simp: frame_def)
    qed
  qed
qed

lemma elements_current_frame:
  "frame c st st' \<Longrightarrow> d \<noteq> c \<Longrightarrow> elements_current env st' d \<longleftrightarrow> elements_current env st d"
  by (simp add: elements_current_def frame_def)

lemma conn_inv_frame:
  assumes "conn_inv env st" "frame c st st'" "no_element (conn st' c) \<or> elements_current env st' c"
  shows "conn_inv env st'"
  unfolding conn_inv_def
proof (intro conjI allI)
  show "links_ok (source_of st') (outputs st')" "links_ok (target_of st') (inputs st')"
    using assms(1,2) by (simp_all add: conn_inv_def frame_def)
  fix d
  show "no_element (conn st' d) \<or> elements_current env st' d"
    using assms elements_current_frame [OF assms(2), of d env]
    by (cases "d = c") (auto simp: conn_inv_def frame_def)
qed

lemma getelements_inv:
  assumes "conn_inv env st" "fb_connection_getelements env c st = Some (b, st')"
  shows "conn_inv env st'"
  using getelements_result [OF assms(2)] by (intro conn_inv_frame [OF assms(1), of c]) (auto split: if_splits)

lemma conn_inv_off:
  assumes "conn_inv env st"
  shows "conn_inv env (switch_off env' p st)" "conn_inv env (error_state env' p st)"
  using assms by (auto simp: conn_inv_def elements_current_def switch_off_def error_state_def)

text \<open>An update of a connection that keeps its ports and elements, or leaves it without elements.\<close>

lemma conn_inv_set:
  assumes "conn_inv env st"
    "no_element k \<or> v_sourceport k = v_sourceport (conn st c) \<and> v_targetport k = v_targetport (conn st c) \<and>
      v_sourceelem k = v_sourceelem (conn st c) \<and> v_targetelem k = v_targetelem (conn st c)"
  shows "conn_inv env (set_conn c k st)"
proof -
  have "no_element (conn (set_conn c k st) d) \<or> elements_current env (set_conn c k st) d" for d
    using assms by (cases "d = c") (auto simp: conn_inv_def elements_current_def no_element_def)
  then show ?thesis using assms(1) by (simp add: conn_inv_def)
qed

text \<open>What the methods of the linked objects must keep.\<close>

definition methods_keep :: "('w, 'v) block_env \<Rightarrow> bool" where
  "methods_keep env \<longleftrightarrow>
     (\<forall>p e st. conn_inv env st \<longrightarrow> conn_inv env (snd (snd (m_getvar env p e st)))) \<and>
     (\<forall>p e v st. conn_inv env st \<longrightarrow> conn_inv env (snd (m_setvar env p e v st)))"

lemma transfer_inv:
  assumes "methods_keep env" "conn_inv env st"
  shows "conn_inv env (transfer env c s t st)"
proof -
  obtain r v st1 where g: "m_getvar env s (v_sourceelem (conn st c)) st = (r, v, st1)" by (metis prod_cases3)
  then have "conn_inv env st1" using assms by (metis methods_keep_def snd_conv)
  then show ?thesis using assms(1) g by (auto simp: transfer_def methods_keep_def)
qed

lemma trigger_inv:
  assumes "methods_keep env" "conn_inv env st" "fb_connection_trigger env c st = Some st'"
  shows "conn_inv env st'"
proof (cases "v_on (conn st c) \<and> source_of st c \<noteq> None \<and> target_of st c \<noteq> None")
  case False
  then show ?thesis using assms(2,3) by (auto simp: fb_connection_trigger_def split: option.splits if_splits)
next
  case True
  then obtain s t where st: "v_on (conn st c)" "source_of st c = Some s" "target_of st c = Some t" by auto
  obtain b st1 where 1: "(if elemtype (v_sourceelem (conn st c)) = OV_ET_NONE \<or> elemtype (v_targetelem (conn st c)) = OV_ET_NONE
      then fb_connection_getelements env c st else Some (True, st)) = Some (b, st1)"
    using assms(3) st by (auto simp: fb_connection_trigger_def split: option.splits)
  have i: "conn_inv env st1" using 1 assms(2) getelements_inv by (auto split: if_splits)
  show ?thesis
  proof (cases b)
    case False
    then have "st' = error_state env t (error_state env s (set_conn c ((conn st1 c)\<lparr>v_on := False\<rparr>) st1))"
      using assms(3) st 1 by (simp add: fb_connection_trigger_def)
    moreover have "conn_inv env (set_conn c ((conn st1 c)\<lparr>v_on := False\<rparr>) st1)"
      using i by (rule conn_inv_set) simp
    ultimately show ?thesis by (simp add: conn_inv_off)
  next
    case True
    then show ?thesis
      using assms(3) st 1 i conn_inv_off [OF i, of env] transfer_inv [OF assms(1) i]
      by (auto simp: fb_connection_trigger_def split: if_splits)
  qed
qed

section \<open>Links keep the invariant\<close>

lemma links_ok_link:
  assumes "links_ok P L" "P c = None"
  shows "links_ok (P(c := Some p)) (L(p := L p @ [c]))"
proof -
  have "c \<notin> set (L q)" for q using assms by (metis links_ok_def option.distinct(1))
  then show ?thesis using assms by (auto simp: links_ok_def)
qed

lemma links_ok_unlink:
  assumes "links_ok P L" "P c = Some p"
  shows "links_ok (P(c := None)) (L(p := removeAll c (L p)))"
  using assms by (auto simp: links_ok_def distinct_removeAll) (metis option.inject)+

text \<open>A new link or a cut touches only the elements of its connection, which has none then.\<close>

lemma conn_inv_relink:
  assumes "conn_inv env st" "no_element (conn st' c)" "\<forall>d. d \<noteq> c \<longrightarrow> conn st' d = conn st d"
    "\<forall>d. d \<noteq> c \<longrightarrow> source_of st' d = source_of st d \<and> target_of st' d = target_of st d"
    "links_ok (source_of st') (outputs st')" "links_ok (target_of st') (inputs st')"
  shows "conn_inv env st'"
  unfolding conn_inv_def
proof (intro conjI allI)
  fix d
  show "no_element (conn st' d) \<or> elements_current env st' d"
    using assms(1-4) by (cases "d = c") (auto simp: conn_inv_def elements_current_def)
qed (use assms in simp_all)

lemma links_ok_of: "conn_inv env st \<Longrightarrow> links_ok (source_of st) (outputs st) \<and> links_ok (target_of st) (inputs st)"
  by (simp add: conn_inv_def)

lemma link_inv:
  assumes "conn_inv env st"
  shows "conn_inv env (snd (fb_inputconnections_link p c st))" "conn_inv env (snd (fb_outputconnections_link p c st))"
proof -
  have s: "conn_inv env (set_conn d (no_elements (conn st d)) st)" for d
    using assms by (rule conn_inv_set) simp
  show "conn_inv env (snd (fb_inputconnections_link p c st))"
  proof (cases p; cases c)
    fix q d assume "p = Some q" "c = Some d"
    then show ?thesis
      using s links_ok_of [OF assms] links_ok_link [of "target_of st" "inputs st" d q]
      by (auto simp: fb_inputconnections_link_def Let_def intro!: conn_inv_relink [OF assms, of _ d])
  qed (use assms in \<open>simp_all add: fb_inputconnections_link_def\<close>)
  show "conn_inv env (snd (fb_outputconnections_link p c st))"
  proof (cases p; cases c)
    fix q d assume "p = Some q" "c = Some d"
    then show ?thesis
      using s links_ok_of [OF assms] links_ok_link [of "source_of st" "outputs st" d q]
      by (auto simp: fb_outputconnections_link_def Let_def intro!: conn_inv_relink [OF assms, of _ d])
  qed (use assms in \<open>simp_all add: fb_outputconnections_link_def\<close>)
qed

lemma unlink_inv:
  assumes "conn_inv env st"
  shows "conn_inv env (fb_inputconnections_unlink p c st)" "conn_inv env (fb_outputconnections_unlink p c st)"
proof -
  have s: "conn_inv env (set_conn d (no_elements ((conn st d)\<lparr>v_on := False\<rparr>)) st)" for d
    using assms by (rule conn_inv_set) simp
  show "conn_inv env (fb_inputconnections_unlink p c st)"
  proof (cases p; cases c)
    fix q d assume "p = Some q" "c = Some d"
    then show ?thesis
      using s links_ok_of [OF assms] links_ok_unlink [of "target_of st" "inputs st" d q]
      by (auto simp: fb_inputconnections_unlink_def Let_def intro!: conn_inv_relink [OF assms, of _ d])
  qed (use assms in \<open>simp_all add: fb_inputconnections_unlink_def\<close>)
  show "conn_inv env (fb_outputconnections_unlink p c st)"
  proof (cases p; cases c)
    fix q d assume "p = Some q" "c = Some d"
    then show ?thesis
      using s links_ok_of [OF assms] links_ok_unlink [of "source_of st" "outputs st" d q]
      by (auto simp: fb_outputconnections_unlink_def Let_def intro!: conn_inv_relink [OF assms, of _ d])
  qed (use assms in \<open>simp_all add: fb_outputconnections_unlink_def\<close>)
qed

lemma link_result:
  "fb_inputconnections_link (Some p) (Some c) st = (r, st') \<Longrightarrow> no_element (conn st' c)"
  "fb_outputconnections_link (Some p) (Some c) st = (r, st') \<Longrightarrow> no_element (conn st' c)"
  by (auto simp: fb_inputconnections_link_def fb_outputconnections_link_def Let_def split: if_splits)

lemma no_element_set_ports [simp]: "no_element (set_ports maxlen mems sp tp k) \<longleftrightarrow> no_element k"
  by (simp add: set_ports_def no_element_def Let_def)

lemma init_inv:
  assumes "conn_inv env st" "fb_concreate_init_fnc env lookup maxlen mems names c st = Some (r, st')"
  shows "conn_inv env st'"
proof -
  obtain sf sp tf tp where n: "names = (sf, sp, tf, tp)" by (metis prod_cases4)
  show ?thesis
  proof (cases "lookup sf = None \<or> lookup tf = None")
    case True
    then show ?thesis using assms n by (auto simp: fb_concreate_init_fnc_def split: option.splits)
  next
    case False
    then obtain s t where l: "lookup sf = Some s" "lookup tf = Some t" by auto
    obtain r1 st1 where 1: "fb_outputconnections_link (Some s) (Some c) st = (r1, st1)" by fastforce
    have i1: "conn_inv env st1" using link_inv(2) [OF assms(1), of "Some s" "Some c"] 1 by simp
    obtain r2 st2 where 2: "fb_inputconnections_link (Some t) (Some c) st1 = (r2, st2)" by fastforce
    have i2: "conn_inv env st2" using link_inv(1) [OF i1, of "Some t" "Some c"] 2 by simp
    let ?st3 = "set_conn c (set_ports maxlen mems sp tp (conn st2 c)) st2"
    have i3: "conn_inv env ?st3" using i2 link_result(1) [OF 2] by (intro conn_inv_set) simp_all
    show ?thesis
    proof (cases "r1 = OV_ERR_OK \<and> r2 = OV_ERR_OK")
      case False
      then show ?thesis
        using assms(2) n l 1 2 i1 unlink_inv(2) [OF i2] by (auto simp: fb_concreate_init_fnc_def split: if_splits)
    next
      case True
      then obtain b st4 where 4: "fb_connection_getelements env c ?st3 = Some (b, st4)"
        using assms(2) n l 1 2 by (auto simp: fb_concreate_init_fnc_def Let_def split: option.splits)
      have i4: "conn_inv env st4" using getelements_inv [OF i3 4] .
      show ?thesis
      proof (cases b)
        case b: True
        then show ?thesis using True assms(2) n l 1 2 4 i4 by (simp add: fb_concreate_init_fnc_def Let_def)
      next
        case False
        then have "no_element (conn st4 c)" using getelements_result [OF 4] by simp
        then have "conn_inv env (set_conn c (set_ports 0 (True, True) None None (conn st4 c)) st4)"
          using i4 by (intro conn_inv_set) simp_all
        then show ?thesis
          using False True assms(2) n l 1 2 4 by (auto simp: fb_concreate_init_fnc_def Let_def intro!: unlink_inv)
      qed
    qed
  qed
qed

section \<open>The steps of the connections\<close>

text \<open>What happens to the connections of a database: their creation, the setting of their variables, the
  links, start-up, and triggers, in any order.\<close>

inductive conn_step :: "('w, 'v) block_env \<Rightarrow> 'w fb_objects \<Rightarrow> 'w fb_objects \<Rightarrow> bool" for env where
  step_construct: "fb_connection_constructor base c st = (r, st') \<Longrightarrow> conn_step env st st'"
| step_init: "fb_concreate_init_fnc env lookup maxlen mems names c st = Some (r, st') \<Longrightarrow> conn_step env st st'"
| step_destruct: "conn_step env st (fb_connection_destructor st)"
| step_on: "fb_connection_on_set on (conn st c) = (r, k) \<Longrightarrow> conn_step env st (set_conn c k st)"
| step_sourceport: "fb_connection_sourceport_set maxlen mem v (conn st c) = (r, k) \<Longrightarrow> conn_step env st (set_conn c k st)"
| step_targetport: "fb_connection_targetport_set maxlen mem v (conn st c) = (r, k) \<Longrightarrow> conn_step env st (set_conn c k st)"
| step_checkinit: "conn_step env st (set_conn c (fb_connection_checkinit (conn st c)) st)"
| step_startup: "conn_step env st (set_conn c (fb_connection_startup (conn st c)) st)"
| step_link_input: "fb_inputconnections_link p c st = (r, st') \<Longrightarrow> conn_step env st st'"
| step_link_output: "fb_outputconnections_link p c st = (r, st') \<Longrightarrow> conn_step env st st'"
| step_unlink_input: "conn_step env st (fb_inputconnections_unlink p c st)"
| step_unlink_output: "conn_step env st (fb_outputconnections_unlink p c st)"
| step_trigger: "fb_connection_trigger env c st = Some st' \<Longrightarrow> conn_step env st st'"

inductive conn_run :: "('w, 'v) block_env \<Rightarrow> 'w fb_objects \<Rightarrow> 'w fb_objects \<Rightarrow> bool" for env where
  run_start: "conn_run env st st"
| run_step: "conn_run env st st' \<Longrightarrow> conn_step env st' st'' \<Longrightarrow> conn_run env st st''"

lemma conn_step_inv:
  assumes "methods_keep env"
  shows "conn_step env st st' \<Longrightarrow> conn_inv env st \<Longrightarrow> conn_inv env st'"
proof (induction rule: conn_step.induct)
  case (step_construct base c st r st')
  have "conn_inv env (set_conn c (no_elements (conn st c)) st)"
    using step_construct.prems by (rule conn_inv_set) simp
  then show ?case
    using step_construct by (auto simp: fb_connection_constructor_def conn_inv_def elements_current_def split: if_splits)
next
  case (step_init lookup maxlen mems names c st r st')
  then show ?case using init_inv by blast
next
  case (step_destruct st)
  then show ?case by (simp add: fb_connection_destructor_def conn_inv_def elements_current_def)
next
  case (step_on on st c r k)
  then show ?case by (intro conn_inv_set) (auto simp: fb_connection_on_set_def)
next
  case (step_sourceport maxlen mem v st c r k)
  then show ?case
    by (intro conn_inv_set) (auto simp: fb_connection_sourceport_set_def no_element_def no_elements_def split: if_splits prod.splits)
next
  case (step_targetport maxlen mem v st c r k)
  then show ?case
    by (intro conn_inv_set) (auto simp: fb_connection_targetport_set_def no_element_def no_elements_def split: if_splits prod.splits)
next
  case (step_checkinit st c)
  then show ?case by (intro conn_inv_set) (simp_all add: fb_connection_checkinit_def)
next
  case (step_startup st c)
  then show ?case by (intro conn_inv_set) (simp_all add: fb_connection_startup_def)
next
  case (step_link_input p c st r st')
  then show ?case using link_inv(1) [of env st p c] by simp
next
  case (step_link_output p c st r st')
  then show ?case using link_inv(2) [of env st p c] by simp
next
  case (step_unlink_input st p c)
  then show ?case by (rule unlink_inv)
next
  case (step_unlink_output st p c)
  then show ?case by (rule unlink_inv)
next
  case (step_trigger c st st')
  then show ?case using trigger_inv [OF assms] by blast
qed

text \<open>A database without connections.\<close>

lemma conn_inv_empty:
  "(\<And>c. source_of st c = None \<and> target_of st c = None \<and> no_element (conn st c)) \<Longrightarrow>
    (\<And>p. outputs st p = [] \<and> inputs st p = []) \<Longrightarrow> conn_inv env st"
  by (simp add: conn_inv_def links_ok_def)

lemma conn_run_inv:
  assumes "methods_keep env"
  shows "conn_run env st st' \<Longrightarrow> conn_inv env st \<Longrightarrow> conn_inv env st'"
  by (induction rule: conn_run.induct) (use conn_step_inv [OF assms] in blast)+

section \<open>Triggering in order\<close>

text \<open>The methods of the linked objects leave the links alone.\<close>

definition same_links :: "'w fb_objects \<Rightarrow> 'w fb_objects \<Rightarrow> bool" where
  "same_links st st' \<longleftrightarrow> source_of st' = source_of st \<and> target_of st' = target_of st \<and>
     outputs st' = outputs st \<and> inputs st' = inputs st"

definition methods_keep_links :: "('w, 'v) block_env \<Rightarrow> bool" where
  "methods_keep_links env \<longleftrightarrow>
     (\<forall>p e st. same_links st (snd (snd (m_getvar env p e st)))) \<and> (\<forall>p e v st. same_links st (snd (m_setvar env p e v st)))"

lemma same_links_refl [simp]: "same_links st st"
  by (simp add: same_links_def)

lemma same_links_trans: "same_links st st' \<Longrightarrow> same_links st' st'' \<Longrightarrow> same_links st st''"
  by (simp add: same_links_def)

lemma frame_same_links: "frame c st st' \<Longrightarrow> same_links st st'"
  by (simp add: frame_def same_links_def)

lemma transfer_same_links:
  assumes "methods_keep_links env"
  shows "same_links st (transfer env c s t st)"
proof -
  obtain r v st1 where g: "m_getvar env s (v_sourceelem (conn st c)) st = (r, v, st1)" by (metis prod_cases3)
  then have "same_links st st1" using assms by (metis methods_keep_links_def snd_conv)
  then show ?thesis
    using assms g same_links_trans [of st st1] by (auto simp: transfer_def methods_keep_links_def)
qed

lemma trigger_same_links:
  assumes "methods_keep_links env" "fb_connection_trigger env c st = Some st'"
  shows "same_links st st'"
proof (cases "v_on (conn st c) \<and> source_of st c \<noteq> None \<and> target_of st c \<noteq> None")
  case False
  then show ?thesis using assms(2) by (auto simp: fb_connection_trigger_def split: option.splits if_splits)
next
  case True
  then obtain s t where st: "v_on (conn st c)" "source_of st c = Some s" "target_of st c = Some t" by auto
  obtain b st1 where 1: "(if elemtype (v_sourceelem (conn st c)) = OV_ET_NONE \<or> elemtype (v_targetelem (conn st c)) = OV_ET_NONE
      then fb_connection_getelements env c st else Some (True, st)) = Some (b, st1)"
    using assms(2) st by (auto simp: fb_connection_trigger_def split: option.splits)
  have f: "same_links st st1"
    using 1 getelements_result [of env c st b st1] frame_same_links by (auto split: if_splits)
  have "same_links st1 st'"
    using assms(2) st 1 transfer_same_links [OF assms(1), of st1 c s t]
    by (cases b) (auto simp: fb_connection_trigger_def same_links_def error_state_def switch_off_def split: if_splits)
  then show ?thesis using f same_links_trans by blast
qed

text \<open>The connections of a list one after another, each once.\<close>

fun trigger_all :: "('w, 'v) block_env \<Rightarrow> bool \<Rightarrow> objptr list \<Rightarrow> 'w fb_objects \<Rightarrow> 'w fb_objects option" where
  "trigger_all env send [] st = Some st"
| "trigger_all env send (c # cs) st =
    (case (if v_sourcetrig (conn st c) = send then trigger_connection env c st else Some st) of
       None \<Rightarrow> None
     | Some st \<Rightarrow> trigger_all env send cs st)"

lemma next_in_list: "distinct (xs @ x # ys) \<Longrightarrow> next_in (xs @ x # ys) x = first_of ys"
  by (induction xs) (auto simp: first_of_def split: list.splits)

lemma next_connection_in_list:
  assumes "links_ok (source_of st) (outputs st)" "links_ok (target_of st) (inputs st)"
    "(if send then outputs st p else inputs st p) = xs @ c # ys"
  shows "next_connection send st c = first_of ys"
proof (cases send)
  case True
  then have o: "outputs st p = xs @ c # ys" using assms(3) by simp
  then have "c \<in> set (outputs st p)" by simp
  then have "source_of st c = Some p" "distinct (xs @ c # ys)"
    using assms(1) o unfolding links_ok_def by (blast, metis)
  then show ?thesis using True o next_in_list by (simp add: next_connection_def)
next
  case False
  then have o: "inputs st p = xs @ c # ys" using assms(3) by simp
  then have "c \<in> set (inputs st p)" by simp
  then have "target_of st c = Some p" "distinct (xs @ c # ys)"
    using assms(2) o unfolding links_ok_def by (blast, metis)
  then show ?thesis using False o next_in_list by (simp add: next_connection_def)
qed

lemma trigger_connection_same_links:
  "methods_keep_links env \<Longrightarrow> trigger_connection env c st = Some st' \<Longrightarrow> same_links st st'"
  using trigger_same_links [of env c st st']
  by (auto simp: trigger_connection_def same_links_def split: if_splits)

lemma trigger_loop_in_order:
  "methods_keep_links env \<Longrightarrow> links_ok (source_of st) (outputs st) \<Longrightarrow> links_ok (target_of st) (inputs st) \<Longrightarrow>
    (if send then outputs st p else inputs st p) = xs @ cs \<Longrightarrow> length cs \<le> fuel \<Longrightarrow>
    trigger_loop fuel env send (first_of cs) st = trigger_all env send cs st"
proof (induction cs arbitrary: fuel st xs)
  case Nil
  then show ?case by (simp add: first_of_def)
next
  case (Cons c cs)
  obtain f where f: "fuel = Suc f" "length cs \<le> f" using Cons.prems(5) by (cases fuel) auto
  let ?r = "if v_sourcetrig (conn st c) = send then trigger_connection env c st else Some st"
  show ?case
  proof (cases ?r)
    case None
    then show ?thesis using f by (simp add: first_of_def)
  next
    case (Some st1)
    then have s: "same_links st st1"
      using trigger_connection_same_links [OF Cons.prems(1), of c st st1] by (auto split: if_splits)
    then have l: "links_ok (source_of st1) (outputs st1)" "links_ok (target_of st1) (inputs st1)"
      "(if send then outputs st1 p else inputs st1 p) = xs @ c # cs"
      using Cons.prems(2-4) by (auto simp: same_links_def split: if_splits)
    have "trigger_loop f env send (first_of cs) st1 = trigger_all env send cs st1"
      using Cons.IH [OF Cons.prems(1) l(1,2) _ f(2), of "xs @ [c]"] l(3) by simp
    then show ?thesis
      using Some f next_connection_in_list [OF l] by (simp add: first_of_def)
  qed
qed

section \<open>Names\<close>

lemma letters_zero [simp]: "letters 0 = []"
  by (simp add: letters.simps)

lemma letters_pos: "0 < n \<Longrightarrow> letters n = char_of (n mod 26 + 97) # letters (n div 26)"
  by (simp add: letters.simps)

lemma char_of_digit: "(char_of (m mod 26 + 97 :: nat) :: char) = char_of (n mod 26 + 97) \<Longrightarrow> m mod 26 = n mod 26"
proof -
  assume "(char_of (m mod 26 + 97) :: char) = char_of (n mod 26 + 97)"
  then have "(m mod 26 + 97) mod 256 = (n mod 26 + 97) mod 256"
    by (metis of_char_of)
  moreover have "m mod 26 < 26" "n mod 26 < 26" by simp_all
  ultimately show ?thesis by simp
qed

lemma letters_inject: "letters m = letters n \<Longrightarrow> m = n"
proof (induction m arbitrary: n rule: less_induct)
  case (less m)
  show ?case
  proof (cases "m = 0 \<or> n = 0")
    case True
    then show ?thesis using less.prems letters_pos [of m] letters_pos [of n] by (cases "m = 0"; cases "n = 0") auto
  next
    case False
    then have e: "letters (m div 26) = letters (n div 26)" "m mod 26 = n mod 26"
      using less.prems letters_pos [of m] letters_pos [of n] char_of_digit [of m n] by auto
    have "m div 26 = n div 26" using False by (intro less.IH [OF _ e(1)]) simp
    then show ?thesis using e(2) by (metis div_mult_mod_eq)
  qed
qed

lemma length_letters: "n < 26 ^ k \<Longrightarrow> length (letters n) \<le> k"
proof (induction k arbitrary: n)
  case (Suc k)
  then have "n div 26 < 26 ^ k" by (simp add: less_mult_imp_div_less mult.commute)
  with Suc.IH show ?case by (cases "n = 0") (auto simp: letters_pos)
qed simp

lemma length_letters_ge: "26 ^ k \<le> n \<Longrightarrow> Suc k \<le> length (letters n)"
proof (induction k arbitrary: n)
  case 0
  then show ?case by (cases "n = 0") (auto simp: letters_pos)
next
  case (Suc k)
  then have "26 ^ k \<le> n div 26" by (simp add: less_eq_div_iff_mult_less_eq mult.commute)
  with Suc.IH [of "n div 26"] Suc.prems show ?case by (cases "n = 0") (auto simp: letters_pos)
qed

section \<open>Properties\<close>

text \<open>Two objects 100 and 200 of a class 1 with a variable 11; the connection 50 between them. The store
  has the values of the variables of the objects.\<close>

definition demo_ports :: odb where
  "demo_ports = \<lparr>db_root = 0, instantiation_class = (\<lambda>p. if p = 100 \<or> p = 200 then Some 1 else None),
     base_class = (\<lambda>_. None), children = (\<lambda>p. if p = 1 then [11] else []),
     container = (\<lambda>p. if p = 11 then Some 1 else None), v_pouterobject = (\<lambda>_. None),
     ident_of = (\<lambda>p. if p = 11 then ''v'' else []),
     is_domain = (\<lambda>_. False), is_variable = (\<lambda>p. p = 11), is_part = (\<lambda>_. False), is_operation = (\<lambda>_. False),
     is_vendor = (\<lambda>_. False), v_varprops = (\<lambda>_. 0), v_vartype = (\<lambda>_. 0x10), v_offset = (\<lambda>_. 4),
     parentrelationship = (\<lambda>_. []), childrelationship = (\<lambda>_. []), childrolename = (\<lambda>_. []), parentrolename = (\<lambda>_. []),
     construction = (\<lambda>_. None), class_instsize = 0, is_class = (\<lambda>c. c = 1), parentrel_class = (\<lambda>_. None),
     childrel_class = (\<lambda>_. None)\<rparr>"

definition demo_methods :: "(objptr \<Rightarrow> int, int) block_env" where
  "demo_methods = \<lparr>elements = demo_ports, class_depth = 1, var_flags = (\<lambda>_. 0), has_table = (\<lambda>_. True), is_block = (\<lambda>_. True),
     chart_ports = (\<lambda>_. []), m_getaccess = (\<lambda>_ _. OV_AC_READWRITE),
     m_getvar = (\<lambda>p e st. (OV_ERR_OK, store st p, st)),
     m_setvar = (\<lambda>p e v st. (OV_ERR_OK, st\<lparr>store := (store st)(p := v)\<rparr>))\<rparr>"

definition demo_no_element :: OV_ELEMENT where
  "demo_no_element = \<lparr>elemtype = OV_ET_NONE, el_pobj = None, pvalue = None, pvar = None, elemunion = None\<rparr>"

definition demo_connected :: "(objptr \<Rightarrow> int) fb_objects" where
  "demo_connected = \<lparr>tasks = demo_fbs,
     conn = (\<lambda>_. \<lparr>v_on = True, v_sourceport = Some ''v'', v_targetport = Some ''v'', v_sourcetrig = False,
       v_sourceelem = demo_no_element, v_targetelem = demo_no_element\<rparr>),
     source_of = (\<lambda>c. if c = 50 then Some 100 else None), target_of = (\<lambda>c. if c = 50 then Some 200 else None),
     outputs = (\<lambda>p. if p = 100 then [50] else []), inputs = (\<lambda>p. if p = 200 then [50] else []),
     v_iexreq = (\<lambda>_. False), v_eexreq = (\<lambda>_. False), v_methcount = (\<lambda>_. 0),
     v_maxcalctime = (\<lambda>_. \<lparr>span_secs = 0, span_usecs = 0\<rparr>), port_flags = (\<lambda>_. 0), v_connnumber = None,
     store = (\<lambda>p. if p = 100 then 7 else 0)\<rparr>"

lemma demo_methods_keep: "methods_keep demo_methods"
  by (simp add: methods_keep_def demo_methods_def conn_inv_def elements_current_def)

lemma demo_connected_inv: "conn_inv demo_methods demo_connected"
  by (simp add: conn_inv_def links_ok_def no_element_def demo_connected_def demo_no_element_def)

lemma demo_find_port:
  "find_port demo_methods p (Some ''v'') e = (if p = 100 \<or> p = 200
    then Some (e\<lparr>el_pobj := Some p, elemtype := OV_ET_VARIABLE, pvalue := Some (p + 4), elemunion := Some 11\<rparr>)
    else Some (e\<lparr>el_pobj := None, elemtype := OV_ET_NONE\<rparr>))"
  by (simp add: find_port_def demo_methods_def demo_ports_def object_element_def ov_element_searchpart_def
      ov_element_searchpart_object_def search_class_def search_members_def search_child_def variable_value_def
      search_links_def no_part_def elem_types Let_def)

lemma demo_trigger:
  "\<exists>st'. fb_connection_trigger demo_methods 50 demo_connected = Some st' \<and> store st' 200 = 7 \<and>
    elemtype (v_sourceelem (conn st' 50)) = OV_ET_VARIABLE"
  using demo_find_port
  by (simp add: fb_connection_trigger_def fb_connection_getelements_def fb_connection_checkelements_def check_source_def
      check_target_def demo_methods_def demo_connected_def demo_no_element_def elem_types access_bits IsFlagSet_def
      fb_vartype_implemented_def transfer_def Ov_Fail_def demo_ports_def Let_def ov_string_compare_value)



text \<open>A trigger moves a value only along a connection that is on and linked at both ends, from the
  variable its source port names to the one its target port names, with the elements found again
  when there are none; in every other case the store of the variables is left as it is.\<close>

lemma trigger_transfers_between_named_ports:
  assumes "conn_inv env st" "fb_connection_trigger env c st = Some st'"
  shows "(\<exists>s t st1. v_on (conn st c) \<and> source_of st c = Some s \<and> target_of st c = Some t \<and>
      st' = transfer env c s t st1 \<and> frame c st st1 \<and> elements_current env st1 c) \<or>
    store st' = store st"
proof (cases "v_on (conn st c) \<and> source_of st c \<noteq> None \<and> target_of st c \<noteq> None")
  case False
  then show ?thesis using assms(2) by (auto simp: fb_connection_trigger_def split: option.splits if_splits)
next
  case True
  then obtain s t where st: "v_on (conn st c)" "source_of st c = Some s" "target_of st c = Some t" by auto
  obtain b st1 where 1: "(if elemtype (v_sourceelem (conn st c)) = OV_ET_NONE \<or> elemtype (v_targetelem (conn st c)) = OV_ET_NONE
      then fb_connection_getelements env c st else Some (True, st)) = Some (b, st1)"
    using assms(2) st by (auto simp: fb_connection_trigger_def split: option.splits)
  have f: "frame c st st1" "b \<Longrightarrow> elements_current env st1 c"
    using 1 getelements_result [of env c st b st1] assms(1)
    by (auto simp: conn_inv_def no_element_def split: if_splits)
  have r: "st' = (if \<not> b then error_state env t (error_state env s (set_conn c ((conn st1 c)\<lparr>v_on := False\<rparr>) st1))
      else if \<not> has_table env s then switch_off env s st1
      else if \<not> has_table env t then switch_off env t st1
      else transfer env c s t st1)"
    using assms(2) st 1 by (cases b) (auto simp: fb_connection_trigger_def split: if_splits)
  show ?thesis
  proof (cases "b \<and> has_table env s \<and> has_table env t")
    case True
    then show ?thesis using st f r by auto
  next
    case False
    then show ?thesis using r f(1) by (auto simp: frame_def error_state_def switch_off_def)
  qed
qed

text \<open>Triggering the inputs of an object triggers each of its connections of mode \<open>get\<close> just once, and
  the outputs each of mode \<open>send\<close>, in the order of the links, when the methods of the linked
  objects leave the links alone.\<close>

lemma connections_triggered_once_in_order:
  assumes "methods_keep_links env" "conn_inv env st" "length (inputs st p) \<le> fuel" "length (outputs st p) \<le> fuel"
    "chart_ports env p = []"
  shows "fb_object_triggerInpGetConnections fuel env p st = trigger_all env False (inputs st p) st \<and>
    fb_object_triggerOutSendConnections fuel env p st = trigger_all env True (outputs st p) st"
  using trigger_loop_in_order [OF assms(1), of st False p "[]" "inputs st p" fuel]
    trigger_loop_in_order [OF assms(1), of st True p "[]" "outputs st p" fuel] assms(2-5)
  by (simp add: conn_inv_def split: option.splits)

text \<open>The names that are made for connections from the time are different for different times (from
  the second 308915776, in 1979, on) and fit into the buffer of 128 characters.\<close>

lemma connection_names_distinct:
  assumes "308915776 \<le> unat (secs t)" "308915776 \<le> unat (secs t')"
  shows "(connection_ident t = connection_ident t' \<longleftrightarrow> t = t') \<and> length (connection_ident t) < 128"
proof -
  have b: "unat w < 26 ^ 7" for w :: OV_UINT
    using unsigned_less [of w, where 'a = nat] by simp
  have s7: "length (letters (unat (secs u))) = 7" if "308915776 \<le> unat (secs u)" for u :: OV_TIME
    using length_letters [OF b, of "secs u"] length_letters_ge [of 6 "unat (secs u)"] that by simp
  then have l: "length (letters (unat (secs t))) = length (letters (unat (secs t')))" "length (letters (unat (secs t))) = 7"
    using s7 [OF assms(1)] s7 [OF assms(2)] by simp_all
  have "t = t'" if "connection_ident t = connection_ident t'"
  proof -
    have "letters (unat (secs t)) = letters (unat (secs t'))" "letters (unat (usecs t)) = letters (unat (usecs t'))"
      using that l(1) by (auto simp: connection_ident_def)
    then have "unat (secs t) = unat (secs t')" "unat (usecs t) = unat (usecs t')"
      using letters_inject by blast+
    then show ?thesis by (cases t; cases t') (simp add: word_unat_eq_iff)
  qed
  then show ?thesis
    using l(2) length_letters [OF b, of "usecs t"] by (auto simp: connection_ident_def)
qed

end
