(* ===== verification/FbBlock.thy ===== *)
theory FbBlock
  imports FbConnection
begin

text \<open>
  syslibs/functionblock/fb/source/fb_functionblock.c, with the access functions of fb_object.c,
  fb_task.c and fb_ports.c: the execution of function blocks in the tree of tasks, with the
  connections triggered before and after. The type method of a block, and whether it ends in time
  when it is supervised, is a parameter.
\<close>

section \<open>The type method\<close>

text \<open>A type method returns, fails (an error or an exception), or runs over the time allowed.\<close>

datatype outcome = Finished | Failed | TimedOut

record ('w, 'v) exec_env =
  links :: "('w, 'v) block_env"
  timing :: fb_env
  method_table :: "objptr \<Rightarrow> vtable"
  typemethod :: "objptr \<Rightarrow> OV_TIME \<Rightarrow> 'w fb_objects \<Rightarrow> outcome \<times> 'w fb_objects"
  supervise_starts :: "objptr \<Rightarrow> bool"

definition block_off :: "objptr \<Rightarrow> 'w fb_objects \<Rightarrow> 'w fb_objects" where
  "block_off p st = st\<lparr>tasks := set_task p ((task (tasks st) p)\<lparr>v_actimode := FB_AM_OFF, v_ErrState := 1\<rparr>) (tasks st)\<rparr>"

definition supervised :: "OV_TIME_SPAN \<Rightarrow> bool" where
  "supervised maxcalc \<longleftrightarrow> nonzero maxcalc \<and> sint (span_secs maxcalc) \<ge> 0 \<and> sint (span_usecs maxcalc) \<ge> 0"

definition count_call :: "objptr \<Rightarrow> 'w fb_objects \<Rightarrow> 'w fb_objects" where
  "count_call p st =
    (let n = v_methcount st p + 1 in st\<lparr>v_methcount := (v_methcount st)(p := if n = 0 then 1 else n)\<rparr>)"

text \<open>\<open>None\<close>: a type method that is not supervised and does not end.\<close>

definition fb_functionblock_execTypeMethod :: "('w, 'v) exec_env \<Rightarrow> objptr \<Rightarrow> OV_TIME \<Rightarrow> 'w fb_objects \<Rightarrow>
    (bool \<times> 'w fb_objects) option" where
  "fb_functionblock_execTypeMethod env p ltc st =
    (let st = st\<lparr>v_eexreq := (v_eexreq st)(p := False)\<rparr>
     in if method_table env p = NoTable then Some (False, block_off p st)
        else case typemethod env p ltc st of
            (Finished, st) \<Rightarrow> Some (True, count_call p st)
          | (Failed, st) \<Rightarrow> Some (False, block_off p st)
          | (TimedOut, st') \<Rightarrow>
              if supervised (v_maxcalctime st p) \<and> supervise_starts env p then Some (False, block_off p st') else None)"

section \<open>Execution\<close>

definition set_calctime :: "('w, 'v) exec_env \<Rightarrow> objptr \<Rightarrow> 'w fb_objects \<Rightarrow> 'w fb_objects" where
  "set_calctime env p st = st\<lparr>tasks := set_task p ((task (tasks st) p)
     \<lparr>v_calctime := ov_time_diff (snd (clock (timing env) p)) (fst (clock (timing env) p))\<rparr>) (tasks st)\<rparr>"

text \<open>The type method, if it is requested, and then the connections that send: \<open>False\<close> if the execution
  of the block ends here.\<close>

definition call_block :: "nat \<Rightarrow> ('w, 'v) exec_env \<Rightarrow> objptr \<Rightarrow> OV_TIME \<Rightarrow> 'w fb_objects \<Rightarrow> (bool \<times> 'w fb_objects) option" where
  "call_block fuel env p ltc st =
    (if v_iexreq st p \<or> v_eexreq st p then
       (case fb_functionblock_execTypeMethod env p ltc st of
          None \<Rightarrow> None
        | Some (False, st) \<Rightarrow> Some (False, set_calctime env p st)
        | Some (True, st) \<Rightarrow>
            map_option (\<lambda>st. (True, st)) (fb_object_triggerOutSendConnections fuel (links env) p (set_calctime env p st)))
     else Some (True, st))"

definition not_due :: "objptr \<Rightarrow> OV_TIME \<Rightarrow> 'w fb_objects \<Rightarrow> bool" where
  "not_due p ltc st \<longleftrightarrow> ov_time_compare (v_proctime (task (tasks st) p)) ltc = OV_TIMECMP_AFTER \<or>
     v_actimode (task (tasks st) p) = FB_AM_OFF"

text \<open>Function blocks, tasks, and the loop over the tasks below, on the state with the connections.\<close>

fun fb_functionblock_execute :: "nat \<Rightarrow> ('w, 'v) exec_env \<Rightarrow> OV_TIME \<Rightarrow> objptr \<Rightarrow> 'w fb_objects \<Rightarrow> 'w fb_objects option"
  and task_execute :: "nat \<Rightarrow> ('w, 'v) exec_env \<Rightarrow> OV_TIME \<Rightarrow> objptr \<Rightarrow> 'w fb_objects \<Rightarrow> 'w fb_objects option"
  and execute_below :: "nat \<Rightarrow> ('w, 'v) exec_env \<Rightarrow> OV_TIME \<Rightarrow> objptr option \<Rightarrow> 'w fb_objects \<Rightarrow> 'w fb_objects option" where
  "fb_functionblock_execute 0 env ltc p st = None"
| "fb_functionblock_execute (Suc fuel) env ltc p st =
    (if not_due p ltc st then Some st
     else case fb_object_triggerInpGetConnections fuel (links env) p st of
         None \<Rightarrow> None
       | Some st \<Rightarrow>
           (case call_block fuel env p ltc st of
              None \<Rightarrow> None
            | Some (False, st) \<Rightarrow> Some st
            | Some (True, st) \<Rightarrow>
                (case execute_below fuel env ltc (first_of (tasks_below (tasks st) p)) st of
                   None \<Rightarrow> None
                 | Some st \<Rightarrow> map_option (\<lambda>ts. st\<lparr>tasks := ts\<rparr>) (fb_task_setNextProcTime fuel p ltc (tasks st)))))"
| "task_execute 0 env ltc p st = None"
| "task_execute (Suc fuel) env ltc p st =
    (if not_due p ltc st then Some st
     else case fb_object_triggerInpGetConnections fuel (links env) p st of
         None \<Rightarrow> None
       | Some st \<Rightarrow>
           (case execute_below fuel env ltc (first_of (tasks_below (tasks st) p)) st of
              None \<Rightarrow> None
            | Some st \<Rightarrow>
                (case fb_object_triggerOutSendConnections fuel (links env) p st of
                   None \<Rightarrow> None
                 | Some st \<Rightarrow>
                     map_option (\<lambda>ts. set_calctime env p (st\<lparr>tasks := ts\<rparr>)) (fb_task_setNextProcTime fuel p ltc (tasks st)))))"
| "execute_below fuel env ltc None st = Some st"
| "execute_below 0 env ltc (Some c) st = None"
| "execute_below (Suc fuel) env ltc (Some c) st =
    (let next = next_task (tasks st) c
     in case (case method_table env c of
                NoTable \<Rightarrow> Some (block_off c st)
              | TaskTable \<Rightarrow> task_execute fuel env ltc c st
              | OtherTable \<Rightarrow> fb_functionblock_execute fuel env ltc c st) of
          None \<Rightarrow> None
        | Some st \<Rightarrow> execute_below fuel env ltc next st)"

section \<open>Variables\<close>

text \<open>\<open>set_varvalue\<close> converts and sets the value, and tells whether an input has changed
  (\<open>fb_set_varvalue\<close>); \<open>read\<close> is the method of the base class.\<close>

definition fb_object_getvar :: "('w, 'v) block_env \<Rightarrow> (objptr \<Rightarrow> OV_ELEMENT \<Rightarrow> 'w fb_objects \<Rightarrow> OV_RESULT \<times> 'v \<times> 'w fb_objects) \<Rightarrow> 'v \<Rightarrow>
    objptr \<Rightarrow> OV_ELEMENT \<Rightarrow> 'w fb_objects \<Rightarrow> OV_RESULT \<times> 'v \<times> 'w fb_objects" where
  "fb_object_getvar env read v p e st =
    (if \<not> fb_vartype_implemented (v_vartype (elements env) (element_var e)) then (OV_ERR_NOTIMPLEMENTED, v, st)
     else read p e st)"

definition fb_object_setvar :: "('w, 'v) block_env \<Rightarrow> (objptr \<Rightarrow> OV_ELEMENT \<Rightarrow> 'v \<Rightarrow> 'w fb_objects \<Rightarrow> OV_RESULT \<times> bool \<times> 'w fb_objects) \<Rightarrow>
    objptr \<Rightarrow> OV_ELEMENT \<Rightarrow> 'v \<Rightarrow> 'w fb_objects \<Rightarrow> OV_RESULT \<times> 'w fb_objects" where
  "fb_object_setvar env set_varvalue p e v st =
    (if elemtype e \<noteq> OV_ET_VARIABLE then (OV_ERR_BADPARAM, st)
     else if \<not> fb_vartype_implemented (v_vartype (elements env) (element_var e)) then (OV_ERR_BADTYPE, st)
     else case set_varvalue p e v st of (result, setExtReq, st) \<Rightarrow>
       if result \<noteq> OV_ERR_OK then (result, st)
       else (OV_ERR_OK, if setExtReq \<and> is_block env p then st\<lparr>v_eexreq := (v_eexreq st)(p := True)\<rparr> else st))"

text \<open>A port requests the execution of its chart.\<close>

definition fb_port_setvar :: "('w, 'v) block_env \<Rightarrow> (objptr \<Rightarrow> objptr option) \<Rightarrow>
    (objptr \<Rightarrow> OV_ELEMENT \<Rightarrow> 'v \<Rightarrow> 'w fb_objects \<Rightarrow> OV_RESULT \<times> bool \<times> 'w fb_objects) \<Rightarrow>
    objptr \<Rightarrow> OV_ELEMENT \<Rightarrow> 'v \<Rightarrow> 'w fb_objects \<Rightarrow> OV_RESULT \<times> 'w fb_objects" where
  "fb_port_setvar env chart_of set_varvalue p e v st =
    (if elemtype e \<noteq> OV_ET_VARIABLE then (OV_ERR_BADPARAM, st)
     else if \<not> fb_vartype_implemented (v_vartype (elements env) (element_var e)) then (OV_ERR_BADTYPE, st)
     else case set_varvalue p e v st of (result, setExtReq, st) \<Rightarrow>
       if result \<noteq> OV_ERR_OK then (result, st)
       else (OV_ERR_OK, if setExtReq then
           (case chart_of p of None \<Rightarrow> st | Some pfc \<Rightarrow> st\<lparr>v_eexreq := (v_eexreq st)(pfc := True)\<rparr>) else st))"

section \<open>Function charts\<close>

text \<open>The type method of a function chart runs its internal task, between the triggers of its ports.\<close>

definition fbchart_execIntask :: "nat \<Rightarrow> ('w, 'v) exec_env \<Rightarrow> objptr \<Rightarrow> OV_TIME \<Rightarrow> 'w fb_objects \<Rightarrow> 'w fb_objects option" where
  "fbchart_execIntask fuel env pIntask ltc st =
    (case method_table env pIntask of
       NoTable \<Rightarrow> Some st
     | TaskTable \<Rightarrow> task_execute fuel env ltc pIntask st
     | OtherTable \<Rightarrow> fb_functionblock_execute fuel env ltc pIntask st)"

definition fb_functionchart_typemethod :: "nat \<Rightarrow> ('w, 'v) exec_env \<Rightarrow> objptr \<Rightarrow> objptr \<Rightarrow> OV_TIME \<Rightarrow> 'w fb_objects \<Rightarrow> 'w fb_objects option" where
  "fb_functionchart_typemethod fuel env intask pfb ltc st =
    (let st = st\<lparr>tasks := set_task intask ((task (tasks st) intask)\<lparr>v_actimode := FB_AM_ON,
           v_cyctime := \<lparr>span_secs = 0, span_usecs = 0\<rparr>, v_proctime := ltc\<rparr>) (tasks st)\<rparr>
     in case fb_object_triggerInpGetConnections fuel (links env) pfb st of
          None \<Rightarrow> None
        | Some st \<Rightarrow>
            (case fbchart_execIntask fuel env intask ltc st of
               None \<Rightarrow> None
             | Some st \<Rightarrow> fb_object_triggerOutSendConnections fuel (links env) pfb st))"

section \<open>Life cycle and access\<close>

definition fb_functionblock_startup :: "fb_env \<Rightarrow> OV_TIME \<Rightarrow> OV_UINT \<Rightarrow> objptr \<Rightarrow> 'w fb_objects \<Rightarrow> 'w fb_objects" where
  "fb_functionblock_startup env now class_flags p st =
    (let t = task (tasks st) p;
         st = (if v_actimode t = FB_AM_ON
               then st\<lparr>tasks := set_task p (t\<lparr>v_proctime := set_proctime env now t\<rparr>) (tasks st)\<rparr> else st)
     in if IsFlagSet class_flags CHR ''i'' then st\<lparr>v_iexreq := (v_iexreq st)(p := True)\<rparr> else st)"

text \<open>\<open>started\<close>: \<open>fb_started()\<close>; \<open>instnumber\<close>: the counter of the database info, if there is one.\<close>

definition fb_functionblock_constructor :: "OV_RESULT \<Rightarrow> bool \<Rightarrow> OV_TIME \<Rightarrow> objptr \<Rightarrow> OV_UINT option \<Rightarrow> 'w fb_objects \<Rightarrow>
    OV_RESULT \<times> OV_UINT option \<times> 'w fb_objects" where
  "fb_functionblock_constructor base started now p instnumber st =
    (if Ov_Fail base then (base, instnumber, st)
     else
       let st = st\<lparr>tasks := set_task p ((task (tasks st) p)\<lparr>v_proctime := now\<rparr>) (tasks st)\<rparr>
       in case instnumber of
            None \<Rightarrow> (OV_ERR_NOACCESS, None, st)
          | Some n \<Rightarrow> if \<not> started \<and> n \<ge> 10 then (OV_ERR_NOACCESS, Some n, st) else (OV_ERR_OK, Some (n + 1), st))"

definition fb_functionblock_destructor :: "OV_UINT option \<Rightarrow> OV_UINT option" where
  "fb_functionblock_destructor instnumber = map_option (\<lambda>n. if n > 0 then n - 1 else 0) instnumber"

definition OV_VP_SETACCESSOR :: OV_UINT where "OV_VP_SETACCESSOR = 0x02"

definition fb_object_getaccess :: "('w, 'v) block_env \<Rightarrow> (objptr \<Rightarrow> bool) \<Rightarrow> OV_UINT \<Rightarrow> objptr \<Rightarrow> OV_ELEMENT \<Rightarrow> 'w fb_objects \<Rightarrow> OV_UINT" where
  "fb_object_getaccess env own base p e st =
    (if elemtype e = OV_ET_VARIABLE \<and> own (element_var e) then
       (let v = element_var e
        in if \<not> fb_vartype_implemented (v_vartype (elements env) v) then 0
           else if IsFlagSet (var_flags env v) CHR ''p'' \<or> IsFlagSet (var_flags env v) CHR ''i'' then OV_AC_READWRITE
           else if v_varprops (elements env) v AND OV_VP_SETACCESSOR \<noteq> 0 then OV_AC_READWRITE
           else OV_AC_READ)
     else if elemtype e = OV_ET_OBJECT \<and> (inputs st p \<noteq> [] \<or> outputs st p \<noteq> []) then
       OV_AC_READWRITE OR OV_AC_RENAMEABLE OR OV_AC_LINKABLE OR OV_AC_UNLINKABLE
     else base)"

definition fb_task_getaccess :: "('w, 'v) block_env \<Rightarrow> (objptr \<Rightarrow> bool) \<Rightarrow> OV_UINT \<Rightarrow> bool \<Rightarrow> objptr \<Rightarrow> OV_ELEMENT \<Rightarrow> 'w fb_objects \<Rightarrow> OV_UINT" where
  "fb_task_getaccess env own base by_path p e st =
    (if elemtype e = OV_ET_OBJECT then
       (let access = OV_AC_READWRITE OR OV_AC_LINKABLE;
            access = (if fb_task_is_urtask by_path p (tasks st) then access else access OR OV_AC_RENAMEABLE);
            access = (if task_parent (tasks st) p \<noteq> None then access OR OV_AC_UNLINKABLE else access);
            access = (if tasks_below (tasks st) p \<noteq> [] then access OR OV_AC_UNLINKABLE else access);
            access = access AND fb_object_getaccess env own base p e st
        in if v_actimode (task (tasks st) p) = FB_AM_OFF \<and> tasks_below (tasks st) p = [] then access OR OV_AC_DELETEABLE
           else access)
     else fb_object_getaccess env own base p e st)"

text \<open>The flags of a port: input or output, and no change while connections are at it.\<close>

definition fb_port_flags_set :: "objptr \<Rightarrow> OV_UINT \<Rightarrow> 'w fb_objects \<Rightarrow> OV_RESULT \<times> 'w fb_objects" where
  "fb_port_flags_set p flags st =
    (if port_flags st p = flags then (OV_ERR_OK, st)
     else if flags \<noteq> 256 \<and> flags \<noteq> 16384 then (OV_ERR_BADVALUE, st)
     else if inputs st p \<noteq> [] then (OV_ERR_NOACCESS, st)
     else if outputs st p \<noteq> [] then (OV_ERR_NOACCESS, st)
     else (OV_ERR_OK, st\<lparr>port_flags := (port_flags st)(p := flags)\<rparr>))"

section \<open>Lemmas\<close>

lemma block_off_simps [simp]:
  "v_actimode (task (tasks (block_off p st)) p) = FB_AM_OFF" "v_ErrState (task (tasks (block_off p st)) p) = 1"
  "v_methcount (block_off p st) = v_methcount st" "v_eexreq (block_off p st) = v_eexreq st"
  by (simp_all add: block_off_def)

lemma calctime_actimode [simp]:
  "v_actimode (task (tasks (set_calctime env p st)) q) = v_actimode (task (tasks st) q)"
  "v_ErrState (task (tasks (set_calctime env p st)) q) = v_ErrState (task (tasks st) q)"
  by (simp_all add: set_calctime_def)

lemma off_not_due: "v_actimode (task (tasks st) p) = FB_AM_OFF \<Longrightarrow> not_due p ltc st"
  by (simp add: not_due_def)

lemma failed_call_off:
  "fb_functionblock_execTypeMethod env p ltc st = Some (False, st') \<Longrightarrow>
    v_actimode (task (tasks st') p) = FB_AM_OFF \<and> v_ErrState (task (tasks st') p) = 1"
  by (auto simp: fb_functionblock_execTypeMethod_def Let_def split: if_splits prod.splits outcome.splits)

lemma count_call_nonzero: "v_methcount (count_call p st) p \<noteq> 0"
  by (simp add: count_call_def Let_def)

text \<open>Without connections the triggers do nothing.\<close>

lemma no_trigger:
  "inputs st p = [] \<Longrightarrow> chart_ports env p = [] \<Longrightarrow> fb_object_triggerInpGetConnections fuel env p st = Some st"
  "outputs st p = [] \<Longrightarrow> chart_ports env p = [] \<Longrightarrow> fb_object_triggerOutSendConnections fuel env p st = Some st"
  by (simp_all add: first_of_def)

definition no_links :: "('w, 'v) exec_env \<Rightarrow> 'w fb_objects \<Rightarrow> bool" where
  "no_links env st \<longleftrightarrow> (\<forall>p. inputs st p = [] \<and> outputs st p = [] \<and> chart_ports (links env) p = [])"

lemma no_links_tasks [simp]: "no_links env (st\<lparr>tasks := ts\<rparr>) \<longleftrightarrow> no_links env st"
  by (simp add: no_links_def)

definition only_tasks :: "('w, 'v) exec_env \<Rightarrow> bool" where
  "only_tasks env \<longleftrightarrow> (\<forall>p. method_table env p \<noteq> OtherTable \<and> table (timing env) p = method_table env p \<and>
     trigger_inp (timing env) p = id \<and> trigger_out (timing env) p = id)"

lemma tasks_only:
  "no_links env st \<Longrightarrow> only_tasks env \<Longrightarrow>
    task_execute n env ltc p st = map_option (\<lambda>ts. st\<lparr>tasks := ts\<rparr>) (fb_task_execute n (timing env) ltc p (tasks st))"
  "no_links env st \<Longrightarrow> only_tasks env \<Longrightarrow>
    execute_below n env ltc c st = map_option (\<lambda>ts. st\<lparr>tasks := ts\<rparr>) (exec_children n (timing env) ltc c (tasks st))"
proof (induction n "timing env" ltc p "tasks st" and n "timing env" ltc c "tasks st" arbitrary: st and st
    rule: fb_task_execute_exec_children.induct)
  case (2 fuel ltc p)
  show ?case
  proof (cases "not_due p ltc st")
    case True
    then show ?thesis by (simp add: not_due_def)
  next
    case False
    have t: "trigger_inp (timing env) p = id" "trigger_out (timing env) p = id" "chart_ports (links env) p = []"
      "inputs st p = []" "outputs st p = []"
      using 2(2,3) by (simp_all add: only_tasks_def no_links_def)
    have "execute_below fuel env ltc (first_of (tasks_below (tasks st) p)) st =
        map_option (\<lambda>ts. st\<lparr>tasks := ts\<rparr>) (exec_children fuel (timing env) ltc (first_of (tasks_below (tasks st) p)) (tasks st))"
      using 2(1) [of st] 2(2,3) False t by (simp add: not_due_def del: ov_time_compare_iff)
    then show ?thesis
      using False t
      by (auto simp: not_due_def set_calctime_def no_trigger Let_def split: option.splits simp del: ov_time_compare_iff
          fb_object_triggerInpGetConnections.simps fb_object_triggerOutSendConnections.simps)
  qed
next
  case (5 fuel ltc c)
  have tab: "table (timing env) c = method_table env c" "method_table env c \<noteq> OtherTable"
    using 5(6) by (simp_all add: only_tasks_def)
  show ?case
  proof (cases "method_table env c")
    case NoTable
    have "execute_below fuel env ltc (next_task (tasks st) c) (block_off c st) =
        map_option (\<lambda>ts. (block_off c st)\<lparr>tasks := ts\<rparr>)
          (exec_children fuel (timing env) ltc (next_task (tasks st) c) (tasks (block_off c st)))"
      using NoTable tab 5(5,6) by (intro 5(1)) (simp_all add: block_off_def)
    then show ?thesis using NoTable tab by (simp add: Let_def block_off_def)
  next
    case TaskTable
    have e: "task_execute fuel env ltc c st = map_option (\<lambda>ts. st\<lparr>tasks := ts\<rparr>) (fb_task_execute fuel (timing env) ltc c (tasks st))"
      using TaskTable tab 5(5,6) by (intro 5(2)) simp_all
    show ?thesis
    proof (cases "fb_task_execute fuel (timing env) ltc c (tasks st)")
      case None
      then show ?thesis using TaskTable tab e by (simp add: Let_def)
    next
      case (Some ts)
      have "execute_below fuel env ltc (next_task (tasks st) c) (st\<lparr>tasks := ts\<rparr>) =
          map_option (\<lambda>ts'. st\<lparr>tasks := ts\<rparr>\<lparr>tasks := ts'\<rparr>)
            (exec_children fuel (timing env) ltc (next_task (tasks st) c) (tasks (st\<lparr>tasks := ts\<rparr>)))"
        using TaskTable tab 5(5,6) Some by (intro 5(3)) simp_all
      then show ?thesis using TaskTable tab e Some by (simp add: Let_def)
    qed
  next
    case OtherTable
    then show ?thesis using tab by simp
  qed
qed simp_all

text \<open>A value that comes over a connection and changes an input of a block requests its execution.\<close>

lemma transfer_requests_execution:
  assumes "m_setvar env t = fb_object_setvar env set_varvalue t" "is_block env t"
    "m_getvar env s (v_sourceelem (conn st c)) st = (OV_ERR_OK, v, st1)"
    "elemtype (v_targetelem (conn st1 c)) = OV_ET_VARIABLE"
    "fb_vartype_implemented (v_vartype (elements env) (element_var (v_targetelem (conn st1 c))))"
    "set_varvalue t (v_targetelem (conn st1 c)) v st1 = (OV_ERR_OK, changed, st2)"
  shows "v_eexreq (transfer env c s t st) t \<longleftrightarrow> changed \<or> v_eexreq st2 t"
  using assms by (simp add: transfer_def fb_object_setvar_def Ov_Fail_def)

section \<open>Properties\<close>

text \<open>A block whose type method fails, is missing, or runs over the time it is allowed ends its
  execution there: it is switched off with an error state, sends nothing and executes none of the
  tasks below it, and every later execution leaves the state as it is.\<close>

lemma failed_block_stops:
  assumes "\<not> not_due p ltc st" "fb_object_triggerInpGetConnections fuel (links env) p st = Some st1"
    "v_iexreq st1 p \<or> v_eexreq st1 p" "fb_functionblock_execTypeMethod env p ltc st1 = Some (False, st2)"
  shows "fb_functionblock_execute (Suc fuel) env ltc p st = Some (set_calctime env p st2) \<and>
    v_actimode (task (tasks (set_calctime env p st2)) p) = FB_AM_OFF \<and>
    v_ErrState (task (tasks (set_calctime env p st2)) p) = 1 \<and>
    fb_functionblock_execute (Suc fuel') env ltc' p (set_calctime env p st2) = Some (set_calctime env p st2)"
proof -
  note f = failed_call_off [OF assms(4)]
  have "call_block fuel env p ltc st1 = Some (False, set_calctime env p st2)"
    using assms(3,4) by (simp add: call_block_def)
  then show ?thesis
    using assms(1,2) f off_not_due [of "set_calctime env p st2" p ltc']
    by (simp del: fb_object_triggerInpGetConnections.simps)
qed

definition demo_exec :: "((objptr \<Rightarrow> int), int) exec_env" where
  "demo_exec = \<lparr>links = demo_methods, timing = demo_env, method_table = (\<lambda>p. if p = 200 then OtherTable else TaskTable),
     typemethod = (\<lambda>p ltc st. (Failed, st)), supervise_starts = (\<lambda>_. False)\<rparr>"

definition demo_requested :: "(objptr \<Rightarrow> int) fb_objects" where
  "demo_requested = demo_connected\<lparr>inputs := (\<lambda>_. []), v_iexreq := (\<lambda>_. True)\<rparr>"

text \<open>On a tree of tasks without function blocks and without connections the execution is that of the
  model of tasks alone: same result, same fuel, and nothing but the tasks changed.\<close>

lemma tasks_execute_as_before:
  assumes "\<forall>p. inputs st p = [] \<and> outputs st p = [] \<and> chart_ports (links env) p = []"
    "\<forall>p. method_table env p \<noteq> OtherTable \<and> table (timing env) p = method_table env p \<and>
      trigger_inp (timing env) p = id \<and> trigger_out (timing env) p = id"
  shows "task_execute n env ltc p st = map_option (\<lambda>ts. st\<lparr>tasks := ts\<rparr>) (fb_task_execute n (timing env) ltc p (tasks st))"
  using tasks_only(1) [of env st n ltc p] assms by (simp add: no_links_def only_tasks_def)

end
