(* ===== verification/SscChart.thy ===== *)
theory SscChart
  imports FbTask
begin

text \<open>
  syslibs/functionblock/ssc/source/SequentialStateChart.c, step.c, transition.c: sequential state
  charts. A chart has a working state, driven by the command \<open>EN\<close>, and steps, of which the active
  one is linked below its part \<open>taskActiveStep\<close>; transitions move the activity from step to step.
  The state is a map from the addresses of charts to charts; a chart holds its steps, transitions
  and the address of its active-step task. The actions of the user's blocks and the transition
  conditions are parameters.
\<close>

section \<open>State\<close>

abbreviation SSC_CMD_STOP :: OV_UINT where "SSC_CMD_STOP \<equiv> 0"
abbreviation SSC_CMD_START :: OV_UINT where "SSC_CMD_START \<equiv> 1"
abbreviation SSC_CMD_BREAK :: OV_UINT where "SSC_CMD_BREAK \<equiv> 2"
abbreviation SSC_CMD_RESET :: OV_UINT where "SSC_CMD_RESET \<equiv> 3"
abbreviation SSC_WOST_INIT :: OV_UINT where "SSC_WOST_INIT \<equiv> 0"
abbreviation SSC_WOST_START :: OV_UINT where "SSC_WOST_START \<equiv> 1"
abbreviation SSC_WOST_BREAK :: OV_UINT where "SSC_WOST_BREAK \<equiv> 2"
abbreviation SSC_WOST_STOP :: OV_UINT where "SSC_WOST_STOP \<equiv> 3"
abbreviation SSC_WOST_TERMINATE :: OV_UINT where "SSC_WOST_TERMINATE \<equiv> 4"
abbreviation SSC_QUALIFIER_ENTRY :: OV_UINT where "SSC_QUALIFIER_ENTRY \<equiv> 1"
abbreviation SSC_QUALIFIER_DO :: OV_UINT where "SSC_QUALIFIER_DO \<equiv> 2"
abbreviation SSC_QUALIFIER_EXIT :: OV_UINT where "SSC_QUALIFIER_EXIT \<equiv> 3"
abbreviation SSC_PHASE_ENTRYDO :: OV_UINT where "SSC_PHASE_ENTRYDO \<equiv> 1"
abbreviation SSC_PHASE_EXITTRANS :: OV_UINT where "SSC_PHASE_EXITTRANS \<equiv> 2"
abbreviation SSC_STEPROLE_START :: OV_UINT where "SSC_STEPROLE_START \<equiv> 0"
abbreviation SSC_STEPROLE_NORMAL :: OV_UINT where "SSC_STEPROLE_NORMAL \<equiv> 1"
abbreviation SSC_STEPROLE_END :: OV_UINT where "SSC_STEPROLE_END \<equiv> 999"

abbreviation no_span :: OV_TIME_SPAN where "no_span \<equiv> \<lparr>span_secs = 0, span_usecs = 0\<rparr>"

record ssc_step =
  s_actimode :: OV_INT
  s_cyctime :: OV_TIME_SPAN
  s_iexreq :: bool
  s_eexreq :: bool
  s_X :: bool
  s_T :: OV_TIME_SPAN
  s_phase :: OV_UINT
  s_qualifier :: OV_UINT
  s_internalRole :: OV_UINT
  s_evTransTrigger :: bool
  s_error :: bool
  s_errorDetail :: OV_STRING
  s_startTime :: OV_TIME
  entry_actimode :: OV_INT
  do_actimode :: OV_INT
  exit_actimode :: OV_INT

record ssc_transition =
  t_result :: bool
  t_error :: bool
  t_errorDetail :: OV_STRING
  prevStep :: "objptr option"
  nextStep :: "objptr option"

record ssc_block =
  b_actimode :: OV_INT
  b_cyctime :: OV_TIME_SPAN
  b_iexreq :: bool

record chart =
  EN :: OV_UINT
  initStepName :: OV_STRING
  endStepName :: OV_STRING
  woStPhase :: OV_UINT
  woStQualifier :: OV_UINT
  workingState :: OV_UINT
  woStText :: OV_STRING
  c_error :: bool
  c_errorDetail :: OV_STRING
  c_actimode :: OV_INT
  c_iexreq :: bool
  intask :: task
  trans :: task
  taskActiveStep :: task
  steps :: "objptr list"
  step_of :: "objptr \<Rightarrow> ssc_step"
  step_name :: "objptr \<Rightarrow> string"
  blocks_of :: "objptr \<Rightarrow> objptr list"
  block_of :: "objptr \<Rightarrow> ssc_block"
  nextTransitions :: "objptr \<Rightarrow> objptr list"
  transition_of :: "objptr \<Rightarrow> ssc_transition"
  active_task :: objptr
  active_list :: "objptr list"
  step_task :: "objptr \<Rightarrow> objptr option"
  action_charts :: "objptr list"

type_synonym charts = "objptr \<Rightarrow> chart"

definition upd_chart :: "objptr \<Rightarrow> (chart \<Rightarrow> chart) \<Rightarrow> charts \<Rightarrow> charts" where
  "upd_chart p f w = w(p := f (w p))"

definition upd_step :: "objptr \<Rightarrow> objptr \<Rightarrow> (ssc_step \<Rightarrow> ssc_step) \<Rightarrow> charts \<Rightarrow> charts" where
  "upd_step p s f = upd_chart p (\<lambda>c. c\<lparr>step_of := (step_of c)(s := f (step_of c s))\<rparr>)"

abbreviation step_at :: "charts \<Rightarrow> objptr \<Rightarrow> objptr \<Rightarrow> ssc_step" where
  "step_at w p s \<equiv> step_of (w p) s"

text \<open>Linking and unlinking steps in \<open>fb_tasklist\<close>, a 1:n association: a step that has a task parent
  is not linked again.\<close>

definition link_active :: "objptr \<Rightarrow> objptr \<Rightarrow> charts \<Rightarrow> OV_RESULT \<times> charts" where
  "link_active p s w =
    (if step_task (w p) s \<noteq> None then (OV_ERR_ALREADYEXISTS, w)
     else (OV_ERR_OK, upd_chart p (\<lambda>c. c\<lparr>active_list := active_list c @ [s],
             step_task := (step_task c)(s := Some (active_task c))\<rparr>) w))"

definition unlink_step :: "objptr \<Rightarrow> objptr \<Rightarrow> charts \<Rightarrow> charts" where
  "unlink_step p s w =
    (if step_task (w p) s = None then w
     else upd_chart p (\<lambda>c. c\<lparr>active_list := removeAll s (active_list c),
            step_task := (step_task c)(s := None)\<rparr>) w)"

section \<open>What is given from outside\<close>

text \<open>The parts \<open>entry\<close>, \<open>do\<close> and \<open>exit\<close> of a step are tasks with action blocks below them.\<close>

datatype part = PEntry | PDo | PExit

record ssc_env =
  start_clock :: "objptr \<Rightarrow> OV_TIME"
  elapsed_clock :: "objptr \<Rightarrow> OV_UINT \<Rightarrow> OV_TIME"
  part_due :: "part \<Rightarrow> objptr \<Rightarrow> objptr \<Rightarrow> charts \<Rightarrow> bool"
  step_due :: "objptr \<Rightarrow> objptr \<Rightarrow> charts \<Rightarrow> bool"
  part_actions :: "part \<Rightarrow> objptr \<Rightarrow> objptr \<Rightarrow> charts \<Rightarrow> charts"
  stop_subcharts :: "objptr \<Rightarrow> objptr \<Rightarrow> charts \<Rightarrow> charts"
  step_inputs :: "objptr \<Rightarrow> objptr \<Rightarrow> charts \<Rightarrow> charts"
  step_outputs :: "objptr \<Rightarrow> objptr \<Rightarrow> charts \<Rightarrow> charts"
  chart_inputs :: "objptr \<Rightarrow> charts \<Rightarrow> charts"
  chart_outputs :: "objptr \<Rightarrow> charts \<Rightarrow> charts"
  run_trans :: "objptr \<Rightarrow> charts \<Rightarrow> charts"
  run_intask :: "objptr \<Rightarrow> charts \<Rightarrow> charts"

fun part_mode :: "part \<Rightarrow> ssc_step \<Rightarrow> OV_INT" where
  "part_mode PEntry s = entry_actimode s"
| "part_mode PDo s = do_actimode s"
| "part_mode PExit s = exit_actimode s"

fun set_part_mode :: "part \<Rightarrow> OV_INT \<Rightarrow> ssc_step \<Rightarrow> ssc_step" where
  "set_part_mode PEntry m s = s\<lparr>entry_actimode := m\<rparr>"
| "set_part_mode PDo m s = s\<lparr>do_actimode := m\<rparr>"
| "set_part_mode PExit m s = s\<lparr>exit_actimode := m\<rparr>"

text \<open>\<open>fb_task_execute\<close> on a part: nothing while it is off or not due; after the actions the mode
  \<open>FB_AM_ONCE\<close> falls back to off (the cycle time of a part is zero).\<close>

definition execute_part :: "ssc_env \<Rightarrow> part \<Rightarrow> objptr \<Rightarrow> objptr \<Rightarrow> charts \<Rightarrow> charts" where
  "execute_part env x p s w =
    (if part_mode x (step_at w p s) = FB_AM_OFF \<or> \<not> part_due env x p s w then w
     else
       let w = part_actions env x p s w;
           m = part_mode x (step_at w p s)
       in if m = FB_AM_ON \<or> m = FB_AM_UNLINK \<or> m = FB_AM_CATCHUP then w
          else upd_step p s (set_part_mode x FB_AM_OFF) w)"

section \<open>Steps\<close>

definition ssc_step_constructor :: "OV_RESULT \<Rightarrow> bool \<Rightarrow> ssc_step \<Rightarrow> OV_RESULT \<times> ssc_step" where
  "ssc_step_constructor base in_chart s =
    (if Ov_Fail base then (base, s)
     else if \<not> in_chart then (OV_ERR_BADPLACEMENT, s)
     else (OV_ERR_OK, s\<lparr>entry_actimode := FB_AM_ON, do_actimode := FB_AM_ON, exit_actimode := FB_AM_ON,
             s_iexreq := True\<rparr>))"

definition reset_block :: "ssc_block \<Rightarrow> ssc_block" where
  "reset_block b = b\<lparr>b_actimode := FB_AM_ON, b_cyctime := no_span, b_iexreq := True\<rparr>"

definition ssc_step_resetStep :: "objptr \<Rightarrow> objptr \<Rightarrow> charts \<Rightarrow> charts" where
  "ssc_step_resetStep p s w =
    (let w = unlink_step p s w;
         w = upd_step p s (\<lambda>x. x\<lparr>s_actimode := FB_AM_OFF, s_cyctime := no_span, s_iexreq := True, s_X := False,
               s_phase := SSC_PHASE_ENTRYDO, s_qualifier := SSC_QUALIFIER_ENTRY,
               entry_actimode := FB_AM_ON, do_actimode := FB_AM_ON, exit_actimode := FB_AM_OFF\<rparr>) w
     in upd_chart p (\<lambda>c. c\<lparr>block_of := (\<lambda>b. if b \<in> set (blocks_of c s) then reset_block (block_of c b)
          else block_of c b)\<rparr>) w)"

text \<open>The phase of entry and do.\<close>

definition step_entry :: "ssc_env \<Rightarrow> objptr \<Rightarrow> objptr \<Rightarrow> charts \<Rightarrow> charts" where
  "step_entry env p s w =
    (if s_qualifier (step_at w p s) = SSC_QUALIFIER_ENTRY then
       let w = upd_step p s (\<lambda>x. x\<lparr>s_startTime := start_clock env s,
                 s_T := ov_time_diff (start_clock env s) (start_clock env s)\<rparr>) w;
           w = execute_part env PEntry p s w
       in upd_step p s (\<lambda>x. x\<lparr>s_qualifier := SSC_QUALIFIER_DO\<rparr>) w
     else w)"

definition step_entrydo :: "ssc_env \<Rightarrow> objptr \<Rightarrow> objptr \<Rightarrow> charts \<Rightarrow> charts" where
  "step_entrydo env p s w =
    (let w = upd_step p s (\<lambda>x. x\<lparr>s_X := True\<rparr>) w;
         w = step_entry env p s w;
         w = execute_part env PDo p s w;
         w = (if s_internalRole (step_at w p s) = SSC_STEPROLE_END
              then upd_chart p (\<lambda>c. c\<lparr>workingState := SSC_WOST_TERMINATE\<rparr>) w else w)
     in upd_step p s (\<lambda>x. x\<lparr>s_phase := SSC_PHASE_EXITTRANS\<rparr>) w)"

text \<open>The first transition whose result is set: link its next step below the active-step task.\<close>

definition step_failed :: "objptr \<Rightarrow> objptr \<Rightarrow> string \<Rightarrow> charts \<Rightarrow> charts" where
  "step_failed p s detail w =
    upd_chart p (\<lambda>c. c\<lparr>workingState := SSC_WOST_STOP\<rparr>)
      (upd_step p s (\<lambda>x. x\<lparr>s_error := True, s_errorDetail := Some detail\<rparr>) w)"

definition link_next :: "objptr \<Rightarrow> objptr \<Rightarrow> objptr \<Rightarrow> charts \<Rightarrow> charts" where
  "link_next p s n w =
    (let w = (if step_task (w p) n = None then unlink_step p n w else w);
         (result, w) = link_active p n w;
         w = (if Ov_Fail result then step_failed p s ''Internal linking failed. Giving up.'' w else w)
     in upd_step p n (\<lambda>x. x\<lparr>s_actimode := FB_AM_ON, s_phase := SSC_PHASE_ENTRYDO,
          s_qualifier := SSC_QUALIFIER_ENTRY\<rparr>) w)"

fun check_transitions :: "objptr \<Rightarrow> objptr \<Rightarrow> objptr list \<Rightarrow> objptr option \<Rightarrow> charts \<Rightarrow> objptr option \<times> charts" where
  "check_transitions p s [] pNextStep w = (pNextStep, w)"
| "check_transitions p s (t # ts) pNextStep w =
    (if t_result (transition_of (w p) t) \<and> \<not> s_evTransTrigger (step_at w p s) then
       let w = upd_step p s (\<lambda>x. x\<lparr>s_evTransTrigger := True\<rparr>) w
       in case nextStep (transition_of (w p) t) of
            Some n \<Rightarrow> check_transitions p s ts (Some n) (link_next p s n w)
          | None \<Rightarrow> check_transitions p s ts None
              (step_failed p s ''Internal associations not clean. Giving up.'' w)
     else check_transitions p s ts pNextStep w)"

text \<open>Leaving the step, up to the execution of the next one.\<close>

definition leave_step :: "ssc_env \<Rightarrow> objptr \<Rightarrow> objptr \<Rightarrow> charts \<Rightarrow> charts" where
  "leave_step env p s w =
    (let w = stop_subcharts env p s w;
         w = (if workingState (w p) = SSC_WOST_STOP
              then upd_step p s (\<lambda>x. x\<lparr>exit_actimode := FB_AM_ONCE\<rparr>) w else w);
         w = execute_part env PExit p s w;
         w = unlink_step p s w
     in upd_step p s (\<lambda>x. x\<lparr>s_X := False, s_qualifier := SSC_QUALIFIER_ENTRY\<rparr>) w)"

definition take_time :: "ssc_env \<Rightarrow> objptr \<Rightarrow> objptr \<Rightarrow> OV_UINT \<Rightarrow> charts \<Rightarrow> charts" where
  "take_time env p s phase w =
    upd_step p s (\<lambda>x. x\<lparr>s_T := ov_time_diff (elapsed_clock env s phase) (s_startTime x)\<rparr>) w"

definition after_step :: "objptr \<Rightarrow> objptr \<Rightarrow> charts \<Rightarrow> charts" where
  "after_step p s w =
    (let m = s_actimode (step_at w p s)
     in if m = FB_AM_ON \<or> m = FB_AM_CATCHUP then w
        else if m = FB_AM_UNLINK then unlink_step p s w
        else upd_step p s (\<lambda>x. x\<lparr>s_actimode := FB_AM_OFF\<rparr>) w)"

definition step_begin :: "objptr \<Rightarrow> objptr \<Rightarrow> charts \<Rightarrow> charts" where
  "step_begin p s w =
    upd_step p s (\<lambda>x. x\<lparr>s_cyctime := no_span, s_iexreq := True, s_evTransTrigger := False\<rparr>) w"

text \<open>The loop of the type method, and the execution of a step as a function block, through which
  the next step is entered in the same cycle. \<open>fuel\<close> bounds the depth of the calls.\<close>

fun step_loop :: "nat \<Rightarrow> ssc_env \<Rightarrow> objptr \<Rightarrow> objptr \<Rightarrow> charts \<Rightarrow> charts option"
  and step_execute :: "nat \<Rightarrow> ssc_env \<Rightarrow> objptr \<Rightarrow> objptr \<Rightarrow> charts \<Rightarrow> charts option" where
  "step_loop 0 env p s w = None"
| "step_loop (Suc fuel) env p s w =
    (if s_phase (step_at w p s) = SSC_PHASE_ENTRYDO then
       Some (take_time env p s SSC_PHASE_ENTRYDO (step_entrydo env p s w))
     else if s_phase (step_at w p s) = SSC_PHASE_EXITTRANS then
       (let (pNextStep, w) = check_transitions p s (nextTransitions (w p) s) None w
        in if s_evTransTrigger (step_at w p s) \<or> workingState (w p) = SSC_WOST_STOP then
             map_option (\<lambda>w. take_time env p s SSC_PHASE_EXITTRANS
                 (upd_step p s (\<lambda>x. x\<lparr>s_phase := SSC_PHASE_ENTRYDO\<rparr>) w))
               (case pNextStep of
                  None \<Rightarrow> Some (leave_step env p s w)
                | Some n \<Rightarrow> step_execute fuel env p n (leave_step env p s w))
           else step_loop fuel env p s (take_time env p s SSC_PHASE_EXITTRANS
                 (upd_step p s (\<lambda>x. x\<lparr>s_phase := SSC_PHASE_ENTRYDO\<rparr>) w)))
     else Some (take_time env p s (s_phase (step_at w p s)) w))"
| "step_execute 0 env p s w = None"
| "step_execute (Suc fuel) env p s w =
    (if \<not> step_due env p s w \<or> s_actimode (step_at w p s) = FB_AM_OFF then Some w
     else
       let w = step_inputs env p s w
       in map_option (after_step p s)
            (if s_iexreq (step_at w p s) \<or> s_eexreq (step_at w p s)
             then map_option (step_outputs env p s)
               (step_loop fuel env p s (step_begin p s (upd_step p s (\<lambda>x. x\<lparr>s_eexreq := False\<rparr>) w)))
             else Some w))"

definition ssc_step_typemethod :: "nat \<Rightarrow> ssc_env \<Rightarrow> objptr \<Rightarrow> objptr \<Rightarrow> charts \<Rightarrow> charts option" where
  "ssc_step_typemethod fuel env p s w = step_loop fuel env p s (step_begin p s w)"

text \<open>Deleting objects of a chart while it runs is not allowed; \<open>activeHeader\<close> is null outside a
  chart. The three classes have the same function.\<close>

definition OV_AC_DELETEABLE :: OV_UINT where "OV_AC_DELETEABLE = 0x10000000"

definition deletable_access :: "chart option \<Rightarrow> OV_UINT \<Rightarrow> OV_UINT" where
  "deletable_access activeHeader access_code =
    (case activeHeader of
       None \<Rightarrow> access_code
     | Some c \<Rightarrow>
         if c_error c \<or> workingState c = SSC_WOST_INIT \<or> workingState c = SSC_WOST_STOP \<or>
            workingState c = SSC_WOST_TERMINATE
         then access_code OR OV_AC_DELETEABLE
         else access_code AND NOT OV_AC_DELETEABLE)"

definition ssc_SequentialStateChart_getaccess :: "chart option \<Rightarrow> OV_UINT \<Rightarrow> OV_UINT \<Rightarrow> OV_UINT" where
  "ssc_SequentialStateChart_getaccess activeHeader el_type access_code =
    (if el_type = OV_ET_OBJECT then deletable_access activeHeader access_code else access_code)"

definition ssc_step_getaccess :: "chart option \<Rightarrow> OV_UINT \<Rightarrow> OV_UINT \<Rightarrow> OV_UINT" where
  "ssc_step_getaccess activeHeader el_type access_code =
    (if el_type = OV_ET_OBJECT then deletable_access activeHeader access_code else access_code)"

definition ssc_transition_getaccess :: "chart option \<Rightarrow> OV_UINT \<Rightarrow> OV_UINT \<Rightarrow> OV_UINT" where
  "ssc_transition_getaccess activeHeader el_type access_code =
    (if el_type = OV_ET_OBJECT then deletable_access activeHeader access_code else access_code)"

section \<open>Transitions\<close>

definition transition_error :: "string \<Rightarrow> ssc_transition \<Rightarrow> ssc_transition" where
  "transition_error detail t = t\<lparr>t_error := True, t_errorDetail := Some detail\<rparr>"

definition ssc_transition_constructor :: "OV_RESULT \<Rightarrow> bool \<Rightarrow> ssc_transition \<Rightarrow> OV_RESULT \<times> ssc_transition" where
  "ssc_transition_constructor base in_chart t =
    (if Ov_Fail base then (base, t)
     else if \<not> in_chart then (OV_ERR_BADPLACEMENT, t)
     else (OV_ERR_OK, transition_error ''Not connected to a step.'' t))"

definition ssc_transition_typemethod :: "bool \<Rightarrow> ssc_transition \<Rightarrow> ssc_transition" where
  "ssc_transition_typemethod in_container t =
    (if \<not> in_container then transition_error ''Wrong placement.'' t
     else if prevStep t = None \<or> nextStep t = None then transition_error ''Not connected to both steps.'' t
     else t\<lparr>t_error := False, t_errorDetail := None\<rparr>)"

section \<open>Charts\<close>

definition chart_error :: "objptr \<Rightarrow> string \<Rightarrow> charts \<Rightarrow> charts" where
  "chart_error p detail = upd_chart p (\<lambda>c. c\<lparr>c_error := True, c_errorDetail := Some detail\<rparr>)"

definition mark_init :: "objptr \<Rightarrow> objptr \<Rightarrow> ssc_step \<Rightarrow> ssc_step" where
  "mark_init foundStep s x =
    (if s = foundStep then x\<lparr>s_internalRole := SSC_STEPROLE_START, s_actimode := FB_AM_ON\<rparr>
     else (if s_internalRole x \<noteq> SSC_STEPROLE_END then x\<lparr>s_internalRole := SSC_STEPROLE_NORMAL\<rparr> else x)
            \<lparr>s_actimode := FB_AM_OFF\<rparr>)"

text \<open>The arguments \<open>maxlen\<close>, \<open>mem\<close>, \<open>same\<close> are those of \<open>ov_string_setvalue\<close>, which stores the name.\<close>

definition ssc_SequentialStateChart_initStepName_set ::
    "OV_UINT \<Rightarrow> bool \<Rightarrow> bool \<Rightarrow> objptr \<Rightarrow> OV_STRING \<Rightarrow> charts \<Rightarrow> OV_RESULT \<times> charts" where
  "ssc_SequentialStateChart_initStepName_set maxlen mem same p value w =
    (if ov_string_compare value (Some []) = OV_STRCMP_EQUAL then (OV_ERR_OK, w)
     else if workingState (w p) = SSC_WOST_INIT then
       (case find (\<lambda>s. strcmp (string_value value) (step_name (w p) s) = 0) (steps (w p)) of
          Some foundStep \<Rightarrow>
            (let w = fold (\<lambda>s. upd_step p s (mark_init foundStep s)) (steps (w p)) w;
                 (result, name) = ov_string_setvalue maxlen mem same (Some (initStepName (w p))) value
             in (result, upd_chart p (\<lambda>c. c\<lparr>initStepName := (case name of Some n \<Rightarrow> n | None \<Rightarrow> initStepName c)\<rparr>) w))
        | None \<Rightarrow> (OV_ERR_BADVALUE, chart_error p ''Step not found.'' w))
     else (OV_ERR_BADVALUE,
       chart_error p ''Init and end step can only be set when workingState is 0.'' w))"

text \<open>The steps named by the list become end steps; the counter starts at one.\<close>

fun mark_ends :: "objptr \<Rightarrow> string list \<Rightarrow> objptr list \<Rightarrow> nat \<Rightarrow> charts \<Rightarrow> nat \<times> charts" where
  "mark_ends p names [] n w = (n, w)"
| "mark_ends p names (s # ss) n w =
    (let k = length (filter (\<lambda>x. ov_string_compare (Some (step_name (w p) s)) (Some x) = OV_STRCMP_EQUAL) names)
     in mark_ends p names ss (n + k)
          (if k = 0 then w else upd_step p s (\<lambda>x. x\<lparr>s_internalRole := SSC_STEPROLE_END\<rparr>) w))"

definition ssc_SequentialStateChart_endStepName_set ::
    "OV_UINT \<Rightarrow> bool \<Rightarrow> bool \<Rightarrow> bool \<Rightarrow> objptr \<Rightarrow> OV_STRING \<Rightarrow> charts \<Rightarrow> OV_RESULT \<times> charts" where
  "ssc_SequentialStateChart_endStepName_set maxlen mem same heap p value w =
    (if ov_string_compare value (Some []) = OV_STRCMP_EQUAL then (OV_ERR_OK, w)
     else
       let (count, pEndStepList) = ov_string_split heap value (Some '','');
           (n, w) = mark_ends p (case pEndStepList of None \<Rightarrow> [] | Some l \<Rightarrow> l) (steps (w p)) 1 w
       in if n < count then (OV_ERR_BADVALUE, chart_error p ''Could not set all end steps.'' w)
          else
            let (result, name) = ov_string_setvalue maxlen mem same (Some (endStepName (w p))) value
            in (result, upd_chart p (\<lambda>c. c\<lparr>endStepName := (case name of Some n \<Rightarrow> n | None \<Rightarrow> endStepName c)\<rparr>) w))"

text \<open>Resetting: all steps, then the init step (the last start step of the list) becomes active, then
  the charts among the actions. \<open>fuel\<close> bounds the nesting of charts.\<close>

definition reset_steps :: "objptr \<Rightarrow> charts \<Rightarrow> charts" where
  "reset_steps p w = fold (ssc_step_resetStep p) (steps (w p)) w"

definition find_init :: "chart \<Rightarrow> objptr option" where
  "find_init c = find (\<lambda>s. s_internalRole (step_of c s) = SSC_STEPROLE_START) (rev (steps c))"

fun ssc_SequentialStateChart_resetSsc :: "nat \<Rightarrow> objptr \<Rightarrow> charts \<Rightarrow> (OV_RESULT \<times> charts) option"
  and reset_actions :: "nat \<Rightarrow> objptr list \<Rightarrow> charts \<Rightarrow> (OV_RESULT \<times> charts) option" where
  "ssc_SequentialStateChart_resetSsc 0 p w = None"
| "ssc_SequentialStateChart_resetSsc (Suc fuel) p w =
    (let w = reset_steps p w
     in case find_init (w p) of
          None \<Rightarrow> Some (OV_ERR_BADPATH, chart_error p ''No INIT step is defined.'' w)
        | Some s \<Rightarrow>
            (let (result, w) = link_active p s w
             in if Ov_Fail result then Some (result, w)
                else reset_actions fuel (action_charts (w p)) w))"
| "reset_actions fuel [] w = Some (OV_ERR_OK, w)"
| "reset_actions 0 (a # as) w = None"
| "reset_actions (Suc fuel) (a # as) w =
    (case ssc_SequentialStateChart_resetSsc fuel a
        (upd_chart a (\<lambda>c. c\<lparr>c_actimode := FB_AM_ON, EN := SSC_CMD_STOP\<rparr>) w) of
       None \<Rightarrow> None
     | Some (result, w) \<Rightarrow> if Ov_Fail result then Some (result, w) else reset_actions fuel as w)"

text \<open>One round of the loop over the working state: go on, leave the loop, or return from the type
  method.\<close>

datatype flow = Again | Done | Return

definition set_wost :: "OV_UINT \<Rightarrow> chart \<Rightarrow> chart" where
  "set_wost s c = c\<lparr>workingState := s\<rparr>"

text \<open>The end of every transition phase: back to the entry phase, with the entry qualifier if the
  state was left.\<close>

definition end_transitions :: "OV_UINT \<Rightarrow> chart \<Rightarrow> chart" where
  "end_transitions s c =
    (if workingState c \<noteq> s then c\<lparr>woStQualifier := SSC_QUALIFIER_ENTRY\<rparr> else c)\<lparr>woStPhase := SSC_PHASE_ENTRYDO\<rparr>"

definition end_transitions_exit :: "OV_UINT \<Rightarrow> chart \<Rightarrow> chart" where
  "end_transitions_exit s c =
    (let c = (if workingState c \<noteq> s then c\<lparr>woStQualifier := SSC_QUALIFIER_EXIT\<rparr> else c);
         c = (if woStQualifier c = SSC_QUALIFIER_EXIT then c\<lparr>woStQualifier := SSC_QUALIFIER_ENTRY\<rparr> else c)
     in c\<lparr>woStPhase := SSC_PHASE_ENTRYDO\<rparr>)"

definition enter_state :: "string \<Rightarrow> chart \<Rightarrow> chart" where
  "enter_state name c =
    (if woStQualifier c = SSC_QUALIFIER_ENTRY
     then c\<lparr>woStText := Some name, woStQualifier := SSC_QUALIFIER_DO\<rparr> else c)"

definition exittrans_phase :: "chart \<Rightarrow> chart" where
  "exittrans_phase c = c\<lparr>woStPhase := SSC_PHASE_EXITTRANS\<rparr>"

definition reset_and :: "nat \<Rightarrow> objptr \<Rightarrow> (chart \<Rightarrow> chart) \<Rightarrow> charts \<Rightarrow> (flow \<times> charts) option" where
  "reset_and fuel p f w =
    map_option (\<lambda>(result, w). if Ov_Fail result then (Return, w) else (Done, upd_chart p f w))
      (ssc_SequentialStateChart_resetSsc fuel p w)"

definition set_active :: "objptr \<Rightarrow> objptr option \<Rightarrow> (ssc_step \<Rightarrow> ssc_step) \<Rightarrow> charts \<Rightarrow> charts" where
  "set_active p pActiveStep f w = (case pActiveStep of None \<Rightarrow> w | Some s \<Rightarrow> upd_step p s f w)"

definition wost_init :: "nat \<Rightarrow> objptr \<Rightarrow> charts \<Rightarrow> (flow \<times> charts) option" where
  "wost_init fuel p w =
    (if woStPhase (w p) = SSC_PHASE_ENTRYDO then
       reset_and fuel p exittrans_phase (upd_chart p (enter_state ''INIT'') w)
     else if woStPhase (w p) = SSC_PHASE_EXITTRANS then
       Some (Again, upd_chart p (\<lambda>c. end_transitions SSC_WOST_INIT
         (if EN c = SSC_CMD_START then set_wost SSC_WOST_START c else c)) w)
     else Some (Done, w))"

definition wost_start :: "objptr \<Rightarrow> objptr option \<Rightarrow> charts \<Rightarrow> flow \<times> charts" where
  "wost_start p pActiveStep w =
    (if woStPhase (w p) = SSC_PHASE_ENTRYDO then
       (Done, upd_chart p exittrans_phase
         (set_active p pActiveStep (\<lambda>x. x\<lparr>s_actimode := FB_AM_ON\<rparr>)
           (upd_chart p (enter_state ''START'') w)))
     else if woStPhase (w p) = SSC_PHASE_EXITTRANS then
       (Again, upd_chart p (\<lambda>c. end_transitions SSC_WOST_START
         (if EN c = SSC_CMD_BREAK then set_wost SSC_WOST_BREAK c
          else if EN c = SSC_CMD_STOP then set_wost SSC_WOST_STOP c
          else if EN c = SSC_CMD_RESET then set_wost SSC_WOST_TERMINATE c
          else c)) w)
     else (Done, w))"

definition wost_break :: "objptr \<Rightarrow> objptr option \<Rightarrow> charts \<Rightarrow> flow \<times> charts" where
  "wost_break p pActiveStep w =
    (if woStPhase (w p) = SSC_PHASE_ENTRYDO then
       (let w = (if woStQualifier (w p) = SSC_QUALIFIER_ENTRY
                 then set_active p pActiveStep (\<lambda>x. x\<lparr>s_actimode := FB_AM_ON\<rparr>) w else w);
            w = upd_chart p (enter_state ''BREAK'') w;
            w = set_active p pActiveStep
                  (\<lambda>x. x\<lparr>s_actimode := FB_AM_OFF, s_phase := SSC_PHASE_ENTRYDO, s_X := False\<rparr>) w
        in (Done, upd_chart p exittrans_phase w))
     else if woStPhase (w p) = SSC_PHASE_EXITTRANS then
       (Again, upd_chart p (\<lambda>c. end_transitions_exit SSC_WOST_BREAK
         (let d = (if EN c = SSC_CMD_STOP then set_wost SSC_WOST_STOP c
                   else if EN c = SSC_CMD_START then set_wost SSC_WOST_START c else c)
          in if EN c = SSC_CMD_RESET then set_wost SSC_WOST_TERMINATE d else d)) w)
     else (Done, w))"

definition wost_stop :: "nat \<Rightarrow> ssc_env \<Rightarrow> objptr \<Rightarrow> objptr option \<Rightarrow> charts \<Rightarrow> (flow \<times> charts) option" where
  "wost_stop fuel env p pActiveStep w =
    (if woStPhase (w p) = SSC_PHASE_ENTRYDO then
       (case (if woStQualifier (w p) = SSC_QUALIFIER_ENTRY then
                map_option (upd_chart p (\<lambda>c. c\<lparr>woStText := Some ''STOP'', woStQualifier := SSC_QUALIFIER_DO\<rparr>))
                  (case pActiveStep of
                     None \<Rightarrow> Some (chart_error p ''Internal Error (active Step unset)'' w)
                   | Some s \<Rightarrow> ssc_step_typemethod fuel env p s w)
              else Some w) of
          None \<Rightarrow> None
        | Some w \<Rightarrow> reset_and fuel p exittrans_phase w)
     else if woStPhase (w p) = SSC_PHASE_EXITTRANS then
       Some (Again, upd_chart p (\<lambda>c. end_transitions_exit SSC_WOST_STOP
         (let d = (if EN c = SSC_CMD_START then set_wost SSC_WOST_START c else c)
          in if EN c = SSC_CMD_RESET then set_wost SSC_WOST_TERMINATE d else d)) w)
     else Some (Done, w))"

definition wost_terminate :: "nat \<Rightarrow> objptr \<Rightarrow> charts \<Rightarrow> (flow \<times> charts) option" where
  "wost_terminate fuel p w =
    (if EN (w p) = SSC_CMD_RESET then
       reset_and fuel p (\<lambda>c. c\<lparr>woStPhase := SSC_PHASE_EXITTRANS, workingState := SSC_WOST_INIT,
         EN := SSC_CMD_STOP\<rparr>) w
     else Some (Done, w))"

definition working_state :: "nat \<Rightarrow> ssc_env \<Rightarrow> objptr \<Rightarrow> objptr option \<Rightarrow> charts \<Rightarrow> (flow \<times> charts) option" where
  "working_state fuel env p pActiveStep w =
    (if workingState (w p) = SSC_WOST_INIT then wost_init fuel p w
     else if workingState (w p) = SSC_WOST_START then Some (wost_start p pActiveStep w)
     else if workingState (w p) = SSC_WOST_BREAK then Some (wost_break p pActiveStep w)
     else if workingState (w p) = SSC_WOST_STOP then wost_stop fuel env p pActiveStep w
     else if workingState (w p) = SSC_WOST_TERMINATE then wost_terminate fuel p w
     else Some (Done, w))"

fun chart_loop :: "nat \<Rightarrow> nat \<Rightarrow> ssc_env \<Rightarrow> objptr \<Rightarrow> objptr option \<Rightarrow> charts \<Rightarrow> (flow \<times> charts) option" where
  "chart_loop 0 fuel env p pActiveStep w = None"
| "chart_loop (Suc rounds) fuel env p pActiveStep w =
    (case working_state fuel env p pActiveStep w of
       Some (Again, w) \<Rightarrow> chart_loop rounds fuel env p pActiveStep w
     | r \<Rightarrow> r)"

text \<open>Creating a chart creates the steps INIT and END; the addresses are those of the new objects.\<close>

definition new_step :: "objptr \<Rightarrow> objptr \<Rightarrow> string \<Rightarrow> ssc_step \<Rightarrow> charts \<Rightarrow> charts" where
  "new_step p s name x w =
    upd_chart p (\<lambda>c. c\<lparr>steps := steps c @ [s], step_name := (step_name c)(s := name),
      step_of := (step_of c)(s := x), step_task := (step_task c)(s := None)\<rparr>) w"

definition ssc_SequentialStateChart_constructor ::
    "OV_RESULT \<Rightarrow> objptr \<Rightarrow> ssc_step \<Rightarrow> objptr \<Rightarrow> ssc_step \<Rightarrow> objptr \<Rightarrow> charts \<Rightarrow> OV_RESULT \<times> charts" where
  "ssc_SequentialStateChart_constructor base i istep e estep p w =
    (if Ov_Fail base then (base, w)
     else
       let w = new_step p i ''INIT'' (istep\<lparr>s_internalRole := SSC_STEPROLE_START, s_actimode := FB_AM_ON\<rparr>) w;
           w = new_step p e ''END'' (estep\<lparr>s_internalRole := SSC_STEPROLE_END\<rparr>) w
       in (OV_ERR_OK, upd_chart p (\<lambda>c. c\<lparr>workingState := SSC_WOST_INIT, c_actimode := FB_AM_ON, c_iexreq := True\<rparr>) w))"

text \<open>One cycle of a chart.\<close>

definition chart_begin :: "objptr \<Rightarrow> OV_TIME \<Rightarrow> charts \<Rightarrow> charts" where
  "chart_begin p ltc = upd_chart p (\<lambda>c. c
    \<lparr>intask := (intask c)\<lparr>v_actimode := FB_AM_ON, v_cyctime := no_span, v_proctime := ltc\<rparr>,
     c_error := False, c_errorDetail := None,
     taskActiveStep := (taskActiveStep c)\<lparr>v_actimode := FB_AM_ON, v_cyctime := no_span\<rparr>,
     trans := (trans c)\<lparr>v_actimode := FB_AM_ON\<rparr>\<rparr>)"

fun exec_active :: "nat \<Rightarrow> ssc_env \<Rightarrow> objptr \<Rightarrow> objptr option \<Rightarrow> charts \<Rightarrow> charts option" where
  "exec_active fuel env p None w = Some w"
| "exec_active 0 env p (Some s) w = None"
| "exec_active (Suc fuel) env p (Some s) w =
    (let next = (if step_task (w p) s = Some (active_task (w p)) then next_in (active_list (w p)) s else None)
     in case step_execute fuel env p s w of
          None \<Rightarrow> None | Some w \<Rightarrow> exec_active fuel env p next w)"

definition execute_active :: "nat \<Rightarrow> ssc_env \<Rightarrow> objptr \<Rightarrow> OV_TIME \<Rightarrow> charts \<Rightarrow> charts option" where
  "execute_active fuel env p ltc w =
    (if ov_time_compare (v_proctime (taskActiveStep (w p))) ltc = OV_TIMECMP_AFTER
        \<or> v_actimode (taskActiveStep (w p)) = FB_AM_OFF then Some w
     else exec_active fuel env p (first_of (active_list (w p))) w)"

definition ssc_SequentialStateChart_typemethod ::
    "nat \<Rightarrow> ssc_env \<Rightarrow> objptr \<Rightarrow> OV_TIME \<Rightarrow> charts \<Rightarrow> charts option" where
  "ssc_SequentialStateChart_typemethod fuel env p ltc w =
    (let w = chart_inputs env p (chart_begin p ltc w);
         pActiveStep = first_of (active_list (w p));
         w = set_active p pActiveStep (\<lambda>x. x\<lparr>s_actimode := FB_AM_OFF\<rparr>) w
     in case chart_loop 2 fuel env p pActiveStep w of
          None \<Rightarrow> None
        | Some (Return, w) \<Rightarrow> Some w
        | Some (_, w) \<Rightarrow>
            map_option (\<lambda>w. chart_outputs env p (run_intask env p (run_trans env p w)))
              (execute_active fuel env p ltc w))"

definition ssc_SequentialStateChart_activeStep_get :: "charts \<Rightarrow> objptr \<Rightarrow> OV_STRING" where
  "ssc_SequentialStateChart_activeStep_get w p =
    (case first_of (active_list (w p)) of None \<Rightarrow> None | Some s \<Rightarrow> Some (step_name (w p) s))"

section \<open>Lemmas\<close>

lemma upd_chart_at [simp]: "upd_chart p f w p = f (w p)"
  by (simp add: upd_chart_def)

lemma upd_chart_other [simp]: "q \<noteq> p \<Longrightarrow> upd_chart p f w q = w q"
  by (simp add: upd_chart_def)

text \<open>Updates of a step touch nothing but its entry.\<close>

lemma upd_step_fields [simp]:
  "steps (upd_step p s f w q) = steps (w q)"
  "active_list (upd_step p s f w q) = active_list (w q)"
  "active_task (upd_step p s f w q) = active_task (w q)"
  "step_task (upd_step p s f w q) = step_task (w q)"
  "workingState (upd_step p s f w q) = workingState (w q)"
  "transition_of (upd_step p s f w q) = transition_of (w q)"
  "nextTransitions (upd_step p s f w q) = nextTransitions (w q)"
  "action_charts (upd_step p s f w q) = action_charts (w q)"
  "step_name (upd_step p s f w q) = step_name (w q)"
  by (simp_all add: upd_step_def upd_chart_def)

lemma upd_step_at [simp]:
  "step_of (upd_step p s f w p) s = f (step_of (w p) s)"
  "t \<noteq> s \<Longrightarrow> step_of (upd_step p s f w p) t = step_of (w p) t"
  by (simp_all add: upd_step_def)

lemma unlink_step_fields [simp]:
  "steps (unlink_step p s w q) = steps (w q)"
  "step_of (unlink_step p s w q) = step_of (w q)"
  "active_task (unlink_step p s w q) = active_task (w q)"
  "workingState (unlink_step p s w q) = workingState (w q)"
  "transition_of (unlink_step p s w q) = transition_of (w q)"
  "step_task (unlink_step p s w p) s = None"
  "t \<noteq> s \<Longrightarrow> step_task (unlink_step p s w p) t = step_task (w p) t"
  by (simp_all add: unlink_step_def upd_chart_def)

section \<open>The command automaton\<close>

text \<open>What a command does to a working state, by the list of states and commands of the header.\<close>

definition cmd_next :: "OV_UINT \<Rightarrow> OV_UINT \<Rightarrow> OV_UINT" where
  "cmd_next s cmd =
    (if cmd = SSC_CMD_RESET \<and> s \<in> {SSC_WOST_START, SSC_WOST_BREAK, SSC_WOST_STOP} then SSC_WOST_TERMINATE
     else if cmd = SSC_CMD_START \<and> s \<in> {SSC_WOST_INIT, SSC_WOST_BREAK, SSC_WOST_STOP} then SSC_WOST_START
     else if cmd = SSC_CMD_STOP \<and> s \<in> {SSC_WOST_START, SSC_WOST_BREAK} then SSC_WOST_STOP
     else if cmd = SSC_CMD_BREAK \<and> s = SSC_WOST_START then SSC_WOST_BREAK
     else s)"

lemma end_transitions_fields [simp]:
  "workingState (end_transitions s c) = workingState c"
  "woStPhase (end_transitions s c) = SSC_PHASE_ENTRYDO"
  "workingState (end_transitions_exit s c) = workingState c"
  "woStPhase (end_transitions_exit s c) = SSC_PHASE_ENTRYDO"
  "workingState (set_wost s c) = s"
  "EN (set_wost s c) = EN c"
  by (simp_all add: end_transitions_def end_transitions_exit_def set_wost_def Let_def)

lemma reset_and_flow: "reset_and fuel p f w = Some (fl, w') \<Longrightarrow> fl \<noteq> Again"
  by (auto simp: reset_and_def split: if_splits)

lemma entry_round_done:
  assumes "woStPhase (w p) = SSC_PHASE_ENTRYDO" "working_state fuel env p a w = Some (fl, w')"
  shows "fl \<noteq> Again"
  using assms
  by (auto simp: working_state_def wost_init_def wost_start_def wost_break_def wost_stop_def
      wost_terminate_def Let_def dest: reset_and_flow split: if_splits option.splits)

lemma again_round:
  assumes "working_state fuel env p a w = Some (Again, w')"
  shows "woStPhase (w' p) = SSC_PHASE_ENTRYDO \<and> workingState (w' p) = cmd_next (workingState (w p)) (EN (w p)) \<and>
    active_list (w' p) = active_list (w p) \<and> (\<forall>q. q \<noteq> p \<longrightarrow> w' q = w q)"
  using assms
  by (auto simp: working_state_def wost_init_def wost_start_def wost_break_def wost_stop_def
      wost_terminate_def Let_def cmd_next_def end_transitions_def end_transitions_exit_def set_wost_def
      dest: reset_and_flow split: if_splits option.splits)

section \<open>Transitions between steps\<close>

lemma check_transitions_fired:
  "s_evTransTrigger (step_at w p s) \<Longrightarrow> check_transitions p s ts nx w = (nx, w)"
  by (induction ts) simp_all

lemma link_active_fields [simp]:
  "step_of (snd (link_active p n w) q) = step_of (w q)"
  "transition_of (snd (link_active p n w) q) = transition_of (w q)"
  by (simp_all add: link_active_def upd_chart_def)

lemma step_failed_fields [simp]:
  "s_evTransTrigger (step_of (step_failed p s d w p) t) = s_evTransTrigger (step_of (w p) t)"
  by (cases "t = s") (simp_all add: step_failed_def)

lemma link_next_trigger: "s_evTransTrigger (step_of (link_next p s n w p) t) = s_evTransTrigger (step_of (w p) t)"
  by (cases "t = n") (auto simp: link_next_def Let_def link_active_def split: prod.split)

text \<open>The loop over the transitions takes the first one whose result is set.\<close>

lemma check_transitions_first:
  assumes "\<not> s_evTransTrigger (step_at w p s)"
  shows "check_transitions p s ts None w =
    (case find (\<lambda>t. t_result (transition_of (w p) t)) ts of
       None \<Rightarrow> (None, w)
     | Some t \<Rightarrow>
         let w = upd_step p s (\<lambda>x. x\<lparr>s_evTransTrigger := True\<rparr>) w
         in case nextStep (transition_of (w p) t) of
              Some n \<Rightarrow> (Some n, link_next p s n w)
            | None \<Rightarrow> (None, step_failed p s ''Internal associations not clean. Giving up.'' w))"
  using assms
  by (induction ts) (auto simp: Let_def check_transitions_fired link_next_trigger split: option.splits)

lemma execute_part_off: "part_mode x (step_at w p s) = FB_AM_OFF \<Longrightarrow> execute_part env x p s w = w"
  by (simp add: execute_part_def)

text \<open>Environments whose actions leave the activity of the chart alone.\<close>

definition keeps_activity :: "ssc_env \<Rightarrow> objptr \<Rightarrow> bool" where
  "keeps_activity env p \<longleftrightarrow>
    (\<forall>x s w. active_list (part_actions env x p s w p) = active_list (w p) \<and>
       step_task (part_actions env x p s w p) = step_task (w p)) \<and>
    (\<forall>s w. active_list (stop_subcharts env p s w p) = active_list (w p) \<and>
       step_task (stop_subcharts env p s w p) = step_task (w p))"

lemma execute_part_activity:
  assumes "keeps_activity env p"
  shows "active_list (execute_part env x p s w p) = active_list (w p)"
    "step_task (execute_part env x p s w p) = step_task (w p)"
  using assms by (simp_all add: execute_part_def keeps_activity_def Let_def)

lemma unlink_step_active:
  "step_task (w p) s \<noteq> None \<Longrightarrow> active_list (unlink_step p s w p) = removeAll s (active_list (w p))"
  by (auto simp: unlink_step_def)

lemma leave_step_activity:
  assumes "keeps_activity env p" "step_task (w p) s \<noteq> None"
  shows "active_list (leave_step env p s w p) = removeAll s (active_list (w p))"
    "step_task (leave_step env p s w p) = (step_task (w p))(s := None)"
    "\<not> s_X (step_at (leave_step env p s w) p s)"
  using assms
  by (auto simp: leave_step_def Let_def unlink_step_def execute_part_activity)
    (auto simp: keeps_activity_def)

lemma link_next_free:
  assumes "step_task (w p) n = None"
  shows "active_list (link_next p s n w p) = active_list (w p) @ [n]"
    "step_task (link_next p s n w p) = (step_task (w p))(n := Some (active_task (w p)))"
    "step_at (link_next p s n w) p n = (step_at w p n)\<lparr>s_actimode := FB_AM_ON, s_phase := SSC_PHASE_ENTRYDO,
       s_qualifier := SSC_QUALIFIER_ENTRY\<rparr>"
  using assms by (simp_all add: link_next_def link_active_def unlink_step_def Ov_Fail_def)

section \<open>Resetting\<close>

text \<open>The active steps are steps of the chart, and they are the steps with the active-step task as
  their task parent.\<close>

definition activity_ok :: "chart \<Rightarrow> bool" where
  "activity_ok c \<longleftrightarrow> set (active_list c) \<subseteq> set (steps c) \<and>
    (\<forall>s \<in> set (active_list c). step_task c s = Some (active_task c))"

definition step_is_reset :: "ssc_step \<Rightarrow> bool" where
  "step_is_reset x \<longleftrightarrow> s_actimode x = FB_AM_OFF \<and> \<not> s_X x \<and> s_phase x = SSC_PHASE_ENTRYDO \<and>
    s_qualifier x = SSC_QUALIFIER_ENTRY \<and> entry_actimode x = FB_AM_ON \<and> do_actimode x = FB_AM_ON \<and>
    exit_actimode x = FB_AM_OFF"

lemma resetStep_fields:
  "steps (ssc_step_resetStep p s w p) = steps (w p)"
  "active_task (ssc_step_resetStep p s w p) = active_task (w p)"
  "action_charts (ssc_step_resetStep p s w p) = action_charts (w p)"
  "step_task (ssc_step_resetStep p s w p) = (step_task (w p))(s := None)"
  "step_is_reset (step_at (ssc_step_resetStep p s w) p s)"
  "t \<noteq> s \<Longrightarrow> step_at (ssc_step_resetStep p s w) p t = step_at w p t"
  "s_internalRole (step_at (ssc_step_resetStep p s w) p t) = s_internalRole (step_at w p t)"
  "(\<forall>x \<in> set (active_list (w p)). step_task (w p) x \<noteq> None) \<Longrightarrow>
    active_list (ssc_step_resetStep p s w p) = removeAll s (active_list (w p))"
  by (cases "t = s"; auto simp: ssc_step_resetStep_def Let_def upd_step_def unlink_step_def step_is_reset_def
      intro!: removeAll_id [symmetric])+

lemma reset_list:
  fixes ss :: "objptr list"
  assumes "\<forall>x \<in> set (active_list (w p)). step_task (w p) x \<noteq> None"
  defines "w' \<equiv> fold (ssc_step_resetStep p) ss w"
  shows "steps (w' p) = steps (w p) \<and> active_task (w' p) = active_task (w p) \<and>
    action_charts (w' p) = action_charts (w p) \<and>
    (\<forall>t. s_internalRole (step_at w' p t) = s_internalRole (step_at w p t)) \<and>
    (\<forall>t. step_task (w' p) t = (if t \<in> set ss then None else step_task (w p) t)) \<and>
    (\<forall>t \<in> set ss. step_is_reset (step_at w' p t)) \<and>
    active_list (w' p) = filter (\<lambda>x. x \<notin> set ss) (active_list (w p))"
  unfolding w'_def using assms(1)
proof (induction ss arbitrary: w)
  case (Cons s ss)
  let ?w = "ssc_step_resetStep p s w"
  have "\<forall>x \<in> set (active_list (?w p)). step_task (?w p) x \<noteq> None"
    using Cons.prems by (auto simp: resetStep_fields)
  note ih = Cons.IH [of ?w, OF this]
  have r: "step_is_reset (step_at (fold (ssc_step_resetStep p) ss ?w) p s)"
  proof (cases "s \<in> set ss")
    case False
    have "step_at (fold (ssc_step_resetStep p) ss u) p s = step_at u p s" if "s \<notin> set ss" for ss u
      using that by (induction ss arbitrary: u) (auto simp: resetStep_fields)
    from this [OF False] show ?thesis by (simp add: resetStep_fields)
  qed (use ih in blast)
  show ?case
    using ih r Cons.prems
    by (auto simp: resetStep_fields removeAll_filter_not_eq filter_filter conj_commute intro: filter_cong)
qed simp

lemma reset_steps_all:
  assumes "activity_ok (w p)"
  shows "active_list (reset_steps p w p) = []" "s \<in> set (steps (w p)) \<Longrightarrow> step_task (reset_steps p w p) s = None"
    "find_init (reset_steps p w p) = find_init (w p)"
    "action_charts (reset_steps p w p) = action_charts (w p)"
    "s \<in> set (steps (w p)) \<Longrightarrow> step_is_reset (step_at (reset_steps p w) p s)"
    "steps (reset_steps p w p) = steps (w p)"
  using assms reset_list [of w p "steps (w p)"]
  by (auto simp: activity_ok_def reset_steps_def find_init_def subset_eq filter_empty_conv)

text \<open>The state when the own steps of the chart are reset and its init step is linked.\<close>

lemma resetSsc_step:
  assumes "activity_ok (w p)" "find_init (w p) = Some s"
  shows "\<exists>w1. ssc_SequentialStateChart_resetSsc (Suc fuel) p w = reset_actions fuel (action_charts (w p)) w1 \<and>
    active_list (w1 p) = [s] \<and> step_task (w1 p) s = Some (active_task (w1 p)) \<and>
    (\<forall>t \<in> set (steps (w p)). step_is_reset (step_at w1 p t))"
proof -
  have s: "s \<in> set (steps (w p))"
    using assms(2) by (auto simp: find_init_def find_Some_iff) (metis length_rev nth_mem set_rev)
  note r = reset_steps_all [of w p, OF assms(1)]
  show ?thesis
    using assms(2) r s
    by (intro exI [of _ "snd (link_active p s (reset_steps p w))"])
      (auto simp: Let_def link_active_def Ov_Fail_def)
qed

section \<open>End steps\<close>

lemma mark_ends_none:
  "\<forall>s \<in> set ss. \<forall>x \<in> set names. step_name (w p) s \<noteq> x \<Longrightarrow> mark_ends p names ss n w = (n, w)"
proof (induction ss)
  case (Cons s ss)
  then have "filter (\<lambda>x. ov_string_compare (Some (step_name (w p) s)) (Some x) = OV_STRCMP_EQUAL) names = []"
    by (auto simp: filter_empty_conv ov_string_compare_value strcmp_consts)
  then show ?case using Cons by (simp add: Let_def)
qed simp

lemma split_single: "\<not> occurs sep v \<Longrightarrow> sep \<noteq> [] \<Longrightarrow> v \<noteq> [] \<Longrightarrow>
    ov_string_split True (Some v) (Some sep) = (1, Some [v])"
  using strstr_occurs [of sep v]
  by (auto simp: ov_string_split_def split_count.simps split_cut.simps split: option.splits)

section \<open>Properties\<close>

text \<open>C28: The loop over the working state of a chart is the command automaton: a round that asks for
  another round has moved the working state as \<open>cmd_next\<close> says (INIT waits for START; START goes to
  BREAK, STOP or, by RESET, TERMINATE; BREAK and STOP go on by START or end by RESET), has changed
  nothing else of the activity and no other chart, and the next round is the last. Two rounds of
  the loop are enough.\<close>
theorem commands_move_working_state:
  assumes "working_state fuel env p a w = Some (Again, w1)"
  shows "workingState (w1 p) = cmd_next (workingState (w p)) (EN (w p)) \<and>
    active_list (w1 p) = active_list (w p) \<and> (\<forall>q. q \<noteq> p \<longrightarrow> w1 q = w q) \<and>
    (\<forall>w2. working_state fuel env p a w1 \<noteq> Some (Again, w2))"
  using again_round [OF assms] entry_round_done [of w1 p fuel env a] by blast

definition demo_step :: ssc_step where
  "demo_step = \<lparr>s_actimode = 1, s_cyctime = no_span, s_iexreq = True, s_eexreq = False, s_X = True, s_T = no_span,
     s_phase = 2, s_qualifier = 2, s_internalRole = 0, s_evTransTrigger = False, s_error = False,
     s_errorDetail = None, s_startTime = \<lparr>secs = 5, usecs = 0\<rparr>, entry_actimode = 1, do_actimode = 1,
     exit_actimode = 0\<rparr>"

definition demo_chart :: chart where
  "demo_chart = \<lparr>EN = 2, initStepName = Some ''INIT'', endStepName = Some ''END'', woStPhase = 2, woStQualifier = 2,
     workingState = 1, woStText = Some ''START'', c_error = False, c_errorDetail = None, c_actimode = 1,
     c_iexreq = True, intask = demo_task, trans = demo_task, taskActiveStep = demo_task, steps = [10, 11],
     step_of = (\<lambda>s. if s = 10 then demo_step else demo_step\<lparr>s_internalRole := 999, s_X := False\<rparr>),
     step_name = (\<lambda>s. if s = 10 then ''INIT'' else ''END''), blocks_of = (\<lambda>s. []),
     block_of = (\<lambda>b. \<lparr>b_actimode = 1, b_cyctime = no_span, b_iexreq = True\<rparr>),
     nextTransitions = (\<lambda>s. if s = 10 then [20, 21] else []),
     transition_of = (\<lambda>t. \<lparr>t_result = (t = 21), t_error = False, t_errorDetail = None, prevStep = Some 10,
       nextStep = Some 11\<rparr>),
     active_task = 5, active_list = [10], step_task = (\<lambda>s. if s = 10 then Some 5 else None),
     action_charts = []\<rparr>"

definition demo_ssc_env :: ssc_env where
  "demo_ssc_env = \<lparr>start_clock = (\<lambda>s. \<lparr>secs = 6, usecs = 0\<rparr>), elapsed_clock = (\<lambda>s ph. \<lparr>secs = 6, usecs = 9\<rparr>),
     part_due = (\<lambda>x p s w. True), step_due = (\<lambda>p s w. True), part_actions = (\<lambda>x p s w. w),
     stop_subcharts = (\<lambda>p s w. w), step_inputs = (\<lambda>p s w. w), step_outputs = (\<lambda>p s w. w),
     chart_inputs = (\<lambda>p w. w), chart_outputs = (\<lambda>p w. w), run_trans = (\<lambda>p w. w), run_intask = (\<lambda>p w. w)\<rparr>"

theorem commands_move_working_state_witness:
  "\<exists>w1. working_state 3 demo_ssc_env 1 (Some 10) (\<lambda>q. demo_chart) = Some (Again, w1) \<and>
     workingState (w1 1) = SSC_WOST_BREAK \<and> active_list (w1 1) = [10]"
proof -
  let ?w = "\<lambda>q :: objptr. demo_chart"
  let ?w1 = "upd_chart 1 (\<lambda>c. end_transitions SSC_WOST_START (set_wost SSC_WOST_BREAK c)) ?w"
  have "working_state 3 demo_ssc_env 1 (Some 10) ?w = Some (Again, ?w1)"
    by (simp add: working_state_def wost_start_def demo_chart_def upd_chart_def)
  from commands_move_working_state [OF this] this show ?thesis
    by (auto simp: cmd_next_def demo_chart_def)
qed

text \<open>Of the transitions of a step the first one, in the order of the links, whose result is set
  fires, and no other: the loop over the transitions is a search for it.\<close>
lemma first_true_transition_fires:
  assumes "\<not> s_evTransTrigger (step_at w p s)"
  shows "check_transitions p s (nextTransitions (w p) s) None w =
    (case find (\<lambda>t. t_result (transition_of (w p) t)) (nextTransitions (w p) s) of
       None \<Rightarrow> (None, w)
     | Some t \<Rightarrow>
         let w = upd_step p s (\<lambda>x. x\<lparr>s_evTransTrigger := True\<rparr>) w
         in case nextStep (transition_of (w p) t) of
              Some n \<Rightarrow> (Some n, link_next p s n w)
            | None \<Rightarrow> (None, step_failed p s ''Internal associations not clean. Giving up.'' w))"
  using assms by (rule check_transitions_first)



text \<open>Resetting a chart whose active steps are its own leaves exactly the init step active, and
  every step off, with its flag cleared and at the start of its entry phase; then the charts among
  its actions are reset.\<close>
lemma reset_activates_init:
  assumes "activity_ok (w p)" and "find_init (w p) = Some s"
  shows "\<exists>w1. ssc_SequentialStateChart_resetSsc (Suc fuel) p w = reset_actions fuel (action_charts (w p)) w1 \<and>
    active_list (w1 p) = [s] \<and> step_task (w1 p) s = Some (active_task (w1 p)) \<and>
    (\<forall>t \<in> set (steps (w p)). step_is_reset (step_at w1 p t))"
  using assms by (rule resetSsc_step)

text \<open>The exit actions of a step are not executed when a transition leaves it: its part \<open>exit\<close>
  is off after a reset and is switched to \<open>FB_AM_ONCE\<close> only while the working state is STOP, although
  the comment in \<open>resetStep\<close> says it is executed on leaving the step. Whatever the actions are, the
  result is the same.\<close>
lemma exit_actions_skipped:
  assumes "workingState (stop_subcharts env p s w p) \<noteq> SSC_WOST_STOP"
    and "exit_actimode (step_at (stop_subcharts env p s w) p s) = FB_AM_OFF"
  shows "leave_step (env\<lparr>part_actions := actions\<rparr>) p s w = leave_step env p s w"
  using assms by (simp add: leave_step_def Let_def execute_part_off)

text \<open>The counter of \<open>endStepName_set\<close> starts at one, so a single name that no step has is accepted:
  nothing becomes an end step and no error is reported.\<close>

lemma unknown_end_step_accepted:
  assumes "v \<noteq> []" "\<not> occurs '','' v" "\<forall>s \<in> set (steps (w p)). step_name (w p) s \<noteq> v"
  shows "ssc_SequentialStateChart_endStepName_set 0 True False True p (Some v) w =
    (OV_ERR_OK, upd_chart p (\<lambda>c. c\<lparr>endStepName := Some v\<rparr>) w)"
proof -
  have "mark_ends p [v] (steps (w p)) 1 w = (1, w)"
    using assms(3) by (intro mark_ends_none) simp
  then show ?thesis
    using assms(1,2)
    by (simp add: ssc_SequentialStateChart_endStepName_set_def split_single setvalue_cases
        ov_string_compare_value strcmp_consts)
qed

end
