(* ===== verification/OvResult.thy ===== *)
theory OvResult
  imports OvPrelude
begin

text \<open>
  libov/ov_ov.h, ov_result.c: result codes as numbers and their texts. The models of the other
  theories use the datatype \<open>OV_RESULT\<close>; where the code combines codes bit by bit or prints them, the
  numbers are used.
\<close>

fun result_code :: "OV_RESULT \<Rightarrow> OV_UINT" where
  "result_code OV_ERR_OK = 0x0000"
| "result_code OV_ERR_GENERIC = 0x0001"
| "result_code OV_ERR_NOTIMPLEMENTED = 0x0003"
| "result_code OV_ERR_BADPARAM = 0x0004"
| "result_code OV_ERR_BADOBJTYPE = 0x0007"
| "result_code OV_ERR_BADPATH = 0x0011"
| "result_code OV_ERR_NOACCESS = 0x0013"
| "result_code OV_ERR_BADTYPE = 0x0014"
| "result_code OV_ERR_BADVALUE = 0x0017"
| "result_code OV_ERR_ALREADYEXISTS = 0x0031"
| "result_code OV_ERR_BADNAME = 0x0010"
| "result_code OV_ERR_BADFACTORY = 0x0030"
| "result_code OV_ERR_CANTMOVE = 0x0034"
| "result_code OV_ERR_BADINITPARAM = 0x0032"
| "result_code OV_ERR_BADPLACEMENT = 0x0033"
| "result_code OV_ERR_DBOUTOFMEMORY = 0x00010030"
| "result_code OV_ERR_HEAPOUTOFMEMORY = 0x00010031"

definition result_texts :: "(OV_UINT \<times> string) list" where
  "result_texts = [
    (0, ''ok''),
    (1, ''generic error''),
    (6, ''generic error in target''),
    (2, ''bad authentification''),
    (5, ''unknown authentification''),
    (3, ''not implemented''),
    (4, ''bad parameter''),
    (7, ''bad object type''),
    (0x0010, ''bad name''),
    (0x0011, ''bad path''),
    (0x0012, ''bad mask''),
    (0x0013, ''no access''),
    (0x0014, ''bad type''),
    (0x0016, ''bad selector''),
    (0x0017, ''bad value''),
    (0x0030, ''bad factory''),
    (0x0031, ''object already exists''),
    (0x0032, ''bad initialization parameter''),
    (0x0033, ''bad placement''),
    (0x0034, ''can'' @ [CHR 0x27] @ ''t move object''),
    (0x00010000, ''file already exists''),
    (0x00010001, ''can'' @ [CHR 0x27] @ ''t create file''),
    (0x00010002, ''can'' @ [CHR 0x27] @ ''t open file''),
    (0x00010003, ''can'' @ [CHR 0x27] @ ''t lock file''),
    (0x00010004, ''can'' @ [CHR 0x27] @ ''t read from file''),
    (0x00010005, ''can'' @ [CHR 0x27] @ ''t write to file''),
    (0x00010006, ''can'' @ [CHR 0x27] @ ''t map file to memory''),
    (0x00010007, ''bad database''),
    (0x00010010, ''can'' @ [CHR 0x27] @ ''t open library''),
    (0x00010020, ''mismatch of library definition''),
    (0x00010021, ''mismatch of structure definition''),
    (0x00010022, ''mismatch of class definition''),
    (0x00010023, ''mismatch of association definition''),
    (0x00010024, ''mismatch of variable definition''),
    (0x00010025, ''mismatch of part definition''),
    (0x00010026, ''mismatch of operation definition''),
    (0x00010027, ''unknown structure definition''),
    (0x00010028, ''unknown class definition''),
    (0x00010029, ''unknown association definition''),
    (0x00010030, ''database is out of memory''),
    (0x00010031, ''heap is out of memory'')]"

definition ov_result_getresulttext :: "OV_UINT \<Rightarrow> string" where
  "ov_result_getresulttext result =
    (case map_of result_texts result of Some t \<Rightarrow> t | None \<Rightarrow> ''unknown error code'')"

lemma result_code_zero [simp]: "result_code r = 0 \<longleftrightarrow> r = OV_ERR_OK" "0 = result_code r \<longleftrightarrow> r = OV_ERR_OK"
  by (cases r; simp)+

lemma result_code_inject: "result_code r = result_code r' \<longleftrightarrow> r = r'"
  by (cases r; cases r'; simp)

text \<open>Combining with \<open>|=\<close> keeps every failure.\<close>

lemma result_codes_or: "(a :: OV_UINT) OR b = 0 \<longleftrightarrow> a = 0 \<and> b = 0"
  by (rule or_eq_0_iff)

text \<open>No code stands twice in the table, nor a text.\<close>

lemma result_texts_distinct: "distinct (map fst result_texts)" "distinct (map snd result_texts)"
  by code_simp+

end
