(* ===== verification/SscAction.thy ===== *)
theory SscAction
  imports OvResult SscChart FbBlock OvPath
begin

text \<open>
  syslibs/functionblock/ssc/source/actionBlock.c, actionBlock_execute.c, actionBlock_setVariable.c,
  actionBlock_sendCommand.c, assoc_nextTransitions.c and assoc_previousTransitions.c: the blocks
  below the parts \<open>entry\<close>, \<open>do\<close> and \<open>exit\<close> of a step, which execute a function block, set a
  variable or send a command, and the links of the transitions. The names of the targets are paths,
  absolute or relative to the chart or to its part \<open>actions\<close>, resolved as in OvPath. The outer
  option of the results is \<open>None\<close> where the code reads what is not there (a null pointer, a path
  that was not resolved) or a called method does not return.
\<close>

section \<open>State\<close>

datatype 'v any_value = Val_void | Val_string OV_STRING | Val_bool bool | Val_other 'v

text \<open>\<open>targetName\<close> is \<open>v_targetObject\<close> of an execute or sendCommand block, the first of their own
  variables in both classes, and \<open>v_variable\<close> of a setVariable block.\<close>

record 'v action =
  actionQualifier :: OV_UINT
  act_error :: bool
  act_errorDetail :: OV_STRING
  targetName :: OV_STRING
  act_command :: OV_STRING
  act_parameter :: OV_STRING
  act_value :: "'v any_value"

record ('w, 'v) ssc_objects =
  fb :: "'w fb_objects"
  action_of :: "objptr \<Rightarrow> 'v action"
  chart_cmd :: "objptr \<Rightarrow> OV_UINT"

text \<open>\<open>parent_step\<close> is the containing step of a block and \<open>chart_of_step\<close> the chart of a step, both null
  when the container is of another class; the classes of objects are predicates.\<close>

record ('w, 'v) action_env =
  objects :: odb
  ids :: id_list
  depth :: nat
  memstack :: bool
  max_string :: OV_UINT
  db_memory :: bool
  parent_step :: "objptr \<Rightarrow> objptr option"
  chart_of_step :: "objptr \<Rightarrow> objptr option"
  actions_part :: "objptr \<Rightarrow> objptr"
  step_part :: "part \<Rightarrow> objptr \<Rightarrow> objptr"
  is_functionblock :: "objptr \<Rightarrow> bool"
  is_ssc :: "objptr \<Rightarrow> bool"
  is_functionchart :: "objptr \<Rightarrow> bool"
  is_port :: "objptr \<Rightarrow> bool"
  is_stringport :: "objptr \<Rightarrow> bool"
  is_anyport :: "objptr \<Rightarrow> bool"
  is_boolport :: "objptr \<Rightarrow> bool"
  ports_of_chart :: "objptr \<Rightarrow> objptr list"
  m_execute :: "objptr \<Rightarrow> OV_TIME \<Rightarrow> ('w, 'v) ssc_objects \<Rightarrow> ('w, 'v) ssc_objects option"
  get_var :: "objptr \<Rightarrow> OV_ELEMENT \<Rightarrow> ('w, 'v) ssc_objects \<Rightarrow> OV_RESULT \<times> 'v any_value \<times> ('w, 'v) ssc_objects"
  set_var :: "objptr \<Rightarrow> OV_ELEMENT \<Rightarrow> 'v any_value \<Rightarrow> ('w, 'v) ssc_objects \<Rightarrow> OV_RESULT \<times> ('w, 'v) ssc_objects"
  set_any :: "'v any_value \<Rightarrow> 'v any_value option \<Rightarrow> OV_RESULT \<times> 'v any_value"

abbreviation upd_action :: "objptr \<Rightarrow> ('v action \<Rightarrow> 'v action) \<Rightarrow> ('w, 'v) ssc_objects \<Rightarrow> ('w, 'v) ssc_objects" where
  "upd_action p f st \<equiv> st\<lparr>action_of := (action_of st)(p := f (action_of st p))\<rparr>"

abbreviation upd_tasks :: "(fbs \<Rightarrow> fbs) \<Rightarrow> ('w, 'v) ssc_objects \<Rightarrow> ('w, 'v) ssc_objects" where
  "upd_tasks f st \<equiv> st\<lparr>fb := (fb st)\<lparr>tasks := f (tasks (fb st))\<rparr>\<rparr>"

abbreviation task_at :: "('w, 'v) ssc_objects \<Rightarrow> objptr \<Rightarrow> task" where
  "task_at st p \<equiv> task (tasks (fb st)) p"

text \<open>A string that is set with \<open>ov_string_setvalue\<close> whose result nobody looks at.\<close>

definition new_string :: "('w, 'v) action_env \<Rightarrow> OV_STRING \<Rightarrow> OV_STRING \<Rightarrow> OV_STRING" where
  "new_string env cur v =
    (case snd (ov_string_setvalue (max_string env) (db_memory env) False (Some cur) v) of None \<Rightarrow> cur | Some s \<Rightarrow> s)"

definition action_error :: "('w, 'v) action_env \<Rightarrow> string \<Rightarrow> 'v action \<Rightarrow> 'v action" where
  "action_error env detail a =
    a\<lparr>act_error := True, act_errorDetail := new_string env (act_errorDetail a) (Some detail)\<rparr>"

section \<open>Blocks below the parts of a step\<close>

text \<open>\<open>Ov_Link\<close> at the end of \<open>fb_tasklist\<close>.\<close>

definition link_task :: "objptr \<Rightarrow> objptr \<Rightarrow> fbs \<Rightarrow> OV_RESULT \<times> fbs" where
  "link_task p c ts =
    (if task_parent ts c \<noteq> None then (OV_ERR_ALREADYEXISTS, ts)
     else (OV_ERR_OK, ts\<lparr>tasks_below := (tasks_below ts)(p := tasks_below ts p @ [c]),
             task_parent := (task_parent ts)(c := Some p)\<rparr>))"

definition leave_task :: "objptr \<Rightarrow> fbs \<Rightarrow> fbs" where
  "leave_task c ts = (case task_parent ts c of None \<Rightarrow> ts | Some q \<Rightarrow> unlink_task q c ts)"

definition qualifier_part :: "OV_UINT \<Rightarrow> part option" where
  "qualifier_part v =
    (if v = SSC_QUALIFIER_ENTRY then Some PEntry
     else if v = SSC_QUALIFIER_DO then Some PDo
     else if v = SSC_QUALIFIER_EXIT then Some PExit
     else None)"

definition ssc_actionBlock_actionQualifier_set :: "('w, 'v) action_env \<Rightarrow> objptr \<Rightarrow> OV_UINT \<Rightarrow> ('w, 'v) ssc_objects \<Rightarrow>
    OV_RESULT \<times> ('w, 'v) ssc_objects" where
  "ssc_actionBlock_actionQualifier_set env p v st =
    (case parent_step env p of
       None \<Rightarrow> (OV_ERR_BADPLACEMENT, st)
     | Some s \<Rightarrow>
         (case qualifier_part v of
            None \<Rightarrow> (OV_ERR_BADPARAM, st)
          | Some x \<Rightarrow>
              let ts = leave_task p (tasks (fb st));
                  (result, ts) = link_task (step_part env x s) p ts;
                  st = upd_tasks (\<lambda>_. ts) st
              in if Ov_Fail result then (result, st)
                 else (OV_ERR_OK, upd_action p (\<lambda>a. a\<lparr>actionQualifier := v\<rparr>) st)))"

definition ssc_actionBlock_constructor :: "('w, 'v) action_env \<Rightarrow> OV_RESULT \<Rightarrow> objptr \<Rightarrow> ('w, 'v) ssc_objects \<Rightarrow>
    OV_RESULT \<times> ('w, 'v) ssc_objects" where
  "ssc_actionBlock_constructor env base p st =
    (if Ov_Fail base then (base, st)
     else if parent_step env p = None then (OV_ERR_BADPLACEMENT, st)
     else
       let st = snd (ssc_actionBlock_actionQualifier_set env p (actionQualifier (action_of st p)) st);
           st = upd_tasks (\<lambda>ts. set_task p ((task ts p)\<lparr>v_cyctime := no_span, v_actimode := FB_AM_ON\<rparr>) ts) st
       in (OV_ERR_OK, st\<lparr>fb := (fb st)\<lparr>v_iexreq := (v_iexreq (fb st))(p := True)\<rparr>\<rparr>))"

definition ssc_actionBlock_getaccess :: "chart option \<Rightarrow> OV_UINT \<Rightarrow> OV_UINT \<Rightarrow> OV_UINT" where
  "ssc_actionBlock_getaccess activeHeader el_type access_code =
    (if el_type = OV_ET_OBJECT then deletable_access activeHeader access_code else access_code)"

section \<open>Finding the target\<close>

definition relative_name :: "OV_STRING \<Rightarrow> bool" where
  "relative_name n \<longleftrightarrow> (case n of Some s \<Rightarrow> s \<noteq> [] \<and> \<not> is_prefix ''/'' s | None \<Rightarrow> False)"

text \<open>The result of resolving the start point is not looked at: where it failed, the path that is
  given on has not been written.\<close>

definition getrelativeobjectpointer :: "('w, 'v) action_env \<Rightarrow> OV_STRING \<Rightarrow> OV_STRING \<Rightarrow> objptr option option" where
  "getrelativeobjectpointer env startPoint pathname =
    (case ov_path_resolve (depth env) (objects env) (ids env) (memstack env) None startPoint 2 of
       None \<Rightarrow> None
     | Some first \<Rightarrow>
         let startPointPath = (case first of Inl r \<Rightarrow> None | Inr els \<Rightarrow> those els)
         in if startPointPath = None \<and> relative_name pathname then None
            else case ov_path_resolve (depth env) (objects env) (ids env) (memstack env) startPointPath pathname 2 of
                None \<Rightarrow> None
              | Some (Inl r) \<Rightarrow> Some None
              | Some (Inr els) \<Rightarrow>
                  (case (if els = [] then None else last els) of
                     None \<Rightarrow> None
                   | Some e \<Rightarrow> if elemtype e = OV_ET_OBJECT then Some (el_pobj e) else Some None))"

text \<open>\<open>Ov_DynamicPtrCast\<close> and \<open>Ov_CanCastTo\<close>.\<close>

definition cast_to :: "(objptr \<Rightarrow> bool) \<Rightarrow> objptr option \<Rightarrow> objptr option" where
  "cast_to is_of p = (case p of None \<Rightarrow> None | Some q \<Rightarrow> if is_of q then Some q else None)"

definition path_text :: "('w, 'v) action_env \<Rightarrow> objptr option \<Rightarrow> OV_STRING option" where
  "path_text env p = ov_path_getcanonicalpath (depth env) (objects env) (memstack env) p 2"

definition relative_target :: "('w, 'v) action_env \<Rightarrow> (objptr \<Rightarrow> bool) \<Rightarrow> objptr \<Rightarrow> OV_STRING \<Rightarrow> objptr option option" where
  "relative_target env is_of s name =
    (case chart_of_step env s of
       None \<Rightarrow> None
     | Some h \<Rightarrow>
         (case path_text env (Some h) of
            None \<Rightarrow> None
          | Some path \<Rightarrow>
              let pathRelativeobject = new_string env None path
              in case map_option (cast_to is_of) (getrelativeobjectpointer env pathRelativeobject name) of
                  None \<Rightarrow> None
                | Some (Some t) \<Rightarrow> Some (Some t)
                | Some None \<Rightarrow>
                    (case path_text env (Some (actions_part env h)) of
                       None \<Rightarrow> None
                     | Some path \<Rightarrow>
                         map_option (cast_to is_of)
                           (getrelativeobjectpointer env (new_string env pathRelativeobject path) name))))"

definition find_target :: "('w, 'v) action_env \<Rightarrow> (objptr \<Rightarrow> bool) \<Rightarrow> objptr \<Rightarrow> OV_STRING \<Rightarrow> objptr option option" where
  "find_target env is_of s name =
    (case name of
       None \<Rightarrow> Some None
     | Some n \<Rightarrow>
         if is_prefix ''/'' n
         then map_option (cast_to is_of)
           (ov_path_getobjectpointer (depth env) (objects env) (ids env) (memstack env) name 2)
         else relative_target env is_of s name)"

definition ssc_getObjectFromExecute :: "('w, 'v) action_env \<Rightarrow> objptr \<Rightarrow> OV_STRING \<Rightarrow> objptr option option" where
  "ssc_getObjectFromExecute env s name = find_target env (is_functionblock env) s name"

section \<open>Executing a function block\<close>

text \<open>\<open>check\<close>: the checks of a block, with the messages of the code; on success the error is cleared.\<close>

definition ssc_execute_checkAction :: "('w, 'v) action_env \<Rightarrow> objptr \<Rightarrow> ('w, 'v) ssc_objects \<Rightarrow>
    (bool \<times> ('w, 'v) ssc_objects) option" where
  "ssc_execute_checkAction env p st =
    (case parent_step env p of
       None \<Rightarrow> Some (False, upd_action p (action_error env ''This ActionBlock is placed wrong.'') st)
     | Some s \<Rightarrow>
         if ov_string_compare (targetName (action_of st p)) None = OV_STRCMP_EQUAL
         then Some (False, upd_action p (action_error env ''Object to execute is not defined.'') st)
         else case ssc_getObjectFromExecute env s (targetName (action_of st p)) of
             None \<Rightarrow> None
           | Some None \<Rightarrow> Some (False, upd_action p (action_error env ''Configured Object not found.'') st)
           | Some (Some t) \<Rightarrow>
               Some (True, upd_action p (\<lambda>a. a\<lparr>act_error := False, act_errorDetail := new_string env (act_errorDetail a) None\<rparr>) st))"

definition ssc_execute_targetObject_set :: "('w, 'v) action_env \<Rightarrow> objptr \<Rightarrow> OV_STRING \<Rightarrow> ('w, 'v) ssc_objects \<Rightarrow>
    (OV_RESULT \<times> ('w, 'v) ssc_objects) option" where
  "ssc_execute_targetObject_set env p value st =
    (let result = fst (ov_string_setvalue (max_string env) (db_memory env) False (Some (targetName (action_of st p))) value);
         st = upd_action p (\<lambda>a. a\<lparr>targetName := new_string env (targetName a) value\<rparr>) st
     in if Ov_Fail result then Some (result, st)
        else map_option (\<lambda>(b, st). (result, st)) (ssc_execute_checkAction env p st))"

definition set_task_config :: "objptr \<Rightarrow> OV_INT \<Rightarrow> OV_TIME_SPAN \<Rightarrow> bool \<Rightarrow> ('w, 'v) ssc_objects \<Rightarrow> ('w, 'v) ssc_objects" where
  "set_task_config t mode cyctime iexreq st =
    (let st = upd_tasks (\<lambda>ts. set_task t ((task ts t)\<lparr>v_actimode := mode, v_cyctime := cyctime\<rparr>) ts) st
     in st\<lparr>fb := (fb st)\<lparr>v_iexreq := (v_iexreq (fb st))(t := iexreq)\<rparr>\<rparr>)"

definition start_if_chart :: "('w, 'v) action_env \<Rightarrow> objptr \<Rightarrow> ('w, 'v) ssc_objects \<Rightarrow> ('w, 'v) ssc_objects" where
  "start_if_chart env t st = (if is_ssc env t then st\<lparr>chart_cmd := (chart_cmd st)(t := SSC_CMD_START)\<rparr> else st)"

definition execute_once :: "('w, 'v) action_env \<Rightarrow> objptr \<Rightarrow> OV_TIME \<Rightarrow> ('w, 'v) ssc_objects \<Rightarrow> ('w, 'v) ssc_objects option" where
  "execute_once env t ltc st =
    map_option (set_task_config t (v_actimode (task_at st t)) (v_cyctime (task_at st t)) (v_iexreq (fb st) t))
      (m_execute env t ltc (start_if_chart env t (set_task_config t FB_AM_ONCE no_span True st)))"

definition ssc_execute_typemethod :: "('w, 'v) action_env \<Rightarrow> objptr \<Rightarrow> OV_TIME \<Rightarrow> ('w, 'v) ssc_objects \<Rightarrow>
    ('w, 'v) ssc_objects option" where
  "ssc_execute_typemethod env p ltc st =
    (case ssc_execute_checkAction env p st of
       None \<Rightarrow> None
     | Some (False, st) \<Rightarrow> Some st
     | Some (True, st) \<Rightarrow>
         (case ssc_getObjectFromExecute env (the (parent_step env p)) (targetName (action_of st p)) of
            Some (Some t) \<Rightarrow> execute_once env t ltc st
          | _ \<Rightarrow> None))"

section \<open>Setting a variable\<close>

text \<open>The character at an index of a C string: 0 behind the last one, \<open>None\<close> farther out. The loop goes
  from the end to the index 2; \<open>len - 1\<close> wraps around for the empty string.\<close>

definition c_char :: "string \<Rightarrow> OV_UINT \<Rightarrow> char option" where
  "c_char s i = (if unat i < length s then Some (s ! unat i) else if unat i = length s then Some CHR 0x00 else None)"

function seek_separator :: "string \<Rightarrow> char \<Rightarrow> OV_UINT \<Rightarrow> OV_UINT \<Rightarrow> OV_UINT option option" where
  "seek_separator s separator len i =
    (if i < len - 1 then
       (case c_char s (len - i) of
          None \<Rightarrow> None
        | Some c \<Rightarrow> if c = separator then Some (Some (len - i)) else seek_separator s separator len (i + 1))
     else Some None)"
  by pat_completeness auto

termination seek_separator
proof (relation "measure (\<lambda>(s, separator, len, i). unat (len - 1 - i))", goal_cases)
  case (2 s separator len i c)
  then have "len - 1 - i \<noteq> 0" by auto
  then have "unat (len - 1 - i - 1) < unat (len - 1 - i)" by (rule measure_unat)
  then have "unat (len - 1 - (i + 1)) < unat (len - 1 - i)" by (simp only: diff_diff_eq add.assoc)
  then show ?case by simp
qed simp

declare seek_separator.simps [simp del]

text \<open>The path and the name of the variable; the name is left as it is when there is no separator.\<close>

definition extractBehindSeperator :: "('w, 'v) action_env \<Rightarrow> OV_STRING \<Rightarrow> OV_STRING \<Rightarrow> OV_STRING \<Rightarrow> char \<Rightarrow>
    (OV_STRING \<times> OV_STRING) option" where
  "extractBehindSeperator env inputstring pathname varname separator =
    (case inputstring of
       None \<Rightarrow> Some (pathname, varname)
     | Some s \<Rightarrow>
         let pathname = new_string env pathname inputstring
         in case seek_separator s separator (ov_string_getlength inputstring) 0 of
             None \<Rightarrow> None
           | Some None \<Rightarrow> Some (pathname, varname)
           | Some (Some k) \<Rightarrow>
               (case pathname of
                  None \<Rightarrow> None
                | Some path \<Rightarrow>
                    Some (Some (take (unat k) path), new_string env varname (Some (drop (unat k + 1) s)))))"

definition port_container :: "('w, 'v) action_env \<Rightarrow> objptr option \<Rightarrow> objptr option" where
  "port_container env p = (case p of None \<Rightarrow> None | Some q \<Rightarrow> container (objects env) q)"

definition ssc_getObjectAndVarnameFromSetVariable :: "('w, 'v) action_env \<Rightarrow> objptr \<Rightarrow> OV_STRING \<Rightarrow>
    (objptr option \<times> OV_STRING) option" where
  "ssc_getObjectAndVarnameFromSetVariable env s name =
    (case extractBehindSeperator env name None None CHR ''.'' of
       None \<Rightarrow> None
     | Some (None, varname) \<Rightarrow> Some (None, varname)
     | Some (Some path, varname) \<Rightarrow>
         (case find_target env (\<lambda>_. True) s (Some path) of
            None \<Rightarrow> None
          | Some t \<Rightarrow>
              if cast_to (is_port env) t \<noteq> None
              then Some (port_container env t, new_string env varname name)
              else Some (t, varname)))"

text \<open>Variables by name: those of a chart are looked up as a port first (fb_functionchart.c), those of
  other objects as a variable of their class.\<close>

definition searchport :: "('w, 'v) action_env \<Rightarrow> objptr \<Rightarrow> OV_STRING \<Rightarrow> objptr option" where
  "searchport env c name =
    find (\<lambda>q. ov_string_compare name (Some (ident_of (objects env) q)) = OV_STRCMP_EQUAL) (ports_of_chart env c)"

text \<open>Without a name the search leaves the element as it was.\<close>

definition search_variable :: "('w, 'v) action_env \<Rightarrow> objptr \<Rightarrow> OV_STRING \<Rightarrow> OV_ELEMENT option" where
  "search_variable env q name =
    (case name of
       None \<Rightarrow> Some blank_element
     | Some n \<Rightarrow> map_option snd
         (ov_element_searchpart (depth env) (objects env) (OvPath.object_element q) blank_element OV_ET_VARIABLE n))"

definition chart_variable :: "('w, 'v) action_env \<Rightarrow> objptr \<Rightarrow> OV_STRING \<Rightarrow> (objptr \<times> OV_ELEMENT) option" where
  "chart_variable env c name =
    (case searchport env c name of
       Some q \<Rightarrow> map_option (Pair q) (search_variable env q (Some ''value''))
     | None \<Rightarrow> map_option (Pair c) (search_variable env c name))"

definition fb_functionchart_getport :: "('w, 'v) action_env \<Rightarrow> objptr \<Rightarrow> OV_STRING \<Rightarrow> ('w, 'v) ssc_objects \<Rightarrow>
    (OV_RESULT \<times> 'v any_value \<times> ('w, 'v) ssc_objects) option" where
  "fb_functionchart_getport env c name st =
    map_option (\<lambda>(q, e). if el_pobj e = None then (OV_ERR_BADPARAM, Val_void, st) else get_var env q e st)
      (chart_variable env c name)"

definition fb_functionchart_setport :: "('w, 'v) action_env \<Rightarrow> objptr \<Rightarrow> OV_STRING \<Rightarrow> 'v any_value \<Rightarrow> ('w, 'v) ssc_objects \<Rightarrow>
    (OV_RESULT \<times> ('w, 'v) ssc_objects) option" where
  "fb_functionchart_setport env c name v st =
    map_option (\<lambda>(q, e). if el_pobj e = None then (OV_ERR_BADPARAM, st) else set_var env q e v st)
      (chart_variable env c name)"

text \<open>Reading into a value: the results of the two calls are combined bit by bit.\<close>

definition read_into :: "('w, 'v) action_env \<Rightarrow> 'v any_value \<Rightarrow> OV_RESULT \<times> 'v any_value \<times> ('w, 'v) ssc_objects \<Rightarrow>
    OV_UINT \<times> 'v any_value \<times> ('w, 'v) ssc_objects" where
  "read_into env cur r =
    (case r of (r1, tmpAny, st) \<Rightarrow>
       case set_any env cur (Some tmpAny) of (r2, v) \<Rightarrow>
         let result = result_code r1 OR result_code r2
         in if result \<noteq> 0 then (result, snd (set_any env v None), st) else (result, v, st))"

definition not_read :: "('w, 'v) action_env \<Rightarrow> 'v any_value \<Rightarrow> ('w, 'v) ssc_objects \<Rightarrow>
    OV_UINT \<times> 'v any_value \<times> ('w, 'v) ssc_objects" where
  "not_read env cur st = (result_code OV_ERR_BADPARAM, snd (set_any env cur None), st)"

definition ssc_getNamedVariable :: "('w, 'v) action_env \<Rightarrow> objptr option \<Rightarrow> OV_STRING \<Rightarrow> 'v any_value \<Rightarrow> ('w, 'v) ssc_objects \<Rightarrow>
    (OV_UINT \<times> 'v any_value \<times> ('w, 'v) ssc_objects) option" where
  "ssc_getNamedVariable env target name cur st =
    (case target of
       None \<Rightarrow> Some (not_read env cur st)
     | Some t \<Rightarrow>
         if is_functionchart env t then map_option (read_into env cur) (fb_functionchart_getport env t name st)
         else case search_variable env t name of
             None \<Rightarrow> None
           | Some e \<Rightarrow>
               if elemtype e = OV_ET_VARIABLE
               then (case el_pobj e of None \<Rightarrow> None | Some q \<Rightarrow> Some (read_into env cur (get_var env q e st)))
               else Some (not_read env cur st))"

definition ssc_setNamedVariable :: "('w, 'v) action_env \<Rightarrow> objptr option \<Rightarrow> OV_STRING \<Rightarrow> 'v any_value \<Rightarrow> ('w, 'v) ssc_objects \<Rightarrow>
    (OV_RESULT \<times> ('w, 'v) ssc_objects) option" where
  "ssc_setNamedVariable env target name v st =
    (case target of
       None \<Rightarrow> Some (OV_ERR_BADPARAM, st)
     | Some t \<Rightarrow>
         if is_functionchart env t then fb_functionchart_setport env t name v st
         else case search_variable env t name of
             None \<Rightarrow> None
           | Some e \<Rightarrow>
               if elemtype e = OV_ET_VARIABLE
               then (case el_pobj e of None \<Rightarrow> None | Some q \<Rightarrow> Some (set_var env q e v st))
               else Some (OV_ERR_OK, st))"

definition ssc_setVariable_checkAction :: "('w, 'v) action_env \<Rightarrow> objptr \<Rightarrow> ('w, 'v) ssc_objects \<Rightarrow>
    (bool \<times> ('w, 'v) ssc_objects) option" where
  "ssc_setVariable_checkAction env p st =
    (case parent_step env p of
       None \<Rightarrow> Some (False, upd_action p (action_error env ''This ActionBlock is placed wrong.'') st)
     | Some s \<Rightarrow>
         if ov_string_compare (targetName (action_of st p)) None = OV_STRCMP_EQUAL
         then Some (False, upd_action p (action_error env ''Variable to set is not defined.'') st)
         else case ssc_getObjectAndVarnameFromSetVariable env s (targetName (action_of st p)) of
             None \<Rightarrow> None
           | Some (None, varname) \<Rightarrow> Some (False, upd_action p (action_error env ''Configured Object not found.'') st)
           | Some (Some t, varname) \<Rightarrow>
               if \<not> is_port env t \<and> varname = None
               then Some (False, upd_action p
                 (action_error env ''Configured Object does not have the requested variable.'') st)
               else Some (True, upd_action p (\<lambda>a. a\<lparr>act_error := False,
                 act_errorDetail := new_string env (act_errorDetail a) (Some [])\<rparr>) st))"

definition ssc_setVariable_variable_set :: "('w, 'v) action_env \<Rightarrow> objptr \<Rightarrow> OV_STRING \<Rightarrow> ('w, 'v) ssc_objects \<Rightarrow>
    (OV_RESULT \<times> ('w, 'v) ssc_objects) option" where
  "ssc_setVariable_variable_set env p value st =
    (let result = fst (ov_string_setvalue (max_string env) (db_memory env) False (Some (targetName (action_of st p))) value);
         st = upd_action p (\<lambda>a. a\<lparr>targetName := new_string env (targetName a) value\<rparr>) st
     in if Ov_Fail result then Some (result, st)
        else map_option (\<lambda>(b, st). (result, st)) (ssc_setVariable_checkAction env p st))"

definition ssc_setVariable_value_set :: "('w, 'v) action_env \<Rightarrow> objptr \<Rightarrow> 'v any_value option \<Rightarrow> ('w, 'v) ssc_objects \<Rightarrow>
    OV_RESULT \<times> ('w, 'v) ssc_objects" where
  "ssc_setVariable_value_set env p v st =
    (case set_any env (act_value (action_of st p)) v of
       (result, x) \<Rightarrow> (result, upd_action p (\<lambda>a. a\<lparr>act_value := x\<rparr>) st))"

definition read_parameter :: "('w, 'v) action_env \<Rightarrow> objptr \<Rightarrow> objptr \<Rightarrow> ('w, 'v) ssc_objects \<Rightarrow>
    (OV_UINT \<times> ('w, 'v) ssc_objects) option" where
  "read_parameter env p s st =
    (let a = action_of st p
     in if act_parameter a \<noteq> None \<and> ov_string_compare (act_parameter a) (Some '' '') \<noteq> OV_STRCMP_EQUAL
        then (case ssc_getObjectAndVarnameFromSetVariable env s (act_parameter a) of
                None \<Rightarrow> None
              | Some (t, varname) \<Rightarrow>
                  map_option (\<lambda>(result, v, st). (result, upd_action p (\<lambda>a. a\<lparr>act_value := v\<rparr>) st))
                    (ssc_getNamedVariable env t varname (act_value a) st))
        else Some (0, st))"

definition write_variable :: "('w, 'v) action_env \<Rightarrow> objptr \<Rightarrow> objptr \<Rightarrow> ('w, 'v) ssc_objects \<Rightarrow> ('w, 'v) ssc_objects option" where
  "write_variable env p s st =
    (let a = action_of st p
     in case ssc_getObjectAndVarnameFromSetVariable env s (targetName a) of
         None \<Rightarrow> None
       | Some (t, varname) \<Rightarrow>
           map_option (\<lambda>(result, st).
               if Ov_Fail result then upd_action p (action_error env
                 (''Target found, but setting value to variable failed: '' @ ov_result_getresulttext (result_code result))) st
               else st)
             (ssc_setNamedVariable env t varname (act_value a) st))"

definition ssc_setVariable_typemethod :: "('w, 'v) action_env \<Rightarrow> objptr \<Rightarrow> OV_TIME \<Rightarrow> ('w, 'v) ssc_objects \<Rightarrow>
    ('w, 'v) ssc_objects option" where
  "ssc_setVariable_typemethod env p ltc st =
    (case ssc_setVariable_checkAction env p st of
       None \<Rightarrow> None
     | Some (False, st) \<Rightarrow> Some st
     | Some (True, st) \<Rightarrow>
         let s = the (parent_step env p)
         in case read_parameter env p s st of
             None \<Rightarrow> None
           | Some (result, st) \<Rightarrow>
               if result \<noteq> 0
               then Some (upd_action p (action_error env
                 (''Parameter target not found: '' @ ov_result_getresulttext result)) st)
               else write_variable env p s st)"

section \<open>Sending a command\<close>

abbreviation OV_VT_BOOL :: OV_UINT where "OV_VT_BOOL \<equiv> 0x02"
abbreviation OV_VT_STRING :: OV_UINT where "OV_VT_STRING \<equiv> 0x30"
abbreviation OV_VT_ANY :: OV_UINT where "OV_VT_ANY \<equiv> 0xff"

definition child_port :: "('w, 'v) action_env \<Rightarrow> objptr \<Rightarrow> string \<Rightarrow> objptr option" where
  "child_port env t name = cast_to (is_port env) (search_child (objects env) t name)"

definition port_ok :: "('w, 'v) action_env \<Rightarrow> (objptr \<Rightarrow> bool) \<Rightarrow> objptr \<Rightarrow> string \<Rightarrow> bool" where
  "port_ok env of_type t name =
    (case child_port env t name of None \<Rightarrow> False | Some q \<Rightarrow> of_type q \<or> is_anyport env q)"

definition variable_ok :: "('w, 'v) action_env \<Rightarrow> OV_UINT \<Rightarrow> objptr \<Rightarrow> string \<Rightarrow> bool option" where
  "variable_ok env vartype t name =
    map_option (\<lambda>e. elemtype e = OV_ET_VARIABLE \<and>
        (v_vartype (objects env) (element_var e) = OV_VT_ANY \<or> v_vartype (objects env) (element_var e) = vartype))
      (search_variable env t (Some name))"

text \<open>The checks are made one after the other and end at the first that fails.\<close>

fun variables_ok :: "('w, 'v) action_env \<Rightarrow> objptr \<Rightarrow> (string \<times> OV_UINT) list \<Rightarrow> bool option" where
  "variables_ok env t [] = Some True"
| "variables_ok env t ((name, vartype) # vs) =
    (case variable_ok env vartype t name of
       None \<Rightarrow> None
     | Some False \<Rightarrow> Some False
     | Some True \<Rightarrow> variables_ok env t vs)"

definition takes_commands :: "('w, 'v) action_env \<Rightarrow> objptr \<Rightarrow> bool option" where
  "takes_commands env t =
    (if is_functionchart env t then
       Some (port_ok env (is_stringport env) t ''sender'' \<and> port_ok env (is_stringport env) t ''order'' \<and>
         port_ok env (is_stringport env) t ''param'' \<and> port_ok env (is_boolport env) t ''start'')
     else variables_ok env t [(''order'', OV_VT_STRING), (''param'', OV_VT_STRING), (''start'', OV_VT_BOOL)])"

text \<open>In a null pointer no variable is found.\<close>

definition ssc_getObjectFromSendCommand :: "('w, 'v) action_env \<Rightarrow> objptr \<Rightarrow> OV_STRING \<Rightarrow> (OV_RESULT \<times> objptr option) option" where
  "ssc_getObjectFromSendCommand env s name =
    (if name = None then Some (OV_ERR_BADPARAM, None)
     else case find_target env (\<lambda>_. True) s name of
         None \<Rightarrow> None
       | Some None \<Rightarrow> Some (OV_ERR_BADPARAM, None)
       | Some (Some t) \<Rightarrow>
           map_option (\<lambda>b. if b then (OV_ERR_OK, Some t) else (OV_ERR_BADPARAM, None)) (takes_commands env t))"

definition ssc_sendCommand_checkAction :: "('w, 'v) action_env \<Rightarrow> objptr \<Rightarrow> ('w, 'v) ssc_objects \<Rightarrow>
    (bool \<times> ('w, 'v) ssc_objects) option" where
  "ssc_sendCommand_checkAction env p st =
    (case parent_step env p of
       None \<Rightarrow> Some (False, upd_action p (action_error env ''This ActionBlock is placed wrong.'') st)
     | Some s \<Rightarrow>
         if ov_string_compare (targetName (action_of st p)) None = OV_STRCMP_EQUAL
         then Some (False, upd_action p (action_error env ''Object to execute is not defined.'') st)
         else case ssc_getObjectFromSendCommand env s (targetName (action_of st p)) of
             None \<Rightarrow> None
           | Some (r, None) \<Rightarrow> Some (False, upd_action p (action_error env ''Configured Object not found.'') st)
           | Some (r, Some t) \<Rightarrow>
               Some (True, upd_action p (\<lambda>a. a\<lparr>act_error := False, act_errorDetail := new_string env (act_errorDetail a) None\<rparr>) st))"

definition ssc_sendCommand_targetObject_set :: "('w, 'v) action_env \<Rightarrow> objptr \<Rightarrow> OV_STRING \<Rightarrow> ('w, 'v) ssc_objects \<Rightarrow>
    (OV_RESULT \<times> ('w, 'v) ssc_objects) option" where
  "ssc_sendCommand_targetObject_set env p value st =
    (let result = fst (ov_string_setvalue (max_string env) (db_memory env) False (Some (targetName (action_of st p))) value);
         st = upd_action p (\<lambda>a. a\<lparr>targetName := new_string env (targetName a) value\<rparr>) st
     in if Ov_Fail result then Some (result, st)
        else map_option (\<lambda>(b, st). (result, st)) (ssc_sendCommand_checkAction env p st))"

text \<open>One of the variables of the target: \<open>ovvariable\<close> keeps the string that was set last.\<close>

definition is_text :: "OV_STRING \<Rightarrow> bool" where
  "is_text s \<longleftrightarrow> ov_string_compare s (Some '''') \<noteq> OV_STRCMP_EQUAL \<and> ov_string_compare s (Some '' '') \<noteq> OV_STRCMP_EQUAL"

definition send_variable :: "('w, 'v) action_env \<Rightarrow> objptr \<Rightarrow> objptr \<Rightarrow> string \<Rightarrow> string \<Rightarrow> 'v any_value \<Rightarrow> ('w, 'v) ssc_objects \<Rightarrow>
    (bool \<times> ('w, 'v) ssc_objects) option" where
  "send_variable env p t name message v st =
    map_option (\<lambda>(result, st). if Ov_Fail result then (False, upd_action p (action_error env message) st) else (True, st))
      (ssc_setNamedVariable env (Some t) (Some name) v st)"

definition send_text :: "('w, 'v) action_env \<Rightarrow> objptr \<Rightarrow> objptr \<Rightarrow> string \<Rightarrow> string \<Rightarrow> OV_STRING \<Rightarrow> OV_STRING \<Rightarrow>
    ('w, 'v) ssc_objects \<Rightarrow> (bool \<times> OV_STRING \<times> ('w, 'v) ssc_objects) option" where
  "send_text env p t name message ovvariable v st =
    (if act_command (action_of st p) \<noteq> None \<and> is_text v then
       (let ovvariable = new_string env ovvariable v
        in map_option (\<lambda>(b, st). (b, ovvariable, st)) (send_variable env p t name message (Val_string ovvariable) st))
     else Some (True, ovvariable, st))"

definition send_command :: "('w, 'v) action_env \<Rightarrow> objptr \<Rightarrow> objptr \<Rightarrow> ('w, 'v) ssc_objects \<Rightarrow> ('w, 'v) ssc_objects option" where
  "send_command env p t st =
    (case send_text env p t ''order'' ''Target found, but setting command failed.'' None (act_command (action_of st p)) st of
       None \<Rightarrow> None
     | Some (False, ovvariable, st) \<Rightarrow> Some st
     | Some (True, ovvariable, st) \<Rightarrow>
         (case send_text env p t ''param'' ''Target found, but setting parameter failed.'' ovvariable
             (act_parameter (action_of st p)) st of
            None \<Rightarrow> None
          | Some (False, ovvariable, st) \<Rightarrow> Some st
          | Some (True, ovvariable, st) \<Rightarrow>
              map_option snd (send_variable env p t ''start'' ''Target found, but setting start failed.'' (Val_bool True) st)))"

text \<open>The configuration is checked as that of an execute block.\<close>

definition ssc_sendCommand_typemethod :: "('w, 'v) action_env \<Rightarrow> objptr \<Rightarrow> OV_TIME \<Rightarrow> ('w, 'v) ssc_objects \<Rightarrow>
    ('w, 'v) ssc_objects option" where
  "ssc_sendCommand_typemethod env p ltc st =
    (case ssc_execute_checkAction env p st of
       None \<Rightarrow> None
     | Some (False, st) \<Rightarrow> Some st
     | Some (True, st) \<Rightarrow>
         (case ssc_getObjectFromSendCommand env (the (parent_step env p)) (targetName (action_of st p)) of
            None \<Rightarrow> None
          | Some (r, None) \<Rightarrow> Some st
          | Some (r, Some t) \<Rightarrow> send_command env p t st))"

section \<open>Links of transitions\<close>

text \<open>\<open>prev_step\<close> and \<open>next_step\<close>: the parents of a transition in \<open>nextTransitions\<close> and in
  \<open>previousTransitions\<close>; \<open>assoc_link\<close> is \<open>ov_association_link\<close> with the placement that was asked for,
  \<open>assoc_unlink\<close> the other way.\<close>

record ('w, 'v) trans_objects =
  sscs :: "('w, 'v) ssc_objects"
  prev_step :: "objptr \<Rightarrow> objptr option"
  next_step :: "objptr \<Rightarrow> objptr option"

type_synonym ('w, 'v) linker = "objptr \<Rightarrow> objptr \<Rightarrow> ('w, 'v) trans_objects \<Rightarrow> OV_RESULT \<times> ('w, 'v) trans_objects"

abbreviation upd_sscs :: "(('w, 'v) ssc_objects \<Rightarrow> ('w, 'v) ssc_objects) \<Rightarrow> ('w, 'v) trans_objects \<Rightarrow> ('w, 'v) trans_objects" where
  "upd_sscs f st \<equiv> st\<lparr>sscs := f (sscs st)\<rparr>"

definition ssc_nextTransitions_link :: "('w, 'v) linker \<Rightarrow> objptr \<Rightarrow> objptr \<Rightarrow> objptr \<Rightarrow> ('w, 'v) trans_objects \<Rightarrow>
    OV_RESULT \<times> ('w, 'v) trans_objects" where
  "ssc_nextTransitions_link assoc_link trans_task pparent pchild st =
    (if next_step st pchild = Some pparent then (OV_ERR_BADPLACEMENT, st)
     else
       let ts = leave_task pchild (tasks (fb (sscs st)));
           (result, ts) = link_task trans_task pchild ts;
           st = upd_sscs (upd_tasks (\<lambda>_. ts)) st
       in if Ov_Fail result then (result, st)
          else
            let st = upd_sscs (upd_tasks (\<lambda>ts. set_task pchild ((task ts pchild)\<lparr>v_actimode := FB_AM_ON\<rparr>) ts)) st;
                st = upd_sscs (\<lambda>s. s\<lparr>fb := (fb s)\<lparr>v_iexreq := (v_iexreq (fb s))(pchild := True)\<rparr>\<rparr>) st
            in assoc_link pparent pchild st)"

definition ssc_nextTransitions_unlink :: "(objptr \<Rightarrow> objptr \<Rightarrow> ('w, 'v) trans_objects \<Rightarrow> ('w, 'v) trans_objects) \<Rightarrow>
    objptr \<Rightarrow> objptr \<Rightarrow> ('w, 'v) trans_objects \<Rightarrow> ('w, 'v) trans_objects" where
  "ssc_nextTransitions_unlink assoc_unlink pparent pchild st =
    assoc_unlink pparent pchild (upd_sscs (upd_tasks (leave_task pchild)) st)"

definition ssc_previousTransitions_link :: "('w, 'v) linker \<Rightarrow> objptr \<Rightarrow> objptr \<Rightarrow> ('w, 'v) trans_objects \<Rightarrow>
    OV_RESULT \<times> ('w, 'v) trans_objects" where
  "ssc_previousTransitions_link assoc_link pparent pchild st =
    (if prev_step st pchild = Some pparent then (OV_ERR_BADPLACEMENT, st) else assoc_link pparent pchild st)"

section \<open>Lemmas\<close>

text \<open>An environment in which the database has memory for every string.\<close>

definition stores_all :: "('w, 'v) action_env \<Rightarrow> bool" where
  "stores_all env \<longleftrightarrow> max_string env = 0 \<and> db_memory env"

lemma new_string_stored:
  "stores_all env \<Longrightarrow> new_string env cur v = (case v of None \<Rightarrow> None | Some s \<Rightarrow> if s = [] then None else Some s)"
  by (auto simp: stores_all_def new_string_def ov_string_setvalue_def split: option.splits)

lemma new_string_cleared [simp]: "new_string env cur None = None" "new_string env cur (Some []) = None"
  by (simp_all add: new_string_def ov_string_setvalue_def)

lemma unat_index: "k < 2 ^ 32 \<Longrightarrow> unat (of_nat k :: OV_UINT) = k"
  by (simp add: unsigned_of_nat take_bit_nat_eq_self)

lemma c_char_at: "k \<le> length s \<Longrightarrow> length s < 2 ^ 32 \<Longrightarrow> c_char s (of_nat k) = Some ((s @ [CHR 0x00]) ! k)"
  by (auto simp: c_char_def unat_index nth_append)

lemma seek_separator_value:
  assumes "length s < 2 ^ 32" "1 \<le> j" "j \<le> length s"
  shows "seek_separator s separator (of_nat (length s)) (of_nat (length s - j)) =
    Some (map_option of_nat (find (\<lambda>k. (s @ [CHR 0x00]) ! k = separator) (rev [2..<Suc j])))"
  using assms(2,3)
proof (induction j rule: nat_induct_at_least)
  case base
  have "\<not> (of_nat (length s - 1) :: OV_UINT) < of_nat (length s) - 1"
    using base by (simp add: of_nat_diff)
  then show ?case by (simp add: seek_separator.simps)
next
  case (Suc j)
  let ?i = "of_nat (length s - Suc j) :: OV_UINT"
  have "of_nat (length s) - 1 = (of_nat (length s - 1) :: OV_UINT)" using Suc.prems by (simp add: of_nat_diff)
  moreover have "?i < of_nat (length s - 1)"
  proof -
    have "unat ?i = length s - Suc j" "unat (of_nat (length s - 1) :: OV_UINT) = length s - 1"
      using assms(1) by (intro unat_index; simp)+
    then show ?thesis using Suc.prems Suc.hyps by (simp only: word_less_nat_alt)
  qed
  ultimately have less: "?i < of_nat (length s) - 1" by simp
  have sub: "of_nat (length s) - ?i = of_nat (Suc j)" using Suc.prems by (simp add: of_nat_diff)
  have nxt: "?i + 1 = of_nat (length s - j)"
    using Suc.prems by (metis Suc_diff_Suc Suc_le_eq of_nat_Suc add.commute)
  have upt: "rev [2..<Suc (Suc j)] = Suc j # rev [2..<Suc j]" using Suc.hyps by simp
  have ch: "c_char s (of_nat (Suc j)) = Some ((s @ [CHR 0x00]) ! Suc j)"
    using c_char_at [of "Suc j" s] Suc.prems assms(1) by blast
  have IH: "seek_separator s separator (of_nat (length s)) (of_nat (length s - j)) =
      Some (map_option of_nat (find (\<lambda>k. (s @ [CHR 0x00]) ! k = separator) (rev [2..<Suc j])))"
    using Suc.IH Suc.prems by linarith
  show ?case
    unfolding seek_separator.simps [of s separator _ ?i] if_P [OF less] sub ch nxt IH upt find.simps option.case
    by (cases "(s @ [CHR 0x00]) ! Suc j = separator") simp_all
qed

lemma find_append_last: "find P xs = None \<Longrightarrow> find P (xs @ ys) = find P ys"
  by (induction xs) (auto split: if_splits)

lemma find_last_separator:
  assumes "separator \<notin> set v" "separator \<noteq> CHR 0x00" "2 \<le> length p"
  shows "find (\<lambda>k. ((p @ separator # v) @ [CHR 0x00]) ! k = separator) (rev [2..<Suc (length (p @ separator # v))]) = Some (length p)"
proof -
  let ?s = "(p @ separator # v) @ [CHR 0x00]" and ?n = "length (p @ separator # v)"
  have eq: "[2..<Suc ?n] = [2..<length p] @ length p # [Suc (length p)..<Suc ?n]"
    using assms(3) upt_add_eq_append [of 2 "length p" "Suc (Suc (length v))"] upt_conv_Cons [of "length p" "Suc ?n"]
    by simp
  have none: "find (\<lambda>k. ?s ! k = separator) (rev [Suc (length p)..<Suc ?n]) = None"
    using assms(1,2) by (auto simp: find_None_iff nth_append nth_Cons' dest: nth_mem)
  show ?thesis unfolding eq using find_append_last [OF none, of "length p # rev [2..<length p]"]
    by (simp del: upt_Suc add: nth_append)
qed

lemma find_no_separator:
  assumes "separator \<notin> set (drop 2 s)" "separator \<noteq> CHR 0x00"
  shows "find (\<lambda>k. (s @ [CHR 0x00]) ! k = separator) (rev [2..<Suc (length s)]) = None"
proof -
  have "(s @ [CHR 0x00]) ! k \<noteq> separator" if "2 \<le> k" "k < Suc (length s)" for k
  proof (cases "k = length s")
    case False
    then have "drop 2 s ! (k - 2) = s ! (2 + (k - 2))" "k - 2 < length (drop 2 s)"
      using that by (auto intro!: nth_drop)
    then have "s ! k = drop 2 s ! (k - 2)" "k - 2 < length (drop 2 s)" using that by (simp_all only: le_add_diff_inverse)
    then have "s ! k \<in> set (drop 2 s)" by (metis nth_mem)
    then show ?thesis using False that assms(1) by (auto simp: nth_append)
  qed (use assms(2) in simp)
  then show ?thesis by (auto simp: find_None_iff simp del: upt_Suc)
qed

lemma seek_separator_start:
  "s \<noteq> [] \<Longrightarrow> length s < 2 ^ 32 \<Longrightarrow> seek_separator s separator (ov_string_getlength (Some s)) 0 =
    Some (map_option of_nat (find (\<lambda>k. (s @ [CHR 0x00]) ! k = separator) (rev [2..<Suc (length s)])))"
  using seek_separator_value [of s "length s" separator]
  by (cases s) (simp_all add: ov_string_getlength_def)

lemma task_config_simps [simp]:
  "v_actimode (task_at (set_task_config t m c i st) t) = m" "v_cyctime (task_at (set_task_config t m c i st) t) = c"
  "v_iexreq (fb (set_task_config t m c i st)) t = i" "v_ErrState (task_at (set_task_config t m c i st) t) = v_ErrState (task_at st t)"
  "v_proctime (task_at (set_task_config t m c i st) t) = v_proctime (task_at st t)"
  "action_of (set_task_config t m c i st) = action_of st" "chart_cmd (set_task_config t m c i st) = chart_cmd st"
  by (simp_all add: set_task_config_def)

lemma start_if_chart_fb [simp]: "fb (start_if_chart env t st) = fb st" "action_of (start_if_chart env t st) = action_of st"
  by (simp_all add: start_if_chart_def)

text \<open>A name that is the canonical path of the last of a chain of objects below the root.\<close>

definition canonical_name :: "('w, 'v) action_env \<Rightarrow> objptr list \<Rightarrow> OV_STRING \<Rightarrow> bool" where
  "canonical_name env qs name \<longleftrightarrow>
     named_chain (depth env) (objects env) (db_root (objects env)) qs \<and> qs \<noteq> [] \<and> length qs \<le> depth env \<and>
     v_pouterobject (objects env) (hd qs) = None \<and> memstack env \<and> path_text env (Some (last qs)) = Some name"

lemma find_target_canonical:
  assumes "canonical_name env qs name"
  shows "find_target env is_of s name = Some (cast_to is_of (Some (last qs))) \<and> name \<noteq> None \<and> name \<noteq> Some []"
proof -
  have c: "named_chain (depth env) (objects env) (db_root (objects env)) qs" "qs \<noteq> []" "length qs \<le> depth env"
    "v_pouterobject (objects env) (hd qs) = None" "memstack env" "path_text env (Some (last qs)) = Some name"
    using assms by (simp_all add: canonical_name_def)
  obtain q qs' where qs: "qs = q # qs'" using c(2) by (cases qs) auto
  have name: "name = Some (tail_text (objects env) 2 qs)"
    using c(5,6) canonical_path_value [OF c(1-3), of 2] by (simp add: path_text_def)
  have "is_prefix ''/'' (tail_text (objects env) 2 qs)"
    using c(4) by (simp add: qs delimiter_def)
  then show ?thesis
    using resolve_canonical [of "depth env" "objects env" q qs' "ids env" 2] c(1,4,5)
    by (auto simp: find_target_def name qs)
qed

abbreviation no_error :: "'v action \<Rightarrow> 'v action" where
  "no_error a \<equiv> a\<lparr>act_error := False, act_errorDetail := None\<rparr>"

lemma execute_check_canonical:
  assumes "parent_step env p = Some s" "canonical_name env qs (targetName (action_of st p))"
  shows "ssc_execute_checkAction env p st =
    (if is_functionblock env (last qs) then Some (True, upd_action p no_error st)
     else Some (False, upd_action p (action_error env ''Configured Object not found.'') st))"
  using find_target_canonical [OF assms(2), of "is_functionblock env" s] assms(1)
  by (auto simp: ssc_execute_checkAction_def ssc_getObjectFromExecute_def cast_to_def ov_string_compare_def strcmp_consts
      split: option.splits)

lemma execute_canonical:
  assumes "parent_step env p = Some s" "canonical_name env qs (targetName (action_of st p))"
    "is_functionblock env (last qs)"
  shows "ssc_execute_typemethod env p ltc st = execute_once env (last qs) ltc (upd_action p no_error st)"
  using find_target_canonical [OF assms(2), of "is_functionblock env" s] assms execute_check_canonical [OF assms(1,2)]
  by (simp add: ssc_execute_typemethod_def ssc_getObjectFromExecute_def cast_to_def)

lemma failed_execute:
  assumes "\<not> not_due p ltc f" "fb_object_triggerInpGetConnections fuel (links xenv) p f = Some f1"
    "v_iexreq f1 p" "fb_functionblock_execTypeMethod xenv p ltc f1 = Some (False, f2)"
  shows "fb_functionblock_execute (Suc fuel) xenv ltc p f = Some (set_calctime xenv p f2)"
proof -
  have "call_block fuel xenv p ltc f1 = Some (False, set_calctime xenv p f2)"
    using assms(3,4) by (simp add: call_block_def)
  then show ?thesis using assms(1,2) by (simp del: fb_object_triggerInpGetConnections.simps)
qed

lemma tree_ok_leave:
  assumes "tree_ok ts"
  shows "tree_ok (leave_task p ts)" "task_parent (leave_task p ts) p = None"
    "tasks_below (leave_task p ts) q = filter (\<lambda>c. c \<noteq> p) (tasks_below ts q)"
    "\<And>c. c \<noteq> p \<Longrightarrow> task_parent (leave_task p ts) c = task_parent ts c"
proof -
  have no: "c \<noteq> p" if "c \<in> set (tasks_below ts q)" "task_parent ts p \<noteq> Some q" for c q
    using that assms by (auto simp: tree_ok_def)
  then have id: "filter (\<lambda>c. c \<noteq> p) (tasks_below ts q) = tasks_below ts q" if "task_parent ts p \<noteq> Some q" for q
    using that by (simp add: filter_id_conv)
  have "removeAll p l = filter (\<lambda>c. c \<noteq> p) l" for l by (induction l) auto
  with id show "tasks_below (leave_task p ts) q = filter (\<lambda>c. c \<noteq> p) (tasks_below ts q)" for q
    by (cases "task_parent ts p"; cases "task_parent ts p = Some q") (auto simp: leave_task_def unlink_task_def)
  then show "tree_ok (leave_task p ts)"
    using assms by (auto simp: tree_ok_def leave_task_def unlink_task_def split: option.splits)
qed (auto simp: leave_task_def unlink_task_def split: option.split)

section \<open>Properties\<close>

text \<open>Setting the qualifier of an action block moves it to the end of the tasks below the part that the
  qualifier names, takes it from where it was, and keeps the tree of the tasks.\<close>

lemma qualifier_moves_block:
  assumes "tree_ok (tasks (fb st))" "parent_step env p = Some s" "qualifier_part v = Some x"
  shows "case ssc_actionBlock_actionQualifier_set env p v st of (result, st') \<Rightarrow>
    result = OV_ERR_OK \<and> actionQualifier (action_of st' p) = v \<and> tree_ok (tasks (fb st')) \<and>
    task_parent (tasks (fb st')) p = Some (step_part env x s) \<and>
    (\<forall>q. tasks_below (tasks (fb st')) q = filter (\<lambda>c. c \<noteq> p) (tasks_below (tasks (fb st)) q) @
       (if q = step_part env x s then [p] else []))"
proof -
  note l = tree_ok_leave [OF assms(1), where p = p]
  let ?ts = "leave_task p (tasks (fb st))"
  let ?ts' = "?ts\<lparr>tasks_below := (tasks_below ?ts)(step_part env x s := tasks_below ?ts (step_part env x s) @ [p]),
     task_parent := (task_parent ?ts)(p := Some (step_part env x s))\<rparr>"
  have "link_task (step_part env x s) p ?ts = (OV_ERR_OK, ?ts')" using l(2) by (simp add: link_task_def)
  moreover have "tree_ok ?ts'" using l(1,2) by (auto simp: tree_ok_def)
  ultimately show ?thesis
    using assms(2,3) l(3) by (simp add: ssc_actionBlock_actionQualifier_set_def Let_def Ov_Fail_def)
qed

text \<open>The name of a variable is the text behind the last full stop, the path the text before it; but a
  full stop at one of the first two places is not seen.\<close>

lemma variable_name_split:
  assumes "stores_all env" "length s < 2 ^ 32" "s \<noteq> []" "separator \<noteq> CHR 0x00"
  shows "(\<forall>p v. s = p @ separator # v \<longrightarrow> separator \<notin> set v \<longrightarrow> 2 \<le> length p \<longrightarrow>
      extractBehindSeperator env (Some s) path None separator = Some (Some p, if v = [] then None else Some v)) \<and>
    (separator \<notin> set (drop 2 s) \<longrightarrow> extractBehindSeperator env (Some s) path None separator = Some (Some s, None))"
proof (intro conjI allI impI)
  fix p v assume s: "s = p @ separator # v" "separator \<notin> set v" "2 \<le> length p"
  have "length p < 2 ^ 32" using assms(2) s(1) by simp
  then show "extractBehindSeperator env (Some s) path None separator = Some (Some p, if v = [] then None else Some v)"
    using seek_separator_start [OF assms(3,2), of separator] find_last_separator [OF s(2) assms(4) s(3)] unat_index [of "length p"]
    by (simp add: extractBehindSeperator_def new_string_stored [OF assms(1)] s(1) Let_def)
next
  assume "separator \<notin> set (drop 2 s)"
  then show "extractBehindSeperator env (Some s) path None separator = Some (Some s, None)"
    using seek_separator_start [OF assms(3,2), of separator] find_no_separator [OF _ assms(4), of s] assms(3)
    by (simp add: extractBehindSeperator_def new_string_stored [OF assms(1)] Let_def)
qed

text \<open>An execute block with the canonical path of a function block calls the execution of just this
  block once, with the mode \<open>once\<close>, no cycle time and the type method requested, and the start command
  for a chart; afterwards these settings of the block are what they were before.\<close>

lemma execute_runs_target_once:
  assumes "parent_step env p = Some s" "canonical_name env qs (targetName (action_of st p))"
    "is_functionblock env (last qs)"
  shows "case m_execute env (last qs) ltc
      (start_if_chart env (last qs) (set_task_config (last qs) FB_AM_ONCE no_span True (upd_action p no_error st))) of
    None \<Rightarrow> ssc_execute_typemethod env p ltc st = None
  | Some st1 \<Rightarrow> (\<exists>st'. ssc_execute_typemethod env p ltc st = Some st' \<and>
      v_actimode (task_at st' (last qs)) = v_actimode (task_at st (last qs)) \<and>
      v_cyctime (task_at st' (last qs)) = v_cyctime (task_at st (last qs)) \<and>
      v_iexreq (fb st') (last qs) = v_iexreq (fb st) (last qs) \<and>
      v_ErrState (task_at st' (last qs)) = v_ErrState (task_at st1 (last qs)) \<and>
      action_of st' = action_of st1 \<and> chart_cmd st' = chart_cmd st1)"
  unfolding execute_canonical [OF assms] execute_once_def by (auto split: option.split)

text \<open>When the type method of the block fails, the block is switched off; but an execute block switches
  it on again and shows no error.\<close>

lemma execute_hides_failure:
  assumes "parent_step env p = Some s" "canonical_name env qs (targetName (action_of st p))"
    "is_functionblock env (last qs)"
    "m_execute env (last qs) ltc =
       (\<lambda>st. map_option (\<lambda>f. st\<lparr>fb := f\<rparr>) (fb_functionblock_execute (Suc fuel) xenv ltc (last qs) (fb st)))"
    "ov_time_compare (v_proctime (task_at st (last qs))) ltc \<noteq> OV_TIMECMP_AFTER"
    "fb_object_triggerInpGetConnections fuel (links xenv) (last qs) (fb (set_task_config (last qs) FB_AM_ONCE no_span True st)) = Some f1"
    "v_iexreq f1 (last qs)" "fb_functionblock_execTypeMethod xenv (last qs) ltc f1 = Some (False, f2)"
  shows "\<exists>st'. ssc_execute_typemethod env p ltc st = Some st' \<and> v_ErrState (task_at st' (last qs)) = 1 \<and>
    v_actimode (task_at st' (last qs)) = v_actimode (task_at st (last qs)) \<and> \<not> act_error (action_of st' p)"
proof -
  let ?st = "set_task_config (last qs) FB_AM_ONCE no_span True (upd_action p no_error st)"
  have fb: "fb ?st = fb (set_task_config (last qs) FB_AM_ONCE no_span True st)" by (simp add: set_task_config_def)
  have "\<not> not_due (last qs) ltc (fb ?st)" using assms(5) by (simp add: not_due_def)
  then have "fb_functionblock_execute (Suc fuel) xenv ltc (last qs) (fb ?st) = Some (set_calctime xenv (last qs) f2)"
    using failed_execute [OF _ _ assms(7,8)] assms(6) fb by (simp del: fb_object_triggerInpGetConnections.simps)
  then show ?thesis
    using failed_call_off [OF assms(8)]
    unfolding execute_canonical [OF assms(1-3)] execute_once_def assms(4)
    by (simp add: set_calctime_def del: fb_functionblock_execute.simps)
qed

text \<open>A setVariable block whose object has no variable of the name writes nothing, and shows no error.\<close>

lemma missing_variable_set_silently:
  assumes "parent_step env p = Some s" "targetName (action_of st p) = Some name" "name \<noteq> []"
    "ssc_getObjectAndVarnameFromSetVariable env s (Some name) = Some (Some t, Some var)"
    "\<not> is_functionchart env t" "search_variable env t (Some var) = Some e" "elemtype e = OV_ET_NONE"
    "act_parameter (action_of st p) = None"
  shows "ssc_setVariable_typemethod env p ltc st = Some (upd_action p no_error st)"
proof -
  have "ssc_setVariable_checkAction env p st = Some (True, upd_action p no_error st)"
    using assms(1-4) by (simp add: ssc_setVariable_checkAction_def ov_string_compare_def strcmp_consts)
  moreover have "OV_ET_NONE \<noteq> OV_ET_VARIABLE" by (simp add: elem_types)
  ultimately show ?thesis
    using assms by (simp add: ssc_setVariable_typemethod_def read_parameter_def write_variable_def
        ssc_setNamedVariable_def Ov_Fail_def Let_def)
qed

text \<open>A sendCommand block is checked as an execute block when it runs: an object that takes commands, but
  is no function block, is accepted when the target is set, and never gets a command.\<close>

lemma commands_only_to_blocks:
  assumes "parent_step env p = Some s" "canonical_name env qs (targetName (action_of st p))"
    "\<not> is_functionblock env (last qs)" "takes_commands env (last qs) = Some True"
  shows "ssc_sendCommand_checkAction env p st = Some (True, upd_action p no_error st) \<and>
    ssc_sendCommand_typemethod env p ltc st =
      Some (upd_action p (action_error env ''Configured Object not found.'') st)"
proof -
  have f: "find_target env (\<lambda>_. True) s (targetName (action_of st p)) = Some (Some (last qs))"
    "targetName (action_of st p) \<noteq> None" "targetName (action_of st p) \<noteq> Some []"
    using find_target_canonical [OF assms(2), of "\<lambda>_. True" s] by (simp_all add: cast_to_def)
  then have "ssc_getObjectFromSendCommand env s (targetName (action_of st p)) = Some (OV_ERR_OK, Some (last qs))"
    using assms(4) by (simp add: ssc_getObjectFromSendCommand_def)
  moreover have "ov_string_compare (targetName (action_of st p)) None \<noteq> OV_STRCMP_EQUAL"
    using f(2,3) by (auto simp: ov_string_compare_def strcmp_consts split: option.splits)
  ultimately show ?thesis
    using assms(1,3) execute_check_canonical [OF assms(1,2)]
    by (simp add: ssc_sendCommand_checkAction_def ssc_sendCommand_typemethod_def)
qed

section \<open>An example\<close>

text \<open>The object 2 with the path \<open>/%2E/%2E%2E\<close> has the variables \<open>order\<close>, \<open>param\<close> and \<open>start\<close>.\<close>

definition demo_target_db :: odb where
  "demo_target_db = demo_db\<lparr>instantiation_class := (\<lambda>p. if p = 2 then Some 40 else None),
     children := (\<lambda>p. if p < 3 then [p + 1] else if p = 40 then [41, 42, 43] else []),
     ident_of := (\<lambda>p. if p = 41 then ''order'' else if p = 42 then ''param'' else if p = 43 then ''start''
       else replicate p CHR ''.''),
     is_variable := (\<lambda>p. p = 41 \<or> p = 42 \<or> p = 43),
     v_vartype := (\<lambda>p. if p = 43 then OV_VT_BOOL else OV_VT_STRING)\<rparr>"

definition demo_action_env :: "bool \<Rightarrow> (objptr \<Rightarrow> int, int) action_env" where
  "demo_action_env block = \<lparr>objects = demo_target_db, ids = (\<lambda>_ _. None), depth = 4, memstack = True, max_string = 0,
     db_memory = True, parent_step = (\<lambda>_. Some 50), chart_of_step = (\<lambda>_. Some 1), actions_part = (\<lambda>h. h),
     step_part = (\<lambda>x s. case x of PEntry \<Rightarrow> 1 | PDo \<Rightarrow> 60 | PExit \<Rightarrow> 61), is_functionblock = (\<lambda>p. block \<and> p = 2),
     is_ssc = (\<lambda>_. False), is_functionchart = (\<lambda>_. False), is_port = (\<lambda>_. False), is_stringport = (\<lambda>_. False),
     is_anyport = (\<lambda>_. False), is_boolport = (\<lambda>_. False), ports_of_chart = (\<lambda>_. []),
     m_execute = (\<lambda>t ltc st. map_option (\<lambda>f. st\<lparr>fb := f\<rparr>) (fb_functionblock_execute 1 demo_exec ltc t (fb st))),
     get_var = (\<lambda>_ _ st. (OV_ERR_OK, Val_void, st)), set_var = (\<lambda>_ _ _ st. (OV_ERR_OK, st)),
     set_any = (\<lambda>_ v. (OV_ERR_OK, case v of None \<Rightarrow> Val_void | Some x \<Rightarrow> x))\<rparr>"

definition demo_action_state :: "string \<Rightarrow> (objptr \<Rightarrow> int, int) ssc_objects" where
  "demo_action_state name = \<lparr>fb = demo_requested,
     action_of = (\<lambda>_. \<lparr>actionQualifier = 1, act_error = False, act_errorDetail = None, targetName = Some name,
       act_command = Some ''go'', act_parameter = None, act_value = Val_void\<rparr>),
     chart_cmd = (\<lambda>_. 0)\<rparr>"

lemma demo_canonical_name: "canonical_name (demo_action_env b) [1, 2] (Some ''/%2E/%2E%2E'')"
proof -
  have chain: "named_chain 4 demo_target_db (db_root demo_target_db) [1, 2]"
    by (simp add: demo_target_db_def demo_db_def named_step_def upper_def search_child_def numeral_2_eq_2)
  have "v_pouterobject demo_target_db = (\<lambda>_. None)" by (simp add: demo_target_db_def demo_db_def)
  moreover have "tail_text demo_target_db 2 [1, 2] = ''/%2E/%2E%2E''"
    by code_simp
  ultimately show ?thesis
    using chain canonical_path_value [OF chain, of 2]
    by (simp add: canonical_name_def demo_action_env_def path_text_def)
qed

lemma demo_stores_all: "stores_all (demo_action_env b)"
  by (simp add: stores_all_def demo_action_env_def)

lemma demo_tree_ok: "tree_ok (tasks (fb (demo_action_state name)))"
  by (auto simp: tree_ok_def demo_action_state_def demo_requested_def demo_connected_def demo_fbs_def)

lemma demo_parent: "parent_step (demo_action_env b) p = Some 50" "is_functionblock (demo_action_env b) 2 = b"
  by (simp_all add: demo_action_env_def)

lemma demo_target: "targetName (action_of (demo_action_state name) p) = Some name"
  by (simp add: demo_action_state_def)

lemma demo_call:
  fixes ltc :: OV_TIME and name :: string
  assumes "ltc = \<lparr>secs = 9, usecs = 0\<rparr>"
  defines "f \<equiv> fb (set_task_config 2 FB_AM_ONCE no_span True (demo_action_state name))"
  shows "ov_time_compare (v_proctime (task_at (demo_action_state name) 2)) ltc \<noteq> OV_TIMECMP_AFTER"
    "fb_object_triggerInpGetConnections 0 (links demo_exec) 2 f = Some f" "v_iexreq f 2"
    "fb_functionblock_execTypeMethod demo_exec 2 ltc f = Some (False, block_off 2 (f\<lparr>v_eexreq := (v_eexreq f)(2 := False)\<rparr>))"
  by (simp_all add: f_def assms(1) set_task_config_def demo_action_state_def demo_requested_def demo_connected_def demo_fbs_def
      demo_task_def ov_time_compare_def OV_TIMECMP_AFTER_def OV_TIMECMP_BEFORE_def demo_exec_def demo_methods_def first_of_def
      fb_functionblock_execTypeMethod_def del: ov_time_compare_iff)

lemma demo_name_split:
  "ssc_getObjectAndVarnameFromSetVariable (demo_action_env b) 50 (Some ''/%2E/%2E%2E.x'') = Some (Some 2, Some ''x'')"
proof -
  have "seek_separator ''/%2E/%2E%2E.x'' CHR ''.'' (ov_string_getlength (Some ''/%2E/%2E%2E.x'')) 0 = Some (Some 11)"
    using seek_separator_start [of "''/%2E/%2E%2E.x''" "CHR ''.''"]
      find_last_separator [of "CHR ''.''" "''x''" "''/%2E/%2E%2E''"] by simp
  then have "extractBehindSeperator (demo_action_env b) (Some ''/%2E/%2E%2E.x'') None None CHR ''.'' =
      Some (Some ''/%2E/%2E%2E'', Some ''x'')"
    by (simp add: extractBehindSeperator_def new_string_stored [OF demo_stores_all] Let_def)
  then show ?thesis
    using find_target_canonical [OF demo_canonical_name, of b "\<lambda>_. True" 50]
    by (simp add: ssc_getObjectAndVarnameFromSetVariable_def cast_to_def demo_action_env_def)
qed

lemma missing_variable_example:
  "ssc_setVariable_typemethod (demo_action_env True) 7 \<lparr>secs = 9, usecs = 0\<rparr> (demo_action_state ''/%2E/%2E%2E.x'') =
    Some (upd_action 7 no_error (demo_action_state ''/%2E/%2E%2E.x''))"
proof -
  let ?e = "blank_element\<lparr>el_pobj := None\<rparr>"
  have "search_variable (demo_action_env True) 2 (Some ''x'') = Some ?e"
    by code_simp
  then show ?thesis
    using missing_variable_set_silently [where env = "demo_action_env True" and p = 7 and st = "demo_action_state ''/%2E/%2E%2E.x''"
        and t = 2 and var = "''x''" and e = ?e, OF demo_parent(1) demo_target _ demo_name_split]
    by (simp add: demo_action_env_def demo_action_state_def blank_element_def)
qed

end
