(* ===== verification/OvMalloc.thy ===== *)
theory OvMalloc
  imports OvDll
begin

text \<open>
  libml/ml_malloc.c, ml_free.c, ml_realloc.c and the callers in libov/ov_database.c: the allocator of
  the database. The heap grows upwards in blocks of 4096 bytes; free blocks are in one list, and for
  each power of two there is a list of the free fragments of that size, into which blocks are cut.
  Addresses are numbers; the pointer fields of the free cells and the word at the beginning of every
  cell, \<open>len\<close>, are maps from addresses, kept apart from the bytes that the clients see. \<open>size_t\<close> has
  64 bits: the sums that may wrap around are written with \<open>mod\<close>. The loops over the lists have
  \<open>fuel\<close>; the result \<open>None\<close> is a loop that does not end or a null pointer that is followed.
\<close>

section \<open>State\<close>

abbreviation BLOCKLOG :: nat where "BLOCKLOG \<equiv> 12"
abbreviation BLOCKSIZE :: nat where "BLOCKSIZE \<equiv> 4096"
abbreviation SIZE_MOD :: nat where "SIZE_MOD \<equiv> 18446744073709551616"

text \<open>The heads are the elements of \<open>fraghead\<close> and \<open>free_blocks\<close>; a cell is the beginning of a free
  piece of memory.\<close>

datatype node = FragHead nat | BlocksHead | Cell nat

record ml_info =
  heapbase :: nat
  heapend :: nat
  bytes_free :: "64 word"
  bytes_used :: "64 word"
  len :: "nat \<Rightarrow> nat"
  nxt :: "node \<Rightarrow> node option"
  prv :: "node \<Rightarrow> node option"
  bytes :: "nat \<Rightarrow> 8 word"
  pstart :: nat
  pcurr :: nat
  pend :: nat

abbreviation set_len :: "nat \<Rightarrow> nat \<Rightarrow> ml_info \<Rightarrow> ml_info" where
  "set_len a n st \<equiv> st\<lparr>len := (len st)(a := n)\<rparr>"

abbreviation set_nxt :: "node \<Rightarrow> node option \<Rightarrow> ml_info \<Rightarrow> ml_info" where
  "set_nxt x v st \<equiv> st\<lparr>nxt := (nxt st)(x := v)\<rparr>"

abbreviation set_prv :: "node \<Rightarrow> node option \<Rightarrow> ml_info \<Rightarrow> ml_info" where
  "set_prv x v st \<equiv> st\<lparr>prv := (prv st)(x := v)\<rparr>"

definition ml_initialize :: "nat \<Rightarrow> ml_info \<Rightarrow> ml_info" where
  "ml_initialize base st = st\<lparr>heapbase := base, heapend := 0,
     nxt := (\<lambda>x. if x = BlocksHead \<or> (\<exists>i < BLOCKLOG. x = FragHead i) then None else nxt st x),
     prv := (\<lambda>x. if x = BlocksHead \<or> (\<exists>i < BLOCKLOG. x = FragHead i) then None else prv st x),
     bytes_used := 0, bytes_free := 0\<rparr>"

text \<open>The pool that the heap grows into, of a database that does not grow itself.\<close>

definition ov_database_morecore :: "nat \<Rightarrow> ml_info \<Rightarrow> nat option \<times> ml_info" where
  "ov_database_morecore sz st =
    (let pmem = pcurr st; psoon = (pcurr st + sz) mod SIZE_MOD
     in if psoon < pstart st then (None, st)
        else if psoon > pend st then (None, st)
        else (Some pmem, st\<lparr>pcurr := psoon\<rparr>))"

definition morecore :: "nat \<Rightarrow> ml_info \<Rightarrow> nat option \<times> ml_info" where
  "morecore sz st =
    (case ov_database_morecore sz st of
       (None, st) \<Rightarrow> (None, st)
     | (Some result, st) \<Rightarrow>
         (Some result, st\<lparr>heapend := result + sz, bytes_free := bytes_free st + of_nat sz,
            bytes_used := bytes_used st + of_nat sz\<rparr>))"

section \<open>Sizes\<close>

function getfrag_loop :: "nat \<Rightarrow> nat \<Rightarrow> nat" where
  "getfrag_loop sz lg = (if sz div 2 \<noteq> 0 then getfrag_loop (sz div 2) (lg + 1) else lg)"
  by pat_completeness auto

termination by (relation "measure fst") auto

declare getfrag_loop.simps [simp del]

definition ml_getfrag_log :: "nat \<Rightarrow> nat" where
  "ml_getfrag_log sz = getfrag_loop (if sz = 0 then SIZE_MOD - 1 else sz - 1) 1"

definition frag_size :: "nat \<Rightarrow> nat" where
  "frag_size lg = BLOCKSIZE div (BLOCKSIZE div 2 ^ lg)"

definition BLOCKIFY :: "nat \<Rightarrow> nat" where
  "BLOCKIFY sz = ((sz + BLOCKSIZE - 1) mod SIZE_MOD) div BLOCKSIZE"

abbreviation ml_offset :: nat where "ml_offset \<equiv> 8"
abbreviation list_bytes :: nat where "list_bytes \<equiv> 24"

section \<open>The loops over the lists\<close>

text \<open>The first cell of the list with a property.\<close>

fun search :: "nat \<Rightarrow> (nat \<Rightarrow> bool) \<Rightarrow> ml_info \<Rightarrow> node option \<Rightarrow> nat option option" where
  "search fuel P st None = Some None"
| "search (Suc fuel) P st (Some (Cell a)) = (if P a then Some (Some a) else search fuel P st (nxt st (Cell a)))"
| "search fuel P st (Some c) = None"

fun last_cell :: "nat \<Rightarrow> ml_info \<Rightarrow> node \<Rightarrow> node option" where
  "last_cell fuel st c =
    (case nxt st c of
       None \<Rightarrow> Some c
     | Some d \<Rightarrow> (case fuel of 0 \<Rightarrow> None | Suc fuel \<Rightarrow> last_cell fuel st d))"

text \<open>Taking a cell out of its list, and putting one into a list.\<close>

definition unlink_cell :: "nat \<Rightarrow> ml_info \<Rightarrow> ml_info option" where
  "unlink_cell a st =
    (case prv st (Cell a) of
       None \<Rightarrow> None
     | Some p \<Rightarrow>
         let st = set_nxt p (nxt st (Cell a)) st
         in Some (case nxt st (Cell a) of None \<Rightarrow> st | Some n \<Rightarrow> set_prv n (prv st (Cell a)) st))"

definition push_front :: "node \<Rightarrow> nat \<Rightarrow> ml_info \<Rightarrow> ml_info" where
  "push_front h a st =
    (let st = set_nxt (Cell a) (nxt st h) st;
         st = set_prv (Cell a) (Some h) st;
         st = set_nxt h (Some (Cell a)) st
     in case nxt st (Cell a) of None \<Rightarrow> st | Some n \<Rightarrow> set_prv n (Some (Cell a)) st)"

definition insert_before :: "nat \<Rightarrow> nat \<Rightarrow> ml_info \<Rightarrow> ml_info option" where
  "insert_before a c st =
    (case prv st (Cell c) of
       None \<Rightarrow> None
     | Some p \<Rightarrow>
         let st = set_nxt (Cell a) (Some (Cell c)) st;
             st = set_prv (Cell a) (Some p) st;
             st = set_nxt p (Some (Cell a)) st
         in Some (set_prv (Cell c) (Some (Cell a)) st))"

definition insert_after_cell :: "nat \<Rightarrow> nat \<Rightarrow> ml_info \<Rightarrow> ml_info" where
  "insert_after_cell a c st =
    (let st = set_nxt (Cell a) (nxt st (Cell c)) st;
         st = (case nxt st (Cell c) of None \<Rightarrow> st | Some n \<Rightarrow> set_prv n (Some (Cell a)) st);
         st = set_nxt (Cell c) (Some (Cell a)) st
     in set_prv (Cell a) (Some (Cell c)) st)"

definition insert_last :: "nat \<Rightarrow> node \<Rightarrow> ml_info \<Rightarrow> ml_info" where
  "insert_last a c st = set_nxt c (Some (Cell a)) (set_prv (Cell a) (Some c) (set_nxt (Cell a) None st))"

definition forget_cell :: "nat \<Rightarrow> ml_info \<Rightarrow> ml_info" where
  "forget_cell a st = set_len a 0 (set_prv (Cell a) None (set_nxt (Cell a) None st))"

section \<open>Allocating\<close>

definition ml_malloc_getfreeblock :: "nat \<Rightarrow> nat \<Rightarrow> ml_info \<Rightarrow> (nat option \<times> ml_info) option" where
  "ml_malloc_getfreeblock fuel sz st =
    (case search fuel (\<lambda>c. len st c = sz) st (nxt st BlocksHead) of
       None \<Rightarrow> None
     | Some (Some c) \<Rightarrow> map_option (Pair (Some c)) (unlink_cell c st)
     | Some None \<Rightarrow>
         (case search fuel (\<lambda>c. len st c > sz) st (nxt st BlocksHead) of
            None \<Rightarrow> None
          | Some (Some c) \<Rightarrow> Some (Some (c + (len st c - sz)), set_len c (len st c - sz) st)
          | Some None \<Rightarrow> Some (morecore sz st)))"

text \<open>All fragments of a block but the first go to the front of their list, the last one first.\<close>

fun link_fragments :: "nat \<Rightarrow> nat \<Rightarrow> nat \<Rightarrow> ml_info \<Rightarrow> ml_info" where
  "link_fragments lg result 0 st = st"
| "link_fragments lg result (Suc i) st =
    link_fragments lg result i (push_front (FragHead lg) (result + Suc i * 2 ^ lg) st)"

definition get_fragment :: "nat \<Rightarrow> nat \<Rightarrow> ml_info \<Rightarrow> (nat option \<times> ml_info) option" where
  "get_fragment fuel lg st =
    (let sz = frag_size lg
     in case nxt st (FragHead lg) of
          Some (Cell c) \<Rightarrow>
            map_option (\<lambda>st. (Some c, st\<lparr>bytes_free := bytes_free st - of_nat sz\<rparr>)) (unlink_cell c st)
        | Some h \<Rightarrow> None
        | None \<Rightarrow>
            (case ml_malloc_getfreeblock fuel BLOCKSIZE st of
               None \<Rightarrow> None
             | Some (None, st) \<Rightarrow> Some (None, st)
             | Some (Some result, st) \<Rightarrow>
                 let st = link_fragments lg result (BLOCKSIZE div sz - 1) st
                 in Some (Some result, st\<lparr>bytes_free := bytes_free st - of_nat sz\<rparr>)))"

definition get_blocks :: "nat \<Rightarrow> nat \<Rightarrow> ml_info \<Rightarrow> (nat option \<times> ml_info) option" where
  "get_blocks fuel sz st =
    map_option (\<lambda>(r, st). case r of None \<Rightarrow> (None, st)
        | Some result \<Rightarrow> (Some result, st\<lparr>bytes_free := bytes_free st - of_nat sz\<rparr>))
      (ml_malloc_getfreeblock fuel sz st)"

definition init_region :: "nat \<Rightarrow> nat \<Rightarrow> ml_info \<Rightarrow> ml_info" where
  "init_region result sz st =
    set_len result sz (st\<lparr>bytes := (\<lambda>x. if result \<le> x \<and> x < result + sz then 0 else bytes st x)\<rparr>)"

definition request_size :: "nat \<Rightarrow> nat" where
  "request_size sz = max list_bytes ((sz + ml_offset) mod SIZE_MOD)"

definition ml_malloc :: "nat \<Rightarrow> nat \<Rightarrow> ml_info \<Rightarrow> (nat option \<times> ml_info) option" where
  "ml_malloc fuel sz st =
    (if sz = 0 then Some (None, st)
     else
       let sz = request_size sz;
           small = sz \<le> BLOCKSIZE div 2;
           lg = ml_getfrag_log sz;
           sz = (if small then frag_size lg else (BLOCKIFY sz * BLOCKSIZE) mod SIZE_MOD)
       in map_option (\<lambda>(r, st). case r of None \<Rightarrow> (None, st)
              | Some result \<Rightarrow> (Some (result + ml_offset), init_region result sz st))
            (if small then get_fragment fuel lg st else get_blocks fuel sz st))"

section \<open>Freeing\<close>

text \<open>The word before the memory of the client, and the cell it stands in.\<close>

definition ml_getFragmentData :: "nat \<Rightarrow> ml_info \<Rightarrow> nat \<times> nat" where
  "ml_getFragmentData p st = (p - ml_offset, len st (p - ml_offset))"

text \<open>The successor \<open>c\<close> of a block \<open>a\<close> is joined to it, and then \<open>a\<close> to its predecessor in the list.\<close>

definition join_successor :: "nat \<Rightarrow> nat \<Rightarrow> ml_info \<Rightarrow> ml_info option" where
  "join_successor a c st =
    (case prv st (Cell c) of
       None \<Rightarrow> None
     | Some p \<Rightarrow>
         let st = set_nxt (Cell a) (nxt st (Cell c)) st;
             st = set_prv (Cell a) (Some p) st;
             st = set_nxt p (Some (Cell a)) st;
             st = set_len a (len st a + len st c) st;
             st = (case nxt st (Cell a) of None \<Rightarrow> st | Some n \<Rightarrow> set_prv n (Some (Cell a)) st)
         in Some (forget_cell c st))"

definition close_gap :: "nat \<Rightarrow> ml_info \<Rightarrow> ml_info option" where
  "close_gap a st =
    (if nxt st BlocksHead = Some (Cell a) then Some st
     else case prv st (Cell a) of
         Some (Cell c) \<Rightarrow>
           if a = c + len st c then
             let st = set_nxt (Cell c) (nxt st (Cell a)) st;
                 st = set_len c (len st c + len st a) st;
                 st = (case nxt st (Cell a) of None \<Rightarrow> st | Some n \<Rightarrow> set_prv n (Some (Cell c)) st)
             in Some (forget_cell a st)
           else Some st
       | _ \<Rightarrow> None)"

definition join_next :: "nat \<Rightarrow> nat \<Rightarrow> ml_info \<Rightarrow> ml_info" where
  "join_next c n st =
    (let st = (case nxt st (Cell n) of None \<Rightarrow> st | Some m \<Rightarrow> set_prv m (Some (Cell c)) st);
         st = set_nxt (Cell c) (nxt st (Cell n)) st;
         st = set_len c (len st c + len st n) st
     in forget_cell n st)"

definition join_predecessor :: "nat \<Rightarrow> nat \<Rightarrow> ml_info \<Rightarrow> ml_info option" where
  "join_predecessor a c st =
    (let st = forget_cell a (set_len c (len st c + len st a) st)
     in case nxt st (Cell c) of
          None \<Rightarrow> Some st
        | Some (Cell n) \<Rightarrow> Some (if c + len st c = n then join_next c n st else st)
        | Some h \<Rightarrow> None)"

definition ml_reorde_block :: "nat \<Rightarrow> nat \<Rightarrow> nat \<Rightarrow> ml_info \<Rightarrow> ml_info option" where
  "ml_reorde_block fuel a sz st =
    (if (a - heapbase st) mod BLOCKSIZE \<noteq> 0 then Some st
     else
       let st = set_len a sz st
       in if nxt st BlocksHead = None then Some (insert_last a BlocksHead st)
          else case search fuel (\<lambda>c. a + sz = c) st (nxt st BlocksHead) of
              None \<Rightarrow> None
            | Some (Some c) \<Rightarrow> Option.bind (join_successor a c st) (close_gap a)
            | Some None \<Rightarrow>
                (case search fuel (\<lambda>c. c + len st c = a) st (nxt st BlocksHead) of
                   None \<Rightarrow> None
                 | Some (Some c) \<Rightarrow> join_predecessor a c st
                 | Some None \<Rightarrow>
                     (case search fuel (\<lambda>c. a + sz < c) st (nxt st BlocksHead) of
                        None \<Rightarrow> None
                      | Some (Some c) \<Rightarrow> insert_before a c st
                      | Some None \<Rightarrow> map_option (\<lambda>c. insert_last a c st) (last_cell fuel st BlocksHead))))"

text \<open>\<open>k\<close> cells of the size \<open>sz\<close> that follow each other, in the list and in memory: the last of them.\<close>

fun complete_block :: "nat \<Rightarrow> ml_info \<Rightarrow> nat \<Rightarrow> nat \<Rightarrow> nat option" where
  "complete_block sz st a 0 = None"
| "complete_block sz st a (Suc 0) = Some a"
| "complete_block sz st a (Suc (Suc k)) =
    (if nxt st (Cell a) = Some (Cell (a + sz)) then complete_block sz st (a + sz) (Suc k) else None)"

definition unlink_block :: "nat \<Rightarrow> nat \<Rightarrow> ml_info \<Rightarrow> ml_info option" where
  "unlink_block a l st =
    (case prv st (Cell a) of
       None \<Rightarrow> None
     | Some p \<Rightarrow>
         let st = set_nxt p (nxt st (Cell l)) st
         in Some (case nxt st (Cell l) of None \<Rightarrow> st | Some n \<Rightarrow> set_prv n (prv st (Cell a)) st))"

fun reorde_loop :: "nat \<Rightarrow> nat \<Rightarrow> nat \<Rightarrow> ml_info \<Rightarrow> node option \<Rightarrow> ml_info option" where
  "reorde_loop fuel blocks lg st None = Some st"
| "reorde_loop (Suc fuel) blocks lg st (Some (Cell a)) =
    (case (if (a - heapbase st) mod BLOCKSIZE = 0
           then complete_block (frag_size lg) st a (BLOCKSIZE div frag_size lg) else None) of
       Some l \<Rightarrow> Option.bind (unlink_block a l st) (ml_reorde_block blocks a BLOCKSIZE)
     | None \<Rightarrow> reorde_loop fuel blocks lg st (nxt st (Cell a)))"
| "reorde_loop fuel blocks lg st (Some c) = None"

definition ml_reorde :: "nat \<Rightarrow> nat \<Rightarrow> ml_info \<Rightarrow> ml_info option" where
  "ml_reorde fuel lg st = reorde_loop fuel fuel lg st (nxt st (FragHead lg))"

definition free_fragment :: "nat \<Rightarrow> nat \<Rightarrow> nat \<Rightarrow> ml_info \<Rightarrow> ml_info option" where
  "free_fragment fuel a sz st =
    (let lg = ml_getfrag_log sz; first = nxt st (FragHead lg)
     in if first = None then Some (insert_last a (FragHead lg) st)
        else case search fuel (\<lambda>c. a + len st a = c) st first of
            None \<Rightarrow> None
          | Some (Some c) \<Rightarrow> Option.bind (insert_before a c st) (ml_reorde fuel lg)
          | Some None \<Rightarrow>
              (case search fuel (\<lambda>c. c + sz = a) st first of
                 None \<Rightarrow> None
               | Some (Some c) \<Rightarrow> ml_reorde fuel lg (insert_after_cell a c st)
               | Some None \<Rightarrow>
                   (case search fuel (\<lambda>c. a + len st a < c) st first of
                      None \<Rightarrow> None
                    | Some (Some c) \<Rightarrow> insert_before a c st
                    | Some None \<Rightarrow> map_option (\<lambda>c. insert_last a c st) (last_cell fuel st (FragHead lg)))))"

definition ml_free :: "nat \<Rightarrow> nat option \<Rightarrow> ml_info \<Rightarrow> ml_info option" where
  "ml_free fuel ptr st =
    (case ptr of
       None \<Rightarrow> Some st
     | Some p \<Rightarrow>
         let (a, sz) = ml_getFragmentData p st
         in if a < heapbase st \<or> a \<ge> heapend st then Some st
            else case (if sz \<le> BLOCKSIZE div 2
                       then search fuel (\<lambda>c. a = c) st (nxt st (FragHead (ml_getfrag_log sz))) else Some None) of
                None \<Rightarrow> None
              | Some (Some c) \<Rightarrow> Some st
              | Some None \<Rightarrow>
                  let st = set_len a sz st;
                      st = st\<lparr>bytes_free := bytes_free st + of_nat sz\<rparr>
                  in if sz \<le> BLOCKSIZE div 2 then free_fragment fuel a sz st
                     else ml_reorde_block fuel a sz st)"

section \<open>Reallocating\<close>

definition memcpy :: "nat \<Rightarrow> nat \<Rightarrow> nat \<Rightarrow> ml_info \<Rightarrow> ml_info" where
  "memcpy dst src n st =
    st\<lparr>bytes := (\<lambda>x. if dst \<le> x \<and> x < dst + n then bytes st (src + (x - dst)) else bytes st x)\<rparr>"

definition ml_realloc :: "nat \<Rightarrow> nat option \<Rightarrow> nat \<Rightarrow> ml_info \<Rightarrow> (nat option \<times> ml_info) option" where
  "ml_realloc fuel ptr sz st =
    (if sz = 0 then map_option (Pair None) (ml_free fuel ptr st)
     else case ml_malloc fuel sz st of
         None \<Rightarrow> None
       | Some (result, st) \<Rightarrow>
           (case (ptr, result) of
              (Some p, Some q) \<Rightarrow>
                let oldsize = snd (ml_getFragmentData p st);
                    newsize = snd (ml_getFragmentData q st);
                    copysize = min oldsize newsize - ml_offset
                in map_option (Pair (Some q)) (ml_free fuel (Some p) (memcpy q p copysize st))
            | _ \<Rightarrow> Some (result, st)))"

section \<open>The functions of the database\<close>

text \<open>\<open>pdb\<close>: whether a database is mapped.\<close>

definition ov_database_malloc :: "nat \<Rightarrow> bool \<Rightarrow> OV_UINT \<Rightarrow> ml_info \<Rightarrow> (nat option \<times> ml_info) option" where
  "ov_database_malloc fuel pdb sz st = (if pdb then ml_malloc fuel (unat sz) st else Some (None, st))"

definition ov_database_realloc :: "nat \<Rightarrow> bool \<Rightarrow> nat option \<Rightarrow> OV_UINT \<Rightarrow> ml_info \<Rightarrow> (nat option \<times> ml_info) option" where
  "ov_database_realloc fuel pdb ptr sz st = (if pdb then ml_realloc fuel ptr (unat sz) st else Some (None, st))"

definition ov_database_free :: "nat \<Rightarrow> bool \<Rightarrow> nat option \<Rightarrow> ml_info \<Rightarrow> ml_info option" where
  "ov_database_free fuel pdb ptr st = (if pdb then ml_free fuel ptr st else Some st)"

definition ov_database_getfree :: "ml_info \<Rightarrow> OV_UINT" where
  "ov_database_getfree st =
    (let free = (of_nat (pend st) - of_nat (pcurr st) + bytes_free st :: 64 word)
     in if free > 0xffffffff then OV_VL_MAXUINT else ucast free)"

definition ov_database_getused :: "nat \<Rightarrow> ml_info \<Rightarrow> OV_UINT" where
  "ov_database_getused baseaddr st =
    (let used = (of_nat (pstart st) - of_nat baseaddr + bytes_used st - bytes_free st :: 64 word)
     in if used > 0xffffffff then OV_VL_MAXUINT else ucast used)"

end
