(* ===== verification/OvMallocLists.thy ===== *)
theory OvMallocLists
  imports OvMalloc
begin

text \<open>
  The lists of free cells behind the pointers of OvMalloc: every head with the cells of its list is a
  chain of OvDll, and the cells of different lists are different. The lemmas say what the loops of
  the allocator find, and what its insertions and removals do to the lists.
\<close>

definition is_head :: "node \<Rightarrow> bool" where
  "is_head h \<longleftrightarrow> h = BlocksHead \<or> (\<exists>i < BLOCKLOG. h = FragHead i)"

lemma is_head_simps [simp]: "is_head BlocksHead" "is_head (FragHead i) \<longleftrightarrow> i < BLOCKLOG" "\<not> is_head (Cell a)"
  by (auto simp: is_head_def)

definition free_lists :: "ml_info \<Rightarrow> (node \<Rightarrow> nat list) \<Rightarrow> bool" where
  "free_lists st L \<longleftrightarrow>
     (\<forall>h. is_head h \<longrightarrow> chain (nxt st) (prv st) None (h # map Cell (L h)) None \<and> distinct (L h)) \<and>
     (\<forall>h h'. is_head h \<longrightarrow> is_head h' \<longrightarrow> h \<noteq> h' \<longrightarrow> set (L h) \<inter> set (L h') = {})"

definition in_lists :: "(node \<Rightarrow> nat list) \<Rightarrow> nat \<Rightarrow> bool" where
  "in_lists L a \<longleftrightarrow> (\<exists>h. is_head h \<and> a \<in> set (L h))"

text \<open>Operations that change only the pointers.\<close>

definition only_links :: "ml_info \<Rightarrow> ml_info \<Rightarrow> bool" where
  "only_links st st' \<longleftrightarrow> len st' = len st \<and> bytes st' = bytes st \<and> heapbase st' = heapbase st \<and>
     heapend st' = heapend st \<and> pcurr st' = pcurr st \<and> pend st' = pend st \<and> pstart st' = pstart st \<and>
     bytes_free st' = bytes_free st \<and> bytes_used st' = bytes_used st"

lemma only_links_trans: "only_links st st1 \<Longrightarrow> only_links st1 st2 \<Longrightarrow> only_links st st2"
  by (simp add: only_links_def)

lemma free_lists_fields [simp]:
  "free_lists (st\<lparr>len := f\<rparr>) L \<longleftrightarrow> free_lists st L" "free_lists (st\<lparr>bytes := g\<rparr>) L \<longleftrightarrow> free_lists st L"
  "free_lists (st\<lparr>bytes_free := w\<rparr>) L \<longleftrightarrow> free_lists st L" "free_lists (st\<lparr>bytes_used := w\<rparr>) L \<longleftrightarrow> free_lists st L"
  "free_lists (st\<lparr>heapend := n\<rparr>) L \<longleftrightarrow> free_lists st L" "free_lists (st\<lparr>pcurr := n\<rparr>) L \<longleftrightarrow> free_lists st L"
  by (simp_all add: free_lists_def)

lemma free_lists_cong:
  assumes "\<And>h. is_head h \<Longrightarrow> nxt st' h = nxt st h \<and> prv st' h = prv st h"
    "\<And>a. in_lists L a \<Longrightarrow> nxt st' (Cell a) = nxt st (Cell a) \<and> prv st' (Cell a) = prv st (Cell a)"
  shows "free_lists st' L \<longleftrightarrow> free_lists st L"
proof -
  have "chain (nxt st') (prv st') None (h # map Cell (L h)) None = chain (nxt st) (prv st) None (h # map Cell (L h)) None"
    if "is_head h" for h
    by (rule chain_cong) (use assms that in \<open>auto simp: in_lists_def\<close>)
  then show ?thesis by (simp add: free_lists_def del: chain.simps)
qed

lemma free_lists_chain:
  "free_lists st L \<Longrightarrow> is_head h \<Longrightarrow> chain (nxt st) (prv st) None (h # map Cell (L h)) None"
  "free_lists st L \<Longrightarrow> is_head h \<Longrightarrow> distinct (L h)"
  by (auto simp: free_lists_def)

lemma free_lists_first: "free_lists st L \<Longrightarrow> is_head h \<Longrightarrow> nxt st h = hd_or (map Cell (L h)) None"
  using free_lists_chain [of st L h] by simp

lemma free_lists_other:
  "free_lists st L \<Longrightarrow> is_head h \<Longrightarrow> is_head h' \<Longrightarrow> a \<in> set (L h) \<Longrightarrow> a \<in> set (L h') \<longleftrightarrow> h' = h"
  unfolding free_lists_def by blast

lemma free_lists_split:
  assumes "free_lists st L" "is_head h" "L h = xs @ a # ys"
  shows "prv st (Cell a) = Some (last (h # map Cell xs))" "nxt st (Cell a) = hd_or (map Cell ys) None"
    "nxt st (last (h # map Cell xs)) = Some (Cell a)"
proof -
  have "chain (nxt st) (prv st) None ((h # map Cell xs) @ Cell a # map Cell ys) None"
    using free_lists_chain(1) [OF assms(1,2)] assms(3) by simp
  from chain_neighbours [OF this] show "prv st (Cell a) = Some (last (h # map Cell xs))"
    "nxt st (Cell a) = hd_or (map Cell ys) None"
    by (simp_all add: last_or_def del: chain.simps)
  show "nxt st (last (h # map Cell xs)) = Some (Cell a)"
    using free_lists_chain(1) [OF assms(1,2)] assms(3) by (cases xs rule: rev_cases) simp_all
qed

section \<open>The loops\<close>

lemma search_chain:
  "chain (nxt st) (prv st) p (map Cell xs) None \<Longrightarrow> length xs \<le> fuel \<Longrightarrow>
    search fuel P st (hd_or (map Cell xs) None) = Some (find P xs)"
proof (induction xs arbitrary: p fuel)
  case (Cons x xs)
  then show ?case by (cases fuel) auto
qed simp

lemma search_list:
  "free_lists st L \<Longrightarrow> is_head h \<Longrightarrow> length (L h) \<le> fuel \<Longrightarrow> search fuel P st (nxt st h) = Some (find P (L h))"
  using search_chain [of st "Some h" "L h" fuel P] free_lists_chain(1) [of st L h] by (simp add: free_lists_first)

lemma last_cell_chain:
  "chain (nxt st) (prv st) p (c # cs) None \<Longrightarrow> length cs \<le> fuel \<Longrightarrow> last_cell fuel st c = Some (last (c # cs))"
proof (induction cs arbitrary: c p fuel)
  case (Cons d cs)
  then show ?case by (cases fuel) auto
qed simp

lemma last_cell_list:
  "free_lists st L \<Longrightarrow> is_head h \<Longrightarrow> length (L h) \<le> fuel \<Longrightarrow> last_cell fuel st h = Some (last (h # map Cell (L h)))"
  using last_cell_chain [OF free_lists_chain(1) [of st L h]] by simp

section \<open>Insertion and removal\<close>

definition link_between :: "node \<Rightarrow> nat \<Rightarrow> node option \<Rightarrow> ml_info \<Rightarrow> ml_info" where
  "link_between p a n st =
    st\<lparr>nxt := (nxt st)(Cell a := n, p := Some (Cell a)),
       prv := (case n of None \<Rightarrow> (prv st)(Cell a := Some p)
               | Some m \<Rightarrow> (prv st)(Cell a := Some p, m := Some (Cell a)))\<rparr>"

lemma link_between_links: "only_links st (link_between p a n st)"
  by (simp add: link_between_def only_links_def)

lemma free_lists_upd:
  assumes f: "free_lists st L" and own: "chain (nxt st') (prv st') None (h # map Cell xs) None" "distinct xs"
    and other: "\<And>h'. is_head h' \<Longrightarrow> h' \<noteq> h \<Longrightarrow> chain (nxt st') (prv st') None (h' # map Cell (L h')) None"
    and dis: "\<And>h'. is_head h' \<Longrightarrow> h' \<noteq> h \<Longrightarrow> set (L h') \<inter> set xs = {}"
  shows "free_lists st' (L(h := xs))"
  unfolding free_lists_def
proof (intro conjI allI impI)
  fix h' assume h': "is_head h'"
  show "chain (nxt st') (prv st') None (h' # map Cell ((L(h := xs)) h')) None"
    using own(1) other [OF h'] by (cases "h' = h") (simp_all del: chain.simps)
  show "distinct ((L(h := xs)) h')"
    using own(2) free_lists_chain(2) [OF f h'] by simp
  fix h2 assume h2: "is_head h2" "h' \<noteq> h2"
  consider "h' = h" | "h2 = h" | "h' \<noteq> h" "h2 \<noteq> h" by blast
  then show "set ((L(h := xs)) h') \<inter> set ((L(h := xs)) h2) = {}"
  proof cases
    case 1
    then show ?thesis using dis [OF h2(1)] h2(2) by auto
  next
    case 2
    then show ?thesis using dis [OF h'] h2(2) by auto
  next
    case 3
    moreover have "set (L h') \<inter> set (L h2) = {}" using f h' h2 unfolding free_lists_def by blast
    ultimately show ?thesis by simp
  qed
qed

lemma free_lists_link:
  assumes f: "free_lists st L" and h: "is_head h" and L: "L h = xs @ ys" and a: "\<not> in_lists L a"
    and p: "p = last (h # map Cell xs)" and n: "n = hd_or (map Cell ys) None"
  shows "free_lists (link_between p a n st) (L(h := xs @ a # ys))"
proof -
  let ?st = "link_between p a n st"
  have d: "distinct (xs @ ys)" "chain (nxt st) (prv st) None ((h # map Cell xs) @ map Cell ys) None"
    using free_lists_chain [OF f h] L by simp_all
  have new: "a \<notin> set (L h')" if "is_head h'" for h' using a that by (auto simp: in_lists_def)
  then have ax: "a \<notin> set (xs @ ys)" using h L by metis
  have pin: "p = h \<or> (\<exists>x \<in> set xs. p = Cell x)" using p by (cases xs rule: rev_cases) auto
  have nin: "m \<in> Cell ` set ys" if "n = Some m" for m using n that hd_or_in [of "map Cell ys" m] by auto
  have own: "chain (nxt ?st) (prv ?st) None (h # map Cell (xs @ a # ys)) None"
  proof -
    have "distinct ((h # map Cell xs) @ Cell a # map Cell ys)"
      using d(1) ax h by (auto simp: distinct_map inj_on_def is_head_def)
    moreover have lp: "last_or None (h # map Cell xs) = Some p" using p by (simp add: last_or_def)
    moreover have "p \<noteq> Cell a" using pin ax h by auto
    moreover have "n \<noteq> Some (Cell a)" using nin [of "Cell a"] ax by auto
    moreover have "n \<noteq> Some h" using nin [of h] h by auto
    ultimately have "chain (nxt ?st) (prv ?st) None ((h # map Cell xs) @ Cell a # map Cell ys) None"
      using n by (intro chain_insert [OF d(2)])
        (auto simp: link_between_def split: option.splits simp del: chain.simps chain_append last_or_simps)
    then show ?thesis by simp
  qed
  have other: "chain (nxt ?st) (prv ?st) None (h' # map Cell (L h')) None" if h': "is_head h'" "h' \<noteq> h" for h'
  proof -
    have dis: "set (L h') \<inter> set (xs @ ys) = {}" using f h h' L unfolding free_lists_def by metis
    have "x \<noteq> q \<and> x \<noteq> Cell a \<and> n \<noteq> Some x" if "x \<in> set (h' # map Cell (L h'))" "q = h \<or> (\<exists>x \<in> set xs. q = Cell x)" for x q
      using that nin [of x] dis new [OF h'(1)] h h' by auto
    then have "x \<noteq> p \<and> x \<noteq> Cell a \<and> n \<noteq> Some x" if "x \<in> set (h' # map Cell (L h'))" for x
      using that pin by blast
    then have "chain (nxt ?st) (prv ?st) None (h' # map Cell (L h')) None =
        chain (nxt st) (prv st) None (h' # map Cell (L h')) None"
      by (intro chain_cong) (auto simp: link_between_def split: option.split)
    then show ?thesis using free_lists_chain(1) [OF f h'(1)] by blast
  qed
  have "set (L h') \<inter> set (xs @ ys) = {}" if "is_head h'" "h' \<noteq> h" for h'
    using f h that L unfolding free_lists_def by metis
  then have dis: "set (L h') \<inter> set (xs @ a # ys) = {}" if "is_head h'" "h' \<noteq> h" for h'
    using new that by fastforce
  show ?thesis
    by (rule free_lists_upd [OF f own]) (use other dis d(1) ax in auto)
qed

lemma chain_remove_segment:
  assumes c: "chain nx pv None (xs @ seg @ ys) None" and d: "distinct (xs @ seg @ ys)"
    and n: "\<And>x. x \<in> set (xs @ ys) \<Longrightarrow> nx' x = (if last_or None xs = Some x then hd_or ys None else nx x)"
    and p: "\<And>x. x \<in> set (xs @ ys) \<Longrightarrow> pv' x = (if hd_or ys None = Some x then last_or None xs else pv x)"
  shows "chain nx' pv' None (xs @ ys) None"
proof -
  have hx: "hd_or ys None \<noteq> Some x" if "x \<in> set xs" for x
    using that d hd_or_in [of ys x] by auto
  have ly: "last_or None xs \<noteq> Some y" if "y \<in> set ys" for y
    using that d last_or_in [of xs y] by auto
  have "chain nx' pv' None xs (hd_or ys None)"
    by (rule chain_retarget_end [of nx pv None xs "hd_or (seg @ ys) None"]) (use c d n p hx in auto)
  moreover have "chain nx' pv' (last_or None xs) ys None"
    by (rule chain_retarget_start [of nx pv "last_or (last_or None xs) seg" ys None]) (use c d n p ly in auto)
  ultimately show ?thesis by simp
qed

text \<open>What is left when the cells between \<open>p\<close> and \<open>n\<close> are taken out.\<close>

definition unlinked :: "node \<Rightarrow> node option \<Rightarrow> ml_info \<Rightarrow> ml_info" where
  "unlinked p n st = st\<lparr>nxt := (nxt st)(p := n),
     prv := (case n of None \<Rightarrow> prv st | Some m \<Rightarrow> (prv st)(m := Some p))\<rparr>"

lemma unlinked_links: "only_links st (unlinked p n st)"
  by (simp add: unlinked_def only_links_def)

lemma link_unlinked: "link_between p a n (unlinked p n st) = link_between p a n st"
  by (cases n) (simp_all add: link_between_def unlinked_def fun_upd_twist)

lemma free_lists_unlinked:
  assumes f: "free_lists st L" and h: "is_head h" and L: "L h = xs @ seg @ ys"
  shows "free_lists (unlinked (last (h # map Cell xs)) (hd_or (map Cell ys) None) st) (L(h := xs @ ys))"
proof -
  let ?p = "last (h # map Cell xs)" and ?n = "hd_or (map Cell ys) None"
  let ?st = "unlinked ?p ?n st"
  have d: "distinct (xs @ seg @ ys)"
    "chain (nxt st) (prv st) None ((h # map Cell xs) @ map Cell seg @ map Cell ys) None"
    using free_lists_chain [OF f h] L by simp_all
  have pin: "?p = h \<or> (\<exists>x \<in> set xs. ?p = Cell x)" by (cases xs rule: rev_cases) auto
  have nin: "m \<in> Cell ` set ys" if "?n = Some m" for m using that hd_or_in [of "map Cell ys" m] by auto
  have own: "chain (nxt ?st) (prv ?st) None (h # map Cell (xs @ ys)) None"
  proof -
    have "distinct ((h # map Cell xs) @ map Cell seg @ map Cell ys)"
      using d(1) h by (auto simp: distinct_map inj_on_def is_head_def)
    moreover have "last_or None (h # map Cell xs) = Some ?p" by (simp add: last_or_def)
    ultimately have "chain (nxt ?st) (prv ?st) None ((h # map Cell xs) @ map Cell ys) None"
      by (intro chain_remove_segment [OF d(2)])
        (auto simp: unlinked_def split: option.splits simp del: chain.simps chain_append last_or_simps)
    then show ?thesis by simp
  qed
  have other: "chain (nxt ?st) (prv ?st) None (h' # map Cell (L h')) None" if h': "is_head h'" "h' \<noteq> h" for h'
  proof -
    have dis: "set (L h') \<inter> set (xs @ seg @ ys) = {}" using f h h' L unfolding free_lists_def by metis
    have "x \<noteq> q \<and> ?n \<noteq> Some x" if "x \<in> set (h' # map Cell (L h'))" "q = h \<or> (\<exists>x \<in> set xs. q = Cell x)" for x q
      using that nin [of x] dis h h' by auto
    then have "x \<noteq> ?p \<and> ?n \<noteq> Some x" if "x \<in> set (h' # map Cell (L h'))" for x
      using that pin by blast
    then have "chain (nxt ?st) (prv ?st) None (h' # map Cell (L h')) None =
        chain (nxt st) (prv st) None (h' # map Cell (L h')) None"
      by (intro chain_cong) (auto simp: unlinked_def split: option.split)
    then show ?thesis using free_lists_chain(1) [OF f h'(1)] by blast
  qed
  have dis: "set (L h') \<inter> set (xs @ ys) = {}" if "is_head h'" "h' \<noteq> h" for h'
    using f h that L unfolding free_lists_def by fastforce
  show ?thesis
    by (rule free_lists_upd [OF f own]) (use other dis d(1) in auto)
qed

lemma unlink_block_value:
  assumes f: "free_lists st L" and h: "is_head h" and L: "L h = xs @ seg @ ys" and seg: "seg \<noteq> []"
  shows "unlink_block (hd seg) (last seg) st = Some (unlinked (last (h # map Cell xs)) (hd_or (map Cell ys) None) st)"
proof -
  let ?p = "last (h # map Cell xs)"
  have 1: "prv st (Cell (hd seg)) = Some ?p"
    using free_lists_split(1) [OF f h, of xs "hd seg" "tl seg @ ys"] L seg by simp
  have 2: "nxt st (Cell (last seg)) = hd_or (map Cell ys) None"
    using free_lists_split(2) [OF f h, of "xs @ butlast seg" "last seg" ys] L seg by simp
  have "?p \<noteq> Cell (last seg)"
    using free_lists_chain(2) [OF f h] L h seg by (cases xs rule: rev_cases) (auto dest: last_in_set)
  then show ?thesis
    using 1 2 by (simp add: unlink_block_def unlinked_def Let_def split: option.split)
qed

lemma unlink_cell_value:
  assumes "free_lists st L" "is_head h" "L h = xs @ a # ys"
  shows "unlink_cell a st = Some (unlinked (last (h # map Cell xs)) (hd_or (map Cell ys) None) st)"
  using unlink_block_value [OF assms(1,2), of xs "[a]" ys] assms(3)
  by (simp add: unlink_block_def unlink_cell_def)

text \<open>Linking cells in.\<close>

lemma push_front_value: "is_head h \<Longrightarrow> push_front h a st = link_between h a (nxt st h) st"
  by (cases "nxt st h"; cases h) (simp_all add: push_front_def link_between_def Let_def)

lemma insert_last_value: "insert_last a c st = link_between c a None st"
  by (simp add: insert_last_def link_between_def)

lemma insert_before_value:
  "prv st (Cell c) = Some p \<Longrightarrow> insert_before a c st = Some (link_between p a (Some (Cell c)) st)"
  by (simp add: insert_before_def link_between_def)

lemma insert_after_value:
  "c \<noteq> a \<Longrightarrow> nxt st (Cell c) \<noteq> Some (Cell a) \<Longrightarrow> insert_after_cell a c st = link_between (Cell c) a (nxt st (Cell c)) st"
  by (cases "nxt st (Cell c)") (auto simp: insert_after_cell_def link_between_def Let_def fun_upd_twist)

lemma free_lists_forget:
  assumes "free_lists st L" "\<not> in_lists L a"
  shows "free_lists (forget_cell a st) L" "len (forget_cell a st) = (len st)(a := 0)"
proof -
  show "free_lists (forget_cell a st) L"
    using assms by (subst free_lists_cong [of _ st]) (auto simp: forget_cell_def in_lists_def is_head_def)
qed (simp add: forget_cell_def)

lemma free_lists_node:
  assumes "free_lists st L" "is_head h" "L h = xs @ c # ys" "\<not> in_lists L a"
  shows "c \<noteq> a" "nxt st (Cell c) \<noteq> Some (Cell a)" "c \<in> set (L h)" "a \<notin> set xs" "a \<notin> set ys"
proof -
  have "a \<notin> set (L h)" using assms(2,4) by (auto simp: in_lists_def)
  then show "c \<noteq> a" "nxt st (Cell c) \<noteq> Some (Cell a)" "c \<in> set (L h)" "a \<notin> set xs" "a \<notin> set ys"
    using free_lists_split(2) [OF assms(1-3)] assms(3) by (cases ys; auto)+
qed

lemma insert_before_lists:
  assumes "free_lists st L" "is_head h" "L h = xs @ c # ys" "\<not> in_lists L a"
  shows "\<exists>st'. insert_before a c st = Some st' \<and> only_links st st' \<and> free_lists st' (L(h := xs @ a # c # ys))"
  using insert_before_value [OF free_lists_split(1) [OF assms(1-3)]] link_between_links
    free_lists_link [OF assms(1,2), of xs "c # ys" a, OF _ assms(4) refl refl] assms(3) by fastforce

lemma insert_after_lists:
  assumes "free_lists st L" "is_head h" "L h = xs @ c # ys" "\<not> in_lists L a"
  shows "only_links st (insert_after_cell a c st) \<and> free_lists (insert_after_cell a c st) (L(h := xs @ c # a # ys))"
  using insert_after_value [OF free_lists_node(1,2) [OF assms]] link_between_links free_lists_split(2) [OF assms(1-3)]
    free_lists_link [OF assms(1,2), of "xs @ [c]" ys a, OF _ assms(4) refl refl] assms(3) by simp

lemma insert_last_lists:
  assumes "free_lists st L" "is_head h" "\<not> in_lists L a" "c = last (h # map Cell (L h))"
  shows "only_links st (insert_last a c st) \<and> free_lists (insert_last a c st) (L(h := L h @ [a]))"
  using link_between_links free_lists_link [OF assms(1,2), of "L h" "[]" a, OF _ assms(3) refl refl] assms(4)
  by (simp add: insert_last_value)

lemma push_front_lists:
  assumes "free_lists st L" "is_head h" "\<not> in_lists L a"
  shows "only_links st (push_front h a st) \<and> free_lists (push_front h a st) (L(h := a # L h))"
  using link_between_links free_lists_link [OF assms(1,2), of "[]" "L h" a, OF _ assms(3) refl refl]
  by (simp add: push_front_value [OF assms(2)] free_lists_first [OF assms(1,2)])

lemma unlink_cell_lists:
  assumes "free_lists st L" "is_head h" "L h = xs @ a # ys"
  shows "\<exists>st'. unlink_cell a st = Some st' \<and> only_links st st' \<and> free_lists st' (L(h := xs @ ys))"
  using unlink_cell_value [OF assms] unlinked_links free_lists_unlinked [OF assms(1,2), of xs "[a]" ys] assms(3) by simp

lemma unlink_block_lists:
  assumes "free_lists st L" "is_head h" "L h = xs @ seg @ ys" "seg \<noteq> []"
  shows "\<exists>st'. unlink_block (hd seg) (last seg) st = Some st' \<and> only_links st st' \<and> free_lists st' (L(h := xs @ ys))"
  using unlink_block_value [OF assms] unlinked_links free_lists_unlinked [OF assms(1-3)] by blast

section \<open>Joining blocks\<close>

text \<open>Operations that change the pointers and the lengths.\<close>

definition links_and_len :: "ml_info \<Rightarrow> ml_info \<Rightarrow> bool" where
  "links_and_len st st' \<longleftrightarrow> bytes st' = bytes st \<and> heapbase st' = heapbase st \<and> heapend st' = heapend st \<and>
     pcurr st' = pcurr st \<and> pend st' = pend st \<and> pstart st' = pstart st \<and>
     bytes_free st' = bytes_free st \<and> bytes_used st' = bytes_used st"

lemma only_links_len: "only_links st st' \<Longrightarrow> links_and_len st st'"
  by (simp add: only_links_def links_and_len_def)

lemma links_and_len_trans: "links_and_len st st1 \<Longrightarrow> links_and_len st1 st2 \<Longrightarrow> links_and_len st st2"
  by (simp add: links_and_len_def)

lemma links_and_len_simps [simp]: "links_and_len st st" "links_and_len st (set_len a n st') \<longleftrightarrow> links_and_len st st'"
  "links_and_len st (forget_cell a st') \<longleftrightarrow> links_and_len st st'"
  by (simp_all add: links_and_len_def forget_cell_def)

lemma not_in_lists_upd:
  assumes "free_lists st L" "is_head h" "L h = xs @ seg @ ys" "a \<in> set seg" "a \<notin> set zs"
  shows "\<not> in_lists (L(h := zs)) a"
  using assms free_lists_other [OF assms(1,2), of _ a] by (auto simp: in_lists_def)

lemma free_lists_forgotten:
  assumes "free_lists st1 L" "\<not> in_lists L a" "nxt st' = (nxt st1)(Cell a := None)" "prv st' = (prv st1)(Cell a := None)"
  shows "free_lists st' L"
  using assms by (subst free_lists_cong [of _ st1]) (auto simp: in_lists_def is_head_def)

lemma join_successor_lists:
  assumes f: "free_lists st L" and h: "is_head h" and L: "L h = xs @ c # ys" and a: "\<not> in_lists L a"
  shows "\<exists>st'. join_successor a c st = Some st' \<and> links_and_len st st' \<and> free_lists st' (L(h := xs @ a # ys)) \<and>
    len st' = (len st)(a := len st a + len st c, c := 0)"
proof -
  let ?p = "last (h # map Cell xs)" and ?n = "hd_or (map Cell ys) None"
  let ?st1 = "link_between ?p a ?n st"
  note n = free_lists_node [OF f h L a]
  have "free_lists (unlinked ?p ?n st) (L(h := xs @ ys))"
    using free_lists_unlinked [OF f h, of xs "[c]" ys] L by simp
  then have "free_lists (link_between ?p a ?n (unlinked ?p ?n st)) ((L(h := xs @ ys))(h := xs @ a # ys))"
    by (rule free_lists_link) (use h a L n in \<open>auto simp: in_lists_def\<close>)
  then have 1: "free_lists ?st1 (L(h := xs @ a # ys))" by (simp add: link_unlinked)
  have d: "distinct (L h)" using free_lists_chain(2) [OF f h] .
  have 2: "\<not> in_lists (L(h := xs @ a # ys)) c"
    using not_in_lists_upd [OF f h, of xs "[c]" ys c "xs @ a # ys"] L n(1) d by auto
  have pa: "?p \<noteq> Cell a" using n(4) h by (cases xs rule: rev_cases) auto
  have "\<exists>st'. join_successor a c st = Some st' \<and> nxt st' = (nxt ?st1)(Cell c := None) \<and>
    prv st' = (prv ?st1)(Cell c := None) \<and> len st' = (len st)(a := len st a + len st c, c := 0) \<and> links_and_len st st'"
    using free_lists_split(1,2) [OF f h L] pa
    by (cases ?n) (simp_all add: join_successor_def link_between_def forget_cell_def links_and_len_def)
  then show ?thesis using free_lists_forgotten [OF 1 2] by blast
qed

lemma close_gap_lists:
  assumes f: "free_lists st L" and L: "L BlocksHead = xs @ a # ys"
  shows "\<exists>st'. close_gap a st = Some st' \<and> links_and_len st st' \<and>
    (if xs \<noteq> [] \<and> a = last xs + len st (last xs)
     then free_lists st' (L(BlocksHead := xs @ ys)) \<and>
       len st' = (len st)(last xs := len st (last xs) + len st a, a := 0)
     else st' = st)"
proof -
  have h: "is_head BlocksHead" by simp
  note sp = free_lists_split [OF f h L]
  have d: "distinct (L BlocksHead)" using free_lists_chain(2) [OF f h] .
  show ?thesis
  proof (cases xs rule: rev_cases)
    case Nil
    then have "nxt st BlocksHead = Some (Cell a)" using free_lists_first [OF f h] L by simp
    then show ?thesis using Nil by (simp add: close_gap_def)
  next
    case (snoc zs c)
    then have nf: "nxt st BlocksHead \<noteq> Some (Cell a)" using free_lists_first [OF f h] L d by (cases zs) auto
    moreover have p: "prv st (Cell a) = Some (Cell c)" using sp(1) snoc by simp
    moreover have ca: "c \<noteq> a" using d L snoc by auto
    ultimately have v: "close_gap a st = Some st" if "a \<noteq> c + len st c" using that by (simp add: close_gap_def)
    let ?st1 = "unlinked (Cell c) (nxt st (Cell a)) st"
    have 1: "free_lists ?st1 (L(BlocksHead := xs @ ys))"
      using free_lists_unlinked [OF f h, of xs "[a]" ys] L sp(2) snoc by simp
    have 2: "\<not> in_lists (L(BlocksHead := xs @ ys)) a"
      using not_in_lists_upd [OF f h, of xs "[a]" ys a "xs @ ys"] L d by auto
    show ?thesis
    proof (cases "a = c + len st c")
      case True
      have "\<exists>st'. close_gap a st = Some st' \<and> nxt st' = (nxt ?st1)(Cell a := None) \<and>
        prv st' = (prv ?st1)(Cell a := None) \<and> len st' = (len st)(c := len st c + len st a, a := 0) \<and> links_and_len st st'"
        using nf p ca True by (cases "nxt st (Cell a)")
          (simp_all add: close_gap_def unlinked_def forget_cell_def links_and_len_def)
      then show ?thesis using free_lists_forgotten [OF 1 2] True snoc by auto
    next
      case False
      then show ?thesis using v snoc by simp
    qed
  qed
qed

lemma join_predecessor_lists:
  assumes f: "free_lists st L" and L: "L BlocksHead = xs @ c # ys" and a: "\<not> in_lists L a"
    and n: "hd_or ys None \<noteq> Some (c + (len st c + len st a))"
  shows "\<exists>st'. join_predecessor a c st = Some st' \<and> links_and_len st st' \<and> free_lists st' L \<and>
    len st' = (len st)(c := len st c + len st a, a := 0)"
proof -
  have h: "is_head BlocksHead" by simp
  have ca: "c \<noteq> a" using free_lists_node(1) [OF f h L a] .
  let ?st = "forget_cell a (set_len c (len st c + len st a) st)"
  have "free_lists (set_len c (len st c + len st a) st) L" using f by simp
  from free_lists_forget [OF this a] have 1: "free_lists ?st L" "len ?st = (len st)(c := len st c + len st a, a := 0)"
    by simp_all
  have 2: "nxt ?st (Cell c) = hd_or (map Cell ys) None"
    using free_lists_split(2) [OF 1(1) h L] .
  have "join_predecessor a c st = Some ?st"
    using n ca unfolding join_predecessor_def Let_def 2 1(2) by (cases ys) auto
  then show ?thesis using 1 by simp
qed

text \<open>Several cells of a fragment list that lie one behind the other.\<close>

lemma complete_block_lists:
  assumes "free_lists st L" "is_head h" "L h = xs @ a # ys" "complete_block sz st a (Suc k) = Some l"
  shows "\<exists>zs. L h = xs @ map (\<lambda>i. a + i * sz) [0..<Suc k] @ zs \<and> l = a + k * sz"
  using assms(3,4)
proof (induction k arbitrary: a xs ys)
  case 0
  then show ?case by simp
next
  case (Suc k)
  have 1: "nxt st (Cell a) = Some (Cell (a + sz))" "complete_block sz st (a + sz) (Suc k) = Some l"
    using Suc.prems(2) by (simp_all split: if_splits)
  then obtain ys' where ys: "ys = (a + sz) # ys'"
    using free_lists_split(2) [OF assms(1,2) Suc.prems(1)] by (cases ys) auto
  from Suc.IH [of "xs @ [a]" "a + sz" ys'] Suc.prems(1) ys 1(2) obtain zs where
    zs: "L h = (xs @ [a]) @ map (\<lambda>i. a + sz + i * sz) [0..<Suc k] @ zs" "l = a + sz + k * sz" by auto
  have "map (\<lambda>i. a + sz + i * sz) [0..<Suc k] = map (\<lambda>i. a + i * sz) [Suc 0..<Suc (Suc k)]"
    by (simp only: map_Suc_upt [symmetric] map_map comp_def) (simp add: add.assoc)
  moreover have "[0..<Suc (Suc k)] = 0 # [Suc 0..<Suc (Suc k)]" by (rule upt_conv_Cons) simp
  ultimately show ?case using zs by (simp del: upt_Suc add: add.assoc)
qed

end
