(* ===== verification/OvMallocSafe.thy ===== *)
theory OvMallocSafe
  imports OvMallocLists
begin

text \<open>
  The memory of the allocator as a map of regions that cover the heap without overlapping: pieces in
  use, free fragments and free blocks. The invariant \<open>heap_ok\<close> relates the map to the lists and to the
  sizes that stand in the cells; every operation keeps it.
\<close>

section \<open>Regions\<close>

datatype region = Live nat | Frag nat | Block nat

fun region_size :: "region \<Rightarrow> nat" where
  "region_size (Live s) = s"
| "region_size (Frag k) = 2 ^ k"
| "region_size (Block s) = s"

type_synonym regions = "nat \<Rightarrow> region option"

definition tiles :: "nat \<Rightarrow> nat \<Rightarrow> regions \<Rightarrow> bool" where
  "tiles base lim reg \<longleftrightarrow>
     (\<forall>a r. reg a = Some r \<longrightarrow> base \<le> a \<and> a + region_size r \<le> lim \<and> 0 < region_size r) \<and>
     (\<forall>a b r s. reg a = Some r \<longrightarrow> reg b = Some s \<longrightarrow> a < b \<longrightarrow> a + region_size r \<le> b) \<and>
     (\<forall>x. base \<le> x \<longrightarrow> x < lim \<longrightarrow> (\<exists>a r. reg a = Some r \<and> a \<le> x \<and> x < a + region_size r))"

lemma tilesD:
  assumes "tiles base lim reg"
  shows "reg a = Some r \<Longrightarrow> base \<le> a" "reg a = Some r \<Longrightarrow> a + region_size r \<le> lim" "reg a = Some r \<Longrightarrow> 0 < region_size r"
    "reg a = Some r \<Longrightarrow> reg b = Some s \<Longrightarrow> a < b \<Longrightarrow> a + region_size r \<le> b"
    "base \<le> x \<Longrightarrow> x < lim \<Longrightarrow> \<exists>a r. reg a = Some r \<and> a \<le> x \<and> x < a + region_size r"
  using assms unfolding tiles_def by blast+

lemma tilesI:
  assumes "\<And>a r. reg a = Some r \<Longrightarrow> base \<le> a \<and> a + region_size r \<le> lim \<and> 0 < region_size r"
    "\<And>a b r s. reg a = Some r \<Longrightarrow> reg b = Some s \<Longrightarrow> a < b \<Longrightarrow> a + region_size r \<le> b"
    "\<And>x. base \<le> x \<Longrightarrow> x < lim \<Longrightarrow> \<exists>a r. reg a = Some r \<and> a \<le> x \<and> x < a + region_size r"
  shows "tiles base lim reg"
  using assms unfolding tiles_def by blast

text \<open>Inside a region no other begins, and behind it there is one or the end.\<close>

lemma tiles_inside: "tiles base lim reg \<Longrightarrow> reg a = Some r \<Longrightarrow> a < b \<Longrightarrow> b < a + region_size r \<Longrightarrow> reg b = None"
  by (metis linorder_not_less not_None_eq tilesD(4))

lemma tiles_behind:
  assumes "tiles base lim reg" "reg a = Some r" "a + region_size r < lim"
  shows "\<exists>s. reg (a + region_size r) = Some s"
proof -
  obtain b s where b: "reg b = Some s" "b \<le> a + region_size r" "a + region_size r < b + region_size s"
    using tilesD(5) [OF assms(1), of "a + region_size r"] tilesD(1) [OF assms(1,2)] assms(3) by force
  have "b = a + region_size r"
  proof (rule ccontr)
    assume "b \<noteq> a + region_size r"
    then have "b < a + region_size r" using b(2) by simp
    then consider "a < b" | "a = b" | "b < a" by linarith
    then show False
    proof cases
      case 1
      then show ?thesis using tiles_inside [OF assms(1,2) 1] \<open>b < a + region_size r\<close> b(1) by simp
    next
      case 2
      then show ?thesis using b assms(2) by simp
    next
      case 3
      then show ?thesis using tilesD(4) [OF assms(1) b(1) assms(2)] b(3) by simp
    qed
  qed
  then show ?thesis using b(1) by blast
qed

lemma tiles_relabel:
  assumes "tiles base lim reg" "reg a = Some r" "region_size r' = region_size r"
  shows "tiles base lim (reg(a \<mapsto> r'))"
proof (rule tilesI)
  fix b s assume "(reg(a \<mapsto> r')) b = Some s"
  then show "base \<le> b \<and> b + region_size s \<le> lim \<and> 0 < region_size s"
    using assms tilesD(1-3) [OF assms(1)] by (cases "b = a") auto
next
  fix b c s t assume "(reg(a \<mapsto> r')) b = Some s" "(reg(a \<mapsto> r')) c = Some t" "b < c"
  then show "b + region_size s \<le> c"
    using assms(2,3) tilesD(4) [OF assms(1)] by (cases "b = a"; cases "c = a") auto
next
  fix x assume "base \<le> x" "x < lim"
  then obtain b s where "reg b = Some s" "b \<le> x" "x < b + region_size s" using tilesD(5) [OF assms(1)] by blast
  then show "\<exists>b s. (reg(a \<mapsto> r')) b = Some s \<and> b \<le> x \<and> x < b + region_size s"
    using assms(2,3) by (intro exI [of _ b] exI [of _ "if b = a then r' else s"]) auto
qed

lemma tiles_split:
  assumes "tiles base lim reg" "reg a = Some r" "region_size r = region_size r1 + region_size r2"
    "0 < region_size r1" "0 < region_size r2"
  shows "tiles base lim (reg(a \<mapsto> r1, a + region_size r1 \<mapsto> r2))"
proof -
  let ?b = "a + region_size r1" and ?reg = "reg(a \<mapsto> r1, a + region_size r1 \<mapsto> r2)"
  have free: "reg c = None" if "a < c" "c < a + region_size r" for c using tiles_inside [OF assms(1,2) that] .
  have cases: "c = a \<and> s = r1 \<or> c = ?b \<and> s = r2 \<or> reg c = Some s \<and> (c < a \<or> a + region_size r \<le> c)"
    if "?reg c = Some s" for c s
    using that free [of c] assms(3,4) by (cases "c = a"; cases "c = ?b"; cases "c < a") (auto split: if_splits intro: leI)
  show ?thesis
  proof (rule tilesI)
    fix c s assume "?reg c = Some s"
    then show "base \<le> c \<and> c + region_size s \<le> lim \<and> 0 < region_size s"
      using cases [of c s] tilesD(1-3) [OF assms(1)] assms(2-5) by fastforce
  next
    fix c d s t assume "?reg c = Some s" "?reg d = Some t" "c < d"
    then show "c + region_size s \<le> d"
      using cases [of c s] cases [of d t] tilesD(4) [OF assms(1), of c s d t] tilesD(4) [OF assms(1), of c s a r] assms(2,3)
      by auto
  next
    fix x assume "base \<le> x" "x < lim"
    then obtain c s where c: "reg c = Some s" "c \<le> x" "x < c + region_size s" using tilesD(5) [OF assms(1)] by blast
    show "\<exists>c s. ?reg c = Some s \<and> c \<le> x \<and> x < c + region_size s"
    proof (cases "c = a")
      case True
      then show ?thesis using c assms(2-5)
        by (cases "x < ?b") (auto intro: exI [of _ a] exI [of _ ?b])
    next
      case False
      moreover have "c \<noteq> ?b" using c(1) free [of ?b] assms(3-5) by auto
      ultimately show ?thesis using c by (auto intro!: exI [of _ c])
    qed
  qed
qed

lemma tiles_join:
  assumes "tiles base lim reg" "reg a = Some r1" "reg (a + region_size r1) = Some r2"
    "region_size r = region_size r1 + region_size r2"
  shows "tiles base lim (reg(a \<mapsto> r, a + region_size r1 := None))"
proof -
  let ?b = "a + region_size r1" and ?reg = "reg(a \<mapsto> r, a + region_size r1 := None)"
  have pos: "0 < region_size r1" "0 < region_size r2" using tilesD(3) [OF assms(1)] assms(2,3) by blast+
  have cases: "c = a \<and> s = r \<or> reg c = Some s \<and> c \<noteq> a \<and> c \<noteq> ?b" if "?reg c = Some s" for c s
    using that pos by (cases "c = ?b"; cases "c = a") (auto split: if_splits)
  show ?thesis
  proof (rule tilesI)
    fix c s assume "?reg c = Some s"
    then show "base \<le> c \<and> c + region_size s \<le> lim \<and> 0 < region_size s"
      using cases [of c s] tilesD(1-3) [OF assms(1)] tilesD(2) [OF assms(1,3)] assms(2-4) pos by fastforce
  next
    fix c d s t assume cd: "?reg c = Some s" "?reg d = Some t" "c < d"
    have d: "d = a \<and> t = r \<or> reg d = Some t \<and> d \<noteq> a \<and> d \<noteq> ?b" using cases cd(2) by blast
    consider "c = a" "s = r" | "reg c = Some s" "c \<noteq> a" "c \<noteq> ?b" using cases cd(1) by blast
    then show "c + region_size s \<le> d"
    proof cases
      case 1
      then have t: "reg d = Some t" "d \<noteq> ?b" using d cd(3) by auto
      then have "?b \<le> d" using tilesD(4) [OF assms(1,2), of d t] cd(3) 1(1) by blast
      then have "?b < d" using t(2) by simp
      then show ?thesis using tilesD(4) [OF assms(1,3) t(1)] 1 assms(4) by simp
    next
      case 2
      then show ?thesis
        using d cd(3) tilesD(4) [OF assms(1) 2(1), of d t] tilesD(4) [OF assms(1) 2(1) assms(2)] by blast
    qed
  next
    fix x assume "base \<le> x" "x < lim"
    then obtain c s where c: "reg c = Some s" "c \<le> x" "x < c + region_size s" using tilesD(5) [OF assms(1)] by blast
    show "\<exists>c s. ?reg c = Some s \<and> c \<le> x \<and> x < c + region_size s"
    proof (cases "c = a \<or> c = ?b")
      case True
      then have "a \<le> x \<and> x < a + region_size r" using c assms(2-4) by auto
      moreover have "?reg a = Some r" using pos by simp
      ultimately show ?thesis by blast
    next
      case False
      then show ?thesis using c by (auto intro!: exI [of _ c])
    qed
  qed
qed

lemma tiles_extend:
  assumes "tiles base lim reg" "base \<le> lim" "0 < region_size r"
  shows "tiles base (lim + region_size r) (reg(lim \<mapsto> r))"
proof -
  have below: "c < lim" if "reg c = Some s" for c s using tilesD(2,3) [OF assms(1) that] by linarith
  show ?thesis
  proof (rule tilesI)
    fix c s assume "(reg(lim \<mapsto> r)) c = Some s"
    then show "base \<le> c \<and> c + region_size s \<le> lim + region_size r \<and> 0 < region_size s"
      using tilesD(1-3) [OF assms(1)] assms(2,3) by (cases "c = lim") fastforce+
  next
    fix c d s t assume cd: "(reg(lim \<mapsto> r)) c = Some s" "(reg(lim \<mapsto> r)) d = Some t" "c < d"
    then show "c + region_size s \<le> d"
      using tilesD(4) [OF assms(1), of c s d t] tilesD(2) [OF assms(1), of c s] below [of d t] below [of c s]
      by (cases "c = lim"; cases "d = lim") auto
  next
    fix x assume x: "base \<le> x" "x < lim + region_size r"
    show "\<exists>c s. (reg(lim \<mapsto> r)) c = Some s \<and> c \<le> x \<and> x < c + region_size s"
    proof (cases "x < lim")
      case True
      then obtain c s where c: "reg c = Some s" "c \<le> x" "x < c + region_size s" using tilesD(5) [OF assms(1)] x by blast
      then have "c \<noteq> lim" using below by blast
      then show ?thesis using c by (auto intro!: exI [of _ c])
    next
      case False
      then show ?thesis using x by (auto intro!: exI [of _ lim])
    qed
  qed
qed

lemma tiles_empty: "tiles base base (\<lambda>_. None)"
  by (simp add: tiles_def)

section \<open>The invariant\<close>

fun region_ok :: "nat \<Rightarrow> nat \<Rightarrow> region \<Rightarrow> bool" where
  "region_ok base a (Live s) \<longleftrightarrow> (\<exists>k. 5 \<le> k \<and> k \<le> 11 \<and> s = 2 ^ k \<and> 2 ^ k dvd a - base) \<or>
     0 < s \<and> BLOCKSIZE dvd s \<and> BLOCKSIZE dvd a - base"
| "region_ok base a (Frag k) \<longleftrightarrow> 5 \<le> k \<and> k \<le> 11 \<and> 2 ^ k dvd a - base"
| "region_ok base a (Block s) \<longleftrightarrow> 0 < s \<and> BLOCKSIZE dvd s \<and> BLOCKSIZE dvd a - base"

definition pool_ok :: "ml_info \<Rightarrow> bool" where
  "pool_ok st \<longleftrightarrow> pstart st = heapbase st \<and> heapbase st \<le> pcurr st \<and> pcurr st \<le> pend st \<and>
     BLOCKSIZE dvd pcurr st - heapbase st \<and> pend st + 2 ^ 33 \<le> SIZE_MOD \<and>
     (pcurr st = heapbase st \<or> heapend st = pcurr st)"

definition heap_ok :: "ml_info \<Rightarrow> regions \<Rightarrow> (node \<Rightarrow> nat list) \<Rightarrow> bool" where
  "heap_ok st reg L \<longleftrightarrow> free_lists st L \<and> pool_ok st \<and> tiles (heapbase st) (pcurr st) reg \<and>
     (\<forall>a r. reg a = Some r \<longrightarrow> region_ok (heapbase st) a r) \<and>
     (\<forall>k a. k < BLOCKLOG \<longrightarrow> a \<in> set (L (FragHead k)) \<longleftrightarrow> reg a = Some (Frag k)) \<and>
     (\<forall>a. a \<in> set (L BlocksHead) \<longleftrightarrow> reg a = Some (Block (len st a))) \<and>
     (\<forall>a s. reg a = Some (Live s) \<longrightarrow> len st a = s) \<and>
     (\<forall>a s. reg a = Some (Block s) \<longrightarrow> len st a = s) \<and>
     (\<forall>h. is_head h \<longrightarrow> sorted (L h))"

lemma heap_okI:
  assumes "free_lists st L" "pool_ok st" "tiles (heapbase st) (pcurr st) reg"
    "\<And>a r. reg a = Some r \<Longrightarrow> region_ok (heapbase st) a r"
    "\<And>k a. k < BLOCKLOG \<Longrightarrow> a \<in> set (L (FragHead k)) \<longleftrightarrow> reg a = Some (Frag k)"
    "\<And>a. a \<in> set (L BlocksHead) \<longleftrightarrow> reg a = Some (Block (len st a))"
    "\<And>a s. reg a = Some (Live s) \<Longrightarrow> len st a = s" "\<And>a s. reg a = Some (Block s) \<Longrightarrow> len st a = s"
    "\<And>h. is_head h \<Longrightarrow> sorted (L h)"
  shows "heap_ok st reg L"
  using assms unfolding heap_ok_def by blast

lemma heap_okD:
  assumes "heap_ok st reg L"
  shows "free_lists st L" "pool_ok st" "tiles (heapbase st) (pcurr st) reg"
    "reg a = Some r \<Longrightarrow> region_ok (heapbase st) a r"
    "k < BLOCKLOG \<Longrightarrow> a \<in> set (L (FragHead k)) \<longleftrightarrow> reg a = Some (Frag k)"
    "a \<in> set (L BlocksHead) \<longleftrightarrow> reg a = Some (Block (len st a))"
    "reg a = Some (Live s) \<Longrightarrow> len st a = s" "reg a = Some (Block s) \<Longrightarrow> len st a = s"
    "is_head h \<Longrightarrow> sorted (L h)"
  using assms unfolding heap_ok_def by blast+

definition live_of :: "regions \<Rightarrow> nat \<Rightarrow> nat option" where
  "live_of reg a = (case reg a of Some (Live s) \<Rightarrow> Some s | _ \<Rightarrow> None)"

lemma live_of_simps [simp]:
  "live_of (reg(a \<mapsto> Live s)) = (live_of reg)(a \<mapsto> s)" "live_of (reg(a \<mapsto> Frag k)) = (live_of reg)(a := None)"
  "live_of (reg(a \<mapsto> Block s)) = (live_of reg)(a := None)" "live_of (reg(a := None)) = (live_of reg)(a := None)"
  by (auto simp: live_of_def)

lemma live_of_Some: "live_of reg a = Some s \<longleftrightarrow> reg a = Some (Live s)"
  by (auto simp: live_of_def split: option.split region.split)

lemma heap_not_in_lists: "heap_ok st reg L \<Longrightarrow> reg a = Some (Live s) \<or> reg a = None \<Longrightarrow> \<not> in_lists L a"
  by (auto simp: in_lists_def is_head_def heap_okD)

lemma heap_length:
  assumes "heap_ok st reg L" "is_head h" "pend st - pstart st \<le> fuel"
  shows "length (L h) \<le> fuel"
proof -
  have "set (L h) \<subseteq> {heapbase st..<pcurr st}"
  proof
    fix a assume "a \<in> set (L h)"
    then obtain r where r: "reg a = Some r"
      using assms(2) heap_okD(5,6) [OF assms(1)] by (auto simp: is_head_def)
    then show "a \<in> {heapbase st..<pcurr st}" using tilesD(1-3) [OF heap_okD(3) [OF assms(1)] r] by simp
  qed
  from card_mono [OF _ this] have "length (L h) \<le> pcurr st - heapbase st"
    using free_lists_chain(2) [OF heap_okD(1) [OF assms(1)] assms(2)] by (simp add: distinct_card)
  moreover have "pcurr st - heapbase st \<le> pend st - pstart st"
    using heap_okD(2) [OF assms(1)] by (simp add: pool_ok_def diff_le_mono)
  ultimately show ?thesis using assms(3) by linarith
qed

lemma pool_ok_links: "links_and_len st st' \<Longrightarrow> pool_ok st' = pool_ok st"
  by (simp add: pool_ok_def links_and_len_def)

lemma sorted_insert_iff:
  "sorted (xs @ a # ys) \<longleftrightarrow> sorted (xs @ ys) \<and> (\<forall>x \<in> set xs. x \<le> a) \<and> (\<forall>y \<in> set ys. a \<le> y)"
  by (auto simp: sorted_append)

text \<open>The list that holds the regions of a kind.\<close>

fun head_of :: "region \<Rightarrow> node" where
  "head_of (Frag k) = FragHead k"
| "head_of (Block s) = BlocksHead"
| "head_of (Live s) = BlocksHead"

text \<open>A region in use becomes a free cell, in its place in the list.\<close>

lemma heap_insert:
  assumes ok: "heap_ok st reg L" and a: "reg a = Some (Live (region_size r))" and r: "region_ok (heapbase st) a r" "\<forall>s. r \<noteq> Live s"
    and L: "L (head_of r) = xs @ ys" "\<And>x. x \<in> set xs \<Longrightarrow> x \<le> a" "\<And>y. y \<in> set ys \<Longrightarrow> a \<le> y"
    and st': "only_links st st'" "free_lists st' (L(head_of r := xs @ a # ys))"
  shows "heap_ok st' (reg(a \<mapsto> r)) (L(head_of r := xs @ a # ys))"
proof -
  have l: "len st' = len st" "heapbase st' = heapbase st" "pcurr st' = pcurr st" using st'(1) by (simp_all add: only_links_def)
  have len: "len st a = region_size r" using heap_okD(7) [OF ok a] .
  have "is_head (head_of r)" using r by (cases r) auto
  then have no: "a \<notin> set (xs @ ys)" using heap_not_in_lists [OF ok, of a] a L(1) unfolding in_lists_def by metis
  show ?thesis
  proof (rule heap_okI)
    show "pool_ok st'" using pool_ok_links [OF only_links_len [OF st'(1)]] heap_okD(2) [OF ok] by simp
    show "tiles (heapbase st') (pcurr st') (reg(a \<mapsto> r))"
      using tiles_relabel [OF heap_okD(3) [OF ok] a, of r] l by simp
    show "region_ok (heapbase st') b s" if "(reg(a \<mapsto> r)) b = Some s" for b s
      using that heap_okD(4) [OF ok] r(1) l by (auto split: if_splits)
    show "b \<in> set ((L(head_of r := xs @ a # ys)) (FragHead k)) \<longleftrightarrow> (reg(a \<mapsto> r)) b = Some (Frag k)" if "k < BLOCKLOG" for k b
      using heap_okD(5) [OF ok that, of b] a L(1) no r(2) by (cases r) auto
    show "b \<in> set ((L(head_of r := xs @ a # ys)) BlocksHead) \<longleftrightarrow> (reg(a \<mapsto> r)) b = Some (Block (len st' b))" for b
      using heap_okD(6) [OF ok, of b] a L(1) no r(2) l len by (cases r) auto
    show "len st' b = s" if "(reg(a \<mapsto> r)) b = Some (Live s)" for b s
      using that heap_okD(7) [OF ok, of b s] l r(2) by (auto split: if_splits)
    show "len st' b = s" if "(reg(a \<mapsto> r)) b = Some (Block s)" for b s
      using that heap_okD(8) [OF ok, of b s] l len by (auto split: if_splits)
    show "sorted ((L(head_of r := xs @ a # ys)) h)" if "is_head h" for h
      using heap_okD(9) [OF ok that] L by (auto simp: sorted_insert_iff)
  qed (rule st'(2))
qed

section \<open>Joining free blocks\<close>

lemma head_distinct_sorted:
  assumes "heap_ok st reg L" "is_head h" "L h = xs @ c # ys"
  shows "x \<in> set xs \<Longrightarrow> x < c" "y \<in> set ys \<Longrightarrow> c < y" "c \<notin> set xs" "c \<notin> set ys"
proof -
  have "distinct (xs @ c # ys)" "sorted (xs @ c # ys)"
    using free_lists_chain(2) [OF heap_okD(1) [OF assms(1)] assms(2)] heap_okD(9) [OF assms(1,2)] assms(3) by simp_all
  then show "x \<in> set xs \<Longrightarrow> x < c" "y \<in> set ys \<Longrightarrow> c < y" "c \<notin> set xs" "c \<notin> set ys"
    by (auto simp: sorted_append order_less_le)
qed

lemma block_in_list: "heap_ok st reg L \<Longrightarrow> reg a = Some (Block s) \<Longrightarrow> a \<in> set (L BlocksHead)"
  by (simp add: heap_okD(6) heap_okD(8))

lemma list_block: "heap_ok st reg L \<Longrightarrow> a \<in> set (L BlocksHead) \<Longrightarrow> reg a = Some (Block (len st a))"
  by (simp add: heap_okD(6))

lemma heap_join_successor:
  assumes ok: "heap_ok st reg L" and a: "reg a = Some (Live s)" "region_ok (heapbase st) a (Block s)"
    and L: "L BlocksHead = xs @ (a + s) # ys"
  defines "reg' \<equiv> reg(a \<mapsto> Block (s + len st (a + s)), a + s := None)"
  shows "\<exists>st'. join_successor a (a + s) st = Some st' \<and> links_and_len st st' \<and>
    heap_ok st' reg' (L(BlocksHead := xs @ a # ys)) \<and> live_of reg' = (live_of reg)(a := None)"
proof -
  let ?c = "a + s" and ?t = "len st (a + s)" and ?L = "L(BlocksHead := xs @ a # ys)"
  have c: "reg ?c = Some (Block ?t)" using list_block [OF ok, of ?c] L by simp
  have na: "\<not> in_lists L a" using heap_not_in_lists [OF ok] a(1) by blast
  have la: "len st a = s" using heap_okD(7) [OF ok a(1)] .
  have spos: "0 < s" using a(2) by simp
  note o = head_distinct_sorted [OF ok _ L]
  obtain st' where st': "join_successor a ?c st = Some st'" "links_and_len st st'" "free_lists st' ?L"
    "len st' = (len st)(a := s + ?t, ?c := 0)"
    using join_successor_lists [OF heap_okD(1) [OF ok] _ L na] la by auto
  have l: "heapbase st' = heapbase st" "pcurr st' = pcurr st" using st'(2) by (simp_all add: links_and_len_def)
  have rc: "region_ok (heapbase st) ?c (Block ?t)" using heap_okD(4) [OF ok c] .
  have xa: "x < a" if "x \<in> set xs" for x
  proof -
    have "x < ?c" using o(1) that by simp
    moreover have "reg x = Some (Block (len st x))" using list_block [OF ok, of x] that L by simp
    ultimately show ?thesis
      using tiles_inside [OF heap_okD(3) [OF ok] a(1), of x] a(1) by (cases "x = a"; cases "x < a") auto
  qed
  have "heap_ok st' reg' ?L"
  proof (rule heap_okI)
    show "pool_ok st'" using pool_ok_links [OF st'(2)] heap_okD(2) [OF ok] by simp
    show "tiles (heapbase st') (pcurr st') reg'"
      using tiles_join [OF heap_okD(3) [OF ok] a(1), of "Block ?t" "Block (s + ?t)"] c l by (simp add: reg'_def)
    show "region_ok (heapbase st') b r" if "reg' b = Some r" for b r
      using that heap_okD(4) [OF ok, of b r] a(2) rc l spos by (auto simp: reg'_def split: if_splits)
    show "b \<in> set (?L (FragHead k)) \<longleftrightarrow> reg' b = Some (Frag k)" if "k < BLOCKLOG" for k b
      using heap_okD(5) [OF ok that, of b] a(1) c spos by (auto simp: reg'_def)
    show "b \<in> set (?L BlocksHead) \<longleftrightarrow> reg' b = Some (Block (len st' b))" for b
      using heap_okD(6) [OF ok, of b] L o(3,4) a(1) st'(4) spos by (auto simp: reg'_def)
    show "len st' b = t" if "reg' b = Some (Live t)" for b t
      using that heap_okD(7) [OF ok, of b t] st'(4) by (auto simp: reg'_def split: if_splits)
    show "len st' b = t" if "reg' b = Some (Block t)" for b t
      using that heap_okD(8) [OF ok, of b t] st'(4) spos by (auto simp: reg'_def split: if_splits)
    show "sorted (?L h)" if "is_head h" for h
    proof (cases "h = BlocksHead")
      case True
      have "sorted (xs @ ?c # ys)" using heap_okD(9) [OF ok, of BlocksHead] L by simp
      then show ?thesis using True xa o(2) by (auto simp: sorted_append order_less_le)
    qed (use heap_okD(9) [OF ok that] in simp)
  qed (rule st'(3))
  moreover have "live_of reg' = (live_of reg)(a := None)"
    using c by (auto simp: reg'_def fun_eq_iff live_of_def)
  ultimately show ?thesis using st'(1,2) by blast
qed

lemma heap_close_gap:
  assumes ok: "heap_ok st reg L" and L: "L BlocksHead = xs @ a # ys"
  shows "\<exists>st' reg' L'. close_gap a st = Some st' \<and> links_and_len st st' \<and> heap_ok st' reg' L' \<and> live_of reg' = live_of reg"
proof -
  have f: "free_lists st L" using heap_okD(1) [OF ok] .
  obtain st' where st': "close_gap a st = Some st'" "links_and_len st st'" "if xs \<noteq> [] \<and> a = last xs + len st (last xs)
     then free_lists st' (L(BlocksHead := xs @ ys)) \<and> len st' = (len st)(last xs := len st (last xs) + len st a, a := 0)
     else st' = st"
    using close_gap_lists [OF f L] by blast
  show ?thesis
  proof (cases "xs \<noteq> [] \<and> a = last xs + len st (last xs)")
    case False
    then show ?thesis using st' ok by auto
  next
    case True
    let ?p = "last xs" and ?L = "L(BlocksHead := xs @ ys)"
    let ?reg = "reg(?p \<mapsto> Block (len st ?p + len st a), a := None)"
    have st2: "free_lists st' ?L" "len st' = (len st)(?p := len st ?p + len st a, a := 0)" using st'(3) True by simp_all
    have a: "reg a = Some (Block (len st a))" using list_block [OF ok] L by simp
    have p: "reg ?p = Some (Block (len st ?p))" using list_block [OF ok, of ?p] L True by simp
    have pa: "?p \<noteq> a" using head_distinct_sorted(1) [OF ok _ L, of ?p] True by auto
    have apos: "a = ?p + len st ?p" using True by simp
    have l: "heapbase st' = heapbase st" "pcurr st' = pcurr st" using st'(2) by (simp_all add: links_and_len_def)
    have ra: "region_ok (heapbase st) a (Block (len st a))" "region_ok (heapbase st) ?p (Block (len st ?p))"
      using heap_okD(4) [OF ok a] heap_okD(4) [OF ok p] .
    note o = head_distinct_sorted(3,4) [OF ok _ L]
    have "heap_ok st' ?reg ?L"
    proof (rule heap_okI)
      show "pool_ok st'" using pool_ok_links [OF st'(2)] heap_okD(2) [OF ok] by simp
      show "tiles (heapbase st') (pcurr st') ?reg"
        using tiles_join [OF heap_okD(3) [OF ok] p, of "Block (len st a)" "Block (len st ?p + len st a)"] a l apos by simp
      show "region_ok (heapbase st') b r" if "?reg b = Some r" for b r
        using that heap_okD(4) [OF ok, of b r] ra l by (auto split: if_splits)
      show "b \<in> set (?L (FragHead k)) \<longleftrightarrow> ?reg b = Some (Frag k)" if "k < BLOCKLOG" for k b
        using heap_okD(5) [OF ok that, of b] a p by auto
      show "b \<in> set (?L BlocksHead) \<longleftrightarrow> ?reg b = Some (Block (len st' b))" for b
        using heap_okD(6) [OF ok, of b] L o st2(2) pa p by auto
      show "len st' b = t" if "?reg b = Some (Live t)" for b t
        using that heap_okD(7) [OF ok, of b t] st2(2) by (auto split: if_splits)
      show "len st' b = t" if "?reg b = Some (Block t)" for b t
        using that heap_okD(8) [OF ok, of b t] st2(2) pa by (auto split: if_splits)
      show "sorted (?L h)" if "is_head h" for h
        using heap_okD(9) [OF ok that] L by (auto simp: sorted_insert_iff)
    qed (rule st2(1))
    moreover have "live_of ?reg = live_of reg"
      using a p by (auto simp: fun_eq_iff live_of_def)
    ultimately show ?thesis using st'(1,2) by blast
  qed
qed

lemma heap_join_predecessor:
  assumes ok: "heap_ok st reg L" and a: "reg a = Some (Live s)" "region_ok (heapbase st) a (Block s)"
    and c: "reg c = Some (Block t)" "c + t = a" and n: "\<forall>b \<in> set (L BlocksHead). a + s \<noteq> b"
  defines "reg' \<equiv> reg(c \<mapsto> Block (t + s), a := None)"
  shows "\<exists>st'. join_predecessor a c st = Some st' \<and> links_and_len st st' \<and>
    heap_ok st' reg' L \<and> live_of reg' = (live_of reg)(a := None)"
proof -
  have na: "\<not> in_lists L a" using heap_not_in_lists [OF ok] a(1) by blast
  have la: "len st a = s" "len st c = t" using heap_okD(7) [OF ok a(1)] heap_okD(8) [OF ok c(1)] .
  obtain xs ys where L: "L BlocksHead = xs @ c # ys" using block_in_list [OF ok c(1)] by (auto simp: in_set_conv_decomp)
  have rc: "region_ok (heapbase st) c (Block t)" using heap_okD(4) [OF ok c(1)] .
  have ca: "c \<noteq> a" using a(1) c(1) by auto
  have "hd_or ys None \<noteq> Some (c + (len st c + len st a))"
    using n L la c(2) by (cases ys) auto
  then obtain st' where st': "join_predecessor a c st = Some st'" "links_and_len st st'" "free_lists st' L"
    "len st' = (len st)(c := t + s, a := 0)"
    using join_predecessor_lists [OF heap_okD(1) [OF ok] L na] la by auto
  have l: "heapbase st' = heapbase st" "pcurr st' = pcurr st" using st'(2) by (simp_all add: links_and_len_def)
  have "heap_ok st' reg' L"
  proof (rule heap_okI)
    show "pool_ok st'" using pool_ok_links [OF st'(2)] heap_okD(2) [OF ok] by simp
    show "tiles (heapbase st') (pcurr st') reg'"
      using tiles_join [OF heap_okD(3) [OF ok] c(1), of "Live s" "Block (t + s)"] a(1) c(2) l by (simp add: reg'_def)
    show "region_ok (heapbase st') b r" if "reg' b = Some r" for b r
      using that heap_okD(4) [OF ok, of b r] a(2) rc l by (auto simp: reg'_def split: if_splits)
    show "b \<in> set (L (FragHead k)) \<longleftrightarrow> reg' b = Some (Frag k)" if "k < BLOCKLOG" for k b
      using heap_okD(5) [OF ok that, of b] a(1) c(1) by (auto simp: reg'_def)
    show "b \<in> set (L BlocksHead) \<longleftrightarrow> reg' b = Some (Block (len st' b))" for b
      using heap_okD(6) [OF ok, of b] a(1) c(1) ca st'(4) la by (auto simp: reg'_def)
    show "len st' b = t" if "reg' b = Some (Live t)" for b t
      using that heap_okD(7) [OF ok, of b t] st'(4) by (auto simp: reg'_def split: if_splits)
    show "len st' b = t" if "reg' b = Some (Block t)" for b t
      using that heap_okD(8) [OF ok, of b t] st'(4) ca by (auto simp: reg'_def split: if_splits)
    show "sorted (L h)" if "is_head h" for h using heap_okD(9) [OF ok that] .
  qed (rule st'(3))
  moreover have "live_of reg' = (live_of reg)(a := None)"
    using c(1) ca by (auto simp: reg'_def fun_eq_iff live_of_def)
  ultimately show ?thesis using st'(1,2) by blast
qed

lemma find_split: "find P xs = Some c \<Longrightarrow> \<exists>ys zs. xs = ys @ c # zs \<and> P c \<and> (\<forall>y \<in> set ys. \<not> P y)"
proof (induction xs)
  case (Cons x xs)
  show ?case
  proof (cases "P x")
    case True
    then have "x # xs = [] @ c # xs \<and> P c" using Cons.prems by simp
    then show ?thesis by force
  next
    case False
    with Cons obtain ys zs where "xs = ys @ c # zs \<and> P c \<and> (\<forall>y \<in> set ys. \<not> P y)" by auto
    then have "x # xs = (x # ys) @ c # zs \<and> P c \<and> (\<forall>y \<in> set (x # ys). \<not> P y)" using False by simp
    then show ?thesis by blast
  qed
qed simp

text \<open>Cells before and behind a piece in use.\<close>

lemma cells_around:
  assumes "heap_ok st reg L" "reg a = Some (Live s)" "reg b = Some r" "b \<noteq> a"
  shows "b < a + s \<Longrightarrow> b < a" "a < b \<Longrightarrow> a + s \<le> b"
  using tilesD(4) [OF heap_okD(3) [OF assms(1)] assms(2,3)] assms(4) by fastforce+

lemma heap_insert_search:
  assumes ok: "heap_ok st reg L" and a: "reg a = Some (Live (region_size r))" and r: "region_ok (heapbase st) a r" "\<forall>s. r \<noteq> Live s"
    and none: "\<forall>x \<in> set (L (head_of r)). x \<noteq> a + region_size r" and fuel: "pend st - pstart st \<le> fuel"
  shows "\<exists>st' L'. (case search fuel (\<lambda>c. a + region_size r < c) st (nxt st (head_of r)) of
        None \<Rightarrow> None
      | Some (Some c) \<Rightarrow> insert_before a c st
      | Some None \<Rightarrow> map_option (\<lambda>c. insert_last a c st) (last_cell fuel st (head_of r))) = Some st' \<and>
    only_links st st' \<and> heap_ok st' (reg(a \<mapsto> r)) L'"
proof -
  have h: "is_head (head_of r)" using r by (cases r) auto
  have f: "free_lists st L" using heap_okD(1) [OF ok] .
  have na: "\<not> in_lists L a" using heap_not_in_lists [OF ok] a by blast
  have len: "length (L (head_of r)) \<le> fuel" by (rule heap_length [OF ok h fuel])
  have s: "search fuel (\<lambda>c. a + region_size r < c) st (nxt st (head_of r)) = Some (find (\<lambda>c. a + region_size r < c) (L (head_of r)))"
    by (rule search_list [OF f h len])
  have reg: "\<exists>t. reg x = Some t" "x \<noteq> a" if "x \<in> set (L (head_of r))" for x
  proof -
    show "\<exists>t. reg x = Some t" using that r heap_okD(5) [OF ok, of _ x] heap_okD(6) [OF ok, of x] by (cases r) auto
    show "x \<noteq> a" using that na h by (auto simp: in_lists_def)
  qed
  have below: "x \<le> a" if x: "x \<in> set (L (head_of r))" "\<not> a + region_size r < x" for x
  proof -
    obtain t where t: "reg x = Some t" using reg(1) [OF x(1)] by blast
    have "x < a + region_size r" using none x by (metis linorder_neqE_nat)
    then show ?thesis using cells_around(1) [OF ok a t reg(2) [OF x(1)]] by simp
  qed
  show ?thesis
  proof (cases "find (\<lambda>c. a + region_size r < c) (L (head_of r))")
    case None
    then have all: "x \<le> a" if "x \<in> set (L (head_of r))" for x using below that by (auto simp: find_None_iff)
    let ?st = "insert_last a (last (head_of r # map Cell (L (head_of r)))) st"
    have "only_links st ?st" "free_lists ?st (L(head_of r := L (head_of r) @ a # []))"
      using insert_last_lists [OF f h na refl] by auto
    from heap_insert [OF ok a r _ _ _ this] show ?thesis
      using all last_cell_list [OF f h len] s None \<open>only_links st ?st\<close> by auto
  next
    case (Some c)
    then obtain xs ys where L: "L (head_of r) = xs @ c # ys" "a + region_size r < c" "\<forall>x \<in> set xs. \<not> a + region_size r < x"
      using find_split [OF Some] by blast
    obtain st' where st': "insert_before a c st = Some st'" "only_links st st'" "free_lists st' (L(head_of r := xs @ a # c # ys))"
      using insert_before_lists [OF f h L(1) na] by blast
    have "a \<le> y" if "y \<in> set (c # ys)" for y
      using head_distinct_sorted(2) [OF ok h L(1), of y] L(2) that by auto
    moreover have "x \<le> a" if "x \<in> set xs" for x using below [of x] L(1,3) that by simp
    ultimately have "heap_ok st' (reg(a \<mapsto> r)) (L(head_of r := xs @ a # c # ys))"
      using heap_insert [OF ok a r L(1) _ _ st'(2,3)] by blast
    then show ?thesis using st'(1,2) s Some by auto
  qed
qed

lemma heap_insert_only:
  assumes ok: "heap_ok st reg L" and a: "reg a = Some (Live (region_size r))" and r: "region_ok (heapbase st) a r" "\<forall>s. r \<noteq> Live s"
    and e: "nxt st (head_of r) = None"
  shows "\<exists>L'. only_links st (insert_last a (head_of r) st) \<and> heap_ok (insert_last a (head_of r) st) (reg(a \<mapsto> r)) L'"
proof -
  have h: "is_head (head_of r)" using r by (cases r) auto
  have f: "free_lists st L" using heap_okD(1) [OF ok] .
  have na: "\<not> in_lists L a" using heap_not_in_lists [OF ok] a by blast
  have L: "L (head_of r) = []" using free_lists_first [OF f h] e by (cases "L (head_of r)") simp_all
  let ?st = "insert_last a (head_of r) st"
  have i: "only_links st ?st" "free_lists ?st (L(head_of r := [] @ a # []))"
    using insert_last_lists [OF f h na, of "head_of r"] L by auto
  have "heap_ok ?st (reg(a \<mapsto> r)) (L(head_of r := [] @ a # []))"
    by (rule heap_insert [OF ok a r _ _ _ i]) (use L in auto)
  then show ?thesis using i(1) by blast
qed

lemma heap_reorde_block:
  assumes ok: "heap_ok (set_len a s st) reg L" and a: "reg a = Some (Live s)" "region_ok (heapbase st) a (Block s)"
    and fuel: "pend st - pstart st \<le> fuel"
  shows "\<exists>st' reg' L'. ml_reorde_block fuel a s st = Some st' \<and> links_and_len st st' \<and> heap_ok st' reg' L' \<and>
    live_of reg' = (live_of reg)(a := None)"
proof -
  let ?st = "set_len a s st" and ?B = "L BlocksHead"
  have f: "free_lists ?st L" using heap_okD(1) [OF ok] .
  have h: "is_head BlocksHead" by simp
  have len: "length ?B \<le> fuel" using heap_length [OF ok h] fuel by simp
  have al: "(a - heapbase st) mod BLOCKSIZE = 0" using a(2) by simp
  have a1: "reg a = Some (Live (region_size (Block s)))" "region_ok (heapbase ?st) a (Block s)" "\<forall>t. Block s \<noteq> Live t"
    using a by simp_all
  have l: "links_and_len st st'" if "links_and_len ?st st'" for st' using that by (simp add: links_and_len_def)
  have fuel': "pend ?st - pstart ?st \<le> fuel" using fuel by simp
  note s = search_list [OF f h len]
  show ?thesis
  proof (cases "nxt ?st BlocksHead = None")
    case True
    then obtain L' where "only_links ?st (insert_last a BlocksHead ?st)" "heap_ok (insert_last a BlocksHead ?st) (reg(a \<mapsto> Block s)) L'"
      using heap_insert_only [OF ok a1] by auto
    then show ?thesis using True al l only_links_len by (auto simp: ml_reorde_block_def Let_def)
  next
    case False
    then obtain y where ne: "nxt st BlocksHead = Some y" by auto
    show ?thesis
    proof (cases "find (\<lambda>c. a + s = c) ?B")
      case (Some c)
      then obtain xs ys where L: "?B = xs @ (a + s) # ys" "c = a + s" using find_split [OF Some] by blast
      obtain st1 where st1: "join_successor a c ?st = Some st1" "links_and_len ?st st1"
        "heap_ok st1 (reg(a \<mapsto> Block (s + len ?st (a + s)), a + s := None)) (L(BlocksHead := xs @ a # ys))"
        "live_of (reg(a \<mapsto> Block (s + len ?st (a + s)), a + s := None)) = (live_of reg)(a := None)"
        using heap_join_successor [OF ok a(1) _ L(1)] a(2) L(2) by auto
      obtain st' reg' L' where st': "close_gap a st1 = Some st'" "links_and_len st1 st'" "heap_ok st' reg' L'"
        "live_of reg' = (live_of reg)(a := None)"
        using heap_close_gap [OF st1(3), of xs a ys] st1(4) by auto
      have "ml_reorde_block fuel a s st = Some st'"
        using ne al s [of "\<lambda>c. a + s = c"] Some st1(1) st'(1) by (simp add: ml_reorde_block_def Let_def)
      then show ?thesis using st'(2-4) links_and_len_trans [OF st1(2) st'(2)] l by blast
    next
      case none: None
      then have n: "\<forall>b \<in> set ?B. a + s \<noteq> b" by (auto simp: find_None_iff)
      show ?thesis
      proof (cases "find (\<lambda>c. c + len ?st c = a) ?B")
        case (Some c)
        then have c: "c \<in> set ?B" "c + len ?st c = a" using find_split [OF Some] by auto
        obtain st' where "join_predecessor a c ?st = Some st'" "links_and_len ?st st'"
          "heap_ok st' (reg(c \<mapsto> Block (len ?st c + s), a := None)) L"
          "live_of (reg(c \<mapsto> Block (len ?st c + s), a := None)) = (live_of reg)(a := None)"
          using heap_join_predecessor [OF ok a(1) _ list_block [OF ok c(1)] c(2) n] a(2) by auto
        moreover from this have "ml_reorde_block fuel a s st = Some st'"
          using ne al s [of "\<lambda>c. a + s = c"] s [of "\<lambda>c. c + len ?st c = a"] none Some by (simp add: ml_reorde_block_def Let_def)
        ultimately show ?thesis using l by blast
      next
        case None
        have n': "\<forall>x \<in> set (L (head_of (Block s))). x \<noteq> a + region_size (Block s)" using n by auto
        obtain st' L' where st': "(case search fuel (\<lambda>c. a + s < c) ?st (nxt ?st BlocksHead) of
            None \<Rightarrow> None
          | Some (Some c) \<Rightarrow> insert_before a c ?st
          | Some None \<Rightarrow> map_option (\<lambda>c. insert_last a c ?st) (last_cell fuel ?st BlocksHead)) = Some st'"
          "only_links ?st st'" "heap_ok st' (reg(a \<mapsto> Block s)) L'"
          using heap_insert_search [OF ok a1 n' fuel'] unfolding head_of.simps region_size.simps by blast
        have "ml_reorde_block fuel a s st = Some st'"
          using ne al s [of "\<lambda>c. a + s = c"] s [of "\<lambda>c. c + len ?st c = a"] none None st'(1)
          by (simp add: ml_reorde_block_def Let_def)
        then show ?thesis using st'(2,3) only_links_len l by fastforce
      qed
    qed
  qed
qed

end
