(* ===== verification/OvMallocFree.thy ===== *)
theory OvMallocFree
  imports OvMallocSafe
begin

text \<open>
  Freeing keeps the invariant of the heap: the fragments of a complete block are joined to a free
  block, a fragment finds its place in the list of its size, and \<open>ml_free\<close> takes exactly the freed
  piece out of the memory in use.
\<close>

section \<open>The sizes of fragments\<close>

lemma blocksize_pow: "k \<le> 12 \<Longrightarrow> BLOCKSIZE = 2 ^ (12 - k) * 2 ^ k"
  by (simp flip: power_add)

lemma frag_size_pow: "k \<le> 12 \<Longrightarrow> frag_size k = 2 ^ k" "k \<le> 12 \<Longrightarrow> BLOCKSIZE div 2 ^ k = 2 ^ (12 - k)"
proof -
  assume k: "k \<le> 12"
  show d: "BLOCKSIZE div 2 ^ k = 2 ^ (12 - k)" by (subst blocksize_pow [OF k]) simp
  show "frag_size k = 2 ^ k" unfolding frag_size_def d by (subst blocksize_pow [OF k]) simp
qed

lemma getfrag_loop_step: "getfrag_loop sz lg = (if 2 \<le> sz then getfrag_loop (sz div 2) (lg + 1) else lg)"
  by (subst getfrag_loop.simps) (simp add: div_eq_0_iff not_le)

lemma getfrag_loop_bounds: "0 < n \<Longrightarrow> \<exists>j. getfrag_loop n lg = lg + j \<and> 2 ^ j \<le> n \<and> n < 2 ^ Suc j"
proof (induction n arbitrary: lg rule: less_induct)
  case (less n)
  show ?case
  proof (cases "2 \<le> n")
    case True
    then obtain j where j: "getfrag_loop (n div 2) (lg + 1) = lg + 1 + j" "2 ^ j \<le> n div 2" "n div 2 < 2 ^ Suc j"
      using less.IH [of "n div 2" "lg + 1"] by auto
    have "getfrag_loop n lg = lg + Suc j" using True j(1) by (subst getfrag_loop_step) simp
    moreover have "2 ^ Suc j \<le> n" "n < 2 ^ Suc (Suc j)" using j(2,3) by simp_all
    ultimately show ?thesis by blast
  next
    case False
    then have "n = 1" using less.prems by simp
    then show ?thesis by (subst getfrag_loop_step) (auto intro: exI [of _ 0])
  qed
qed

lemma getfrag_log_bounds:
  assumes "2 \<le> sz" "sz \<le> 2048"
  shows "ml_getfrag_log sz \<le> 11" "sz \<le> 2 ^ ml_getfrag_log sz" "2 ^ ml_getfrag_log sz < 2 * sz"
proof -
  obtain j where j: "ml_getfrag_log sz = Suc j" "2 ^ j \<le> sz - 1" "sz - 1 < 2 ^ Suc j"
    using getfrag_loop_bounds [of "sz - 1" 1] assms(1) by (auto simp: ml_getfrag_log_def)
  have "(2 :: nat) ^ j < 2 ^ 11" using j(2) assms by simp
  then have "j < 11" by (simp only: power_strict_increasing_iff)
  then show "ml_getfrag_log sz \<le> 11" using j(1) by simp
  show "sz \<le> 2 ^ ml_getfrag_log sz" "2 ^ ml_getfrag_log sz < 2 * sz" using j assms by simp_all
qed

lemma getfrag_log_pow:
  assumes "5 \<le> k" "k \<le> 11"
  shows "ml_getfrag_log (2 ^ k) = k"
proof -
  have "(2 :: nat) ^ 1 \<le> 2 ^ k" "(2 :: nat) ^ k \<le> 2 ^ 11"
    using assms by (simp_all only: power_increasing_iff)
  then have b: "2 \<le> (2 :: nat) ^ k" "(2 :: nat) ^ k \<le> 2048" by simp_all
  have "(2 :: nat) ^ k \<le> 2 ^ ml_getfrag_log (2 ^ k)" "(2 :: nat) ^ ml_getfrag_log (2 ^ k) < 2 ^ Suc k"
    using getfrag_log_bounds(2,3) [OF b] by simp_all
  then have "k \<le> ml_getfrag_log (2 ^ k)" "ml_getfrag_log (2 ^ k) < Suc k"
    by (simp_all only: power_increasing_iff power_strict_increasing_iff one_less_numeral_iff semiring_norm)
  then show ?thesis by simp
qed

text \<open>A size of zero, which the joins leave in the cells that vanish, has no list.\<close>

lemma getfrag_log_of_zero: "ml_getfrag_log 0 = 64" "\<not> is_head (FragHead (ml_getfrag_log 0))"
proof -
  obtain j where j: "getfrag_loop (SIZE_MOD - 1) 1 = 1 + j" "2 ^ j \<le> SIZE_MOD - 1" "SIZE_MOD - 1 < 2 ^ Suc j"
    using getfrag_loop_bounds [of "SIZE_MOD - 1" 1] by auto
  have "(2 :: nat) ^ j < 2 ^ 64" "(2 :: nat) ^ 63 < 2 ^ Suc j" using j(2,3) by simp_all
  then have "j < 64" "63 < Suc j" by (simp_all only: power_strict_increasing_iff one_less_numeral_iff semiring_norm)
  then have "j = 63" by simp
  then show "ml_getfrag_log 0 = 64" using j(1) by (simp add: ml_getfrag_log_def)
  then show "\<not> is_head (FragHead (ml_getfrag_log 0))" by simp
qed

section \<open>Joining the fragments of a block\<close>

definition merged :: "nat \<Rightarrow> nat \<Rightarrow> regions \<Rightarrow> regions" where
  "merged a s reg = (\<lambda>x. if x = a then Some (Live s) else if a < x \<and> x < a + s then None else reg x)"

lemma tiles_merged:
  assumes "tiles base lim reg" "0 < sz" "\<And>i. i < Suc n \<Longrightarrow> \<exists>r. reg (a + i * sz) = Some r \<and> region_size r = sz"
  shows "tiles base lim (merged a (Suc n * sz) reg)"
  using assms(3)
proof (induction n)
  case 0
  then obtain r where r: "reg a = Some r" "region_size r = sz" by fastforce
  have "merged a sz reg = reg(a \<mapsto> Live sz)"
    using tiles_inside [OF assms(1) r(1)] r(2) by (auto simp: merged_def fun_eq_iff)
  moreover have "tiles base lim (reg(a \<mapsto> Live sz))" by (rule tiles_relabel [OF assms(1) r(1)]) (simp add: r(2))
  ultimately show ?case by (simp del: fun_upd_apply)
next
  case (Suc n)
  let ?s = "Suc n * sz"
  obtain r where r: "reg (a + ?s) = Some r" "region_size r = sz" using Suc.prems [of "Suc n"] by auto
  have spos: "0 < ?s" using assms(2) by simp
  have "tiles base lim (merged a ?s reg)" using Suc.IH Suc.prems by simp
  moreover have "merged a ?s reg a = Some (Live ?s)" "merged a ?s reg (a + ?s) = Some r"
    using r(1) spos by (auto simp: merged_def)
  ultimately have "tiles base lim ((merged a ?s reg)(a \<mapsto> Live (?s + sz), a + ?s := None))"
    using tiles_join [of base lim "merged a ?s reg" a "Live ?s" r "Live (?s + sz)"] r(2) by simp
  moreover have "(merged a ?s reg)(a \<mapsto> Live (?s + sz), a + ?s := None) = merged a (?s + sz) reg"
    using tiles_inside [OF assms(1) r(1)] r(2) spos by (auto simp: merged_def fun_eq_iff)
  ultimately show ?case by (simp add: algebra_simps)
qed

lemma merged_inside:
  assumes "tiles base lim reg" "\<And>i. i < n \<Longrightarrow> \<exists>r. reg (a + i * sz) = Some r \<and> region_size r = sz"
    "a \<le> x" "x < a + n * sz" "reg x = Some r"
  shows "\<exists>i < n. x = a + i * sz"
proof -
  let ?i = "(x - a) div sz"
  have sz: "0 < sz" using assms(3,4) by (cases sz) auto
  have i: "?i < n" using assms(3,4) sz by (simp add: div_less_iff_less_mult)
  have x: "x = a + ?i * sz + (x - a) mod sz" using assms(3) by (simp add: div_mult_mod_eq)
  obtain t where t: "reg (a + ?i * sz) = Some t" "region_size t = sz" using assms(2) [OF i] by blast
  have "(x - a) mod sz = 0"
  proof (rule ccontr)
    assume "(x - a) mod sz \<noteq> 0"
    then have "a + ?i * sz < x" "x < a + ?i * sz + region_size t" using x t(2) sz mod_less_divisor [OF sz, of "x - a"] by linarith+
    then show False using tiles_inside [OF assms(1) t(1)] assms(5) by simp
  qed
  then show ?thesis using i x by auto
qed

text \<open>The complete block is taken out of the fragments and is in use until it goes to the blocks.\<close>

lemma heap_merged:
  assumes ok: "heap_ok st reg L" and k: "k < BLOCKLOG" and a: "BLOCKSIZE dvd a - heapbase st"
    and L: "L (FragHead k) = xs @ seg @ ys" "seg = map (\<lambda>i. a + i * 2 ^ k) [0..<Suc n]" and n: "Suc n * 2 ^ k = BLOCKSIZE"
    and st1: "only_links st st1" "free_lists st1 (L(FragHead k := xs @ ys))"
  shows "heap_ok (set_len a BLOCKSIZE st1) (merged a BLOCKSIZE reg) (L(FragHead k := xs @ ys))"
    "live_of (merged a BLOCKSIZE reg) = (live_of reg)(a \<mapsto> BLOCKSIZE)"
proof -
  let ?reg = "merged a BLOCKSIZE reg" and ?L = "L(FragHead k := xs @ ys)"
  have l: "len st1 = len st" "heapbase st1 = heapbase st" "pcurr st1 = pcurr st" using st1(1) by (simp_all add: only_links_def)
  note t = heap_okD(3) [OF ok]
  have seg: "reg (a + i * 2 ^ k) = Some (Frag k)" if "i < Suc n" for i
    using heap_okD(5) [OF ok k, of "a + i * 2 ^ k"] L that by (auto simp del: upt_Suc)
  have inside: "x \<in> set seg" if "a \<le> x" "x < a + BLOCKSIZE" "reg x = Some r" for x r
    using merged_inside [OF t, of "Suc n" a "2 ^ k" x r] seg that n L(2) by (auto simp del: upt_Suc mult_Suc)
  have insideF: "reg x = Some (Frag k)" if "a \<le> x" "x < a + BLOCKSIZE" "reg x = Some r" for x r
    using inside [OF that] seg L(2) by (auto simp del: upt_Suc)
  have segin: "a \<le> x \<and> x < a + BLOCKSIZE" if "x \<in> set seg" for x
  proof -
    from that L(2) obtain i where i: "i < Suc n" "x = a + i * 2 ^ k" by (auto simp del: upt_Suc)
    then have "i * 2 ^ k < Suc n * 2 ^ k" by (intro mult_strict_right_mono) simp_all
    then show ?thesis using i(2) n by simp
  qed
  have d: "x \<notin> set seg" if "x \<in> set (xs @ ys)" for x
    using free_lists_chain(2) [OF heap_okD(1) [OF ok], of "FragHead k"] k L(1) that by auto
  have M: "?reg x = (if x = a then Some (Live BLOCKSIZE) else if x \<in> set seg then None else reg x)" for x
  proof (cases "x = a \<or> x \<in> set seg")
    case True
    then show ?thesis using segin [of x] by (auto simp: merged_def)
  next
    case False
    then have "reg x = None" if "a < x" "x < a + BLOCKSIZE"
      using inside [of x] that by (cases "reg x") auto
    then show ?thesis using False by (auto simp: merged_def)
  qed
  have aseg: "a \<in> set seg" using L(2) by (auto simp del: upt_Suc intro!: image_eqI [of _ _ 0])
  have Lk: "x \<in> set (L (FragHead k)) \<longleftrightarrow> x \<in> set seg \<or> x \<in> set (xs @ ys)" for x using L(1) by auto
  have segF: "reg x = Some (Frag k)" if "x \<in> set seg" for x using that L(2) seg by (auto simp del: upt_Suc)
  show "heap_ok (set_len a BLOCKSIZE st1) ?reg ?L"
  proof (rule heap_okI)
    show "pool_ok (set_len a BLOCKSIZE st1)" using pool_ok_links [OF only_links_len [OF st1(1)]] heap_okD(2) [OF ok] by (simp add: pool_ok_def)
    show "tiles (heapbase (set_len a BLOCKSIZE st1)) (pcurr (set_len a BLOCKSIZE st1)) ?reg"
      using tiles_merged [OF t, of "2 ^ k" n a] seg n l by (simp del: mult_Suc)
    show "region_ok (heapbase (set_len a BLOCKSIZE st1)) b r" if "?reg b = Some r" for b r
      using that heap_okD(4) [OF ok, of b r] a l by (auto simp: M split: if_splits)
    show "b \<in> set (?L (FragHead j)) \<longleftrightarrow> ?reg b = Some (Frag j)" if "j < BLOCKLOG" for j b
      using heap_okD(5) [OF ok that, of b] d [of b] segF [of b] aseg Lk [of b] by (auto simp: M)
    show "b \<in> set (?L BlocksHead) \<longleftrightarrow> ?reg b = Some (Block (len (set_len a BLOCKSIZE st1) b))" for b
      using heap_okD(6) [OF ok, of b] segF [of b] aseg l by (auto simp: M)
    show "len (set_len a BLOCKSIZE st1) b = t" if "?reg b = Some (Live t)" for b t
      using that heap_okD(7) [OF ok, of b t] l by (auto simp: M split: if_splits)
    show "len (set_len a BLOCKSIZE st1) b = t" if "?reg b = Some (Block t)" for b t
      using that heap_okD(8) [OF ok, of b t] l by (auto simp: M split: if_splits)
    show "sorted (?L h)" if "is_head h" for h
      using heap_okD(9) [OF ok that] L(1) by (auto simp: sorted_append)
  qed (use st1(2) in simp)
  show "live_of ?reg = (live_of reg)(a \<mapsto> BLOCKSIZE)"
    using segF aseg by (auto simp: M fun_eq_iff live_of_def)
qed

lemma heap_reorde_loop:
  assumes ok: "heap_ok st reg L" and k: "k < BLOCKLOG" and L: "L (FragHead k) = ps @ zs" and fuel: "length zs \<le> fuel"
    and blocks: "pend st - pstart st \<le> blocks"
  shows "\<exists>st' reg' L'. reorde_loop fuel blocks k st (hd_or (map Cell zs) None) = Some st' \<and> links_and_len st st' \<and>
    heap_ok st' reg' L' \<and> live_of reg' = live_of reg"
  using L fuel
proof (induction zs arbitrary: ps fuel)
  case Nil
  then show ?case using ok by auto
next
  case (Cons a zs)
  then obtain fuel' where fuel': "fuel = Suc fuel'" "length zs \<le> fuel'" by (cases fuel) auto
  let ?c = "if (a - heapbase st) mod BLOCKSIZE = 0 then complete_block (frag_size k) st a (BLOCKSIZE div frag_size k) else None"
  have f: "free_lists st L" and h: "is_head (FragHead k)" using heap_okD(1) [OF ok] k by simp_all
  have nx: "nxt st (Cell a) = hd_or (map Cell zs) None" using free_lists_split(2) [OF f h Cons.prems(1)] .
  show ?case
  proof (cases ?c)
    case None
    then show ?thesis using Cons.IH [of "ps @ [a]" fuel'] Cons.prems(1) fuel' nx by simp
  next
    case (Some l)
    then have al: "BLOCKSIZE dvd a - heapbase st" and c: "complete_block (frag_size k) st a (BLOCKSIZE div frag_size k) = Some l"
      by (auto simp: mod_eq_0_iff_dvd split: if_splits)
    have fs: "frag_size k = 2 ^ k" "BLOCKSIZE div 2 ^ k = 2 ^ (12 - k)" using frag_size_pow [of k] k by simp_all
    obtain n where n: "(2 :: nat) ^ (12 - k) = Suc n" by (metis not0_implies_Suc power_not_zero zero_neq_numeral)
    then have n': "Suc n * 2 ^ k = BLOCKSIZE" using blocksize_pow [of k] k by simp
    let ?seg = "map (\<lambda>i. a + i * 2 ^ k) [0..<Suc n]"
    have "complete_block (2 ^ k) st a (Suc n) = Some l" using c unfolding fs n .
    then obtain ys where L: "L (FragHead k) = ps @ ?seg @ ys" "l = a + n * 2 ^ k"
      using complete_block_lists [OF f h Cons.prems(1)] by blast
    have hl: "hd ?seg = a" "last ?seg = l" "?seg \<noteq> []"
      using L(2) hd_map [of "[0..<Suc n]" "\<lambda>i. a + i * 2 ^ k"] hd_upt [of 0 "Suc n"] by simp_all
    obtain st1 where st1: "unlink_block a l st = Some st1" "only_links st st1" "free_lists st1 (L(FragHead k := ps @ ys))"
      using unlink_block_lists [OF f h L(1) hl(3)] unfolding hl(1,2) by blast
    note m = heap_merged [OF ok k al L(1) refl n' st1(2,3)]
    have l1: "heapbase st1 = heapbase st" "pend st1 - pstart st1 \<le> blocks" using st1(2) blocks by (simp_all add: only_links_def)
    obtain st' reg' L' where st': "ml_reorde_block blocks a BLOCKSIZE st1 = Some st'" "links_and_len st1 st'" "heap_ok st' reg' L'"
      "live_of reg' = (live_of (merged a BLOCKSIZE reg))(a := None)"
      using heap_reorde_block [OF m(1) _ _ l1(2)] al l1(1) by (auto simp: merged_def)
    have "reg a = Some (Frag k)" using heap_okD(5) [OF ok k, of a] Cons.prems(1) by simp
    then have "live_of reg' = live_of reg" using st'(4) m(2) by (auto simp: live_of_def fun_eq_iff)
    moreover have "reorde_loop fuel blocks k st (Some (Cell a)) = Some st'"
      using fuel'(1) Some st1(1) st'(1) by simp
    ultimately show ?thesis
      using st'(2,3) links_and_len_trans [OF only_links_len [OF st1(2)]] by auto
  qed
qed

section \<open>Freeing\<close>

lemma heap_ok_fields [simp]:
  "heap_ok (st\<lparr>bytes := g\<rparr>) reg L \<longleftrightarrow> heap_ok st reg L" "heap_ok (st\<lparr>bytes_free := w\<rparr>) reg L \<longleftrightarrow> heap_ok st reg L"
  "heap_ok (st\<lparr>bytes_used := w\<rparr>) reg L \<longleftrightarrow> heap_ok st reg L"
  by (simp_all add: heap_ok_def pool_ok_def)

lemma heap_reorde:
  assumes "heap_ok st reg L" "k < BLOCKLOG" "pend st - pstart st \<le> fuel"
  shows "\<exists>st' reg' L'. ml_reorde fuel k st = Some st' \<and> links_and_len st st' \<and> heap_ok st' reg' L' \<and> live_of reg' = live_of reg"
  using heap_reorde_loop [OF assms(1,2), of "[]" "L (FragHead k)" fuel fuel] heap_length [OF assms(1) _ assms(3)] assms(2,3)
    free_lists_first [OF heap_okD(1) [OF assms(1)], of "FragHead k"]
  by (simp add: ml_reorde_def)

lemma heap_insert_reorde:
  assumes ok: "heap_ok st reg L" and a: "reg a = Some (Live (2 ^ k))" and r: "region_ok (heapbase st) a (Frag k)"
    and L: "L (FragHead k) = xs @ ys" "\<And>x. x \<in> set xs \<Longrightarrow> x \<le> a" "\<And>y. y \<in> set ys \<Longrightarrow> a \<le> y"
    and st1: "only_links st st1" "free_lists st1 (L(FragHead k := xs @ a # ys))" and fuel: "pend st - pstart st \<le> fuel"
  shows "\<exists>st' reg' L'. ml_reorde fuel k st1 = Some st' \<and> links_and_len st st' \<and> heap_ok st' reg' L' \<and>
    live_of reg' = (live_of reg)(a := None)"
proof -
  have "heap_ok st1 (reg(a \<mapsto> Frag k)) (L(FragHead k := xs @ a # ys))"
    using heap_insert [OF ok, of a "Frag k" xs ys st1] a r L st1 by simp
  moreover have "pend st1 - pstart st1 \<le> fuel" "k < BLOCKLOG" using fuel st1(1) r by (simp_all add: only_links_def)
  ultimately obtain st' reg' L' where "ml_reorde fuel k st1 = Some st'" "links_and_len st1 st'" "heap_ok st' reg' L'"
    "live_of reg' = live_of (reg(a \<mapsto> Frag k))"
    using heap_reorde by blast
  then show ?thesis using links_and_len_trans [OF only_links_len [OF st1(1)]] by auto
qed

lemma heap_free_fragment:
  assumes ok: "heap_ok st reg L" and a: "reg a = Some (Live (2 ^ k))" and r: "region_ok (heapbase st) a (Frag k)"
    and fuel: "pend st - pstart st \<le> fuel"
  shows "\<exists>st' reg' L'. free_fragment fuel a (2 ^ k) st = Some st' \<and> links_and_len st st' \<and> heap_ok st' reg' L' \<and>
    live_of reg' = (live_of reg)(a := None)"
proof -
  let ?F = "L (FragHead k)"
  have k: "k < BLOCKLOG" "ml_getfrag_log (2 ^ k) = k" using r getfrag_log_pow by simp_all
  have f: "free_lists st L" and h: "is_head (FragHead k)" using heap_okD(1) [OF ok] k by simp_all
  have na: "\<not> in_lists L a" using heap_not_in_lists [OF ok] a by blast
  have la: "len st a = 2 ^ k" using heap_okD(7) [OF ok a] .
  have len: "length ?F \<le> fuel" by (rule heap_length [OF ok h fuel])
  have reg: "reg x = Some (Frag k)" "x \<noteq> a" if "x \<in> set ?F" for x
    using heap_okD(5) [OF ok k(1), of x] that a by auto
  note s = search_list [OF f h len]
  have a1: "reg a = Some (Live (region_size (Frag k)))" "\<forall>t. Frag k \<noteq> Live t" using a by simp_all
  have def: "free_fragment fuel a (2 ^ k) st =
    (if nxt st (FragHead k) = None then Some (insert_last a (FragHead k) st)
     else case search fuel (\<lambda>c. a + 2 ^ k = c) st (nxt st (FragHead k)) of
            None \<Rightarrow> None
          | Some (Some c) \<Rightarrow> Option.bind (insert_before a c st) (ml_reorde fuel k)
          | Some None \<Rightarrow>
              (case search fuel (\<lambda>c. c + 2 ^ k = a) st (nxt st (FragHead k)) of
                 None \<Rightarrow> None
               | Some (Some c) \<Rightarrow> ml_reorde fuel k (insert_after_cell a c st)
               | Some None \<Rightarrow>
                   (case search fuel (\<lambda>c. a + 2 ^ k < c) st (nxt st (FragHead k)) of
                      None \<Rightarrow> None
                    | Some (Some c) \<Rightarrow> insert_before a c st
                    | Some None \<Rightarrow> map_option (\<lambda>c. insert_last a c st) (last_cell fuel st (FragHead k)))))"
    by (simp only: free_fragment_def Let_def k(2) la)
  show ?thesis
  proof (cases "nxt st (FragHead k) = None")
    case True
    then obtain L' where "only_links st (insert_last a (FragHead k) st)" "heap_ok (insert_last a (FragHead k) st) (reg(a \<mapsto> Frag k)) L'"
      using heap_insert_only [OF ok a1(1) r a1(2)] by auto
    then show ?thesis unfolding def using True only_links_len by auto
  next
    case False
    then obtain y where ne: "nxt st (FragHead k) = Some y" by auto
    show ?thesis
    proof (cases "find (\<lambda>c. a + 2 ^ k = c) ?F")
      case (Some c)
      then obtain xs ys where L: "?F = xs @ c # ys" "c = a + 2 ^ k" using find_split [OF Some] by blast
      obtain st1 where st1: "insert_before a c st = Some st1" "only_links st st1" "free_lists st1 (L(FragHead k := xs @ a # c # ys))"
        using insert_before_lists [OF f h L(1) na] by blast
      note o = head_distinct_sorted [OF ok h L(1)]
      have "x \<le> a" if x: "x \<in> set xs" for x
        using cells_around(1) [OF ok a reg(1) [of x] reg(2) [of x]] o(1) [OF x] x L by simp
      moreover have "a \<le> x" if "x \<in> set (c # ys)" for x using o(2) [of x] that L(2) by auto
      ultimately obtain st' reg' L' where "ml_reorde fuel k st1 = Some st'" "links_and_len st st'" "heap_ok st' reg' L'"
        "live_of reg' = (live_of reg)(a := None)"
        using heap_insert_reorde [OF ok a r L(1) _ _ st1(2,3) fuel] by blast
      moreover have "free_fragment fuel a (2 ^ k) st = ml_reorde fuel k st1"
        unfolding def using ne s [of "\<lambda>c. a + 2 ^ k = c"] Some st1(1) by simp
      ultimately show ?thesis by auto
    next
      case none: None
      then have n: "\<forall>x \<in> set (L (head_of (Frag k))). x \<noteq> a + region_size (Frag k)" by (auto simp: find_None_iff)
      show ?thesis
      proof (cases "find (\<lambda>c. c + 2 ^ k = a) ?F")
        case (Some c)
        then obtain xs ys where L: "?F = xs @ c # ys" "c + 2 ^ k = a" using find_split [OF Some] by blast
        let ?st1 = "insert_after_cell a c st"
        have st1: "only_links st ?st1" "free_lists ?st1 (L(FragHead k := (xs @ [c]) @ a # ys))"
          using insert_after_lists [OF f h L(1) na] by simp_all
        note o = head_distinct_sorted [OF ok h L(1)]
        have L1: "?F = (xs @ [c]) @ ys" using L(1) by simp
        have "x \<le> a" if "x \<in> set (xs @ [c])" for x using o(1) [of x] that L(2) by auto
        moreover have "a \<le> x" if x: "x \<in> set ys" for x
          using tilesD(4) [OF heap_okD(3) [OF ok] reg(1) [of c] reg(1) [of x] o(2) [OF x]] x L by simp
        ultimately obtain st' reg' L' where "ml_reorde fuel k ?st1 = Some st'" "links_and_len st st'" "heap_ok st' reg' L'"
          "live_of reg' = (live_of reg)(a := None)"
          using heap_insert_reorde [OF ok a r L1 _ _ st1 fuel] by blast
        moreover have "free_fragment fuel a (2 ^ k) st = ml_reorde fuel k ?st1"
          unfolding def using ne s [of "\<lambda>c. a + 2 ^ k = c"] s [of "\<lambda>c. c + 2 ^ k = a"] none Some by simp
        ultimately show ?thesis by auto
      next
        case None
        obtain st' L' where "(case search fuel (\<lambda>c. a + 2 ^ k < c) st (nxt st (FragHead k)) of
            None \<Rightarrow> None
          | Some (Some c) \<Rightarrow> insert_before a c st
          | Some None \<Rightarrow> map_option (\<lambda>c. insert_last a c st) (last_cell fuel st (FragHead k))) = Some st'"
          "only_links st st'" "heap_ok st' (reg(a \<mapsto> Frag k)) L'"
          using heap_insert_search [OF ok a1(1) r a1(2) n fuel] unfolding head_of.simps region_size.simps by blast
        then show ?thesis unfolding def
          using ne s [of "\<lambda>c. a + 2 ^ k = c"] s [of "\<lambda>c. c + 2 ^ k = a"] none None only_links_len by fastforce
      qed
    qed
  qed
qed

text \<open>What the requests of the clients change: the rest of the heap is bookkeeping.\<close>

lemma region_ok_Live:
  assumes "region_ok base a (Live s)"
  obtains k where "s = 2 ^ k" "s \<le> 2048" "region_ok base a (Frag k)" | "2048 < s" "region_ok base a (Block s)"
proof -
  from assms consider k where "5 \<le> k" "k \<le> 11" "s = 2 ^ k" "2 ^ k dvd a - base" | "0 < s" "BLOCKSIZE dvd s" "BLOCKSIZE dvd a - base" by auto
  then show thesis
  proof cases
    case 1
    have "(2 :: nat) ^ k \<le> 2 ^ 11" using 1 by (simp only: power_increasing_iff)
    then show ?thesis using that(1) 1 by simp
  next
    case 2
    then show ?thesis using that(2) dvd_imp_le [of BLOCKSIZE s] by simp
  qed
qed

lemma heap_free:
  assumes ok: "heap_ok st reg L" and a: "live_of reg a = Some s" and fuel: "pend st - pstart st \<le> fuel"
  shows "\<exists>st' reg' L'. ml_free fuel (Some (a + ml_offset)) st = Some st' \<and>
    links_and_len (st\<lparr>bytes_free := bytes_free st + of_nat s\<rparr>) st' \<and> heap_ok st' reg' L' \<and>
    live_of reg' = (live_of reg)(a := None)"
proof -
  let ?st = "st\<lparr>bytes_free := bytes_free st + of_nat s\<rparr>"
  have r: "reg a = Some (Live s)" using a live_of_Some by simp
  have la: "len st a = s" using heap_okD(7) [OF ok r] .
  have range: "heapbase st \<le> a" "a < heapend st"
    using tilesD(1-3) [OF heap_okD(3) [OF ok] r] heap_okD(2) [OF ok] by (auto simp: pool_ok_def)
  have ok': "heap_ok ?st reg L" using ok by simp
  have f: "pend ?st - pstart ?st \<le> fuel" using fuel by simp
  have upd: "set_len a s st\<lparr>bytes_free := bytes_free (set_len a s st) + of_nat s\<rparr> = ?st"
    using la by (simp add: fun_upd_idem)
  from heap_okD(4) [OF ok r] show ?thesis
  proof (cases rule: region_ok_Live)
    case (1 k)
    have k: "k < BLOCKLOG" "ml_getfrag_log s = k" using 1 getfrag_log_pow by simp_all
    have "find (\<lambda>c. a = c) (L (FragHead k)) = None"
      using heap_okD(5) [OF ok k(1), of a] r by (auto simp: find_None_iff)
    then have "search fuel (\<lambda>c. a = c) st (nxt st (FragHead k)) = Some None"
      using search_list [OF heap_okD(1) [OF ok] _ heap_length [OF ok _ fuel], of "FragHead k"] k(1) by simp
    then have "ml_free fuel (Some (a + ml_offset)) st = free_fragment fuel a (2 ^ k) ?st"
      using la range k(2) 1 upd by (simp add: ml_free_def ml_getFragmentData_def Let_def)
    then show ?thesis using heap_free_fragment [OF ok' _ _ f, of a k] 1 r by simp
  next
    case 2
    have "ml_free fuel (Some (a + ml_offset)) st = ml_reorde_block fuel a s ?st"
      using la range 2 upd by (simp add: ml_free_def ml_getFragmentData_def Let_def)
    moreover have "set_len a s ?st = ?st" using la by (simp add: fun_upd_idem)
    ultimately show ?thesis using heap_reorde_block [where st = ?st and a = a and s = s and reg = reg and L = L and fuel = fuel] ok' f 2 r by simp
  qed
qed

end
