(* ===== verification/OvMallocAlloc.thy ===== *)
theory OvMallocAlloc
  imports OvMallocFree
begin

text \<open>
  Allocating keeps the invariant of the heap: the block comes from the list of the free blocks, from
  the end of a larger one, or from the pool; a fragment comes from the list of its size or from a
  block that is cut up.
\<close>

section \<open>Blocks\<close>

text \<open>What allocating leaves alone before the memory is initialised.\<close>

definition same_pool :: "ml_info \<Rightarrow> ml_info \<Rightarrow> bool" where
  "same_pool st st' \<longleftrightarrow> bytes st' = bytes st \<and> heapbase st' = heapbase st \<and> pend st' = pend st \<and> pstart st' = pstart st \<and>
     bytes_used st' - bytes_free st' = bytes_used st - bytes_free st \<and>
     bytes_used st' - of_nat (pcurr st') = bytes_used st - of_nat (pcurr st)"

lemma only_links_pool: "only_links st st' \<Longrightarrow> same_pool st st'"
  by (simp add: only_links_def same_pool_def)

lemma same_pool_trans: "same_pool st st1 \<Longrightarrow> same_pool st1 st2 \<Longrightarrow> same_pool st st2"
  by (simp add: same_pool_def)

text \<open>A free cell is taken out of its list and used as a whole.\<close>

lemma heap_take:
  assumes ok: "heap_ok st reg L" and a: "reg a = Some r" "\<forall>s. r \<noteq> Live s"
    and L: "L (head_of r) = xs @ a # ys"
    and st': "only_links st st'" "free_lists st' (L(head_of r := xs @ ys))"
  shows "heap_ok (set_len a (region_size r) st') (reg(a \<mapsto> Live (region_size r))) (L(head_of r := xs @ ys))"
proof -
  let ?st = "set_len a (region_size r) st'" and ?reg = "reg(a \<mapsto> Live (region_size r))" and ?L = "L(head_of r := xs @ ys)"
  have l: "len st' = len st" "heapbase st' = heapbase st" "pcurr st' = pcurr st" using st'(1) by (simp_all add: only_links_def)
  have ra: "region_ok (heapbase st) a r" using heap_okD(4) [OF ok a(1)] .
  have h: "is_head (head_of r)" using ra a(2) by (cases r) auto
  note no = head_distinct_sorted(3,4) [OF ok h L]
  show ?thesis
  proof (rule heap_okI)
    show "pool_ok ?st" using pool_ok_links [OF only_links_len [OF st'(1)]] heap_okD(2) [OF ok] by (simp add: pool_ok_def)
    show "tiles (heapbase ?st) (pcurr ?st) ?reg"
      using tiles_relabel [OF heap_okD(3) [OF ok] a(1), of "Live (region_size r)"] l by simp
    show "region_ok (heapbase ?st) b s" if "?reg b = Some s" for b s
      using that heap_okD(4) [OF ok, of b s] ra a(2) l by (cases r) (auto split: if_splits)
    show "b \<in> set (?L (FragHead k)) \<longleftrightarrow> ?reg b = Some (Frag k)" if "k < BLOCKLOG" for k b
      using heap_okD(5) [OF ok that, of b] a L no by (cases r) auto
    show "b \<in> set (?L BlocksHead) \<longleftrightarrow> ?reg b = Some (Block (len ?st b))" for b
      using heap_okD(6) [OF ok, of b] a L no l by (cases r) auto
    show "len ?st b = s" if "?reg b = Some (Live s)" for b s
      using that heap_okD(7) [OF ok, of b s] l by (auto split: if_splits)
    show "len ?st b = s" if "?reg b = Some (Block s)" for b s
      using that heap_okD(8) [OF ok, of b s] l by (auto split: if_splits)
    show "sorted (?L h)" if "is_head h" for h
      using heap_okD(9) [OF ok that] L by (auto simp: sorted_append)
  qed (use st'(2) in simp)
qed

text \<open>The tail of a larger block is cut off.\<close>

lemma heap_cut:
  assumes ok: "heap_ok st reg L" and c: "reg c = Some (Block t)" and s: "0 < s" "s < t" "BLOCKSIZE dvd s"
  defines "a \<equiv> c + (t - s)"
  shows "heap_ok (set_len a s (set_len c (t - s) st)) (reg(c \<mapsto> Block (t - s), a \<mapsto> Live s)) L" "reg a = None"
proof -
  let ?st = "set_len a s (set_len c (t - s) st)" and ?reg = "reg(c \<mapsto> Block (t - s), a \<mapsto> Live s)"
  have lc: "len st c = t" using heap_okD(8) [OF ok c] .
  have ac: "a \<noteq> c" "c < a" "a < c + t" using s by (simp_all add: a_def)
  have rc: "BLOCKSIZE dvd t" "BLOCKSIZE dvd c - heapbase st" using heap_okD(4) [OF ok c] by simp_all
  show none: "reg a = None" using tiles_inside [OF heap_okD(3) [OF ok] c ac(2)] ac(3) by simp
  have "heapbase st \<le> c" using tilesD(1) [OF heap_okD(3) [OF ok] c] .
  then have "a - heapbase st = (c - heapbase st) + (t - s)" by (simp add: a_def)
  then have ra: "BLOCKSIZE dvd t - s" "BLOCKSIZE dvd a - heapbase st" using rc s(3) by simp_all
  show "heap_ok ?st ?reg L"
  proof (rule heap_okI)
    show "free_lists ?st L" using heap_okD(1) [OF ok] by simp
    show "pool_ok ?st" using heap_okD(2) [OF ok] by (simp add: pool_ok_def)
    show "tiles (heapbase ?st) (pcurr ?st) ?reg"
      using tiles_split [OF heap_okD(3) [OF ok] c, of "Block (t - s)" "Live s"] s by (simp add: a_def)
    show "region_ok (heapbase ?st) b r" if "?reg b = Some r" for b r
      using that heap_okD(4) [OF ok, of b r] ra rc s by (auto split: if_splits)
    show "b \<in> set (L (FragHead k)) \<longleftrightarrow> ?reg b = Some (Frag k)" if "k < BLOCKLOG" for k b
      using heap_okD(5) [OF ok that, of b] c none by auto
    show "b \<in> set (L BlocksHead) \<longleftrightarrow> ?reg b = Some (Block (len ?st b))" for b
      using heap_okD(6) [OF ok, of b] c none ac lc by auto
    show "len ?st b = n" if "?reg b = Some (Live n)" for b n
      using that heap_okD(7) [OF ok, of b n] by (auto split: if_splits)
    show "len ?st b = n" if "?reg b = Some (Block n)" for b n
      using that heap_okD(8) [OF ok, of b n] ac by (auto split: if_splits)
    show "sorted (L h)" if "is_head h" for h using heap_okD(9) [OF ok that] .
  qed
qed

text \<open>The pool gives more memory, which becomes the end of the heap.\<close>

lemma morecore_value:
  assumes "pool_ok st" "s < 2 ^ 33"
  shows "morecore s st = (if pcurr st + s \<le> pend st
     then (Some (pcurr st), st\<lparr>pcurr := pcurr st + s, heapend := pcurr st + s,
        bytes_free := bytes_free st + of_nat s, bytes_used := bytes_used st + of_nat s\<rparr>)
     else (None, st))"
proof -
  have "pcurr st + s < SIZE_MOD" using assms by (simp add: pool_ok_def)
  moreover have "pstart st \<le> pcurr st" using assms by (simp add: pool_ok_def)
  ultimately show ?thesis by (simp add: morecore_def ov_database_morecore_def Let_def not_less)
qed

lemma heap_grow:
  assumes ok: "heap_ok st reg L" and s: "0 < s" "BLOCKSIZE dvd s" "pcurr st + s \<le> pend st"
  defines "st' \<equiv> set_len (pcurr st) s (st\<lparr>pcurr := pcurr st + s, heapend := pcurr st + s\<rparr>)"
  shows "heap_ok st' (reg(pcurr st \<mapsto> Live s)) L" "reg (pcurr st) = None"
proof -
  let ?a = "pcurr st" and ?reg = "reg(pcurr st \<mapsto> Live s)"
  have p: "heapbase st \<le> ?a" "BLOCKSIZE dvd ?a - heapbase st" using heap_okD(2) [OF ok] by (simp_all add: pool_ok_def)
  have "?a + s - heapbase st = (?a - heapbase st) + s" using p(1) by simp
  then have p': "BLOCKSIZE dvd ?a + s - heapbase st" using p(2) s(2) by simp
  show none: "reg ?a = None" using tilesD(2,3) [OF heap_okD(3) [OF ok], of ?a] by (cases "reg ?a") auto
  show "heap_ok st' ?reg L"
  proof (rule heap_okI)
    show "free_lists st' L" using heap_okD(1) [OF ok] by (simp add: st'_def)
    show "pool_ok st'" using heap_okD(2) [OF ok] s p p' by (simp add: pool_ok_def st'_def)
    show "tiles (heapbase st') (pcurr st') ?reg"
      using tiles_extend [OF heap_okD(3) [OF ok] p(1), of "Live s"] s by (simp add: st'_def)
    show "region_ok (heapbase st') b r" if "?reg b = Some r" for b r
      using that heap_okD(4) [OF ok, of b r] p s by (auto simp: st'_def split: if_splits)
    show "b \<in> set (L (FragHead k)) \<longleftrightarrow> ?reg b = Some (Frag k)" if "k < BLOCKLOG" for k b
      using heap_okD(5) [OF ok that, of b] none by auto
    show "b \<in> set (L BlocksHead) \<longleftrightarrow> ?reg b = Some (Block (len st' b))" for b
      using heap_okD(6) [OF ok, of b] none by (auto simp: st'_def)
    show "len st' b = n" if "?reg b = Some (Live n)" for b n
      using that heap_okD(7) [OF ok, of b n] by (auto simp: st'_def split: if_splits)
    show "len st' b = n" if "?reg b = Some (Block n)" for b n
      using that heap_okD(8) [OF ok, of b n] by (auto simp: st'_def split: if_splits)
    show "sorted (L h)" if "is_head h" for h using heap_okD(9) [OF ok that] .
  qed
qed

text \<open>A free piece of the heap for a request, in use from now on; a block makes no new fragments.\<close>

definition taken :: "ml_info \<Rightarrow> regions \<Rightarrow> nat \<Rightarrow> nat \<Rightarrow> ml_info \<Rightarrow> bool" where
  "taken st reg a s st' \<longleftrightarrow> same_pool st st' \<and> live_of reg a = None \<and>
     (\<exists>reg' L'. heap_ok (set_len a s st') reg' L' \<and> live_of reg' = (live_of reg)(a \<mapsto> s))"

definition taken_block :: "ml_info \<Rightarrow> regions \<Rightarrow> nat \<Rightarrow> nat \<Rightarrow> ml_info \<Rightarrow> bool" where
  "taken_block st reg a s st' \<longleftrightarrow> same_pool st st' \<and> live_of reg a = None \<and>
     (\<exists>reg' L'. heap_ok (set_len a s st') reg' L' \<and> live_of reg' = (live_of reg)(a \<mapsto> s) \<and>
        (\<forall>x k. reg' x = Some (Frag k) \<longrightarrow> reg x = Some (Frag k)))"

lemma taken_blockI:
  assumes "same_pool st st'" "live_of reg a = None" "heap_ok (set_len a s st') reg' L'" "live_of reg' = (live_of reg)(a \<mapsto> s)"
    "\<And>x k. reg' x = Some (Frag k) \<Longrightarrow> reg x = Some (Frag k)"
  shows "taken_block st reg a s st'"
  using assms unfolding taken_block_def by blast

lemma heap_getfreeblock:
  assumes ok: "heap_ok st reg L" and s: "0 < s" "BLOCKSIZE dvd s" "s < 2 ^ 33" and fuel: "pend st - pstart st \<le> fuel"
  shows "(\<exists>a st'. ml_malloc_getfreeblock fuel s st = Some (Some a, st') \<and> taken_block st reg a s st') \<or>
    ml_malloc_getfreeblock fuel s st = Some (None, st)"
proof -
  let ?B = "L BlocksHead"
  have f: "free_lists st L" and h: "is_head BlocksHead" using heap_okD(1) [OF ok] by simp_all
  have len: "length ?B \<le> fuel" by (rule heap_length [OF ok h fuel])
  note search = search_list [OF f h len]
  show ?thesis
  proof (cases "find (\<lambda>c. len st c = s) ?B")
    case (Some c)
    then obtain xs ys where L: "?B = xs @ c # ys" "len st c = s" using find_split [OF Some] by blast
    have c: "reg c = Some (Block s)" using list_block [OF ok, of c] L by simp
    obtain st' where st': "unlink_cell c st = Some st'" "only_links st st'" "free_lists st' (L(BlocksHead := xs @ ys))"
      using unlink_cell_lists [OF f h L(1)] by blast
    have "heap_ok (set_len c s st') (reg(c \<mapsto> Live s)) (L(BlocksHead := xs @ ys))"
      using heap_take [OF ok c, of xs ys st'] L(1) st'(2,3) by simp
    then have "taken_block st reg c s st'"
      by (intro taken_blockI [OF only_links_pool [OF st'(2)], where reg' = "reg(c \<mapsto> Live s)"])
        (use c in \<open>auto simp: live_of_def split: if_splits\<close>)
    then show ?thesis using search [of "\<lambda>c. len st c = s"] Some st'(1) by (simp add: ml_malloc_getfreeblock_def)
  next
    case none: None
    show ?thesis
    proof (cases "find (\<lambda>c. len st c > s) ?B")
      case (Some c)
      then have L: "c \<in> set ?B" "len st c > s" using find_split [OF Some] by auto
      let ?t = "len st c" and ?a = "c + (len st c - s)"
      have c: "reg c = Some (Block ?t)" using list_block [OF ok L(1)] .
      note cut = heap_cut [OF ok c s(1) L(2) s(2)]
      have "live_of reg ?a = None" using cut(2) by (simp add: live_of_def)
      moreover have "live_of (reg(c \<mapsto> Block (?t - s), ?a \<mapsto> Live s)) = (live_of reg)(?a \<mapsto> s)"
        using c by (auto simp: live_of_def fun_eq_iff)
      moreover note cut(1)
      moreover have "same_pool st (set_len c (?t - s) st)" by (simp add: same_pool_def)
      ultimately have "taken_block st reg ?a s (set_len c (?t - s) st)"
        by (intro taken_blockI [where reg' = "reg(c \<mapsto> Block (?t - s), ?a \<mapsto> Live s)"]) (assumption | auto split: if_splits)+
      moreover have "ml_malloc_getfreeblock fuel s st = Some (Some ?a, set_len c (?t - s) st)"
        using search [of "\<lambda>c. len st c = s"] search [of "\<lambda>c. len st c > s"] none Some by (simp add: ml_malloc_getfreeblock_def)
      ultimately show ?thesis by blast
    next
      case None
      have "ml_malloc_getfreeblock fuel s st = Some (morecore s st)"
        using search [of "\<lambda>c. len st c = s"] search [of "\<lambda>c. len st c > s"] none None by (simp add: ml_malloc_getfreeblock_def)
      then have v: "ml_malloc_getfreeblock fuel s st = Some (if pcurr st + s \<le> pend st
          then (Some (pcurr st), st\<lparr>pcurr := pcurr st + s, heapend := pcurr st + s,
            bytes_free := bytes_free st + of_nat s, bytes_used := bytes_used st + of_nat s\<rparr>) else (None, st))"
        using morecore_value [OF heap_okD(2) [OF ok] s(3)] by simp
      show ?thesis
      proof (cases "pcurr st + s \<le> pend st")
        case True
        let ?st = "st\<lparr>pcurr := pcurr st + s, heapend := pcurr st + s,
            bytes_free := bytes_free st + of_nat s, bytes_used := bytes_used st + of_nat s\<rparr>"
        note grow = heap_grow [OF ok s(1,2) True]
        have "heap_ok (set_len (pcurr st) s ?st) (reg(pcurr st \<mapsto> Live s)) L"
          using grow(1) by (simp add: heap_ok_def pool_ok_def free_lists_def)
        moreover have "live_of reg (pcurr st) = None" using grow(2) by (simp add: live_of_def)
        moreover have "same_pool st ?st" by (simp add: same_pool_def)
        ultimately have "taken_block st reg (pcurr st) s ?st"
          by (intro taken_blockI [where reg' = "reg(pcurr st \<mapsto> Live s)"]) (assumption | auto split: if_splits)+
        then show ?thesis using v True by auto
      qed (use v in simp)
    qed
  qed
qed

section \<open>Fragments\<close>

text \<open>A block that is cut into fragments: the first is in use, the others are free.\<close>

definition divided :: "nat \<Rightarrow> nat \<Rightarrow> nat \<Rightarrow> regions \<Rightarrow> regions" where
  "divided a k n reg = (\<lambda>x. if x = a then Some (Live (2 ^ k))
     else if x \<in> (\<lambda>i. a + i * 2 ^ k) ` {1..n} then Some (Frag k) else reg x)"

lemma tiles_divided:
  assumes "tiles base lim reg" "reg a = Some r" "region_size r = Suc n * 2 ^ k"
  shows "tiles base lim (divided a k n reg)"
  using assms
proof (induction n arbitrary: reg r)
  case 0
  have d: "divided a k 0 reg = reg(a \<mapsto> Live (2 ^ k))" by (auto simp: divided_def fun_eq_iff)
  show ?case unfolding d by (rule tiles_relabel [OF 0(1,2)]) (simp add: 0(3))
next
  case (Suc n)
  let ?s = "Suc n * 2 ^ k"
  let ?reg = "reg(a \<mapsto> Live ?s, a + ?s \<mapsto> Frag k)"
  have "tiles base lim ?reg" using tiles_split [OF Suc.prems(1,2), of "Live ?s" "Frag k"] Suc.prems(3) by simp
  then have "tiles base lim (divided a k n ?reg)" by (rule Suc.IH [where r = "Live ?s"]) simp_all
  moreover have "divided a k n ?reg = divided a k (Suc n) reg"
    by (auto simp: divided_def fun_eq_iff atLeastAtMostSuc_conv)
  ultimately show ?case by simp
qed

lemma link_fragments_lists:
  assumes "free_lists st L" "is_head (FragHead k)" "\<And>i. 1 \<le> i \<Longrightarrow> i \<le> n \<Longrightarrow> \<not> in_lists L (a + i * 2 ^ k)"
  shows "only_links st (link_fragments k a n st) \<and>
    free_lists (link_fragments k a n st) (L(FragHead k := map (\<lambda>i. a + i * 2 ^ k) [1..<Suc n] @ L (FragHead k)))"
  using assms(1,3)
proof (induction n arbitrary: st L)
  case 0
  then show ?case by (simp add: only_links_def)
next
  case (Suc n)
  let ?c = "a + Suc n * 2 ^ k"
  let ?st = "push_front (FragHead k) ?c st" and ?L = "L(FragHead k := ?c # L (FragHead k))"
  have p: "only_links st ?st" "free_lists ?st ?L"
    using push_front_lists [OF Suc.prems(1) assms(2), of ?c] Suc.prems(2) [of "Suc n"] by simp_all
  have "\<not> in_lists ?L (a + i * 2 ^ k)" if "1 \<le> i" "i \<le> n" for i
    using Suc.prems(2) [of i] that by (auto simp: in_lists_def simp del: mult_Suc)
  note * = Suc.IH [OF p(2) this]
  have "map (\<lambda>i. a + i * 2 ^ k) [1..<Suc n] @ ?L (FragHead k) = map (\<lambda>i. a + i * 2 ^ k) [1..<Suc (Suc n)] @ L (FragHead k)"
    by simp
  then have "?L(FragHead k := map (\<lambda>i. a + i * 2 ^ k) [1..<Suc n] @ ?L (FragHead k)) =
    L(FragHead k := map (\<lambda>i. a + i * 2 ^ k) [1..<Suc (Suc n)] @ L (FragHead k))"
    by (simp only: fun_upd_upd)
  then show ?case using * only_links_trans [OF p(1)] unfolding link_fragments.simps by metis
qed

lemma heap_divided:
  assumes ok: "heap_ok (set_len a BLOCKSIZE st) reg L" and a: "reg a = Some (Live BLOCKSIZE)" "BLOCKSIZE dvd a - heapbase st"
    and k: "5 \<le> k" "k < BLOCKLOG" "L (FragHead k) = []" and n: "Suc n * 2 ^ k = BLOCKSIZE"
  shows "\<exists>L'. heap_ok (set_len a (2 ^ k) (link_fragments k a n st)) (divided a k n reg) L'"
    "only_links st (link_fragments k a n st)" "live_of (divided a k n reg) = (live_of reg)(a \<mapsto> 2 ^ k)"
proof -
  let ?st1 = "set_len a BLOCKSIZE st" and ?st' = "link_fragments k a n st"
  let ?st = "set_len a (2 ^ k) ?st'" and ?reg = "divided a k n reg"
  let ?new = "map (\<lambda>i. a + i * 2 ^ k) [1..<Suc n]"
  let ?L = "L(FragHead k := ?new)"
  note t = heap_okD(3) [OF ok]
  have inside: "reg (a + i * 2 ^ k) = None" if "1 \<le> i" "i \<le> n" for i
  proof (rule tiles_inside [OF t a(1)])
    show "a < a + i * 2 ^ k" using that by simp
    have "i * 2 ^ k < Suc n * 2 ^ k" using that by (intro mult_strict_right_mono) simp_all
    then show "a + i * 2 ^ k < a + region_size (Live BLOCKSIZE)" using n by simp
  qed
  have f: "free_lists st L" using heap_okD(1) [OF ok] by simp
  have "\<not> in_lists L (a + i * 2 ^ k)" if "1 \<le> i" "i \<le> n" for i
    using heap_not_in_lists [OF ok] inside [OF that] by blast
  from link_fragments_lists [OF f _ this] have links: "only_links st ?st'" "free_lists ?st' ?L"
    using k by simp_all
  then show "only_links st (link_fragments k a n st)" by simp
  have l: "len ?st' = len st" "heapbase ?st' = heapbase st" "pcurr ?st' = pcurr st" using links(1) by (simp_all add: only_links_def)
  have new: "set ?new = (\<lambda>i. a + i * 2 ^ k) ` {1..n}" by (auto simp del: upt_Suc)
  have newD: "reg x = None" "2 ^ k dvd x - heapbase st" "x \<noteq> a" if "x \<in> set ?new" for x
  proof -
    from that obtain i where i: "x = a + i * 2 ^ k" "1 \<le> i" "i \<le> n" unfolding new by auto
    show "reg x = None" using inside i by simp
    have "heapbase st \<le> a" using tilesD(1) [OF t a(1)] by simp
    then have "x - heapbase st = (a - heapbase st) + i * 2 ^ k" using i by simp
    moreover have "(2 :: nat) ^ k dvd BLOCKSIZE" using n by (metis dvd_triv_right)
    ultimately show "2 ^ k dvd x - heapbase st" using a(2) by (metis dvd_add dvd_trans dvd_triv_right)
    show "x \<noteq> a" using i by simp
  qed
  have M: "?reg x = (if x = a then Some (Live (2 ^ k)) else if x \<in> set ?new then Some (Frag k) else reg x)" for x
    unfolding divided_def new ..
  have Fk: "reg x \<noteq> Some (Frag k)" for x using heap_okD(5) [OF ok k(2), of x] k(3) by simp
  have ka: "2 ^ k dvd a - heapbase st" using a(2) n by (metis dvd_trans dvd_triv_right)
  show "\<exists>L'. heap_ok ?st ?reg L'"
  proof (intro exI heap_okI)
    show "free_lists ?st ?L" using links(2) by simp
    show "pool_ok ?st" using pool_ok_links [OF only_links_len [OF links(1)]] heap_okD(2) [OF ok] by (simp add: pool_ok_def)
    show "tiles (heapbase ?st) (pcurr ?st) ?reg" using tiles_divided [OF t a(1), of n k] n l by simp
    show "region_ok (heapbase ?st) b r" if "?reg b = Some r" for b r
      using that heap_okD(4) [OF ok, of b r] newD [of b] k ka l by (auto simp: M simp del: upt_Suc split: if_splits)
    show "b \<in> set (?L (FragHead j)) \<longleftrightarrow> ?reg b = Some (Frag j)" if "j < BLOCKLOG" for j b
      using heap_okD(5) [OF ok that, of b] newD [of b] a(1) Fk [of b] by (auto simp: M simp del: upt_Suc)
    show "b \<in> set (?L BlocksHead) \<longleftrightarrow> ?reg b = Some (Block (len ?st b))" for b
      using heap_okD(6) [OF ok, of b] newD [of b] a(1) l by (auto simp: M simp del: upt_Suc)
    show "len ?st b = m" if "?reg b = Some (Live m)" for b m
      using that heap_okD(7) [OF ok, of b m] l by (auto simp: M simp del: upt_Suc split: if_splits)
    show "len ?st b = m" if "?reg b = Some (Block m)" for b m
      using that heap_okD(8) [OF ok, of b m] l by (auto simp: M simp del: upt_Suc split: if_splits)
    show "sorted (?L h)" if "is_head h" for h
      using heap_okD(9) [OF ok that] by (auto simp: sorted_map intro!: sorted_wrt_mono_rel [of _ "(\<le>)"] simp del: upt_Suc)
  qed
  show "live_of ?reg = (live_of reg)(a \<mapsto> 2 ^ k)"
    using newD by (auto simp: M fun_eq_iff live_of_def simp del: upt_Suc)
qed

lemma heap_get_fragment:
  assumes ok: "heap_ok st reg L" and k: "5 \<le> k" "k < BLOCKLOG" and fuel: "pend st - pstart st \<le> fuel"
  shows "(\<exists>a st'. get_fragment fuel k st = Some (Some a, st'\<lparr>bytes_free := bytes_free st' - 2 ^ k\<rparr>) \<and> taken st reg a (2 ^ k) st') \<or>
    get_fragment fuel k st = Some (None, st)"
proof -
  have fs: "frag_size k = 2 ^ k" "BLOCKSIZE div 2 ^ k = 2 ^ (12 - k)" using frag_size_pow [of k] k by simp_all
  have f: "free_lists st L" and h: "is_head (FragHead k)" using heap_okD(1) [OF ok] k by simp_all
  show ?thesis
  proof (cases "L (FragHead k)")
    case (Cons c ys)
    then have c: "reg c = Some (Frag k)" "L (FragHead k) = [] @ c # ys" using heap_okD(5) [OF ok k(2), of c] by simp_all
    have first: "nxt st (FragHead k) = Some (Cell c)" using free_lists_first [OF f h] Cons by simp
    obtain st' where st': "unlink_cell c st = Some st'" "only_links st st'" "free_lists st' (L(FragHead k := [] @ ys))"
      using unlink_cell_lists [OF f h c(2)] by blast
    have "heap_ok (set_len c (2 ^ k) st') (reg(c \<mapsto> Live (2 ^ k))) (L(FragHead k := [] @ ys))"
      using heap_take [OF ok c(1) _ _ st'(2), of "[]" ys] c(2) st'(3) by simp
    then have "taken st reg c (2 ^ k) st'"
      using only_links_pool [OF st'(2)] c by (auto simp: taken_def live_of_def)
    then show ?thesis using first st'(1) by (auto simp: get_fragment_def Let_def fs)
  next
    case Nil
    have first: "nxt st (FragHead k) = None" using free_lists_first [OF f h] Nil by simp
    have "(0 :: nat) < 2 ^ (12 - k)" by simp
    then obtain n where n: "(2 :: nat) ^ (12 - k) = Suc n" by (metis gr0_implies_Suc)
    then have n': "Suc n * 2 ^ k = BLOCKSIZE" using blocksize_pow [of k] k by simp
    consider a st1 where "ml_malloc_getfreeblock fuel BLOCKSIZE st = Some (Some a, st1)" "taken_block st reg a BLOCKSIZE st1"
      | "ml_malloc_getfreeblock fuel BLOCKSIZE st = Some (None, st)"
      using heap_getfreeblock [OF ok, of BLOCKSIZE fuel] fuel by auto
    then show ?thesis
    proof cases
      case 1
      then obtain reg1 L1 where t: "same_pool st st1" "live_of reg a = None" "heap_ok (set_len a BLOCKSIZE st1) reg1 L1"
        "live_of reg1 = (live_of reg)(a \<mapsto> BLOCKSIZE)" "\<And>x k. reg1 x = Some (Frag k) \<Longrightarrow> reg x = Some (Frag k)"
        unfolding taken_block_def by blast
      have a: "reg1 a = Some (Live BLOCKSIZE)" using t(4) live_of_Some [of reg1 a BLOCKSIZE] by simp
      have "region_ok (heapbase st1) a (Live BLOCKSIZE)" using heap_okD(4) [OF t(3) a] by simp
      then have al: "BLOCKSIZE dvd a - heapbase st1" by (cases rule: region_ok_Live) simp_all
      have "x \<notin> set (L1 (FragHead k))" for x
        using heap_okD(5) [OF t(3) k(2), of x] t(5) [of x k] heap_okD(5) [OF ok k(2), of x] Nil by auto
      then have L1: "L1 (FragHead k) = []" by (cases "L1 (FragHead k)") auto
      note d = heap_divided [OF t(3) a al k L1 n']
      have "same_pool st (link_fragments k a n st1)" using same_pool_trans [OF t(1) only_links_pool [OF d(2)]] .
      then have "taken st reg a (2 ^ k) (link_fragments k a n st1)"
        using d(1,3) t(2,4) unfolding taken_def by auto
      moreover have "get_fragment fuel k st = Some (Some a, (link_fragments k a n st1)
          \<lparr>bytes_free := bytes_free (link_fragments k a n st1) - 2 ^ k\<rparr>)"
        using first 1(1) n by (simp add: get_fragment_def Let_def fs)
      ultimately show ?thesis by blast
    qed (use first in \<open>simp add: get_fragment_def\<close>)
  qed
qed

section \<open>Requests\<close>

lemma request_size_bounds: "sz < 2 ^ 32 \<Longrightarrow> 24 \<le> request_size sz \<and> sz + ml_offset \<le> request_size sz \<and> request_size sz < 2 ^ 32 + 32"
  by (simp add: request_size_def max_def)

text \<open>Sizes near the end of the type wrap around.\<close>

lemma huge_request_wraps: "request_size (SIZE_MOD - 1) = list_bytes" "frag_size (ml_getfrag_log list_bytes) = 32"
proof -
  show "request_size (SIZE_MOD - 1) = list_bytes" by (simp add: request_size_def)
  have "(2 :: nat) ^ 4 < 2 ^ ml_getfrag_log 24" "(2 :: nat) ^ ml_getfrag_log 24 < 2 ^ 6"
    using getfrag_log_bounds(2,3) [of 24] by simp_all
  then have "4 < ml_getfrag_log 24" "ml_getfrag_log 24 < 6" by (simp_all only: power_strict_increasing_iff)
  then have "ml_getfrag_log 24 = 5" by simp
  then show "frag_size (ml_getfrag_log list_bytes) = 32" by (simp add: frag_size_pow)
qed

lemma BLOCKIFY_bounds:
  assumes "n < 2 ^ 32 + 32" "0 < n"
  shows "(BLOCKIFY n * BLOCKSIZE) mod SIZE_MOD = BLOCKIFY n * BLOCKSIZE" "n \<le> BLOCKIFY n * BLOCKSIZE" "BLOCKIFY n * BLOCKSIZE < 2 ^ 33"
proof -
  have b: "BLOCKIFY n = (n + 4095) div BLOCKSIZE" using assms by (simp add: BLOCKIFY_def)
  have "(n + 4095) div BLOCKSIZE * BLOCKSIZE \<le> n + 4095" "n \<le> (n + 4095) div BLOCKSIZE * BLOCKSIZE"
    using div_mult_mod_eq [of "n + 4095" BLOCKSIZE] mod_less_divisor [of BLOCKSIZE "n + 4095"] by linarith+
  then show "n \<le> BLOCKIFY n * BLOCKSIZE" "BLOCKIFY n * BLOCKSIZE < 2 ^ 33"
    "(BLOCKIFY n * BLOCKSIZE) mod SIZE_MOD = BLOCKIFY n * BLOCKSIZE"
    using assms unfolding b by simp_all
qed

definition allocated :: "ml_info \<Rightarrow> regions \<Rightarrow> nat \<Rightarrow> nat \<Rightarrow> ml_info \<Rightarrow> bool" where
  "allocated st reg a s st' \<longleftrightarrow>
     (\<exists>st1. taken st reg a s st1 \<and> st' = init_region a s (st1\<lparr>bytes_free := bytes_free st1 - of_nat s\<rparr>))"

lemma heap_malloc:
  assumes ok: "heap_ok st reg L" and sz: "sz < 2 ^ 32" and fuel: "pend st - pstart st \<le> fuel"
  shows "ml_malloc fuel sz st = Some (None, st) \<or>
    (\<exists>a s st'. ml_malloc fuel sz st = Some (Some (a + ml_offset), st') \<and> sz + ml_offset \<le> s \<and> allocated st reg a s st')"
proof (cases "sz = 0")
  case True
  then show ?thesis by (simp add: ml_malloc_def)
next
  case False
  let ?n = "request_size sz"
  note n = request_size_bounds [OF sz]
  show ?thesis
  proof (cases "?n \<le> 2048")
    case True
    let ?k = "ml_getfrag_log ?n"
    have k: "?k \<le> 11" "?n \<le> 2 ^ ?k" using getfrag_log_bounds [of ?n] n True by simp_all
    have "(2 :: nat) ^ 4 < 2 ^ ?k" using k(2) n by simp
    then have k5: "5 \<le> ?k" by (simp only: power_strict_increasing_iff)
    have fs: "frag_size ?k = 2 ^ ?k" using frag_size_pow(1) [of ?k] k by simp
    have kl: "?k < BLOCKLOG" using k by simp
    have v: "ml_malloc fuel sz st = map_option (\<lambda>(r, st). case r of None \<Rightarrow> (None, st)
        | Some result \<Rightarrow> (Some (result + ml_offset), init_region result (2 ^ ?k) st)) (get_fragment fuel ?k st)"
      using False True by (simp add: ml_malloc_def Let_def fs cong: option.case_cong)
    have "sz + ml_offset \<le> 2 ^ ?k" using n k(2) by linarith
    then show ?thesis
      using heap_get_fragment [OF ok k5 kl fuel] unfolding v allocated_def by fastforce
  next
    case False
    let ?s = "BLOCKIFY ?n * BLOCKSIZE"
    have n0: "?n < 2 ^ 32 + 32" "0 < ?n" using n by simp_all
    note b = BLOCKIFY_bounds [OF n0]
    have v: "ml_malloc fuel sz st = map_option (\<lambda>(r, st). case r of None \<Rightarrow> (None, st)
        | Some result \<Rightarrow> (Some (result + ml_offset), init_region result ?s st)) (get_blocks fuel ?s st)"
      using False \<open>sz \<noteq> 0\<close> by (simp add: ml_malloc_def Let_def b(1) cong: option.case_cong)
    have "0 < ?s" "BLOCKSIZE dvd ?s" "sz + ml_offset \<le> ?s" using n b(2) by simp_all
    then show ?thesis
      using heap_getfreeblock [OF ok _ _ b(3) fuel] unfolding v get_blocks_def allocated_def taken_def taken_block_def by fastforce
  qed
qed

end
