(* ===== verification/OvMallocHeap.thy ===== *)
theory OvMallocHeap
  imports OvMallocAlloc
begin

text \<open>
  What the clients of the database memory rely on: the pieces they hold are a map from addresses to
  byte strings. Allocating adds a piece of zeros, freeing removes one, reallocating moves the content,
  and no operation touches the other pieces. The contract is the locale \<open>memory\<close>; the functions of
  ov_database.c are an interpretation of it.
\<close>

section \<open>The contract\<close>

type_synonym pieces = "nat \<Rightarrow> (8 word) list option"

definition piece :: "(nat \<Rightarrow> 8 word) \<Rightarrow> nat \<Rightarrow> nat \<Rightarrow> 8 word list" where
  "piece m p n = map m [p..<p + n]"

lemma piece_simps [simp]: "length (piece m p n) = n" "i < n \<Longrightarrow> piece m p n ! i = m (p + i)"
  by (simp_all add: piece_def)

lemma piece_cong: "(\<And>i. i < n \<Longrightarrow> m (p + i) = m' (q + i)) \<Longrightarrow> piece m p n = piece m' q n"
  by (rule nth_equalityI) simp_all

datatype request = Alloc OV_UINT | Free nat | Realloc nat OV_UINT | Write nat nat "8 word"

text \<open>What a request does to the pieces, with the address that an allocation returned.\<close>

definition zeros :: "nat \<Rightarrow> 8 word list" where
  "zeros n = replicate n 0"

definition resized :: "8 word list \<Rightarrow> nat \<Rightarrow> 8 word list" where
  "resized bs n = take n bs @ zeros (n - length bs)"

inductive serves :: "pieces \<Rightarrow> request \<Rightarrow> nat option \<Rightarrow> pieces \<Rightarrow> bool" where
  refused: "serves B (Alloc sz) None B"
| allocated: "B q = None \<Longrightarrow> unat sz \<le> n \<Longrightarrow> serves B (Alloc sz) (Some q) (B(q \<mapsto> zeros n))"
| freed: "B p = Some bs \<Longrightarrow> serves B (Free p) None (B(p := None))"
| not_moved: "B p = Some bs \<Longrightarrow> sz \<noteq> 0 \<Longrightarrow> serves B (Realloc p sz) None B"
| moved: "B p = Some bs \<Longrightarrow> B q = None \<Longrightarrow> unat sz \<le> n \<Longrightarrow> sz \<noteq> 0 \<Longrightarrow>
    serves B (Realloc p sz) (Some q) (B(p := None, q \<mapsto> resized bs n))"
| freed_by_realloc: "B p = Some bs \<Longrightarrow> serves B (Realloc p 0) None (B(p := None))"
| written: "B p = Some bs \<Longrightarrow> i < length bs \<Longrightarrow> serves B (Write p i w) None (B(p \<mapsto> bs[i := w]))"

fun allowed :: "pieces \<Rightarrow> request \<Rightarrow> bool" where
  "allowed B (Alloc sz) \<longleftrightarrow> True"
| "allowed B (Free p) \<longleftrightarrow> p \<in> dom B"
| "allowed B (Realloc p sz) \<longleftrightarrow> p \<in> dom B"
| "allowed B (Write p i w) \<longleftrightarrow> (case B p of None \<Rightarrow> False | Some bs \<Rightarrow> i < length bs)"

text \<open>The memory as its clients see it.\<close>

definition pieces_of :: "ml_info \<Rightarrow> (nat \<Rightarrow> nat option) \<Rightarrow> pieces" where
  "pieces_of st live p = (if ml_offset \<le> p then map_option (\<lambda>s. piece (bytes st) p (s - ml_offset)) (live (p - ml_offset)) else None)"

definition in_use :: "(nat \<Rightarrow> nat option) \<Rightarrow> nat" where
  "in_use live = (\<Sum>a\<in>dom live. the (live a))"

lemma in_use_upd:
  assumes "finite (dom live)"
  shows "live a = None \<Longrightarrow> in_use (live(a \<mapsto> s)) = s + in_use live"
    "live a = Some s \<Longrightarrow> in_use live = s + in_use (live(a := None))"
proof -
  have *: "in_use (live'(a \<mapsto> s)) = s + in_use live'" if "finite (dom live')" "live' a = None" for live'
  proof -
    have "in_use (live'(a \<mapsto> s)) = s + (\<Sum>x\<in>dom live'. the ((live'(a \<mapsto> s)) x))"
      using that by (simp add: in_use_def domIff)
    also have "(\<Sum>x\<in>dom live'. the ((live'(a \<mapsto> s)) x)) = in_use live'"
      unfolding in_use_def using that(2) by (intro sum.cong) auto
    finally show ?thesis .
  qed
  show "live a = None \<Longrightarrow> in_use (live(a \<mapsto> s)) = s + in_use live" by (rule * [OF assms])
  assume "live a = Some s"
  then have "live = (live(a := None))(a \<mapsto> s)" by auto
  then show "in_use live = s + in_use (live(a := None))"
    using * [of "live(a := None)"] assms by (metis dom_fun_upd finite_Diff fun_upd_same)
qed

definition accounted :: "ml_info \<Rightarrow> (nat \<Rightarrow> nat option) \<Rightarrow> bool" where
  "accounted st live \<longleftrightarrow> bytes_used st - bytes_free st = of_nat (in_use live) \<and>
     bytes_used st - of_nat (pcurr st) = - of_nat (pstart st)"

definition heap_abs :: "ml_info \<Rightarrow> pieces \<Rightarrow> bool" where
  "heap_abs st B \<longleftrightarrow> (\<exists>reg L. heap_ok st reg L \<and> B = pieces_of st (live_of reg) \<and> accounted st (live_of reg))"

lemma live_apart:
  assumes "heap_ok st reg L" "live_of reg a = Some s" "live_of reg b = Some t" "a \<noteq> b"
  shows "a + s \<le> b \<or> b + t \<le> a"
  using tilesD(4) [OF heap_okD(3) [OF assms(1)], of a "Live s" b "Live t"] tilesD(4) [OF heap_okD(3) [OF assms(1)], of b "Live t" a "Live s"]
    assms(2-4) by (cases "a < b") (auto simp: live_of_Some)

lemma live_size: "heap_ok st reg L \<Longrightarrow> live_of reg a = Some s \<Longrightarrow> 32 \<le> s"
proof -
  assume "heap_ok st reg L" "live_of reg a = Some s"
  then have "region_ok (heapbase st) a (Live s)" using heap_okD(4) live_of_Some by metis
  then show "32 \<le> s"
  proof (cases rule: region_ok_Live)
    case (1 k)
    then have "(2 :: nat) ^ 5 \<le> 2 ^ k" by (intro power_increasing) simp_all
    then show ?thesis using 1 by simp
  qed simp
qed

lemma live_finite: "heap_ok st reg L \<Longrightarrow> finite (dom (live_of reg))"
proof (rule finite_subset)
  assume "heap_ok st reg L"
  then show "dom (live_of reg) \<subseteq> {..<pcurr st}"
    using tilesD(2,3) [OF heap_okD(3)] by (fastforce simp: live_of_Some)
qed simp

lemma pieces_of_Some:
  "pieces_of st live p = Some bs \<longleftrightarrow> (\<exists>a s. p = a + ml_offset \<and> live a = Some s \<and> bs = piece (bytes st) p (s - ml_offset))"
  by (auto simp: pieces_of_def le_iff_add add.commute)

text \<open>The pieces do not overlap.\<close>

lemma pieces_apart:
  assumes "heap_abs st B" "B p = Some bs" "B q = Some cs" "p \<noteq> q"
  shows "p + length bs \<le> q \<or> q + length cs \<le> p"
proof -
  obtain reg L where ok: "heap_ok st reg L" "B = pieces_of st (live_of reg)" using assms(1) by (auto simp: heap_abs_def)
  obtain a s b t where "p = a + ml_offset" "live_of reg a = Some s" "length bs = s - ml_offset"
    "q = b + ml_offset" "live_of reg b = Some t" "length cs = t - ml_offset"
    using assms(2,3) unfolding ok(2) pieces_of_Some by auto
  then show ?thesis using live_apart [OF ok(1), of a s b t] assms(4) live_size [OF ok(1), of a s] live_size [OF ok(1), of b t] by auto
qed

lemma pieces_inside:
  assumes "heap_abs st B" "B p = Some bs"
  shows "pstart st \<le> p" "p + length bs \<le> pcurr st" "pcurr st \<le> pend st"
proof -
  obtain reg L where ok: "heap_ok st reg L" "B = pieces_of st (live_of reg)" using assms(1) by (auto simp: heap_abs_def)
  obtain a s where a: "p = a + ml_offset" "reg a = Some (Live s)" "length bs = s - ml_offset"
    using assms(2) unfolding ok(2) pieces_of_Some by (auto simp: live_of_Some)
  then show "pstart st \<le> p" "p + length bs \<le> pcurr st" "pcurr st \<le> pend st"
    using tilesD(1,2) [OF heap_okD(3) [OF ok(1)] a(2)] heap_okD(2) [OF ok(1)] live_size [OF ok(1), of a s]
    by (auto simp: pool_ok_def live_of_Some)
qed

section \<open>The functions keep the contract\<close>

lemma abs_free:
  assumes abs: "heap_abs st B" and p: "B p = Some bs" and fuel: "pend st - pstart st \<le> fuel"
  shows "\<exists>st'. ml_free fuel (Some p) st = Some st' \<and> heap_abs st' (B(p := None)) \<and>
    bytes st' = bytes st \<and> pstart st' = pstart st \<and> pend st' = pend st"
proof -
  obtain reg L where ok: "heap_ok st reg L" "B = pieces_of st (live_of reg)" "accounted st (live_of reg)"
    using abs by (auto simp: heap_abs_def)
  obtain a s where a: "p = a + ml_offset" "live_of reg a = Some s" using p unfolding ok(2) pieces_of_Some by blast
  obtain st' reg' L' where st': "ml_free fuel (Some p) st = Some st'"
    "links_and_len (st\<lparr>bytes_free := bytes_free st + of_nat s\<rparr>) st'" "heap_ok st' reg' L'" "live_of reg' = (live_of reg)(a := None)"
    using heap_free [OF ok(1) a(2) fuel] a(1) by blast
  have B: "B(p := None) = pieces_of st' (live_of reg')"
  proof -
    have "bytes st' = bytes st" using st'(2) by (simp add: links_and_len_def)
    then have "pieces_of st' live = pieces_of st live" for live by (intro ext) (simp add: pieces_of_def)
    then show ?thesis unfolding ok(2) st'(4) using a(1) by (simp add: fun_eq_iff) (auto simp: pieces_of_def)
  qed
  have "in_use (live_of reg) = s + in_use (live_of reg')"
    using in_use_upd(2) [OF live_finite [OF ok(1)] a(2)] st'(4) by simp
  then have "accounted st' (live_of reg')"
    using st'(2) ok(3) unfolding accounted_def links_and_len_def by (auto simp: algebra_simps)
  then show ?thesis using st'(1-3) B unfolding heap_abs_def links_and_len_def by fastforce
qed

lemma init_region_simps [simp]:
  "len (init_region a s st) = (len st)(a := s)" "bytes_free (init_region a s st) = bytes_free st"
  "bytes_used (init_region a s st) = bytes_used st" "pstart (init_region a s st) = pstart st"
  "pend (init_region a s st) = pend st" "pcurr (init_region a s st) = pcurr st" "heapbase (init_region a s st) = heapbase st"
  "bytes (init_region a s st) x = (if a \<le> x \<and> x < a + s then 0 else bytes st x)"
  by (simp_all add: init_region_def)

lemma heap_ok_init [simp]: "heap_ok (init_region a s (st\<lparr>bytes_free := w\<rparr>)) reg L \<longleftrightarrow> heap_ok (set_len a s st) reg L"
  by (simp add: init_region_def heap_ok_def pool_ok_def free_lists_def)

lemma abs_allocated:
  assumes ok: "heap_ok st reg L" and B: "B = pieces_of st (live_of reg)"
    and sum: "accounted st (live_of reg)"
    and a: "allocated st reg a s st'"
  shows "B (a + ml_offset) = None" "heap_abs st' (B(a + ml_offset \<mapsto> zeros (s - ml_offset)))"
    "pstart st' = pstart st" "pend st' = pend st"
proof -
  obtain st1 reg' L' where t: "same_pool st st1" "live_of reg a = None" "heap_ok (set_len a s st1) reg' L'"
    "live_of reg' = (live_of reg)(a \<mapsto> s)" and st': "st' = init_region a s (st1\<lparr>bytes_free := bytes_free st1 - of_nat s\<rparr>)"
    using a unfolding allocated_def taken_def by blast
  show "B (a + ml_offset) = None" using t(2) by (simp add: B pieces_of_def)
  show "pstart st' = pstart st" "pend st' = pend st" using t(1) by (simp_all add: st' same_pool_def)
  have ok': "heap_ok st' reg' L'" using t(3) by (simp add: st')
  have bytes: "bytes st' x = (if a \<le> x \<and> x < a + s then 0 else bytes st x)" for x
    using t(1) by (simp add: st' same_pool_def)
  have apart: "a + s \<le> b \<or> b + n \<le> a" if "live_of reg b = Some n" for b n
    using live_apart [OF ok', of a s b n] t(2,4) that by (cases "b = a") auto
  have "B(a + ml_offset \<mapsto> zeros (s - ml_offset)) = pieces_of st' (live_of reg')"
  proof (rule ext)
    fix p
    show "(B(a + ml_offset \<mapsto> zeros (s - ml_offset))) p = pieces_of st' (live_of reg') p"
    proof (cases "ml_offset \<le> p")
      case False
      then show ?thesis by (simp add: B pieces_of_def)
    next
      case True
      then obtain b where p: "p = b + ml_offset" by (metis le_add_diff_inverse2)
      show ?thesis
      proof (cases "b = a")
        case True
        have "zeros (s - ml_offset) = piece (bytes st') p (s - ml_offset)"
          by (rule nth_equalityI) (simp_all add: zeros_def bytes p True, linarith)
        then show ?thesis using p True t(4) by (simp add: pieces_of_def)
      next
        case False
        have "piece (bytes st) p (n - ml_offset) = piece (bytes st') p (n - ml_offset)" if "live_of reg b = Some n" for n
          by (rule piece_cong) (use apart [OF that] p in \<open>auto simp: bytes\<close>)
        then show ?thesis using p False t(4) by (cases "live_of reg b") (simp_all add: B pieces_of_def)
      qed
    qed
  qed
  moreover have "in_use (live_of reg') = s + in_use (live_of reg)"
    using in_use_upd(1) [OF live_finite [OF ok] t(2)] t(4) by simp
  then have "accounted st' (live_of reg')"
    using t(1) sum by (simp add: accounted_def st' same_pool_def)
  ultimately show "heap_abs st' (B(a + ml_offset \<mapsto> zeros (s - ml_offset)))"
    unfolding heap_abs_def using ok' by blast
qed

lemma abs_malloc:
  assumes "heap_abs st B" "sz < 2 ^ 32" "pend st - pstart st \<le> fuel"
  shows "ml_malloc fuel sz st = Some (None, st) \<or>
    (\<exists>q n st'. ml_malloc fuel sz st = Some (Some q, st') \<and> B q = None \<and> sz \<le> n \<and> heap_abs st' (B(q \<mapsto> zeros n)) \<and>
       pstart st' = pstart st \<and> pend st' = pend st)"
proof -
  obtain reg L where ok: "heap_ok st reg L" "B = pieces_of st (live_of reg)" "accounted st (live_of reg)"
    using assms(1) by (auto simp: heap_abs_def)
  consider "ml_malloc fuel sz st = Some (None, st)"
    | a s st' where "ml_malloc fuel sz st = Some (Some (a + ml_offset), st')" "sz + ml_offset \<le> s" "allocated st reg a s st'"
    using heap_malloc [OF ok(1) assms(2,3)] by blast
  then show ?thesis
  proof cases
    case 2
    then have "sz \<le> s - ml_offset" by simp
    then show ?thesis using 2(1) abs_allocated [OF ok 2(3)] by blast
  qed simp
qed

lemma abs_content:
  assumes "heap_abs st B" "B p = Some bs"
  shows "snd (ml_getFragmentData p st) = length bs + ml_offset" "bs = piece (bytes st) p (length bs)"
proof -
  obtain reg L where ok: "heap_ok st reg L" "B = pieces_of st (live_of reg)" using assms(1) by (auto simp: heap_abs_def)
  obtain a s where a: "p = a + ml_offset" "live_of reg a = Some s" "bs = piece (bytes st) p (s - ml_offset)"
    using assms(2) unfolding ok(2) pieces_of_Some by blast
  then show "snd (ml_getFragmentData p st) = length bs + ml_offset" "bs = piece (bytes st) p (length bs)"
    using live_size [OF ok(1) a(2)] heap_okD(7) [OF ok(1), of a s] by (simp_all add: ml_getFragmentData_def live_of_Some)
qed

lemma abs_change:
  assumes abs: "heap_abs st B" and q: "B q = Some cs" and m: "\<And>x. x < q \<or> q + length cs \<le> x \<Longrightarrow> m x = bytes st x"
  shows "heap_abs (st\<lparr>bytes := m\<rparr>) (B(q \<mapsto> piece m q (length cs)))"
proof -
  obtain reg L where ok: "heap_ok st reg L" "B = pieces_of st (live_of reg)" "accounted st (live_of reg)"
    using abs by (auto simp: heap_abs_def)
  have "B(q \<mapsto> piece m q (length cs)) = pieces_of (st\<lparr>bytes := m\<rparr>) (live_of reg)"
  proof (rule ext)
    fix p
    show "(B(q \<mapsto> piece m q (length cs))) p = pieces_of (st\<lparr>bytes := m\<rparr>) (live_of reg) p"
    proof (cases "p = q")
      case True
      then show ?thesis using q by (auto simp: ok(2) pieces_of_def split: if_splits)
    next
      case False
      have "piece (bytes st) p (length bs) = piece m p (length bs)" if "B p = Some bs" for bs
        by (rule piece_cong) (use pieces_apart [OF abs that q False] m in auto)
      then show ?thesis using False by (cases "live_of reg (p - ml_offset)") (auto simp: ok(2) pieces_of_def)
    qed
  qed
  moreover have "accounted (st\<lparr>bytes := m\<rparr>) (live_of reg)" using ok(3) by (simp add: accounted_def)
  ultimately show ?thesis using ok(1) unfolding heap_abs_def by (intro exI [of _ reg] exI [of _ L]) simp
qed

lemma abs_realloc:
  assumes abs: "heap_abs st B" and p: "B p = Some bs" and sz: "sz < 2 ^ 32" "sz \<noteq> 0" and fuel: "pend st - pstart st \<le> fuel"
  shows "ml_realloc fuel (Some p) sz st = Some (None, st) \<or>
    (\<exists>q n st'. ml_realloc fuel (Some p) sz st = Some (Some q, st') \<and> B q = None \<and> sz \<le> n \<and>
       heap_abs st' (B(p := None, q \<mapsto> resized bs n)) \<and> pstart st' = pstart st \<and> pend st' = pend st)"
proof -
  consider "ml_malloc fuel sz st = Some (None, st)"
    | q n st1 where "ml_malloc fuel sz st = Some (Some q, st1)" "B q = None" "sz \<le> n" "heap_abs st1 (B(q \<mapsto> zeros n))"
      "pstart st1 = pstart st" "pend st1 = pend st"
    using abs_malloc [OF abs sz(1) fuel] by blast
  then show ?thesis
  proof cases
    case 1
    then show ?thesis using sz by (simp add: ml_realloc_def)
  next
    case 2
    let ?B = "B(q \<mapsto> zeros n)" and ?c = "min (length bs) n"
    have pq: "p \<noteq> q" using p 2(2) by auto
    then have Bp: "?B p = Some bs" "?B q = Some (zeros n)" using p by simp_all
    have old: "snd (ml_getFragmentData p st1) = length bs + ml_offset" "bs = piece (bytes st1) p (length bs)"
      by (rule abs_content [OF 2(4) Bp(1)])+
    have new: "snd (ml_getFragmentData q st1) = n + ml_offset" "zeros n = piece (bytes st1) q n"
      using abs_content [OF 2(4) Bp(2)] by (simp_all add: zeros_def)
    let ?m = "\<lambda>x. if q \<le> x \<and> x < q + ?c then bytes st1 (p + (x - q)) else bytes st1 x"
    have copy: "memcpy q p ?c st1 = st1\<lparr>bytes := ?m\<rparr>" by (simp add: memcpy_def)
    have "heap_abs (st1\<lparr>bytes := ?m\<rparr>) (?B(q \<mapsto> piece ?m q (length (zeros n))))"
      by (rule abs_change [OF 2(4) Bp(2)]) (auto simp: zeros_def)
    moreover have "piece ?m q (length (zeros n)) = resized bs n"
    proof (rule nth_equalityI)
      fix i assume i: "i < length (piece ?m q (length (zeros n)))"
      have "bytes st1 (p + i) = bs ! i" if "i < length bs" using arg_cong [OF old(2), of "\<lambda>xs. xs ! i"] that by simp
      moreover have "bytes st1 (q + i) = 0" using arg_cong [OF new(2), of "\<lambda>xs. xs ! i"] i by (simp add: zeros_def)
      ultimately show "piece ?m q (length (zeros n)) ! i = resized bs n ! i"
        using i by (auto simp: resized_def zeros_def nth_append min_def)
    qed (simp add: resized_def zeros_def)
    ultimately have moved: "heap_abs (memcpy q p ?c st1) (?B(q \<mapsto> resized bs n))" using copy by simp
    have fields: "pstart (memcpy q p ?c st1) = pstart st" "pend (memcpy q p ?c st1) = pend st" using 2(5,6) by (simp_all add: memcpy_def)
    obtain st' where st': "ml_free fuel (Some p) (memcpy q p ?c st1) = Some st'" "heap_abs st' (?B(q \<mapsto> resized bs n, p := None))"
      "pstart st' = pstart st" "pend st' = pend st"
      using abs_free [OF moved, of p bs fuel] p pq fuel fields by auto
    have "?B(q \<mapsto> resized bs n, p := None) = B(p := None, q \<mapsto> resized bs n)" using pq by (auto simp: fun_eq_iff)
    moreover have "min (length bs + ml_offset) (n + ml_offset) - ml_offset = ?c" by simp
    then have "ml_realloc fuel (Some p) sz st = Some (Some q, st')"
      using sz(2) 2(1) st'(1) old(1) new(1) by (simp add: ml_realloc_def Let_def)
    ultimately show ?thesis using st'(2-4) 2(2,3) by fastforce
  qed
qed

lemma abs_initial:
  assumes "pstart st = base" "pcurr st = base" "base \<le> pend st" "pend st + 2 ^ 33 \<le> SIZE_MOD"
  shows "heap_abs (ml_initialize base st) (\<lambda>_. None)"
proof -
  have "chain (nxt (ml_initialize base st)) (prv (ml_initialize base st)) None [h] None" if "is_head h" for h
    using that by (auto simp: ml_initialize_def is_head_def)
  then have "heap_ok (ml_initialize base st) (\<lambda>_. None) (\<lambda>_. [])"
    using assms by (intro heap_okI) (simp_all add: free_lists_def ml_initialize_def pool_ok_def tiles_empty)
  moreover have "live_of (\<lambda>_. None) = (\<lambda>_. None)" by (simp add: live_of_def fun_eq_iff)
  moreover have "accounted (ml_initialize base st) (\<lambda>_. None)"
    using assms by (simp add: accounted_def in_use_def ml_initialize_def)
  moreover have "(\<lambda>_. None) = pieces_of (ml_initialize base st) (\<lambda>_. None)" by (simp add: pieces_of_def fun_eq_iff)
  ultimately show ?thesis unfolding heap_abs_def by metis
qed

section \<open>Clients\<close>

text \<open>A client that makes the requests of a list one after the other, skipping those that it must not
  make: freeing or writing what it does not hold. The size of a new piece is the word before it.\<close>

fun effect :: "request \<Rightarrow> nat option \<Rightarrow> nat \<Rightarrow> pieces \<Rightarrow> pieces" where
  "effect (Alloc sz) None n B = B"
| "effect (Alloc sz) (Some q) n B = B(q \<mapsto> zeros n)"
| "effect (Free p) res n B = B(p := None)"
| "effect (Realloc p sz) None n B = (if sz = 0 then B(p := None) else B)"
| "effect (Realloc p sz) (Some q) n B = B(p := None, q \<mapsto> resized (the (B p)) n)"
| "effect (Write p i w) res n B = B(p \<mapsto> (the (B p))[i := w])"

fun execute :: "(request \<Rightarrow> 'h \<Rightarrow> (nat option \<times> 'h) option) \<Rightarrow> (nat \<Rightarrow> 'h \<Rightarrow> nat) \<Rightarrow> request list \<Rightarrow> 'h \<times> pieces \<Rightarrow>
    ('h \<times> pieces) option" where
  "execute step usable [] hB = Some hB"
| "execute step usable (r # rs) (h, B) =
    (if allowed B r then
       (case step r h of
          None \<Rightarrow> None
        | Some (res, h') \<Rightarrow>
            execute step usable rs (h', effect r res (case res of None \<Rightarrow> 0 | Some q \<Rightarrow> usable q h') B))
     else execute step usable rs (h, B))"

fun touches :: "nat \<Rightarrow> request \<Rightarrow> bool" where
  "touches p (Alloc sz) \<longleftrightarrow> False"
| "touches p (Free q) \<longleftrightarrow> q = p"
| "touches p (Realloc q sz) \<longleftrightarrow> q = p"
| "touches p (Write q i w) \<longleftrightarrow> q = p"

text \<open>The requests that the state refuses to none but give no piece leave everything as it is.\<close>

locale memory =
  fixes abs :: "'h \<Rightarrow> pieces \<Rightarrow> bool" and step :: "request \<Rightarrow> 'h \<Rightarrow> (nat option \<times> 'h) option"
    and usable :: "nat \<Rightarrow> 'h \<Rightarrow> nat" and mem :: "'h \<Rightarrow> nat \<Rightarrow> 8 word"
  assumes serve: "abs h B \<Longrightarrow> allowed B r \<Longrightarrow> \<exists>res h' B'. step r h = Some (res, h') \<and> serves B r res B' \<and> abs h' B'"
    and content: "abs h B \<Longrightarrow> B p = Some bs \<Longrightarrow> bs = piece (mem h) p (length bs)"
    and usable: "abs h B \<Longrightarrow> B p = Some bs \<Longrightarrow> usable p h = length bs"
begin

lemma step_effect:
  assumes "abs h B" "allowed B r"
  shows "\<exists>res h'. step r h = Some (res, h') \<and> abs h' (effect r res (case res of None \<Rightarrow> 0 | Some q \<Rightarrow> usable q h') B) \<and>
    (\<forall>p bs. B p = Some bs \<longrightarrow> \<not> touches p r \<longrightarrow> effect r res (case res of None \<Rightarrow> 0 | Some q \<Rightarrow> usable q h') B p = Some bs)"
proof -
  obtain res h' B' where s: "step r h = Some (res, h')" "serves B r res B'" "abs h' B'" using serve [OF assms] by blast
  have "B' = effect r res (case res of None \<Rightarrow> 0 | Some q \<Rightarrow> usable q h') B \<and> (\<forall>p bs. B p = Some bs \<longrightarrow> \<not> touches p r \<longrightarrow> B' p = Some bs)"
    using s(2)
  proof cases
    case (allocated q sz n)
    then have "usable q h' = n" using usable [OF s(3), of q "zeros n"] by (simp add: zeros_def)
    then show ?thesis using allocated by auto
  next
    case (moved p bs q sz n)
    then have "usable q h' = n" using usable [OF s(3), of q "resized bs n"] by (simp add: resized_def zeros_def)
    then show ?thesis using moved by auto
  qed auto
  then show ?thesis using s by blast
qed

text \<open>Every client runs to its end, and pieces that it does not touch keep their content.\<close>

lemma execute_safe:
  assumes "abs h B"
  shows "\<exists>h' B'. execute step usable rs (h, B) = Some (h', B') \<and> abs h' B' \<and>
    (\<forall>p bs. B p = Some bs \<longrightarrow> (\<forall>r \<in> set rs. \<not> touches p r) \<longrightarrow> B' p = Some bs \<and> piece (mem h') p (length bs) = bs)"
  using assms
proof (induction rs arbitrary: h B)
  case Nil
  then show ?case using content [OF Nil] by fastforce
next
  case (Cons r rs)
  show ?case
  proof (cases "allowed B r")
    case True
    obtain res h1 where s: "step r h = Some (res, h1)" "abs h1 (effect r res (case res of None \<Rightarrow> 0 | Some q \<Rightarrow> usable q h1) B)"
      "\<And>p bs. B p = Some bs \<Longrightarrow> \<not> touches p r \<Longrightarrow> effect r res (case res of None \<Rightarrow> 0 | Some q \<Rightarrow> usable q h1) B p = Some bs"
      using step_effect [OF Cons.prems True] by blast
    show ?thesis using Cons.IH [OF s(2)] s(1,3) True by (auto simp del: effect.simps)
  next
    case False
    then show ?thesis using Cons.IH [OF Cons.prems] by auto
  qed
qed

end

section \<open>The functions of the database\<close>

fun database_request :: "nat \<Rightarrow> request \<Rightarrow> ml_info \<Rightarrow> (nat option \<times> ml_info) option" where
  "database_request fuel (Alloc sz) st = ov_database_malloc fuel True sz st"
| "database_request fuel (Free p) st = map_option (Pair None) (ov_database_free fuel True (Some p) st)"
| "database_request fuel (Realloc p sz) st = ov_database_realloc fuel True (Some p) sz st"
| "database_request fuel (Write p i w) st = Some (None, st\<lparr>bytes := (bytes st)(p + i := w)\<rparr>)"

definition usable_size :: "nat \<Rightarrow> ml_info \<Rightarrow> nat" where
  "usable_size p st = snd (ml_getFragmentData p st) - ml_offset"

text \<open>The pieces are there, and the fuel is enough for the whole pool.\<close>

definition database_abs :: "nat \<Rightarrow> ml_info \<Rightarrow> pieces \<Rightarrow> bool" where
  "database_abs fuel st B \<longleftrightarrow> heap_abs st B \<and> pend st - pstart st \<le> fuel"

lemma abs_write:
  assumes "heap_abs st B" "B p = Some bs" "i < length bs"
  shows "heap_abs (st\<lparr>bytes := (bytes st)(p + i := w)\<rparr>) (B(p \<mapsto> bs[i := w]))"
proof -
  have "bs ! j = bytes st (p + j)" if "j < length bs" for j
    using arg_cong [OF abs_content(2) [OF assms(1,2)], of "\<lambda>xs. xs ! j"] that by simp
  then have "piece ((bytes st)(p + i := w)) p (length bs) = bs[i := w]"
    by (intro nth_equalityI) (auto simp: nth_list_update)
  moreover have "heap_abs (st\<lparr>bytes := (bytes st)(p + i := w)\<rparr>) (B(p \<mapsto> piece ((bytes st)(p + i := w)) p (length bs)))"
    by (rule abs_change [OF assms(1,2)]) (use assms(3) in auto)
  ultimately show ?thesis by simp
qed

lemma database_serve:
  assumes a: "database_abs fuel st B" and r: "allowed B r"
  shows "\<exists>res st' B'. database_request fuel r st = Some (res, st') \<and> serves B r res B' \<and> database_abs fuel st' B'"
proof -
  have abs: "heap_abs st B" and fuel: "pend st - pstart st \<le> fuel" using a by (simp_all add: database_abs_def)
  show ?thesis
  proof (cases r)
    case (Alloc sz)
    have "unat sz < 2 ^ 32" using unsigned_less [of sz] by simp
    from abs_malloc [OF abs this fuel] show ?thesis
      using a fuel allocated [of B _ sz] refused [of B sz] unfolding Alloc database_abs_def
      by (simp add: ov_database_malloc_def) metis
  next
    case (Free p)
    then obtain bs where bs: "B p = Some bs" using r by auto
    from abs_free [OF abs bs fuel] show ?thesis
      using fuel freed [of B p bs] bs by (auto simp: Free ov_database_free_def database_abs_def)
  next
    case (Realloc p sz)
    then obtain bs where bs: "B p = Some bs" using r by auto
    show ?thesis
    proof (cases "sz = 0")
      case True
      from abs_free [OF abs bs fuel] show ?thesis
        using fuel freed_by_realloc [of B p bs] bs
        by (auto simp: Realloc True ov_database_realloc_def ml_realloc_def database_abs_def)
    next
      case False
      have "unat sz < 2 ^ 32" "unat sz \<noteq> 0" using unsigned_less [of sz] False by (simp_all add: unat_eq_0)
      from abs_realloc [OF abs bs this fuel] show ?thesis
        using a fuel bs False moved [where B = B and p = p and bs = bs and sz = sz] not_moved [where B = B and p = p and bs = bs and sz = sz] unfolding Realloc database_abs_def
        by (simp add: ov_database_realloc_def) metis
    qed
  next
    case (Write p i w)
    then obtain bs where bs: "B p = Some bs" "i < length bs" using r by (auto split: option.splits)
    then show ?thesis
      using abs_write [OF abs bs] written [of B p bs i w] fuel by (auto simp: Write database_abs_def)
  qed
qed

interpretation db: memory "database_abs fuel" "database_request fuel" usable_size bytes for fuel
proof
  show "database_abs fuel h B \<Longrightarrow> allowed B r \<Longrightarrow>
    \<exists>res h' B'. database_request fuel r h = Some (res, h') \<and> serves B r res B' \<and> database_abs fuel h' B'" for h B r
    by (rule database_serve)
  show "database_abs fuel h B \<Longrightarrow> B p = Some bs \<Longrightarrow> bs = piece (bytes h) p (length bs)" for h B p bs
    unfolding database_abs_def using abs_content(2) by blast
  show "database_abs fuel h B \<Longrightarrow> B p = Some bs \<Longrightarrow> usable_size p h = length bs" for h B p bs
    unfolding database_abs_def usable_size_def using abs_content(1) by fastforce
qed

section \<open>Accounting\<close>

text \<open>The bytes of the pieces, each with the word before it.\<close>

definition held :: "pieces \<Rightarrow> nat" where
  "held B = (\<Sum>p\<in>dom B. length (the (B p)) + ml_offset)"

lemma held_in_use:
  assumes ok: "heap_ok st reg L"
  shows "held (pieces_of st (live_of reg)) = in_use (live_of reg)"
proof -
  let ?B = "pieces_of st (live_of reg)"
  have dom: "dom ?B = (\<lambda>a. a + ml_offset) ` dom (live_of reg)"
    by (auto simp: dom_def pieces_of_Some image_iff)
  have "held ?B = (\<Sum>a\<in>dom (live_of reg). length (the (?B (a + ml_offset))) + ml_offset)"
    unfolding held_def dom by (subst sum.reindex) (auto simp: inj_on_def)
  also have "\<dots> = in_use (live_of reg)"
    unfolding in_use_def
  proof (rule sum.cong)
    fix a assume "a \<in> dom (live_of reg)"
    then obtain s where "live_of reg a = Some s" "32 \<le> s" using live_size [OF ok] by blast
    then show "length (the (?B (a + ml_offset))) + ml_offset = the (live_of reg a)" by (simp add: pieces_of_def)
  qed simp
  finally show ?thesis .
qed

text \<open>What is in use fits into the heap, since no two pieces overlap.\<close>

lemma in_use_bound:
  assumes ok: "heap_ok st reg L"
  shows "in_use (live_of reg) \<le> pcurr st - pstart st"
proof -
  let ?live = "live_of reg" and ?I = "\<lambda>a. {a..<a + the (live_of reg a)}"
  have fin: "finite (dom ?live)" by (rule live_finite [OF ok])
  have "in_use ?live = (\<Sum>a\<in>dom ?live. card (?I a))" by (simp add: in_use_def)
  also have "\<dots> = card (\<Union>a\<in>dom ?live. ?I a)"
  proof (rule card_UN_disjoint [symmetric, OF fin])
    show "\<forall>a\<in>dom ?live. \<forall>b\<in>dom ?live. a \<noteq> b \<longrightarrow> ?I a \<inter> ?I b = {}"
      using live_apart [OF ok] by fastforce
  qed simp
  also have "\<dots> \<le> card {pstart st..<pcurr st}"
  proof (rule card_mono)
    show "(\<Union>a\<in>dom ?live. ?I a) \<subseteq> {pstart st..<pcurr st}"
    proof
      fix x assume "x \<in> (\<Union>a\<in>dom ?live. ?I a)"
      then obtain a s where "live_of reg a = Some s" "a \<le> x" "x < a + s" by fastforce
      then have "reg a = Some (Live s)" "a \<le> x" "x < a + s" by (simp_all add: live_of_Some)
      then show "x \<in> {pstart st..<pcurr st}"
        using tilesD(1,2) [OF heap_okD(3) [OF ok], of a "Live s"] heap_okD(2) [OF ok] by (auto simp: pool_ok_def)
    qed
  qed simp
  finally show ?thesis by simp
qed

lemma word64_nat: "n < SIZE_MOD \<Longrightarrow> unat (of_nat n :: 64 word) = n"
  by (simp add: unat_of_nat)

lemma word64_small: "n < 2 ^ 32 \<Longrightarrow> \<not> 0xffffffff < (of_nat n :: 64 word) \<and> unat (ucast (of_nat n :: 64 word) :: 32 word) = n"
  by (simp add: word_less_nat_alt word64_nat unsigned_ucast_eq take_bit_nat_def unat_of_nat)

section \<open>Properties\<close>

text \<open>
  A database of eight blocks, and a piece of it.
\<close>

definition demo_memory :: ml_info where
  "demo_memory = ml_initialize 4096 \<lparr>heapbase = 0, heapend = 0, bytes_free = 0, bytes_used = 0, len = \<lambda>_. 7,
     nxt = \<lambda>_. None, prv = \<lambda>_. None, bytes = \<lambda>_. 255, pstart = 4096, pcurr = 4096, pend = 36864\<rparr>"

lemma demo_memory_abs: "heap_abs demo_memory (\<lambda>_. None)" "pend demo_memory - pstart demo_memory \<le> 40000"
  unfolding demo_memory_def by (rule abs_initial) (simp_all add: ml_initialize_def)

definition demo_memory1 :: ml_info where
  "demo_memory1 = snd (the (ov_database_malloc 40000 True 5000 demo_memory))"

lemma demo_malloc: "ov_database_malloc 40000 True 5000 demo_memory = Some (Some 4104, demo_memory1)"
  unfolding demo_memory1_def
  by (simp add: ov_database_malloc_def ml_malloc_def Let_def request_size_def BLOCKIFY_def get_blocks_def
      ml_malloc_getfreeblock_def demo_memory_def ml_initialize_def morecore_def ov_database_morecore_def)

lemma demo_piece: "database_abs 40000 demo_memory1 ((\<lambda>_. None)(4104 \<mapsto> zeros 8184))"
proof -
  have m: "ml_malloc 40000 5000 demo_memory = Some (Some 4104, demo_memory1)"
    using demo_malloc by (simp add: ov_database_malloc_def)
  from abs_malloc [OF demo_memory_abs(1), of 5000 40000] demo_memory_abs(2) m obtain n where
    n: "heap_abs demo_memory1 ((\<lambda>_. None)(4104 \<mapsto> zeros n))" "pstart demo_memory1 = pstart demo_memory" "pend demo_memory1 = pend demo_memory"
    by auto
  have "len demo_memory1 4096 = 8192"
    unfolding demo_memory1_def
    by (simp add: ov_database_malloc_def ml_malloc_def Let_def request_size_def BLOCKIFY_def get_blocks_def
        ml_malloc_getfreeblock_def demo_memory_def ml_initialize_def morecore_def ov_database_morecore_def)
  then have "n = 8184" using abs_content(1) [OF n(1), of 4104 "zeros n"] by (simp add: ml_getFragmentData_def zeros_def)
  then show ?thesis using n demo_memory_abs(2) by (simp add: database_abs_def)
qed

text \<open>C11: Allocating in the database refines the abstract memory, a map from the addresses of the pieces in
  use to their content. The call always returns. It refuses and changes nothing, or it gives a piece of at
  least the requested size that is full of zeros, was not in use, lies inside the pool and overlaps no
  other piece, and all other pieces keep their content.\<close>

theorem database_malloc_gives_fresh_zeros:
  assumes "database_abs fuel st B"
  shows "ov_database_malloc fuel True sz st = Some (None, st) \<or>
    (\<exists>q n st'. ov_database_malloc fuel True sz st = Some (Some q, st') \<and> B q = None \<and> unat sz \<le> n \<and>
       database_abs fuel st' (B(q \<mapsto> zeros n)) \<and>
       (\<forall>p bs. B p = Some bs \<longrightarrow> p + length bs \<le> q \<or> q + n \<le> p) \<and> pstart st \<le> q \<and> q + n \<le> pend st)"
proof -
  have abs: "heap_abs st B" "pend st - pstart st \<le> fuel" using assms by (simp_all add: database_abs_def)
  have sz: "unat sz < 2 ^ 32" using unsigned_less [of sz] by simp
  consider "ml_malloc fuel (unat sz) st = Some (None, st)"
    | q n st' where "ml_malloc fuel (unat sz) st = Some (Some q, st')" "B q = None" "unat sz \<le> n" "heap_abs st' (B(q \<mapsto> zeros n))"
       "pstart st' = pstart st" "pend st' = pend st"
    using abs_malloc [OF abs(1) sz abs(2)] by blast
  then show ?thesis
  proof cases
    case 1
    then show ?thesis by (simp add: ov_database_malloc_def)
  next
    case 2
    have "p + length bs \<le> q \<or> q + n \<le> p" if "B p = Some bs" for p bs
      using pieces_apart [OF 2(4), of p bs q "zeros n"] that 2(2) by (cases "p = q") (auto simp: zeros_def)
    moreover have "pstart st \<le> q" "q + n \<le> pend st"
      using pieces_inside [OF 2(4), of q "zeros n"] 2(5,6) by (simp_all add: zeros_def)
    ultimately show ?thesis using 2 abs(2) by (auto simp: ov_database_malloc_def database_abs_def)
  qed
qed

theorem database_malloc_gives_fresh_zeros_witness:
  "\<exists>n st'. ov_database_malloc 40000 True 5000 demo_memory = Some (Some 4104, st') \<and> 5000 \<le> n \<and>
     database_abs 40000 st' ((\<lambda>_. None)(4104 \<mapsto> zeros n))"
  using database_malloc_gives_fresh_zeros [of 40000 demo_memory "\<lambda>_. None" 5000] demo_memory_abs demo_malloc
  by (auto simp: database_abs_def)



text \<open>C13: Reallocating to a size other than zero either refuses and leaves the old piece as it is, or
  gives a new piece of at least the requested size that begins with the content of the old one, cut off
  or filled up with zeros, and the old piece is free.\<close>

theorem database_realloc_keeps_content:
  assumes "database_abs fuel st B" "B p = Some bs" "sz \<noteq> 0"
  shows "ov_database_realloc fuel True (Some p) sz st = Some (None, st) \<or>
    (\<exists>q n st'. ov_database_realloc fuel True (Some p) sz st = Some (Some q, st') \<and> B q = None \<and> unat sz \<le> n \<and>
       database_abs fuel st' (B(p := None, q \<mapsto> resized bs n)))"
proof -
  have "unat sz < 2 ^ 32" "unat sz \<noteq> 0" using unsigned_less [of sz] assms(3) by (simp_all add: unat_eq_0)
  from abs_realloc [where st = st and B = B and p = p and bs = bs and sz = "unat sz" and fuel = fuel] this assms(1,2) show ?thesis
    by (auto simp: ov_database_realloc_def database_abs_def)
qed

theorem database_realloc_keeps_content_witness:
  "ov_database_realloc 40000 True (Some 4104) 9000 demo_memory1 = Some (None, demo_memory1) \<or>
    (\<exists>q n st'. ov_database_realloc 40000 True (Some 4104) 9000 demo_memory1 = Some (Some q, st') \<and> 9000 \<le> n \<and>
       database_abs 40000 st' ((\<lambda>_. None)(q \<mapsto> resized (zeros 8184) n)))"
proof -
  have "((\<lambda>_. None)(4104 \<mapsto> zeros 8184)) 4104 = Some (zeros 8184)" by simp
  from database_realloc_keeps_content [OF demo_piece this, of 9000] show ?thesis by fastforce
qed

text \<open>C10: A client may make any sequence of requests (allocate, free, reallocate, write into its pieces):
  every call returns, the memory stays consistent with the map of the pieces, and a piece that no request
  of the sequence names has the same content in the memory at the end.\<close>

theorem database_clients_safe:
  assumes "database_abs fuel st B"
  shows "\<exists>st' B'. execute (database_request fuel) usable_size rs (st, B) = Some (st', B') \<and> database_abs fuel st' B' \<and>
    (\<forall>p bs. B p = Some bs \<longrightarrow> (\<forall>r \<in> set rs. \<not> touches p r) \<longrightarrow> B' p = Some bs \<and> piece (bytes st') p (length bs) = bs)"
  using assms by (rule db.execute_safe)

theorem database_clients_safe_witness:
  "\<exists>st' B'. execute (database_request 40000) usable_size [Alloc 100, Realloc 4104 30000, Alloc 20, Write 5000 0 1] (demo_memory1, (\<lambda>_. None)(4104 \<mapsto> zeros 8184)) = Some (st', B') \<and>
    database_abs 40000 st' B'"
  using database_clients_safe [OF demo_piece] by blast

text \<open>C14: The statistics of the database are exact: the memory in use is the administration at its
  beginning plus the pieces of the clients, each with the word before it, and used and free memory add up
  to the whole database, as long as it is smaller than 4 GB.\<close>

theorem database_memory_accounted:
  assumes "database_abs fuel st B" "baseaddr \<le> pstart st" "pend st - baseaddr < 2 ^ 32"
  shows "unat (ov_database_getused baseaddr st) = (pstart st - baseaddr) + held B \<and>
    unat (ov_database_getused baseaddr st) + unat (ov_database_getfree st) = pend st - baseaddr"
proof -
  obtain reg L where ok: "heap_ok st reg L" "B = pieces_of st (live_of reg)" "accounted st (live_of reg)"
    using assms(1) by (auto simp: heap_abs_def database_abs_def)
  have h: "held B = in_use (live_of reg)" using held_in_use [OF ok(1)] ok(2) by simp
  have bound: "held B \<le> pend st - pstart st" and order: "pstart st \<le> pend st"
    using in_use_bound [OF ok(1)] heap_okD(2) [OF ok(1)] h by (auto simp: pool_ok_def)
  let ?u = "pstart st - baseaddr + held B" and ?f = "pend st - pstart st - held B"
  have lt: "?u < 2 ^ 32" "?f < 2 ^ 32" "?u + ?f = pend st - baseaddr" using bound order assms(2,3) by linarith+
  have "of_nat (pstart st) - of_nat baseaddr + bytes_used st - bytes_free st = (of_nat ?u :: 64 word)"
    using ok(3) h assms(2) by (simp add: accounted_def of_nat_diff algebra_simps)
  then have u: "unat (ov_database_getused baseaddr st) = ?u"
    using word64_small [OF lt(1)] by (simp add: ov_database_getused_def Let_def)
  have "bytes_free st = of_nat (pcurr st) - of_nat (pstart st) - (of_nat (held B) :: 64 word)"
    using ok(3) h unfolding accounted_def by (auto simp: algebra_simps)
  then have "of_nat (pend st) - of_nat (pcurr st) + bytes_free st = (of_nat ?f :: 64 word)"
    using bound order by (simp add: of_nat_diff)
  then have f: "unat (ov_database_getfree st) = ?f"
    using word64_small [OF lt(2)] by (simp add: ov_database_getfree_def Let_def)
  show ?thesis using u f lt(3) by simp
qed

theorem database_memory_accounted_witness:
  "unat (ov_database_getused 0 demo_memory1) = 4096 + 8192 \<and> unat (ov_database_getused 0 demo_memory1) + unat (ov_database_getfree demo_memory1) = 36864"
proof -
  have f: "pstart demo_memory1 = 4096" "pend demo_memory1 = 36864"
    unfolding demo_memory1_def
    by (simp_all add: ov_database_malloc_def ml_malloc_def Let_def request_size_def BLOCKIFY_def get_blocks_def
        ml_malloc_getfreeblock_def demo_memory_def ml_initialize_def morecore_def ov_database_morecore_def)
  then show ?thesis using database_memory_accounted [OF demo_piece, of 0] by (simp add: held_def zeros_def)
qed

end
