(* ===== verification/OvObject.thy ===== *)
theory OvObject
  imports OvIdList OvTime OvDll OvAssociation OvPercent
begin

text \<open>
  core/ov/source/libov/ov_class.c and ov_object.c: creating, deleting and renaming objects. The links
  are the lists that OvAssociation and OvAssociationNM refine to (the children of a parent and the
  parents of a child, in their order), the id list is the list of its relations, in ascending order, as
  OvIdList has them. The classes with their elements (as OvParts enumerates them) and the methods of
  the vtables are the record \<open>classes\<close>: a method works on the \<open>world\<close>, the states and variables of
  the objects, and leaves the objects themselves and their links alone. Recursions that may not end
  have the result \<open>None\<close>, as has the abort of the server by \<open>Ov_AbortIfNot\<close>. Objects that are classes or
  associations are not deleted here (they have static variables or tables of their own).
\<close>

section \<open>State\<close>

datatype assocptr = Containment | Instantiation | Assoc nat

text \<open>A variable definition: name, \<open>varprops\<close>, \<open>vartype\<close>, \<open>veclen\<close>, and the members of a structure.\<close>

datatype variable = Variable string OV_UINT OV_UINT nat "variable list"

datatype elem = Part nat classptr string | Var variable | Parentlink assocptr | Childlink assocptr

record object_head =
  h_identifier :: string
  h_creationtime :: OV_TIME
  h_pouterobject :: "objptr option"
  h_id :: "64 word"

text \<open>\<open>owned\<close>: the pieces of database memory that a variable of an object holds, by the path of its
  name; \<open>blocks\<close>: the pieces that hold objects.\<close>

record objtree =
  heads :: "objptr \<Rightarrow> object_head option"
  linktable :: "objptr \<Rightarrow> bool"
  linked :: "assocptr \<Rightarrow> objptr \<Rightarrow> objptr list"
  parents :: "assocptr \<Rightarrow> objptr \<Rightarrow> objptr list"
  idlist :: "(64 word \<times> objptr) list"
  owned :: "objptr \<Rightarrow> string list \<Rightarrow> nat list"
  blocks :: "objptr \<Rightarrow> nat option"

text \<open>\<open>allocs\<close>: what the next calls of the allocator return (\<open>NULL\<close> when the list is used up); \<open>id_mem\<close>:
  whether the next registrations of an id find the memory that they need.\<close>

record 'w world =
  v_objectstate :: "objptr \<Rightarrow> OV_UINT"
  queue :: "objptr list"
  idCounter :: "OV_UINT \<times> OV_UINT"
  allocs :: "objptr option list"
  id_mem :: "bool list"
  vals :: 'w

type_synonym 'w ovdb = "objtree \<times> 'w world"

record 'w classes =
  elements :: "classptr \<Rightarrow> elem list"
  v_size :: "classptr \<Rightarrow> nat"
  v_classprops :: "classptr \<Rightarrow> OV_UINT"
  has_vtable :: "classptr \<Rightarrow> bool"
  class_class :: "classptr \<Rightarrow> bool"
  domain_class :: "classptr \<Rightarrow> bool"
  m_constructor :: "classptr option \<Rightarrow> objptr \<Rightarrow> 'w world \<Rightarrow> OV_RESULT \<times> 'w world"
  m_checkinit :: "classptr option \<Rightarrow> objptr \<Rightarrow> 'w world \<Rightarrow> OV_RESULT \<times> 'w world"
  m_startup :: "classptr option \<Rightarrow> objptr \<Rightarrow> 'w world \<Rightarrow> 'w world"
  m_shutdown :: "classptr option \<Rightarrow> objptr \<Rightarrow> 'w world \<Rightarrow> 'w world"
  m_destructor :: "classptr option \<Rightarrow> objptr \<Rightarrow> 'w world \<Rightarrow> 'w world"
  m_rename :: "classptr option \<Rightarrow> objptr \<Rightarrow> string \<Rightarrow> objptr \<Rightarrow> OV_RESULT"
  unlink_effect :: "assocptr \<Rightarrow> objptr \<Rightarrow> objptr \<Rightarrow> 'w world \<Rightarrow> 'w world"
  maxHierarchyDepth :: OV_UINT
  maxNameLength :: OV_UINT
  maxStringLength :: OV_UINT
  ov_activitylock :: bool

definition OV_OS_NONE :: OV_UINT where "OV_OS_NONE = 0"
definition OV_OS_INIT :: OV_UINT where "OV_OS_INIT = 1"
definition OV_OS_STARTED :: OV_UINT where "OV_OS_STARTED = 2"
definition OV_OS_ACTIVE :: OV_UINT where "OV_OS_ACTIVE = 4"

text \<open>The macros for the one parent; without a link table there is none.\<close>

definition Ov_GetParent :: "objtree \<Rightarrow> assocptr \<Rightarrow> objptr \<Rightarrow> objptr option" where
  "Ov_GetParent s a p = (if linktable s p then hd_or (parents s a p) None else None)"

abbreviation Ov_GetClassPtr :: "objtree \<Rightarrow> objptr \<Rightarrow> classptr option" where
  "Ov_GetClassPtr s p \<equiv> Ov_GetParent s Instantiation p"

definition outer_object :: "objtree \<Rightarrow> objptr \<Rightarrow> objptr option" where
  "outer_object s p = (case heads s p of None \<Rightarrow> None | Some h \<Rightarrow> h_pouterobject h)"

definition set_linked :: "assocptr \<Rightarrow> objptr \<Rightarrow> objptr list \<Rightarrow> objtree \<Rightarrow> objtree" where
  "set_linked a p xs s = s\<lparr>linked := (linked s)(a := (linked s a)(p := xs))\<rparr>"

definition set_parents :: "assocptr \<Rightarrow> objptr \<Rightarrow> objptr list \<Rightarrow> objtree \<Rightarrow> objtree" where
  "set_parents a c xs s = s\<lparr>parents := (parents s)(a := (parents s a)(c := xs))\<rparr>"

text \<open>The effect of \<open>ov_association_unlink\<close> and \<open>ov_association_dolink\<close> on the lists.\<close>

definition unlink :: "assocptr \<Rightarrow> objptr \<Rightarrow> objptr \<Rightarrow> objtree \<Rightarrow> objtree" where
  "unlink a p c s =
    set_parents a c (removeAll p (parents s a c)) (set_linked a p (removeAll c (linked s a p)) s)"

definition dolink :: "assocptr \<Rightarrow> objptr \<Rightarrow> objptr \<Rightarrow> objtree \<Rightarrow> objtree" where
  "dolink a p c s = set_parents a c [p] (set_linked a p (linked s a p @ [c]) s)"

definition next_alloc :: "'w world \<Rightarrow> objptr option \<times> 'w world" where
  "next_alloc w = (case allocs w of [] \<Rightarrow> (None, w) | r # rs \<Rightarrow> (r, w\<lparr>allocs := rs\<rparr>))"

section \<open>Cleaning up\<close>

text \<open>The memory of variables: strings, any values, dynamic vectors, and vectors of strings.\<close>

definition OV_VT_STRING :: OV_UINT where "OV_VT_STRING = 0x30"
definition OV_VT_ANY :: OV_UINT where "OV_VT_ANY = 0xff"
definition OV_VT_STRING_VEC :: OV_UINT where "OV_VT_STRING_VEC = 0xb0"

definition var_frees :: "OV_UINT \<Rightarrow> nat \<Rightarrow> bool" where
  "var_frees vartype veclen =
    (let t = vartype AND OV_VT_KSMASK
     in if veclen = 1 then t = OV_VT_STRING \<or> t = OV_VT_ANY
        else if veclen = 0 then True
        else t = OV_VT_STRING_VEC)"

definition free_owned :: "objptr \<Rightarrow> string list \<Rightarrow> objtree \<Rightarrow> objtree" where
  "free_owned p path s = s\<lparr>owned := (owned s)(p := (owned s p)(path := []))\<rparr>"

fun ov_class_deleteobject_cleanupstruct :: "objptr \<Rightarrow> string list \<Rightarrow> variable list \<Rightarrow> objtree \<Rightarrow> objtree" where
  "ov_class_deleteobject_cleanupstruct p path [] s = s"
| "ov_class_deleteobject_cleanupstruct p path (Variable name props vartype veclen members # vs) s =
    ov_class_deleteobject_cleanupstruct p path vs
      (if vartype AND OV_VT_KSMASK = OV_VT_STRUCT then ov_class_deleteobject_cleanupstruct p (path @ [name]) members s
       else if var_frees vartype veclen then free_owned p (path @ [name]) s else s)"

fun cleanup_variable :: "objptr \<Rightarrow> variable \<Rightarrow> objtree \<Rightarrow> objtree" where
  "cleanup_variable p (Variable name props vartype veclen members) s =
    (if props AND (OV_VP_DERIVED OR OV_VP_STATIC) \<noteq> 0 then s
     else if vartype AND OV_VT_KSMASK = OV_VT_STRUCT then ov_class_deleteobject_cleanupstruct p [name] members s
     else if var_frees vartype veclen then free_owned p [name] s else s)"

definition release_id :: "objptr \<Rightarrow> objtree \<Rightarrow> objtree" where
  "release_id p s = (case heads s p of None \<Rightarrow> s | Some h \<Rightarrow> s\<lparr>idlist := filter (\<lambda>(i, q). i \<noteq> h_id h) (idlist s)\<rparr>)"

text \<open>\<open>Ov_DbFree\<close> of an object: the objects in the piece are gone.\<close>

definition free_object :: "objptr \<Rightarrow> objtree \<Rightarrow> objtree" where
  "free_object p s =
    (case blocks s p of
       None \<Rightarrow> s
     | Some n \<Rightarrow> s\<lparr>heads := (\<lambda>q. if p \<le> q \<and> q < p + n then None else heads s q), blocks := (blocks s)(p := None)\<rparr>)"

definition drop_linktable :: "objptr \<Rightarrow> objtree \<Rightarrow> objtree" where
  "drop_linktable p s = s\<lparr>linktable := (linktable s)(p := False)\<rparr>"

definition unregister :: "objptr \<Rightarrow> 'w world \<Rightarrow> 'w world" where
  "unregister p w =
    (if p \<in> set (queue w)
     then w\<lparr>queue := remove1 p (queue w), v_objectstate := (v_objectstate w)(p := v_objectstate w p AND NOT OV_OS_ACTIVE)\<rparr>
     else w)"

text \<open>\<open>Delete p\<close> is \<open>ov_class_deleteobject\<close>, \<open>Clean p\<close> is \<open>ov_class_deleteobject_cleanupinst\<close>, \<open>Elems p es\<close>
  its loop over the elements \<open>es\<close> that are left. The default methods of \<open>ov_object\<close> serve a class
  without a vtable.\<close>

datatype deletion = Delete objptr | Clean objptr | Elems objptr "elem list"

definition finish_clean :: "objptr \<Rightarrow> objtree \<Rightarrow> objtree" where
  "finish_clean p s =
    drop_linktable p (case Ov_GetClassPtr s p of None \<Rightarrow> s | Some cls \<Rightarrow> unlink Instantiation cls p s)"

definition clean_unborn :: "objptr \<Rightarrow> objtree \<Rightarrow> objtree" where
  "clean_unborn p s =
    drop_linktable p (free_owned p [''identifier'']
      (case Ov_GetParent s Containment p of None \<Rightarrow> s | Some parent \<Rightarrow> unlink Containment parent p s))"

definition method_class :: "'w classes \<Rightarrow> objtree \<Rightarrow> objptr \<Rightarrow> classptr option" where
  "method_class env s p =
    (case Ov_GetClassPtr s p of None \<Rightarrow> None | Some cls \<Rightarrow> if has_vtable env cls then Some cls else None)"

definition end_of_life :: "'w classes \<Rightarrow> classptr option \<Rightarrow> objptr \<Rightarrow> 'w world \<Rightarrow> 'w world" where
  "end_of_life env cls p w =
    (let w = m_shutdown env cls p w;
         w = (if v_objectstate w p AND OV_OS_ACTIVE \<noteq> 0 then unregister p w else w)
     in m_destructor env cls p w)"

partial_function (option) run_deletion :: "'w classes \<Rightarrow> deletion \<Rightarrow> 'w ovdb \<Rightarrow> 'w ovdb option" where
  [code]: "run_deletion env d db =
    (case d of
       Delete p \<Rightarrow>
         if outer_object (fst db) p \<noteq> None then Some db
         else Option.bind
           (run_deletion env (Clean p) (fst db, end_of_life env (method_class env (fst db) p) p (snd db)))
           (\<lambda>db. Some (free_object p (fst db), snd db))
     | Clean p \<Rightarrow>
         (case Ov_GetClassPtr (fst db) p of
            None \<Rightarrow> Some (clean_unborn p (fst db), snd db)
          | Some cls \<Rightarrow> run_deletion env (Elems p (elements env cls)) (release_id p (fst db), snd db))
     | Elems p [] \<Rightarrow> Some (finish_clean p (fst db), snd db)
     | Elems p (e # es) \<Rightarrow>
         (case e of
            Part off cls name \<Rightarrow>
              Option.bind (run_deletion env (Clean (p + off)) db) (run_deletion env (Elems p es))
          | Var v \<Rightarrow> run_deletion env (Elems p es) (cleanup_variable p v (fst db), snd db)
          | Parentlink a \<Rightarrow>
              (case linked (fst db) a p of
                 [] \<Rightarrow> run_deletion env (Elems p es) db
               | c # cs \<Rightarrow>
                   if a = Containment
                   then Option.bind (run_deletion env (Delete c) db) (run_deletion env (Elems p (e # es)))
                   else run_deletion env (Elems p (e # es)) (unlink a p c (fst db), unlink_effect env a p c (snd db)))
          | Childlink a \<Rightarrow>
              if a = Instantiation then run_deletion env (Elems p es) db
              else
                (case parents (fst db) a p of
                   [] \<Rightarrow> run_deletion env (Elems p es) db
                 | q # qs \<Rightarrow> run_deletion env (Elems p (e # es)) (unlink a q p (fst db), unlink_effect env a q p (snd db)))))"

definition ov_class_deleteobject :: "'w classes \<Rightarrow> objptr option \<Rightarrow> 'w ovdb \<Rightarrow> (OV_RESULT \<times> 'w ovdb) option" where
  "ov_class_deleteobject env pobj db =
    (case pobj of
       None \<Rightarrow> Some (OV_ERR_BADPARAM, db)
     | Some p \<Rightarrow>
         if outer_object (fst db) p \<noteq> None then Some (OV_ERR_BADPARAM, db)
         else map_option (Pair OV_ERR_OK) (run_deletion env (Delete p) db))"

section \<open>Creating\<close>

definition OV_CP_INSTANTIABLE :: OV_UINT where "OV_CP_INSTANTIABLE = 1"

definition zero_head :: object_head where
  "zero_head = \<lparr>h_identifier = [], h_creationtime = \<lparr>secs = 0, usecs = 0\<rparr>, h_pouterobject = None, h_id = 0\<rparr>"

definition set_head :: "objptr \<Rightarrow> (object_head \<Rightarrow> object_head) \<Rightarrow> objtree \<Rightarrow> objtree" where
  "set_head p f s =
    s\<lparr>heads := (heads s)(p \<mapsto> f (case heads s p of None \<Rightarrow> zero_head | Some h \<Rightarrow> h))\<rparr>"

definition identifier_of :: "objtree \<Rightarrow> objptr \<Rightarrow> string" where
  "identifier_of s p = (case heads s p of None \<Rightarrow> [] | Some h \<Rightarrow> h_identifier h)"

definition Ov_CanCastTo :: "(classptr \<Rightarrow> bool) \<Rightarrow> objtree \<Rightarrow> objptr \<Rightarrow> bool" where
  "Ov_CanCastTo casts s p = (case Ov_GetClassPtr s p of None \<Rightarrow> False | Some cls \<Rightarrow> casts cls)"

definition ov_object_identifierok :: "'w classes \<Rightarrow> string option \<Rightarrow> bool" where
  "ov_object_identifierok env identifier =
    (case identifier of
       None \<Rightarrow> False
     | Some s \<Rightarrow> s \<noteq> [] \<and> \<not> (maxNameLength env \<noteq> 0 \<and> of_nat (length s) > maxNameLength env))"

text \<open>The assignment to \<open>v_identifier\<close>, as \<open>ov_string_setvalue\<close> does it.\<close>

definition set_identifier :: "'w classes \<Rightarrow> objptr \<Rightarrow> string \<Rightarrow> 'w ovdb \<Rightarrow> OV_RESULT \<times> 'w ovdb" where
  "set_identifier env p value db =
    (let (s, w) = db
     in if value = [] then (OV_ERR_OK, free_owned p [''identifier''] (set_head p (\<lambda>h. h\<lparr>h_identifier := []\<rparr>) s), w)
        else if maxStringLength env \<noteq> 0 \<and> of_nat (length value) > maxStringLength env then (OV_ERR_BADVALUE, s, w)
        else (case next_alloc w of
            (None, w) \<Rightarrow> (OV_ERR_DBOUTOFMEMORY, s, w)
          | (Some a, w) \<Rightarrow>
              (OV_ERR_OK, (set_head p (\<lambda>h. h\<lparr>h_identifier := value\<rparr>) s)
                 \<lparr>owned := (owned s)(p := (owned s p)([''identifier''] := [a]))\<rparr>, w)))"

text \<open>\<open>ov_database_idListInsert\<close> on the list of the relations.\<close>

definition last_id :: "objtree \<Rightarrow> 64 word" where
  "last_id s = (if idlist s = [] then 0 else fst (last (idlist s)))"

definition insert_id :: "64 word \<Rightarrow> objptr \<Rightarrow> 'w ovdb \<Rightarrow> OV_RESULT \<times> 'w ovdb" where
  "insert_id i p db =
    (let (s, w) = db
     in if i > last_id s \<or> i = 0 \<and> last_id s = 0 then
          (if id_mem w = [] \<or> hd (id_mem w)
           then (OV_ERR_OK, s\<lparr>idlist := idlist s @ [(i, p)]\<rparr>, w\<lparr>id_mem := tl (id_mem w)\<rparr>)
           else (OV_ERR_DBOUTOFMEMORY, s, w\<lparr>id_mem := tl (id_mem w)\<rparr>))
        else (OV_ERR_BADVALUE, s, w))"

text \<open>The link table comes cleared.\<close>

definition new_linktable :: "objptr \<Rightarrow> objtree \<Rightarrow> objtree" where
  "new_linktable p s = s\<lparr>linktable := (linktable s)(p := True), linked := (\<lambda>a. (linked s a)(p := [])),
     parents := (\<lambda>a. (parents s a)(p := []))\<rparr>"

text \<open>\<open>ov_class_createobject_preinit\<close> up to the link with the class.\<close>

definition preinit_object :: "'w classes \<Rightarrow> OV_TIME \<Rightarrow> objptr \<Rightarrow> string \<Rightarrow> objptr option \<Rightarrow> 'w ovdb \<Rightarrow> OV_RESULT \<times> 'w ovdb" where
  "preinit_object env time p identifier pouterobj db =
    (let (s, w) = db; (table, w) = next_alloc w
     in if table = None then (OV_ERR_DBOUTOFMEMORY, drop_linktable p s, w)
        else
          (case set_identifier env p identifier (new_linktable p s, w) of
             (result, s, w) \<Rightarrow>
               if Ov_Fail result then (result, s, w)
               else
                 let (ok, (idH, idL), counter) = ov_database_getId (idCounter w);
                     i = ov_database_convertId idH idL;
                     s = set_head p (\<lambda>h. h\<lparr>h_creationtime := time, h_pouterobject := pouterobj, h_id := i\<rparr>) s;
                     w = w\<lparr>v_objectstate := (v_objectstate w)(p := OV_OS_NONE), idCounter := counter\<rparr>
                 in if \<not> ok then (OV_ERR_DBOUTOFMEMORY, s, w) else insert_id i p (s, w)))"

text \<open>\<open>Preinit\<close> is \<open>ov_class_createobject_preinit\<close>, \<open>Parts\<close> its loop over the parts.\<close>

datatype creation = Preinit classptr objptr string "objptr option" | Parts objptr "elem list"

partial_function (option) run_preinit :: "'w classes \<Rightarrow> OV_TIME \<Rightarrow> creation \<Rightarrow> 'w ovdb \<Rightarrow> (OV_RESULT \<times> 'w ovdb) option" where
  [code]: "run_preinit env time d db =
    (case d of
       Preinit cls p identifier pouterobj \<Rightarrow>
         (case preinit_object env time p identifier pouterobj db of
            (result, db) \<Rightarrow>
              if Ov_Fail result then Some (result, db)
              else run_preinit env time (Parts p (elements env cls)) (dolink Instantiation cls p (fst db), snd db))
     | Parts p [] \<Rightarrow> Some (OV_ERR_OK, db)
     | Parts p (e # es) \<Rightarrow>
         (case e of
            Part off cls name \<Rightarrow>
              Option.bind (run_preinit env time (Preinit cls (p + off) name (Some p)) db)
                (\<lambda>r. if Ov_Fail (fst r) then Some r else run_preinit env time (Parts p es) (snd r))
          | _ \<Rightarrow> run_preinit env time (Parts p es) db))"

definition ov_class_createobject_preinit :: "'w classes \<Rightarrow> OV_TIME \<Rightarrow> classptr \<Rightarrow> objptr \<Rightarrow> string \<Rightarrow> objptr option \<Rightarrow>
    'w ovdb \<Rightarrow> (OV_RESULT \<times> 'w ovdb) option" where
  "ov_class_createobject_preinit env time cls p identifier pouterobj = run_preinit env time (Preinit cls p identifier pouterobj)"

text \<open>The parts to visit are a stack; \<open>Ov_AbortIfNot\<close> ends the server when a part has no class.\<close>

partial_function (option) set_all_init :: "'w classes \<Rightarrow> objtree \<Rightarrow> objptr list \<Rightarrow> 'w world \<Rightarrow> 'w world option" where
  [code]: "set_all_init env s ps w =
    (case ps of
       [] \<Rightarrow> Some w
     | p # ps \<Rightarrow>
         (case Ov_GetClassPtr s p of
            None \<Rightarrow> None
          | Some cls \<Rightarrow>
              set_all_init env s (concat (map (\<lambda>e. case e of Part off cls' name \<Rightarrow> [p + off] | _ \<Rightarrow> []) (elements env cls)) @ ps)
                (w\<lparr>v_objectstate := (v_objectstate w)(p := v_objectstate w p OR OV_OS_INIT)\<rparr>)))"

definition ov_class_createobject_setinit :: "'w classes \<Rightarrow> objtree \<Rightarrow> objptr \<Rightarrow> 'w world \<Rightarrow> 'w world option" where
  "ov_class_createobject_setinit env s p = set_all_init env s [p]"

text \<open>\<open>Ov_LinkRelativePlaced\<close> for the containment, whose names are local; the callers have checked the
  class of the parent.\<close>

definition link_contained :: "objptr \<Rightarrow> objptr \<Rightarrow> OV_PLACEMENT_HINT \<Rightarrow> objptr option \<Rightarrow> objtree \<Rightarrow> OV_RESULT \<times> objtree" where
  "link_contained parent p hint prelobj s =
    (if Ov_GetParent s Containment p \<noteq> None \<or> identifier_of s p \<in> identifier_of s ` set (linked s Containment parent)
     then (OV_ERR_ALREADYEXISTS, s)
     else if hint \<in> {OV_PMH_DEFAULT, OV_PMH_BEGIN, OV_PMH_END} \<or>
       hint \<in> {OV_PMH_BEFORE, OV_PMH_AFTER} \<and> Option.bind prelobj (Ov_GetParent s Containment) = Some parent
     then (OV_ERR_OK, set_parents Containment p [parent]
            (set_linked Containment parent (place hint prelobj p (linked s Containment parent)) s))
     else if hint \<in> {OV_PMH_BEFORE, OV_PMH_AFTER} then (OV_ERR_BADPARAM, s)
     else (OV_ERR_BADPLACEMENT, s))"

definition holder :: "objtree \<Rightarrow> objptr \<Rightarrow> objptr option" where
  "holder s p = (case outer_object s p of Some q \<Rightarrow> Some q | None \<Rightarrow> Ov_GetParent s Containment p)"

partial_function (option) levels :: "objtree \<Rightarrow> objptr option \<Rightarrow> OV_UINT \<Rightarrow> OV_UINT option" where
  [code]: "levels s pobj n = (case pobj of None \<Rightarrow> Some n | Some q \<Rightarrow> levels s (holder s q) (n + 1))"

definition too_deep :: "'w classes \<Rightarrow> objtree \<Rightarrow> objptr \<Rightarrow> bool option" where
  "too_deep env s pdomain =
    (if maxHierarchyDepth env = 0 then Some False
     else map_option (\<lambda>n. n > maxHierarchyDepth env) (levels s (holder s pdomain) 1))"

text \<open>The cleared memory of a new object.\<close>

definition new_block :: "objptr \<Rightarrow> nat \<Rightarrow> objtree \<Rightarrow> objtree" where
  "new_block p n s = s\<lparr>heads := (\<lambda>q. if p \<le> q \<and> q < p + n then None else heads s q), blocks := (blocks s)(p \<mapsto> n),
     linktable := (\<lambda>q. linktable s q \<and> \<not> (p \<le> q \<and> q < p + n))\<rparr>"

definition check_creation :: "'w classes \<Rightarrow> classptr option \<Rightarrow> objptr option \<Rightarrow> string option \<Rightarrow> objtree \<Rightarrow> OV_RESULT option" where
  "check_creation env pclass pdomain identifier s =
    (if pclass = None \<or> pdomain = None \<or> identifier = None then Some OV_ERR_BADPARAM
     else if \<not> Ov_CanCastTo (class_class env) s (the pclass) then Some OV_ERR_BADFACTORY
     else if v_classprops env (the pclass) AND OV_CP_INSTANTIABLE = 0 then Some OV_ERR_BADFACTORY
     else if \<not> Ov_CanCastTo (domain_class env) s (the pdomain) then Some OV_ERR_BADPARAM
     else if \<not> ov_object_identifierok env identifier then Some OV_ERR_BADNAME
     else if \<not> has_vtable env (the pclass) then Some OV_ERR_GENERIC
     else map_option (\<lambda>deep. if deep then OV_ERR_BADPLACEMENT else OV_ERR_OK) (too_deep env s (the pdomain)))"

type_synonym 'w created = "OV_RESULT \<times> objptr option \<times> 'w ovdb"

definition give_up :: "'w classes \<Rightarrow> OV_RESULT \<Rightarrow> objptr \<Rightarrow> 'w ovdb \<Rightarrow> 'w created option" where
  "give_up env result p db =
    map_option (\<lambda>db. (result, None, free_object p (fst db), snd db)) (run_deletion env (Clean p) db)"

definition method_fails :: "'w classes \<Rightarrow> OV_RESULT \<Rightarrow> bool" where
  "method_fails env result \<longleftrightarrow> Ov_Fail result \<and> \<not> ov_activitylock env"

text \<open>The methods of the new object; \<open>initobjfnc\<close> has its \<open>userdata\<close>.\<close>

definition bring_up :: "'w classes \<Rightarrow> classptr \<Rightarrow> (objptr \<Rightarrow> 'w world \<Rightarrow> OV_RESULT \<times> 'w world) option \<Rightarrow> objptr \<Rightarrow>
    'w ovdb \<Rightarrow> 'w created option" where
  "bring_up env cls initobjfnc p db =
    (let (s, w) = db; (result, w) = m_constructor env (Some cls) p w
     in if method_fails env result then give_up env result p (s, w)
        else
          let (result, w) = (case initobjfnc of None \<Rightarrow> (OV_ERR_OK, w) | Some f \<Rightarrow> f p w)
          in if method_fails env result then give_up env result p (s, m_destructor env (Some cls) p w)
             else
               (case ov_class_createobject_setinit env s p w of
                  None \<Rightarrow> None
                | Some w \<Rightarrow>
                    let (result, w) = m_checkinit env (Some cls) p w
                    in if method_fails env result then give_up env result p (s, m_destructor env (Some cls) p w)
                       else Some (OV_ERR_OK, Some p, s, m_startup env (Some cls) p w)))"

definition build_object :: "'w classes \<Rightarrow> OV_TIME \<Rightarrow> classptr \<Rightarrow> objptr \<Rightarrow> string \<Rightarrow> OV_PLACEMENT_HINT \<Rightarrow> objptr option \<Rightarrow>
    (objptr \<Rightarrow> 'w world \<Rightarrow> OV_RESULT \<times> 'w world) option \<Rightarrow> objptr \<Rightarrow> 'w ovdb \<Rightarrow> 'w created option" where
  "build_object env time cls parent identifier hint prelobj initobjfnc p db =
    (case ov_class_createobject_preinit env time cls p identifier None db of
       None \<Rightarrow> None
     | Some (result, s, w) \<Rightarrow>
         if Ov_Fail result then give_up env result p (s, w)
         else
           (case link_contained parent p hint prelobj s of
              (result, s) \<Rightarrow>
                if Ov_Fail result then give_up env result p (s, w)
                else bring_up env cls initobjfnc p (s, w)))"

text \<open>\<open>addsize\<close> is what \<open>userdata\<close> points to when the new object is a class.\<close>

definition ov_class_createobject :: "'w classes \<Rightarrow> OV_TIME \<Rightarrow> classptr option \<Rightarrow> objptr option \<Rightarrow> string option \<Rightarrow>
    OV_PLACEMENT_HINT \<Rightarrow> objptr option \<Rightarrow> (objptr \<Rightarrow> 'w world \<Rightarrow> OV_RESULT \<times> 'w world) option \<Rightarrow> nat \<Rightarrow>
    'w ovdb \<Rightarrow> 'w created option" where
  "ov_class_createobject env time pclass pdomain identifier hint prelobj initobjfnc addsize db =
    (case check_creation env pclass pdomain identifier (fst db) of
       None \<Rightarrow> None
     | Some result \<Rightarrow>
         if Ov_Fail result then Some (result, None, db)
         else
           let size = v_size env (the pclass) + (if class_class env (the pclass) then addsize else 0);
               (piece, w) = next_alloc (snd db)
           in (case piece of
                 None \<Rightarrow> Some (OV_ERR_DBOUTOFMEMORY, None, fst db, w)
               | Some p \<Rightarrow>
                   build_object env time (the pclass) (the pdomain) (the identifier) hint prelobj initobjfnc p
                     (new_block p size (fst db), w)))"

section \<open>Renaming and moving\<close>

text \<open>Whether the object or one that it is in is \<open>p\<close>.\<close>

partial_function (option) inside :: "objtree \<Rightarrow> objptr \<Rightarrow> objptr option \<Rightarrow> bool option" where
  [code]: "inside s p pcurrobj =
    (case pcurrobj of None \<Rightarrow> Some False | Some q \<Rightarrow> if q = p then Some True else inside s p (holder s q))"

definition check_move :: "'w classes \<Rightarrow> objtree \<Rightarrow> objptr \<Rightarrow> objptr \<Rightarrow> OV_RESULT option" where
  "check_move env s p parent =
    (case inside s p (Some parent) of
       None \<Rightarrow> None
     | Some True \<Rightarrow> Some OV_ERR_CANTMOVE
     | Some False \<Rightarrow> map_option (\<lambda>deep. if deep then OV_ERR_BADPLACEMENT else OV_ERR_OK) (too_deep env s parent))"

text \<open>An object without a parent aborts the server.\<close>

definition check_rename :: "'w classes \<Rightarrow> objtree \<Rightarrow> objptr option \<Rightarrow> objptr option \<Rightarrow> string option \<Rightarrow> objptr option \<Rightarrow> OV_RESULT option" where
  "check_rename env s pobj pdomain identifier prelobj =
    (if pobj = None \<or> pdomain = None then Some OV_ERR_BADPARAM
     else
       let p = the pobj; parent = the pdomain
       in if \<not> Ov_CanCastTo (domain_class env) s parent then Some OV_ERR_BADPARAM
          else if outer_object s p \<noteq> None then Some OV_ERR_CANTMOVE
          else if identifier \<noteq> None \<and> \<not> ov_object_identifierok env identifier then Some OV_ERR_BADNAME
          else if prelobj = Some p then Some OV_ERR_BADPLACEMENT
          else if (case identifier of None \<Rightarrow> identifier_of s p | Some i \<Rightarrow> i) \<in> identifier_of s ` set (linked s Containment parent)
          then Some OV_ERR_CANTMOVE
          else
            (case Ov_GetParent s Containment p of
               None \<Rightarrow> None
             | Some pcurrparent \<Rightarrow> if parent \<noteq> pcurrparent then check_move env s p parent else Some OV_ERR_OK))"

definition move_object :: "objptr \<Rightarrow> objptr \<Rightarrow> OV_PLACEMENT_HINT \<Rightarrow> objptr option \<Rightarrow> objtree \<Rightarrow> objtree option" where
  "move_object p parent hint prelobj s =
    (case Ov_GetParent s Containment p of
       None \<Rightarrow> None
     | Some pcurrparent \<Rightarrow>
         if parent = pcurrparent then Some s
         else (case link_contained parent p hint prelobj (unlink Containment pcurrparent p s) of
             (result, s) \<Rightarrow> if Ov_Fail result then None else Some s))"

definition ov_class_renameobject :: "'w classes \<Rightarrow> objptr option \<Rightarrow> objptr option \<Rightarrow> string option \<Rightarrow> OV_PLACEMENT_HINT \<Rightarrow>
    objptr option \<Rightarrow> 'w ovdb \<Rightarrow> (OV_RESULT \<times> 'w ovdb) option" where
  "ov_class_renameobject env pobj pdomain identifier hint prelobj db =
    (case check_rename env (fst db) pobj pdomain identifier prelobj of
       None \<Rightarrow> None
     | Some result \<Rightarrow>
         if Ov_Fail result then Some (result, db)
         else
           let p = the pobj; parent = the pdomain;
               newid = (case identifier of None \<Rightarrow> identifier_of (fst db) p | Some i \<Rightarrow> i);
               result = m_rename env (method_class env (fst db) p) p newid parent
           in if Ov_Fail result then Some (result, db)
              else
                (case (case identifier of None \<Rightarrow> (OV_ERR_OK, db) | Some i \<Rightarrow> set_identifier env p i db) of
                   (result, s, w) \<Rightarrow>
                     if Ov_Fail result then Some (result, s, w)
                     else map_option (\<lambda>s. (OV_ERR_OK, s, w)) (move_object p parent hint prelobj s)))"

section \<open>Objects named by their id\<close>

text \<open>Hexadecimal digits as \<open>printf\<close> writes them: \<open>%08X\<close>, and \<open>%#08X\<close>, whose prefix counts for the width
  and is left out for zero.\<close>

fun hex_number :: "nat \<Rightarrow> string" where
  "hex_number n = (if n < 16 then [hex_digit n] else hex_number (n div 16) @ [hex_digit (n mod 16)])"

declare hex_number.simps [simp del]

definition zero_filled :: "nat \<Rightarrow> string \<Rightarrow> string" where
  "zero_filled width digits = replicate (width - length digits) CHR ''0'' @ digits"

definition id_identifier :: "OV_UINT \<Rightarrow> OV_UINT \<Rightarrow> string" where
  "id_identifier idH idL =
    (if idH = 0 then replicate 8 CHR ''0'' else ''0X'' @ zero_filled 6 (hex_number (unat idH))) @
     zero_filled 8 (hex_number (unat idL))"

text \<open>\<open>snprintf\<close> cuts the string to the memory of \<open>identLength\<close>; \<open>mem\<close>: whether the memory stack had it.\<close>

definition ov_class_createIDedObject :: "'w classes \<Rightarrow> OV_TIME \<Rightarrow> classptr option \<Rightarrow> objptr option \<Rightarrow> string option \<Rightarrow> bool \<Rightarrow>
    OV_PLACEMENT_HINT \<Rightarrow> objptr option \<Rightarrow> (objptr \<Rightarrow> 'w world \<Rightarrow> OV_RESULT \<times> 'w world) option \<Rightarrow> nat \<Rightarrow>
    'w ovdb \<Rightarrow> 'w created option" where
  "ov_class_createIDedObject env time pclass pdomain identifierPostfix mem hint prelobj initobjfnc addsize db =
    (let (idH, idL) = idCounter (snd db);
         name = (case identifierPostfix of
             Some (c # cs) \<Rightarrow> take (16 + 1 + length (c # cs)) (id_identifier idH idL @ CHR ''_'' # c # cs)
           | _ \<Rightarrow> take 16 (id_identifier idH idL))
     in if \<not> mem then Some (OV_ERR_HEAPOUTOFMEMORY, None, db)
        else ov_class_createobject env time pclass pdomain (Some name) hint prelobj initobjfnc addsize db)"

end
