(* ===== verification/OvObjectTree.thy ===== *)
theory OvObjectTree
  imports OvObject
begin

text \<open>
  The objects that a deletion reaches, as a tree: an object with the objects that are parts of it and
  the objects that it contains. Deleting is cutting: the links that touch the tree, its ids, the
  memory of its variables, its link tables and its blocks go, and nothing else changes.
\<close>

section \<open>Cutting\<close>

record cutting =
  c_links :: "assocptr \<Rightarrow> objptr \<Rightarrow> objptr \<Rightarrow> bool"
  c_ids :: "objptr set"
  c_owned :: "objptr \<Rightarrow> string list \<Rightarrow> bool"
  c_tables :: "objptr set"
  c_heads :: "objptr set"

definition prune :: "cutting \<Rightarrow> objtree \<Rightarrow> objtree" where
  "prune k s = s\<lparr>linked := (\<lambda>a p. filter (\<lambda>c. \<not> c_links k a p c) (linked s a p)),
     parents := (\<lambda>a c. filter (\<lambda>p. \<not> c_links k a p c) (parents s a c)),
     idlist := filter (\<lambda>(i, q). q \<notin> c_ids k) (idlist s),
     owned := (\<lambda>p path. if c_owned k p path then [] else owned s p path),
     linktable := (\<lambda>p. linktable s p \<and> p \<notin> c_tables k),
     heads := (\<lambda>p. if p \<in> c_heads k then None else heads s p),
     blocks := (\<lambda>p. if p \<in> c_heads k then None else blocks s p)\<rparr>"

definition both :: "cutting \<Rightarrow> cutting \<Rightarrow> cutting" where
  "both j k = \<lparr>c_links = (\<lambda>a p c. c_links j a p c \<or> c_links k a p c), c_ids = c_ids j \<union> c_ids k,
     c_owned = (\<lambda>p path. c_owned j p path \<or> c_owned k p path), c_tables = c_tables j \<union> c_tables k,
     c_heads = c_heads j \<union> c_heads k\<rparr>"

definition nothing :: cutting where
  "nothing = \<lparr>c_links = (\<lambda>a p c. False), c_ids = {}, c_owned = (\<lambda>p path. False), c_tables = {}, c_heads = {}\<rparr>"

lemma both_simps [simp]:
  "c_links (both j k) a p c \<longleftrightarrow> c_links j a p c \<or> c_links k a p c" "c_ids (both j k) = c_ids j \<union> c_ids k"
  "c_owned (both j k) p path \<longleftrightarrow> c_owned j p path \<or> c_owned k p path" "c_tables (both j k) = c_tables j \<union> c_tables k"
  "c_heads (both j k) = c_heads j \<union> c_heads k"
  by (simp_all add: both_def)

lemma nothing_simps [simp]:
  "c_links nothing a p c \<longleftrightarrow> False" "c_ids nothing = {}" "c_owned nothing p path \<longleftrightarrow> False" "c_tables nothing = {}" "c_heads nothing = {}"
  by (simp_all add: nothing_def)

lemma cut_simps [simp]:
  "linked (prune k s) a p = filter (\<lambda>c. \<not> c_links k a p c) (linked s a p)"
  "parents (prune k s) a c = filter (\<lambda>p. \<not> c_links k a p c) (parents s a c)"
  "idlist (prune k s) = filter (\<lambda>(i, q). q \<notin> c_ids k) (idlist s)"
  "owned (prune k s) p path = (if c_owned k p path then [] else owned s p path)"
  "linktable (prune k s) p \<longleftrightarrow> linktable s p \<and> p \<notin> c_tables k"
  "heads (prune k s) p = (if p \<in> c_heads k then None else heads s p)"
  "blocks (prune k s) p = (if p \<in> c_heads k then None else blocks s p)"
  by (simp_all add: prune_def)

lemma objtree_eqI:
  assumes "\<And>a p. linked s a p = linked s' a p" "\<And>a p. parents s a p = parents s' a p" "idlist s = idlist s'"
    "\<And>p path. owned s p path = owned s' p path" "\<And>p. linktable s p = linktable s' p" "\<And>p. heads s p = heads s' p"
    "\<And>p. blocks s p = blocks s' p"
  shows "s = (s' :: objtree)"
  using assms by (intro objtree.equality) (simp_all add: fun_eq_iff)

lemma filter_pair: "filter (\<lambda>(i, q). Q q) (filter (\<lambda>(i, q). P q) xs) = filter (\<lambda>(i, q). P q \<and> Q q) xs"
  by (induction xs) auto

lemma cut_cut: "prune k (prune j s) = prune (both j k) s"
  by (rule objtree_eqI) (auto simp: filter_pair conj_commute intro!: filter_cong)

lemma both_assoc: "both (both i j) k = both i (both j k)"
  by (simp add: both_def Un_assoc)

lemma cut_nothing [simp]: "prune nothing s = s"
  by (rule objtree_eqI) simp_all

text \<open>Cuttings that agree on what there is.\<close>

lemma cut_cong:
  assumes "\<And>a p c. c \<in> set (linked s a p) \<or> p \<in> set (parents s a c) \<Longrightarrow> c_links j a p c = c_links k a p c"
    "\<And>i q. (i, q) \<in> set (idlist s) \<Longrightarrow> q \<in> c_ids j \<longleftrightarrow> q \<in> c_ids k"
    "\<And>p path. owned s p path \<noteq> [] \<Longrightarrow> c_owned j p path = c_owned k p path"
    "\<And>p. linktable s p \<Longrightarrow> p \<in> c_tables j \<longleftrightarrow> p \<in> c_tables k" "\<And>p. heads s p \<noteq> None \<Longrightarrow> p \<in> c_heads j \<longleftrightarrow> p \<in> c_heads k"
    "\<And>p. blocks s p \<noteq> None \<Longrightarrow> p \<in> c_heads j \<longleftrightarrow> p \<in> c_heads k"
  shows "prune j s = prune k s"
proof (rule objtree_eqI)
  show "linked (prune j s) a p = linked (prune k s) a p" for a p using assms(1) by (auto intro!: filter_cong)
  show "parents (prune j s) a p = parents (prune k s) a p" for a p using assms(1) by (auto intro!: filter_cong)
  show "idlist (prune j s) = idlist (prune k s)" using assms(2) by (auto intro!: filter_cong)
  show "owned (prune j s) p path = owned (prune k s) p path" for p path using assms(3) [of p path] by (cases "owned s p path = []") auto
  show "linktable (prune j s) p = linktable (prune k s) p" for p using assms(4) [of p] by auto
  show "heads (prune j s) p = heads (prune k s) p" for p using assms(5) [of p] by (cases "heads s p = None") auto
  show "blocks (prune j s) p = blocks (prune k s) p" for p using assms(6) [of p] by (cases "blocks s p = None") auto
qed

text \<open>Everything of a set of objects, of which the heads \<open>H\<close> go.\<close>

definition all_of :: "objptr set \<Rightarrow> objptr set \<Rightarrow> cutting" where
  "all_of S H = \<lparr>c_links = (\<lambda>a p c. p \<in> S \<or> c \<in> S), c_ids = S, c_owned = (\<lambda>p path. p \<in> S), c_tables = S, c_heads = H\<rparr>"

lemma all_of_simps [simp]:
  "c_links (all_of S H) a p c \<longleftrightarrow> p \<in> S \<or> c \<in> S" "c_ids (all_of S H) = S" "c_owned (all_of S H) p path \<longleftrightarrow> p \<in> S"
  "c_tables (all_of S H) = S" "c_heads (all_of S H) = H"
  by (simp_all add: all_of_def)

section \<open>Trees of objects\<close>

text \<open>An object with its class, its parts, and the objects it contains; \<open>Unborn\<close>: a part that was not
  initialised.\<close>

datatype otree = Object objptr classptr "otree list" "otree list" | Unborn objptr

fun root :: "otree \<Rightarrow> objptr" where
  "root (Object p cls ps ts) = p"
| "root (Unborn p) = p"

fun addrs :: "otree \<Rightarrow> objptr list" where
  "addrs (Object p cls ps ts) = p # concat (map addrs ps) @ concat (map addrs ts)"
| "addrs (Unborn p) = [p]"

fun own_addrs :: "otree \<Rightarrow> objptr list" where
  "own_addrs (Object p cls ps ts) = p # concat (map own_addrs ps)"
| "own_addrs (Unborn p) = [p]"

fun tree_classes :: "otree \<Rightarrow> classptr list" where
  "tree_classes (Object p cls ps ts) = cls # concat (map tree_classes ps) @ concat (map tree_classes ts)"
| "tree_classes (Unborn p) = []"

text \<open>The parts stand at the offsets that the class says.\<close>

fun part_offsets :: "elem list \<Rightarrow> nat list" where
  "part_offsets [] = []"
| "part_offsets (Part off cls name # es) = off # part_offsets es"
| "part_offsets (e # es) = part_offsets es"

fun member_paths :: "string list \<Rightarrow> variable list \<Rightarrow> string list list" where
  "member_paths path [] = []"
| "member_paths path (Variable name props vartype veclen members # vs) =
    (if vartype AND OV_VT_KSMASK = OV_VT_STRUCT then member_paths (path @ [name]) members
     else if var_frees vartype veclen then [path @ [name]] else []) @ member_paths path vs"

fun variable_paths :: "variable \<Rightarrow> string list list" where
  "variable_paths (Variable name props vartype veclen members) =
    (if props AND (OV_VP_DERIVED OR OV_VP_STATIC) \<noteq> 0 then []
     else if vartype AND OV_VT_KSMASK = OV_VT_STRUCT then member_paths [name] members
     else if var_frees vartype veclen then [[name]] else [])"

text \<open>The links and the memory of an object are those that its class has elements for.\<close>

definition object_fits :: "elem list \<Rightarrow> objtree \<Rightarrow> objptr \<Rightarrow> bool" where
  "object_fits es s p \<longleftrightarrow>
     (\<forall>a. linked s a p \<noteq> [] \<longrightarrow> Parentlink a \<in> set es) \<and>
     (\<forall>a. parents s a p \<noteq> [] \<longrightarrow> a = Instantiation \<or> Childlink a \<in> set es) \<and>
     (\<forall>path. owned s p path \<noteq> [] \<longrightarrow> (\<exists>v. Var v \<in> set es \<and> path \<in> set (variable_paths v)))"

definition has_id :: "objtree \<Rightarrow> objptr \<Rightarrow> bool" where
  "has_id s p \<longleftrightarrow> (\<exists>h. heads s p = Some h \<and> (h_id h, p) \<in> set (idlist s) \<and>
     (\<forall>(i, q) \<in> set (idlist s). q = p \<longleftrightarrow> i = h_id h))"

text \<open>A tree that can be deleted: \<open>Delete\<close> needs the block of the object, which holds its parts.\<close>

definition block_ok :: "objtree \<Rightarrow> otree \<Rightarrow> bool" where
  "block_ok s t \<longleftrightarrow> outer_object s (root t) = None \<and> (\<exists>n. blocks s (root t) = Some n \<and>
     (\<forall>q. heads s q \<noteq> None \<longrightarrow> root t \<le> q \<and> q < root t + n \<longleftrightarrow> q \<in> set (own_addrs t)) \<and>
     (\<forall>q \<in> set (own_addrs t). blocks s q \<noteq> None \<longrightarrow> q = root t))"

fun tree_at :: "'w classes \<Rightarrow> objtree \<Rightarrow> otree \<Rightarrow> bool" where
  "tree_at env s (Object p cls ps ts) \<longleftrightarrow>
     linktable s p \<and> parents s Instantiation p = [cls] \<and> has_id s p \<and>
     object_fits (elements env cls) s p \<and> linked s Containment p = map root ts \<and>
     map root ps = map (\<lambda>off. p + off) (part_offsets (elements env cls)) \<and>
     (\<forall>t \<in> set ps. tree_at env s t) \<and> (\<forall>t \<in> set ts. tree_at env s t \<and> block_ok s t)"
| "tree_at env s (Unborn p) \<longleftrightarrow>
     (\<forall>a. linked s a p = [] \<and> parents s a p = []) \<and> (\<forall>(i, q) \<in> set (idlist s). q \<noteq> p) \<and>
     (\<forall>path. owned s p path \<noteq> [] \<longrightarrow> path = [''identifier''])"

text \<open>Both ends of a link know it.\<close>

definition links_ok :: "objtree \<Rightarrow> bool" where
  "links_ok s \<longleftrightarrow> (\<forall>a p c. c \<in> set (linked s a p) \<longleftrightarrow> p \<in> set (parents s a c))"

lemma links_okD: "links_ok s \<Longrightarrow> c \<in> set (linked s a p) \<longleftrightarrow> p \<in> set (parents s a c)"
  by (simp add: links_ok_def)

lemma links_ok_cut [simp]: "links_ok s \<Longrightarrow> links_ok (prune k s)"
  by (auto simp: links_ok_def)

lemma own_in_addrs: "set (own_addrs t) \<subseteq> set (addrs t)" "root t \<in> set (own_addrs t)"
proof -
  show "set (own_addrs t) \<subseteq> set (addrs t)" by (induction t) auto
  show "root t \<in> set (own_addrs t)" by (cases t) auto
qed

text \<open>A cutting that does not touch a tree leaves it.\<close>

definition spares_sets :: "cutting \<Rightarrow> objptr set \<Rightarrow> classptr set \<Rightarrow> bool" where
  "spares_sets k A C \<longleftrightarrow> (\<forall>p \<in> A. p \<notin> c_ids k \<and> p \<notin> c_tables k \<and> p \<notin> c_heads k \<and>
     (\<forall>c \<in> A. \<not> c_links k Containment p c) \<and> (\<forall>c \<in> C. \<not> c_links k Instantiation c p))"

definition spares :: "cutting \<Rightarrow> otree \<Rightarrow> bool" where
  "spares k t \<longleftrightarrow> spares_sets k (set (addrs t)) (set (tree_classes t))"

lemma spares_sets_mono: "spares_sets k A C \<Longrightarrow> A' \<subseteq> A \<Longrightarrow> C' \<subseteq> C \<Longrightarrow> spares_sets k A' C'"
  unfolding spares_sets_def by blast

lemma sparesD:
  assumes "spares k t" "p \<in> set (addrs t)"
  shows "p \<notin> c_ids k" "p \<notin> c_tables k" "p \<notin> c_heads k" "c \<in> set (addrs t) \<Longrightarrow> \<not> c_links k Containment p c"
    "c \<in> set (tree_classes t) \<Longrightarrow> \<not> c_links k Instantiation c p"
  using assms by (auto simp: spares_def spares_sets_def)

lemma spares_sub:
  assumes "spares k (Object p cls ps ts)" "t \<in> set ps \<or> t \<in> set ts"
  shows "spares k t"
  using assms(1) unfolding spares_def by (rule spares_sets_mono) (use assms(2) in auto)

lemma roots_in_addrs: "t \<in> set ts \<Longrightarrow> root t \<in> set (concat (map addrs ts))"
  using own_in_addrs by fastforce

lemma has_id_cut: "has_id s p \<Longrightarrow> p \<notin> c_heads k \<Longrightarrow> p \<notin> c_ids k \<Longrightarrow> has_id (prune k s) p"
  by (fastforce simp: has_id_def)

lemma object_fits_cut: "object_fits es s p \<Longrightarrow> object_fits es (prune k s) p"
  unfolding object_fits_def by (auto simp: filter_empty_conv split: if_splits) (metis (full_types) empty_iff list.set(1))+

lemma block_ok_cut:
  assumes "block_ok s t" "\<forall>p \<in> set (addrs t). p \<notin> c_heads k"
  shows "block_ok (prune k s) t"
proof -
  have "root t \<notin> c_heads k" using assms(2) own_in_addrs by blast
  then show ?thesis using assms(1) unfolding block_ok_def by (auto simp: outer_object_def)
qed

lemma tree_at_cut: "tree_at env s t \<Longrightarrow> spares k t \<Longrightarrow> tree_at env (prune k s) t"
proof (induction t)
  case (Object p cls ps ts)
  have sub: "spares k t" if "t \<in> set ps \<or> t \<in> set ts" for t using spares_sub [OF Object.prems(2) that] .
  have p: "p \<in> set (addrs (Object p cls ps ts))" by simp
  note k = sparesD [OF Object.prems(2) p]
  have "filter (\<lambda>c. \<not> c_links k Containment p c) (map root ts) = map root ts"
    by (intro filter_True) (use k(4) roots_in_addrs [of _ ts] in auto)
  moreover have "block_ok (prune k s) t" if "t \<in> set ts" for t
    using block_ok_cut [of s t k] Object.prems(1) that sparesD(3) [OF sub [of t]] by auto
  moreover have "tree_at env (prune k s) t" if "t \<in> set ps \<or> t \<in> set ts" for t
    using that Object.IH Object.prems(1) sub [OF that] by auto
  ultimately show ?case
    using Object.prems(1) k has_id_cut object_fits_cut by auto
qed auto

section \<open>The steps as cuttings\<close>

definition one_link :: "assocptr \<Rightarrow> objptr \<Rightarrow> objptr \<Rightarrow> cutting" where
  "one_link a p c = nothing\<lparr>c_links := (\<lambda>b q d. b = a \<and> q = p \<and> d = c)\<rparr>"

definition parent_cut :: "assocptr \<Rightarrow> objptr \<Rightarrow> cutting" where
  "parent_cut a p = nothing\<lparr>c_links := (\<lambda>b q d. b = a \<and> q = p)\<rparr>"

definition child_cut :: "assocptr \<Rightarrow> objptr \<Rightarrow> cutting" where
  "child_cut a c = nothing\<lparr>c_links := (\<lambda>b q d. b = a \<and> d = c)\<rparr>"

definition owned_cut :: "objptr \<Rightarrow> string list list \<Rightarrow> cutting" where
  "owned_cut p paths = nothing\<lparr>c_owned := (\<lambda>q path. q = p \<and> path \<in> set paths)\<rparr>"

definition id_cut :: "objptr \<Rightarrow> cutting" where
  "id_cut p = nothing\<lparr>c_ids := {p}\<rparr>"

definition table_cut :: "objptr \<Rightarrow> cutting" where
  "table_cut p = nothing\<lparr>c_tables := {p}\<rparr>"

lemma step_cuts [simp]:
  "c_links (one_link a p c) b q d \<longleftrightarrow> b = a \<and> q = p \<and> d = c" "c_ids (one_link a p c) = {}"
  "c_owned (one_link a p c) q path \<longleftrightarrow> False" "c_tables (one_link a p c) = {}" "c_heads (one_link a p c) = {}"
  "c_links (parent_cut a p) b q d \<longleftrightarrow> b = a \<and> q = p" "c_ids (parent_cut a p) = {}"
  "c_owned (parent_cut a p) q path \<longleftrightarrow> False" "c_tables (parent_cut a p) = {}" "c_heads (parent_cut a p) = {}"
  "c_links (child_cut a c) b q d \<longleftrightarrow> b = a \<and> d = c" "c_ids (child_cut a c) = {}"
  "c_owned (child_cut a c) q path \<longleftrightarrow> False" "c_tables (child_cut a c) = {}" "c_heads (child_cut a c) = {}"
  "c_links (owned_cut p paths) b q d \<longleftrightarrow> False" "c_ids (owned_cut p paths) = {}"
  "c_owned (owned_cut p paths) q path \<longleftrightarrow> q = p \<and> path \<in> set paths" "c_tables (owned_cut p paths) = {}" "c_heads (owned_cut p paths) = {}"
  "c_links (id_cut p) b q d \<longleftrightarrow> False" "c_ids (id_cut p) = {p}" "c_owned (id_cut p) q path \<longleftrightarrow> False" "c_tables (id_cut p) = {}"
  "c_heads (id_cut p) = {}"
  "c_links (table_cut p) b q d \<longleftrightarrow> False" "c_ids (table_cut p) = {}" "c_owned (table_cut p) q path \<longleftrightarrow> False"
  "c_tables (table_cut p) = {p}" "c_heads (table_cut p) = {}"
  by (simp_all add: one_link_def parent_cut_def child_cut_def owned_cut_def id_cut_def table_cut_def)

lemma unlink_cut: "unlink a p c s = prune (one_link a p c) s"
  by (rule objtree_eqI)
    (auto simp: unlink_def set_parents_def set_linked_def removeAll_filter_not_eq intro!: filter_cong filter_True [symmetric])

lemma free_owned_cut: "free_owned p path s = prune (owned_cut p [path]) s"
  by (rule objtree_eqI) (auto simp: free_owned_def)

lemma drop_linktable_cut: "drop_linktable p s = prune (table_cut p) s"
  by (rule objtree_eqI) (auto simp: drop_linktable_def)

lemma owned_cut_join: "prune (owned_cut p ys) (prune (owned_cut p xs) s) = prune (owned_cut p (xs @ ys)) s"
  unfolding cut_cut by (rule cut_cong) auto

lemma owned_cut_Nil: "prune (owned_cut p []) s = s"
  using cut_cong [of s "owned_cut p []" nothing] by simp

lemma cleanupstruct_cut: "ov_class_deleteobject_cleanupstruct p path vs s = prune (owned_cut p (member_paths path vs)) s"
proof (induction p path vs s rule: ov_class_deleteobject_cleanupstruct.induct)
  case (2 p path name props vartype veclen members vs s)
  then show ?case by (auto simp: free_owned_cut owned_cut_join)
qed (simp add: owned_cut_Nil)

lemma cleanup_variable_cut: "cleanup_variable p v s = prune (owned_cut p (variable_paths v)) s"
  by (cases v) (simp add: cleanupstruct_cut free_owned_cut owned_cut_Nil)

lemma release_id_cut:
  assumes "has_id s p"
  shows "release_id p s = prune (id_cut p) s"
proof -
  obtain h where h: "heads s p = Some h" "\<And>i q. (i, q) \<in> set (idlist s) \<Longrightarrow> q = p \<longleftrightarrow> i = h_id h"
    using assms by (auto simp: has_id_def)
  have "filter (\<lambda>(i, q). i \<noteq> h_id h) (idlist s) = filter (\<lambda>(i, q). q \<notin> {p}) (idlist s)"
    by (rule filter_cong) (use h(2) in auto)
  then show ?thesis using h(1) by (intro objtree_eqI) (simp_all add: release_id_def)
qed

section \<open>The recursion, step by step\<close>

lemma run_steps:
  "run_deletion env (Delete p) (s, w) =
    (if outer_object s p \<noteq> None then Some (s, w)
     else Option.bind (run_deletion env (Clean p) (s, end_of_life env (method_class env s p) p w))
       (\<lambda>db. Some (free_object p (fst db), snd db)))"
  "run_deletion env (Clean p) (s, w) =
    (case Ov_GetClassPtr s p of
       None \<Rightarrow> Some (clean_unborn p s, w)
     | Some cls \<Rightarrow> run_deletion env (Elems p (elements env cls)) (release_id p s, w))"
  "run_deletion env (Elems p []) (s, w) = Some (finish_clean p s, w)"
  "run_deletion env (Elems p (Part off cls name # es)) (s, w) =
    Option.bind (run_deletion env (Clean (p + off)) (s, w)) (run_deletion env (Elems p es))"
  "run_deletion env (Elems p (Var v # es)) (s, w) = run_deletion env (Elems p es) (cleanup_variable p v s, w)"
  "linked s a p = [] \<Longrightarrow> run_deletion env (Elems p (Parentlink a # es)) (s, w) = run_deletion env (Elems p es) (s, w)"
  "linked s Containment p = c # cs \<Longrightarrow> run_deletion env (Elems p (Parentlink Containment # es)) (s, w) =
    Option.bind (run_deletion env (Delete c) (s, w)) (run_deletion env (Elems p (Parentlink Containment # es)))"
  "linked s a p = c # cs \<Longrightarrow> a \<noteq> Containment \<Longrightarrow> run_deletion env (Elems p (Parentlink a # es)) (s, w) =
    run_deletion env (Elems p (Parentlink a # es)) (unlink a p c s, unlink_effect env a p c w)"
  "run_deletion env (Elems p (Childlink Instantiation # es)) (s, w) = run_deletion env (Elems p es) (s, w)"
  "parents s a p = [] \<Longrightarrow> run_deletion env (Elems p (Childlink a # es)) (s, w) = run_deletion env (Elems p es) (s, w)"
  "parents s a p = q # qs \<Longrightarrow> a \<noteq> Instantiation \<Longrightarrow> run_deletion env (Elems p (Childlink a # es)) (s, w) =
    run_deletion env (Elems p (Childlink a # es)) (unlink a q p s, unlink_effect env a q p w)"
  by (subst run_deletion.simps; simp split: option.split)+

lemma parent_cut_none: "links_ok s \<Longrightarrow> linked s a p = [] \<Longrightarrow> prune (parent_cut a p) s = s"
  using cut_cong [of s "parent_cut a p" nothing] links_okD [of s _ a p] by fastforce

lemma child_cut_none: "links_ok s \<Longrightarrow> parents s a p = [] \<Longrightarrow> prune (child_cut a p) s = s"
  using cut_cong [of s "child_cut a p" nothing] links_okD [of s p a] by fastforce

lemma parentlink_loop:
  assumes "links_ok s" "a \<noteq> Containment"
  shows "\<exists>w'. run_deletion env (Elems p (Parentlink a # es)) (s, w) = run_deletion env (Elems p es) (prune (parent_cut a p) s, w')"
  using assms(1)
proof (induction "length (linked s a p)" arbitrary: s w rule: less_induct)
  case less
  show ?case
  proof (cases "linked s a p")
    case Nil
    then show ?thesis using run_steps(6) [OF Nil] parent_cut_none [OF less.prems Nil] by auto
  next
    case (Cons c cs)
    let ?s = "prune (one_link a p c) s"
    have "length (linked ?s a p) < length (linked s a p)" using Cons by (simp add: le_imp_less_Suc)
    from less.hyps [OF this] less.prems obtain w' where
      "run_deletion env (Elems p (Parentlink a # es)) (?s, unlink_effect env a p c w) =
        run_deletion env (Elems p es) (prune (parent_cut a p) ?s, w')" by fastforce
    moreover have "prune (parent_cut a p) ?s = prune (parent_cut a p) s" unfolding cut_cut by (rule cut_cong) auto
    ultimately show ?thesis unfolding run_steps(8) [OF Cons assms(2), of env es w] unlink_cut by (intro exI [of _ w']) simp
  qed
qed

lemma childlink_loop:
  assumes "links_ok s" "a \<noteq> Instantiation"
  shows "\<exists>w'. run_deletion env (Elems p (Childlink a # es)) (s, w) = run_deletion env (Elems p es) (prune (child_cut a p) s, w')"
  using assms(1)
proof (induction "length (parents s a p)" arbitrary: s w rule: less_induct)
  case less
  show ?case
  proof (cases "parents s a p")
    case Nil
    then show ?thesis using run_steps(10) [OF Nil] child_cut_none [OF less.prems Nil] by auto
  next
    case (Cons q qs)
    let ?s = "prune (one_link a q p) s"
    have "length (parents ?s a p) < length (parents s a p)" using Cons by (simp add: le_imp_less_Suc)
    from less.hyps [OF this] less.prems obtain w' where
      "run_deletion env (Elems p (Childlink a # es)) (?s, unlink_effect env a q p w) =
        run_deletion env (Elems p es) (prune (child_cut a p) ?s, w')" by fastforce
    moreover have "prune (child_cut a p) ?s = prune (child_cut a p) s" unfolding cut_cut by (rule cut_cong) auto
    ultimately show ?thesis unfolding run_steps(11) [OF Cons assms(2), of env es w] unlink_cut by (intro exI [of _ w']) simp
  qed
qed

section \<open>Cleaning up cuts the tree\<close>

definition clean_cut :: "otree \<Rightarrow> cutting" where
  "clean_cut t = all_of (set (addrs t)) (set (addrs t) - set (own_addrs t))"

definition delete_cut :: "otree \<Rightarrow> cutting" where
  "delete_cut t = all_of (set (addrs t)) (set (addrs t))"

definition forest_addrs :: "otree list \<Rightarrow> objptr list" where
  "forest_addrs ts = concat (map addrs ts)"

definition forest_cut :: "otree list \<Rightarrow> cutting" where
  "forest_cut ts = all_of (set (forest_addrs ts)) (set (forest_addrs ts))"

definition forest_classes :: "otree list \<Rightarrow> classptr list" where
  "forest_classes ts = concat (map tree_classes ts)"

lemma forest_simps [simp]: "forest_addrs [] = []" "forest_addrs (t # ts) = addrs t @ forest_addrs ts"
  "forest_classes [] = []" "forest_classes (t # ts) = tree_classes t @ forest_classes ts"
  by (simp_all add: forest_addrs_def forest_classes_def)

lemma forest_in: "t \<in> set ts \<Longrightarrow> set (addrs t) \<subseteq> set (forest_addrs ts)" "t \<in> set ts \<Longrightarrow> set (tree_classes t) \<subseteq> set (forest_classes ts)"
  by (auto simp: forest_addrs_def forest_classes_def)

lemma spares_all_of:
  "set (addrs u) \<inter> S = {} \<Longrightarrow> S \<inter> set (tree_classes u) = {} \<Longrightarrow> H \<subseteq> S \<Longrightarrow> spares (all_of S H) u"
  unfolding spares_def spares_sets_def by auto

lemma spares_forest:
  assumes "u \<in> set us" "set (forest_addrs us) \<inter> S = {}" "S \<inter> set (forest_classes us) = {}" "H \<subseteq> S"
  shows "spares (all_of S H) u"
  using forest_in [OF assms(1)] assms(2-4) by (intro spares_all_of) blast+

lemma tree_pruned: "tree_at env s t \<and> block_ok s t \<Longrightarrow> spares k t \<Longrightarrow> tree_at env (prune k s) t \<and> block_ok (prune k s) t"
  using tree_at_cut block_ok_cut sparesD(3) by blast

lemma forest_disjoint:
  "distinct (forest_addrs ts) \<Longrightarrow> t \<in> set ts \<Longrightarrow> u \<in> set ts \<Longrightarrow> t \<noteq> u \<Longrightarrow> set (addrs t) \<inter> set (addrs u) = {}"
  by (induction ts) (use forest_in(1) in fastforce)+

text \<open>No address stands twice, and no object of the tree is a class of one.\<close>

definition tree_ok :: "otree \<Rightarrow> bool" where
  "tree_ok t \<longleftrightarrow> distinct (addrs t) \<and> set (addrs t) \<inter> set (tree_classes t) = {}"

definition cleans :: "'w classes \<Rightarrow> otree \<Rightarrow> bool" where
  "cleans env t \<longleftrightarrow> (\<forall>s w. tree_at env s t \<longrightarrow> links_ok s \<longrightarrow> tree_ok t \<longrightarrow>
     (\<exists>w'. run_deletion env (Clean (root t)) (s, w) = Some (prune (clean_cut t) s, w')))"

lemma free_after_clean:
  assumes "block_ok s t"
  shows "free_object (root t) (prune (clean_cut t) s) = prune (delete_cut t) s"
proof -
  obtain n where n: "blocks s (root t) = Some n"
    "\<And>q. heads s q \<noteq> None \<Longrightarrow> root t \<le> q \<and> q < root t + n \<longleftrightarrow> q \<in> set (own_addrs t)"
    "\<And>q. q \<in> set (own_addrs t) \<Longrightarrow> blocks s q \<noteq> None \<Longrightarrow> q = root t"
    using assms unfolding block_ok_def by blast
  have b: "blocks (prune (clean_cut t) s) (root t) = Some n"
    using n(1) own_in_addrs(2) [of t] by (simp add: clean_cut_def)
  have h: "(if root t \<le> q \<and> q < root t + n then None else heads (prune (clean_cut t) s) q) = heads (prune (delete_cut t) s) q" for q
  proof (cases "heads s q = None")
    case False
    then show ?thesis using n(2) [OF False] own_in_addrs(1) [of t] by (cases "q \<in> set (own_addrs t)") (auto simp: clean_cut_def delete_cut_def)
  qed (simp add: clean_cut_def delete_cut_def)
  have k: "((blocks (prune (clean_cut t) s))(root t := None)) q = blocks (prune (delete_cut t) s) q" for q
  proof (cases "q \<in> set (own_addrs t)")
    case True
    then show ?thesis using n(3) [OF True] own_in_addrs(1) [of t] by (cases "blocks s q = None") (auto simp: clean_cut_def delete_cut_def)
  next
    case False
    then show ?thesis using own_in_addrs(2) [of t] by (auto simp: clean_cut_def delete_cut_def)
  qed
  show ?thesis
    unfolding free_object_def b
    by (rule objtree_eqI) (use h k in \<open>simp_all add: clean_cut_def delete_cut_def\<close>)
qed

lemma deletes:
  assumes "cleans env t" "tree_at env s t" "links_ok s" "tree_ok t" "block_ok s t"
  shows "\<exists>w'. run_deletion env (Delete (root t)) (s, w) = Some (prune (delete_cut t) s, w')"
proof -
  obtain w' where "run_deletion env (Clean (root t)) (s, end_of_life env (method_class env s (root t)) (root t) w) = Some (prune (clean_cut t) s, w')"
    using assms(1-4) unfolding cleans_def by blast
  then show ?thesis using free_after_clean [OF assms(5)] assms(5) by (simp add: run_steps(1) block_ok_def)
qed

lemma forest_loop:
  assumes "\<And>t. t \<in> set ts \<Longrightarrow> cleans env t" "\<And>t. t \<in> set ts \<Longrightarrow> tree_at env s t \<and> block_ok s t"
    "links_ok s" "distinct (forest_addrs ts)" "set (forest_addrs ts) \<inter> set (forest_classes ts) = {}"
    "p \<notin> set (forest_addrs ts)" "linked s Containment p = map root ts"
  shows "\<exists>w'. run_deletion env (Elems p (Parentlink Containment # es)) (s, w) =
    run_deletion env (Elems p es) (prune (forest_cut ts) s, w')"
  using assms
proof (induction ts arbitrary: s w)
  case Nil
  have "prune (forest_cut []) s = prune nothing s" by (rule cut_cong) (simp_all add: forest_cut_def)
  then show ?case using Nil.prems(7) by (auto simp: run_steps(6))
next
  case (Cons t ts)
  let ?s = "prune (delete_cut t) s"
  have ok: "tree_ok t" using Cons.prems(4,5) by (auto simp: tree_ok_def)
  have disj: "set (addrs t) \<inter> set (forest_addrs ts) = {}" using Cons.prems(4) by auto
  obtain w1 where w1: "run_deletion env (Delete (root t)) (s, w) = Some (?s, w1)"
    using deletes [OF Cons.prems(1) _ Cons.prems(3) ok] Cons.prems(2) by fastforce
  have sp: "spares (delete_cut t) u" if "u \<in> set ts" for u
    unfolding delete_cut_def by (rule spares_forest [OF that]) (use disj Cons.prems(5) in auto)
  have "\<exists>w'. run_deletion env (Elems p (Parentlink Containment # es)) (?s, w1) = run_deletion env (Elems p es) (prune (forest_cut ts) ?s, w')"
  proof (rule Cons.IH)
    show "tree_at env ?s u \<and> block_ok ?s u" if "u \<in> set ts" for u
      by (rule tree_pruned [OF Cons.prems(2) sp]) (use that in simp_all)
    have "root u \<notin> set (addrs t)" if "u \<in> set ts" for u
      using disj forest_in(1) [OF that] own_in_addrs [of u] by blast
    then have "filter (\<lambda>c. \<not> c_links (delete_cut t) Containment p c) (map root ts) = map root ts"
      using Cons.prems(6) by (intro filter_True) (auto simp: delete_cut_def)
    then show "linked ?s Containment p = map root ts"
      using Cons.prems(7) own_in_addrs [of t] by (auto simp: delete_cut_def)
  qed (use Cons.prems in auto)
  moreover have "prune (forest_cut ts) ?s = prune (forest_cut (t # ts)) s"
    unfolding cut_cut by (rule cut_cong) (auto simp: forest_cut_def delete_cut_def)
  ultimately show ?case
    using run_steps(7) [of s p "root t" "map root ts" env es w] Cons.prems(7) w1 by auto
qed

text \<open>What is cut for the elements of an object.\<close>

fun elems_cut :: "objptr \<Rightarrow> elem list \<Rightarrow> otree list \<Rightarrow> otree list \<Rightarrow> cutting" where
  "elems_cut p [] ps ts = nothing"
| "elems_cut p (Part off cls name # es) [] ts = elems_cut p es [] ts"
| "elems_cut p (Part off cls name # es) (q # ps) ts = both (clean_cut q) (elems_cut p es ps ts)"
| "elems_cut p (Var v # es) ps ts = both (owned_cut p (variable_paths v)) (elems_cut p es ps ts)"
| "elems_cut p (Parentlink a # es) ps ts =
    (if a = Containment then both (forest_cut ts) (elems_cut p es ps []) else both (parent_cut a p) (elems_cut p es ps ts))"
| "elems_cut p (Childlink a # es) ps ts =
    (if a = Instantiation then elems_cut p es ps ts else both (child_cut a p) (elems_cut p es ps ts))"

lemma elems_loop:
  assumes "\<And>t. t \<in> set ps \<union> set ts \<Longrightarrow> cleans env t" "\<And>t. t \<in> set ps \<Longrightarrow> tree_at env s t"
    "\<And>t. t \<in> set ts \<Longrightarrow> tree_at env s t \<and> block_ok s t" "links_ok s"
    "distinct (p # forest_addrs ps @ forest_addrs ts)"
    "set (p # forest_addrs ps @ forest_addrs ts) \<inter> set (forest_classes ps @ forest_classes ts) = {}"
    "linked s Containment p = map root ts" "map root ps = map (\<lambda>off. p + off) (part_offsets es)"
  shows "\<exists>w'. run_deletion env (Elems p es) (s, w) = Some (finish_clean p (prune (elems_cut p es ps ts) s), w')"
  using assms
proof (induction p es ps ts arbitrary: s w rule: elems_cut.induct)
  case (1 p ps ts)
  then show ?case by (simp add: run_steps(3))
next
  case (2 p off cls name es ts)
  then show ?case by simp
next
  case (3 p off cls name es q ps ts)
  let ?s = "prune (clean_cut q) s"
  have q: "tree_ok q" "root q = p + off" using 3 by (auto simp: tree_ok_def)
  obtain w1 where w1: "run_deletion env (Clean (root q)) (s, w) = Some (?s, w1)"
    using 3(2,3,5) q(1) unfolding cleans_def by fastforce
  have sp: "spares (clean_cut q) u" if "u \<in> set ps \<union> set ts" for u
  proof -
    from that consider "u \<in> set ps" | "u \<in> set ts" by auto
    then show ?thesis unfolding clean_cut_def
    proof cases
      case 1
      then show "spares (all_of (set (addrs q)) (set (addrs q) - set (own_addrs q))) u"
        by (rule spares_forest) (use 3(6,7) in auto)
    next
      case 2
      then show "spares (all_of (set (addrs q)) (set (addrs q) - set (own_addrs q))) u"
        by (rule spares_forest) (use 3(6,7) in auto)
    qed
  qed
  have "\<exists>w'. run_deletion env (Elems p es) (?s, w1) = Some (finish_clean p (prune (elems_cut p es ps ts) ?s), w')"
  proof (rule 3(1))
    show "tree_at env ?s u" if "u \<in> set ps" for u
      by (rule tree_at_cut [OF 3(3) sp]) (use that in simp_all)
    show "tree_at env ?s u \<and> block_ok ?s u" if "u \<in> set ts" for u
      by (rule tree_pruned [OF 3(4) sp]) (use that in simp_all)
    have "root u \<notin> set (addrs q)" if "u \<in> set ts" for u
      using 3(6) forest_in(1) [OF that] own_in_addrs [of u] by auto
    then have "filter (\<lambda>c. \<not> c_links (clean_cut q) Containment p c) (map root ts) = map root ts"
      using 3(6) by (intro filter_True) (auto simp: clean_cut_def)
    then show "linked ?s Containment p = map root ts" using 3(8) by simp
  qed (use 3 in auto)
  then show ?case using w1 q(2) by (auto simp: run_steps(4) cut_cut)
next
  case (4 p v es ps ts)
  let ?s = "prune (owned_cut p (variable_paths v)) s"
  have sp: "spares (owned_cut p (variable_paths v)) u" for u by (simp add: spares_def spares_sets_def)
  have "\<exists>w'. run_deletion env (Elems p es) (?s, w) = Some (finish_clean p (prune (elems_cut p es ps ts) ?s), w')"
  proof (rule 4(1))
    show "tree_at env ?s u" if "u \<in> set ps" for u by (rule tree_at_cut [OF 4(3) [OF that] sp])
    show "tree_at env ?s u \<and> block_ok ?s u" if "u \<in> set ts" for u by (rule tree_pruned [OF 4(4) [OF that] sp])
  qed (use 4 in auto)
  then show ?case by (simp add: run_steps(5) cleanup_variable_cut cut_cut)
next
  case (5 p a es ps ts)
  show ?case
  proof (cases "a = Containment")
    case True
    let ?s = "prune (forest_cut ts) s"
    have d: "set (forest_addrs ts) \<inter> set (forest_classes ts) = {}" using 5(8) by auto
    obtain w1 where w1: "run_deletion env (Elems p (Parentlink Containment # es)) (s, w) = run_deletion env (Elems p es) (?s, w1)"
      using forest_loop [of ts env s p es w] 5 d by auto
    have sp: "spares (forest_cut ts) u" if "u \<in> set ps" for u
      unfolding forest_cut_def by (rule spares_forest [OF that]) (use 5(7,8) in auto)
    have "root u \<in> set (forest_addrs ts)" if "u \<in> set ts" for u
      using forest_in(1) [OF that] own_in_addrs [of u] by blast
    then have "linked ?s Containment p = []"
      using 5(9) by (auto simp: forest_cut_def filter_empty_conv)
    then have "\<exists>w'. run_deletion env (Elems p es) (?s, w1) = Some (finish_clean p (prune (elems_cut p es ps []) ?s), w')"
    proof (intro 5(1) [OF True])
      show "tree_at env ?s u" if "u \<in> set ps" for u by (rule tree_at_cut [OF 5(4) [OF that] sp [OF that]])
    qed (use 5(3,6-10) in auto)
    then show ?thesis using w1 True by (auto simp: cut_cut)
  next
    case False
    let ?s = "prune (parent_cut a p) s"
    obtain w1 where w1: "run_deletion env (Elems p (Parentlink a # es)) (s, w) = run_deletion env (Elems p es) (?s, w1)"
      using parentlink_loop [OF 5(6) False] by blast
    have sp: "spares (parent_cut a p) u" if "u \<in> set ps \<union> set ts" for u
    proof -
      have "p \<notin> set (tree_classes u)" using forest_in(2) [of u] that 5(8) by auto
      then show ?thesis using False by (auto simp: spares_def spares_sets_def)
    qed
    have "\<exists>w'. run_deletion env (Elems p es) (?s, w1) = Some (finish_clean p (prune (elems_cut p es ps ts) ?s), w')"
    proof (rule 5(2) [OF False])
      show "tree_at env ?s u" if "u \<in> set ps" for u by (rule tree_at_cut [OF 5(4) [OF that] sp]) (use that in simp)
      show "tree_at env ?s u \<and> block_ok ?s u" if "u \<in> set ts" for u by (rule tree_pruned [OF 5(5) [OF that] sp]) (use that in simp)
    qed (use 5(3,6-10) False in auto)
    then show ?thesis using w1 False by (auto simp: cut_cut)
  qed
next
  case (6 p a es ps ts)
  show ?case
  proof (cases "a = Instantiation")
    case True
    then show ?thesis using 6 by (simp add: run_steps(9))
  next
    case False
    let ?s = "prune (child_cut a p) s"
    obtain w1 where w1: "run_deletion env (Elems p (Childlink a # es)) (s, w) = run_deletion env (Elems p es) (?s, w1)"
      using childlink_loop [OF 6(6) False] by blast
    have sp: "spares (child_cut a p) u" if "u \<in> set ps \<union> set ts" for u
    proof -
      have "p \<notin> set (addrs u)" using forest_in(1) [of u] that 6(7) by auto
      then show ?thesis using False by (auto simp: spares_def spares_sets_def)
    qed
    have "root u \<noteq> p" if "u \<in> set ts" for u
      using 6(7) forest_in(1) [OF that] own_in_addrs [of u] by auto
    then have "linked ?s Containment p = map root ts" using 6(9) by (auto intro: filter_True)
    then have "\<exists>w'. run_deletion env (Elems p es) (?s, w1) = Some (finish_clean p (prune (elems_cut p es ps ts) ?s), w')"
    proof (intro 6(2) [OF False])
      show "tree_at env ?s u" if "u \<in> set ps" for u by (rule tree_at_cut [OF 6(4) [OF that] sp]) (use that in simp)
      show "tree_at env ?s u \<and> block_ok ?s u" if "u \<in> set ts" for u by (rule tree_pruned [OF 6(5) [OF that] sp]) (use that in simp)
    qed (use 6(3,6-10) False in auto)
    then show ?thesis using w1 False by (auto simp: cut_cut)
  qed
qed

text \<open>What the elements cut, all together.\<close>

lemma elems_cut_links:
  "length ps = length (part_offsets es) \<Longrightarrow> c_links (elems_cut p es ps ts) a x c \<longleftrightarrow>
    x \<in> set (forest_addrs ps) \<or> c \<in> set (forest_addrs ps) \<or>
    Parentlink Containment \<in> set es \<and> (x \<in> set (forest_addrs ts) \<or> c \<in> set (forest_addrs ts)) \<or>
    a \<noteq> Containment \<and> Parentlink a \<in> set es \<and> x = p \<or> a \<noteq> Instantiation \<and> Childlink a \<in> set es \<and> c = p"
proof (induction p es ps ts rule: elems_cut.induct)
  case (5 p b es ps ts)
  then show ?case by (cases "b = Containment") (auto simp: forest_cut_def)
next
  case (6 p b es ps ts)
  then show ?case by (cases "b = Instantiation") auto
qed (auto simp: clean_cut_def)

lemma elems_cut_sets:
  assumes "length ps = length (part_offsets es)"
  shows "c_ids (elems_cut p es ps ts) = set (forest_addrs ps) \<union> (if Parentlink Containment \<in> set es then set (forest_addrs ts) else {})"
    "c_tables (elems_cut p es ps ts) = set (forest_addrs ps) \<union> (if Parentlink Containment \<in> set es then set (forest_addrs ts) else {})"
    "c_heads (elems_cut p es ps ts) = (\<Union>q \<in> set ps. set (addrs q) - set (own_addrs q)) \<union>
      (if Parentlink Containment \<in> set es then set (forest_addrs ts) else {})"
    "c_owned (elems_cut p es ps ts) x path \<longleftrightarrow> x \<in> set (forest_addrs ps) \<or>
      Parentlink Containment \<in> set es \<and> x \<in> set (forest_addrs ts) \<or> x = p \<and> (\<exists>v. Var v \<in> set es \<and> path \<in> set (variable_paths v))"
  using assms
proof (induction p es ps ts rule: elems_cut.induct)
  case (5 p b es ps ts)
  {
    case 1
    show ?case using 5 1 by (cases "b = Containment") (auto simp: forest_cut_def)
  next
    case 2
    show ?case using 5 2 by (cases "b = Containment") (auto simp: forest_cut_def)
  next
    case 3
    show ?case using 5 3 by (cases "b = Containment") (auto simp: forest_cut_def)
  next
    case 4
    show ?case using 5 4 by (cases "b = Containment") (auto simp: forest_cut_def)
  }
qed (auto simp: clean_cut_def)

lemma cleans_all: "cleans env t"
proof (induction t)
  case (Unborn p)
  have "clean_unborn p s = prune (clean_cut (Unborn p)) s" if "tree_at env s (Unborn p)" "links_ok s" for s
  proof -
    have e: "linked s a p = []" "parents s a p = []" "\<And>i q. (i, q) \<in> set (idlist s) \<Longrightarrow> q \<noteq> p"
      "\<And>path. owned s p path \<noteq> [] \<Longrightarrow> path = [''identifier'']" for a
      using that(1) by auto
    have l: "p \<notin> set (linked s a x)" "p \<notin> set (parents s a x)" for a x
      using links_okD [OF that(2), of p a x] links_okD [OF that(2), of x a p] e(1,2) [of a] by simp_all
    have "clean_unborn p s = prune (both (owned_cut p [[''identifier'']]) (table_cut p)) s"
      using e(2) by (simp add: clean_unborn_def Ov_GetParent_def free_owned_cut drop_linktable_cut cut_cut)
    also have "\<dots> = prune (clean_cut (Unborn p)) s"
      by (rule cut_cong) (use e l in \<open>auto simp: clean_cut_def\<close>)
    finally show ?thesis .
  qed
  then show ?case by (auto simp: cleans_def run_steps(2) Ov_GetParent_def)
next
  case (Object p cls ps ts)
  show ?case
    unfolding cleans_def
  proof (intro allI impI)
    fix s w
    assume t: "tree_at env s (Object p cls ps ts)" "links_ok s" "tree_ok (Object p cls ps ts)"
    let ?es = "elements env cls" and ?s = "prune (id_cut p) s"
    have d: "distinct (p # forest_addrs ps @ forest_addrs ts)"
      "set (p # forest_addrs ps @ forest_addrs ts) \<inter> set (forest_classes ps @ forest_classes ts) = {}"
      "cls \<notin> set (p # forest_addrs ps @ forest_addrs ts)"
      using t(3) by (auto simp: tree_ok_def forest_addrs_def forest_classes_def)
    have fits: "object_fits ?es s p" and off: "map root ps = map (\<lambda>off. p + off) (part_offsets ?es)"
      and lc: "linked s Containment p = map root ts" and pc: "parents s Instantiation p = [cls]" and lt: "linktable s p" and id: "has_id s p"
      using t(1) by simp_all
    have sp: "spares (id_cut p) u" if "u \<in> set ps \<union> set ts" for u
    proof -
      have "p \<notin> set (addrs u)" using forest_in(1) [of u] that d(1) by auto
      then show ?thesis by (auto simp: spares_def spares_sets_def)
    qed
    have "\<exists>w'. run_deletion env (Elems p ?es) (?s, w) = Some (finish_clean p (prune (elems_cut p ?es ps ts) ?s), w')"
    proof (rule elems_loop)
      show "tree_at env ?s u" if "u \<in> set ps" for u by (rule tree_at_cut [OF _ sp]) (use t(1) that in simp_all)
      show "tree_at env ?s u \<and> block_ok ?s u" if "u \<in> set ts" for u by (rule tree_pruned [OF _ sp]) (use t(1) that in simp_all)
    qed (use Object.IH t(2) d(1,2) lc off in auto)
    then obtain w' where w': "run_deletion env (Clean p) (s, w) = Some (finish_clean p (prune (elems_cut p ?es ps ts) ?s), w')"
      using lt pc id by (auto simp: run_steps(2) Ov_GetParent_def release_id_cut)
    have len: "length ps = length (part_offsets ?es)" using off by (metis length_map)
    note sets = elems_cut_links [OF len, of p ts] elems_cut_sets [OF len, of p ts]
    let ?k = "both (id_cut p) (elems_cut p ?es ps ts)"
    have cls: "Ov_GetClassPtr (prune ?k s) p = Some cls"
      using d lt pc by (auto simp: Ov_GetParent_def sets split: if_splits)
    have "finish_clean p (prune (elems_cut p ?es ps ts) ?s) = prune (both ?k (both (one_link Instantiation cls p) (table_cut p))) s"
      unfolding cut_cut finish_clean_def cls by (simp add: unlink_cut drop_linktable_cut cut_cut both_assoc)
    also have "\<dots> = prune (clean_cut (Object p cls ps ts)) s"
    proof (rule cut_cong)
      have A: "set (addrs (Object p cls ps ts)) = insert p (set (forest_addrs ps) \<union> set (forest_addrs ts))"
        by (auto simp: forest_addrs_def)
      have O: "set (own_addrs (Object p cls ps ts)) = insert p (\<Union>q \<in> set ps. set (own_addrs q))" by auto
      have par: "Parentlink Containment \<in> set ?es \<or> ts = []" using fits lc by (auto simp: object_fits_def)
      have ts: "set (forest_addrs ts) = (if Parentlink Containment \<in> set ?es then set (forest_addrs ts) else {})"
        using par by auto
      show "c_links (both ?k (both (one_link Instantiation cls p) (table_cut p))) a x c = c_links (clean_cut (Object p cls ps ts)) a x c"
        if "c \<in> set (linked s a x) \<or> x \<in> set (parents s a c)" for a x c
      proof -
        have l: "c \<in> set (linked s a x)" "x \<in> set (parents s a c)" using that links_okD [OF t(2)] by auto
        have "Parentlink a \<in> set ?es" if "x = p"
        proof -
          have "linked s a p \<noteq> []" using l(1) that by auto
          then show ?thesis using fits by (simp add: object_fits_def)
        qed
        moreover have "c \<in> set (forest_addrs ts)" if xa: "x = p" "a = Containment"
        proof -
          obtain u where "u \<in> set ts" "c = root u" using l(1) lc xa by auto
          then show ?thesis using forest_in(1) [of u ts] own_in_addrs [of u] by blast
        qed
        moreover have "x = cls" if "c = p" "a = Instantiation" using l(2) pc that by simp
        moreover have "Childlink a \<in> set ?es" if "c = p" "a \<noteq> Instantiation"
        proof -
          have "parents s a p \<noteq> []" using l(2) that by auto
          then show ?thesis using fits that(2) unfolding object_fits_def by blast
        qed
        ultimately show ?thesis using par d(3) unfolding clean_cut_def all_of_simps A both_simps sets step_cuts by auto
      qed
      show "q \<in> c_ids (both ?k (both (one_link Instantiation cls p) (table_cut p))) \<longleftrightarrow> q \<in> c_ids (clean_cut (Object p cls ps ts))" for q
        using ts unfolding clean_cut_def all_of_simps A both_simps sets step_cuts by auto
      show "c_owned (both ?k (both (one_link Instantiation cls p) (table_cut p))) x path = c_owned (clean_cut (Object p cls ps ts)) x path"
        if "owned s x path \<noteq> []" for x path
        using par fits that unfolding clean_cut_def all_of_simps A both_simps sets step_cuts object_fits_def by auto
      show "q \<in> c_tables (both ?k (both (one_link Instantiation cls p) (table_cut p))) \<longleftrightarrow> q \<in> c_tables (clean_cut (Object p cls ps ts))" for q
        using ts unfolding clean_cut_def all_of_simps A both_simps sets step_cuts by auto
      have H: "c_heads (both ?k (both (one_link Instantiation cls p) (table_cut p))) = c_heads (clean_cut (Object p cls ps ts))"
      proof -
        have own: "set (own_addrs q) \<subseteq> set (forest_addrs ps)" if "q \<in> set ps" for q
          using own_in_addrs(1) [of q] forest_in(1) [OF that] by blast
        have other: "x \<notin> set (own_addrs q)" if "x \<in> set (addrs r)" "r \<in> set ps" "q \<in> set ps" "x \<notin> set (own_addrs r)" for x q r
        proof
          assume "x \<in> set (own_addrs q)"
          then have "x \<in> set (addrs q)" using own_in_addrs(1) by blast
          moreover have "q \<noteq> r" using that(4) \<open>x \<in> set (own_addrs q)\<close> by auto
          ultimately show False using forest_disjoint [of ps q r] d(1) that by auto
        qed
        have L: "c_heads (both ?k (both (one_link Instantiation cls p) (table_cut p))) =
          (\<Union>q \<in> set ps. set (addrs q) - set (own_addrs q)) \<union> set (forest_addrs ts)"
          using ts unfolding both_simps sets step_cuts by simp
        have R: "c_heads (clean_cut (Object p cls ps ts)) =
          insert p (set (forest_addrs ps) \<union> set (forest_addrs ts)) - insert p (\<Union>q \<in> set ps. set (own_addrs q))"
          unfolding clean_cut_def all_of_simps A O ..
        have PS: "x \<in> set (forest_addrs ps) \<longleftrightarrow> (\<exists>r \<in> set ps. x \<in> set (addrs r))" for x by (simp add: forest_addrs_def)
        show ?thesis
          unfolding L R
        proof (intro equalityI subsetI)
          fix x assume "x \<in> (\<Union>q \<in> set ps. set (addrs q) - set (own_addrs q)) \<union> set (forest_addrs ts)"
          then show "x \<in> insert p (set (forest_addrs ps) \<union> set (forest_addrs ts)) - insert p (\<Union>q \<in> set ps. set (own_addrs q))"
          proof
            assume "x \<in> (\<Union>q \<in> set ps. set (addrs q) - set (own_addrs q))"
            then show ?thesis using other PS [of x] d(1) by auto
          next
            assume "x \<in> set (forest_addrs ts)"
            then show ?thesis using own d(1) by auto
          qed
        next
          fix x assume "x \<in> insert p (set (forest_addrs ps) \<union> set (forest_addrs ts)) - insert p (\<Union>q \<in> set ps. set (own_addrs q))"
          then show "x \<in> (\<Union>q \<in> set ps. set (addrs q) - set (own_addrs q)) \<union> set (forest_addrs ts)"
            using PS [of x] by auto
        qed
      qed
      show "q \<in> c_heads (both ?k (both (one_link Instantiation cls p) (table_cut p))) \<longleftrightarrow> q \<in> c_heads (clean_cut (Object p cls ps ts))" for q
        unfolding H ..
      then show "q \<in> c_heads (both ?k (both (one_link Instantiation cls p) (table_cut p))) \<longleftrightarrow> q \<in> c_heads (clean_cut (Object p cls ps ts))" for q .
    qed
    finally show "\<exists>w'. run_deletion env (Clean (root (Object p cls ps ts))) (s, w) = Some (prune (clean_cut (Object p cls ps ts)) s, w')"
      using w' by simp
  qed
qed

section \<open>Deleting an object\<close>

text \<open>A database without the objects at \<open>S\<close>.\<close>

definition without :: "objptr set \<Rightarrow> objtree \<Rightarrow> objtree" where
  "without S s =
    \<lparr>heads = (\<lambda>p. if p \<in> S then None else heads s p),
     linktable = (\<lambda>p. linktable s p \<and> p \<notin> S),
     linked = (\<lambda>a p. if p \<in> S then [] else filter (\<lambda>c. c \<notin> S) (linked s a p)),
     parents = (\<lambda>a c. if c \<in> S then [] else filter (\<lambda>p. p \<notin> S) (parents s a c)),
     idlist = filter (\<lambda>(i, p). p \<notin> S) (idlist s),
     owned = (\<lambda>p. if p \<in> S then (\<lambda>path. []) else owned s p),
     blocks = (\<lambda>p. if p \<in> S then None else blocks s p)\<rparr>"

lemma delete_cut_without: "prune (delete_cut t) s = without (set (addrs t)) s"
  by (rule objtree_eqI) (auto simp: delete_cut_def without_def)

lemma other_tree_kept:
  assumes "tree_at env s u" "set (addrs u) \<inter> set (addrs t) = {}" "set (tree_classes u) \<inter> set (addrs t) = {}"
  shows "tree_at env (without (set (addrs t)) s) u"
  unfolding delete_cut_without [symmetric]
  by (rule tree_at_cut [OF assms(1)]) (use assms(2,3) in \<open>auto simp: delete_cut_def intro: spares_all_of\<close>)

section \<open>An example\<close>

text \<open>Class 1 is a domain with a part of class 2 at the offset 4; both are instances of class 3. The
  root at 50 contains an object of class 2 at 100.\<close>

definition obj_var :: variable where
  "obj_var = Variable ''identifier'' 0 OV_VT_STRING 1 []"

definition obj_elements :: "classptr \<Rightarrow> elem list" where
  "obj_elements cls =
    (if cls = 1 \<or> cls = 2 then
       [Var obj_var, Childlink Instantiation, Childlink Containment] @
       (if cls = 1 then [Part 4 2 ''sub'', Parentlink Containment] else [])
     else [])"

definition obj_env :: "unit classes" where
  "obj_env = \<lparr>elements = obj_elements, v_size = (\<lambda>cls. if cls = 1 then 8 else 4), v_classprops = (\<lambda>cls. 1),
     has_vtable = (\<lambda>cls. True), class_class = (\<lambda>cls. cls = 3), domain_class = (\<lambda>cls. cls = 1),
     m_constructor = (\<lambda>cls p w. (OV_ERR_OK, w)), m_checkinit = (\<lambda>cls p w. (OV_ERR_OK, w)), m_startup = (\<lambda>cls p w. w),
     m_shutdown = (\<lambda>cls p w. w), m_destructor = (\<lambda>cls p w. w), m_rename = (\<lambda>cls p newid parent. OV_ERR_OK),
     unlink_effect = (\<lambda>a p c w. w), maxHierarchyDepth = 0, maxNameLength = 0, maxStringLength = 0, ov_activitylock = False\<rparr>"

definition obj_head :: "string \<Rightarrow> objptr option \<Rightarrow> 64 word \<Rightarrow> object_head" where
  "obj_head name outer i =
    \<lparr>h_identifier = name, h_creationtime = \<lparr>secs = 0, usecs = 0\<rparr>, h_pouterobject = outer, h_id = i\<rparr>"

definition obj_db :: objtree where
  "obj_db =
    \<lparr>heads = [1 \<mapsto> obj_head ''plant'' None 1, 2 \<mapsto> obj_head ''unit'' None 2, 50 \<mapsto> obj_head ''root'' None 3,
       54 \<mapsto> obj_head ''sub'' (Some 50) 4, 100 \<mapsto> obj_head ''pump'' None 5],
     linktable = (\<lambda>p. p \<in> {1, 2, 50, 54, 100}),
     linked = (\<lambda>a p. if a = Instantiation then (if p = 1 then [50] else if p = 2 then [54, 100] else if p = 3 then [1, 2] else [])
       else if a = Containment \<and> p = 50 then [100] else []),
     parents = (\<lambda>a c. if a = Instantiation then
         (if c = 50 then [1] else if c = 54 \<or> c = 100 then [2] else if c = 1 \<or> c = 2 then [3] else [])
       else if a = Containment \<and> c = 100 then [50] else []),
     idlist = [(1, 1), (2, 2), (3, 50), (4, 54), (5, 100)],
     owned = (\<lambda>p path. if p \<in> {50, 54, 100} \<and> path = [''identifier''] then [p + 500] else []),
     blocks = [50 \<mapsto> 8, 100 \<mapsto> 4]\<rparr>"

definition obj_tree :: otree where
  "obj_tree = Object 50 1 [Object 54 2 [] []] [Object 100 2 [] []]"

lemma obj_paths: "variable_paths obj_var = [[''identifier'']]"
  by (simp add: obj_var_def var_frees_def OV_VT_STRING_def OV_VT_KSMASK_def OV_VT_STRUCT_def Let_def)

lemma obj_links: "links_ok obj_db"
  by (auto simp: links_ok_def obj_db_def split: if_splits)

lemma obj_fits:
  "object_fits (obj_elements 1) obj_db 50" "object_fits (obj_elements 2) obj_db 54" "object_fits (obj_elements 2) obj_db 100"
  by (auto simp: object_fits_def obj_elements_def obj_db_def obj_paths split: if_splits)

lemma obj_tree_at: "tree_at obj_env obj_db obj_tree"
  using obj_fits
  by (simp add: obj_tree_def obj_env_def) (simp add: obj_db_def obj_elements_def has_id_def obj_head_def block_ok_def outer_object_def)

lemma obj_block: "block_ok obj_db obj_tree" "tree_ok obj_tree"
  by (auto simp: block_ok_def outer_object_def obj_tree_def obj_db_def obj_head_def tree_ok_def split: if_splits)

text \<open>C2: Deleting an object removes it, its parts and what it contains, to any depth, and nothing
  else: the database afterwards is the one before without the objects of the tree, their links from
  both sides, ids, link tables and the memory of their variables; the other objects stay as they are.\<close>

theorem deletion_removes_the_tree:
  assumes "tree_at env s t" "block_ok s t" "tree_ok t" "links_ok s"
  shows "\<exists>w'. ov_class_deleteobject env (Some (root t)) (s, w) = Some (OV_ERR_OK, without (set (addrs t)) s, w') \<and>
    links_ok (without (set (addrs t)) s) \<and>
    (\<forall>u. tree_at env s u \<and> set (addrs u) \<inter> set (addrs t) = {} \<and> set (tree_classes u) \<inter> set (addrs t) = {} \<longrightarrow>
      tree_at env (without (set (addrs t)) s) u)"
proof -
  obtain w' where "run_deletion env (Delete (root t)) (s, w) = Some (prune (delete_cut t) s, w')"
    using deletes [OF cleans_all assms(1,4,3,2)] by blast
  then have "ov_class_deleteobject env (Some (root t)) (s, w) = Some (OV_ERR_OK, without (set (addrs t)) s, w')"
    using assms(2) by (simp add: ov_class_deleteobject_def block_ok_def delete_cut_without)
  moreover have "links_ok (without (set (addrs t)) s)"
    unfolding delete_cut_without [symmetric] by (rule links_ok_cut [OF assms(4)])
  ultimately show ?thesis using other_tree_kept by blast
qed

theorem deletion_removes_the_tree_witness:
  "\<forall>w. \<exists>w'. ov_class_deleteobject obj_env (Some 50) (obj_db, w) = Some (OV_ERR_OK, without {50, 54, 100} obj_db, w') \<and>
    linked (without {50, 54, 100} obj_db) Instantiation 2 = []"
proof
  fix w
  show "\<exists>w'. ov_class_deleteobject obj_env (Some 50) (obj_db, w) = Some (OV_ERR_OK, without {50, 54, 100} obj_db, w') \<and>
      linked (without {50, 54, 100} obj_db) Instantiation 2 = []"
    using deletion_removes_the_tree [OF obj_tree_at obj_block obj_links, of w]
    by (auto simp: obj_tree_def without_def obj_db_def)
qed

end
