(* ===== verification/OvObjectCreate.thy ===== *)
theory OvObjectCreate
  imports OvObjectTree
begin

text \<open>
  Creating objects: the preinitialisation lets the database grow by a tree, of which parts are not
  initialised when it fails, and deleting that tree gives the old database back.
\<close>

section \<open>Classes that fit together\<close>

fun apart :: "'w classes \<Rightarrow> elem list \<Rightarrow> bool" where
  "apart env [] \<longleftrightarrow> True"
| "apart env (Part off cls name # es) \<longleftrightarrow>
    (\<forall>off' cls' name'. Part off' cls' name' \<in> set es \<longrightarrow>
      off + v_size env cls \<le> off' \<or> off' + v_size env cls' \<le> off) \<and> apart env es"
| "apart env (e # es) \<longleftrightarrow> apart env es"

text \<open>Every class of \<open>C\<close> has an identifier, can be contained, and has its parts behind its own head,
  inside of the object and without overlap; their classes are in \<open>C\<close>, too.\<close>

definition classes_ok :: "'w classes \<Rightarrow> classptr set \<Rightarrow> bool" where
  "classes_ok env C \<longleftrightarrow> (\<forall>cls \<in> C. 0 < v_size env cls \<and> Childlink Containment \<in> set (elements env cls) \<and>
     (\<exists>v. Var v \<in> set (elements env cls) \<and> [''identifier''] \<in> set (variable_paths v)) \<and> apart env (elements env cls) \<and>
     (\<forall>off c name. Part off c name \<in> set (elements env cls) \<longrightarrow> c \<in> C \<and> 0 < off \<and> off + v_size env c \<le> v_size env cls))"

definition region :: "'w classes \<Rightarrow> objptr \<Rightarrow> elem list \<Rightarrow> objptr set" where
  "region env p es = (\<Union>e \<in> set es. case e of Part off cls name \<Rightarrow> {p + off..<p + off + v_size env cls} | _ \<Rightarrow> {})"

lemma region_simps [simp]:
  "region env p [] = {}" "region env p (Part off cls name # es) = {p + off..<p + off + v_size env cls} \<union> region env p es"
  "region env p (Var v # es) = region env p es" "region env p (Parentlink a # es) = region env p es"
  "region env p (Childlink a # es) = region env p es"
  by (simp_all add: region_def)

lemma in_region: "q \<in> region env p es \<longleftrightarrow> (\<exists>off cls name. Part off cls name \<in> set es \<and> p + off \<le> q \<and> q < p + off + v_size env cls)"
proof (induction es)
  case (Cons e es)
  then show ?case by (cases e) auto
qed simp

lemma apart_region: "apart env (Part off cls name # es) \<Longrightarrow> {p + off..<p + off + v_size env cls} \<inter> region env p es = {}"
  by (auto simp: in_region) (metis add.assoc add_le_cancel_left le_trans linorder_not_le)+

lemma region_inside:
  assumes "classes_ok env C" "cls \<in> C"
  shows "region env p (elements env cls) \<subseteq> {p<..<p + v_size env cls}"
  using assms by (fastforce simp: classes_ok_def in_region)

section \<open>Growing\<close>

definition ids_ok :: "objtree \<Rightarrow> bool" where
  "ids_ok s \<longleftrightarrow> sorted_wrt (<) (map fst (idlist s)) \<and> 0 < last_id s"

definition fresh_at :: "objtree \<Rightarrow> objptr \<Rightarrow> bool" where
  "fresh_at s q \<longleftrightarrow> heads s q = None \<and> \<not> linktable s q \<and> (\<forall>a. linked s a q = [] \<and> parents s a q = []) \<and>
     q \<notin> snd ` set (idlist s) \<and> (\<forall>path. owned s q path = [])"

text \<open>The objects at \<open>A\<close> are new, and they are linked to their classes, which are in \<open>C\<close>.\<close>

definition grows :: "objptr set \<Rightarrow> classptr set \<Rightarrow> objtree \<Rightarrow> objtree \<Rightarrow> bool" where
  "grows A C s s' \<longleftrightarrow>
     (\<forall>q. q \<notin> A \<longrightarrow> heads s' q = heads s q \<and> linktable s' q = linktable s q \<and> owned s' q = owned s q \<and>
       (\<forall>a. parents s' a q = parents s a q) \<and> (\<forall>a. a \<noteq> Instantiation \<or> q \<notin> C \<longrightarrow> linked s' a q = linked s a q) \<and>
       filter (\<lambda>c. c \<notin> A) (linked s' Instantiation q) = linked s Instantiation q) \<and>
     (\<forall>q \<in> A. \<forall>a. linked s' a q = [] \<and> (\<forall>r \<in> set (parents s' a q). a = Instantiation \<and> r \<in> C)) \<and>
     (\<exists>ids. idlist s' = idlist s @ ids \<and> snd ` set ids \<subseteq> A) \<and> blocks s' = blocks s"

lemma growsD:
  assumes "grows A C s s'"
  shows "q \<notin> A \<Longrightarrow> heads s' q = heads s q" "q \<notin> A \<Longrightarrow> linktable s' q = linktable s q" "q \<notin> A \<Longrightarrow> owned s' q = owned s q"
    "q \<notin> A \<Longrightarrow> parents s' a q = parents s a q" "q \<notin> A \<Longrightarrow> a \<noteq> Instantiation \<or> q \<notin> C \<Longrightarrow> linked s' a q = linked s a q"
    "q \<notin> A \<Longrightarrow> filter (\<lambda>c. c \<notin> A) (linked s' Instantiation q) = linked s Instantiation q" "q \<in> A \<Longrightarrow> linked s' a q = []"
    "q \<in> A \<Longrightarrow> r \<in> set (parents s' a q) \<Longrightarrow> a = Instantiation \<and> r \<in> C" "blocks s' = blocks s"
  using assms unfolding grows_def by blast+

lemma grows_ids: "grows A C s s' \<Longrightarrow> \<exists>ids. idlist s' = idlist s @ ids \<and> snd ` set ids \<subseteq> A"
  by (simp add: grows_def)

lemma grows_refl [simp]: "grows {} C s s"
  by (simp add: grows_def)

lemma grows_trans:
  assumes "grows A C s s1" "grows B C s1 s2" "A \<inter> B = {}" "A \<inter> C = {}"
  shows "grows (A \<union> B) C s s2"
proof -
  note a = growsD [OF assms(1)] and b = growsD [OF assms(2)]
  have f: "filter (\<lambda>c. c \<notin> A \<union> B) (linked s2 Instantiation q) = linked s Instantiation q" if "q \<notin> A \<union> B" for q
  proof -
    have "filter (\<lambda>c. c \<notin> A \<union> B) (linked s2 Instantiation q) = filter (\<lambda>c. c \<notin> A) (filter (\<lambda>c. c \<notin> B) (linked s2 Instantiation q))"
      by (simp add: conj_commute)
    also have "\<dots> = linked s Instantiation q" by (subst b(6)) (use a(6) [of q] that in auto)
    finally show ?thesis .
  qed
  have l: "linked s2 x q = [] \<and> (\<forall>r \<in> set (parents s2 x q). x = Instantiation \<and> r \<in> C)" if "q \<in> A \<union> B" for q x
  proof (cases "q \<in> B")
    case True
    then show ?thesis using b(7,8) by blast
  next
    case False
    then have q: "q \<in> A" "q \<notin> C" using that assms(4) by auto
    have "linked s2 x q = linked s1 x q" using b(5) [OF False] q(2) by simp
    then show ?thesis using a(7,8) [OF q(1)] b(4) [OF False] by simp
  qed
  obtain i j where "idlist s1 = idlist s @ i" "snd ` set i \<subseteq> A" "idlist s2 = idlist s1 @ j" "snd ` set j \<subseteq> B"
    using grows_ids [OF assms(1)] grows_ids [OF assms(2)] by blast
  then have "\<exists>ids. idlist s2 = idlist s @ ids \<and> snd ` set ids \<subseteq> A \<union> B"
    by (intro exI [of _ "i @ j"]) auto
  then show ?thesis unfolding grows_def using f l a(1-5,9) b(1-5,9) by simp
qed

lemma fresh_kept: "fresh_at s q \<Longrightarrow> grows A C s s' \<Longrightarrow> q \<notin> A \<Longrightarrow> q \<notin> C \<Longrightarrow> fresh_at s' q"
proof -
  assume f: "fresh_at s q" and g: "grows A C s s'" and q: "q \<notin> A" "q \<notin> C"
  obtain ids where "idlist s' = idlist s @ ids" "snd ` set ids \<subseteq> A" using grows_ids [OF g] by blast
  then have "q \<notin> snd ` set (idlist s')" using f q(1) by (auto simp: fresh_at_def)
  then show "fresh_at s' q" using f growsD(1-5) [OF g q(1)] q(2) by (simp add: fresh_at_def)
qed

lemma has_id_kept:
  assumes "has_id s p" "grows A C s s'" "p \<notin> A" "ids_ok s'"
  shows "has_id s' p"
proof -
  obtain h where h: "heads s p = Some h" "(h_id h, p) \<in> set (idlist s)" "\<And>i q. (i, q) \<in> set (idlist s) \<Longrightarrow> q = p \<longleftrightarrow> i = h_id h"
    using assms(1) by (auto simp: has_id_def)
  obtain ids where ids: "idlist s' = idlist s @ ids" "snd ` set ids \<subseteq> A" using grows_ids [OF assms(2)] by blast
  have "q \<noteq> p \<and> i \<noteq> h_id h" if "(i, q) \<in> set ids" for i q
  proof -
    have "\<forall>x \<in> set (map fst (idlist s)). \<forall>y \<in> set (map fst ids). x < y"
      using assms(4) ids(1) by (simp add: ids_ok_def sorted_wrt_append)
    moreover have "h_id h \<in> set (map fst (idlist s))" "i \<in> set (map fst ids)"
      using image_eqI [OF _ h(2), of "h_id h" fst] image_eqI [OF _ that, of i fst] by simp_all
    ultimately have "h_id h < i" by blast
    moreover have "q \<in> A" using ids(2) that by force
    ultimately show ?thesis using assms(3) by auto
  qed
  then show ?thesis unfolding has_id_def using h growsD(1) [OF assms(2,3)] ids(1) by auto
qed

lemma object_fits_kept: "object_fits es s p \<Longrightarrow> grows A C s s' \<Longrightarrow> p \<notin> A \<Longrightarrow> p \<notin> C \<Longrightarrow> object_fits es s' p"
  by (simp add: object_fits_def growsD(3-5))

definition blocks_clear :: "objtree \<Rightarrow> objptr set \<Rightarrow> otree \<Rightarrow> bool" where
  "blocks_clear s A t \<longleftrightarrow> (\<forall>b n. b \<in> set (addrs t) \<longrightarrow> blocks s b = Some n \<longrightarrow> {b..<b + n} \<inter> A = {})"

lemma blocks_clear_sub: "blocks_clear s A (Object p cls ps ts) \<Longrightarrow> t \<in> set ps \<or> t \<in> set ts \<Longrightarrow> blocks_clear s A t"
  by (auto simp: blocks_clear_def)

lemma block_ok_kept:
  assumes "block_ok s t" "grows A C s s'" "set (addrs t) \<inter> A = {}" "blocks_clear s A t"
  shows "block_ok s' t"
proof -
  have r: "root t \<in> set (addrs t)" using own_in_addrs by blast
  then have "root t \<notin> A" using assms(3) by blast
  then have o': "outer_object s' (root t) = outer_object s (root t)" using growsD(1) [OF assms(2)] by (simp add: outer_object_def)
  obtain n where n: "blocks s (root t) = Some n" "\<And>q. heads s q \<noteq> None \<Longrightarrow> root t \<le> q \<and> q < root t + n \<longleftrightarrow> q \<in> set (own_addrs t)"
    using assms(1) by (auto simp: block_ok_def)
  have "root t \<le> q \<and> q < root t + n \<longleftrightarrow> q \<in> set (own_addrs t)" if "heads s' q \<noteq> None" for q
  proof (cases "q \<in> A")
    case True
    then have "q \<notin> set (own_addrs t)" using assms(3) own_in_addrs(1) [of t] by blast
    moreover have "{root t..<root t + n} \<inter> A = {}" using assms(4) n(1) r by (simp add: blocks_clear_def)
    then have "\<not> (root t \<le> q \<and> q < root t + n)" using True by (auto simp: disjoint_iff)
    ultimately show ?thesis by blast
  next
    case False
    then show ?thesis using n(2) growsD(1) [OF assms(2)] that by simp
  qed
  then show ?thesis using assms(1) n(1) o' growsD(9) [OF assms(2)] by (auto simp: block_ok_def)
qed

lemma tree_kept:
  "tree_at env s t \<Longrightarrow> grows A C s s' \<Longrightarrow> set (addrs t) \<inter> (A \<union> C) = {} \<Longrightarrow> ids_ok s' \<Longrightarrow> blocks_clear s A t \<Longrightarrow> tree_at env s' t"
proof (induction t)
  case (Object p cls ps ts)
  have a: "set (addrs t) \<inter> (A \<union> C) = {}" if "t \<in> set ps \<or> t \<in> set ts" for t using Object.prems(3) that by auto
  have "tree_at env s' t" if "t \<in> set ps" for t
    by (rule Object.IH(1) [OF that _ Object.prems(2) a Object.prems(4) blocks_clear_sub [OF Object.prems(5)]]) (use that Object.prems(1) in auto)
  moreover have "tree_at env s' t" if "t \<in> set ts" for t
    by (rule Object.IH(2) [OF that _ Object.prems(2) a Object.prems(4) blocks_clear_sub [OF Object.prems(5)]]) (use that Object.prems(1) in auto)
  ultimately have sub: "tree_at env s' t" if "t \<in> set ps \<or> t \<in> set ts" for t using that by blast
  have blk: "block_ok s' t" if "t \<in> set ts" for t
    by (rule block_ok_kept [OF _ Object.prems(2)]) (use that Object.prems(1) a [of t] blocks_clear_sub [OF Object.prems(5), of t] in auto)
  have p: "p \<notin> A" "p \<notin> C" using Object.prems(3) by auto
  show ?case
    using Object.prems(1) sub blk growsD(2,4,5) [OF Object.prems(2) p(1)] p(2) has_id_kept [OF _ Object.prems(2) p(1) Object.prems(4)]
      object_fits_kept [OF _ Object.prems(2) p]
    by simp
next
  case (Unborn p)
  have p: "p \<notin> A" "p \<notin> C" using Unborn.prems(3) by auto
  obtain ids where "idlist s' = idlist s @ ids" "snd ` set ids \<subseteq> A" using grows_ids [OF Unborn.prems(2)] by blast
  then show ?case using Unborn.prems(1) p growsD(3-5) [OF Unborn.prems(2) p(1)] by auto
qed

section \<open>Preinitialising one object\<close>

text \<open>Only the head and the memory of the object at \<open>p\<close> may differ.\<close>

definition same_but :: "objptr \<Rightarrow> objtree \<Rightarrow> objtree \<Rightarrow> bool" where
  "same_but p s s' \<longleftrightarrow> (\<forall>q. q \<noteq> p \<longrightarrow> heads s' q = heads s q \<and> owned s' q = owned s q) \<and>
     (\<forall>path. path \<noteq> [''identifier''] \<longrightarrow> owned s' p path = owned s p path) \<and>
     linktable s' = linktable s \<and> linked s' = linked s \<and> parents s' = parents s \<and> idlist s' = idlist s \<and> blocks s' = blocks s"

lemma same_but_refl [simp]: "same_but p s s"
  by (simp add: same_but_def)

lemma set_head_simps [simp]:
  "linktable (set_head p f s) = linktable s" "linked (set_head p f s) = linked s" "parents (set_head p f s) = parents s"
  "idlist (set_head p f s) = idlist s" "owned (set_head p f s) = owned s" "blocks (set_head p f s) = blocks s"
  "q \<noteq> p \<Longrightarrow> heads (set_head p f s) q = heads s q"
  "heads (set_head p f s) p = Some (f (case heads s p of None \<Rightarrow> zero_head | Some h \<Rightarrow> h))"
  by (simp_all add: set_head_def)

lemma set_identifier_effect:
  assumes "set_identifier env p value (s, w) = (r, s', w')"
  shows "same_but p s s'" "outer_object s' p = outer_object s p" "r = OV_ERR_OK \<Longrightarrow> identifier_of s' p = value"
    "Ov_Fail r \<Longrightarrow> s' = s"
proof -
  obtain a w1 where a: "next_alloc w = (a, w1)" by fastforce
  have 1: "outer_object s' p = outer_object s p" and 2: "r = OV_ERR_OK \<Longrightarrow> identifier_of s' p = value" and 3: "Ov_Fail r \<Longrightarrow> s' = s"
    using assms a
    by (auto simp: set_identifier_def free_owned_def outer_object_def identifier_of_def Ov_Fail_def zero_head_def
        split: if_splits option.splits)
  show "same_but p s s'"
    using assms a by (auto simp: set_identifier_def same_but_def free_owned_def split: if_splits option.splits)
  show "outer_object s' p = outer_object s p" by (rule 1)
  show "identifier_of s' p = value" if "r = OV_ERR_OK" by (rule 2 [OF that])
  show "s' = s" if "Ov_Fail r" by (rule 3 [OF that])
qed

text \<open>What \<open>preinit_object\<close> leaves: an object that is not registered, or one with an id.\<close>

definition half_born :: "objptr \<Rightarrow> objtree \<Rightarrow> bool" where
  "half_born p s \<longleftrightarrow> (\<forall>a. linked s a p = [] \<and> parents s a p = []) \<and> (\<forall>path. owned s p path \<noteq> [] \<longrightarrow> path = [''identifier''])"

lemma new_linktable_fresh:
  assumes "fresh_at s p"
  shows "linked (new_linktable p s) = linked s" "parents (new_linktable p s) = parents s"
  using assms by (auto simp: new_linktable_def fresh_at_def fun_eq_iff)

lemma idlist_snoc_ok:
  assumes "ids_ok s" "last_id s < i"
  shows "ids_ok (s\<lparr>idlist := idlist s @ [(i, p)]\<rparr>)" "j \<in> fst ` set (idlist s) \<Longrightarrow> j < i"
proof -
  have le: "j \<le> last_id s" if j: "j \<in> fst ` set (idlist s)" for j
  proof -
    obtain xs x where s: "idlist s = xs @ [x]" using j by (cases "idlist s" rule: rev_cases) auto
    then show ?thesis using assms(1) j by (auto simp: ids_ok_def last_id_def sorted_wrt_append)
  qed
  then show "j \<in> fst ` set (idlist s) \<Longrightarrow> j < i" using assms(2) by fastforce
  have "0 < i" using assms by (auto simp: ids_ok_def)
  then show "ids_ok (s\<lparr>idlist := idlist s @ [(i, p)]\<rparr>)"
    using assms le by (fastforce simp: ids_ok_def sorted_wrt_append last_id_def)
qed

lemma preinit_object_result:
  assumes "fresh_at s p" "ids_ok s" "links_ok s" "preinit_object env time p identifier pouter (s, w) = (r, s', w')"
  shows "grows {p} C s s' \<and> ids_ok s' \<and> links_ok s' \<and> half_born p s' \<and> outer_object s' p \<in> {None, pouter} \<and>
    (if Ov_Fail r then p \<notin> snd ` set (idlist s')
     else linktable s' p \<and> has_id s' p \<and> identifier_of s' p = identifier \<and> outer_object s' p = pouter)"
proof -
  obtain table w1 where t: "next_alloc w = (table, w1)" by fastforce
  have base: "grows {p} C s x \<and> ids_ok x \<and> links_ok x \<and> half_born p x \<and> p \<notin> snd ` set (idlist x)"
    if "same_but p (s\<lparr>linktable := (linktable s)(p := b)\<rparr>) x" for x b
  proof -
    have x: "linked x = linked s" "parents x = parents s" "idlist x = idlist s" "blocks x = blocks s"
      "\<And>q. q \<noteq> p \<Longrightarrow> heads x q = heads s q \<and> owned x q = owned s q \<and> linktable x q = linktable s q"
      "\<And>path. path \<noteq> [''identifier''] \<Longrightarrow> owned x p path = owned s p path"
      using that by (auto simp: same_but_def)
    have p: "linked s a p = []" "parents s a p = []" "p \<notin> snd ` set (idlist s)" "\<And>path. owned s p path = []" for a
      using assms(1) by (auto simp: fresh_at_def)
    have f: "filter (\<lambda>c. c \<noteq> p) (linked s a q) = linked s a q" for a q
    proof (rule filter_True)
      show "\<forall>c \<in> set (linked s a q). c \<noteq> p" using links_okD [OF assms(3)] p(2) [of a] by auto
    qed
    show ?thesis
      using x p f assms(2,3) by (auto simp: grows_def ids_ok_def links_ok_def half_born_def last_id_def)
  qed
  show ?thesis
  proof (cases table)
    case None
    have "s' = drop_linktable p s" "r = OV_ERR_DBOUTOFMEMORY"
      using assms(4) t None by (auto simp: preinit_object_def)
    moreover have "outer_object (drop_linktable p s) p = None"
      using assms(1) by (simp add: outer_object_def drop_linktable_def fresh_at_def)
    ultimately show ?thesis
      using base [of False "drop_linktable p s"] by (simp add: Ov_Fail_def drop_linktable_def)
  next
    case (Some tab)
    obtain r1 s1 w2 where i: "set_identifier env p identifier (new_linktable p s, w1) = (r1, s1, w2)"
      by (cases "set_identifier env p identifier (new_linktable p s, w1)") auto
    note e = set_identifier_effect [OF i]
    have nl: "new_linktable p s = s\<lparr>linktable := (linktable s)(p := True)\<rparr>"
      using new_linktable_fresh [OF assms(1)] by (intro objtree_eqI) (simp_all, simp_all add: new_linktable_def)
    have o1: "outer_object s1 p = None" using e(2) assms(1) by (simp add: nl outer_object_def fresh_at_def)
    show ?thesis
    proof (cases "Ov_Fail r1")
      case True
      then have "s' = s1" "r = r1" using assms(4) t Some i by (auto simp: preinit_object_def)
      then show ?thesis using base [of True s1] e(1) nl o1 True by simp
    next
      case False
      obtain ok h l counter where g: "ov_database_getId (idCounter w2) = (ok, (h, l), counter)" by (metis prod.exhaust)
      let ?i = "ov_database_convertId h l" and ?w = "w2\<lparr>v_objectstate := (v_objectstate w2)(p := OV_OS_NONE), idCounter := counter\<rparr>"
      let ?s = "set_head p (\<lambda>h. h\<lparr>h_creationtime := time, h_pouterobject := pouter, h_id := ?i\<rparr>) s1"
      have run: "(if \<not> ok then (OV_ERR_DBOUTOFMEMORY, ?s, ?w) else insert_id ?i p (?s, ?w)) = (r, s', w')"
        using assms(4) t Some i False g by (simp add: preinit_object_def Let_def)
      have lt: "linktable s1 p" using e(1) nl by (simp add: same_but_def)
      have hd: "heads ?s p = Some h' \<Longrightarrow> h_id h' = ?i" for h' by auto
      have ou: "outer_object ?s p = pouter" by (simp add: outer_object_def)
      have idf: "identifier_of ?s p = identifier"
        using e(3) False by (auto simp: identifier_of_def Ov_Fail_def zero_head_def split: option.splits)
      have "same_but p (s\<lparr>linktable := (linktable s)(p := True)\<rparr>) ?s"
        using e(1) nl by (auto simp: same_but_def)
      note b = base [OF this]
      show ?thesis
      proof (cases "r = OV_ERR_OK")
        case True
        then have s': "s' = ?s\<lparr>idlist := idlist ?s @ [(?i, p)]\<rparr>" and lt_i: "last_id ?s < ?i"
          using run b by (auto simp: insert_id_def ids_ok_def split: if_splits)
        note ids = idlist_snoc_ok [OF _ lt_i]
        have "has_id s' p"
          unfolding has_id_def s' using ids(2) b hd by (fastforce simp: image_iff)
        moreover have "grows {p} C s s'" using b unfolding s' grows_def by fastforce
        ultimately show ?thesis
          using b ids(1) True lt ou idf unfolding s'
          by (simp add: Ov_Fail_def links_ok_def half_born_def outer_object_def identifier_of_def)
      next
        case no: False
        then have "s' = ?s" using run by (auto simp: insert_id_def split: if_splits)
        then show ?thesis using b no ou by (simp add: Ov_Fail_def)
      qed
    qed
  qed
qed

section \<open>Preinitialising a tree\<close>

definition grown_forest :: "'w classes \<Rightarrow> classptr set \<Rightarrow> objptr set \<Rightarrow> objtree \<Rightarrow> objtree \<Rightarrow> otree list \<Rightarrow> bool" where
  "grown_forest env C A s s' ts \<longleftrightarrow> set (forest_addrs ts) \<subseteq> A \<and> distinct (forest_addrs ts) \<and> set (forest_classes ts) \<subseteq> C \<and>
     (\<forall>t \<in> set ts. tree_at env s' t \<and> own_addrs t = addrs t) \<and> grows A C s s' \<and> ids_ok s' \<and> links_ok s' \<and>
     (\<forall>q \<in> A - set (forest_addrs ts). fresh_at s' q)"

lemma grown_forestD:
  assumes "grown_forest env C A s s' ts"
  shows "set (forest_addrs ts) \<subseteq> A" "distinct (forest_addrs ts)" "set (forest_classes ts) \<subseteq> C" "t \<in> set ts \<Longrightarrow> tree_at env s' t"
    "t \<in> set ts \<Longrightarrow> own_addrs t = addrs t" "grows A C s s'" "ids_ok s'" "links_ok s'"
    "q \<in> A \<Longrightarrow> q \<notin> set (forest_addrs ts) \<Longrightarrow> fresh_at s' q"
  using assms unfolding grown_forest_def by blast+

lemma grows_fresh:
  assumes "\<And>q. q \<in> A \<Longrightarrow> fresh_at s q" "links_ok s"
  shows "grows A C s s"
proof -
  have e: "linked s a q = []" "parents s a q = []" if "q \<in> A" for a q
    using assms(1) [OF that] by (auto simp: fresh_at_def)
  have "filter (\<lambda>c. c \<notin> A) (linked s Instantiation q) = linked s Instantiation q" for q
  proof (rule filter_True)
    show "\<forall>c \<in> set (linked s Instantiation q). c \<notin> A"
      using e(2) [of _ Instantiation] links_okD [OF assms(2), of _ Instantiation q] by fastforce
  qed
  then show ?thesis using e by (simp add: grows_def)
qed

lemma forest_cons:
  assumes "grown_forest env C A s s1 [t]" "grown_forest env C B s1 s2 ts" "A \<inter> B = {}" "A \<inter> C = {}"
    and "\<And>q. q \<in> A \<Longrightarrow> blocks s q = None"
  shows "grown_forest env C (A \<union> B) s s2 (t # ts)"
proof -
  note a = grown_forestD [OF assms(1)] and b = grown_forestD [OF assms(2)]
  have t: "tree_at env s2 t"
  proof (rule tree_kept [OF a(4) b(6) _ b(7)])
    show "set (addrs t) \<inter> (B \<union> C) = {}" using a(1) assms(3,4) by auto
    show "blocks_clear s1 B t"
      using a(1) assms(5) growsD(9) [OF a(6)] by (fastforce simp: blocks_clear_def)
  qed simp
  have f: "fresh_at s2 q" if q: "q \<in> A \<union> B" "q \<notin> set (forest_addrs (t # ts))" for q
  proof (cases "q \<in> A")
    case True
    then have "fresh_at s1 q" using a(9) q(2) by simp
    then show ?thesis by (rule fresh_kept [OF _ b(6)]) (use True assms(3,4) in auto)
  next
    case False
    then show ?thesis using b(9) q by simp
  qed
  show ?thesis
    unfolding grown_forest_def using a(1-3,5) b(1-5,7,8) t f grows_trans [OF a(6) b(6) assms(3,4)] assms(3) by auto
qed

lemma forest_Nil: "ids_ok s \<Longrightarrow> links_ok s \<Longrightarrow> grown_forest env C {} s s []"
  by (simp add: grown_forest_def)

lemma fresh_unborn: "fresh_at s p \<Longrightarrow> tree_at env s (Unborn p)"
  by (force simp: fresh_at_def)

lemma half_born_unborn: "half_born p s \<Longrightarrow> p \<notin> snd ` set (idlist s) \<Longrightarrow> tree_at env s (Unborn p)"
  by (force simp: half_born_def)

lemma forest_wider:
  assumes "grown_forest env C A s s' ts" "A \<subseteq> B" "B \<inter> C = {}" "\<And>q. q \<in> B - A \<Longrightarrow> fresh_at s q"
  shows "grown_forest env C B s s' ts"
proof -
  note a = grown_forestD [OF assms(1)]
  have f: "fresh_at s' q" if "q \<in> B - A" for q
    by (rule fresh_kept [OF assms(4) [OF that] a(6)]) (use that assms(3) in auto)
  have "grows (A \<union> (B - A)) C s s'"
    by (rule grows_trans [OF a(6) grows_fresh [OF f a(8)]]) (use assms(2,3) in auto)
  then have "grows B C s s'" using assms(2) by (simp add: Un_absorb1)
  moreover have "fresh_at s' q" if "q \<in> B" "q \<notin> set (forest_addrs ts)" for q
    using f [of q] a(9) [of q] that by blast
  ultimately show ?thesis unfolding grown_forest_def using a assms(2) by blast
qed

lemma unborn_forest:
  assumes "apart env es" "\<And>off c name. Part off c name \<in> set es \<Longrightarrow> 0 < v_size env c"
    and "\<And>q. q \<in> region env p es \<Longrightarrow> fresh_at s q \<and> blocks s q = None" "ids_ok s" "links_ok s" "region env p es \<inter> C = {}"
  shows "grown_forest env C (region env p es) s s (map (\<lambda>off. Unborn (p + off)) (part_offsets es))"
  using assms
proof (induction es)
  case Nil
  then show ?case by (simp add: forest_Nil)
next
  case (Cons e es)
  show ?case
  proof (cases e)
    case (Part off c name)
    let ?D = "{p + off..<p + off + v_size env c}"
    have n: "0 < v_size env c" using Cons.prems(2) Part by auto
    have fr: "fresh_at s q" "blocks s q = None" if "q \<in> ?D" for q using Cons.prems(3) [of q] that Part by auto
    have "tree_at env s (Unborn (p + off))" by (rule fresh_unborn [OF fr(1)]) (use n in simp)
    moreover have "grows {p + off} C s s" by (rule grows_fresh) (use n fr(1) Cons.prems(5) in auto)
    ultimately have "grown_forest env C {p + off} s s [Unborn (p + off)]"
      unfolding grown_forest_def using Cons.prems(4,5) by (simp del: tree_at.simps)
    then have "grown_forest env C ?D s s [Unborn (p + off)]"
      by (rule forest_wider) (use n fr(1) Cons.prems(6) Part in auto)
    moreover have "grown_forest env C (region env p es) s s (map (\<lambda>off. Unborn (p + off)) (part_offsets es))"
    proof (rule Cons.IH)
      show "apart env es" using Cons.prems(1) Part by simp
      show "fresh_at s q \<and> blocks s q = None" if "q \<in> region env p es" for q using Cons.prems(3) [of q] that Part by simp
    qed (use Cons.prems Part in auto)
    ultimately have "grown_forest env C (?D \<union> region env p es) s s (Unborn (p + off) # map (\<lambda>off. Unborn (p + off)) (part_offsets es))"
      by (rule forest_cons) (use apart_region [of env off c name es p] Cons.prems(1,6) Part fr in auto)
    then show ?thesis using Part by simp
  qed (use Cons in auto)
qed

lemma dolink_grows:
  assumes "grows {p} C s s1" "links_ok s1" "half_born p s1" "cls \<in> C" "p \<notin> C"
  defines "s2 \<equiv> dolink Instantiation cls p s1"
  shows "grows {p} C s s2" "links_ok s2" "parents s2 Instantiation p = [cls]" "linked s2 a p = []" "a \<noteq> Instantiation \<Longrightarrow> parents s2 a p = []"
proof -
  have h: "linked s1 a p = []" "parents s1 a p = []" for a using assms(3) by (auto simp: half_born_def)
  have ne: "cls \<noteq> p" using assms(4,5) by blast
  have "p \<notin> set (linked s1 a q)" for a q using links_okD [OF assms(2), of p a q] h(2) by simp
  then show "links_ok s2"
    using assms(2) h ne unfolding s2_def links_ok_def by (auto simp: dolink_def set_parents_def set_linked_def)
  show "grows {p} C s s2"
    using assms(1,4) h ne unfolding grows_def s2_def by (auto simp: dolink_def set_parents_def set_linked_def)
  show "parents s2 Instantiation p = [cls]" "linked s2 a p = []" "a \<noteq> Instantiation \<Longrightarrow> parents s2 a p = []"
    using h ne by (auto simp: s2_def dolink_def set_parents_def set_linked_def)
qed

lemma dolink_rest [simp]:
  "heads (dolink a p c s) = heads s" "linktable (dolink a p c s) = linktable s" "idlist (dolink a p c s) = idlist s"
  "owned (dolink a p c s) = owned s" "blocks (dolink a p c s) = blocks s"
  by (simp_all add: dolink_def set_parents_def set_linked_def)

lemma run_preinit_steps:
  "run_preinit env time (Preinit cls p identifier pouter) db =
    (case preinit_object env time p identifier pouter db of
       (result, db) \<Rightarrow> if Ov_Fail result then Some (result, db)
         else run_preinit env time (Parts p (elements env cls)) (dolink Instantiation cls p (fst db), snd db))"
  "run_preinit env time (Parts p []) db = Some (OV_ERR_OK, db)"
  "run_preinit env time (Parts p (Part off c name # es)) db =
    Option.bind (run_preinit env time (Preinit c (p + off) name (Some p)) db)
      (\<lambda>r. if Ov_Fail (fst r) then Some r else run_preinit env time (Parts p es) (snd r))"
  "run_preinit env time (Parts p (Var v # es)) db = run_preinit env time (Parts p es) db"
  "run_preinit env time (Parts p (Parentlink a # es)) db = run_preinit env time (Parts p es) db"
  "run_preinit env time (Parts p (Childlink a # es)) db = run_preinit env time (Parts p es) db"
  by (subst run_preinit.simps; simp)+

text \<open>All parts are initialised.\<close>

fun born :: "otree \<Rightarrow> bool" where
  "born (Object p cls ps ts) \<longleftrightarrow> (\<forall>t \<in> set ps. born t) \<and> (\<forall>t \<in> set ts. born t)"
| "born (Unborn p) \<longleftrightarrow> False"

definition preinits :: "'w classes \<Rightarrow> OV_TIME \<Rightarrow> classptr set \<Rightarrow> classptr \<Rightarrow> bool" where
  "preinits env time C cls \<longleftrightarrow> (\<forall>p identifier pouter s w.
     {p..<p + v_size env cls} \<inter> C = {} \<longrightarrow>
     (\<forall>q \<in> {p..<p + v_size env cls}. fresh_at s q \<and> (q \<noteq> p \<longrightarrow> blocks s q = None)) \<longrightarrow> ids_ok s \<longrightarrow> links_ok s \<longrightarrow>
     (\<exists>r s' w' t. run_preinit env time (Preinit cls p identifier pouter) (s, w) = Some (r, s', w') \<and>
        grown_forest env C {p..<p + v_size env cls} s s' [t] \<and> root t = p \<and> outer_object s' p \<in> {None, pouter} \<and>
        (r = OV_ERR_OK \<longrightarrow> born t \<and> linktable s' p \<and> parents s' Instantiation p = [cls] \<and> identifier_of s' p = identifier)))"

lemma preinits_parts:
  assumes "\<And>off c name. Part off c name \<in> set es \<Longrightarrow> 0 < v_size env c \<and> preinits env time C c" "apart env es"
    and "\<And>q. q \<in> region env p es \<Longrightarrow> fresh_at s q \<and> blocks s q = None" "ids_ok s" "links_ok s" "region env p es \<inter> C = {}"
  shows "\<exists>r s' w' ts. run_preinit env time (Parts p es) (s, w) = Some (r, s', w') \<and>
    grown_forest env C (region env p es) s s' ts \<and> map root ts = map (\<lambda>off. p + off) (part_offsets es) \<and>
    (r = OV_ERR_OK \<longrightarrow> (\<forall>t \<in> set ts. born t))"
  using assms
proof (induction es arbitrary: s w)
  case Nil
  then show ?case using forest_Nil by (fastforce simp: run_preinit_steps(2))
next
  case (Cons e es)
  show ?case
  proof (cases e)
    case (Part off c name)
    let ?D = "{p + off..<p + off + v_size env c}" and ?R = "region env p es"
    have reg: "?D \<inter> C = {}" "?R \<inter> C = {}" "?D \<inter> ?R = {}" using Cons.prems(2,6) Part apart_region [of env off c name es p] by auto
    have fr: "fresh_at s q" "blocks s q = None" if "q \<in> ?D \<union> ?R" for q using Cons.prems(3) [of q] that Part by auto
    have P: "preinits env time C c" "0 < v_size env c" using Cons.prems(1) Part by auto
    obtain r s1 w1 t where run: "run_preinit env time (Preinit c (p + off) name (Some p)) (s, w) = Some (r, s1, w1)"
      and t: "grown_forest env C ?D s s1 [t]" "root t = p + off" "r = OV_ERR_OK \<longrightarrow> born t"
      using P(1) [unfolded preinits_def, rule_format, of "p + off" s name "Some p" w] reg(1) fr Cons.prems(4,5) by auto
    note g = grown_forestD [OF t(1)]
    have parts: "0 < v_size env c \<and> preinits env time C c" if "Part off c name \<in> set es" for off c name
      using Cons.prems(1) [of off c name] that by simp
    have fr1: "fresh_at s1 q \<and> blocks s1 q = None" if "q \<in> ?R" for q
    proof -
      have "q \<notin> ?D" "q \<notin> C" using that reg by blast+
      then show ?thesis using fresh_kept [OF fr(1) g(6), of q] fr(2) [of q] growsD(9) [OF g(6)] that by simp
    qed
    have join: "grown_forest env C (?D \<union> ?R) s s2 (t # ts)" if "grown_forest env C ?R s1 s2 ts" for s2 ts
      by (rule forest_cons [OF t(1) that reg(3,1)]) (use fr(2) in auto)
    show ?thesis
    proof (cases "Ov_Fail r")
      case True
      have "grown_forest env C ?R s1 s1 (map (\<lambda>off. Unborn (p + off)) (part_offsets es))"
        by (rule unborn_forest [OF _ _ fr1 g(7,8) reg(2)]) (use Cons.prems(1,2) Part in auto)
      from join [OF this] show ?thesis
        using run True t(2) Part by (auto simp: run_preinit_steps(3) Ov_Fail_def intro!: exI)
    next
      case False
      have "\<exists>r s' w' ts. run_preinit env time (Parts p es) (s1, w1) = Some (r, s', w') \<and>
        grown_forest env C ?R s1 s' ts \<and> map root ts = map (\<lambda>off. p + off) (part_offsets es) \<and>
        (r = OV_ERR_OK \<longrightarrow> (\<forall>t \<in> set ts. born t))"
        by (rule Cons.IH [OF _ _ fr1 g(7,8) reg(2)]) (use parts Cons.prems(2) Part in auto)
      then obtain r2 s2 w2 ts where IH: "run_preinit env time (Parts p es) (s1, w1) = Some (r2, s2, w2)" "grown_forest env C ?R s1 s2 ts"
        "map root ts = map (\<lambda>off. p + off) (part_offsets es)" "r2 = OV_ERR_OK \<longrightarrow> (\<forall>t \<in> set ts. born t)"
        by blast
      show ?thesis
        using join [OF IH(2)] run False IH(1,3,4) t(2,3) Part
        by (intro exI [of _ r2] exI [of _ s2] exI [of _ w2] exI [of _ "t # ts"]) (auto simp: run_preinit_steps(3) Ov_Fail_def)
    qed
  qed (use Cons in \<open>auto simp: run_preinit_steps(4-6)\<close>)
qed

lemma preinits_all:
  assumes "classes_ok env C" "cls \<in> C"
  shows "preinits env time C cls"
  using assms(2)
proof (induction "v_size env cls" arbitrary: cls rule: less_induct)
  case less
  let ?n = "v_size env cls" and ?es = "elements env cls"
  have c: "0 < ?n" "Childlink Containment \<in> set ?es" "apart env ?es"
    "\<And>off c name. Part off c name \<in> set ?es \<Longrightarrow> c \<in> C \<and> 0 < off \<and> off + v_size env c \<le> ?n"
    "\<exists>v. Var v \<in> set ?es \<and> [''identifier''] \<in> set (variable_paths v)"
    using assms(1) less.prems unfolding classes_ok_def by blast+
  have parts: "0 < v_size env c \<and> preinits env time C c" if "Part off c name \<in> set ?es" for off c name
    using c(4) [OF that] less.hyps [of c] assms(1) by (auto simp: classes_ok_def)
  show ?case
    unfolding preinits_def
  proof (intro allI impI)
    fix p name pouter s w
    let ?D = "{p..<p + ?n}" and ?R = "region env p ?es"
    assume D: "?D \<inter> C = {}" and fr: "\<forall>q \<in> ?D. fresh_at s q \<and> (q \<noteq> p \<longrightarrow> blocks s q = None)" and ids: "ids_ok s" and links: "links_ok s"
    have p: "p \<in> ?D" using c(1) by simp
    then have pC: "p \<notin> C" using D by blast
    have R: "?R \<subseteq> ?D - {p}" using region_inside [OF assms(1) less.prems, of p] by auto
    obtain r s1 w1 where run: "preinit_object env time p name pouter (s, w) = (r, s1, w1)"
      by (cases "preinit_object env time p name pouter (s, w)") auto
    note b = preinit_object_result [OF bspec [OF fr p, THEN conjunct1] ids links run, of C]
    show "\<exists>r s' w' t. run_preinit env time (Preinit cls p name pouter) (s, w) = Some (r, s', w') \<and>
        grown_forest env C ?D s s' [t] \<and> root t = p \<and> outer_object s' p \<in> {None, pouter} \<and>
        (r = OV_ERR_OK \<longrightarrow> born t \<and> linktable s' p \<and> parents s' Instantiation p = [cls] \<and> identifier_of s' p = name)"
    proof (cases "Ov_Fail r")
      case True
      have "tree_at env s1 (Unborn p)" by (rule half_born_unborn) (use b True in auto)
      then have "grown_forest env C {p} s s1 [Unborn p]" using b by (simp add: grown_forest_def)
      then have "grown_forest env C ?D s s1 [Unborn p]" by (rule forest_wider) (use p pC D fr in auto)
      then show ?thesis
        using run b True
        by (intro exI [of _ r] exI [of _ s1] exI [of _ w1] exI [of _ "Unborn p"]) (simp add: run_preinit_steps(1) Ov_Fail_def)
    next
      case False
      let ?s = "dolink Instantiation cls p s1"
      have g: "grows {p} C s ?s" "links_ok ?s" "parents ?s Instantiation p = [cls]" "\<And>a. linked ?s a p = []"
        "\<And>a. a \<noteq> Instantiation \<Longrightarrow> parents ?s a p = []"
        using dolink_grows [of p C s s1 cls] b less.prems pC by blast+
      have ids1: "ids_ok ?s" using b by (auto simp: ids_ok_def last_id_def)
      have fr1: "fresh_at ?s q \<and> blocks ?s q = None" if "q \<in> ?R" for q
        using fresh_kept [OF _ g(1), of q] that fr R D growsD(9) [OF g(1)] by auto
      have "\<exists>r s' w' ts. run_preinit env time (Parts p ?es) (?s, w1) = Some (r, s', w') \<and>
        grown_forest env C ?R ?s s' ts \<and> map root ts = map (\<lambda>off. p + off) (part_offsets ?es) \<and>
        (r = OV_ERR_OK \<longrightarrow> (\<forall>t \<in> set ts. born t))"
        by (rule preinits_parts [OF _ c(3) fr1 ids1 g(2)]) (use parts R D in auto)
      then obtain r2 s2 w2 ts where run2: "run_preinit env time (Parts p ?es) (?s, w1) = Some (r2, s2, w2)"
        and ts: "grown_forest env C ?R ?s s2 ts" "map root ts = map (\<lambda>off. p + off) (part_offsets ?es)" "r2 = OV_ERR_OK \<longrightarrow> (\<forall>t \<in> set ts. born t)"
        by blast
      note f = grown_forestD [OF ts(1)]
      have pR: "p \<notin> ?R" using R by blast
      have fit: "object_fits ?es ?s p"
        using g(3-5) c(2,5) b by (auto simp: object_fits_def half_born_def)
      have "has_id ?s p" using b False by (simp add: has_id_def)
      then have here: "has_id s2 p" "object_fits ?es s2 p" "linktable s2 p" "parents s2 Instantiation p = [cls]" "linked s2 Containment p = []"
        "outer_object s2 p = pouter" "identifier_of s2 p = name"
        using has_id_kept [OF _ f(6) pR f(7)] object_fits_kept [OF fit f(6) pR pC] growsD(1,2,4,5) [OF f(6) pR] g(3,4) b False
        by (simp_all add: outer_object_def identifier_of_def)
      let ?t = "Object p cls ts []"
      have t: "tree_at env s2 ?t" using here f(4) ts(2) by simp
      have own: "own_addrs ?t = addrs ?t" using f(5) by (auto intro: arg_cong [where f = concat])
      have "grown_forest env C ({p} \<union> ?R) s s2 [?t]"
      proof -
        have "grows ({p} \<union> ?R) C s s2" by (rule grows_trans [OF g(1) f(6)]) (use p pC pR in auto)
        moreover have "addrs ?t = p # forest_addrs ts" "tree_classes ?t = cls # forest_classes ts"
          by (simp_all add: forest_addrs_def forest_classes_def)
        ultimately show ?thesis
          unfolding grown_forest_def using t own f pR less.prems by auto
      qed
      then have "grown_forest env C ?D s s2 [?t]" by (rule forest_wider) (use R p pC D fr in auto)
      then show ?thesis
        using run run2 False ts(3) here by (intro exI [of _ r2] exI [of _ s2] exI [of _ w2] exI [of _ ?t]) (simp add: run_preinit_steps(1))
    qed
  qed
qed

section \<open>Initialised parts\<close>

lemma set_all_init_steps:
  "set_all_init env s [] w = Some w"
  "Ov_GetClassPtr s p = Some cls \<Longrightarrow> set_all_init env s (p # ps) w =
    set_all_init env s (map (\<lambda>off. p + off) (part_offsets (elements env cls)) @ ps)
      (w\<lparr>v_objectstate := (v_objectstate w)(p := v_objectstate w p OR OV_OS_INIT)\<rparr>)"
proof -
  have parts: "concat (map (\<lambda>e. case e of Part off cls' name \<Rightarrow> [p + off] | _ \<Rightarrow> []) es) = map (\<lambda>off. p + off) (part_offsets es)" for es p
    by (induction es rule: part_offsets.induct) simp_all
  show "set_all_init env s [] w = Some w" by (subst set_all_init.simps) simp
  show "Ov_GetClassPtr s p = Some cls \<Longrightarrow> set_all_init env s (p # ps) w =
    set_all_init env s (map (\<lambda>off. p + off) (part_offsets (elements env cls)) @ ps)
      (w\<lparr>v_objectstate := (v_objectstate w)(p := v_objectstate w p OR OV_OS_INIT)\<rparr>)"
    by (subst set_all_init.simps) (simp add: parts)
qed

definition set_init :: "objptr set \<Rightarrow> 'w world \<Rightarrow> 'w world" where
  "set_init A w = w\<lparr>v_objectstate := (\<lambda>q. if q \<in> A then v_objectstate w q OR OV_OS_INIT else v_objectstate w q)\<rparr>"

lemma set_init_simps: "set_init A (set_init B w) = set_init (A \<union> B) w" "set_init {} w = w"
  "w\<lparr>v_objectstate := (v_objectstate w)(p := v_objectstate w p OR OV_OS_INIT)\<rparr> = set_init {p} w"
  by (auto simp: set_init_def fun_eq_iff intro!: world.equality)

lemma set_all_init_tree:
  "tree_at env s t \<Longrightarrow> born t \<Longrightarrow> set_all_init env s (root t # qs) w = set_all_init env s qs (set_init (set (own_addrs t)) w)"
proof (induction t arbitrary: qs w)
  case (Object p cls ps ts)
  have forest: "set_all_init env s (map root us @ qs) w = set_all_init env s qs (set_init (\<Union>u \<in> set us. set (own_addrs u)) w)"
    if "set us \<subseteq> set ps" for us qs w
    using that
  proof (induction us arbitrary: w)
    case (Cons u us)
    then show ?case using Object.IH(1) [of u] Object.prems by (simp add: set_init_simps Un_commute)
  qed (simp add: set_init_simps)
  have "Ov_GetClassPtr s p = Some cls" using Object.prems(1) by (simp add: Ov_GetParent_def)
  then show ?case
    using forest [OF subset_refl] Object.prems(1) by (simp add: set_all_init_steps(2) set_init_simps Un_commute)
qed simp

section \<open>All or nothing\<close>

lemma filter_place: "c \<in> S \<Longrightarrow> set cs \<inter> S = {} \<Longrightarrow> filter (\<lambda>x. x \<notin> S) (place h r c cs) = cs"
proof -
  assume S: "c \<in> S" "set cs \<inter> S = {}"
  obtain xs ys where x: "cs = xs @ ys" "place h r c cs = xs @ c # ys" using place_position [of cs h r c] by blast
  then have "filter (\<lambda>x. x \<notin> S) xs = xs" "filter (\<lambda>x. x \<notin> S) ys = ys" using S(2) by (auto intro!: filter_True)
  then show "filter (\<lambda>x. x \<notin> S) (place h r c cs) = cs" using x S(1) by simp
qed

lemma tree_same:
  "tree_at env s t \<Longrightarrow> idlist s' = idlist s \<Longrightarrow> heads s' = heads s \<Longrightarrow> blocks s' = blocks s \<Longrightarrow>
    (\<And>q. q \<in> set (addrs t) \<Longrightarrow> linktable s' q = linktable s q \<and> owned s' q = owned s q \<and>
      (\<forall>a. linked s' a q = linked s a q \<and> parents s' a q = parents s a q)) \<Longrightarrow> tree_at env s' t"
proof (induction t)
  case (Object p cls ps ts)
  note same = Object.prems(2-4)
  have "tree_at env s' t" if "t \<in> set ps" for t
    by (rule Object.IH(1) [OF that _ same Object.prems(5)]) (use that Object.prems(1) in auto)
  moreover have "tree_at env s' t" if "t \<in> set ts" for t
    by (rule Object.IH(2) [OF that _ same Object.prems(5)]) (use that Object.prems(1) in auto)
  moreover have "block_ok s' t = block_ok s t" for t using same by (simp add: block_ok_def outer_object_def)
  moreover have "has_id s' p = has_id s p" using same by (simp add: has_id_def)
  moreover have "object_fits es s' p = object_fits es s p" for es using Object.prems(5) [of p] by (simp add: object_fits_def)
  ultimately show ?case using Object.prems(1) Object.prems(5) [of p] by simp
qed (simp add: has_id_def)

text \<open>The new tree \<open>t\<close> in the block \<open>[p, p + n)\<close> of the database \<open>s\<close>.\<close>

definition new_tree :: "'w classes \<Rightarrow> classptr set \<Rightarrow> objptr \<Rightarrow> nat \<Rightarrow> objtree \<Rightarrow> objtree \<Rightarrow> otree \<Rightarrow> bool" where
  "new_tree env C p n s s' t \<longleftrightarrow> root t = p \<and> tree_at env s' t \<and> block_ok s' t \<and> tree_ok t \<and> links_ok s' \<and> ids_ok s' \<and>
     without (set (addrs t)) s' = s"

definition room_for :: "classptr set \<Rightarrow> objptr \<Rightarrow> nat \<Rightarrow> objtree \<Rightarrow> bool" where
  "room_for C p n s \<longleftrightarrow> (\<forall>q. p \<le> q \<and> q < p + n \<longrightarrow> fresh_at s q \<and> blocks s q = None \<and> q \<notin> C)"

lemma grown_without:
  assumes "grown_forest env C D s0 s1 [t]" "s0 = s\<lparr>blocks := (blocks s)(root t \<mapsto> n)\<rparr>"
    and "\<And>q. q \<in> D \<Longrightarrow> fresh_at s q \<and> blocks s q = None"
  shows "without (set (addrs t)) s1 = s"
proof -
  let ?S = "set (addrs t)"
  note g = grown_forestD [OF assms(1)]
  have S: "?S \<subseteq> D" using g(1) by simp
  have r: "root t \<in> ?S" using own_in_addrs by blast
  have fr: "heads s q = None" "\<not> linktable s q" "linked s a q = []" "parents s a q = []" "q \<notin> snd ` set (idlist s)" "owned s q = (\<lambda>path. [])" "blocks s q = None"
    if "q \<in> D" for q a using assms(3) [OF that] by (auto simp: fresh_at_def fun_eq_iff)
  have fr1: "heads s1 q = None" "\<not> linktable s1 q" "linked s1 a q = []" "parents s1 a q = []" "q \<notin> snd ` set (idlist s1)" "owned s1 q = (\<lambda>path. [])"
    if "q \<in> D" "q \<notin> ?S" for q a using g(9) [of q] that by (auto simp: fresh_at_def fun_eq_iff)
  note e = growsD [OF g(6)]
  have no_D: "c \<notin> D \<or> c \<in> ?S" if "c \<in> set (linked s1 a q)" for a q c
    using that links_okD [OF g(8), of c a q] fr1(4) [of c a] by (metis empty_iff list.set(1))
  have no_up: "r \<notin> ?S" if "r \<in> set (parents s1 a q)" for r a q
    using that links_okD [OF g(8), of q a r] e(7) [of r a] S by auto
  show ?thesis
  proof (rule objtree_eqI)
    show "heads (without ?S s1) q = heads s q" for q
      using fr(1) [of q] fr1(1) [of q] e(1) [of q] S assms(2) by (cases "q \<in> D") (auto simp: without_def)
    show "linktable (without ?S s1) q = linktable s q" for q
      using fr(2) [of q] fr1(2) [of q] e(2) [of q] S assms(2) by (cases "q \<in> D") (auto simp: without_def)
    show "owned (without ?S s1) q path = owned s q path" for q path
      using fr(6) [of q] fr1(6) [of q] e(3) [of q] S assms(2) by (cases "q \<in> D") (auto simp: without_def)
    show "blocks (without ?S s1) q = blocks s q" for q
      using fr(7) [of q] e(9) S r assms(2) by (auto simp: without_def)
    obtain ids where ids: "idlist s1 = idlist s @ ids" "snd ` set ids \<subseteq> D" using grows_ids [OF g(6)] assms(2) by auto
    have "q \<in> ?S" if "(i, q) \<in> set ids" for i q
      using fr1(5) [of q] ids that by (metis (no_types, lifting) UnCI image_eqI set_append snd_conv subsetD)
    moreover have "q \<notin> ?S" if "(i, q) \<in> set (idlist s)" for i q
      using fr(5) [of q] S that by force
    ultimately have "filter (\<lambda>(i, p). p \<notin> ?S) (idlist s) = idlist s" "filter (\<lambda>(i, p). p \<notin> ?S) ids = []"
      by (auto simp: filter_empty_conv intro!: filter_True)
    then show "idlist (without ?S s1) = idlist s" by (simp add: without_def ids)
    show "parents (without ?S s1) a q = parents s a q" for a q
    proof (cases "q \<in> D")
      case True
      then show ?thesis using fr(4) [of q] fr1(4) [of q] by (auto simp: without_def)
    next
      case False
      have "filter (\<lambda>r. r \<notin> ?S) (parents s1 a q) = parents s1 a q" using no_up by (intro filter_True) blast
      then show ?thesis using e(4) [OF False] False S assms(2) by (auto simp: without_def)
    qed
    show "linked (without ?S s1) a q = linked s a q" for a q
    proof (cases "q \<in> D")
      case True
      then show ?thesis using fr(3) [of q] fr1(3) [of q] by (auto simp: without_def)
    next
      case False
      have "filter (\<lambda>c. c \<notin> ?S) (linked s1 a q) = filter (\<lambda>c. c \<notin> D) (linked s1 a q)"
        using no_D S by (intro filter_cong) auto
      also have "\<dots> = linked s a q"
      proof (cases "a = Instantiation")
        case True
        then show ?thesis using e(6) [OF False] assms(2) by simp
      next
        case other: False
        have "c \<notin> D" if "c \<in> set (linked s1 a q)" for c
        proof
          assume "c \<in> D"
          moreover have "q \<in> set (parents s1 a c)" using that links_okD [OF g(8), of c a q] by simp
          ultimately show False using e(8) other by blast
        qed
        then show ?thesis using e(5) [OF False] other assms(2) by (simp add: filter_True)
      qed
      finally show ?thesis using False S by (auto simp: without_def)
    qed
  qed
qed

lemma gives_up:
  assumes "new_tree env C p n s s' t"
  shows "\<exists>w'. give_up env result p (s', w) = Some (result, None, s, w')"
proof -
  have t: "tree_at env s' t" "links_ok s'" "tree_ok t" "block_ok s' t" "root t = p" "without (set (addrs t)) s' = s"
    using assms by (auto simp: new_tree_def)
  obtain w' where "run_deletion env (Clean (root t)) (s', w) = Some (prune (clean_cut t) s', w')"
    using cleans_all [of env t] t(1-3) unfolding cleans_def by blast
  moreover have "free_object p (prune (clean_cut t) s') = s"
    using free_after_clean [OF t(4)] delete_cut_without [of t s'] t(5,6) by simp
  ultimately show ?thesis using t(5) by (simp add: give_up_def)
qed

lemma preinit_new:
  assumes "classes_ok env C" "cls \<in> C" "room_for C p n s" "v_size env cls \<le> n" "ids_ok s" "links_ok s"
  shows "\<exists>r s1 w1 t. ov_class_createobject_preinit env time cls p name None (new_block p n s, w) = Some (r, s1, w1) \<and>
    new_tree env C p n s s1 t \<and> set (addrs t) \<subseteq> {p..<p + n} \<and> parents s1 Containment p = [] \<and>
    (\<forall>q. q \<notin> {p..<p + n} \<longrightarrow> linked s1 Containment q = linked s Containment q \<and> parents s1 Containment q = parents s Containment q) \<and>
    (r = OV_ERR_OK \<longrightarrow> born t \<and> Ov_GetClassPtr s1 p = Some cls \<and> identifier_of s1 p = name)"
proof -
  let ?D = "{p..<p + n}" and ?E = "{p..<p + v_size env cls}" and ?s = "new_block p n s"
  have fr: "fresh_at s q" "blocks s q = None" "q \<notin> C" if "q \<in> ?D" for q using assms(3) that by (auto simp: room_for_def)
  have s0: "?s = s\<lparr>blocks := (blocks s)(p \<mapsto> n)\<rparr>"
    using fr(1) by (intro objtree_eqI) (auto simp: new_block_def fresh_at_def)
  have fr0: "fresh_at ?s q" "q \<noteq> p \<Longrightarrow> blocks ?s q = None" if "q \<in> ?D" for q
    using fr(1,2) [OF that] unfolding s0 by (simp_all add: fresh_at_def)
  have "ids_ok ?s" "links_ok ?s" using assms(5,6) unfolding s0 by (auto simp: ids_ok_def links_ok_def last_id_def)
  moreover have E: "?E \<subseteq> ?D" "p \<in> ?E" using assms(1,2,4) by (auto simp: classes_ok_def)
  moreover have "?E \<inter> C = {}" using E fr(3) by blast
  ultimately obtain r s1 w1 t where run: "run_preinit env time (Preinit cls p name None) (?s, w) = Some (r, s1, w1)"
    and t: "grown_forest env C ?E ?s s1 [t]" "root t = p" "outer_object s1 p = None"
      "r = OV_ERR_OK \<longrightarrow> born t \<and> linktable s1 p \<and> parents s1 Instantiation p = [cls] \<and> identifier_of s1 p = name"
    using preinits_all [OF assms(1,2), of time, unfolded preinits_def, rule_format, of p ?s name None w] fr0 by auto
  have T: "grown_forest env C ?D ?s s1 [t]" by (rule forest_wider [OF t(1) E(1)]) (use fr(3) fr0(1) in auto)
  note g = grown_forestD [OF T]
  have A: "set (addrs t) \<subseteq> ?D" using g(1) by simp
  have root: "p \<in> set (addrs t)" using own_in_addrs(1,2) [of t] t(2) by auto
  have h: "q \<in> ?D \<longleftrightarrow> q \<in> set (addrs t)" if "heads s1 q \<noteq> None" for q
  proof
    show "q \<in> set (addrs t)" if "q \<in> ?D" using g(9) [OF that] \<open>heads s1 q \<noteq> None\<close> by (auto simp: fresh_at_def)
  qed (use A in blast)
  have "block_ok s1 t"
    unfolding block_ok_def
    using t(2,3) h g(5,9) growsD(9) [OF g(6)] A fr0(2) by (auto simp: s0 fr(2))
  moreover have "tree_ok t" using g(2,3) A fr(3) by (fastforce simp: tree_ok_def)
  moreover have "without (set (addrs t)) s1 = s"
    by (rule grown_without [OF T]) (use fr t(2) s0 in auto)
  ultimately have "new_tree env C p n s s1 t" using t(2) g by (simp add: new_tree_def)
  moreover have "parents s1 Containment p = []"
  proof -
    have "r \<notin> set (parents s1 Containment p)" for r using growsD(8) [OF g(6), of p r Containment] A root by auto
    then show ?thesis by (cases "parents s1 Containment p") auto
  qed
  moreover have "linked s1 Containment q = linked s Containment q \<and> parents s1 Containment q = parents s Containment q" if "q \<notin> ?D" for q
    using growsD(4,5) [OF g(6) that] by (simp add: s0)
  ultimately show ?thesis
    using run t(4) A unfolding ov_class_createobject_preinit_def
    by (intro exI [of _ r] exI [of _ s1] exI [of _ w1] exI [of _ t]) (auto simp: Ov_GetParent_def)
qed

lemma link_new:
  assumes "new_tree env C p n s s1 t" "set (addrs t) \<subseteq> {p..<p + n}" "parent \<notin> {p..<p + n}" "parents s1 Containment p = []"
    and "linked s1 Containment parent = linked s Containment parent" "link_contained parent p hint prelobj s1 = (r, s2)" "born t"
    "Ov_GetClassPtr s1 p = Some cls" "classes_ok env C" "cls \<in> C"
  shows "if r = OV_ERR_OK then new_tree env C p n s s2 t \<and> Ov_GetClassPtr s2 p = Some cls \<and> identifier_of s2 p = identifier_of s1 p \<and>
      parents s2 Containment p = [parent] \<and> linked s2 Containment parent = place hint prelobj p (linked s Containment parent)
    else s2 = s1"
proof (cases "r = OV_ERR_OK")
  case True
  have t: "root t = p" "tree_at env s1 t" "block_ok s1 t" "tree_ok t" "links_ok s1" "ids_ok s1" "without (set (addrs t)) s1 = s"
    using assms(1) by (simp_all add: new_tree_def)
  have s2: "s2 = set_parents Containment p [parent] (set_linked Containment parent (place hint prelobj p (linked s1 Containment parent)) s1)"
    using assms(6) True by (auto simp: link_contained_def split: if_splits)
  have pin: "p \<in> set (addrs t)" using own_in_addrs(1,2) [of t] t(1) by auto
  then have ne: "parent \<noteq> p" and par: "parent \<notin> set (addrs t)" using assms(2,3) by auto
  obtain cls' ps ts where o': "t = Object p cls' ps ts" using t(1) assms(7) by (cases t) auto
  then have cls': "cls' = cls" using t(2) assms(8) by (simp add: Ov_GetParent_def)
  have same: "idlist s2 = idlist s1" "heads s2 = heads s1" "blocks s2 = blocks s1" "linktable s2 = linktable s1" "owned s2 = owned s1"
    unfolding s2 by (simp_all add: set_parents_def set_linked_def)
  have lk: "linked s2 a q = (if a = Containment \<and> q = parent then place hint prelobj p (linked s1 Containment parent) else linked s1 a q)"
    "parents s2 a q = (if a = Containment \<and> q = p then [parent] else parents s1 a q)" for a q
    unfolding s2 by (auto simp: set_parents_def set_linked_def)
  have dist: "p \<notin> set (addrs u)" "set (addrs u) \<subseteq> set (addrs t)" if "u \<in> set ps \<or> u \<in> set ts" for u
    using t(4) that unfolding o' tree_ok_def by auto
  have sub: "tree_at env s2 u" if "u \<in> set ps \<or> u \<in> set ts" for u
  proof (rule tree_same [of env s1])
    show "tree_at env s1 u" using t(2) that unfolding o' by auto
    show "linktable s2 q = linktable s1 q \<and> owned s2 q = owned s1 q \<and> (\<forall>a. linked s2 a q = linked s1 a q \<and> parents s2 a q = parents s1 a q)"
      if "q \<in> set (addrs u)" for q
      using that dist [OF \<open>u \<in> set ps \<or> u \<in> set ts\<close>] par same lk by auto
  qed (use same in auto)
  have cc: "Childlink Containment \<in> set (elements env cls)" using assms(9,10) by (auto simp: classes_ok_def)
  have blk: "block_ok s2 u = block_ok s1 u" for u using same by (simp add: block_ok_def outer_object_def)
  have tree: "tree_at env s2 t"
    using t(2) sub cc ne unfolding o' cls' by (auto simp: has_id_def object_fits_def lk same blk)
  have links: "links_ok s2"
  proof -
    have no: "p \<notin> set (linked s1 Containment q)" for q using links_okD [OF t(5), of p Containment q] assms(4) by simp
    show ?thesis unfolding links_ok_def lk using t(5) no by (auto simp: place_set links_ok_def)
  qed
  have flt: "filter (\<lambda>c. c \<notin> set (addrs t)) (linked s1 Containment parent) = linked s1 Containment parent"
    using arg_cong [OF t(7), of "\<lambda>x. linked x Containment parent"] assms(5) par by (simp add: without_def)
  then have "set (linked s1 Containment parent) \<inter> set (addrs t) = {}" by (auto simp: filter_id_conv)
  note pl = filter_place [OF pin this]
  have "without (set (addrs t)) s2 = without (set (addrs t)) s1"
    by (rule objtree_eqI) (use pin par same lk pl flt in \<open>auto simp: without_def\<close>)
  moreover have "ids_ok s2" using t(6) same(1) by (auto simp: ids_ok_def last_id_def)
  ultimately have "new_tree env C p n s s2 t"
    using t tree links blk by (simp add: new_tree_def)
  moreover have "Ov_GetClassPtr s2 p = Some cls" "identifier_of s2 p = identifier_of s1 p"
    using assms(8) same lk by (simp_all add: Ov_GetParent_def identifier_of_def split: if_splits)
  ultimately show ?thesis using True lk assms(5) by simp
next
  case False
  then show ?thesis using assms(6) by (auto simp: link_contained_def split: if_splits)
qed

lemma bring_up_total:
  assumes "new_tree env C p n s s' t" "born t"
  shows "\<exists>r pobj s'' w'. bring_up env cls initobjfnc p (s', w) = Some (r, pobj, s'', w') \<and>
    (if r = OV_ERR_OK then pobj = Some p \<and> s'' = s' else pobj = None \<and> s'' = s)"
proof -
  have quit: "\<exists>w'. give_up env result p (s', w) = Some (result, None, s, w')" for result w
    using gives_up [OF assms(1)] by blast
  have init: "ov_class_createobject_setinit env s' p w = Some (set_init (set (own_addrs t)) w)" for w
    using set_all_init_tree [of env s' t "[]" w] assms by (simp add: new_tree_def ov_class_createobject_setinit_def set_all_init_steps(1))
  have fail: "method_fails env r \<Longrightarrow> r \<noteq> OV_ERR_OK" for r by (auto simp: method_fails_def Ov_Fail_def)
  obtain r1 w1 where 1: "m_constructor env (Some cls) p w = (r1, w1)" by fastforce
  obtain r2 w2 where 2: "(case initobjfnc of None \<Rightarrow> (OV_ERR_OK, w1) | Some f \<Rightarrow> f p w1) = (r2, w2)" by fastforce
  obtain r3 w3 where 3: "m_checkinit env (Some cls) p (set_init (set (own_addrs t)) w2) = (r3, w3)" by fastforce
  consider "method_fails env r1" | "\<not> method_fails env r1" "method_fails env r2"
    | "\<not> method_fails env r1" "\<not> method_fails env r2" "method_fails env r3"
    | "\<not> method_fails env r1" "\<not> method_fails env r2" "\<not> method_fails env r3" by blast
  then show ?thesis
  proof cases
    case 1
    then show ?thesis using quit [of r1 w1] fail \<open>m_constructor env (Some cls) p w = (r1, w1)\<close> by (fastforce simp: bring_up_def)
  next
    case 2
    then show ?thesis
      using quit [of r2 "m_destructor env (Some cls) p w2"] fail \<open>m_constructor env (Some cls) p w = (r1, w1)\<close>
        \<open>(case initobjfnc of None \<Rightarrow> (OV_ERR_OK, w1) | Some f \<Rightarrow> f p w1) = (r2, w2)\<close> by (fastforce simp: bring_up_def)
  next
    case 3
    then show ?thesis
      using quit [of r3 "m_destructor env (Some cls) p w3"] fail \<open>m_constructor env (Some cls) p w = (r1, w1)\<close> init
        \<open>(case initobjfnc of None \<Rightarrow> (OV_ERR_OK, w1) | Some f \<Rightarrow> f p w1) = (r2, w2)\<close>
        \<open>m_checkinit env (Some cls) p (set_init (set (own_addrs t)) w2) = (r3, w3)\<close> by (fastforce simp: bring_up_def)
  next
    case 4
    then show ?thesis
      using \<open>m_constructor env (Some cls) p w = (r1, w1)\<close> init
        \<open>(case initobjfnc of None \<Rightarrow> (OV_ERR_OK, w1) | Some f \<Rightarrow> f p w1) = (r2, w2)\<close>
        \<open>m_checkinit env (Some cls) p (set_init (set (own_addrs t)) w2) = (r3, w3)\<close> by (simp add: bring_up_def)
  qed
qed

text \<open>What a creation has done: everything, or nothing.\<close>

definition object_size :: "'w classes \<Rightarrow> classptr \<Rightarrow> nat \<Rightarrow> nat" where
  "object_size env cls addsize = v_size env cls + (if class_class env cls then addsize else 0)"

definition created_in :: "'w classes \<Rightarrow> classptr \<Rightarrow> objptr \<Rightarrow> string \<Rightarrow> OV_PLACEMENT_HINT \<Rightarrow> objptr option \<Rightarrow>
    objtree \<Rightarrow> objptr \<Rightarrow> otree \<Rightarrow> objtree \<Rightarrow> bool" where
  "created_in env cls parent name hint prelobj s p t s' \<longleftrightarrow>
     root t = p \<and> born t \<and> tree_at env s' t \<and> block_ok s' t \<and> tree_ok t \<and> links_ok s' \<and> ids_ok s' \<and>
     Ov_GetClassPtr s' p = Some cls \<and> identifier_of s' p = name \<and> parents s' Containment p = [parent] \<and>
     linked s' Containment parent = place hint prelobj p (linked s Containment parent) \<and> without (set (addrs t)) s' = s"

lemma create_total:
  assumes "classes_ok env C" "cls \<in> C" "ids_ok s" "links_ok s" "too_deep env s parent \<noteq> None"
    and "\<And>p. fst (next_alloc w) = Some p \<Longrightarrow> room_for C p (object_size env cls addsize) s"
  shows "\<exists>r pobj s' w'. ov_class_createobject env time (Some cls) (Some parent) (Some name) hint prelobj initobjfnc addsize (s, w) =
      Some (r, pobj, s', w') \<and>
    (if r = OV_ERR_OK then \<exists>p t. pobj = Some p \<and> created_in env cls parent name hint prelobj s p t s'
     else pobj = None \<and> s' = s)"
proof -
  let ?n = "object_size env cls addsize"
  obtain chk where chk: "check_creation env (Some cls) (Some parent) (Some name) s = Some chk"
  proof -
    have "check_creation env (Some cls) (Some parent) (Some name) s \<noteq> None" using assms(5) by (auto simp: check_creation_def)
    then show ?thesis using that by blast
  qed
  show ?thesis
  proof (cases "chk = OV_ERR_OK")
    case False
    then show ?thesis using chk by (simp add: ov_class_createobject_def Ov_Fail_def)
  next
    case True
    obtain piece w1 where a: "next_alloc w = (piece, w1)" by fastforce
    show ?thesis
    proof (cases piece)
      case None
      then show ?thesis using chk True a by (simp add: ov_class_createobject_def Ov_Fail_def)
    next
      case (Some p)
      have room: "room_for C p ?n s" using assms(6) a Some by simp
      have "Ov_GetClassPtr s parent \<noteq> None"
        using chk True by (auto simp: check_creation_def Ov_CanCastTo_def split: if_splits option.splits)
      then have par: "parent \<notin> {p..<p + ?n}"
        using room by (auto simp: room_for_def fresh_at_def Ov_GetParent_def split: if_splits)
      have run: "ov_class_createobject env time (Some cls) (Some parent) (Some name) hint prelobj initobjfnc addsize (s, w) =
          build_object env time cls parent name hint prelobj initobjfnc p (new_block p ?n s, w1)"
        using chk True a Some by (simp add: ov_class_createobject_def Ov_Fail_def object_size_def)
      have le: "v_size env cls \<le> ?n" by (simp add: object_size_def)
      obtain r s1 w2 t where pre: "ov_class_createobject_preinit env time cls p name None (new_block p ?n s, w1) = Some (r, s1, w2)"
        and t: "new_tree env C p ?n s s1 t" "set (addrs t) \<subseteq> {p..<p + ?n}" "parents s1 Containment p = []"
          "\<forall>q. q \<notin> {p..<p + ?n} \<longrightarrow> linked s1 Containment q = linked s Containment q \<and> parents s1 Containment q = parents s Containment q"
          "r = OV_ERR_OK \<longrightarrow> born t \<and> Ov_GetClassPtr s1 p = Some cls \<and> identifier_of s1 p = name"
        using preinit_new [OF assms(1,2) room le assms(3,4)] by blast
      show ?thesis
      proof (cases "r = OV_ERR_OK")
        case False
        then show ?thesis using run pre gives_up [OF t(1), of r w2] by (auto simp: build_object_def Ov_Fail_def)
      next
        case r: True
        obtain r2 s2 where l: "link_contained parent p hint prelobj s1 = (r2, s2)" by fastforce
        have new: "if r2 = OV_ERR_OK then new_tree env C p ?n s s2 t \<and> Ov_GetClassPtr s2 p = Some cls \<and>
            identifier_of s2 p = identifier_of s1 p \<and> parents s2 Containment p = [parent] \<and>
            linked s2 Containment parent = place hint prelobj p (linked s Containment parent)
          else s2 = s1"
          by (rule link_new [OF t(1,2) par t(3) _ l]) (use t(4,5) r par assms(1,2) in auto)
        show ?thesis
        proof (cases "r2 = OV_ERR_OK")
          case False
          then show ?thesis using run pre r l new gives_up [OF t(1), of r2 w2] by (auto simp: build_object_def Ov_Fail_def)
        next
          case True
          then have n: "new_tree env C p ?n s s2 t" using new by simp
          obtain r3 pobj s3 w3 where b: "bring_up env cls initobjfnc p (s2, w2) = Some (r3, pobj, s3, w3)"
            "if r3 = OV_ERR_OK then pobj = Some p \<and> s3 = s2 else pobj = None \<and> s3 = s"
            using bring_up_total [OF n] t(5) r by blast
          have "created_in env cls parent name hint prelobj s p t s2"
            using n new True t(5) r by (simp add: created_in_def new_tree_def)
          then show ?thesis
            using run pre r l True b
            by (intro exI [of _ r3] exI [of _ pobj] exI [of _ s3] exI [of _ w3]) (auto simp: build_object_def Ov_Fail_def)
        qed
      qed
    qed
  qed
qed

section \<open>Creation and deletion\<close>

definition obj_world :: "unit world" where
  "obj_world = \<lparr>v_objectstate = (\<lambda>p. 0), queue = [], idCounter = (0, 6),
     allocs = [Some 200, Some 300, Some 320, Some 340, Some 360], id_mem = [], vals = ()\<rparr>"

lemma obj_classes_fit: "classes_ok obj_env {1, 2}"
proof -
  have "\<exists>v. Var v \<in> set (obj_elements c) \<and> [''identifier''] \<in> set (variable_paths v)" if "c = 1 \<or> c = 2" for c
    by (intro exI [of _ obj_var]) (use that in \<open>auto simp: obj_elements_def obj_paths\<close>)
  then show ?thesis by (auto simp: classes_ok_def obj_env_def obj_elements_def)
qed

lemma obj_ids_fit: "ids_ok obj_db"
  by (simp add: ids_ok_def obj_db_def last_id_def)

lemma obj_room: "fst (next_alloc obj_world) = Some p \<Longrightarrow> room_for {1, 2} p (object_size obj_env 1 0) obj_db"
  by (auto simp: obj_world_def next_alloc_def room_for_def object_size_def obj_env_def fresh_at_def obj_db_def)

lemma obj_created:
  "\<exists>s' w'. ov_class_createobject obj_env \<lparr>secs = 7, usecs = 0\<rparr> (Some 1) (Some 50) (Some ''tank'') OV_PMH_BEFORE (Some 100) None 0
    (obj_db, obj_world) = Some (OV_ERR_OK, Some 200, s', w')"
proof -
  have "map_option (\<lambda>x. (fst x, fst (snd x))) (ov_class_createobject obj_env \<lparr>secs = 7, usecs = 0\<rparr> (Some 1) (Some 50) (Some ''tank'')
    OV_PMH_BEFORE (Some 100) None 0 (obj_db, obj_world)) = Some (OV_ERR_OK, Some 200)"
    by code_simp
  then show ?thesis by auto
qed

text \<open>C1: Creating an object always returns. It does everything or nothing: on success there is a
  new tree of objects of the class with all its parts, contained in the parent at the place asked for,
  and the database is otherwise the old one; whatever fails on the way (memory, ids, names, the
  placement, a method of the object), the database is the old one.\<close>

theorem creation_all_or_nothing:
  assumes "classes_ok env C" "cls \<in> C" "ids_ok s" "links_ok s" "too_deep env s parent \<noteq> None"
    and "\<And>p. fst (next_alloc w) = Some p \<Longrightarrow> room_for C p (object_size env cls addsize) s"
  shows "\<exists>r pobj s' w'. ov_class_createobject env time (Some cls) (Some parent) (Some name) hint prelobj initobjfnc addsize (s, w) =
      Some (r, pobj, s', w') \<and>
    (if r = OV_ERR_OK then \<exists>p t. pobj = Some p \<and> created_in env cls parent name hint prelobj s p t s'
     else pobj = None \<and> s' = s)"
  by (rule create_total [OF assms])

theorem creation_all_or_nothing_witness:
  "\<exists>s' w' t. ov_class_createobject obj_env \<lparr>secs = 7, usecs = 0\<rparr> (Some 1) (Some 50) (Some ''tank'') OV_PMH_BEFORE (Some 100) None 0
      (obj_db, obj_world) = Some (OV_ERR_OK, Some 200, s', w') \<and> linked s' Containment 50 = [200, 100] \<and>
    tree_at obj_env s' t \<and> root t = 200 \<and> without (set (addrs t)) s' = obj_db"
proof -
  have "too_deep obj_env obj_db 50 \<noteq> None" by (simp add: too_deep_def obj_env_def)
  from creation_all_or_nothing [OF obj_classes_fit _ obj_ids_fit obj_links this obj_room, where time = "\<lparr>secs = 7, usecs = 0\<rparr>"
      and name = "''tank''" and hint = OV_PMH_BEFORE and prelobj = "Some 100" and initobjfnc = None] obj_created obtain s' w' t where
    "ov_class_createobject obj_env \<lparr>secs = 7, usecs = 0\<rparr> (Some 1) (Some 50) (Some ''tank'') OV_PMH_BEFORE (Some 100) None 0
      (obj_db, obj_world) = Some (OV_ERR_OK, Some 200, s', w')"
    "created_in obj_env 1 50 ''tank'' OV_PMH_BEFORE (Some 100) obj_db 200 t s'" by fastforce
  moreover have "linked obj_db Containment 50 = [100]" by (simp add: obj_db_def)
  ultimately show ?thesis by (auto simp: created_in_def)
qed

text \<open>C3: Deleting the object that was created, whatever its methods have done to the states of the
  objects, gives back the database before the creation.\<close>

theorem creation_undone_by_deletion:
  assumes "classes_ok env C" "cls \<in> C" "ids_ok s" "links_ok s" "too_deep env s parent \<noteq> None"
    and "\<And>p. fst (next_alloc w) = Some p \<Longrightarrow> room_for C p (object_size env cls addsize) s"
    and "ov_class_createobject env time (Some cls) (Some parent) (Some name) hint prelobj initobjfnc addsize (s, w) =
      Some (OV_ERR_OK, pobj, s', w')"
  shows "\<exists>w2. ov_class_deleteobject env pobj (s', w1) = Some (OV_ERR_OK, s, w2)"
proof -
  obtain p t where p: "pobj = Some p" and t: "created_in env cls parent name hint prelobj s p t s'"
    using create_total [OF assms(1-6), where time = time and name = name and hint = hint and prelobj = prelobj and initobjfnc = initobjfnc and w = w] assms(7) by auto
  obtain w2 where "run_deletion env (Delete (root t)) (s', w1) = Some (prune (delete_cut t) s', w2)"
    using deletes [OF cleans_all, of env s' t w1] t unfolding created_in_def by blast
  moreover have "outer_object s' p = None" using t by (auto simp: created_in_def block_ok_def)
  ultimately show ?thesis
    using t p by (simp add: ov_class_deleteobject_def created_in_def delete_cut_without)
qed

theorem creation_undone_by_deletion_witness:
  "\<exists>s' w' w2. ov_class_createobject obj_env \<lparr>secs = 7, usecs = 0\<rparr> (Some 1) (Some 50) (Some ''tank'') OV_PMH_BEFORE (Some 100) None 0
      (obj_db, obj_world) = Some (OV_ERR_OK, Some 200, s', w') \<and>
    ov_class_deleteobject obj_env (Some 200) (s', w') = Some (OV_ERR_OK, obj_db, w2)"
proof -
  have "too_deep obj_env obj_db 50 \<noteq> None" by (simp add: too_deep_def obj_env_def)
  note undo = creation_undone_by_deletion [OF obj_classes_fit _ obj_ids_fit obj_links this obj_room]
  from obj_created obtain s' w' where
    "ov_class_createobject obj_env \<lparr>secs = 7, usecs = 0\<rparr> (Some 1) (Some 50) (Some ''tank'') OV_PMH_BEFORE (Some 100) None 0
      (obj_db, obj_world) = Some (OV_ERR_OK, Some 200, s', w')" by blast
  with undo [OF _ _ this, where ?w1.0 = w'] show ?thesis by auto
qed

end
