(* ===== verification/OvObjectRename.thy ===== *)
theory OvObjectRename
  imports OvObjectCreate
begin

text \<open>
  Renaming and moving objects: the objects stay a forest with distinct names below every parent. A
  placement that the link refuses is found after the object was unlinked, and aborts the server.
\<close>

section \<open>Climbing\<close>

inductive ends :: "objtree \<Rightarrow> objptr \<Rightarrow> bool" for s where
  ends_top: "holder s q = None \<Longrightarrow> ends s q"
| ends_up: "holder s q = Some r \<Longrightarrow> ends s r \<Longrightarrow> ends s q"

inductive_simps ends_simps: "ends s q"

lemma levels_ends:
  assumes "ends s q"
  shows "\<exists>m. levels s (Some q) n = Some m"
  using assms
proof (induction arbitrary: n)
  case (ends_top q)
  then show ?case by (simp add: levels.simps)
next
  case (ends_up q r)
  then show ?case by (subst levels.simps) simp
qed

lemma too_deep_returns: "ends s q \<Longrightarrow> too_deep env s q \<noteq> None"
  using levels_ends [of s "the (holder s q)" 1]
  by (cases "holder s q") (auto simp: too_deep_def levels.simps [of s None] elim: ends.cases)

lemma inside_returns: "ends s q \<Longrightarrow> inside s p (Some q) \<noteq> None"
proof (induction rule: ends.induct)
  case (ends_top q)
  then show ?case by (auto simp: inside.simps)
next
  case (ends_up q r)
  then show ?case by (auto simp: inside.simps [of s p "Some q"])
qed

text \<open>An object that is not inside of \<open>p\<close> still ends when only \<open>p\<close> has moved.\<close>

lemma inside_False:
  assumes "ends s q" "inside s p (Some q) = Some False" "\<And>x. x \<noteq> p \<Longrightarrow> holder s' x = holder s x"
  shows "ends s' q"
  using assms(1,2)
proof (induction rule: ends.induct)
  case (ends_top q)
  then have "q \<noteq> p" by (auto simp: inside.simps [of s p "Some q"])
  then show ?case using ends_top assms(3) [of q] by (auto intro: ends.intros)
next
  case (ends_up q r)
  then have "q \<noteq> p" "inside s p (Some r) = Some False" by (auto simp: inside.simps [of s p "Some q"] split: if_splits)
  then show ?case using ends_up assms(3) [of q] by (auto intro: ends.intros)
qed

section \<open>The forest\<close>

definition forest_ok :: "objtree \<Rightarrow> bool" where
  "forest_ok s \<longleftrightarrow> links_ok s \<and> (\<forall>q. ends s q) \<and> (\<forall>q. distinct (map (identifier_of s) (linked s Containment q))) \<and>
     (\<forall>c. length (parents s Containment c) \<le> 1)"

text \<open>A new identifier alone.\<close>

definition renamed :: "objptr \<Rightarrow> string \<Rightarrow> objtree \<Rightarrow> objtree \<Rightarrow> bool" where
  "renamed p newid s s' \<longleftrightarrow> same_but p s s' \<and> (\<forall>q. outer_object s' q = outer_object s q) \<and> identifier_of s' p = newid"

lemma renamed_refl: "renamed p (identifier_of s p) s s"
  by (simp add: renamed_def)

lemma renamedD:
  assumes "renamed p newid s s'"
  shows "linktable s' = linktable s" "linked s' = linked s" "parents s' = parents s" "idlist s' = idlist s" "blocks s' = blocks s"
    "holder s' = holder s" "q \<noteq> p \<Longrightarrow> heads s' q = heads s q" "q \<noteq> p \<Longrightarrow> identifier_of s' q = identifier_of s q" "identifier_of s' p = newid"
proof -
  show l: "linktable s' = linktable s" "linked s' = linked s" "parents s' = parents s" "idlist s' = idlist s" "blocks s' = blocks s"
    "identifier_of s' p = newid"
    using assms by (simp_all add: renamed_def same_but_def)
  have "Ov_GetParent s' = Ov_GetParent s" by (simp add: fun_eq_iff Ov_GetParent_def l)
  then have "holder s' q = holder s q" for q
    using assms by (simp add: holder_def renamed_def split: option.split)
  then show "holder s' = holder s" by blast
  show "q \<noteq> p \<Longrightarrow> heads s' q = heads s q" "q \<noteq> p \<Longrightarrow> identifier_of s' q = identifier_of s q"
    using assms by (simp_all add: renamed_def same_but_def identifier_of_def)
qed

lemma set_identifier_renamed:
  assumes "set_identifier env p value (s, w) = (OV_ERR_OK, s', w')"
  shows "renamed p value s s'"
proof -
  note e = set_identifier_effect [OF assms]
  have "outer_object s' q = outer_object s q" for q
    using e(1,2) by (cases "q = p") (auto simp: same_but_def outer_object_def)
  then show ?thesis using e(1,3) by (simp add: renamed_def)
qed

lemma ends_same: "ends s q \<Longrightarrow> holder s' = holder s \<Longrightarrow> ends s' q"
  by (induction rule: ends.induct) (auto intro: ends.intros)

text \<open>A forest where the name of \<open>p\<close> may be that of a neighbour, as it is between the two steps.\<close>

definition forest_but :: "objptr \<Rightarrow> objtree \<Rightarrow> bool" where
  "forest_but p s \<longleftrightarrow> links_ok s \<and> (\<forall>q. ends s q) \<and>
     (\<forall>q. distinct (map (identifier_of s) (removeAll p (linked s Containment q)))) \<and>
     (\<forall>c. length (parents s Containment c) \<le> 1)"

lemma renamed_forest:
  assumes "forest_ok s" "renamed p newid s s1"
  shows "forest_but p s1" "(\<And>q. p \<in> set (linked s Containment q) \<Longrightarrow> newid \<notin> identifier_of s ` set (removeAll p (linked s Containment q))) \<Longrightarrow> forest_ok s1"
proof -
  note r = renamedD [OF assms(2)]
  have f: "links_ok s1" "ends s1 q" "length (parents s1 Containment c) \<le> 1" "distinct (linked s Containment q)"
    "inj_on (identifier_of s) (set (linked s Containment q))" for q c
    using assms(1) ends_same [of s q s1] r(2,3,6) by (auto simp: forest_ok_def links_ok_def distinct_map)
  have same: "map (identifier_of s1) (removeAll p cs) = map (identifier_of s) (removeAll p cs)" for cs using r(8) by auto
  have d: "distinct (map (identifier_of s1) (removeAll p (linked s1 Containment q)))" for q
    unfolding r(2) same using f(4,5) [of q] by (simp add: distinct_map distinct_removeAll inj_on_diff)
  show "forest_but p s1" using f(1-3) d by (simp add: forest_but_def)
  assume new: "\<And>q. p \<in> set (linked s Containment q) \<Longrightarrow> newid \<notin> identifier_of s ` set (removeAll p (linked s Containment q))"
  have "distinct (map (identifier_of s1) (linked s1 Containment q))" for q
  proof (cases "p \<in> set (linked s Containment q)")
    case True
    have set: "set (linked s Containment q) = insert p (set (removeAll p (linked s Containment q)))" using True by auto
    have "newid \<notin> identifier_of s1 ` set (removeAll p (linked s Containment q))"
      using new [OF True] r(8) by (auto simp: image_iff)
    moreover have "inj_on (identifier_of s1) (set (removeAll p (linked s Containment q)))"
      using d [of q] r(2) unfolding distinct_map by simp
    ultimately have "inj_on (identifier_of s1) (set (linked s Containment q))"
      unfolding set inj_on_insert using r(9) by auto
    then show ?thesis using f(4) r(2) by (simp add: distinct_map)
  next
    case False
    then show ?thesis using d [of q] r(2) by simp
  qed
  then show "forest_ok s1" using f(1-3) by (simp add: forest_ok_def)
qed

lemma forest_is_but: "forest_ok s \<Longrightarrow> forest_but p s"
  using renamed_forest(1) [OF _ renamed_refl] .

text \<open>Moving an object to another parent.\<close>

definition moved :: "objptr \<Rightarrow> objptr \<Rightarrow> objptr \<Rightarrow> OV_PLACEMENT_HINT \<Rightarrow> objptr option \<Rightarrow> objtree \<Rightarrow> objtree" where
  "moved p old parent hint prelobj s =
    set_parents Containment p [parent]
      (set_linked Containment parent (place hint prelobj p (linked s Containment parent))
        (set_linked Containment old (removeAll p (linked s Containment old)) s))"

definition placement_ok :: "objptr \<Rightarrow> OV_PLACEMENT_HINT \<Rightarrow> objptr option \<Rightarrow> objtree \<Rightarrow> bool" where
  "placement_ok parent hint prelobj s \<longleftrightarrow> hint \<in> {OV_PMH_DEFAULT, OV_PMH_BEGIN, OV_PMH_END} \<or>
     hint \<in> {OV_PMH_BEFORE, OV_PMH_AFTER} \<and> Option.bind prelobj (Ov_GetParent s Containment) = Some parent"

lemma GetParent_list:
  assumes "forest_but p s" "Ov_GetParent s Containment p = Some old"
  shows "parents s Containment p = [old]" "linktable s p" "p \<in> set (linked s Containment q) \<longleftrightarrow> q = old"
proof -
  show l: "linktable s p" using assms(2) by (auto simp: Ov_GetParent_def split: if_splits)
  have "length (parents s Containment p) \<le> 1" using assms(1) by (simp add: forest_but_def)
  then show p: "parents s Containment p = [old]"
    using assms(2) l by (cases "parents s Containment p") (auto simp: Ov_GetParent_def hd_or_def)
  show "p \<in> set (linked s Containment q) \<longleftrightarrow> q = old"
    using assms(1) links_okD [of s p Containment q] p by (simp add: forest_but_def)
qed

lemma move_object_result:
  assumes "forest_but p s" "Ov_GetParent s Containment p = Some old" "parent \<noteq> old" "prelobj \<noteq> Some p"
    and "identifier_of s p \<notin> identifier_of s ` set (linked s Containment parent)"
  shows "move_object p parent hint prelobj s =
    (if placement_ok parent hint prelobj s then Some (moved p old parent hint prelobj s) else None)"
proof -
  note l = GetParent_list [OF assms(1,2)]
  let ?s = "unlink Containment old p s"
  have u: "Ov_GetParent ?s Containment p = None" "linked ?s Containment parent = linked s Containment parent"
    "identifier_of ?s = identifier_of s" "q \<noteq> p \<Longrightarrow> Ov_GetParent ?s Containment q = Ov_GetParent s Containment q" for q
    using l(1) assms(3) by (auto simp: unlink_def set_parents_def set_linked_def Ov_GetParent_def identifier_of_def fun_eq_iff hd_or_def)
  have rel: "Option.bind prelobj (Ov_GetParent ?s Containment) = Option.bind prelobj (Ov_GetParent s Containment)"
    using u(4) assms(4) by (cases prelobj) auto
  have m: "set_parents Containment p [parent] (set_linked Containment parent (place hint prelobj p (linked s Containment parent)) ?s) =
      moved p old parent hint prelobj s"
    using assms(3) by (intro objtree_eqI) (auto simp: moved_def unlink_def set_parents_def set_linked_def)
  show ?thesis
    using assms(2,3,5) u(1-3) rel m
    by (auto simp: move_object_def link_contained_def placement_ok_def Ov_Fail_def)
qed

lemma moved_simps:
  "parent \<noteq> old \<Longrightarrow> linked (moved p old parent h r s) a q =
    (if a = Containment \<and> q = parent then place h r p (linked s Containment parent)
     else if a = Containment \<and> q = old then removeAll p (linked s Containment old) else linked s a q)"
  "parents (moved p old parent h r s) a q = (if a = Containment \<and> q = p then [parent] else parents s a q)"
  "heads (moved p old parent h r s) = heads s" "linktable (moved p old parent h r s) = linktable s"
  "idlist (moved p old parent h r s) = idlist s" "owned (moved p old parent h r s) = owned s" "blocks (moved p old parent h r s) = blocks s"
  "identifier_of (moved p old parent h r s) = identifier_of s" "outer_object (moved p old parent h r s) = outer_object s"
  by (auto simp: moved_def set_parents_def set_linked_def identifier_of_def outer_object_def fun_eq_iff)

lemma moved_forest:
  assumes "forest_but p s" "Ov_GetParent s Containment p = Some old" "parent \<noteq> old" "outer_object s p = None"
    and "identifier_of s p \<notin> identifier_of s ` set (linked s Containment parent)" "inside s p (Some parent) = Some False"
  shows "forest_ok (moved p old parent h r s)"
proof -
  let ?s = "moved p old parent h r s"
  note l = GetParent_list [OF assms(1,2)] and m = moved_simps(1) [OF assms(3), of p h r s]
  have f: "links_ok s" "\<And>q. ends s q" "\<And>q. distinct (map (identifier_of s) (removeAll p (linked s Containment q)))" "\<And>c. length (parents s Containment c) \<le> 1"
    using assms(1) by (auto simp: forest_but_def)
  have up: "holder ?s q = (if q = p then Some parent else holder s q)" for q
    using l(2) assms(4) by (auto simp: holder_def moved_simps(2,4,9) Ov_GetParent_def hd_or_def split: option.splits)
  have par: "ends ?s parent"
    by (rule inside_False [OF f(2) assms(6)]) (simp add: up)
  have "ends ?s q" for q
    using f(2) [of q]
  proof (induction rule: ends.induct)
    case (ends_top q)
    then show ?case using up [of q] par by (cases "q = p") (auto intro: ends.intros)
  next
    case (ends_up q r)
    then show ?case using up [of q] par by (cases "q = p") (auto intro: ends.intros)
  qed
  moreover have "links_ok ?s"
    unfolding links_ok_def
  proof (intro allI)
    fix a x c
    show "c \<in> set (linked ?s a x) \<longleftrightarrow> x \<in> set (parents ?s a c)"
      using links_okD [OF f(1), of c a x] l(3) [of x] l(1) assms(3) by (auto simp: m moved_simps(2) place_set)
  qed
  moreover have "distinct (map (identifier_of ?s) (linked ?s Containment q))" for q
  proof (cases "q = parent")
    case True
    have noparent: "removeAll p (linked s Containment parent) = linked s Containment parent" using l(3) assms(3) by simp
    obtain xs ys where x: "linked s Containment parent = xs @ ys" "place h r p (linked s Containment parent) = xs @ p # ys"
      using place_position [of "linked s Containment parent" h r p] by blast
    have "distinct (map (identifier_of s) (linked s Containment parent))" using f(3) [of parent] unfolding noparent .
    then have "distinct (map (identifier_of s) (xs @ ys))" "identifier_of s p \<notin> set (map (identifier_of s) (xs @ ys))"
      using assms(5) unfolding x(1) by (simp_all add: image_Un)
    then have "distinct (map (identifier_of s) (xs @ p # ys))" by (auto simp: image_Un)
    then show ?thesis using True x(2) m by (simp add: moved_simps(8))
  next
    case False
    have "removeAll p (linked s Containment q) = linked s Containment q" if "q \<noteq> old" using l(3) that by simp
    then show ?thesis using f(3) [of q] False by (cases "q = old") (simp_all add: m moved_simps(8))
  qed
  ultimately show ?thesis using f(4) by (simp add: forest_ok_def moved_simps(2))
qed

section \<open>Renaming\<close>

definition new_identifier :: "objtree \<Rightarrow> objptr \<Rightarrow> string option \<Rightarrow> string" where
  "new_identifier s p name = (case name of None \<Rightarrow> identifier_of s p | Some i \<Rightarrow> i)"

lemma check_rename_ok:
  assumes "check_rename env s (Some p) (Some parent) name prelobj = Some OV_ERR_OK"
  shows "outer_object s p = None" "prelobj \<noteq> Some p"
    "new_identifier s p name \<notin> identifier_of s ` set (linked s Containment parent)"
    "Ov_GetParent s Containment p = Some old \<Longrightarrow> parent \<noteq> old \<Longrightarrow> inside s p (Some parent) = Some False"
  using assms
  by (auto simp: check_rename_def check_move_def new_identifier_def Let_def split: if_splits option.splits bool.splits)

lemma check_rename_returns:
  assumes "forest_ok s" "Ov_GetParent s Containment p = Some old"
  shows "check_rename env s (Some p) (Some parent) name prelobj \<noteq> None"
proof -
  have "ends s parent" using assms(1) by (simp add: forest_ok_def)
  then show ?thesis
    using inside_returns [of s parent p] too_deep_returns [of s parent env] assms(2)
    by (auto simp: check_rename_def check_move_def Let_def split: bool.splits)
qed

text \<open>The object before it is moved: the checks, the method and the new identifier.\<close>

definition rename_steps :: "'w classes \<Rightarrow> objptr \<Rightarrow> objptr \<Rightarrow> string option \<Rightarrow> objptr option \<Rightarrow> 'w ovdb \<Rightarrow> (OV_RESULT \<times> 'w ovdb) option" where
  "rename_steps env p parent name prelobj db =
    (case check_rename env (fst db) (Some p) (Some parent) name prelobj of
       None \<Rightarrow> None
     | Some result \<Rightarrow>
         if Ov_Fail result then Some (result, db)
         else
           let result = m_rename env (method_class env (fst db) p) p (new_identifier (fst db) p name) parent
           in if Ov_Fail result then Some (result, db)
              else Some (case name of None \<Rightarrow> (OV_ERR_OK, db) | Some i \<Rightarrow> set_identifier env p i db))"

lemma rename_by_steps:
  "ov_class_renameobject env (Some p) (Some parent) name hint prelobj db =
    (case rename_steps env p parent name prelobj db of
       None \<Rightarrow> None
     | Some (result, s, w) \<Rightarrow>
         if Ov_Fail result then Some (result, s, w)
         else map_option (\<lambda>s. (OV_ERR_OK, s, w)) (move_object p parent hint prelobj s))"
  by (auto simp: ov_class_renameobject_def rename_steps_def new_identifier_def Let_def split: option.split prod.split)

lemma rename_steps_result:
  assumes "rename_steps env p parent name prelobj (s, w) = Some (r, s1, w1)"
  shows "if r = OV_ERR_OK then renamed p (new_identifier s p name) s s1 \<and> check_rename env s (Some p) (Some parent) name prelobj = Some OV_ERR_OK
    else s1 = s"
proof (cases name)
  case None
  then show ?thesis
    using assms renamed_refl [of p s] by (auto simp: rename_steps_def new_identifier_def Ov_Fail_def Let_def split: option.splits if_splits)
next
  case (Some i)
  obtain r2 s2 w2 where i: "set_identifier env p i (s, w) = (r2, s2, w2)" by (metis prod.exhaust)
  then show ?thesis
    using assms Some set_identifier_renamed [of env p i s w s2 w2] set_identifier_effect(4) [OF i]
    by (auto simp: rename_steps_def new_identifier_def Ov_Fail_def Let_def split: option.splits if_splits)
qed

lemma rename_moves:
  assumes "forest_ok s" "Ov_GetParent s Containment p = Some old"
    and "check_rename env s (Some p) (Some parent) name prelobj = Some OV_ERR_OK" "renamed p (new_identifier s p name) s s1"
  shows "parent = old \<Longrightarrow> forest_ok s1"
    "move_object p parent hint prelobj s1 =
      (if parent = old then Some s1 else if placement_ok parent hint prelobj s then Some (moved p old parent hint prelobj s1) else None)"
    "parent \<noteq> old \<Longrightarrow> forest_ok (moved p old parent hint prelobj s1)"
proof -
  note c = check_rename_ok [OF assms(3)] and r = renamedD [OF assms(4)] and l = GetParent_list [OF forest_is_but [OF assms(1)] assms(2)]
  have names: "newid \<notin> identifier_of s1 ` set (linked s1 Containment parent)"
    if "newid = new_identifier s p name" "parent \<noteq> old" for newid
  proof
    assume "newid \<in> identifier_of s1 ` set (linked s1 Containment parent)"
    then obtain x where x: "x \<in> set (linked s Containment parent)" "newid = identifier_of s1 x" using r(2) by auto
    then have "x \<noteq> p" using l(3) that(2) by auto
    then show False using x c(3) r(8) that(1) by auto
  qed
  have f1: "forest_but p s1" by (rule renamed_forest(1) [OF assms(1,4)])
  have same: "Ov_GetParent s1 = Ov_GetParent s" "linked s1 = linked s" using r(1-3) by (simp_all add: fun_eq_iff Ov_GetParent_def)
  then have g: "Ov_GetParent s1 Containment p = Some old" "placement_ok parent hint prelobj s1 = placement_ok parent hint prelobj s"
    using assms(2) by (simp_all add: placement_ok_def)
  have out: "outer_object s1 p = None" using assms(4) c(1) by (simp add: renamed_def)
  show "forest_ok s1" if "parent = old"
    by (rule renamed_forest(2) [OF assms(1,4)]) (use l(3) c(3) that in auto)
  show "move_object p parent hint prelobj s1 =
      (if parent = old then Some s1 else if placement_ok parent hint prelobj s then Some (moved p old parent hint prelobj s1) else None)"
  proof (cases "parent = old")
    case True
    then show ?thesis using g by (simp add: move_object_def)
  next
    case False
    show ?thesis using move_object_result [OF f1 g(1) False c(2)] names [OF refl False] r(9) g(2) False by simp
  qed
  show "forest_ok (moved p old parent hint prelobj s1)" if ne: "parent \<noteq> old"
  proof (rule moved_forest [OF f1 g(1) ne out])
    show "identifier_of s1 p \<notin> identifier_of s1 ` set (linked s1 Containment parent)" using names [OF refl ne] r(9) by simp
    show "inside s1 p (Some parent) = Some False"
    proof -
      have "ends s parent" using assms(1) by (simp add: forest_ok_def)
      then have "inside s1 p (Some parent) = inside s p (Some parent)"
        by (induction rule: ends.induct) (simp_all add: inside.simps [of _ p "Some _"] inside.simps [of _ p None] r(6))
      then show ?thesis using c(4) [OF assms(2) ne] by simp
    qed
  qed
qed

lemma rename_result:
  assumes "forest_ok s" "ov_class_renameobject env (Some p) (Some parent) name hint prelobj (s, w) = Some (r, s', w')"
  shows "if r = OV_ERR_OK then forest_ok s' \<and> (\<exists>old s1. Ov_GetParent s Containment p = Some old \<and> renamed p (new_identifier s p name) s s1 \<and>
      s' = (if parent = old then s1 else moved p old parent hint prelobj s1) \<and> (parent = old \<or> placement_ok parent hint prelobj s))
    else s' = s"
proof -
  obtain r1 s1 w1 where steps: "rename_steps env p parent name prelobj (s, w) = Some (r1, s1, w1)"
    and fin: "(if Ov_Fail r1 then Some (r1, s1, w1) else map_option (\<lambda>s. (OV_ERR_OK, s, w1)) (move_object p parent hint prelobj s1)) = Some (r, s', w')"
    using assms(2) by (auto simp: rename_by_steps split: option.splits)
  note st = rename_steps_result [OF steps]
  show ?thesis
  proof (cases "r1 = OV_ERR_OK")
    case False
    then show ?thesis using st fin by (simp add: Ov_Fail_def)
  next
    case True
    then have ren: "renamed p (new_identifier s p name) s s1" and chk: "check_rename env s (Some p) (Some parent) name prelobj = Some OV_ERR_OK"
      using st by simp_all
    obtain old where old: "Ov_GetParent s Containment p = Some old"
      using chk by (auto simp: check_rename_def Let_def split: if_splits option.splits)
    note m = rename_moves(1) [OF assms(1) old chk ren] rename_moves(2,3) [OF assms(1) old chk ren, where hint = hint]
    have "move_object p parent hint prelobj s1 = Some s'" "r = OV_ERR_OK" using fin True by (auto simp: Ov_Fail_def)
    then show ?thesis using m old ren by (cases "parent = old") (auto split: if_splits)
  qed
qed

section \<open>An example\<close>

text \<open>The database of OvObjectTree with a second domain at 70 in the root.\<close>

definition obj_depot :: objtree where
  "obj_depot = obj_db\<lparr>heads := (heads obj_db)(70 \<mapsto> obj_head ''depot'' None 6), linktable := (\<lambda>p. linktable obj_db p \<or> p = 70),
     linked := (\<lambda>a p. if a = Instantiation \<and> p = 1 then [50, 70] else if a = Containment \<and> p = 50 then [100, 70] else linked obj_db a p),
     parents := (\<lambda>a c. if c = 70 then (if a = Instantiation then [1] else if a = Containment then [50] else []) else parents obj_db a c)\<rparr>"

lemma obj_depot_forest: "forest_ok obj_depot"
proof -
  have "links_ok obj_depot" by (auto simp: links_ok_def obj_depot_def obj_db_def split: if_splits)
  moreover have "ends obj_depot q" for q
  proof -
    have root: "ends obj_depot 50"
      by (rule ends_top) (simp add: holder_def outer_object_def obj_depot_def obj_db_def obj_head_def Ov_GetParent_def)
    have "holder obj_depot q = (if q = 54 \<or> q = 70 \<or> q = 100 then Some 50 else None)"
      by (simp add: holder_def outer_object_def obj_depot_def obj_db_def obj_head_def Ov_GetParent_def)
    then show ?thesis using root by (metis ends.intros)
  qed
  moreover have "distinct (map (identifier_of obj_depot) (linked obj_depot Containment q))" for q
    by (simp add: obj_depot_def obj_db_def identifier_of_def obj_head_def)
  ultimately show ?thesis by (simp add: forest_ok_def obj_depot_def obj_db_def)
qed

lemma obj_depot_moves:
  "map_option fst (ov_class_renameobject obj_env (Some 100) (Some 70) (Some ''p1'') OV_PMH_END None (obj_depot, obj_world)) = Some OV_ERR_OK"
  "map_option fst (ov_class_renameobject obj_env (Some 100) (Some 70) (Some ''p1'') OV_PMH_DEFAULT None (obj_depot, obj_world)) = Some OV_ERR_OK"
  by code_simp+

section \<open>What renaming does\<close>



text \<open>A move whose placement the new parent cannot take (an unknown hint, or a neighbour that is
  not one of its children) is not refused: the server aborts, exactly when the call would have
  succeeded with the default placement.\<close>

lemma bad_placement_aborts:
  assumes "forest_ok s" "Ov_GetParent s Containment p = Some old" "parent \<noteq> old" "prelobj \<noteq> Some p"
  shows "ov_class_renameobject env (Some p) (Some parent) name hint prelobj (s, w) = None \<longleftrightarrow>
    \<not> (hint \<in> {OV_PMH_DEFAULT, OV_PMH_BEGIN, OV_PMH_END} \<or>
       hint \<in> {OV_PMH_BEFORE, OV_PMH_AFTER} \<and> Option.bind prelobj (Ov_GetParent s Containment) = Some parent) \<and>
    (\<exists>s' w'. ov_class_renameobject env (Some p) (Some parent) name OV_PMH_DEFAULT None (s, w) = Some (OV_ERR_OK, s', w'))"
proof -
  have chk: "check_rename env s (Some p) (Some parent) name prelobj = check_rename env s (Some p) (Some parent) name None"
    using assms(4) by (simp add: check_rename_def)
  then have steps: "rename_steps env p parent name prelobj (s, w) = rename_steps env p parent name None (s, w)"
    by (simp add: rename_steps_def)
  obtain r1 s1 w1 where st: "rename_steps env p parent name None (s, w) = Some (r1, s1, w1)"
    using check_rename_returns [OF assms(1,2), of env parent name None]
    by (cases "rename_steps env p parent name None (s, w)") (auto simp: rename_steps_def Let_def split: if_splits)
  show ?thesis
  proof (cases "r1 = OV_ERR_OK")
    case False
    then show ?thesis using st steps by (simp add: rename_by_steps Ov_Fail_def)
  next
    case True
    then have x: "renamed p (new_identifier s p name) s s1" "check_rename env s (Some p) (Some parent) name None = Some OV_ERR_OK"
      using rename_steps_result [OF st] by simp_all
    have m: "move_object p parent hint prelobj s1 = (if placement_ok parent hint prelobj s then Some (moved p old parent hint prelobj s1) else None)"
      using rename_moves(2) [OF assms(1,2) _ x(1), where env = env and parent = parent and prelobj = prelobj and hint = hint] chk x(2) assms(3) by simp
    have m0: "move_object p parent OV_PMH_DEFAULT None s1 = Some (moved p old parent OV_PMH_DEFAULT None s1)"
      using rename_moves(2) [OF assms(1,2) x(2,1), where hint = OV_PMH_DEFAULT] assms(3) by (simp add: placement_ok_def)
    show ?thesis
      using st steps True m m0 by (simp add: rename_by_steps Ov_Fail_def placement_ok_def)
  qed
qed

end
