(* ===== verification/OvObjectId.thy ===== *)
theory OvObjectId
  imports OvObject
begin

text \<open>
  The names that \<open>ov_class_createIDedObject\<close> makes of the next id: they are distinct as long as the high
  half of the id has at most six hexadecimal digits.
\<close>

lemma hex_number_length: "0 < length (hex_number n)" "n < 16 ^ Suc k \<Longrightarrow> length (hex_number n) \<le> Suc k"
proof -
  show "0 < length (hex_number n)" by (subst hex_number.simps) simp
  show "n < 16 ^ Suc k \<Longrightarrow> length (hex_number n) \<le> Suc k"
  proof (induction k arbitrary: n)
    case 0
    then show ?case by (subst hex_number.simps) simp
  next
    case (Suc k)
    have "n div 16 < 16 ^ Suc k" using Suc.prems by (simp add: less_mult_imp_div_less)
    from Suc.IH [OF this] show ?case by (subst hex_number.simps) simp
  qed
qed

fun hex_read :: "string \<Rightarrow> nat \<Rightarrow> nat" where
  "hex_read [] n = n"
| "hex_read (c # cs) n = hex_read cs (16 * n + unat (hex_value c))"

lemma hex_read_append: "hex_read (xs @ ys) n = hex_read ys (hex_read xs n)"
  by (induction xs n rule: hex_read.induct) simp_all

lemma hex_read_number: "hex_read (hex_number n) 0 = n"
proof (induction n rule: hex_number.induct)
  case (1 n)
  then show ?case by (subst hex_number.simps) (simp add: hex_read_append hex_roundtrip_16)
qed

lemma hex_read_zero_filled: "hex_read (zero_filled width (hex_number n)) 0 = n"
proof -
  have "hex_read (replicate k CHR ''0'') 0 = 0" for k
    by (induction k) (simp_all add: hex_value_def char_int_def)
  then show ?thesis by (simp add: zero_filled_def hex_read_append hex_read_number)
qed

lemma zero_filled_length: "n < 16 ^ Suc k \<Longrightarrow> Suc k \<le> width \<Longrightarrow> length (zero_filled width (hex_number n)) = width"
  using hex_number_length(2) [of n k] by (simp add: zero_filled_def)

lemma id_low_length: "length (zero_filled 8 (hex_number (unat (idL :: OV_UINT)))) = 8"
  using unsigned_less [of idL] by (intro zero_filled_length [where k = 7]) simp_all

lemma id_identifier_parts:
  assumes "unat idH < 16 ^ 6"
  obtains h where "id_identifier idH idL = h @ zero_filled 8 (hex_number (unat idL))" "length h = 8"
    "hex_read (drop 2 h) 0 = unat idH"
proof (cases "idH = 0")
  case True
  have "hex_read (drop 2 (replicate 8 CHR ''0'')) 0 = 0" by (simp add: numeral_eq_Suc hex_value_def char_int_def)
  then show ?thesis using that [of "replicate 8 CHR ''0''"] True by (simp add: id_identifier_def)
next
  case False
  have "length (zero_filled 6 (hex_number (unat idH))) = 6"
    using assms by (intro zero_filled_length [where k = 5]) simp_all
  then show ?thesis
    using that [of "''0X'' @ zero_filled 6 (hex_number (unat idH))"] False by (simp add: id_identifier_def hex_read_zero_filled)
qed

lemma id_names_distinct:
  assumes "take 16 (id_identifier idH idL) = take 16 (id_identifier idH' idL')" "unat idH < 16 ^ 6" "unat idH' < 16 ^ 6"
  shows "idH = idH' \<and> idL = idL'"
proof -
  obtain h where h: "id_identifier idH idL = h @ zero_filled 8 (hex_number (unat idL))" "length h = 8" "hex_read (drop 2 h) 0 = unat idH"
    by (rule id_identifier_parts [OF assms(2)])
  obtain h' where h': "id_identifier idH' idL' = h' @ zero_filled 8 (hex_number (unat idL'))" "length h' = 8" "hex_read (drop 2 h') 0 = unat idH'"
    by (rule id_identifier_parts [OF assms(3)])
  have "h = h' \<and> zero_filled 8 (hex_number (unat idL)) = zero_filled 8 (hex_number (unat idL'))"
    using assms(1) h(1,2) h'(1,2) by (simp add: id_low_length)
  then show ?thesis
    using h(3) h'(3) hex_read_zero_filled [of 8 "unat idL"] hex_read_zero_filled [of 8 "unat idL'"]
    by (metis word_unat_eq_iff)
qed

text \<open>With a seventh digit the prefix is in the way: the last digit of the id is cut off.\<close>

lemma id_names_collide: "take 16 (id_identifier 0x1000000 0) = take 16 (id_identifier 0x1000000 1)"
proof -
  have small: "n < 16 \<Longrightarrow> hex_number n = [hex_digit n]" and big: "16 \<le> n \<Longrightarrow> hex_number n = hex_number (n div 16) @ [hex_digit (n mod 16)]" for n
    by (subst hex_number.simps, simp)+
  have "hex_number (16777216 :: nat) = [hex_digit 1, hex_digit 0, hex_digit 0, hex_digit 0, hex_digit 0, hex_digit 0, hex_digit 0]"
    by (simp add: small big)
  moreover have "hex_number 0 = [hex_digit 0]" "hex_number 1 = [hex_digit 1]" by (simp_all add: small)
  moreover have "unat (0x1000000 :: OV_UINT) = 16777216" by simp
  moreover have "replicate 7 CHR ''0'' = ''0000000''" by (simp add: numeral_eq_Suc)
  ultimately show ?thesis by (simp add: id_identifier_def zero_filled_def)
qed

end
