(* ===== verification/StdBlocks.thy ===== *)
theory StdBlocks
  imports OvTime
begin

text \<open>
  addonlibs/functionblock/iec61131stdfb: the edge detectors, counters, timers and shifts of the
  function block library of IEC 61131. A block is the record of its ports and memory; its
  typemethod is one call with the inputs that are set. A clock reading is an argument. A shift by
  the width of the word is undefined in C: the result is \<open>None\<close>.
\<close>

section \<open>Edge detectors\<close>

record TRIG =
  t_CLK :: bool
  t_Q :: bool
  t_LastCLK :: bool

definition iec61131stdfb_RTRIG_typemethod :: "TRIG \<Rightarrow> TRIG" where
  "iec61131stdfb_RTRIG_typemethod pinst =
    pinst\<lparr>t_Q := t_CLK pinst \<and> \<not> t_LastCLK pinst, t_LastCLK := t_CLK pinst\<rparr>"

definition iec61131stdfb_FTRIG_typemethod :: "TRIG \<Rightarrow> TRIG" where
  "iec61131stdfb_FTRIG_typemethod pinst =
    pinst\<lparr>t_Q := \<not> t_CLK pinst \<and> t_LastCLK pinst, t_LastCLK := t_CLK pinst\<rparr>"

section \<open>Counters\<close>

record CTU =
  u_CU :: bool
  u_R :: bool
  u_PV :: OV_INT
  u_PVmax :: OV_INT
  u_Q :: bool
  u_CV :: OV_INT
  u_LastCLK :: bool

definition iec61131stdfb_CTU_typemethod :: "CTU \<Rightarrow> CTU" where
  "iec61131stdfb_CTU_typemethod pinst =
    (if u_R pinst then
       pinst\<lparr>u_CV := 0, u_LastCLK := u_CU pinst, u_Q := sint (u_PV pinst) \<le> 0\<rparr>
     else
       (let pinst =
          (if u_CU pinst \<and> \<not> u_LastCLK pinst \<and> sint (u_CV pinst) < sint (u_PVmax pinst)
           then let cv = u_CV pinst + 1 in pinst\<lparr>u_CV := cv, u_Q := sint (u_PV pinst) \<le> sint cv\<rparr>
           else pinst)
        in pinst\<lparr>u_LastCLK := u_CU pinst\<rparr>))"

record CTD =
  d_CD :: bool
  d_LD :: bool
  d_PV :: OV_INT
  d_PVmin :: OV_INT
  d_Q :: bool
  d_CV :: OV_INT
  d_LastCLK :: bool

definition iec61131stdfb_CTD_typemethod :: "CTD \<Rightarrow> CTD" where
  "iec61131stdfb_CTD_typemethod pinst =
    (if d_LD pinst then
       pinst\<lparr>d_CV := d_PV pinst, d_LastCLK := d_CD pinst, d_Q := sint (d_PV pinst) \<le> 0\<rparr>
     else
       (let pinst =
          (if d_CD pinst \<and> \<not> d_LastCLK pinst \<and> sint (d_PVmin pinst) < sint (d_CV pinst)
           then let cv = d_CV pinst - 1 in pinst\<lparr>d_CV := cv, d_Q := sint cv \<le> 0\<rparr>
           else pinst)
        in pinst\<lparr>d_LastCLK := d_CD pinst\<rparr>))"

record CTUD =
  ud_CU :: bool
  ud_CD :: bool
  ud_R :: bool
  ud_LD :: bool
  ud_PV :: OV_INT
  ud_PVmax :: OV_INT
  ud_PVmin :: OV_INT
  ud_QU :: bool
  ud_QD :: bool
  ud_CV :: OV_INT
  ud_LastCLKU :: bool
  ud_LastCLKD :: bool

definition ctud_count :: "CTUD \<Rightarrow> OV_INT" where
  "ctud_count pinst =
    (let up = ud_CU pinst \<and> \<not> ud_LastCLKU pinst; down = ud_CD pinst \<and> \<not> ud_LastCLKD pinst
     in if up \<and> \<not> down \<and> sint (ud_CV pinst) < sint (ud_PVmax pinst) then ud_CV pinst + 1
        else if down \<and> \<not> up \<and> sint (ud_CV pinst) > sint (ud_PVmin pinst) then ud_CV pinst - 1
        else ud_CV pinst)"

definition iec61131stdfb_CTUD_typemethod :: "CTUD \<Rightarrow> CTUD" where
  "iec61131stdfb_CTUD_typemethod pinst =
    (let cv = (if ud_R pinst then 0 else if ud_LD pinst then ud_PV pinst else ctud_count pinst)
     in pinst\<lparr>ud_CV := cv, ud_LastCLKU := ud_CU pinst, ud_LastCLKD := ud_CD pinst,
          ud_QU := sint (ud_PV pinst) \<le> sint cv, ud_QD := sint cv \<le> 0\<rparr>)"

section \<open>Timers\<close>

text \<open>\<open>tm_Released\<close> is used by the pulse only. The clock is read once for the trigger and once for the
  time since then.\<close>

record TIMER =
  tm_IN :: bool
  tm_PT :: OV_TIME_SPAN
  tm_Q :: bool
  tm_ET :: OV_TIME_SPAN
  tm_TriggerTime :: OV_TIME
  tm_Counting :: bool
  tm_Released :: bool

definition not_over :: "OV_TIME_SPAN \<Rightarrow> OV_TIME_SPAN \<Rightarrow> bool" where
  "not_over tTimeSpan pt \<longleftrightarrow>
     sint (span_secs tTimeSpan) < sint (span_secs pt) \<or>
     span_secs tTimeSpan = span_secs pt \<and> sint (span_usecs tTimeSpan) < sint (span_usecs pt)"

definition timer_trigger :: "OV_TIME \<Rightarrow> bool \<Rightarrow> TIMER \<Rightarrow> TIMER" where
  "timer_trigger now input pinst =
    (if input \<and> \<not> tm_Counting pinst then pinst\<lparr>tm_TriggerTime := now, tm_Counting := True\<rparr> else pinst)"

text \<open>The seconds are set to zero twice, the microseconds stay.\<close>

definition iec61131stdfb_TON_typemethod :: "OV_TIME \<Rightarrow> OV_TIME \<Rightarrow> TIMER \<Rightarrow> TIMER" where
  "iec61131stdfb_TON_typemethod now tTime pinst =
    (let pinst = timer_trigger now (tm_IN pinst) pinst
     in if tm_Counting pinst then
          (if tm_IN pinst then
             (let tTimeSpan = ov_time_diff tTime (tm_TriggerTime pinst)
              in if not_over tTimeSpan (tm_PT pinst) then pinst\<lparr>tm_ET := tTimeSpan\<rparr>
                 else pinst\<lparr>tm_Q := True, tm_ET := tm_PT pinst\<rparr>)
           else pinst\<lparr>tm_ET := (tm_ET pinst)\<lparr>span_secs := 0\<rparr>, tm_Counting := False, tm_Q := False\<rparr>)
        else if \<not> tm_IN pinst then pinst\<lparr>tm_Q := False\<rparr>
        else pinst)"

definition iec61131stdfb_TOFF_typemethod :: "OV_TIME \<Rightarrow> OV_TIME \<Rightarrow> TIMER \<Rightarrow> TIMER" where
  "iec61131stdfb_TOFF_typemethod now tTime pinst =
    (let pinst = timer_trigger now (\<not> tm_IN pinst) pinst
     in if tm_Counting pinst then
          (if \<not> tm_IN pinst then
             (let tTimeSpan = ov_time_diff tTime (tm_TriggerTime pinst)
              in if not_over tTimeSpan (tm_PT pinst) then pinst\<lparr>tm_ET := tTimeSpan\<rparr>
                 else pinst\<lparr>tm_Q := False, tm_ET := tm_PT pinst\<rparr>)
           else pinst\<lparr>tm_ET := (tm_ET pinst)\<lparr>span_secs := 0\<rparr>, tm_Counting := False, tm_Q := True\<rparr>)
        else if tm_IN pinst then pinst\<lparr>tm_Q := True\<rparr>
        else pinst)"

definition iec61131stdfb_TP_typemethod :: "OV_TIME \<Rightarrow> OV_TIME \<Rightarrow> TIMER \<Rightarrow> TIMER" where
  "iec61131stdfb_TP_typemethod now tTime pinst =
    (let pinst = (if tm_IN pinst \<and> \<not> tm_Counting pinst
                  then pinst\<lparr>tm_TriggerTime := now, tm_Counting := True, tm_Released := False, tm_Q := True\<rparr>
                  else pinst)
     in if tm_Counting pinst then
          let pinst = (if \<not> tm_Released pinst then pinst\<lparr>tm_Released := \<not> tm_IN pinst\<rparr> else pinst);
              tTimeSpan = ov_time_diff tTime (tm_TriggerTime pinst)
          in if not_over tTimeSpan (tm_PT pinst) then pinst\<lparr>tm_ET := tTimeSpan\<rparr>
             else if \<not> tm_Released pinst then pinst\<lparr>tm_Q := False, tm_ET := tm_PT pinst\<rparr>
             else pinst\<lparr>tm_Q := False, tm_ET := \<lparr>span_secs = 0, span_usecs = 0\<rparr>, tm_Counting := False\<rparr>
        else pinst)"

section \<open>Shifts\<close>

text \<open>\<open>IN << n\<close> and \<open>IN >> n\<close> on 32 bits.\<close>

definition c_shl :: "OV_UINT \<Rightarrow> nat \<Rightarrow> OV_UINT option" where
  "c_shl x n = (if n < 32 then Some (push_bit n x) else None)"

definition c_shr :: "OV_UINT \<Rightarrow> nat \<Rightarrow> OV_UINT option" where
  "c_shr x n = (if n < 32 then Some (drop_bit n x) else None)"

definition c_or :: "OV_UINT option \<Rightarrow> OV_UINT option \<Rightarrow> OV_UINT option" where
  "c_or a b = (case (a, b) of (Some x, Some y) \<Rightarrow> Some (x OR y) | _ \<Rightarrow> None)"

text \<open>The rotations write the reduced \<open>N\<close> back.\<close>

record SHIFT =
  sh_IN :: OV_UINT
  sh_N :: OV_UINT
  sh_OUT :: OV_UINT

definition shift_out :: "SHIFT \<Rightarrow> OV_UINT option \<Rightarrow> SHIFT option" where
  "shift_out pinst x = map_option (\<lambda>y. pinst\<lparr>sh_OUT := y\<rparr>) x"

definition iec61131stdfb_ROL_typemethod :: "SHIFT \<Rightarrow> SHIFT option" where
  "iec61131stdfb_ROL_typemethod pinst =
    (let pinst = pinst\<lparr>sh_N := sh_N pinst mod 32\<rparr>; n = unat (sh_N pinst)
     in shift_out pinst (c_or (c_shl (sh_IN pinst) n) (c_shr (sh_IN pinst) (32 - n))))"

definition iec61131stdfb_ROR_typemethod :: "SHIFT \<Rightarrow> SHIFT option" where
  "iec61131stdfb_ROR_typemethod pinst =
    (let pinst = pinst\<lparr>sh_N := sh_N pinst mod 32\<rparr>; n = unat (sh_N pinst)
     in shift_out pinst (c_or (c_shr (sh_IN pinst) n) (c_shl (sh_IN pinst) (32 - n))))"

definition iec61131stdfb_SHL_typemethod :: "SHIFT \<Rightarrow> SHIFT option" where
  "iec61131stdfb_SHL_typemethod pinst =
    shift_out pinst (if sh_N pinst > 32 then Some 0 else c_shl (sh_IN pinst) (unat (sh_N pinst)))"

definition iec61131stdfb_SHR_typemethod :: "SHIFT \<Rightarrow> SHIFT option" where
  "iec61131stdfb_SHR_typemethod pinst =
    shift_out pinst (if sh_N pinst > 32 then Some 0 else c_shr (sh_IN pinst) (unat (sh_N pinst)))"

section \<open>Edges\<close>

text \<open>The rising edges of a sequence of values after \<open>prev\<close>.\<close>

fun edges :: "bool \<Rightarrow> bool list \<Rightarrow> nat" where
  "edges prev [] = 0"
| "edges prev (c # cs) = (if c \<and> \<not> prev then 1 else 0) + edges c cs"

lemma edges_append: "edges l (as @ bs) = edges l as + edges (if as = [] then l else last as) bs"
  by (induction as arbitrary: l) auto

section \<open>The up counter\<close>

definition ctu_call :: "CTU \<Rightarrow> bool \<Rightarrow> CTU" where
  "ctu_call pinst cu = iec61131stdfb_CTU_typemethod (pinst\<lparr>u_CU := cu, u_R := False\<rparr>)"

definition ctu_reset :: "CTU \<Rightarrow> bool \<Rightarrow> CTU" where
  "ctu_reset pinst cu = iec61131stdfb_CTU_typemethod (pinst\<lparr>u_CU := cu, u_R := True\<rparr>)"

text \<open>The value lies between zero and the maximum and \<open>Q\<close> tells whether it has reached \<open>PV\<close>.\<close>

definition ctu_inv :: "CTU \<Rightarrow> bool" where
  "ctu_inv pinst \<longleftrightarrow> 0 \<le> sint (u_CV pinst) \<and> sint (u_CV pinst) \<le> sint (u_PVmax pinst) \<and>
     u_Q pinst = (sint (u_PV pinst) \<le> sint (u_CV pinst))"

lemma sint_suc_32:
  assumes "sint (w :: 32 word) < sint (m :: 32 word)" "- 2147483648 \<le> sint w"
  shows "sint (w + 1) = sint w + 1"
  using sint_step [of w 1] assms sint_lt [of m] by simp

lemma ctu_call_step:
  fixes cu :: bool
  assumes "ctu_inv pinst"
  defines "p \<equiv> ctu_call pinst cu"
  shows "ctu_inv p \<and> u_PV p = u_PV pinst \<and> u_PVmax p = u_PVmax pinst \<and> u_LastCLK p = cu \<and>
    sint (u_CV p) = min (sint (u_CV pinst) + (if cu \<and> \<not> u_LastCLK pinst then 1 else 0)) (sint (u_PVmax pinst))"
proof -
  have step: "sint (u_CV pinst + 1) = sint (u_CV pinst) + 1"
    if "sint (u_CV pinst) < sint (u_PVmax pinst)"
    using that assms(1) by (intro sint_suc_32) (auto simp: ctu_inv_def)
  show ?thesis
    using assms(1) step unfolding p_def
    by (auto simp: ctu_call_def iec61131stdfb_CTU_typemethod_def ctu_inv_def Let_def)
qed

lemma ctu_calls:
  fixes cs :: "bool list"
  assumes "ctu_inv pinst"
  defines "p \<equiv> foldl ctu_call pinst cs"
  shows "ctu_inv p \<and> u_PV p = u_PV pinst \<and> u_PVmax p = u_PVmax pinst \<and>
    sint (u_CV p) = min (sint (u_CV pinst) + int (edges (u_LastCLK pinst) cs)) (sint (u_PVmax pinst))"
  using assms(1) unfolding p_def
proof (induction cs arbitrary: pinst)
  case Nil
  then show ?case by (simp add: ctu_inv_def)
next
  case (Cons c cs)
  note s = ctu_call_step [OF Cons.prems, of c]
  show ?case using Cons.IH [of "ctu_call pinst c"] s by auto
qed

lemma ctu_reset_inv:
  fixes cu :: bool
  assumes "0 \<le> sint (u_PVmax pinst)"
  defines "p \<equiv> ctu_reset pinst cu"
  shows "ctu_inv p \<and> u_PV p = u_PV pinst \<and> u_PVmax p = u_PVmax pinst \<and> u_LastCLK p = cu \<and> u_CV p = 0"
  using assms(1) unfolding p_def
  by (auto simp: ctu_reset_def iec61131stdfb_CTU_typemethod_def ctu_inv_def)

text \<open>The up counter counts the rising edges of CU since its last reset and stops at PVmax,
  and Q is set exactly when the count has reached PV: after a call with R set and any number of
  further calls without R, the value is the number of rising edges among these calls or PVmax, if
  that is less. No count wraps around.\<close>

lemma counter_counts_edges:
  assumes "0 \<le> sint (u_PVmax pinst)"
  shows "let p = foldl ctu_call (ctu_reset pinst cu) cs;
             n = min (int (edges cu cs)) (sint (u_PVmax pinst))
    in sint (u_CV p) = n \<and> (u_Q p \<longleftrightarrow> sint (u_PV pinst) \<le> n)"
proof -
  have r: "ctu_inv (ctu_reset pinst cu)" "u_PV (ctu_reset pinst cu) = u_PV pinst"
    "u_PVmax (ctu_reset pinst cu) = u_PVmax pinst" "u_LastCLK (ctu_reset pinst cu) = cu"
    "u_CV (ctu_reset pinst cu) = 0"
    using ctu_reset_inv [OF assms, of cu] by auto
  show ?thesis using ctu_calls [OF r(1), of cs, unfolded r(2-5)] by (simp add: ctu_inv_def Let_def)
qed

text \<open>Three rising edges, the value stops at two.\<close>

definition a_ctu :: CTU where
  "a_ctu = \<lparr>u_CU = False, u_R = False, u_PV = 2, u_PVmax = 2, u_Q = True, u_CV = 7, u_LastCLK = False\<rparr>"

section \<open>The down counter and the up and down counter\<close>

lemma sint_pred_32:
  assumes "sint (m :: 32 word) < sint (w :: 32 word)"
  shows "sint (w - 1) = sint w - 1"
  using sint_step [of w "- 1"] assms sint_ge [of m] sint_lt [of w] by simp

lemma ctd_call_step:
  assumes "\<not> d_LD pinst" "sint (d_PVmin pinst) \<le> sint (d_CV pinst)"
  shows "sint (d_CV (iec61131stdfb_CTD_typemethod pinst)) =
    max (sint (d_CV pinst) - (if d_CD pinst \<and> \<not> d_LastCLK pinst then 1 else 0)) (sint (d_PVmin pinst))"
  using assms sint_pred_32 [of "d_PVmin pinst" "d_CV pinst"]
  by (auto simp: iec61131stdfb_CTD_typemethod_def Let_def)

text \<open>Two edges at the same time cancel, and the value never leaves its bounds by counting.\<close>

lemma ctud_call_step:
  assumes "\<not> ud_R pinst" "\<not> ud_LD pinst"
    "sint (ud_PVmin pinst) \<le> sint (ud_CV pinst)" "sint (ud_CV pinst) \<le> sint (ud_PVmax pinst)"
  defines "p \<equiv> iec61131stdfb_CTUD_typemethod pinst"
    and "d \<equiv> (if ud_CU pinst \<and> \<not> ud_LastCLKU pinst then 1 else 0) -
      (if ud_CD pinst \<and> \<not> ud_LastCLKD pinst then 1 else (0 :: int))"
  shows "sint (ud_CV p) = max (sint (ud_PVmin pinst)) (min (sint (ud_PVmax pinst)) (sint (ud_CV pinst) + d))"
    and "ud_QU p = (sint (ud_PV pinst) \<le> sint (ud_CV p))" and "ud_QD p = (sint (ud_CV p) \<le> 0)"
proof -
  have "sint (ud_CV pinst + 1) = sint (ud_CV pinst) + 1" if "sint (ud_CV pinst) < sint (ud_PVmax pinst)"
    using that sint_ge [of "ud_CV pinst"] by (intro sint_suc_32) simp_all
  moreover have "sint (ud_CV pinst - 1) = sint (ud_CV pinst) - 1"
    if "sint (ud_PVmin pinst) < sint (ud_CV pinst)" using that by (rule sint_pred_32)
  ultimately show "sint (ud_CV p) = max (sint (ud_PVmin pinst)) (min (sint (ud_PVmax pinst)) (sint (ud_CV pinst) + d))"
    using assms(1-4) unfolding p_def d_def
    by (auto simp: iec61131stdfb_CTUD_typemethod_def ctud_count_def Let_def)
  show "ud_QU p = (sint (ud_PV pinst) \<le> sint (ud_CV p))" "ud_QD p = (sint (ud_CV p) \<le> 0)"
    by (simp_all add: p_def iec61131stdfb_CTUD_typemethod_def Let_def)
qed

section \<open>The on-delay timer\<close>

text \<open>A call: the input, the clock where the trigger reads it and where the time since then reads it.\<close>

type_synonym tcall = "bool \<times> OV_TIME \<times> OV_TIME"

fun ton_call :: "TIMER \<Rightarrow> tcall \<Rightarrow> TIMER" where
  "ton_call pinst (i, now, tTime) = iec61131stdfb_TON_typemethod now tTime (pinst\<lparr>tm_IN := i\<rparr>)"

fun toff_call :: "TIMER \<Rightarrow> tcall \<Rightarrow> TIMER" where
  "toff_call pinst (i, now, tTime) = iec61131stdfb_TOFF_typemethod now tTime (pinst\<lparr>tm_IN := i\<rparr>)"

text \<open>A preset time that is neither negative nor has a full second in its microseconds.\<close>

definition preset :: "OV_TIME_SPAN \<Rightarrow> bool" where
  "preset pt \<longleftrightarrow> 0 \<le> sint (span_secs pt) \<and> 0 \<le> sint (span_usecs pt) \<and> sint (span_usecs pt) < 1000000"

text \<open>A clock reading at which the time since \<open>t0\<close> fits a span.\<close>

definition reading_since :: "OV_TIME \<Rightarrow> OV_TIME \<Rightarrow> bool" where
  "reading_since t0 t \<longleftrightarrow> time_normal t \<and> time_us t0 \<le> time_us t \<and> uint (secs t) - uint (secs t0) < 2147483648"

lemma lex_compare:
  fixes a c :: int
  assumes "0 \<le> b" "b < 1000000" "0 \<le> d" "d < 1000000"
  shows "(a < c \<or> a = c \<and> b < d) = (a * 1000000 + b < c * 1000000 + d)"
proof (cases a c rule: linorder_cases)
  case less
  then have "a + 1 \<le> c" by simp
  then show ?thesis using less assms by auto
next
  case greater
  then have "c + 1 \<le> a" by simp
  then show ?thesis using greater assms by auto
qed auto

lemma not_over_value:
  assumes "time_normal t0" "reading_since t0 t" "preset pt"
  shows "not_over (ov_time_diff t t0) pt \<longleftrightarrow> time_us t - time_us t0 < span_us pt"
proof -
  let ?d = "ov_time_diff t t0"
  have le: "uint (secs t0) \<le> uint (secs t)"
    using assms(1,2) uint_32_range(1) [of "usecs t"] uint_32_range(1) [of "usecs t0"]
    unfolding reading_since_def time_us_def time_normal_def by linarith
  then have v: "span_us ?d = time_us t - time_us t0" "span_normal ?d" "span_signs_agree ?d"
    using assms ov_time_diff_value [of t t0] by (auto simp: reading_since_def)
  then have "0 \<le> span_us ?d" using assms(2) by (simp add: reading_since_def)
  then have u: "0 \<le> sint (span_usecs ?d)" "sint (span_usecs ?d) < 1000000"
    using v(2,3) unfolding span_us_def span_normal_def span_signs_agree_def by linarith+
  have "span_secs ?d = span_secs pt \<longleftrightarrow> sint (span_secs ?d) = sint (span_secs pt)"
    by (auto intro: signed_word_eqI)
  then show ?thesis
    using lex_compare [OF u, of "sint (span_usecs pt)" "sint (span_secs ?d)" "sint (span_secs pt)"] assms(3) v(1)
    by (auto simp: not_over_def preset_def span_us_def)
qed

text \<open>While the input stays set, the trigger time stays and \<open>Q\<close> is set once the preset time is over.\<close>

definition counting_since :: "OV_TIME \<Rightarrow> OV_TIME \<Rightarrow> TIMER \<Rightarrow> bool" where
  "counting_since t0 t pinst \<longleftrightarrow> tm_Counting pinst \<and> tm_TriggerTime pinst = t0 \<and>
     (tm_Q pinst \<longleftrightarrow> span_us (tm_PT pinst) \<le> time_us t - time_us t0)"

lemma ton_first:
  assumes "time_normal t0" "reading_since t0 t" "preset (tm_PT pinst)"
    and "\<not> tm_Counting pinst" "\<not> tm_Q pinst"
  shows "counting_since t0 t (ton_call pinst (True, t0, t)) \<and> tm_PT (ton_call pinst (True, t0, t)) = tm_PT pinst"
  using assms not_over_value [OF assms(1-3)]
  by (auto simp: counting_since_def iec61131stdfb_TON_typemethod_def timer_trigger_def Let_def)

lemma ton_next:
  assumes "counting_since t0 t pinst" "time_normal t0" "reading_since t0 t'" "preset (tm_PT pinst)"
    and "time_us t \<le> time_us t'"
  shows "counting_since t0 t' (ton_call pinst (True, now, t')) \<and> tm_PT (ton_call pinst (True, now, t')) = tm_PT pinst"
  using assms not_over_value [OF assms(2-4)]
  by (auto simp: counting_since_def iec61131stdfb_TON_typemethod_def timer_trigger_def Let_def)

lemma ton_released:
  "\<not> tm_Counting (ton_call pinst (False, c)) \<and> \<not> tm_Q (ton_call pinst (False, c)) \<and>
   tm_PT (ton_call pinst (False, c)) = tm_PT pinst"
  by (cases c) (auto simp: iec61131stdfb_TON_typemethod_def timer_trigger_def Let_def)

text \<open>Calls with the input set whose clock does not go back.\<close>

fun held :: "OV_TIME \<Rightarrow> OV_TIME \<Rightarrow> (OV_TIME \<times> OV_TIME) list \<Rightarrow> bool" where
  "held t0 t [] = True"
| "held t0 t ((now, t') # cs) = (reading_since t0 t' \<and> time_us t \<le> time_us t' \<and> held t0 t' cs)"

lemma ton_held:
  assumes "counting_since t0 t pinst" "time_normal t0" "preset (tm_PT pinst)" "held t0 t cs"
  defines "p \<equiv> foldl ton_call pinst (map (Pair True) cs)"
  shows "counting_since t0 (last (t # map snd cs)) p \<and> tm_PT p = tm_PT pinst"
  using assms(1,3,4) unfolding p_def
proof (induction cs arbitrary: pinst t)
  case (Cons c cs)
  obtain now t' where c: "c = (now, t')" by (cases c)
  have "reading_since t0 t'" "time_us t \<le> time_us t'" "held t0 t' cs" using Cons.prems(3) by (simp_all add: c)
  note n = ton_next [OF Cons.prems(1) assms(2) this(1) Cons.prems(2) this(2), of now] this(3)
  then show ?case
    using Cons.IH [of t' "ton_call pinst (True, now, t')"] Cons.prems(2) by (auto simp: c)
qed simp

text \<open>C39: The on-delay timer switches on exactly when its input has been set without interruption
  for the preset time: after a call with IN unset, a call with IN set that reads the clock at t0,
  and further calls with IN set, whatever the state before was, Q is set if and only if the last
  clock reading is at least PT after t0. The clock must not go back during these calls.\<close>

theorem on_delay:
  assumes "preset (tm_PT pinst)" "time_normal t0" "held t0 t0 ((t0, t) # cs)"
  shows "tm_Q (foldl ton_call pinst ((False, c) # map (Pair True) ((t0, t) # cs))) \<longleftrightarrow>
    span_us (tm_PT pinst) \<le> time_us (last (t # map snd cs)) - time_us t0"
proof -
  let ?p = "ton_call pinst (False, c)"
  have r: "reading_since t0 t" "held t0 t cs" using assms(3) by simp_all
  have f: "counting_since t0 t (ton_call ?p (True, t0, t))" "tm_PT (ton_call ?p (True, t0, t)) = tm_PT pinst"
    using ton_first [OF assms(2) r(1), of ?p] ton_released [of pinst c] assms(1) by auto
  show ?thesis
    using ton_held [OF f(1) assms(2) _ r(2)] assms(1) unfolding f(2) by (simp add: counting_since_def)
qed

text \<open>A preset time of two and a half seconds; the fourth call comes 2.6 seconds after the second.\<close>

definition a_timer :: TIMER where
  "a_timer = \<lparr>tm_IN = True, tm_PT = \<lparr>span_secs = 2, span_usecs = 500000\<rparr>, tm_Q = True,
     tm_ET = \<lparr>span_secs = 0, span_usecs = 0\<rparr>, tm_TriggerTime = \<lparr>secs = 0, usecs = 0\<rparr>,
     tm_Counting = True, tm_Released = False\<rparr>"

definition at_time :: "OV_UINT \<Rightarrow> OV_UINT \<Rightarrow> OV_TIME" where
  "at_time s u = \<lparr>secs = s, usecs = u\<rparr>"

theorem on_delay_witness:
  "tm_Q (foldl ton_call a_timer ((False, at_time 1 0, at_time 1 0) # map (Pair True)
     [(at_time 5 900000, at_time 5 900000), (at_time 7 0, at_time 7 0), (at_time 8 500000, at_time 8 500000)]))"
  using on_delay [of a_timer "at_time 5 900000" "at_time 5 900000"
      "[(at_time 7 0, at_time 7 0), (at_time 8 500000, at_time 8 500000)]" "(at_time 1 0, at_time 1 0)"]
  by (simp add: a_timer_def at_time_def preset_def reading_since_def time_normal_def time_us_def span_us_def
      del: foldl_Cons)

section \<open>The off-delay timer and the pulse\<close>

definition negated :: "TIMER \<Rightarrow> TIMER" where
  "negated pinst = pinst\<lparr>tm_IN := \<not> tm_IN pinst, tm_Q := \<not> tm_Q pinst\<rparr>"

text \<open>The off-delay timer is the on-delay timer with its input and its output negated.\<close>

lemma off_delay_is_negated_on_delay:
  "iec61131stdfb_TOFF_typemethod now tTime pinst = negated (iec61131stdfb_TON_typemethod now tTime (negated pinst))"
  by (simp add: negated_def iec61131stdfb_TOFF_typemethod_def iec61131stdfb_TON_typemethod_def
      timer_trigger_def Let_def)

text \<open>A running pulse keeps its output, whatever the input does, until the preset time is over, and
  ends with the first call after it; a set input does not trigger it again before it was released.\<close>

lemma pulse_call:
  fixes now :: OV_TIME
  assumes "tm_Counting pinst" "time_normal (tm_TriggerTime pinst)"
    and "reading_since (tm_TriggerTime pinst) t" "preset (tm_PT pinst)"
  defines "p \<equiv> iec61131stdfb_TP_typemethod now t pinst"
    and "over \<equiv> span_us (tm_PT pinst) \<le> time_us t - time_us (tm_TriggerTime pinst)"
  shows "tm_Q p = (tm_Q pinst \<and> \<not> over)" and "tm_TriggerTime p = tm_TriggerTime pinst"
    and "tm_Counting p = (\<not> over \<or> tm_IN pinst \<and> \<not> tm_Released pinst)"
  using assms(1) not_over_value [OF assms(2-4)] unfolding p_def over_def
  by (auto simp: iec61131stdfb_TP_typemethod_def Let_def)

lemma pulse_trigger:
  assumes "\<not> tm_Counting pinst" "tm_IN pinst" "time_normal t0" "reading_since t0 t" "preset (tm_PT pinst)"
  shows "tm_Q (iec61131stdfb_TP_typemethod t0 t pinst) \<longleftrightarrow> time_us t - time_us t0 < span_us (tm_PT pinst)"
  using assms not_over_value [OF assms(3-5)] by (auto simp: iec61131stdfb_TP_typemethod_def Let_def)

section \<open>Rotations\<close>

lemma rotation_bits:
  fixes x :: OV_UINT
  assumes "0 < n" "n < 32"
  shows "push_bit n x OR drop_bit (32 - n) x = word_rotl n x"
    and "drop_bit n x OR push_bit (32 - n) x = word_rotr n x"
proof -
  have out: "\<not> bit x k" if "32 \<le> k" for k using that bit_imp_le_length [of x k] by auto
  show "push_bit n x OR drop_bit (32 - n) x = word_rotl n x"
  proof (rule bit_word_eqI)
    fix k assume "k < LENGTH(32)"
    then have k: "k < 32" by simp
    then have "(k + (32 - n mod 32)) mod 32 = (if k < n then k + (32 - n) else k - n)"
      using assms by (auto simp: mod_if)
    then have "bit (word_rotl n x) k = bit x (if k < n then k + (32 - n) else k - n)"
      unfolding bit_word_rotl_iff using k by simp
    then show "bit (push_bit n x OR drop_bit (32 - n) x) k = bit (word_rotl n x) k"
      using k assms out by (auto simp: bit_or_iff bit_push_bit_iff bit_drop_bit_eq add.commute)
  qed
  show "drop_bit n x OR push_bit (32 - n) x = word_rotr n x"
  proof (rule bit_word_eqI)
    fix k assume "k < LENGTH(32)"
    then have k: "k < 32" by simp
    then have "(k + n) mod 32 = (if k + n < 32 then k + n else k + n - 32)"
      using assms by (auto simp: mod_if)
    then have "bit (word_rotr n x) k = bit x (if k + n < 32 then k + n else k + n - 32)"
      unfolding bit_word_rotr_iff using k by simp
    then show "bit (drop_bit n x OR push_bit (32 - n) x) k = bit (word_rotr n x) k"
      using k assms out by (auto simp: bit_or_iff bit_push_bit_iff bit_drop_bit_eq add.commute)
  qed
qed

lemma small_shift:
  "(n :: OV_UINT) mod 32 = 0 \<longleftrightarrow> unat (n mod 32) = 0" "unat ((n :: OV_UINT) mod 32) < 32"
proof -
  show "n mod 32 = 0 \<longleftrightarrow> unat (n mod 32) = 0" by (simp add: unat_eq_zero)
  have "unat (n mod 32) = unat n mod 32" by (simp add: unat_mod_distrib)
  then show "unat (n mod 32) < 32" by simp
qed

text \<open>The rotations by N bits are those of the word where N is not a multiple of 32. There the
  code shifts by the width of the word, which C leaves undefined, so that a rotation by zero bits
  has no defined result. N is replaced by its remainder.\<close>

lemma rotations_or_undefined:
  "iec61131stdfb_ROL_typemethod pinst =
     (let n = sh_N pinst mod 32
      in if n = 0 then None else Some (pinst\<lparr>sh_N := n, sh_OUT := word_rotl (unat n) (sh_IN pinst)\<rparr>)) \<and>
   iec61131stdfb_ROR_typemethod pinst =
     (let n = sh_N pinst mod 32
      in if n = 0 then None else Some (pinst\<lparr>sh_N := n, sh_OUT := word_rotr (unat n) (sh_IN pinst)\<rparr>))"
proof (cases "sh_N pinst mod 32 = 0")
  case True
  then show ?thesis
    by (simp add: iec61131stdfb_ROL_typemethod_def iec61131stdfb_ROR_typemethod_def Let_def shift_out_def
        c_shl_def c_shr_def c_or_def)
next
  case False
  then have "0 < unat (sh_N pinst mod 32)" "unat (sh_N pinst mod 32) < 32"
    using small_shift [of "sh_N pinst"] by simp_all
  then show ?thesis
    using rotation_bits [of "unat (sh_N pinst mod 32)" "sh_IN pinst"] False
    by (simp add: iec61131stdfb_ROL_typemethod_def iec61131stdfb_ROR_typemethod_def Let_def shift_out_def
        c_shl_def c_shr_def c_or_def)
qed

text \<open>Rotating back gives the input.\<close>

lemma rotate_back:
  assumes "iec61131stdfb_ROL_typemethod pinst = Some p"
  shows "\<exists>q. iec61131stdfb_ROR_typemethod (p\<lparr>sh_IN := sh_OUT p\<rparr>) = Some q \<and> sh_OUT q = sh_IN pinst"
proof -
  let ?n = "unat (sh_N pinst mod 32)"
  have nz: "0 < ?n" "?n < 32" and p: "p = pinst\<lparr>sh_N := sh_N pinst mod 32, sh_OUT := word_rotl ?n (sh_IN pinst)\<rparr>"
    using assms small_shift [of "sh_N pinst"] rotation_bits [of ?n "sh_IN pinst"]
    by (auto simp: iec61131stdfb_ROL_typemethod_def Let_def shift_out_def c_shl_def c_shr_def c_or_def
        split: option.splits if_splits)
  have "word_rotr ?n (word_rotl ?n (sh_IN pinst)) = sh_IN pinst" by simp
  moreover have "unat (sh_N pinst mod 32 mod 32) = ?n" by (simp add: unat_mod_distrib)
  ultimately show ?thesis
    using nz rotation_bits [OF nz, of "word_rotl ?n (sh_IN pinst)"] p
    by (simp add: iec61131stdfb_ROR_typemethod_def Let_def shift_out_def c_shl_def c_shr_def c_or_def)
qed

text \<open>The shifts fill with zeros; a shift by 32 is undefined, a shift by more gives zero.\<close>

lemma shifts_bits:
  assumes "sh_N pinst \<noteq> 32"
  shows "iec61131stdfb_SHL_typemethod pinst = Some (pinst\<lparr>sh_OUT := push_bit (unat (sh_N pinst)) (sh_IN pinst)\<rparr>)"
    and "iec61131stdfb_SHR_typemethod pinst = Some (pinst\<lparr>sh_OUT := drop_bit (unat (sh_N pinst)) (sh_IN pinst)\<rparr>)"
proof -
  have le: "32 < sh_N pinst \<longleftrightarrow> \<not> unat (sh_N pinst) < 32"
    using assms by (auto simp: word_less_nat_alt word_unat_eq_iff)
  have out: "push_bit n x = 0" "drop_bit n x = 0" if "\<not> n < 32" for n and x :: OV_UINT
    using that bit_imp_le_length [of x] by (force intro!: bit_word_eqI simp: bit_push_bit_iff bit_drop_bit_eq)+
  show "iec61131stdfb_SHL_typemethod pinst = Some (pinst\<lparr>sh_OUT := push_bit (unat (sh_N pinst)) (sh_IN pinst)\<rparr>)"
    "iec61131stdfb_SHR_typemethod pinst = Some (pinst\<lparr>sh_OUT := drop_bit (unat (sh_N pinst)) (sh_IN pinst)\<rparr>)"
    using le out by (auto simp: iec61131stdfb_SHL_typemethod_def iec61131stdfb_SHR_typemethod_def
        shift_out_def c_shl_def c_shr_def)
qed

section \<open>Latches\<close>

record LATCH =
  l_S :: bool
  l_R :: bool
  l_Q1 :: bool

definition iec61131stdfb_RS_typemethod :: "LATCH \<Rightarrow> LATCH" where
  "iec61131stdfb_RS_typemethod pinst =
    (if l_R pinst then pinst\<lparr>l_Q1 := False\<rparr> else if l_S pinst then pinst\<lparr>l_Q1 := True\<rparr> else pinst)"

definition iec61131stdfb_SR_typemethod :: "LATCH \<Rightarrow> LATCH" where
  "iec61131stdfb_SR_typemethod pinst =
    (if l_S pinst then pinst\<lparr>l_Q1 := True\<rparr> else if l_R pinst then pinst\<lparr>l_Q1 := False\<rparr> else pinst)"

text \<open>The two latches differ only where both inputs are set.\<close>

lemma latches_agree:
  assumes "\<not> (l_S pinst \<and> l_R pinst)"
  shows "iec61131stdfb_RS_typemethod pinst = iec61131stdfb_SR_typemethod pinst"
  using assms by (auto simp: iec61131stdfb_RS_typemethod_def iec61131stdfb_SR_typemethod_def)

end
