(* ===== verification/StdStrings.thy ===== *)
theory StdStrings
  imports OvString
begin

text \<open>
  addonlibs/functionblock/iec61131stdfb: the string functions of the function block library of
  IEC 61131, over the strings of the database. \<open>mem i\<close> tells whether the request for memory
  with number \<open>i\<close> is granted, counted in the order of the code; \<open>maxlen\<close> is the limit that
  ov_string checks. A function clears its output first, so that the result is the new value of
  \<open>OUT\<close>. Leaving a block of memory or reading behind a string is \<open>Undefined\<close>.
\<close>

section \<open>The flow of control\<close>

datatype flow = Undefined | Return OV_STRING | Go OV_STRING

fun and_then :: "flow \<Rightarrow> (OV_STRING \<Rightarrow> flow) \<Rightarrow> flow" where
  "and_then (Go out) k = k out"
| "and_then f k = f"

text \<open>The value of \<open>OUT\<close> when the function returns.\<close>

fun finished :: "flow \<Rightarrow> OV_STRING option" where
  "finished Undefined = None"
| "finished (Return out) = Some out"
| "finished (Go out) = Some out"

definition chars :: "OV_STRING \<Rightarrow> string" where
  "chars s = (case s of Some cs \<Rightarrow> cs | None \<Rightarrow> [])"

text \<open>\<open>for(i = 0; i < n; i++) p[i] = src[from + i]; p[i] = 0\<close> into a block of \<open>bytes\<close> bytes.\<close>

primrec copy_loop :: "string \<Rightarrow> nat \<Rightarrow> nat \<Rightarrow> string option" where
  "copy_loop src from 0 = Some []"
| "copy_loop src from (Suc n) =
    (if from < length src then map_option (Cons (src ! from)) (copy_loop src (Suc from) n) else None)"

definition into_block :: "OV_UINT \<Rightarrow> string option \<Rightarrow> string option" where
  "into_block bytes p = (case p of Some cs \<Rightarrow> if length cs < unat bytes then Some cs else None | None \<Rightarrow> None)"

text \<open>Allocate a block, copy into it and pass it on; without memory the function returns.\<close>

definition with_copy :: "bool \<Rightarrow> OV_UINT \<Rightarrow> string option \<Rightarrow> OV_STRING \<Rightarrow> (string \<Rightarrow> flow) \<Rightarrow> flow" where
  "with_copy granted bytes p out k =
    (if granted then (case into_block bytes p of None \<Rightarrow> Undefined | Some cs \<Rightarrow> k cs) else Return out)"

definition set_out :: "OV_UINT \<Rightarrow> bool \<Rightarrow> OV_STRING \<Rightarrow> OV_STRING \<Rightarrow> OV_RESULT \<times> OV_STRING" where
  "set_out maxlen m out v = (case ov_string_setvalue maxlen m False (Some out) v of (r, s) \<Rightarrow> (r, the s))"

definition app_out :: "OV_UINT \<Rightarrow> bool \<Rightarrow> OV_STRING \<Rightarrow> OV_STRING \<Rightarrow> OV_RESULT \<times> OV_STRING" where
  "app_out maxlen m out v = (case ov_string_append maxlen m (Some out) v of (r, s) \<Rightarrow> (r, the s))"

text \<open>Go on after a result, or return where it failed and \<open>c\<close> holds.\<close>

definition unless_failed :: "bool \<Rightarrow> OV_RESULT \<times> OV_STRING \<Rightarrow> flow" where
  "unless_failed c r = (if Ov_Fail (fst r) \<and> c then Return (snd r) else Go (snd r))"

section \<open>Parts of a string\<close>

definition iec61131stdfb_LEN_typemethod :: "OV_STRING \<Rightarrow> OV_UINT" where
  "iec61131stdfb_LEN_typemethod IN1 = ov_string_getlength IN1"

definition iec61131stdfb_LEFT_typemethod :: "OV_UINT \<Rightarrow> (nat \<Rightarrow> bool) \<Rightarrow> OV_STRING \<Rightarrow> OV_UINT \<Rightarrow> OV_STRING option" where
  "iec61131stdfb_LEFT_typemethod maxlen mem IN L = finished
    (if L \<le> ov_string_getlength IN then
       with_copy (mem 0) (L + 1) (copy_loop (chars IN) 0 (unat L)) None
         (\<lambda>p_char. Go (snd (set_out maxlen (mem 1) None (Some p_char))))
     else Go (snd (set_out maxlen (mem 0) None IN)))"

definition iec61131stdfb_RIGHT_typemethod :: "OV_UINT \<Rightarrow> (nat \<Rightarrow> bool) \<Rightarrow> OV_STRING \<Rightarrow> OV_UINT \<Rightarrow> OV_STRING option" where
  "iec61131stdfb_RIGHT_typemethod maxlen mem IN L = finished
    (let in_length = ov_string_getlength IN
     in if L \<le> in_length then
          with_copy (mem 0) (L + 1) (copy_loop (chars IN) (unat (in_length - L)) (unat L)) None
            (\<lambda>p_char. Go (snd (set_out maxlen (mem 1) None (Some p_char))))
        else Go (snd (set_out maxlen (mem 0) None IN)))"

text \<open>The loop of MID stops at the end of the string.\<close>

primrec mid_loop :: "string \<Rightarrow> nat \<Rightarrow> nat \<Rightarrow> string" where
  "mid_loop src pos 0 = []"
| "mid_loop src pos (Suc n) = (if pos < length src then src ! pos # mid_loop src (Suc pos) n else [])"

definition iec61131stdfb_MID_typemethod ::
    "OV_UINT \<Rightarrow> (nat \<Rightarrow> bool) \<Rightarrow> OV_STRING \<Rightarrow> OV_UINT \<Rightarrow> OV_UINT \<Rightarrow> OV_STRING option" where
  "iec61131stdfb_MID_typemethod maxlen mem IN L P = finished
    (if P = 0 then Return None
     else if L = 0 then Return None
     else if P \<le> ov_string_getlength IN then
       with_copy (mem 0) (L + 1) (Some (mid_loop (chars IN) (unat (P - 1)) (unat L))) None
         (\<lambda>p_char. Go (snd (set_out maxlen (mem 1) None (Some p_char))))
     else Go None)"

section \<open>Search\<close>

text \<open>The comparison loop sets \<open>found\<close> character by character and breaks at a difference. A
  character of the searched text is not the terminator.\<close>

fun found_loop :: "bool \<Rightarrow> string \<Rightarrow> string \<Rightarrow> bool" where
  "found_loop found [] _ = found"
| "found_loop found (b # bs) (a # as) = (if a = b then found_loop True bs as else False)"
| "found_loop found (b # bs) [] = False"

text \<open>\<open>k\<close> is the number of positions left; the result is \<open>cont_loop\<close> after the increment.\<close>

primrec find_loop :: "nat \<Rightarrow> string \<Rightarrow> string \<Rightarrow> OV_UINT \<Rightarrow> OV_UINT" where
  "find_loop 0 rest search cont_loop = 0"
| "find_loop (Suc k) rest search cont_loop =
    (if rest ! 0 = search ! 0 \<and> found_loop False search rest then cont_loop + 1
     else find_loop k (tl rest) search (cont_loop + 1))"

definition iec61131stdfb_FIND_typemethod :: "OV_STRING \<Rightarrow> OV_STRING \<Rightarrow> OV_UINT" where
  "iec61131stdfb_FIND_typemethod IN1 IN2 =
    (let len = ov_string_getlength IN1; search_length = ov_string_getlength IN2
     in if len \<ge> search_length then
          (if search_length \<noteq> 0 \<and> len \<noteq> 0
           then find_loop (unat (len - search_length) + 1) (chars IN1) (chars IN2) 0
           else 0)
        else 0)"

section \<open>Changing a string\<close>

definition iec61131stdfb_CONCAT_typemethod ::
    "OV_UINT \<Rightarrow> (nat \<Rightarrow> bool) \<Rightarrow> OV_STRING \<Rightarrow> OV_STRING \<Rightarrow> OV_STRING \<Rightarrow> OV_STRING" where
  "iec61131stdfb_CONCAT_typemethod maxlen mem OUT IN1 IN2 =
    (case set_out maxlen (mem 0) OUT IN1 of
       (r, out) \<Rightarrow> if \<not> Ov_Fail r \<and> ov_string_getlength IN2 \<noteq> 0 then snd (app_out maxlen (mem 1) out IN2) else out)"

definition iec61131stdfb_INSERT_typemethod ::
    "OV_UINT \<Rightarrow> (nat \<Rightarrow> bool) \<Rightarrow> OV_STRING \<Rightarrow> OV_STRING \<Rightarrow> OV_UINT \<Rightarrow> OV_STRING option" where
  "iec61131stdfb_INSERT_typemethod maxlen mem IN1 IN2 P = finished
    (let in_length = ov_string_getlength IN1
     in if P < in_length then
          (if P = 0 then Return None
           else let end_length = in_length - (P - 1) in
             if mem 0 \<and> mem 1 then
               with_copy True (P + 1) (copy_loop (chars IN1) 0 (unat (P - 1))) None (\<lambda>p_begin.
               with_copy True (end_length + 1) (copy_loop (chars IN1) (unat (P - 1)) (unat end_length)) None (\<lambda>p_end.
               and_then (unless_failed (P \<noteq> 1) (set_out maxlen (mem 2) None (Some p_begin))) (\<lambda>out.
               and_then (unless_failed (ov_string_getlength IN2 > 0) (app_out maxlen (mem 3) out IN2)) (\<lambda>out.
               unless_failed (end_length \<noteq> 0) (app_out maxlen (mem 4) out (Some p_end))))))
             else Return None)
        else (case set_out maxlen (mem 0) None IN1 of
                (r, out) \<Rightarrow> if \<not> Ov_Fail r then Go (snd (app_out maxlen (mem 1) out IN2)) else Go out))"

definition end_after :: "OV_UINT \<Rightarrow> OV_UINT \<Rightarrow> OV_UINT \<Rightarrow> OV_UINT" where
  "end_after in_length P L = (if P + L - 1 < in_length then in_length - (P + L - 1) else 0)"

definition iec61131stdfb_DELETE_typemethod ::
    "OV_UINT \<Rightarrow> (nat \<Rightarrow> bool) \<Rightarrow> OV_STRING \<Rightarrow> OV_UINT \<Rightarrow> OV_UINT \<Rightarrow> OV_STRING option" where
  "iec61131stdfb_DELETE_typemethod maxlen mem IN L P = finished
    (let in_length = ov_string_getlength IN
     in if P \<le> in_length \<and> P > 0 then
          (if L > 0 then
             let end_length = end_after in_length P L in
               with_copy (mem 0) P (copy_loop (chars IN) 0 (unat (P - 1))) None (\<lambda>p_begin.
               and_then (unless_failed True (set_out maxlen (mem 1) None (Some p_begin))) (\<lambda>out.
               if end_length > 0 then
                 with_copy (mem 2) (end_length + 1) (copy_loop (chars IN) (unat (P + L - 1)) (unat end_length)) out
                   (\<lambda>p_end. unless_failed True (app_out maxlen (mem 3) out (Some p_end)))
               else Go out))
           else unless_failed True (set_out maxlen (mem 0) None IN))
        else Go None)"

text \<open>The two branches of REPLACE differ in the start and the length of the end only.\<close>

definition replace_with :: "OV_UINT \<Rightarrow> (nat \<Rightarrow> bool) \<Rightarrow> OV_STRING \<Rightarrow> OV_STRING \<Rightarrow> OV_UINT \<Rightarrow> OV_UINT \<Rightarrow> OV_UINT \<Rightarrow> flow" where
  "replace_with maxlen mem IN1 IN2 P start end_length =
    and_then
      (if P > 1 then
         with_copy (mem 0) P (copy_loop (chars IN1) 0 (unat (P - 1))) None
           (\<lambda>p_begin. unless_failed True (set_out maxlen (mem 1) None (Some p_begin)))
       else Go None) (\<lambda>out.
    and_then (unless_failed (ov_string_getlength IN2 > 0) (app_out maxlen (mem 2) out IN2)) (\<lambda>out.
    if end_length > 0 then
      with_copy (mem 3) (end_length + 1) (copy_loop (chars IN1) (unat start) (unat end_length)) out
        (\<lambda>p_end. unless_failed True (app_out maxlen (mem 4) out (Some p_end)))
    else Go out))"

definition iec61131stdfb_REPLACE_typemethod ::
    "OV_UINT \<Rightarrow> (nat \<Rightarrow> bool) \<Rightarrow> OV_STRING \<Rightarrow> OV_STRING \<Rightarrow> OV_UINT \<Rightarrow> OV_UINT \<Rightarrow> OV_STRING option" where
  "iec61131stdfb_REPLACE_typemethod maxlen mem IN1 IN2 L P = finished
    (let in_length = ov_string_getlength IN1
     in if P \<le> in_length \<and> P > 0 then
          (if L > 0 then replace_with maxlen mem IN1 IN2 P (P + L - 1) (end_after in_length P L)
           else replace_with maxlen mem IN1 IN2 P (P - 1) (in_length - P + 1))
        else Go None)"

section \<open>Strings of the database\<close>

text \<open>An empty string is stored as \<open>NULL\<close>. The limit of the length is ample for a string
  of \<open>n\<close> characters. In this part all memory is granted.\<close>

definition db :: "string \<Rightarrow> OV_STRING" where
  "db s = (if s = [] then None else Some s)"

definition ample :: "OV_UINT \<Rightarrow> nat \<Rightarrow> bool" where
  "ample maxlen n \<longleftrightarrow> n < 4294967295 \<and> (maxlen = 0 \<or> n \<le> unat maxlen)"

lemma chars_db [simp]: "chars (db s) = s" "chars None = []" "chars (Some s) = s"
  by (simp_all add: db_def chars_def)

lemma db_Nil [simp]: "db [] = None"
  by (simp add: db_def)

lemma getlength_db: "ov_string_getlength (db s) = of_nat (length s)"
  by (simp add: db_def ov_string_getlength_def)

lemma ample_mono: "ample maxlen n \<Longrightarrow> m \<le> n \<Longrightarrow> ample maxlen m"
  by (auto simp: ample_def)

lemma ampleD:
  assumes "ample maxlen (length s)"
  shows "unat (of_nat (length s) :: OV_UINT) = length s"
    and "maxlen \<noteq> 0 \<Longrightarrow> \<not> (of_nat (length s) :: OV_UINT) > maxlen"
  using assms by (auto simp: ample_def unat_of_nat word_less_nat_alt)

lemma set_out_db [simp]:
  assumes "ample maxlen (length s)"
  shows "set_out maxlen True out (Some s) = (OV_ERR_OK, db s)"
    and "set_out maxlen True out (db s) = (OV_ERR_OK, db s)"
  using ampleD [OF assms] by (auto simp: set_out_def ov_string_setvalue_def db_def)

lemma length_zero_db:
  assumes "ample maxlen (length s)"
  shows "(of_nat (length s) :: OV_UINT) = 0 \<longleftrightarrow> s = []"
proof
  assume "(of_nat (length s) :: OV_UINT) = 0"
  then have "unat (of_nat (length s) :: OV_UINT) = 0" by (simp only: unat_0)
  then show "s = []" unfolding ampleD(1) [OF assms] by simp
qed simp

lemma app_out_db [simp]:
  assumes "ample maxlen (length s + length t)"
  shows "app_out maxlen True (db s) (Some t) = (OV_ERR_OK, db (s @ t))"
    and "t \<noteq> [] \<Longrightarrow> app_out maxlen True (db s) (db t) = (OV_ERR_OK, db (s @ t))"
    and "snd (app_out maxlen True (db s) (db t)) = db (s @ t)"
proof -
  have a: "ample maxlen (length (s @ t))" using assms by simp
  note d = ampleD [OF a] length_zero_db [OF a]
  have c: "(case db s of Some s \<Rightarrow> s | None \<Rightarrow> []) = s" by (simp add: db_def)
  have eq: "ov_string_append maxlen True (Some (db s)) (Some t) = (OV_ERR_OK, Some (db (s @ t)))"
    unfolding ov_string_append_def prod.case option.case c Let_def of_nat_add [symmetric] length_append [symmetric]
    using d(2,3) by (auto simp: db_def ov_string_setvalue_def)
  then show x: "app_out maxlen True (db s) (Some t) = (OV_ERR_OK, db (s @ t))"
    by (simp add: app_out_def)
  show "t \<noteq> [] \<Longrightarrow> app_out maxlen True (db s) (db t) = (OV_ERR_OK, db (s @ t))"
    using x by (simp add: db_def)
  then show "snd (app_out maxlen True (db s) (db t)) = db (s @ t)"
    by (cases "t = []") (simp_all add: app_out_def ov_string_append_def)
qed

lemma copy_loop_take: "from + n \<le> length src \<Longrightarrow> copy_loop src from n = Some (take n (drop from src))"
  by (induction n arbitrary: "from") (auto simp: Cons_nth_drop_Suc [symmetric])

lemma mid_loop_take: "mid_loop src pos n = take n (drop pos src)"
  by (induction n arbitrary: pos) (auto simp: Cons_nth_drop_Suc [symmetric])

lemma with_copy_Some:
  assumes "length cs < unat bytes"
  shows "with_copy True bytes (Some cs) out k = k cs"
  using assms by (simp add: with_copy_def into_block_def)

lemma unless_failed_OK [simp]: "unless_failed c (OV_ERR_OK, out) = Go out"
  by (simp add: unless_failed_def Ov_Fail_def)

text \<open>Appending an input, whose failure counts where the input has characters.\<close>

lemma append_input:
  assumes "ample maxlen (length s + length t)"
  shows "unless_failed (ov_string_getlength (db t) > 0) (app_out maxlen True (db s) (db t)) = Go (db (s @ t))"
proof (cases "t = []")
  case True
  then show ?thesis
    using app_out_db(3) [OF assms] by (simp add: unless_failed_def ov_string_getlength_def)
qed (use app_out_db(2) [OF assms] in simp)

lemma unat_of_length:
  assumes "ample maxlen (length s)"
  shows "P \<le> of_nat (length s) \<longleftrightarrow> unat P \<le> length s" "P < of_nat (length s) \<longleftrightarrow> unat P < length s"
    and "unat P \<le> length s \<Longrightarrow> unat (of_nat (length s) - P :: OV_UINT) = length s - unat P"
    and "unat P \<le> length s \<Longrightarrow> unat (P + 1 :: OV_UINT) = unat P + 1"
proof -
  note l = ampleD(1) [OF assms]
  show "P \<le> of_nat (length s) \<longleftrightarrow> unat P \<le> length s" "P < of_nat (length s) \<longleftrightarrow> unat P < length s"
    by (simp_all add: word_le_nat_alt word_less_nat_alt l)
  show "unat (of_nat (length s) - P :: OV_UINT) = length s - unat P" if "unat P \<le> length s"
    using that l by (simp add: unat_sub word_le_nat_alt)
  show "unat (P + 1 :: OV_UINT) = unat P + 1" if "unat P \<le> length s"
    using that assms unat_word_ariths(1) [of P 1] by (simp add: ample_def)
qed

lemma unat_pred:
  assumes "0 < (P :: OV_UINT)"
  shows "unat (P - 1) = unat P - 1" "0 < unat P"
  using assms by (auto simp: unat_minus_one word_gt_0 unat_gt_0)

lemma unat_suc:
  assumes "(L :: OV_UINT) \<noteq> - 1"
  shows "unat (L + 1) = unat L + 1"
proof -
  have "L + 1 \<noteq> 0" using assms by (metis add_eq_0_iff2)
  then have "unat (L + 1) \<noteq> 0" by (simp add: unat_eq_zero)
  moreover have "unat (L + 1) = (unat L + 1) mod 4294967296" using unat_word_ariths(1) [of L 1] by simp
  moreover have "unat L < 2 ^ LENGTH(32)" by (rule unsigned_less)
  ultimately show ?thesis by (cases "unat L + 1 = 4294967296") simp_all
qed

section \<open>What the functions return\<close>

lemma left_returns:
  assumes "ample maxlen (length s)"
  shows "iec61131stdfb_LEFT_typemethod maxlen (\<lambda>_. True) (db s) L = Some (db (take (unat L) s))"
proof (cases "unat L \<le> length s")
  case True
  have "ample maxlen (length (take (unat L) s))" using assms by (rule ample_mono) simp
  moreover have "with_copy True (L + 1) (Some (take (unat L) s)) None k = k (take (unat L) s)" for k
    using unat_of_length(4) [OF assms True] True by (simp add: with_copy_Some)
  ultimately show ?thesis
    using True by (simp add: iec61131stdfb_LEFT_typemethod_def getlength_db unat_of_length [OF assms] copy_loop_take)
next
  case False
  then show ?thesis
    using assms by (simp add: iec61131stdfb_LEFT_typemethod_def getlength_db unat_of_length [OF assms])
qed

lemma right_returns:
  assumes "ample maxlen (length s)"
  shows "iec61131stdfb_RIGHT_typemethod maxlen (\<lambda>_. True) (db s) L = Some (db (drop (length s - unat L) s))"
proof (cases "unat L \<le> length s")
  case True
  let ?r = "drop (length s - unat L) s"
  have "ample maxlen (length ?r)" using assms by (rule ample_mono) simp
  moreover have "with_copy True (L + 1) (Some ?r) None k = k ?r" for k
    using unat_of_length(4) [OF assms True] True by (simp add: with_copy_Some)
  ultimately show ?thesis
    using True by (simp add: iec61131stdfb_RIGHT_typemethod_def getlength_db unat_of_length [OF assms] copy_loop_take)
next
  case False
  then show ?thesis
    using assms by (simp add: iec61131stdfb_RIGHT_typemethod_def getlength_db unat_of_length [OF assms])
qed

text \<open>MID with a length of \<open>2^32 - 1\<close> allocates a block of no bytes and writes behind it.\<close>

lemma mid_returns:
  assumes "ample maxlen (length s)" "0 < L" "0 < P"
  shows "iec61131stdfb_MID_typemethod maxlen (\<lambda>_. True) (db s) L P =
    (if unat P \<le> length s \<and> L = - 1 then None else Some (db (take (unat L) (drop (unat P - 1) s))))"
proof -
  let ?m = "take (unat L) (drop (unat P - 1) s)"
  have a: "ample maxlen (length ?m)" using assms(1) by (rule ample_mono) simp
  consider (out) "length s < unat P" | (wrap) "unat P \<le> length s" "L = - 1" | (fits) "unat P \<le> length s" "L \<noteq> - 1"
    by linarith
  then show ?thesis
  proof cases
    case out
    then show ?thesis
      using assms(2,3) by (auto simp: iec61131stdfb_MID_typemethod_def getlength_db unat_of_length [OF assms(1)])
  next
    case wrap
    then show ?thesis
      using assms(3)
      by (auto simp: iec61131stdfb_MID_typemethod_def getlength_db unat_of_length [OF assms(1)] with_copy_def into_block_def)
  next
    case fits
    then have "unat (L + 1) = unat L + 1" by (simp add: unat_suc)
    then show ?thesis
      using assms(2,3) fits a unat_pred [OF assms(3)]
      by (auto simp: iec61131stdfb_MID_typemethod_def getlength_db unat_of_length [OF assms(1)] with_copy_Some mid_loop_take)
  qed
qed

lemma concat_returns:
  assumes "ample maxlen (length s + length t)"
  shows "iec61131stdfb_CONCAT_typemethod maxlen (\<lambda>_. True) OUT (db s) (db t) = db (s @ t)"
proof -
  have a: "ample maxlen (length s)" "ample maxlen (length t)" using assms by (auto intro: ample_mono)
  show ?thesis
    using app_out_db(3) [OF assms] set_out_db(2) [OF a(1)] length_zero_db [OF a(2)]
    by (simp add: iec61131stdfb_CONCAT_typemethod_def getlength_db Ov_Fail_def)
qed

lemma copied_end:
  assumes "ample maxlen (length s)" "unat start \<le> length s"
  shows "with_copy True (of_nat (length s) - start + 1) (copy_loop s (unat start) (length s - unat start)) out k
    = k (drop (unat start) s)"
proof -
  have "unat (of_nat (length s) - start :: OV_UINT) = length s - unat start"
    using unat_of_length(3) [OF assms(1,2)] .
  then have "unat (of_nat (length s) - start + 1 :: OV_UINT) = length s - unat start + 1"
    using unat_of_length(4) [OF assms(1), of "of_nat (length s) - start"] by simp
  then show ?thesis using assms(2) by (simp add: copy_loop_take with_copy_Some)
qed

lemma copied_begin:
  assumes "0 < P" "unat P \<le> length s"
  shows "with_copy True P (copy_loop s 0 (unat (P - 1))) out k = k (take (unat P - 1) s)"
  using assms unat_pred [OF assms(1)] by (simp add: copy_loop_take with_copy_Some)

text \<open>What follows the removed characters; the addition of the position and the length wraps.\<close>

lemma end_after_length:
  fixes P L :: OV_UINT
  assumes "ample maxlen (length s)"
  defines "e \<equiv> end_after (of_nat (length s)) P L"
  shows "0 < e \<longleftrightarrow> unat (P + L - 1) < length s"
    and "0 < e \<Longrightarrow> e = of_nat (length s) - (P + L - 1) \<and> unat e = length s - unat (P + L - 1)"
proof -
  note l = unat_of_length [OF assms(1), of "P + L - 1"]
  have "(0 < e \<longleftrightarrow> unat (P + L - 1) < length s) \<and>
    (0 < e \<longrightarrow> e = of_nat (length s) - (P + L - 1) \<and> unat e = length s - unat (P + L - 1))"
  proof (cases "unat (P + L - 1) < length s")
    case True
    then have "e = of_nat (length s) - (P + L - 1)" by (simp add: e_def end_after_def l(2))
    moreover from this have "unat e = length s - unat (P + L - 1)" using l(3) True by simp
    moreover from this have "0 < e" using True by (simp add: word_less_nat_alt)
    ultimately show ?thesis using True by blast
  qed (simp add: e_def end_after_def l(2))
  then show "0 < e \<longleftrightarrow> unat (P + L - 1) < length s"
    "0 < e \<Longrightarrow> e = of_nat (length s) - (P + L - 1) \<and> unat e = length s - unat (P + L - 1)" by blast+
qed

lemma delete_returns:
  assumes "ample maxlen (length s)" "0 < P" "unat P \<le> length s"
    and "length s - unat (P + L - 1) + (unat P - 1) \<le> length s"
  shows "iec61131stdfb_DELETE_typemethod maxlen (\<lambda>_. True) (db s) L P =
    Some (db (take (unat P - 1) s @ drop (unat (P + L - 1)) s))"
proof (cases "L = 0")
  case True
  then show ?thesis
    using assms unat_pred [OF assms(2)]
    by (simp add: iec61131stdfb_DELETE_typemethod_def getlength_db [of s] unat_of_length [OF assms(1)])
next
  case False
  let ?b = "take (unat P - 1) s" and ?e = "end_after (of_nat (length s)) P L"
  have b: "ample maxlen (length ?b)" using assms(1) by (rule ample_mono) simp
  show ?thesis
  proof (cases "0 < ?e")
    case True
    note e = end_after_length [OF assms(1), of P L] True
    have a: "ample maxlen (length ?b + length (drop (unat (P + L - 1)) s))"
      using assms(1) by (rule ample_mono) (use assms(3,4) in simp)
    show ?thesis
      using False assms(2,3) b e a copied_end [OF assms(1), of "P + L - 1"]
      by (simp add: iec61131stdfb_DELETE_typemethod_def getlength_db [of s] unat_of_length [OF assms(1)] copied_begin
          word_gt_0 Let_def)
  next
    case out: False
    then have "length s \<le> unat (P + L - 1)" using end_after_length(1) [OF assms(1), of P L] by simp
    then show ?thesis
      using False assms(2,3) b out
      by (simp add: iec61131stdfb_DELETE_typemethod_def getlength_db [of s] unat_of_length [OF assms(1)] copied_begin
          word_gt_0 Let_def)
  qed
qed

lemma replace_with_returns:
  assumes "ample maxlen (length s)" "0 < P" "unat P \<le> length s"
    and "ample maxlen (unat P - 1 + length t + (length s - unat start))"
    and "0 < e \<longleftrightarrow> unat start < length s" "0 < e \<Longrightarrow> e = of_nat (length s) - start \<and> unat e = length s - unat start"
  shows "finished (replace_with maxlen (\<lambda>_. True) (db s) (db t) P start e) =
    Some (db (take (unat P - 1) s @ t @ drop (unat start) s))"
proof -
  let ?b = "take (unat P - 1) s"
  have lb: "length ?b = unat P - 1" using assms(3) by simp
  have b: "ample maxlen (length ?b)" "ample maxlen (length ?b + length t)"
    "ample maxlen (length (?b @ t) + length (drop (unat start) s))"
    using assms(4) unfolding lb length_append length_drop by (auto elim!: ample_mono)
  have one: "(if P > 1 then with_copy True P (copy_loop (chars (db s)) 0 (unat (P - 1))) None
      (\<lambda>p_begin. unless_failed True (set_out maxlen True None (Some p_begin))) else Go None) = Go (db ?b)"
  proof (cases "P > 1")
    case True
    then show ?thesis using copied_begin [OF assms(2,3)] b(1) by simp
  next
    case False
    then have "unat P - 1 = 0" by (simp add: word_less_nat_alt)
    then show ?thesis using False by simp
  qed
  show ?thesis
  proof (cases "0 < e")
    case True
    then have e: "e = of_nat (length s) - start" "unat e = length s - unat start" "unat start \<le> length s"
      using assms(5,6) by auto
    then show ?thesis
      using True copied_end [OF assms(1) e(3)] app_out_db(1) [OF b(3)]
      by (simp add: replace_with_def one append_input [OF b(2), unfolded One_nat_def])
  next
    case False
    then have "length s \<le> unat start" using assms(5) by simp
    then show ?thesis using False by (simp add: replace_with_def one append_input [OF b(2), unfolded One_nat_def])
  qed
qed

lemma replace_returns:
  assumes "ample maxlen (length s)" "0 < P" "unat P \<le> length s"
    and "ample maxlen (unat P - 1 + length t + (length s - unat (P + L - 1)))"
  shows "iec61131stdfb_REPLACE_typemethod maxlen (\<lambda>_. True) (db s) (db t) L P =
    Some (db (take (unat P - 1) s @ t @ drop (unat (P + L - 1)) s))"
proof (cases "L = 0")
  case True
  have p: "unat (P - 1) = unat P - 1" "0 < unat P" using unat_pred [OF assms(2)] by auto
  have e: "of_nat (length s) - P + 1 = of_nat (length s) - (P - 1)" by simp
  have l: "unat (of_nat (length s) - (P - 1) :: OV_UINT) = length s - unat (P - 1)"
    using unat_of_length(3) [OF assms(1), of "P - 1"] assms(3) p by simp
  have lt: "unat (P - 1) < length s" using assms(3) p by simp
  have pos: "0 < of_nat (length s) - (P - 1)" unfolding word_less_nat_alt l using lt by simp
  have "iec61131stdfb_REPLACE_typemethod maxlen (\<lambda>_. True) (db s) (db t) L P =
    finished (replace_with maxlen (\<lambda>_. True) (db s) (db t) P (P - 1) (of_nat (length s) - P + 1))"
    using assms(2,3) True
    by (simp add: iec61131stdfb_REPLACE_typemethod_def getlength_db [of s] unat_of_length(1) [OF assms(1)])
  also have "\<dots> = Some (db (take (unat P - 1) s @ t @ drop (unat (P - 1)) s))"
    unfolding e by (rule replace_with_returns [OF assms(1-3)]) (use assms(4) True lt pos l in simp_all)
  finally show ?thesis using True by simp
next
  case False
  then show ?thesis
    using replace_with_returns [OF assms(1-4) end_after_length [OF assms(1)]] assms(2,3)
    by (simp add: iec61131stdfb_REPLACE_typemethod_def getlength_db [of s] unat_of_length [OF assms(1)] word_gt_0)
qed

lemma insert_returns:
  assumes "ample maxlen (length s + length t)" "0 < P"
  shows "iec61131stdfb_INSERT_typemethod maxlen (\<lambda>_. True) (db s) (db t) P =
    Some (db (if unat P < length s then take (unat P - 1) s @ t @ drop (unat P - 1) s else s @ t))"
proof -
  have s: "ample maxlen (length s)" using assms(1) by (rule ample_mono) simp
  have p: "unat (P - 1) = unat P - 1" "0 < unat P" using unat_pred [OF assms(2)] by auto
  show ?thesis
  proof (cases "unat P < length s")
    case True
    let ?b = "take (unat P - 1) s" and ?e = "drop (unat P - 1) s"
    have b: "ample maxlen (length ?b)" "ample maxlen (length ?b + length t)"
      "ample maxlen (length (?b @ t) + length ?e)"
      using True by (auto intro: ample_mono [OF assms(1)])
    have e: "with_copy True (of_nat (length s) - (P - 1) + 1)
        (copy_loop s (unat (P - 1)) (unat (of_nat (length s) - (P - 1) :: OV_UINT))) out k = k ?e" for out k
      using copied_end [OF s, of "P - 1"] unat_of_length(3) [OF s, of "P - 1"] True p by simp
    have c: "with_copy True (P + 1) (copy_loop s 0 (unat (P - 1))) out k = k ?b" for out k
      using True p unat_of_length(4) [OF s, of P] by (simp add: copy_loop_take with_copy_Some)
    have "P \<noteq> 0" using assms(2) by simp
    then show ?thesis
      using True b(1) app_out_db(1) [OF b(3)]
      by (simp add: iec61131stdfb_INSERT_typemethod_def getlength_db [of s] unat_of_length(2) [OF s] c e [simplified]
          append_input [OF b(2), unfolded One_nat_def])
  next
    case False
    then show ?thesis
      using app_out_db(3) [OF assms(1)] set_out_db(2) [OF s]
      by (simp add: iec61131stdfb_INSERT_typemethod_def getlength_db [of s] unat_of_length(2) [OF s] Ov_Fail_def)
  qed
qed

section \<open>Search finds the first occurrence\<close>

lemma found_loop_prefix: "found_loop found search rest = (if search = [] then found else is_prefix search rest)"
  by (induction found search rest rule: found_loop.induct) auto

lemma find_loop_strstr:
  assumes "length rest + 1 = k + length search" "search \<noteq> []"
  shows "find_loop k rest search c = (case strstr rest search of None \<Rightarrow> 0 | Some i \<Rightarrow> c + of_nat (i + 1))"
  using assms
proof (induction k arbitrary: rest c)
  case 0
  then have "strstr rest search = None"
    using strstr_Some_bound [of rest search] by (cases "strstr rest search") auto
  then show ?case by simp
next
  case (Suc k)
  then obtain r rs where r: "rest = r # rs" by (cases rest) (auto simp flip: length_greater_0_conv)
  have h: "rest ! 0 = search ! 0 \<and> found_loop False search rest \<longleftrightarrow> is_prefix search rest"
    using Suc.prems(2) by (cases search) (auto simp: r found_loop_prefix)
  show ?case
    using Suc.IH [of rs "c + 1"] Suc.prems unfolding find_loop.simps h
    by (auto simp: r add.assoc split: option.splits)
qed

lemma strstr_Some_length: "length s < length t \<Longrightarrow> strstr s t = None"
  using strstr_Some_bound [of s t] by (cases "strstr s t") auto

text \<open>C40: FIND reports the position of the first occurrence, counted from one: for a text to search
  that is not empty, its result is one more than the index that strstr finds and zero if the text
  does not occur; for an empty text it is zero.\<close>

theorem find_is_strstr:
  assumes "length s < 4294967295" "length t < 4294967295"
  shows "iec61131stdfb_FIND_typemethod (db s) (db t) =
    (if t = [] then 0 else case strstr s t of None \<Rightarrow> 0 | Some i \<Rightarrow> of_nat (i + 1))"
proof -
  have a: "ample 0 (length s)" "ample 0 (length t)" using assms by (simp_all add: ample_def)
  note u = ampleD(1) [OF a(1)] ampleD(1) [OF a(2)] and z = length_zero_db [OF a(1)] length_zero_db [OF a(2)]
  have le: "(of_nat (length t) :: OV_UINT) \<le> of_nat (length s) \<longleftrightarrow> length t \<le> length s"
    by (simp add: word_le_nat_alt u)
  show ?thesis
  proof (cases "length t \<le> length s \<and> t \<noteq> []")
    case True
    have "unat (of_nat (length s) - of_nat (length t) :: OV_UINT) = length s - length t"
      using unat_of_length(3) [OF a(1), of "of_nat (length t)"] u(2) True by simp
    moreover have "s \<noteq> []" using True by auto
    ultimately show ?thesis
      using True find_loop_strstr [of s "length s - length t + 1" t 0]
      by (simp add: iec61131stdfb_FIND_typemethod_def getlength_db le z Let_def split: option.splits)
  next
    case False
    then show ?thesis
      using strstr_Some_length [of s t] by (auto simp: iec61131stdfb_FIND_typemethod_def getlength_db le z Let_def)
  qed
qed

theorem find_is_strstr_witness: "iec61131stdfb_FIND_typemethod (db ''abracad'') (db ''ac'') = 4"
  using find_is_strstr [of "''abracad''" "''ac''"] by simp

text \<open>What FIND reports, MID takes out.\<close>

lemma found_text:
  assumes "ample maxlen (length s)" "t \<noteq> []" "iec61131stdfb_FIND_typemethod (db s) (db t) = P" "P \<noteq> 0"
    and "length t < 4294967295"
  shows "iec61131stdfb_MID_typemethod maxlen (\<lambda>_. True) (db s) (of_nat (length t)) P = Some (db t)"
proof -
  have s: "length s < 4294967295" using assms(1) by (simp add: ample_def)
  obtain i where i: "strstr s t = Some i" "P = of_nat (i + 1)"
    using find_is_strstr [OF s assms(5)] assms(2-4) by (auto split: option.splits)
  have b: "i + length t \<le> length s" using strstr_Some_bound [OF i(1)] .
  have u: "unat (of_nat n :: OV_UINT) = n" if "n < 4294967295" for n
    using that by (simp add: unat_of_nat)
  have p: "unat P = i + 1" unfolding i(2) by (rule u) (use b assms(2) s in \<open>cases t; simp\<close>)
  have l: "unat (of_nat (length t) :: OV_UINT) = length t" using assms(5) by (rule u)
  have "0 < (of_nat (length t) :: OV_UINT)" using l assms(2) by (simp add: word_less_nat_alt)
  moreover have "(of_nat (length t) :: OV_UINT) \<noteq> - 1"
  proof
    assume "(of_nat (length t) :: OV_UINT) = - 1"
    then have "(of_nat (length t + 1) :: OV_UINT) = 0" by simp
    moreover have "unat (of_nat (length t + 1) :: OV_UINT) = length t + 1"
      unfolding unat_of_nat using assms(5) by simp
    ultimately show False by simp
  qed
  moreover have "0 < P" using assms(4) by (simp add: word_gt_0)
  moreover have "take (length t) (drop i s) = t"
    by (subst strstr_Some [OF i(1)]) (use b in simp)
  ultimately show ?thesis using mid_returns [OF assms(1), of "of_nat (length t)" P] p l by simp
qed

section \<open>The functions together\<close>

text \<open>A string is put together again from its parts: concatenating LEFT with a length L, at most
  LEN, and RIGHT with LEN minus L gives the string back. Memory is granted and the string is not
  longer than the server admits.\<close>

lemma left_right_concat:
  assumes "ample maxlen (length s)" "L \<le> iec61131stdfb_LEN_typemethod (db s)"
  shows "\<exists>l r. iec61131stdfb_LEFT_typemethod maxlen (\<lambda>_. True) (db s) L = Some l \<and>
    iec61131stdfb_RIGHT_typemethod maxlen (\<lambda>_. True) (db s) (iec61131stdfb_LEN_typemethod (db s) - L) = Some r \<and>
    iec61131stdfb_CONCAT_typemethod maxlen (\<lambda>_. True) OUT l r = db s"
proof -
  have L: "unat L \<le> length s"
    using assms by (simp add: iec61131stdfb_LEN_typemethod_def getlength_db unat_of_length(1))
  have "unat (iec61131stdfb_LEN_typemethod (db s) - L) = length s - unat L"
    using unat_of_length(3) [OF assms(1) L] by (simp add: iec61131stdfb_LEN_typemethod_def getlength_db)
  then have "length s - unat (iec61131stdfb_LEN_typemethod (db s) - L) = unat L" using L by simp
  moreover have "iec61131stdfb_CONCAT_typemethod maxlen (\<lambda>_. True) OUT (db (take (unat L) s)) (db (drop (unat L) s)) = db s"
    using concat_returns [of maxlen "take (unat L) s" "drop (unat L) s" OUT] assms(1) L by simp
  ultimately show ?thesis using left_returns [OF assms(1)] right_returns [OF assms(1)] by simp
qed

lemma left_right_concat_example:
  "\<exists>l r. iec61131stdfb_LEFT_typemethod 10 (\<lambda>_. True) (db ''motor'') 2 = Some l \<and>
    iec61131stdfb_RIGHT_typemethod 10 (\<lambda>_. True) (db ''motor'') (iec61131stdfb_LEN_typemethod (db ''motor'') - 2) = Some r \<and>
    iec61131stdfb_CONCAT_typemethod 10 (\<lambda>_. True) None l r = db ''motor''"
  by (rule left_right_concat) (simp_all add: ample_def iec61131stdfb_LEN_typemethod_def getlength_db)

lemma no_wrap:
  assumes "0 < (P :: OV_UINT)" "unat P + unat L \<le> 4294967296"
  shows "unat (P + L - 1) = unat P + unat L - 1"
proof -
  have "P + L - 1 = of_nat (unat P + unat L - 1)"
    using unat_pred(2) [OF assms(1)] by (simp add: of_nat_diff)
  moreover have "unat P + unat L - 1 < 4294967296" using assms(2) unat_pred(2) [OF assms(1)] by simp
  ultimately show ?thesis by (simp only: unat_of_nat) simp
qed

text \<open>REPLACE agrees with DELETE and INSERT: where the position lies in the string and before the
  last character that is left after the deletion, and P + L - 1 does not wrap around, replacing L
  characters at P by a text gives the same as deleting them and inserting the text at P, namely the
  characters before P, the text, and the characters from P + L on.\<close>

lemma replace_is_delete_insert:
  assumes "ample maxlen (length s + length t)" "0 < P"
    and "unat P + unat L < length s" "unat P + unat L \<le> 4294967296"
  defines "r \<equiv> db (take (unat P - 1) s @ t @ drop (unat P + unat L - 1) s)"
  shows "iec61131stdfb_REPLACE_typemethod maxlen (\<lambda>_. True) (db s) (db t) L P = Some r \<and>
    (\<exists>d. iec61131stdfb_DELETE_typemethod maxlen (\<lambda>_. True) (db s) L P = Some d \<and>
      iec61131stdfb_INSERT_typemethod maxlen (\<lambda>_. True) d (db t) P = Some r)"
proof -
  have s: "ample maxlen (length s)" using assms(1) by (rule ample_mono) simp
  note n = no_wrap [OF assms(2,4)] unat_pred(2) [OF assms(2)]
  let ?d = "take (unat P - 1) s @ drop (unat P + unat L - 1) s"
  have ld: "length ?d = length s - unat L" using assms(3) n(2) by simp
  have "ample maxlen (unat P - 1 + length t + (length s - unat (P + L - 1)))"
    using assms(1) by (rule ample_mono) (use assms(3) n in simp)
  then have "iec61131stdfb_REPLACE_typemethod maxlen (\<lambda>_. True) (db s) (db t) L P = Some r"
    using replace_returns [OF s assms(2), of t L] assms(3) n by (simp add: r_def)
  moreover have "iec61131stdfb_DELETE_typemethod maxlen (\<lambda>_. True) (db s) L P = Some (db ?d)"
    using delete_returns [OF s assms(2), of L] assms(3) n by simp
  moreover have "iec61131stdfb_INSERT_typemethod maxlen (\<lambda>_. True) (db ?d) (db t) P = Some r"
  proof -
    have a: "ample maxlen (length ?d + length t)"
      using assms(1) by (rule ample_mono) (use ld in simp)
    have lt: "unat P < length ?d" using assms(3) unfolding ld by simp
    have parts: "take (unat P - 1) ?d = take (unat P - 1) s" "drop (unat P - 1) ?d = drop (unat P + unat L - 1) s"
      using assms(3) n(2) by simp_all
    show ?thesis
      unfolding insert_returns [OF a assms(2)] if_P [OF lt] parts r_def ..
  qed
  ultimately show ?thesis by blast
qed

text \<open>A length that makes \<open>P + L - 1\<close> wrap around: deleting the rest of the string from its second
  character doubles the first one instead.\<close>

lemma delete_wraps:
  "iec61131stdfb_DELETE_typemethod 0 (\<lambda>_. True) (db ''abc'') (- 1) 2 = Some (Some ''aabc'')"
  by code_simp

text \<open>Inserting at the position of the last character appends behind it.\<close>

lemma insert_at_last_appends:
  "iec61131stdfb_INSERT_typemethod 0 (\<lambda>_. True) (db ''abc'') (db ''x'') 3 = Some (Some ''abcx'')"
  by code_simp

text \<open>Without memory the functions return an empty or a truncated result, which nothing tells apart
  from a complete one.\<close>

lemma insert_without_memory:
  "iec61131stdfb_INSERT_typemethod 0 (\<lambda>i. i < 4) (db ''abc'') (db ''x'') 2 = Some (Some ''ax'')"
  by code_simp

end
