(* ===== verification/XdrPacket.thy ===== *)
theory XdrPacket
  imports OvTime OvString
begin

text \<open>
  syslibs/comm: the data packets of ACPLT/KS (ksbase/source/ksbase_helper.c) and the reading and
  writing of basic values in the external data representation (ksxdr/source/
  KSDATAPACKET_xdrhandling.c). A pointer into the block of a packet is its offset. The bits of
  floating point numbers are words. The host is little-endian.
\<close>

section \<open>Packets and effects\<close>

type_synonym byte = "8 word"

record KS_DATAPACKET =
  pk_length :: OV_UINT
  pk_data :: "byte list option"
  pk_readPT :: "nat option"
  pk_writePT :: "nat option"

text \<open>\<open>decisions\<close> tells for each of the following requests for memory whether it is granted; behind
  its end every request is. Leaving a block of memory is \<open>XUndefined\<close>; \<open>XTooDeep\<close> is a recursion
  deeper than the stack admits.\<close>

record XS =
  packet :: KS_DATAPACKET
  decisions :: "bool list"

datatype 'a xres = XUndefined | XTooDeep | XFailed OV_RESULT XS | XDone 'a XS

type_synonym 'a xdr = "XS \<Rightarrow> 'a xres"

definition xdone :: "'a \<Rightarrow> 'a xdr" where
  "xdone a s = XDone a s"

definition xfail :: "OV_RESULT \<Rightarrow> 'a xdr" where
  "xfail r s = XFailed r s"

definition xundefined :: "'a xdr" where
  "xundefined s = XUndefined"

definition xbind :: "'a xdr \<Rightarrow> ('a \<Rightarrow> 'b xdr) \<Rightarrow> 'b xdr" where
  "xbind m k s =
    (case m s of XDone a s' \<Rightarrow> k a s' | XFailed r s' \<Rightarrow> XFailed r s'
     | XUndefined \<Rightarrow> XUndefined | XTooDeep \<Rightarrow> XTooDeep)"

definition xgrant :: "bool xdr" where
  "xgrant s = (case decisions s of [] \<Rightarrow> XDone True s | d # ds \<Rightarrow> XDone d (s\<lparr>decisions := ds\<rparr>))"

text \<open>\<open>if(Ov_Fail(m)) return r;\<close>\<close>

definition if_failed :: "OV_RESULT \<Rightarrow> 'a xdr \<Rightarrow> 'a xdr" where
  "if_failed r m s = (case m s of XFailed _ s' \<Rightarrow> XFailed r s' | x \<Rightarrow> x)"

section \<open>Packets (ksbase_helper.c)\<close>

definition no_packet :: KS_DATAPACKET where
  "no_packet = \<lparr>pk_length = 0, pk_data = None, pk_readPT = None, pk_writePT = None\<rparr>"

definition ksbase_free_KSDATAPACKET :: "KS_DATAPACKET \<Rightarrow> KS_DATAPACKET" where
  "ksbase_free_KSDATAPACKET pk = (if pk_length pk \<noteq> 0 \<or> pk_data pk \<noteq> None then no_packet else pk)"

text \<open>A write pointer that does not stand at the end of the block would leave bytes behind the new
  ones undefined.\<close>

definition ksbase_KSDATAPACKET_append :: "byte list \<Rightarrow> unit xdr" where
  "ksbase_KSDATAPACKET_append data = xbind xgrant (\<lambda>granted s.
    let pk = packet s; addlength = of_nat (length data)
    in if pk_length pk \<noteq> 0 then
         (if \<not> granted then XFailed OV_ERR_HEAPOUTOFMEMORY (s\<lparr>packet := no_packet\<rparr>)
          else case pk_data pk of
              None \<Rightarrow> XUndefined
            | Some old \<Rightarrow>
                let newlength = pk_length pk + addlength;
                    wp = (case pk_writePT pk of None \<Rightarrow> 0 | Some w \<Rightarrow> w);
                    rp = (case pk_readPT pk of None \<Rightarrow> 0 | Some r \<Rightarrow> r)
                in if wp \<noteq> length old \<or> unat newlength < wp + length data then XUndefined
                   else XDone () (s\<lparr>packet := \<lparr>pk_length = newlength, pk_data = Some (old @ data),
                          pk_readPT = Some rp, pk_writePT = Some (wp + length data)\<rparr>\<rparr>))
       else if \<not> granted then XFailed OV_ERR_HEAPOUTOFMEMORY (s\<lparr>packet := no_packet\<rparr>)
       else if unat (addlength :: OV_UINT) < length data then XUndefined
       else XDone () (s\<lparr>packet := \<lparr>pk_length = addlength, pk_data = Some data, pk_readPT = Some 0,
              pk_writePT = Some (length data)\<rparr>\<rparr>))"

definition ksbase_KSDATAPACKET_set :: "byte list option \<Rightarrow> OV_UINT \<Rightarrow> unit xdr" where
  "ksbase_KSDATAPACKET_set data addlength s =
    (let pk = (if pk_length (packet s) \<noteq> 0 then ksbase_free_KSDATAPACKET (packet s) else packet s);
         s = s\<lparr>packet := pk\<rparr>
     in if addlength = 0 then XDone () s
        else case data of
            None \<Rightarrow> XFailed OV_ERR_BADPARAM s
          | Some d \<Rightarrow> xbind xgrant (\<lambda>granted s.
              if \<not> granted then XFailed OV_ERR_HEAPOUTOFMEMORY (s\<lparr>packet := no_packet\<rparr>)
              else if length d < unat addlength then XUndefined
              else XDone () (s\<lparr>packet := \<lparr>pk_length = addlength, pk_data = Some (take (unat addlength) d),
                     pk_readPT = Some 0, pk_writePT = Some (unat addlength)\<rparr>\<rparr>)) s)"

section \<open>What the readers share\<close>

text \<open>The check of the read pointer, which does not ask how many bytes are left.\<close>

definition xguard :: "unit xdr" where
  "xguard s =
    (case (pk_data (packet s), pk_readPT (packet s)) of
       (Some _, Some r) \<Rightarrow> if r \<le> unat (pk_length (packet s)) then XDone () s else XFailed OV_ERR_GENERIC s
     | _ \<Rightarrow> XFailed OV_ERR_GENERIC s)"

text \<open>Read \<open>n\<close> bytes from the read pointer and move it by \<open>step\<close>.\<close>

definition fetch :: "nat \<Rightarrow> nat \<Rightarrow> byte list xdr" where
  "fetch n step = xbind xguard (\<lambda>_ s.
    let r = the (pk_readPT (packet s)); d = the (pk_data (packet s))
    in if r + n \<le> length d
       then XDone (take n (drop r d)) (s\<lparr>packet := (packet s)\<lparr>pk_readPT := Some (r + step)\<rparr>\<rparr>)
       else XUndefined)"

section \<open>Numbers\<close>

definition split4 :: "OV_UINT \<Rightarrow> byte list" where
  "split4 v = [ucast (drop_bit 24 (v AND 0xFF000000)), ucast (drop_bit 16 (v AND 0x00FF0000)),
     ucast (drop_bit 8 (v AND 0x0000FF00)), ucast (v AND 0x000000FF)]"

definition join4 :: "byte list \<Rightarrow> OV_UINT" where
  "join4 b = push_bit 24 (ucast (b ! 0)) OR push_bit 16 (ucast (b ! 1)) OR
     push_bit 8 (ucast (b ! 2)) OR ucast (b ! 3)"

definition KS_DATAPACKET_read_xdr_uint :: "OV_UINT xdr" where
  "KS_DATAPACKET_read_xdr_uint = xbind (fetch 4 4) (\<lambda>b. xdone (join4 b))"

definition KS_DATAPACKET_write_xdr_uint :: "OV_UINT option \<Rightarrow> unit xdr" where
  "KS_DATAPACKET_write_xdr_uint value =
    ksbase_KSDATAPACKET_append (case value of Some v \<Rightarrow> split4 v | None \<Rightarrow> replicate 4 0)"

definition KS_DATAPACKET_read_xdr_int :: "OV_INT xdr" where
  "KS_DATAPACKET_read_xdr_int = xbind (fetch 4 4) (\<lambda>b. xdone (join4 b))"

definition KS_DATAPACKET_write_xdr_int :: "OV_INT option \<Rightarrow> unit xdr" where
  "KS_DATAPACKET_write_xdr_int value =
    ksbase_KSDATAPACKET_append (case value of Some v \<Rightarrow> split4 v | None \<Rightarrow> replicate 4 0)"

type_synonym OV_SINGLE = "32 word"
type_synonym OV_DOUBLE = "64 word"

definition KS_DATAPACKET_read_xdr_single :: "OV_SINGLE xdr" where
  "KS_DATAPACKET_read_xdr_single = xbind (fetch 4 4) (\<lambda>b. xdone (join4 b))"

definition KS_DATAPACKET_write_xdr_single :: "OV_SINGLE option \<Rightarrow> unit xdr" where
  "KS_DATAPACKET_write_xdr_single value =
    ksbase_KSDATAPACKET_append (case value of Some v \<Rightarrow> split4 v | None \<Rightarrow> replicate 4 0)"

definition split8 :: "OV_DOUBLE \<Rightarrow> byte list" where
  "split8 v = [ucast (drop_bit 56 (v AND 0xFF00000000000000)), ucast (drop_bit 48 (v AND 0x00FF000000000000)),
     ucast (drop_bit 40 (v AND 0x0000FF0000000000)), ucast (drop_bit 32 (v AND 0x000000FF00000000)),
     ucast (drop_bit 24 (v AND 0x00000000FF000000)), ucast (drop_bit 16 (v AND 0x0000000000FF0000)),
     ucast (drop_bit 8 (v AND 0x000000000000FF00)), ucast (v AND 0x00000000000000FF)]"

definition join8 :: "byte list \<Rightarrow> OV_DOUBLE" where
  "join8 b = push_bit 56 (ucast (b ! 0)) OR push_bit 48 (ucast (b ! 1)) OR
     push_bit 40 (ucast (b ! 2)) OR push_bit 32 (ucast (b ! 3)) OR push_bit 24 (ucast (b ! 4)) OR
     push_bit 16 (ucast (b ! 5)) OR push_bit 8 (ucast (b ! 6)) OR ucast (b ! 7)"

definition KS_DATAPACKET_read_xdr_double :: "OV_DOUBLE xdr" where
  "KS_DATAPACKET_read_xdr_double = xbind (fetch 8 8) (\<lambda>b. xdone (join8 b))"

definition KS_DATAPACKET_write_xdr_double :: "OV_DOUBLE option \<Rightarrow> unit xdr" where
  "KS_DATAPACKET_write_xdr_double value =
    ksbase_KSDATAPACKET_append (case value of Some v \<Rightarrow> split8 v | None \<Rightarrow> replicate 8 0)"

section \<open>Strings and opaque data\<close>

text \<open>\<open>while(length % 4) length++\<close>: three steps reach a multiple of four.\<close>

primrec pad_loop :: "nat \<Rightarrow> OV_UINT \<Rightarrow> OV_UINT" where
  "pad_loop 0 len = len"
| "pad_loop (Suc k) len = (if len mod 4 \<noteq> 0 then pad_loop k (len + 1) else len)"

definition padded :: "OV_UINT \<Rightarrow> OV_UINT" where
  "padded len = pad_loop 3 len"

text \<open>The characters of a C string before its terminator.\<close>

definition c_string :: "byte list \<Rightarrow> string" where
  "c_string b = map (\<lambda>x. char_of (unat x)) (takeWhile (\<lambda>x. x \<noteq> 0) b)"

definition bytes_of :: "string \<Rightarrow> byte list" where
  "bytes_of s = map of_char s"

text \<open>\<open>datapacket->readPT -= 4\<close>\<close>

definition rewind4 :: "unit xdr" where
  "rewind4 s = (case pk_readPT (packet s) of
     Some r \<Rightarrow> XDone () (s\<lparr>packet := (packet s)\<lparr>pk_readPT := Some (r - 4)\<rparr>\<rparr>) | None \<Rightarrow> XUndefined)"

text \<open>Allocate \<open>sz\<close> bytes, of which \<open>used\<close> are written.\<close>

definition xblock :: "OV_UINT \<Rightarrow> nat \<Rightarrow> unit xdr" where
  "xblock sz used = xbind xgrant (\<lambda>granted.
     if \<not> granted then xfail OV_ERR_HEAPOUTOFMEMORY
     else if unat sz < used then xundefined else xdone ())"

definition KS_DATAPACKET_read_xdr_string :: "OV_UINT \<Rightarrow> OV_STRING xdr" where
  "KS_DATAPACKET_read_xdr_string maxlen =
    xbind (if_failed OV_ERR_GENERIC KS_DATAPACKET_read_xdr_uint) (\<lambda>len.
    if maxlen \<noteq> 0 \<and> len \<ge> maxlen then xbind rewind4 (\<lambda>_. xfail OV_ERR_BADVALUE)
    else xbind xguard (\<lambda>_.
         xbind (xblock (len + 1) (unat len + 1)) (\<lambda>_.
         xbind (fetch (unat len) (unat (padded len))) (\<lambda>b. xdone (Some (c_string b))))))"

definition KS_DATAPACKET_read_xdr_string_wolength :: "OV_STRING xdr" where
  "KS_DATAPACKET_read_xdr_string_wolength = KS_DATAPACKET_read_xdr_string (NOT 0)"

text \<open>The readers onto the memory stack differ in the allocator only.\<close>

definition KS_DATAPACKET_read_xdr_string_tomemstack :: "OV_UINT \<Rightarrow> OV_STRING xdr" where
  "KS_DATAPACKET_read_xdr_string_tomemstack maxlen =
    xbind (if_failed OV_ERR_GENERIC KS_DATAPACKET_read_xdr_uint) (\<lambda>len.
    if maxlen \<noteq> 0 \<and> len \<ge> maxlen then xbind rewind4 (\<lambda>_. xfail OV_ERR_BADVALUE)
    else xbind xguard (\<lambda>_.
         xbind (xblock (len + 1) (unat len + 1)) (\<lambda>_.
         xbind (fetch (unat len) (unat (padded len))) (\<lambda>b. xdone (Some (c_string b))))))"

definition KS_DATAPACKET_read_xdr_string_tomemstack_wolength :: "OV_STRING xdr" where
  "KS_DATAPACKET_read_xdr_string_tomemstack_wolength = KS_DATAPACKET_read_xdr_string_tomemstack (NOT 0)"

text \<open>The length is copied byte by byte from the memory of a little-endian host, last byte first.\<close>

definition host_bytes :: "OV_UINT \<Rightarrow> byte list" where
  "host_bytes v = map (\<lambda>i. ucast (drop_bit (8 * i) v)) [0, 1, 2, 3]"

definition counted_block :: "byte list \<Rightarrow> OV_UINT \<Rightarrow> byte list" where
  "counted_block content len =
    rev (host_bytes len) @ take (unat len) content @ replicate (unat (padded len) - unat len) 0"

definition KS_DATAPACKET_write_xdr_string :: "OV_STRING \<Rightarrow> unit xdr" where
  "KS_DATAPACKET_write_xdr_string value =
    (case value of
       None \<Rightarrow> KS_DATAPACKET_write_xdr_uint (Some 0)
     | Some str \<Rightarrow>
         let len = of_nat (length str); xdradd = padded len
         in xbind (xblock (xdradd + 4) (unat len + 4)) (\<lambda>_.
            ksbase_KSDATAPACKET_append (counted_block (bytes_of str) len)))"

definition KS_DATAPACKET_read_xdr_opaque :: "OV_UINT \<Rightarrow> (byte list option \<times> OV_UINT) xdr" where
  "KS_DATAPACKET_read_xdr_opaque maxlen =
    xbind (if_failed OV_ERR_GENERIC KS_DATAPACKET_read_xdr_uint) (\<lambda>len.
    if len = 0 then xdone (None, 0)
    else if maxlen \<noteq> 0 \<and> len \<ge> maxlen then xbind rewind4 (\<lambda>_. xfail OV_ERR_BADVALUE)
    else xbind xguard (\<lambda>_.
         xbind (xblock len (unat len)) (\<lambda>_.
         xbind (fetch (unat len) (unat (padded len))) (\<lambda>b. xdone (Some b, len)))))"

definition KS_DATAPACKET_read_xdr_opaque_tomemstack :: "OV_UINT \<Rightarrow> (byte list option \<times> OV_UINT) xdr" where
  "KS_DATAPACKET_read_xdr_opaque_tomemstack maxlen =
    xbind (if_failed OV_ERR_GENERIC KS_DATAPACKET_read_xdr_uint) (\<lambda>len.
    if len = 0 then xdone (None, 0)
    else if maxlen \<noteq> 0 \<and> len \<ge> maxlen then xbind rewind4 (\<lambda>_. xfail OV_ERR_BADVALUE)
    else xbind xguard (\<lambda>_.
         xbind (xblock len (unat len)) (\<lambda>_.
         xbind (fetch (unat len) (unat (padded len))) (\<lambda>b. xdone (Some b, len)))))"

definition KS_DATAPACKET_write_xdr_opaque :: "byte list option \<Rightarrow> OV_UINT \<Rightarrow> unit xdr" where
  "KS_DATAPACKET_write_xdr_opaque value len =
    (case value of
       None \<Rightarrow> KS_DATAPACKET_write_xdr_uint (Some 0)
     | Some v \<Rightarrow>
         let xdradd = padded len
         in xbind (xblock (xdradd + 4) (unat len + 4)) (\<lambda>_.
            if length v < unat len then xundefined
            else ksbase_KSDATAPACKET_append (counted_block v len)))"

text \<open>The caller's buffer of a fixed length.\<close>

definition KS_DATAPACKET_read_xdr_opaque_fixedlength :: "OV_UINT \<Rightarrow> byte list xdr" where
  "KS_DATAPACKET_read_xdr_opaque_fixedlength len = fetch (unat len) (unat (padded len))"

definition KS_DATAPACKET_write_xdr_opaque_fixedlength :: "byte list option \<Rightarrow> OV_UINT \<Rightarrow> unit xdr" where
  "KS_DATAPACKET_write_xdr_opaque_fixedlength value len =
    (case value of
       Some v \<Rightarrow>
         (if length v < unat len then xundefined
          else if len mod 4 = 0 then ksbase_KSDATAPACKET_append (take (unat len) v)
          else xbind (xblock (padded len) (unat len)) (\<lambda>_.
               ksbase_KSDATAPACKET_append (take (unat len) v @ replicate (unat (padded len) - unat len) 0)))
     | None \<Rightarrow> xbind (xblock (padded len) (unat (padded len))) (\<lambda>_.
               ksbase_KSDATAPACKET_append (replicate (unat (padded len)) 0)))"

section \<open>Arrays\<close>

text \<open>Element \<open>i\<close> is written at \<open>i * elementSize\<close> of the block. An element outside the block counts
  as undefined even where its reader would fail first.\<close>

primrec array_loop :: "nat \<Rightarrow> nat \<Rightarrow> nat \<Rightarrow> nat \<Rightarrow> 'a xdr \<Rightarrow> 'a list xdr" where
  "array_loop bytes elementSize i 0 readfnc = xdone []"
| "array_loop bytes elementSize i (Suc n) readfnc =
    (if bytes < (i + 1) * elementSize then xundefined
     else xbind readfnc (\<lambda>a. xbind (array_loop bytes elementSize (Suc i) n readfnc) (\<lambda>as. xdone (a # as))))"

definition KS_DATAPACKET_read_xdr_array_tomemstack :: "OV_UINT \<Rightarrow> 'a xdr \<Rightarrow> 'a list xdr" where
  "KS_DATAPACKET_read_xdr_array_tomemstack elementSize readfnc =
    xbind KS_DATAPACKET_read_xdr_uint (\<lambda>len.
    let sz = len * elementSize
    in xbind (xblock sz 0) (\<lambda>_. array_loop (unat sz) (unat elementSize) 0 (unat len) readfnc))"

fun write_loop :: "('a \<Rightarrow> unit xdr) \<Rightarrow> 'a list \<Rightarrow> unit xdr" where
  "write_loop writefnc [] = xdone ()"
| "write_loop writefnc (x # xs) = xbind (writefnc x) (\<lambda>_. write_loop writefnc xs)"

definition KS_DATAPACKET_write_xdr_array :: "('a \<Rightarrow> unit xdr) \<Rightarrow> 'a list \<Rightarrow> unit xdr" where
  "KS_DATAPACKET_write_xdr_array writefnc xs =
    xbind (KS_DATAPACKET_write_xdr_uint (Some (of_nat (length xs)))) (\<lambda>_. write_loop writefnc xs)"

end
