(* ===== verification/XdrLaws.thy ===== *)
theory XdrLaws
  imports XdrPacket
begin

text \<open>
  The laws of the routines in XdrPacket: a writer appends the encoding of RFC 1014 to a packet, a
  reader takes it from where the read pointer stands. The encodings are stated by arithmetic,
  without the shifts and masks of the code.
\<close>

section \<open>The encoding\<close>

definition big_endian :: "nat \<Rightarrow> nat \<Rightarrow> byte list" where
  "big_endian k n = map (\<lambda>i. of_nat (n div 256 ^ i)) (rev [0..<k])"

definition fill :: "nat \<Rightarrow> byte list" where
  "fill n = replicate ((4 - n mod 4) mod 4) 0"

definition xdr_uint :: "OV_UINT \<Rightarrow> byte list" where
  "xdr_uint v = big_endian 4 (unat v)"

definition xdr_double :: "OV_DOUBLE \<Rightarrow> byte list" where
  "xdr_double v = big_endian 8 (unat v)"

definition xdr_opaque :: "byte list \<Rightarrow> byte list" where
  "xdr_opaque b = xdr_uint (of_nat (length b)) @ b @ fill (length b)"

definition content :: "OV_STRING \<Rightarrow> string" where
  "content s = (case s of Some cs \<Rightarrow> cs | None \<Rightarrow> [])"

definition xdr_string :: "OV_STRING \<Rightarrow> byte list" where
  "xdr_string s = xdr_opaque (bytes_of (content s))"

definition xdr_array :: "('a \<Rightarrow> byte list) \<Rightarrow> 'a list \<Rightarrow> byte list" where
  "xdr_array enc xs = xdr_uint (of_nat (length xs)) @ concat (map enc xs)"

lemma length_xdr [simp]: "length (xdr_uint v) = 4" "length (xdr_double w) = 8"
  by (simp_all add: xdr_uint_def xdr_double_def big_endian_def)

lemma fill_aligned: "4 dvd n + length (fill n)"
proof -
  have "n mod 4 = 0 \<or> n mod 4 = 1 \<or> n mod 4 = 2 \<or> n mod 4 = 3" by linarith
  then show ?thesis
  proof (elim disjE)
    assume "n mod 4 = 0" then show ?thesis by (simp add: fill_def dvd_eq_mod_eq_0)
  next
    assume n: "n mod 4 = 1"
    then have "4 dvd n + 3" by presburger
    then show ?thesis by (simp add: fill_def n)
  next
    assume n: "n mod 4 = 2"
    then have "4 dvd n + 2" by presburger
    then show ?thesis by (simp add: fill_def n)
  next
    assume n: "n mod 4 = 3"
    then have "4 dvd n + 1" by presburger
    then show ?thesis by (simp add: fill_def n)
  qed
qed

section \<open>Bytes of words\<close>

lemma byte_of_shift: "(ucast (drop_bit (8 * i) v) :: byte) = of_nat (unat v div 256 ^ i)"
  for v :: "'a::len word"
proof -
  have "(ucast (drop_bit (8 * i) v) :: byte) = of_nat (unat (drop_bit (8 * i) v))" by simp
  also have "unat (drop_bit (8 * i) v) = unat v div 256 ^ i"
    unfolding unat_drop_bit_eq by (simp add: drop_bit_eq_div power_mult)
  finally show ?thesis .
qed

lemma byte_of_word:
  "(ucast (drop_bit (8 * i) (v AND push_bit (8 * i) 255)) :: byte) = of_nat (unat v div 256 ^ i)"
  for v :: "'a::len word"
proof -
  have "(ucast (drop_bit (8 * i) (v AND push_bit (8 * i) 255)) :: byte) = ucast (drop_bit (8 * i) v)"
  proof (rule bit_word_eqI)
    fix n assume n: "n < LENGTH(8)"
    have m: "(255 :: 'a word) = mask 8" by (simp add: mask_eq_exp_minus_1)
    show "bit (ucast (drop_bit (8 * i) (v AND push_bit (8 * i) 255)) :: byte) n = bit (ucast (drop_bit (8 * i) v) :: byte) n"
      using n unfolding m by (auto simp: bit_simps dest: bit_imp_le_length)
  qed
  then show ?thesis by (simp only: byte_of_shift)
qed


lemma split4_encoding: "split4 v = xdr_uint v"
  using byte_of_word [of 3 v] byte_of_word [of 2 v] byte_of_word [of 1 v] byte_of_word [of 0 v]
  by (simp add: split4_def xdr_uint_def big_endian_def push_bit_eq_mult upt_rec)

lemma split8_encoding: "split8 v = xdr_double v"
  using byte_of_word [of 7 v] byte_of_word [of 6 v] byte_of_word [of 5 v] byte_of_word [of 4 v]
    byte_of_word [of 3 v] byte_of_word [of 2 v] byte_of_word [of 1 v] byte_of_word [of 0 v]
  by (simp add: split8_def xdr_double_def big_endian_def push_bit_eq_mult upt_rec)

lemma xdr_uint_shifts: "xdr_uint v = rev (host_bytes v)"
  using byte_of_shift [of 0 v] byte_of_shift [of 1 v] byte_of_shift [of 2 v] byte_of_shift [of 3 v]
  by (simp add: host_bytes_def xdr_uint_def big_endian_def upt_rec)

lemma bit_of_byte:
  "bit (push_bit k (ucast (ucast (drop_bit k v) :: byte)) :: 'a word) n \<longleftrightarrow> k \<le> n \<and> n < k + 8 \<and> bit v n"
  "bit (ucast (ucast v :: byte) :: 'a word) n \<longleftrightarrow> n < 8 \<and> bit v n"
  for v :: "'a::len word"
  by (auto simp: bit_simps dest: bit_imp_le_length)

lemma join4_encoding: "join4 (xdr_uint v) = v"
proof (rule bit_word_eqI)
  fix n assume "n < LENGTH(32)"
  then have "n < 32" by simp
  then show "bit (join4 (xdr_uint v)) n = bit v n"
    by (auto simp: xdr_uint_shifts join4_def host_bytes_def bit_or_iff bit_of_byte)
qed

lemma xdr_double_shifts: "xdr_double v = rev (map (\<lambda>i. ucast (drop_bit (8 * i) v)) [0, 1, 2, 3, 4, 5, 6, 7])"
  using byte_of_shift [of 0 v] byte_of_shift [of 1 v] byte_of_shift [of 2 v] byte_of_shift [of 3 v]
    byte_of_shift [of 4 v] byte_of_shift [of 5 v] byte_of_shift [of 6 v] byte_of_shift [of 7 v]
  by (simp add: xdr_double_def big_endian_def upt_rec)

lemma join8_encoding: "join8 (xdr_double v) = v"
proof (rule bit_word_eqI)
  fix n assume "n < LENGTH(64)"
  then have "n < 64" by simp
  then show "bit (join8 (xdr_double v)) n = bit v n"
    by (auto simp: xdr_double_shifts join8_def bit_or_iff bit_of_byte)
qed

section \<open>Packets in a known state\<close>

text \<open>\<open>pkt d r\<close> is a packet with the bytes \<open>d\<close> whose read pointer stands at \<open>r\<close>, \<open>written d\<close> one
  that was filled by writing, with memory for every request.\<close>

definition pkt :: "byte list \<Rightarrow> nat \<Rightarrow> XS" where
  "pkt d r = \<lparr>packet = \<lparr>pk_length = of_nat (length d), pk_data = Some d, pk_readPT = Some r,
     pk_writePT = Some (length d)\<rparr>, decisions = []\<rparr>"

definition written :: "byte list \<Rightarrow> XS" where
  "written d = (if d = [] then \<lparr>packet = no_packet, decisions = []\<rparr> else pkt d 0)"

text \<open>The bytes \<open>b\<close> stand at offset \<open>r\<close>.\<close>

definition stands :: "byte list \<Rightarrow> nat \<Rightarrow> byte list \<Rightarrow> bool" where
  "stands d r b \<longleftrightarrow> r + length b \<le> length d \<and> take (length b) (drop r d) = b"

lemma stands_append [simp]:
  "stands d r (b @ c) \<longleftrightarrow> stands d r b \<and> stands d (r + length b) c"
proof
  assume s: "stands d r (b @ c)"
  then have l: "r + length b + length c \<le> length d" and t: "take (length b + length c) (drop r d) = b @ c"
    by (simp_all add: stands_def add.assoc)
  from t have "take (length b) (take (length b + length c) (drop r d)) = b" by simp
  moreover from t have "drop (length b) (take (length b + length c) (drop r d)) = c" by simp
  ultimately show "stands d r b \<and> stands d (r + length b) c"
    using l by (simp add: stands_def drop_take add.commute min_def)
next
  assume "stands d r b \<and> stands d (r + length b) c"
  then show "stands d r (b @ c)"
    by (simp add: stands_def take_add add.assoc add.commute [of "length b" r])
qed

lemma stands_middle: "stands (pre @ b @ post) (length pre) b"
  by (simp add: stands_def)

text \<open>The laws: \<open>m\<close> writes the bytes \<open>b\<close>; \<open>m\<close> reads the value \<open>a\<close> where the bytes \<open>b\<close> stand.\<close>

definition wlaw :: "unit xdr \<Rightarrow> byte list \<Rightarrow> bool" where
  "wlaw m b \<longleftrightarrow> (\<forall>d. length d + length b < 4294967296 \<longrightarrow> m (written d) = XDone () (written (d @ b)))"

definition rlaw :: "'a xdr \<Rightarrow> byte list \<Rightarrow> 'a \<Rightarrow> bool" where
  "rlaw m b a \<longleftrightarrow> (\<forall>d r. length d < 4294967296 \<longrightarrow> stands d r b \<longrightarrow> m (pkt d r) = XDone a (pkt d (r + length b)))"

named_theorems law \<open>laws of readers and writers\<close>

lemma wlaw_done [law]: "wlaw (xdone ()) []"
  by (simp add: wlaw_def xdone_def)

lemma rlaw_done [law]: "rlaw (xdone a) [] a"
  by (simp add: rlaw_def xdone_def)

lemma wlaw_bind [law]: "wlaw m b \<Longrightarrow> wlaw k c \<Longrightarrow> wlaw (xbind m (\<lambda>_. k)) (b @ c)"
  by (simp add: wlaw_def xbind_def)

lemma rlaw_bind: "rlaw m b a \<Longrightarrow> rlaw (k a) c x \<Longrightarrow> rlaw (xbind m k) (b @ c) x"
  by (simp add: rlaw_def xbind_def add.assoc)

lemma rlaw_map: "rlaw m b a \<Longrightarrow> rlaw (xbind m (\<lambda>x. xdone (f x))) b (f a)"
  using rlaw_bind [OF _ rlaw_done, of m b a "f"] by simp

lemma rlaw_mapI: "rlaw m b a \<Longrightarrow> x = f a \<Longrightarrow> rlaw (xbind m (\<lambda>x. xdone (f x))) b x"
  by (simp add: rlaw_map)

lemma rlaw_if_failed: "rlaw m b a \<Longrightarrow> rlaw (if_failed e m) b a"
  by (simp add: rlaw_def if_failed_def)

lemma written_append:
  assumes "b \<noteq> []"
  shows "wlaw (ksbase_KSDATAPACKET_append b) b"
  unfolding wlaw_def
proof (intro allI impI)
  fix d :: "byte list"
  assume l: "length d + length b < 4294967296"
  have n: "unat (of_nat n :: OV_UINT) = n" if "n < 4294967296" for n
    using that by (simp add: unat_of_nat)
  have "(of_nat (length d) :: OV_UINT) = 0 \<Longrightarrow> length d = 0"
    using n [of "length d"] l by simp
  then have z: "(of_nat (length d) :: OV_UINT) = 0 \<longleftrightarrow> d = []" by auto
  show "ksbase_KSDATAPACKET_append b (written d) = XDone () (written (d @ b))"
    using l n [of "length d + length b"] n [of "length b"] z assms
    by (cases "d = []")
      (simp_all add: ksbase_KSDATAPACKET_append_def xbind_def xgrant_def written_def pkt_def no_packet_def Let_def)
qed

text \<open>The steps on a packet, failures included.\<close>

lemma fetch_pkt:
  assumes "length d < 4294967296"
  shows "fetch n step (pkt d r) =
    (if length d < r then XFailed OV_ERR_GENERIC (pkt d r) else if length d < r + n then XUndefined
     else XDone (take n (drop r d)) (pkt d (r + step)))"
  using assms by (auto simp: fetch_def xguard_def xbind_def pkt_def unat_of_nat Let_def)

lemma xguard_pkt:
  assumes "length d < 4294967296"
  shows "xguard (pkt d r) = (if length d < r then XFailed OV_ERR_GENERIC (pkt d r) else XDone () (pkt d r))"
  using assms by (auto simp: xguard_def pkt_def unat_of_nat)

lemma rewind4_pkt: "rewind4 (pkt d r) = XDone () (pkt d (r - 4))"
  by (simp add: rewind4_def pkt_def)

lemma xblock_pkt: "xblock sz used (pkt d r) = (if unat sz < used then XUndefined else XDone () (pkt d r))"
  by (simp add: xblock_def xbind_def xgrant_def pkt_def xdone_def xundefined_def)

lemma fetch_law: "length b \<le> step \<Longrightarrow> length d < 4294967296 \<Longrightarrow> stands d r b \<Longrightarrow>
    fetch (length b) step (pkt d r) = XDone b (pkt d (r + step))"
  by (auto simp: fetch_pkt stands_def)

lemma xguard_law: "rlaw xguard [] ()"
  by (simp add: rlaw_def xguard_pkt stands_def)

lemma xblock_law: "used \<le> unat sz \<Longrightarrow> rlaw (xblock sz used) [] ()"
  by (simp add: rlaw_def xblock_pkt)

lemma xblock_wlaw: "used \<le> unat sz \<Longrightarrow> wlaw (xblock sz used) []"
  by (auto simp: wlaw_def xblock_def xbind_def xgrant_def written_def pkt_def xdone_def xfail_def xundefined_def)

section \<open>Padding\<close>

lemma of_nat_mod4: "n < 4294967296 \<Longrightarrow> (of_nat n :: OV_UINT) mod 4 = 0 \<longleftrightarrow> n mod 4 = 0"
proof -
  assume "n < 4294967296"
  then have "unat (of_nat n :: OV_UINT) = n" by (simp add: unat_of_nat)
  then have "unat ((of_nat n :: OV_UINT) mod 4) = n mod 4" by (simp add: unat_mod_distrib)
  then show ?thesis using unat_eq_zero [of "(of_nat n :: OV_UINT) mod 4"] by (simp only:)
qed

lemma pad_loop_step:
  assumes "n < 4294967295"
  shows "pad_loop (Suc k) (of_nat n) = (if n mod 4 = 0 then of_nat n else pad_loop k (of_nat (Suc n)))"
  using of_nat_mod4 [of n] assms by (simp add: add.commute)

lemma pad_loop_stops:
  assumes "n + k < 4294967296" "j \<le> k" "(n + j) mod 4 = 0" "\<forall>i<j. (n + i) mod 4 \<noteq> 0"
  shows "pad_loop k (of_nat n) = of_nat (n + j)"
  using assms
proof (induction k arbitrary: n j)
  case (Suc k)
  have "n < 4294967295" using Suc.prems(1) by simp
  note step = pad_loop_step [OF this, of k]
  show ?case
  proof (cases j)
    case 0
    then show ?thesis using Suc.prems(3) unfolding step by simp
  next
    case (Suc j')
    have "n mod 4 \<noteq> 0" using Suc.prems(4) Suc by force
    moreover have "pad_loop k (of_nat (Suc n)) = of_nat (Suc n + j')"
      by (rule Suc.IH) (use Suc.prems Suc in auto)
    ultimately show ?thesis unfolding step by (simp add: Suc)
  qed
qed simp

lemma length_fill: "length (fill n) \<le> 3" "(n + length (fill n)) mod 4 = 0"
  "i < length (fill n) \<Longrightarrow> (n + i) mod 4 \<noteq> 0"
proof -
  show "length (fill n) \<le> 3" by (simp add: fill_def)
  show "(n + length (fill n)) mod 4 = 0" using fill_aligned [of n] by (simp add: dvd_eq_mod_eq_0)
  assume "i < length (fill n)"
  then have i: "i < (4 - n mod 4) mod 4" by (simp add: fill_def)
  then have "n mod 4 \<noteq> 0" by (cases "n mod 4 = 0") auto
  moreover from this have "n mod 4 + i < 4" using i by (simp add: mod_less)
  ultimately have "n mod 4 \<noteq> 0" "n mod 4 + i < 4" by blast+
  then have "(n mod 4 + i) mod 4 \<noteq> 0" by simp
  then show "(n + i) mod 4 \<noteq> 0" by (metis mod_add_left_eq)
qed

lemma padded_length:
  assumes "n < 4294967292"
  shows "padded (of_nat n) = of_nat (n + length (fill n))"
  unfolding padded_def by (rule pad_loop_stops) (use assms length_fill [of n] length_fill(3) in auto)

section \<open>The basic routines\<close>

lemma uint_writes [law]: "wlaw (KS_DATAPACKET_write_xdr_uint (Some v)) (xdr_uint v)"
  using written_append [of "xdr_uint v"] by (simp add: KS_DATAPACKET_write_xdr_uint_def split4_encoding flip: length_0_conv)

lemma int_writes [law]: "wlaw (KS_DATAPACKET_write_xdr_int (Some v)) (xdr_uint v)"
  using uint_writes by (simp add: KS_DATAPACKET_write_xdr_int_def KS_DATAPACKET_write_xdr_uint_def)

lemma single_writes [law]: "wlaw (KS_DATAPACKET_write_xdr_single (Some v)) (xdr_uint v)"
  using uint_writes by (simp add: KS_DATAPACKET_write_xdr_single_def KS_DATAPACKET_write_xdr_uint_def)

lemma double_writes [law]: "wlaw (KS_DATAPACKET_write_xdr_double (Some v)) (xdr_double v)"
  using written_append [of "xdr_double v"]
  by (simp add: KS_DATAPACKET_write_xdr_double_def split8_encoding flip: length_0_conv)

lemma fetch4: "rlaw (fetch 4 4) (xdr_uint v) (xdr_uint v)"
  using fetch_law [of "xdr_uint v" 4] by (simp add: rlaw_def)

lemma uint_reads [law]: "rlaw KS_DATAPACKET_read_xdr_uint (xdr_uint v) v"
  using rlaw_map [OF fetch4, of join4 v] by (simp add: KS_DATAPACKET_read_xdr_uint_def join4_encoding)

lemma int_reads [law]: "rlaw KS_DATAPACKET_read_xdr_int (xdr_uint v) v"
  using uint_reads by (simp add: KS_DATAPACKET_read_xdr_int_def KS_DATAPACKET_read_xdr_uint_def)

lemma single_reads [law]: "rlaw KS_DATAPACKET_read_xdr_single (xdr_uint v) v"
  using uint_reads by (simp add: KS_DATAPACKET_read_xdr_single_def KS_DATAPACKET_read_xdr_uint_def)

lemma double_reads [law]: "rlaw KS_DATAPACKET_read_xdr_double (xdr_double v) v"
proof -
  have "rlaw (fetch 8 8) (xdr_double v) (xdr_double v)"
    using fetch_law [of "xdr_double v" 8] by (simp add: rlaw_def)
  then show ?thesis
    using rlaw_map [of "fetch 8 8" "xdr_double v" "xdr_double v" join8]
    by (simp add: KS_DATAPACKET_read_xdr_double_def join8_encoding)
qed

section \<open>Strings and opaque data\<close>

text \<open>The longest string that still fits with its padding.\<close>

definition fits :: "nat \<Rightarrow> bool" where
  "fits n \<longleftrightarrow> n < 4294967288"

lemma fits_lengths:
  assumes "fits n"
  shows "unat (of_nat n :: OV_UINT) = n" "unat (padded (of_nat n)) = n + length (fill n)"
    and "unat (of_nat n + 1 :: OV_UINT) = n + 1" "unat (padded (of_nat n) + 4) = n + length (fill n) + 4"
proof -
  have f: "length (fill n) \<le> 3" by (rule length_fill)
  have n: "unat (of_nat k :: OV_UINT) = k" if "k < 4294967296" for k
    using that by (simp add: unat_of_nat)
  have p: "padded (of_nat n) = of_nat (n + length (fill n))"
    using assms padded_length [of n] by (simp add: fits_def)
  show "unat (of_nat n :: OV_UINT) = n"
    by (rule n) (use assms in \<open>simp add: fits_def\<close>)
  show "unat (padded (of_nat n)) = n + length (fill n)"
    unfolding p by (rule n) (use assms f in \<open>simp add: fits_def\<close>)
  show "unat (of_nat n + 1 :: OV_UINT) = n + 1"
    using n [of "n + 1"] assms by (simp add: fits_def add.commute)
  show "unat (padded (of_nat n) + 4) = n + length (fill n) + 4"
    using n [of "n + length (fill n) + 4"] assms f unfolding p by (simp add: fits_def)
qed

lemma counted_block_encoding:
  assumes "fits (length b)"
  shows "counted_block b (of_nat (length b)) = xdr_opaque b"
  using fits_lengths [OF assms] by (simp add: counted_block_def xdr_opaque_def fill_def flip: xdr_uint_shifts)

lemma c_string_bytes: "CHR 0x00 \<notin> set s \<Longrightarrow> c_string (bytes_of s) = s"
proof (induction s)
  case (Cons c s)
  have u: "unat (of_char c :: byte) = of_char c"
  proof -
    have "(of_char c :: byte) = of_nat (of_char c :: nat)" by (rule of_nat_of_char [symmetric])
    then show ?thesis using nat_of_char_less_256 [of c] by (simp only: unat_of_nat) simp
  qed
  have "(of_char c :: nat) \<noteq> of_char (CHR 0x00)"
    using Cons.prems by (metis of_char_eq_iff list.set_intros(1))
  then have "unat (of_char c :: byte) \<noteq> 0" unfolding u by simp
  then have "(of_char c :: byte) \<noteq> 0" by (metis unat_0)
  then show ?case using Cons u by (simp add: c_string_def bytes_of_def)
qed (simp add: c_string_def bytes_of_def)

lemma string_writes [law]:
  assumes "fits (length (content s))"
  shows "wlaw (KS_DATAPACKET_write_xdr_string s) (xdr_string s)"
proof (cases s)
  case None
  then show ?thesis
    using uint_writes [of 0] by (simp add: content_def KS_DATAPACKET_write_xdr_string_def xdr_string_def xdr_opaque_def bytes_of_def fill_def)
next
  case (Some cs)
  have f: "fits (length (bytes_of cs))" using assms by (simp add: content_def Some bytes_of_def)
  have "wlaw (xblock (padded (of_nat (length cs)) + 4) (length cs + 4)) []"
    using fits_lengths [OF f] by (intro xblock_wlaw) (simp add: bytes_of_def)
  from wlaw_bind [OF this written_append [of "xdr_opaque (bytes_of cs)"]]
  show ?thesis
    using counted_block_encoding [OF f] fits_lengths(1) [OF f]
    by (simp add: KS_DATAPACKET_write_xdr_string_def content_def Some xdr_string_def Let_def bytes_of_def xdr_opaque_def
        flip: length_0_conv)
qed

lemma body_reads:
  assumes "fits (length b)" "length b \<le> used" "used \<le> unat sz"
  shows "rlaw (xbind xguard (\<lambda>_. xbind (xblock sz used) (\<lambda>_.
      xbind (fetch (length b) (unat (padded (of_nat (length b))))) (\<lambda>c. xdone (f c))))) (b @ fill (length b)) (f b)"
proof -
  have "rlaw (fetch (length b) (unat (padded (of_nat (length b))))) (b @ fill (length b)) b"
    using fetch_law [of b] fits_lengths(2) [OF assms(1)] by (simp add: rlaw_def add.assoc)
  then have "rlaw (xbind (fetch (length b) (unat (padded (of_nat (length b))))) (\<lambda>c. xdone (f c))) (b @ fill (length b)) (f b)"
    by (rule rlaw_map)
  from rlaw_bind [OF xguard_law rlaw_bind [OF xblock_law [OF assms(3)] this]] show ?thesis by simp
qed

lemma string_reads [law]:
  assumes "fits (length (content s))" "CHR 0x00 \<notin> set (content s)"
    and "maxlen \<noteq> 0 \<Longrightarrow> length (content s) < unat maxlen"
  shows "rlaw (KS_DATAPACKET_read_xdr_string_tomemstack maxlen) (xdr_string s) (Some (content s))"
proof -
  define cs where "cs = content s"
  have f: "fits (length (bytes_of cs))" using assms(1) by (simp add: cs_def bytes_of_def)
  note l = fits_lengths [OF f]
  have m: "\<not> (maxlen \<noteq> 0 \<and> (of_nat (length (bytes_of cs)) :: OV_UINT) \<ge> maxlen)"
    using assms(3) l(1) by (auto simp: cs_def word_le_nat_alt bytes_of_def)
  have "rlaw (xbind xguard (\<lambda>_. xbind (xblock (of_nat (length (bytes_of cs)) + 1) (length (bytes_of cs) + 1)) (\<lambda>_.
      xbind (fetch (length (bytes_of cs)) (unat (padded (of_nat (length (bytes_of cs)))))) (\<lambda>c. xdone (Some (c_string c))))))
      (bytes_of cs @ fill (length (bytes_of cs))) (Some (c_string (bytes_of cs)))"
    using l(3) by (intro body_reads f) simp_all
  then have "rlaw (KS_DATAPACKET_read_xdr_string_tomemstack maxlen)
      (xdr_uint (of_nat (length (bytes_of cs))) @ bytes_of cs @ fill (length (bytes_of cs))) (Some (c_string (bytes_of cs)))"
    unfolding KS_DATAPACKET_read_xdr_string_tomemstack_def
    by (intro rlaw_bind [OF rlaw_if_failed [OF uint_reads]]) (use m l(1) in auto)
  then show ?thesis
    using c_string_bytes [of cs] assms(2) by (simp add: xdr_string_def xdr_opaque_def cs_def)
qed

lemma heap_string_same: "KS_DATAPACKET_read_xdr_string = KS_DATAPACKET_read_xdr_string_tomemstack"
  by (rule ext) (simp only: KS_DATAPACKET_read_xdr_string_def KS_DATAPACKET_read_xdr_string_tomemstack_def)

text \<open>Strings that the server can pass on: no terminator inside, and a length that a read without a
  limit, which compares with \<open>2^32 - 1\<close>, still admits.\<close>

definition string_ok :: "OV_STRING \<Rightarrow> bool" where
  "string_ok s \<longleftrightarrow> fits (length (content s)) \<and> CHR 0x00 \<notin> set (content s)"

lemma string_codes [law]:
  assumes "string_ok s"
  shows "wlaw (KS_DATAPACKET_write_xdr_string s) (xdr_string s)"
    and "rlaw KS_DATAPACKET_read_xdr_string_tomemstack_wolength (xdr_string s) (Some (content s))"
    and "rlaw KS_DATAPACKET_read_xdr_string_wolength (xdr_string s) (Some (content s))"
proof -
  have f: "fits (length (content s))" "CHR 0x00 \<notin> set (content s)" using assms by (simp_all add: string_ok_def)
  then show "wlaw (KS_DATAPACKET_write_xdr_string s) (xdr_string s)" by (intro string_writes)
  have "unat (NOT 0 :: OV_UINT) = 4294967295" by (simp add: unsigned_minus_1_eq_mask mask_eq_exp_minus_1)
  then have "length (content s) < unat (NOT 0 :: OV_UINT)" using f(1) by (simp add: fits_def)
  then have r: "rlaw (KS_DATAPACKET_read_xdr_string_tomemstack (NOT 0)) (xdr_string s) (Some (content s))"
    using f by (intro string_reads)
  then show "rlaw KS_DATAPACKET_read_xdr_string_tomemstack_wolength (xdr_string s) (Some (content s))"
    by (simp only: KS_DATAPACKET_read_xdr_string_tomemstack_wolength_def)
  from r show "rlaw KS_DATAPACKET_read_xdr_string_wolength (xdr_string s) (Some (content s))"
    by (simp only: KS_DATAPACKET_read_xdr_string_wolength_def heap_string_same)
qed

lemma opaque_writes [law]:
  assumes "fits (length b)"
  shows "wlaw (KS_DATAPACKET_write_xdr_opaque (Some b) (of_nat (length b))) (xdr_opaque b)"
proof -
  have "wlaw (xblock (padded (of_nat (length b)) + 4) (length b + 4)) []"
    using fits_lengths [OF assms] by (intro xblock_wlaw) simp
  from wlaw_bind [OF this written_append [of "xdr_opaque b"]]
  show ?thesis
    using counted_block_encoding [OF assms] fits_lengths(1) [OF assms]
    by (simp add: KS_DATAPACKET_write_xdr_opaque_def Let_def xdr_opaque_def flip: length_0_conv)
qed

lemma opaque_null_writes [law]: "wlaw (KS_DATAPACKET_write_xdr_opaque None n) (xdr_opaque [])"
  using uint_writes [of 0] by (simp add: KS_DATAPACKET_write_xdr_opaque_def xdr_opaque_def fill_def)

lemma opaque_reads [law]:
  assumes "fits (length b)" "maxlen \<noteq> 0 \<Longrightarrow> length b < unat maxlen"
  shows "rlaw (KS_DATAPACKET_read_xdr_opaque_tomemstack maxlen) (xdr_opaque b)
    (if b = [] then (None, 0) else (Some b, of_nat (length b)))"
proof -
  note l = fits_lengths [OF assms(1)]
  have z: "(of_nat (length b) :: OV_UINT) = 0 \<longleftrightarrow> b = []"
    using l(1) by auto
  have m: "\<not> (maxlen \<noteq> 0 \<and> (of_nat (length b) :: OV_UINT) \<ge> maxlen)"
    using assms(2) l(1) by (auto simp: word_le_nat_alt)
  have "rlaw (xbind xguard (\<lambda>_. xbind (xblock (of_nat (length b)) (length b)) (\<lambda>_.
      xbind (fetch (length b) (unat (padded (of_nat (length b))))) (\<lambda>c. xdone (Some c, of_nat (length b))))))
      (b @ fill (length b)) (Some b, of_nat (length b))"
    using l(1) by (intro body_reads assms(1)) simp_all
  then show ?thesis
    unfolding KS_DATAPACKET_read_xdr_opaque_tomemstack_def xdr_opaque_def
    by (intro rlaw_bind [OF rlaw_if_failed [OF uint_reads]])
      (use m l(1) z rlaw_done in \<open>auto simp: fill_def\<close>)
qed

lemma heap_opaque_same: "KS_DATAPACKET_read_xdr_opaque = KS_DATAPACKET_read_xdr_opaque_tomemstack"
  by (rule ext) (simp only: KS_DATAPACKET_read_xdr_opaque_def KS_DATAPACKET_read_xdr_opaque_tomemstack_def)

lemma fixed_opaque_codes:
  assumes "fits (length b)" "b \<noteq> []"
  shows "wlaw (KS_DATAPACKET_write_xdr_opaque_fixedlength (Some b) (of_nat (length b))) (b @ fill (length b))"
    and "rlaw (KS_DATAPACKET_read_xdr_opaque_fixedlength (of_nat (length b))) (b @ fill (length b)) b"
proof -
  note l = fits_lengths [OF assms(1)]
  have n: "length b < 4294967296" using assms(1) by (simp add: fits_def)
  have pad: "wlaw (xbind (xblock (padded (of_nat (length b))) (length b)) (\<lambda>_.
      ksbase_KSDATAPACKET_append (b @ fill (length b)))) (b @ fill (length b))"
    using wlaw_bind [OF xblock_wlaw written_append [of "b @ fill (length b)"], of "length b" "padded (of_nat (length b))"]
      l(2) assms(2) by simp
  show "wlaw (KS_DATAPACKET_write_xdr_opaque_fixedlength (Some b) (of_nat (length b))) (b @ fill (length b))"
  proof (cases "length b mod 4 = 0")
    case True
    then have "fill (length b) = []" by (simp add: fill_def)
    then show ?thesis
      using True of_nat_mod4 [OF n] l(1) written_append [OF assms(2)]
      by (simp add: KS_DATAPACKET_write_xdr_opaque_fixedlength_def)
  next
    case False
    have "replicate (length (fill (length b))) 0 = fill (length b)" by (simp add: fill_def)
    then show ?thesis
      using False of_nat_mod4 [OF n] l(1,2) pad
      by (simp add: KS_DATAPACKET_write_xdr_opaque_fixedlength_def)
  qed
  show "rlaw (KS_DATAPACKET_read_xdr_opaque_fixedlength (of_nat (length b))) (b @ fill (length b)) b"
    using fetch_law [of b] l by (simp add: rlaw_def KS_DATAPACKET_read_xdr_opaque_fixedlength_def add.assoc)
qed

section \<open>Arrays\<close>

lemma write_loop_law:
  "(\<And>x. x \<in> set xs \<Longrightarrow> wlaw (wr x) (enc x)) \<Longrightarrow> wlaw (write_loop wr xs) (concat (map enc xs))"
  by (induction xs) (auto intro: wlaw_done wlaw_bind)

lemma array_writes:
  "(\<And>x. x \<in> set xs \<Longrightarrow> wlaw (wr x) (enc x)) \<Longrightarrow> wlaw (KS_DATAPACKET_write_xdr_array wr xs) (xdr_array enc xs)"
  unfolding KS_DATAPACKET_write_xdr_array_def xdr_array_def by (intro wlaw_bind uint_writes write_loop_law)

lemma array_loop_law:
  assumes "\<And>x. x \<in> set xs \<Longrightarrow> rlaw rd (enc x) (dec x)" "(i + length xs) * es \<le> bytes"
  shows "rlaw (array_loop bytes es i (length xs) rd) (concat (map enc xs)) (map dec xs)"
  using assms
proof (induction xs arbitrary: i)
  case Nil
  then show ?case by (simp add: rlaw_done)
next
  case (Cons x xs)
  have "(i + 1) * es \<le> (i + length (x # xs)) * es" by (rule mult_le_mono1) simp
  then have "\<not> bytes < (i + 1) * es" using Cons.prems(2) by linarith
  moreover have "rlaw (array_loop bytes es (Suc i) (length xs) rd) (concat (map enc xs)) (map dec xs)"
    using Cons.prems by (intro Cons.IH) simp_all
  from rlaw_map [OF this, of "Cons (dec x)"]
  have "rlaw (xbind rd (\<lambda>a. xbind (array_loop bytes es (Suc i) (length xs) rd) (\<lambda>as. xdone (a # as))))
      (enc x @ concat (map enc xs)) (dec x # map dec xs)"
    using Cons.prems(1) by (intro rlaw_bind [of rd "enc x" "dec x"]) simp_all
  ultimately show ?case by simp
qed

definition block_ok :: "OV_UINT \<Rightarrow> nat \<Rightarrow> bool" where
  "block_ok elementSize n \<longleftrightarrow> n < 4294967296 \<and> n * unat elementSize < 4294967296"

lemma array_reads:
  assumes "\<And>x. x \<in> set xs \<Longrightarrow> rlaw rd (enc x) (dec x)" "block_ok es (length xs)"
  shows "rlaw (KS_DATAPACKET_read_xdr_array_tomemstack es rd) (xdr_array enc xs) (map dec xs)"
proof -
  have n: "unat (of_nat (length xs) :: OV_UINT) = length xs" using assms(2) by (simp add: unat_of_nat block_ok_def)
  have b: "unat (of_nat (length xs) * es :: OV_UINT) = length xs * unat es"
    using assms(2) n by (simp add: unat_word_ariths(2) block_ok_def)
  have "rlaw (array_loop (unat (of_nat (length xs) * es)) (unat es) 0 (length xs) rd) (concat (map enc xs)) (map dec xs)"
    using assms(1) by (intro array_loop_law) (simp_all add: b)
  from rlaw_bind [OF xblock_law this] show ?thesis
    unfolding KS_DATAPACKET_read_xdr_array_tomemstack_def xdr_array_def Let_def
    by (intro rlaw_bind [OF uint_reads]) (simp add: n)
qed

section \<open>Codecs\<close>

text \<open>A pair of routines that write and read values of a type. Every value that the routines admit is
  written as whole words of four bytes, and read back where its encoding stands. \<open>dec\<close> is the value
  that is read, which may be a normal form.\<close>

locale codec =
  fixes wr :: "'a \<Rightarrow> unit xdr" and rd :: "'b xdr" and enc :: "'a \<Rightarrow> byte list"
    and dec :: "'a \<Rightarrow> 'b" and ok :: "'a \<Rightarrow> bool"
  assumes writes: "ok a \<Longrightarrow> wlaw (wr a) (enc a)"
    and reads: "ok a \<Longrightarrow> rlaw rd (enc a) (dec a)"
    and aligned: "ok a \<Longrightarrow> 4 dvd length (enc a)"
begin

text \<open>What is written behind the bytes of a packet is read from there, and nothing before it changes.\<close>

lemma roundtrip:
  assumes "ok a" "length d + length (enc a) + length e < 4294967296" "enc a \<noteq> []"
  shows "wr a (written d) = XDone () (pkt (d @ enc a) 0) \<and>
    rd (pkt (d @ enc a @ e) (length d)) = XDone (dec a) (pkt (d @ enc a @ e) (length (d @ enc a)))"
  using assms writes [OF assms(1)] reads [OF assms(1)] stands_middle [of d "enc a" e]
  by (simp add: wlaw_def rlaw_def written_def)

lemma array_codec:
  assumes "ok_array = (\<lambda>xs. block_ok es (length xs) \<and> (\<forall>x\<in>set xs. ok x))"
  shows "codec (KS_DATAPACKET_write_xdr_array wr) (KS_DATAPACKET_read_xdr_array_tomemstack es rd)
    (xdr_array enc) (map dec) ok_array"
proof
  fix xs
  assume "ok_array xs"
  then have o: "block_ok es (length xs)" "\<And>x. x \<in> set xs \<Longrightarrow> ok x" using assms by auto
  show "wlaw (KS_DATAPACKET_write_xdr_array wr xs) (xdr_array enc xs)"
    using o(2) by (intro array_writes writes)
  show "rlaw (KS_DATAPACKET_read_xdr_array_tomemstack es rd) (xdr_array enc xs) (map dec xs)"
    using o by (intro array_reads reads)
  have "4 dvd length (concat (map enc xs))" using o(2) aligned by (induction xs) auto
  then show "4 dvd length (xdr_array enc xs)" by (simp add: xdr_array_def)
qed

end

end
