(* ===== verification/XdrValue.thy ===== *)
theory XdrValue
  imports XdrLaws
begin

text \<open>
  syslibs/comm/ksxdr/source/KSDATAPACKET_xdrhandling_ov_specific.c: times and values of variables
  in the external data representation. The sizes of C types are those of a 64-bit Unix system.
\<close>

section \<open>Times\<close>

definition KS_DATAPACKET_read_xdr_OV_TIME :: "OV_TIME xdr" where
  "KS_DATAPACKET_read_xdr_OV_TIME =
    xbind KS_DATAPACKET_read_xdr_uint (\<lambda>s. xbind KS_DATAPACKET_read_xdr_uint (\<lambda>u.
    xdone \<lparr>secs = s, usecs = u\<rparr>))"

definition KS_DATAPACKET_write_xdr_OV_TIME :: "OV_TIME \<Rightarrow> unit xdr" where
  "KS_DATAPACKET_write_xdr_OV_TIME ptime =
    xbind (KS_DATAPACKET_write_xdr_uint (Some (secs ptime))) (\<lambda>_.
    KS_DATAPACKET_write_xdr_uint (Some (usecs ptime)))"

definition KS_DATAPACKET_read_xdr_OV_TIME_SPAN :: "OV_TIME_SPAN xdr" where
  "KS_DATAPACKET_read_xdr_OV_TIME_SPAN =
    xbind KS_DATAPACKET_read_xdr_int (\<lambda>s. xbind KS_DATAPACKET_read_xdr_int (\<lambda>u.
    xdone \<lparr>span_secs = s, span_usecs = u\<rparr>))"

definition KS_DATAPACKET_write_xdr_OV_TIME_SPAN :: "OV_TIME_SPAN \<Rightarrow> unit xdr" where
  "KS_DATAPACKET_write_xdr_OV_TIME_SPAN ptimespan =
    xbind (KS_DATAPACKET_write_xdr_int (Some (span_secs ptimespan))) (\<lambda>_.
    KS_DATAPACKET_write_xdr_int (Some (span_usecs ptimespan)))"

section \<open>Values\<close>

definition OV_VT_VOID :: OV_UINT where "OV_VT_VOID = 0x00"
definition OV_VT_BOOL :: OV_UINT where "OV_VT_BOOL = 0x02"
definition OV_VT_INT :: OV_UINT where "OV_VT_INT = 0x10"
definition OV_VT_UINT :: OV_UINT where "OV_VT_UINT = 0x11"
definition OV_VT_SINGLE :: OV_UINT where "OV_VT_SINGLE = 0x20"
definition OV_VT_DOUBLE :: OV_UINT where "OV_VT_DOUBLE = 0x21"
definition OV_VT_STRING :: OV_UINT where "OV_VT_STRING = 0x30"
definition OV_VT_TIME :: OV_UINT where "OV_VT_TIME = 0x31"
definition OV_VT_TIME_SPAN :: OV_UINT where "OV_VT_TIME_SPAN = 0x32"
definition OV_VT_STATE :: OV_UINT where "OV_VT_STATE = 0x38"
definition OV_VT_STRUCT :: OV_UINT where "OV_VT_STRUCT = 0x40"
definition OV_VT_BYTE_VEC :: OV_UINT where "OV_VT_BYTE_VEC = 0x81"
definition OV_VT_BOOL_VEC :: OV_UINT where "OV_VT_BOOL_VEC = 0x82"
definition OV_VT_INT_VEC :: OV_UINT where "OV_VT_INT_VEC = 0x90"
definition OV_VT_UINT_VEC :: OV_UINT where "OV_VT_UINT_VEC = 0x91"
definition OV_VT_SINGLE_VEC :: OV_UINT where "OV_VT_SINGLE_VEC = 0xA0"
definition OV_VT_DOUBLE_VEC :: OV_UINT where "OV_VT_DOUBLE_VEC = 0xA1"
definition OV_VT_STRING_VEC :: OV_UINT where "OV_VT_STRING_VEC = 0xB0"
definition OV_VT_TIME_VEC :: OV_UINT where "OV_VT_TIME_VEC = 0xB1"
definition OV_VT_TIME_SPAN_VEC :: OV_UINT where "OV_VT_TIME_SPAN_VEC = 0xB2"
definition OV_VT_STATE_VEC :: OV_UINT where "OV_VT_STATE_VEC = 0xB8"
definition OV_VT_KSMASK :: OV_UINT where "OV_VT_KSMASK = 0x0000ffff"

lemmas vt_defs = OV_VT_VOID_def OV_VT_BOOL_def OV_VT_INT_def OV_VT_UINT_def OV_VT_SINGLE_def
  OV_VT_DOUBLE_def OV_VT_STRING_def OV_VT_TIME_def OV_VT_TIME_SPAN_def OV_VT_STATE_def
  OV_VT_STRUCT_def OV_VT_BYTE_VEC_def OV_VT_BOOL_VEC_def OV_VT_INT_VEC_def OV_VT_UINT_VEC_def
  OV_VT_SINGLE_VEC_def OV_VT_DOUBLE_VEC_def OV_VT_STRING_VEC_def OV_VT_TIME_VEC_def
  OV_VT_TIME_SPAN_VEC_def OV_VT_STATE_VEC_def

text \<open>The type of a value and the member of its union. A vector is the list of its elements, a
  structure that of its named elements.\<close>

datatype OV_VAR_VALUE = VAR OV_UINT VALUEUNION
and VALUEUNION =
    val_void
  | val_bool OV_INT
  | val_int OV_INT
  | val_uint OV_UINT
  | val_single OV_SINGLE
  | val_double OV_DOUBLE
  | val_string OV_STRING
  | val_time OV_TIME
  | val_time_span OV_TIME_SPAN
  | val_state OV_UINT
  | val_struct "(OV_STRING \<times> OV_VAR_VALUE) list"
  | val_byte_vec "byte list option" OV_UINT
  | val_bool_vec "OV_INT list"
  | val_int_vec "OV_INT list"
  | val_uint_vec "OV_UINT list"
  | val_single_vec "OV_SINGLE list"
  | val_double_vec "OV_DOUBLE list"
  | val_string_vec "OV_STRING list"
  | val_time_vec "OV_TIME list"
  | val_time_span_vec "OV_TIME_SPAN list"
  | val_state_vec "OV_UINT list"

type_synonym OV_NAMED_ELEMENT = "OV_STRING \<times> OV_VAR_VALUE"

definition KS_NAME_MAXLEN :: OV_UINT where "KS_NAME_MAXLEN = 255"

section \<open>Reading a value\<close>

definition KS_DATAPACKET_read_xdr_OV_NAMED_ELEMENT :: "OV_VAR_VALUE xdr \<Rightarrow> OV_NAMED_ELEMENT xdr" where
  "KS_DATAPACKET_read_xdr_OV_NAMED_ELEMENT read_value =
    xbind (KS_DATAPACKET_read_xdr_string_tomemstack KS_NAME_MAXLEN) (\<lambda>name.
    xbind read_value (\<lambda>value. xdone (name, value)))"

definition xmap :: "('a \<Rightarrow> 'b) \<Rightarrow> 'a xdr \<Rightarrow> 'b xdr" where
  "xmap f m = xbind m (\<lambda>a. xdone (f a))"

text \<open>The switch over the type; \<open>read_value\<close> reads the values of named elements.\<close>

definition read_union :: "OV_VAR_VALUE xdr \<Rightarrow> OV_UINT \<Rightarrow> VALUEUNION xdr" where
  "read_union read_value k =
    (if k = OV_VT_BOOL then xmap val_bool KS_DATAPACKET_read_xdr_int
     else if k = OV_VT_INT then xmap val_int KS_DATAPACKET_read_xdr_int
     else if k = OV_VT_STATE then xmap val_state KS_DATAPACKET_read_xdr_int
     else if k = OV_VT_UINT then xmap val_uint KS_DATAPACKET_read_xdr_uint
     else if k = OV_VT_SINGLE then xmap val_single KS_DATAPACKET_read_xdr_single
     else if k = OV_VT_DOUBLE then xmap val_double KS_DATAPACKET_read_xdr_double
     else if k = OV_VT_STRING then xmap val_string KS_DATAPACKET_read_xdr_string_tomemstack_wolength
     else if k = OV_VT_TIME then xmap val_time KS_DATAPACKET_read_xdr_OV_TIME
     else if k = OV_VT_TIME_SPAN then xmap val_time_span KS_DATAPACKET_read_xdr_OV_TIME_SPAN
     else if k = OV_VT_STRUCT then
       xmap val_struct (KS_DATAPACKET_read_xdr_array_tomemstack 32 (KS_DATAPACKET_read_xdr_OV_NAMED_ELEMENT read_value))
     else if k = OV_VT_BOOL_VEC then xmap val_bool_vec (KS_DATAPACKET_read_xdr_array_tomemstack 4 KS_DATAPACKET_read_xdr_int)
     else if k = OV_VT_INT_VEC then xmap val_int_vec (KS_DATAPACKET_read_xdr_array_tomemstack 4 KS_DATAPACKET_read_xdr_int)
     else if k = OV_VT_STATE_VEC then xmap val_state_vec (KS_DATAPACKET_read_xdr_array_tomemstack 4 KS_DATAPACKET_read_xdr_uint)
     else if k = OV_VT_UINT_VEC then xmap val_uint_vec (KS_DATAPACKET_read_xdr_array_tomemstack 4 KS_DATAPACKET_read_xdr_uint)
     else if k = OV_VT_SINGLE_VEC then xmap val_single_vec (KS_DATAPACKET_read_xdr_array_tomemstack 4 KS_DATAPACKET_read_xdr_single)
     else if k = OV_VT_DOUBLE_VEC then xmap val_double_vec (KS_DATAPACKET_read_xdr_array_tomemstack 8 KS_DATAPACKET_read_xdr_double)
     else if k = OV_VT_STRING_VEC then
       xmap val_string_vec (KS_DATAPACKET_read_xdr_array_tomemstack 8 KS_DATAPACKET_read_xdr_string_tomemstack_wolength)
     else if k = OV_VT_TIME_VEC then xmap val_time_vec (KS_DATAPACKET_read_xdr_array_tomemstack 8 KS_DATAPACKET_read_xdr_OV_TIME)
     else if k = OV_VT_TIME_SPAN_VEC then
       xmap val_time_span_vec (KS_DATAPACKET_read_xdr_array_tomemstack 8 KS_DATAPACKET_read_xdr_OV_TIME_SPAN)
     else if k = OV_VT_VOID then xdone val_void
     else if k = OV_VT_BYTE_VEC then
       xmap (\<lambda>(v, len). val_byte_vec v len) (KS_DATAPACKET_read_xdr_opaque_tomemstack (NOT 0))
     else xfail OV_ERR_BADTYPE)"

text \<open>The recursion goes as deep as the data that arrive tell it; \<open>n\<close> is the depth that the stack
  admits.\<close>

primrec KS_DATAPACKET_read_xdr_OV_VAR_VALUE :: "nat \<Rightarrow> OV_VAR_VALUE xdr" where
  "KS_DATAPACKET_read_xdr_OV_VAR_VALUE 0 = (\<lambda>s. XTooDeep)"
| "KS_DATAPACKET_read_xdr_OV_VAR_VALUE (Suc n) =
    xbind KS_DATAPACKET_read_xdr_int (\<lambda>vartype.
    xmap (VAR vartype) (read_union (KS_DATAPACKET_read_xdr_OV_VAR_VALUE n) (vartype AND OV_VT_KSMASK)))"

section \<open>Writing a value\<close>

definition known_types :: "OV_UINT list" where
  "known_types = [OV_VT_BOOL, OV_VT_INT, OV_VT_STATE, OV_VT_UINT, OV_VT_SINGLE, OV_VT_DOUBLE, OV_VT_STRING,
     OV_VT_TIME, OV_VT_TIME_SPAN, OV_VT_STRUCT, OV_VT_BOOL_VEC, OV_VT_INT_VEC, OV_VT_STATE_VEC, OV_VT_UINT_VEC,
     OV_VT_SINGLE_VEC, OV_VT_DOUBLE_VEC, OV_VT_STRING_VEC, OV_VT_TIME_VEC, OV_VT_TIME_SPAN_VEC, OV_VT_BYTE_VEC]"

text \<open>The type is not that of the member: another case of the switch, which reads another member of the
  union, nothing for \<open>VOID\<close>, or the default.\<close>

definition other_case :: "OV_UINT \<Rightarrow> unit xdr" where
  "other_case k = (if k = OV_VT_VOID then xdone () else if k \<in> set known_types then xundefined else xfail OV_ERR_BADTYPE)"

lemma write_loop_cong:
  assumes "\<And>x. x \<in> set xs \<Longrightarrow> f x = g x"
  shows "write_loop f xs = write_loop g xs"
  using assms by (induction xs) auto

lemma write_array_cong [fundef_cong]:
  assumes "xs = ys" "\<And>x. x \<in> set ys \<Longrightarrow> f x = g x"
  shows "KS_DATAPACKET_write_xdr_array f xs = KS_DATAPACKET_write_xdr_array g ys"
  using write_loop_cong [of ys f g] assms by (simp add: KS_DATAPACKET_write_xdr_array_def)

fun KS_DATAPACKET_write_xdr_OV_VAR_VALUE :: "OV_VAR_VALUE \<Rightarrow> unit xdr"
  and write_union :: "OV_UINT \<Rightarrow> VALUEUNION \<Rightarrow> unit xdr"
  and KS_DATAPACKET_write_xdr_OV_NAMED_ELEMENT :: "OV_NAMED_ELEMENT \<Rightarrow> unit xdr" where
  "KS_DATAPACKET_write_xdr_OV_VAR_VALUE (VAR t u) =
    (let temptype = t AND OV_VT_KSMASK
     in xbind (KS_DATAPACKET_write_xdr_int (Some temptype)) (\<lambda>_. write_union (t AND temptype) u))"
| "write_union k val_void = other_case k"
| "write_union k (val_bool v) = (if k = OV_VT_BOOL then KS_DATAPACKET_write_xdr_int (Some v) else other_case k)"
| "write_union k (val_int v) = (if k = OV_VT_INT then KS_DATAPACKET_write_xdr_int (Some v) else other_case k)"
| "write_union k (val_state v) = (if k = OV_VT_STATE then KS_DATAPACKET_write_xdr_int (Some v) else other_case k)"
| "write_union k (val_uint v) = (if k = OV_VT_UINT then KS_DATAPACKET_write_xdr_uint (Some v) else other_case k)"
| "write_union k (val_single v) = (if k = OV_VT_SINGLE then KS_DATAPACKET_write_xdr_single (Some v) else other_case k)"
| "write_union k (val_double v) = (if k = OV_VT_DOUBLE then KS_DATAPACKET_write_xdr_double (Some v) else other_case k)"
| "write_union k (val_string v) = (if k = OV_VT_STRING then KS_DATAPACKET_write_xdr_string v else other_case k)"
| "write_union k (val_time v) = (if k = OV_VT_TIME then KS_DATAPACKET_write_xdr_OV_TIME v else other_case k)"
| "write_union k (val_time_span v) =
    (if k = OV_VT_TIME_SPAN then KS_DATAPACKET_write_xdr_OV_TIME_SPAN v else other_case k)"
| "write_union k (val_struct es) =
    (if k = OV_VT_STRUCT then KS_DATAPACKET_write_xdr_array KS_DATAPACKET_write_xdr_OV_NAMED_ELEMENT es else other_case k)"
| "write_union k (val_bool_vec v) =
    (if k = OV_VT_BOOL_VEC then KS_DATAPACKET_write_xdr_array (\<lambda>x. KS_DATAPACKET_write_xdr_int (Some x)) v else other_case k)"
| "write_union k (val_int_vec v) =
    (if k = OV_VT_INT_VEC then KS_DATAPACKET_write_xdr_array (\<lambda>x. KS_DATAPACKET_write_xdr_int (Some x)) v else other_case k)"
| "write_union k (val_state_vec v) =
    (if k = OV_VT_STATE_VEC then KS_DATAPACKET_write_xdr_array (\<lambda>x. KS_DATAPACKET_write_xdr_uint (Some x)) v else other_case k)"
| "write_union k (val_uint_vec v) =
    (if k = OV_VT_UINT_VEC then KS_DATAPACKET_write_xdr_array (\<lambda>x. KS_DATAPACKET_write_xdr_uint (Some x)) v else other_case k)"
| "write_union k (val_single_vec v) =
    (if k = OV_VT_SINGLE_VEC then KS_DATAPACKET_write_xdr_array (\<lambda>x. KS_DATAPACKET_write_xdr_single (Some x)) v else other_case k)"
| "write_union k (val_double_vec v) =
    (if k = OV_VT_DOUBLE_VEC then KS_DATAPACKET_write_xdr_array (\<lambda>x. KS_DATAPACKET_write_xdr_double (Some x)) v else other_case k)"
| "write_union k (val_string_vec v) =
    (if k = OV_VT_STRING_VEC then KS_DATAPACKET_write_xdr_array KS_DATAPACKET_write_xdr_string v else other_case k)"
| "write_union k (val_time_vec v) =
    (if k = OV_VT_TIME_VEC then KS_DATAPACKET_write_xdr_array KS_DATAPACKET_write_xdr_OV_TIME v else other_case k)"
| "write_union k (val_time_span_vec v) =
    (if k = OV_VT_TIME_SPAN_VEC then KS_DATAPACKET_write_xdr_array KS_DATAPACKET_write_xdr_OV_TIME_SPAN v else other_case k)"
| "write_union k (val_byte_vec v len) =
    (if k = OV_VT_BYTE_VEC then KS_DATAPACKET_write_xdr_opaque v len else other_case k)"
| "KS_DATAPACKET_write_xdr_OV_NAMED_ELEMENT (name, value) =
    (case name of
       None \<Rightarrow> xundefined
     | Some s \<Rightarrow>
         if length s > unat KS_NAME_MAXLEN then xfail OV_ERR_BADVALUE
         else xbind (KS_DATAPACKET_write_xdr_string name) (\<lambda>_. KS_DATAPACKET_write_xdr_OV_VAR_VALUE value))"

end
