(* ===== verification/XdrItems.thy ===== *)
theory XdrItems
  imports XdrValue OvAssociation
begin

text \<open>
  syslibs/comm: the data of the services of ACPLT/KS (ksbase/include/ov_ksserver_backend.h) and their
  routines in the external data representation (ksxdr/source/ksxdr_getVar.c and its siblings,
  KSDATAPACKET_xdrhandling_ov_specific.c). An array with its length is a list; enumerations are read
  and written as integers.
\<close>

section \<open>Variables\<close>

definition KS_OT_DOMAIN :: OV_UINT where "KS_OT_DOMAIN = 0x0001"
definition KS_OT_VARIABLE :: OV_UINT where "KS_OT_VARIABLE = 0x0002"
definition KS_OT_HISTORY :: OV_UINT where "KS_OT_HISTORY = 0x0004"
definition KS_OT_LINK :: OV_UINT where "KS_OT_LINK = 0x0008"

lemmas ot_defs = KS_OT_DOMAIN_def KS_OT_VARIABLE_def KS_OT_HISTORY_def KS_OT_LINK_def

record OV_VAR_CURRENT_PROPS =
  cp_value :: OV_VAR_VALUE
  cp_time :: OV_TIME
  cp_state :: OV_UINT

definition xdr_read_OV_VAR_CURRENT_PROPS :: "nat \<Rightarrow> OV_VAR_CURRENT_PROPS xdr" where
  "xdr_read_OV_VAR_CURRENT_PROPS n =
    xbind (KS_DATAPACKET_read_xdr_OV_VAR_VALUE n) (\<lambda>v.
    xbind KS_DATAPACKET_read_xdr_OV_TIME (\<lambda>t.
    xbind KS_DATAPACKET_read_xdr_int (\<lambda>st.
    xdone \<lparr>cp_value = v, cp_time = t, cp_state = st\<rparr>)))"

definition xdr_write_OV_VAR_CURRENT_PROPS :: "OV_VAR_CURRENT_PROPS \<Rightarrow> unit xdr" where
  "xdr_write_OV_VAR_CURRENT_PROPS p =
    xbind (KS_DATAPACKET_write_xdr_OV_VAR_VALUE (cp_value p)) (\<lambda>_.
    xbind (KS_DATAPACKET_write_xdr_OV_TIME (cp_time p)) (\<lambda>_.
    KS_DATAPACKET_write_xdr_int (Some (cp_state p))))"

record OV_SETVAR_ITEM =
  path_and_name :: OV_STRING
  set_props :: OV_VAR_CURRENT_PROPS

definition xdr_read_OV_SETVAR_ITEM :: "nat \<Rightarrow> OV_SETVAR_ITEM xdr" where
  "xdr_read_OV_SETVAR_ITEM n =
    xbind KS_DATAPACKET_read_xdr_string_tomemstack_wolength (\<lambda>path.
    xbind KS_DATAPACKET_read_xdr_int (\<lambda>objtype.
    if objtype \<noteq> KS_OT_VARIABLE then xfail OV_ERR_BADOBJTYPE
    else xbind (xdr_read_OV_VAR_CURRENT_PROPS n) (\<lambda>p. xdone \<lparr>path_and_name = path, set_props = p\<rparr>)))"

definition xdr_write_OV_SETVAR_ITEM :: "OV_SETVAR_ITEM \<Rightarrow> unit xdr" where
  "xdr_write_OV_SETVAR_ITEM item =
    xbind (KS_DATAPACKET_write_xdr_string (path_and_name item)) (\<lambda>_.
    xbind (KS_DATAPACKET_write_xdr_int (Some KS_OT_VARIABLE)) (\<lambda>_.
    xdr_write_OV_VAR_CURRENT_PROPS (set_props item)))"

text \<open>The result of reading a variable; the properties exist only when it is \<open>OV_ERR_OK\<close>.\<close>

datatype OV_GETVAR_ITEM = got_failure OV_UINT | got_var OV_VAR_CURRENT_PROPS

definition xdr_read_OV_GETVAR_ITEM :: "nat \<Rightarrow> OV_GETVAR_ITEM xdr" where
  "xdr_read_OV_GETVAR_ITEM n =
    xbind KS_DATAPACKET_read_xdr_int (\<lambda>result.
    if result = 0 then
      xbind KS_DATAPACKET_read_xdr_int (\<lambda>objtype.
      if objtype \<noteq> KS_OT_VARIABLE then xfail OV_ERR_BADOBJTYPE
      else xmap got_var (xdr_read_OV_VAR_CURRENT_PROPS n))
    else xdone (got_failure result))"

definition xdr_write_OV_GETVAR_ITEM :: "OV_GETVAR_ITEM \<Rightarrow> unit xdr" where
  "xdr_write_OV_GETVAR_ITEM item =
    (case item of
       got_failure result \<Rightarrow>
         xbind (KS_DATAPACKET_write_xdr_int (Some result)) (\<lambda>_. if result = 0 then xundefined else xdone ())
     | got_var p \<Rightarrow>
         xbind (KS_DATAPACKET_write_xdr_int (Some 0)) (\<lambda>_.
         xbind (KS_DATAPACKET_write_xdr_int (Some KS_OT_VARIABLE)) (\<lambda>_.
         xdr_write_OV_VAR_CURRENT_PROPS p)))"

section \<open>Placements and links\<close>

fun hint_code :: "OV_PLACEMENT_HINT \<Rightarrow> OV_UINT" where
  "hint_code OV_PMH_DEFAULT = 0"
| "hint_code OV_PMH_BEGIN = 1"
| "hint_code OV_PMH_END = 2"
| "hint_code OV_PMH_BEFORE = 3"
| "hint_code OV_PMH_AFTER = 4"
| "hint_code (OV_PMH_OTHER c) = c"

definition hint_of_code :: "OV_UINT \<Rightarrow> OV_PLACEMENT_HINT" where
  "hint_of_code c =
    (if c = 0 then OV_PMH_DEFAULT else if c = 1 then OV_PMH_BEGIN else if c = 2 then OV_PMH_END
     else if c = 3 then OV_PMH_BEFORE else if c = 4 then OV_PMH_AFTER else OV_PMH_OTHER c)"

text \<open>The path is set for \<open>OV_PMH_BEFORE\<close> and \<open>OV_PMH_AFTER\<close> only; otherwise the reader leaves it as the
  memory stack held it, and no one may use it.\<close>

record OV_PLACEMENT =
  pl_hint :: OV_PLACEMENT_HINT
  pl_path :: OV_STRING

definition xdr_read_OV_PLACEMENT :: "OV_PLACEMENT xdr" where
  "xdr_read_OV_PLACEMENT =
    xbind KS_DATAPACKET_read_xdr_int (\<lambda>c.
    let hint = hint_of_code c
    in if hint = OV_PMH_BEFORE \<or> hint = OV_PMH_AFTER then
         xbind KS_DATAPACKET_read_xdr_string_tomemstack_wolength (\<lambda>path. xdone \<lparr>pl_hint = hint, pl_path = path\<rparr>)
       else xdone \<lparr>pl_hint = hint, pl_path = None\<rparr>)"

definition xdr_write_OV_PLACEMENT :: "OV_PLACEMENT \<Rightarrow> unit xdr" where
  "xdr_write_OV_PLACEMENT p =
    xbind (KS_DATAPACKET_write_xdr_int (Some (hint_code (pl_hint p)))) (\<lambda>_.
    if pl_hint p = OV_PMH_BEFORE \<or> pl_hint p = OV_PMH_AFTER then KS_DATAPACKET_write_xdr_string (pl_path p)
    else xdone ())"

record OV_LINK_ITEM =
  li_link_path :: OV_STRING
  li_element_path :: OV_STRING
  li_place :: OV_PLACEMENT
  li_opposite_place :: OV_PLACEMENT

definition xdr_read_OV_LINK_ITEM :: "OV_LINK_ITEM xdr" where
  "xdr_read_OV_LINK_ITEM =
    xbind KS_DATAPACKET_read_xdr_string_tomemstack_wolength (\<lambda>l.
    xbind KS_DATAPACKET_read_xdr_string_tomemstack_wolength (\<lambda>e.
    xbind xdr_read_OV_PLACEMENT (\<lambda>p.
    xbind xdr_read_OV_PLACEMENT (\<lambda>q.
    xdone \<lparr>li_link_path = l, li_element_path = e, li_place = p, li_opposite_place = q\<rparr>))))"

definition xdr_write_OV_LINK_ITEM :: "OV_LINK_ITEM \<Rightarrow> unit xdr" where
  "xdr_write_OV_LINK_ITEM item =
    xbind (KS_DATAPACKET_write_xdr_string (li_link_path item)) (\<lambda>_.
    xbind (KS_DATAPACKET_write_xdr_string (li_element_path item)) (\<lambda>_.
    xbind (xdr_write_OV_PLACEMENT (li_place item)) (\<lambda>_.
    xdr_write_OV_PLACEMENT (li_opposite_place item))))"

record OV_UNLINK_ITEM =
  ui_link_path :: OV_STRING
  ui_element_path :: OV_STRING

definition xdr_read_OV_UNLINK_ITEM :: "OV_UNLINK_ITEM xdr" where
  "xdr_read_OV_UNLINK_ITEM =
    xbind KS_DATAPACKET_read_xdr_string_tomemstack_wolength (\<lambda>l.
    xbind KS_DATAPACKET_read_xdr_string_tomemstack_wolength (\<lambda>e.
    xdone \<lparr>ui_link_path = l, ui_element_path = e\<rparr>))"

definition xdr_write_OV_UNLINK_ITEM :: "OV_UNLINK_ITEM \<Rightarrow> unit xdr" where
  "xdr_write_OV_UNLINK_ITEM item =
    xbind (KS_DATAPACKET_write_xdr_string (ui_link_path item)) (\<lambda>_.
    KS_DATAPACKET_write_xdr_string (ui_element_path item))"

section \<open>Objects\<close>

record OV_RENAMEOBJECT_ITEM =
  ri_old_path :: OV_STRING
  ri_new_path :: OV_STRING
  ri_place :: OV_PLACEMENT

definition xdr_read_OV_RENAMEOBJECT_ITEM :: "OV_RENAMEOBJECT_ITEM xdr" where
  "xdr_read_OV_RENAMEOBJECT_ITEM =
    xbind KS_DATAPACKET_read_xdr_string_tomemstack_wolength (\<lambda>old.
    xbind KS_DATAPACKET_read_xdr_string_tomemstack_wolength (\<lambda>new.
    xbind xdr_read_OV_PLACEMENT (\<lambda>p.
    xdone \<lparr>ri_old_path = old, ri_new_path = new, ri_place = p\<rparr>)))"

definition xdr_write_OV_RENAMEOBJECT_ITEM :: "OV_RENAMEOBJECT_ITEM \<Rightarrow> unit xdr" where
  "xdr_write_OV_RENAMEOBJECT_ITEM item =
    xbind (KS_DATAPACKET_write_xdr_string (ri_old_path item)) (\<lambda>_.
    xbind (KS_DATAPACKET_write_xdr_string (ri_new_path item)) (\<lambda>_.
    xdr_write_OV_PLACEMENT (ri_place item)))"

record OV_CREATEOBJ_ITEM =
  co_factory_path :: OV_STRING
  co_new_path :: OV_STRING
  co_place :: OV_PLACEMENT
  co_parameters :: "OV_SETVAR_ITEM list"
  co_links :: "OV_LINK_ITEM list"

text \<open>The loops over parameters and links are those of the routines for arrays, written out.\<close>

definition xdr_read_OV_CREATEOBJ_ITEM :: "nat \<Rightarrow> OV_CREATEOBJ_ITEM xdr" where
  "xdr_read_OV_CREATEOBJ_ITEM n =
    xbind KS_DATAPACKET_read_xdr_string_tomemstack_wolength (\<lambda>factory.
    xbind KS_DATAPACKET_read_xdr_string_tomemstack_wolength (\<lambda>new.
    xbind xdr_read_OV_PLACEMENT (\<lambda>p.
    xbind (KS_DATAPACKET_read_xdr_array_tomemstack 48 (xdr_read_OV_SETVAR_ITEM n)) (\<lambda>ps.
    xbind (KS_DATAPACKET_read_xdr_array_tomemstack 48 xdr_read_OV_LINK_ITEM) (\<lambda>ls.
    xdone \<lparr>co_factory_path = factory, co_new_path = new, co_place = p, co_parameters = ps, co_links = ls\<rparr>)))))"

definition xdr_write_OV_CREATEOBJ_ITEM :: "OV_CREATEOBJ_ITEM \<Rightarrow> unit xdr" where
  "xdr_write_OV_CREATEOBJ_ITEM item =
    xbind (KS_DATAPACKET_write_xdr_string (co_factory_path item)) (\<lambda>_.
    xbind (KS_DATAPACKET_write_xdr_string (co_new_path item)) (\<lambda>_.
    xbind (xdr_write_OV_PLACEMENT (co_place item)) (\<lambda>_.
    xbind (KS_DATAPACKET_write_xdr_array xdr_write_OV_SETVAR_ITEM (co_parameters item)) (\<lambda>_.
    KS_DATAPACKET_write_xdr_array xdr_write_OV_LINK_ITEM (co_links item)))))"

definition write_results :: "OV_UINT list \<Rightarrow> unit xdr" where
  "write_results rs = KS_DATAPACKET_write_xdr_array (\<lambda>r. KS_DATAPACKET_write_xdr_int (Some r)) rs"

text \<open>The results of the parameters and of the links exist only when the result is
  \<open>OV_ERR_BADINITPARAM\<close>.\<close>

datatype OV_CREATEOBJECTITEM_RES = created OV_UINT | bad_init "OV_UINT list" "OV_UINT list"

definition xdr_read_OV_CREATEOBJECTITEM_RES :: "OV_CREATEOBJECTITEM_RES xdr" where
  "xdr_read_OV_CREATEOBJECTITEM_RES =
    xbind KS_DATAPACKET_read_xdr_int (\<lambda>result.
    if result = 0x32 then
      xbind (KS_DATAPACKET_read_xdr_array_tomemstack 4 KS_DATAPACKET_read_xdr_int) (\<lambda>ps.
      xbind (KS_DATAPACKET_read_xdr_array_tomemstack 4 KS_DATAPACKET_read_xdr_int) (\<lambda>ls.
      xdone (bad_init ps ls)))
    else xdone (created result))"

definition xdr_write_OV_CREATEOBJECTITEM_RES :: "OV_CREATEOBJECTITEM_RES \<Rightarrow> unit xdr" where
  "xdr_write_OV_CREATEOBJECTITEM_RES item =
    (case item of
       created result \<Rightarrow>
         xbind (KS_DATAPACKET_write_xdr_int (Some result)) (\<lambda>_. if result = 0x32 then xundefined else xdone ())
     | bad_init ps ls \<Rightarrow>
         xbind (KS_DATAPACKET_write_xdr_int (Some 0x32)) (\<lambda>_.
         xbind (write_results ps) (\<lambda>_. write_results ls)))"

datatype OV_GETCANONICALPATHITEM_RES = no_path OV_UINT | canonical_path OV_STRING

definition xdr_write_OV_GETCANONICALPATHITEM :: "OV_GETCANONICALPATHITEM_RES \<Rightarrow> unit xdr" where
  "xdr_write_OV_GETCANONICALPATHITEM item =
    (case item of
       no_path result \<Rightarrow>
         xbind (KS_DATAPACKET_write_xdr_int (Some result)) (\<lambda>_. if result = 0 then xundefined else xdone ())
     | canonical_path path \<Rightarrow>
         xbind (KS_DATAPACKET_write_xdr_int (Some 0)) (\<lambda>_. KS_DATAPACKET_write_xdr_string path))"

section \<open>Engineered and projected properties\<close>

definition KS_TECHUNIT_MAXLEN :: OV_UINT where "KS_TECHUNIT_MAXLEN = 63"
definition KS_COMMENT_MAXLEN :: OV_UINT where "KS_COMMENT_MAXLEN = 4095"

text \<open>\<open>if(s && strlen(s) > max) return OV_ERR_BADVALUE;\<close> and then the string.\<close>

definition write_limited :: "OV_UINT \<Rightarrow> OV_STRING \<Rightarrow> unit xdr" where
  "write_limited maxlen s =
    (case s of
       Some cs \<Rightarrow> if length cs > unat maxlen then xfail OV_ERR_BADVALUE else KS_DATAPACKET_write_xdr_string s
     | None \<Rightarrow> KS_DATAPACKET_write_xdr_string s)"

record OV_VAR_PROPS =
  vp_tech_unit :: OV_STRING
  vp_vartype :: OV_UINT

record OV_LINK_PROPS =
  lp_linktype :: OV_UINT
  lp_opposite_role_identifier :: OV_STRING
  lp_association_identifier :: OV_STRING

record OV_HISTORY_ENGINEERED_PROPS =
  hp_historytype :: OV_UINT
  hp_default_interpolation :: OV_UINT
  hp_supported_interpolation :: OV_UINT
  hp_type_identifier :: OV_STRING

definition xdr_read_OV_HISTORY_ENGINEERED_PROPS :: "OV_HISTORY_ENGINEERED_PROPS xdr" where
  "xdr_read_OV_HISTORY_ENGINEERED_PROPS =
    xbind KS_DATAPACKET_read_xdr_int (\<lambda>h.
    xbind KS_DATAPACKET_read_xdr_int (\<lambda>d.
    xbind KS_DATAPACKET_read_xdr_int (\<lambda>i.
    xbind KS_DATAPACKET_read_xdr_string_tomemstack_wolength (\<lambda>t.
    xdone \<lparr>hp_historytype = h, hp_default_interpolation = d, hp_supported_interpolation = i, hp_type_identifier = t\<rparr>))))"

definition xdr_write_OV_HISTORY_ENGINEERED_PROPS :: "OV_HISTORY_ENGINEERED_PROPS \<Rightarrow> unit xdr" where
  "xdr_write_OV_HISTORY_ENGINEERED_PROPS p =
    xbind (KS_DATAPACKET_write_xdr_int (Some (hp_historytype p))) (\<lambda>_.
    xbind (KS_DATAPACKET_write_xdr_int (Some (hp_default_interpolation p))) (\<lambda>_.
    xbind (KS_DATAPACKET_write_xdr_int (Some (hp_supported_interpolation p))) (\<lambda>_.
    KS_DATAPACKET_write_xdr_string (hp_type_identifier p))))"

definition xdr_read_OV_VAR_ENGINEERED_PROPS :: "OV_VAR_PROPS xdr" where
  "xdr_read_OV_VAR_ENGINEERED_PROPS =
    xbind (KS_DATAPACKET_read_xdr_string_tomemstack KS_TECHUNIT_MAXLEN) (\<lambda>u.
    xbind KS_DATAPACKET_read_xdr_int (\<lambda>t. xdone \<lparr>vp_tech_unit = u, vp_vartype = t\<rparr>))"

definition xdr_write_OV_VAR_ENGINEERED_PROPS :: "OV_VAR_PROPS \<Rightarrow> unit xdr" where
  "xdr_write_OV_VAR_ENGINEERED_PROPS p =
    xbind (write_limited KS_TECHUNIT_MAXLEN (vp_tech_unit p)) (\<lambda>_. KS_DATAPACKET_write_xdr_int (Some (vp_vartype p)))"

definition xdr_read_OV_LINK_ENGINEERED_PROPS :: "OV_LINK_PROPS xdr" where
  "xdr_read_OV_LINK_ENGINEERED_PROPS =
    xbind KS_DATAPACKET_read_xdr_int (\<lambda>t.
    xbind KS_DATAPACKET_read_xdr_string_tomemstack_wolength (\<lambda>r.
    xbind KS_DATAPACKET_read_xdr_string_tomemstack_wolength (\<lambda>a.
    xdone \<lparr>lp_linktype = t, lp_opposite_role_identifier = r, lp_association_identifier = a\<rparr>)))"

definition xdr_write_OV_LINK_ENGINEERED_PROPS :: "OV_LINK_PROPS \<Rightarrow> unit xdr" where
  "xdr_write_OV_LINK_ENGINEERED_PROPS p =
    xbind (KS_DATAPACKET_write_xdr_int (Some (lp_linktype p))) (\<lambda>_.
    xbind (KS_DATAPACKET_write_xdr_string (lp_opposite_role_identifier p)) (\<lambda>_.
    KS_DATAPACKET_write_xdr_string (lp_association_identifier p)))"

text \<open>The member of the union that the type of the object names. Types without a member write none.\<close>

datatype ENGINEERED_PROPS_U =
    no_props
  | history_props OV_HISTORY_ENGINEERED_PROPS
  | domain_props OV_STRING
  | var_props OV_VAR_PROPS
  | link_props OV_LINK_PROPS

record OV_OBJ_ENGINEERED_PROPS =
  ep_objtype :: OV_UINT
  ep_u :: ENGINEERED_PROPS_U
  ep_identifier :: OV_STRING
  ep_creation_time :: OV_TIME
  ep_comment :: OV_STRING
  ep_access :: OV_UINT
  ep_semantic_flags :: OV_UINT

definition read_engineered_u :: "OV_UINT \<Rightarrow> ENGINEERED_PROPS_U xdr" where
  "read_engineered_u objtype =
    (if objtype = KS_OT_HISTORY then xmap history_props xdr_read_OV_HISTORY_ENGINEERED_PROPS
     else if objtype = KS_OT_DOMAIN then xmap domain_props KS_DATAPACKET_read_xdr_string_tomemstack_wolength
     else if objtype = KS_OT_VARIABLE then xmap var_props xdr_read_OV_VAR_ENGINEERED_PROPS
     else if objtype = KS_OT_LINK then xmap link_props xdr_read_OV_LINK_ENGINEERED_PROPS
     else xdone no_props)"

definition xdr_read_OV_OBJ_ENGINEERED_PROPS :: "OV_OBJ_ENGINEERED_PROPS xdr" where
  "xdr_read_OV_OBJ_ENGINEERED_PROPS =
    xbind KS_DATAPACKET_read_xdr_int (\<lambda>objtype.
    xbind (read_engineered_u objtype) (\<lambda>u.
    xbind (KS_DATAPACKET_read_xdr_string_tomemstack KS_NAME_MAXLEN) (\<lambda>name.
    xbind KS_DATAPACKET_read_xdr_OV_TIME (\<lambda>t.
    xbind (KS_DATAPACKET_read_xdr_string_tomemstack KS_COMMENT_MAXLEN) (\<lambda>c.
    xbind KS_DATAPACKET_read_xdr_int (\<lambda>a.
    xbind KS_DATAPACKET_read_xdr_uint (\<lambda>f.
    xdone \<lparr>ep_objtype = objtype, ep_u = u, ep_identifier = name, ep_creation_time = t, ep_comment = c,
      ep_access = a, ep_semantic_flags = f\<rparr>)))))))"

text \<open>The type is not that of the member: the case of another member, or the default.\<close>

definition other_props :: "OV_UINT set \<Rightarrow> OV_UINT \<Rightarrow> unit xdr" where
  "other_props known objtype = (if objtype \<in> known then xundefined else xdone ())"

definition write_engineered_u :: "OV_UINT \<Rightarrow> ENGINEERED_PROPS_U \<Rightarrow> unit xdr" where
  "write_engineered_u objtype u =
    (let other = other_props {KS_OT_HISTORY, KS_OT_DOMAIN, KS_OT_VARIABLE, KS_OT_LINK} objtype
     in case u of
       history_props p \<Rightarrow> if objtype = KS_OT_HISTORY then xdr_write_OV_HISTORY_ENGINEERED_PROPS p else other
     | domain_props s \<Rightarrow> if objtype = KS_OT_DOMAIN then KS_DATAPACKET_write_xdr_string s else other
     | var_props p \<Rightarrow> if objtype = KS_OT_VARIABLE then xdr_write_OV_VAR_ENGINEERED_PROPS p else other
     | link_props p \<Rightarrow> if objtype = KS_OT_LINK then xdr_write_OV_LINK_ENGINEERED_PROPS p else other
     | no_props \<Rightarrow> other)"

definition xdr_write_OV_OBJ_ENGINEERED_PROPS :: "OV_OBJ_ENGINEERED_PROPS \<Rightarrow> unit xdr" where
  "xdr_write_OV_OBJ_ENGINEERED_PROPS p =
    xbind (KS_DATAPACKET_write_xdr_int (Some (ep_objtype p))) (\<lambda>_.
    xbind (write_engineered_u (ep_objtype p) (ep_u p)) (\<lambda>_.
    xbind (write_limited KS_NAME_MAXLEN (ep_identifier p)) (\<lambda>_.
    xbind (KS_DATAPACKET_write_xdr_OV_TIME (ep_creation_time p)) (\<lambda>_.
    xbind (write_limited KS_COMMENT_MAXLEN (ep_comment p)) (\<lambda>_.
    xbind (KS_DATAPACKET_write_xdr_int (Some (ep_access p))) (\<lambda>_.
    KS_DATAPACKET_write_xdr_uint (Some (ep_semantic_flags p))))))))"

text \<open>Projected properties have no member for domains and histories, and no semantic flags.\<close>

definition xdr_read_OV_VAR_PROJECTED_PROPS :: "OV_VAR_PROPS xdr" where
  "xdr_read_OV_VAR_PROJECTED_PROPS =
    xbind (KS_DATAPACKET_read_xdr_string_tomemstack KS_TECHUNIT_MAXLEN) (\<lambda>u.
    xbind KS_DATAPACKET_read_xdr_int (\<lambda>t. xdone \<lparr>vp_tech_unit = u, vp_vartype = t\<rparr>))"

definition xdr_write_OV_VAR_PROJECTED_PROPS :: "OV_VAR_PROPS \<Rightarrow> unit xdr" where
  "xdr_write_OV_VAR_PROJECTED_PROPS p =
    xbind (write_limited KS_TECHUNIT_MAXLEN (vp_tech_unit p)) (\<lambda>_. KS_DATAPACKET_write_xdr_int (Some (vp_vartype p)))"

definition xdr_read_OV_LINK_PROJECTED_PROPS :: "OV_LINK_PROPS xdr" where
  "xdr_read_OV_LINK_PROJECTED_PROPS =
    xbind KS_DATAPACKET_read_xdr_int (\<lambda>t.
    xbind KS_DATAPACKET_read_xdr_string_tomemstack_wolength (\<lambda>r.
    xbind KS_DATAPACKET_read_xdr_string_tomemstack_wolength (\<lambda>a.
    xdone \<lparr>lp_linktype = t, lp_opposite_role_identifier = r, lp_association_identifier = a\<rparr>)))"

definition xdr_write_OV_LINK_PROJECTED_PROPS :: "OV_LINK_PROPS \<Rightarrow> unit xdr" where
  "xdr_write_OV_LINK_PROJECTED_PROPS p =
    xbind (KS_DATAPACKET_write_xdr_int (Some (lp_linktype p))) (\<lambda>_.
    xbind (KS_DATAPACKET_write_xdr_string (lp_opposite_role_identifier p)) (\<lambda>_.
    KS_DATAPACKET_write_xdr_string (lp_association_identifier p)))"

datatype PROJECTED_PROPS_U = no_projected | var_projected OV_VAR_PROPS | link_projected OV_LINK_PROPS

record OV_OBJ_PROJECTED_PROPS =
  pp_objtype :: OV_UINT
  pp_u :: PROJECTED_PROPS_U
  pp_identifier :: OV_STRING
  pp_creation_time :: OV_TIME
  pp_comment :: OV_STRING
  pp_access :: OV_UINT

definition read_projected_u :: "OV_UINT \<Rightarrow> PROJECTED_PROPS_U xdr" where
  "read_projected_u objtype =
    (if objtype = KS_OT_VARIABLE then xmap var_projected xdr_read_OV_VAR_PROJECTED_PROPS
     else if objtype = KS_OT_LINK then xmap link_projected xdr_read_OV_LINK_PROJECTED_PROPS
     else xdone no_projected)"

definition xdr_read_OV_OBJ_PROJECTED_PROPS :: "OV_OBJ_PROJECTED_PROPS xdr" where
  "xdr_read_OV_OBJ_PROJECTED_PROPS =
    xbind KS_DATAPACKET_read_xdr_int (\<lambda>objtype.
    xbind (read_projected_u objtype) (\<lambda>u.
    xbind (KS_DATAPACKET_read_xdr_string_tomemstack KS_NAME_MAXLEN) (\<lambda>name.
    xbind KS_DATAPACKET_read_xdr_OV_TIME (\<lambda>t.
    xbind (KS_DATAPACKET_read_xdr_string_tomemstack KS_COMMENT_MAXLEN) (\<lambda>c.
    xbind KS_DATAPACKET_read_xdr_int (\<lambda>a.
    xdone \<lparr>pp_objtype = objtype, pp_u = u, pp_identifier = name, pp_creation_time = t, pp_comment = c,
      pp_access = a\<rparr>))))))"

definition write_projected_u :: "OV_UINT \<Rightarrow> PROJECTED_PROPS_U \<Rightarrow> unit xdr" where
  "write_projected_u objtype u =
    (let other = other_props {KS_OT_VARIABLE, KS_OT_LINK} objtype
     in case u of
       var_projected p \<Rightarrow> if objtype = KS_OT_VARIABLE then xdr_write_OV_VAR_PROJECTED_PROPS p else other
     | link_projected p \<Rightarrow> if objtype = KS_OT_LINK then xdr_write_OV_LINK_PROJECTED_PROPS p else other
     | no_projected \<Rightarrow> other)"

definition xdr_write_OV_OBJ_PROJECTED_PROPS :: "OV_OBJ_PROJECTED_PROPS \<Rightarrow> unit xdr" where
  "xdr_write_OV_OBJ_PROJECTED_PROPS p =
    xbind (KS_DATAPACKET_write_xdr_int (Some (pp_objtype p))) (\<lambda>_.
    xbind (write_projected_u (pp_objtype p) (pp_u p)) (\<lambda>_.
    xbind (write_limited KS_NAME_MAXLEN (pp_identifier p)) (\<lambda>_.
    xbind (KS_DATAPACKET_write_xdr_OV_TIME (pp_creation_time p)) (\<lambda>_.
    xbind (write_limited KS_COMMENT_MAXLEN (pp_comment p)) (\<lambda>_.
    KS_DATAPACKET_write_xdr_int (Some (pp_access p)))))))"

end
