(* ===== verification/KsBackend.thy ===== *)
theory KsBackend
  imports XdrItems OvElement OvPercent OvResult
begin

text \<open>
  syslibs/comm/ksbase/source/ovks_backend_*.c: the services of ACPLT/KS on the database. Paths, access
  rights, variables, links and objects are reached through functions of libov, methods of classes and
  functions of associations; these are the record \<open>ops\<close>, over a database of any type. Result codes
  are numbers, as the answers carry them.
\<close>

section \<open>What the services use\<close>

definition OV_ERR_TARGETGENERIC :: OV_UINT where "OV_ERR_TARGETGENERIC = 6"

text \<open>A ticket, with the rights that its \<open>getaccess\<close> answers.\<close>

record OV_TICKET =
  tk_type :: OV_UINT
  tk_id :: OV_STRING
  tk_access :: OV_UINT

text \<open>The database, and the memory that is granted to the next requests; behind the list every request
  is granted.\<close>

record 'd KS =
  ks_grants :: "bool list"
  ks_db :: 'd

type_synonym path = "OV_ELEMENT list"

text \<open>The results of the parameters and links of a new object.\<close>

type_synonym init_results = "OV_UINT list \<times> OV_UINT list"

type_synonym 'd init = "objptr \<Rightarrow> 'd KS \<times> init_results \<Rightarrow> (OV_UINT \<times> 'd KS \<times> init_results) option"

record 'd ops =
  op_resolve :: "path option \<Rightarrow> OV_STRING \<Rightarrow> OV_UINT \<Rightarrow> 'd \<Rightarrow> OV_UINT + path"
  op_getaccess :: "objptr option \<Rightarrow> OV_ELEMENT \<Rightarrow> OV_TICKET \<Rightarrow> 'd \<Rightarrow> OV_UINT"
  op_is_vendor :: "objptr option \<Rightarrow> 'd \<Rightarrow> bool"
  op_vendor_setvar :: "objptr option \<Rightarrow> OV_VAR_CURRENT_PROPS \<Rightarrow> OV_TICKET \<Rightarrow> 'd \<Rightarrow> OV_UINT \<times> 'd"
  op_setvar :: "objptr option \<Rightarrow> OV_ELEMENT \<Rightarrow> OV_VAR_CURRENT_PROPS \<Rightarrow> 'd \<Rightarrow> OV_UINT \<times> 'd"
  op_getitem :: "OV_UINT \<Rightarrow> OV_TICKET \<Rightarrow> OV_ELEMENT \<Rightarrow> 'd \<Rightarrow> OV_GETVAR_ITEM"
  op_canonicalpath :: "objptr option \<Rightarrow> OV_UINT \<Rightarrow> 'd \<Rightarrow> OV_STRING"
  op_identifier :: "OV_ELEMENT \<Rightarrow> 'd \<Rightarrow> string"
  op_is_child :: "objptr option \<Rightarrow> objptr option \<Rightarrow> 'd \<Rightarrow> bool"
  op_is_parent :: "objptr option \<Rightarrow> objptr option \<Rightarrow> 'd \<Rightarrow> bool"
  op_linkaccess :: "objptr option \<Rightarrow> objptr option \<Rightarrow> objptr option \<Rightarrow> OV_TICKET \<Rightarrow> 'd \<Rightarrow> OV_UINT option"
  op_unlinkaccess :: "objptr option \<Rightarrow> objptr option \<Rightarrow> objptr option \<Rightarrow> OV_TICKET \<Rightarrow> 'd \<Rightarrow> OV_UINT option"
  op_link :: "objptr option \<Rightarrow> objptr option \<Rightarrow> objptr option \<Rightarrow> OV_PLACEMENT_HINT \<Rightarrow> objptr option \<Rightarrow>
    OV_PLACEMENT_HINT \<Rightarrow> objptr option \<Rightarrow> 'd \<Rightarrow> OV_UINT \<times> 'd"
  op_assoctype :: "objptr option \<Rightarrow> 'd \<Rightarrow> OV_ASSOC_TYPE"
  op_parent :: "objptr option \<Rightarrow> objptr option \<Rightarrow> 'd \<Rightarrow> objptr option"
  op_children_nm :: "objptr option \<Rightarrow> objptr option \<Rightarrow> 'd \<Rightarrow> objptr option list"
  op_unlink :: "objptr option \<Rightarrow> objptr option \<Rightarrow> objptr option \<Rightarrow> 'd \<Rightarrow> 'd"
  op_delete :: "objptr option \<Rightarrow> 'd \<Rightarrow> OV_UINT \<times> 'd"
  op_class :: "objptr option \<Rightarrow> 'd \<Rightarrow> objptr option"
  op_domain :: "objptr option \<Rightarrow> 'd \<Rightarrow> objptr option"
  op_container :: "objptr option \<Rightarrow> 'd \<Rightarrow> objptr option"
  op_searchchild :: "objptr option \<Rightarrow> string \<Rightarrow> 'd \<Rightarrow> objptr option"
  op_create :: "objptr option \<Rightarrow> objptr option \<Rightarrow> string \<Rightarrow> OV_PLACEMENT_HINT \<Rightarrow> objptr option \<Rightarrow> 'd init \<Rightarrow>
    'd KS \<times> init_results \<Rightarrow> (OV_UINT \<times> 'd KS \<times> init_results) option"
  op_rename :: "objptr option \<Rightarrow> objptr option \<Rightarrow> string \<Rightarrow> OV_PLACEMENT_HINT \<Rightarrow> objptr option \<Rightarrow> 'd \<Rightarrow> OV_UINT \<times> 'd"

text \<open>\<open>op_linkaccess\<close> and \<open>op_unlinkaccess\<close> are \<open>None\<close> where the association has no function for the
  access (the former also while the activities are locked). \<open>op_setvar\<close> and
  \<open>op_getaccess\<close> are the methods of the class of the object, or those of \<open>ov_object\<close>.\<close>

definition ks_grant :: "'d KS \<Rightarrow> bool \<times> 'd KS" where
  "ks_grant s = (case ks_grants s of [] \<Rightarrow> (True, s) | g # gs \<Rightarrow> (g, s\<lparr>ks_grants := gs\<rparr>))"

text \<open>The frame of the services: nothing to do without items, the rights of the ticket, the memory for
  the results, then the items. A ticket that is \<open>NULL\<close> is dereferenced (\<open>None\<close>). \<open>allocs\<close> counts the
  requests for memory.\<close>

primrec all_granted :: "nat \<Rightarrow> 'd KS \<Rightarrow> bool \<times> 'd KS" where
  "all_granted 0 s = (True, s)"
| "all_granted (Suc n) s = (let (granted, s') = ks_grant s in if granted then all_granted n s' else (False, s'))"

definition service_frame :: "OV_UINT \<Rightarrow> nat \<Rightarrow> OV_TICKET option \<Rightarrow> 'i list \<Rightarrow>
    (OV_TICKET \<Rightarrow> 'd KS \<Rightarrow> ('r list \<times> 'd KS) option) \<Rightarrow> 'd KS \<Rightarrow> ((OV_UINT \<times> 'r list) \<times> 'd KS) option" where
  "service_frame right allocs pticket items body s =
    (if items = [] then Some ((0, []), s)
     else case pticket of
         None \<Rightarrow> None
       | Some ticket \<Rightarrow>
           if tk_access ticket AND right = 0 then Some ((result_code OV_ERR_NOACCESS, []), s)
           else let (granted, s') = all_granted allocs s
                in if \<not> granted then Some ((OV_ERR_TARGETGENERIC, []), s')
                   else map_option (\<lambda>(rs, s''). ((0, rs), s'')) (body ticket s'))"

section \<open>Relative paths (SetVar, GetVar, GetCanonicalPath)\<close>

definition absolute :: "OV_STRING \<Rightarrow> bool" where
  "absolute s \<longleftrightarrow> (case s of Some (c # cs) \<Rightarrow> c = CHR ''/'' | _ \<Rightarrow> False)"

text \<open>The paths after the first may be relative to the one before. A path that does not resolve makes
  those that follow fail up to the next absolute one, for which the last path plays no part.\<close>

function path_loop :: "'d ops \<Rightarrow> OV_UINT \<Rightarrow> ('i \<Rightarrow> OV_STRING) \<Rightarrow> (OV_UINT \<Rightarrow> 'r) \<Rightarrow>
    ('i \<Rightarrow> path \<Rightarrow> 'd KS \<Rightarrow> 'r \<times> 'd KS) \<Rightarrow> path option \<Rightarrow> 'i list \<Rightarrow> 'd KS \<Rightarrow> 'r list \<times> 'd KS" where
  "path_loop ops version name failed item lastpath [] s = ([], s)"
| "path_loop ops version name failed item lastpath (i # is) s =
    (case op_resolve ops lastpath (name i) version (ks_db s) of
       Inr path \<Rightarrow>
         (let (r, s') = item i path s; (rs, s'') = path_loop ops version name failed item (Some path) is s'
          in (r # rs, s''))
     | Inl e \<Rightarrow>
         (let skipped = takeWhile (\<lambda>x. \<not> absolute (name x)) is;
              (rs, s') = path_loop ops version name failed item None (drop (length skipped) is) s
          in (failed e # map (\<lambda>_. failed (result_code OV_ERR_BADPATH)) skipped @ rs, s')))"
  by pat_completeness auto
termination
  by (relation "measure (\<lambda>(ops, version, name, failed, item, lastpath, is, s). length is)") auto

section \<open>SetVar and GetVar\<close>

definition OV_VT_HAS_STATE :: OV_UINT where "OV_VT_HAS_STATE = 0x00010000"
definition OV_VT_HAS_TIMESTAMP :: OV_UINT where "OV_VT_HAS_TIMESTAMP = 0x00020000"

definition stamped :: "OV_VAR_CURRENT_PROPS \<Rightarrow> OV_VAR_CURRENT_PROPS" where
  "stamped p = p\<lparr>cp_value := (case cp_value p of VAR t u \<Rightarrow> VAR (t OR (OV_VT_HAS_STATE OR OV_VT_HAS_TIMESTAMP)) u)\<rparr>"

definition ov_ksserver_setvar_setitem ::
    "'d ops \<Rightarrow> OV_TICKET \<Rightarrow> OV_SETVAR_ITEM \<Rightarrow> OV_ELEMENT \<Rightarrow> bool \<Rightarrow> 'd \<Rightarrow> OV_UINT \<times> 'd" where
  "ov_ksserver_setvar_setitem ops ticket pitem pelem init d =
    (let pobj = el_pobj pelem; right = (if init then OV_AC_READWRITE else OV_AC_WRITE)
     in if op_getaccess ops pobj pelem ticket d AND right = 0 then (result_code OV_ERR_NOACCESS, d)
        else if elemtype pelem = OV_ET_OBJECT then
          (if op_is_vendor ops pobj d then op_vendor_setvar ops pobj (set_props pitem) ticket d
           else (result_code OV_ERR_BADOBJTYPE, d))
        else if elemtype pelem = OV_ET_MEMBER \<or> elemtype pelem = OV_ET_VARIABLE then
          op_setvar ops pobj pelem (stamped (set_props pitem)) d
        else (result_code OV_ERR_BADOBJTYPE, d))"

definition ov_ksserver_setvar :: "'d ops \<Rightarrow> OV_UINT \<Rightarrow> OV_TICKET option \<Rightarrow> OV_SETVAR_ITEM list \<Rightarrow>
    'd KS \<Rightarrow> ((OV_UINT \<times> OV_UINT list) \<times> 'd KS) option" where
  "ov_ksserver_setvar ops version pticket items =
    service_frame OV_AC_WRITE 1 pticket items (\<lambda>ticket s.
      Some (path_loop ops version path_and_name id
        (\<lambda>pitem path s. let (r, d) = ov_ksserver_setvar_setitem ops ticket pitem (last path) False (ks_db s)
           in (r, s\<lparr>ks_db := d\<rparr>)) None items s))"

definition ov_ksserver_getvar :: "'d ops \<Rightarrow> OV_UINT \<Rightarrow> OV_TICKET option \<Rightarrow> OV_STRING list \<Rightarrow>
    'd KS \<Rightarrow> ((OV_UINT \<times> OV_GETVAR_ITEM list) \<times> 'd KS) option" where
  "ov_ksserver_getvar ops version pticket identifiers =
    service_frame OV_AC_READ 1 pticket identifiers (\<lambda>ticket s.
      Some (path_loop ops version id got_failure
        (\<lambda>i path s. (op_getitem ops version ticket (last path) (ks_db s), s)) None identifiers s))"

section \<open>GetCanonicalPath\<close>

text \<open>The index of the last object in a path; behind it stand its parts.\<close>

definition objects_upto :: "path \<Rightarrow> nat" where
  "objects_upto path = length (dropWhile (\<lambda>e. elemtype e \<noteq> OV_ET_OBJECT) (rev path))"

definition part_names :: "'d ops \<Rightarrow> path \<Rightarrow> 'd \<Rightarrow> string" where
  "part_names ops parts d = concat (map (\<lambda>e. CHR ''.'' # ov_path_topercent (op_identifier ops e d)) parts)"

definition canonical_item :: "'d ops \<Rightarrow> OV_UINT \<Rightarrow> path \<Rightarrow> 'd KS \<Rightarrow> OV_GETCANONICALPATHITEM_RES \<times> 'd KS" where
  "canonical_item ops version path s =
    (let n = objects_upto path
     in if n = 0 then (no_path OV_ERR_TARGETGENERIC, s)
        else case op_canonicalpath ops (el_pobj (last path)) version (ks_db s) of
            None \<Rightarrow> (no_path OV_ERR_TARGETGENERIC, s)
          | Some canonicalpath \<Rightarrow>
              if n = length path then (canonical_path (Some canonicalpath), s)
              else let (granted, s') = ks_grant s
                   in if granted then (canonical_path (Some (canonicalpath @ part_names ops (drop n path) (ks_db s))), s')
                      else (no_path OV_ERR_TARGETGENERIC, s'))"

definition ov_ksserver_getcanonicalpath :: "'d ops \<Rightarrow> OV_UINT \<Rightarrow> OV_TICKET option \<Rightarrow> OV_STRING list \<Rightarrow>
    'd KS \<Rightarrow> ((OV_UINT \<times> OV_GETCANONICALPATHITEM_RES list) \<times> 'd KS) option" where
  "ov_ksserver_getcanonicalpath ops version pticket paths =
    service_frame OV_AC_READ 1 pticket paths (\<lambda>ticket s.
      Some (path_loop ops version id no_path (\<lambda>i path s. canonical_item ops version path s) None paths s))"

section \<open>Link and Unlink\<close>

text \<open>The path of a neighbour, if the hint asks for one.\<close>

definition resolve_place :: "'d ops \<Rightarrow> OV_UINT \<Rightarrow> OV_PLACEMENT \<Rightarrow> 'd \<Rightarrow> OV_UINT + OV_ELEMENT option" where
  "resolve_place ops version p d =
    (if pl_hint p = OV_PMH_BEFORE \<or> pl_hint p = OV_PMH_AFTER then
       (case op_resolve ops None (pl_path p) version d of Inl e \<Rightarrow> Inl e | Inr path \<Rightarrow> Inr (Some (last path)))
     else Inr None)"

text \<open>The object of a neighbour.\<close>

definition place_object :: "OV_ELEMENT option \<Rightarrow> OV_UINT + objptr option" where
  "place_object pelem =
    (case pelem of
       None \<Rightarrow> Inr None
     | Some e \<Rightarrow> if elemtype e \<noteq> OV_ET_OBJECT then Inl (result_code OV_ERR_BADOBJTYPE) else Inr (el_pobj e))"

text \<open>Parent, child and their neighbours with the hints: the link is named from the parent
  (\<open>OV_ET_PARENTLINK\<close>) or from the child.\<close>

definition link_ends :: "'d ops \<Rightarrow> OV_ELEMENT \<Rightarrow> OV_ELEMENT \<Rightarrow> OV_ELEMENT option \<Rightarrow> OV_ELEMENT option \<Rightarrow>
    OV_PLACEMENT_HINT \<Rightarrow> OV_PLACEMENT_HINT \<Rightarrow> 'd \<Rightarrow>
    OV_UINT + objptr option \<times> OV_PLACEMENT_HINT \<times> objptr option \<times> objptr option \<times> OV_PLACEMENT_HINT \<times> objptr option" where
  "link_ends ops plinkelem pelementelem pplace poppositeplace hint oppositehint d =
    (case (place_object pplace, place_object poppositeplace) of
       (Inl e, _) \<Rightarrow> Inl e
     | (Inr _, Inl e) \<Rightarrow> Inl e
     | (Inr rel, Inr opp) \<Rightarrow>
         (if elemtype plinkelem = OV_ET_PARENTLINK then
            (if \<not> op_is_child ops (el_pobj pelementelem) (elemunion plinkelem) d then Inl (result_code OV_ERR_BADOBJTYPE)
             else Inr (el_pobj plinkelem, oppositehint, opp, el_pobj pelementelem, hint, rel))
          else
            (if \<not> op_is_parent ops (el_pobj pelementelem) (elemunion plinkelem) d then Inl (result_code OV_ERR_BADOBJTYPE)
             else Inr (el_pobj pelementelem, hint, rel, el_pobj plinkelem, oppositehint, opp))))"

definition ov_ksserver_link_linkitem :: "'d ops \<Rightarrow> OV_TICKET \<Rightarrow> OV_ELEMENT \<Rightarrow> OV_ELEMENT \<Rightarrow> OV_ELEMENT option \<Rightarrow>
    OV_ELEMENT option \<Rightarrow> OV_PLACEMENT_HINT \<Rightarrow> OV_PLACEMENT_HINT \<Rightarrow> 'd \<Rightarrow> OV_UINT \<times> 'd" where
  "ov_ksserver_link_linkitem ops ticket plinkelem pelementelem pplace poppositeplace hint oppositehint d =
    (let passoc = elemunion plinkelem
     in if elemtype pelementelem \<noteq> OV_ET_OBJECT \<or>
           \<not> (elemtype plinkelem = OV_ET_PARENTLINK \<or> elemtype plinkelem = OV_ET_CHILDLINK)
        then (result_code OV_ERR_BADOBJTYPE, d)
        else case link_ends ops plinkelem pelementelem pplace poppositeplace hint oppositehint d of
            Inl e \<Rightarrow> (e, d)
          | Inr (par, parenthint, prelparent, chi, childhint, prelchild) \<Rightarrow>
              if prelparent \<noteq> None \<and> \<not> op_is_parent ops prelparent passoc d then (result_code OV_ERR_BADPLACEMENT, d)
              else if prelchild \<noteq> None \<and> \<not> op_is_child ops prelchild passoc d then (result_code OV_ERR_BADPLACEMENT, d)
              else if (case op_linkaccess ops passoc par chi ticket d of
                         None \<Rightarrow> False | Some access \<Rightarrow> access AND OV_AC_LINKABLE = 0)
                   then (result_code OV_ERR_NOACCESS, d)
              else op_link ops passoc par chi parenthint prelparent childhint prelchild d)"

definition link_item :: "'d ops \<Rightarrow> OV_UINT \<Rightarrow> OV_TICKET \<Rightarrow> path option \<Rightarrow> OV_LINK_ITEM \<Rightarrow> 'd \<Rightarrow> OV_UINT \<times> 'd" where
  "link_item ops version ticket prelpath pitem d =
    (case op_resolve ops prelpath (li_link_path pitem) version d of
       Inl e \<Rightarrow> (e, d)
     | Inr linkpath \<Rightarrow>
         (case op_resolve ops None (li_element_path pitem) version d of
            Inl e \<Rightarrow> (e, d)
          | Inr elementpath \<Rightarrow>
              (case resolve_place ops version (li_place pitem) d of
                 Inl e \<Rightarrow> (e, d)
               | Inr pplace \<Rightarrow>
                   (case resolve_place ops version (li_opposite_place pitem) d of
                      Inl e \<Rightarrow> (e, d)
                    | Inr poppositeplace \<Rightarrow>
                        ov_ksserver_link_linkitem ops ticket (last linkpath) (last elementpath) pplace poppositeplace
                          (pl_hint (li_place pitem)) (pl_hint (li_opposite_place pitem)) d))))"

text \<open>A loop over items that do not depend on each other but for the database.\<close>

primrec item_loop :: "('i \<Rightarrow> 'd \<Rightarrow> 'r \<times> 'd) \<Rightarrow> 'i list \<Rightarrow> 'd \<Rightarrow> 'r list \<times> 'd" where
  "item_loop item [] d = ([], d)"
| "item_loop item (i # is) d = (let (r, d') = item i d; (rs, d'') = item_loop item is d' in (r # rs, d''))"

definition each_item :: "('i \<Rightarrow> 'd \<Rightarrow> 'r \<times> 'd) \<Rightarrow> 'i list \<Rightarrow> 'd KS \<Rightarrow> ('r list \<times> 'd KS) option" where
  "each_item item is s = (let (rs, d) = item_loop item is (ks_db s) in Some (rs, s\<lparr>ks_db := d\<rparr>))"

definition ov_ksserver_link :: "'d ops \<Rightarrow> OV_UINT \<Rightarrow> OV_TICKET option \<Rightarrow> OV_LINK_ITEM list \<Rightarrow>
    'd KS \<Rightarrow> ((OV_UINT \<times> OV_UINT list) \<times> 'd KS) option" where
  "ov_ksserver_link ops version pticket items =
    service_frame OV_AC_LINKABLE 1 pticket items (\<lambda>ticket. each_item (link_item ops version ticket None) items)"

definition ov_ksserver_unlink_unlinkitem :: "'d ops \<Rightarrow> OV_TICKET \<Rightarrow> OV_ELEMENT \<Rightarrow> OV_ELEMENT \<Rightarrow> 'd \<Rightarrow> OV_UINT \<times> 'd" where
  "ov_ksserver_unlink_unlinkitem ops ticket plinkelem pelementelem d =
    (let passoc = elemunion plinkelem; from_parent = (elemtype plinkelem = OV_ET_PARENTLINK);
         par = el_pobj (if from_parent then plinkelem else pelementelem);
         chi = el_pobj (if from_parent then pelementelem else plinkelem)
     in if elemtype pelementelem \<noteq> OV_ET_OBJECT \<or> \<not> (from_parent \<or> elemtype plinkelem = OV_ET_CHILDLINK) \<or>
           \<not> (if from_parent then op_is_child ops chi passoc d else op_is_parent ops par passoc d)
        then (result_code OV_ERR_BADOBJTYPE, d)
        else if (case op_unlinkaccess ops passoc par chi ticket d of
                   None \<Rightarrow> False | Some access \<Rightarrow> access AND OV_AC_UNLINKABLE = 0)
             then (result_code OV_ERR_NOACCESS, d)
        else case op_assoctype ops passoc d of
            OV_AT_OTHER _ \<Rightarrow> (result_code OV_ERR_GENERIC, d)
          | OV_AT_MANY_TO_MANY \<Rightarrow>
              if chi \<notin> set (op_children_nm ops passoc par d) then (result_code OV_ERR_BADPATH, d)
              else (0, op_unlink ops passoc par chi d)
          | _ \<Rightarrow>
              if op_parent ops passoc chi d \<noteq> par then (result_code OV_ERR_BADPATH, d)
              else (0, op_unlink ops passoc par chi d))"

definition unlink_item :: "'d ops \<Rightarrow> OV_UINT \<Rightarrow> OV_TICKET \<Rightarrow> OV_UNLINK_ITEM \<Rightarrow> 'd \<Rightarrow> OV_UINT \<times> 'd" where
  "unlink_item ops version ticket pitem d =
    (case op_resolve ops None (ui_link_path pitem) version d of
       Inl e \<Rightarrow> (e, d)
     | Inr linkpath \<Rightarrow>
         (case op_resolve ops None (ui_element_path pitem) version d of
            Inl e \<Rightarrow> (e, d)
          | Inr elementpath \<Rightarrow> ov_ksserver_unlink_unlinkitem ops ticket (last linkpath) (last elementpath) d))"

definition ov_ksserver_unlink :: "'d ops \<Rightarrow> OV_UINT \<Rightarrow> OV_TICKET option \<Rightarrow> OV_UNLINK_ITEM list \<Rightarrow>
    'd KS \<Rightarrow> ((OV_UINT \<times> OV_UINT list) \<times> 'd KS) option" where
  "ov_ksserver_unlink ops version pticket items =
    service_frame OV_AC_UNLINKABLE 1 pticket items (\<lambda>ticket. each_item (unlink_item ops version ticket) items)"

section \<open>DeleteObject\<close>

text \<open>The result of the deletion is not looked at.\<close>

definition delete_item :: "'d ops \<Rightarrow> OV_UINT \<Rightarrow> OV_TICKET \<Rightarrow> OV_STRING \<Rightarrow> 'd \<Rightarrow> OV_UINT \<times> 'd" where
  "delete_item ops version ticket ppath d =
    (case op_resolve ops None ppath version d of
       Inl e \<Rightarrow> (e, d)
     | Inr path \<Rightarrow>
         let pelem = last path
         in if elemtype pelem \<noteq> OV_ET_OBJECT then (result_code OV_ERR_BADOBJTYPE, d)
            else if op_getaccess ops (el_pobj pelem) pelem ticket d AND OV_AC_DELETEABLE = 0
                 then (result_code OV_ERR_NOACCESS, d)
            else (0, snd (op_delete ops (el_pobj pelem) d)))"

definition ov_ksserver_deleteobject :: "'d ops \<Rightarrow> OV_UINT \<Rightarrow> OV_TICKET option \<Rightarrow> OV_STRING list \<Rightarrow>
    'd KS \<Rightarrow> ((OV_UINT \<times> OV_UINT list) \<times> 'd KS) option" where
  "ov_ksserver_deleteobject ops version pticket paths =
    service_frame OV_AC_DELETEABLE 1 pticket paths (\<lambda>ticket. each_item (delete_item ops version ticket) paths)"

section \<open>RenameObject\<close>

text \<open>The path of the domain and the identifier, cut at the last slash.\<close>

definition cut_path :: "string \<Rightarrow> (string \<times> string) option" where
  "cut_path s =
    (if CHR ''/'' \<in> set s then
       let ident = rev (takeWhile (\<lambda>c. c \<noteq> CHR ''/'') (rev s));
           dir = take (length s - length ident - 1) s
       in Some (if dir = [] then [CHR ''/''] else dir, ident)
     else None)"

definition domain_of :: "'d ops \<Rightarrow> path \<Rightarrow> 'd \<Rightarrow> objptr option" where
  "domain_of ops path d =
    (if elemtype (last path) \<noteq> OV_ET_OBJECT then None else op_domain ops (el_pobj (last path)) d)"

text \<open>A neighbour that is named relative to the domain.\<close>

definition relative_neighbour :: "'d ops \<Rightarrow> objptr option \<Rightarrow> string \<Rightarrow> 'd \<Rightarrow> (OV_UINT + objptr option) option" where
  "relative_neighbour ops pdom plc d =
    map_option (\<lambda>name. case op_searchchild ops pdom name d of
        None \<Rightarrow> Inl (result_code OV_ERR_BADPLACEMENT) | Some p \<Rightarrow> Inr (Some p)) (ov_path_frompercent plc)"

text \<open>The second half of the loop: the new domain, the neighbour, the renaming. The check after resolving an
  absolute path of a neighbour compares the address of the result, which never is \<open>OV_ERR_OK\<close>, and so
  always goes on with the next item.\<close>

definition rename_to :: "'d ops \<Rightarrow> OV_UINT \<Rightarrow> OV_TICKET \<Rightarrow> OV_RENAMEOBJECT_ITEM \<Rightarrow> path \<Rightarrow> string \<Rightarrow> string \<Rightarrow>
    'd \<Rightarrow> (OV_UINT \<times> 'd) option" where
  "rename_to ops version ticket pitem path newobjpath ident d =
    (case op_resolve ops (Some path) (Some newobjpath) version d of
       Inl e \<Rightarrow> Some (e, d)
     | Inr newpath \<Rightarrow>
         (case domain_of ops newpath d of
            None \<Rightarrow> Some (result_code OV_ERR_BADPATH, d)
          | Some pdom \<Rightarrow>
              if op_getaccess ops (Some pdom) (last newpath) ticket d AND OV_AC_WRITE = 0
              then Some (result_code OV_ERR_NOACCESS, d)
              else let hint = pl_hint (ri_place pitem);
                       rename = (\<lambda>prelchild. map_option
                         (\<lambda>name. op_rename ops (el_pobj (last path)) (Some pdom) name hint prelchild d) (ov_path_frompercent ident))
                   in if hint = OV_PMH_BEFORE \<or> hint = OV_PMH_AFTER then
                        (case pl_path (ri_place pitem) of
                           None \<Rightarrow> None
                         | Some plc \<Rightarrow>
                             if absolute (Some plc) then
                               (case op_resolve ops None (Some plc) version d of
                                  Inl e \<Rightarrow> Some (e, d) | Inr _ \<Rightarrow> Some (0, d))
                             else Option.bind (relative_neighbour ops (Some pdom) plc d) (\<lambda>r. case r of
                                 Inl e \<Rightarrow> Some (e, d) | Inr prelchild \<Rightarrow> rename prelchild))
                      else rename None))"

definition rename_item :: "'d ops \<Rightarrow> OV_UINT \<Rightarrow> OV_TICKET \<Rightarrow> OV_RENAMEOBJECT_ITEM \<Rightarrow> 'd \<Rightarrow> (OV_UINT \<times> 'd) option" where
  "rename_item ops version ticket pitem d =
    (case op_resolve ops None (ri_old_path pitem) version d of
       Inl e \<Rightarrow> Some (e, d)
     | Inr path \<Rightarrow>
         let pelem = last path; pobj = el_pobj pelem
         in if elemtype pelem \<noteq> OV_ET_OBJECT then Some (result_code OV_ERR_CANTMOVE, d)
            else if op_getaccess ops pobj pelem ticket d AND OV_AC_RENAMEABLE = 0 then Some (result_code OV_ERR_NOACCESS, d)
            else case op_container ops pobj d of
                None \<Rightarrow> Some (result_code OV_ERR_CANTMOVE, d)
              | Some olddom \<Rightarrow>
                  if length path < 2 then None
                  else if op_getaccess ops (Some olddom) (path ! (length path - 2)) ticket d AND OV_AC_WRITE = 0
                       then Some (result_code OV_ERR_NOACCESS, d)
                  else case ri_new_path pitem of
                      None \<Rightarrow> None
                    | Some new \<Rightarrow>
                        (case cut_path new of
                           None \<Rightarrow> Some (result_code OV_ERR_BADPATH, d)
                         | Some (newobjpath, ident) \<Rightarrow>
                             rename_to ops version ticket pitem path newobjpath ident d))"

text \<open>Loops whose items may leave the defined behaviour.\<close>

primrec try_loop :: "('i \<Rightarrow> 's \<Rightarrow> ('r \<times> 's) option) \<Rightarrow> 'i list \<Rightarrow> 's \<Rightarrow> ('r list \<times> 's) option" where
  "try_loop item [] s = Some ([], s)"
| "try_loop item (i # is) s =
    Option.bind (item i s) (\<lambda>(r, s'). map_option (\<lambda>(rs, s''). (r # rs, s'')) (try_loop item is s'))"

definition on_db :: "('d \<Rightarrow> ('r \<times> 'd) option) \<Rightarrow> 'd KS \<Rightarrow> ('r \<times> 'd KS) option" where
  "on_db f s = map_option (\<lambda>(r, d). (r, s\<lparr>ks_db := d\<rparr>)) (f (ks_db s))"

definition ov_ksserver_renameobject :: "'d ops \<Rightarrow> OV_UINT \<Rightarrow> OV_TICKET option \<Rightarrow> OV_RENAMEOBJECT_ITEM list \<Rightarrow>
    'd KS \<Rightarrow> ((OV_UINT \<times> OV_UINT list) \<times> 'd KS) option" where
  "ov_ksserver_renameobject ops version pticket items =
    service_frame OV_AC_RENAMEABLE 1 pticket items (\<lambda>ticket.
      try_loop (\<lambda>pitem. on_db (rename_item ops version ticket pitem)) items)"

section \<open>CreateObject\<close>

text \<open>The parameters and links of the new object, up to the first failure; the rest keeps
  \<open>OV_ERR_GENERIC\<close>.\<close>

definition untried :: "'i list \<Rightarrow> OV_UINT list" where
  "untried is = map (\<lambda>_. result_code OV_ERR_GENERIC) is"

fun init_loop :: "('i \<Rightarrow> OV_STRING) \<Rightarrow> ('i \<Rightarrow> 'd \<Rightarrow> OV_UINT \<times> 'd) \<Rightarrow> 'i list \<Rightarrow> 'd \<Rightarrow> ((bool \<times> OV_UINT list) \<times> 'd) option" where
  "init_loop name item [] d = Some ((True, []), d)"
| "init_loop name item (i # is) d =
    (if name i = None then None
     else if absolute (name i) then Some ((False, untried (i # is)), d)
     else let (r, d') = item i d
          in if r \<noteq> 0 then Some ((False, r # untried is), d')
             else map_option (\<lambda>((ok, rs), d''). ((ok, r # rs), d'')) (init_loop name item is d'))"

definition init_param :: "'d ops \<Rightarrow> OV_UINT \<Rightarrow> OV_TICKET \<Rightarrow> path \<Rightarrow> OV_SETVAR_ITEM \<Rightarrow> 'd \<Rightarrow> OV_UINT \<times> 'd" where
  "init_param ops version ticket relpath pitem d =
    (case op_resolve ops (Some relpath) (path_and_name pitem) version d of
       Inl e \<Rightarrow> (e, d)
     | Inr path \<Rightarrow> ov_ksserver_setvar_setitem ops ticket pitem (last path) True d)"

text \<open>The block for the results of the links has the size of that for the parameters: with more links
  than parameters the results are written behind it. An empty list asks for no memory.\<close>

definition ov_ksserver_createobject_initobj :: "'d ops \<Rightarrow> OV_UINT \<Rightarrow> OV_TICKET \<Rightarrow> OV_CREATEOBJ_ITEM \<Rightarrow> 'd init" where
  "ov_ksserver_createobject_initobj ops version ticket pitem pobj = (\<lambda>(s, res).
    let ps = co_parameters pitem; ls = co_links pitem;
        (granted, s1) = all_granted ((if ps = [] then 0 else 1) + (if ls = [] then 0 else 1)) s;
        relpath = [\<lparr>elemtype = OV_ET_OBJECT, el_pobj = Some pobj, pvalue = None, pvar = None, elemunion = None\<rparr>]
    in if \<not> granted then Some (OV_ERR_TARGETGENERIC, s1, res)
       else if length ps < length ls then None
       else Option.bind (init_loop path_and_name (init_param ops version ticket relpath) ps (ks_db s1)) (\<lambda>((ok, prs), d).
            if \<not> ok then Some (result_code OV_ERR_BADINITPARAM, s1\<lparr>ks_db := d\<rparr>, (prs, untried ls))
            else map_option (\<lambda>((ok, lrs), d').
                   (if ok then 0 else result_code OV_ERR_BADINITPARAM, s1\<lparr>ks_db := d'\<rparr>, (prs, lrs)))
                 (init_loop li_link_path (link_item ops version ticket (Some relpath)) ls d)))"

text \<open>Like \<open>cut_path\<close>, but an empty path is searched, and later restored, before its first character.\<close>

definition cut_new_path :: "string \<Rightarrow> (OV_UINT + string \<times> string) option" where
  "cut_new_path s =
    (if s = [] then None
     else case cut_path s of
         None \<Rightarrow> Some (Inl (result_code OV_ERR_BADPATH)) | Some (objpath, ident) \<Rightarrow> Some (Inr (objpath, ident)))"

text \<open>The neighbour of the new object.\<close>

definition create_neighbour :: "'d ops \<Rightarrow> OV_UINT \<Rightarrow> objptr \<Rightarrow> OV_PLACEMENT \<Rightarrow> 'd \<Rightarrow> (OV_UINT + objptr option) option" where
  "create_neighbour ops version pdom p d =
    (if \<not> (pl_hint p = OV_PMH_BEFORE \<or> pl_hint p = OV_PMH_AFTER) then Some (Inr None)
     else case pl_path p of
         None \<Rightarrow> None
       | Some plc \<Rightarrow>
           if absolute (Some plc) then
             (case op_resolve ops None (Some plc) version d of
                Inl e \<Rightarrow> Some (Inl e)
              | Inr path \<Rightarrow>
                  if elemtype (last path) \<noteq> OV_ET_OBJECT \<or> op_container ops (el_pobj (last path)) d \<noteq> Some pdom
                  then Some (Inl (result_code OV_ERR_BADPLACEMENT)) else Some (Inr (el_pobj (last path))))
           else relative_neighbour ops (Some pdom) plc d)"

definition created_result :: "OV_UINT \<Rightarrow> init_results \<Rightarrow> OV_CREATEOBJECTITEM_RES" where
  "created_result r res = (if r = result_code OV_ERR_BADINITPARAM then bad_init (fst res) (snd res) else created r)"

definition create_in :: "'d ops \<Rightarrow> OV_UINT \<Rightarrow> OV_TICKET \<Rightarrow> OV_CREATEOBJ_ITEM \<Rightarrow> objptr \<Rightarrow> path \<Rightarrow> string \<Rightarrow>
    'd KS \<Rightarrow> (OV_CREATEOBJECTITEM_RES \<times> 'd KS) option" where
  "create_in ops version ticket pitem pclass path ident s =
    (let d = ks_db s; failed = (\<lambda>e. Some (created_result e ([], []), s))
     in case domain_of ops path d of
         None \<Rightarrow> failed (result_code OV_ERR_BADPATH)
       | Some pdom \<Rightarrow>
           if op_getaccess ops (Some pdom) (last path) ticket d AND OV_AC_WRITE = 0
           then failed (result_code OV_ERR_NOACCESS)
           else Option.bind (create_neighbour ops version pdom (co_place pitem) d) (\<lambda>r. case r of
               Inl e \<Rightarrow> failed e
             | Inr prelchild \<Rightarrow>
                 Option.bind (ov_path_frompercent ident) (\<lambda>name.
                 map_option (\<lambda>(result, s', res). (created_result result res, s'))
                   (op_create ops (Some pclass) (Some pdom) name (pl_hint (co_place pitem)) prelchild
                     (ov_ksserver_createobject_initobj ops version ticket pitem) (s, ([], []))))))"

definition create_item :: "'d ops \<Rightarrow> OV_UINT \<Rightarrow> OV_TICKET \<Rightarrow> OV_CREATEOBJ_ITEM \<Rightarrow>
    'd KS \<Rightarrow> (OV_CREATEOBJECTITEM_RES \<times> 'd KS) option" where
  "create_item ops version ticket pitem s =
    (let d = ks_db s; failed = (\<lambda>e. Some (created_result e ([], []), s))
     in case op_resolve ops None (co_factory_path pitem) version d of
         Inl e \<Rightarrow> failed e
       | Inr path \<Rightarrow>
           let pelem = last path
           in if elemtype pelem \<noteq> OV_ET_OBJECT then failed (result_code OV_ERR_BADFACTORY)
              else case op_class ops (el_pobj pelem) d of
                  None \<Rightarrow> failed (result_code OV_ERR_BADFACTORY)
                | Some pclass \<Rightarrow>
                    if op_getaccess ops (el_pobj pelem) pelem ticket d AND OV_AC_INSTANTIABLE = 0
                    then failed (result_code OV_ERR_BADFACTORY)
                    else case Option.bind (co_new_path pitem) cut_new_path of
                        None \<Rightarrow> None
                      | Some (Inl e) \<Rightarrow> failed e
                      | Some (Inr (objpath, ident)) \<Rightarrow>
                          (case op_resolve ops None (Some objpath) version d of
                             Inl e \<Rightarrow> failed e
                           | Inr dompath \<Rightarrow> create_in ops version ticket pitem pclass dompath ident s))"

definition ov_ksserver_createobject :: "'d ops \<Rightarrow> OV_UINT \<Rightarrow> OV_TICKET option \<Rightarrow> OV_CREATEOBJ_ITEM list \<Rightarrow>
    'd KS \<Rightarrow> ((OV_UINT \<times> OV_CREATEOBJECTITEM_RES list) \<times> 'd KS) option" where
  "ov_ksserver_createobject ops version pticket items =
    service_frame OV_AC_INSTANTIABLE 2 pticket items (\<lambda>ticket. try_loop (create_item ops version ticket) items)"

end
