(* ===== verification/XdrValueLaws.thy ===== *)
theory XdrValueLaws
  imports XdrValue
begin

text \<open>
  Values of variables are read back as they were written: the encoding of a value, which values the
  code admits, and the codecs of times and values.
\<close>

section \<open>Times and vectors of numbers\<close>

definition xdr_time :: "OV_TIME \<Rightarrow> byte list" where
  "xdr_time t = xdr_uint (secs t) @ xdr_uint (usecs t)"

definition xdr_time_span :: "OV_TIME_SPAN \<Rightarrow> byte list" where
  "xdr_time_span t = xdr_uint (span_secs t) @ xdr_uint (span_usecs t)"

lemma time_codes [law]:
  "wlaw (KS_DATAPACKET_write_xdr_OV_TIME t) (xdr_time t)"
  "rlaw KS_DATAPACKET_read_xdr_OV_TIME (xdr_time t) t"
  unfolding KS_DATAPACKET_write_xdr_OV_TIME_def KS_DATAPACKET_read_xdr_OV_TIME_def xdr_time_def
  by (rule wlaw_bind uint_writes rlaw_bind uint_reads rlaw_mapI | simp)+

lemma time_span_codes [law]:
  "wlaw (KS_DATAPACKET_write_xdr_OV_TIME_SPAN t) (xdr_time_span t)"
  "rlaw KS_DATAPACKET_read_xdr_OV_TIME_SPAN (xdr_time_span t) t"
  unfolding KS_DATAPACKET_write_xdr_OV_TIME_SPAN_def KS_DATAPACKET_read_xdr_OV_TIME_SPAN_def xdr_time_span_def
  by (rule wlaw_bind int_writes rlaw_bind int_reads rlaw_mapI | simp)+

interpretation uint_codec: codec "\<lambda>v. KS_DATAPACKET_write_xdr_uint (Some v)" KS_DATAPACKET_read_xdr_uint
    xdr_uint "\<lambda>v. v" "\<lambda>_. True"
  by unfold_locales (simp_all add: law)

interpretation int_codec: codec "\<lambda>v. KS_DATAPACKET_write_xdr_int (Some v)" KS_DATAPACKET_read_xdr_int
    xdr_uint "\<lambda>v. v" "\<lambda>_. True"
  by unfold_locales (simp_all add: law)

interpretation single_codec: codec "\<lambda>v. KS_DATAPACKET_write_xdr_single (Some v)" KS_DATAPACKET_read_xdr_single
    xdr_uint "\<lambda>v. v" "\<lambda>_. True"
  by unfold_locales (simp_all add: law)

interpretation double_codec: codec "\<lambda>v. KS_DATAPACKET_write_xdr_double (Some v)" KS_DATAPACKET_read_xdr_double
    xdr_double "\<lambda>v. v" "\<lambda>_. True"
  by unfold_locales (simp_all add: law)

lemma xdr_aligned: "4 dvd length (xdr_opaque b)" "4 dvd length (xdr_string s)"
  "length (xdr_time t) = 8" "length (xdr_time_span p) = 8"
  using fill_aligned [of "length b"] fill_aligned [of "length (bytes_of (content s))"]
  by (simp_all add: xdr_string_def xdr_opaque_def xdr_time_def xdr_time_span_def)

interpretation string_codec: codec KS_DATAPACKET_write_xdr_string KS_DATAPACKET_read_xdr_string_tomemstack_wolength
    xdr_string "\<lambda>s. Some (content s)" string_ok
  by unfold_locales (simp_all add: string_codes xdr_aligned)

interpretation time_codec: codec KS_DATAPACKET_write_xdr_OV_TIME KS_DATAPACKET_read_xdr_OV_TIME
    xdr_time "\<lambda>t. t" "\<lambda>_. True"
  by unfold_locales (simp_all add: law xdr_aligned)

interpretation time_span_codec: codec KS_DATAPACKET_write_xdr_OV_TIME_SPAN KS_DATAPACKET_read_xdr_OV_TIME_SPAN
    xdr_time_span "\<lambda>t. t" "\<lambda>_. True"
  by unfold_locales (simp_all add: law xdr_aligned)

section \<open>The encoding of a value\<close>

fun tag :: "VALUEUNION \<Rightarrow> OV_UINT" where
  "tag val_void = OV_VT_VOID"
| "tag (val_bool v) = OV_VT_BOOL"
| "tag (val_int v) = OV_VT_INT"
| "tag (val_uint v) = OV_VT_UINT"
| "tag (val_single v) = OV_VT_SINGLE"
| "tag (val_double v) = OV_VT_DOUBLE"
| "tag (val_string v) = OV_VT_STRING"
| "tag (val_time v) = OV_VT_TIME"
| "tag (val_time_span v) = OV_VT_TIME_SPAN"
| "tag (val_state v) = OV_VT_STATE"
| "tag (val_struct es) = OV_VT_STRUCT"
| "tag (val_byte_vec v len) = OV_VT_BYTE_VEC"
| "tag (val_bool_vec v) = OV_VT_BOOL_VEC"
| "tag (val_int_vec v) = OV_VT_INT_VEC"
| "tag (val_uint_vec v) = OV_VT_UINT_VEC"
| "tag (val_single_vec v) = OV_VT_SINGLE_VEC"
| "tag (val_double_vec v) = OV_VT_DOUBLE_VEC"
| "tag (val_string_vec v) = OV_VT_STRING_VEC"
| "tag (val_time_vec v) = OV_VT_TIME_VEC"
| "tag (val_time_span_vec v) = OV_VT_TIME_SPAN_VEC"
| "tag (val_state_vec v) = OV_VT_STATE_VEC"

lemma xdr_array_cong [fundef_cong]:
  "xs = ys \<Longrightarrow> (\<And>x. x \<in> set ys \<Longrightarrow> f x = g x) \<Longrightarrow> xdr_array f xs = xdr_array g ys"
  by (simp add: xdr_array_def cong: map_cong)

fun xdr_value :: "OV_VAR_VALUE \<Rightarrow> byte list"
  and xdr_union :: "VALUEUNION \<Rightarrow> byte list"
  and xdr_element :: "OV_NAMED_ELEMENT \<Rightarrow> byte list" where
  "xdr_value (VAR t u) = xdr_uint (t AND OV_VT_KSMASK) @ xdr_union u"
| "xdr_union val_void = []"
| "xdr_union (val_bool v) = xdr_uint v"
| "xdr_union (val_int v) = xdr_uint v"
| "xdr_union (val_uint v) = xdr_uint v"
| "xdr_union (val_single v) = xdr_uint v"
| "xdr_union (val_double v) = xdr_double v"
| "xdr_union (val_string v) = xdr_string v"
| "xdr_union (val_time v) = xdr_time v"
| "xdr_union (val_time_span v) = xdr_time_span v"
| "xdr_union (val_state v) = xdr_uint v"
| "xdr_union (val_struct es) = xdr_array xdr_element es"
| "xdr_union (val_byte_vec v len) = xdr_opaque (case v of Some b \<Rightarrow> b | None \<Rightarrow> [])"
| "xdr_union (val_bool_vec v) = xdr_array xdr_uint v"
| "xdr_union (val_int_vec v) = xdr_array xdr_uint v"
| "xdr_union (val_uint_vec v) = xdr_array xdr_uint v"
| "xdr_union (val_single_vec v) = xdr_array xdr_uint v"
| "xdr_union (val_double_vec v) = xdr_array xdr_double v"
| "xdr_union (val_string_vec v) = xdr_array xdr_string v"
| "xdr_union (val_time_vec v) = xdr_array xdr_time v"
| "xdr_union (val_time_span_vec v) = xdr_array xdr_time_span v"
| "xdr_union (val_state_vec v) = xdr_array xdr_uint v"
| "xdr_element (name, value) = xdr_string name @ xdr_value value"

section \<open>The values that pass\<close>

text \<open>The type fits the member; vectors fit a block of memory; strings fit; a name is shorter than 255
  characters.\<close>

fun value_ok :: "OV_VAR_VALUE \<Rightarrow> bool"
  and union_ok :: "VALUEUNION \<Rightarrow> bool" where
  "value_ok (VAR t u) \<longleftrightarrow> t AND OV_VT_KSMASK = tag u \<and> union_ok u"
| "union_ok (val_string v) \<longleftrightarrow> string_ok v"
| "union_ok (val_struct es) \<longleftrightarrow> block_ok 32 (length es) \<and>
     (\<forall>(name, value) \<in> set es. name \<noteq> None \<and> string_ok name \<and> length (content name) < 255 \<and> value_ok value)"
| "union_ok (val_byte_vec v len) \<longleftrightarrow> (case v of None \<Rightarrow> True | Some b \<Rightarrow> fits (length b) \<and> len = of_nat (length b))"
| "union_ok (val_bool_vec v) \<longleftrightarrow> block_ok 4 (length v)"
| "union_ok (val_int_vec v) \<longleftrightarrow> block_ok 4 (length v)"
| "union_ok (val_uint_vec v) \<longleftrightarrow> block_ok 4 (length v)"
| "union_ok (val_single_vec v) \<longleftrightarrow> block_ok 4 (length v)"
| "union_ok (val_double_vec v) \<longleftrightarrow> block_ok 8 (length v)"
| "union_ok (val_string_vec v) \<longleftrightarrow> block_ok 8 (length v) \<and> (\<forall>s\<in>set v. string_ok s)"
| "union_ok (val_time_vec v) \<longleftrightarrow> block_ok 8 (length v)"
| "union_ok (val_time_span_vec v) \<longleftrightarrow> block_ok 8 (length v)"
| "union_ok (val_state_vec v) \<longleftrightarrow> block_ok 4 (length v)"
| "union_ok u \<longleftrightarrow> True"

text \<open>The value that is read: bits of the type outside the mask are lost, a \<open>NULL\<close> string is an empty one,
  an empty vector of bytes is \<open>NULL\<close>.\<close>

fun normal :: "OV_VAR_VALUE \<Rightarrow> OV_VAR_VALUE"
  and normal_union :: "VALUEUNION \<Rightarrow> VALUEUNION" where
  "normal (VAR t u) = VAR (t AND OV_VT_KSMASK) (normal_union u)"
| "normal_union (val_string v) = val_string (Some (content v))"
| "normal_union (val_struct es) = val_struct (map (\<lambda>(name, value). (Some (content name), normal value)) es)"
| "normal_union (val_byte_vec v len) =
    (case v of Some b \<Rightarrow> if b = [] then val_byte_vec None 0 else val_byte_vec (Some b) len | None \<Rightarrow> val_byte_vec None 0)"
| "normal_union (val_string_vec v) = val_string_vec (map (\<lambda>s. Some (content s)) v)"
| "normal_union u = u"

text \<open>How deep structures are nested.\<close>

fun depth :: "OV_VAR_VALUE \<Rightarrow> nat"
  and depth_union :: "VALUEUNION \<Rightarrow> nat" where
  "depth (VAR t u) = Suc (depth_union u)"
| "depth_union (val_struct es) = Max (insert 0 (set (map (\<lambda>(name, value). depth value) es)))"
| "depth_union u = 0"

section \<open>Writing and reading a value\<close>

lemma mask_idem: "t AND (t AND OV_VT_KSMASK) = t AND OV_VT_KSMASK" "t AND OV_VT_KSMASK AND OV_VT_KSMASK = t AND OV_VT_KSMASK"
  by (simp_all add: and.assoc and.left_commute)

lemma byte_vec_writes:
  assumes "case v of None \<Rightarrow> True | Some b \<Rightarrow> fits (length b) \<and> len = of_nat (length b)"
  shows "wlaw (KS_DATAPACKET_write_xdr_opaque v len) (xdr_opaque (case v of Some b \<Rightarrow> b | None \<Rightarrow> []))"
  using assms by (auto simp: law split: option.splits)

lemma byte_vec_reads:
  assumes "case v of None \<Rightarrow> True | Some b \<Rightarrow> fits (length b) \<and> len = of_nat (length b)"
  shows "rlaw (xmap (\<lambda>(v, len). val_byte_vec v len) (KS_DATAPACKET_read_xdr_opaque_tomemstack (NOT 0)))
    (xdr_opaque (case v of Some b \<Rightarrow> b | None \<Rightarrow> [])) (normal_union (val_byte_vec v len))"
proof -
  let ?b = "case v of Some b \<Rightarrow> b | None \<Rightarrow> []"
  have u: "unat (NOT 0 :: OV_UINT) = 4294967295" by (simp add: unsigned_minus_1_eq_mask mask_eq_exp_minus_1)
  have f: "fits (length ?b)" using assms by (auto simp: fits_def split: option.splits)
  then have "length ?b < unat (NOT 0 :: OV_UINT)" unfolding u by (simp add: fits_def)
  then have "rlaw (KS_DATAPACKET_read_xdr_opaque_tomemstack (NOT 0)) (xdr_opaque ?b)
      (if ?b = [] then (None, 0) else (Some ?b, of_nat (length ?b)))" by (rule opaque_reads [OF f])
  then show ?thesis
    unfolding xmap_def by (rule rlaw_mapI) (use assms in \<open>auto split: option.splits\<close>)
qed

lemma write_value_law:
  "value_ok v \<Longrightarrow> wlaw (KS_DATAPACKET_write_xdr_OV_VAR_VALUE v) (xdr_value v)"
  "union_ok u \<Longrightarrow> k = tag u \<Longrightarrow> wlaw (write_union k u) (xdr_union u)"
  "(case e of (name, value) \<Rightarrow> name \<noteq> None \<and> string_ok name \<and> length (content name) < 255 \<and> value_ok value) \<Longrightarrow>
    wlaw (KS_DATAPACKET_write_xdr_OV_NAMED_ELEMENT e) (xdr_element e)"
proof (induction v and k u and e rule: KS_DATAPACKET_write_xdr_OV_VAR_VALUE_write_union_KS_DATAPACKET_write_xdr_OV_NAMED_ELEMENT.induct)
  case (1 t u)
  then show ?case by (simp add: Let_def mask_idem wlaw_bind int_writes)
next
  case (12 k es)
  then show ?case by (auto intro!: array_writes)
next
  case (23 name v)
  then show ?case by (auto simp: KS_NAME_MAXLEN_def content_def intro!: wlaw_bind string_codes)
qed (simp_all add: law array_writes byte_vec_writes other_case_def)

lemma element_reads:
  assumes "string_ok name" "length (content name) < 255" "rlaw rv (xdr_value v) w"
  shows "rlaw (KS_DATAPACKET_read_xdr_OV_NAMED_ELEMENT rv) (xdr_element (name, v)) (Some (content name), w)"
proof -
  have "rlaw (KS_DATAPACKET_read_xdr_string_tomemstack KS_NAME_MAXLEN) (xdr_string name) (Some (content name))"
    using assms(1,2) by (intro string_reads) (simp_all add: string_ok_def KS_NAME_MAXLEN_def)
  then show ?thesis
    unfolding KS_DATAPACKET_read_xdr_OV_NAMED_ELEMENT_def xdr_element.simps
    by (rule rlaw_bind) (rule rlaw_mapI [OF assms(3)], simp)
qed

lemma array_reads_same:
  assumes "\<And>x. rlaw rd (enc x) x" "block_ok es (length xs)"
  shows "rlaw (KS_DATAPACKET_read_xdr_array_tomemstack es rd) (xdr_array enc xs) xs"
  using array_reads [of xs rd enc "\<lambda>x. x"] assms by simp

lemma read_union_law:
  assumes "union_ok u"
    and "\<And>es name v. u = val_struct es \<Longrightarrow> (name, v) \<in> set es \<Longrightarrow> value_ok v \<Longrightarrow> rlaw rv (xdr_value v) (normal v)"
  shows "rlaw (read_union rv (tag u)) (xdr_union u) (normal_union u)"
proof (cases u)
  case (val_struct es)
  have "rlaw (KS_DATAPACKET_read_xdr_array_tomemstack 32 (KS_DATAPACKET_read_xdr_OV_NAMED_ELEMENT rv))
      (xdr_array xdr_element es) (map (\<lambda>(name, v). (Some (content name), normal v)) es)"
    using assms by (intro array_reads) (auto simp: val_struct intro!: element_reads)
  then show ?thesis by (simp add: val_struct read_union_def vt_defs xmap_def rlaw_map)
next
  case (val_string_vec v)
  have "rlaw (KS_DATAPACKET_read_xdr_array_tomemstack 8 KS_DATAPACKET_read_xdr_string_tomemstack_wolength)
      (xdr_array xdr_string v) (map (\<lambda>s. Some (content s)) v)"
    using assms(1) by (intro array_reads string_codes) (auto simp: val_string_vec)
  then show ?thesis by (simp add: val_string_vec read_union_def vt_defs xmap_def rlaw_map)
next
  case (val_byte_vec v len)
  then show ?thesis using byte_vec_reads [where v = v and len = len] assms(1) by (simp add: read_union_def vt_defs)
next
  case (val_string v)
  then show ?thesis using string_codes(2) [of v] assms(1) by (simp add: read_union_def vt_defs xmap_def rlaw_map)
qed (use assms(1) in \<open>simp_all add: read_union_def vt_defs xmap_def rlaw_map rlaw_done array_reads_same law\<close>)

lemma read_value_law:
  "value_ok v \<Longrightarrow> depth v \<le> n \<Longrightarrow> rlaw (KS_DATAPACKET_read_xdr_OV_VAR_VALUE n) (xdr_value v) (normal v)"
proof (induction n arbitrary: v)
  case 0
  then show ?case by (cases v) simp
next
  case (Suc n)
  obtain t u where v: "v = VAR t u" by (cases v)
  have "rlaw (read_union (KS_DATAPACKET_read_xdr_OV_VAR_VALUE n) (tag u)) (xdr_union u) (normal_union u)"
  proof (rule read_union_law)
    show "union_ok u" using Suc.prems(1) by (simp add: v)
  next
    fix es name w
    assume u: "u = val_struct es" and e: "(name, w) \<in> set es" and w: "value_ok w"
    have "depth w \<le> depth_union u" using e by (force simp: u intro: Max_ge)
    then show "rlaw (KS_DATAPACKET_read_xdr_OV_VAR_VALUE n) (xdr_value w) (normal w)"
      using Suc.prems(2) by (intro Suc.IH w) (simp add: v)
  qed
  moreover have "tag u = t AND OV_VT_KSMASK" using Suc.prems(1) by (simp add: v)
  ultimately show ?case
    by (simp add: v xmap_def mask_idem rlaw_bind [OF int_reads] rlaw_map)
qed

lemma value_aligned:
  "4 dvd length (xdr_value v)" "4 dvd length (xdr_union u)" "4 dvd length (xdr_element e)"
proof (induction v and u and e rule: xdr_value_xdr_union_xdr_element.induct)
  case (12 es)
  then have "4 dvd length (concat (map xdr_element es))" by (induction es) auto
  then show ?case by (simp add: xdr_array_def)
next
  case (19 v)
  then show ?case by (induction v) (simp_all add: xdr_array_def xdr_aligned)
next
  case (20 v)
  then show ?case by (induction v) (simp_all add: xdr_array_def xdr_aligned)
next
  case (21 v)
  then show ?case by (induction v) (simp_all add: xdr_array_def xdr_aligned)
qed (simp_all add: xdr_aligned xdr_array_def length_concat comp_def sum_list_triv)

text \<open>Values whose structures are nested at most \<open>n\<close> deep.\<close>

interpretation value_codec: codec KS_DATAPACKET_write_xdr_OV_VAR_VALUE "KS_DATAPACKET_read_xdr_OV_VAR_VALUE n"
    xdr_value normal "\<lambda>v. value_ok v \<and> depth v \<le> n" for n
  by unfold_locales (simp_all add: write_value_law read_value_law value_aligned)

section \<open>What the code promises\<close>

text \<open>C16: A value of any type, structures nested in structures included, is read back as it was written:
  writing appends its encoding to the packet and leaves the earlier bytes alone, and reading where
  the encoding stands gives the value up to its normal form and moves the read pointer behind it,
  whatever bytes follow. Memory is granted, the packet stays below 2^32 bytes and the stack admits
  the depth of the value.\<close>

theorem value_roundtrip:
  assumes "value_ok v" "depth v \<le> n" "length d + length (xdr_value v) + length e < 4294967296"
  shows "KS_DATAPACKET_write_xdr_OV_VAR_VALUE v (written d) = XDone () (pkt (d @ xdr_value v) 0) \<and>
    KS_DATAPACKET_read_xdr_OV_VAR_VALUE n (pkt (d @ xdr_value v @ e) (length d)) =
      XDone (normal v) (pkt (d @ xdr_value v @ e) (length (d @ xdr_value v)))"
proof (rule value_codec.roundtrip [where n = n])
  obtain t u where "v = VAR t u" by (cases v)
  then show "xdr_value v \<noteq> []" by (simp flip: length_0_conv)
qed (use assms in simp_all)

text \<open>A structure with an integer and a structure that holds a vector of strings; its type carries the
  bit of a time stamp.\<close>

definition a_value :: OV_VAR_VALUE where
  "a_value = VAR 0x00020040 (val_struct
     [(Some ''n'', VAR OV_VT_INT (val_int 7)),
      (Some ''s'', VAR OV_VT_STRUCT (val_struct [(Some ''v'', VAR OV_VT_STRING_VEC (val_string_vec [None, Some ''ab'']))]))])"

lemma a_value_ok: "value_ok a_value" "depth a_value \<le> 3"
  by (simp_all add: a_value_def vt_defs OV_VT_KSMASK_def string_ok_def fits_def content_def block_ok_def)

theorem value_roundtrip_witness:
  "\<exists>b. length b = 68 \<and>
    KS_DATAPACKET_write_xdr_OV_VAR_VALUE a_value (written [1, 2, 3, 4]) = XDone () (pkt ([1, 2, 3, 4] @ b) 0) \<and>
    KS_DATAPACKET_read_xdr_OV_VAR_VALUE 3 (pkt ([1, 2, 3, 4] @ b @ [9]) 4) =
      XDone (VAR OV_VT_STRUCT (val_struct
       [(Some ''n'', VAR OV_VT_INT (val_int 7)),
        (Some ''s'', VAR OV_VT_STRUCT (val_struct [(Some ''v'', VAR OV_VT_STRING_VEC (val_string_vec [Some '''', Some ''ab'']))]))]))
       (pkt ([1, 2, 3, 4] @ b @ [9]) 72)"
proof -
  have four: "Suc (Suc (Suc (Suc 0))) = 4" by simp
  have l: "length (xdr_value a_value) = 68"
    by (simp add: a_value_def xdr_array_def xdr_string_def xdr_opaque_def content_def bytes_of_def fill_def)
  have n: "normal a_value = VAR OV_VT_STRUCT (val_struct
       [(Some ''n'', VAR OV_VT_INT (val_int 7)),
        (Some ''s'', VAR OV_VT_STRUCT (val_struct [(Some ''v'', VAR OV_VT_STRING_VEC (val_string_vec [Some '''', Some ''ab'']))]))])"
    by (simp add: a_value_def vt_defs OV_VT_KSMASK_def content_def)
  show ?thesis
    using value_roundtrip [OF a_value_ok, of "[1, 2, 3, 4]" "[9]"] l n by (intro exI [of _ "xdr_value a_value"]) (simp add: four)
qed

text \<open>The readers check that the read pointer stands inside the packet, not that the bytes they read
  are there: reading a number succeeds where four bytes are left, reads outside the block of the
  packet where fewer are left, down to none at its end, and fails only for a pointer that already
  stands behind the end.\<close>

lemma number_read_at_end:
  assumes "length d < 4294967296"
  shows "KS_DATAPACKET_read_xdr_uint (pkt d r) =
    (if length d < r then XFailed OV_ERR_GENERIC (pkt d r)
     else if length d < r + 4 then XUndefined
     else XDone (join4 (take 4 (drop r d))) (pkt d (r + 4)))"
  using assms
  by (simp add: KS_DATAPACKET_read_xdr_uint_def xbind_def fetch_pkt xdone_def)

text \<open>The length that precedes a string is believed, too.\<close>

lemma string_length_believed:
  assumes "length d < 4294967296" "stands d r (xdr_uint len)" "len \<noteq> - 1"
    and "length d < r + 4 + unat len"
  shows "KS_DATAPACKET_read_xdr_string_tomemstack_wolength (pkt d r) = XUndefined"
proof -
  have u: "if_failed OV_ERR_GENERIC KS_DATAPACKET_read_xdr_uint (pkt d r) = XDone len (pkt d (r + 4))"
    using rlaw_if_failed [OF uint_reads] assms(1,2) by (simp add: rlaw_def)
  have e: "\<not> length d < r + 4" using assms(2) by (simp add: stands_def)
  have "len < - 1" using assms(3) by (simp add: word_order.not_eq_extremum)
  then have m: "\<not> (NOT 0 :: OV_UINT) \<le> len" by simp
  show ?thesis
    using assms(1,4) m
    by (simp add: KS_DATAPACKET_read_xdr_string_tomemstack_wolength_def KS_DATAPACKET_read_xdr_string_tomemstack_def
        xbind_def u xguard_pkt xblock_pkt fetch_pkt e)
qed

text \<open>The number of elements that an array announces is believed: where it makes the product with
  the size of an element wrap around to less than one element, the block that is allocated is too
  small and the first element is written outside it, whatever the reader of the elements does.\<close>

lemma array_size_wraps:
  assumes "length d < 4294967296" "stands d r (xdr_uint len)" "0 < len" "unat (len * es) < unat es"
  shows "KS_DATAPACKET_read_xdr_array_tomemstack es readfnc (pkt d r) = XUndefined"
proof -
  have u: "KS_DATAPACKET_read_xdr_uint (pkt d r) = XDone len (pkt d (r + 4))"
    using uint_reads assms(1,2) by (simp add: rlaw_def)
  obtain k where "unat len = Suc k" using assms(3) by (metis not0_implies_Suc unat_eq_zero word_gt_0)
  then show ?thesis
    using assms(4)
    by (simp add: KS_DATAPACKET_read_xdr_array_tomemstack_def xbind_def u xblock_pkt xundefined_def)
qed

text \<open>2^29 strings of eight bytes each need a block of no bytes.\<close>

text \<open>The writer admits names of up to 255 characters, the reader less than that: an element whose
  name has exactly 255 characters is written, and reading what was written fails.\<close>

lemma longest_name_not_read:
  assumes "string_ok (Some s)" "length s = 255" "value_ok v"
    and "length (xdr_element (Some s, v)) + length d < 4294967296"
  defines "b \<equiv> xdr_element (Some s, v)"
  shows "KS_DATAPACKET_write_xdr_OV_NAMED_ELEMENT (Some s, v) (written d) = XDone () (written (d @ b)) \<and>
    KS_DATAPACKET_read_xdr_OV_NAMED_ELEMENT rv (pkt (d @ b) (length d)) = XFailed OV_ERR_BADVALUE (pkt (d @ b) (length d))"
proof -
  have "wlaw (KS_DATAPACKET_write_xdr_OV_NAMED_ELEMENT (Some s, v)) b"
    using assms(1-3) unfolding b_def
    by (auto simp: KS_NAME_MAXLEN_def intro!: wlaw_bind string_codes write_value_law)
  then have w: "KS_DATAPACKET_write_xdr_OV_NAMED_ELEMENT (Some s, v) (written d) = XDone () (written (d @ b))"
    using assms(4) by (simp add: wlaw_def b_def add.commute)
  have "stands (d @ b) (length d) (xdr_uint 255)"
    using stands_middle [of d b "[]"] assms(2)
    by (simp add: b_def xdr_string_def xdr_opaque_def content_def bytes_of_def)
  then have u: "if_failed OV_ERR_GENERIC KS_DATAPACKET_read_xdr_uint (pkt (d @ b) (length d)) =
      XDone 255 (pkt (d @ b) (length d + 4))"
    using rlaw_if_failed [OF uint_reads] assms(4) by (simp add: rlaw_def b_def add.commute)
  have "KS_DATAPACKET_read_xdr_string_tomemstack KS_NAME_MAXLEN (pkt (d @ b) (length d)) =
      XFailed OV_ERR_BADVALUE (pkt (d @ b) (length d))"
    by (simp add: KS_DATAPACKET_read_xdr_string_tomemstack_def xbind_def u KS_NAME_MAXLEN_def rewind4_pkt xfail_def)
  then show ?thesis
    using w by (simp add: KS_DATAPACKET_read_xdr_OV_NAMED_ELEMENT_def xbind_def)
qed

definition longest_name :: string where
  "longest_name = replicate 255 (CHR ''a'')"

lemma longest_name_not_read_example:
  "\<exists>b. KS_DATAPACKET_write_xdr_OV_NAMED_ELEMENT (Some longest_name, VAR OV_VT_VOID val_void) (written []) =
      XDone () (written b) \<and>
    KS_DATAPACKET_read_xdr_OV_NAMED_ELEMENT (KS_DATAPACKET_read_xdr_OV_VAR_VALUE 1) (pkt b 0) =
      XFailed OV_ERR_BADVALUE (pkt b 0)"
proof -
  have s: "string_ok (Some longest_name)" "length longest_name = 255"
    by (simp_all add: string_ok_def content_def longest_name_def fits_def)
  moreover have "value_ok (VAR OV_VT_VOID val_void)" by (simp add: vt_defs)
  moreover have "length (xdr_element (Some longest_name, VAR OV_VT_VOID val_void)) = 264"
    using s(2) by (simp add: xdr_string_def xdr_opaque_def content_def bytes_of_def fill_def)
  ultimately show ?thesis
    using longest_name_not_read [of longest_name "VAR OV_VT_VOID val_void" "[]"] by auto
qed

text \<open>A value whose structures are nested deeper than the stack admits: each level costs sixteen bytes of
  a packet.\<close>

primrec nested :: "nat \<Rightarrow> OV_VAR_VALUE" where
  "nested 0 = VAR OV_VT_VOID val_void"
| "nested (Suc n) = VAR OV_VT_STRUCT (val_struct [(Some ''a'', nested n)])"

lemma nested_length: "length (xdr_value (nested n)) = 16 * n + 4"
  by (induction n) (simp_all add: xdr_array_def xdr_string_def xdr_opaque_def content_def bytes_of_def fill_def)

lemma nested_too_deep:
  assumes "length d < 4294967296" "stands d r (xdr_value (nested n))"
  shows "KS_DATAPACKET_read_xdr_OV_VAR_VALUE n (pkt d r) = XTooDeep"
  using assms(2)
proof (induction n arbitrary: r)
  case (Suc n)
  have t: "OV_VT_STRUCT AND OV_VT_KSMASK = OV_VT_STRUCT" by (simp add: vt_defs OV_VT_KSMASK_def)
  have l: "length (xdr_string (Some ''a'')) = 8"
    by (simp add: xdr_string_def xdr_opaque_def content_def bytes_of_def fill_def)
  have s: "stands d r (xdr_uint OV_VT_STRUCT)" "stands d (r + 4) (xdr_uint 1)"
    "stands d (r + 8) (xdr_string (Some ''a''))" "stands d (r + 16) (xdr_value (nested n))"
    using Suc.prems by (simp_all add: t xdr_array_def l add.assoc)
  have i: "KS_DATAPACKET_read_xdr_int (pkt d r) = XDone OV_VT_STRUCT (pkt d (r + 4))"
    using int_reads s(1) assms(1) by (simp add: rlaw_def)
  have u: "KS_DATAPACKET_read_xdr_uint (pkt d (r + 4)) = XDone 1 (pkt d (r + 8))"
    using uint_reads [of 1, unfolded rlaw_def, rule_format, OF assms(1) s(2)] by (simp add: ac_simps)
  have "rlaw (KS_DATAPACKET_read_xdr_string_tomemstack KS_NAME_MAXLEN) (xdr_string (Some ''a'')) (Some (content (Some ''a'')))"
    by (rule string_reads) (simp_all add: content_def fits_def KS_NAME_MAXLEN_def)
  then have n: "KS_DATAPACKET_read_xdr_string_tomemstack KS_NAME_MAXLEN (pkt d (r + 8)) = XDone (Some ''a'') (pkt d (r + 16))"
    using s(3) assms(1) by (simp add: rlaw_def l content_def) (simp add: ac_simps)
  have b: "xblock 32 0 (pkt d (r + 8)) = XDone () (pkt d (r + 8))"
    by (simp add: xblock_pkt)
  have e: "KS_DATAPACKET_read_xdr_array_tomemstack 32
      (KS_DATAPACKET_read_xdr_OV_NAMED_ELEMENT (KS_DATAPACKET_read_xdr_OV_VAR_VALUE n)) (pkt d (r + 4)) = XTooDeep"
    using Suc.IH [OF s(4)] n b
    by (simp add: KS_DATAPACKET_read_xdr_array_tomemstack_def xbind_def u Let_def KS_DATAPACKET_read_xdr_OV_NAMED_ELEMENT_def)
  have "read_union (KS_DATAPACKET_read_xdr_OV_VAR_VALUE n) OV_VT_STRUCT (pkt d (r + 4)) = XTooDeep"
    using e by (simp add: read_union_def xmap_def vt_defs) (simp add: xbind_def)
  then show ?case by (simp add: xbind_def i t xmap_def)
qed simp

end
