(* ===== verification/XdrItemLaws.thy ===== *)
theory XdrItemLaws
  imports XdrItems XdrValueLaws
begin

text \<open>
  The codecs of the data of the services: what the client writes the server reads, and the other way
  round. A string that is read is never \<open>NULL\<close>; the path of a placement without a neighbour is lost.
\<close>

named_theorems coded \<open>routines that write and read an item\<close>

lemma int_coded [coded]:
  "wlaw (KS_DATAPACKET_write_xdr_int (Some v)) (xdr_uint v)" "rlaw KS_DATAPACKET_read_xdr_int (xdr_uint v) v"
  "wlaw (KS_DATAPACKET_write_xdr_uint (Some v)) (xdr_uint v)" "rlaw KS_DATAPACKET_read_xdr_uint (xdr_uint v) v"
  by (rule law)+

definition as_read :: "OV_STRING \<Rightarrow> OV_STRING" where
  "as_read s = Some (content s)"

lemma string_coded [coded]:
  "string_ok s \<Longrightarrow> wlaw (KS_DATAPACKET_write_xdr_string s) (xdr_string s)"
  "string_ok s \<Longrightarrow> rlaw KS_DATAPACKET_read_xdr_string_tomemstack_wolength (xdr_string s) (as_read s)"
  by (simp_all add: string_codes as_read_def)

lemma time_coded [coded]:
  "wlaw (KS_DATAPACKET_write_xdr_OV_TIME t) (xdr_time t)" "rlaw KS_DATAPACKET_read_xdr_OV_TIME (xdr_time t) t"
  by (rule time_codes)+

lemma value_coded [coded]:
  "value_ok v \<Longrightarrow> wlaw (KS_DATAPACKET_write_xdr_OV_VAR_VALUE v) (xdr_value v)"
  "value_ok v \<Longrightarrow> depth v \<le> n \<Longrightarrow> rlaw (KS_DATAPACKET_read_xdr_OV_VAR_VALUE n) (xdr_value v) (normal v)"
  by (simp_all add: write_value_law read_value_law)

section \<open>Variables\<close>

definition xdr_props :: "OV_VAR_CURRENT_PROPS \<Rightarrow> byte list" where
  "xdr_props p = xdr_value (cp_value p) @ xdr_time (cp_time p) @ xdr_uint (cp_state p)"

definition props_ok :: "nat \<Rightarrow> OV_VAR_CURRENT_PROPS \<Rightarrow> bool" where
  "props_ok n p \<longleftrightarrow> value_ok (cp_value p) \<and> depth (cp_value p) \<le> n"

definition normal_props :: "OV_VAR_CURRENT_PROPS \<Rightarrow> OV_VAR_CURRENT_PROPS" where
  "normal_props p = p\<lparr>cp_value := normal (cp_value p)\<rparr>"

lemma props_coded [coded]:
  assumes "props_ok n p"
  shows "wlaw (xdr_write_OV_VAR_CURRENT_PROPS p) (xdr_props p)"
    and "rlaw (xdr_read_OV_VAR_CURRENT_PROPS n) (xdr_props p) (normal_props p)"
proof -
  have v: "value_ok (cp_value p)" "depth (cp_value p) \<le> n" using assms by (simp_all add: props_ok_def)
  show "wlaw (xdr_write_OV_VAR_CURRENT_PROPS p) (xdr_props p)"
    unfolding xdr_write_OV_VAR_CURRENT_PROPS_def xdr_props_def by (rule wlaw_bind coded v)+
  show "rlaw (xdr_read_OV_VAR_CURRENT_PROPS n) (xdr_props p) (normal_props p)"
    unfolding xdr_read_OV_VAR_CURRENT_PROPS_def xdr_props_def normal_props_def
    by (rule rlaw_bind rlaw_mapI coded v | simp)+
qed

definition xdr_setvar :: "OV_SETVAR_ITEM \<Rightarrow> byte list" where
  "xdr_setvar i = xdr_string (path_and_name i) @ xdr_uint KS_OT_VARIABLE @ xdr_props (set_props i)"

definition setvar_ok :: "nat \<Rightarrow> OV_SETVAR_ITEM \<Rightarrow> bool" where
  "setvar_ok n i \<longleftrightarrow> string_ok (path_and_name i) \<and> props_ok n (set_props i)"

definition normal_setvar :: "OV_SETVAR_ITEM \<Rightarrow> OV_SETVAR_ITEM" where
  "normal_setvar i = \<lparr>path_and_name = as_read (path_and_name i), set_props = normal_props (set_props i)\<rparr>"

lemma setvar_coded [coded]:
  assumes "setvar_ok n i"
  shows "wlaw (xdr_write_OV_SETVAR_ITEM i) (xdr_setvar i)"
    and "rlaw (xdr_read_OV_SETVAR_ITEM n) (xdr_setvar i) (normal_setvar i)"
proof -
  have v: "string_ok (path_and_name i)" "props_ok n (set_props i)" using assms by (simp_all add: setvar_ok_def)
  show "wlaw (xdr_write_OV_SETVAR_ITEM i) (xdr_setvar i)"
    unfolding xdr_write_OV_SETVAR_ITEM_def xdr_setvar_def by (rule wlaw_bind coded v)+
  show "rlaw (xdr_read_OV_SETVAR_ITEM n) (xdr_setvar i) (normal_setvar i)"
    unfolding xdr_read_OV_SETVAR_ITEM_def xdr_setvar_def normal_setvar_def
    by (rule rlaw_bind rlaw_mapI coded v | simp)+
qed

fun xdr_getvar :: "OV_GETVAR_ITEM \<Rightarrow> byte list" where
  "xdr_getvar (got_failure result) = xdr_uint result"
| "xdr_getvar (got_var p) = xdr_uint 0 @ xdr_uint KS_OT_VARIABLE @ xdr_props p"

fun getvar_ok :: "nat \<Rightarrow> OV_GETVAR_ITEM \<Rightarrow> bool" where
  "getvar_ok n (got_failure result) \<longleftrightarrow> result \<noteq> 0"
| "getvar_ok n (got_var p) \<longleftrightarrow> props_ok n p"

fun normal_getvar :: "OV_GETVAR_ITEM \<Rightarrow> OV_GETVAR_ITEM" where
  "normal_getvar (got_failure result) = got_failure result"
| "normal_getvar (got_var p) = got_var (normal_props p)"

text \<open>A reader that branches on a number.\<close>

lemma rlaw_int_then: "rlaw (k v) c x \<Longrightarrow> rlaw (xbind KS_DATAPACKET_read_xdr_int k) (xdr_uint v @ c) x"
  by (rule rlaw_bind [OF int_coded(2)])

lemma rlaw_int_only: "rlaw (k v) [] x \<Longrightarrow> rlaw (xbind KS_DATAPACKET_read_xdr_int k) (xdr_uint v) x"
  using rlaw_int_then [of k v "[]" x] by simp

lemma wlaw_then_done: "wlaw m b \<Longrightarrow> wlaw (xbind m xdone) b"
  using wlaw_bind [OF _ wlaw_done, of m b] by simp

lemma getvar_coded [coded]:
  assumes "getvar_ok n i"
  shows "wlaw (xdr_write_OV_GETVAR_ITEM i) (xdr_getvar i)"
    and "rlaw (xdr_read_OV_GETVAR_ITEM n) (xdr_getvar i) (normal_getvar i)"
proof -
  show "wlaw (xdr_write_OV_GETVAR_ITEM i) (xdr_getvar i)"
  proof (cases i)
    case (got_failure result)
    then show ?thesis using assms by (simp add: xdr_write_OV_GETVAR_ITEM_def wlaw_then_done coded)
  next
    case (got_var p)
    then have p: "props_ok n p" using assms by simp
    show ?thesis
      unfolding got_var xdr_getvar.simps xdr_write_OV_GETVAR_ITEM_def OV_GETVAR_ITEM.case by (rule wlaw_bind coded p)+
  qed
  show "rlaw (xdr_read_OV_GETVAR_ITEM n) (xdr_getvar i) (normal_getvar i)"
  proof (cases i)
    case (got_failure result)
    then show ?thesis
      using assms unfolding xdr_read_OV_GETVAR_ITEM_def by (auto intro!: rlaw_int_only rlaw_done)
  next
    case (got_var p)
    then have "props_ok n p" using assms by simp
    then show ?thesis
      unfolding got_var xdr_getvar.simps xdr_read_OV_GETVAR_ITEM_def
      by (auto simp: xmap_def intro!: rlaw_int_then rlaw_map coded)
  qed
qed

section \<open>Placements and links\<close>

text \<open>A code from 0 to 4 is never one of the other hints.\<close>

definition placed :: "OV_PLACEMENT_HINT \<Rightarrow> bool" where
  "placed h \<longleftrightarrow> h = OV_PMH_BEFORE \<or> h = OV_PMH_AFTER"

definition hint_ok :: "OV_PLACEMENT_HINT \<Rightarrow> bool" where
  "hint_ok h \<longleftrightarrow> (case h of OV_PMH_OTHER c \<Rightarrow> 4 < c | _ \<Rightarrow> True)"

lemma hint_of_code [simp]: "hint_ok h \<Longrightarrow> hint_of_code (hint_code h) = h"
  by (auto simp: hint_ok_def hint_of_code_def split: OV_PLACEMENT_HINT.splits)

definition xdr_placement :: "OV_PLACEMENT \<Rightarrow> byte list" where
  "xdr_placement p = xdr_uint (hint_code (pl_hint p)) @ (if placed (pl_hint p) then xdr_string (pl_path p) else [])"

definition placement_ok :: "OV_PLACEMENT \<Rightarrow> bool" where
  "placement_ok p \<longleftrightarrow> hint_ok (pl_hint p) \<and> (placed (pl_hint p) \<longrightarrow> string_ok (pl_path p))"

definition normal_placement :: "OV_PLACEMENT \<Rightarrow> OV_PLACEMENT" where
  "normal_placement p = \<lparr>pl_hint = pl_hint p, pl_path = if placed (pl_hint p) then as_read (pl_path p) else None\<rparr>"

lemma placement_coded [coded]:
  assumes "placement_ok p"
  shows "wlaw (xdr_write_OV_PLACEMENT p) (xdr_placement p)"
    and "rlaw xdr_read_OV_PLACEMENT (xdr_placement p) (normal_placement p)"
proof -
  have h: "hint_of_code (hint_code (pl_hint p)) = pl_hint p" using assms by (simp add: placement_ok_def)
  show "wlaw (xdr_write_OV_PLACEMENT p) (xdr_placement p)"
    using assms unfolding xdr_write_OV_PLACEMENT_def xdr_placement_def placed_def [symmetric]
    by (cases "placed (pl_hint p)") (simp_all add: placement_ok_def wlaw_then_done wlaw_bind coded)
  show "rlaw xdr_read_OV_PLACEMENT (xdr_placement p) (normal_placement p)"
    using assms
    unfolding xdr_read_OV_PLACEMENT_def xdr_placement_def normal_placement_def placed_def [symmetric] Let_def
    by (auto simp: placement_ok_def h intro!: rlaw_int_then rlaw_int_only rlaw_mapI rlaw_done coded)
qed

definition xdr_link :: "OV_LINK_ITEM \<Rightarrow> byte list" where
  "xdr_link i = xdr_string (li_link_path i) @ xdr_string (li_element_path i) @
     xdr_placement (li_place i) @ xdr_placement (li_opposite_place i)"

definition link_ok :: "OV_LINK_ITEM \<Rightarrow> bool" where
  "link_ok i \<longleftrightarrow> string_ok (li_link_path i) \<and> string_ok (li_element_path i) \<and>
     placement_ok (li_place i) \<and> placement_ok (li_opposite_place i)"

definition normal_link :: "OV_LINK_ITEM \<Rightarrow> OV_LINK_ITEM" where
  "normal_link i = \<lparr>li_link_path = as_read (li_link_path i), li_element_path = as_read (li_element_path i),
     li_place = normal_placement (li_place i), li_opposite_place = normal_placement (li_opposite_place i)\<rparr>"

lemma link_coded [coded]:
  assumes "link_ok i"
  shows "wlaw (xdr_write_OV_LINK_ITEM i) (xdr_link i)" and "rlaw xdr_read_OV_LINK_ITEM (xdr_link i) (normal_link i)"
proof -
  have v: "string_ok (li_link_path i)" "string_ok (li_element_path i)"
    "placement_ok (li_place i)" "placement_ok (li_opposite_place i)" using assms by (simp_all add: link_ok_def)
  show "wlaw (xdr_write_OV_LINK_ITEM i) (xdr_link i)"
    unfolding xdr_write_OV_LINK_ITEM_def xdr_link_def by (rule wlaw_bind coded v)+
  show "rlaw xdr_read_OV_LINK_ITEM (xdr_link i) (normal_link i)"
    unfolding xdr_read_OV_LINK_ITEM_def xdr_link_def normal_link_def by (rule rlaw_bind rlaw_mapI coded v | simp)+
qed

definition xdr_unlink :: "OV_UNLINK_ITEM \<Rightarrow> byte list" where
  "xdr_unlink i = xdr_string (ui_link_path i) @ xdr_string (ui_element_path i)"

definition unlink_ok :: "OV_UNLINK_ITEM \<Rightarrow> bool" where
  "unlink_ok i \<longleftrightarrow> string_ok (ui_link_path i) \<and> string_ok (ui_element_path i)"

definition normal_unlink :: "OV_UNLINK_ITEM \<Rightarrow> OV_UNLINK_ITEM" where
  "normal_unlink i = \<lparr>ui_link_path = as_read (ui_link_path i), ui_element_path = as_read (ui_element_path i)\<rparr>"

lemma unlink_coded [coded]:
  assumes "unlink_ok i"
  shows "wlaw (xdr_write_OV_UNLINK_ITEM i) (xdr_unlink i)" and "rlaw xdr_read_OV_UNLINK_ITEM (xdr_unlink i) (normal_unlink i)"
proof -
  have v: "string_ok (ui_link_path i)" "string_ok (ui_element_path i)" using assms by (simp_all add: unlink_ok_def)
  show "wlaw (xdr_write_OV_UNLINK_ITEM i) (xdr_unlink i)"
    unfolding xdr_write_OV_UNLINK_ITEM_def xdr_unlink_def by (rule wlaw_bind coded v)+
  show "rlaw xdr_read_OV_UNLINK_ITEM (xdr_unlink i) (normal_unlink i)"
    unfolding xdr_read_OV_UNLINK_ITEM_def xdr_unlink_def normal_unlink_def by (rule rlaw_bind rlaw_mapI coded v | simp)+
qed

section \<open>Objects\<close>

definition xdr_rename :: "OV_RENAMEOBJECT_ITEM \<Rightarrow> byte list" where
  "xdr_rename i = xdr_string (ri_old_path i) @ xdr_string (ri_new_path i) @ xdr_placement (ri_place i)"

definition rename_ok :: "OV_RENAMEOBJECT_ITEM \<Rightarrow> bool" where
  "rename_ok i \<longleftrightarrow> string_ok (ri_old_path i) \<and> string_ok (ri_new_path i) \<and> placement_ok (ri_place i)"

definition normal_rename :: "OV_RENAMEOBJECT_ITEM \<Rightarrow> OV_RENAMEOBJECT_ITEM" where
  "normal_rename i = \<lparr>ri_old_path = as_read (ri_old_path i), ri_new_path = as_read (ri_new_path i),
     ri_place = normal_placement (ri_place i)\<rparr>"

lemma rename_coded [coded]:
  assumes "rename_ok i"
  shows "wlaw (xdr_write_OV_RENAMEOBJECT_ITEM i) (xdr_rename i)"
    and "rlaw xdr_read_OV_RENAMEOBJECT_ITEM (xdr_rename i) (normal_rename i)"
proof -
  have v: "string_ok (ri_old_path i)" "string_ok (ri_new_path i)" "placement_ok (ri_place i)"
    using assms by (simp_all add: rename_ok_def)
  show "wlaw (xdr_write_OV_RENAMEOBJECT_ITEM i) (xdr_rename i)"
    unfolding xdr_write_OV_RENAMEOBJECT_ITEM_def xdr_rename_def by (rule wlaw_bind coded v)+
  show "rlaw xdr_read_OV_RENAMEOBJECT_ITEM (xdr_rename i) (normal_rename i)"
    unfolding xdr_read_OV_RENAMEOBJECT_ITEM_def xdr_rename_def normal_rename_def
    by (rule rlaw_bind rlaw_mapI coded v | simp)+
qed

definition xdr_create :: "OV_CREATEOBJ_ITEM \<Rightarrow> byte list" where
  "xdr_create i = xdr_string (co_factory_path i) @ xdr_string (co_new_path i) @ xdr_placement (co_place i) @
     xdr_array xdr_setvar (co_parameters i) @ xdr_array xdr_link (co_links i)"

definition create_ok :: "nat \<Rightarrow> OV_CREATEOBJ_ITEM \<Rightarrow> bool" where
  "create_ok n i \<longleftrightarrow> string_ok (co_factory_path i) \<and> string_ok (co_new_path i) \<and> placement_ok (co_place i) \<and>
     block_ok 48 (length (co_parameters i)) \<and> list_all (setvar_ok n) (co_parameters i) \<and>
     block_ok 48 (length (co_links i)) \<and> list_all link_ok (co_links i)"

definition normal_create :: "OV_CREATEOBJ_ITEM \<Rightarrow> OV_CREATEOBJ_ITEM" where
  "normal_create i = \<lparr>co_factory_path = as_read (co_factory_path i), co_new_path = as_read (co_new_path i),
     co_place = normal_placement (co_place i), co_parameters = map normal_setvar (co_parameters i),
     co_links = map normal_link (co_links i)\<rparr>"

lemma create_coded [coded]:
  assumes "create_ok n i"
  shows "wlaw (xdr_write_OV_CREATEOBJ_ITEM i) (xdr_create i)"
    and "rlaw (xdr_read_OV_CREATEOBJ_ITEM n) (xdr_create i) (normal_create i)"
proof -
  have v: "string_ok (co_factory_path i)" "string_ok (co_new_path i)" "placement_ok (co_place i)"
    using assms by (simp_all add: create_ok_def)
  have p: "setvar_ok n x" if "x \<in> set (co_parameters i)" for x
    using assms that by (simp add: create_ok_def list_all_iff)
  have l: "link_ok x" if "x \<in> set (co_links i)" for x
    using assms that by (simp add: create_ok_def list_all_iff)
  have w: "wlaw (KS_DATAPACKET_write_xdr_array xdr_write_OV_SETVAR_ITEM (co_parameters i)) (xdr_array xdr_setvar (co_parameters i))"
    "wlaw (KS_DATAPACKET_write_xdr_array xdr_write_OV_LINK_ITEM (co_links i)) (xdr_array xdr_link (co_links i))"
    using p l by (auto intro: array_writes setvar_coded link_coded)
  have r: "rlaw (KS_DATAPACKET_read_xdr_array_tomemstack 48 (xdr_read_OV_SETVAR_ITEM n)) (xdr_array xdr_setvar (co_parameters i))
      (map normal_setvar (co_parameters i))"
    "rlaw (KS_DATAPACKET_read_xdr_array_tomemstack 48 xdr_read_OV_LINK_ITEM) (xdr_array xdr_link (co_links i))
      (map normal_link (co_links i))"
    using p l assms by (auto simp: create_ok_def intro: array_reads setvar_coded link_coded)
  show "wlaw (xdr_write_OV_CREATEOBJ_ITEM i) (xdr_create i)"
    unfolding xdr_write_OV_CREATEOBJ_ITEM_def xdr_create_def by (rule wlaw_bind w coded v)+
  show "rlaw (xdr_read_OV_CREATEOBJ_ITEM n) (xdr_create i) (normal_create i)"
    unfolding xdr_read_OV_CREATEOBJ_ITEM_def xdr_create_def normal_create_def
    by (rule rlaw_bind rlaw_mapI r coded v | simp)+
qed

lemma results_coded [coded]:
  "wlaw (write_results rs) (xdr_array xdr_uint rs)"
  "block_ok 4 (length rs) \<Longrightarrow>
    rlaw (KS_DATAPACKET_read_xdr_array_tomemstack 4 KS_DATAPACKET_read_xdr_int) (xdr_array xdr_uint rs) rs"
  unfolding write_results_def by (rule array_writes coded array_reads_same | assumption)+

fun xdr_created :: "OV_CREATEOBJECTITEM_RES \<Rightarrow> byte list" where
  "xdr_created (created result) = xdr_uint result"
| "xdr_created (bad_init ps ls) = xdr_uint 0x32 @ xdr_array xdr_uint ps @ xdr_array xdr_uint ls"

fun created_ok :: "OV_CREATEOBJECTITEM_RES \<Rightarrow> bool" where
  "created_ok (created result) \<longleftrightarrow> result \<noteq> 0x32"
| "created_ok (bad_init ps ls) \<longleftrightarrow> block_ok 4 (length ps) \<and> block_ok 4 (length ls)"

lemma created_coded [coded]:
  assumes "created_ok i"
  shows "wlaw (xdr_write_OV_CREATEOBJECTITEM_RES i) (xdr_created i)"
    and "rlaw xdr_read_OV_CREATEOBJECTITEM_RES (xdr_created i) i"
proof -
  show "wlaw (xdr_write_OV_CREATEOBJECTITEM_RES i) (xdr_created i)"
  proof (cases i)
    case (created result)
    then show ?thesis using assms by (simp add: xdr_write_OV_CREATEOBJECTITEM_RES_def wlaw_then_done coded)
  next
    case (bad_init ps ls)
    then show ?thesis
      unfolding bad_init xdr_created.simps xdr_write_OV_CREATEOBJECTITEM_RES_def OV_CREATEOBJECTITEM_RES.case
      by (intro wlaw_bind coded)
  qed
  show "rlaw xdr_read_OV_CREATEOBJECTITEM_RES (xdr_created i) i"
  proof (cases i)
    case (created result)
    then show ?thesis
      using assms unfolding xdr_read_OV_CREATEOBJECTITEM_RES_def by (auto intro!: rlaw_int_only rlaw_done)
  next
    case (bad_init ps ls)
    then have b: "block_ok 4 (length ps)" "block_ok 4 (length ls)" using assms by simp_all
    show ?thesis
      unfolding bad_init xdr_created.simps xdr_read_OV_CREATEOBJECTITEM_RES_def
      by (rule rlaw_int_then, simp, rule rlaw_bind [OF results_coded(2) [OF b(1)]], rule rlaw_mapI [OF results_coded(2) [OF b(2)]], simp)
  qed
qed

section \<open>Engineered and projected properties\<close>

text \<open>Strings with a limit: the writer admits a length that the reader refuses.\<close>

definition limited_ok :: "OV_UINT \<Rightarrow> OV_STRING \<Rightarrow> bool" where
  "limited_ok maxlen s \<longleftrightarrow> string_ok s \<and> length (content s) < unat maxlen"

lemma limited_coded [coded]:
  assumes "limited_ok maxlen s"
  shows "wlaw (write_limited maxlen s) (xdr_string s)"
    and "rlaw (KS_DATAPACKET_read_xdr_string_tomemstack maxlen) (xdr_string s) (as_read s)"
proof -
  show "wlaw (write_limited maxlen s) (xdr_string s)"
    using assms by (auto simp: write_limited_def limited_ok_def content_def coded split: option.splits)
  show "rlaw (KS_DATAPACKET_read_xdr_string_tomemstack maxlen) (xdr_string s) (as_read s)"
    using assms unfolding as_read_def by (intro string_reads) (simp_all add: limited_ok_def string_ok_def)
qed

definition xdr_history :: "OV_HISTORY_ENGINEERED_PROPS \<Rightarrow> byte list" where
  "xdr_history p = xdr_uint (hp_historytype p) @ xdr_uint (hp_default_interpolation p) @
     xdr_uint (hp_supported_interpolation p) @ xdr_string (hp_type_identifier p)"

definition xdr_var_props :: "OV_VAR_PROPS \<Rightarrow> byte list" where
  "xdr_var_props p = xdr_string (vp_tech_unit p) @ xdr_uint (vp_vartype p)"

definition xdr_link_props :: "OV_LINK_PROPS \<Rightarrow> byte list" where
  "xdr_link_props p = xdr_uint (lp_linktype p) @ xdr_string (lp_opposite_role_identifier p) @
     xdr_string (lp_association_identifier p)"

definition link_props_ok :: "OV_LINK_PROPS \<Rightarrow> bool" where
  "link_props_ok p \<longleftrightarrow> string_ok (lp_opposite_role_identifier p) \<and> string_ok (lp_association_identifier p)"

definition normal_history :: "OV_HISTORY_ENGINEERED_PROPS \<Rightarrow> OV_HISTORY_ENGINEERED_PROPS" where
  "normal_history p = p\<lparr>hp_type_identifier := as_read (hp_type_identifier p)\<rparr>"

definition normal_var_props :: "OV_VAR_PROPS \<Rightarrow> OV_VAR_PROPS" where
  "normal_var_props p = \<lparr>vp_tech_unit = as_read (vp_tech_unit p), vp_vartype = vp_vartype p\<rparr>"

definition normal_link_props :: "OV_LINK_PROPS \<Rightarrow> OV_LINK_PROPS" where
  "normal_link_props p = \<lparr>lp_linktype = lp_linktype p,
     lp_opposite_role_identifier = as_read (lp_opposite_role_identifier p),
     lp_association_identifier = as_read (lp_association_identifier p)\<rparr>"

lemma history_coded [coded]:
  assumes "string_ok (hp_type_identifier p)"
  shows "wlaw (xdr_write_OV_HISTORY_ENGINEERED_PROPS p) (xdr_history p)"
    and "rlaw xdr_read_OV_HISTORY_ENGINEERED_PROPS (xdr_history p) (normal_history p)"
  unfolding xdr_write_OV_HISTORY_ENGINEERED_PROPS_def xdr_read_OV_HISTORY_ENGINEERED_PROPS_def xdr_history_def normal_history_def
  by (rule wlaw_bind rlaw_bind rlaw_mapI coded assms | simp)+

lemma var_props_coded [coded]:
  assumes "limited_ok KS_TECHUNIT_MAXLEN (vp_tech_unit p)"
  shows "wlaw (xdr_write_OV_VAR_ENGINEERED_PROPS p) (xdr_var_props p)"
    and "rlaw xdr_read_OV_VAR_ENGINEERED_PROPS (xdr_var_props p) (normal_var_props p)"
  unfolding xdr_write_OV_VAR_ENGINEERED_PROPS_def xdr_read_OV_VAR_ENGINEERED_PROPS_def xdr_var_props_def normal_var_props_def
  by (rule wlaw_bind rlaw_bind rlaw_mapI coded assms | simp)+

lemma link_props_coded [coded]:
  assumes "link_props_ok p"
  shows "wlaw (xdr_write_OV_LINK_ENGINEERED_PROPS p) (xdr_link_props p)"
    and "rlaw xdr_read_OV_LINK_ENGINEERED_PROPS (xdr_link_props p) (normal_link_props p)"
proof -
  have v: "string_ok (lp_opposite_role_identifier p)" "string_ok (lp_association_identifier p)"
    using assms by (simp_all add: link_props_ok_def)
  show "wlaw (xdr_write_OV_LINK_ENGINEERED_PROPS p) (xdr_link_props p)"
    unfolding xdr_write_OV_LINK_ENGINEERED_PROPS_def xdr_link_props_def by (rule wlaw_bind coded v)+
  show "rlaw xdr_read_OV_LINK_ENGINEERED_PROPS (xdr_link_props p) (normal_link_props p)"
    unfolding xdr_read_OV_LINK_ENGINEERED_PROPS_def xdr_link_props_def normal_link_props_def
    by (rule rlaw_bind rlaw_mapI coded v | simp)+
qed

lemma projected_same [simp]:
  "xdr_write_OV_VAR_PROJECTED_PROPS = xdr_write_OV_VAR_ENGINEERED_PROPS"
  "xdr_read_OV_VAR_PROJECTED_PROPS = xdr_read_OV_VAR_ENGINEERED_PROPS"
  "xdr_write_OV_LINK_PROJECTED_PROPS = xdr_write_OV_LINK_ENGINEERED_PROPS"
  "xdr_read_OV_LINK_PROJECTED_PROPS = xdr_read_OV_LINK_ENGINEERED_PROPS"
  by (simp_all add: fun_eq_iff xdr_write_OV_VAR_PROJECTED_PROPS_def xdr_write_OV_VAR_ENGINEERED_PROPS_def
      xdr_read_OV_VAR_PROJECTED_PROPS_def xdr_read_OV_VAR_ENGINEERED_PROPS_def xdr_write_OV_LINK_PROJECTED_PROPS_def
      xdr_write_OV_LINK_ENGINEERED_PROPS_def xdr_read_OV_LINK_PROJECTED_PROPS_def xdr_read_OV_LINK_ENGINEERED_PROPS_def)

fun xdr_engineered_u :: "ENGINEERED_PROPS_U \<Rightarrow> byte list" where
  "xdr_engineered_u no_props = []"
| "xdr_engineered_u (history_props p) = xdr_history p"
| "xdr_engineered_u (domain_props s) = xdr_string s"
| "xdr_engineered_u (var_props p) = xdr_var_props p"
| "xdr_engineered_u (link_props p) = xdr_link_props p"

text \<open>The type of the object fits the member.\<close>

fun engineered_u_ok :: "OV_UINT \<Rightarrow> ENGINEERED_PROPS_U \<Rightarrow> bool" where
  "engineered_u_ok t no_props \<longleftrightarrow> t \<notin> {KS_OT_HISTORY, KS_OT_DOMAIN, KS_OT_VARIABLE, KS_OT_LINK}"
| "engineered_u_ok t (history_props p) \<longleftrightarrow> t = KS_OT_HISTORY \<and> string_ok (hp_type_identifier p)"
| "engineered_u_ok t (domain_props s) \<longleftrightarrow> t = KS_OT_DOMAIN \<and> string_ok s"
| "engineered_u_ok t (var_props p) \<longleftrightarrow> t = KS_OT_VARIABLE \<and> limited_ok KS_TECHUNIT_MAXLEN (vp_tech_unit p)"
| "engineered_u_ok t (link_props p) \<longleftrightarrow> t = KS_OT_LINK \<and> link_props_ok p"

fun normal_engineered_u :: "ENGINEERED_PROPS_U \<Rightarrow> ENGINEERED_PROPS_U" where
  "normal_engineered_u no_props = no_props"
| "normal_engineered_u (history_props p) = history_props (normal_history p)"
| "normal_engineered_u (domain_props s) = domain_props (as_read s)"
| "normal_engineered_u (var_props p) = var_props (normal_var_props p)"
| "normal_engineered_u (link_props p) = link_props (normal_link_props p)"

lemma engineered_u_coded [coded]:
  assumes "engineered_u_ok t u"
  shows "wlaw (write_engineered_u t u) (xdr_engineered_u u)"
    and "rlaw (read_engineered_u t) (xdr_engineered_u u) (normal_engineered_u u)"
  using assms
  by (cases u; simp add: write_engineered_u_def read_engineered_u_def other_props_def xmap_def ot_defs coded wlaw_done rlaw_done rlaw_map)+

definition xdr_engineered :: "OV_OBJ_ENGINEERED_PROPS \<Rightarrow> byte list" where
  "xdr_engineered p = xdr_uint (ep_objtype p) @ xdr_engineered_u (ep_u p) @ xdr_string (ep_identifier p) @
     xdr_time (ep_creation_time p) @ xdr_string (ep_comment p) @ xdr_uint (ep_access p) @ xdr_uint (ep_semantic_flags p)"

definition engineered_ok :: "OV_OBJ_ENGINEERED_PROPS \<Rightarrow> bool" where
  "engineered_ok p \<longleftrightarrow> engineered_u_ok (ep_objtype p) (ep_u p) \<and> limited_ok KS_NAME_MAXLEN (ep_identifier p) \<and>
     limited_ok KS_COMMENT_MAXLEN (ep_comment p)"

definition normal_engineered :: "OV_OBJ_ENGINEERED_PROPS \<Rightarrow> OV_OBJ_ENGINEERED_PROPS" where
  "normal_engineered p = p\<lparr>ep_u := normal_engineered_u (ep_u p), ep_identifier := as_read (ep_identifier p),
     ep_comment := as_read (ep_comment p)\<rparr>"

lemma engineered_coded [coded]:
  assumes "engineered_ok p"
  shows "wlaw (xdr_write_OV_OBJ_ENGINEERED_PROPS p) (xdr_engineered p)"
    and "rlaw xdr_read_OV_OBJ_ENGINEERED_PROPS (xdr_engineered p) (normal_engineered p)"
proof -
  have v: "engineered_u_ok (ep_objtype p) (ep_u p)" "limited_ok KS_NAME_MAXLEN (ep_identifier p)"
    "limited_ok KS_COMMENT_MAXLEN (ep_comment p)" using assms by (simp_all add: engineered_ok_def)
  show "wlaw (xdr_write_OV_OBJ_ENGINEERED_PROPS p) (xdr_engineered p)"
    unfolding xdr_write_OV_OBJ_ENGINEERED_PROPS_def xdr_engineered_def by (rule wlaw_bind coded v)+
  show "rlaw xdr_read_OV_OBJ_ENGINEERED_PROPS (xdr_engineered p) (normal_engineered p)"
    unfolding xdr_read_OV_OBJ_ENGINEERED_PROPS_def xdr_engineered_def normal_engineered_def
    by (rule rlaw_bind rlaw_mapI coded v | simp)+
qed

fun xdr_projected_u :: "PROJECTED_PROPS_U \<Rightarrow> byte list" where
  "xdr_projected_u no_projected = []"
| "xdr_projected_u (var_projected p) = xdr_var_props p"
| "xdr_projected_u (link_projected p) = xdr_link_props p"

fun projected_u_ok :: "OV_UINT \<Rightarrow> PROJECTED_PROPS_U \<Rightarrow> bool" where
  "projected_u_ok t no_projected \<longleftrightarrow> t \<notin> {KS_OT_VARIABLE, KS_OT_LINK}"
| "projected_u_ok t (var_projected p) \<longleftrightarrow> t = KS_OT_VARIABLE \<and> limited_ok KS_TECHUNIT_MAXLEN (vp_tech_unit p)"
| "projected_u_ok t (link_projected p) \<longleftrightarrow> t = KS_OT_LINK \<and> link_props_ok p"

fun normal_projected_u :: "PROJECTED_PROPS_U \<Rightarrow> PROJECTED_PROPS_U" where
  "normal_projected_u no_projected = no_projected"
| "normal_projected_u (var_projected p) = var_projected (normal_var_props p)"
| "normal_projected_u (link_projected p) = link_projected (normal_link_props p)"

lemma projected_u_coded [coded]:
  assumes "projected_u_ok t u"
  shows "wlaw (write_projected_u t u) (xdr_projected_u u)"
    and "rlaw (read_projected_u t) (xdr_projected_u u) (normal_projected_u u)"
  using assms
  by (cases u; simp add: write_projected_u_def read_projected_u_def other_props_def xmap_def ot_defs coded wlaw_done rlaw_done rlaw_map)+

definition xdr_projected :: "OV_OBJ_PROJECTED_PROPS \<Rightarrow> byte list" where
  "xdr_projected p = xdr_uint (pp_objtype p) @ xdr_projected_u (pp_u p) @ xdr_string (pp_identifier p) @
     xdr_time (pp_creation_time p) @ xdr_string (pp_comment p) @ xdr_uint (pp_access p)"

definition projected_ok :: "OV_OBJ_PROJECTED_PROPS \<Rightarrow> bool" where
  "projected_ok p \<longleftrightarrow> projected_u_ok (pp_objtype p) (pp_u p) \<and> limited_ok KS_NAME_MAXLEN (pp_identifier p) \<and>
     limited_ok KS_COMMENT_MAXLEN (pp_comment p)"

definition normal_projected :: "OV_OBJ_PROJECTED_PROPS \<Rightarrow> OV_OBJ_PROJECTED_PROPS" where
  "normal_projected p = p\<lparr>pp_u := normal_projected_u (pp_u p), pp_identifier := as_read (pp_identifier p),
     pp_comment := as_read (pp_comment p)\<rparr>"

lemma projected_coded [coded]:
  assumes "projected_ok p"
  shows "wlaw (xdr_write_OV_OBJ_PROJECTED_PROPS p) (xdr_projected p)"
    and "rlaw xdr_read_OV_OBJ_PROJECTED_PROPS (xdr_projected p) (normal_projected p)"
proof -
  have v: "projected_u_ok (pp_objtype p) (pp_u p)" "limited_ok KS_NAME_MAXLEN (pp_identifier p)"
    "limited_ok KS_COMMENT_MAXLEN (pp_comment p)" using assms by (simp_all add: projected_ok_def)
  show "wlaw (xdr_write_OV_OBJ_PROJECTED_PROPS p) (xdr_projected p)"
    unfolding xdr_write_OV_OBJ_PROJECTED_PROPS_def xdr_projected_def by (rule wlaw_bind coded v)+
  show "rlaw xdr_read_OV_OBJ_PROJECTED_PROPS (xdr_projected p) (normal_projected p)"
    unfolding xdr_read_OV_OBJ_PROJECTED_PROPS_def xdr_projected_def normal_projected_def
    by (rule rlaw_bind rlaw_mapI coded v | simp)+
qed

section \<open>Items as codecs\<close>

lemma array_aligned: "(\<And>x. x \<in> set xs \<Longrightarrow> 4 dvd length (enc x)) \<Longrightarrow> 4 dvd length (xdr_array enc xs)"
  by (induction xs) (simp_all add: xdr_array_def)

lemma props_aligned: "props_ok n p \<Longrightarrow> 4 dvd length (xdr_props p)"
  by (simp add: props_ok_def xdr_props_def xdr_time_def value_aligned xdr_aligned)

lemma setvar_aligned: "setvar_ok n i \<Longrightarrow> 4 dvd length (xdr_setvar i)"
  using props_aligned [of n "set_props i"] xdr_aligned(2) [of "path_and_name i"]
  by (simp add: setvar_ok_def xdr_setvar_def)

lemma placement_aligned: "4 dvd length (xdr_placement p)"
  by (simp add: xdr_placement_def xdr_aligned)

lemma link_aligned: "4 dvd length (xdr_link i)"
  by (simp add: xdr_link_def xdr_aligned placement_aligned)

interpretation setvar_codec: codec xdr_write_OV_SETVAR_ITEM "xdr_read_OV_SETVAR_ITEM n" xdr_setvar normal_setvar "setvar_ok n" for n
  by unfold_locales (simp_all add: setvar_coded setvar_aligned)

interpretation link_codec: codec xdr_write_OV_LINK_ITEM xdr_read_OV_LINK_ITEM xdr_link normal_link link_ok
  by unfold_locales (simp_all add: link_coded link_aligned)

interpretation unlink_codec: codec xdr_write_OV_UNLINK_ITEM xdr_read_OV_UNLINK_ITEM xdr_unlink normal_unlink unlink_ok
  by unfold_locales ((rule unlink_coded, assumption)+, simp add: xdr_unlink_def xdr_aligned)

interpretation rename_codec: codec xdr_write_OV_RENAMEOBJECT_ITEM xdr_read_OV_RENAMEOBJECT_ITEM xdr_rename normal_rename rename_ok
  by unfold_locales ((rule rename_coded, assumption)+, simp add: xdr_rename_def xdr_aligned placement_aligned)

lemma create_aligned: "create_ok n i \<Longrightarrow> 4 dvd length (xdr_create i)"
proof -
  assume ok: "create_ok n i"
  have "4 dvd length (xdr_array xdr_setvar (co_parameters i))"
    by (rule array_aligned) (use ok in \<open>auto simp: create_ok_def list_all_iff intro: setvar_aligned\<close>)
  moreover have "4 dvd length (xdr_array xdr_link (co_links i))" by (rule array_aligned) (rule link_aligned)
  ultimately show ?thesis by (simp add: xdr_create_def xdr_aligned placement_aligned)
qed

interpretation create_codec: codec xdr_write_OV_CREATEOBJ_ITEM "xdr_read_OV_CREATEOBJ_ITEM n" xdr_create normal_create "create_ok n" for n
  by unfold_locales (simp_all add: create_coded create_aligned)

text \<open>C17: The parameters of a CreateObject, a list of items with their places, initial values and links, are read
  back as they were written, up to the form that strings and values have as read, wherever they stand in a packet;
  what was written before does not change.\<close>

theorem createobject_params_roundtrip:
  assumes "block_ok 64 (length items)" "\<forall>i\<in>set items. create_ok n i"
    "length d + length (xdr_array xdr_create items) + length e < 4294967296"
  shows "KS_DATAPACKET_write_xdr_array xdr_write_OV_CREATEOBJ_ITEM items (written d) = XDone () (pkt (d @ xdr_array xdr_create items) 0) \<and>
    KS_DATAPACKET_read_xdr_array_tomemstack 64 (xdr_read_OV_CREATEOBJ_ITEM n) (pkt (d @ xdr_array xdr_create items @ e) (length d)) =
      XDone (map normal_create items) (pkt (d @ xdr_array xdr_create items @ e) (length (d @ xdr_array xdr_create items)))"
proof (rule codec.roundtrip [OF create_codec.array_codec [OF refl]])
  show "block_ok 64 (length items) \<and> (\<forall>i\<in>set items. create_ok n i)" using assms(1,2) by blast
  show "xdr_array xdr_create items \<noteq> []" by (simp add: xdr_array_def flip: length_greater_0_conv)
qed (rule assms(3))

definition a_create :: OV_CREATEOBJ_ITEM where
  "a_create = \<lparr>co_factory_path = Some ''/f'', co_new_path = Some ''/d/n'', co_place = \<lparr>pl_hint = OV_PMH_BEFORE, pl_path = Some ''m''\<rparr>,
     co_parameters = [\<lparr>path_and_name = Some ''.v'', set_props = \<lparr>cp_value = a_value, cp_time = \<lparr>secs = 1, usecs = 2\<rparr>, cp_state = 3\<rparr>\<rparr>],
     co_links = [\<lparr>li_link_path = Some ''.p'', li_element_path = None,
       li_place = \<lparr>pl_hint = OV_PMH_END, pl_path = None\<rparr>, li_opposite_place = \<lparr>pl_hint = OV_PMH_AFTER, pl_path = Some ''/x''\<rparr>\<rparr>]\<rparr>"

theorem createobject_params_roundtrip_witness:
  "KS_DATAPACKET_write_xdr_array xdr_write_OV_CREATEOBJ_ITEM [a_create] (written [1]) = XDone () (pkt ([1] @ xdr_array xdr_create [a_create]) 0) \<and>
    KS_DATAPACKET_read_xdr_array_tomemstack 64 (xdr_read_OV_CREATEOBJ_ITEM 3) (pkt ([1] @ xdr_array xdr_create [a_create] @ [2]) (length [1 :: byte])) =
      XDone (map normal_create [a_create]) (pkt ([1] @ xdr_array xdr_create [a_create] @ [2]) (length ([1] @ xdr_array xdr_create [a_create])))"
proof (rule createobject_params_roundtrip)
  have "length (xdr_value a_value) = 68"
    by (simp add: a_value_def xdr_array_def xdr_string_def xdr_opaque_def content_def bytes_of_def fill_def)
  then show "length [1 :: byte] + length (xdr_array xdr_create [a_create]) + length [2 :: byte] < 4294967296"
    by (simp add: a_create_def xdr_array_def xdr_create_def xdr_setvar_def xdr_props_def xdr_time_def xdr_link_def
        xdr_placement_def placed_def xdr_string_def xdr_opaque_def content_def bytes_of_def fill_def)
  show "\<forall>i\<in>set [a_create]. create_ok 3 i"
    using a_value_ok
    by (simp add: a_create_def create_ok_def setvar_ok_def props_ok_def link_ok_def placement_ok_def hint_ok_def placed_def
        string_ok_def fits_def content_def block_ok_def)
qed (simp add: block_ok_def)

text \<open>A string of exactly the greatest length, in the properties of an object, is written and cannot be read
  back: the writer refuses lengths above the limit, the reader also the limit.\<close>

lemma longest_string_unreadable:
  assumes "string_ok s" "length (content s) = unat maxlen" "maxlen \<noteq> 0" "length d + length (xdr_string s) < 4294967296"
  shows "write_limited maxlen s (written d) = XDone () (written (d @ xdr_string s)) \<and>
    KS_DATAPACKET_read_xdr_string_tomemstack maxlen (pkt (d @ xdr_string s) (length d)) =
      XFailed OV_ERR_BADVALUE (pkt (d @ xdr_string s) (length d))"
proof -
  have n: "(of_nat (length (bytes_of (content s))) :: OV_UINT) = maxlen"
    using assms(2) by (simp add: bytes_of_def)
  have "rlaw KS_DATAPACKET_read_xdr_uint (xdr_uint maxlen) maxlen" by (rule uint_reads)
  then have "if_failed OV_ERR_GENERIC KS_DATAPACKET_read_xdr_uint (pkt (d @ xdr_string s) (length d)) =
      XDone maxlen (pkt (d @ xdr_string s) (length d + 4))"
    using assms(4) rlaw_if_failed [of KS_DATAPACKET_read_xdr_uint "xdr_uint maxlen" maxlen OV_ERR_GENERIC]
      stands_middle [of d "xdr_uint maxlen"]
    by (simp add: rlaw_def xdr_string_def xdr_opaque_def n)
  then have "KS_DATAPACKET_read_xdr_string_tomemstack maxlen (pkt (d @ xdr_string s) (length d)) =
      XFailed OV_ERR_BADVALUE (pkt (d @ xdr_string s) (length d))"
    using assms(3) by (simp add: KS_DATAPACKET_read_xdr_string_tomemstack_def xbind_def rewind4_pkt xfail_def)
  moreover have "write_limited maxlen s (written d) = XDone () (written (d @ xdr_string s))"
    using assms string_coded(1) [OF assms(1)]
    by (auto simp: write_limited_def wlaw_def content_def split: option.splits)
  ultimately show ?thesis by blast
qed

end
