(* ===== verification/XdrServices.thy ===== *)
theory XdrServices
  imports KsBackend XdrItemLaws OvTime
begin

text \<open>
  syslibs/comm/ksxdr/source/ksxdr_*.c: a service decodes its parameters from the packet that was
  received, is executed on the database and encodes its results to the packet of the answer. The
  state of the handler of a client holds the three packets of a request. Registering at the manager
  and the properties of objects are reached through the record \<open>server\<close>.
\<close>

section \<open>The state of a request\<close>

record 'd HS =
  hs_received :: KS_DATAPACKET
  hs_service :: KS_DATAPACKET
  hs_answer :: KS_DATAPACKET
  hs_ks :: "'d KS"
  hs_msgState :: OV_UINT
  hs_ksErrCode :: OV_UINT
  hs_receivedCalls :: OV_UINT
  hs_ConnectionTimeOut :: OV_UINT

datatype ('a, 'd) hres = HUndefined | HTooDeep | HDone 'a "'d HS"

type_synonym ('a, 'd) handler = "'d HS \<Rightarrow> ('a, 'd) hres"

definition hdone :: "'a \<Rightarrow> ('a, 'd) handler" where
  "hdone a h = HDone a h"

definition hundefined :: "('a, 'd) handler" where
  "hundefined h = HUndefined"

definition hbind :: "('a, 'd) handler \<Rightarrow> ('a \<Rightarrow> ('b, 'd) handler) \<Rightarrow> ('b, 'd) handler" where
  "hbind m k h = (case m h of HDone a h' \<Rightarrow> k a h' | HUndefined \<Rightarrow> HUndefined | HTooDeep \<Rightarrow> HTooDeep)"

definition hupdate :: "('d HS \<Rightarrow> 'd HS) \<Rightarrow> (unit, 'd) handler" where
  "hupdate f h = HDone () (f h)"

text \<open>A routine for packets, on one of the three; the memory is that of the database.\<close>

definition on_packet :: "('d HS \<Rightarrow> KS_DATAPACKET) \<Rightarrow> (KS_DATAPACKET \<Rightarrow> 'd HS \<Rightarrow> 'd HS) \<Rightarrow> 'a xdr \<Rightarrow>
    (OV_RESULT + 'a, 'd) handler" where
  "on_packet pk set_pk m h =
    (let back = (\<lambda>s. set_pk (packet s) (h\<lparr>hs_ks := (hs_ks h)\<lparr>ks_grants := decisions s\<rparr>\<rparr>))
     in case m \<lparr>packet = pk h, decisions = ks_grants (hs_ks h)\<rparr> of
         XUndefined \<Rightarrow> HUndefined
       | XTooDeep \<Rightarrow> HTooDeep
       | XFailed r s \<Rightarrow> HDone (Inl r) (back s)
       | XDone a s \<Rightarrow> HDone (Inr a) (back s))"

definition on_received :: "'a xdr \<Rightarrow> (OV_RESULT + 'a, 'd) handler" where
  "on_received = on_packet hs_received (\<lambda>p h. h\<lparr>hs_received := p\<rparr>)"

definition on_service :: "'a xdr \<Rightarrow> (OV_RESULT + 'a, 'd) handler" where
  "on_service = on_packet hs_service (\<lambda>p h. h\<lparr>hs_service := p\<rparr>)"

definition on_answer :: "'a xdr \<Rightarrow> (OV_RESULT + 'a, 'd) handler" where
  "on_answer = on_packet hs_answer (\<lambda>p h. h\<lparr>hs_answer := p\<rparr>)"

text \<open>A service on the database, which may leave the defined behaviour.\<close>

definition on_database :: "('d KS \<Rightarrow> ('a \<times> 'd KS) option) \<Rightarrow> ('a, 'd) handler" where
  "on_database f h = (case f (hs_ks h) of None \<Rightarrow> HUndefined | Some (a, ks) \<Rightarrow> HDone a (h\<lparr>hs_ks := ks\<rparr>))"

section \<open>The frame of the services\<close>

text \<open>The functions \<open>ksxdr_setVar\<close> and its siblings, which differ in the functions they call only. The
  result of encoding the results is not looked at.\<close>

definition serve :: "'p xdr \<Rightarrow> ('p \<Rightarrow> 'd KS \<Rightarrow> ((OV_UINT \<times> 'r) \<times> 'd KS) option) \<Rightarrow> (OV_UINT \<times> 'r \<Rightarrow> unit xdr) \<Rightarrow>
    (OV_RESULT, 'd) handler" where
  "serve decodeparams service encoderesults =
    hbind (on_received decodeparams) (\<lambda>r. case r of
        Inl fncresult \<Rightarrow> hdone fncresult
      | Inr params \<Rightarrow>
          hbind (on_database (service params)) (\<lambda>results.
          hbind (hupdate (\<lambda>h. h\<lparr>hs_ksErrCode := fst results\<rparr>)) (\<lambda>_.
          hbind (on_service (encoderesults results)) (\<lambda>_. hdone OV_ERR_OK))))"

section \<open>The services\<close>

text \<open>The loops that read the items are those of \<open>KS_DATAPACKET_read_xdr_array_tomemstack\<close>, written out;
  \<open>n\<close> is the depth of values that the stack admits.\<close>

definition encode_results :: "OV_UINT \<times> OV_UINT list \<Rightarrow> unit xdr" where
  "encode_results results = (if fst results = 0 then write_results (snd results) else xdone ())"

definition ksxdr_setVar_decodeparams :: "nat \<Rightarrow> OV_SETVAR_ITEM list xdr" where
  "ksxdr_setVar_decodeparams n = KS_DATAPACKET_read_xdr_array_tomemstack 48 (xdr_read_OV_SETVAR_ITEM n)"

definition ksxdr_setVar :: "nat \<Rightarrow> 'd ops \<Rightarrow> OV_UINT \<Rightarrow> OV_TICKET option \<Rightarrow> (OV_RESULT, 'd) handler" where
  "ksxdr_setVar n ops version pticket =
    serve (ksxdr_setVar_decodeparams n) (ov_ksserver_setvar ops version pticket) encode_results"

definition ksxdr_getVar_decodeparams :: "OV_STRING list xdr" where
  "ksxdr_getVar_decodeparams =
    KS_DATAPACKET_read_xdr_array_tomemstack 8 KS_DATAPACKET_read_xdr_string_tomemstack_wolength"

definition ksxdr_getVar_encoderesults :: "OV_UINT \<times> OV_GETVAR_ITEM list \<Rightarrow> unit xdr" where
  "ksxdr_getVar_encoderesults results =
    (if fst results = 0 then KS_DATAPACKET_write_xdr_array xdr_write_OV_GETVAR_ITEM (snd results) else xdone ())"

definition ksxdr_getVar :: "'d ops \<Rightarrow> OV_UINT \<Rightarrow> OV_TICKET option \<Rightarrow> (OV_RESULT, 'd) handler" where
  "ksxdr_getVar ops version pticket =
    serve ksxdr_getVar_decodeparams (ov_ksserver_getvar ops version pticket) ksxdr_getVar_encoderesults"

definition ksxdr_link_decodeparams :: "OV_LINK_ITEM list xdr" where
  "ksxdr_link_decodeparams = KS_DATAPACKET_read_xdr_array_tomemstack 48 xdr_read_OV_LINK_ITEM"

definition ksxdr_link :: "'d ops \<Rightarrow> OV_UINT \<Rightarrow> OV_TICKET option \<Rightarrow> (OV_RESULT, 'd) handler" where
  "ksxdr_link ops version pticket =
    serve ksxdr_link_decodeparams (ov_ksserver_link ops version pticket) encode_results"

definition ksxdr_unlink_decodeparams :: "OV_UNLINK_ITEM list xdr" where
  "ksxdr_unlink_decodeparams = KS_DATAPACKET_read_xdr_array_tomemstack 16 xdr_read_OV_UNLINK_ITEM"

definition ksxdr_unlink :: "'d ops \<Rightarrow> OV_UINT \<Rightarrow> OV_TICKET option \<Rightarrow> (OV_RESULT, 'd) handler" where
  "ksxdr_unlink ops version pticket =
    serve ksxdr_unlink_decodeparams (ov_ksserver_unlink ops version pticket) encode_results"

definition ksxdr_deleteObject_decodeparams :: "OV_STRING list xdr" where
  "ksxdr_deleteObject_decodeparams =
    KS_DATAPACKET_read_xdr_array_tomemstack 8 KS_DATAPACKET_read_xdr_string_tomemstack_wolength"

definition ksxdr_deleteObject :: "'d ops \<Rightarrow> OV_UINT \<Rightarrow> OV_TICKET option \<Rightarrow> (OV_RESULT, 'd) handler" where
  "ksxdr_deleteObject ops version pticket =
    serve ksxdr_deleteObject_decodeparams (ov_ksserver_deleteobject ops version pticket) encode_results"

definition ksxdr_renameObject_decodeparams :: "OV_RENAMEOBJECT_ITEM list xdr" where
  "ksxdr_renameObject_decodeparams = KS_DATAPACKET_read_xdr_array_tomemstack 32 xdr_read_OV_RENAMEOBJECT_ITEM"

definition ksxdr_renameObject :: "'d ops \<Rightarrow> OV_UINT \<Rightarrow> OV_TICKET option \<Rightarrow> (OV_RESULT, 'd) handler" where
  "ksxdr_renameObject ops version pticket =
    serve ksxdr_renameObject_decodeparams (ov_ksserver_renameobject ops version pticket) encode_results"

definition ksxdr_createObject_decodeparams :: "nat \<Rightarrow> OV_CREATEOBJ_ITEM list xdr" where
  "ksxdr_createObject_decodeparams n = KS_DATAPACKET_read_xdr_array_tomemstack 64 (xdr_read_OV_CREATEOBJ_ITEM n)"

definition ksxdr_createObject_encoderesults :: "OV_UINT \<times> OV_CREATEOBJECTITEM_RES list \<Rightarrow> unit xdr" where
  "ksxdr_createObject_encoderesults results =
    (if fst results = 0 then KS_DATAPACKET_write_xdr_array xdr_write_OV_CREATEOBJECTITEM_RES (snd results) else xdone ())"

definition ksxdr_createObject :: "nat \<Rightarrow> 'd ops \<Rightarrow> OV_UINT \<Rightarrow> OV_TICKET option \<Rightarrow> (OV_RESULT, 'd) handler" where
  "ksxdr_createObject n ops version pticket =
    serve (ksxdr_createObject_decodeparams n) (ov_ksserver_createobject ops version pticket) ksxdr_createObject_encoderesults"

definition ksxdr_getCanonicalPath_decodeparams :: "OV_STRING list xdr" where
  "ksxdr_getCanonicalPath_decodeparams =
    KS_DATAPACKET_read_xdr_array_tomemstack 8 KS_DATAPACKET_read_xdr_string_tomemstack_wolength"

definition ksxdr_getCanonicalPath_encoderesults :: "OV_UINT \<times> OV_GETCANONICALPATHITEM_RES list \<Rightarrow> unit xdr" where
  "ksxdr_getCanonicalPath_encoderesults results =
    (if fst results = 0 then KS_DATAPACKET_write_xdr_array xdr_write_OV_GETCANONICALPATHITEM (snd results) else xdone ())"

definition ksxdr_getCanonicalPath :: "'d ops \<Rightarrow> OV_UINT \<Rightarrow> OV_TICKET option \<Rightarrow> (OV_RESULT, 'd) handler" where
  "ksxdr_getCanonicalPath ops version pticket =
    serve ksxdr_getCanonicalPath_decodeparams (ov_ksserver_getcanonicalpath ops version pticket)
      ksxdr_getCanonicalPath_encoderesults"

text \<open>The properties of objects come as a count and a linked list, which may be shorter.\<close>

record OV_GETEP_PAR =
  gp_path :: OV_STRING
  gp_type_mask :: OV_UINT
  gp_name_mask :: OV_STRING
  gp_scope_flags :: OV_UINT

definition ksxdr_getEP_decodeparams :: "OV_GETEP_PAR xdr" where
  "ksxdr_getEP_decodeparams =
    xbind (KS_DATAPACKET_read_xdr_string_tomemstack (NOT 0)) (\<lambda>p.
    xbind KS_DATAPACKET_read_xdr_int (\<lambda>t.
    xbind (KS_DATAPACKET_read_xdr_string_tomemstack (NOT 0)) (\<lambda>m.
    xbind KS_DATAPACKET_read_xdr_int (\<lambda>f.
    xdone \<lparr>gp_path = p, gp_type_mask = t, gp_name_mask = m, gp_scope_flags = f\<rparr>))))"

primrec write_listed :: "('a \<Rightarrow> unit xdr) \<Rightarrow> nat \<Rightarrow> 'a list \<Rightarrow> unit xdr" where
  "write_listed writefnc 0 ps = xdone ()"
| "write_listed writefnc (Suc n) ps =
    (case ps of [] \<Rightarrow> xfail OV_ERR_GENERIC | p # ps' \<Rightarrow> xbind (writefnc p) (\<lambda>_. write_listed writefnc n ps'))"

definition encode_listed :: "('a \<Rightarrow> unit xdr) \<Rightarrow> OV_UINT \<times> OV_UINT \<times> 'a list \<Rightarrow> unit xdr" where
  "encode_listed writefnc results =
    (case results of (result, items_len, ps) \<Rightarrow>
       if result = 0 then
         xbind (KS_DATAPACKET_write_xdr_uint (Some items_len)) (\<lambda>_. write_listed writefnc (unat items_len) ps)
       else xdone ())"

definition ksxdr_getEP_encoderesults :: "OV_UINT \<times> OV_UINT \<times> OV_OBJ_ENGINEERED_PROPS list \<Rightarrow> unit xdr" where
  "ksxdr_getEP_encoderesults = encode_listed xdr_write_OV_OBJ_ENGINEERED_PROPS"

text \<open>The four bytes behind the parameters of GetPP are read and not used.\<close>

definition ksxdr_getPP_decodeparams :: "OV_GETEP_PAR xdr" where
  "ksxdr_getPP_decodeparams =
    xbind (KS_DATAPACKET_read_xdr_string_tomemstack (NOT 0)) (\<lambda>p.
    xbind KS_DATAPACKET_read_xdr_int (\<lambda>t.
    xbind (KS_DATAPACKET_read_xdr_string_tomemstack (NOT 0)) (\<lambda>m.
    xbind KS_DATAPACKET_read_xdr_uint (\<lambda>dummy.
    xdone \<lparr>gp_path = p, gp_type_mask = t, gp_name_mask = m, gp_scope_flags = 0\<rparr>))))"

definition ksxdr_getPP_encoderesults :: "OV_UINT \<times> OV_UINT \<times> OV_OBJ_PROJECTED_PROPS list \<Rightarrow> unit xdr" where
  "ksxdr_getPP_encoderesults = encode_listed xdr_write_OV_OBJ_PROJECTED_PROPS"

record server_data =
  sd_protocols :: "OV_STRING list"
  sd_ports :: "OV_STRING list"
  sd_expirationtime :: OV_TIME
  sd_version :: OV_INT

record 'd server =
  sv_ops :: "'d ops"
  sv_getep :: "OV_UINT \<Rightarrow> OV_TICKET option \<Rightarrow> OV_GETEP_PAR \<Rightarrow> 'd KS \<Rightarrow> ((OV_UINT \<times> OV_UINT \<times> OV_OBJ_ENGINEERED_PROPS list) \<times> 'd KS) option"
  sv_getpp :: "OV_UINT \<Rightarrow> OV_TICKET option \<Rightarrow> OV_GETEP_PAR \<Rightarrow> 'd KS \<Rightarrow> ((OV_UINT \<times> OV_UINT \<times> OV_OBJ_PROJECTED_PROPS list) \<times> 'd KS) option"
  sv_is_manager :: "'d \<Rightarrow> bool"
  sv_register :: "OV_STRING \<Rightarrow> OV_UINT \<Rightarrow> OV_UINT \<Rightarrow> OV_UINT \<Rightarrow> 'd \<Rightarrow> OV_UINT \<times> 'd"
  sv_unregister :: "OV_STRING \<Rightarrow> OV_UINT \<Rightarrow> 'd \<Rightarrow> OV_UINT \<times> 'd"
  sv_getserverdata :: "OV_STRING \<Rightarrow> OV_UINT \<Rightarrow> 'd \<Rightarrow> OV_UINT + server_data"
  sv_now :: "'d \<Rightarrow> OV_TIME"

definition ksxdr_getEP :: "'d server \<Rightarrow> OV_UINT \<Rightarrow> OV_TICKET option \<Rightarrow> (OV_RESULT, 'd) handler" where
  "ksxdr_getEP sv version pticket = serve ksxdr_getEP_decodeparams (sv_getep sv version pticket) ksxdr_getEP_encoderesults"

definition ksxdr_getPP :: "'d server \<Rightarrow> OV_UINT \<Rightarrow> OV_TICKET option \<Rightarrow> (OV_RESULT, 'd) handler" where
  "ksxdr_getPP sv version pticket = serve ksxdr_getPP_decodeparams (sv_getpp sv version pticket) ksxdr_getPP_encoderesults"

section \<open>The manager's services\<close>

definition XDR_MSGST_SUCCESS :: OV_UINT where "XDR_MSGST_SUCCESS = 0"
definition XDR_MSGST_PROG_UNAVAIL :: OV_UINT where "XDR_MSGST_PROG_UNAVAIL = 1"
definition XDR_MSGST_PROG_MISMATCH :: OV_UINT where "XDR_MSGST_PROG_MISMATCH = 2"
definition XDR_MSGST_GARBAGE_ARGS :: OV_UINT where "XDR_MSGST_GARBAGE_ARGS = 4"
definition XDR_MSGST_SYSTEM_ERR :: OV_UINT where "XDR_MSGST_SYSTEM_ERR = 5"

definition KS_ERR_UNKNOWNAUTH :: OV_UINT where "KS_ERR_UNKNOWNAUTH = 5"
definition KS_ERR_NOREMOTE :: OV_UINT where "KS_ERR_NOREMOTE = 0x20"
definition KS_ERR_SERVERUNKNOWN :: OV_UINT where "KS_ERR_SERVERUNKNOWN = 0x21"
definition KS_ERR_NOMANAGER :: OV_UINT where "KS_ERR_NOMANAGER = 0x1007"

definition garbage_args :: "(OV_RESULT, 'd) handler" where
  "garbage_args = hbind (hupdate (\<lambda>h. h\<lparr>hs_msgState := XDR_MSGST_GARBAGE_ARGS, hs_ksErrCode := OV_ERR_TARGETGENERIC\<rparr>))
     (\<lambda>_. hdone OV_ERR_OK)"

text \<open>The name of the server is on the memory stack, but the ways out that give up free it with
  \<open>ov_free\<close>.\<close>

definition ksxdr_register :: "'d server \<Rightarrow> (OV_RESULT, 'd) handler" where
  "ksxdr_register sv =
    hbind (on_received (KS_DATAPACKET_read_xdr_string_tomemstack KS_NAME_MAXLEN)) (\<lambda>r. case r of
        Inl _ \<Rightarrow> garbage_args
      | Inr servername \<Rightarrow>
          hbind (on_received (xbind KS_DATAPACKET_read_xdr_uint (\<lambda>serverversion.
                   xbind KS_DATAPACKET_read_xdr_uint (\<lambda>port.
                   xbind KS_DATAPACKET_read_xdr_uint (\<lambda>ttl. xdone (serverversion, port, ttl)))))) (\<lambda>r. case r of
              Inl _ \<Rightarrow> hundefined
            | Inr (serverversion, port, ttl) \<Rightarrow> (\<lambda>h.
                if \<not> sv_is_manager sv (ks_db (hs_ks h)) then HUndefined
                else let (result, d) = sv_register sv servername serverversion port ttl (ks_db (hs_ks h));
                         h' = h\<lparr>hs_ks := (hs_ks h)\<lparr>ks_db := d\<rparr>\<rparr>
                     in HDone OV_ERR_OK (if result \<noteq> 0 then h'\<lparr>hs_msgState := XDR_MSGST_SYSTEM_ERR\<rparr> else h'))))"

definition ksxdr_unregister :: "'d server \<Rightarrow> (OV_RESULT, 'd) handler" where
  "ksxdr_unregister sv =
    hbind (on_received (xbind (KS_DATAPACKET_read_xdr_string KS_NAME_MAXLEN) (\<lambda>servername.
             xbind KS_DATAPACKET_read_xdr_uint (\<lambda>serverversion. xdone (servername, serverversion))))) (\<lambda>r. case r of
        Inl _ \<Rightarrow> garbage_args
      | Inr (servername, serverversion) \<Rightarrow> (\<lambda>h.
          if \<not> sv_is_manager sv (ks_db (hs_ks h))
          then HDone OV_ERR_OK (h\<lparr>hs_msgState := XDR_MSGST_SUCCESS, hs_ksErrCode := KS_ERR_NOMANAGER\<rparr>)
          else let (result, d) = sv_unregister sv servername serverversion (ks_db (hs_ks h));
                   h' = h\<lparr>hs_ks := (hs_ks h)\<lparr>ks_db := d\<rparr>\<rparr>
               in HDone OV_ERR_OK
                    (if result = 0 then h'
                     else if result = result_code OV_ERR_BADVALUE then h'\<lparr>hs_ksErrCode := KS_ERR_SERVERUNKNOWN\<rparr>
                     else h'\<lparr>hs_msgState := XDR_MSGST_SYSTEM_ERR, hs_ksErrCode := result\<rparr>)))"

text \<open>\<open>atoi\<close> of the C library, for numbers of its range; others are undefined there.\<close>

fun digits_value :: "int \<Rightarrow> string \<Rightarrow> int" where
  "digits_value n [] = n"
| "digits_value n (c # cs) =
    (if 48 \<le> (of_char c :: int) \<and> (of_char c :: int) \<le> 57 then digits_value (10 * n + (of_char c - 48)) cs else n)"

definition atoi :: "string \<Rightarrow> int option" where
  "atoi s =
    (let t = dropWhile (\<lambda>c. c \<in> set [CHR 0x20, CHR 0x09, CHR 0x0A, CHR 0x0B, CHR 0x0C, CHR 0x0D]) s;
         n = (case t of
                [] \<Rightarrow> 0
              | c # cs \<Rightarrow> if c = CHR ''-'' then - digits_value 0 cs else if c = CHR ''+'' then digits_value 0 cs
                         else digits_value 0 t)
     in if - 2147483648 \<le> n \<and> n < 2147483648 then Some n else None)"

definition ksxdr_getserver :: "'d server \<Rightarrow> (OV_RESULT, 'd) handler" where
  "ksxdr_getserver sv =
    hbind (on_received (xbind (KS_DATAPACKET_read_xdr_string KS_NAME_MAXLEN) (\<lambda>servername.
             xbind KS_DATAPACKET_read_xdr_uint (\<lambda>serverversion. xdone (servername, serverversion))))) (\<lambda>r. case r of
        Inl _ \<Rightarrow> garbage_args
      | Inr (servername, serverversion) \<Rightarrow> (\<lambda>h.
          let d = ks_db (hs_ks h);
              unserved = (\<lambda>e. HDone OV_ERR_OK (h\<lparr>hs_msgState := XDR_MSGST_SUCCESS, hs_ksErrCode := e\<rparr>));
              put = (\<lambda>m k. hbind (on_service m) (\<lambda>_. k))
          in if \<not> sv_is_manager sv d then unserved KS_ERR_NOMANAGER
             else case sv_getserverdata sv servername serverversion d of
                 Inl result \<Rightarrow>
                   if result = KS_ERR_SERVERUNKNOWN then unserved KS_ERR_SERVERUNKNOWN
                   else HDone OV_ERR_BADPARAM (h\<lparr>hs_msgState := XDR_MSGST_SYSTEM_ERR, hs_ksErrCode := OV_ERR_TARGETGENERIC\<rparr>)
               | Inr sd \<Rightarrow>
                   let i = length (takeWhile (\<lambda>p. ov_string_compare p (Some ''KSXDR'') \<noteq> OV_STRCMP_EQUAL) (sd_protocols sd))
                   in if length (sd_protocols sd) \<le> i then unserved KS_ERR_SERVERUNKNOWN
                      else if length (sd_ports sd) \<le> i then HUndefined
                      else case sd_ports sd ! i of
                          None \<Rightarrow> HUndefined
                        | Some port \<Rightarrow>
                           (case atoi port of
                              None \<Rightarrow> HUndefined
                            | Some xdr_port \<Rightarrow>
                                put (KS_DATAPACKET_write_xdr_string servername) (
                                put (KS_DATAPACKET_write_xdr_int (Some (sd_version sd))) (
                                put (KS_DATAPACKET_write_xdr_uint (Some (of_int xdr_port))) (
                                put (KS_DATAPACKET_write_xdr_uint (Some (secs (sd_expirationtime sd)))) (
                                put (KS_DATAPACKET_write_xdr_uint (Some (usecs (sd_expirationtime sd)))) (
                                put (KS_DATAPACKET_write_xdr_uint
                                       (Some (if ov_time_compare (sv_now sv d) (sd_expirationtime sd) = OV_TIMECMP_BEFORE
                                              then 1 else 2))) (hdone OV_ERR_OK)))))) h)))"

end
