(* ===== verification/XdrFrames.thy ===== *)
theory XdrFrames
  imports XdrLaws
begin

text \<open>
  syslibs/comm/ksxdr/source/xdrClientHandler.c: the marks of the fragments of a message on a stream (RFC
  1057, record marking): whether the packet that was received holds a complete message, putting its
  fragments together, and the mark of an answer.
\<close>

section \<open>A complete message\<close>

definition set_readPT :: "nat option \<Rightarrow> XS \<Rightarrow> XS" where
  "set_readPT r s = s\<lparr>packet := (packet s)\<lparr>pk_readPT := r\<rparr>\<rparr>"

text \<open>\<open>length - (readPT - data)\<close>, a signed number of 64 bits.\<close>

definition bytes_left :: "XS \<Rightarrow> int" where
  "bytes_left s = int (unat (pk_length (packet s))) - int (the (pk_readPT (packet s)))"

definition fragment_length :: "OV_UINT \<Rightarrow> nat" where
  "fragment_length header = unat (header AND 0x00ffffff)"

definition last_fragment :: "OV_UINT \<Rightarrow> bool" where
  "last_fragment header \<longleftrightarrow> header AND 0x80000000 \<noteq> 0"

lemma read_uint_step:
  assumes "KS_DATAPACKET_read_xdr_uint s = XDone v s'"
  obtains r where "pk_readPT (packet s) = Some r" "s' = set_readPT (Some (r + 4)) s"
    "r \<le> unat (pk_length (packet s))"
proof -
  show thesis
    using assms that
    by (auto simp: KS_DATAPACKET_read_xdr_uint_def xbind_def fetch_def xguard_def xdone_def set_readPT_def Let_def
        split: option.splits if_splits)
qed

text \<open>The read pointer comes back unless the first header cannot be read.\<close>

function bufferHoldsCompleteRequest :: "nat \<Rightarrow> (bool \<times> OV_RESULT) xdr" where
  "bufferHoldsCompleteRequest begin_of s =
    (let tempread = pk_readPT (packet s)
     in case KS_DATAPACKET_read_xdr_uint (set_readPT (Some begin_of) s) of
         XUndefined \<Rightarrow> XUndefined
       | XTooDeep \<Rightarrow> XTooDeep
       | XFailed r s' \<Rightarrow> XDone (False, r) s'
       | XDone header s' \<Rightarrow>
           let len = fragment_length header; readPT = the (pk_readPT (packet s'))
           in if last_fragment header then XDone (int len \<le> bytes_left s', OV_ERR_OK) (set_readPT tempread s')
              else if int len < bytes_left s' then
                (case bufferHoldsCompleteRequest (begin_of + len + 4) (set_readPT (Some (readPT + len)) s') of
                   XDone b s'' \<Rightarrow> XDone b (set_readPT tempread s'')
                 | XFailed r s'' \<Rightarrow> XFailed r s''
                 | XUndefined \<Rightarrow> XUndefined
                 | XTooDeep \<Rightarrow> XTooDeep)
              else XDone (False, OV_ERR_OK) (set_readPT tempread s'))"
  by pat_completeness auto
termination
proof (relation "measure (\<lambda>(b, s). unat (pk_length (packet s)) - b)")
  fix b s t header s' len readPT
  assume "KS_DATAPACKET_read_xdr_uint (set_readPT (Some b) s) = XDone header s'"
  then have e: "s' = set_readPT (Some (b + 4)) s" by (auto elim: read_uint_step simp: set_readPT_def)
  assume "int len < bytes_left s'"
  with e have "int len < int (unat (pk_length (packet s))) - int (b + 4)"
    by (simp add: set_readPT_def bytes_left_def)
  then have "len + b + 4 < unat (pk_length (packet s))" by linarith
  then show "((b + len + 4, set_readPT (Some (readPT + len)) s'), b, s) \<in> measure (\<lambda>(b, s). unat (pk_length (packet s)) - b)"
    using e by (simp add: set_readPT_def)
qed simp

declare bufferHoldsCompleteRequest.simps [simp del]

section \<open>Putting fragments together\<close>

text \<open>Copy words of four bytes, until the write pointer has reached \<open>wend\<close> or the read pointer \<open>rend\<close>.\<close>

definition put :: "byte list \<Rightarrow> nat \<Rightarrow> byte list \<Rightarrow> byte list" where
  "put d w b = take w d @ b @ drop (w + length b) d"

function copy_words :: "nat \<Rightarrow> nat \<Rightarrow> nat \<Rightarrow> nat \<Rightarrow> byte list \<Rightarrow> (byte list \<times> nat \<times> nat) option" where
  "copy_words wend rend w r d =
    (if w < wend \<and> r < rend then
       (if w + 4 \<le> length d \<and> r + 4 \<le> length d then copy_words wend rend (w + 4) (r + 4) (put d w (take 4 (drop r d)))
        else None)
     else Some (d, w, r))"
  by pat_completeness auto
termination by (relation "measure (\<lambda>(wend, rend, w, r, d). wend - w)") auto

declare copy_words.simps [simp del]

lemma copy_words_forward: "copy_words wend rend w r d = Some (d', w', r') \<Longrightarrow> r \<le> r' \<and> length d' = length d"
proof (induction wend rend w r d rule: copy_words.induct)
  case (1 wend rend w r d)
  show ?case
  proof (cases "w < wend \<and> r < rend")
    case True
    with "1.prems" have c: "w + 4 \<le> length d" "r + 4 \<le> length d"
      "copy_words wend rend (w + 4) (r + 4) (put d w (take 4 (drop r d))) = Some (d', w', r')"
      by (simp_all add: copy_words.simps [of wend rend w r d] split: if_splits)
    from "1.IH" [OF True _ c(3)] c(1,2) have "r + 4 \<le> r'" "length d' = length (put d w (take 4 (drop r d)))" by auto
    then show ?thesis using c(1,2) by (simp add: put_def)
  next
    case False
    then show ?thesis using "1.prems" by (auto simp: copy_words.simps [of wend rend w r d])
  qed
qed

text \<open>\<open>while(!(fragmentHeader & 0x80000000))\<close>; \<open>w\<close> is the write pointer.\<close>

function unfragment_loop :: "OV_UINT \<Rightarrow> OV_UINT \<Rightarrow> nat \<Rightarrow> (OV_RESULT \<times> OV_UINT) xdr" where
  "unfragment_loop header len w s =
    (if last_fragment header then XDone (OV_ERR_OK, len) s
     else case KS_DATAPACKET_read_xdr_uint s of
         XUndefined \<Rightarrow> XUndefined
       | XTooDeep \<Rightarrow> XTooDeep
       | XFailed result s' \<Rightarrow> XDone (result, len) s'
       | XDone header' s' \<Rightarrow>
           let len' = len + of_nat (fragment_length header'); r = the (pk_readPT (packet s')); d = the (pk_data (packet s'))
           in case (if len' < pk_length (packet s') then copy_words (unat len') (unat (pk_length (packet s'))) w r d
                    else Some (d, w, r)) of
               None \<Rightarrow> XUndefined
             | Some (d', w', r') \<Rightarrow>
                 unfragment_loop header' len' w' (s'\<lparr>packet := (packet s')\<lparr>pk_data := Some d', pk_readPT := Some r'\<rparr>\<rparr>))"
  by pat_completeness auto

termination
proof (relation "measure (\<lambda>(header, len, w, s). Suc (unat (pk_length (packet s))) - the (pk_readPT (packet s)))")
  fix header len w s header' s' len' r d x d' y w' r'
  assume read: "KS_DATAPACKET_read_xdr_uint s = XDone header' s'" and r: "r = the (pk_readPT (packet s'))"
    and c: "(if len' < pk_length (packet s') then copy_words (unat len') (unat (pk_length (packet s'))) w r d else Some (d, w, r)) = Some x"
      "(d', y) = x" "(w', r') = y"
  from read obtain r0 where s: "pk_readPT (packet s) = Some r0" "s' = set_readPT (Some (r0 + 4)) s" "r0 \<le> unat (pk_length (packet s))"
    by (rule read_uint_step)
  from c have "r \<le> r'" by (auto dest: copy_words_forward split: if_splits)
  then show "((header', len', w', s'\<lparr>packet := (packet s')\<lparr>pk_data := Some d', pk_readPT := Some r'\<rparr>\<rparr>), header, len, w, s)
      \<in> measure (\<lambda>(header, len, w, s). Suc (unat (pk_length (packet s))) - the (pk_readPT (packet s)))"
    using s r by (auto simp: set_readPT_def)
qed simp

declare unfragment_loop.simps [simp del]

definition unfragmentXDRmessage :: "nat \<Rightarrow> OV_RESULT xdr" where
  "unfragmentXDRmessage begin_of s =
    (let tempread = pk_readPT (packet s); tempwrite = pk_writePT (packet s);
         pointers = (\<lambda>s r w. s\<lparr>packet := (packet s)\<lparr>pk_readPT := r, pk_writePT := w\<rparr>\<rparr>)
     in case KS_DATAPACKET_read_xdr_uint (pointers s (Some begin_of) (Some begin_of)) of
         XUndefined \<Rightarrow> XUndefined
       | XTooDeep \<Rightarrow> XTooDeep
       | XFailed result s' \<Rightarrow> XDone result s'
       | XDone header s' \<Rightarrow>
           let fragmentLength = fragment_length header; behind = begin_of + 4 + fragmentLength
           in case unfragment_loop header (of_nat fragmentLength + 4) behind (set_readPT (Some behind) s') of
               XDone (result, len) s'' \<Rightarrow>
                 (if Ov_Fail result then XDone result (pointers s'' tempread tempwrite)
                  else XDone OV_ERR_OK (pointers (s''\<lparr>packet := (packet s'')\<lparr>pk_length := len\<rparr>\<rparr>) tempread tempwrite))
             | XFailed r s'' \<Rightarrow> XFailed r s''
             | XUndefined \<Rightarrow> XUndefined
             | XTooDeep \<Rightarrow> XTooDeep)"

section \<open>The mark of an answer\<close>

text \<open>The mark goes to \<open>begin_of\<close>, but its length is that of the whole packet; the highest byte of the length
  gives way to the bit of the last fragment.\<close>

definition ksxdr_prepend_length :: "OV_UINT \<Rightarrow> unit xdr" where
  "ksxdr_prepend_length begin_of s =
    (case pk_data (packet s) of
       None \<Rightarrow> XDone () s
     | Some d \<Rightarrow>
         if pk_length (packet s) = 0 then XDone () s
         else let temp = pk_length (packet s) - 4; b = unat begin_of
              in if length d < b + 4 then XUndefined
                 else XDone () (s\<lparr>packet := (packet s)\<lparr>pk_data := Some (put d b (0x80 # tl (rev (host_bytes temp))))\<rparr>\<rparr>))"

section \<open>Messages on a stream\<close>

text \<open>The mark of a fragment: its length, and in the highest bit whether it is the last.\<close>

definition mark_word :: "bool \<Rightarrow> nat \<Rightarrow> OV_UINT" where
  "mark_word is_last n = of_nat (n + (if is_last then 2147483648 else 0))"

fun frames :: "byte list list \<Rightarrow> byte list" where
  "frames [] = []"
| "frames [b] = xdr_uint (mark_word True (length b)) @ b"
| "frames (b # c # bs) = xdr_uint (mark_word False (length b)) @ b @ frames (c # bs)"

lemma frames_Cons: "frames (b # bs) = xdr_uint (mark_word (bs = []) (length b)) @ b @ frames bs"
  by (cases bs) simp_all

lemma frames_nonempty: "bs \<noteq> [] \<Longrightarrow> 4 \<le> length (frames bs)"
  by (cases bs) (simp_all add: frames_Cons)

definition fragments_ok :: "byte list list \<Rightarrow> bool" where
  "fragments_ok bs \<longleftrightarrow> bs \<noteq> [] \<and> (\<forall>b\<in>set bs. length b < 16777216)"

lemma small_word: "m < 4294967296 \<Longrightarrow> unat (of_nat m :: OV_UINT) = m" "m < 4294967296 \<Longrightarrow> uint (of_nat m :: OV_UINT) = int m"
  by (simp_all add: unat_of_nat unsigned_of_nat take_bit_nat_eq_self)

lemma mark_word_reads [simp]:
  assumes "n < 16777216"
  shows "fragment_length (mark_word l n) = n" "last_fragment (mark_word l n) \<longleftrightarrow> l"
proof -
  let ?m = "n + (if l then 2147483648 else 0)"
  have u: "unat (of_nat ?m :: OV_UINT) = ?m" by (rule small_word) (use assms in simp)
  have "unat ((of_nat ?m :: OV_UINT) AND mask 24) = take_bit 24 ?m"
    unfolding take_bit_eq_mask [symmetric] unsigned_take_bit_eq u ..
  moreover have "(0x00ffffff :: OV_UINT) = mask 24" by (simp add: mask_eq_exp_minus_1)
  moreover have "take_bit 24 ?m = n"
  proof (cases l)
    case True
    have e: "(2147483648 :: nat) = 128 * 16777216" by simp
    have "(n + 2147483648) mod 16777216 = n mod 16777216" unfolding e by (rule mod_mult_self1)
    also have "\<dots> = n" using assms by (rule mod_less)
    finally have "(n + 2147483648) mod 16777216 = n" .
    with True show ?thesis by (simp add: take_bit_eq_mod)
  next
    case False
    with assms show ?thesis by (simp add: take_bit_eq_mod)
  qed
  ultimately show "fragment_length (mark_word l n) = n" by (simp add: fragment_length_def mark_word_def)
  have p: "(0x80000000 :: OV_UINT) = push_bit 31 1" by simp
  have "last_fragment (of_nat ?m) \<longleftrightarrow> bit (of_nat ?m :: OV_UINT) 31"
    unfolding last_fragment_def p bit_iff_and_push_bit_not_eq_0 ..
  also have "\<dots> \<longleftrightarrow> bit (unat (of_nat ?m :: OV_UINT)) 31" by (simp add: bit_unsigned_iff del: of_nat_add)
  also have "\<dots> \<longleftrightarrow> odd (?m div 2147483648)" unfolding u by (simp add: bit_iff_odd)
  also have "\<dots> \<longleftrightarrow> l" using assms by (cases l) (simp_all add: div_add_self2)
  finally show "last_fragment (mark_word l n) \<longleftrightarrow> l" by (simp add: mark_word_def)
qed

text \<open>Whether only a part of a mark has arrived, of the first or of a later fragment.\<close>

fun cut_in_mark :: "byte list list \<Rightarrow> nat \<Rightarrow> bool" where
  "cut_in_mark [] n \<longleftrightarrow> False"
| "cut_in_mark [b] n \<longleftrightarrow> n < 4"
| "cut_in_mark (b # c # bs) n \<longleftrightarrow> n < 4 \<or> length b + 4 < n \<and> cut_in_mark (c # bs) (n - (length b + 4))"

text \<open>The bytes that have arrived agree with the message as far as both go.\<close>

definition agrees :: "byte list \<Rightarrow> byte list \<Rightarrow> bool" where
  "agrees s m \<longleftrightarrow> take (length m) s = take (length s) m"

lemma set_readPT_pkt [simp]: "set_readPT (Some r') (pkt d r) = pkt d r'" "pk_readPT (packet (pkt d r)) = Some r"
  "pk_length (packet (pkt d r)) = of_nat (length d)" "pk_data (packet (pkt d r)) = Some d"
  by (simp_all add: set_readPT_def pkt_def)

lemma agrees_stands:
  assumes "agrees s (a @ m)" "length a \<le> length s"
  shows "stands (pre @ s) (length pre) a" "agrees (drop (length a) s) m"
proof -
  have t: "take (length a) s = a"
  proof -
    have "take (length a) (take (length (a @ m)) s) = take (length a) (take (length s) (a @ m))"
      using assms(1) by (simp add: agrees_def)
    then show ?thesis using assms(2) by (simp add: min_def)
  qed
  then show "stands (pre @ s) (length pre) a" using assms(2) by (simp add: stands_def)
  obtain s' where s: "s = a @ s'" using t by (metis append_take_drop_id)
  show "agrees (drop (length a) s) m" using assms(1) by (simp add: agrees_def s)
qed

lemma buffer_holds_frames:
  assumes "fragments_ok bs" "agrees s (frames bs)" "length (pre @ s) < 4294967296"
  shows "bufferHoldsCompleteRequest (length pre) (pkt (pre @ s) r) =
    (if cut_in_mark bs (length s) then XUndefined
     else XDone (length (frames bs) \<le> length s, OV_ERR_OK) (pkt (pre @ s) r))"
  using assms
proof (induction bs arbitrary: s pre r)
  case Nil
  then show ?case by (simp add: fragments_ok_def)
next
  case (Cons b bs)
  let ?d = "pre @ s"
  let ?m = "mark_word (bs = []) (length b)"
  have b: "length b < 16777216" using Cons.prems(1) by (simp add: fragments_ok_def)
  have l: "uint (of_nat (length ?d) :: OV_UINT) = int (length ?d)"
    by (rule small_word(2) [OF Cons.prems(3)])
  show ?case
  proof (cases "length s < 4")
    case True
    then have "KS_DATAPACKET_read_xdr_uint (pkt ?d (length pre)) = XUndefined"
      using Cons.prems(3) by (simp add: KS_DATAPACKET_read_xdr_uint_def xbind_def fetch_pkt)
    then show ?thesis using True by (cases bs) (simp_all add: bufferHoldsCompleteRequest.simps [of "length pre"])
  next
    case False
    have a: "stands ?d (length pre) (xdr_uint ?m)" "agrees (drop 4 s) (b @ frames bs)"
      using agrees_stands(1) [of s "xdr_uint ?m" "b @ frames bs" pre] agrees_stands(2) [of s "xdr_uint ?m" "b @ frames bs"] Cons.prems(2) False by (simp_all add: frames_Cons)
    have h: "KS_DATAPACKET_read_xdr_uint (pkt ?d (length pre)) = XDone ?m (pkt ?d (length pre + 4))"
      using uint_reads a(1) Cons.prems(3) by (simp add: rlaw_def)
    have left: "bytes_left (pkt ?d (length pre + 4)) = int (length s) - 4"
      using l by (simp add: bytes_left_def)
    show ?thesis
    proof (cases bs)
      case Nil
      then show ?thesis
        using h left b False by (auto simp: bufferHoldsCompleteRequest.simps [of "length pre"])
    next
      case (Cons c cs)
      show ?thesis
      proof (cases "length b + 4 < length s")
        case True
        have "agrees (drop (length b) (drop 4 s)) (frames bs)"
          using agrees_stands(2) [OF a(2)] True by simp
        then have g: "agrees (drop (length b + 4) s) (frames bs)" by simp
        have e: "(pre @ take (length b + 4) s) @ drop (length b + 4) s = ?d" by simp
        have p: "length (pre @ take (length b + 4) s) = length pre + length b + 4" using True by simp
        have "fragments_ok bs" using Cons.prems(1) Cons by (simp add: fragments_ok_def)
        from Cons.IH [OF this g, of "pre @ take (length b + 4) s" "length pre + 4 + length b"]
        have "bufferHoldsCompleteRequest (length pre + length b + 4) (pkt ?d (length pre + 4 + length b)) =
            (if cut_in_mark bs (length s - (length b + 4)) then XUndefined
             else XDone (length (frames bs) \<le> length s - (length b + 4), OV_ERR_OK) (pkt ?d (length pre + 4 + length b)))"
          using Cons.prems(3) unfolding e p by simp
        then show ?thesis
          using h left b False True Cons
          by (simp add: bufferHoldsCompleteRequest.simps [of "length pre"] frames_Cons [of b]) auto
      next
        case not: False
        then show ?thesis
          using h left b False Cons frames_nonempty [of "c # cs"]
          by (simp add: bufferHoldsCompleteRequest.simps [of "length pre"] frames_Cons [of b])
      qed
    qed
  qed
qed

section \<open>The message that is put together\<close>

lemma read_uint_at:
  assumes "packet s = \<lparr>pk_length = of_nat (length d), pk_data = Some d, pk_readPT = Some r, pk_writePT = w\<rparr>"
    "length d < 4294967296" "stands d r (xdr_uint v)"
  shows "KS_DATAPACKET_read_xdr_uint s = XDone v (set_readPT (Some (r + 4)) s)"
proof -
  have "take 4 (drop r d) = xdr_uint v" "r + 4 \<le> length d" using assms(3) by (simp_all add: stands_def)
  then show ?thesis
    using assms(1,2) by (simp add: KS_DATAPACKET_read_xdr_uint_def fetch_def xguard_def xbind_def xdone_def
        set_readPT_def unat_of_nat join4_encoding)
qed

lemma put_put: "w + length a \<le> length d \<Longrightarrow> put (put d w a) (w + length a) b = put d w (a @ b)"
  by (simp add: put_def add.commute add.left_commute)

lemma put_nothing [simp]: "put d w [] = d"
  by (simp add: put_def)

lemma length_put [simp]: "w + length b \<le> length d \<Longrightarrow> length (put d w b) = length d"
  by (simp add: put_def)

lemma drop_put [simp]: "w + length b \<le> r \<Longrightarrow> w + length b \<le> length d \<Longrightarrow> drop r (put d w b) = drop r d"
  by (simp add: put_def)

lemma copy_words_block:
  assumes "w + 4 \<le> r" "r + 4 * k \<le> length d"
  shows "copy_words (w + 4 * k) (length d) w r d = Some (put d w (take (4 * k) (drop r d)), w + 4 * k, r + 4 * k)"
  using assms
proof (induction k arbitrary: w r d)
  case 0
  show ?case by (simp add: copy_words.simps [of _ _ w])
next
  case (Suc k)
  let ?d = "put d w (take 4 (drop r d))"
  have l: "length ?d = length d" and n: "drop (r + 4) ?d = drop (r + 4) d" using Suc.prems by simp_all
  have e: "w + 4 * Suc k = w + 4 + 4 * k" by simp
  have "copy_words (w + 4 * Suc k) (length d) w r d = copy_words (w + 4 + 4 * k) (length ?d) (w + 4) (r + 4) ?d"
    unfolding e using Suc.prems l by (simp add: copy_words.simps [of _ _ w])
  also have "\<dots> = Some (put ?d (w + 4) (take (4 * k) (drop (r + 4) d)), w + 4 + 4 * k, r + 4 + 4 * k)"
    using Suc.IH [of "w + 4" "r + 4" ?d] Suc.prems l n by simp
  also have "put ?d (w + 4) (take (4 * k) (drop (r + 4) d)) = put d w (take (4 * Suc k) (drop r d))"
  proof -
    have "length (take 4 (drop r d)) = 4" using Suc.prems by simp
    then have "put ?d (w + 4) (take (4 * k) (drop (r + 4) d)) = put d w (take 4 (drop r d) @ take (4 * k) (drop (r + 4) d))"
      using put_put [of w "take 4 (drop r d)" d] Suc.prems by simp
    also have "take 4 (drop r d) @ take (4 * k) (drop (r + 4) d) = take (4 * Suc k) (drop r d)"
      using take_add [of 4 "4 * k" "drop r d"] by (simp add: add.commute)
    finally show ?thesis .
  qed
  finally show ?case by simp
qed

definition in_words :: "byte list list \<Rightarrow> bool" where
  "in_words bs \<longleftrightarrow> (\<forall>b\<in>set bs. length b < 16777216 \<and> 4 dvd length b)"

definition buffer :: "byte list \<Rightarrow> nat \<Rightarrow> nat option \<Rightarrow> bool list \<Rightarrow> XS" where
  "buffer d r w ds = \<lparr>packet = \<lparr>pk_length = of_nat (length d), pk_data = Some d, pk_readPT = Some r, pk_writePT = w\<rparr>, decisions = ds\<rparr>"

lemma buffer_parts [simp]:
  "pk_length (packet (buffer d r w ds)) = of_nat (length d)" "pk_data (packet (buffer d r w ds)) = Some d"
  "pk_readPT (packet (buffer d r w ds)) = Some r" "set_readPT (Some r') (buffer d r w ds) = buffer d r' w ds"
  "length e = length d \<Longrightarrow> buffer d r w ds\<lparr>packet := packet (buffer d r w ds)\<lparr>pk_data := Some e, pk_readPT := Some r'\<rparr>\<rparr> = buffer e r' w ds"
  by (simp_all add: buffer_def set_readPT_def)

lemma unfragment_loop_frames:
  assumes "in_words bs" "w \<le> r" "length d < 4294967296" "r \<le> length d" "drop r d = frames bs @ rest" "n < 16777216"
  shows "unfragment_loop (mark_word (bs = []) n) (of_nat w) w (buffer d r wp ds) =
    XDone (OV_ERR_OK, of_nat (w + length (concat bs)))
      (buffer (put d w (concat bs)) (r + length (frames bs)) wp ds)"
  using assms
proof (induction bs arbitrary: w r d n)
  case Nil
  then show ?case by (simp add: unfragment_loop.simps)
next
  case (Cons b bs)
  let ?m = "mark_word (bs = []) (length b)"
  have b: "length b < 16777216" "4 dvd length b" using Cons.prems(1) by (simp_all add: in_words_def)
  then obtain k where k: "length b = 4 * k" by auto
  have fr: "drop r d = xdr_uint ?m @ b @ frames bs @ rest" using Cons.prems(5) by (simp add: frames_Cons)
  have len: "length d = r + 4 + length b + length (frames bs @ rest)"
    using Cons.prems(4) arg_cong [OF fr, of length] by simp
  have at: "stands d r (xdr_uint ?m)" using fr len by (simp add: stands_def)
  have read: "KS_DATAPACKET_read_xdr_uint (buffer d r wp ds) = XDone ?m (buffer d (r + 4) wp ds)"
    using read_uint_at [OF _ Cons.prems(3) at, of "buffer d r wp ds" wp] by (simp add: buffer_def set_readPT_def)
  have d4: "drop (r + 4) d = b @ frames bs @ rest" using arg_cong [OF fr, of "drop 4"] by (simp add: add.commute)
  have w': "(of_nat w + of_nat (length b) :: OV_UINT) = of_nat (w + length b)" by simp
  have u: "unat (of_nat (w + length b) :: OV_UINT) = w + length b" "unat (of_nat (length d) :: OV_UINT) = length d"
    by (rule small_word(1), use len Cons.prems(2,3) in simp)+
  have less: "(of_nat (w + length b) :: OV_UINT) < of_nat (length d)"
    unfolding word_less_nat_alt u using len Cons.prems(2) by simp
  have "copy_words (w + 4 * k) (length d) w (r + 4) d = Some (put d w (take (4 * k) (drop (r + 4) d)), w + 4 * k, r + 4 + 4 * k)"
    by (rule copy_words_block) (use len k Cons.prems(2) in simp_all)
  then have copy: "copy_words (w + length b) (length d) w (r + 4) d = Some (put d w b, w + length b, r + 4 + length b)"
    by (simp add: d4 k [symmetric])
  have place: "w + length b \<le> length d" using len Cons.prems(2) by simp
  have step: "unfragment_loop (mark_word (b # bs = []) n) (of_nat w) w (buffer d r wp ds) =
      unfragment_loop ?m (of_nat (w + length b)) (w + length b) (buffer (put d w b) (r + 4 + length b) wp ds)"
    using Cons.prems(6) b(1) less copy place
    by (simp add: unfragment_loop.simps [of "mark_word False n"] read w' u Let_def del: of_nat_add)
  have "drop (r + 4 + length b) (put d w b) = drop (length b) (drop (r + 4) d)"
    using len Cons.prems(2) by (simp add: add.commute add.left_commute)
  then have "drop (r + 4 + length b) (put d w b) = frames bs @ rest" by (simp add: d4)
  moreover have "in_words bs" using Cons.prems(1) by (simp add: in_words_def)
  ultimately have "unfragment_loop ?m (of_nat (w + length b)) (w + length b) (buffer (put d w b) (r + 4 + length b) wp ds) =
      XDone (OV_ERR_OK, of_nat (w + length b + length (concat bs)))
        (buffer (put (put d w b) (w + length b) (concat bs)) (r + 4 + length b + length (frames bs)) wp ds)"
    using len Cons.prems(2,3) b(1) by (intro Cons.IH) simp_all
  then show ?case
    unfolding step using len Cons.prems(2) by (simp add: put_put frames_Cons add.assoc del: of_nat_add)
qed

definition one_fragment :: "byte list \<Rightarrow> byte list list \<Rightarrow> nat option \<Rightarrow> nat option \<Rightarrow> bool list \<Rightarrow> byte list \<Rightarrow> XS" where
  "one_fragment b bs r w ds d =
    \<lparr>packet = \<lparr>pk_length = of_nat (4 + length b + length (concat bs)), pk_data = Some d, pk_readPT = r, pk_writePT = w\<rparr>,
     decisions = ds\<rparr>"

text \<open>C6: When a message that begins the packet came in fragments, which behind the first are of whole words,
  putting it together yields one fragment in place: behind the mark of the first fragment, which is left as it was,
  stand the contents of all the fragments, the length of the packet is that of the mark and the contents, and both
  pointers are where they were. What stands behind the message in the packet, further requests, is cut off.\<close>

theorem fragments_put_together:
  assumes "length b < 16777216" "in_words bs" "length (frames (b # bs) @ rest) < 4294967296"
  shows "\<exists>d. unfragmentXDRmessage 0
        \<lparr>packet = \<lparr>pk_length = of_nat (length (frames (b # bs) @ rest)), pk_data = Some (frames (b # bs) @ rest),
            pk_readPT = r, pk_writePT = w\<rparr>, decisions = ds\<rparr> =
      XDone OV_ERR_OK (one_fragment b bs r w ds d) \<and>
    take (4 + length b + length (concat bs)) d = xdr_uint (mark_word (bs = []) (length b)) @ b @ concat bs \<and>
    length d = length (frames (b # bs) @ rest)"
proof -
  let ?d = "frames (b # bs) @ rest" and ?k = "4 + length b" and ?m = "mark_word (bs = []) (length b)"
  have d: "?d = xdr_uint ?m @ b @ frames bs @ rest" by (simp add: frames_Cons)
  have read: "KS_DATAPACKET_read_xdr_uint (buffer ?d 0 (Some 0) ds) = XDone ?m (buffer ?d 4 (Some 0) ds)"
    using read_uint_at [of "buffer ?d 0 (Some 0) ds" ?d 0 "Some 0" ?m] assms(3) by (simp add: buffer_def set_readPT_def stands_def d)
  have n: "(of_nat (length b) + 4 :: OV_UINT) = of_nat ?k" by simp
  have loop: "unfragment_loop ?m (of_nat ?k) ?k (buffer ?d ?k (Some 0) ds) =
      XDone (OV_ERR_OK, of_nat (?k + length (concat bs))) (buffer (put ?d ?k (concat bs)) (?k + length (frames bs)) (Some 0) ds)"
    by (rule unfragment_loop_frames [where rest = rest]) (use assms in \<open>simp_all add: d\<close>)
  let ?e = "put ?d ?k (concat bs)"
  have "length (concat bs) \<le> length (frames bs)" by (induction bs) (simp_all add: frames_Cons)
  then have l: "length ?e = length ?d" by (intro length_put) (simp add: d)
  have "take (?k + length (concat bs)) ?e = xdr_uint ?m @ b @ concat bs"
    by (simp add: put_def d)
  moreover have "unfragmentXDRmessage 0 \<lparr>packet = \<lparr>pk_length = of_nat (length ?d), pk_data = Some ?d,
      pk_readPT = r, pk_writePT = w\<rparr>, decisions = ds\<rparr> = XDone OV_ERR_OK (one_fragment b bs r w ds ?e)"
  proof -
    have "\<lparr>packet = \<lparr>pk_length = of_nat (length ?d), pk_data = Some ?d, pk_readPT = Some 0, pk_writePT = Some 0\<rparr>, decisions = ds\<rparr>
        = buffer ?d 0 (Some 0) ds" by (simp add: buffer_def)
    then show ?thesis
      using read loop assms(1) l
      by (simp add: unfragmentXDRmessage_def one_fragment_def n Let_def add.commute [of 4] add.assoc del: of_nat_add)
        (simp add: buffer_def Ov_Fail_def)
  qed
  ultimately show ?thesis using l by blast
qed

theorem fragments_put_together_witness:
  "\<exists>d. unfragmentXDRmessage 0
        \<lparr>packet = \<lparr>pk_length = of_nat (length (frames [[1, 2, 3, 4], [5, 6, 7, 8]] @ [9])),
            pk_data = Some (frames [[1, 2, 3, 4], [5, 6, 7, 8]] @ [9]), pk_readPT = None, pk_writePT = None\<rparr>, decisions = []\<rparr> =
      XDone OV_ERR_OK (one_fragment [1, 2, 3, 4] [[5, 6, 7, 8]] None None [] d) \<and>
    take (4 + length [1, 2, 3, 4 :: byte] + length (concat [[5, 6, 7, 8 :: byte]])) d =
      xdr_uint (mark_word ([[5, 6, 7, 8 :: byte]] = []) (length [1, 2, 3, 4 :: byte])) @ [1, 2, 3, 4] @ concat [[5, 6, 7, 8]] \<and>
    length d = length (frames [[1, 2, 3, 4], [5, 6, 7, 8]] @ [9])"
  by (rule fragments_put_together) (simp_all add: in_words_def, presburger)

end
