(* ===== verification/XdrHandler.thy ===== *)
theory XdrHandler
  imports XdrServices XdrFrames
begin

text \<open>
  syslibs/comm/ksxdr/source/xdrClientHandler.c and xdrSimpleTicketAuthenticator.c: the handler of a
  client. A request is a remote procedure call (RFC 1057) whose first parameter is a ticket; the
  handler checks the call, gets the ticket from the authenticator of its type, executes the service
  and encodes the reply.
\<close>

section \<open>The numbers of the protocol\<close>

definition KSXDR_PROGRAMNUMBER :: OV_UINT where "KSXDR_PROGRAMNUMBER = 0x049678"
definition KSXDR_PROGRAMVERSION :: OV_UINT where "KSXDR_PROGRAMVERSION = 2"
definition KSXDR_RPCVERSION :: OV_UINT where "KSXDR_RPCVERSION = 2"
definition KSXDR_MSGTYPE_CALL :: OV_UINT where "KSXDR_MSGTYPE_CALL = 0"
definition KSXDR_MSGTYPE_REPLY :: OV_UINT where "KSXDR_MSGTYPE_REPLY = 1"
definition XDR_MSG_ACCEPTED :: OV_UINT where "XDR_MSG_ACCEPTED = 0"
definition XDR_MSG_DENIED :: OV_UINT where "XDR_MSG_DENIED = 1"
definition XDR_DEN_RPC_MISMATCH :: OV_UINT where "XDR_DEN_RPC_MISMATCH = 0"
definition XDR_DEN_AUTH_ERROR :: OV_UINT where "XDR_DEN_AUTH_ERROR = 1"
definition XDR_AUTH_NONE :: OV_UINT where "XDR_AUTH_NONE = 0"
definition XDR_AUTH_FAILED :: OV_UINT where "XDR_AUTH_FAILED = 7"
definition OV_TT_NONE :: OV_UINT where "OV_TT_NONE = 0"
definition OV_TT_SIMPLE :: OV_UINT where "OV_TT_SIMPLE = 1"
definition KS_SIMPLETICKETID_MAXLEN :: OV_UINT where "KS_SIMPLETICKETID_MAXLEN = 255"

lemmas rpc_numbers = KSXDR_PROGRAMNUMBER_def KSXDR_PROGRAMVERSION_def KSXDR_RPCVERSION_def KSXDR_MSGTYPE_CALL_def
  KSXDR_MSGTYPE_REPLY_def XDR_MSG_ACCEPTED_def XDR_MSG_DENIED_def XDR_DEN_RPC_MISMATCH_def XDR_DEN_AUTH_ERROR_def
  XDR_AUTH_NONE_def XDR_AUTH_FAILED_def OV_TT_NONE_def OV_TT_SIMPLE_def KS_SIMPLETICKETID_MAXLEN_def
  XDR_MSGST_SUCCESS_def XDR_MSGST_PROG_UNAVAIL_def XDR_MSGST_PROG_MISMATCH_def XDR_MSGST_GARBAGE_ARGS_def
  XDR_MSGST_SYSTEM_ERR_def

section \<open>Tickets\<close>

text \<open>The right that a ticket gives: \<open>password\<close> is that of the server, \<open>simple_access\<close> the right that the
  authenticator of simple tickets is configured to give, where there is one, and \<open>none_access\<close> that of the
  authenticator for no ticket.\<close>

definition ksxdr_xdrSimpleTicketAuthenticator_TicketGetaccess ::
  "OV_STRING \<Rightarrow> OV_UINT option \<Rightarrow> OV_UINT \<Rightarrow> OV_UINT \<Rightarrow> OV_STRING \<Rightarrow> OV_UINT" where
  "ksxdr_xdrSimpleTicketAuthenticator_TicketGetaccess password simple_access none_access ticket_type ident =
    (case password of
       None \<Rightarrow> none_access
     | Some p \<Rightarrow>
         if ticket_type = OV_TT_SIMPLE \<and> ov_string_compare ident (Some p) = OV_STRCMP_EQUAL then
           (case simple_access of Some a \<Rightarrow> a | None \<Rightarrow> OV_AC_READ OR OV_AC_WRITE OR OV_AC_INSTANTIABLE)
         else OV_AC_READ)"

definition ksxdr_xdrSimpleTicketAuthenticator_createticket ::
  "OV_UINT \<Rightarrow> (OV_STRING \<Rightarrow> OV_UINT) \<Rightarrow> OV_UINT \<Rightarrow> OV_TICKET option xdr" where
  "ksxdr_xdrSimpleTicketAuthenticator_createticket v_TicketType getaccess ticket_type s =
    (if ticket_type \<noteq> v_TicketType then XDone None s
     else case KS_DATAPACKET_read_xdr_string KS_SIMPLETICKETID_MAXLEN s of
         XFailed r s' \<Rightarrow> XDone None s'
       | XDone ident s' \<Rightarrow> XDone (Some \<lparr>tk_type = ticket_type, tk_id = ident, tk_access = getaccess ident\<rparr>) s'
       | XUndefined \<Rightarrow> XUndefined
       | XTooDeep \<Rightarrow> XTooDeep)"

section \<open>The channel and the server\<close>

record channel =
  ch_usesStreamProtocol :: bool
  ch_isLocal :: bool
  ch_timeoutIncomplete :: OV_UINT
  ch_connectionTimeout :: OV_UINT

record rpc_request =
  rq_header :: OV_UINT
  rq_xid :: OV_UINT
  rq_messageType :: OV_UINT
  rq_rpcVersion :: OV_UINT
  rq_progId :: OV_UINT
  rq_ProgVersion :: OV_UINT
  rq_procedure :: OV_UINT

text \<open>The authenticators are those of the domain TicketAuthenticators, which may be missing; each has the type
  of its tickets and reads one from the packet.\<close>

type_synonym authenticator = "OV_UINT \<times> (OV_UINT \<Rightarrow> OV_TICKET option xdr)"

record 'd rpc_server = "'d server" +
  sv_noneauth :: "'d \<Rightarrow> OV_TICKET option"
  sv_authenticators :: "'d \<Rightarrow> authenticator list option"
  sv_extension :: "rpc_request \<Rightarrow> OV_TICKET option \<Rightarrow> (OV_RESULT \<times> bool, 'd) handler option"

text \<open>A step that may leave the function with a result.\<close>

definition hstep :: "(OV_RESULT + 'a, 'd) handler \<Rightarrow> ('a \<Rightarrow> (OV_RESULT, 'd) handler) \<Rightarrow> (OV_RESULT, 'd) handler" where
  "hstep m k = hbind m (\<lambda>r. case r of Inl result \<Rightarrow> hdone result | Inr a \<Rightarrow> k a)"

section \<open>Replies\<close>

definition ksxdr_create_global_answer :: "OV_UINT \<Rightarrow> OV_UINT \<Rightarrow> OV_UINT \<Rightarrow> unit xdr" where
  "ksxdr_create_global_answer xid msgAccepted msgState =
    (let put = (\<lambda>v k. xbind (KS_DATAPACKET_write_xdr_uint (Some v)) (\<lambda>_. k)) in
     put xid (put KSXDR_MSGTYPE_REPLY (put msgAccepted (
       if msgAccepted \<noteq> XDR_MSG_ACCEPTED then
         put msgState (if msgState = XDR_DEN_AUTH_ERROR then put XDR_AUTH_FAILED (xdone ()) else put 2 (put 2 (xdone ())))
       else
         put XDR_AUTH_NONE (put 0 (put msgState (
           if msgState \<noteq> XDR_MSGST_SUCCESS \<and> msgState = XDR_MSGST_PROG_MISMATCH then put 2 (put 2 (xdone ()))
           else xdone ())))))))"

text \<open>\<open>answer->writePT - answer->data\<close>, the place of the answer's mark; both are null while nothing is written.\<close>

definition begin_answer :: "'d HS \<Rightarrow> OV_UINT" where
  "begin_answer h = (case pk_writePT (hs_answer h) of Some w \<Rightarrow> of_nat w | None \<Rightarrow> 0)"

text \<open>The answer without a body: of a call that was denied, or not executed. That the words of the answer were
  written is not looked at.\<close>

definition mark_answer :: "channel \<Rightarrow> (OV_UINT \<Rightarrow> (OV_RESULT, 'd) handler) \<Rightarrow> (OV_RESULT, 'd) handler" where
  "mark_answer ch k h =
    (let beginAnswer = begin_answer h
     in if ch_usesStreamProtocol ch then hstep (on_answer (KS_DATAPACKET_write_xdr_uint (Some 0x80))) (\<lambda>_. k beginAnswer) h
        else k 0 h)"

definition prepend_mark :: "channel \<Rightarrow> OV_UINT \<Rightarrow> (OV_RESULT, 'd) handler" where
  "prepend_mark ch beginAnswer =
    (if ch_usesStreamProtocol ch then hbind (on_answer (ksxdr_prepend_length beginAnswer)) (\<lambda>_. hdone OV_ERR_OK)
     else hdone OV_ERR_OK)"

definition short_answer :: "channel \<Rightarrow> OV_UINT \<Rightarrow> OV_UINT \<Rightarrow> OV_UINT \<Rightarrow> (OV_RESULT, 'd) handler" where
  "short_answer ch xid msgAccepted msgState =
    mark_answer ch (\<lambda>beginAnswer.
      hbind (on_answer (ksxdr_create_global_answer xid msgAccepted msgState)) (\<lambda>_. prepend_mark ch beginAnswer))"

text \<open>\<open>encodeReplyHeader\<close> and \<open>appendKsReplyBody\<close>; both authenticators have nothing to add to the reply, and a
  ticket that is missing is dereferenced.\<close>

definition drop_answer :: "('d HS \<Rightarrow> 'd HS)" where
  "drop_answer h = h\<lparr>hs_answer := ksbase_free_KSDATAPACKET (hs_answer h)\<rparr>"

definition drop_service :: "('d HS \<Rightarrow> 'd HS)" where
  "drop_service h = h\<lparr>hs_service := ksbase_free_KSDATAPACKET (hs_service h)\<rparr>"

definition ksxdr_xdrClientHandler_encodeReplyHeader ::
  "channel \<Rightarrow> OV_UINT \<Rightarrow> OV_UINT \<Rightarrow> OV_UINT \<Rightarrow> OV_UINT \<Rightarrow> OV_TICKET option \<Rightarrow> (OV_UINT \<Rightarrow> (OV_RESULT, 'd) handler) \<Rightarrow>
   (OV_RESULT, 'd) handler" where
  "ksxdr_xdrClientHandler_encodeReplyHeader ch xid msgAccepted msgState authflavour pticket k =
    mark_answer ch (\<lambda>beginAnswer.
      hbind (on_answer (ksxdr_create_global_answer xid msgAccepted msgState)) (\<lambda>_.
      hbind (on_answer (KS_DATAPACKET_write_xdr_uint (Some authflavour))) (\<lambda>r. case r of
          Inl _ \<Rightarrow> hbind (hupdate drop_answer) (\<lambda>_. hdone OV_ERR_HEAPOUTOFMEMORY)
        | Inr _ \<Rightarrow> (case pticket of None \<Rightarrow> hundefined | Some t \<Rightarrow> k beginAnswer))))"

definition ksxdr_xdrClientHandler_appendKsReplyBody :: "channel \<Rightarrow> OV_UINT \<Rightarrow> OV_UINT \<Rightarrow> (OV_RESULT, 'd) handler" where
  "ksxdr_xdrClientHandler_appendKsReplyBody ch ksErrCode beginAnswer =
    (let give_up = hbind (hupdate (\<lambda>h. drop_answer (drop_service h))) (\<lambda>_. hdone OV_ERR_HEAPOUTOFMEMORY)
     in hbind (on_answer (KS_DATAPACKET_write_xdr_uint (Some ksErrCode))) (\<lambda>r. case r of
          Inl _ \<Rightarrow> give_up
        | Inr _ \<Rightarrow> (\<lambda>h.
            if ksErrCode = 0 \<and> pk_length (hs_service h) \<noteq> 0 then
              hbind (on_answer (ksbase_KSDATAPACKET_append (the (pk_data (hs_service h))))) (\<lambda>r. case r of
                  Inl _ \<Rightarrow> give_up
                | Inr _ \<Rightarrow> hbind (hupdate drop_service) (\<lambda>_. prepend_mark ch beginAnswer)) h
            else prepend_mark ch beginAnswer h)))"

section \<open>Receiving a request\<close>

definition decode_request :: "bool \<Rightarrow> rpc_request xdr" where
  "decode_request stream =
    xbind (if stream then KS_DATAPACKET_read_xdr_uint else xdone 0) (\<lambda>header.
    xbind KS_DATAPACKET_read_xdr_uint (\<lambda>xid.
    xbind KS_DATAPACKET_read_xdr_uint (\<lambda>messageType.
    xbind KS_DATAPACKET_read_xdr_uint (\<lambda>rpcVersion.
    xbind KS_DATAPACKET_read_xdr_uint (\<lambda>progId.
    xbind KS_DATAPACKET_read_xdr_uint (\<lambda>ProgVersion.
    xbind KS_DATAPACKET_read_xdr_uint (\<lambda>procedure.
    xdone \<lparr>rq_header = header, rq_xid = xid, rq_messageType = messageType, rq_rpcVersion = rpcVersion,
      rq_progId = progId, rq_ProgVersion = ProgVersion, rq_procedure = procedure\<rparr>)))))))"

text \<open>The states of acceptance and of execution, or the result with which the request is dropped.\<close>

definition check_request :: "rpc_request \<Rightarrow> OV_RESULT + OV_UINT \<times> OV_UINT" where
  "check_request rq =
    (if rq_rpcVersion rq > KSXDR_RPCVERSION then Inr (XDR_MSG_DENIED, XDR_DEN_RPC_MISMATCH)
     else if rq_progId rq \<noteq> KSXDR_PROGRAMNUMBER then Inr (XDR_MSG_ACCEPTED, XDR_MSGST_PROG_UNAVAIL)
     else if rq_ProgVersion rq > KSXDR_PROGRAMVERSION then Inr (XDR_MSG_ACCEPTED, XDR_MSGST_PROG_MISMATCH)
     else if rq_messageType rq \<noteq> KSXDR_MSGTYPE_CALL then Inl OV_ERR_GENERIC
     else Inr (XDR_MSG_ACCEPTED, XDR_MSGST_SUCCESS))"

text \<open>A stream may hold a part of the request only: it is left in the packet and read again from its beginning,
  when more has arrived. Its fragments are put together.\<close>

definition complete_request :: "channel \<Rightarrow> nat \<Rightarrow> OV_UINT \<Rightarrow> (OV_RESULT + unit, 'd) handler" where
  "complete_request ch begin_of header =
    hbind (on_received (bufferHoldsCompleteRequest begin_of)) (\<lambda>r. case r of
        Inl e \<Rightarrow> hdone (Inl e)
      | Inr (complete, result) \<Rightarrow>
          if \<not> complete then
            (if Ov_Fail result then hdone (Inl result)
             else hbind (hupdate (\<lambda>h. h\<lparr>hs_ConnectionTimeOut := ch_timeoutIncomplete ch,
                     hs_received := (hs_received h)\<lparr>pk_readPT := Some begin_of\<rparr>\<rparr>)) (\<lambda>_. hdone (Inl OV_ERR_OK)))
          else hbind (hupdate (\<lambda>h. h\<lparr>hs_ConnectionTimeOut := ch_connectionTimeout ch\<rparr>)) (\<lambda>_.
            if last_fragment header then hdone (Inr ())
            else hbind (on_received (unfragmentXDRmessage begin_of)) (\<lambda>r. case r of
                Inl e \<Rightarrow> hdone (Inl e)
              | Inr result \<Rightarrow> hdone (if Ov_Fail result then Inl result else Inr ()))))"

text \<open>The credentials and the verifier, which both must be of the flavour that holds nothing; all four are
  read whether or not one of them failed.\<close>

definition authenticate :: "(bool, 'd) handler" where
  "authenticate =
    (let flavour = on_received KS_DATAPACKET_read_xdr_uint;
         body = on_received (KS_DATAPACKET_read_xdr_opaque KS_SIMPLETICKETID_MAXLEN);
         flavour_ok = (\<lambda>r. case r of Inl _ \<Rightarrow> False | Inr f \<Rightarrow> f = XDR_AUTH_NONE)
     in hbind flavour (\<lambda>a. hbind body (\<lambda>b. hbind flavour (\<lambda>c. hbind body (\<lambda>d.
          hdone (flavour_ok a \<and> \<not> isl b \<and> flavour_ok c \<and> \<not> isl d))))))"

text \<open>Every authenticator is asked, also behind the one that has the type.\<close>

fun ask_authenticators :: "OV_UINT \<Rightarrow> authenticator list \<Rightarrow> OV_TICKET option \<Rightarrow> (OV_TICKET option, 'd) handler" where
  "ask_authenticators authflavour [] pticket = hdone pticket"
| "ask_authenticators authflavour ((v_TicketType, createticket) # auths) pticket =
    (if v_TicketType = authflavour then
       hbind (on_received (createticket authflavour)) (\<lambda>r.
         let pticket = (case r of Inr p \<Rightarrow> p | Inl _ \<Rightarrow> None)
         in if pticket = None then
              hbind (hupdate (\<lambda>h. h\<lparr>hs_msgState := XDR_MSGST_SYSTEM_ERR, hs_ksErrCode := OV_ERR_TARGETGENERIC\<rparr>))
                (\<lambda>_. ask_authenticators authflavour auths pticket)
            else ask_authenticators authflavour auths pticket)
     else hbind (hupdate (\<lambda>h. h\<lparr>hs_msgState := XDR_MSGST_SUCCESS, hs_ksErrCode := KS_ERR_UNKNOWNAUTH\<rparr>))
            (\<lambda>_. ask_authenticators authflavour auths pticket))"

definition get_ticket :: "'d rpc_server \<Rightarrow> OV_UINT \<Rightarrow> (OV_TICKET option, 'd) handler" where
  "get_ticket sv authflavour h =
    (if authflavour = OV_TT_NONE then
       (case sv_noneauth sv (ks_db (hs_ks h)) of None \<Rightarrow> HUndefined | Some t \<Rightarrow> HDone (Some t) h)
     else case sv_authenticators sv (ks_db (hs_ks h)) of
         None \<Rightarrow> HDone None (h\<lparr>hs_msgState := XDR_MSGST_SYSTEM_ERR, hs_ksErrCode := OV_ERR_TARGETGENERIC\<rparr>)
       | Some auths \<Rightarrow> ask_authenticators authflavour auths None h)"

text \<open>An indicator that cannot be read counts as that of no ticket, whose flavour the verifier had.\<close>

definition ticket_indicator :: "(OV_UINT, 'd) handler" where
  "ticket_indicator =
    hbind (on_received KS_DATAPACKET_read_xdr_uint) (\<lambda>r. case r of
        Inr authflavour \<Rightarrow> hdone authflavour
      | Inl _ \<Rightarrow> hbind (hupdate (\<lambda>h. h\<lparr>hs_msgState := XDR_MSGST_SUCCESS, hs_ksErrCode := OV_ERR_TARGETGENERIC\<rparr>))
          (\<lambda>_. hdone XDR_AUTH_NONE))"

section \<open>The services by their numbers\<close>

definition KS_GETPP :: OV_UINT where "KS_GETPP = 0x00000001"
definition KS_GETEP :: OV_UINT where "KS_GETEP = 0x00000002"
definition KS_GETCANONICALPATH :: OV_UINT where "KS_GETCANONICALPATH = 0x00000003"
definition KS_GETVAR :: OV_UINT where "KS_GETVAR = 0x00000101"
definition KS_SETVAR :: OV_UINT where "KS_SETVAR = 0x00000102"
definition KS_CREATEOBJECT :: OV_UINT where "KS_CREATEOBJECT = 0x00000201"
definition KS_DELETEOBJECT :: OV_UINT where "KS_DELETEOBJECT = 0x00000202"
definition KS_RENAMEOBJECT :: OV_UINT where "KS_RENAMEOBJECT = 0x00000203"
definition KS_LINK :: OV_UINT where "KS_LINK = 0x00000301"
definition KS_UNLINK :: OV_UINT where "KS_UNLINK = 0x00000302"
definition KS_REGISTER :: OV_UINT where "KS_REGISTER = 0x0000FF01"
definition KS_UNREGISTER :: OV_UINT where "KS_UNREGISTER = 0x0000FF02"
definition KS_GETSERVER :: OV_UINT where "KS_GETSERVER = 0x0000FF03"

lemmas service_numbers = KS_GETPP_def KS_GETEP_def KS_GETCANONICALPATH_def KS_GETVAR_def KS_SETVAR_def
  KS_CREATEOBJECT_def KS_DELETEOBJECT_def KS_RENAMEOBJECT_def KS_LINK_def KS_UNLINK_def KS_REGISTER_def
  KS_UNREGISTER_def KS_GETSERVER_def

text \<open>\<open>n\<close> is the depth of values that the stack admits.\<close>

definition service_of :: "nat \<Rightarrow> 'd rpc_server \<Rightarrow> OV_UINT \<Rightarrow> OV_TICKET option \<Rightarrow> OV_UINT \<Rightarrow> (OV_RESULT, 'd) handler option" where
  "service_of n sv version pticket procedure =
    (let ops = sv_ops sv; base = server.truncate sv
     in if procedure = KS_REGISTER then Some (ksxdr_register base)
        else if procedure = KS_UNREGISTER then Some (ksxdr_unregister base)
        else if procedure = KS_GETSERVER then Some (ksxdr_getserver base)
        else if procedure = KS_CREATEOBJECT then Some (ksxdr_createObject n ops version pticket)
        else if procedure = KS_DELETEOBJECT then Some (ksxdr_deleteObject ops version pticket)
        else if procedure = KS_GETEP then Some (ksxdr_getEP base version pticket)
        else if procedure = KS_GETPP then Some (ksxdr_getPP base version pticket)
        else if procedure = KS_GETCANONICALPATH then Some (ksxdr_getCanonicalPath ops version pticket)
        else if procedure = KS_GETVAR then Some (ksxdr_getVar ops version pticket)
        else if procedure = KS_LINK then Some (ksxdr_link ops version pticket)
        else if procedure = KS_RENAMEOBJECT then Some (ksxdr_renameObject ops version pticket)
        else if procedure = KS_SETVAR then Some (ksxdr_setVar n ops version pticket)
        else if procedure = KS_UNLINK then Some (ksxdr_unlink ops version pticket)
        else None)"

definition dispatch :: "nat \<Rightarrow> channel \<Rightarrow> 'd rpc_server \<Rightarrow> rpc_request \<Rightarrow> OV_TICKET option \<Rightarrow> (OV_RESULT + unit, 'd) handler" where
  "dispatch n ch sv rq pticket =
    (let settle = (\<lambda>result. if Ov_Fail result then hbind (hupdate (\<lambda>h. drop_answer (drop_service h))) (\<lambda>_. hdone (Inl result))
                          else hdone (Inr ()))
     in if rq_procedure rq \<in> {KS_REGISTER, KS_UNREGISTER} \<and> \<not> ch_isLocal ch then
          hbind (hupdate (\<lambda>h. h\<lparr>hs_ksErrCode := KS_ERR_NOREMOTE\<rparr>)) (\<lambda>_. hdone (Inr ()))
        else case service_of n sv (rq_ProgVersion rq) pticket (rq_procedure rq) of
            Some service \<Rightarrow> hbind service settle
          | None \<Rightarrow>
              (case sv_extension sv rq pticket of
                 Some extended \<Rightarrow> hbind extended (\<lambda>(result, takesOver).
                   if Ov_Fail result then settle result else hdone (if takesOver then Inl OV_ERR_OK else Inr ()))
               | None \<Rightarrow> hbind (hupdate (\<lambda>h. h\<lparr>hs_msgState := XDR_MSGST_SUCCESS,
                     hs_ksErrCode := result_code OV_ERR_NOTIMPLEMENTED,
                     hs_received := ksbase_free_KSDATAPACKET (hs_received h)\<rparr>)) (\<lambda>_. hdone (Inr ()))))"

text \<open>When the whole packet is decoded, it is freed; the length is compared as a signed number.\<close>

definition finish_received :: "'d HS \<Rightarrow> 'd HS" where
  "finish_received h =
    (let pk = hs_received h; r = (case pk_readPT pk of Some r \<Rightarrow> int r | None \<Rightarrow> 0)
     in if sint (pk_length pk) \<le> r then h\<lparr>hs_received := ksbase_free_KSDATAPACKET pk\<rparr> else h)"

definition send_reply :: "channel \<Rightarrow> rpc_request \<Rightarrow> OV_UINT \<Rightarrow> OV_TICKET option \<Rightarrow> (OV_RESULT, 'd) handler" where
  "send_reply ch rq authflavour pticket h =
    hbind (ksxdr_xdrClientHandler_encodeReplyHeader ch (rq_xid rq) XDR_MSG_ACCEPTED (hs_msgState h) authflavour pticket
             (\<lambda>beginAnswer. ksxdr_xdrClientHandler_appendKsReplyBody ch (hs_ksErrCode h) beginAnswer)) (\<lambda>result.
      if Ov_Fail result then hbind (hupdate drop_service) (\<lambda>_. hdone result)
      else hbind (hupdate finish_received) (\<lambda>_. hdone OV_ERR_OK)) h"

definition serve_request :: "nat \<Rightarrow> channel \<Rightarrow> 'd rpc_server \<Rightarrow> rpc_request \<Rightarrow> (OV_RESULT, 'd) handler" where
  "serve_request n ch sv rq =
    hbind (hupdate (\<lambda>h. h\<lparr>hs_receivedCalls := hs_receivedCalls h + 1\<rparr>)) (\<lambda>_.
    hbind ticket_indicator (\<lambda>authflavour.
    hbind (get_ticket sv authflavour) (\<lambda>pticket h.
      if hs_msgState h \<noteq> XDR_MSGST_SUCCESS then short_answer ch (rq_xid rq) XDR_MSG_ACCEPTED (hs_msgState h) h
      else hstep (dispatch n ch sv rq pticket) (\<lambda>_. send_reply ch rq authflavour pticket) h)))"

definition ksxdr_xdrClientHandler_HandleRequest :: "nat \<Rightarrow> channel \<Rightarrow> 'd rpc_server \<Rightarrow> (OV_RESULT, 'd) handler" where
  "ksxdr_xdrClientHandler_HandleRequest n ch sv h0 =
    (let begin_of = (case pk_readPT (hs_received h0) of Some r \<Rightarrow> r | None \<Rightarrow> 0);
         h = h0\<lparr>hs_msgState := XDR_MSGST_SUCCESS, hs_ksErrCode := 0, hs_service := no_packet\<rparr>
     in hbind (on_received (decode_request (ch_usesStreamProtocol ch))) (\<lambda>r. case r of
          Inl _ \<Rightarrow> hdone OV_ERR_GENERIC
        | Inr rq \<Rightarrow>
           (case check_request rq of
              Inl result \<Rightarrow> hdone result
            | Inr (msgAccepted, msgState) \<Rightarrow>
                if msgAccepted \<noteq> XDR_MSG_ACCEPTED \<or> msgState \<noteq> XDR_MSGST_SUCCESS then
                  short_answer ch (rq_xid rq) msgAccepted msgState
                else
                  hstep (if ch_usesStreamProtocol ch then complete_request ch begin_of (rq_header rq) else hdone (Inr ())) (\<lambda>_.
                  hbind authenticate (\<lambda>authentic.
                  if \<not> authentic then short_answer ch (rq_xid rq) XDR_MSG_DENIED XDR_DEN_AUTH_ERROR
                  else serve_request n ch sv rq)))) h)"

end
