(* ===== verification/KsLaws.thy ===== *)
theory KsLaws
  imports KsBackend
begin

text \<open>
  What the services of KS promise their callers: the contract that all seven share, batches of paths, both
  ways to name a link, and the results of a new object's parameters.
\<close>

section \<open>The contract of a service\<close>

text \<open>\<open>run\<close> executes a service for a ticket; \<open>right\<close> are the rights one of which the ticket must give.\<close>

definition within_rights :: "(OV_TICKET option \<Rightarrow> 'i list \<Rightarrow> 'd KS \<Rightarrow> ((OV_UINT \<times> 'r list) \<times> 'd KS) option) \<Rightarrow> OV_UINT \<Rightarrow> bool" where
  "within_rights run right \<longleftrightarrow>
    (\<forall>pticket items s result s'. run pticket items s = Some (result, s') \<longrightarrow> ks_db s' \<noteq> ks_db s \<longrightarrow>
       (\<exists>t. pticket = Some t \<and> tk_access t AND right \<noteq> 0 \<and> fst result = 0))"

definition leaves_database :: "(OV_TICKET option \<Rightarrow> 'i list \<Rightarrow> 'd KS \<Rightarrow> ((OV_UINT \<times> 'r list) \<times> 'd KS) option) \<Rightarrow> bool" where
  "leaves_database run \<longleftrightarrow> (\<forall>pticket items s result s'. run pticket items s = Some (result, s') \<longrightarrow> ks_db s' = ks_db s)"

locale ks_service =
  fixes run :: "OV_TICKET option \<Rightarrow> 'i list \<Rightarrow> 'd KS \<Rightarrow> ((OV_UINT \<times> 'r list) \<times> 'd KS) option" and right :: OV_UINT
  assumes no_items: "run pticket [] s = Some ((0, []), s)"
    and no_ticket: "is \<noteq> [] \<Longrightarrow> run None is s = None"
    and refused: "is \<noteq> [] \<Longrightarrow> tk_access t AND right = 0 \<Longrightarrow> run (Some t) is s = Some ((result_code OV_ERR_NOACCESS, []), s)"
    and answered: "run pticket is s = Some ((0, rs), s') \<Longrightarrow> length rs = length is"
    and failed: "run pticket is s = Some ((e, rs), s') \<Longrightarrow> e \<noteq> 0 \<Longrightarrow> rs = [] \<and> ks_db s' = ks_db s"
begin

lemma changes_need_right:
  assumes "run pticket is s = Some (result, s')" "ks_db s' \<noteq> ks_db s"
  obtains t where "pticket = Some t" "tk_access t AND right \<noteq> 0" "fst result = 0"
proof -
  have "is \<noteq> []"
  proof
    assume "is = []"
    with assms(1) have "s' = s" by (simp add: no_items)
    with assms(2) show False by simp
  qed
  then obtain t where t: "pticket = Some t" using assms no_ticket by (cases pticket) auto
  moreover have "tk_access t AND right \<noteq> 0" using assms refused \<open>is \<noteq> []\<close> t by auto
  moreover have "fst result = 0" using assms failed [of pticket "is" s "fst result" "snd result" s'] by auto
  ultimately show thesis by (rule that)
qed

lemma rights: "within_rights run right"
  unfolding within_rights_def using changes_need_right by metis

lemma one_result_each:
  "run pticket is s = Some ((e, rs), s') \<Longrightarrow> length rs = (if e = 0 then length is else 0)"
  using answered failed by auto

end

lemma all_granted_db: "all_granted n s = (g, s') \<Longrightarrow> ks_db s' = ks_db s"
  by (induction n arbitrary: s) (auto simp: ks_grant_def split: list.splits prod.splits if_splits)

lemma frame_is_service:
  assumes "\<And>is t s rs s'. body is t s = Some (rs, s') \<Longrightarrow> length rs = length is"
  shows "ks_service (\<lambda>pticket is. service_frame right allocs pticket is (body is)) right"
proof
  fix pticket :: "OV_TICKET option" and "is" :: "'a list" and s s' :: "'b KS" and rs :: "'c list" and e
  show "service_frame right allocs pticket [] (body []) s = Some ((0, []), s)" by (simp add: service_frame_def)
  show "length rs = length is" if "service_frame right allocs pticket is (body is) s = Some ((0, rs), s')"
    using that assms by (auto simp: service_frame_def OV_ERR_TARGETGENERIC_def split: if_splits option.splits prod.splits)
  show "rs = [] \<and> ks_db s' = ks_db s" if "service_frame right allocs pticket is (body is) s = Some ((e, rs), s')" "e \<noteq> 0"
    using that by (auto simp: service_frame_def dest: all_granted_db split: if_splits option.splits prod.splits)
qed (simp_all add: service_frame_def)

text \<open>Every item has a result.\<close>

lemma path_loop_length: "length (fst (path_loop ops version name failed item lastpath is s)) = length is"
proof (induction ops version name failed item lastpath "is" s rule: path_loop.induct)
  case (2 ops version name failed item lastpath i "is" s)
  have "length (takeWhile p is) + length (drop (length (takeWhile p is)) is) = length is" for p
    using length_takeWhile_le [of p "is"] by simp
  then show ?case
    using 2 by (auto simp: Let_def split: sum.splits prod.splits) (metis fst_conv)+
qed simp

lemma item_loop_length: "length (fst (item_loop item is d)) = length is"
  by (induction "is" arbitrary: d) (simp_all add: split_beta)

lemma each_item_length: "each_item item is s = Some (rs, s') \<Longrightarrow> length rs = length is"
  using item_loop_length [of item "is" "ks_db s"] by (auto simp: each_item_def split: prod.splits)

lemma try_loop_length: "try_loop item is s = Some (rs, s') \<Longrightarrow> length rs = length is"
  by (induction "is" arbitrary: s rs) (auto simp: bind_eq_Some_conv)

lemma path_loop_some: "Some (path_loop ops version name failed item lastpath is s) = Some (rs, s') \<Longrightarrow> length rs = length is"
  using path_loop_length by (metis fst_conv option.inject)

lemma path_loop_keeps:
  assumes "\<And>i path s. P s \<Longrightarrow> P (snd (item i path s))" "P s"
  shows "P (snd (path_loop ops version name failed item lastpath is s))"
  using assms
proof (induction ops version name failed item lastpath "is" s rule: path_loop.induct)
  case (2 ops version name failed item lastpath i "is" s)
  show ?case
  proof (cases "op_resolve ops lastpath (name i) version (ks_db s)")
    case (Inl e)
    then show ?thesis using "2.IH" "2.prems" by (auto simp: Let_def split: prod.splits)
  next
    case (Inr path)
    obtain r s' where i: "item i path s = (r, s')" by fastforce
    then have "P s'" using "2.prems" by (metis snd_conv)
    then have "P (snd (path_loop ops version name failed item (Some path) is s'))"
      using "2.IH"(2) [OF Inr refl i [symmetric]] "2.prems"(1) \<open>P s'\<close> by blast
    then show ?thesis using Inr i by (auto simp: split_beta Let_def)
  qed
qed simp

interpretation setvar: ks_service "ov_ksserver_setvar ops version" OV_AC_WRITE for ops version
  unfolding ov_ksserver_setvar_def by (rule frame_is_service) (erule path_loop_some)

interpretation getvar: ks_service "ov_ksserver_getvar ops version" OV_AC_READ for ops version
  unfolding ov_ksserver_getvar_def by (rule frame_is_service) (erule path_loop_some)

interpretation getcanonicalpath: ks_service "ov_ksserver_getcanonicalpath ops version" OV_AC_READ for ops version
  unfolding ov_ksserver_getcanonicalpath_def by (rule frame_is_service) (erule path_loop_some)

interpretation link: ks_service "ov_ksserver_link ops version" OV_AC_LINKABLE for ops version
  unfolding ov_ksserver_link_def by (rule frame_is_service) (erule each_item_length)

interpretation unlink: ks_service "ov_ksserver_unlink ops version" OV_AC_UNLINKABLE for ops version
  unfolding ov_ksserver_unlink_def by (rule frame_is_service) (erule each_item_length)

interpretation deleteobject: ks_service "ov_ksserver_deleteobject ops version" OV_AC_DELETEABLE for ops version
  unfolding ov_ksserver_deleteobject_def by (rule frame_is_service) (erule each_item_length)

interpretation renameobject: ks_service "ov_ksserver_renameobject ops version" OV_AC_RENAMEABLE for ops version
  unfolding ov_ksserver_renameobject_def by (rule frame_is_service) (erule try_loop_length)

interpretation createobject: ks_service "ov_ksserver_createobject ops version" OV_AC_INSTANTIABLE for ops version
  unfolding ov_ksserver_createobject_def by (rule frame_is_service) (erule try_loop_length)


section \<open>Batches of paths\<close>

text \<open>An absolute path begins a batch of its own: what was before it, succeeding or not, has no influence but
  through the database.\<close>

lemma path_loop_failed:
  assumes "op_resolve ops lastpath (name i) version (ks_db s) = Inl e"
  shows "path_loop ops version name failed item lastpath (i # is) s =
    (let skipped = takeWhile (\<lambda>x. \<not> absolute (name x)) is;
         (rs, s') = path_loop ops version name failed item None (drop (length skipped) is) s
     in (failed e # map (\<lambda>_. failed (result_code OV_ERR_BADPATH)) skipped @ rs, s'))"
  using assms by simp

lemma path_loop_batches:
  assumes "absolute (name j)" "\<And>lastpath d. op_resolve ops lastpath (name j) version d = op_resolve ops None (name j) version d"
  shows "path_loop ops version name failed item lastpath (us @ j # js) s =
    (let (rs, s') = path_loop ops version name failed item lastpath us s;
         (rs', s'') = path_loop ops version name failed item None (j # js) s'
     in (rs @ rs', s''))"
proof (induction "length us" arbitrary: us lastpath s rule: less_induct)
  case less
  show ?case
  proof (cases us)
    case Nil
    show ?thesis using assms(2) [of lastpath "ks_db s"] by (auto simp: Nil split: sum.splits prod.splits)
  next
    case (Cons i us')
    show ?thesis
    proof (cases "op_resolve ops lastpath (name i) version (ks_db s)")
      case (Inr path)
      then show ?thesis using less [of us'] by (auto simp: Cons Let_def split: prod.splits)
    next
      case (Inl e)
      let ?p = "\<lambda>x. \<not> absolute (name x)"
      have t: "takeWhile ?p (us' @ j # js) = takeWhile ?p us'"
        using assms(1) by (simp add: takeWhile_append)
          (metis takeWhile_eq_all_conv)
      have d: "drop (length (takeWhile ?p us')) (us' @ j # js) = drop (length (takeWhile ?p us')) us' @ j # js"
        using length_takeWhile_le [of ?p us'] by simp
      have "length (drop (length (takeWhile ?p us')) us') < length us" by (simp add: Cons)
      from less [OF this] show ?thesis
        unfolding Cons append_Cons path_loop_failed [of ops lastpath name i, OF Inl] Let_def t d
        by (auto split: prod.splits)
    qed
  qed
qed

text \<open>A database for the examples, which logs the variables that are set. An absolute name is found, a relative
  one only behind a path.\<close>

definition log_element :: "string \<Rightarrow> OV_ELEMENT" where
  "log_element s = \<lparr>elemtype = OV_ET_VARIABLE, el_pobj = Some (length s), pvalue = None, pvar = None, elemunion = None\<rparr>"

definition log_ops :: "objptr option list ops" where
  "log_ops = undefined\<lparr>
     op_resolve := (\<lambda>lastpath s version d. case s of
         Some (c # cs) \<Rightarrow> if c = CHR ''/'' then Inr [log_element (c # cs)]
                        else (case lastpath of Some _ \<Rightarrow> Inr [log_element (c # cs)] | None \<Rightarrow> Inl 0x11)
       | _ \<Rightarrow> Inl 0x11),
     op_getaccess := (\<lambda>pobj e t d. OV_AC_READWRITE),
     op_setvar := (\<lambda>pobj e p d. (0, d @ [pobj]))\<rparr>"

definition log_item :: "string \<Rightarrow> OV_SETVAR_ITEM" where
  "log_item s = \<lparr>path_and_name = Some s,
     set_props = \<lparr>cp_value = VAR 0 val_void, cp_time = \<lparr>secs = 0, usecs = 0\<rparr>, cp_state = 0\<rparr>\<rparr>"

text \<open>C18: A SetVar whose items fall into two batches, the second of which begins with an absolute path, does what
  the two batches do one after the other: the results are those of the first batch followed by those of the second,
  which does not depend on the last path of the first, nor on whether it was found.\<close>

theorem setvar_batches:
  assumes "tk_access t AND OV_AC_WRITE \<noteq> 0" "ks_grants s = []" "absolute (path_and_name j)"
    "\<And>lastpath d. op_resolve ops lastpath (path_and_name j) version d = op_resolve ops None (path_and_name j) version d"
  shows "\<exists>rs s1 rs' s2. ov_ksserver_setvar ops version (Some t) us s = Some ((0, rs), s1) \<and>
    ov_ksserver_setvar ops version (Some t) (j # js) s1 = Some ((0, rs'), s2) \<and>
    ov_ksserver_setvar ops version (Some t) (us @ j # js) s = Some ((0, rs @ rs'), s2)"
proof -
  define item where "item = (\<lambda>pitem path (s :: 'a KS). let (r, d) = ov_ksserver_setvar_setitem ops t pitem (last path) False (ks_db s)
    in (r, s\<lparr>ks_db := d\<rparr>))"
  define loop where "loop = path_loop ops version path_and_name id item"
  have granted: "all_granted 1 x = (True, x)" if "ks_grants x = []" for x :: "'a KS"
    using that by (simp add: ks_grant_def)
  have run: "ov_ksserver_setvar ops version (Some t) items x = Some ((0, fst (loop None items x)), snd (loop None items x))"
    if "ks_grants x = []" for items x
    using assms(1) granted [OF that]
    by (cases "items = []") (simp_all add: ov_ksserver_setvar_def service_frame_def item_def loop_def id_def split_beta)
  have keeps: "ks_grants (snd (loop lastpath items x)) = []" if "ks_grants x = []" for lastpath items x
    unfolding loop_def by (rule path_loop_keeps) (use that in \<open>auto simp: item_def split_beta Let_def\<close>)
  obtain rs s1 where b1: "loop None us s = (rs, s1)" by fastforce
  obtain rs' s2 where b2: "loop None (j # js) s1 = (rs', s2)" by fastforce
  have "loop None (us @ j # js) s = (rs @ rs', s2)"
    using path_loop_batches [where name = path_and_name and j = j and ops = ops and item = item and failed = id and lastpath = None and s = s and js = js and us = us, OF assms(3,4)]
      b1 b2 by (simp add: loop_def)
  then show ?thesis
    using run [OF assms(2)] keeps [OF assms(2), of None us] run [of s1] b1 b2 by auto
qed

theorem setvar_batches_witness:
  "\<exists>rs s1 rs' s2. ov_ksserver_setvar log_ops 2 (Some \<lparr>tk_type = 0, tk_id = None, tk_access = 3\<rparr>)
      [log_item ''/a'', log_item ''b''] \<lparr>ks_grants = [], ks_db = []\<rparr> = Some ((0, rs), s1) \<and>
    ov_ksserver_setvar log_ops 2 (Some \<lparr>tk_type = 0, tk_id = None, tk_access = 3\<rparr>)
      [log_item ''/ccc'', log_item ''d''] s1 = Some ((0, rs'), s2) \<and>
    ov_ksserver_setvar log_ops 2 (Some \<lparr>tk_type = 0, tk_id = None, tk_access = 3\<rparr>)
      ([log_item ''/a'', log_item ''b''] @ [log_item ''/ccc'', log_item ''d'']) \<lparr>ks_grants = [], ks_db = []\<rparr> = Some ((0, rs @ rs'), s2)"
  by (rule setvar_batches) (simp_all add: OV_AC_WRITE_def absolute_def log_item_def log_ops_def)

section \<open>Both ways to name a link\<close>

definition whole_object :: "objptr option \<Rightarrow> OV_ELEMENT" where
  "whole_object pobj = \<lparr>elemtype = OV_ET_OBJECT, el_pobj = pobj, pvalue = None, pvar = None, elemunion = None\<rparr>"

definition link_element :: "OV_UINT \<Rightarrow> objptr option \<Rightarrow> objptr option \<Rightarrow> OV_ELEMENT" where
  "link_element kind pobj passoc = \<lparr>elemtype = kind, el_pobj = pobj, pvalue = None, pvar = None, elemunion = passoc\<rparr>"

text \<open>A link may be named from the parent, with the child as the other object, or from the child: Link and
  Unlink then do the same, with the two placements of Link exchanged, provided that the objects' classes are those of
  the association.\<close>

lemma link_from_either_end:
  assumes "op_is_child ops chi passoc d" "op_is_parent ops par passoc d"
  shows "ov_ksserver_link_linkitem ops t (link_element OV_ET_PARENTLINK par passoc) (whole_object chi) pplace poppositeplace hint oppositehint d =
      ov_ksserver_link_linkitem ops t (link_element OV_ET_CHILDLINK chi passoc) (whole_object par) poppositeplace pplace oppositehint hint d \<and>
    ov_ksserver_unlink_unlinkitem ops t (link_element OV_ET_PARENTLINK par passoc) (whole_object chi) d =
      ov_ksserver_unlink_unlinkitem ops t (link_element OV_ET_CHILDLINK chi passoc) (whole_object par) d"
proof -
  have kinds: "OV_ET_CHILDLINK \<noteq> OV_ET_PARENTLINK" by (simp add: OV_ET_CHILDLINK_def OV_ET_PARENTLINK_def)
  have places: "\<exists>x. place_object p = Inl (result_code OV_ERR_BADOBJTYPE) \<or> place_object p = Inr x" for p
    by (cases p) (auto simp: place_object_def)
  have "link_ends ops (link_element OV_ET_PARENTLINK par passoc) (whole_object chi) pplace poppositeplace hint oppositehint d =
      link_ends ops (link_element OV_ET_CHILDLINK chi passoc) (whole_object par) poppositeplace pplace oppositehint hint d"
    using assms kinds places [of pplace] places [of poppositeplace]
    by (auto simp: link_ends_def link_element_def whole_object_def)
  then show ?thesis
    using assms kinds
    by (simp add: ov_ksserver_link_linkitem_def ov_ksserver_unlink_unlinkitem_def link_element_def whole_object_def)
qed

section \<open>New objects\<close>

text \<open>The results of the parameters, or links, of a new object: one for each, a run of successes, and behind the
  first one that failed, or whose path is absolute, nothing was tried.\<close>

definition tried_in_order :: "bool \<Rightarrow> OV_UINT list \<Rightarrow> bool" where
  "tried_in_order ok rs \<longleftrightarrow>
    (if ok then \<forall>r\<in>set rs. r = 0
     else \<exists>k < length rs. (\<forall>i < k. rs ! i = 0) \<and> rs ! k \<noteq> 0 \<and> (\<forall>i < length rs. k < i \<longrightarrow> rs ! i = result_code OV_ERR_GENERIC))"

lemma tried_Cons: "tried_in_order ok rs \<Longrightarrow> tried_in_order ok (0 # rs)"
proof (cases ok)
  case False
  assume "tried_in_order ok rs"
  with False obtain k where k: "k < length rs" "\<forall>i < k. rs ! i = 0" "rs ! k \<noteq> 0"
    "\<forall>i < length rs. k < i \<longrightarrow> rs ! i = result_code OV_ERR_GENERIC"
    by (auto simp: tried_in_order_def)
  have "\<forall>i < Suc k. (0 # rs) ! i = 0" using k(2) by (simp add: nth_Cons split: nat.split)
  moreover have "\<forall>i < length (0 # rs). Suc k < i \<longrightarrow> (0 # rs) ! i = result_code OV_ERR_GENERIC"
    using k(4) by (simp add: nth_Cons split: nat.split)
  ultimately show ?thesis using False k(1,3) by (auto simp: tried_in_order_def intro!: exI [of _ "Suc k"])
qed (simp add: tried_in_order_def)

lemma tried_stop: "r \<noteq> 0 \<Longrightarrow> tried_in_order False (r # untried is)"
  by (auto simp: tried_in_order_def untried_def nth_Cons split: nat.split intro!: exI [of _ 0])

lemma init_loop_results:
  "init_loop name item is d = Some ((ok, rs), d') \<Longrightarrow> length rs = length is \<and> tried_in_order ok rs"
proof (induction name item "is" d arbitrary: ok rs d' rule: init_loop.induct)
  case (1 name item d)
  then show ?case by (auto simp: tried_in_order_def)
next
  case (2 name item i "is" d)
  obtain r d1 where r: "item i d = (r, d1)" by fastforce
  show ?case
  proof (cases "absolute (name i) \<or> r \<noteq> 0")
    case True
    have "untried (i # is) = result_code OV_ERR_GENERIC # untried is" by (simp add: untried_def)
    with True "2.prems" r show ?thesis
      using tried_stop by (auto simp: untried_def split: if_splits)
  next
    case False
    with "2.prems" r obtain rs' where "init_loop name item is d1 = Some ((ok, rs'), d')" "rs = 0 # rs'"
      by (auto split: if_splits)
    with "2.IH" [of "(r, d1)" r d1] False r show ?thesis
      using "2.prems" by (auto split: if_splits intro: tried_Cons)
  qed
qed


definition log_object :: OV_CREATEOBJ_ITEM where
  "log_object = \<lparr>co_factory_path = Some ''/f'', co_new_path = Some ''/n'',
     co_place = \<lparr>pl_hint = OV_PMH_DEFAULT, pl_path = None\<rparr>,
     co_parameters = [log_item ''.b'', log_item ''/x'', log_item ''.c''], co_links = []\<rparr>"


section \<open>Where the services deviate\<close>

text \<open>An object that may be deleted is reported as deleted, also where \<open>Ov_DeleteObject\<close> refused to.\<close>

lemma deletion_reported:
  assumes "op_resolve ops None ppath version d = Inr path" "elemtype (last path) = OV_ET_OBJECT"
    "op_getaccess ops (el_pobj (last path)) (last path) t d AND OV_AC_DELETEABLE \<noteq> 0"
    "op_delete ops (el_pobj (last path)) d = (e, d)" "e \<noteq> 0"
  shows "delete_item ops version t ppath d = (0, d)"
  using assms by (simp add: delete_item_def Let_def)

text \<open>A RenameObject that names the neighbour by an absolute path reports success and does nothing.\<close>

lemma absolute_neighbour_ignored:
  assumes "op_resolve ops (Some path) (Some newobjpath) version d = Inr newpath" "domain_of ops newpath d = Some pdom"
    "op_getaccess ops (Some pdom) (last newpath) t d AND OV_AC_WRITE \<noteq> 0"
    "pl_hint (ri_place pitem) = OV_PMH_BEFORE" "pl_path (ri_place pitem) = Some plc" "absolute (Some plc)"
    "op_resolve ops None (Some plc) version d = Inr neighbour"
  shows "rename_to ops version t pitem path newobjpath ident d = Some (0, d)"
  using assms by (simp add: rename_to_def Let_def)

text \<open>The results of the links are written behind their block, when there are more links than parameters.\<close>

lemma links_overflow:
  assumes "length (co_parameters pitem) < length (co_links pitem)" "ks_grants s = []"
  shows "ov_ksserver_createobject_initobj ops version t pitem pobj (s, res) = None"
proof -
  have "all_granted n s = (True, s)" for n
    using assms(2) by (induction n) (simp_all add: ks_grant_def)
  then show ?thesis using assms(1) by (simp add: ov_ksserver_createobject_initobj_def Let_def)
qed

end
