(* ===== verification/XdrHandlerLaws.thy ===== *)
theory XdrHandlerLaws
  imports XdrHandler KsLaws
begin

text \<open>
  What the handler of a client does with a request: the reply to a request that arrived completely, an
  incomplete one, one that is refused, and the tickets.
\<close>

section \<open>The steps of a handler\<close>

text \<open>The handler with the bytes \<open>d\<close> received, the next of them at \<open>r\<close>, and the answers \<open>a\<close> written so far.\<close>

definition receiving :: "byte list \<Rightarrow> nat \<Rightarrow> 'd HS \<Rightarrow> 'd HS" where
  "receiving d r h = h\<lparr>hs_received := packet (pkt d r)\<rparr>"

definition answering :: "byte list \<Rightarrow> 'd HS \<Rightarrow> 'd HS" where
  "answering a h = h\<lparr>hs_answer := packet (written a)\<rparr>"

definition roomy :: "'d HS \<Rightarrow> bool" where
  "roomy h \<longleftrightarrow> ks_grants (hs_ks h) = []"

lemma roomy_same: "roomy h \<Longrightarrow> h\<lparr>hs_ks := hs_ks h\<lparr>ks_grants := []\<rparr>\<rparr> = h"
  by (cases h, cases "hs_ks h") (simp add: roomy_def)

lemma pkt_split: "\<lparr>packet = packet (pkt d r), decisions = []\<rparr> = pkt d r" "decisions (pkt d r) = []"
  "\<lparr>packet = packet (written d), decisions = []\<rparr> = written d" "decisions (written d) = []"
  by (simp_all add: pkt_def written_def)

lemma handler_parts [simp]:
  "hs_received (receiving d r h) = packet (pkt d r)" "hs_answer (answering a h) = packet (written a)"
  "hs_ks (receiving d r h) = hs_ks h" "hs_ks (answering a h) = hs_ks h"
  "hs_service (receiving d r h) = hs_service h" "hs_service (answering a h) = hs_service h"
  "hs_msgState (receiving d r h) = hs_msgState h" "hs_msgState (answering a h) = hs_msgState h"
  "hs_ksErrCode (receiving d r h) = hs_ksErrCode h" "hs_ksErrCode (answering a h) = hs_ksErrCode h"
  "hs_answer (receiving d r h) = hs_answer h" "hs_received (answering a h) = hs_received h"
  "roomy (receiving d r h) = roomy h" "roomy (answering a h) = roomy h"
  "receiving d' r' (receiving d r h) = receiving d' r' h" "answering a' (answering a h) = answering a' h"
  by (simp_all add: receiving_def answering_def roomy_def)

lemma on_received_law:
  assumes "rlaw m b a" "length d < 4294967296" "stands d r b" "roomy h"
  shows "on_received m (receiving d r h) = HDone (Inr a) (receiving d (r + length b) h)"
proof -
  have "m (pkt d r) = XDone a (pkt d (r + length b))" using assms(1-3) by (simp add: rlaw_def)
  then show ?thesis
    using assms(4) roomy_same [OF assms(4)]
    by (simp add: on_received_def on_packet_def receiving_def roomy_def pkt_split)
qed

lemma on_answer_law:
  assumes "wlaw m b" "length a + length b < 4294967296" "roomy h"
  shows "on_answer m (answering a h) = HDone (Inr ()) (answering (a @ b) h)"
proof -
  have "m (written a) = XDone () (written (a @ b))" using assms(1,2) by (simp add: wlaw_def)
  then show ?thesis
    using assms(3) roomy_same [OF assms(3)]
    by (simp add: on_answer_def on_packet_def answering_def roomy_def pkt_split)
qed

lemma on_service_law:
  assumes "wlaw m b" "length b < 4294967296" "roomy h" "hs_service h = no_packet"
  shows "on_service m h = HDone (Inr ()) (h\<lparr>hs_service := packet (written b)\<rparr>)"
proof -
  have w: "written [] = \<lparr>packet = no_packet, decisions = []\<rparr>" by (simp add: written_def)
  have "m (written []) = XDone () (written b)" using assms(1,2) by (simp add: wlaw_def)
  then show ?thesis
    using assms(3,4) roomy_same [OF assms(3)]
    by (simp add: on_service_def on_packet_def roomy_def pkt_split flip: w)
qed

lemma hbind_HDone: "m h = HDone a h' \<Longrightarrow> hbind m k h = k a h'"
  by (simp add: hbind_def)

lemma hupdate_then [simp]: "hbind (hupdate f) k h = k () (f h)"
  by (simp add: hbind_def hupdate_def)

lemma hdone_then [simp]: "hbind (hdone a) k h = k a h"
  by (simp add: hbind_def hdone_def)

section \<open>The bytes of calls and replies\<close>

definition rpc_call :: "rpc_request \<Rightarrow> byte list" where
  "rpc_call rq = xdr_uint (rq_xid rq) @ xdr_uint (rq_messageType rq) @ xdr_uint (rq_rpcVersion rq) @
     xdr_uint (rq_progId rq) @ xdr_uint (rq_ProgVersion rq) @ xdr_uint (rq_procedure rq)"

text \<open>Credentials and verifier of a flavour that both have the same.\<close>

definition rpc_auth :: "OV_UINT \<Rightarrow> byte list \<Rightarrow> OV_UINT \<Rightarrow> byte list \<Rightarrow> byte list" where
  "rpc_auth f1 cred f2 verf = xdr_uint f1 @ xdr_opaque cred @ xdr_uint f2 @ xdr_opaque verf"

definition rpc_reply :: "OV_UINT \<Rightarrow> OV_UINT \<Rightarrow> OV_UINT \<Rightarrow> byte list" where
  "rpc_reply xid msgAccepted msgState =
    xdr_uint xid @ xdr_uint KSXDR_MSGTYPE_REPLY @ xdr_uint msgAccepted @
    (if msgAccepted \<noteq> XDR_MSG_ACCEPTED then
       xdr_uint msgState @ (if msgState = XDR_DEN_AUTH_ERROR then xdr_uint XDR_AUTH_FAILED else xdr_uint 2 @ xdr_uint 2)
     else xdr_uint XDR_AUTH_NONE @ xdr_uint 0 @ xdr_uint msgState @
       (if msgState = XDR_MSGST_PROG_MISMATCH then xdr_uint 2 @ xdr_uint 2 else []))"

lemma wlaw_uint_then: "wlaw k c \<Longrightarrow> wlaw (xbind (KS_DATAPACKET_write_xdr_uint (Some v)) (\<lambda>_. k)) (xdr_uint v @ c)"
  by (intro wlaw_bind uint_writes)

lemma wlaw_uint_end: "wlaw (xbind (KS_DATAPACKET_write_xdr_uint (Some v)) (\<lambda>_. xdone ())) (xdr_uint v)"
  "wlaw (xbind (KS_DATAPACKET_write_xdr_uint (Some v)) xdone) (xdr_uint v)"
proof -
  show "wlaw (xbind (KS_DATAPACKET_write_xdr_uint (Some v)) (\<lambda>_. xdone ())) (xdr_uint v)"
    using wlaw_uint_then [OF wlaw_done, of v] by simp
  moreover have "(\<lambda>_ :: unit. xdone ()) = xdone" by (rule ext) simp
  ultimately show "wlaw (xbind (KS_DATAPACKET_write_xdr_uint (Some v)) xdone) (xdr_uint v)" by simp
qed

lemma reply_writes: "wlaw (ksxdr_create_global_answer xid msgAccepted msgState) (rpc_reply xid msgAccepted msgState)"
  unfolding ksxdr_create_global_answer_def rpc_reply_def Let_def
  by (intro wlaw_uint_then) (auto intro!: wlaw_uint_then wlaw_uint_end wlaw_done simp: XDR_MSGST_PROG_MISMATCH_def XDR_MSGST_SUCCESS_def)

lemma rlaw_uint_then: "rlaw (k v) c x \<Longrightarrow> rlaw (xbind KS_DATAPACKET_read_xdr_uint k) (xdr_uint v @ c) x"
  by (rule rlaw_bind [OF uint_reads])

lemma request_reads:
  "rlaw (decode_request stream) ((if stream then xdr_uint (rq_header rq) else []) @ rpc_call rq)
     (if stream then rq else rq\<lparr>rq_header := 0\<rparr>)"
proof -
  have "rlaw (xbind KS_DATAPACKET_read_xdr_uint (\<lambda>procedure.
      xdone (rq\<lparr>rq_header := h, rq_procedure := procedure\<rparr>))) (xdr_uint (rq_procedure rq)) (rq\<lparr>rq_header := h\<rparr>)" for h
    by (rule rlaw_mapI [OF uint_reads]) simp
  then have tail: "rlaw (xbind KS_DATAPACKET_read_xdr_uint (\<lambda>xid. xbind KS_DATAPACKET_read_xdr_uint (\<lambda>messageType.
      xbind KS_DATAPACKET_read_xdr_uint (\<lambda>rpcVersion. xbind KS_DATAPACKET_read_xdr_uint (\<lambda>progId.
      xbind KS_DATAPACKET_read_xdr_uint (\<lambda>ProgVersion. xbind KS_DATAPACKET_read_xdr_uint (\<lambda>procedure.
      xdone \<lparr>rq_header = h, rq_xid = xid, rq_messageType = messageType, rq_rpcVersion = rpcVersion,
        rq_progId = progId, rq_ProgVersion = ProgVersion, rq_procedure = procedure\<rparr>)))))))
      (rpc_call rq) (rq\<lparr>rq_header := h\<rparr>)" for h
    unfolding rpc_call_def by (intro rlaw_uint_then) (cases rq, simp)
  show ?thesis
  proof (cases stream)
    case True
    have "rlaw (decode_request True) (xdr_uint (rq_header rq) @ rpc_call rq) (rq\<lparr>rq_header := rq_header rq\<rparr>)"
      unfolding decode_request_def if_True by (rule rlaw_uint_then) (rule tail)
    with True show ?thesis by simp
  next
    case False
    have "xbind (xdone (0::OV_UINT)) k = k 0" for k :: "OV_UINT \<Rightarrow> rpc_request xdr" by (rule ext) (simp add: xbind_def xdone_def)
    with False tail [of 0] show ?thesis by (simp add: decode_request_def)
  qed
qed

section \<open>The mark of an answer\<close>

text \<open>The bytes of a channel's answer \<open>b\<close> behind the answers \<open>a\<close> of earlier requests: the length in its mark
  counts those as well.\<close>

definition framed :: "channel \<Rightarrow> byte list \<Rightarrow> byte list \<Rightarrow> byte list" where
  "framed ch a b = a @ (if ch_usesStreamProtocol ch then xdr_uint (mark_word True (length a + length b)) else []) @ b"

lemma mark_bytes:
  assumes "n < 16777216"
  shows "0x80 # tl (rev (host_bytes (of_nat n))) = xdr_uint (mark_word True n)"
proof -
  have u: "unat (mark_word True n) = n + 2147483648" "unat (of_nat n :: OV_UINT) = n"
    using small_word(1) [of "n + 2147483648"] small_word(1) [of n] assms by (simp_all add: mark_word_def)
  have q: "(n + 2147483648) div 16777216 = 128" "(n + 2147483648) div 65536 = n div 65536 + 32768"
    "(n + 2147483648) div 256 = n div 256 + 8388608"
  proof -
    have e: "(2147483648 :: nat) = 128 * 16777216" "(2147483648 :: nat) = 32768 * 65536" "(2147483648 :: nat) = 8388608 * 256" by simp_all
    show "(n + 2147483648) div 16777216 = 128" unfolding e(1) div_mult_self1 [of 16777216 n 128, simplified] using assms by simp
    show "(n + 2147483648) div 65536 = n div 65536 + 32768" unfolding e(2) by simp
    show "(n + 2147483648) div 256 = n div 256 + 8388608" unfolding e(3) by simp
  qed
  have up: "[0..<4] = [0, 1, 2, 3 :: nat]" by (simp add: upt_rec)
  show ?thesis
    unfolding xdr_uint_shifts [symmetric] unfolding xdr_uint_def big_endian_def u up
    by (simp add: q)
qed

lemma xdr_uint_nonempty [simp]: "xdr_uint v \<noteq> []"
  by (simp flip: length_greater_0_conv)

lemma prepend_law:
  assumes "length a + length b < 16777216" "length w = 4"
  shows "ksxdr_prepend_length (of_nat (length a)) (written (a @ w @ b)) =
    XDone () (written (a @ xdr_uint (mark_word True (length a + length b)) @ b))"
proof -
  have ne: "a @ w @ b \<noteq> []" "a @ xdr_uint m @ b \<noteq> []" for m
    using assms(2) by auto
  have u: "unat (of_nat (length a) :: OV_UINT) = length a"
    "unat (of_nat (length a + length b + 4) :: OV_UINT) = length a + length b + 4"
    by (rule small_word(1), use assms in simp)+
  have nz: "(of_nat (length a + length b + 4) :: OV_UINT) \<noteq> 0"
    using arg_cong [of _ _ unat] u(2) by fastforce
  have t: "(of_nat (length a + length b + 4) - 4 :: OV_UINT) = of_nat (length a + length b)" by simp
  have l: "length (a @ w @ b) = length a + length b + 4" "length (a @ xdr_uint m @ b) = length a + length b + 4" for m
    using assms(2) by simp_all
  have p: "put (a @ w @ b) (length a) (xdr_uint m) = a @ xdr_uint m @ b" for m
    using assms(2) by (simp add: put_def)
  show ?thesis
    unfolding written_def if_not_P [OF ne(1)] if_not_P [OF ne(2)]
    unfolding ksxdr_prepend_length_def pkt_def l
    using nz mark_bytes [OF assms(1)] u(1)
    by (simp add: t p del: of_nat_add) (simp add: p assms(2) Let_def del: of_nat_add)
qed

lemma authenticate_law:
  assumes "length cred < 255" "length verf < 255" "length d < 4294967296" "roomy h"
    "stands d r (rpc_auth f1 cred f2 verf)"
  shows "authenticate (receiving d r h) =
    HDone (f1 = XDR_AUTH_NONE \<and> f2 = XDR_AUTH_NONE) (receiving d (r + length (rpc_auth f1 cred f2 verf)) h)"
proof -
  have body: "\<exists>x. rlaw (KS_DATAPACKET_read_xdr_opaque KS_SIMPLETICKETID_MAXLEN) (xdr_opaque b) x" if "length b < 255" for b
    unfolding heap_opaque_same
    by (rule exI, rule opaque_reads) (use that in \<open>simp_all add: fits_def KS_SIMPLETICKETID_MAXLEN_def\<close>)
  from body [OF assms(1)] obtain x where x: "rlaw (KS_DATAPACKET_read_xdr_opaque KS_SIMPLETICKETID_MAXLEN) (xdr_opaque cred) x" by blast
  from body [OF assms(2)] obtain y where y: "rlaw (KS_DATAPACKET_read_xdr_opaque KS_SIMPLETICKETID_MAXLEN) (xdr_opaque verf) y" by blast
  from assms(5) have s: "stands d r (xdr_uint f1)" "stands d (r + 4) (xdr_opaque cred)"
    "stands d (r + 4 + length (xdr_opaque cred)) (xdr_uint f2)"
    "stands d (r + 4 + length (xdr_opaque cred) + 4) (xdr_opaque verf)"
    by (simp_all add: rpc_auth_def)
  show ?thesis
    using on_received_law [OF uint_reads assms(3) s(1) assms(4)] on_received_law [OF x assms(3) s(2) assms(4)]
      on_received_law [OF uint_reads assms(3) s(3) assms(4)] on_received_law [OF y assms(3) s(4) assms(4)]
    by (simp add: authenticate_def hbind_HDone rpc_auth_def Let_def hdone_def add.assoc)
qed

section \<open>Answers\<close>

lemma begin_answering [simp]: "length a < 4294967296 \<Longrightarrow> begin_answer (answering a h) = of_nat (length a)"
  by (simp add: begin_answer_def written_def pkt_def no_packet_def)

lemma prepend_mark_law:
  assumes "length a + length b < 16777216" "length w = 4" "roomy h"
  shows "on_answer (ksxdr_prepend_length (of_nat (length a))) (answering (a @ w @ b) h) =
    HDone (Inr ()) (answering (a @ xdr_uint (mark_word True (length a + length b)) @ b) h)"
  using prepend_law [OF assms(1,2)] roomy_same [OF assms(3)] assms(3)
  by (simp add: on_answer_def on_packet_def answering_def roomy_def pkt_split)

definition blank_mark :: "channel \<Rightarrow> byte list" where
  "blank_mark ch = (if ch_usesStreamProtocol ch then xdr_uint 0x80 else [])"

definition mark_place :: "channel \<Rightarrow> byte list \<Rightarrow> OV_UINT" where
  "mark_place ch a = (if ch_usesStreamProtocol ch then of_nat (length a) else 0)"

lemma mark_answer_law:
  assumes "length a < 16777216" "roomy h"
  shows "mark_answer ch k (answering a h) = k (mark_place ch a) (answering (a @ blank_mark ch) h)"
proof -
  have "on_answer (KS_DATAPACKET_write_xdr_uint (Some 0x80)) (answering a h) = HDone (Inr ()) (answering (a @ xdr_uint 0x80) h)"
    by (rule on_answer_law [OF uint_writes]) (use assms in simp_all)
  then show ?thesis
    using assms(1) by (simp add: mark_answer_def hstep_def hbind_HDone blank_mark_def mark_place_def)
qed

lemma prepend_mark_ends:
  assumes "length a + length b < 16777216" "roomy h"
  shows "prepend_mark ch (mark_place ch a) (answering (a @ blank_mark ch @ b) h) = HDone OV_ERR_OK (answering (framed ch a b) h)"
  using prepend_mark_law [OF assms(1) _ assms(2), of "xdr_uint 0x80"]
  by (simp add: prepend_mark_def blank_mark_def mark_place_def framed_def hbind_HDone hdone_def)

lemma length_blank_mark: "length (blank_mark ch) \<le> 4"
  by (simp add: blank_mark_def)

lemma length_rpc_reply: "length (rpc_reply xid acc st) \<le> 32"
  by (simp add: rpc_reply_def)

lemma short_answer_law:
  assumes "length a < 16777184" "roomy h"
  shows "short_answer ch xid acc st (answering a h) = HDone OV_ERR_OK (answering (framed ch a (rpc_reply xid acc st)) h)"
proof -
  have l: "length a + length (rpc_reply xid acc st) < 16777216" using assms(1) length_rpc_reply [of xid acc st] by simp
  then have "on_answer (ksxdr_create_global_answer xid acc st) (answering (a @ blank_mark ch) h) =
      HDone (Inr ()) (answering ((a @ blank_mark ch) @ rpc_reply xid acc st) h)"
    using length_blank_mark [of ch] assms(2) by (intro on_answer_law reply_writes) simp_all
  then show ?thesis
    using mark_answer_law [OF _ assms(2)] prepend_mark_ends [OF l assms(2)] assms(1)
    by (simp add: short_answer_def hbind_HDone)
qed

lemma send_reply_law:
  assumes "length a + length (rpc_reply (rq_xid rq) XDR_MSG_ACCEPTED (hs_msgState h)) + 8 + length b < 16777216" "roomy h"
    "hs_service h = packet (written b)" "hs_ksErrCode h \<noteq> 0 \<Longrightarrow> b = []"
  shows "send_reply ch rq flavour (Some t) (answering a h) =
    HDone OV_ERR_OK (finish_received (answering (framed ch a
      (rpc_reply (rq_xid rq) XDR_MSG_ACCEPTED (hs_msgState h) @ xdr_uint flavour @ xdr_uint (hs_ksErrCode h) @ b))
      (h\<lparr>hs_service := no_packet\<rparr>)))"
proof -
  let ?r = "rpc_reply (rq_xid rq) XDR_MSG_ACCEPTED (hs_msgState h)" and ?m = "blank_mark ch"
  note m = length_blank_mark [of ch]
  have w1: "on_answer (ksxdr_create_global_answer (rq_xid rq) XDR_MSG_ACCEPTED (hs_msgState h)) (answering (a @ ?m) h) =
      HDone (Inr ()) (answering ((a @ ?m) @ ?r) h)"
    using assms m by (intro on_answer_law reply_writes) simp_all
  have w2: "on_answer (KS_DATAPACKET_write_xdr_uint (Some flavour)) (answering ((a @ ?m) @ ?r) h) =
      HDone (Inr ()) (answering (((a @ ?m) @ ?r) @ xdr_uint flavour) h)"
    using assms m by (intro on_answer_law uint_writes) simp_all
  have w3: "on_answer (KS_DATAPACKET_write_xdr_uint (Some (hs_ksErrCode h))) (answering (((a @ ?m) @ ?r) @ xdr_uint flavour) h) =
      HDone (Inr ()) (answering ((((a @ ?m) @ ?r) @ xdr_uint flavour) @ xdr_uint (hs_ksErrCode h)) h)"
    using assms m by (intro on_answer_law uint_writes) simp_all
  let ?d = "?r @ xdr_uint flavour @ xdr_uint (hs_ksErrCode h)"
  have body: "ksxdr_xdrClientHandler_appendKsReplyBody ch (hs_ksErrCode h) (mark_place ch a) (answering (((a @ ?m) @ ?r) @ xdr_uint flavour) h) =
      HDone OV_ERR_OK (answering (framed ch a (?d @ b)) (h\<lparr>hs_service := no_packet\<rparr>))"
  proof (cases "b = []")
    case True
    then have e: "h\<lparr>hs_service := no_packet\<rparr> = h" "pk_length (hs_service h) = 0"
      using assms(3) by (simp_all add: written_def no_packet_def)
    show ?thesis
      unfolding e(1) using True w3 e(2) prepend_mark_ends [of a ?d h ch] assms(1,2)
      by (simp add: ksxdr_xdrClientHandler_appendKsReplyBody_def Let_def hbind_HDone)
  next
    case False
    have c: "hs_ksErrCode h = 0" using False assms(4) by blast
    have z: "pk_length (hs_service h) \<noteq> 0" "pk_data (hs_service h) = Some b"
      using False assms(1,3) small_word(1) [of "length b"] by (auto simp: written_def pkt_def)
    have "on_answer (ksbase_KSDATAPACKET_append b) (answering ((((a @ ?m) @ ?r) @ xdr_uint flavour) @ xdr_uint (hs_ksErrCode h)) h) =
        HDone (Inr ()) (answering (((((a @ ?m) @ ?r) @ xdr_uint flavour) @ xdr_uint (hs_ksErrCode h)) @ b) h)"
      using assms m False by (intro on_answer_law written_append) simp_all
    moreover have "drop_service (answering x h) = answering x (h\<lparr>hs_service := no_packet\<rparr>)" for x
      using z by (simp add: drop_service_def ksbase_free_KSDATAPACKET_def answering_def)
    moreover have "roomy (h\<lparr>hs_service := no_packet\<rparr>)" using assms(2) by (simp add: roomy_def)
    ultimately show ?thesis
      using w3 z prepend_mark_ends [of a "?d @ b" "h\<lparr>hs_service := no_packet\<rparr>" ch] assms(1)
      by (simp add: c ksxdr_xdrClientHandler_appendKsReplyBody_def Let_def hbind_HDone)
  qed
  show ?thesis
    using mark_answer_law [OF _ assms(2)] w1 w2 body assms(1)
    by (simp add: send_reply_def ksxdr_xdrClientHandler_encodeReplyHeader_def hbind_HDone Ov_Fail_def hdone_def)
qed

section \<open>A complete request\<close>

lemma handler_updates [simp]:
  "(answering a h)\<lparr>hs_ks := k\<rparr> = answering a (h\<lparr>hs_ks := k\<rparr>)"
  "(answering a h)\<lparr>hs_service := p\<rparr> = answering a (h\<lparr>hs_service := p\<rparr>)"
  "(answering a h)\<lparr>hs_msgState := m\<rparr> = answering a (h\<lparr>hs_msgState := m\<rparr>)"
  "(answering a h)\<lparr>hs_ksErrCode := m\<rparr> = answering a (h\<lparr>hs_ksErrCode := m\<rparr>)"
  "(answering a h)\<lparr>hs_receivedCalls := m\<rparr> = answering a (h\<lparr>hs_receivedCalls := m\<rparr>)"
  "(answering a h)\<lparr>hs_ConnectionTimeOut := m\<rparr> = answering a (h\<lparr>hs_ConnectionTimeOut := m\<rparr>)"
  "(receiving d r h)\<lparr>hs_ks := k\<rparr> = receiving d r (h\<lparr>hs_ks := k\<rparr>)"
  "(receiving d r h)\<lparr>hs_service := p\<rparr> = receiving d r (h\<lparr>hs_service := p\<rparr>)"
  "(receiving d r h)\<lparr>hs_msgState := m\<rparr> = receiving d r (h\<lparr>hs_msgState := m\<rparr>)"
  "(receiving d r h)\<lparr>hs_ksErrCode := m\<rparr> = receiving d r (h\<lparr>hs_ksErrCode := m\<rparr>)"
  "(receiving d r h)\<lparr>hs_receivedCalls := m\<rparr> = receiving d r (h\<lparr>hs_receivedCalls := m\<rparr>)"
  "(receiving d r h)\<lparr>hs_ConnectionTimeOut := m\<rparr> = receiving d r (h\<lparr>hs_ConnectionTimeOut := m\<rparr>)"
  "answering a (receiving d r h) = receiving d r (answering a h)"
  "hs_receivedCalls (receiving d r h) = hs_receivedCalls h" "hs_receivedCalls (answering a h) = hs_receivedCalls h"
  by (simp_all add: receiving_def answering_def)

lemma roomy_updates [simp]:
  "roomy (h\<lparr>hs_msgState := m\<rparr>) = roomy h" "roomy (h\<lparr>hs_ksErrCode := m\<rparr>) = roomy h"
  "roomy (h\<lparr>hs_service := p\<rparr>) = roomy h" "roomy (h\<lparr>hs_receivedCalls := m\<rparr>) = roomy h"
  "roomy (h\<lparr>hs_ConnectionTimeOut := m\<rparr>) = roomy h" "roomy (h\<lparr>hs_ks := k\<rparr>) \<longleftrightarrow> ks_grants k = []"
  by (simp_all add: roomy_def)

lemma serve_law:
  assumes "rlaw decode b params" "stands d r b" "length d < 4294967296" "roomy h" "hs_service h = no_packet"
    "run params (hs_ks h) = Some (results, ks)" "ks_grants ks = []"
    "wlaw (encode results) body" "length body < 4294967296"
  shows "serve decode run encode (receiving d r h) =
    HDone OV_ERR_OK (receiving d (r + length b) (h\<lparr>hs_ks := ks, hs_ksErrCode := fst results, hs_service := packet (written body)\<rparr>))"
proof -
  let ?h = "receiving d (r + length b) (h\<lparr>hs_ks := ks, hs_ksErrCode := fst results\<rparr>)"
  have "on_service (encode results) ?h = HDone (Inr ()) (?h\<lparr>hs_service := packet (written body)\<rparr>)"
    using assms by (intro on_service_law) simp_all
  then show ?thesis
    using on_received_law [OF assms(1,3,2,4)] assms(6)
    by (simp add: serve_def hbind_HDone on_database_def hdone_def)
qed

text \<open>The bytes of a call as a channel carries them.\<close>

definition call_header :: "channel \<Rightarrow> byte list \<Rightarrow> OV_UINT" where
  "call_header ch c = (if ch_usesStreamProtocol ch then mark_word True (length c) else 0)"

definition call_bytes :: "channel \<Rightarrow> byte list \<Rightarrow> byte list" where
  "call_bytes ch c = (if ch_usesStreamProtocol ch then xdr_uint (call_header ch c) else []) @ c"

lemma decode_law:
  assumes "rq_header rq = call_header ch (rpc_call rq @ c)" "length (past @ call_bytes ch (rpc_call rq @ c) @ rest) < 4294967296" "roomy h"
  shows "on_received (decode_request (ch_usesStreamProtocol ch))
      (receiving (past @ call_bytes ch (rpc_call rq @ c) @ rest) (length past) h) =
    HDone (Inr rq) (receiving (past @ call_bytes ch (rpc_call rq @ c) @ rest)
      (length past + length (call_bytes ch (rpc_call rq @ c)) - length c) h)"
proof -
  let ?b = "(if ch_usesStreamProtocol ch then xdr_uint (rq_header rq) else []) @ rpc_call rq"
  have e: "call_bytes ch (rpc_call rq @ c) = ?b @ c" using assms(1) by (simp add: call_bytes_def)
  have r: "(if ch_usesStreamProtocol ch then rq else rq\<lparr>rq_header := 0\<rparr>) = rq"
  proof (cases "ch_usesStreamProtocol ch")
    case False
    then have z: "rq_header rq = 0" using assms(1) by (simp add: call_header_def)
    have "rq\<lparr>rq_header := rq_header rq\<rparr> = rq" by simp
    then show ?thesis using False unfolding z by simp
  qed simp
  have "stands (past @ ?b @ c @ rest) (length past) ?b" by (rule stands_middle)
  from on_received_law [OF request_reads [of "ch_usesStreamProtocol ch" rq, unfolded r] _ this assms(3)] show ?thesis
    using assms(2) unfolding e by simp
qed

lemma complete_law:
  assumes "length c < 16777216" "length (past @ call_bytes ch c @ rest) < 4294967296" "roomy h" "ch_usesStreamProtocol ch"
  shows "complete_request ch (length past) (call_header ch c) (receiving (past @ call_bytes ch c @ rest) r h) =
    HDone (Inr ()) (receiving (past @ call_bytes ch c @ rest) r (h\<lparr>hs_ConnectionTimeOut := ch_connectionTimeout ch\<rparr>))"
proof -
  have f: "frames [c] = call_bytes ch c" using assms(4) by (simp add: call_bytes_def call_header_def)
  have "length (past @ frames [c] @ rest) < 4294967296" using assms(2) unfolding f .
  then have "bufferHoldsCompleteRequest (length past) (pkt (past @ frames [c] @ rest) r) =
      XDone (True, OV_ERR_OK) (pkt (past @ frames [c] @ rest) r)"
    using buffer_holds_frames [of "[c]" "frames [c] @ rest" past r] assms(1)
    by (simp add: fragments_ok_def agrees_def)
  then have "on_received (bufferHoldsCompleteRequest (length past)) (receiving (past @ call_bytes ch c @ rest) r h) =
      HDone (Inr (True, OV_ERR_OK)) (receiving (past @ call_bytes ch c @ rest) r h)"
    unfolding f using roomy_same [OF assms(3)] assms(3)
    by (simp add: on_received_def on_packet_def receiving_def roomy_def pkt_split)
  then show ?thesis
    using assms(1,4) by (simp add: complete_request_def hbind_HDone call_header_def hdone_def)
qed

definition valid_call :: "rpc_request \<Rightarrow> bool" where
  "valid_call rq \<longleftrightarrow> check_request rq = Inr (XDR_MSG_ACCEPTED, XDR_MSGST_SUCCESS)"

lemma finish_received_all:
  assumes "r = length past + length c" "length (past @ c @ rest) < 2147483648" "c \<noteq> []"
  shows "finish_received (receiving (past @ c @ rest) r h) =
    (if rest = [] then h\<lparr>hs_received := no_packet\<rparr> else receiving (past @ c @ rest) r h)"
proof -
  have s: "sint (of_nat (length (past @ c @ rest)) :: OV_UINT) = int (length (past @ c @ rest))"
    using assms(2) by (simp add: sint_uint small_word signed_take_bit_int_eq_self del: of_nat_add length_append)
  show ?thesis
    using s assms(1,3) by (auto simp: finish_received_def receiving_def pkt_def ksbase_free_KSDATAPACKET_def Let_def)
qed

text \<open>The handler when a call has passed all checks.\<close>

definition accepted :: "channel \<Rightarrow> 'd HS \<Rightarrow> 'd HS" where
  "accepted ch h =
    (let h1 = h\<lparr>hs_msgState := XDR_MSGST_SUCCESS, hs_ksErrCode := 0, hs_service := no_packet\<rparr>
     in if ch_usesStreamProtocol ch then h1\<lparr>hs_ConnectionTimeOut := ch_connectionTimeout ch\<rparr> else h1)"

lemma accepted_parts [simp]:
  "hs_ks (accepted ch h) = hs_ks h" "hs_service (accepted ch h) = no_packet" "hs_msgState (accepted ch h) = XDR_MSGST_SUCCESS"
  "hs_receivedCalls (accepted ch h) = hs_receivedCalls h" "roomy (accepted ch h) = roomy h"
  by (simp_all add: accepted_def Let_def)

lemma call_received:
  assumes "valid_call rq" "c = rpc_call rq @ rpc_auth XDR_AUTH_NONE cred XDR_AUTH_NONE verf @ tail"
    "rq_header rq = call_header ch c" "length cred < 255" "length verf < 255" "length c < 16777216"
    "length (past @ call_bytes ch c @ rest) < 4294967296" "roomy h"
  shows "ksxdr_xdrClientHandler_HandleRequest n ch sv (receiving (past @ call_bytes ch c @ rest) (length past) (answering a h)) =
      serve_request n ch sv rq (receiving (past @ call_bytes ch c @ rest)
        (length past + length (call_bytes ch c) - length tail) (answering a (accepted ch h)))" (is "?handled = ?served")
    and "stands (past @ call_bytes ch c @ rest) (length past + length (call_bytes ch c) - length tail) tail"
proof -
  let ?d = "past @ call_bytes ch c @ rest" and ?auth = "rpc_auth XDR_AUTH_NONE cred XDR_AUTH_NONE verf"
  define r where "r = length past + length (call_bytes ch c) - length (?auth @ tail)"
  define h1 where "h1 = h\<lparr>hs_msgState := XDR_MSGST_SUCCESS, hs_ksErrCode := 0, hs_service := no_packet\<rparr>"
  have room: "roomy h1" using assms(8) by (simp add: h1_def)
  have h2: "accepted ch h = (if ch_usesStreamProtocol ch then h1\<lparr>hs_ConnectionTimeOut := ch_connectionTimeout ch\<rparr> else h1)"
    by (simp add: accepted_def h1_def Let_def)
  have ends: "length (call_bytes ch c) \<ge> length c" by (simp add: call_bytes_def)
  have decode: "on_received (decode_request (ch_usesStreamProtocol ch)) (receiving ?d (length past) (answering a h1)) =
      HDone (Inr rq) (receiving ?d r (answering a h1))"
    using decode_law [of rq ch "?auth @ tail" past rest "answering a h1"] assms(2,3,7) room by (simp add: r_def)
  have complete: "(if ch_usesStreamProtocol ch then complete_request ch (length past) (rq_header rq) else hdone (Inr ()))
      (receiving ?d r (answering a h1)) = HDone (Inr ()) (receiving ?d r (answering a (accepted ch h)))"
    using complete_law [OF assms(6,7), of "answering a h1" r] room assms(3) by (simp add: h2 hdone_def)
  have stand: "stands ?d r (?auth @ tail)"
  proof -
    let ?head = "take (length (call_bytes ch c) - length (?auth @ tail)) (call_bytes ch c)"
    have "?d = (past @ ?head) @ (?auth @ tail) @ rest" by (simp add: call_bytes_def assms(2))
    moreover have "length (past @ ?head) = r" using ends assms(2) by (simp add: r_def)
    ultimately show ?thesis using stands_middle by metis
  qed
  have behind: "r + length ?auth = length past + length (call_bytes ch c) - length tail"
    using ends assms(2) by (simp add: r_def)
  have at: "stands ?d r ?auth" using stand by simp
  have auth: "authenticate (receiving ?d r (answering a (accepted ch h))) =
      HDone True (receiving ?d (r + length ?auth) (answering a (accepted ch h)))"
    using authenticate_law [OF assms(4,5,7) _ at, of "answering a (accepted ch h)"] assms(8) by simp
  show "?handled = ?served"
    using decode assms(1) complete auth
    by (simp add: ksxdr_xdrClientHandler_HandleRequest_def hbind_HDone valid_call_def hstep_def Let_def behind flip: h1_def)
  show "stands ?d (length past + length (call_bytes ch c) - length tail) tail"
    using stand behind by simp
qed

lemma ticket_law:
  assumes "length d < 4294967296" "stands d r (xdr_uint f)" "roomy h"
  shows "ticket_indicator (receiving d r h) = HDone f (receiving d (r + 4) h)"
  using on_received_law [OF uint_reads assms] by (simp add: ticket_indicator_def hbind_HDone hdone_def)

text \<open>The reply to a call whose service was executed with the result \<open>e\<close>.\<close>

definition service_reply :: "rpc_request \<Rightarrow> OV_UINT \<Rightarrow> byte list \<Rightarrow> byte list" where
  "service_reply rq e body =
    rpc_reply (rq_xid rq) XDR_MSG_ACCEPTED XDR_MSGST_SUCCESS @ xdr_uint OV_TT_NONE @ xdr_uint e @ body"

text \<open>The bytes of a call with a ticket of the type \<open>f\<close>.\<close>

definition ticket_call :: "rpc_request \<Rightarrow> byte list \<Rightarrow> byte list \<Rightarrow> OV_UINT \<Rightarrow> byte list \<Rightarrow> byte list" where
  "ticket_call rq cred verf f b = rpc_call rq @ rpc_auth XDR_AUTH_NONE cred XDR_AUTH_NONE verf @ xdr_uint f @ b"

lemma call_is_answered:
  assumes call: "valid_call rq" "c = ticket_call rq cred verf OV_TT_NONE b" "rq_header rq = call_header ch c"
      "length cred < 255" "length verf < 255" "ch_isLocal ch \<or> rq_procedure rq \<notin> {KS_REGISTER, KS_UNREGISTER}"
    and size: "length c < 16777216" "length (past @ call_bytes ch c @ rest) < 2147483648"
      "length a + length body < 16777136"
    and service: "service_of n sv (rq_ProgVersion rq) (Some t) (rq_procedure rq) = Some (serve decode run encode)"
      "sv_noneauth sv (ks_db (hs_ks h)) = Some t" "roomy h"
    and codec: "rlaw decode b params" "wlaw (encode (e, res)) body" "e \<noteq> 0 \<Longrightarrow> body = []"
    and run: "run params (hs_ks h) = Some ((e, res), ks)" "ks_grants ks = []"
  shows "\<exists>h'. ksxdr_xdrClientHandler_HandleRequest n ch sv
      (receiving (past @ call_bytes ch c @ rest) (length past) (answering a h)) = HDone OV_ERR_OK h' \<and>
    hs_ks h' = ks \<and> hs_answer h' = packet (written (framed ch a (service_reply rq e body))) \<and>
    hs_received h' = (if rest = [] then no_packet
      else packet (pkt (past @ call_bytes ch c @ rest) (length past + length (call_bytes ch c)))) \<and>
    hs_receivedCalls h' = hs_receivedCalls h + 1"
proof -
  let ?d = "past @ call_bytes ch c @ rest" and ?stop = "length past + length (call_bytes ch c)"
  define r where "r = ?stop - length (xdr_uint OV_TT_NONE @ b)"
  define h3 where "h3 = (accepted ch h)\<lparr>hs_receivedCalls := hs_receivedCalls h + 1\<rparr>"
  have big: "length ?d < 4294967296" using size(2) by simp
  have c: "c = rpc_call rq @ rpc_auth XDR_AUTH_NONE cred XDR_AUTH_NONE verf @ xdr_uint OV_TT_NONE @ b"
    using call(2) by (simp add: ticket_call_def)
  note received = call_received [OF call(1) c call(3,4,5) size(1) big service(3), folded r_def]
  have same: "hs_ks h3 = hs_ks h" "hs_service h3 = no_packet" "hs_msgState h3 = XDR_MSGST_SUCCESS"
    "hs_receivedCalls h3 = hs_receivedCalls h + 1" "roomy h3"
    using service(3) by (simp_all add: h3_def)
  have at: "stands ?d r (xdr_uint OV_TT_NONE)" "stands ?d (r + 4) b" using received(2) by simp_all
  have ending: "r + 4 + length b = ?stop" using c by (simp add: r_def call_bytes_def)
  let ?h4 = "h3\<lparr>hs_ks := ks, hs_ksErrCode := e, hs_service := packet (written body)\<rparr>"
  have serving: "serve decode run encode (receiving ?d (r + 4) (answering a h3)) = HDone OV_ERR_OK (receiving ?d ?stop (answering a ?h4))"
    using serve_law [of decode b params ?d "r + 4" "answering a h3" run "(e, res)" ks encode body]
      codec(1,2) at(2) big same run size(3) ending
    by simp
  have settled: "dispatch n ch sv rq (Some t) (receiving ?d (r + 4) (answering a h3)) =
      HDone (Inr ()) (receiving ?d ?stop (answering a ?h4))"
    using service(1) serving call(6) by (auto simp: dispatch_def Let_def hbind_HDone Ov_Fail_def hdone_def)
  have reply: "send_reply ch rq OV_TT_NONE (Some t) (receiving ?d ?stop (answering a ?h4)) =
      HDone OV_ERR_OK (finish_received (receiving ?d ?stop
        (answering (framed ch a (service_reply rq e body)) (?h4\<lparr>hs_service := no_packet\<rparr>))))"
    using send_reply_law [of a rq "receiving ?d ?stop ?h4" body ch OV_TT_NONE t]
      size(3) length_rpc_reply [of "rq_xid rq" XDR_MSG_ACCEPTED XDR_MSGST_SUCCESS] run(2) codec(3) same(3)
    by (simp add: service_reply_def)
  have nonempty: "call_bytes ch c \<noteq> []" by (simp add: c call_bytes_def rpc_call_def)
  have "serve_request n ch sv rq (receiving ?d r (answering a (accepted ch h))) =
      HDone OV_ERR_OK (finish_received (receiving ?d ?stop
        (answering (framed ch a (service_reply rq e body)) (?h4\<lparr>hs_service := no_packet\<rparr>))))"
    using ticket_law [OF big at(1), of "answering a h3"] settled reply service(2) same
    by (simp add: serve_request_def hbind_HDone hstep_def get_ticket_def flip: h3_def)
  then show ?thesis
    using received(1) same(4) by (simp add: finish_received_all [OF refl size(2) nonempty])
qed

text \<open>C4: A SetVar call that has arrived completely, without a ticket and with credentials of no flavour, is
  answered: the items are set as they were encoded, on the database as it is; the reply repeats the transaction number,
  states that the call was accepted and executed, and carries the result of the service and, if that is zero, the
  result of every item; it is appended to the answers that wait on the channel. What was received is freed if nothing
  more was, and otherwise the next request is read from behind this one.\<close>

theorem setvar_call_answered:
  assumes "valid_call rq" "rq_procedure rq = KS_SETVAR"
    "c = ticket_call rq cred verf OV_TT_NONE (xdr_array xdr_setvar items)" "rq_header rq = call_header ch c"
    "length cred < 255" "length verf < 255" "length c < 16777216" "length (past @ call_bytes ch c @ rest) < 2147483648"
    "\<forall>i\<in>set items. setvar_ok n i" "block_ok 48 (length items)"
    "sv_noneauth sv (ks_db (hs_ks h)) = Some t" "roomy h"
    "ov_ksserver_setvar (sv_ops sv) (rq_ProgVersion rq) (Some t) (map normal_setvar items) (hs_ks h) = Some ((e, rs), ks)"
    "ks_grants ks = []" "body = (if e = 0 then xdr_array xdr_uint rs else [])" "length a + length body < 16777136"
  shows "\<exists>h'. ksxdr_xdrClientHandler_HandleRequest n ch sv
      (receiving (past @ call_bytes ch c @ rest) (length past) (answering a h)) = HDone OV_ERR_OK h' \<and>
    hs_ks h' = ks \<and> hs_answer h' = packet (written (framed ch a (service_reply rq e body))) \<and>
    hs_received h' = (if rest = [] then no_packet
      else packet (pkt (past @ call_bytes ch c @ rest) (length past + length (call_bytes ch c)))) \<and>
    hs_receivedCalls h' = hs_receivedCalls h + 1"
proof -
  let ?run = "ov_ksserver_setvar (sv_ops sv) (rq_ProgVersion rq) (Some t)"
  have proc: "ch_isLocal ch \<or> rq_procedure rq \<notin> {KS_REGISTER, KS_UNREGISTER}" using assms(2) by (simp add: service_numbers)
  have service: "service_of n sv (rq_ProgVersion rq) (Some t) (rq_procedure rq) =
      Some (serve (ksxdr_setVar_decodeparams n) ?run encode_results)"
    using assms(2) by (simp add: service_of_def service_numbers ksxdr_setVar_def)
  have reads: "rlaw (ksxdr_setVar_decodeparams n) (xdr_array xdr_setvar items) (map normal_setvar items)"
    unfolding ksxdr_setVar_decodeparams_def using assms(9,10) by (intro array_reads setvar_coded) simp_all
  have writes: "wlaw (encode_results (e, rs)) body"
    using assms(15) results_coded(1) wlaw_done by (simp add: encode_results_def)
  have no_body: "body = []" if "e \<noteq> 0" using that assms(15) by simp
  show ?thesis
    by (rule call_is_answered [where run = ?run and params = "map normal_setvar items" and res = rs and e = e and ks = ks and
          decode = "ksxdr_setVar_decodeparams n" and encode = encode_results, OF assms(1,3,4,5,6) proc assms(7,8,16) service
          assms(11,12) reads writes no_body assms(13,14)])
qed

section \<open>Requests that are incomplete, short or refused\<close>

text \<open>C20: Of a call on a stream that has arrived in part, its header at least and no mark of a fragment in part,
  nothing is executed: the packet stays as it was, to be read from the beginning of the call when more has arrived,
  nothing is answered, and the channel waits for the time set for incomplete requests.\<close>

theorem incomplete_call_waits:
  assumes "ch_usesStreamProtocol ch" "valid_call rq" "fragments_ok bs" "agrees s (frames bs)"
    "take 28 s = xdr_uint (rq_header rq) @ rpc_call rq" "\<not> cut_in_mark bs (length s)" "length s < length (frames bs)"
    "length (past @ s) < 4294967296" "roomy h"
  shows "ksxdr_xdrClientHandler_HandleRequest n ch sv (receiving (past @ s) (length past) h) =
    HDone OV_ERR_OK (receiving (past @ s) (length past)
      (h\<lparr>hs_msgState := XDR_MSGST_SUCCESS, hs_ksErrCode := 0, hs_service := no_packet,
         hs_ConnectionTimeOut := ch_timeoutIncomplete ch\<rparr>))"
proof -
  define h1 where "h1 = h\<lparr>hs_msgState := XDR_MSGST_SUCCESS, hs_ksErrCode := 0, hs_service := no_packet\<rparr>"
  have room: "roomy h1" using assms(9) by (simp add: h1_def)
  have l28: "length (xdr_uint (rq_header rq) @ rpc_call rq) = 28" by (simp add: rpc_call_def)
  then have "28 \<le> length s" using assms(5) by (metis length_take min_def nat_le_linear)
  then have "stands (past @ s) (length past) (xdr_uint (rq_header rq) @ rpc_call rq)"
    unfolding stands_def l28 using assms(5) by simp
  then have decode: "on_received (decode_request True) (receiving (past @ s) (length past) h1) =
      HDone (Inr rq) (receiving (past @ s) (length past + 28) h1)"
    using on_received_law [OF request_reads [of True rq, simplified], of "past @ s" "length past" h1] assms(8) room l28 by simp
  have "bufferHoldsCompleteRequest (length past) (pkt (past @ s) (length past + 28)) =
      XDone (False, OV_ERR_OK) (pkt (past @ s) (length past + 28))"
    using buffer_holds_frames [OF assms(3,4,8)] assms(6,7) by simp
  then have "on_received (bufferHoldsCompleteRequest (length past)) (receiving (past @ s) (length past + 28) h1) =
      HDone (Inr (False, OV_ERR_OK)) (receiving (past @ s) (length past + 28) h1)"
    using roomy_same [OF room] room
    by (simp add: on_received_def on_packet_def receiving_def roomy_def pkt_split)
  then have "complete_request ch (length past) (rq_header rq) (receiving (past @ s) (length past + 28) h1) =
      HDone (Inl OV_ERR_OK) (receiving (past @ s) (length past) (h1\<lparr>hs_ConnectionTimeOut := ch_timeoutIncomplete ch\<rparr>))"
    by (simp add: complete_request_def hbind_HDone Ov_Fail_def hdone_def) (simp add: receiving_def pkt_def)
  then show ?thesis
    using decode assms(1,2)
    by (simp add: ksxdr_xdrClientHandler_HandleRequest_def hbind_HDone valid_call_def hstep_def Let_def hdone_def
        flip: h1_def)
qed

lemma read_uint_beyond:
  assumes "r \<le> length d" "length d < 4294967296"
    "\<And>v. r + 4 \<le> length d \<Longrightarrow> k v (pkt d (r + 4)) = XUndefined"
  shows "xbind KS_DATAPACKET_read_xdr_uint k (pkt d r) = XUndefined"
  using assms by (simp add: KS_DATAPACKET_read_xdr_uint_def xbind_def fetch_pkt xdone_def)

text \<open>C23: A request on a stream of which fewer than the 28 bytes of its header have arrived is not waited for: the
  routines that read the header check only that the read pointer is inside the packet, and read behind its end.\<close>

theorem short_request_overruns:
  assumes "ch_usesStreamProtocol ch" "length s < 28" "length (past @ s) < 4294967296" "roomy h"
  shows "ksxdr_xdrClientHandler_HandleRequest n ch sv (receiving (past @ s) (length past) h) = HUndefined"
proof -
  have "decode_request True (pkt (past @ s) (length past)) = XUndefined"
    unfolding decode_request_def if_True
    by ((rule read_uint_beyond, use assms(3) in simp, use assms(3) in simp)+) (use assms(2) in simp)
  then have "on_received (decode_request True) (receiving (past @ s) (length past)
      (h\<lparr>hs_msgState := XDR_MSGST_SUCCESS, hs_ksErrCode := 0, hs_service := no_packet\<rparr>)) = HUndefined"
    using assms(4) by (simp add: on_received_def on_packet_def receiving_def roomy_def pkt_split)
  then show ?thesis
    using assms(1) by (simp add: ksxdr_xdrClientHandler_HandleRequest_def hbind_def Let_def)
qed


section \<open>Tickets\<close>

lemma ask_unknown:
  assumes "\<forall>x\<in>set auths. fst x \<noteq> f" "hs_msgState h = XDR_MSGST_SUCCESS"
  shows "\<exists>e. ask_authenticators f auths None h = HDone None (h\<lparr>hs_ksErrCode := e\<rparr>)"
  using assms
proof (induction auths arbitrary: h)
  case Nil
  have "h = h\<lparr>hs_ksErrCode := hs_ksErrCode h\<rparr>" by simp
  then show ?case by (metis ask_authenticators.simps(1) hdone_def)
next
  case (Cons x auths)
  have n: "h\<lparr>hs_msgState := XDR_MSGST_SUCCESS, hs_ksErrCode := e\<rparr> = h\<lparr>hs_ksErrCode := e\<rparr>" for e
    using Cons.prems(2) by (cases h) simp
  from Cons.IH [of "h\<lparr>hs_ksErrCode := KS_ERR_UNKNOWNAUTH\<rparr>"] Cons.prems show ?case
    by (cases x) (auto simp: n)
qed

text \<open>C24: A ticket of a type that no authenticator has is not refused: the service is dispatched without a ticket,
  and a call whose procedure is not implemented, which changes nothing itself, ends with the ticket that is not there
  being dereferenced for the reply.\<close>

theorem unknown_ticket_dereferenced:
  assumes "valid_call rq" "c = ticket_call rq cred verf f b" "rq_header rq = call_header ch c"
    "length cred < 255" "length verf < 255" "length c < 16777216"
    "length (past @ call_bytes ch c @ rest) < 4294967296" "length a < 16777136" "roomy h"
    "f \<noteq> OV_TT_NONE" "sv_authenticators sv (ks_db (hs_ks h)) = Some auths" "\<forall>x\<in>set auths. fst x \<noteq> f"
    "service_of n sv (rq_ProgVersion rq) None (rq_procedure rq) = None" "sv_extension sv rq None = None"
  shows "ksxdr_xdrClientHandler_HandleRequest n ch sv
    (receiving (past @ call_bytes ch c @ rest) (length past) (answering a h)) = HUndefined"
proof -
  let ?d = "past @ call_bytes ch c @ rest"
  define r where "r = length past + length (call_bytes ch c) - length (xdr_uint f @ b)"
  define h3 where "h3 = (accepted ch h)\<lparr>hs_receivedCalls := hs_receivedCalls h + 1\<rparr>"
  note received = call_received [OF assms(1) assms(2) [unfolded ticket_call_def] assms(3-7,9), folded r_def]
  have same: "hs_ks h3 = hs_ks h" "hs_msgState h3 = XDR_MSGST_SUCCESS" "roomy h3"
    using assms(9) by (simp_all add: h3_def)
  have at: "stands ?d r (xdr_uint f)" using received(2) by simp
  let ?h4 = "receiving ?d (r + 4) (answering a h3)"
  from ask_unknown [OF assms(12), of ?h4] same(2) obtain e where
    "ask_authenticators f auths None ?h4 = HDone None (?h4\<lparr>hs_ksErrCode := e\<rparr>)" by auto
  then have get: "get_ticket sv f ?h4 = HDone None (receiving ?d (r + 4) (answering a (h3\<lparr>hs_ksErrCode := e\<rparr>)))"
    using assms(10,11) same(1) by (simp add: get_ticket_def)
  have no_reply: "send_reply ch rq f None (answering a g) = HUndefined" if "roomy g" for g :: "'a HS"
  proof -
    note m = length_blank_mark [of ch] and l = length_rpc_reply [of "rq_xid rq" XDR_MSG_ACCEPTED "hs_msgState g"]
    let ?w = "(a @ blank_mark ch) @ rpc_reply (rq_xid rq) XDR_MSG_ACCEPTED (hs_msgState g)"
    have "on_answer (ksxdr_create_global_answer (rq_xid rq) XDR_MSG_ACCEPTED (hs_msgState g)) (answering (a @ blank_mark ch) g) =
        HDone (Inr ()) (answering ?w g)"
      using assms(8) m l that by (intro on_answer_law reply_writes) simp_all
    moreover have "on_answer (KS_DATAPACKET_write_xdr_uint (Some f)) (answering ?w g) = HDone (Inr ()) (answering (?w @ xdr_uint f) g)"
      using assms(8) m l that by (intro on_answer_law uint_writes) simp_all
    ultimately show ?thesis
      using mark_answer_law [OF _ that] assms(8)
      by (simp add: send_reply_def ksxdr_xdrClientHandler_encodeReplyHeader_def hbind_HDone)
        (simp add: hbind_def hundefined_def)
  qed
  have unserved: "rq_procedure rq \<notin> {KS_REGISTER, KS_UNREGISTER}"
    using assms(13) by (auto simp: service_of_def Let_def service_numbers)
  let ?g = "h3\<lparr>hs_msgState := XDR_MSGST_SUCCESS, hs_ksErrCode := result_code OV_ERR_NOTIMPLEMENTED, hs_received := no_packet\<rparr>"
  have dispatched: "dispatch n ch sv rq None (receiving ?d (r + 4) (answering a (h3\<lparr>hs_ksErrCode := e\<rparr>))) =
      HDone (Inr ()) (answering a ?g)"
    using assms(13,14) unserved
    by (simp add: dispatch_def Let_def hdone_def) (simp add: receiving_def answering_def pkt_def ksbase_free_KSDATAPACKET_def)
  have "roomy ?g" using same(3) by (simp add: roomy_def)
  then have "serve_request n ch sv rq (receiving ?d r (answering a (accepted ch h))) = HUndefined"
    using ticket_law [OF assms(7) at, of "answering a h3"] get dispatched no_reply same
    by (simp add: serve_request_def hbind_HDone hstep_def flip: h3_def)
  then show ?thesis using received(1) by simp
qed


section \<open>An example\<close>

text \<open>A server whose database logs what is set (\<open>log_ops\<close>), with the ticket of callers without one, no
  authenticators and no extensions; a channel, and calls on it.\<close>

definition log_ticket :: OV_TICKET where
  "log_ticket = \<lparr>tk_type = 0, tk_id = None, tk_access = OV_AC_READWRITE\<rparr>"

definition log_server :: "objptr option list rpc_server" where
  "log_server = undefined\<lparr>sv_ops := log_ops, sv_noneauth := (\<lambda>d. Some log_ticket), sv_authenticators := (\<lambda>d. Some []),
     sv_extension := (\<lambda>rq t. None)\<rparr>"

definition log_handler :: "objptr option list HS" where
  "log_handler = \<lparr>hs_received = no_packet, hs_service = no_packet, hs_answer = no_packet,
     hs_ks = \<lparr>ks_grants = [], ks_db = []\<rparr>, hs_msgState = 0, hs_ksErrCode = 0, hs_receivedCalls = 0, hs_ConnectionTimeOut = 0\<rparr>"

definition log_channel :: channel where
  "log_channel = \<lparr>ch_usesStreamProtocol = True, ch_isLocal = False, ch_timeoutIncomplete = 1, ch_connectionTimeout = 60\<rparr>"

definition log_request :: "OV_UINT \<Rightarrow> OV_UINT \<Rightarrow> nat \<Rightarrow> rpc_request" where
  "log_request rpcVersion procedure len = \<lparr>rq_header = mark_word True len, rq_xid = 5, rq_messageType = 0,
     rq_rpcVersion = rpcVersion, rq_progId = KSXDR_PROGRAMNUMBER, rq_ProgVersion = 2, rq_procedure = procedure\<rparr>"

lemma length_fill_4: "length (fill 4) = 0" "length (fill 0) = 0" "length (fill 2) = 2" "length (fill (Suc (Suc 0))) = 2"
  by (simp_all add: fill_def)

lemma length_log_call: "length (ticket_call (log_request v p len) [] [] f b) = 44 + length b"
  by (simp add: ticket_call_def rpc_call_def rpc_auth_def xdr_opaque_def length_fill_4)

lemma log_valid: "valid_call (log_request 2 p len)"
  by (simp add: valid_call_def check_request_def log_request_def rpc_numbers)

lemma log_item_length: "length (xdr_array xdr_setvar [log_item ''/a'']) = 32"
  by (simp add: xdr_array_def xdr_setvar_def log_item_def xdr_props_def xdr_time_def xdr_string_def xdr_opaque_def
      bytes_of_def content_def length_fill_4)

definition log_call :: "byte list" where
  "log_call = ticket_call (log_request 2 KS_SETVAR 76) [] [] OV_TT_NONE (xdr_array xdr_setvar [log_item ''/a''])"

theorem setvar_call_answered_witness:
  "\<exists>h'. ksxdr_xdrClientHandler_HandleRequest 5 log_channel log_server
      (receiving ([] @ call_bytes log_channel log_call @ []) (length ([] :: byte list)) (answering [] log_handler)) = HDone OV_ERR_OK h' \<and>
    hs_ks h' = \<lparr>ks_grants = [], ks_db = [Some 2]\<rparr> \<and>
    hs_answer h' = packet (written (framed log_channel [] (service_reply (log_request 2 KS_SETVAR 76) 0 (xdr_array xdr_uint [0])))) \<and>
    hs_received h' = (if ([] :: byte list) = [] then no_packet
      else packet (pkt ([] @ call_bytes log_channel log_call @ []) (length ([] :: byte list) + length (call_bytes log_channel log_call)))) \<and>
    hs_receivedCalls h' = hs_receivedCalls log_handler + 1"
proof (rule setvar_call_answered [where items = "[log_item ''/a'']" and e = 0 and rs = "[0]" and t = log_ticket
      and cred = "[]" and verf = "[]"])
  note l = length_log_call log_item_length
  show "rq_header (log_request 2 KS_SETVAR 76) = call_header log_channel log_call"
    by (simp add: call_header_def log_channel_def log_call_def l) (simp add: log_request_def)
  show "length log_call < 16777216" by (simp add: log_call_def l)
  show "length ([] @ call_bytes log_channel log_call @ []) < 2147483648" by (simp add: call_bytes_def log_call_def l)
  show "ov_ksserver_setvar (sv_ops log_server) (rq_ProgVersion (log_request 2 KS_SETVAR 76)) (Some log_ticket)
      (map normal_setvar [log_item ''/a'']) (hs_ks log_handler) = Some ((0, [0]), \<lparr>ks_grants = [], ks_db = [Some 2]\<rparr>)"
    by (simp add: ov_ksserver_setvar_def service_frame_def log_ticket_def log_server_def log_handler_def log_ops_def log_item_def
        normal_setvar_def as_read_def content_def ks_grant_def log_element_def ov_ksserver_setvar_setitem_def
        OV_AC_READWRITE_def OV_AC_WRITE_def OV_ET_VARIABLE_def OV_ET_OBJECT_def OV_ET_MEMBER_def)
  show "\<forall>i\<in>set [log_item ''/a'']. setvar_ok 5 i"
    by (simp add: setvar_ok_def log_item_def props_ok_def string_ok_def fits_def content_def OV_VT_VOID_def)
  show "length ([] :: byte list) + length (xdr_array xdr_uint [0]) < 16777136" by (simp add: xdr_array_def)
qed (simp_all add: log_valid block_ok_def roomy_def log_handler_def log_server_def log_call_def, simp add: log_request_def)

theorem incomplete_call_waits_witness:
  "ksxdr_xdrClientHandler_HandleRequest 5 log_channel log_server
      (receiving ([] @ take 28 (frames [log_call])) (length ([] :: byte list)) log_handler) =
    HDone OV_ERR_OK (receiving ([] @ take 28 (frames [log_call])) (length ([] :: byte list))
      (log_handler\<lparr>hs_msgState := XDR_MSGST_SUCCESS, hs_ksErrCode := 0, hs_service := no_packet,
         hs_ConnectionTimeOut := ch_timeoutIncomplete log_channel\<rparr>))"
proof (rule incomplete_call_waits)
  have l: "length log_call = 76" by (simp add: log_call_def length_log_call log_item_length)
  show "fragments_ok [log_call]" by (simp add: fragments_ok_def l)
  show "agrees (take 28 (frames [log_call])) (frames [log_call])" by (simp add: agrees_def l)
  show "take 28 (take 28 (frames [log_call])) = xdr_uint (rq_header (log_request 2 KS_SETVAR 76)) @ rpc_call (log_request 2 KS_SETVAR 76)"
    by (simp add: l) (simp add: log_call_def ticket_call_def rpc_call_def log_request_def)
  show "\<not> cut_in_mark [log_call] (length (take 28 (frames [log_call])))" by (simp add: l)
  show "length (take 28 (frames [log_call])) < length (frames [log_call])" by (simp add: l)
  show "length ([] @ take 28 (frames [log_call])) < 4294967296" by (simp add: l)
qed (simp_all add: log_channel_def log_valid roomy_def log_handler_def)

theorem short_request_overruns_witness:
  "ksxdr_xdrClientHandler_HandleRequest 5 log_channel log_server (receiving ([] @ [0, 0, 0]) (length ([] :: byte list)) log_handler) = HUndefined"
  by (rule short_request_overruns) (simp_all add: log_channel_def roomy_def log_handler_def)


theorem unknown_ticket_dereferenced_witness:
  "ksxdr_xdrClientHandler_HandleRequest 5 log_channel log_server
    (receiving ([] @ call_bytes log_channel (ticket_call (log_request 2 0x99 44) [] [] 1 []) @ []) (length ([] :: byte list))
      (answering [] log_handler)) = HUndefined"
proof (rule unknown_ticket_dereferenced [where cred = "[]" and verf = "[]" and f = 1 and b = "[]" and auths = "[]"])
  show "rq_header (log_request 2 0x99 44) = call_header log_channel (ticket_call (log_request 2 0x99 44) [] [] 1 [])"
    by (simp add: call_header_def log_channel_def length_log_call) (simp add: log_request_def)
  show "service_of 5 log_server (rq_ProgVersion (log_request 2 0x99 44)) None (rq_procedure (log_request 2 0x99 44)) = None"
    by (simp add: service_of_def log_request_def service_numbers)
  show "length (ticket_call (log_request 2 0x99 44) [] [] 1 []) < 16777216" by (simp add: length_log_call)
  show "length ([] @ call_bytes log_channel (ticket_call (log_request 2 0x99 44) [] [] 1 []) @ []) < 4294967296"
    by (simp add: call_bytes_def length_log_call)
qed (simp_all add: log_valid roomy_def log_handler_def log_server_def rpc_numbers)


section \<open>Answers that wait\<close>

text \<open>On a stream the mark of an answer is right exactly if no earlier answer waits in the packet: the length
  in it counts the waiting bytes, and whoever reads the stream expects that many more.\<close>

lemma answer_mark_right_when_first:
  assumes "ch_usesStreamProtocol ch" "length a + length b < 16777216"
  shows "framed ch a b = a @ frames [b] \<longleftrightarrow> a = []"
proof
  assume "framed ch a b = a @ frames [b]"
  then have "xdr_uint (mark_word True (length a + length b)) = xdr_uint (mark_word True (length b))"
    using assms(1) by (simp add: framed_def)
  then have "mark_word True (length a + length b) = mark_word True (length b)" by (metis join4_encoding)
  then have "fragment_length (mark_word True (length a + length b)) = fragment_length (mark_word True (length b))" by simp
  then show "a = []" using assms(2) by simp
qed (use assms in \<open>simp add: framed_def\<close>)

end
