(* ===== verification/Spec2Isabelle.thy ===== *)
theory Spec2Isabelle
  imports OvTime OvString OvScheduler OvAssociation OvAssociationNM OvVector OvParts OvPath OvMemstack OvIdList FbTask FbConnection FbBlock SscChart OvResult SscAction OvMallocHeap OvObjectRename OvObjectId StdBlocks StdStrings XdrHandlerLaws
begin

text \<open>
  The run-time environment ACPLT/RTE: models of its object management core (libov), of the
  function block execution built on it and of the server side of its network protocol, from the bytes
  of a call to the changes of the database and the bytes of the reply, with the theorems that make
  them correct.

  The program. An ACPLT/OV server keeps a database of objects in a memory-mapped file. Objects have
  classes, variables, and links to other objects by associations (1:1, 1:n, n:m), which are doubly
  linked lists through the link tables of the objects. Objects are addressed by path names. A
  scheduler calls execute functions of objects at their times. On top of it the library fb runs
  trees of cyclic tasks and function blocks, driven by one root task (the urtask) that is an event
  of the scheduler, and the library ssc runs sequential state charts, which are function blocks
  whose steps are linked and unlinked as tasks while they run. Short-living memory comes from a
  stack with a reference count, and strings in the database are allocated with a limit. Clients talk
  to the server in ACPLT/KS, whose requests and answers are coded in the external data
  representation (XDR) in data packets. The handler of a client (library ksxdr) takes a call from
  the packet of its channel, checks its header and its ticket, has the parameters of the service
  decoded, the service executed on the database (library ksbase) and the results encoded.

  Theories and sources (src/core/ov/source/libov, src/syslibs, src/addonlibs).
  OvPrelude: machine words, results, characters. OvOrder: the contract \<open>comparator\<close> of three-way
  comparison functions, with sorted insertion; interpreted for times and for strings.
  OvTime (ov_time.c): times and spans of two 32-bit words; addition, difference, comparison, the
  clock, the conversion to ticks of 100 ns since 1601.
  OvString (ov_string.c): database strings (\<open>NULL\<close> is the empty string), comparison, splitting, values
  with a length limit, vectors, case conversion.
  OvScheduler (ov_scheduler.c): the event queue as a list in the order of the \<open>pnext\<close> pointers, with the
  address of each event; registering, moving and executing events.
  OvDll: doubly linked lists, as pointer functions that represent a list. OvChildren: the contract
  \<open>ordered_children\<close> of an association as its clients use it, with their lemmas (moving, clearing).
  OvAssociation (ov_association.c, ov_association.h, the cast of ov_class.c): links between objects
  on the level of the heads, anchors and link objects in the link tables; the refinement of the 1:n
  case to lists of children, which interprets \<open>ordered_children\<close>. OvAssociationNM: the refinement of
  the n:m case to two families of lists.
  OvElement (ov_element.c): children and parts of an element. OvPercent, OvPath (ov_path.c): percent
  encoding, canonical paths, resolving a path to the list of its elements.
  OvParts (ov_element.c): the enumeration of the parts of an element, and their names.
  OvMemstack (ov_memstack.c): the memory stack as a list of pages of addresses.
  OvIdList (ov_database.c): the list of nodes that maps the ids of objects to their addresses, with
  bisection in the nodes. OvVector (ov_vector.c): static and dynamic vectors as bytes or string slots.
  OvMalloc (libml/ml_malloc.c, ml_free.c, ml_realloc.c, ov_database.c): the allocator of the database,
  with lists of free blocks and of free fragments of every power of two. OvMallocLists: its lists as
  HOL lists; OvMallocSafe: the heap as regions without gaps, the invariant; OvMallocFree and
  OvMallocAlloc: freeing and allocating keep it; OvMallocHeap: the contract \<open>memory\<close> of the clients,
  interpreted by the functions of the database.
  OvResult (ov_result.c): result codes as numbers, and their texts.
  OvObject (ov_class.c, ov_object.c): creating, deleting and renaming objects, on the lists of links
  that OvAssociation refines to and the id list of OvIdList; the methods of the classes are
  parameters. OvObjectTree: the tree of objects that a deletion reaches, and what it cuts.
  OvObjectCreate: the preinitialisation lets such a tree grow. OvObjectRename: the objects stay a
  forest. OvObjectId: the names made of ids.
  FbTask (fb/source/fb_task.c): tasks, their process times, life cycle and execution.
  FbConnection (fb_connection.c, fb_connectionlinks.c, the triggers of fb_object.c): connections
  between the ports of function blocks; the state \<open>fb_objects\<close> holds the tasks of FbTask, the
  connections, their links, and the store of the variables.
  FbBlock (fb_functionblock.c, fb_object.c, fb_ports.c, fb_functionchart.c, the access of fb_task.c):
  the execution of function blocks, tasks and charts on that state, variables and access rights.
  SscChart (ssc/source/SequentialStateChart.c, step.c, transition.c): state charts.
  SscAction (actionBlock*.c, assoc_*.c, fb_functionchart.c): the actions of the steps, which find
  their targets with the path names of OvPath and execute them as FbBlock does, and the links of the
  transitions.
  StdBlocks, StdStrings (addonlibs/functionblock/iec61131stdfb): edges, counters, timers, shifts and
  latches; the string functions, on the strings of OvString.
  XdrPacket (ksbase_helper.c, KSDATAPACKET_xdrhandling.c): data packets, and the readers and writers of
  numbers, strings, opaque data and arrays. XdrLaws: the encoding of XDR by arithmetic, the laws of
  readers and writers, and the contract \<open>codec\<close>, whose arrays are codecs again. XdrValue,
  XdrValueLaws (KSDATAPACKET_xdrhandling_ov_specific.c): times and values of variables, which
  interpret \<open>codec\<close>. XdrItems, XdrItemLaws (ksxdr_*.c, the same file): the items of the parameters and
  results of every service, which interpret \<open>codec\<close> as well.
  KsBackend (ksbase/source/ovks_backend_*.c): the services on the database. What they call of libov
  (resolving paths, the access methods, links, creation) is the record \<open>ops\<close> over a database of any
  type. KsLaws: the contract \<open>ks_service\<close> of a service (it changes nothing without the right, and gives
  an error code or the results), interpreted by all eight; the order of items and initial values.
  XdrServices (ksxdr_*.c): decoding, executing and encoding as one operation on the state \<open>HS\<close> of
  the handler, which holds the packet received, the body of the answer, the answer and the database.
  XdrFrames (xdrClientHandler.c): the marks of fragments, and putting fragments together in place.
  XdrHandler (xdrClientHandler.c, xdrSimpleTicketAuthenticator.c): \<open>HandleRequest\<close> with its steps in the
  order of the code, tickets and replies. XdrHandlerLaws: the handler on the bytes of whole calls,
  from XdrItemLaws and KsLaws.

  Correspondence. A C struct is a record with the fields of the struct, one Isabelle function per C
  function under its name, with helper functions for its parts where it is long; the table of
  definitions gives the lines of each. Machine integers are 32-bit or 64-bit words; pointers are
  addresses, the null pointer is \<open>None\<close>; error codes are the datatype \<open>OV_RESULT\<close>. Values from outside
  are arguments: the readings of the clock, what an allocation returns, the objects around the
  modelled part. Undefined behaviour (a null pointer, an uninitialised value or memory behind a
  string is read) and loops that do not end are the result \<open>None\<close>; the routines of XdrPacket pass the
  packet and the decisions of the allocators on, with undefined behaviour as \<open>XUndefined\<close>, and the
  services and the handler do the same with \<open>None\<close> and \<open>HUndefined\<close> on their states.

  Fuel. Loops over pointers and recursions over the object tree have an argument \<open>fuel\<close>, and the
  theorems name an amount that is enough: the number of linked objects for the loops of the
  associations, the number of classes for casts, the depth of the object for paths, the number of
  cycles missed for process times, the number of children for their execution, the number of nodes
  for the id list, the number of parts for their enumeration, the number of links for the triggers,
  the size of the pool for the lists of the allocator.
  The reading of values has the depth of recursion that the stack admits; the nesting of the value is
  enough. The loop over the working state of a chart needs two rounds. The recursions over objects are partial
  functions, shown to return for every tree of objects and for classes whose parts are smaller.

  Lemma groups. Associations: linking is insertion at the placement asked for and unlinking is
  removal, both on every pointer, for 1:n and for both sides of n:m; searches and counts read the
  list; failed calls change nothing. Scheduler: the queue stays sorted with distinct cells, events of
  the same time are served in order, no event waits for ever. Paths: the canonical path of an object
  resolves to the object, in both path versions, through percent encoding. Memory stack: blocks are
  aligned, inside their pages and disjoint until the last unlock, which frees every page. Times:
  addition and difference are exact where the result can be held; conversions round and saturate as
  stated. Strings: comparison is a total order on values, splitting is inverse to joining, failed
  assignments change nothing. Tasks: process times stay on the grid of the cycle, children run once
  and in order, the invariant of queue, tree and modes. Charts: the loop over the working state is
  the command automaton, transitions move the activity, a reset activates the init step. Parts: the
  enumeration meets every part once and the search finds the first with the name. Id list: insertion
  and release are update and removal in a map, the search is its lookup. Vectors: the length and the
  bytes fit after every operation. Allocator: the regions of the heap stay without gaps and overlaps,
  the calls refine a map from addresses to byte strings, the statistics are exact. Connections: the kept elements are those of the named ports,
  values go from the source to the target only, connections are triggered once and in order. Blocks:
  a failed block is switched off; without connections the execution is that of FbTask. Actions: the
  named block is executed once and its settings come back. Objects: a deletion removes the tree of
  the object and nothing else, a creation does everything or nothing and is undone by the deletion,
  renaming keeps the forest. Standard blocks: counters count edges and stop at the limit, the on-delay
  timer switches after the preset time of uninterrupted input and the off-delay timer is its
  negation, the string functions give the parts of the string that the standard names. XDR: writing
  appends the encoding, reading gives the value back, for all types and any nesting, and for the
  parameters and results of the services. Services: no change without the right of the service, paths
  relative to the last one, initial values in order up to the first failure. Handler: a complete
  call of SetVar without a ticket does to the database what the service does, and is answered with the encoding
  of its results; fragments are put together; what has not arrived is waited for; calls of other
  protocols, programs and versions are refused; a wrong password changes nothing.
  Some theorems state what the code does where that is not what it means to do (identifiers of 64
  bits, the root in paths by id, exit actions, saturated spans, gaps and long arrays in the id list,
  hidden failures and refused commands of actions, names of one letter, aborted moves, rotations by multiples of 32, lengths and counts of a message
  that are believed, headers read before they have arrived, tickets of unknown types, marks of
  answers behind other answers).

  Not modelled. Files and memory mapping, sockets, the channels and the loop that
  calls the handler, the client side of KS, the manager of servers, HTTP and OPC UA, log output,
  signal handling, code generation and tools, vendored code, mutexes, floating point. Of the modelled files: ASCII
  times, formatted strings and patterns; loading and layout of associations; the double arithmetic of
  \<open>fb_set_proctime\<close>; the deletion of classes and associations. The methods of objects change states and
  values in OvObject, not the objects and links.
  Of the services of KS, the enumerations GetEP and GetPP and the reading of one variable for GetVar are
  parameters: they walk over the tables of the classes, which are loaded from generated definitions
  and are not modelled; so are the registration of servers and the extensions of the handler.
  The conversions of fb_setvar.c and ANYtoANY.c are floating point throughout, and the rest of the
  source is vendored, generated, or input and output.
\<close>

end
